(* ===== verification/Actor_Prelude.thy ===== *)
theory Actor_Prelude
  imports Main "HOL-Library.AList"
begin

text \<open>
  Shared vocabulary of the development: the rule collections the component theories fill, the
  decimal rendering of integers used by template strings of the source, insertion-ordered maps
  (the JavaScript \<open>Map\<close>), and the generic interface the components instantiate: a machine whose
  operations keep an invariant.
\<close>

named_theorems op_defs \<open>definitions of component operations, unfolded by case analysis proofs\<close>

type_synonym ms = int
  \<comment> \<open>a clock reading or a duration in milliseconds (\<open>Date.now()\<close>)\<close>

section \<open>Decimal rendering of integers\<close>

fun digit_char :: "nat \<Rightarrow> char" where
  "digit_char n = char_of (48 + n mod 10)"

fun nat_digits :: "nat \<Rightarrow> string" where
  "nat_digits n = (if n < 10 then [digit_char n] else nat_digits (n div 10) @ [digit_char n])"

declare nat_digits.simps [simp del]

definition int_text :: "int \<Rightarrow> string" where
  "int_text i = (if i < 0 then ''-'' @ nat_digits (nat (- i)) else nat_digits (nat i))"

lemma digit_char_code: "of_char (digit_char n) = 48 + n mod 10"
  by simp

lemma digit_char_inject: "digit_char m = digit_char n \<longleftrightarrow> m mod 10 = n mod 10"
  using digit_char_code [of m] digit_char_code [of n] by (metis add_left_cancel digit_char.simps)

lemma nat_digits_nonempty [simp]: "nat_digits n \<noteq> []"
  by (subst nat_digits.simps) simp

lemma nat_digits_inject [simp]: "nat_digits m = nat_digits n \<longleftrightarrow> m = n"
proof (induction m arbitrary: n rule: less_induct)
  case (less m)
  show ?case
  proof
    assume eq: "nat_digits m = nat_digits n"
    have last: "last (nat_digits k) = digit_char k" for k by (subst nat_digits.simps) simp
    have butlast: "butlast (nat_digits k) = (if k < 10 then [] else nat_digits (k div 10))" for k
      by (subst nat_digits.simps) simp
    have "m mod 10 = n mod 10" using last [of m] last [of n] eq digit_char_inject by metis
    moreover have "m < 10 \<longleftrightarrow> n < 10" using butlast [of m] butlast [of n] eq nat_digits_nonempty by (metis)
    moreover have "m div 10 = n div 10" if "\<not> m < 10"
      using butlast [of m] butlast [of n] eq that calculation(2) less.IH [of "m div 10" "n div 10"] by simp
    ultimately show "m = n" by (metis div_less mod_div_mult_eq)
  qed simp
qed

lemma nat_digits_minus: "CHR ''-'' \<notin> set (nat_digits n)"
proof (induction n rule: less_induct)
  case (less n)
  have "of_char (digit_char n) \<noteq> (of_char (CHR ''-'') :: nat)" unfolding digit_char_code by simp
  then have "CHR ''-'' \<noteq> digit_char n" by metis
  then show ?case using less [of "n div 10"] by (subst nat_digits.simps) auto
qed

section \<open>White space\<close>

text \<open>The characters below 256 that \<open>trim\<close> removes.\<close>

definition js_space :: "char \<Rightarrow> bool" where
  "js_space c \<longleftrightarrow> of_char c \<in> set [9, 10, 11, 12, 13, 32, 160 :: nat]"

definition blank :: "string \<Rightarrow> bool" where
  "blank s \<longleftrightarrow> list_all js_space s"

definition trim :: "string \<Rightarrow> string" where
  "trim s = rev (dropWhile js_space (rev (dropWhile js_space s)))"

text \<open>\<open>String.includes\<close>.\<close>

fun has_substring :: "string \<Rightarrow> string \<Rightarrow> bool" where
  "has_substring [] w = (w = [])"
| "has_substring (c # cs) w = (take (length w) (c # cs) = w \<or> has_substring cs w)"

section \<open>Insertion-ordered maps\<close>

text \<open>
  A JavaScript \<open>Map\<close> iterates in the order of first insertion: setting a key that is present
  keeps its position, setting a new key appends it, deleting removes it. \<open>AList.update\<close> and
  \<open>AList.delete\<close> are exactly these operations.
\<close>

type_synonym ('k, 'v) omap = "('k \<times> 'v) list"

abbreviation omap_get :: "('k, 'v) omap \<Rightarrow> 'k \<Rightarrow> 'v option" where
  "omap_get m \<equiv> map_of m"

abbreviation omap_set :: "'k \<Rightarrow> 'v \<Rightarrow> ('k, 'v) omap \<Rightarrow> ('k, 'v) omap" where
  "omap_set \<equiv> AList.update"

abbreviation omap_delete :: "'k \<Rightarrow> ('k, 'v) omap \<Rightarrow> ('k, 'v) omap" where
  "omap_delete \<equiv> AList.delete"

abbreviation omap_keys :: "('k, 'v) omap \<Rightarrow> 'k list" where
  "omap_keys m \<equiv> map fst m"

lemma omap_get_set [simp]: "omap_get (omap_set k v m) k' = (if k' = k then Some v else omap_get m k')"
  by (simp add: update_conv')

lemma omap_get_delete [simp]: "omap_get (omap_delete k m) k' = (if k' = k then None else omap_get m k')"
  by (simp add: delete_conv')

lemma omap_keys_set: "set (omap_keys (omap_set k v m)) = insert k (set (omap_keys m))"
  by (induction m) auto

lemma omap_get_None: "omap_get m k = None \<longleftrightarrow> k \<notin> set (omap_keys m)"
  by (simp add: map_of_eq_None_iff)

lemma distinct_omap_set [simp]: "distinct (omap_keys m) \<Longrightarrow> distinct (omap_keys (omap_set k v m))"
  by (rule distinct_update)

lemma distinct_omap_delete [simp]:
  "distinct (omap_keys m) \<Longrightarrow> distinct (omap_keys (omap_delete k m))"
  by (rule distinct_delete)

lemma length_omap_set:
  "length (omap_set k v m) = (if k \<in> set (omap_keys m) then length m else Suc (length m))"
  by (induction m) auto

section \<open>Machines with an invariant\<close>

text \<open>
  A component is a deterministic machine: a state, its operations as events, one step function
  that also says what the caller observes. \<open>run_machine\<close> performs a sequence of events and
  collects the observations.
\<close>

fun run_machine :: "('e \<Rightarrow> 's \<Rightarrow> 'o \<times> 's) \<Rightarrow> 'e list \<Rightarrow> 's \<Rightarrow> 'o list \<times> 's" where
  "run_machine step [] s = ([], s)"
| "run_machine step (e # es) s =
     (let (out, s1) = step e s; (outs, s2) = run_machine step es s1 in (out # outs, s2))"

lemma run_machine_append:
  "run_machine step (es @ fs) s =
     (let (o1, s1) = run_machine step es s; (o2, s2) = run_machine step fs s1 in (o1 @ o2, s2))"
  by (induction es arbitrary: s) (auto simp: Let_def split: prod.splits)

locale invariant_machine =
  fixes step :: "'e \<Rightarrow> 's \<Rightarrow> 'o \<times> 's"
    and inv :: "'s \<Rightarrow> bool"
  assumes inv_step: "inv s \<Longrightarrow> inv (snd (step e s))"
begin

lemma inv_run: "inv s \<Longrightarrow> inv (snd (run_machine step es s))"
proof (induction es arbitrary: s)
  case (Cons e es)
  have "inv (snd (run_machine step es (snd (step e s))))"
    by (rule Cons.IH) (rule inv_step [OF Cons.prems])
  then show ?case by (simp add: split_beta Let_def)
qed simp

lemma inv_every_prefix:
  assumes "inv s"
  shows "inv (snd (run_machine step (take n es) s))"
  by (rule inv_run [OF assms])

end

end
