(* ===== verification/Message_Buffer.thy ===== *)
theory Message_Buffer
  imports Actor_Prelude
begin

text \<open>
  The contract between a buffer of messages (the mailbox of an actor) and the loop that empties
  it: what an actor's processing relies on, stated once over abstract operations. \<open>put\<close> says
  whether the message was taken in (queued at once, or parked until there is room), \<open>pop\<close>
  removes the oldest message. Both read the clock. Everything the clients need is proved here from
  the laws alone; the mailbox theory discharges the laws for the code's model.
\<close>

datatype ('t, 'm) buffer_op = Put 't 'm | Take 't

fun run_buffer :: "('t \<Rightarrow> 'm \<Rightarrow> 'b \<Rightarrow> bool \<times> 'b) \<Rightarrow> ('t \<Rightarrow> 'b \<Rightarrow> 'm option \<times> 'b) \<Rightarrow>
    ('t, 'm) buffer_op list \<Rightarrow> 'b \<Rightarrow> 'm list \<times> 'm list \<times> 'b" where
  "run_buffer put pop [] b = ([], [], b)"
| "run_buffer put pop (Put t m # ops) b =
     (let (ok, b1) = put t m b; (acc, del, b2) = run_buffer put pop ops b1
      in (if ok then m # acc else acc, del, b2))"
| "run_buffer put pop (Take t # ops) b =
     (let (x, b1) = pop t b; (acc, del, b2) = run_buffer put pop ops b1
      in (acc, (case x of None \<Rightarrow> del | Some m \<Rightarrow> m # del), b2))"

fun drain :: "('t \<Rightarrow> 'b \<Rightarrow> 'm option \<times> 'b) \<Rightarrow> 't list \<Rightarrow> 'b \<Rightarrow> 'm list \<times> 'b" where
  "drain pop [] b = ([], b)"
| "drain pop (t # ts) b =
     (case pop t b of
        (None, b1) \<Rightarrow> ([], b1)
      | (Some m, b1) \<Rightarrow> apfst (Cons m) (drain pop ts b1))"

locale fifo_buffer =
  fixes put :: "'t \<Rightarrow> 'm \<Rightarrow> 'b \<Rightarrow> bool \<times> 'b"
    and pop :: "'t \<Rightarrow> 'b \<Rightarrow> 'm option \<times> 'b"
    and contents :: "'b \<Rightarrow> 'm list"
    and inv :: "'b \<Rightarrow> bool"
  assumes put_inv: "inv b \<Longrightarrow> inv (snd (put t m b))"
    and pop_inv: "inv b \<Longrightarrow> inv (snd (pop t b))"
    and put_contents:
      "inv b \<Longrightarrow> contents (snd (put t m b)) = contents b @ (if fst (put t m b) then [m] else [])"
    and pop_result: "inv b \<Longrightarrow> fst (pop t b) = (case contents b of [] \<Rightarrow> None | m # _ \<Rightarrow> Some m)"
    and pop_contents: "inv b \<Longrightarrow> contents (snd (pop t b)) = tl (contents b)"
begin

lemma fifo_run:
  assumes "inv b" and "run_buffer put pop ops b = (acc, del, b1)"
  shows "contents b @ acc = del @ contents b1 \<and> inv b1"
  using assms
proof (induction ops arbitrary: b acc del b1)
  case (Cons x ops)
  show ?case
  proof (cases x)
    case (Put t m)
    obtain ok c where p: "put t m b = (ok, c)" by fastforce
    obtain acc' where r: "run_buffer put pop ops c = (acc', del, b1)"
      and acc: "acc = (if ok then m # acc' else acc')"
      using Cons.prems(2) Put p by (auto split: prod.splits)
    have "contents c @ acc' = del @ contents b1 \<and> inv b1"
      using Cons.IH r put_inv [OF Cons.prems(1), of t m] p by simp
    then show ?thesis using put_contents [OF Cons.prems(1), of t m] p acc by (auto split: if_splits)
  next
    case (Take t)
    obtain y c where p: "pop t b = (y, c)" by fastforce
    obtain del' where r: "run_buffer put pop ops c = (acc, del', b1)"
      and del: "del = (case y of None \<Rightarrow> del' | Some m \<Rightarrow> m # del')"
      using Cons.prems(2) Take p by (auto split: prod.splits)
    have "contents c @ acc = del' @ contents b1 \<and> inv b1"
      using Cons.IH r pop_inv [OF Cons.prems(1), of t] p by simp
    then show ?thesis
      using pop_contents [OF Cons.prems(1), of t] pop_result [OF Cons.prems(1), of t] p del
      by (cases "contents b") auto
  qed
qed simp

lemma pop_None: "inv b \<Longrightarrow> fst (pop t b) = None \<longleftrightarrow> contents b = []"
  by (simp add: pop_result split: list.splits)

lemma drain_prefix:
  assumes "inv b"
  shows "fst (drain pop ts b) = take (length ts) (contents b)
       \<and> contents (snd (drain pop ts b)) = drop (length ts) (contents b)
       \<and> inv (snd (drain pop ts b))"
  using assms
proof (induction ts arbitrary: b)
  case (Cons t ts)
  obtain y c where p: "pop t b = (y, c)" by fastforce
  have inv_c: "inv c" using pop_inv [OF Cons.prems, of t] p by simp
  have c: "contents c = tl (contents b)" using pop_contents [OF Cons.prems, of t] p by simp
  have y: "y = (case contents b of [] \<Rightarrow> None | m # _ \<Rightarrow> Some m)"
    using pop_result [OF Cons.prems, of t] p by simp
  show ?case
    using Cons.IH [OF inv_c] c y p inv_c by (cases "contents b") auto
qed simp

lemma drain_all:
  assumes "inv b" and "length (contents b) \<le> length ts"
  shows "fst (drain pop ts b) = contents b \<and> contents (snd (drain pop ts b)) = []"
  using drain_prefix [OF assms(1), of ts] assms(2) by simp

end

end
