(* ===== verification/Mailbox.thy ===== *)
theory Mailbox
  imports Message_Buffer Complex_Main
begin

text \<open>
  \<open>packages/actor-core-runtime/src/messaging/mailbox.ts\<close>: the bounded mailbox every actor owns.
  The queue is a list of envelopes, the parked senders a list of promises waiting for space. A
  promise is a ticket number, and settling it (\<open>resolve\<close>, \<open>reject\<close>) is an entry of the settlement
  log, so that \<^emph>\<open>which\<close> sender was answered, and how often, can be stated. The clock
  (\<open>Date.now()\<close>) is an argument of the operations that read it.

  The lemmas show the capacity bound, first-in first-out delivery (a refinement of an unbounded
  queue), that the counters account for every message, and that every parked promise is settled
  at most once and, once the mailbox is stopped, exactly once.
\<close>

section \<open>Data\<close>

datatype overflow_strategy = DROP | PARK | FAIL

record 'm envelope =
  env_id :: string
  env_message :: 'm
  env_enqueue_time :: ms

record mailbox_statistics =
  stat_size :: nat
  stat_capacity :: int
  stat_total_enqueued :: nat
  stat_total_dequeued :: nat
  stat_total_dropped :: nat
  stat_total_failed :: nat
  stat_utilization_ratio :: rat

record mailbox_config =
  cfg_capacity :: int
  cfg_overflow :: overflow_strategy
  cfg_metrics :: bool

datatype mailbox_error = MailboxError string overflow_strategy | AdapterFailure string

record 'm parked_sender =
  pk_ticket :: nat
  pk_message :: 'm

datatype settlement = Resolved nat bool | Rejected nat mailbox_error

record 'm mailbox =
  mb_config :: mailbox_config
  mb_queue :: "'m envelope list"
  mb_parked :: "'m parked_sender list"
  mb_stopped :: bool
  mb_enqueued :: nat
  mb_dequeued :: nat
  mb_dropped :: nat
  mb_failed :: nat
  mb_next_ticket :: nat
  mb_settled :: "settlement list"

datatype enqueue_reply = Enqueued | Dropped | Parked nat | Raised mailbox_error

section \<open>Operations\<close>

definition new_mailbox :: "mailbox_config \<Rightarrow> mailbox_error + 'm mailbox" where
  "new_mailbox cfg =
     (if cfg_capacity cfg \<le> 0
      then Inl (AdapterFailure ''Mailbox capacity must be greater than 0'')
      else Inr \<lparr>mb_config = cfg, mb_queue = [], mb_parked = [], mb_stopped = False,
                mb_enqueued = 0, mb_dequeued = 0, mb_dropped = 0, mb_failed = 0,
                mb_next_ticket = 0, mb_settled = []\<rparr>)"

definition create :: "int option \<Rightarrow> overflow_strategy option \<Rightarrow> bool option \<Rightarrow>
    mailbox_error + 'm mailbox" where
  "create capacity strategy metrics =
     new_mailbox \<lparr>cfg_capacity = (case capacity of None \<Rightarrow> 1000 | Some c \<Rightarrow> c),
                  cfg_overflow = (case strategy of None \<Rightarrow> DROP | Some s \<Rightarrow> s),
                  cfg_metrics = (case metrics of None \<Rightarrow> True | Some b \<Rightarrow> b)\<rparr>"

definition dropping :: "int \<Rightarrow> mailbox_error + 'm mailbox" where
  "dropping capacity = create (Some capacity) (Some DROP) (Some True)"

definition parking :: "int \<Rightarrow> mailbox_error + 'm mailbox" where
  "parking capacity = create (Some capacity) (Some PARK) (Some True)"

definition failing :: "int \<Rightarrow> mailbox_error + 'm mailbox" where
  "failing capacity = create (Some capacity) (Some FAIL) (Some True)"

abbreviation mb_capacity :: "'m mailbox \<Rightarrow> int" where
  "mb_capacity mb \<equiv> cfg_capacity (mb_config mb)"

definition statistics :: "'m mailbox \<Rightarrow> mailbox_statistics" where
  "statistics mb =
     \<lparr>stat_size = length (mb_queue mb), stat_capacity = mb_capacity mb,
      stat_total_enqueued = mb_enqueued mb, stat_total_dequeued = mb_dequeued mb,
      stat_total_dropped = mb_dropped mb, stat_total_failed = mb_failed mb,
      stat_utilization_ratio = of_nat (length (mb_queue mb)) / of_int (mb_capacity mb)\<rparr>"

definition mb_size :: "'m mailbox \<Rightarrow> nat" where
  "mb_size mb = length (mb_queue mb)"

definition is_full :: "'m mailbox \<Rightarrow> bool" where
  "is_full mb \<longleftrightarrow> mb_capacity mb \<le> int (length (mb_queue mb))"

definition is_empty_mb :: "'m mailbox \<Rightarrow> bool" where
  "is_empty_mb mb \<longleftrightarrow> length (mb_queue mb) = 0"

definition generate_message_id :: "ms \<Rightarrow> string" where
  "generate_message_id now = ''msg-'' @ int_text now"

definition do_enqueue :: "ms \<Rightarrow> 'm \<Rightarrow> 'm mailbox \<Rightarrow> 'm mailbox" where
  "do_enqueue now m mb =
     mb\<lparr>mb_queue := mb_queue mb @
          [\<lparr>env_id = generate_message_id now, env_message = m, env_enqueue_time = now\<rparr>],
        mb_enqueued := Suc (mb_enqueued mb)\<rparr>"

definition park_sender :: "'m \<Rightarrow> 'm mailbox \<Rightarrow> enqueue_reply \<times> 'm mailbox" where
  "park_sender m mb =
     (Parked (mb_next_ticket mb),
      mb\<lparr>mb_parked := mb_parked mb @ [\<lparr>pk_ticket = mb_next_ticket mb, pk_message = m\<rparr>],
         mb_next_ticket := Suc (mb_next_ticket mb)\<rparr>)"

definition stopped_reason :: string where
  "stopped_reason = ''Cannot enqueue to stopped mailbox''"

definition capacity_reason :: "int \<Rightarrow> string" where
  "capacity_reason capacity =
     ''Mailbox capacity exceeded ('' @ int_text capacity @ ''). Message dropped.''"

lemma capacity_not_stopped [simp]: "capacity_reason c \<noteq> stopped_reason"
  by (simp add: capacity_reason_def stopped_reason_def)

definition enqueue :: "ms \<Rightarrow> 'm \<Rightarrow> 'm mailbox \<Rightarrow> enqueue_reply \<times> 'm mailbox" where
  "enqueue now m mb =
     (if mb_stopped mb
      then (Raised (MailboxError stopped_reason (cfg_overflow (mb_config mb))), mb)
      else if int (length (mb_queue mb)) < mb_capacity mb then (Enqueued, do_enqueue now m mb)
      else (case cfg_overflow (mb_config mb) of
              DROP \<Rightarrow> (Dropped, mb\<lparr>mb_dropped := Suc (mb_dropped mb)\<rparr>)
            | FAIL \<Rightarrow>
                (Raised (MailboxError (capacity_reason (mb_capacity mb)) FAIL),
                 mb\<lparr>mb_failed := Suc (mb_failed mb)\<rparr>)
            | PARK \<Rightarrow> park_sender m mb))"

definition try_unpark_sender :: "ms \<Rightarrow> 'm mailbox \<Rightarrow> 'm mailbox" where
  "try_unpark_sender now mb =
     (case mb_parked mb of
        [] \<Rightarrow> mb
      | p # ps \<Rightarrow>
          if is_full mb then mb
          else let mb1 = do_enqueue now (pk_message p) (mb\<lparr>mb_parked := ps\<rparr>)
               in mb1\<lparr>mb_settled := mb_settled mb1 @ [Resolved (pk_ticket p) True]\<rparr>)"

definition dequeue :: "ms \<Rightarrow> 'm mailbox \<Rightarrow> 'm option \<times> 'm mailbox" where
  "dequeue now mb =
     (if mb_stopped mb then (None, mb)
      else (case mb_queue mb of
              [] \<Rightarrow> (None, mb)
            | e # es \<Rightarrow>
                (Some (env_message e),
                 try_unpark_sender now
                   (mb\<lparr>mb_queue := es, mb_dequeued := Suc (mb_dequeued mb)\<rparr>))))"

definition reject_all_parked :: "string \<Rightarrow> 'm mailbox \<Rightarrow> 'm mailbox" where
  "reject_all_parked reason mb =
     mb\<lparr>mb_parked := [],
        mb_settled := mb_settled mb @
          map (\<lambda>p. Rejected (pk_ticket p) (MailboxError reason PARK)) (mb_parked mb)\<rparr>"

definition clear_mb :: "'m mailbox \<Rightarrow> 'm mailbox" where
  "clear_mb mb = reject_all_parked ''Mailbox cleared'' (mb\<lparr>mb_queue := []\<rparr>)"

definition stop_mb :: "'m mailbox \<Rightarrow> 'm mailbox" where
  "stop_mb mb = reject_all_parked ''Mailbox stopped'' (clear_mb (mb\<lparr>mb_stopped := True\<rparr>))"

lemmas mailbox_ops [op_defs] =
  enqueue_def dequeue_def clear_mb_def stop_mb_def reject_all_parked_def park_sender_def
  do_enqueue_def try_unpark_sender_def is_full_def

section \<open>The mailbox as a machine\<close>

datatype 'm mailbox_op = Enq ms 'm | Deq ms | Clear | Stop

datatype 'm mailbox_obs = Replied enqueue_reply | Delivered "'m option" | Cleared

fun mailbox_step :: "'m mailbox_op \<Rightarrow> 'm mailbox \<Rightarrow> 'm mailbox_obs \<times> 'm mailbox" where
  "mailbox_step (Enq now m) mb = apfst Replied (enqueue now m mb)"
| "mailbox_step (Deq now) mb = apfst Delivered (dequeue now mb)"
| "mailbox_step Clear mb = (Cleared, clear_mb mb)"
| "mailbox_step Stop mb = (Cleared, stop_mb mb)"

section \<open>Well-formedness\<close>

text \<open>
  The capacity is positive and never exceeded, somebody is parked only while the queue is full
  and the strategy is \<open>PARK\<close>, and a stopped mailbox holds nothing. The last two conjuncts say
  that the tickets handed out are exactly the parked and the settled ones, each once.
\<close>

fun settled_ticket :: "settlement \<Rightarrow> nat" where
  "settled_ticket (Resolved t b) = t"
| "settled_ticket (Rejected t e) = t"

definition mb_tickets :: "'m mailbox \<Rightarrow> nat list" where
  "mb_tickets mb = map settled_ticket (mb_settled mb) @ map pk_ticket (mb_parked mb)"

definition mailbox_wf :: "'m mailbox \<Rightarrow> bool" where
  "mailbox_wf mb \<longleftrightarrow>
     0 < mb_capacity mb
   \<and> int (length (mb_queue mb)) \<le> mb_capacity mb
   \<and> (mb_parked mb \<noteq> [] \<longrightarrow> is_full mb \<and> cfg_overflow (mb_config mb) = PARK)
   \<and> (mb_stopped mb \<longrightarrow> mb_queue mb = [] \<and> mb_parked mb = [])
   \<and> distinct (mb_tickets mb)
   \<and> set (mb_tickets mb) = {..<mb_next_ticket mb}"

lemma mailbox_wfI:
  assumes "0 < mb_capacity mb" "int (length (mb_queue mb)) \<le> mb_capacity mb"
    "mb_parked mb \<noteq> [] \<Longrightarrow> is_full mb \<and> cfg_overflow (mb_config mb) = PARK"
    "mb_stopped mb \<Longrightarrow> mb_queue mb = [] \<and> mb_parked mb = []"
    "distinct (mb_tickets mb)" "set (mb_tickets mb) = {..<mb_next_ticket mb}"
  shows "mailbox_wf mb"
  using assms by (auto simp: mailbox_wf_def)

lemma mailbox_wfD:
  assumes "mailbox_wf mb"
  shows "0 < mb_capacity mb" "int (length (mb_queue mb)) \<le> mb_capacity mb"
    "mb_parked mb \<noteq> [] \<Longrightarrow> mb_capacity mb \<le> int (length (mb_queue mb))"
    "mb_stopped mb \<Longrightarrow> mb_queue mb = []" "mb_stopped mb \<Longrightarrow> mb_parked mb = []"
    "mb_queue mb = [] \<Longrightarrow> mb_parked mb = []"
  using assms unfolding mailbox_wf_def is_full_def by force+

lemma new_mailbox_wf: "new_mailbox cfg = Inr mb \<Longrightarrow> mailbox_wf mb"
  by (auto simp: new_mailbox_def mailbox_wf_def mb_tickets_def split: if_splits)

lemma enqueue_wf: "mailbox_wf mb \<Longrightarrow> mailbox_wf (snd (enqueue now m mb))"
  by (auto simp: mailbox_wf_def enqueue_def do_enqueue_def park_sender_def is_full_def
      mb_tickets_def lessThan_Suc split: overflow_strategy.splits)

lemma try_unpark_tickets:
  "set (mb_tickets (try_unpark_sender now mb)) = set (mb_tickets mb)"
  "distinct (mb_tickets (try_unpark_sender now mb)) = distinct (mb_tickets mb)"
  by (auto simp: try_unpark_sender_def do_enqueue_def mb_tickets_def Let_def split: list.splits)

lemma try_unpark_frame [simp]:
  "mb_config (try_unpark_sender now mb) = mb_config mb"
  "mb_stopped (try_unpark_sender now mb) = mb_stopped mb"
  "mb_next_ticket (try_unpark_sender now mb) = mb_next_ticket mb"
  "mb_dequeued (try_unpark_sender now mb) = mb_dequeued mb"
  "mb_dropped (try_unpark_sender now mb) = mb_dropped mb"
  "mb_failed (try_unpark_sender now mb) = mb_failed mb"
  by (auto simp: try_unpark_sender_def do_enqueue_def Let_def split: list.splits)

lemma dequeue_wf: "mailbox_wf mb \<Longrightarrow> mailbox_wf (snd (dequeue now mb))"
proof (cases "mb_stopped mb \<or> mb_queue mb = []")
  case False
  assume wf: "mailbox_wf mb"
  from False obtain e es where q: "mb_queue mb = e # es" and run: "\<not> mb_stopped mb"
    by (cases "mb_queue mb") auto
  define mb1 where "mb1 = mb\<lparr>mb_queue := es, mb_dequeued := Suc (mb_dequeued mb)\<rparr>"
  have tk: "mb_tickets mb1 = mb_tickets mb" by (simp add: mb1_def mb_tickets_def)
  have "mailbox_wf (try_unpark_sender now mb1)"
  proof (rule mailbox_wfI)
    show "distinct (mb_tickets (try_unpark_sender now mb1))"
      "set (mb_tickets (try_unpark_sender now mb1)) = {..<mb_next_ticket (try_unpark_sender now mb1)}"
      using wf by (simp_all add: try_unpark_tickets tk) (simp_all add: mailbox_wf_def mb1_def)
  qed (use wf q run in \<open>auto simp: mailbox_wf_def mb1_def try_unpark_sender_def is_full_def
        do_enqueue_def Let_def split: list.splits if_splits\<close>)
  then show ?thesis using q run by (simp add: dequeue_def mb1_def)
qed (auto simp: dequeue_def split: list.splits)

lemma reject_all_tickets [simp]: "mb_tickets (reject_all_parked r mb) = mb_tickets mb"
  by (simp add: reject_all_parked_def mb_tickets_def comp_def)

lemma clear_wf: "mailbox_wf mb \<Longrightarrow> mailbox_wf (clear_mb mb)"
  by (rule mailbox_wfI)
    (auto simp: clear_mb_def, auto simp: reject_all_parked_def mailbox_wf_def mb_tickets_def)

lemma stop_wf: "mailbox_wf mb \<Longrightarrow> mailbox_wf (stop_mb mb)"
  by (rule mailbox_wfI)
    (auto simp: stop_mb_def clear_mb_def,
     auto simp: reject_all_parked_def mailbox_wf_def mb_tickets_def)

interpretation mb_machine: invariant_machine mailbox_step mailbox_wf
proof
  fix mb :: "'m mailbox" and e :: "'m mailbox_op"
  assume "mailbox_wf mb"
  then show "mailbox_wf (snd (mailbox_step e mb))"
    by (cases e) (simp_all add: enqueue_wf dequeue_wf clear_wf stop_wf)
qed

section \<open>First in, first out\<close>

text \<open>
  What the mailbox still owes, oldest first: the queue and then the parked messages. Over this
  list \<open>enqueue\<close> and \<open>dequeue\<close> are the two ends of an unbounded queue.
\<close>

definition mb_waiting :: "'m mailbox \<Rightarrow> 'm list" where
  "mb_waiting mb = map env_message (mb_queue mb) @ map pk_message (mb_parked mb)"

definition mb_accepted :: "enqueue_reply \<Rightarrow> bool" where
  "mb_accepted r \<longleftrightarrow> (case r of Enqueued \<Rightarrow> True | Parked t \<Rightarrow> True | _ \<Rightarrow> False)"

definition mb_put :: "ms \<Rightarrow> 'm \<Rightarrow> 'm mailbox \<Rightarrow> bool \<times> 'm mailbox" where
  "mb_put now m mb = apfst mb_accepted (enqueue now m mb)"

lemma enqueue_waiting:
  "mailbox_wf mb \<Longrightarrow>
   mb_waiting (snd (enqueue now m mb)) =
     mb_waiting mb @ (if mb_accepted (fst (enqueue now m mb)) then [m] else [])"
  using mailbox_wfD(3) [of mb] by (cases "mb_parked mb = []")
    (auto simp: mb_waiting_def mb_accepted_def enqueue_def do_enqueue_def
      park_sender_def split: overflow_strategy.splits)

lemma try_unpark_waiting [simp]: "mb_waiting (try_unpark_sender now mb) =
   (if is_full mb then mb_waiting mb
    else map env_message (mb_queue mb) @ map pk_message (mb_parked mb))"
  by (auto simp: mb_waiting_def try_unpark_sender_def do_enqueue_def Let_def split: list.splits)

lemma dequeue_waiting:
  assumes "mailbox_wf mb"
  shows "fst (dequeue now mb) = (case mb_waiting mb of [] \<Rightarrow> None | m # _ \<Rightarrow> Some m)"
    and "mb_waiting (snd (dequeue now mb)) = tl (mb_waiting mb)"
proof -
  have nil: "mb_queue mb = [] \<Longrightarrow> mb_waiting mb = []"
    using mailbox_wfD(6) [OF assms] by (simp add: mb_waiting_def)
  have stopped: "mb_stopped mb \<Longrightarrow> mb_waiting mb = []"
    using mailbox_wfD(4,5) [OF assms] by (simp add: mb_waiting_def)
  show "fst (dequeue now mb) = (case mb_waiting mb of [] \<Rightarrow> None | m # _ \<Rightarrow> Some m)"
    using nil stopped by (auto simp: dequeue_def mb_waiting_def split: list.splits)
  show "mb_waiting (snd (dequeue now mb)) = tl (mb_waiting mb)"
    using nil stopped by (auto simp: dequeue_def split: list.splits) (simp_all add: mb_waiting_def)
qed

interpretation mailbox_buffer: fifo_buffer mb_put dequeue mb_waiting mailbox_wf
proof
  fix mb :: "'m mailbox" and now m
  assume wf: "mailbox_wf mb"
  show "mailbox_wf (snd (mb_put now m mb))" using enqueue_wf [OF wf] by (simp add: mb_put_def)
  show "mailbox_wf (snd (dequeue now mb))" by (rule dequeue_wf [OF wf])
  show "mb_waiting (snd (mb_put now m mb)) =
      mb_waiting mb @ (if fst (mb_put now m mb) then [m] else [])"
    using enqueue_waiting [OF wf] by (simp add: mb_put_def)
  show "fst (dequeue now mb) = (case mb_waiting mb of [] \<Rightarrow> None | m # _ \<Rightarrow> Some m)"
    by (rule dequeue_waiting(1) [OF wf])
  show "mb_waiting (snd (dequeue now mb)) = tl (mb_waiting mb)"
    by (rule dequeue_waiting(2) [OF wf])
qed

lemma new_mailbox_waiting: "new_mailbox cfg = Inr mb \<Longrightarrow> mb_waiting mb = []"
  by (auto simp: new_mailbox_def mb_waiting_def split: if_splits)

text \<open>
  C1. A mailbox is a first-in first-out queue, whatever its overflow strategy: over any
  interleaving of \<open>enqueue\<close> and \<open>dequeue\<close> calls on a fresh mailbox, the messages it took in (queued
  or parked; dropped and refused ones are not taken in) are, in order, exactly the messages it has
  delivered followed by those still waiting in the queue and in the parked senders.
\<close>
theorem mailbox_fifo:
  assumes "new_mailbox cfg = Inr mb"
    and "run_buffer mb_put dequeue ops mb = (accepted, delivered, mb1)"
  shows "accepted = delivered @ mb_waiting mb1"
  using mailbox_buffer.fifo_run [OF new_mailbox_wf [OF assms(1)] assms(2)]
    new_mailbox_waiting [OF assms(1)] by simp

text \<open>A parking mailbox of capacity one: the second message waits with its sender.\<close>

definition sample_config :: mailbox_config where
  "sample_config = \<lparr>cfg_capacity = 1, cfg_overflow = PARK, cfg_metrics = True\<rparr>"

definition sample_mailbox :: "nat mailbox" where
  "sample_mailbox = (case new_mailbox sample_config of Inr mb \<Rightarrow> mb)"

lemma sample_new: "new_mailbox sample_config = Inr sample_mailbox"
  by (simp add: sample_mailbox_def new_mailbox_def sample_config_def)

lemma mailbox_fifo_witness:
  "fst (run_buffer mb_put dequeue [Put 0 (7::nat), Put 1 8, Take 2] sample_mailbox) = [7, 8]
   \<and> fst (snd (run_buffer mb_put dequeue [Put 0 (7::nat), Put 1 8, Take 2] sample_mailbox)) = [7]
   \<and> [7, 8] = [7] @ mb_waiting
       (snd (snd (run_buffer mb_put dequeue [Put 0 (7::nat), Put 1 8, Take 2] sample_mailbox)))"
proof -
  obtain acc del mb1 where r:
    "run_buffer mb_put dequeue [Put 0 (7::nat), Put 1 8, Take 2] sample_mailbox = (acc, del, mb1)"
    by (metis prod_cases3)
  have "acc = [7, 8] \<and> del = [7]"
    using r by (auto simp: sample_mailbox_def new_mailbox_def sample_config_def mb_put_def
        mb_accepted_def op_defs)
  with mailbox_fifo [OF sample_new r] show ?thesis unfolding r by simp
qed

section \<open>Counters and promises\<close>

definition mb_offered :: "'m mailbox_op list \<Rightarrow> nat" where
  "mb_offered es = length (filter (\<lambda>e. case e of Enq now m \<Rightarrow> True | _ \<Rightarrow> False) es)"

fun was_rejected :: "settlement \<Rightarrow> bool" where
  "was_rejected (Rejected t e) = True"
| "was_rejected (Resolved t b) = False"

fun was_refused_stopped :: "'m mailbox_obs \<Rightarrow> bool" where
  "was_refused_stopped (Replied (Raised (MailboxError r s))) = (r = stopped_reason)"
| "was_refused_stopped _ = False"

definition mb_refused_stopped :: "'m mailbox_obs list \<Rightarrow> nat" where
  "mb_refused_stopped outs = length (filter was_refused_stopped outs)"

text \<open>Every message ever offered is in exactly one of these places.\<close>

definition mb_accounted :: "'m mailbox \<Rightarrow> nat" where
  "mb_accounted mb =
     mb_enqueued mb + mb_dropped mb + mb_failed mb + length (mb_parked mb)
     + length (filter was_rejected (mb_settled mb))"

lemma enqueue_accounted:
  "mb_accounted (snd (enqueue now m mb)) + mb_refused_stopped [Replied (fst (enqueue now m mb))]
     = Suc (mb_accounted mb)"
  by (auto simp: mb_accounted_def mb_refused_stopped_def enqueue_def do_enqueue_def park_sender_def
      split: overflow_strategy.splits)

lemma dequeue_accounted [simp]: "mb_accounted (snd (dequeue now mb)) = mb_accounted mb"
  by (auto simp: mb_accounted_def dequeue_def try_unpark_sender_def do_enqueue_def Let_def
      split: list.splits)

lemma reject_all_accounted [simp]: "mb_accounted (reject_all_parked r mb) = mb_accounted mb"
  by (simp add: mb_accounted_def reject_all_parked_def comp_def)

lemma clear_accounted [simp]: "mb_accounted (clear_mb mb) = mb_accounted mb"
  by (simp add: clear_mb_def) (simp add: mb_accounted_def)

lemma stop_accounted [simp]: "mb_accounted (stop_mb mb) = mb_accounted mb"
  by (simp add: stop_mb_def) (simp add: mb_accounted_def)

lemma mb_offered_Cons: "mb_offered (e # es) = mb_offered [e] + mb_offered es"
  by (simp add: mb_offered_def)

lemma mb_refused_Cons: "mb_refused_stopped (x # xs) = mb_refused_stopped [x] + mb_refused_stopped xs"
  by (simp add: mb_refused_stopped_def)

lemma step_accounted:
  "mb_accounted (snd (mailbox_step e mb)) + mb_refused_stopped [fst (mailbox_step e mb)]
     = mb_accounted mb + mb_offered [e]"
proof (cases e)
  case (Enq now m)
  then show ?thesis using enqueue_accounted [of now m mb] by (simp add: mb_offered_def)
qed (simp_all add: mb_offered_def mb_refused_stopped_def)

lemma run_accounted:
  "run_machine mailbox_step es mb = (outs, mb1) \<Longrightarrow>
   mb_accounted mb1 + mb_refused_stopped outs = mb_accounted mb + mb_offered es"
proof (induction es arbitrary: mb outs)
  case (Cons e es)
  obtain out mb2 where s: "mailbox_step e mb = (out, mb2)" by fastforce
  obtain outs' where r: "run_machine mailbox_step es mb2 = (outs', mb1)" and outs: "outs = out # outs'"
    using Cons.prems s by (auto simp: Let_def split: prod.splits)
  show ?case
    using Cons.IH [OF r] step_accounted [of e mb] s outs
      mb_offered_Cons [of e es] mb_refused_Cons [of out outs'] by simp
qed (simp add: mb_offered_def mb_refused_stopped_def)

text \<open>
  C34. Over any sequence of calls (\<open>enqueue\<close>, \<open>dequeue\<close>, \<open>clear\<close>, \<open>stop\<close>) the queue never exceeds the
  configured capacity, senders are parked only while it is full, and the statistics account for
  every message offered: each was enqueued, dropped, failed, is still parked, had its promise
  rejected, or was refused because the mailbox was stopped.
\<close>
theorem mailbox_bounded_and_accounted:
  assumes "new_mailbox cfg = Inr mb" and "run_machine mailbox_step es mb = (outs, mb1)"
  shows "int (length (mb_queue mb1)) \<le> mb_capacity mb1
    \<and> (mb_parked mb1 = [] \<or> int (length (mb_queue mb1)) = mb_capacity mb1)
    \<and> mb_offered es = mb_enqueued mb1 + mb_dropped mb1 + mb_failed mb1 + length (mb_parked mb1)
           + length (filter was_rejected (mb_settled mb1)) + mb_refused_stopped outs"
proof (intro conjI)
  have wf: "mailbox_wf mb1"
    using mb_machine.inv_run [OF new_mailbox_wf [OF assms(1)], of es] assms(2) by simp
  show "int (length (mb_queue mb1)) \<le> mb_capacity mb1"
    by (rule mailbox_wfD(2) [OF wf])
  then show "mb_parked mb1 = [] \<or> int (length (mb_queue mb1)) = mb_capacity mb1"
    using mailbox_wfD(3) [OF wf] by (cases "mb_parked mb1 = []") auto
  have "mb_accounted mb = 0"
    using assms(1) by (auto simp: new_mailbox_def mb_accounted_def split: if_splits)
  then show "mb_offered es = mb_enqueued mb1 + mb_dropped mb1 + mb_failed mb1 + length (mb_parked mb1)
           + length (filter was_rejected (mb_settled mb1)) + mb_refused_stopped outs"
    using run_accounted [OF assms(2)] by (simp add: mb_accounted_def)
qed

lemma stop_stopped [simp]:
  "mb_stopped (stop_mb mb)" "mb_parked (stop_mb mb) = []" "mb_queue (stop_mb mb) = []"
  by (simp_all add: stop_mb_def reject_all_parked_def clear_mb_def)

lemma stopped_step:
  "mb_stopped mb \<Longrightarrow> mb_parked mb = [] \<Longrightarrow>
   let mb1 = snd (mailbox_step e mb) in
     mb_stopped mb1 \<and> mb_parked mb1 = [] \<and> mb_settled mb1 = mb_settled mb
     \<and> mb_next_ticket mb1 = mb_next_ticket mb \<and> (\<forall>m. fst (mailbox_step e mb) \<noteq> Delivered (Some m))"
  by (cases e) (simp_all add: enqueue_def dequeue_def clear_mb_def stop_mb_def reject_all_parked_def)

lemma stopped_run:
  assumes "mb_stopped mb" "mb_parked mb = []" "run_machine mailbox_step es mb = (outs, mb1)"
  shows "mb_stopped mb1 \<and> mb_parked mb1 = [] \<and> mb_settled mb1 = mb_settled mb
    \<and> mb_next_ticket mb1 = mb_next_ticket mb \<and> (\<forall>m. Delivered (Some m) \<notin> set outs)"
  using assms
proof (induction es arbitrary: mb outs)
  case (Cons e es)
  then show ?case
    using stopped_step [of mb e]
    by (fastforce simp: Let_def split: prod.splits)
qed simp

text \<open>
  No parked sender is ever left hanging and none is answered twice: once the mailbox is
  stopped, after any history and whatever is called afterwards, every promise handed out by a
  parking \<open>enqueue\<close> has been settled exactly once, and no message is delivered any more.
\<close>
theorem mailbox_promises_settled:
  assumes "new_mailbox cfg = Inr mb"
    and "run_machine mailbox_step (es @ Stop # fs) mb = (outs, mb1)"
  shows "distinct (map settled_ticket (mb_settled mb1))
    \<and> set (map settled_ticket (mb_settled mb1)) = {..<mb_next_ticket mb1}
    \<and> (\<forall>m. Delivered (Some m) \<notin> set (drop (length es) outs))"
proof -
  obtain o1 mb2 where r1: "run_machine mailbox_step es mb = (o1, mb2)" by fastforce
  obtain o2 where r2: "run_machine mailbox_step fs (stop_mb mb2) = (o2, mb1)"
    and outs: "outs = o1 @ Cleared # o2"
    using assms(2) r1 by (auto simp: run_machine_append Let_def split: prod.splits)
  have len: "length o1 = length es"
    using r1 by (induction es arbitrary: mb o1) (auto simp: Let_def split: prod.splits)
  have wf: "mailbox_wf mb1"
    using mb_machine.inv_run [OF new_mailbox_wf [OF assms(1)], of "es @ Stop # fs"] assms(2) by simp
  note after = stopped_run [OF stop_stopped(1,2) r2]
  have "distinct (map settled_ticket (mb_settled mb1))"
    "set (map settled_ticket (mb_settled mb1)) = {..<mb_next_ticket mb1}"
    using wf after by (simp_all add: mailbox_wf_def mb_tickets_def)
  then show ?thesis using after outs len by simp
qed

lemma mailbox_bounded_witness:
  "int (length (mb_queue (snd (run_machine mailbox_step [Enq 0 7, Enq 1 8] sample_mailbox)))) \<le>
     mb_capacity (snd (run_machine mailbox_step [Enq 0 7, Enq 1 8] sample_mailbox))
   \<and> mb_parked (snd (run_machine mailbox_step [Enq 0 7, Enq 1 8] sample_mailbox)) \<noteq> []"
proof -
  obtain outs mb1 where r: "run_machine mailbox_step [Enq 0 7, Enq 1 8] sample_mailbox = (outs, mb1)"
    by fastforce
  have "mb_parked mb1 \<noteq> []"
    using r by (auto simp: sample_mailbox_def new_mailbox_def sample_config_def op_defs)
  then show ?thesis using r mailbox_bounded_and_accounted [OF sample_new r] by simp
qed

lemma mailbox_promises_witness:
  "set (map settled_ticket (mb_settled
      (snd (run_machine mailbox_step ([Enq 0 7, Enq 1 8] @ Stop # [Deq 3]) sample_mailbox)))) = {..<1}"
proof -
  obtain outs mb1
    where r: "run_machine mailbox_step ([Enq 0 7, Enq 1 8] @ Stop # [Deq 3]) sample_mailbox = (outs, mb1)"
    by fastforce
  have "mb_next_ticket mb1 = 1"
    using r by (auto simp: sample_mailbox_def new_mailbox_def sample_config_def op_defs)
  then show ?thesis using r mailbox_promises_settled [OF sample_new r] by simp
qed

end
