(* ===== verification/Processing_Loop.thy ===== *)
theory Processing_Loop
  imports Mailbox
begin

text \<open>
  The message loop of one local actor: \<open>enqueueMessageInternal\<close> (from the mailbox lookup on),
  \<open>startMessageProcessingLoop\<close>, \<open>processActorMessages\<close> and the parts of \<open>spawn\<close> and \<open>stopActor\<close>
  that touch the loop, in \<open>packages/actor-core-runtime/src/actor-system-impl.ts\<close>.

  JavaScript runs one job at a time, so every stretch of code between two \<open>await\<close>s is one atomic
  step. The state of the actor's address keeps what those stretches read and write: the loop and
  activity flags, the current mailbox, the number of macrotasks already scheduled for the address,
  and the invocations of \<open>processActorMessages\<close> that are suspended at an \<open>await\<close>. A suspended
  invocation holds a reference to the mailbox it started with, which need not be the current one;
  mailboxes therefore live in a store and are named by references. Test mode, in which \<open>send\<close>
  processes a message by itself, is not modelled.
\<close>

section \<open>State\<close>

datatype 'm run_phase = Delivering 'm | Supervising

record 'm run =
  run_mailbox :: nat
  run_processed :: nat
  run_phase :: "'m run_phase"

record 'm actor_cell =
  ac_behavior :: bool
  ac_loop :: bool
  ac_active :: bool
  ac_mailbox :: "nat option"
  ac_store :: "nat \<Rightarrow> 'm mailbox"
  ac_next_ref :: nat
  ac_tasks :: nat
  ac_runs :: "'m run list"
  ac_started :: "'m list"
  ac_dead_letters :: "('m \<times> string) list"
  ac_spinning :: bool

definition max_messages :: nat where
  "max_messages = 100"

definition actor_mailbox :: "'m mailbox" where
  "actor_mailbox = (case dropping 1000 of Inr mb \<Rightarrow> mb)"

definition empty_cell :: "'m actor_cell" where
  "empty_cell = \<lparr>ac_behavior = False, ac_loop = False, ac_active = False, ac_mailbox = None,
     ac_store = (\<lambda>_. actor_mailbox), ac_next_ref = 0, ac_tasks = 0, ac_runs = [],
     ac_started = [], ac_dead_letters = [], ac_spinning = False\<rparr>"

section \<open>The processing loop\<close>

definition schedule_processing :: "'m actor_cell \<Rightarrow> 'm actor_cell" where
  "schedule_processing c = c\<lparr>ac_tasks := Suc (ac_tasks c)\<rparr>"

definition start_message_processing_loop :: "'m actor_cell \<Rightarrow> 'm actor_cell" where
  "start_message_processing_loop c = schedule_processing (c\<lparr>ac_loop := True, ac_active := True\<rparr>)"

text \<open>What follows the \<open>while\<close> loop: schedule another round, or go idle.\<close>

definition finish_batch :: "nat \<Rightarrow> nat \<Rightarrow> 'm actor_cell \<Rightarrow> 'm actor_cell" where
  "finish_batch r processed c =
     (let has_more = \<not> is_empty_mb (ac_store c r); should_continue = ac_loop c
      in if max_messages \<le> processed then
           (if has_more \<and> should_continue then schedule_processing c else c\<lparr>ac_active := False\<rparr>)
         else if has_more \<and> should_continue then schedule_processing c
         else c\<lparr>ac_active := False\<rparr>)"

text \<open>
  The loop from its guard to the next \<open>await deliverMessageLocal\<close>. A mailbox that is not empty
  and yields no message would make the loop spin for ever without an \<open>await\<close>; the flag
  \<open>ac_spinning\<close> records that, and the invariant below shows it never happens.
\<close>

definition process_batch :: "ms \<Rightarrow> nat \<Rightarrow> nat \<Rightarrow> 'm actor_cell \<Rightarrow> 'm actor_cell" where
  "process_batch now r processed c =
     (if \<not> is_empty_mb (ac_store c r) \<and> ac_loop c \<and> processed < max_messages
      then (case dequeue now (ac_store c r) of
              (None, mb) \<Rightarrow> c\<lparr>ac_store := (ac_store c)(r := mb), ac_spinning := True\<rparr>
            | (Some m, mb) \<Rightarrow>
                c\<lparr>ac_store := (ac_store c)(r := mb), ac_started := ac_started c @ [m],
                  ac_runs := ac_runs c @
                    [\<lparr>run_mailbox = r, run_processed = processed, run_phase = Delivering m\<rparr>]\<rparr>)
      else finish_batch r processed c)"

definition process_actor_messages :: "ms \<Rightarrow> 'm actor_cell \<Rightarrow> 'm actor_cell" where
  "process_actor_messages now c =
     (case ac_mailbox c of
        None \<Rightarrow> c\<lparr>ac_active := False\<rparr>
      | Some r \<Rightarrow> if \<not> ac_loop c then c\<lparr>ac_active := False\<rparr>
                  else process_batch now r 0 (c\<lparr>ac_active := True\<rparr>))"

section \<open>Sending\<close>

definition wake_if_idle :: "'m actor_cell \<Rightarrow> 'm actor_cell" where
  "wake_if_idle c =
     (if ac_loop c \<and> \<not> ac_active c \<and> ac_behavior c
      then schedule_processing (c\<lparr>ac_active := True\<rparr>) else c)"

definition dead_letter :: "'m \<Rightarrow> string \<Rightarrow> 'm actor_cell \<Rightarrow> 'm actor_cell" where
  "dead_letter m reason c = c\<lparr>ac_dead_letters := ac_dead_letters c @ [(m, reason)]\<rparr>"

fun mailbox_error_text :: "mailbox_error \<Rightarrow> string" where
  "mailbox_error_text (MailboxError t s) = t"
| "mailbox_error_text (AdapterFailure t) = t"

definition enqueue_message :: "ms \<Rightarrow> 'm \<Rightarrow> 'm actor_cell \<Rightarrow> 'm actor_cell" where
  "enqueue_message now m c =
     (case ac_mailbox c of
        None \<Rightarrow> dead_letter m ''Mailbox not found for actor'' c
      | Some r \<Rightarrow>
          (let (reply, mb) = enqueue now m (ac_store c r); c1 = c\<lparr>ac_store := (ac_store c)(r := mb)\<rparr>
           in case reply of
                Dropped \<Rightarrow> dead_letter m ''Message dropped due to full mailbox'' c1
              | Enqueued \<Rightarrow> wake_if_idle c1
              | Parked t \<Rightarrow> wake_if_idle c1
              | Raised e \<Rightarrow> dead_letter m (''Failed to enqueue message: '' @ mailbox_error_text e) c1))"

section \<open>Spawning and stopping\<close>

text \<open>
  Both have an \<open>await\<close> in the middle, so each is two steps: \<open>spawn\<close> registers the behavior, waits
  for the directory, then creates the mailbox and starts the loop; \<open>stopActor\<close> stops the loop and
  the mailbox, publishes the last snapshot, then removes the behavior.
\<close>

definition spawn_begin :: "'m actor_cell \<Rightarrow> 'm actor_cell" where
  "spawn_begin c = c\<lparr>ac_behavior := True\<rparr>"

definition spawn_end :: "'m actor_cell \<Rightarrow> 'm actor_cell" where
  "spawn_end c =
     start_message_processing_loop
       (c\<lparr>ac_mailbox := Some (ac_next_ref c),
          ac_store := (ac_store c)(ac_next_ref c := actor_mailbox),
          ac_next_ref := Suc (ac_next_ref c)\<rparr>)"

definition stop_begin :: "'m actor_cell \<Rightarrow> 'm actor_cell" where
  "stop_begin c =
     (let c1 = c\<lparr>ac_loop := False, ac_active := False\<rparr>
      in case ac_mailbox c of
           None \<Rightarrow> c1
         | Some r \<Rightarrow> c1\<lparr>ac_store := (ac_store c)(r := stop_mb (ac_store c r)), ac_mailbox := None\<rparr>)"

definition stop_end :: "'m actor_cell \<Rightarrow> 'm actor_cell" where
  "stop_end c = c\<lparr>ac_behavior := False\<rparr>"

section \<open>Steps\<close>

datatype 'm loop_event =
    Send ms 'm
  | Fire ms            \<comment> \<open>a scheduled macrotask runs\<close>
  | Delivery_ok ms nat \<comment> \<open>the handler awaited by the given run returned\<close>
  | Delivery_failed nat
  | Supervised ms nat  \<comment> \<open>\<open>applySupervisionStrategy\<close> returned to the given run\<close>
  | Spawn_begin | Spawn_end | Stop_begin | Stop_end

definition remove_at :: "nat \<Rightarrow> 'a list \<Rightarrow> 'a list" where
  "remove_at i xs = take i xs @ drop (Suc i) xs"

fun is_delivering :: "'m run_phase \<Rightarrow> bool" where
  "is_delivering (Delivering m) = True"
| "is_delivering Supervising = False"

fun loop_enabled :: "'m loop_event \<Rightarrow> 'm actor_cell \<Rightarrow> bool" where
  "loop_enabled (Fire now) c = (0 < ac_tasks c)"
| "loop_enabled (Delivery_ok now i) c = (i < length (ac_runs c) \<and> is_delivering (run_phase (ac_runs c ! i)))"
| "loop_enabled (Delivery_failed i) c = (i < length (ac_runs c) \<and> is_delivering (run_phase (ac_runs c ! i)))"
| "loop_enabled (Supervised now i) c = (i < length (ac_runs c) \<and> \<not> is_delivering (run_phase (ac_runs c ! i)))"
| "loop_enabled _ c = True"

definition resume_run :: "ms \<Rightarrow> nat \<Rightarrow> nat \<Rightarrow> 'm actor_cell \<Rightarrow> 'm actor_cell" where
  "resume_run now i k c =
     (let ru = ac_runs c ! i
      in process_batch now (run_mailbox ru) (run_processed ru + k)
           (c\<lparr>ac_runs := remove_at i (ac_runs c)\<rparr>))"

fun loop_step :: "'m loop_event \<Rightarrow> 'm actor_cell \<Rightarrow> 'm actor_cell" where
  "loop_step (Send now m) c = enqueue_message now m c"
| "loop_step (Fire now) c = process_actor_messages now (c\<lparr>ac_tasks := ac_tasks c - 1\<rparr>)"
| "loop_step (Delivery_ok now i) c = resume_run now i 1 c"
| "loop_step (Delivery_failed i) c =
     c\<lparr>ac_runs := (ac_runs c)[i := (ac_runs c ! i)\<lparr>run_phase := Supervising\<rparr>]\<rparr>"
| "loop_step (Supervised now i) c = resume_run now i 0 c"
| "loop_step Spawn_begin c = spawn_begin c"
| "loop_step Spawn_end c = spawn_end c"
| "loop_step Stop_begin c = stop_begin c"
| "loop_step Stop_end c = stop_end c"

section \<open>The loop invariant\<close>

text \<open>
  A disciplined history spawns an address only when nothing of an earlier incarnation is left: no
  scheduled macrotask and no suspended run. Under it at most one macrotask or run exists, the
  activity flag says exactly that, and a message in the mailbox of a running actor implies it
  (no wake-up is lost).
\<close>

fun disciplined :: "'m loop_event \<Rightarrow> 'm actor_cell \<Rightarrow> bool" where
  "disciplined Spawn_begin c = (ac_tasks c = 0 \<and> ac_runs c = [] \<and> \<not> ac_loop c)"
| "disciplined Spawn_end c = (ac_tasks c = 0 \<and> ac_runs c = [] \<and> \<not> ac_loop c \<and> ac_behavior c)"
| "disciplined Stop_end c = (\<not> ac_loop c)"
| "disciplined e c = True"

definition loop_inv :: "'m actor_cell \<Rightarrow> bool" where
  "loop_inv c \<longleftrightarrow>
     (\<forall>r. mailbox_wf (ac_store c r))
   \<and> ac_tasks c + length (ac_runs c) \<le> 1
   \<and> (ac_loop c \<longleftrightarrow> ac_mailbox c \<noteq> None)
   \<and> (ac_loop c \<longrightarrow> ac_behavior c \<and> (ac_active c \<longleftrightarrow> ac_tasks c + length (ac_runs c) = 1))
   \<and> (ac_loop c \<longrightarrow> (\<forall>ru. ru \<in> set (ac_runs c) \<longrightarrow> ac_mailbox c = Some (run_mailbox ru)))
   \<and> (\<forall>r. ac_mailbox c = Some r \<longrightarrow> mb_queue (ac_store c r) \<noteq> [] \<longrightarrow> ac_active c)
   \<and> \<not> ac_spinning c"

lemma loop_invD:
  assumes "loop_inv c"
  shows "mailbox_wf (ac_store c r)" "ac_tasks c + length (ac_runs c) \<le> 1"
    "ac_loop c \<longleftrightarrow> ac_mailbox c \<noteq> None" "ac_loop c \<Longrightarrow> ac_behavior c"
    "ac_loop c \<Longrightarrow> ac_active c \<longleftrightarrow> ac_tasks c + length (ac_runs c) = 1"
    "ac_loop c \<Longrightarrow> ru \<in> set (ac_runs c) \<Longrightarrow> ac_mailbox c = Some (run_mailbox ru)"
    "ac_mailbox c = Some r \<Longrightarrow> mb_queue (ac_store c r) \<noteq> [] \<Longrightarrow> ac_active c"
    "\<not> ac_spinning c"
  using assms by (auto simp: loop_inv_def)

lemma actor_mailbox_new: "dropping 1000 = Inr actor_mailbox"
  by (simp add: actor_mailbox_def dropping_def create_def new_mailbox_def)

lemma actor_mailbox_wf [simp]: "mailbox_wf actor_mailbox"
  using actor_mailbox_new unfolding dropping_def create_def by (rule new_mailbox_wf)

lemma actor_mailbox_queue [simp]: "mb_queue actor_mailbox = []"
  by (simp add: actor_mailbox_def dropping_def create_def new_mailbox_def)

lemma empty_cell_inv: "loop_inv empty_cell"
  by (simp add: loop_inv_def empty_cell_def)

lemma dequeue_queue:
  "mailbox_wf mb \<Longrightarrow> mb_queue mb \<noteq> [] \<Longrightarrow> \<exists>m. fst (dequeue now mb) = Some m"
  using mailbox_wfD(4) [of mb] by (auto simp: dequeue_def split: list.splits)

text \<open>The state in which a batch continues: its own run is gone, it is the only one.\<close>

lemma process_batch_inv:
  assumes wf: "\<And>r. mailbox_wf (ac_store c r)"
    and none: "ac_tasks c = 0" "ac_runs c = []"
    and loop: "ac_loop c \<longleftrightarrow> ac_mailbox c \<noteq> None"
      "ac_loop c \<Longrightarrow> ac_behavior c \<and> ac_active c \<and> ac_mailbox c = Some r"
    and spin: "\<not> ac_spinning c"
  shows "loop_inv (process_batch now r n c)"
proof (cases "\<not> is_empty_mb (ac_store c r) \<and> ac_loop c \<and> n < max_messages")
  case True
  then obtain m where m: "fst (dequeue now (ac_store c r)) = Some m"
    using dequeue_queue [OF wf] by (auto simp: is_empty_mb_def)
  have wf': "mailbox_wf (snd (dequeue now (ac_store c r)))" by (rule dequeue_wf [OF wf])
  obtain mb where d: "dequeue now (ac_store c r) = (Some m, mb)" using m by (cases "dequeue now (ac_store c r)") auto
  show ?thesis
    using True d wf wf' none loop spin by (auto simp: process_batch_def loop_inv_def)
next
  case False
  then have "process_batch now r n c = finish_batch r n c" by (auto simp: process_batch_def)
  then show ?thesis
    using wf none loop spin
    by (auto simp: finish_batch_def loop_inv_def schedule_processing_def is_empty_mb_def Let_def)
qed

lemma remove_at_single [simp]: "length xs \<le> 1 \<Longrightarrow> i < length xs \<Longrightarrow> remove_at i xs = []"
  by (cases xs) (auto simp: remove_at_def)

lemma resume_run_inv:
  assumes inv: "loop_inv c" and i: "i < length (ac_runs c)"
  shows "loop_inv (resume_run now i k c)"
proof -
  have one: "ac_tasks c = 0" "length (ac_runs c) \<le> 1" using loop_invD(2) [OF inv] i by auto
  have ru: "ac_runs c ! i \<in> set (ac_runs c)" using i by simp
  show ?thesis
    unfolding resume_run_def Let_def
    by (rule process_batch_inv)
      (use inv one i ru in \<open>auto simp: loop_inv_def\<close>)
qed

lemma process_actor_messages_inv:
  assumes inv: "loop_inv c" and t: "0 < ac_tasks c"
  shows "loop_inv (process_actor_messages now (c\<lparr>ac_tasks := ac_tasks c - 1\<rparr>))"
proof (cases "ac_mailbox c")
  case None
  then show ?thesis using inv t by (auto simp: process_actor_messages_def loop_inv_def)
next
  case (Some r)
  have one: "ac_tasks c = 1" "ac_runs c = []"
    using loop_invD(2) [OF inv] t by (cases "ac_runs c"; simp)+
  have "loop_inv (process_batch now r 0 (c\<lparr>ac_tasks := 0, ac_active := True\<rparr>))"
    by (rule process_batch_inv) (use inv one Some in \<open>auto simp: loop_inv_def\<close>)
  then show ?thesis
    using Some one loop_invD(3) [OF inv] by (simp add: process_actor_messages_def)
qed

lemma store_upd_inv:
  assumes "loop_inv c" "mailbox_wf mb" "mb_queue mb \<noteq> [] \<Longrightarrow> ac_mailbox c = Some r \<Longrightarrow> ac_active c"
  shows "loop_inv (c\<lparr>ac_store := (ac_store c)(r := mb)\<rparr>)"
  using assms by (auto simp: loop_inv_def)

lemma dead_letter_inv [simp]: "loop_inv (dead_letter m reason c) = loop_inv c"
  by (simp add: loop_inv_def dead_letter_def)

lemma enqueue_message_inv:
  assumes inv: "loop_inv c"
  shows "loop_inv (enqueue_message now m c)"
proof (cases "ac_mailbox c")
  case (Some r)
  obtain reply mb where e: "enqueue now m (ac_store c r) = (reply, mb)" by fastforce
  have wf: "mailbox_wf mb" using enqueue_wf [OF loop_invD(1) [OF inv], of now m r] e by simp
  have loop: "ac_loop c" using loop_invD(3) [OF inv] Some by simp
  note beh = loop_invD(4) [OF inv loop] and act = loop_invD(5) [OF inv loop]
  show ?thesis
  proof (cases "reply = Enqueued \<or> (\<exists>t. reply = Parked t)")
    case True
    have "loop_inv (wake_if_idle (c\<lparr>ac_store := (ac_store c)(r := mb)\<rparr>))"
      using inv wf loop beh act Some
      by (cases "ac_runs c") (auto simp: wake_if_idle_def loop_inv_def schedule_processing_def)
    then show ?thesis using True e Some by (auto simp: enqueue_message_def)
  next
    case False
    have q: "mb_queue mb = mb_queue (ac_store c r)"
      using e False by (auto simp: enqueue_def park_sender_def split: if_splits overflow_strategy.splits)
    have "loop_inv (c\<lparr>ac_store := (ac_store c)(r := mb)\<rparr>)"
      by (rule store_upd_inv [OF inv wf]) (use q loop_invD(7) [OF inv] in simp)
    then show ?thesis using False e Some by (cases reply) (simp_all add: enqueue_message_def Let_def)
  qed
qed (simp add: enqueue_message_def inv)

lemma loop_step_inv:
  assumes inv: "loop_inv c" and en: "loop_enabled e c" and d: "disciplined e c"
  shows "loop_inv (loop_step e c)"
proof (cases e)
  case (Fire now)
  then show ?thesis using process_actor_messages_inv [OF inv, of now] en by (simp del: One_nat_def)
next
  case (Delivery_failed i)
  then show ?thesis
    using inv en by (auto simp: loop_inv_def in_set_conv_nth nth_list_update split: if_splits)
next
  case Stop_begin
  then show ?thesis
    using inv by (auto simp: loop_inv_def stop_begin_def Let_def stop_wf split: option.splits)
next
  case Spawn_begin
  then show ?thesis using inv d by (simp add: loop_inv_def spawn_begin_def)
next
  case Spawn_end
  then show ?thesis
    using inv d by (simp add: loop_inv_def spawn_end_def start_message_processing_loop_def
        schedule_processing_def)
next
  case Stop_end
  then show ?thesis using inv d by (simp add: loop_inv_def stop_end_def)
qed (use inv en in \<open>simp_all add: enqueue_message_inv process_actor_messages_inv resume_run_inv\<close>)

inductive loop_reach :: "'m actor_cell \<Rightarrow> bool" where
  reach_init: "loop_reach empty_cell"
| reach_step: "loop_reach c \<Longrightarrow> loop_enabled e c \<Longrightarrow> disciplined e c \<Longrightarrow> loop_reach (loop_step e c)"

lemma loop_reach_inv: "loop_reach c \<Longrightarrow> loop_inv c"
  by (induction rule: loop_reach.induct) (auto intro: empty_cell_inv loop_step_inv)

text \<open>
  C2. One message at a time, and no lost wake-up: in every state reachable by sends, handler
  completions and failures, stops and respawns of a quiescent address, at most one invocation of
  the processing loop is suspended or scheduled, the loop never spins, and whenever the mailbox of
  a running actor holds a message such an invocation exists and is going to look at that mailbox.
\<close>
theorem loop_exclusive:
  assumes "loop_reach c"
  shows "ac_tasks c + length (ac_runs c) \<le> 1 \<and> \<not> ac_spinning c
    \<and> (\<forall>r. ac_mailbox c = Some r \<and> mb_queue (ac_store c r) \<noteq> [] \<longrightarrow>
          ac_tasks c = 1 \<or> (\<exists>ru. ac_runs c = [ru] \<and> run_mailbox ru = r))"
proof (intro conjI allI impI)
  note inv = loop_reach_inv [OF assms]
  show "ac_tasks c + length (ac_runs c) \<le> 1" "\<not> ac_spinning c"
    by (rule loop_invD(2,8) [OF inv])+
  fix r
  assume r: "ac_mailbox c = Some r \<and> mb_queue (ac_store c r) \<noteq> []"
  then have loop: "ac_loop c" using loop_invD(3) [OF inv] by simp
  have "ac_tasks c + length (ac_runs c) = 1"
    using loop_invD(5) [OF inv loop] loop_invD(7) [OF inv] r by blast
  then show "ac_tasks c = 1 \<or> (\<exists>ru. ac_runs c = [ru] \<and> run_mailbox ru = r)"
    using loop_invD(6) [OF inv loop] r
    by (cases "ac_runs c") auto
qed

fun loop_run :: "'m loop_event list \<Rightarrow> 'm actor_cell \<Rightarrow> 'm actor_cell option" where
  "loop_run [] c = Some c"
| "loop_run (e # es) c = (if loop_enabled e c then loop_run es (loop_step e c) else None)"

fun disciplined_run :: "'m loop_event list \<Rightarrow> 'm actor_cell \<Rightarrow> bool" where
  "disciplined_run [] c = True"
| "disciplined_run (e # es) c = (disciplined e c \<and> disciplined_run es (loop_step e c))"

lemma loop_run_reach:
  "loop_reach c \<Longrightarrow> loop_run es c = Some d \<Longrightarrow> disciplined_run es c \<Longrightarrow> loop_reach d"
  by (induction es arbitrary: c) (auto split: if_splits intro: loop_reach.reach_step)

definition two_message_run :: "nat loop_event list" where
  "two_message_run = [Spawn_begin, Spawn_end, Send 0 7, Send 1 8, Fire 2]"

lemmas loop_ops = spawn_begin_def spawn_end_def stop_begin_def stop_end_def
  start_message_processing_loop_def schedule_processing_def enqueue_message_def wake_if_idle_def
  process_actor_messages_def process_batch_def finish_batch_def resume_run_def remove_at_def
  empty_cell_def max_messages_def is_empty_mb_def

lemma actor_mailbox_unfold: "actor_mailbox =
  \<lparr>mb_config = \<lparr>cfg_capacity = 1000, cfg_overflow = DROP, cfg_metrics = True\<rparr>,
   mb_queue = [], mb_parked = [], mb_stopped = False, mb_enqueued = 0, mb_dequeued = 0,
   mb_dropped = 0, mb_failed = 0, mb_next_ticket = 0, mb_settled = []\<rparr>"
  by (simp add: actor_mailbox_def dropping_def create_def new_mailbox_def)

lemma loop_exclusive_witness:
  "\<exists>c. loop_run two_message_run empty_cell = Some c
     \<and> ac_tasks c + length (ac_runs c) \<le> 1 \<and> ac_started c = [7]
     \<and> map env_message (mb_queue (ac_store c 0)) = [8]"
proof -
  obtain c where r: "loop_run two_message_run empty_cell = Some c"
    and s: "ac_started c = [7]" "map env_message (mb_queue (ac_store c 0)) = [8]"
    by (simp add: two_message_run_def loop_ops op_defs Let_def actor_mailbox_unfold)
  have d: "disciplined_run two_message_run empty_cell"
    by (simp add: two_message_run_def loop_ops op_defs Let_def actor_mailbox_unfold)
  have "loop_reach c" by (rule loop_run_reach [OF reach_init r d])
  from loop_exclusive [OF this] show ?thesis using r s by (intro exI [of _ c]) simp
qed

section \<open>Restarting from inside a failed delivery\<close>

text \<open>
  \<open>applySupervisionStrategy\<close> restarts a failed actor while the run whose handler threw is still
  suspended in it: \<open>stopActor\<close>, \<open>spawn\<close>, and only then does the old run go on.
\<close>

definition restart_from_failure :: "'m loop_event list" where
  "restart_from_failure =
     [Delivery_failed 0, Stop_begin, Stop_end, Spawn_begin, Spawn_end, Supervised 0 0]"

text \<open>
  A supervised restart breaks the one-message-at-a-time guarantee. After the restart sequence
  the old run clears the activity flag that now belongs to the new incarnation, so the next send
  schedules a second macrotask beside the one \<open>spawn\<close> scheduled, and two handlers of the same actor
  end up awaiting their deliveries at once (messages 8 and 9 below).
\<close>
theorem restart_runs_two_handlers:
  "\<exists>c. loop_run ([Spawn_begin, Spawn_end, Send 0 (7::nat), Fire 1] @ restart_from_failure
          @ [Send 2 8, Send 3 9, Fire 4, Fire 5]) empty_cell = Some c
     \<and> map run_phase (ac_runs c) = [Delivering 8, Delivering 9]
     \<and> ac_tasks c = 0"
  by (simp add: restart_from_failure_def loop_ops op_defs Let_def actor_mailbox_unfold)

section \<open>Every message is eventually handled\<close>

definition next_internal :: "'m actor_cell \<Rightarrow> 'm loop_event option" where
  "next_internal c =
     (case ac_runs c of
        ru # _ \<Rightarrow> Some (if is_delivering (run_phase ru) then Delivery_ok 0 0 else Supervised 0 0)
      | [] \<Rightarrow> if 0 < ac_tasks c then Some (Fire 0) else None)"

fun settle :: "nat \<Rightarrow> 'm actor_cell \<Rightarrow> 'm actor_cell" where
  "settle 0 c = c"
| "settle (Suc n) c =
     (case next_internal c of None \<Rightarrow> c | Some e \<Rightarrow> settle n (loop_step e c))"

definition pending_work :: "'m actor_cell \<Rightarrow> nat \<Rightarrow> nat" where
  "pending_work c r =
     2 * length (mb_waiting (ac_store c r)) + (if ac_runs c \<noteq> [] then 2 else ac_tasks c)"

lemma waiting_nil: "mailbox_wf mb \<Longrightarrow> mb_waiting mb = [] \<longleftrightarrow> mb_queue mb = []"
  using mailbox_wfD(6) [of mb] by (auto simp: mb_waiting_def)

lemma process_batch_progress:
  assumes wf: "mailbox_wf (ac_store c r)" and loop: "ac_loop c" and runs: "ac_runs c = []"
  shows "let c1 = process_batch now r n c in
    ac_loop c1 \<and> ac_mailbox c1 = ac_mailbox c
    \<and> ac_started c1 @ mb_waiting (ac_store c1 r) = ac_started c @ mb_waiting (ac_store c r)
    \<and> (if mb_waiting (ac_store c r) \<noteq> [] \<and> n < max_messages
       then Suc (length (mb_waiting (ac_store c1 r))) = length (mb_waiting (ac_store c r))
         \<and> ac_runs c1 \<noteq> [] \<and> ac_tasks c1 = ac_tasks c
       else ac_store c1 r = ac_store c r \<and> ac_runs c1 = []
         \<and> ac_tasks c1 = ac_tasks c + (if mb_waiting (ac_store c r) = [] then 0 else 1))"
proof (cases "mb_waiting (ac_store c r)")
  case Nil
  then show ?thesis
    using runs loop waiting_nil [OF wf]
    by (simp add: process_batch_def finish_batch_def is_empty_mb_def Let_def)
next
  case (Cons m ms)
  have q: "mb_queue (ac_store c r) \<noteq> []" using Cons waiting_nil [OF wf] by simp
  obtain y mb where d: "dequeue now (ac_store c r) = (y, mb)" by fastforce
  have "y = Some m" "mb_waiting mb = ms"
    using mailbox_buffer.pop_result [OF wf, of now] mailbox_buffer.pop_contents [OF wf, of now] d Cons
    by simp_all
  then show ?thesis
    using d q Cons loop runs
    by (simp add: process_batch_def finish_batch_def is_empty_mb_def Let_def schedule_processing_def)
qed

lemma internal_progress:
  assumes inv: "loop_inv c" and loop: "ac_loop c" "ac_mailbox c = Some r"
    and e: "next_internal c = Some e"
  shows "loop_enabled e c \<and> disciplined e c \<and> ac_loop (loop_step e c)
    \<and> ac_mailbox (loop_step e c) = Some r
    \<and> ac_started (loop_step e c) @ mb_waiting (ac_store (loop_step e c) r)
        = ac_started c @ mb_waiting (ac_store c r)
    \<and> pending_work (loop_step e c) r < pending_work c r"
proof (cases "ac_runs c")
  case Nil
  then have t: "ac_tasks c = 1" and e': "e = Fire 0"
    using e loop_invD(2) [OF inv] by (auto simp: next_internal_def split: if_splits)
  define c0 where "c0 = c\<lparr>ac_tasks := 0, ac_active := True\<rparr>"
  have s: "loop_step e c = process_batch 0 r 0 c0"
    using e' t loop by (simp add: process_actor_messages_def c0_def)
  have c0: "ac_store c0 = ac_store c" "ac_loop c0" "ac_mailbox c0 = Some r" "ac_runs c0 = []"
    "ac_tasks c0 = 0" "ac_started c0 = ac_started c"
    using loop Nil by (simp_all add: c0_def)
  have "pending_work c r = 2 * length (mb_waiting (ac_store c r)) + 1"
    using Nil t by (simp add: pending_work_def)
  then show ?thesis
    using process_batch_progress [of c0 r 0 0] loop_invD(1) [OF inv, of r] c0 t e'
    unfolding s by (auto simp: pending_work_def max_messages_def Let_def split: if_splits)
next
  case (Cons ru rus)
  then have one: "rus = []" "ac_tasks c = 0" using loop_invD(2) [OF inv] by auto
  have r: "run_mailbox ru = r" using loop_invD(6) [OF inv loop(1), of ru] loop(2) Cons by simp
  define c0 where "c0 = c\<lparr>ac_runs := []\<rparr>"
  obtain k where s: "loop_step e c = process_batch 0 r k c0"
    using e Cons one r
    by (auto simp: next_internal_def resume_run_def remove_at_def c0_def Let_def split: if_splits)
  have en: "loop_enabled e c \<and> disciplined e c"
    using e Cons by (auto simp: next_internal_def split: if_splits)
  have c0: "ac_store c0 = ac_store c" "ac_loop c0" "ac_mailbox c0 = Some r" "ac_runs c0 = []"
    "ac_tasks c0 = 0" "ac_started c0 = ac_started c"
    using loop one by (simp_all add: c0_def)
  have "pending_work c r = 2 * length (mb_waiting (ac_store c r)) + 2"
    using Cons by (simp add: pending_work_def)
  then show ?thesis
    using process_batch_progress [of c0 r 0 k] loop_invD(1) [OF inv, of r] c0 en
    unfolding s by (auto simp: pending_work_def Let_def split: if_splits)
qed

lemma settle_drains:
  assumes "loop_reach c" "ac_loop c" "ac_mailbox c = Some r"
  shows "\<exists>n. let d = settle n c in
     loop_reach d \<and> ac_started d = ac_started c @ mb_waiting (ac_store c r)
     \<and> mb_waiting (ac_store d r) = [] \<and> ac_runs d = [] \<and> ac_tasks d = 0 \<and> \<not> ac_active d"
  using assms
proof (induction "pending_work c r" arbitrary: c rule: less_induct)
  case less
  note inv = loop_reach_inv [OF less.prems(1)]
  show ?case
  proof (cases "next_internal c")
    case None
    then have idle: "ac_runs c = []" "ac_tasks c = 0"
      by (auto simp: next_internal_def split: list.splits if_splits)
    then have na: "\<not> ac_active c" using loop_invD(5) [OF inv less.prems(2)] by simp
    then have "mb_waiting (ac_store c r) = []"
      using loop_invD(7) [OF inv less.prems(3)] waiting_nil [OF loop_invD(1) [OF inv]] by blast
    then have "let d = settle 0 c in loop_reach d
       \<and> ac_started d = ac_started c @ mb_waiting (ac_store c r)
       \<and> mb_waiting (ac_store d r) = [] \<and> ac_runs d = [] \<and> ac_tasks d = 0 \<and> \<not> ac_active d"
      using idle na less.prems(1) by simp
    then show ?thesis by blast
  next
    case (Some e)
    note p = internal_progress [OF inv less.prems(2,3) Some]
    have reach: "loop_reach (loop_step e c)" using less.prems(1) p by (blast intro: reach_step)
    obtain n where n: "let d = settle n (loop_step e c) in loop_reach d
       \<and> ac_started d = ac_started (loop_step e c) @ mb_waiting (ac_store (loop_step e c) r)
       \<and> mb_waiting (ac_store d r) = [] \<and> ac_runs d = [] \<and> ac_tasks d = 0 \<and> \<not> ac_active d"
      using less.hyps [OF _ reach] p by blast
    have "settle (Suc n) c = settle n (loop_step e c)" using Some by simp
    then show ?thesis using n p unfolding Let_def by metis
  qed
qed

text \<open>
  C3. Every accepted message is handled, in order: from any reachable state of a running actor, if
  its scheduled macrotasks fire and its handlers return, then after finitely many such steps (in
  batches of at most 100 messages per macrotask) the handlers have been started on exactly the
  messages that were waiting, oldest first, and the loop is idle with an empty mailbox.
\<close>
theorem loop_drains_mailbox:
  assumes "loop_reach c" and "ac_mailbox c = Some r"
  shows "\<exists>n. ac_started (settle n c) = ac_started c @ mb_waiting (ac_store c r)
     \<and> mb_waiting (ac_store (settle n c) r) = []
     \<and> ac_runs (settle n c) = [] \<and> ac_tasks (settle n c) = 0 \<and> \<not> ac_active (settle n c)"
  using settle_drains [OF assms(1) _ assms(2)] loop_invD(3) [OF loop_reach_inv [OF assms(1)]] assms(2)
  by (auto simp: Let_def)

lemma loop_drains_witness:
  "\<exists>c n. loop_run two_message_run empty_cell = Some c \<and> ac_started (settle n c) = [7, 8]"
proof -
  obtain c where r: "loop_run two_message_run empty_cell = Some c"
    and s: "ac_started c = [7]" "mb_waiting (ac_store c 0) = [8]" "ac_mailbox c = Some 0"
    by (simp add: two_message_run_def loop_ops op_defs Let_def actor_mailbox_unfold mb_waiting_def)
  have d: "disciplined_run two_message_run empty_cell"
    by (simp add: two_message_run_def loop_ops op_defs Let_def actor_mailbox_unfold)
  have "loop_reach c" by (rule loop_run_reach [OF reach_init r d])
  from loop_drains_mailbox [OF this s(3)] show ?thesis using r s by auto
qed

end
