(* ===== verification/Supervision.thy ===== *)
theory Supervision
  imports Actor_Prelude
begin

text \<open>
  Supervision of failed actors in \<open>packages/actor-core-runtime/src/actor-system-impl.ts\<close>: the two
  pure decision cores (\<open>resolveSupervisionDecision\<close>, \<open>resolveTreeSupervisionDecision\<close>) and the
  shell that executes them (\<open>applySupervisionStrategy\<close>, \<open>restartActorWithLimits\<close>,
  \<open>restartSupervisorGroup\<close>, \<open>stopSupervisorGroup\<close>).

  The shell's state is the part of the actor system's tables it reads and writes, and the list of
  system events it emits. What is outside it is an argument: which calls of \<open>spawn\<close> and \<open>stopActor\<close>
  throw and when, which paths do not parse, and what the rest of the system does to the tables during the
  backoff wait.
\<close>

section \<open>Decisions\<close>

type_synonym path = string

datatype supervision_strategy = Restart | Resume | StopStrategy | Escalate

record supervision_policy =
  sp_strategy :: supervision_strategy
  sp_max_restarts :: "int option"
  sp_within_ms :: "ms option"

definition MAX_RESTART_ATTEMPTS :: int where "MAX_RESTART_ATTEMPTS = 3"
definition RESTART_WINDOW_MS :: ms where "RESTART_WINDOW_MS = 30000"
definition RESTART_BACKOFF_MS :: ms where "RESTART_BACKOFF_MS = 1000"

datatype supervision_decision =
    D_restart int int         \<comment> \<open>restart count after window expiry, effective bound\<close>
  | D_stop_permanent int int
  | D_stop
  | D_escalate
  | D_resume

definition or_default :: "'a option \<Rightarrow> 'a \<Rightarrow> 'a" where
  "or_default x d = (case x of None \<Rightarrow> d | Some v \<Rightarrow> v)"

definition policy_strategy :: "supervision_policy option \<Rightarrow> supervision_strategy" where
  "policy_strategy policy = or_default (map_option sp_strategy policy) Restart"

definition policy_max :: "supervision_policy option \<Rightarrow> int" where
  "policy_max policy = or_default (Option.bind policy sp_max_restarts) MAX_RESTART_ATTEMPTS"

definition policy_within :: "supervision_policy option \<Rightarrow> ms" where
  "policy_within policy = or_default (Option.bind policy sp_within_ms) RESTART_WINDOW_MS"

definition resolve_supervision_decision ::
    "supervision_policy option \<Rightarrow> int \<Rightarrow> ms \<Rightarrow> ms \<Rightarrow> supervision_decision" where
  "resolve_supervision_decision policy restart_count last_restart now =
     (case policy_strategy policy of
        StopStrategy \<Rightarrow> D_stop
      | Escalate \<Rightarrow> D_escalate
      | Resume \<Rightarrow> D_resume
      | Restart \<Rightarrow>
          (let max_restarts = policy_max policy;
               within = policy_within policy;
               window_expired = (0 < restart_count \<and> within < now - last_restart);
               effective = (if window_expired then 0 else restart_count)
           in if max_restarts \<le> effective then D_stop_permanent effective max_restarts
              else D_restart effective max_restarts))"

datatype group_strategy = One_for_one | One_for_all | Rest_for_one | Group_escalate

record supervisor_group =
  sg_key :: string
  sg_strategy :: group_strategy
  sg_children :: "path list"

datatype give_up_reason = Max_restarts_exceeded | Supervisor_escalated

datatype tree_decision =
    T_pass_through
  | T_restart_group "path list" "path list"   \<comment> \<open>stop order, respawn order\<close>
  | T_give_up_group "path list" give_up_reason

text \<open>\<open>children.slice(children.indexOf(failed))\<close>: the failed child and all after it.\<close>

definition slice_from :: "'a \<Rightarrow> 'a list \<Rightarrow> 'a list" where
  "slice_from x xs = dropWhile (\<lambda>y. y \<noteq> x) xs"

definition resolve_tree_decision ::
    "supervision_decision \<Rightarrow> supervisor_group option \<Rightarrow> path \<Rightarrow> tree_decision" where
  "resolve_tree_decision child_decision grp failed =
     (case grp of
        None \<Rightarrow> T_pass_through
      | Some g \<Rightarrow>
          if failed \<notin> set (sg_children g) then T_pass_through
          else if child_decision = D_stop \<or> child_decision = D_resume then T_pass_through
          else if sg_strategy g = Group_escalate
               then T_give_up_group (rev (sg_children g)) Supervisor_escalated
          else if sg_strategy g = One_for_one then T_pass_through
          else (case child_decision of
                  D_stop_permanent c m \<Rightarrow> T_give_up_group (rev (sg_children g)) Max_restarts_exceeded
                | _ \<Rightarrow>
                    (let respawn = (if sg_strategy g = One_for_all then sg_children g
                                    else slice_from failed (sg_children g))
                     in T_restart_group (rev respawn) respawn)))"

section \<open>The system's tables\<close>

datatype stop_reason =
    Supervisor_restart | Supervisor_group_restart | Supervision_stop | Max_restarts
  | Supervisor_max_restarts | By_supervisor_escalated

datatype system_event =
    Actor_stopping path
  | Actor_stopped path "stop_reason option" "string option"
  | Actor_spawned path
  | Actor_restarted path int "string option"
  | Actor_respawn_failed path int
  | Actor_escalated path "string option" "give_up_reason option" string
  | Actor_resumed path string
  | Guardian_notified path

record 'b sup_state =
  ss_actors :: "path \<rightharpoonup> 'b"
  ss_originals :: "path \<rightharpoonup> 'b"
  ss_policies :: "path \<rightharpoonup> supervision_policy"
  ss_counts :: "path \<rightharpoonup> int"
  ss_last :: "path \<rightharpoonup> ms"
  ss_groups :: "string \<rightharpoonup> supervisor_group"
  ss_group_keys :: "path \<rightharpoonup> string"
  ss_restarting :: "string set"
  ss_events :: "system_event list"

datatype call_outcome = Returns | Throws_early | Throws_late

text \<open>
  A call of \<open>spawn\<close> or \<open>stopActor\<close> runs code of the actor, of the transport and of the directory,
  which may throw: before the tables are changed, or after. The environment says which.
\<close>

record 'b sup_env =
  env_spawn :: "path \<Rightarrow> call_outcome"
  env_stop :: "path \<Rightarrow> call_outcome"
  env_parses :: "path \<Rightarrow> bool"
  env_backoff :: "ms \<Rightarrow> 'b sup_state \<Rightarrow> 'b sup_state"

definition emit :: "system_event \<Rightarrow> 'b sup_state \<Rightarrow> 'b sup_state" where
  "emit e st = st\<lparr>ss_events := ss_events st @ [e]\<rparr>"

definition valid_policy :: "supervision_policy \<Rightarrow> bool" where
  "valid_policy p \<longleftrightarrow>
     (case sp_max_restarts p of None \<Rightarrow> True | Some n \<Rightarrow> 0 \<le> n)
   \<and> (case sp_within_ms p of None \<Rightarrow> True | Some w \<Rightarrow> 0 < w)"

definition store_policy :: "path \<Rightarrow> supervision_policy option \<Rightarrow> 'b sup_state \<Rightarrow> 'b sup_state" where
  "store_policy p policy st =
     (case policy of None \<Rightarrow> st | Some q \<Rightarrow> st\<lparr>ss_policies := (ss_policies st)(p \<mapsto> q)\<rparr>)"

definition register_actor :: "path \<Rightarrow> 'b \<Rightarrow> 'b sup_state \<Rightarrow> 'b sup_state" where
  "register_actor p b st =
     st\<lparr>ss_actors := (ss_actors st)(p \<mapsto> b), ss_originals := (ss_originals st)(p \<mapsto> b)\<rparr>"

definition spawn_actor :: "'b sup_env \<Rightarrow> 'b \<Rightarrow> path \<Rightarrow> supervision_policy option \<Rightarrow> 'b sup_state \<Rightarrow>
    bool \<times> 'b sup_state" where
  "spawn_actor env b p policy st =
     (if env_spawn env p = Throws_early \<or> (case policy of None \<Rightarrow> False | Some q \<Rightarrow> \<not> valid_policy q)
      then (False, st)
      else if env_spawn env p = Throws_late then (False, register_actor p b (store_policy p policy st))
      else (True, emit (Actor_spawned p) (register_actor p b (store_policy p policy st))))"

definition forget_actor :: "path \<Rightarrow> 'b sup_state \<Rightarrow> 'b sup_state" where
  "forget_actor p st =
     st\<lparr>ss_actors := (ss_actors st)(p := None),
        ss_originals := (ss_originals st)(p := None),
        ss_counts := (ss_counts st)(p := None),
        ss_last := (ss_last st)(p := None),
        ss_policies := (ss_policies st)(p := None)\<rparr>"

definition stop_actor :: "'b sup_env \<Rightarrow> path \<Rightarrow> stop_reason option \<Rightarrow> string option \<Rightarrow> 'b sup_state \<Rightarrow>
    bool \<times> 'b sup_state" where
  "stop_actor env p reason err st =
     (case env_stop env p of
        Throws_early \<Rightarrow> (False, emit (Actor_stopping p) st)
      | Throws_late \<Rightarrow> (False, forget_actor p (emit (Actor_stopping p) st))
      | Returns \<Rightarrow> (True, emit (Actor_stopped p reason err) (forget_actor p (emit (Actor_stopping p) st))))"

definition count_of :: "'b sup_state \<Rightarrow> path \<Rightarrow> int" where
  "count_of st p = or_default (ss_counts st p) 0"

definition last_of :: "'b sup_state \<Rightarrow> path \<Rightarrow> ms" where
  "last_of st p = or_default (ss_last st p) 0"

definition note_restart :: "path \<Rightarrow> int \<Rightarrow> ms \<Rightarrow> 'b sup_state \<Rightarrow> 'b sup_state" where
  "note_restart p n now st =
     st\<lparr>ss_counts := (ss_counts st)(p \<mapsto> n), ss_last := (ss_last st)(p \<mapsto> now)\<rparr>"

definition backoff_delay :: "int \<Rightarrow> ms" where
  "backoff_delay count = RESTART_BACKOFF_MS * 2 ^ nat count"

section \<open>Executing a decision\<close>

definition restart_actor_with_limits ::
    "'b sup_env \<Rightarrow> ms \<Rightarrow> path \<Rightarrow> 'b \<Rightarrow> 'b sup_state \<Rightarrow> 'b sup_state" where
  "restart_actor_with_limits env now p behavior st =
     (let current = count_of st p;
          policy = ss_policies st p;
          respawn = or_default (ss_originals st p) behavior;
          waited = env_backoff env (backoff_delay current) st;
          failed = (\<lambda>s. emit (Guardian_notified p) (emit (Actor_respawn_failed p (current + 1)) s))
      in case stop_actor env p (Some Supervisor_restart) None waited of
           (False, stopped) \<Rightarrow> failed stopped
         | (True, stopped) \<Rightarrow>
             (case spawn_actor env respawn p policy stopped of
                (False, spawned) \<Rightarrow> failed spawned
              | (True, spawned) \<Rightarrow>
                  emit (Actor_restarted p (current + 1) None)
                    (note_restart p (current + 1) now spawned)))"

type_synonym 'b captured = "(path, 'b \<times> supervision_policy option) omap"

fun capture_members :: "'b sup_env \<Rightarrow> 'b sup_state \<Rightarrow> path list \<Rightarrow> 'b captured \<Rightarrow> 'b captured" where
  "capture_members env st [] cap = cap"
| "capture_members env st (p # ps) cap =
     (if \<not> env_parses env p then capture_members env st ps cap
      else (case ss_originals st p of
              None \<Rightarrow> capture_members env st ps cap
            | Some b \<Rightarrow> capture_members env st ps (omap_set p (b, ss_policies st p) cap)))"

definition stop_member :: "'b sup_env \<Rightarrow> path \<Rightarrow> 'b captured \<times> 'b sup_state \<Rightarrow>
    'b captured \<times> 'b sup_state" where
  "stop_member env p cs =
     (let (cap, st) = cs
      in if omap_get cap p = None then (cap, st)
         else if ss_actors st p = None then (omap_delete p cap, st)
         else (case stop_actor env p (Some Supervisor_group_restart) None st of
                 (True, st1) \<Rightarrow> (cap, st1)
               | (False, st1) \<Rightarrow> (if ss_actors st1 p \<noteq> None then omap_delete p cap else cap, st1)))"

fun stop_members :: "'b sup_env \<Rightarrow> path list \<Rightarrow> 'b captured \<times> 'b sup_state \<Rightarrow>
    'b captured \<times> 'b sup_state" where
  "stop_members env [] cs = cs"
| "stop_members env (p # ps) cs = stop_members env ps (stop_member env p cs)"

fun respawn_members :: "'b sup_env \<Rightarrow> supervisor_group \<Rightarrow> path \<Rightarrow> int \<Rightarrow> 'b captured \<Rightarrow> path list \<Rightarrow>
    'b sup_state \<Rightarrow> 'b sup_state" where
  "respawn_members env g failed current cap [] st = st"
| "respawn_members env g failed current cap (p # ps) st =
     respawn_members env g failed current cap ps
       (case omap_get cap p of
          None \<Rightarrow> st
        | Some (b, policy) \<Rightarrow>
            (case spawn_actor env b p policy st of
               (False, st1) \<Rightarrow> st1
             | (True, st1) \<Rightarrow>
                 emit (Actor_restarted p (if p = failed then current + 1 else 1) (Some (sg_key g))) st1))"

definition restart_supervisor_group ::
    "'b sup_env \<Rightarrow> ms \<Rightarrow> supervisor_group \<Rightarrow> path \<Rightarrow> path list \<Rightarrow> path list \<Rightarrow> 'b sup_state \<Rightarrow> 'b sup_state" where
  "restart_supervisor_group env now g failed stop_order respawn_order st =
     (let st1 = st\<lparr>ss_restarting := insert (sg_key g) (ss_restarting st)\<rparr>;
          cap = capture_members env st1 respawn_order [];
          current = count_of st1 failed;
          st2 = env_backoff env (backoff_delay current) st1;
          (cap2, st3) = stop_members env stop_order (cap, st2);
          st4 = respawn_members env g failed current cap2 respawn_order st3;
          st5 = (if omap_get cap2 failed \<noteq> None then note_restart failed (current + 1) now st4 else st4)
      in st5\<lparr>ss_restarting := ss_restarting st5 - {sg_key g}\<rparr>)"

definition give_up_member_reason :: "give_up_reason \<Rightarrow> path \<Rightarrow> path \<Rightarrow> stop_reason" where
  "give_up_member_reason reason failed p =
     (case reason of
        Supervisor_escalated \<Rightarrow> By_supervisor_escalated
      | Max_restarts_exceeded \<Rightarrow> if p = failed then Max_restarts else Supervisor_max_restarts)"

fun stop_group_members :: "'b sup_env \<Rightarrow> path \<Rightarrow> give_up_reason \<Rightarrow> string \<Rightarrow> path list \<Rightarrow>
    'b sup_state \<Rightarrow> 'b sup_state" where
  "stop_group_members env failed reason err [] st = st"
| "stop_group_members env failed reason err (p # ps) st =
     stop_group_members env failed reason err ps
       (if ss_actors st p = None \<or> \<not> env_parses env p then st
        else snd (stop_actor env p (Some (give_up_member_reason reason failed p)) (Some err) st))"

definition stop_supervisor_group ::
    "'b sup_env \<Rightarrow> supervisor_group \<Rightarrow> path \<Rightarrow> path list \<Rightarrow> give_up_reason \<Rightarrow> string \<Rightarrow> 'b sup_state \<Rightarrow> 'b sup_state" where
  "stop_supervisor_group env g failed stop_order reason err st =
     (let st1 = st\<lparr>ss_restarting := insert (sg_key g) (ss_restarting st)\<rparr>;
          st2 = stop_group_members env failed reason err stop_order st1;
          st3 = emit (Actor_escalated failed (Some (sg_key g)) (Some reason) err) st2
      in st3\<lparr>ss_restarting := ss_restarting st3 - {sg_key g}\<rparr>)"

definition substitute_escalate ::
    "supervision_policy option \<Rightarrow> supervisor_group option \<Rightarrow> int \<Rightarrow> ms \<Rightarrow> ms \<Rightarrow>
     supervision_decision \<Rightarrow> supervision_decision" where
  "substitute_escalate policy grp cnt lst now decision =
     (case (decision, grp, policy) of
        (D_escalate, Some g, Some p) \<Rightarrow>
          if sg_strategy g = One_for_all \<or> sg_strategy g = Rest_for_one
          then resolve_supervision_decision (Some (p\<lparr>sp_strategy := Restart\<rparr>)) cnt lst now
          else decision
      | _ \<Rightarrow> decision)"

definition sync_count :: "path \<Rightarrow> supervision_decision \<Rightarrow> 'b sup_state \<Rightarrow> 'b sup_state" where
  "sync_count p d st =
     (case d of D_restart c m \<Rightarrow> st\<lparr>ss_counts := (ss_counts st)(p \<mapsto> c)\<rparr> | _ \<Rightarrow> st)"

definition execute_decision ::
    "'b sup_env \<Rightarrow> ms \<Rightarrow> path \<Rightarrow> 'b \<Rightarrow> string \<Rightarrow> supervision_decision \<Rightarrow> 'b sup_state \<Rightarrow> 'b sup_state" where
  "execute_decision env now p behavior err decision st =
     (case decision of
        D_restart c m \<Rightarrow> restart_actor_with_limits env now p behavior (sync_count p decision st)
      | D_stop_permanent c m \<Rightarrow> snd (stop_actor env p (Some Max_restarts) (Some err) st)
      | D_stop \<Rightarrow> snd (stop_actor env p (Some Supervision_stop) (Some err) st)
      | D_escalate \<Rightarrow>
          (case stop_actor env p None None st of
             (False, st1) \<Rightarrow> st1
           | (True, st1) \<Rightarrow> emit (Actor_escalated p None None err) st1)
      | D_resume \<Rightarrow> emit (Actor_resumed p err) st)"

definition apply_supervision :: "'b sup_env \<Rightarrow> ms \<Rightarrow> path \<Rightarrow> string \<Rightarrow> 'b sup_state \<Rightarrow> 'b sup_state" where
  "apply_supervision env now p err st =
     (let group_key = (case ss_group_keys st p of None \<Rightarrow> None
                         | Some k \<Rightarrow> if k = '''' then None else Some k)
      in if (case group_key of None \<Rightarrow> False | Some k \<Rightarrow> k \<in> ss_restarting st) then st
         else (case ss_actors st p of
                 None \<Rightarrow> st
               | Some behavior \<Rightarrow>
                   (let policy = ss_policies st p;
                        decision = resolve_supervision_decision policy (count_of st p) (last_of st p) now;
                        grp = Option.bind group_key (ss_groups st);
                        child = substitute_escalate policy grp (count_of st p) (last_of st p) now decision
                    in case (resolve_tree_decision child grp p, grp) of
                         (T_restart_group stops respawns, Some g) \<Rightarrow>
                           restart_supervisor_group env now g p stops respawns (sync_count p child st)
                       | (T_give_up_group stops reason, Some g) \<Rightarrow>
                           stop_supervisor_group env g p stops reason err st
                       | _ \<Rightarrow> execute_decision env now p behavior err decision st)))"

section \<open>The restart bound\<close>

text \<open>
  One actor without a supervisor group fails at the times \<open>ts\<close>; \<open>restart_times\<close> are those at which
  a restart of it succeeds.
\<close>

definition restarts_of :: "path \<Rightarrow> 'b sup_state \<Rightarrow> nat" where
  "restarts_of p st =
     length (filter (\<lambda>e. case e of Actor_restarted q n s \<Rightarrow> q = p | _ \<Rightarrow> False) (ss_events st))"

fun restart_times :: "'b sup_env \<Rightarrow> path \<Rightarrow> string \<Rightarrow> ms list \<Rightarrow> 'b sup_state \<Rightarrow> ms list" where
  "restart_times env p err [] st = []"
| "restart_times env p err (t # ts) st =
     (let st1 = apply_supervision env t p err st
      in (if restarts_of p st < restarts_of p st1 then [t] else []) @ restart_times env p err ts st1)"

definition no_late_spawn_error :: "'b sup_env \<Rightarrow> path \<Rightarrow> bool" where
  "no_late_spawn_error env p \<longleftrightarrow> env_spawn env p \<noteq> Throws_late"

definition quiet :: "'b sup_env \<Rightarrow> bool" where
  "quiet env \<longleftrightarrow> (\<forall>d st. env_backoff env d st = st)"

definition smooth :: "'b sup_env \<Rightarrow> bool" where
  "smooth env \<longleftrightarrow> (\<forall>p. env_spawn env p = Returns \<and> env_stop env p = Returns)"

lemma quietD [simp]: "quiet env \<Longrightarrow> env_backoff env d st = st"
  by (simp add: quiet_def)

lemma smoothD: "smooth env \<Longrightarrow> env_spawn env p = Returns" "smooth env \<Longrightarrow> env_stop env p = Returns"
  by (simp_all add: smooth_def)

lemma slice_from_Cons: "x \<in> set xs \<Longrightarrow> \<exists>ys. slice_from x xs = x # ys"
  by (induction xs) (auto simp: slice_from_def)

lemma set_slice_from: "set (slice_from x xs) \<subseteq> set xs"
  unfolding slice_from_def by (auto dest: set_dropWhileD)

lemma distinct_slice_from: "distinct xs \<Longrightarrow> distinct (slice_from x xs)"
  unfolding slice_from_def by (rule distinct_dropWhile)

text \<open>A child outside every group always takes the decision of its own policy.\<close>

lemma apply_ungrouped:
  assumes "ss_group_keys st p = None"
  shows "apply_supervision env now p err st =
    (case ss_actors st p of None \<Rightarrow> st
     | Some b \<Rightarrow> execute_decision env now p b err
         (resolve_supervision_decision (ss_policies st p) (count_of st p) (last_of st p) now) st)"
  using assms
  by (simp add: apply_supervision_def substitute_escalate_def resolve_tree_decision_def Let_def
      split: option.splits supervision_decision.splits)

text \<open>
  The bookkeeping of one restarting child after a failure: the count and time the next decision
  reads, and whether the failure led to a restart.
\<close>

definition restart_step ::
    "supervision_policy option \<Rightarrow> 'b sup_env \<Rightarrow> path \<Rightarrow> ms \<Rightarrow> 'b sup_state \<Rightarrow> 'b sup_state \<Rightarrow> bool" where
  "restart_step policy env p t st st1 \<longleftrightarrow>
     (ss_actors st1 p = None \<and> restarts_of p st1 = restarts_of p st)
   \<or> (ss_actors st1 p \<noteq> None \<and> ss_policies st1 p = policy \<and>
        (restarts_of p st1 = restarts_of p st \<and>
           (ss_counts st1 p = ss_counts st p \<or>
            (0 < count_of st p \<longrightarrow> policy_within policy < t - last_of st p) \<and> ss_counts st1 p = Some 0)
           \<and> ss_last st1 p = ss_last st p
       \<or> restarts_of p st < restarts_of p st1 \<and> ss_last st1 p = Some t \<and>
           (\<exists>n. ss_counts st1 p = Some (n + 1) \<and> n < policy_max policy \<and>
              (n = count_of st p \<or> n = 0 \<and> 0 < count_of st p \<and> policy_within policy < t - last_of st p))))"

lemmas table_defs = emit_def spawn_actor_def stop_actor_def register_actor_def store_policy_def
  forget_actor_def note_restart_def

lemma restarts_of_emit:
  "restarts_of p (emit e st) = restarts_of p st + (case e of Actor_restarted q n s \<Rightarrow> (if q = p then 1 else 0) | _ \<Rightarrow> 0)"
  by (cases e) (auto simp: restarts_of_def emit_def)

lemma restarts_of_tables [simp]:
  "restarts_of p (forget_actor q st) = restarts_of p st"
  "restarts_of p (register_actor q b st) = restarts_of p st"
  "restarts_of p (store_policy q po st) = restarts_of p st"
  "restarts_of p (note_restart q n t st) = restarts_of p st"
  "restarts_of p (st\<lparr>ss_counts := f\<rparr>) = restarts_of p st"
  by (auto simp: restarts_of_def table_defs split: option.splits)

lemma emit_tables [simp]:
  "ss_actors (emit e st) = ss_actors st" "ss_originals (emit e st) = ss_originals st"
  "ss_policies (emit e st) = ss_policies st" "ss_counts (emit e st) = ss_counts st"
  "ss_last (emit e st) = ss_last st" "ss_groups (emit e st) = ss_groups st"
  "ss_group_keys (emit e st) = ss_group_keys st" "ss_restarting (emit e st) = ss_restarting st"
  "ss_events (emit e st) = ss_events st @ [e]"
  by (simp_all add: emit_def)

lemma forget_actor_tables [simp]:
  "ss_actors (forget_actor p st) = (ss_actors st)(p := None)"
  "ss_originals (forget_actor p st) = (ss_originals st)(p := None)"
  "ss_policies (forget_actor p st) = (ss_policies st)(p := None)"
  "ss_counts (forget_actor p st) = (ss_counts st)(p := None)"
  "ss_last (forget_actor p st) = (ss_last st)(p := None)" "ss_groups (forget_actor p st) = ss_groups st"
  "ss_group_keys (forget_actor p st) = ss_group_keys st"
  "ss_restarting (forget_actor p st) = ss_restarting st" "ss_events (forget_actor p st) = ss_events st"
  by (simp_all add: forget_actor_def)

lemma register_actor_tables [simp]:
  "ss_actors (register_actor p b st) = (ss_actors st)(p \<mapsto> b)"
  "ss_originals (register_actor p b st) = (ss_originals st)(p \<mapsto> b)"
  "ss_policies (register_actor p b st) = ss_policies st"
  "ss_counts (register_actor p b st) = ss_counts st"
  "ss_last (register_actor p b st) = ss_last st" "ss_groups (register_actor p b st) = ss_groups st"
  "ss_group_keys (register_actor p b st) = ss_group_keys st"
  "ss_restarting (register_actor p b st) = ss_restarting st"
  "ss_events (register_actor p b st) = ss_events st"
  by (simp_all add: register_actor_def)

lemma store_policy_tables [simp]:
  "ss_actors (store_policy p po st) = ss_actors st" "ss_originals (store_policy p po st) = ss_originals st"
  "ss_policies (store_policy p po st) =
     (case po of None \<Rightarrow> ss_policies st | Some q \<Rightarrow> (ss_policies st)(p \<mapsto> q))"
  "ss_counts (store_policy p po st) = ss_counts st"
  "ss_last (store_policy p po st) = ss_last st" "ss_groups (store_policy p po st) = ss_groups st"
  "ss_group_keys (store_policy p po st) = ss_group_keys st"
  "ss_restarting (store_policy p po st) = ss_restarting st" "ss_events (store_policy p po st) = ss_events st"
  by (simp_all add: store_policy_def split: option.splits)

lemma note_restart_tables [simp]:
  "ss_actors (note_restart p n t st) = ss_actors st" "ss_originals (note_restart p n t st) = ss_originals st"
  "ss_policies (note_restart p n t st) = ss_policies st"
  "ss_counts (note_restart p n t st) = (ss_counts st)(p \<mapsto> n)"
  "ss_last (note_restart p n t st) = (ss_last st)(p \<mapsto> t)" "ss_groups (note_restart p n t st) = ss_groups st"
  "ss_group_keys (note_restart p n t st) = ss_group_keys st"
  "ss_restarting (note_restart p n t st) = ss_restarting st" "ss_events (note_restart p n t st) = ss_events st"
  by (simp_all add: note_restart_def)

lemma count_of_cases: "count_of st p = (case ss_counts st p of None \<Rightarrow> 0 | Some n \<Rightarrow> n)"
  by (simp add: count_of_def or_default_def)

lemma restart_actor_step:
  assumes "quiet env" "no_late_spawn_error env p" "ss_actors st p \<noteq> None" "ss_policies st p = policy"
    and "case policy of None \<Rightarrow> True | Some q \<Rightarrow> valid_policy q"
    and "st1 = restart_actor_with_limits env t p b (sync_count p (D_restart c m) st)"
  shows "ss_actors st1 p = None \<and> restarts_of p st1 = restarts_of p st
    \<or> ss_actors st1 p \<noteq> None \<and> ss_policies st1 p = policy \<and>
      (restarts_of p st1 = restarts_of p st \<and> ss_counts st1 p = Some c \<and> ss_last st1 p = ss_last st p
     \<or> restarts_of p st1 = Suc (restarts_of p st) \<and> ss_counts st1 p = Some (c + 1) \<and> ss_last st1 p = Some t)"
  using assms
  by (auto simp: restart_actor_with_limits_def sync_count_def Let_def stop_actor_def spawn_actor_def
      restarts_of_emit count_of_cases no_late_spawn_error_def
      split: call_outcome.splits option.splits)

lemma stop_actor_step:
  "ss_actors (snd (stop_actor env p r e st)) p = None \<or>
   snd (stop_actor env p r e st) = emit (Actor_stopping p) st"
  "restarts_of q (snd (stop_actor env p r e st)) = restarts_of q st"
  by (auto simp: stop_actor_def restarts_of_emit split: call_outcome.splits)

lemma apply_restart_step:
  assumes "quiet env" "no_late_spawn_error env p" "ss_group_keys st p = None"
    and "ss_actors st p \<noteq> None" "ss_policies st p = policy"
    and "case policy of None \<Rightarrow> True | Some q \<Rightarrow> valid_policy q"
    and "policy_strategy policy = Restart"
  shows "restart_step policy env p t st (apply_supervision env t p err st)"
proof -
  obtain b where b: "ss_actors st p = Some b" using assms(4) by auto
  define c where "c = (if 0 < count_of st p \<and> policy_within policy < t - last_of st p then 0 else count_of st p)"
  show ?thesis
  proof (cases "policy_max policy \<le> c")
    case True
    then have "apply_supervision env t p err st = snd (stop_actor env p (Some Max_restarts) (Some err) st)"
      using assms(5,7) b
      by (simp add: apply_ungrouped [OF assms(3)] resolve_supervision_decision_def c_def Let_def
          execute_decision_def split: if_splits)
    then show ?thesis
      using stop_actor_step(1) [of env p "Some Max_restarts" "Some err" st]
        stop_actor_step(2) [of p env p "Some Max_restarts" "Some err" st] assms(5) b
      by (auto simp: restart_step_def restarts_of_emit)
  next
    case False
    then have "apply_supervision env t p err st =
        restart_actor_with_limits env t p b (sync_count p (D_restart c (policy_max policy)) st)"
      using assms(5,7) b
      by (simp add: apply_ungrouped [OF assms(3)] resolve_supervision_decision_def c_def Let_def
          execute_decision_def split: if_splits)
    from restart_actor_step [OF assms(1,2,4,5,6) this] show ?thesis
      using False unfolding restart_step_def c_def
      by (auto simp: count_of_cases split: if_splits option.splits)
  qed
qed

lemma apply_ungrouped_keeps_keys:
  assumes "quiet env" "ss_group_keys st p = None"
  shows "ss_group_keys (apply_supervision env t p err st) p = None"
  using assms
  by (auto simp: apply_ungrouped execute_decision_def restart_actor_with_limits_def sync_count_def Let_def
      stop_actor_def spawn_actor_def split: option.splits supervision_decision.splits call_outcome.splits)

lemma restart_times_dead:
  "ss_actors st p = None \<Longrightarrow> restart_times env p err ts st = []"
  by (induction ts) (auto simp: apply_supervision_def Let_def)

lemma set_restart_times: "set (restart_times env p err ts st) \<subseteq> set ts"
  by (induction ts arbitrary: st) (auto simp: Let_def)

lemma count_last_of:
  "ss_counts st p = Some n \<Longrightarrow> count_of st p = n" "ss_counts st1 p = ss_counts st p \<Longrightarrow> count_of st1 p = count_of st p"
  "ss_last st p = Some t \<Longrightarrow> last_of st p = t" "ss_last st1 p = ss_last st p \<Longrightarrow> last_of st1 p = last_of st p"
  by (simp_all add: count_of_def last_of_def or_default_def)

definition spread :: "int \<Rightarrow> ms \<Rightarrow> ms list \<Rightarrow> bool" where
  "spread m w rs \<longleftrightarrow> (\<forall>i k. m \<le> int k \<longrightarrow> i + k < length rs \<longrightarrow> w < rs ! (i + k) - rs ! i)"

definition spread_after :: "int \<Rightarrow> int \<Rightarrow> ms \<Rightarrow> ms \<Rightarrow> ms list \<Rightarrow> bool" where
  "spread_after m c l w rs \<longleftrightarrow> (0 < c \<longrightarrow> (\<forall>k. m \<le> c + int k \<longrightarrow> k < length rs \<longrightarrow> w < rs ! k - l))"

lemma spread_Nil [simp]: "spread m w []" "spread_after m c l w []"
  by (simp_all add: spread_def spread_after_def)

lemma spread_Cons:
  assumes "spread m w rs" "spread_after m n t w rs" "0 < n" "n \<le> m"
  shows "spread m w (t # rs)"
  unfolding spread_def
proof (intro allI impI)
  fix i k :: nat
  assume k: "m \<le> int k" and i: "i + k < length (t # rs)"
  show "w < (t # rs) ! (i + k) - (t # rs) ! i"
  proof (cases i)
    case 0
    have "w < rs ! (k - 1) - t"
      using assms(2-4) k i 0 unfolding spread_after_def by (auto simp: of_nat_diff)
    then show ?thesis using 0 k assms(3,4) by (cases k) auto
  next
    case (Suc j)
    then show ?thesis using assms(1) k i unfolding spread_def by simp
  qed
qed

lemma spread_after_expired:
  assumes "w < t - l" "\<forall>x\<in>set rs. t \<le> x"
  shows "spread_after m c l w rs"
  unfolding spread_after_def
proof (intro impI allI)
  fix k assume "k < length rs"
  then have "t \<le> rs ! k" using assms(2) nth_mem by blast
  then show "w < rs ! k - l" using assms(1) by simp
qed

lemma spread_after_Cons:
  assumes "spread_after m (c + 1) t w rs" "l \<le> t" "c < m" "0 \<le> c"
  shows "spread_after m c l w (t # rs)"
  unfolding spread_after_def
proof (intro impI allI)
  fix k assume "0 < c" and k: "m \<le> c + int k" "k < length (t # rs)"
  have "w < rs ! (k - 1) - t"
    using assms k unfolding spread_after_def by (auto simp: of_nat_diff)
  then show "w < (t # rs) ! k - l" using assms k by (cases k) auto
qed

lemma restart_times_spread:
  assumes "quiet env" "no_late_spawn_error env p" "policy_strategy policy = Restart"
    and "case policy of None \<Rightarrow> True | Some q \<Rightarrow> valid_policy q"
    and "sorted ts" "ss_group_keys st p = None" "ss_actors st p \<noteq> None \<Longrightarrow> ss_policies st p = policy"
    and "0 \<le> count_of st p" "0 < count_of st p \<Longrightarrow> \<forall>x\<in>set ts. last_of st p \<le> x"
  shows "spread (policy_max policy) (policy_within policy) (restart_times env p err ts st)
    \<and> spread_after (policy_max policy) (count_of st p) (last_of st p) (policy_within policy)
        (restart_times env p err ts st)"
  using assms(5-9)
proof (induction ts arbitrary: st)
  case (Cons t ts)
  show ?case
  proof (cases "ss_actors st p = None")
    case True
    then show ?thesis by (simp add: restart_times_dead del: restart_times.simps)
  next
    case False
    define st1 where "st1 = apply_supervision env t p err st"
    define rs where "rs = restart_times env p err ts st1"
    let ?m = "policy_max policy" and ?w = "policy_within policy"
    have step: "restart_step policy env p t st st1"
      unfolding st1_def by (rule apply_restart_step [OF assms(1,2) Cons.prems(2) False Cons.prems(3) [OF False] assms(4,3)])
    have keys: "ss_group_keys st1 p = None"
      unfolding st1_def by (rule apply_ungrouped_keeps_keys [OF assms(1) Cons.prems(2)])
    have srt: "sorted ts" "\<forall>x\<in>set ts. t \<le> x" using Cons.prems(1) by auto
    have rs_t: "\<forall>x\<in>set rs. t \<le> x" using srt(2) set_restart_times unfolding rs_def by blast
    have eq: "restart_times env p err (t # ts) st =
        (if restarts_of p st < restarts_of p st1 then t # rs else rs)"
      by (simp add: st1_def rs_def Let_def)
    have IH: "spread ?m ?w rs \<and> spread_after ?m (count_of st1 p) (last_of st1 p) ?w rs"
      if "ss_actors st1 p \<noteq> None \<Longrightarrow> ss_policies st1 p = policy" "0 \<le> count_of st1 p"
        "0 < count_of st1 p \<Longrightarrow> \<forall>x\<in>set ts. last_of st1 p \<le> x"
      unfolding rs_def by (rule Cons.IH [OF srt(1) keys that])
    from step consider
        (dead) "ss_actors st1 p = None" "restarts_of p st1 = restarts_of p st"
      | (same) "ss_policies st1 p = policy" "restarts_of p st1 = restarts_of p st"
          "ss_counts st1 p = ss_counts st p" "ss_last st1 p = ss_last st p"
      | (expired) "ss_policies st1 p = policy" "restarts_of p st1 = restarts_of p st"
          "0 < count_of st p \<longrightarrow> ?w < t - last_of st p" "ss_counts st1 p = Some 0"
      | (again) n where "ss_policies st1 p = policy" "restarts_of p st < restarts_of p st1"
          "ss_last st1 p = Some t" "ss_counts st1 p = Some (n + 1)" "n < ?m"
          "n = count_of st p \<or> n = 0 \<and> 0 < count_of st p \<and> ?w < t - last_of st p"
      unfolding restart_step_def by (elim disjE conjE exE) blast+
    then show ?thesis
    proof cases
      case dead
      then show ?thesis unfolding eq by (simp add: rs_def restart_times_dead)
    next
      case same
      have "count_of st1 p = count_of st p" "last_of st1 p = last_of st p"
        using same count_last_of by auto
      then show ?thesis unfolding eq using IH same Cons.prems by auto
    next
      case expired
      have c1: "count_of st1 p = 0" using expired count_last_of by blast
      have "spread ?m ?w rs" using IH expired c1 by simp
      moreover have "spread_after ?m (count_of st p) (last_of st p) ?w rs"
        using expired(3) spread_after_expired [OF _ rs_t] unfolding spread_after_def by blast
      ultimately show ?thesis unfolding eq using expired by simp
    next
      case again
      have c1: "count_of st1 p = n + 1" "last_of st1 p = t" using again count_last_of by blast+
      have n0: "0 \<le> n" using again(6) Cons.prems(4) by auto
      have ih: "spread ?m ?w rs" "spread_after ?m (n + 1) t ?w rs"
        using IH again c1 n0 srt by auto
      have "spread ?m ?w (t # rs)" using spread_Cons [OF ih] n0 again(5) by simp
      moreover have "spread_after ?m (count_of st p) (last_of st p) ?w (t # rs)"
      proof (cases "0 < count_of st p \<and> ?w < t - last_of st p")
        case True
        then show ?thesis using spread_after_expired [of ?w t "last_of st p" "t # rs"] rs_t by simp
      next
        case False
        then have n: "n = count_of st p" using again(6) by blast
        show ?thesis
        proof (cases "0 < count_of st p")
          case True
          then have "last_of st p \<le> t" using Cons.prems(5) by simp
          from spread_after_Cons [OF ih(2) this again(5) n0] show ?thesis using n by simp
        qed (simp add: spread_after_def)
      qed
      ultimately show ?thesis unfolding eq using again(2) by simp
    qed
  qed
qed simp

section \<open>Group actions\<close>


text \<open>Bookkeeping exists for registered actors only, and their policies are valid.\<close>

definition sup_wf :: "'b sup_state \<Rightarrow> bool" where
  "sup_wf st \<longleftrightarrow> dom (ss_originals st) = dom (ss_actors st)
     \<and> dom (ss_policies st) \<subseteq> dom (ss_actors st)
     \<and> (\<forall>p q. ss_policies st p = Some q \<longrightarrow> valid_policy q)"

lemma sup_wfD:
  assumes "sup_wf st"
  shows "ss_originals st p = None \<longleftrightarrow> ss_actors st p = None"
    and "ss_policies st p = Some q \<Longrightarrow> valid_policy q"
    and "ss_actors st p = None \<Longrightarrow> ss_policies st p = None"
proof -
  have "p \<in> dom (ss_originals st) \<longleftrightarrow> p \<in> dom (ss_actors st)" using assms unfolding sup_wf_def by simp
  then show "ss_originals st p = None \<longleftrightarrow> ss_actors st p = None" unfolding domIff by blast
  show "ss_policies st p = Some q \<Longrightarrow> valid_policy q" using assms unfolding sup_wf_def by blast
  have "p \<in> dom (ss_policies st) \<longrightarrow> p \<in> dom (ss_actors st)" using assms unfolding sup_wf_def by blast
  then show "ss_actors st p = None \<Longrightarrow> ss_policies st p = None" by (auto simp: domIff)
qed

lemma omap_get_capture:
  "omap_get (capture_members env st ps cap) p =
     (if p \<in> set ps \<and> env_parses env p \<and> ss_originals st p \<noteq> None
      then Some (the (ss_originals st p), ss_policies st p) else omap_get cap p)"
  by (induction env st ps cap rule: capture_members.induct) (auto split: option.splits)

definition stopped :: "path \<Rightarrow> 'b sup_state \<Rightarrow> 'b sup_state" where
  "stopped p st = emit (Actor_stopped p (Some Supervisor_group_restart) None)
                    (forget_actor p (emit (Actor_stopping p) st))"

lemma stopped_actors [simp]: "ss_actors (stopped p st) = (ss_actors st)(p := None)"
  by (simp add: stopped_def)

definition to_stop :: "'b captured \<Rightarrow> 'b sup_state \<Rightarrow> path list \<Rightarrow> path list" where
  "to_stop cap st ps = filter (\<lambda>p. omap_get cap p \<noteq> None \<and> ss_actors st p \<noteq> None) ps"

lemma to_stop_Cons:
  "to_stop cap st (p # ps) =
     (if omap_get cap p \<noteq> None \<and> ss_actors st p \<noteq> None then [p] else []) @ to_stop cap st ps"
  by (simp add: to_stop_def)

lemma stop_members_fold:
  assumes "smooth env" "distinct ps"
  shows "snd (stop_members env ps (cap, st)) =
      fold stopped (to_stop cap st ps) st
    \<and> (\<forall>p. omap_get (fst (stop_members env ps (cap, st))) p =
        (if p \<in> set ps \<and> ss_actors st p = None then None else omap_get cap p))"
  using assms(2)
proof (induction ps arbitrary: cap st)
  case (Cons p ps)
  have d: "p \<notin> set ps" "distinct ps" using Cons.prems by auto
  have stp: "stop_actor env p (Some Supervisor_group_restart) None st = (True, stopped p st)"
    by (simp add: stop_actor_def smoothD(2) [OF assms(1)] stopped_def)
  have flt: "to_stop cap (stopped p st) ps = to_stop cap st ps"
    unfolding to_stop_def using d by (intro filter_cong) auto
  have flt2: "to_stop (omap_delete p cap) st ps = to_stop cap st ps"
    unfolding to_stop_def using d by (intro filter_cong) (auto simp: delete_conv')
  show ?case
  proof (cases "omap_get cap p")
    case None
    then show ?thesis using Cons.IH [OF d(2), of cap st] d by (simp add: to_stop_Cons stop_member_def)
  next
    case (Some a)
    show ?thesis
    proof (cases "ss_actors st p = None")
      case True
      then show ?thesis
        using Some Cons.IH [OF d(2), of "omap_delete p cap" st] d by (simp add: flt2 to_stop_Cons stop_member_def)
    next
      case False
      then obtain b where "ss_actors st p = Some b" by auto
      then show ?thesis
        using Some Cons.IH [OF d(2), of cap "stopped p st"] d flt
          by (simp add: stp to_stop_Cons stop_member_def) auto
    qed
  qed
qed (simp add: to_stop_def)

lemma fold_stopped_tables:
  "ss_actors (fold stopped ps st) = (\<lambda>q. if q \<in> set ps then None else ss_actors st q)"
  "ss_originals (fold stopped ps st) = (\<lambda>q. if q \<in> set ps then None else ss_originals st q)"
  "ss_policies (fold stopped ps st) = (\<lambda>q. if q \<in> set ps then None else ss_policies st q)"
  "ss_counts (fold stopped ps st) = (\<lambda>q. if q \<in> set ps then None else ss_counts st q)"
  "ss_last (fold stopped ps st) = (\<lambda>q. if q \<in> set ps then None else ss_last st q)"
  "ss_restarting (fold stopped ps st) = ss_restarting st"
  "ss_groups (fold stopped ps st) = ss_groups st"
  "ss_group_keys (fold stopped ps st) = ss_group_keys st"
  "ss_events (fold stopped ps st) = ss_events st @ concat (map (\<lambda>p.
     [Actor_stopping p, Actor_stopped p (Some Supervisor_group_restart) None]) ps)"
  by (induction ps arbitrary: st) (auto simp: stopped_def)

definition respawned :: "string \<Rightarrow> path \<Rightarrow> int \<Rightarrow> (path \<Rightarrow> ('b \<times> supervision_policy option)) \<Rightarrow> path \<Rightarrow>
    'b sup_state \<Rightarrow> 'b sup_state" where
  "respawned key failed n cap p st =
     emit (Actor_restarted p (if p = failed then n else 1) (Some key))
       (emit (Actor_spawned p) (register_actor p (fst (cap p)) (store_policy p (snd (cap p)) st)))"

lemma respawn_members_fold:
  assumes "smooth env" "\<And>p b q. omap_get cap p = Some (b, Some q) \<Longrightarrow> valid_policy q"
  shows "respawn_members env g failed n cap ps st =
     fold (respawned (sg_key g) failed (n + 1) (\<lambda>p. the (omap_get cap p)))
       (filter (\<lambda>p. omap_get cap p \<noteq> None) ps) st"
proof (induction ps arbitrary: st)
  case (Cons p ps)
  show ?case
  proof (cases "omap_get cap p")
    case None
    then show ?thesis using Cons.IH by simp
  next
    case (Some a)
    obtain b pol where a: "a = (b, pol)" by (cases a)
    have ok: "\<not> (case pol of None \<Rightarrow> False | Some q \<Rightarrow> \<not> valid_policy q)"
      using assms(2) Some a by (cases pol) auto
    have sp: "spawn_actor env b p pol st = (True, emit (Actor_spawned p) (register_actor p b (store_policy p pol st)))"
      using smoothD(1) [OF assms(1)] ok by (simp add: spawn_actor_def)
    show ?thesis using Some a Cons.IH by (simp add: sp respawned_def)
  qed
qed simp

lemma fold_respawned_tables:
  "ss_actors (fold (respawned key failed n cap) ps st) =
     (\<lambda>q. if q \<in> set ps then Some (fst (cap q)) else ss_actors st q)"
  "ss_originals (fold (respawned key failed n cap) ps st) =
     (\<lambda>q. if q \<in> set ps then Some (fst (cap q)) else ss_originals st q)"
  "ss_policies (fold (respawned key failed n cap) ps st) =
     (\<lambda>q. if q \<in> set ps \<and> snd (cap q) \<noteq> None then snd (cap q) else ss_policies st q)"
  "ss_counts (fold (respawned key failed n cap) ps st) = ss_counts st"
  "ss_last (fold (respawned key failed n cap) ps st) = ss_last st"
  "ss_restarting (fold (respawned key failed n cap) ps st) = ss_restarting st"
  "ss_groups (fold (respawned key failed n cap) ps st) = ss_groups st"
  "ss_group_keys (fold (respawned key failed n cap) ps st) = ss_group_keys st"
  "ss_events (fold (respawned key failed n cap) ps st) = ss_events st @ concat (map (\<lambda>p.
     [Actor_spawned p, Actor_restarted p (if p = failed then n else 1) (Some key)]) ps)"
  by (induction ps arbitrary: st) (auto simp: respawned_def fun_eq_iff split: option.splits)

text \<open>What a whole group restart does to the tables and to the event stream.\<close>

definition live_members :: "'b sup_env \<Rightarrow> 'b sup_state \<Rightarrow> path list \<Rightarrow> path list" where
  "live_members env st ps = filter (\<lambda>p. env_parses env p \<and> ss_actors st p \<noteq> None) ps"

lemma restart_group_effect:
  assumes "smooth env" "quiet env" "sup_wf st" "distinct ps" "failed \<in> set ps" "env_parses env failed"
    and "ss_actors st failed \<noteq> None"
    and st1: "st1 = restart_supervisor_group env now g failed (rev ps) ps st"
  defines "live \<equiv> live_members env st ps"
  shows "ss_actors st1 = (\<lambda>q. if q \<in> set live then ss_originals st q else ss_actors st q)"
    "ss_originals st1 = ss_originals st" "ss_policies st1 = ss_policies st"
    "ss_counts st1 = (\<lambda>q. if q = failed then Some (count_of st failed + 1)
                           else if q \<in> set live then None else ss_counts st q)"
    "ss_last st1 = (\<lambda>q. if q = failed then Some now else if q \<in> set live then None else ss_last st q)"
    "ss_restarting st1 = ss_restarting st - {sg_key g}"
    "ss_events st1 = ss_events st
       @ concat (map (\<lambda>p. [Actor_stopping p, Actor_stopped p (Some Supervisor_group_restart) None]) (rev live))
       @ concat (map (\<lambda>p. [Actor_spawned p,
            Actor_restarted p (if p = failed then count_of st failed + 1 else 1) (Some (sg_key g))]) live)"
proof -
  define st0 where "st0 = st\<lparr>ss_restarting := insert (sg_key g) (ss_restarting st)\<rparr>"
  define cap where "cap = capture_members env st0 ps []"
  define n where "n = count_of st failed"
  obtain cap2 st3 where sm: "stop_members env (rev ps) (cap, st0) = (cap2, st3)" by fastforce
  have wf0: "ss_originals st p = None \<longleftrightarrow> ss_actors st p = None" for p using sup_wfD(1) [OF assms(3)] .
  have cap: "omap_get cap p = (if p \<in> set live then Some (the (ss_originals st p), ss_policies st p) else None)" for p
    unfolding cap_def omap_get_capture by (auto simp: st0_def live_def live_members_def wf0)
  have keep: "to_stop cap st0 (rev ps) = rev live"
    unfolding to_stop_def cap by (auto simp: rev_filter [symmetric] live_def live_members_def st0_def intro!: filter_cong)
  have st3: "st3 = fold stopped (rev live) st0"
    using stop_members_fold [OF assms(1), of "rev ps" cap st0] assms(4) sm keep by simp
  have cap2: "omap_get cap2 p = omap_get cap p" for p
    using stop_members_fold [OF assms(1), of "rev ps" cap st0] assms(4) sm cap [of p]
    by (auto simp: live_def live_members_def st0_def)
  have keep2: "filter (\<lambda>p. omap_get cap2 p \<noteq> None) ps = live"
    unfolding cap2 cap by (auto simp: live_def live_members_def intro!: filter_cong)
  have lf: "failed \<in> set live" using assms(5-7) by (simp add: live_def live_members_def)
  have val: "valid_policy q" if "omap_get cap2 p = Some (b, Some q)" for p b q
    using that unfolding cap2 cap by (auto split: if_splits dest: sup_wfD(2) [OF assms(3)])
  define st4 where "st4 = fold (respawned (sg_key g) failed (n + 1) (\<lambda>p. the (omap_get cap2 p))) live st3"
  have f: "omap_get cap2 failed \<noteq> None" using lf unfolding cap2 cap by simp
  have n0: "count_of st0 failed = n" by (simp add: n_def st0_def count_of_def)
  have rm: "respawn_members env g failed n cap2 ps st3 = st4"
    unfolding st4_def keep2 [symmetric] by (rule respawn_members_fold [OF assms(1) val])
  have res: "st1 = (note_restart failed (n + 1) now st4)\<lparr>ss_restarting :=
      ss_restarting (note_restart failed (n + 1) now st4) - {sg_key g}\<rparr>"
    unfolding st1 restart_supervisor_group_def
    using f by (simp add: st0_def [symmetric] cap_def [symmetric] n0 sm rm quietD [OF assms(2)] Let_def)
  have pol: "ss_policies st q = None" if "ss_actors st q = None" for q using that by (rule sup_wfD(3) [OF assms(3)])
  note tabs = res st4_def st3 fold_respawned_tables fold_stopped_tables
  show "ss_actors st1 = (\<lambda>q. if q \<in> set live then ss_originals st q else ss_actors st q)"
    using wf0 by (auto simp: tabs cap2 cap st0_def fun_eq_iff live_def live_members_def)
  show "ss_originals st1 = ss_originals st"
    using wf0 by (auto simp: tabs cap2 cap st0_def fun_eq_iff live_def live_members_def)
  show "ss_policies st1 = ss_policies st"
    by (auto simp: tabs cap2 cap st0_def fun_eq_iff)
  show "ss_counts st1 = (\<lambda>q. if q = failed then Some (count_of st failed + 1)
                           else if q \<in> set live then None else ss_counts st q)"
    by (auto simp: tabs n_def st0_def fun_eq_iff)
  show "ss_last st1 = (\<lambda>q. if q = failed then Some now else if q \<in> set live then None else ss_last st q)"
    by (auto simp: tabs st0_def fun_eq_iff)
  show "ss_restarting st1 = ss_restarting st - {sg_key g}" by (simp add: tabs st0_def)
  show "ss_events st1 = ss_events st
       @ concat (map (\<lambda>p. [Actor_stopping p, Actor_stopped p (Some Supervisor_group_restart) None]) (rev live))
       @ concat (map (\<lambda>p. [Actor_spawned p,
            Actor_restarted p (if p = failed then count_of st failed + 1 else 1) (Some (sg_key g))]) live)"
    by (simp add: tabs n_def st0_def)
qed

text \<open>A group that gives up stops its live members from last to first and escalates once.\<close>

definition gave_up :: "path \<Rightarrow> give_up_reason \<Rightarrow> string \<Rightarrow> path \<Rightarrow> 'b sup_state \<Rightarrow> 'b sup_state" where
  "gave_up failed reason err p st =
     emit (Actor_stopped p (Some (give_up_member_reason reason failed p)) (Some err))
       (forget_actor p (emit (Actor_stopping p) st))"

lemma stop_group_members_fold:
  assumes "smooth env" "distinct ps"
  shows "stop_group_members env failed reason err ps st =
     fold (gave_up failed reason err) (live_members env st ps) st"
  using assms(2)
proof (induction ps arbitrary: st)
  case (Cons p ps)
  have d: "p \<notin> set ps" "distinct ps" using Cons.prems by auto
  have stp: "snd (stop_actor env p (Some (give_up_member_reason reason failed p)) (Some err) st) = gave_up failed reason err p st"
    by (simp add: stop_actor_def smoothD(2) [OF assms(1)] gave_up_def)
  have live: "live_members env (gave_up failed reason err p st) ps = live_members env st ps"
    unfolding live_members_def using d by (intro filter_cong) (auto simp: gave_up_def)
  show ?case
    using Cons.IH [OF d(2), of "gave_up failed reason err p st"] Cons.IH [OF d(2), of st] live stp
    by (cases "ss_actors st p") (simp_all add: live_members_def)
qed (simp add: live_members_def)

lemma fold_gave_up_tables:
  "ss_actors (fold (gave_up failed reason err) ps st) = (\<lambda>q. if q \<in> set ps then None else ss_actors st q)"
  "ss_originals (fold (gave_up failed reason err) ps st) = (\<lambda>q. if q \<in> set ps then None else ss_originals st q)"
  "ss_restarting (fold (gave_up failed reason err) ps st) = ss_restarting st"
  "ss_events (fold (gave_up failed reason err) ps st) = ss_events st @ concat (map (\<lambda>p.
     [Actor_stopping p, Actor_stopped p (Some (give_up_member_reason reason failed p)) (Some err)]) ps)"
  by (induction ps arbitrary: st) (auto simp: gave_up_def fun_eq_iff)

lemma live_members_rev: "live_members env st (rev ps) = rev (live_members env st ps)"
  by (simp add: live_members_def rev_filter)

lemma give_up_effect:
  assumes "smooth env" "distinct ps"
    and st1: "st1 = stop_supervisor_group env g failed (rev ps) reason err st"
  defines "live \<equiv> live_members env st ps"
  shows "ss_actors st1 = (\<lambda>q. if q \<in> set live then None else ss_actors st q)"
    "ss_restarting st1 = ss_restarting st - {sg_key g}"
    "ss_events st1 = ss_events st
       @ concat (map (\<lambda>p. [Actor_stopping p,
           Actor_stopped p (Some (give_up_member_reason reason failed p)) (Some err)]) (rev live))
       @ [Actor_escalated failed (Some (sg_key g)) (Some reason) err]"
proof -
  define st0 where "st0 = st\<lparr>ss_restarting := insert (sg_key g) (ss_restarting st)\<rparr>"
  have live: "live_members env st0 (rev ps) = rev live"
    unfolding live_def live_members_rev [symmetric] by (simp add: live_members_def st0_def)
  define st3 where "st3 = emit (Actor_escalated failed (Some (sg_key g)) (Some reason) err)
      (fold (gave_up failed reason err) (rev live) st0)"
  have "stop_group_members env failed reason err (rev ps) st0 = fold (gave_up failed reason err) (rev live) st0"
    using stop_group_members_fold [OF assms(1), of "rev ps"] assms(2) live by simp
  then have res: "st1 = st3\<lparr>ss_restarting := ss_restarting st3 - {sg_key g}\<rparr>"
    unfolding st1 stop_supervisor_group_def st3_def by (simp add: st0_def [symmetric] Let_def)
  note tabs = res st3_def fold_gave_up_tables
  show "ss_actors st1 = (\<lambda>q. if q \<in> set live then None else ss_actors st q)"
    by (simp add: tabs st0_def fun_eq_iff)
  show "ss_restarting st1 = ss_restarting st - {sg_key g}" by (simp add: tabs st0_def)
  show "ss_events st1 = ss_events st
       @ concat (map (\<lambda>p. [Actor_stopping p,
           Actor_stopped p (Some (give_up_member_reason reason failed p)) (Some err)]) (rev live))
       @ [Actor_escalated failed (Some (sg_key g)) (Some reason) err]"
    by (simp add: tabs st0_def)
qed

section \<open>Well-formed tables under arbitrary failures\<close>

lemma sup_wf_ops:
  assumes "sup_wf st"
  shows "sup_wf (emit e st)" "sup_wf (snd (stop_actor env p r e' st))"
    "sup_wf (snd (spawn_actor env b p policy st))" "sup_wf (note_restart p n t st)"
    "sup_wf (sync_count p d st)" "sup_wf (st\<lparr>ss_restarting := R\<rparr>)"
  using assms
  by (auto simp: sup_wf_def stop_actor_def spawn_actor_def sync_count_def
      split: call_outcome.splits option.splits supervision_decision.splits)

lemma keeps_restarting:
  "ss_restarting (snd (stop_actor env p r e' st)) = ss_restarting st"
  "ss_restarting (snd (spawn_actor env b p policy st)) = ss_restarting st"
  "ss_restarting (sync_count p d st) = ss_restarting st"
  by (auto simp: stop_actor_def spawn_actor_def sync_count_def
      split: call_outcome.splits option.splits supervision_decision.splits)

definition good_backoff :: "'b sup_env \<Rightarrow> bool" where
  "good_backoff env \<longleftrightarrow> (\<forall>d st. (sup_wf st \<longrightarrow> sup_wf (env_backoff env d st))
     \<and> ss_restarting (env_backoff env d st) = ss_restarting st)"

lemma good_backoffD:
  "good_backoff env \<Longrightarrow> sup_wf st \<Longrightarrow> sup_wf (env_backoff env d st)"
  "good_backoff env \<Longrightarrow> ss_restarting (env_backoff env d st) = ss_restarting st"
  by (simp_all add: good_backoff_def)

lemma stop_member_keeps:
  assumes "sup_wf (snd cs)"
  shows "sup_wf (snd (stop_member env p cs)) \<and> ss_restarting (snd (stop_member env p cs)) = ss_restarting (snd cs)"
proof -
  obtain cap st where cs: "cs = (cap, st)" by (cases cs)
  obtain ok st1 where s: "stop_actor env p (Some Supervisor_group_restart) None st = (ok, st1)" by fastforce
  have w: "sup_wf st1" "ss_restarting st1 = ss_restarting st"
    using sup_wf_ops(2) [of st env p "Some Supervisor_group_restart" None] assms cs
      keeps_restarting(1) [of env p "Some Supervisor_group_restart" None st] s by auto
  then show ?thesis using s assms cs by (simp add: stop_member_def split: bool.splits)
qed

lemma stop_members_wf:
  "sup_wf (snd cs) \<Longrightarrow> sup_wf (snd (stop_members env ps cs))
     \<and> ss_restarting (snd (stop_members env ps cs)) = ss_restarting (snd cs)"
proof (induction ps arbitrary: cs)
  case (Cons p ps)
  show ?case using Cons.IH [of "stop_member env p cs"] stop_member_keeps [OF Cons.prems, of env p] by simp
qed simp

lemma respawn_members_wf:
  "sup_wf st \<Longrightarrow> sup_wf (respawn_members env g failed n cap ps st)
     \<and> ss_restarting (respawn_members env g failed n cap ps st) = ss_restarting st"
proof (induction ps arbitrary: st)
  case (Cons p ps)
  show ?case
  proof (cases "omap_get cap p")
    case (Some a)
    obtain b pol where a: "a = (b, pol)" by (cases a)
    obtain ok st1 where s: "spawn_actor env b p pol st = (ok, st1)" by fastforce
    have w: "sup_wf st1" "ss_restarting st1 = ss_restarting st"
      using sup_wf_ops(3) [OF Cons.prems, of env b p pol] keeps_restarting(2) [of env b p pol st] s by auto
    show ?thesis using Cons.IH [OF w(1)] Cons.IH [OF sup_wf_ops(1) [OF w(1)]] w s Some a
      by (auto split: bool.splits)
  qed (use Cons in simp)
qed simp

lemma stop_group_members_wf:
  "sup_wf st \<Longrightarrow> sup_wf (stop_group_members env failed reason err ps st)
     \<and> ss_restarting (stop_group_members env failed reason err ps st) = ss_restarting st"
proof (induction ps arbitrary: st)
  case (Cons p ps)
  then show ?case using Cons.IH [OF sup_wf_ops(2) [OF Cons.prems]] Cons.IH [OF Cons.prems]
    by (simp add: keeps_restarting)
qed simp

text \<open>A group restart spawns only members that were still registered after the backoff.\<close>

lemma stop_actor_dom: "dom (ss_actors (snd (stop_actor env q r e st))) \<subseteq> dom (ss_actors st)"
  by (auto simp: stop_actor_def split: call_outcome.splits if_splits)

lemma stop_member_dom:
  "dom (ss_actors (snd (stop_member env q cs))) \<subseteq> dom (ss_actors (snd cs))"
  "dom (omap_get (fst (stop_member env q cs))) \<subseteq> dom (omap_get (fst cs))"
  "q \<in> dom (omap_get (fst (stop_member env q cs))) \<Longrightarrow> q \<in> dom (ss_actors (snd cs))"
proof -
  obtain cap st where cs: "cs = (cap, st)" by (cases cs)
  obtain ok st1 where s: "stop_actor env q (Some Supervisor_group_restart) None st = (ok, st1)" by fastforce
  have d: "dom (ss_actors st1) \<subseteq> dom (ss_actors st)"
    using stop_actor_dom [of env q "Some Supervisor_group_restart" None st] s by simp
  have del: "dom (omap_get (omap_delete q cap)) \<subseteq> dom (omap_get cap)" "q \<notin> dom (omap_get (omap_delete q cap))"
    by (auto simp: delete_conv' split: if_splits)
  show "dom (ss_actors (snd (stop_member env q cs))) \<subseteq> dom (ss_actors (snd cs))"
    using d by (cases ok) (simp_all add: stop_member_def cs s)
  show "dom (omap_get (fst (stop_member env q cs))) \<subseteq> dom (omap_get (fst cs))"
    using del(1) by (cases ok) (simp_all add: stop_member_def cs s)
  show "q \<in> dom (omap_get (fst (stop_member env q cs))) \<Longrightarrow> q \<in> dom (ss_actors (snd cs))"
    using del(2) by (cases "ss_actors st q") (auto simp add: stop_member_def cs s split: if_splits)
qed

lemma stop_members_dom:
  "dom (ss_actors (snd (stop_members env ps cs))) \<subseteq> dom (ss_actors (snd cs))"
  "dom (omap_get (fst (stop_members env ps cs))) \<subseteq> dom (omap_get (fst cs))"
proof (induction ps arbitrary: cs)
  case (Cons q ps)
  { case 1 show ?case using Cons.IH(1) [of "stop_member env q cs"] stop_member_dom(1) [of env q cs] by auto }
  { case 2 show ?case using Cons.IH(2) [of "stop_member env q cs"] stop_member_dom(2) [of env q cs] by auto }
qed simp_all

lemma stop_members_captured:
  "p \<in> dom (omap_get (fst (stop_members env ps cs))) \<Longrightarrow> p \<in> set ps \<Longrightarrow> p \<in> dom (ss_actors (snd cs))"
proof (induction ps arbitrary: cs)
  case (Cons q ps)
  show ?case
  proof (cases "p \<in> set ps")
    case True
    then show ?thesis using Cons.IH [of "stop_member env q cs"] Cons.prems(1) stop_member_dom(1) [of env q cs] by auto
  next
    case False
    then have "p = q" using Cons.prems(2) by simp
    then show ?thesis
      using Cons.prems(1) stop_members_dom(2) [of env ps "stop_member env q cs"] stop_member_dom(3) [of q env cs] by auto
  qed
qed simp

lemma respawn_members_dom:
  "dom (ss_actors (respawn_members env g failed n cap ps st))
   \<subseteq> dom (ss_actors st) \<union> (set ps \<inter> dom (omap_get cap))"
proof (induction ps arbitrary: st)
  case (Cons q ps)
  show ?case
  proof (cases "omap_get cap q")
    case (Some a)
    obtain b pol where a: "a = (b, pol)" by (cases a)
    obtain ok st1 where s: "spawn_actor env b q pol st = (ok, st1)" by fastforce
    have st1: "dom (ss_actors st1) \<subseteq> insert q (dom (ss_actors st))"
      using s by (auto simp: spawn_actor_def split: if_splits)
    define st2 where "st2 = (if ok
        then emit (Actor_restarted q (if q = failed then n + 1 else 1) (Some (sg_key g))) st1 else st1)"
    have eq: "respawn_members env g failed n cap (q # ps) st = respawn_members env g failed n cap ps st2"
      using s Some a by (simp add: st2_def split: bool.splits)
    have "dom (ss_actors st2) = dom (ss_actors st1)" by (simp add: st2_def)
    then have "dom (ss_actors (respawn_members env g failed n cap ps st2))
        \<subseteq> insert q (dom (ss_actors st)) \<union> set ps \<inter> dom (omap_get cap)"
      using Cons.IH [of st2] st1 by blast
    moreover have "q \<in> dom (omap_get cap)" using Some by auto
    ultimately show ?thesis unfolding eq list.set by blast
  qed (use Cons in auto)
qed simp

lemma restart_group_wf:
  assumes "good_backoff env" "sup_wf st" "sg_key g \<notin> ss_restarting st"
  shows "ss_restarting (restart_supervisor_group env now g failed stops respawns st) = ss_restarting st"
    and "(\<forall>n t s. sup_wf s \<longrightarrow> sup_wf (note_restart failed n t s)) \<Longrightarrow>
      sup_wf (restart_supervisor_group env now g failed stops respawns st)"
proof -
  define st1 where "st1 = st\<lparr>ss_restarting := insert (sg_key g) (ss_restarting st)\<rparr>"
  define st2 where "st2 = env_backoff env (backoff_delay (count_of st1 failed)) st1"
  obtain cap2 st3 where s: "stop_members env stops (capture_members env st1 respawns [], st2) = (cap2, st3)"
    by fastforce
  define st4 where "st4 = respawn_members env g failed (count_of st1 failed) cap2 respawns st3"
  have w1: "sup_wf st1" unfolding st1_def by (rule sup_wf_ops(6) [OF assms(2)])
  have w2: "sup_wf st2" "ss_restarting st2 = ss_restarting st1"
    unfolding st2_def using good_backoffD [OF assms(1)] w1 by auto
  have w3: "sup_wf st3" "ss_restarting st3 = ss_restarting st1"
    using stop_members_wf [of "(capture_members env st1 respawns [], st2)" env stops] w2 s by auto
  have w4: "sup_wf st4" "ss_restarting st4 = ss_restarting st1"
    unfolding st4_def using respawn_members_wf [OF w3(1)] w3(2) by auto
  show "ss_restarting (restart_supervisor_group env now g failed stops respawns st) = ss_restarting st"
    unfolding restart_supervisor_group_def Let_def
    by (simp only: st1_def [symmetric] st2_def [symmetric] s prod.case st4_def [symmetric])
       (use w4(2) assms(3) in \<open>simp add: st1_def\<close>)
  show "(\<forall>n t s. sup_wf s \<longrightarrow> sup_wf (note_restart failed n t s)) \<Longrightarrow>
      sup_wf (restart_supervisor_group env now g failed stops respawns st)"
    unfolding restart_supervisor_group_def Let_def
    by (simp only: st1_def [symmetric] st2_def [symmetric] s prod.case st4_def [symmetric])
       (use w4(1) in \<open>simp add: sup_wf_ops\<close>)
qed

lemma stop_group_wf:
  assumes "sup_wf st" "sg_key g \<notin> ss_restarting st"
  shows "ss_restarting (stop_supervisor_group env g failed stops reason err st) = ss_restarting st"
    and "sup_wf (stop_supervisor_group env g failed stops reason err st)"
proof -
  define st1 where "st1 = st\<lparr>ss_restarting := insert (sg_key g) (ss_restarting st)\<rparr>"
  have w: "sup_wf (stop_group_members env failed reason err stops st1)"
    "ss_restarting (stop_group_members env failed reason err stops st1) = ss_restarting st1"
    using stop_group_members_wf [OF sup_wf_ops(6) [OF assms(1)]] unfolding st1_def by auto
  show "ss_restarting (stop_supervisor_group env g failed stops reason err st) = ss_restarting st"
    using w(2) assms(2) by (simp add: stop_supervisor_group_def Let_def st1_def)
  show "sup_wf (stop_supervisor_group env g failed stops reason err st)"
    using w(1) by (simp add: stop_supervisor_group_def Let_def st1_def [symmetric] sup_wf_ops)
qed

lemma restart_actor_wf:
  assumes "good_backoff env" "sup_wf st"
  shows "sup_wf (restart_actor_with_limits env now p b st)
    \<and> ss_restarting (restart_actor_with_limits env now p b st) = ss_restarting st"
proof -
  define st1 where "st1 = env_backoff env (backoff_delay (count_of st p)) st"
  have w1: "sup_wf st1" "ss_restarting st1 = ss_restarting st"
    unfolding st1_def using good_backoffD [OF assms(1)] assms(2) by auto
  obtain ok st2 where s: "stop_actor env p (Some Supervisor_restart) None st1 = (ok, st2)" by fastforce
  have w2: "sup_wf st2" "ss_restarting st2 = ss_restarting st"
    using sup_wf_ops(2) [OF w1(1), of env p "Some Supervisor_restart" None]
      keeps_restarting(1) [of env p "Some Supervisor_restart" None st1] w1(2) s by auto
  obtain ok3 st3 where s3: "spawn_actor env (or_default (ss_originals st p) b) p (ss_policies st p) st2 = (ok3, st3)"
    by fastforce
  have w3: "sup_wf st3" "ss_restarting st3 = ss_restarting st"
    using sup_wf_ops(3) [OF w2(1), of env "or_default (ss_originals st p) b" p "ss_policies st p"]
      keeps_restarting(2) [of env "or_default (ss_originals st p) b" p "ss_policies st p" st2] w2(2) s3 by auto
  show ?thesis
    unfolding restart_actor_with_limits_def Let_def
    by (simp only: st1_def [symmetric] s prod.case s3) (use w2 w3 in \<open>simp add: sup_wf_ops split: bool.splits\<close>)
qed

lemma execute_decision_wf:
  assumes "good_backoff env" "sup_wf st"
  shows "sup_wf (execute_decision env now p b err d st)
    \<and> ss_restarting (execute_decision env now p b err d st) = ss_restarting st"
proof (cases d)
  case (D_restart c m)
  then show ?thesis
    using restart_actor_wf [OF assms(1) sup_wf_ops(5) [OF assms(2)], of now p b p d]
    by (simp add: execute_decision_def keeps_restarting)
next
  case D_escalate
  obtain ok st1 where s: "stop_actor env p None None st = (ok, st1)" by fastforce
  then show ?thesis
    using D_escalate sup_wf_ops(2) [OF assms(2), of env p None None] keeps_restarting(1) [of env p None None st]
    by (simp add: execute_decision_def sup_wf_ops split: bool.splits)
qed (use assms(2) in \<open>simp_all add: execute_decision_def sup_wf_ops keeps_restarting\<close>)

lemma group_key_Some:
  "(case ss_group_keys st p of None \<Rightarrow> None | Some k \<Rightarrow> if k = '''' then None else Some k) = Some k \<longleftrightarrow>
   ss_group_keys st p = Some k \<and> k \<noteq> ''''"
  by (auto split: option.splits if_splits)

section \<open>Properties\<close>

lemma count_fresh: "ss_counts st p = None \<Longrightarrow> count_of st p = 0"
  by (simp add: count_of_def or_default_def)


definition calm :: "string sup_env" where
  "calm = \<lparr>env_spawn = \<lambda>p. Returns, env_stop = \<lambda>p. Returns, env_parses = \<lambda>p. True, env_backoff = \<lambda>d st. st\<rparr>"

definition one_actor :: "supervision_policy option \<Rightarrow> string sup_state" where
  "one_actor policy =
     \<lparr>ss_actors = [''a'' \<mapsto> ''b''], ss_originals = [''a'' \<mapsto> ''b''], ss_policies = (\<lambda>_. None)(''a'' := policy),
      ss_counts = Map.empty, ss_last = Map.empty, ss_groups = Map.empty, ss_group_keys = Map.empty,
      ss_restarting = {}, ss_events = []\<rparr>"

definition once_per_second :: "supervision_policy option" where
  "once_per_second = Some \<lparr>sp_strategy = Restart, sp_max_restarts = Some 1, sp_within_ms = Some 1000\<rparr>"

lemma calm_env: "quiet calm" "smooth calm" "no_late_spawn_error calm p"
  by (simp_all add: calm_def quiet_def smooth_def no_late_spawn_error_def)

lemma one_actor_wf:
  "(case policy of None \<Rightarrow> True | Some q \<Rightarrow> valid_policy q) \<Longrightarrow> sup_wf (one_actor policy)"
  by (auto simp: sup_wf_def one_actor_def split: if_splits option.splits)

lemmas apply_eval = apply_supervision_def resolve_supervision_decision_def resolve_tree_decision_def
  substitute_escalate_def execute_decision_def restart_actor_with_limits_def sync_count_def Let_def
  stop_actor_def spawn_actor_def policy_strategy_def policy_max_def policy_within_def or_default_def
  count_of_def last_of_def calm_def valid_policy_def MAX_RESTART_ATTEMPTS_def RESTART_WINDOW_MS_def

lemma once_per_second_times:
  "restart_times calm ''a'' ''e'' [0, 2000, 5000] (one_actor once_per_second) = [0, 2000, 5000]"
  by (simp add: apply_eval one_actor_def once_per_second_def restarts_of_def table_defs)


text \<open>
  The window is measured from the last restart, not over the last \<open>withinMs\<close>: an actor on the
  default policy which fails every 25 s is stopped for good at its fourth failure, although no
  30 s hold more than two restarts.
\<close>

lemma slow_failures_exhaust_default_policy:
  "restart_times calm ''a'' ''e'' [0, 25000, 50000, 75000] (one_actor None) = [0, 25000, 50000]
   \<and> ss_actors (fold (\<lambda>t. apply_supervision calm t ''a'' ''e'') [0, 25000, 50000, 75000] (one_actor None)) ''a'' = None"
  by (simp add: apply_eval one_actor_def restarts_of_def table_defs)

text \<open>What the failure handler does once it has decided on a group action.\<close>

definition child_decision :: "path \<Rightarrow> ms \<Rightarrow> supervisor_group \<Rightarrow> 'b sup_state \<Rightarrow> supervision_decision" where
  "child_decision p now g st =
     substitute_escalate (ss_policies st p) (Some g) (count_of st p) (last_of st p) now
       (resolve_supervision_decision (ss_policies st p) (count_of st p) (last_of st p) now)"

definition in_group :: "path \<Rightarrow> supervisor_group \<Rightarrow> 'b sup_state \<Rightarrow> bool" where
  "in_group p g st \<longleftrightarrow> ss_group_keys st p = Some (sg_key g) \<and> sg_key g \<noteq> ''''
     \<and> ss_groups st (sg_key g) = Some g \<and> sg_key g \<notin> ss_restarting st
     \<and> p \<in> set (sg_children g) \<and> distinct (sg_children g) \<and> ss_actors st p \<noteq> None"

lemma apply_in_group:
  assumes "in_group p g st"
  shows "apply_supervision env now p err st =
    (case resolve_tree_decision (child_decision p now g st) (Some g) p of
       T_restart_group stops respawns \<Rightarrow>
         restart_supervisor_group env now g p stops respawns (sync_count p (child_decision p now g st) st)
     | T_give_up_group stops reason \<Rightarrow> stop_supervisor_group env g p stops reason err st
     | T_pass_through \<Rightarrow> execute_decision env now p (the (ss_actors st p)) err
         (resolve_supervision_decision (ss_policies st p) (count_of st p) (last_of st p) now) st)"
  using assms
  by (auto simp: in_group_def apply_supervision_def child_decision_def Let_def split: option.splits tree_decision.splits)

definition affected :: "supervisor_group \<Rightarrow> path \<Rightarrow> path list" where
  "affected g p = (if sg_strategy g = One_for_all then sg_children g else slice_from p (sg_children g))"

lemma tree_restart:
  assumes "p \<in> set (sg_children g)" "sg_strategy g = One_for_all \<or> sg_strategy g = Rest_for_one"
  shows "resolve_tree_decision (D_restart c m) (Some g) p = T_restart_group (rev (affected g p)) (affected g p)"
  using assms by (auto simp: resolve_tree_decision_def affected_def Let_def)

lemma tree_give_up:
  assumes "resolve_tree_decision d (Some g) p = T_give_up_group stops reason"
  shows "stops = rev (sg_children g)"
  using assms by (auto simp: resolve_tree_decision_def Let_def split: if_splits supervision_decision.splits)

text \<open>
  A failure in a one-for-all or rest-for-one group restarts the affected live members (all of
  them, or the failed one and those declared after it): they are stopped in reverse declaration
  order, each with one terminal event, then respawned in declaration order from their original
  behaviors and under their own policies. Nobody else is touched, only the failed child's restart
  budget is consumed, and the group is unlocked again.
\<close>

theorem group_restart_effect:
  assumes "smooth env" "quiet env" "sup_wf st" "in_group p g st" "env_parses env p"
    and "sg_strategy g = One_for_all \<or> sg_strategy g = Rest_for_one"
    and "child_decision p now g st = D_restart c m"
    and "st1 = apply_supervision env now p err st"
    and "live = live_members env st (affected g p)"
  shows "p \<in> set live
    \<and> ss_events st1 = ss_events st
        @ concat (map (\<lambda>q. [Actor_stopping q, Actor_stopped q (Some Supervisor_group_restart) None]) (rev live))
        @ concat (map (\<lambda>q. [Actor_spawned q, Actor_restarted q (if q = p then c + 1 else 1) (Some (sg_key g))]) live)
    \<and> ss_actors st1 = (\<lambda>q. if q \<in> set live then ss_originals st q else ss_actors st q)
    \<and> ss_originals st1 = ss_originals st \<and> ss_policies st1 = ss_policies st
    \<and> ss_counts st1 = (\<lambda>q. if q = p then Some (c + 1) else if q \<in> set live then None else ss_counts st q)
    \<and> ss_last st1 = (\<lambda>q. if q = p then Some now else if q \<in> set live then None else ss_last st q)
    \<and> ss_restarting st1 = ss_restarting st"
proof -
  define st0 where "st0 = sync_count p (D_restart c m) st"
  have ig: "p \<in> set (sg_children g)" "distinct (sg_children g)" "ss_actors st p \<noteq> None" "sg_key g \<notin> ss_restarting st"
    using assms(4) by (auto simp: in_group_def)
  have st0: "ss_actors st0 = ss_actors st" "ss_originals st0 = ss_originals st" "ss_policies st0 = ss_policies st"
    "ss_counts st0 = (ss_counts st)(p \<mapsto> c)" "ss_last st0 = ss_last st" "ss_restarting st0 = ss_restarting st"
    "ss_events st0 = ss_events st" "sup_wf st0" "count_of st0 p = c"
    using sup_wf_ops(5) [OF assms(3), of p "D_restart c m"] by (simp_all add: st0_def sync_count_def count_of_def or_default_def)
  have st1: "st1 = restart_supervisor_group env now g p (rev (affected g p)) (affected g p) st0"
    unfolding assms(8) apply_in_group [OF assms(4)] assms(7) tree_restart [OF ig(1) assms(6)] st0_def by simp
  have aff: "distinct (affected g p)" "p \<in> set (affected g p)"
    using ig slice_from_Cons [OF ig(1)] distinct_slice_from [OF ig(2)] by (auto simp: affected_def)
  have act: "ss_actors st0 p \<noteq> None" using ig st0 by simp
  have live: "live = live_members env st0 (affected g p)" by (simp add: assms(9) live_members_def st0)
  note eff = restart_group_effect [OF assms(1,2) st0(8) aff assms(5) act st1, folded live]
  have "p \<in> set live" using aff ig assms(5,9) by (simp add: live_members_def)
  then show ?thesis using eff ig(4) st0 by (auto simp: fun_eq_iff)
qed

definition two_children :: "group_strategy \<Rightarrow> supervisor_group" where
  "two_children s = \<lparr>sg_key = ''g'', sg_strategy = s, sg_children = [''a'', ''b'', ''c'']\<rparr>"

definition three_actors :: "group_strategy \<Rightarrow> string sup_state" where
  "three_actors s =
     \<lparr>ss_actors = [''a'' \<mapsto> ''x'', ''b'' \<mapsto> ''y''], ss_originals = [''a'' \<mapsto> ''x'', ''b'' \<mapsto> ''y''],
      ss_policies = Map.empty, ss_counts = Map.empty, ss_last = Map.empty, ss_groups = [''g'' \<mapsto> two_children s],
      ss_group_keys = [''a'' \<mapsto> ''g'', ''b'' \<mapsto> ''g''], ss_restarting = {}, ss_events = []\<rparr>"

lemma three_actors_ok: "sup_wf (three_actors s)" "in_group ''b'' (two_children s) (three_actors s)"
  "env_parses calm q" "child_decision ''b'' 7 (two_children One_for_all) (three_actors One_for_all) = D_restart 0 3"
  "live_members calm (three_actors s) [''a'', ''b'', ''c''] = [''a'', ''b'']"
  "child_decision ''b'' 7 (two_children Group_escalate) (three_actors Group_escalate) = D_restart 0 3"
  by (auto simp: sup_wf_def three_actors_def two_children_def in_group_def calm_def child_decision_def
      apply_eval live_members_def)

theorem group_restart_witness:
  "ss_events (apply_supervision calm 7 ''b'' ''e'' (three_actors One_for_all)) =
     [Actor_stopping ''b'', Actor_stopped ''b'' (Some Supervisor_group_restart) None,
      Actor_stopping ''a'', Actor_stopped ''a'' (Some Supervisor_group_restart) None,
      Actor_spawned ''a'', Actor_restarted ''a'' 1 (Some ''g''),
      Actor_spawned ''b'', Actor_restarted ''b'' 1 (Some ''g'')]"
  using group_restart_effect [OF calm_env(2,1) three_actors_ok(1,2,3) _ three_actors_ok(4), of
      "apply_supervision calm 7 ''b'' ''e'' (three_actors One_for_all)" "''e''" "[''a'', ''b'']"]
    three_actors_ok(5)
  by (simp add: two_children_def affected_def three_actors_def)

text \<open>
  A group that gives up (an escalating group, or a widening group whose failed child exhausted
  its budget) stops all its live members from the last declared to the first, each with exactly
  one terminal event carrying the reason, escalates exactly once and touches nobody else.
\<close>

theorem group_give_up_effect:
  assumes "smooth env" "in_group p g st"
    and "resolve_tree_decision (child_decision p now g st) (Some g) p = T_give_up_group stops reason"
    and "st1 = apply_supervision env now p err st"
    and "live = live_members env st (sg_children g)"
  shows "ss_events st1 = ss_events st
        @ concat (map (\<lambda>q. [Actor_stopping q,
            Actor_stopped q (Some (give_up_member_reason reason p q)) (Some err)]) (rev live))
        @ [Actor_escalated p (Some (sg_key g)) (Some reason) err]
    \<and> ss_actors st1 = (\<lambda>q. if q \<in> set live then None else ss_actors st q)
    \<and> ss_restarting st1 = ss_restarting st"
proof -
  have ig: "distinct (sg_children g)" "sg_key g \<notin> ss_restarting st" using assms(2) by (auto simp: in_group_def)
  have st1: "st1 = stop_supervisor_group env g p (rev (sg_children g)) reason err st"
    unfolding assms(4) apply_in_group [OF assms(2)] assms(3) tree_give_up [OF assms(3)] by simp
  show ?thesis using give_up_effect [OF assms(1) ig(1) st1] ig(2) by (simp add: assms(5))
qed

theorem group_give_up_witness:
  "ss_events (apply_supervision calm 7 ''b'' ''e'' (three_actors Group_escalate)) =
     [Actor_stopping ''b'', Actor_stopped ''b'' (Some By_supervisor_escalated) (Some ''e''),
      Actor_stopping ''a'', Actor_stopped ''a'' (Some By_supervisor_escalated) (Some ''e''),
      Actor_escalated ''b'' (Some ''g'') (Some Supervisor_escalated) ''e'']"
proof -
  have t: "resolve_tree_decision (child_decision ''b'' 7 (two_children Group_escalate) (three_actors Group_escalate))
      (Some (two_children Group_escalate)) ''b'' = T_give_up_group [''c'', ''b'', ''a''] Supervisor_escalated"
    by (simp add: three_actors_ok(6) resolve_tree_decision_def) (simp add: two_children_def)
  show ?thesis
    using group_give_up_effect [OF calm_env(2) three_actors_ok(2) t, of
        "apply_supervision calm 7 ''b'' ''e'' (three_actors Group_escalate)" "''e''" "[''a'', ''b'']"]
      three_actors_ok(5)
    by (simp add: two_children_def three_actors_def give_up_member_reason_def)
qed

text \<open>
  C35. Whatever throws along the way, and whatever else happens to the tables during the backoff,
  handling a failure leaves them consistent: exactly the registered actors have a behavior to
  respawn from, only registered actors have a policy, and no group stays locked.
\<close>

theorem supervision_keeps_tables:
  assumes "good_backoff env" "sup_wf st" "\<forall>k g. ss_groups st k = Some g \<longrightarrow> sg_key g = k"
  shows "sup_wf (apply_supervision env now p err st)
    \<and> ss_restarting (apply_supervision env now p err st) = ss_restarting st"
proof -
  define key where "key = (case ss_group_keys st p of None \<Rightarrow> None | Some k \<Rightarrow> if k = '''' then None else Some k)"
  define g where "g = Option.bind key (ss_groups st)"
  define d where "d = resolve_supervision_decision (ss_policies st p) (count_of st p) (last_of st p) now"
  define c where "c = substitute_escalate (ss_policies st p) g (count_of st p) (last_of st p) now d"
  have eq: "apply_supervision env now p err st =
    (if (case key of None \<Rightarrow> False | Some k \<Rightarrow> k \<in> ss_restarting st) then st
     else (case ss_actors st p of None \<Rightarrow> st | Some b \<Rightarrow>
        (case (resolve_tree_decision c g p, g) of
           (T_restart_group stops respawns, Some g) \<Rightarrow>
              restart_supervisor_group env now g p stops respawns (sync_count p c st)
         | (T_give_up_group stops reason, Some g) \<Rightarrow> stop_supervisor_group env g p stops reason err st
         | _ \<Rightarrow> execute_decision env now p b err d st)))"
    unfolding apply_supervision_def Let_def key_def [symmetric] g_def [symmetric] d_def [symmetric]
      c_def [symmetric] ..
  have ws: "sup_wf (sync_count p c st)" "ss_restarting (sync_count p c st) = ss_restarting st"
    by (rule sup_wf_ops(5) [OF assms(2)], rule keeps_restarting(3))
  have note_ok: "\<forall>n t s. sup_wf s \<longrightarrow> sup_wf (note_restart p n t s)" using sup_wf_ops(4) by blast
  have unlocked: "sg_key h \<notin> ss_restarting st"
    if "g = Some h" "\<not> (case key of None \<Rightarrow> False | Some k \<Rightarrow> k \<in> ss_restarting st)" for h
    using that assms(3) by (auto simp: g_def bind_eq_Some_conv)
  show ?thesis
  proof (cases "case key of None \<Rightarrow> False | Some k \<Rightarrow> k \<in> ss_restarting st")
    case True
    then show ?thesis using assms(2) by (simp add: eq)
  next
    case open_key: False
    show ?thesis
    proof (cases "ss_actors st p")
      case None
      then show ?thesis using assms(2) by (simp add: eq)
    next
      case (Some b)
      have e: "sup_wf (execute_decision env now p b err d st)
        \<and> ss_restarting (execute_decision env now p b err d st) = ss_restarting st"
        by (rule execute_decision_wf [OF assms(1,2)])
      show ?thesis
      proof (cases g)
        case None
        then show ?thesis using e open_key Some by (simp add: eq split: tree_decision.splits)
      next
        case (Some h)
        have r: "sup_wf (restart_supervisor_group env now h p stops respawns (sync_count p c st))
          \<and> ss_restarting (restart_supervisor_group env now h p stops respawns (sync_count p c st)) = ss_restarting st"
          for stops respawns
          using restart_group_wf [OF assms(1) ws(1)] note_ok unlocked [OF Some open_key] ws(2) by simp
        have s: "sup_wf (stop_supervisor_group env h p stops reason err st)
          \<and> ss_restarting (stop_supervisor_group env h p stops reason err st) = ss_restarting st" for stops reason
          using stop_group_wf [OF assms(2) unlocked [OF Some open_key]] by simp
        show ?thesis using e r s Some open_key \<open>ss_actors st p = Some b\<close>
          by (simp add: eq split: tree_decision.splits)
      qed
    qed
  qed
qed

definition stormy :: "string sup_env" where
  "stormy = calm\<lparr>env_spawn := (\<lambda>p. if p = ''a'' then Throws_late else Throws_early),
                 env_stop := (\<lambda>p. if p = ''a'' then Returns else Throws_late)\<rparr>"

theorem supervision_keeps_tables_witness:
  "sup_wf (apply_supervision stormy 7 ''b'' ''e'' (three_actors One_for_all))
   \<and> ss_restarting (apply_supervision stormy 7 ''b'' ''e'' (three_actors One_for_all)) = {}"
proof -
  have g: "good_backoff stormy" by (simp add: stormy_def calm_def good_backoff_def)
  have k: "\<forall>k g. ss_groups (three_actors s) k = Some g \<longrightarrow> sg_key g = k" for s
    by (auto simp: three_actors_def two_children_def split: if_splits)
  show ?thesis
    using supervision_keeps_tables [OF g three_actors_ok(1) k, of 7 "''b''" "''e''" One_for_all]
    by (simp add: three_actors_def)
qed

text \<open>
  An actor stopped while its supervised restart waits out the backoff comes back: the single
  restart path does not look at the tables again after the wait, stops the missing actor a second
  time (a second terminal event) and registers it anew. The group path guards against exactly
  this: no member that is gone after the backoff is registered by it.
\<close>

theorem single_restart_resurrects:
  assumes "smooth env" "ss_group_keys st p = None" "ss_actors st p = Some b" "sup_wf st"
    and "resolve_supervision_decision (ss_policies st p) (count_of st p) (last_of st p) now = D_restart c m"
    and "waited = env_backoff env (backoff_delay c) (sync_count p (D_restart c m) st)"
    and "ss_actors waited p = None"
  shows "(let st1 = apply_supervision env now p err st
          in ss_actors st1 p \<noteq> None
           \<and> ss_events st1 = ss_events waited @ [Actor_stopping p, Actor_stopped p (Some Supervisor_restart) None,
               Actor_spawned p, Actor_restarted p (c + 1) None])
    \<and> (\<forall>g q ps s. q \<in> dom (ss_actors (restart_supervisor_group env now g p (rev ps) ps s)) \<longrightarrow>
        q \<in> dom (ss_actors (env_backoff env (backoff_delay (count_of s p))
                  (s\<lparr>ss_restarting := insert (sg_key g) (ss_restarting s)\<rparr>))))"
proof (rule conjI)
  have val: "case ss_policies st p of None \<Rightarrow> True | Some q \<Rightarrow> valid_policy q"
    using sup_wfD(2) [OF assms(4)] by (simp split: option.splits)
  have c: "count_of (sync_count p (D_restart c m) st) p = c"
    "ss_policies (sync_count p (D_restart c m) st) p = ss_policies st p"
    by (simp_all add: sync_count_def count_of_def or_default_def)
  have "apply_supervision env now p err st =
     restart_actor_with_limits env now p b (sync_count p (D_restart c m) st)"
    using assms(3) by (simp add: apply_ungrouped [OF assms(2)] assms(5) execute_decision_def)
  then show "let st1 = apply_supervision env now p err st
          in ss_actors st1 p \<noteq> None
           \<and> ss_events st1 = ss_events waited @ [Actor_stopping p, Actor_stopped p (Some Supervisor_restart) None,
               Actor_spawned p, Actor_restarted p (c + 1) None]"
    using val by (auto simp: restart_actor_with_limits_def Let_def c assms(6) stop_actor_def spawn_actor_def
        smoothD [OF assms(1)] split: option.splits)
next
  have "dom (ss_actors (restart_supervisor_group env now g p (rev ps) ps s))
    \<subseteq> dom (ss_actors (env_backoff env (backoff_delay (count_of s p)) (s\<lparr>ss_restarting := insert (sg_key g) (ss_restarting s)\<rparr>)))"
    for g ps s
  proof -
    define st1 where "st1 = s\<lparr>ss_restarting := insert (sg_key g) (ss_restarting s)\<rparr>"
    define st2 where "st2 = env_backoff env (backoff_delay (count_of st1 p)) st1"
    obtain cap2 st3 where m: "stop_members env (rev ps) (capture_members env st1 ps [], st2) = (cap2, st3)"
      by fastforce
    have d3: "dom (ss_actors st3) \<subseteq> dom (ss_actors st2)"
      using stop_members_dom(1) [of env "rev ps" "(capture_members env st1 ps [], st2)"] m by simp
    have cap: "q \<in> dom (omap_get cap2) \<Longrightarrow> q \<in> set ps \<Longrightarrow> q \<in> dom (ss_actors st2)" for q
      using stop_members_captured [of q env "rev ps" "(capture_members env st1 ps [], st2)"] m by simp
    define st4 where "st4 = respawn_members env g p (count_of st1 p) cap2 ps st3"
    have d4: "dom (ss_actors st4) \<subseteq> dom (ss_actors st2)"
      using respawn_members_dom [of env g p "count_of st1 p" cap2 ps st3] d3 cap unfolding st4_def by blast
    have "ss_actors (restart_supervisor_group env now g p (rev ps) ps s) = ss_actors st4"
      unfolding restart_supervisor_group_def Let_def
      by (simp only: st1_def [symmetric] st2_def [symmetric] m prod.case st4_def [symmetric]) simp
    moreover have "count_of st1 p = count_of s p" by (simp add: st1_def count_of_def)
    ultimately show ?thesis using d4 unfolding st2_def st1_def by simp
  qed
  then show "\<forall>g q ps s. q \<in> dom (ss_actors (restart_supervisor_group env now g p (rev ps) ps s)) \<longrightarrow>
        q \<in> dom (ss_actors (env_backoff env (backoff_delay (count_of s p))
                  (s\<lparr>ss_restarting := insert (sg_key g) (ss_restarting s)\<rparr>)))" by blast
qed

text \<open>An operator stops the actor during the backoff.\<close>

definition stopped_meanwhile :: "string sup_env" where
  "stopped_meanwhile = calm\<lparr>env_backoff := (\<lambda>d st. snd (stop_actor calm ''a'' None None st))\<rparr>"

theorem single_restart_resurrects_witness:
  "ss_events (apply_supervision stopped_meanwhile 7 ''a'' ''e'' (one_actor None)) =
     [Actor_stopping ''a'', Actor_stopped ''a'' None None,
      Actor_stopping ''a'', Actor_stopped ''a'' (Some Supervisor_restart) None,
      Actor_spawned ''a'', Actor_restarted ''a'' 1 None]
   \<and> ss_actors (apply_supervision stopped_meanwhile 7 ''a'' ''e'' (one_actor None)) ''a'' \<noteq> None"
proof -
  define waited where "waited = env_backoff stopped_meanwhile (backoff_delay 0) (sync_count ''a'' (D_restart 0 3) (one_actor None))"
  have s: "smooth stopped_meanwhile" by (simp add: stopped_meanwhile_def calm_def smooth_def)
  have o: "ss_group_keys (one_actor None) ''a'' = None" "ss_actors (one_actor None) ''a'' = Some ''b''"
    "sup_wf (one_actor None)"
    "resolve_supervision_decision (ss_policies (one_actor None) ''a'') (count_of (one_actor None) ''a'')
       (last_of (one_actor None) ''a'') 7 = D_restart 0 3"
    using one_actor_wf [of None] by (simp_all add: one_actor_def apply_eval)
  have w: "ss_actors waited ''a'' = None" "ss_events waited = [Actor_stopping ''a'', Actor_stopped ''a'' None None]"
    by (simp_all add: waited_def stopped_meanwhile_def calm_def stop_actor_def one_actor_def sync_count_def)
  show ?thesis
    using single_restart_resurrects [OF s o waited_def w(1), of "''e''"] w(2) by (simp add: Let_def)
qed

end
