(* ===== verification/Json_Values.thy ===== *)
theory Json_Values
  imports Complex_Main Actor_Prelude
begin

text \<open>
  JSON values, what arrives at every boundary of the runtime. An object is its list of entries in
  order, a property that is \<open>undefined\<close> an absent entry, a number an exact rational.
\<close>

datatype json =
    JNull
  | JBool bool
  | JNumber rat
  | JString string
  | JArray "json list"
  | JObject "(string \<times> json) list"

fun field :: "json \<Rightarrow> string \<Rightarrow> json option" where
  "field (JObject fs) k = map_of fs k"
| "field _ k = None"

fun is_record :: "json \<Rightarrow> bool" where
  "is_record (JObject fs) = True"
| "is_record _ = False"

fun is_non_empty_string :: "json option \<Rightarrow> bool" where
  "is_non_empty_string (Some (JString s)) = (\<not> blank s)"
| "is_non_empty_string _ = False"

fun is_finite_number :: "json option \<Rightarrow> bool" where
  "is_finite_number (Some (JNumber r)) = True"
| "is_finite_number _ = False"

fun is_boolean :: "json option \<Rightarrow> bool" where
  "is_boolean (Some (JBool b)) = True"
| "is_boolean _ = False"

fun is_array :: "json option \<Rightarrow> bool" where
  "is_array (Some (JArray xs)) = True"
| "is_array _ = False"

fun is_json_object :: "json option \<Rightarrow> bool" where
  "is_json_object (Some (JObject fs)) = True"
| "is_json_object _ = False"

fun text_value :: "json option \<Rightarrow> string option" where
  "text_value (Some (JString s)) = Some s"
| "text_value _ = None"

fun number_value :: "json option \<Rightarrow> rat option" where
  "number_value (Some (JNumber r)) = Some r"
| "number_value _ = None"

fun object_fields :: "json \<Rightarrow> (string \<times> json) list" where
  "object_fields (JObject fs) = fs"
| "object_fields _ = []"

text \<open>Spreading entries over an object: a key that is present keeps its place.\<close>

definition with_fields :: "(string \<times> json) list \<Rightarrow> (string \<times> json) list \<Rightarrow> (string \<times> json) list" where
  "with_fields fs base = foldl (\<lambda>o1 (k, v). omap_set k v o1) base fs"

lemma with_fields_get: "map_of (with_fields fs base) k =
    (case map_of (rev fs) k of None \<Rightarrow> map_of base k | Some v \<Rightarrow> Some v)"
proof (induction fs arbitrary: base)
  case (Cons f fs)
  then show ?case by (cases f) (auto simp: with_fields_def map_add_def split: option.split)
qed (simp add: with_fields_def)

lemma non_empty_text: "is_non_empty_string v \<longleftrightarrow> (\<exists>s. v = Some (JString s) \<and> \<not> blank s)"
  by (cases v rule: is_non_empty_string.cases) auto

lemma finite_number: "is_finite_number v \<longleftrightarrow> (\<exists>r. v = Some (JNumber r))"
  by (cases v rule: is_finite_number.cases) auto

lemma json_object: "is_json_object v \<longleftrightarrow> (\<exists>fs. v = Some (JObject fs))"
  by (cases v rule: is_json_object.cases) auto

end
