(* ===== verification/Transport_Contract.thy ===== *)
theory Transport_Contract
  imports Json_Values
begin

text \<open>
  The wire contract of the runtime transport, \<open>runtime-transport-contract.ts\<close>: node identities,
  the four kinds of frames, their constructors and their validators. What arrives is an arbitrary
  JSON value. The texts of rejections are left out, their codes are kept; a time is the string
  \<open>toISOString\<close> returns, passed in by the caller.
\<close>

section \<open>Field checks\<close>

definition protocol_version :: string where
  "protocol_version = ''actor-web-runtime/1''"

definition has_protocol_version :: "json option \<Rightarrow> bool" where
  "has_protocol_version v \<longleftrightarrow> v = Some (JString protocol_version)"

fun has_string_array :: "json option \<Rightarrow> bool" where
  "has_string_array (Some (JArray xs)) = list_all (\<lambda>x. is_non_empty_string (Some x)) xs"
| "has_string_array _ = False"

fun has_string_record :: "json option \<Rightarrow> bool" where
  "has_string_record (Some (JObject fs)) = list_all (\<lambda>(k, v). case v of JString s \<Rightarrow> True | _ \<Rightarrow> False) fs"
| "has_string_record _ = False"

fun is_sequence :: "json option \<Rightarrow> bool" where
  "is_sequence (Some (JNumber r)) = (snd (quotient_of r) = 1 \<and> 0 \<le> r)"
| "is_sequence _ = False"

section \<open>Identities and frames\<close>

record rt_identity =
  id_address :: string
  id_node :: string
  id_incarnation :: string
  id_version :: string
  id_capabilities :: "string list option"

record rt_frame =
  fr_version :: string
  fr_source :: rt_identity
  fr_destination :: rt_identity
  fr_message_id :: string
  fr_sequence :: int
  fr_sent_at :: string
  fr_message :: json

datatype reject_code =
    Missing_identity | Self_connection | Incompatible_protocol | Malformed_frame | Unauthorized
  | Payload_too_large

datatype validation = Valid | Invalid reject_code

definition create_identity :: "string \<Rightarrow> string \<Rightarrow> string \<Rightarrow> string list option \<Rightarrow> rt_identity" where
  "create_identity address node incarnation capabilities =
     \<lparr>id_address = address, id_node = node, id_incarnation = incarnation,
      id_version = protocol_version, id_capabilities = capabilities\<rparr>"

definition same_identity :: "rt_identity \<Rightarrow> rt_identity \<Rightarrow> bool" where
  "same_identity a b \<longleftrightarrow> id_node a = id_node b \<and> id_incarnation a = id_incarnation b"

definition create_message_id :: "rt_identity \<Rightarrow> rt_identity \<Rightarrow> int \<Rightarrow> string" where
  "create_message_id source destination sequence =
     id_address source @ '':'' @ id_incarnation source @ '':'' @ id_address destination @ '':'' @ int_text sequence"

definition create_frame :: "rt_identity \<Rightarrow> rt_identity \<Rightarrow> string option \<Rightarrow> int \<Rightarrow> json \<Rightarrow> string \<Rightarrow> rt_frame" where
  "create_frame source destination message_id sequence message sent_at =
     \<lparr>fr_version = protocol_version, fr_source = source, fr_destination = destination,
      fr_message_id = (case message_id of None \<Rightarrow> create_message_id source destination sequence | Some m \<Rightarrow> m),
      fr_sequence = sequence, fr_sent_at = sent_at, fr_message = message\<rparr>"

definition normalize_max_frame_bytes :: "rat option \<Rightarrow> int" where
  "normalize_max_frame_bytes n =
     (case n of None \<Rightarrow> 1048576 | Some r \<Rightarrow> if 0 < r then \<lfloor>r\<rfloor> else 1048576)"

text \<open>The size of a frame is that of its JSON text; \<open>measure\<close> is \<open>TextEncoder\<close> over \<open>JSON.stringify\<close>.\<close>

definition validate_payload_size :: "(rt_frame \<Rightarrow> int) \<Rightarrow> rt_frame \<Rightarrow> rat option \<Rightarrow> bool \<times> int \<times> int" where
  "validate_payload_size size_of f n =
     (let limit = normalize_max_frame_bytes n; bytes = size_of f in (\<not> limit < bytes, bytes, limit))"

section \<open>Serialization\<close>

definition identity_json :: "rt_identity \<Rightarrow> json" where
  "identity_json i = JObject
     ([(''nodeAddress'', JString (id_address i)), (''nodeId'', JString (id_node i)),
       (''incarnation'', JString (id_incarnation i)), (''protocolVersion'', JString (id_version i))]
      @ (case id_capabilities i of None \<Rightarrow> [] | Some cs \<Rightarrow> [(''capabilities'', JArray (map JString cs))]))"

definition frame_json :: "rt_frame \<Rightarrow> json" where
  "frame_json f = JObject
     [(''protocolVersion'', JString (fr_version f)), (''source'', identity_json (fr_source f)),
      (''destination'', identity_json (fr_destination f)), (''messageId'', JString (fr_message_id f)),
      (''sequence'', JNumber (of_int (fr_sequence f))), (''sentAt'', JString (fr_sent_at f)),
      (''message'', fr_message f)]"

definition ack_json :: "rt_identity \<Rightarrow> rt_identity \<Rightarrow> string \<Rightarrow> int \<Rightarrow> string \<Rightarrow> json" where
  "ack_json source destination message_id sequence sent_at = JObject
     [(''type'', JString ''runtime.transport.ack''), (''protocolVersion'', JString protocol_version),
      (''source'', identity_json source), (''destination'', identity_json destination),
      (''messageId'', JString message_id), (''sequence'', JNumber (of_int sequence)), (''sentAt'', JString sent_at)]"

definition heartbeat_json :: "string \<Rightarrow> rt_identity \<Rightarrow> rt_identity \<Rightarrow> string \<Rightarrow> json" where
  "heartbeat_json kind source destination sent_at = JObject
     [(''type'', JString kind), (''protocolVersion'', JString protocol_version),
      (''source'', identity_json source), (''destination'', identity_json destination), (''sentAt'', JString sent_at)]"

definition ping_json :: "rt_identity \<Rightarrow> rt_identity \<Rightarrow> string \<Rightarrow> json" where
  "ping_json = heartbeat_json ''runtime.transport.ping''"

definition pong_json :: "rt_identity \<Rightarrow> rt_identity \<Rightarrow> string \<Rightarrow> json" where
  "pong_json = heartbeat_json ''runtime.transport.pong''"

definition auth_field :: "json option \<Rightarrow> (string \<times> json) list" where
  "auth_field auth = (case auth of None \<Rightarrow> [] | Some a \<Rightarrow> [(''auth'', a)])"

definition hello_json :: "rt_identity \<Rightarrow> string \<Rightarrow> json option \<Rightarrow> json" where
  "hello_json source sent_at auth = JObject
     ([(''type'', JString ''runtime.handshake.hello''), (''protocolVersion'', JString protocol_version),
       (''source'', identity_json source), (''sentAt'', JString sent_at)] @ auth_field auth)"

definition accept_json :: "rt_identity \<Rightarrow> rt_identity \<Rightarrow> string \<Rightarrow> json option \<Rightarrow> json" where
  "accept_json source destination sent_at auth = JObject
     ([(''type'', JString ''runtime.handshake.accept''), (''protocolVersion'', JString protocol_version),
       (''source'', identity_json source), (''destination'', identity_json destination),
       (''sentAt'', JString sent_at)] @ auth_field auth)"

definition reject_json :: "string \<Rightarrow> string \<Rightarrow> rt_identity option \<Rightarrow> rt_identity option \<Rightarrow> string \<Rightarrow> json" where
  "reject_json code message source destination sent_at = JObject
     ([(''type'', JString ''runtime.handshake.reject''), (''protocolVersion'', JString protocol_version)]
      @ (case source of None \<Rightarrow> [] | Some i \<Rightarrow> [(''source'', identity_json i)])
      @ (case destination of None \<Rightarrow> [] | Some i \<Rightarrow> [(''destination'', identity_json i)])
      @ [(''code'', JString code), (''message'', JString message), (''sentAt'', JString sent_at)])"

section \<open>Validation\<close>

definition absent_or :: "(json option \<Rightarrow> bool) \<Rightarrow> json option \<Rightarrow> bool" where
  "absent_or p v \<longleftrightarrow> (v = None \<or> p v)"

fun is_string :: "json option \<Rightarrow> bool" where
  "is_string (Some (JString s)) = True"
| "is_string _ = False"

definition validate_auth :: "json \<Rightarrow> validation" where
  "validate_auth v =
     (if \<not> is_record v then Invalid Malformed_frame
      else if \<not> absent_or is_non_empty_string (field v ''scheme'') then Invalid Malformed_frame
      else if \<not> absent_or is_string (field v ''token'') then Invalid Malformed_frame
      else if \<not> absent_or has_string_record (field v ''metadata'') then Invalid Malformed_frame
      else Valid)"

definition validate_identity :: "json option \<Rightarrow> validation" where
  "validate_identity x =
     (case x of None \<Rightarrow> Invalid Missing_identity
      | Some v \<Rightarrow>
        if \<not> is_record v then Invalid Missing_identity
        else if \<not> is_non_empty_string (field v ''nodeAddress'') \<or> \<not> is_non_empty_string (field v ''nodeId'')
                \<or> \<not> is_non_empty_string (field v ''incarnation'') then Invalid Missing_identity
        else if \<not> has_protocol_version (field v ''protocolVersion'') then Invalid Incompatible_protocol
        else if \<not> absent_or has_string_array (field v ''capabilities'') then Invalid Malformed_frame
        else Valid)"

fun string_of :: "json option \<Rightarrow> string" where
  "string_of (Some (JString s)) = s"
| "string_of _ = []"

fun strings_of :: "json option \<Rightarrow> string list option" where
  "strings_of (Some (JArray xs)) = Some (map (\<lambda>x. string_of (Some x)) xs)"
| "strings_of _ = None"

text \<open>The casts \<open>as RuntimeNodeIdentity\<close> and \<open>as RuntimeTransportFrame\<close> of a validated value.\<close>

definition as_identity :: "json option \<Rightarrow> rt_identity" where
  "as_identity x =
     (let f = (\<lambda>k. Option.bind x (\<lambda>v. field v k))
      in \<lparr>id_address = string_of (f ''nodeAddress''), id_node = string_of (f ''nodeId''),
          id_incarnation = string_of (f ''incarnation''), id_version = string_of (f ''protocolVersion''),
          id_capabilities = strings_of (f ''capabilities'')\<rparr>)"

fun int_of :: "json option \<Rightarrow> int" where
  "int_of (Some (JNumber r)) = \<lfloor>r\<rfloor>"
| "int_of _ = 0"

definition as_frame :: "json \<Rightarrow> rt_frame" where
  "as_frame v =
     \<lparr>fr_version = string_of (field v ''protocolVersion''), fr_source = as_identity (field v ''source''),
      fr_destination = as_identity (field v ''destination''), fr_message_id = string_of (field v ''messageId''),
      fr_sequence = int_of (field v ''sequence''), fr_sent_at = string_of (field v ''sentAt''),
      fr_message = (case field v ''message'' of None \<Rightarrow> JNull | Some m \<Rightarrow> m)\<rparr>"

definition matches_local :: "json option \<Rightarrow> rt_identity option \<Rightarrow> bool" where
  "matches_local x local_id =
     (case local_id of None \<Rightarrow> True | Some l \<Rightarrow> same_identity (as_identity x) l)"

text \<open>The checks every frame passes: source, destination, and that it is meant for this node.\<close>

definition validate_ends :: "json \<Rightarrow> rt_identity option \<Rightarrow> validation" where
  "validate_ends v local_id =
     (case validate_identity (field v ''source'') of
        Invalid c \<Rightarrow> Invalid c
      | Valid \<Rightarrow>
          (case validate_identity (field v ''destination'') of
             Invalid c \<Rightarrow> Invalid c
           | Valid \<Rightarrow>
               if matches_local (field v ''destination'') local_id then Valid else Invalid Malformed_frame))"

definition message_type :: "json option \<Rightarrow> json option" where
  "message_type m = (case m of None \<Rightarrow> None | Some v \<Rightarrow> field v ''type'')"

definition validate_frame :: "json \<Rightarrow> rt_identity option \<Rightarrow> validation" where
  "validate_frame v local_id =
     (if \<not> is_record v then Invalid Malformed_frame
      else if \<not> has_protocol_version (field v ''protocolVersion'') then Invalid Incompatible_protocol
      else (case validate_ends v local_id of
              Invalid c \<Rightarrow> Invalid c
            | Valid \<Rightarrow>
                if \<not> is_sequence (field v ''sequence'') then Invalid Malformed_frame
                else if \<not> is_non_empty_string (field v ''messageId'') then Invalid Malformed_frame
                else if \<not> is_non_empty_string (field v ''sentAt'') then Invalid Malformed_frame
                else if \<not> is_non_empty_string (message_type (field v ''message'')) then Invalid Malformed_frame
                else Valid))"

definition validate_heartbeat :: "json \<Rightarrow> rt_identity option \<Rightarrow> validation" where
  "validate_heartbeat v local_id =
     (if \<not> is_record v then Invalid Malformed_frame
      else if field v ''type'' \<noteq> Some (JString ''runtime.transport.ping'')
            \<and> field v ''type'' \<noteq> Some (JString ''runtime.transport.pong'') then Invalid Malformed_frame
      else if \<not> has_protocol_version (field v ''protocolVersion'') then Invalid Incompatible_protocol
      else (case validate_ends v local_id of
              Invalid c \<Rightarrow> Invalid c
            | Valid \<Rightarrow> if \<not> is_non_empty_string (field v ''sentAt'') then Invalid Malformed_frame else Valid))"

definition validate_ack :: "json \<Rightarrow> rt_identity option \<Rightarrow> validation" where
  "validate_ack v local_id =
     (if \<not> is_record v then Invalid Malformed_frame
      else if field v ''type'' \<noteq> Some (JString ''runtime.transport.ack'') then Invalid Malformed_frame
      else if \<not> has_protocol_version (field v ''protocolVersion'') then Invalid Incompatible_protocol
      else (case validate_ends v local_id of
              Invalid c \<Rightarrow> Invalid c
            | Valid \<Rightarrow>
                if \<not> is_non_empty_string (field v ''messageId'') then Invalid Malformed_frame
                else if \<not> is_sequence (field v ''sequence'') then Invalid Malformed_frame
                else if \<not> is_non_empty_string (field v ''sentAt'') then Invalid Malformed_frame
                else Valid))"

definition validate_handshake :: "json \<Rightarrow> rt_identity option \<Rightarrow> validation" where
  "validate_handshake v local_id =
     (let ty = field v ''type''
      in if \<not> is_record v \<or> \<not> is_non_empty_string ty then Invalid Malformed_frame
         else if \<not> has_protocol_version (field v ''protocolVersion'') then Invalid Incompatible_protocol
         else if ty \<notin> {Some (JString ''runtime.handshake.hello''), Some (JString ''runtime.handshake.accept''),
                         Some (JString ''runtime.handshake.reject'')} then Invalid Malformed_frame
         else if \<not> is_non_empty_string (field v ''sentAt'') then Invalid Malformed_frame
         else if ty = Some (JString ''runtime.handshake.reject'') then
           (if \<not> is_non_empty_string (field v ''code'') \<or> \<not> is_non_empty_string (field v ''message'')
            then Invalid Malformed_frame else Valid)
         else (case validate_identity (field v ''source'') of
                 Invalid c \<Rightarrow> Invalid c
               | Valid \<Rightarrow>
                   if local_id \<noteq> None \<and> matches_local (field v ''source'') local_id then Invalid Self_connection
                   else (case (if ty = Some (JString ''runtime.handshake.accept'')
                               then (case validate_identity (field v ''destination'') of
                                       Invalid c \<Rightarrow> Invalid c
                                     | Valid \<Rightarrow> if matches_local (field v ''destination'') local_id then Valid
                                               else Invalid Malformed_frame)
                               else Valid) of
                           Invalid c \<Rightarrow> Invalid c
                         | Valid \<Rightarrow> (case field v ''auth'' of None \<Rightarrow> Valid | Some a \<Rightarrow> validate_auth a))))"

section \<open>Well-formed values\<close>

definition wf_identity :: "rt_identity \<Rightarrow> bool" where
  "wf_identity i \<longleftrightarrow> \<not> blank (id_address i) \<and> \<not> blank (id_node i) \<and> \<not> blank (id_incarnation i)
     \<and> id_version i = protocol_version
     \<and> (case id_capabilities i of None \<Rightarrow> True | Some cs \<Rightarrow> list_all (\<lambda>c. \<not> blank c) cs)"

definition frame_wf :: "rt_frame \<Rightarrow> bool" where
  "frame_wf f \<longleftrightarrow> fr_version f = protocol_version \<and> wf_identity (fr_source f) \<and> wf_identity (fr_destination f)
     \<and> \<not> blank (fr_message_id f) \<and> 0 \<le> fr_sequence f \<and> \<not> blank (fr_sent_at f)
     \<and> is_non_empty_string (field (fr_message f) ''type'')"

lemma non_empty_stringE:
  assumes "is_non_empty_string v"
  obtains s where "v = Some (JString s)" "\<not> blank s"
  using assms by (cases v rule: is_non_empty_string.cases) auto

lemma sequenceE:
  assumes "is_sequence v"
  obtains n where "v = Some (JNumber (of_int n))" "0 \<le> n"
proof (cases v rule: is_sequence.cases)
  case (1 r)
  obtain n where "quotient_of r = (n, 1)" using assms 1 by (metis is_sequence.simps(1) prod.collapse)
  then have "r = of_int n" using quotient_of_div by fastforce
  then show ?thesis using assms 1 that [of n] by simp
qed (use assms in auto)

lemma is_sequence_int [simp]: "is_sequence (Some (JNumber (of_int n))) \<longleftrightarrow> 0 \<le> n"
  by simp

lemma identity_fields:
  "field (identity_json i) ''nodeAddress'' = Some (JString (id_address i))"
  "field (identity_json i) ''nodeId'' = Some (JString (id_node i))"
  "field (identity_json i) ''incarnation'' = Some (JString (id_incarnation i))"
  "field (identity_json i) ''protocolVersion'' = Some (JString (id_version i))"
  "field (identity_json i) ''capabilities'' = map_option (\<lambda>cs. JArray (map JString cs)) (id_capabilities i)"
  "is_record (identity_json i)"
  by (simp_all add: identity_json_def split: option.splits)

lemma as_identity_json [simp]: "as_identity (Some (identity_json i)) = i"
  by (simp add: as_identity_def identity_fields Let_def comp_def split: option.splits)
     (cases "id_capabilities i"; simp add: comp_def)

lemma validate_identity_json [simp]:
  "wf_identity i \<Longrightarrow> validate_identity (Some (identity_json i)) = Valid"
  by (auto simp: validate_identity_def identity_fields wf_identity_def has_protocol_version_def absent_or_def
      list_all_iff split: option.splits)

lemma validate_identity_sound:
  assumes "validate_identity v = Valid"
  shows "wf_identity (as_identity v)"
proof -
  obtain x where v: "v = Some x" using assms by (cases v) (auto simp: validate_identity_def)
  have s: "is_non_empty_string (field x ''nodeAddress'')" "is_non_empty_string (field x ''nodeId'')"
    "is_non_empty_string (field x ''incarnation'')" "has_protocol_version (field x ''protocolVersion'')"
    "absent_or has_string_array (field x ''capabilities'')"
    using assms v by (auto simp: validate_identity_def split: if_splits)
  have str: "is_non_empty_string y \<Longrightarrow> \<not> blank (string_of y)" for y by (auto elim: non_empty_stringE)
  have caps: "case strings_of (field x ''capabilities'') of None \<Rightarrow> True | Some cs \<Rightarrow> list_all (\<lambda>c. \<not> blank c) cs"
    using s(5) str by (cases "field x ''capabilities''" rule: strings_of.cases)
      (auto simp: absent_or_def list_all_iff)
  show ?thesis
    using s str caps unfolding wf_identity_def as_identity_def v Let_def
    by (simp add: has_protocol_version_def)
qed

lemma frame_fields:
  "field (frame_json f) ''protocolVersion'' = Some (JString (fr_version f))"
  "field (frame_json f) ''source'' = Some (identity_json (fr_source f))"
  "field (frame_json f) ''destination'' = Some (identity_json (fr_destination f))"
  "field (frame_json f) ''messageId'' = Some (JString (fr_message_id f))"
  "field (frame_json f) ''sequence'' = Some (JNumber (of_int (fr_sequence f)))"
  "field (frame_json f) ''sentAt'' = Some (JString (fr_sent_at f))"
  "field (frame_json f) ''message'' = Some (fr_message f)"
  "field (frame_json f) ''type'' = None"
  "is_record (frame_json f)"
  by (simp_all add: frame_json_def)

lemma ack_fields:
  "field (ack_json s d m n t) ''type'' = Some (JString ''runtime.transport.ack'')"
  "field (ack_json s d m n t) ''protocolVersion'' = Some (JString protocol_version)"
  "field (ack_json s d m n t) ''source'' = Some (identity_json s)"
  "field (ack_json s d m n t) ''destination'' = Some (identity_json d)"
  "field (ack_json s d m n t) ''messageId'' = Some (JString m)"
  "field (ack_json s d m n t) ''sequence'' = Some (JNumber (of_int n))"
  "field (ack_json s d m n t) ''sentAt'' = Some (JString t)"
  "is_record (ack_json s d m n t)"
  by (simp_all add: ack_json_def)

lemma heartbeat_fields:
  "field (heartbeat_json k s d t) ''type'' = Some (JString k)"
  "field (heartbeat_json k s d t) ''protocolVersion'' = Some (JString protocol_version)"
  "field (heartbeat_json k s d t) ''source'' = Some (identity_json s)"
  "field (heartbeat_json k s d t) ''destination'' = Some (identity_json d)"
  "field (heartbeat_json k s d t) ''sentAt'' = Some (JString t)"
  "is_record (heartbeat_json k s d t)"
  by (simp_all add: heartbeat_json_def)

lemma validate_ends_json:
  assumes "wf_identity s" "wf_identity d" "field v ''source'' = Some (identity_json s)"
    "field v ''destination'' = Some (identity_json d)"
  shows "validate_ends v (Some l) = (if same_identity d l then Valid else Invalid Malformed_frame)"
  using assms by (simp add: validate_ends_def matches_local_def)

lemma validate_ends_sound:
  assumes "validate_ends v (Some l) = Valid"
  shows "wf_identity (as_identity (field v ''source'')) \<and> wf_identity (as_identity (field v ''destination''))
    \<and> same_identity (as_identity (field v ''destination'')) l"
  using assms
  by (auto simp: validate_ends_def matches_local_def split: validation.splits if_splits
      intro: validate_identity_sound)

section \<open>Properties\<close>


definition id_of :: "string \<Rightarrow> rt_identity" where "id_of s = create_identity s s ''0'' None"

definition hello_frame :: rt_frame where
  "hello_frame = create_frame (id_of ''a'') (id_of ''b'') None 7 (JObject [(''type'', JString ''HI'')]) ''t''"

lemma hello_frame_wf: "frame_wf hello_frame"
  by (simp add: frame_wf_def hello_frame_def id_of_def create_frame_def create_identity_def wf_identity_def
      create_message_id_def protocol_version_def blank_def js_space_def)

lemma hello_frame_valid: "validate_frame (frame_json hello_frame) (Some (id_of ''b'')) = Valid"
proof -
  have "wf_identity (id_of ''a'')" "wf_identity (id_of ''b'')" and h: "is_non_empty_string (Some (JString (fr_message_id hello_frame)))"
    using hello_frame_wf by (simp_all add: frame_wf_def hello_frame_def create_frame_def)
  then have "validate_ends (frame_json hello_frame) (Some (id_of ''b'')) = Valid"
    by (subst validate_ends_json) (auto simp: frame_fields hello_frame_def create_frame_def same_identity_def)
  then show ?thesis
    using hello_frame_wf h
    by (simp add: validate_frame_def frame_fields frame_wf_def has_protocol_version_def message_type_def)
qed


text \<open>
  What one node builds the other accepts: a well-formed frame survives serialization (the cast
  of its JSON is the frame), and the receiver accepts it exactly if it is the addressed
  incarnation; the acknowledgement it sends back and the heartbeats between the two are accepted,
  and a handshake hello is accepted by every node but the sender itself.
\<close>

theorem built_frames_are_accepted:
  assumes "frame_wf f"
  shows "as_frame (frame_json f) = f
    \<and> (validate_frame (frame_json f) (Some l) = Valid \<longleftrightarrow> same_identity (fr_destination f) l)
    \<and> validate_ack (ack_json (fr_destination f) (fr_source f) (fr_message_id f) (fr_sequence f) (fr_sent_at f))
        (Some (fr_source f)) = Valid
    \<and> validate_heartbeat (ping_json (fr_source f) (fr_destination f) (fr_sent_at f)) (Some (fr_destination f)) = Valid
    \<and> validate_heartbeat (pong_json (fr_destination f) (fr_source f) (fr_sent_at f)) (Some (fr_source f)) = Valid
    \<and> (validate_handshake (hello_json (fr_source f) (fr_sent_at f) None) (Some l) = Valid
        \<longleftrightarrow> \<not> same_identity (fr_source f) l)"
proof (intro conjI)
  have w: "wf_identity (fr_source f)" "wf_identity (fr_destination f)" "\<not> blank (fr_message_id f)"
    "0 \<le> fr_sequence f" "\<not> blank (fr_sent_at f)" "fr_version f = protocol_version"
    "is_non_empty_string (field (fr_message f) ''type'')"
    using assms by (auto simp: frame_wf_def)
  have self: "same_identity i i" for i by (simp add: same_identity_def)
  note ends = validate_ends_json [OF w(1,2)] validate_ends_json [OF w(2,1)]
  note flds = has_protocol_version_def w message_type_def self
  show "as_frame (frame_json f) = f" by (simp add: as_frame_def frame_fields)
  show "validate_frame (frame_json f) (Some l) = Valid \<longleftrightarrow> same_identity (fr_destination f) l"
    by (simp add: validate_frame_def frame_fields ends flds)
  show "validate_ack (ack_json (fr_destination f) (fr_source f) (fr_message_id f) (fr_sequence f) (fr_sent_at f))
        (Some (fr_source f)) = Valid"
    by (simp add: validate_ack_def ack_fields ends flds)
  show "validate_heartbeat (ping_json (fr_source f) (fr_destination f) (fr_sent_at f)) (Some (fr_destination f)) = Valid"
    by (simp add: ping_json_def validate_heartbeat_def heartbeat_fields ends flds)
  show "validate_heartbeat (pong_json (fr_destination f) (fr_source f) (fr_sent_at f)) (Some (fr_source f)) = Valid"
    by (simp add: pong_json_def validate_heartbeat_def heartbeat_fields ends flds)
  have hello: "field (hello_json s t None) ''type'' = Some (JString ''runtime.handshake.hello'')"
    "field (hello_json s t None) ''protocolVersion'' = Some (JString protocol_version)"
    "field (hello_json s t None) ''source'' = Some (identity_json s)"
    "field (hello_json s t None) ''sentAt'' = Some (JString t)"
    "field (hello_json s t None) ''auth'' = None" "is_record (hello_json s t None)" for s t
    by (simp_all add: hello_json_def auth_field_def)
  have nb: "\<not> blank ''runtime.handshake.hello''" by (simp add: blank_def js_space_def)
  show "validate_handshake (hello_json (fr_source f) (fr_sent_at f) None) (Some l) = Valid
        \<longleftrightarrow> \<not> same_identity (fr_source f) l"
    by (simp add: validate_handshake_def Let_def hello flds matches_local_def nb)
qed

theorem built_frames_witness:
  "as_frame (frame_json hello_frame) = hello_frame
   \<and> validate_frame (frame_json hello_frame) (Some (id_of ''b'')) = Valid
   \<and> validate_frame (frame_json hello_frame) (Some (id_of ''a'')) \<noteq> Valid"
  using built_frames_are_accepted [OF hello_frame_wf, of "id_of ''b''"]
    built_frames_are_accepted [OF hello_frame_wf, of "id_of ''a''"]
  by (simp add: hello_frame_def create_frame_def same_identity_def id_of_def create_identity_def)

end
