(* ===== verification/Transport_Idempotency.thy ===== *)
theory Transport_Idempotency
  imports Actor_Prelude
begin

text \<open>
  Deduplication of inbound transport frames, \<open>runtime-transport-idempotency.ts\<close>: the bounded
  in-memory front cache, the claim of a frame against an optional provider, and the in-memory
  provider. A provider answers asynchronously: between its answer and the moment the claim resumes
  other frames may arrive, so the claim is two steps and a list of claims in flight is part of the
  state. What a provider promises is the locale \<open>idempotency_provider\<close>.
\<close>

section \<open>Scopes and claims\<close>

record node_identity =
  ni_address :: string
  ni_id :: string

record transport_frame =
  tf_message_id :: string
  tf_sequence :: int
  tf_message_type :: string

record claim_input =
  ci_scope :: string
  ci_key :: string
  ci_message_id :: string
  ci_message_type :: string
  ci_sequence :: int
  ci_local :: node_identity
  ci_peer :: node_identity

fun join_colon :: "string list \<Rightarrow> string" where
  "join_colon [] = []"
| "join_colon [s] = s"
| "join_colon (s # ss) = s @ '':'' @ join_colon ss"

definition idempotency_scope :: "node_identity \<Rightarrow> node_identity \<Rightarrow> string" where
  "idempotency_scope local_node peer_node =
     join_colon [''runtime-transport'', ''local'', ni_address local_node, ni_id local_node,
                 ''peer'', ni_address peer_node, ni_id peer_node]"

definition claim_input_for :: "node_identity \<Rightarrow> node_identity \<Rightarrow> transport_frame \<Rightarrow> claim_input" where
  "claim_input_for local_node peer_node f =
     (let scope = idempotency_scope local_node peer_node
      in \<lparr>ci_scope = scope, ci_key = scope @ '':message:'' @ tf_message_id f,
          ci_message_id = tf_message_id f, ci_message_type = tf_message_type f,
          ci_sequence = tf_sequence f, ci_local = local_node, ci_peer = peer_node\<rparr>)"

section \<open>The front cache\<close>

record front_cache =
  fc_limit :: int
  fc_ids :: "string list"
  fc_set :: "string set"

definition new_cache :: "int \<Rightarrow> front_cache" where
  "new_cache limit = \<lparr>fc_limit = limit, fc_ids = [], fc_set = {}\<rparr>"

definition cache_has :: "front_cache \<Rightarrow> string \<Rightarrow> bool" where
  "cache_has c m \<longleftrightarrow> 0 < fc_limit c \<and> m \<in> fc_set c"

text \<open>The eviction loop; \<open>if (!evicted) continue\<close> also skips the empty message id.\<close>

fun evict_over :: "int \<Rightarrow> string list \<Rightarrow> string set \<Rightarrow> string list \<times> string list \<times> string set" where
  "evict_over limit [] s = ([], [], s)"
| "evict_over limit (m # ms) s =
     (if int (length (m # ms)) \<le> limit then ([], m # ms, s)
      else if m = '''' then evict_over limit ms s
      else (let (ev, ids, s1) = evict_over limit ms (s - {m}) in (m # ev, ids, s1)))"

definition remember :: "front_cache \<Rightarrow> string \<Rightarrow> string list \<times> front_cache" where
  "remember c m =
     (if fc_limit c \<le> 0 then ([], c)
      else (let (ev, ids, s) = evict_over (fc_limit c) (fc_ids c @ [m]) (insert m (fc_set c))
            in (ev, c\<lparr>fc_ids := ids, fc_set := s\<rparr>)))"

section \<open>Claiming a frame\<close>

datatype claim_result = Claimed | Duplicate_claim

datatype claim_source = From_memory | From_provider

datatype claim_outcome =
    Accepted claim_source "string list" "claim_input option"
  | Duplicate claim_source "string list" "claim_input option"
  | Claim_error string claim_input

type_synonym 'p provider = "claim_input \<Rightarrow> 'p \<Rightarrow> (string + claim_result) \<times> 'p"

record 'p inbound =
  in_cache :: front_cache
  in_provider :: 'p
  in_flight :: "(claim_input \<times> (string + claim_result)) list"

text \<open>Up to the provider's answer: an outcome at once, or a claim in flight.\<close>

definition claim_begin :: "'p provider option \<Rightarrow> node_identity \<Rightarrow> node_identity \<Rightarrow> transport_frame \<Rightarrow>
    'p inbound \<Rightarrow> claim_outcome option \<times> 'p inbound" where
  "claim_begin provider local_node peer_node f st =
     (if cache_has (in_cache st) (tf_message_id f) then (Some (Duplicate From_memory [] None), st)
      else (case provider of
              None \<Rightarrow>
                (let (ev, c) = remember (in_cache st) (tf_message_id f)
                 in (Some (Accepted From_memory ev None), st\<lparr>in_cache := c\<rparr>))
            | Some claim \<Rightarrow>
                (let input = claim_input_for local_node peer_node f;
                     (r, p) = claim input (in_provider st)
                 in (None, st\<lparr>in_provider := p, in_flight := in_flight st @ [(input, r)]\<rparr>))))"

text \<open>The continuation after \<open>await provider.claim(...)\<close> of the \<open>i\<close>-th claim in flight.\<close>

definition claim_end :: "nat \<Rightarrow> 'p inbound \<Rightarrow> claim_outcome option \<times> 'p inbound" where
  "claim_end i st =
     (if length (in_flight st) \<le> i then (None, st)
      else (let (input, r) = in_flight st ! i;
                st1 = st\<lparr>in_flight := take i (in_flight st) @ drop (Suc i) (in_flight st)\<rparr>
            in case r of
                 Inl e \<Rightarrow> (Some (Claim_error e input), st1)
               | Inr a \<Rightarrow>
                   (let (ev, c) = remember (in_cache st1) (ci_message_id input)
                    in (Some (if a = Duplicate_claim then Duplicate From_provider ev (Some input)
                              else Accepted From_provider ev (Some input)),
                        st1\<lparr>in_cache := c\<rparr>))))"

section \<open>The in-memory provider\<close>

type_synonym scopes = "(string, string list) omap"

definition memory_claim :: "claim_input \<Rightarrow> scopes \<Rightarrow> (string + claim_result) \<times> scopes" where
  "memory_claim input scopes =
     (let keys = (case omap_get scopes (ci_scope input) of None \<Rightarrow> [] | Some ks \<Rightarrow> ks);
          duplicate = (ci_key input \<in> set keys);
          keys1 = (if duplicate then keys else keys @ [ci_key input])
      in (Inr (if duplicate then Duplicate_claim else Claimed), omap_set (ci_scope input) keys1 scopes))"

definition memory_snapshot :: "scopes \<Rightarrow> (string \<times> string list) list" where
  "memory_snapshot scopes = scopes"

definition memory_clear :: "scopes \<Rightarrow> scopes" where
  "memory_clear scopes = []"

section \<open>The inbound side of one channel\<close>

datatype inbound_event = Arrives transport_frame | Provider_answered nat

fun inbound_step :: "'p provider option \<Rightarrow> node_identity \<Rightarrow> node_identity \<Rightarrow> inbound_event \<Rightarrow>
    'p inbound \<Rightarrow> claim_outcome option \<times> 'p inbound" where
  "inbound_step provider l p (Arrives f) st = claim_begin provider l p f st"
| "inbound_step provider l p (Provider_answered i) st = claim_end i st"

definition new_inbound :: "int \<Rightarrow> 'p \<Rightarrow> 'p inbound" where
  "new_inbound limit p = \<lparr>in_cache = new_cache limit, in_provider = p, in_flight = []\<rparr>"

text \<open>The acceptances of one message id that the provider decided.\<close>

definition accepts_of :: "string \<Rightarrow> claim_outcome option list \<Rightarrow> nat" where
  "accepts_of m outs = length (filter (\<lambda>out. case out of
     Some (Accepted From_provider ev (Some input)) \<Rightarrow> ci_message_id input = m | _ \<Rightarrow> False) outs)"

definition won_in_flight :: "string \<Rightarrow> (claim_input \<times> (string + claim_result)) list \<Rightarrow> nat" where
  "won_in_flight m xs = length (filter (\<lambda>(x, r). ci_message_id x = m \<and> r = Inr Claimed) xs)"

lemma won_in_flight_split:
  "i < length xs \<Longrightarrow> won_in_flight m xs = won_in_flight m (take i xs @ drop (Suc i) xs)
     + (if ci_message_id (fst (xs ! i)) = m \<and> snd (xs ! i) = Inr Claimed then 1 else 0)"
  by (subst (1) id_take_nth_drop [of i xs], assumption) (auto simp: won_in_flight_def split: prod.splits)

lemma claim_input_key:
  "ci_key (claim_input_for l p f) = ci_scope (claim_input_for l p f) @ '':message:'' @ tf_message_id f"
  "ci_scope (claim_input_for l p f) = idempotency_scope l p"
  "ci_message_id (claim_input_for l p f) = tf_message_id f"
  by (simp_all add: claim_input_for_def Let_def)

section \<open>What a provider promises\<close>

text \<open>
  A claim that does not fail answers \<open>Claimed\<close> only when the key was free in its scope, and from
  then on it is taken; a claim never frees a key. Failures may or may not have taken the key.
\<close>

locale idempotency_provider =
  fixes claim :: "'p provider"
    and taken :: "'p \<Rightarrow> string \<Rightarrow> string \<Rightarrow> bool"
  assumes claim_free: "fst (claim input p) = Inr Claimed \<Longrightarrow> \<not> taken p (ci_scope input) (ci_key input)"
    and claim_takes: "fst (claim input p) = Inr r \<Longrightarrow> taken (snd (claim input p)) (ci_scope input) (ci_key input)"
    and claim_keeps: "taken p s k \<Longrightarrow> taken (snd (claim input p)) s k"
begin

definition message_taken :: "node_identity \<Rightarrow> node_identity \<Rightarrow> string \<Rightarrow> 'p \<Rightarrow> bool" where
  "message_taken l q m p = taken p (idempotency_scope l q) (idempotency_scope l q @ '':message:'' @ m)"

lemma accepts_le_budget:
  "accepts_of m (fst (run_machine (inbound_step (Some claim) l q) es st))
   \<le> (if message_taken l q m (in_provider st) then 0 else 1) + won_in_flight m (in_flight st)"
proof (induction es arbitrary: st)
  case (Cons e es)
  obtain out st1 where s: "inbound_step (Some claim) l q e st = (out, st1)" by fastforce
  have eq: "accepts_of m (fst (run_machine (inbound_step (Some claim) l q) (e # es) st)) =
      accepts_of m [out] + accepts_of m (fst (run_machine (inbound_step (Some claim) l q) es st1))"
    using s by (simp add: accepts_of_def split_beta Let_def)
  let ?b = "\<lambda>st. (if message_taken l q m (in_provider st) then 0 else 1) + won_in_flight m (in_flight st)"
  have "accepts_of m [out] + ?b st1 \<le> ?b st"
  proof (cases e)
    case (Arrives f)
    show ?thesis
    proof (cases "cache_has (in_cache st) (tf_message_id f)")
      case True
      then show ?thesis using s Arrives by (auto simp: claim_begin_def accepts_of_def)
    next
      case False
      let ?x = "claim_input_for l q f"
      obtain r p1 where c: "claim ?x (in_provider st) = (r, p1)" by fastforce
      have st1: "st1 = st\<lparr>in_provider := p1, in_flight := in_flight st @ [(?x, r)]\<rparr>" and out: "out = None"
        using s Arrives False c by (auto simp: claim_begin_def Let_def)
      have keep: "message_taken l q m (in_provider st) \<Longrightarrow> message_taken l q m p1"
        using claim_keeps [of "in_provider st" _ _ ?x] c by (simp add: message_taken_def)
      have won: "won_in_flight m (in_flight st1) = won_in_flight m (in_flight st)
          + (if tf_message_id f = m \<and> r = Inr Claimed then 1 else 0)"
        by (simp add: st1 won_in_flight_def claim_input_key)
      show ?thesis
      proof (cases "tf_message_id f = m \<and> r = Inr Claimed")
        case True
        have "\<not> message_taken l q m (in_provider st)" "message_taken l q m p1"
          using claim_free [of ?x "in_provider st"] claim_takes [of ?x "in_provider st" Claimed] c True
          by (auto simp: message_taken_def claim_input_key)
        then show ?thesis using won True by (simp add: out st1 accepts_of_def)
      next
        case False
        then show ?thesis using won keep by (auto simp: out st1 accepts_of_def)
      qed
    qed
  next
    case (Provider_answered i)
    show ?thesis
    proof (cases "i < length (in_flight st)")
      case True
      obtain x r where x: "in_flight st ! i = (x, r)" by fastforce
      obtain ev c where rem: "remember (in_cache st) (ci_message_id x) = (ev, c)" by fastforce
      have f: "in_provider st1 = in_provider st"
        "in_flight st1 = take i (in_flight st) @ drop (Suc i) (in_flight st)"
        using s Provider_answered True x rem by (auto simp: claim_end_def Let_def split: sum.splits)
      have "accepts_of m [out] = (if ci_message_id x = m \<and> r = Inr Claimed then 1 else 0)"
        using s Provider_answered True x rem
        by (auto simp: claim_end_def Let_def accepts_of_def split: sum.splits if_splits)
           (metis claim_result.exhaust)+
      then show ?thesis using won_in_flight_split [OF True, of m] f x by simp
    qed (use s Provider_answered in \<open>simp add: claim_end_def accepts_of_def\<close>)
  qed
  then show ?case using Cons.IH [of st1] unfolding eq by linarith
qed (simp add: accepts_of_def)

lemma accepted_at_most_once:
  "accepts_of m (fst (run_machine (inbound_step (Some claim) l q) es (new_inbound limit p))) \<le> 1"
  using accepts_le_budget [of m l q es "new_inbound limit p"]
  by (simp add: new_inbound_def won_in_flight_def split: if_splits)

end

definition memory_taken :: "scopes \<Rightarrow> string \<Rightarrow> string \<Rightarrow> bool" where
  "memory_taken p s k \<longleftrightarrow> (case omap_get p s of None \<Rightarrow> False | Some ks \<Rightarrow> k \<in> set ks)"

interpretation mem: idempotency_provider memory_claim memory_taken
  by unfold_locales (auto simp: memory_claim_def memory_taken_def Let_def split: option.splits if_splits)

section \<open>The cache without a provider\<close>

fun memory_accepts :: "node_identity \<Rightarrow> node_identity \<Rightarrow> transport_frame list \<Rightarrow> 'p inbound \<Rightarrow> string list" where
  "memory_accepts l q [] st = []"
| "memory_accepts l q (f # fs) st =
     (case claim_begin None l q f st of
        (Some (Accepted s ev x), st1) \<Rightarrow> tf_message_id f # memory_accepts l q fs st1
      | (_, st1) \<Rightarrow> memory_accepts l q fs st1)"

text \<open>The cache holds the last \<open>limit\<close> accepted ids.\<close>

definition recent :: "nat \<Rightarrow> 'a list \<Rightarrow> 'a list" where
  "recent n xs = drop (length xs - n) xs"

definition cache_of :: "int \<Rightarrow> string list \<Rightarrow> front_cache \<Rightarrow> bool" where
  "cache_of limit acc c \<longleftrightarrow> fc_limit c = limit \<and> fc_ids c = recent (nat limit) acc \<and> distinct (fc_ids c)
     \<and> set (fc_ids c) \<subseteq> fc_set c \<and> fc_set c \<subseteq> set acc"

lemma recent_snoc: "recent (Suc n) (xs @ [x]) = recent n xs @ [x]"
  by (simp add: recent_def)

lemma recent_Suc: "recent n xs = (if length xs \<le> n then recent (Suc n) xs else tl (recent (Suc n) xs))"
proof (cases "length xs \<le> n")
  case False
  then have "length xs - n = Suc (length xs - Suc n)" by simp
  then show ?thesis using False by (simp add: recent_def drop_Suc tl_drop)
qed (simp add: recent_def)

lemma evict_one:
  assumes "int (length ms) \<le> limit + 1" "0 < limit"
  shows "evict_over limit ms s =
    (if int (length ms) \<le> limit then ([], ms, s)
     else if hd ms = '''' then ([], tl ms, s) else ([hd ms], tl ms, s - {hd ms}))"
proof (cases ms)
  case (Cons m ns)
  have "evict_over limit ns s' = ([], ns, s')" for s'
    using assms(1) Cons by (cases ns) auto
  then show ?thesis using Cons by simp
qed (use assms in simp)

lemma remember_cache:
  assumes "cache_of limit acc c" "0 < limit" "m \<notin> fc_set c"
  shows "cache_of limit (acc @ [m]) (snd (remember c m))"
proof -
  let ?n = "nat limit"
  let ?ids = "fc_ids c @ [m]"
  have c: "fc_limit c = limit" "fc_ids c = recent ?n acc" "distinct (fc_ids c)"
    "set (fc_ids c) \<subseteq> fc_set c" "fc_set c \<subseteq> set acc"
    using assms(1) by (auto simp: cache_of_def)
  have ids: "?ids = recent (Suc ?n) (acc @ [m])" by (simp add: c(2) recent_snoc)
  have len: "length ?ids = min (Suc ?n) (Suc (length acc))" by (simp add: c(2) recent_def)
  have d: "distinct ?ids" using c(3,4) assms(3) by auto
  have ev: "evict_over limit ?ids (insert m (fc_set c)) =
    (if int (length ?ids) \<le> limit then ([], ?ids, insert m (fc_set c))
     else if hd ?ids = '''' then ([], tl ?ids, insert m (fc_set c))
     else ([hd ?ids], tl ?ids, insert m (fc_set c) - {hd ?ids}))"
    by (rule evict_one) (use len assms(2) in auto)
  have keep: "recent ?n (acc @ [m]) = (if int (length ?ids) \<le> limit then ?ids else tl ?ids)"
    unfolding ids using len assms(2) ids by (subst recent_Suc) auto
  have hd: "hd ?ids \<notin> set (tl ?ids)" "set (tl ?ids) \<subseteq> set ?ids"
    using d by (cases ?ids; auto)+
  show ?thesis
    unfolding cache_of_def remember_def using assms(2) ev keep hd d c
    by (auto simp: distinct_tl)
qed

lemma memory_accepts_window:
  assumes "cache_of limit acc (in_cache st)" "0 < limit" "set acc \<subseteq> S"
    and "\<forall>i j. i < j \<longrightarrow> j < length acc \<longrightarrow> int (j - i) \<le> limit \<longrightarrow> acc ! i \<noteq> acc ! j"
  shows "(\<forall>i j. i < j \<longrightarrow> j < length (acc @ memory_accepts l q fs st) \<longrightarrow> int (j - i) \<le> limit \<longrightarrow>
            (acc @ memory_accepts l q fs st) ! i \<noteq> (acc @ memory_accepts l q fs st) ! j)
       \<and> set acc \<union> set (memory_accepts l q fs st) = set acc \<union> tf_message_id ` set fs"
  using assms(1,4)
proof (induction fs arbitrary: acc st)
  case (Cons f fs)
  let ?m = "tf_message_id f" and ?c = "in_cache st"
  have lim: "fc_limit ?c = limit" "fc_set ?c \<subseteq> set acc" using Cons.prems(1) by (auto simp: cache_of_def)
  show ?case
  proof (cases "?m \<in> fc_set ?c")
    case True
    then have "claim_begin None l q f st = (Some (Duplicate From_memory [] None), st)"
      using lim assms(2) by (simp add: claim_begin_def cache_has_def)
    then show ?thesis using Cons.IH [OF Cons.prems] True lim by auto
  next
    case False
    obtain ev c where rem: "remember ?c ?m = (ev, c)" by fastforce
    have cb: "claim_begin None l q f st = (Some (Accepted From_memory ev None), st\<lparr>in_cache := c\<rparr>)"
      using False rem by (simp add: claim_begin_def cache_has_def)
    have c: "cache_of limit (acc @ [?m]) (in_cache (st\<lparr>in_cache := c\<rparr>))"
      using remember_cache [OF Cons.prems(1) assms(2) False] rem by simp
    have "(acc @ [?m]) ! i \<noteq> (acc @ [?m]) ! j"
      if ij: "i < j" "j < length (acc @ [?m])" "int (j - i) \<le> limit" for i j
    proof (cases "j = length acc")
      case True
      have "acc ! i \<in> set (recent (nat limit) acc)"
        using ij True unfolding recent_def in_set_conv_nth
        by (intro exI [of _ "i - (length acc - nat limit)"]) auto
      then show ?thesis using False True ij Cons.prems(1) by (auto simp: cache_of_def nth_append)
    next
      case False
      then show ?thesis using ij Cons.prems(2) by (auto simp: nth_append)
    qed
    then show ?thesis using Cons.IH [OF c] cb by auto
  qed
qed (use assms in simp)

lemma cache_of_new: "cache_of limit [] (new_cache limit)"
  by (simp add: cache_of_def new_cache_def recent_def)

lemma memory_accepts_unlimited:
  assumes "limit \<le> 0" "fc_limit (in_cache st) = limit"
  shows "memory_accepts l q fs st = map tf_message_id fs"
  using assms(2)
proof (induction fs arbitrary: st)
  case (Cons f fs)
  have "claim_begin None l q f st = (Some (Accepted From_memory [] None), st)"
    using Cons.prems assms(1) by (simp add: claim_begin_def cache_has_def remember_def)
  then show ?case using Cons.IH [OF Cons.prems] by simp
qed simp

section \<open>Properties\<close>


text \<open>
  Without a provider the front cache of size \<open>limit\<close> is a deduplication window: no two of
  any \<open>limit + 1\<close> successively accepted frames carry the same id, and nothing is lost, every id that
  arrives is accepted at least once. With a limit of zero or less nothing is deduplicated.
\<close>

theorem memory_dedup_window:
  assumes "acc = memory_accepts local_node peer_node fs (new_inbound limit p)"
  shows "(0 < limit \<and> i < j \<and> j < length acc \<and> int (j - i) \<le> limit \<longrightarrow> acc ! i \<noteq> acc ! j)
    \<and> set acc = tf_message_id ` set fs
    \<and> (limit \<le> 0 \<longrightarrow> acc = map tf_message_id fs)"
proof (cases "0 < limit")
  case True
  have "cache_of limit [] (in_cache (new_inbound limit p))" by (simp add: new_inbound_def cache_of_new)
  then have "(\<forall>i j. i < j \<longrightarrow> j < length acc \<longrightarrow> int (j - i) \<le> limit \<longrightarrow> acc ! i \<noteq> acc ! j)
      \<and> set acc = tf_message_id ` set fs"
    using memory_accepts_window [of limit "[]" "new_inbound limit p" UNIV local_node peer_node fs] True
    unfolding assms by simp
  then show ?thesis using True by (meson not_le)
next
  case False
  then have "acc = map tf_message_id fs"
    using memory_accepts_unlimited [of limit "new_inbound limit p" local_node peer_node fs]
    by (simp add: assms new_inbound_def new_cache_def)
  then show ?thesis using False by simp
qed

definition node_a :: node_identity where "node_a = \<lparr>ni_address = ''a'', ni_id = ''1''\<rparr>"
definition frame_of :: "string \<Rightarrow> transport_frame" where
  "frame_of m = \<lparr>tf_message_id = m, tf_sequence = 0, tf_message_type = ''T''\<rparr>"

lemma window_two:
  "memory_accepts node_a node_a (map frame_of [''x'', ''y'', ''x'', ''z'', ''x'']) (new_inbound 2 ()) =
     [''x'', ''y'', ''z'', ''x'']"
  by (simp add: claim_begin_def new_inbound_def new_cache_def cache_has_def remember_def frame_of_def)

theorem memory_dedup_window_witness:
  "[''x'', ''y'', ''z'', ''x''] ! 1 \<noteq> [''x'', ''y'', ''z'', ''x''] ! 3
   \<and> set [''x'', ''y'', ''z'', ''x''] = tf_message_id ` set (map frame_of [''x'', ''y'', ''x'', ''z'', ''x''])"
  using memory_dedup_window [OF window_two [symmetric], of 1 3] by simp

end
