(* ===== verification/Transport_Peer.thy ===== *)
theory Transport_Peer
  imports Transport_Contract Transport_Idempotency
begin

text \<open>
  One peer of \<open>transport/transport-core.ts\<close> and the reliability deciders of
  \<open>transport/transport-reliability.ts\<close>: the outbound queue with its single send in flight,
  backpressure, acknowledgement tracking with retries, and the heartbeat. Every operation takes the
  facts it reads outside the peer (whether the peer is still registered, whether its link is open,
  the clock) and returns the effects it has as a list of outputs, which the core theory performs.
\<close>

section \<open>Reliability deciders\<close>

datatype ack_retry_verdict = Ack_wait | Ack_retry | Ack_give_up

definition resolve_ack_retry :: "int \<Rightarrow> ms \<Rightarrow> ms \<Rightarrow> ms \<Rightarrow> int \<Rightarrow> ack_retry_verdict" where
  "resolve_ack_retry attempts last_sent now ack_timeout max_retries =
     (if ack_timeout \<le> 0 \<or> max_retries \<le> 0 then Ack_give_up
      else if now - last_sent < ack_timeout then Ack_wait
      else if max_retries \<le> attempts then Ack_give_up
      else Ack_retry)"

datatype backpressure_verdict = Bp_enqueue | Bp_drop

definition resolve_backpressure :: "int \<Rightarrow> int \<Rightarrow> backpressure_verdict" where
  "resolve_backpressure depth limit = (if 0 \<le> limit \<and> limit \<le> depth then Bp_drop else Bp_enqueue)"

datatype heartbeat_verdict = Hb_alive | Hb_timed_out

definition resolve_heartbeat :: "ms \<Rightarrow> ms \<Rightarrow> ms \<Rightarrow> heartbeat_verdict" where
  "resolve_heartbeat last_seen now timeout =
     (if timeout \<le> 0 then Hb_alive else if timeout \<le> now - last_seen then Hb_timed_out else Hb_alive)"

section \<open>Peer state and effects\<close>

record transport_config =
  cf_heartbeat_interval :: ms
  cf_heartbeat_timeout :: ms
  cf_window_size :: int
  cf_ack_timeout :: ms
  cf_max_retries :: int
  cf_queue_limit :: int
  cf_max_frame_bytes :: "rat option"

datatype counter =
    Frames_sent | Frames_received | Frames_acked | Frames_retried | Retries_exhausted
  | Outbound_dropped | Backpressure_drops | Duplicates_dropped | Cache_evictions
  | Provider_claims | Provider_duplicates | Provider_errors | Malformed_dropped | Validation_dropped
  | Sequence_gaps | Handshakes_accepted | Handshakes_rejected | Disconnects | Reconnects | Heartbeat_timeouts

datatype telemetry_type =
    Ev_started | Ev_stopped | Ev_connecting | Ev_connected | Ev_disconnected | Ev_peer_rejected
  | Ev_auth_rejected | Ev_handshake_accepted | Ev_handshake_rejected | Ev_frame_sent | Ev_frame_received
  | Ev_frame_dropped | Ev_frame_duplicate | Ev_sequence_gap | Ev_cache_evicted | Ev_provider_claimed
  | Ev_provider_duplicate | Ev_provider_error | Ev_enqueued | Ev_drained | Ev_queue_dropped
  | Ev_backpressure | Ev_ack_sent | Ev_ack_received | Ev_retry_scheduled | Ev_retry_exhausted
  | Ev_heartbeat_timeout

datatype wire_item = W_frame rt_frame | W_ack string int | W_ping | W_pong | W_native_ping

datatype effect =
    Wire wire_item                          \<comment> \<open>handed to \<open>link.send\<close>\<close>
  | Queued nat rt_frame                     \<comment> \<open>a frame is queued and its promise created\<close>
  | Refused nat rt_frame                    \<comment> \<open>\<open>Promise.reject\<close> at once: the queue is full\<close>
  | Settle nat bool                         \<comment> \<open>the promise of a queued frame resolves or rejects\<close>
  | Count counter                           \<comment> \<open>the global and the per-peer counter go up\<close>
  | Telemetry telemetry_type "string option"  \<comment> \<open>telemetry event with its message id\<close>
  | Deliver json                            \<comment> \<open>\<open>emitTransportMessage\<close>\<close>
  | Disconnect_later                        \<comment> \<open>a rejection handler will disconnect the address\<close>

record queue_item =
  qi_frame :: rt_frame
  qi_ticket :: nat
  qi_track :: bool

record pending_ack =
  pa_frame :: rt_frame
  pa_attempts :: int
  pa_last_sent :: ms
  pa_armed :: bool

datatype peer_state = Peer_connecting | Peer_connected | Peer_disconnecting | Peer_disconnected

record peer =
  pe_link :: nat
  pe_native_heartbeat :: bool
  pe_identity :: rt_identity
  pe_sequence :: int
  pe_last_received :: int
  pe_cache :: front_cache
  pe_pending :: "(string, pending_ack) omap"
  pe_queue :: "queue_item list"
  pe_in_flight :: "queue_item option"
  pe_flushing :: bool
  pe_last_seen :: ms
  pe_interval_armed :: bool
  pe_deadline_armed :: bool
  pe_state :: peer_state

definition new_peer :: "transport_config \<Rightarrow> nat \<Rightarrow> bool \<Rightarrow> rt_identity \<Rightarrow> ms \<Rightarrow> peer" where
  "new_peer cf link native ident now =
     \<lparr>pe_link = link, pe_native_heartbeat = native, pe_identity = ident, pe_sequence = 0, pe_last_received = 0,
      pe_cache = new_cache (cf_window_size cf), pe_pending = [], pe_queue = [], pe_in_flight = None,
      pe_flushing = False, pe_last_seen = now,
      pe_interval_armed = False, pe_deadline_armed = False, pe_state = Peer_connected\<rparr>"

type_synonym peer_result = "effect list \<times> peer"

section \<open>The outbound queue\<close>

definition frame_event :: "telemetry_type \<Rightarrow> rt_frame \<Rightarrow> effect" where
  "frame_event k f = Telemetry k (Some (fr_message_id f))"

definition record_frame_sent :: "rt_frame \<Rightarrow> effect list" where
  "record_frame_sent f = [Count Frames_sent, frame_event Ev_frame_sent f]"

definition record_queue_dropped :: "rt_frame \<Rightarrow> effect list" where
  "record_queue_dropped f =
     [Count Outbound_dropped, Count Backpressure_drops, frame_event Ev_queue_dropped f, frame_event Ev_backpressure f]"

text \<open>
  One synchronous stretch of \<open>drainOutboundQueue\<close>: from the loop head to the \<open>await\<close> of a send, or
  out of the loop and through its \<open>finally\<close> (whose test for a further flush fails: the loop only
  ends when the queue is empty or the peer cannot send).
\<close>

definition drain_queue :: "bool \<Rightarrow> bool \<Rightarrow> peer \<Rightarrow> peer_result" where
  "drain_queue live opn pe =
     (case pe_queue pe of
        [] \<Rightarrow> ([], pe\<lparr>pe_flushing := False\<rparr>)
      | item # rest \<Rightarrow>
          if \<not> live \<or> \<not> opn then ([], pe\<lparr>pe_flushing := False\<rparr>)
          else ([Wire (W_frame (qi_frame item))], pe\<lparr>pe_queue := rest, pe_in_flight := Some item\<rparr>))"

definition flush_queue :: "bool \<Rightarrow> bool \<Rightarrow> peer \<Rightarrow> peer_result" where
  "flush_queue live opn pe =
     (if pe_flushing pe then ([], pe) else drain_queue live opn (pe\<lparr>pe_flushing := True\<rparr>))"

text \<open>A rejected promise of a retry runs its handler, which disconnects the address.\<close>

definition reject_item :: "queue_item \<Rightarrow> effect list" where
  "reject_item item = Settle (qi_ticket item) False # (if qi_track item then [] else [Disconnect_later])"

definition enqueue_frame :: "transport_config \<Rightarrow> bool \<Rightarrow> bool \<Rightarrow> queue_item \<Rightarrow> peer \<Rightarrow> peer_result" where
  "enqueue_frame cf live opn item pe =
     (if resolve_backpressure (int (length (pe_queue pe))) (cf_queue_limit cf) = Bp_drop
      then (record_queue_dropped (qi_frame item) @ [Refused (qi_ticket item) (qi_frame item)]
              @ (if qi_track item then [] else [Disconnect_later]), pe)
      else (let (outs, pe1) = flush_queue live opn (pe\<lparr>pe_queue := pe_queue pe @ [item]\<rparr>)
            in ([Queued (qi_ticket item) (qi_frame item), frame_event Ev_enqueued (qi_frame item)] @ outs, pe1)))"

section \<open>Acknowledgements\<close>

fun starts_with :: "string \<Rightarrow> string \<Rightarrow> bool" where
  "starts_with [] s = True"
| "starts_with (c # cs) [] = False"
| "starts_with (c # cs) (d # ds) = (c = d \<and> starts_with cs ds)"

definition is_retryable :: "rt_frame \<Rightarrow> bool" where
  "is_retryable f = starts_with ''__runtime.'' (string_of (field (fr_message f) ''type''))"

definition track_ack :: "transport_config \<Rightarrow> ms \<Rightarrow> rt_frame \<Rightarrow> peer \<Rightarrow> peer" where
  "track_ack cf now f pe =
     (if \<not> is_retryable f then pe
      else if resolve_ack_retry 0 now now (cf_ack_timeout cf) (cf_max_retries cf) = Ack_give_up then pe
      else pe\<lparr>pe_pending := omap_set (fr_message_id f)
             \<lparr>pa_frame = f, pa_attempts = 0, pa_last_sent = now, pa_armed = True\<rparr> (pe_pending pe)\<rparr>)"

text \<open>The timer of one pending frame fires.\<close>

definition ack_timer :: "transport_config \<Rightarrow> bool \<Rightarrow> bool \<Rightarrow> ms \<Rightarrow> nat \<Rightarrow> string \<Rightarrow> peer \<Rightarrow> peer_result" where
  "ack_timer cf live opn now ticket mid pe =
     (case omap_get (pe_pending pe) mid of
        None \<Rightarrow> ([], pe)
      | Some pa \<Rightarrow>
          if \<not> pa_armed pa then ([], pe)
          else if \<not> live
            then ([], pe\<lparr>pe_pending := omap_set mid (pa\<lparr>pa_armed := False\<rparr>) (pe_pending pe)\<rparr>)
          else (case resolve_ack_retry (pa_attempts pa) (pa_last_sent pa) now (cf_ack_timeout cf) (cf_max_retries cf) of
                  Ack_give_up \<Rightarrow>
                    ([Count Retries_exhausted, frame_event Ev_retry_exhausted (pa_frame pa)],
                     pe\<lparr>pe_pending := omap_delete mid (pe_pending pe)\<rparr>)
                | Ack_wait \<Rightarrow> ([], pe)
                | Ack_retry \<Rightarrow>
                    (let pa1 = pa\<lparr>pa_attempts := pa_attempts pa + 1, pa_last_sent := now\<rparr>;
                         pe1 = pe\<lparr>pe_pending := omap_set mid pa1 (pe_pending pe)\<rparr>;
                         (outs, pe2) = enqueue_frame cf live opn
                            \<lparr>qi_frame = pa_frame pa, qi_ticket = ticket, qi_track = False\<rparr> pe1
                     in ([Count Frames_retried, frame_event Ev_retry_scheduled (pa_frame pa)] @ outs, pe2))))"

definition clear_pending_ack :: "string \<Rightarrow> peer \<Rightarrow> peer_result" where
  "clear_pending_ack mid pe =
     (case omap_get (pe_pending pe) mid of
        None \<Rightarrow> ([], pe)
      | Some pa \<Rightarrow> ([Count Frames_acked, frame_event Ev_ack_received (pa_frame pa)],
                    pe\<lparr>pe_pending := omap_delete mid (pe_pending pe)\<rparr>))"

text \<open>The continuation after \<open>await peer.link.send(...)\<close>; a failure also disconnects the address at once.\<close>

definition send_done :: "transport_config \<Rightarrow> bool \<Rightarrow> bool \<Rightarrow> bool \<Rightarrow> ms \<Rightarrow> peer \<Rightarrow> peer_result" where
  "send_done cf live opn ok now pe =
     (case pe_in_flight pe of
        None \<Rightarrow> ([], pe)
      | Some item \<Rightarrow>
          (let pe1 = pe\<lparr>pe_in_flight := None\<rparr>
           in if ok then
                (let pe2 = (if qi_track item then track_ack cf now (qi_frame item) pe1 else pe1);
                     (outs, pe3) = drain_queue live opn pe2
                 in (record_frame_sent (qi_frame item)
                       @ [Settle (qi_ticket item) True, frame_event Ev_drained (qi_frame item)] @ outs, pe3))
              else (reject_item item, pe1\<lparr>pe_flushing := False\<rparr>)))"

section \<open>Heartbeat\<close>

definition start_heartbeat :: "transport_config \<Rightarrow> peer \<Rightarrow> peer" where
  "start_heartbeat cf pe = (if cf_heartbeat_interval cf \<le> 0 then pe else pe\<lparr>pe_interval_armed := True\<rparr>)"

definition arm_deadline :: "transport_config \<Rightarrow> peer \<Rightarrow> peer" where
  "arm_deadline cf pe =
     (if cf_heartbeat_timeout cf \<le> 0 \<or> pe_deadline_armed pe then pe else pe\<lparr>pe_deadline_armed := True\<rparr>)"

definition clear_heartbeat :: "peer \<Rightarrow> peer" where
  "clear_heartbeat pe = pe\<lparr>pe_interval_armed := False, pe_deadline_armed := False\<rparr>"

definition heartbeat_tick :: "transport_config \<Rightarrow> bool \<Rightarrow> bool \<Rightarrow> peer \<Rightarrow> peer_result" where
  "heartbeat_tick cf live opn pe =
     (if \<not> pe_interval_armed pe then ([], pe)
      else if \<not> opn \<or> \<not> live then ([], clear_heartbeat pe)
      else ([Wire (if pe_native_heartbeat pe then W_native_ping else W_ping)], arm_deadline cf pe))"

text \<open>The deadline fires: \<open>True\<close> when the peer is to be closed.\<close>

definition heartbeat_deadline :: "transport_config \<Rightarrow> bool \<Rightarrow> ms \<Rightarrow> peer \<Rightarrow> bool \<times> peer" where
  "heartbeat_deadline cf live now pe =
     (if \<not> pe_deadline_armed pe then (False, pe)
      else (let pe1 = pe\<lparr>pe_deadline_armed := False\<rparr>
            in if \<not> live then (False, pe1)
               else if resolve_heartbeat (pe_last_seen pe) now (cf_heartbeat_timeout cf) = Hb_timed_out
                    then (True, pe1)
                    else (False, arm_deadline cf pe1)))"

definition mark_seen :: "ms \<Rightarrow> peer \<Rightarrow> peer" where
  "mark_seen now pe = pe\<lparr>pe_last_seen := now, pe_deadline_armed := False\<rparr>"

section \<open>Closing\<close>

definition close_peer_state :: "peer \<Rightarrow> peer_result" where
  "close_peer_state pe =
     (concat (map reject_item (pe_queue pe)),
      (clear_heartbeat pe)\<lparr>pe_pending := [], pe_queue := [], pe_state := Peer_disconnected\<rparr>)"

section \<open>The peer as a machine\<close>

text \<open>The flags of an event are the facts read outside: still registered, link open.\<close>

datatype peer_event =
    P_send bool bool nat rt_frame
  | P_flush bool bool
  | P_send_done bool bool bool ms
  | P_ack string
  | P_ack_timer bool bool ms nat string
  | P_seen ms
  | P_tick bool bool
  | P_deadline bool ms
  | P_close

fun peer_step :: "transport_config \<Rightarrow> peer_event \<Rightarrow> peer \<Rightarrow> peer_result" where
  "peer_step cf (P_send live opn t f) pe =
     enqueue_frame cf live opn \<lparr>qi_frame = f, qi_ticket = t, qi_track = True\<rparr> pe"
| "peer_step cf (P_flush live opn) pe = flush_queue live opn pe"
| "peer_step cf (P_send_done live opn ok now) pe = send_done cf live opn ok now pe"
| "peer_step cf (P_ack mid) pe = clear_pending_ack mid pe"
| "peer_step cf (P_ack_timer live opn now t mid) pe = ack_timer cf live opn now t mid pe"
| "peer_step cf (P_seen now) pe = ([], mark_seen now pe)"
| "peer_step cf (P_tick live opn) pe = heartbeat_tick cf live opn pe"
| "peer_step cf (P_deadline live now) pe = ([], snd (heartbeat_deadline cf live now pe))"
| "peer_step cf P_close pe = close_peer_state pe"

definition peer_run :: "transport_config \<Rightarrow> peer_event list \<Rightarrow> peer \<Rightarrow> peer_result" where
  "peer_run cf es pe = apfst concat (run_machine (peer_step cf) es pe)"

lemma peer_run_Nil [simp]: "peer_run cf [] pe = ([], pe)"
  by (simp add: peer_run_def)

lemma peer_run_Cons:
  "peer_run cf (e # es) pe =
     (fst (peer_step cf e pe) @ fst (peer_run cf es (snd (peer_step cf e pe))),
      snd (peer_run cf es (snd (peer_step cf e pe))))"
  by (simp add: peer_run_def split_beta Let_def apfst_def map_prod_def)

fun frame_of_wire :: "effect \<Rightarrow> rt_frame list" where
  "frame_of_wire (Wire (W_frame f)) = [f]"
| "frame_of_wire _ = []"

fun ticket_settled :: "effect \<Rightarrow> nat list" where
  "ticket_settled (Settle t ok) = [t]"
| "ticket_settled _ = []"

fun queued_item :: "effect \<Rightarrow> (nat \<times> rt_frame) list" where
  "queued_item (Queued t f) = [(t, f)]"
| "queued_item _ = []"

definition wired :: "effect list \<Rightarrow> rt_frame list" where "wired outs = concat (map frame_of_wire outs)"
definition settled :: "effect list \<Rightarrow> nat list" where "settled outs = concat (map ticket_settled outs)"
definition queued :: "effect list \<Rightarrow> (nat \<times> rt_frame) list" where "queued outs = concat (map queued_item outs)"

definition in_flight_list :: "peer \<Rightarrow> queue_item list" where
  "in_flight_list pe = (case pe_in_flight pe of None \<Rightarrow> [] | Some i \<Rightarrow> [i])"

text \<open>A send is in flight exactly while the queue is being drained; a bounded queue keeps its bound.\<close>

definition peer_wf :: "transport_config \<Rightarrow> peer \<Rightarrow> bool" where
  "peer_wf cf pe \<longleftrightarrow> (pe_flushing pe \<longleftrightarrow> pe_in_flight pe \<noteq> None)
     \<and> (0 \<le> cf_queue_limit cf \<longrightarrow> int (length (pe_queue pe)) \<le> cf_queue_limit cf)"

definition same_queue :: "peer \<Rightarrow> peer \<Rightarrow> bool" where
  "same_queue pe pe1 \<longleftrightarrow> pe_queue pe1 = pe_queue pe \<and> pe_in_flight pe1 = pe_in_flight pe
     \<and> pe_flushing pe1 = pe_flushing pe"

lemma projections_append [simp]:
  "wired (a @ b) = wired a @ wired b" "settled (a @ b) = settled a @ settled b"
  "queued (a @ b) = queued a @ queued b"
  by (simp_all add: wired_def settled_def queued_def)

lemma projections_Cons [simp]:
  "wired (e # b) = frame_of_wire e @ wired b" "settled (e # b) = ticket_settled e @ settled b"
  "queued (e # b) = queued_item e @ queued b"
  "wired [] = []" "settled [] = []" "queued [] = []"
  by (simp_all add: wired_def settled_def queued_def)

lemma frame_event_projections [simp]:
  "frame_of_wire (frame_event k f) = []" "ticket_settled (frame_event k f) = []" "queued_item (frame_event k f) = []"
  by (simp_all add: frame_event_def)

text \<open>
  One operation moves frames along: what it puts on the wire and what waits afterwards is what
  waited before and what it queued, in order; likewise for the promises.
\<close>

definition moves :: "transport_config \<Rightarrow> peer \<Rightarrow> peer_result \<Rightarrow> bool" where
  "moves cf pe r \<longleftrightarrow>
     (let (outs, pe1) = r
      in wired outs @ map qi_frame (pe_queue pe1) = map qi_frame (pe_queue pe) @ map snd (queued outs)
       \<and> settled outs @ map qi_ticket (in_flight_list pe1 @ pe_queue pe1)
           = map qi_ticket (in_flight_list pe @ pe_queue pe) @ map fst (queued outs)
       \<and> length (wired outs) + length (in_flight_list pe) = length (settled outs) + length (in_flight_list pe1)
       \<and> (peer_wf cf pe \<longrightarrow> peer_wf cf pe1))"

lemma moves_same: "same_queue pe pe1 \<Longrightarrow> wired outs = [] \<Longrightarrow> settled outs = [] \<Longrightarrow> queued outs = [] \<Longrightarrow> moves cf pe (outs, pe1)"
  by (simp add: moves_def same_queue_def in_flight_list_def peer_wf_def)

lemma moves_trans:
  assumes "moves cf pe (outs, pe1)" "moves cf pe1 (outs1, pe2)"
  shows "moves cf pe (outs @ outs1, pe2)"
  using assms unfolding moves_def by auto

lemma flush_moves:
  assumes "peer_wf cf pe"
  shows "moves cf pe (flush_queue live opn pe)"
  using assms
  by (auto simp: moves_def flush_queue_def drain_queue_def in_flight_list_def peer_wf_def split: list.splits)

lemma enqueue_moves:
  assumes "peer_wf cf pe"
  shows "moves cf pe (enqueue_frame cf live opn item pe)"
proof (cases "resolve_backpressure (int (length (pe_queue pe))) (cf_queue_limit cf) = Bp_drop")
  case True
  then show ?thesis by (simp add: enqueue_frame_def moves_def record_queue_dropped_def)
next
  case False
  let ?pe = "pe\<lparr>pe_queue := pe_queue pe @ [item]\<rparr>"
  obtain outs pe1 where fl: "flush_queue live opn ?pe = (outs, pe1)" by fastforce
  have q: "moves cf pe ([Queued (qi_ticket item) (qi_frame item), frame_event Ev_enqueued (qi_frame item)], ?pe)"
    using False by (auto simp: moves_def in_flight_list_def peer_wf_def resolve_backpressure_def split: if_splits)
  have wf: "peer_wf cf ?pe" using q assms by (simp add: moves_def)
  show ?thesis using moves_trans [OF q flush_moves [OF wf, of live opn, unfolded fl]] False fl
    by (simp add: enqueue_frame_def)
qed

lemma drain_after_send_moves:
  assumes "peer_wf cf pe" "pe_in_flight pe = Some item" "same_queue (pe\<lparr>pe_in_flight := None\<rparr>) pe2"
  shows "moves cf pe (record_frame_sent f @ [Settle (qi_ticket item) True, frame_event Ev_drained g] @ fst (drain_queue live opn pe2),
     snd (drain_queue live opn pe2))"
  using assms
  by (auto simp: moves_def drain_queue_def in_flight_list_def peer_wf_def same_queue_def record_frame_sent_def
      split: list.splits)

lemma track_ack_same: "same_queue pe (track_ack cf now f pe)"
  by (simp add: track_ack_def same_queue_def)

lemma peer_step_moves:
  assumes "peer_wf cf pe" "e \<noteq> P_close"
  shows "moves cf pe (peer_step cf e pe)"
proof (cases e)
  case (P_send_done live opn ok now)
  show ?thesis
  proof (cases "pe_in_flight pe")
    case None
    then show ?thesis using P_send_done by (simp add: send_done_def moves_def)
  next
    case (Some item)
    let ?pe2 = "if qi_track item then track_ack cf now (qi_frame item) (pe\<lparr>pe_in_flight := None\<rparr>) else pe\<lparr>pe_in_flight := None\<rparr>"
    have sq: "same_queue (pe\<lparr>pe_in_flight := None\<rparr>) ?pe2"
      using track_ack_same by (simp add: same_queue_def)
    show ?thesis
    proof (cases ok)
      case True
      then show ?thesis
        using drain_after_send_moves [OF assms(1) Some sq] P_send_done Some
        by (simp add: send_done_def Let_def split_beta)
    next
      case False
      then show ?thesis using P_send_done Some assms(1)
        by (auto simp: send_done_def moves_def in_flight_list_def peer_wf_def reject_item_def)
    qed
  qed
next
  case (P_ack_timer live opn now t mid)
  show ?thesis
  proof (cases "omap_get (pe_pending pe) mid")
    case None
    then show ?thesis using P_ack_timer by (simp add: ack_timer_def moves_def)
  next
    case (Some pa)
    let ?pe1 = "pe\<lparr>pe_pending := omap_set mid (pa\<lparr>pa_attempts := pa_attempts pa + 1, pa_last_sent := now\<rparr>) (pe_pending pe)\<rparr>"
    let ?item = "\<lparr>qi_frame = pa_frame pa, qi_ticket = t, qi_track = False\<rparr>"
    have r: "moves cf pe ([Count Frames_retried, frame_event Ev_retry_scheduled (pa_frame pa)] @ fst (enqueue_frame cf live opn ?item ?pe1),
       snd (enqueue_frame cf live opn ?item ?pe1))"
      by (rule moves_trans [OF moves_same [of pe ?pe1 "[_, _]"]]) (use enqueue_moves [of cf ?pe1 live opn ?item] assms(1) in \<open>auto simp: same_queue_def peer_wf_def\<close>)
    show ?thesis
    proof (cases "pa_armed pa \<and> live \<and> resolve_ack_retry (pa_attempts pa) (pa_last_sent pa) now
        (cf_ack_timeout cf) (cf_max_retries cf) = Ack_retry")
      case True
      then show ?thesis using P_ack_timer Some r by (simp add: ack_timer_def Let_def split_beta)
    next
      case False
      then show ?thesis using P_ack_timer Some
        by (auto simp: ack_timer_def same_queue_def intro!: moves_same split: ack_retry_verdict.splits)
    qed
  qed
next
  case (P_ack mid)
  then show ?thesis by (auto simp: clear_pending_ack_def same_queue_def intro!: moves_same split: option.splits)
next
  case (P_tick live opn)
  then show ?thesis
    by (auto simp: heartbeat_tick_def arm_deadline_def clear_heartbeat_def same_queue_def intro!: moves_same)
next
  case (P_deadline live now)
  then show ?thesis
    by (auto simp: heartbeat_deadline_def arm_deadline_def Let_def same_queue_def intro!: moves_same)
qed (use assms enqueue_moves flush_moves in \<open>auto simp: mark_seen_def same_queue_def intro!: moves_same\<close>)

lemma peer_run_moves:
  assumes "peer_wf cf pe" "P_close \<notin> set es"
  shows "moves cf pe (peer_run cf es pe)"
  using assms
proof (induction es arbitrary: pe)
  case Nil
  then show ?case by (simp add: moves_def)
next
  case (Cons e es)
  obtain outs pe1 where s: "peer_step cf e pe = (outs, pe1)" by fastforce
  have m: "moves cf pe (outs, pe1)" using peer_step_moves [OF Cons.prems(1), of e] Cons.prems(2) s by auto
  have wf: "peer_wf cf pe1" using m Cons.prems(1) by (simp add: moves_def)
  have "moves cf pe1 (fst (peer_run cf es pe1), snd (peer_run cf es pe1))"
    using Cons.IH [OF wf] Cons.prems(2) by simp
  from moves_trans [OF m this] show ?case by (simp add: peer_run_Cons s)
qed

lemma new_peer_wf: "peer_wf cf (new_peer cf l n i t)"
  by (simp add: peer_wf_def new_peer_def)

section \<open>Retries\<close>

definition retries :: "string \<Rightarrow> effect list \<Rightarrow> nat" where
  "retries mid outs = length (filter (\<lambda>e. e = Telemetry Ev_retry_scheduled (Some mid)) outs)"

lemma retries_append [simp]: "retries mid (a @ b) = retries mid a + retries mid b" "retries mid [] = 0"
  "retries mid (e # b) = (if e = Telemetry Ev_retry_scheduled (Some mid) then 1 else 0) + retries mid b"
  by (simp_all add: retries_def)

definition tracked_items :: "string \<Rightarrow> peer \<Rightarrow> nat" where
  "tracked_items mid pe =
     length (filter (\<lambda>i. qi_track i \<and> fr_message_id (qi_frame i) = mid) (in_flight_list pe @ pe_queue pe))"

definition pending_budget :: "transport_config \<Rightarrow> string \<Rightarrow> peer \<Rightarrow> nat" where
  "pending_budget cf mid pe =
     (case omap_get (pe_pending pe) mid of None \<Rightarrow> 0 | Some pa \<Rightarrow> nat (cf_max_retries cf - pa_attempts pa))"

definition retry_budget :: "transport_config \<Rightarrow> string \<Rightarrow> peer \<Rightarrow> nat" where
  "retry_budget cf mid pe = pending_budget cf mid pe + nat (cf_max_retries cf) * tracked_items mid pe"

definition pending_keyed :: "peer \<Rightarrow> bool" where
  "pending_keyed pe \<longleftrightarrow> (\<forall>m pa. omap_get (pe_pending pe) m = Some pa \<longrightarrow> fr_message_id (pa_frame pa) = m \<and> 0 \<le> pa_attempts pa)"

fun sends_of :: "string \<Rightarrow> peer_event \<Rightarrow> nat" where
  "sends_of mid (P_send live opn t f) = (if fr_message_id f = mid then 1 else 0)"
| "sends_of mid _ = 0"

lemma drain_retry_facts:
  "retries mid (fst (drain_queue live opn pe)) = 0"
  "pe_pending (snd (drain_queue live opn pe)) = pe_pending pe"
  "pe_in_flight pe = None \<Longrightarrow> tracked_items mid (snd (drain_queue live opn pe)) = tracked_items mid pe"
  by (auto simp: drain_queue_def tracked_items_def in_flight_list_def split: list.splits)

lemma flush_retry_facts:
  assumes "peer_wf cf pe"
  shows "retries mid (fst (flush_queue live opn pe)) = 0"
    "pe_pending (snd (flush_queue live opn pe)) = pe_pending pe"
    "tracked_items mid (snd (flush_queue live opn pe)) = tracked_items mid pe"
proof -
  have "tracked_items mid (pe\<lparr>pe_flushing := True\<rparr>) = tracked_items mid pe"
    by (simp add: tracked_items_def in_flight_list_def)
  then show "retries mid (fst (flush_queue live opn pe)) = 0"
    "pe_pending (snd (flush_queue live opn pe)) = pe_pending pe"
    "tracked_items mid (snd (flush_queue live opn pe)) = tracked_items mid pe"
    using assms by (auto simp: flush_queue_def drain_retry_facts peer_wf_def)
qed

lemma enqueue_retry_facts:
  assumes "peer_wf cf pe"
  shows "retries mid (fst (enqueue_frame cf live opn item pe)) = 0"
    "pe_pending (snd (enqueue_frame cf live opn item pe)) = pe_pending pe"
    "tracked_items mid (snd (enqueue_frame cf live opn item pe))
      \<le> tracked_items mid pe + (if qi_track item \<and> fr_message_id (qi_frame item) = mid then 1 else 0)"
proof -
  let ?pe = "pe\<lparr>pe_queue := pe_queue pe @ [item]\<rparr>"
  let ?drop = "resolve_backpressure (int (length (pe_queue pe))) (cf_queue_limit cf) = Bp_drop"
  have t: "tracked_items mid ?pe = tracked_items mid pe + (if qi_track item \<and> fr_message_id (qi_frame item) = mid then 1 else 0)"
    by (simp add: tracked_items_def in_flight_list_def)
  have wf: "peer_wf cf ?pe" if "\<not> ?drop"
    using assms that by (auto simp: peer_wf_def resolve_backpressure_def split: if_splits)
  show "retries mid (fst (enqueue_frame cf live opn item pe)) = 0"
    using flush_retry_facts(1) [OF wf] by (simp add: enqueue_frame_def record_queue_dropped_def frame_event_def Let_def split_beta)
  show "pe_pending (snd (enqueue_frame cf live opn item pe)) = pe_pending pe"
    using flush_retry_facts(2) [OF wf] by (simp add: enqueue_frame_def Let_def split_beta)
  show "tracked_items mid (snd (enqueue_frame cf live opn item pe))
      \<le> tracked_items mid pe + (if qi_track item \<and> fr_message_id (qi_frame item) = mid then 1 else 0)"
    using flush_retry_facts(3) [OF wf] t by (simp add: enqueue_frame_def Let_def split_beta)
qed

lemma budget_cong:
  "same_queue pe pe1 \<Longrightarrow> pe_pending pe1 = pe_pending pe \<Longrightarrow>
   retry_budget cf mid pe1 = retry_budget cf mid pe \<and> (pending_keyed pe1 \<longleftrightarrow> pending_keyed pe)"
  by (simp add: retry_budget_def pending_budget_def tracked_items_def in_flight_list_def same_queue_def pending_keyed_def)

definition within_budget :: "transport_config \<Rightarrow> string \<Rightarrow> peer \<Rightarrow> nat \<Rightarrow> peer_result \<Rightarrow> bool" where
  "within_budget cf mid pe n r \<longleftrightarrow>
     retries mid (fst r) + retry_budget cf mid (snd r) \<le> retry_budget cf mid pe + nat (cf_max_retries cf) * n
     \<and> pending_keyed (snd r)"

lemma within_budget_same:
  "pending_keyed pe \<Longrightarrow> same_queue pe pe1 \<Longrightarrow> pe_pending pe1 = pe_pending pe \<Longrightarrow> retries mid outs = 0 \<Longrightarrow>
   within_budget cf mid pe 0 (outs, pe1)"
  using budget_cong [of pe pe1 cf mid] by (simp add: within_budget_def)

lemma enqueue_within_budget:
  assumes "peer_wf cf pe" "pending_keyed pe"
  shows "within_budget cf mid pe (if qi_track item \<and> fr_message_id (qi_frame item) = mid then 1 else 0)
    (enqueue_frame cf live opn item pe)"
proof -
  have "nat (cf_max_retries cf) * tracked_items mid (snd (enqueue_frame cf live opn item pe))
    \<le> nat (cf_max_retries cf) * tracked_items mid pe
      + nat (cf_max_retries cf) * (if qi_track item \<and> fr_message_id (qi_frame item) = mid then 1 else 0)"
    unfolding distrib_left [symmetric] by (rule mult_le_mono2) (rule enqueue_retry_facts(3) [OF assms(1)])
  then show ?thesis
    using enqueue_retry_facts(1,2) [OF assms(1)] assms(2)
    by (simp add: within_budget_def retry_budget_def pending_budget_def pending_keyed_def)
qed

lemma send_done_within_budget:
  assumes "peer_wf cf pe" "pending_keyed pe"
  shows "within_budget cf mid pe 0 (send_done cf live opn ok now pe)"
proof (cases "pe_in_flight pe")
  case None
  then show ?thesis using assms by (simp add: send_done_def within_budget_def)
next
  case (Some item)
  let ?pe1 = "pe\<lparr>pe_in_flight := None\<rparr>"
  let ?hit = "qi_track item \<and> fr_message_id (qi_frame item) = mid"
  have split: "tracked_items mid pe = (if ?hit then 1 else 0) + tracked_items mid ?pe1"
    using Some by (simp add: tracked_items_def in_flight_list_def)
  show ?thesis
  proof (cases ok)
    case True
    let ?pe2 = "if qi_track item then track_ack cf now (qi_frame item) ?pe1 else ?pe1"
    have t2: "tracked_items mid ?pe2 = tracked_items mid ?pe1" "pe_in_flight ?pe2 = None"
      by (auto simp: tracked_items_def in_flight_list_def track_ack_def)
    have p2: "pending_budget cf mid ?pe2 \<le> pending_budget cf mid pe + nat (cf_max_retries cf) * (if ?hit then 1 else 0)"
      by (auto simp: pending_budget_def track_ack_def)
    have k2: "pending_keyed ?pe2" using assms(2) by (auto simp: pending_keyed_def track_ack_def)
    let ?r = "drain_queue live opn ?pe2"
    have eq: "send_done cf live opn ok now pe =
        (record_frame_sent (qi_frame item) @ [Settle (qi_ticket item) True, frame_event Ev_drained (qi_frame item)] @ fst ?r, snd ?r)"
      using True Some by (simp add: send_done_def Let_def split_beta)
    have "pending_budget cf mid (snd ?r) = pending_budget cf mid ?pe2"
      by (simp add: pending_budget_def drain_retry_facts(2))
    then show ?thesis
      using p2 k2 t2 split drain_retry_facts(1) [of mid live opn ?pe2] drain_retry_facts(2) [of live opn ?pe2]
        drain_retry_facts(3) [of ?pe2 mid live opn]
      unfolding eq within_budget_def retry_budget_def
      by (simp add: record_frame_sent_def frame_event_def pending_keyed_def distrib_left)
  next
    case False
    then show ?thesis
      using Some split assms(2)
      by (auto simp: send_done_def Let_def within_budget_def retry_budget_def pending_budget_def reject_item_def
          pending_keyed_def tracked_items_def in_flight_list_def)
  qed
qed

lemma ack_timer_within_budget:
  assumes "peer_wf cf pe" "pending_keyed pe"
  shows "within_budget cf mid pe 0 (ack_timer cf live opn now t m pe)"
proof (cases "omap_get (pe_pending pe) m")
  case None
  then show ?thesis using assms(2) by (simp add: ack_timer_def within_budget_def)
next
  case (Some pa)
  let ?pe = "\<lambda>x. pe\<lparr>pe_pending := x\<rparr>"
  have id: "fr_message_id (pa_frame pa) = m" "0 \<le> pa_attempts pa" using assms(2) Some by (auto simp: pending_keyed_def)
  have q: "tracked_items mid (?pe x) = tracked_items mid pe" "peer_wf cf (?pe x)" for x
    using assms(1) by (simp_all add: tracked_items_def in_flight_list_def peer_wf_def)
  have upd: "within_budget cf mid pe 0 ([], ?pe (omap_set m (pa\<lparr>pa_armed := False\<rparr>) (pe_pending pe)))"
    using assms(2) Some by (auto simp: within_budget_def retry_budget_def pending_budget_def q pending_keyed_def)
  have del: "within_budget cf mid pe 0 ([Count Retries_exhausted, frame_event Ev_retry_exhausted (pa_frame pa)],
      ?pe (omap_delete m (pe_pending pe)))"
    using assms(2) Some
    by (auto simp: within_budget_def retry_budget_def pending_budget_def q pending_keyed_def frame_event_def)
  show ?thesis
  proof (cases "pa_armed pa \<and> live \<and> resolve_ack_retry (pa_attempts pa) (pa_last_sent pa) now
      (cf_ack_timeout cf) (cf_max_retries cf) = Ack_retry")
    case True
    let ?pa = "pa\<lparr>pa_attempts := pa_attempts pa + 1, pa_last_sent := now\<rparr>"
    let ?pe1 = "?pe (omap_set m ?pa (pe_pending pe))"
    let ?item = "\<lparr>qi_frame = pa_frame pa, qi_ticket = t, qi_track = False\<rparr>"
    have k: "pending_keyed ?pe1" using assms(2) id by (auto simp: pending_keyed_def)
    have lt: "pa_attempts pa < cf_max_retries cf" using True by (auto simp: resolve_ack_retry_def split: if_splits)
    have b: "(if m = mid then 1 else 0) + retry_budget cf mid ?pe1 = retry_budget cf mid pe"
      using Some lt q by (auto simp: retry_budget_def pending_budget_def Suc_nat_eq_nat_zadd1)
    have "within_budget cf mid ?pe1 0 (enqueue_frame cf live opn ?item ?pe1)"
      using enqueue_within_budget [OF q(2) k, of mid ?item] by simp
    then show ?thesis
      using True Some b id(1) by (auto simp: ack_timer_def Let_def split_beta within_budget_def frame_event_def)
  next
    case False
    then show ?thesis using Some upd del assms(2)
      by (auto simp: ack_timer_def within_budget_def split: ack_retry_verdict.splits)
  qed
qed

lemma peer_step_within_budget:
  assumes "peer_wf cf pe" "pending_keyed pe"
  shows "within_budget cf mid pe (sends_of mid e) (peer_step cf e pe)"
proof (cases e)
  case (P_send live opn t f)
  then show ?thesis
    using enqueue_within_budget [OF assms, of mid "\<lparr>qi_frame = f, qi_ticket = t, qi_track = True\<rparr>"] by simp
next
  case (P_flush live opn)
  then show ?thesis
    using flush_retry_facts [OF assms(1)] assms(2)
    by (simp add: within_budget_def retry_budget_def pending_budget_def pending_keyed_def)
next
  case (P_ack m)
  then show ?thesis using assms(2)
    by (auto simp: clear_pending_ack_def within_budget_def retry_budget_def pending_budget_def pending_keyed_def
        tracked_items_def in_flight_list_def frame_event_def split: option.splits)
next
  case P_close
  have "retries mid (concat (map reject_item q)) = 0" for q
    by (induction q) (auto simp: reject_item_def)
  then show ?thesis using P_close assms(2)
    by (auto simp: close_peer_state_def within_budget_def retry_budget_def pending_budget_def pending_keyed_def
        tracked_items_def in_flight_list_def clear_heartbeat_def split: option.splits)
next
  case (P_tick live opn)
  then show ?thesis using assms(2)
    by (auto simp: heartbeat_tick_def arm_deadline_def clear_heartbeat_def same_queue_def intro!: within_budget_same)
next
  case (P_deadline live now)
  then show ?thesis using assms(2)
    by (auto simp: heartbeat_deadline_def arm_deadline_def Let_def same_queue_def intro!: within_budget_same)
qed (use assms send_done_within_budget ack_timer_within_budget in
     \<open>auto simp: mark_seen_def same_queue_def intro!: within_budget_same\<close>)

lemma close_wf: "peer_wf cf pe \<Longrightarrow> peer_wf cf (snd (close_peer_state pe))"
  by (simp add: close_peer_state_def peer_wf_def clear_heartbeat_def)

lemma peer_step_wf: "peer_wf cf pe \<Longrightarrow> peer_wf cf (snd (peer_step cf e pe))"
  using peer_step_moves [of cf pe e] close_wf by (cases "e = P_close") (auto simp: moves_def)

interpretation pm: invariant_machine "peer_step cf" "peer_wf cf" for cf
  by unfold_locales (rule peer_step_wf)

lemma peer_run_within_budget:
  assumes "peer_wf cf pe" "pending_keyed pe"
  shows "within_budget cf mid pe (sum_list (map (sends_of mid) es)) (peer_run cf es pe)"
  using assms
proof (induction es arbitrary: pe)
  case Nil
  then show ?case by (simp add: within_budget_def)
next
  case (Cons e es)
  have s: "within_budget cf mid pe (sends_of mid e) (peer_step cf e pe)"
    by (rule peer_step_within_budget [OF Cons.prems])
  then have "within_budget cf mid (snd (peer_step cf e pe)) (sum_list (map (sends_of mid) es)) (peer_run cf es (snd (peer_step cf e pe)))"
    using Cons.IH peer_step_wf [OF Cons.prems(1)] by (simp add: within_budget_def)
  then show ?case using s by (simp add: within_budget_def peer_run_Cons distrib_left)
qed

section \<open>Properties\<close>

text \<open>
  C21. The outbound queue is a bounded FIFO with one send in flight: after any operations on a
  connected peer, the frames handed to the wire followed by those still queued are exactly the
  frames taken in, in order; the promises settle in that order too, each exactly once, those not
  settled being the frame in flight and the queued ones; at most one send is unanswered; and the
  queue never exceeds its limit. Closing the peer settles every queued promise.
\<close>

theorem outbound_queue_in_order:
  assumes "P_close \<notin> set es" "(outs, pe) = peer_run cf es (new_peer cf link native ident t)"
  shows "wired outs @ map qi_frame (pe_queue pe) = map snd (queued outs)
    \<and> settled outs @ map qi_ticket (in_flight_list pe @ pe_queue pe) = map fst (queued outs)
    \<and> length (wired outs) = length (settled outs) + (if pe_in_flight pe = None then 0 else 1)
    \<and> (0 \<le> cf_queue_limit cf \<longrightarrow> int (length (pe_queue pe)) \<le> cf_queue_limit cf)
    \<and> settled (fst (close_peer_state pe)) = map qi_ticket (pe_queue pe)"
proof -
  have "moves cf (new_peer cf link native ident t) (outs, pe)"
    using peer_run_moves [OF new_peer_wf assms(1)] assms(2) by metis
  moreover have "settled (concat (map reject_item q)) = map qi_ticket q" for q
    by (induction q) (auto simp: reject_item_def)
  ultimately show ?thesis
    using new_peer_wf [of cf link native ident t]
    by (cases "pe_in_flight pe") (simp_all add: moves_def new_peer_def in_flight_list_def peer_wf_def close_peer_state_def)
qed

definition two_deep :: transport_config where
  "two_deep = \<lparr>cf_heartbeat_interval = 15000, cf_heartbeat_timeout = 30000, cf_window_size = 1024,
     cf_ack_timeout = 1000, cf_max_retries = 2, cf_queue_limit = 2, cf_max_frame_bytes = None\<rparr>"

definition run_frame :: "string \<Rightarrow> rt_frame" where
  "run_frame m = create_frame (id_of ''a'') (id_of ''b'') (Some m) 1 (JObject [(''type'', JString ''__runtime.x'')]) ''t''"

definition three_sends :: "peer_event list" where
  "three_sends = [P_send True True 0 (run_frame ''m0''), P_send True True 1 (run_frame ''m1''),
     P_send True True 2 (run_frame ''m2''), P_send True True 3 (run_frame ''m3''), P_send_done True True True 5]"

lemma three_sends_run:
  "wired (fst (peer_run two_deep three_sends (new_peer two_deep 0 False (id_of ''b'') 0))) = [run_frame ''m0'', run_frame ''m1'']
   \<and> queued (fst (peer_run two_deep three_sends (new_peer two_deep 0 False (id_of ''b'') 0)))
      = [(0, run_frame ''m0''), (1, run_frame ''m1''), (2, run_frame ''m2'')]"
  by (simp add: peer_run_def three_sends_def two_deep_def new_peer_def enqueue_frame_def resolve_backpressure_def
      flush_queue_def drain_queue_def send_done_def record_frame_sent_def track_ack_def Let_def wired_def queued_def
      frame_event_def record_queue_dropped_def)

theorem outbound_queue_witness:
  "[run_frame ''m0'', run_frame ''m1'']
     @ map qi_frame (pe_queue (snd (peer_run two_deep three_sends (new_peer two_deep 0 False (id_of ''b'') 0))))
   = [run_frame ''m0'', run_frame ''m1'', run_frame ''m2'']"
proof -
  have c: "P_close \<notin> set three_sends" by (simp add: three_sends_def)
  show ?thesis
    using outbound_queue_in_order [OF c, of _ _ two_deep 0 False "id_of ''b''" 0,
        OF prod.collapse] three_sends_run by simp
qed

text \<open>
  Retransmission is bounded: whatever happens to a peer (acknowledgements that come, come late
  or never, failed sends, reordered timers), a frame sent once is retransmitted at most
  \<open>maxAckRetries\<close> times.
\<close>

theorem retries_bounded:
  assumes "sum_list (map (sends_of mid) es) \<le> 1"
  shows "retries mid (fst (peer_run cf es (new_peer cf link native ident t))) \<le> nat (cf_max_retries cf)"
proof -
  have k: "pending_keyed (new_peer cf link native ident t)" by (simp add: pending_keyed_def new_peer_def)
  have "retry_budget cf mid (new_peer cf link native ident t) = 0"
    by (simp add: retry_budget_def pending_budget_def tracked_items_def in_flight_list_def new_peer_def)
  moreover have "nat (cf_max_retries cf) * sum_list (map (sends_of mid) es) \<le> nat (cf_max_retries cf)"
    using mult_le_mono2 [OF assms, of "nat (cf_max_retries cf)"] by simp
  moreover have "retries mid (fst (peer_run cf es (new_peer cf link native ident t)))
      \<le> retry_budget cf mid (new_peer cf link native ident t) + nat (cf_max_retries cf) * sum_list (map (sends_of mid) es)"
    using peer_run_within_budget [OF new_peer_wf k, of mid es] unfolding within_budget_def by (rule conjE) linarith
  ultimately show ?thesis by linarith
qed

definition no_ack_run :: "peer_event list" where
  "no_ack_run = [P_send True True 0 (run_frame ''m''), P_send_done True True True 0,
     P_ack_timer True True 1000 1 ''m'', P_send_done True True True 1001, P_ack_timer True True 2000 2 ''m'',
     P_send_done True True True 2001, P_ack_timer True True 3000 3 ''m'', P_ack_timer True True 4000 4 ''m'']"

theorem retries_bounded_witness:
  "retries ''m'' (fst (peer_run two_deep no_ack_run (new_peer two_deep 0 False (id_of ''b'') 0))) \<le> 2"
  using retries_bounded [of "''m''" no_ack_run two_deep 0 False "id_of ''b''" 0]
  by (simp add: no_ack_run_def two_deep_def run_frame_def create_frame_def)

end
