(* ===== verification/Transport_Core.thy ===== *)
theory Transport_Core
  imports Transport_Peer
begin

text \<open>
  The shell \<open>transport/transport-core.ts\<close>: the table of peers, connecting, registering and closing
  them, sending, the inbound pipeline (validate, match the source, mark seen, claim, acknowledge,
  deliver), timers, statistics and telemetry.

  A closure of the code holds a peer object, an address and a link; the object may long have been
  replaced at that address. Peer objects are therefore kept in a heap (a list, the index is the
  object's identity) and every event names the object and the address its closure captured. Each
  stretch of code between two awaits is one step. What a send, a dial or a provider answers is an
  argument of the step that resumes.
\<close>

section \<open>State\<close>

type_synonym claim_wait = "nat \<times> string \<times> rt_frame \<times> claim_input \<times> (string + claim_result)"

record 'p core =
  tc_self :: rt_identity
  tc_config :: transport_config
  tc_peers :: "(string, nat) omap"
  tc_heap :: "peer list"
  tc_open :: "nat set"                      \<comment> \<open>links that are open\<close>
  tc_provider :: 'p
  tc_claims :: "claim_wait list"            \<comment> \<open>inbound frames waiting for the provider\<close>
  tc_later :: "string list"                 \<comment> \<open>rejection handlers about to disconnect an address\<close>
  tc_tickets :: nat
  tc_log :: "(string \<times> effect) list"
  tc_totals :: "counter \<Rightarrow> int"
  tc_by_peer :: "(string, counter \<Rightarrow> int) omap"
  tc_started :: bool

definition new_core :: "rt_identity \<Rightarrow> transport_config \<Rightarrow> 'p \<Rightarrow> 'p core" where
  "new_core self cf p =
     \<lparr>tc_self = self, tc_config = cf, tc_peers = [], tc_heap = [], tc_open = {}, tc_provider = p, tc_claims = [],
      tc_later = [], tc_tickets = 0, tc_log = [], tc_totals = (\<lambda>_. 0), tc_by_peer = [], tc_started = False\<rparr>"

definition peer_counters :: "'p core \<Rightarrow> string \<Rightarrow> counter \<Rightarrow> int" where
  "peer_counters st a = (case omap_get (tc_by_peer st) a of None \<Rightarrow> (\<lambda>_. 0) | Some f \<Rightarrow> f)"

definition perform :: "string \<Rightarrow> effect \<Rightarrow> 'p core \<Rightarrow> 'p core" where
  "perform a e st =
     (let st1 = st\<lparr>tc_log := tc_log st @ [(a, e)]\<rparr>
      in case e of
           Count c \<Rightarrow> st1\<lparr>tc_totals := (tc_totals st)(c := tc_totals st c + 1),
                          tc_by_peer := omap_set a ((peer_counters st a)(c := peer_counters st a c + 1)) (tc_by_peer st)\<rparr>
         | Disconnect_later \<Rightarrow> st1\<lparr>tc_later := tc_later st @ [a]\<rparr>
         | _ \<Rightarrow> st1)"

definition performs :: "string \<Rightarrow> effect list \<Rightarrow> 'p core \<Rightarrow> 'p core" where
  "performs a es st = fold (perform a) es st"

definition current :: "'p core \<Rightarrow> string \<Rightarrow> nat option" where
  "current st a = omap_get (tc_peers st) a"

definition live :: "'p core \<Rightarrow> string \<Rightarrow> nat \<Rightarrow> bool" where
  "live st a i \<longleftrightarrow> current st a = Some i"

definition link_open :: "'p core \<Rightarrow> nat \<Rightarrow> bool" where
  "link_open st i \<longleftrightarrow> pe_link (tc_heap st ! i) \<in> tc_open st"

definition with_peer :: "string \<Rightarrow> nat \<Rightarrow> (peer \<Rightarrow> peer_result) \<Rightarrow> 'p core \<Rightarrow> 'p core" where
  "with_peer a i f st =
     (let (outs, pe) = f (tc_heap st ! i) in performs a outs (st\<lparr>tc_heap := (tc_heap st)[i := pe]\<rparr>))"

definition is_connected :: "'p core \<Rightarrow> string \<Rightarrow> bool" where
  "is_connected st a \<longleftrightarrow>
     (case current st a of None \<Rightarrow> False
      | Some i \<Rightarrow> link_open st i \<and> pe_state (tc_heap st ! i) = Peer_connected)"

section \<open>Peer lifecycle\<close>

definition transport_message :: "string \<Rightarrow> string \<Rightarrow> json" where
  "transport_message kind a = JObject [(''type'', JString kind), (''nodeAddress'', JString a)]"

definition close_peer :: "string \<Rightarrow> nat \<Rightarrow> bool \<Rightarrow> 'p core \<Rightarrow> 'p core" where
  "close_peer a i emit_disconnected st =
     (let st1 = with_peer a i close_peer_state st;
          st2 = st1\<lparr>tc_peers := omap_delete a (tc_peers st1), tc_open := tc_open st1 - {pe_link (tc_heap st1 ! i)}\<rparr>
      in performs a ([Count Disconnects, Telemetry Ev_disconnected None]
           @ (if emit_disconnected then [Deliver (transport_message ''__runtime.transport.disconnected'' a)] else [])) st2)"

definition disconnect :: "string \<Rightarrow> 'p core \<Rightarrow> 'p core" where
  "disconnect a st = (case current st a of None \<Rightarrow> st | Some i \<Rightarrow> close_peer a i True st)"

definition handle_peer_closed :: "string \<Rightarrow> nat \<Rightarrow> 'p core \<Rightarrow> 'p core" where
  "handle_peer_closed a link st =
     (case current st a of
        None \<Rightarrow> st
      | Some i \<Rightarrow> if pe_link (tc_heap st ! i) \<noteq> link then st else close_peer a i True st)"

definition record_peer_connected :: "string \<Rightarrow> 'p core \<Rightarrow> 'p core" where
  "record_peer_connected a st =
     performs a ([Count Handshakes_accepted] @ (if 0 < peer_counters st a Disconnects then [Count Reconnects] else [])
        @ [Telemetry Ev_handshake_accepted None, Telemetry Ev_connected None]) st"

definition register_peer :: "nat \<Rightarrow> bool \<Rightarrow> rt_identity \<Rightarrow> ms \<Rightarrow> 'p core \<Rightarrow> 'p core" where
  "register_peer link native ident now st =
     (let a = id_address ident;
          st1 = (case current st a of
                   None \<Rightarrow> st
                 | Some i \<Rightarrow> if pe_link (tc_heap st ! i) \<noteq> link then close_peer a i False st else st);
          i = length (tc_heap st1);
          st2 = st1\<lparr>tc_heap := tc_heap st1 @ [start_heartbeat (tc_config st1) (new_peer (tc_config st1) link native ident now)],
                    tc_peers := omap_set a i (tc_peers st1)\<rparr>
      in performs a [Deliver (transport_message ''__runtime.transport.connected'' a)] (record_peer_connected a st2))"

definition can_accept_peer :: "rt_identity \<Rightarrow> 'p core \<Rightarrow> bool" where
  "can_accept_peer ident st \<longleftrightarrow>
     (case current st (id_address ident) of
        None \<Rightarrow> True
      | Some i \<Rightarrow> id_node (pe_identity (tc_heap st ! i)) = id_node ident)"

definition record_handshake_rejected :: "string \<Rightarrow> 'p core \<Rightarrow> 'p core" where
  "record_handshake_rejected a =
     performs a [Count Handshakes_rejected, Telemetry Ev_handshake_rejected None, Telemetry Ev_peer_rejected None]"

definition record_auth_rejected :: "string \<Rightarrow> 'p core \<Rightarrow> 'p core" where
  "record_auth_rejected a = performs a [Telemetry Ev_auth_rejected None]"

definition record_inbound_rejection :: "string \<Rightarrow> bool \<Rightarrow> 'p core \<Rightarrow> 'p core" where
  "record_inbound_rejection a auth st =
     (if is_connected st a then st
      else record_handshake_rejected a (if auth then record_auth_rejected a st else st))"

definition close_link :: "nat \<Rightarrow> 'p core \<Rightarrow> 'p core" where
  "close_link link st = st\<lparr>tc_open := tc_open st - {link}\<rparr>"

definition accept_inbound_link :: "nat \<Rightarrow> bool \<Rightarrow> rt_identity option \<Rightarrow> ms \<Rightarrow> 'p core \<Rightarrow> 'p core" where
  "accept_inbound_link link native ident now st0 =
     (let st = st0\<lparr>tc_open := insert link (tc_open st0)\<rparr>
      in case ident of
           None \<Rightarrow> close_link link st
         | Some raw \<Rightarrow>
             (let i = create_identity (id_address raw) (id_node raw) (id_incarnation raw) None
              in if can_accept_peer i st then register_peer link native i now st
                 else record_inbound_rejection (id_address i) False (close_link link st)))"

datatype transport_error = Not_connected | Self_connect | Handshake_refused | Frame_too_large

text \<open>\<open>connect\<close> up to the dial: done already, refused, or dialing.\<close>

definition connect_begin :: "string \<Rightarrow> 'p core \<Rightarrow> (transport_error + bool) \<times> 'p core" where
  "connect_begin a st =
     (if a = id_address (tc_self st) then (Inl Self_connect, st)
      else if (case current st a of None \<Rightarrow> False | Some i \<Rightarrow> link_open st i) then (Inr True, st)
      else (Inr False, performs a [Telemetry Ev_connecting None] st))"

record dialed =
  di_link :: nat
  di_native :: bool
  di_remote_address :: string
  di_identity :: "rt_identity option"

text \<open>\<open>connect\<close> after the dial answered; \<open>auth\<close> is the verdict of the auth provider on the placeholder.\<close>

definition connect_end :: "string \<Rightarrow> string + dialed \<Rightarrow> (rt_identity \<Rightarrow> bool) \<Rightarrow> ms \<Rightarrow> 'p core \<Rightarrow>
    (transport_error + unit) \<times> 'p core" where
  "connect_end a result auth now st0 =
     (case result of
        Inl reason \<Rightarrow> (Inl Handshake_refused, record_handshake_rejected a st0)
      | Inr d \<Rightarrow>
          (let st = st0\<lparr>tc_open := insert (di_link d) (tc_open st0)\<rparr>;
               ident = (case di_identity d of
                          Some i \<Rightarrow> create_identity (id_address i) (id_node i) (id_incarnation i) None
                        | None \<Rightarrow> create_identity (di_remote_address d) (di_remote_address d) ''0'' None)
           in if di_identity d = None \<and> \<not> auth ident
              then (Inl Handshake_refused, record_auth_rejected a (close_link (di_link d) st))
              else if \<not> can_accept_peer ident st
              then (Inl Handshake_refused, record_handshake_rejected a (close_link (di_link d) st))
              else (Inr (), register_peer (di_link d) (di_native d) ident now st)))"

section \<open>Sending\<close>

text \<open>\<open>size_of\<close> measures the JSON text of a frame, \<open>sent_at\<close> is the clock's ISO string.\<close>

definition send :: "(rt_frame \<Rightarrow> int) \<Rightarrow> string \<Rightarrow> json \<Rightarrow> string \<Rightarrow> 'p core \<Rightarrow> (transport_error + nat) \<times> 'p core" where
  "send size_of a message sent_at st =
     (case current st a of
        None \<Rightarrow> (Inl Not_connected, st)
      | Some i \<Rightarrow>
          (let pe = tc_heap st ! i;
               sequence = pe_sequence pe + 1;
               f = create_frame (tc_self st) (pe_identity pe)
                     (Some (create_message_id (tc_self st) (pe_identity pe) sequence)) sequence message sent_at
           in if \<not> fst (validate_payload_size size_of f (cf_max_frame_bytes (tc_config st)))
              then (Inl Frame_too_large,
                    performs a [Count Outbound_dropped, Count Validation_dropped, frame_event Ev_frame_dropped f] st)
              else (let t = tc_tickets st;
                        st1 = st\<lparr>tc_heap := (tc_heap st)[i := pe\<lparr>pe_sequence := sequence\<rparr>], tc_tickets := Suc t\<rparr>
                    in (Inr t, with_peer a i (enqueue_frame (tc_config st) True (link_open st i)
                                 \<lparr>qi_frame = f, qi_ticket = t, qi_track = True\<rparr>) st1))))"

definition flush_peer :: "string \<Rightarrow> 'p core \<Rightarrow> 'p core" where
  "flush_peer a st =
     (case current st a of None \<Rightarrow> st | Some i \<Rightarrow> with_peer a i (flush_queue True (link_open st i)) st)"

definition resume_send :: "string \<Rightarrow> nat \<Rightarrow> bool \<Rightarrow> ms \<Rightarrow> 'p core \<Rightarrow> 'p core" where
  "resume_send a i ok now st =
     (if length (tc_heap st) \<le> i \<or> pe_in_flight (tc_heap st ! i) = None then st
      else (let st1 = with_peer a i (send_done (tc_config st) (live st a i) (link_open st i) ok now) st
            in if ok then st1 else disconnect a st1))"

definition fire_ack_timer :: "string \<Rightarrow> nat \<Rightarrow> string \<Rightarrow> ms \<Rightarrow> 'p core \<Rightarrow> 'p core" where
  "fire_ack_timer a i mid now st =
     (if length (tc_heap st) \<le> i then st
      else with_peer a i (ack_timer (tc_config st) (live st a i) (link_open st i) now (tc_tickets st) mid)
             (st\<lparr>tc_tickets := Suc (tc_tickets st)\<rparr>))"

section \<open>Heartbeat\<close>

definition fire_heartbeat :: "string \<Rightarrow> nat \<Rightarrow> 'p core \<Rightarrow> 'p core" where
  "fire_heartbeat a i st =
     (if length (tc_heap st) \<le> i then st
      else with_peer a i (heartbeat_tick (tc_config st) (live st a i) (link_open st i)) st)"

definition fire_deadline :: "string \<Rightarrow> nat \<Rightarrow> ms \<Rightarrow> 'p core \<Rightarrow> 'p core" where
  "fire_deadline a i now st =
     (if length (tc_heap st) \<le> i then st
      else (let (timed_out, pe) = heartbeat_deadline (tc_config st) (live st a i) now (tc_heap st ! i);
                st1 = st\<lparr>tc_heap := (tc_heap st)[i := pe]\<rparr>
            in if timed_out
               then close_peer a i True (performs a [Count Heartbeat_timeouts, Telemetry Ev_heartbeat_timeout None] st1)
               else st1))"

definition mark_peer_seen :: "string \<Rightarrow> nat \<Rightarrow> ms \<Rightarrow> 'p core \<Rightarrow> 'p core" where
  "mark_peer_seen a link now st =
     (case current st a of
        None \<Rightarrow> st
      | Some i \<Rightarrow> if pe_link (tc_heap st ! i) \<noteq> link then st
                  else st\<lparr>tc_heap := (tc_heap st)[i := mark_seen now (tc_heap st ! i)]\<rparr>)"

section \<open>The inbound pipeline\<close>

definition record_frame_dropped :: "string \<Rightarrow> reject_code option \<Rightarrow> 'p core \<Rightarrow> 'p core" where
  "record_frame_dropped a code =
     performs a ((case code of
                    Some Malformed_frame \<Rightarrow> [Count Malformed_dropped]
                  | Some _ \<Rightarrow> [Count Validation_dropped]
                  | None \<Rightarrow> []) @ [Telemetry Ev_frame_dropped None])"

definition drop_and_disconnect :: "string \<Rightarrow> reject_code option \<Rightarrow> 'p core \<Rightarrow> 'p core" where
  "drop_and_disconnect a code st = disconnect a (record_frame_dropped a code st)"

definition source_matches :: "rt_identity \<Rightarrow> string \<Rightarrow> peer \<Rightarrow> bool" where
  "source_matches src a pe \<longleftrightarrow> id_address src = a \<and> id_node src = id_node (pe_identity pe)
     \<and> id_incarnation src = id_incarnation (pe_identity pe)"

definition handle_ack :: "string \<Rightarrow> nat \<Rightarrow> json \<Rightarrow> ms \<Rightarrow> 'p core \<Rightarrow> 'p core" where
  "handle_ack a i v now st =
     (case validate_ack v (Some (tc_self st)) of
        Invalid c \<Rightarrow> drop_and_disconnect a (Some c) st
      | Valid \<Rightarrow>
          if \<not> source_matches (as_identity (field v ''source'')) a (tc_heap st ! i)
          then drop_and_disconnect a (Some Malformed_frame) st
          else with_peer a i (clear_pending_ack (string_of (field v ''messageId'')))
                 (mark_peer_seen a (pe_link (tc_heap st ! i)) now st))"

definition handle_heartbeat :: "string \<Rightarrow> nat \<Rightarrow> json \<Rightarrow> ms \<Rightarrow> 'p core \<Rightarrow> 'p core" where
  "handle_heartbeat a i v now st =
     (case validate_heartbeat v (Some (tc_self st)) of
        Invalid c \<Rightarrow> drop_and_disconnect a (Some c) st
      | Valid \<Rightarrow>
          if \<not> source_matches (as_identity (field v ''source'')) a (tc_heap st ! i)
          then drop_and_disconnect a (Some Malformed_frame) st
          else performs a (if field v ''type'' = Some (JString ''runtime.transport.ping'') then [Wire W_pong] else [])
                 (mark_peer_seen a (pe_link (tc_heap st ! i)) now st))"

definition send_ack :: "string \<Rightarrow> rt_frame \<Rightarrow> 'p core \<Rightarrow> 'p core" where
  "send_ack a f = performs a [Wire (W_ack (fr_message_id f) (fr_sequence f)), frame_event Ev_ack_sent f]"

definition record_frame_received :: "string \<Rightarrow> nat \<Rightarrow> rt_frame \<Rightarrow> 'p core \<Rightarrow> 'p core" where
  "record_frame_received a i f st =
     (let pe = tc_heap st ! i;
          gap = pe_last_received pe + 1 < fr_sequence f;
          st1 = st\<lparr>tc_heap := (tc_heap st)[i := pe\<lparr>pe_last_received := max (pe_last_received pe) (fr_sequence f)\<rparr>]\<rparr>
      in performs a ((if gap then [Count Sequence_gaps, Telemetry Ev_sequence_gap None] else [])
           @ [Count Frames_received, frame_event Ev_frame_received f]) st1)"

definition record_duplicate :: "string \<Rightarrow> rt_frame \<Rightarrow> claim_source \<Rightarrow> 'p core \<Rightarrow> 'p core" where
  "record_duplicate a f s =
     performs a ([Count Duplicates_dropped] @ (if s = From_provider then [Count Provider_duplicates] else [])
       @ [frame_event Ev_frame_duplicate f] @ (if s = From_provider then [frame_event Ev_provider_duplicate f] else []))"

definition record_evictions :: "string \<Rightarrow> string list \<Rightarrow> 'p core \<Rightarrow> 'p core" where
  "record_evictions a ms =
     performs a (concat (map (\<lambda>m. [Count Cache_evictions, Telemetry Ev_cache_evicted (Some m)]) ms))"

text \<open>What follows the claim of a frame.\<close>

definition after_claim :: "string \<Rightarrow> nat \<Rightarrow> rt_frame \<Rightarrow> claim_outcome \<Rightarrow> 'p core \<Rightarrow> 'p core" where
  "after_claim a i f outcome st =
     (case outcome of
        Claim_error e input \<Rightarrow>
          drop_and_disconnect a None (performs a [Count Provider_errors, Telemetry Ev_provider_error None] st)
      | Duplicate s ev input \<Rightarrow> send_ack a f (record_duplicate a f s (record_evictions a ev st))
      | Accepted s ev input \<Rightarrow>
          (let st1 = record_evictions a ev st;
               st2 = (if s = From_provider \<and> input \<noteq> None
                      then performs a [Count Provider_claims, Telemetry Ev_provider_claimed None] st1 else st1)
           in performs (id_address (fr_source f)) [Deliver (fr_message f)]
                (send_ack a f (record_frame_received a i f st2))))"

definition node_of :: "rt_identity \<Rightarrow> node_identity" where
  "node_of i = \<lparr>ni_address = id_address i, ni_id = id_node i\<rparr>"

definition claimable :: "rt_frame \<Rightarrow> transport_frame" where
  "claimable f = \<lparr>tf_message_id = fr_message_id f, tf_sequence = fr_sequence f,
     tf_message_type = string_of (field (fr_message f) ''type'')\<rparr>"

definition inbound_of :: "nat \<Rightarrow> 'p core \<Rightarrow> (claim_input \<times> (string + claim_result)) list \<Rightarrow> 'p inbound" where
  "inbound_of i st fl = \<lparr>in_cache = pe_cache (tc_heap st ! i), in_provider = tc_provider st, in_flight = fl\<rparr>"

definition set_inbound :: "nat \<Rightarrow> 'p inbound \<Rightarrow> 'p core \<Rightarrow> 'p core" where
  "set_inbound i x st =
     st\<lparr>tc_heap := (tc_heap st)[i := (tc_heap st ! i)\<lparr>pe_cache := in_cache x\<rparr>], tc_provider := in_provider x\<rparr>"

definition claim_frame :: "'p provider option \<Rightarrow> string \<Rightarrow> nat \<Rightarrow> rt_frame \<Rightarrow> 'p core \<Rightarrow> 'p core" where
  "claim_frame provider a i f st =
     (let (outcome, x) = claim_begin provider (node_of (tc_self st)) (node_of (pe_identity (tc_heap st ! i)))
                            (claimable f) (inbound_of i st []);
          st1 = set_inbound i x st
      in case outcome of
           Some out \<Rightarrow> after_claim a i f out st1
         | None \<Rightarrow> st1\<lparr>tc_claims := tc_claims st1 @ map (\<lambda>(input, r). (i, a, f, input, r)) (in_flight x)\<rparr>)"

definition resume_claim :: "nat \<Rightarrow> 'p core \<Rightarrow> 'p core" where
  "resume_claim n st =
     (if length (tc_claims st) \<le> n then st
      else (case tc_claims st ! n of
              (i, a, f, input, r) \<Rightarrow>
                (let st0 = st\<lparr>tc_claims := take n (tc_claims st) @ drop (Suc n) (tc_claims st)\<rparr>;
                     (outcome, x) = claim_end 0 (inbound_of i st0 [(input, r)]);
                     st1 = set_inbound i x st0
                 in case outcome of None \<Rightarrow> st1 | Some out \<Rightarrow> after_claim a i f out st1)))"

definition has_type :: "json \<Rightarrow> string \<Rightarrow> bool" where
  "has_type v k \<longleftrightarrow> field v ''type'' = Some (JString k)"

definition handle_payload :: "'p provider option \<Rightarrow> string \<Rightarrow> nat \<Rightarrow> json \<Rightarrow> ms \<Rightarrow> 'p core \<Rightarrow> 'p core" where
  "handle_payload provider a link v now st =
     (case current st a of
        None \<Rightarrow> st
      | Some i \<Rightarrow>
          if pe_link (tc_heap st ! i) \<noteq> link then st
          else if has_type v ''runtime.transport.ping'' \<or> has_type v ''runtime.transport.pong''
            then handle_heartbeat a i v now st
          else if has_type v ''runtime.transport.ack'' then handle_ack a i v now st
          else (case validate_frame v (Some (tc_self st)) of
                  Invalid c \<Rightarrow> drop_and_disconnect a (Some c) st
                | Valid \<Rightarrow>
                    if \<not> source_matches (fr_source (as_frame v)) a (tc_heap st ! i)
                    then drop_and_disconnect a (Some Malformed_frame) st
                    else claim_frame provider a i (as_frame v) (mark_peer_seen a link now st)))"

section \<open>The transport as a machine\<close>

definition start :: "'p core \<Rightarrow> 'p core" where
  "start st = (if tc_started st then st
     else performs (id_address (tc_self st)) [Telemetry Ev_started None] (st\<lparr>tc_started := True\<rparr>))"

fun close_all :: "(string \<times> nat) list \<Rightarrow> 'p core \<Rightarrow> 'p core" where
  "close_all [] st = st"
| "close_all ((a, i) # rest) st = close_all rest (close_peer a i False st)"

definition stop :: "'p core \<Rightarrow> 'p core" where
  "stop st = performs (id_address (tc_self st)) [Telemetry Ev_stopped None] (close_all (tc_peers st) st)"

datatype core_event =
    E_start | E_stop
  | E_connect string
  | E_dialed string "string + dialed" "rt_identity \<Rightarrow> bool" ms
  | E_inbound_link nat bool "rt_identity option" ms
  | E_inbound_rejected string bool
  | E_disconnect string
  | E_link_state nat bool                \<comment> \<open>\<open>isOpen\<close> of a link changes\<close>
  | E_link_closed string nat
  | E_send string json string
  | E_flush string
  | E_send_resumed string nat bool ms
  | E_side_send_failed string            \<comment> \<open>a rejected ack, ping or pong send\<close>
  | E_rejection_handler                  \<comment> \<open>the next rejection handler of a retry runs\<close>
  | E_ack_timer string nat string ms
  | E_heartbeat string nat
  | E_deadline string nat ms
  | E_alive string nat ms
  | E_payload string nat json ms
  | E_claim_resumed nat

definition run_handler :: "'p core \<Rightarrow> 'p core" where
  "run_handler st =
     (case tc_later st of [] \<Rightarrow> st | a # rest \<Rightarrow> disconnect a (st\<lparr>tc_later := rest\<rparr>))"

fun core_step :: "'p provider option \<Rightarrow> (rt_frame \<Rightarrow> int) \<Rightarrow> core_event \<Rightarrow> 'p core \<Rightarrow> 'p core" where
  "core_step provider size_of E_start st = start st"
| "core_step provider size_of E_stop st = stop st"
| "core_step provider size_of (E_connect a) st = snd (connect_begin a st)"
| "core_step provider size_of (E_dialed a r auth now) st = snd (connect_end a r auth now st)"
| "core_step provider size_of (E_inbound_link l n ident now) st = accept_inbound_link l n ident now st"
| "core_step provider size_of (E_inbound_rejected a auth) st = record_inbound_rejection a auth st"
| "core_step provider size_of (E_disconnect a) st = disconnect a st"
| "core_step provider size_of (E_link_state l up) st =
     st\<lparr>tc_open := (if up then insert l (tc_open st) else tc_open st - {l})\<rparr>"
| "core_step provider size_of (E_link_closed a l) st = handle_peer_closed a l st"
| "core_step provider size_of (E_send a m t) st = snd (send size_of a m t st)"
| "core_step provider size_of (E_flush a) st = flush_peer a st"
| "core_step provider size_of (E_send_resumed a i ok now) st = resume_send a i ok now st"
| "core_step provider size_of (E_side_send_failed a) st = disconnect a st"
| "core_step provider size_of E_rejection_handler st = run_handler st"
| "core_step provider size_of (E_ack_timer a i mid now) st = fire_ack_timer a i mid now st"
| "core_step provider size_of (E_heartbeat a i) st = fire_heartbeat a i st"
| "core_step provider size_of (E_deadline a i now) st = fire_deadline a i now st"
| "core_step provider size_of (E_alive a l now) st = mark_peer_seen a l now st"
| "core_step provider size_of (E_payload a l v now) st = handle_payload provider a l v now st"
| "core_step provider size_of (E_claim_resumed n) st = resume_claim n st"

section \<open>Invariant\<close>

text \<open>Every counter of the transport is the sum of the counters of its peers.\<close>

definition stats_add_up :: "'p core \<Rightarrow> bool" where
  "stats_add_up st \<longleftrightarrow> distinct (omap_keys (tc_by_peer st))
     \<and> (\<forall>c. tc_totals st c = sum_list (map (\<lambda>(a, f). f c) (tc_by_peer st)))"

text \<open>
  The table maps an address to one connected peer object of that address, no object is at two
  addresses, and an object that is not in the table is closed and queues nothing.
\<close>

definition registered :: "'p core \<Rightarrow> nat \<Rightarrow> bool" where
  "registered st i \<longleftrightarrow> i \<in> snd ` set (tc_peers st)"

definition peer_ok :: "'p core \<Rightarrow> nat \<Rightarrow> bool" where
  "peer_ok st i \<longleftrightarrow> peer_wf (tc_config st) (tc_heap st ! i)
     \<and> (if registered st i then pe_state (tc_heap st ! i) = Peer_connected
        else pe_state (tc_heap st ! i) = Peer_disconnected \<and> pe_queue (tc_heap st ! i) = [])"

definition table_wf :: "'p core \<Rightarrow> bool" where
  "table_wf st \<longleftrightarrow> distinct (omap_keys (tc_peers st)) \<and> distinct (map snd (tc_peers st))
     \<and> (\<forall>(a, i) \<in> set (tc_peers st). i < length (tc_heap st) \<and> id_address (pe_identity (tc_heap st ! i)) = a)
     \<and> (\<forall>i < length (tc_heap st). peer_ok st i)
     \<and> (\<forall>w \<in> set (tc_claims st). fst w < length (tc_heap st))"

definition core_inv :: "'p core \<Rightarrow> bool" where
  "core_inv st \<longleftrightarrow> stats_add_up st \<and> table_wf st"

lemma perform_fields [simp]:
  "tc_peers (perform a e st) = tc_peers st" "tc_heap (perform a e st) = tc_heap st"
  "tc_open (perform a e st) = tc_open st" "tc_config (perform a e st) = tc_config st"
  "tc_self (perform a e st) = tc_self st" "tc_claims (perform a e st) = tc_claims st"
  "tc_provider (perform a e st) = tc_provider st" "tc_tickets (perform a e st) = tc_tickets st"
  "tc_log (perform a e st) = tc_log st @ [(a, e)]"
  by (simp_all add: perform_def Let_def split: effect.splits)

lemma performs_fields [simp]:
  "tc_peers (performs a es st) = tc_peers st" "tc_heap (performs a es st) = tc_heap st"
  "tc_open (performs a es st) = tc_open st" "tc_config (performs a es st) = tc_config st"
  "tc_self (performs a es st) = tc_self st" "tc_claims (performs a es st) = tc_claims st"
  "tc_provider (performs a es st) = tc_provider st" "tc_tickets (performs a es st) = tc_tickets st"
  "tc_log (performs a es st) = tc_log st @ map (Pair a) es"
  unfolding performs_def by (induction es arbitrary: st) simp_all

lemma sum_omap_set:
  fixes g :: "'v \<Rightarrow> int"
  assumes "distinct (omap_keys m)"
  shows "sum_list (map (\<lambda>(a, f). g f) (omap_set k v m)) =
    sum_list (map (\<lambda>(a, f). g f) m) - (case omap_get m k of None \<Rightarrow> 0 | Some f \<Rightarrow> g f) + g v"
  using assms
proof (induction m)
  case (Cons x xs)
  show ?case
  proof (cases "fst x = k")
    case True
    then show ?thesis using Cons.prems by (cases x) auto
  next
    case False
    then show ?thesis using Cons by (cases x) auto
  qed
qed simp

lemma stats_perform: "stats_add_up st \<Longrightarrow> stats_add_up (perform a e st)"
proof (cases e)
  case (Count c)
  assume s: "stats_add_up st"
  then have d: "distinct (omap_keys (tc_by_peer st))" by (simp add: stats_add_up_def)
  have "sum_list (map (\<lambda>(a, f). f c') (omap_set a ((peer_counters st a)(c := peer_counters st a c + 1)) (tc_by_peer st)))
     = sum_list (map (\<lambda>(a, f). f c') (tc_by_peer st)) + (if c' = c then 1 else 0)" for c'
    using sum_omap_set [OF d, of "\<lambda>f. f c'"] by (simp add: peer_counters_def split: option.splits)
  then show ?thesis using s Count by (simp add: stats_add_up_def perform_def Let_def)
qed (simp_all add: stats_add_up_def perform_def Let_def)

lemma stats_performs: "stats_add_up st \<Longrightarrow> stats_add_up (performs a es st)"
  unfolding performs_def by (induction es arbitrary: st) (simp_all add: stats_perform)

lemma stats_cong: "tc_totals st1 = tc_totals st \<Longrightarrow> tc_by_peer st1 = tc_by_peer st \<Longrightarrow> stats_add_up st1 = stats_add_up st"
  by (simp add: stats_add_up_def)

lemma table_cong:
  assumes "tc_peers st1 = tc_peers st" "tc_heap st1 = tc_heap st" "tc_config st1 = tc_config st" "tc_claims st1 = tc_claims st"
  shows "table_wf st1 = table_wf st"
  by (simp add: table_wf_def peer_ok_def registered_def assms)

lemma inv_performs: "core_inv st \<Longrightarrow> core_inv (performs a es st)"
  unfolding core_inv_def using stats_performs [of st a es] table_cong [of "performs a es st" st] by simp

lemma inv_cong:
  assumes "tc_totals st1 = tc_totals st" "tc_by_peer st1 = tc_by_peer st" "tc_peers st1 = tc_peers st"
    "tc_heap st1 = tc_heap st" "tc_config st1 = tc_config st" "tc_claims st1 = tc_claims st"
  shows "core_inv st1 = core_inv st"
  using stats_cong [OF assms(1,2)] table_cong [OF assms(3-6)] by (simp add: core_inv_def)

lemma inv_peer_update:
  assumes "core_inv st" "pe_identity pe = pe_identity (tc_heap st ! i)" "pe_state pe = pe_state (tc_heap st ! i)"
    and "peer_wf (tc_config st) pe" "registered st i \<or> pe_queue pe = []"
  shows "core_inv (st\<lparr>tc_heap := (tc_heap st)[i := pe]\<rparr>)"
proof (cases "i < length (tc_heap st)")
  case True
  let ?st = "st\<lparr>tc_heap := (tc_heap st)[i := pe]\<rparr>"
  have t: "table_wf st" and s: "stats_add_up st" using assms(1) by (auto simp: core_inv_def)
  have nth: "tc_heap ?st ! j = (if j = i then pe else tc_heap st ! j)" for j using True by (simp add: nth_list_update)
  have r: "registered ?st j = registered st j" for j by (simp add: registered_def)
  have "table_wf ?st"
    unfolding table_wf_def
  proof (intro conjI)
    show "distinct (omap_keys (tc_peers ?st))" using t by (simp add: table_wf_def)
    show "distinct (map snd (tc_peers ?st))" using t by (simp add: table_wf_def)
    show "\<forall>(b, j)\<in>set (tc_peers ?st). j < length (tc_heap ?st) \<and> id_address (pe_identity (tc_heap ?st ! j)) = b"
      using t assms(2) unfolding nth by (auto simp: table_wf_def)
    show "\<forall>j<length (tc_heap ?st). peer_ok ?st j"
      using t assms(3-5) unfolding peer_ok_def nth r by (auto simp: table_wf_def peer_ok_def)
    show "\<forall>w\<in>set (tc_claims ?st). fst w < length (tc_heap ?st)" using t by (simp add: table_wf_def)
  qed
  then show ?thesis using s by (simp add: core_inv_def stats_add_up_def)
next
  case False
  then show ?thesis using assms(1) by (subst inv_cong [of _ st]) (simp_all add: list_update_beyond)
qed

lemma inv_with_peer:
  assumes "core_inv st"
    and "pe_identity (snd (f (tc_heap st ! i))) = pe_identity (tc_heap st ! i)"
    and "pe_state (snd (f (tc_heap st ! i))) = pe_state (tc_heap st ! i)"
    and "peer_wf (tc_config st) (snd (f (tc_heap st ! i)))"
    and "registered st i \<or> pe_queue (snd (f (tc_heap st ! i))) = []"
  shows "core_inv (with_peer a i f st)"
  unfolding with_peer_def Let_def split_beta
  by (rule inv_performs) (rule inv_peer_update [OF assms])

lemma with_peer_fields [simp]:
  "tc_peers (with_peer a i f st) = tc_peers st" "tc_open (with_peer a i f st) = tc_open st"
  "tc_config (with_peer a i f st) = tc_config st" "tc_self (with_peer a i f st) = tc_self st"
  "tc_claims (with_peer a i f st) = tc_claims st"
  "tc_heap (with_peer a i f st) = (tc_heap st)[i := snd (f (tc_heap st ! i))]"
  "tc_log (with_peer a i f st) = tc_log st @ map (Pair a) (fst (f (tc_heap st ! i)))"
  by (simp_all add: with_peer_def Let_def split_beta)

lemma current_registered:
  assumes "core_inv st" "current st a = Some i"
  shows "registered st i" "i < length (tc_heap st)" "id_address (pe_identity (tc_heap st ! i)) = a"
    "peer_wf (tc_config st) (tc_heap st ! i)" "pe_state (tc_heap st ! i) = Peer_connected"
proof -
  have m: "(a, i) \<in> set (tc_peers st)" using assms(2) by (simp add: current_def map_of_SomeD)
  show r: "registered st i" using m by (force simp: registered_def)
  show l: "i < length (tc_heap st)" "id_address (pe_identity (tc_heap st ! i)) = a"
    using assms(1) m by (auto simp: core_inv_def table_wf_def)
  have "peer_ok st i" using assms(1) l by (simp add: core_inv_def table_wf_def)
  then show "peer_wf (tc_config st) (tc_heap st ! i)" "pe_state (tc_heap st ! i) = Peer_connected"
    using r by (simp_all add: peer_ok_def)
qed

lemma heap_peer:
  assumes "core_inv st" "i < length (tc_heap st)"
  shows "peer_wf (tc_config st) (tc_heap st ! i)" "registered st i \<or> pe_queue (tc_heap st ! i) = []"
    "\<not> registered st i \<Longrightarrow> current st a \<noteq> Some i"
  using assms current_registered(1) [OF assms(1), of a i]
  by (auto simp: core_inv_def table_wf_def peer_ok_def split: if_splits)

text \<open>The operations of a peer keep what the table relies on.\<close>

lemma peer_ops_keep:
  "pe_identity (snd (drain_queue l p pe)) = pe_identity pe" "pe_state (snd (drain_queue l p pe)) = pe_state pe"
  "pe_identity (snd (flush_queue l p pe)) = pe_identity pe" "pe_state (snd (flush_queue l p pe)) = pe_state pe"
  "pe_identity (snd (enqueue_frame cf l p item pe)) = pe_identity pe"
  "pe_state (snd (enqueue_frame cf l p item pe)) = pe_state pe"
  "pe_identity (track_ack cf now f pe) = pe_identity pe" "pe_state (track_ack cf now f pe) = pe_state pe"
  "pe_queue (track_ack cf now f pe) = pe_queue pe"
  by (auto simp: drain_queue_def flush_queue_def enqueue_frame_def track_ack_def Let_def split_beta split: list.splits)

lemma send_done_keep:
  "pe_identity (snd (send_done cf l p ok now pe)) = pe_identity pe"
  "pe_state (snd (send_done cf l p ok now pe)) = pe_state pe"
  "pe_queue pe = [] \<Longrightarrow> pe_queue (snd (send_done cf l p ok now pe)) = []"
  by (auto simp: send_done_def Let_def split_beta peer_ops_keep drain_queue_def split: option.splits list.splits)

lemma ack_timer_keep:
  "pe_identity (snd (ack_timer cf l p now t m pe)) = pe_identity pe"
  "pe_state (snd (ack_timer cf l p now t m pe)) = pe_state pe"
  "\<not> l \<Longrightarrow> pe_queue (snd (ack_timer cf l p now t m pe)) = pe_queue pe"
  by (auto simp: ack_timer_def Let_def split_beta peer_ops_keep split: option.splits ack_retry_verdict.splits)

lemma heartbeat_keep:
  "pe_identity (snd (heartbeat_tick cf l p pe)) = pe_identity pe" "pe_state (snd (heartbeat_tick cf l p pe)) = pe_state pe"
  "pe_queue (snd (heartbeat_tick cf l p pe)) = pe_queue pe"
  "pe_identity (snd (heartbeat_deadline cf l now pe)) = pe_identity pe"
  "pe_state (snd (heartbeat_deadline cf l now pe)) = pe_state pe"
  "pe_queue (snd (heartbeat_deadline cf l now pe)) = pe_queue pe"
  by (auto simp: heartbeat_tick_def heartbeat_deadline_def arm_deadline_def clear_heartbeat_def Let_def)

lemma clear_ack_keep:
  "pe_identity (snd (clear_pending_ack m pe)) = pe_identity pe" "pe_state (snd (clear_pending_ack m pe)) = pe_state pe"
  "pe_queue (snd (clear_pending_ack m pe)) = pe_queue pe"
  by (auto simp: clear_pending_ack_def split: option.splits)

lemma peer_wf_steps:
  assumes "peer_wf cf pe"
  shows "peer_wf cf (snd (flush_queue l p pe))" "peer_wf cf (snd (enqueue_frame cf l p \<lparr>qi_frame = f, qi_ticket = t, qi_track = True\<rparr> pe))"
    "peer_wf cf (snd (send_done cf l p ok now pe))" "peer_wf cf (snd (ack_timer cf l p now t m pe))"
    "peer_wf cf (snd (heartbeat_tick cf l p pe))" "peer_wf cf (snd (heartbeat_deadline cf l now pe))"
    "peer_wf cf (snd (clear_pending_ack m pe))" "peer_wf cf (mark_seen now pe)"
  using peer_step_wf [OF assms, of "P_flush l p"] peer_step_wf [OF assms, of "P_send l p t f"]
    peer_step_wf [OF assms, of "P_send_done l p ok now"] peer_step_wf [OF assms, of "P_ack_timer l p now t m"]
    peer_step_wf [OF assms, of "P_tick l p"] peer_step_wf [OF assms, of "P_deadline l now"]
    peer_step_wf [OF assms, of "P_ack m"] peer_step_wf [OF assms, of "P_seen now"]
  by simp_all

lemma omap_set_new: "k \<notin> set (omap_keys m) \<Longrightarrow> omap_set k v m = m @ [(k, v)]"
  by (induction m) auto

lemma inv_close_peer:
  assumes "core_inv st" "current st a = Some i"
  shows "core_inv (close_peer a i emit_disconnected st)"
proof -
  note reg = current_registered [OF assms]
  define pe where "pe = snd (close_peer_state (tc_heap st ! i))"
  define st1 where "st1 = with_peer a i close_peer_state st"
  define st2 where "st2 = st1\<lparr>tc_peers := omap_delete a (tc_peers st1), tc_open := tc_open st1 - {pe_link (tc_heap st1 ! i)}\<rparr>"
  have pe: "pe_identity pe = pe_identity (tc_heap st ! i)" "pe_queue pe = []" "pe_state pe = Peer_disconnected"
    "peer_wf (tc_config st) pe"
    using close_wf [OF reg(4)] by (auto simp: pe_def close_peer_state_def clear_heartbeat_def)
  have t: "table_wf st" and s: "stats_add_up st" using assms(1) by (auto simp: core_inv_def)
  have st1: "tc_peers st1 = tc_peers st" "tc_heap st1 = (tc_heap st)[i := pe]" "tc_config st1 = tc_config st"
    "tc_claims st1 = tc_claims st"
    by (simp_all add: st1_def pe_def)
  have d: "distinct (omap_keys (tc_peers st))" "distinct (map snd (tc_peers st))" using t by (auto simp: table_wf_def)
  have mem: "(a, i) \<in> set (tc_peers st)" using assms(2) by (simp add: current_def map_of_SomeD)
  have other: "j \<noteq> i" if "(b, j) \<in> set (omap_delete a (tc_peers st))" for b j
  proof
    assume "j = i"
    moreover have "(b, j) \<in> set (tc_peers st)" "b \<noteq> a" using that by (auto simp: AList.delete_eq)
    ultimately have "(b, i) = (a, i)" using d(2) mem inj_onD [of snd "set (tc_peers st)" "(b, i)" "(a, i)"] by (simp add: distinct_map)
    then show False using \<open>b \<noteq> a\<close> by simp
  qed
  have p2: "tc_peers st2 = omap_delete a (tc_peers st)" by (simp add: st2_def st1)
  have reg2: "registered st2 j \<longleftrightarrow> registered st j \<and> j \<noteq> i" for j
  proof
    assume "registered st2 j"
    then obtain b where b: "(b, j) \<in> set (omap_delete a (tc_peers st))" unfolding registered_def p2 by force
    then have "(b, j) \<in> set (tc_peers st)" by (simp add: AList.delete_eq)
    then show "registered st j \<and> j \<noteq> i" using other [OF b] unfolding registered_def by force
  next
    assume r: "registered st j \<and> j \<noteq> i"
    then obtain b where b: "(b, j) \<in> set (tc_peers st)" unfolding registered_def by force
    then have "b \<noteq> a" using eq_key_imp_eq_value [OF d(1) mem, of j] r by blast
    then have "(b, j) \<in> set (omap_delete a (tc_peers st))" using b by (simp add: AList.delete_eq)
    then show "registered st2 j" unfolding registered_def p2 by force
  qed
  have h2: "tc_heap st2 = (tc_heap st)[i := pe]" "tc_config st2 = tc_config st" by (simp_all add: st2_def st1)
  have "table_wf st2"
    unfolding table_wf_def
  proof (intro conjI)
    show "distinct (omap_keys (tc_peers st2))" using d(1) by (simp add: st2_def st1)
    show "distinct (map snd (tc_peers st2))" using d(2) by (auto simp: st2_def st1 AList.delete_eq distinct_map_filter)
    show "\<forall>(b, j)\<in>set (tc_peers st2). j < length (tc_heap st2) \<and> id_address (pe_identity (tc_heap st2 ! j)) = b"
    proof clarify
      fix b j assume b: "(b, j) \<in> set (tc_peers st2)"
      then have "(b, j) \<in> set (tc_peers st)" "j \<noteq> i" using other [of b j] by (auto simp: p2 AList.delete_eq)
      then show "j < length (tc_heap st2) \<and> id_address (pe_identity (tc_heap st2 ! j)) = b"
        using t by (auto simp: st2_def st1 table_wf_def)
    qed
    show "\<forall>j<length (tc_heap st2). peer_ok st2 j"
    proof (intro allI impI)
      fix j assume "j < length (tc_heap st2)"
      then have j: "j < length (tc_heap st)" "peer_ok st j" using t by (simp_all add: h2 table_wf_def)
      show "peer_ok st2 j"
      proof (cases "j = i")
        case True
        then show ?thesis using pe reg(2) by (simp add: peer_ok_def reg2 h2)
      next
        case False
        then show ?thesis using j by (simp add: peer_ok_def reg2 h2)
      qed
    qed
    show "\<forall>w\<in>set (tc_claims st2). fst w < length (tc_heap st2)"
      using t by (auto simp: st2_def st1 table_wf_def)
  qed
  moreover have "stats_add_up st2"
    using stats_performs [of "st\<lparr>tc_heap := (tc_heap st)[i := pe]\<rparr>" a "fst (close_peer_state (tc_heap st ! i))"] s
    by (simp add: st2_def st1_def with_peer_def Let_def split_beta pe_def stats_add_up_def)
  ultimately have "core_inv st2" by (simp add: core_inv_def)
  then show ?thesis
    unfolding close_peer_def Let_def st1_def [symmetric] st2_def [symmetric] by (rule inv_performs)
qed

lemma inv_disconnect: "core_inv st \<Longrightarrow> core_inv (disconnect a st)"
  by (auto simp: disconnect_def inv_close_peer split: option.splits)

lemma inv_link_closed: "core_inv st \<Longrightarrow> core_inv (handle_peer_closed a l st)"
  by (auto simp: handle_peer_closed_def inv_close_peer split: option.splits)

lemma close_all_inv:
  assumes "core_inv st" "\<forall>x \<in> set xs. current st (fst x) = Some (snd x)" "distinct (map fst xs)"
  shows "core_inv (close_all xs st)"
  using assms
proof (induction xs arbitrary: st)
  case (Cons x xs)
  obtain a i where x: "x = (a, i)" by (cases x)
  have "core_inv (close_peer a i False st)" using inv_close_peer [OF Cons.prems(1)] Cons.prems(2) x by simp
  moreover have "\<forall>y \<in> set xs. current (close_peer a i False st) (fst y) = Some (snd y)"
    using Cons.prems(2,3) x by (auto simp: current_def close_peer_def Let_def)
  ultimately show ?case using Cons.IH Cons.prems(3) x by simp
qed simp

lemma inv_record_connected: "core_inv st \<Longrightarrow> core_inv (record_peer_connected a st)"
  unfolding record_peer_connected_def by (rule inv_performs)

lemma inv_add_peer:
  assumes "core_inv st" "current st (id_address ident) = None"
  shows "core_inv (st\<lparr>tc_heap := tc_heap st @ [start_heartbeat (tc_config st) (new_peer (tc_config st) l n ident now)],
     tc_peers := omap_set (id_address ident) (length (tc_heap st)) (tc_peers st)\<rparr>)"
proof -
  define pe where "pe = start_heartbeat (tc_config st) (new_peer (tc_config st) l n ident now)"
  have pe: "pe_identity pe = ident" "pe_state pe = Peer_connected" "peer_wf (tc_config st) pe"
    by (auto simp: pe_def start_heartbeat_def new_peer_def peer_wf_def)
  have new: "id_address ident \<notin> set (omap_keys (tc_peers st))"
    using assms(2) by (simp add: current_def map_of_eq_None_iff)
  have upd: "omap_set (id_address ident) k (tc_peers st) = tc_peers st @ [(id_address ident, k)]" for k
    by (rule omap_set_new [OF new])
  have t: "table_wf st" and s: "stats_add_up st" using assms(1) by (auto simp: core_inv_def)
  let ?st = "st\<lparr>tc_heap := tc_heap st @ [pe], tc_peers := tc_peers st @ [(id_address ident, length (tc_heap st))]\<rparr>"
  have lt: "i < length (tc_heap st)" if "i \<in> snd ` set (tc_peers st)" for i
    using t that by (auto simp: table_wf_def)
  have r: "registered ?st j \<longleftrightarrow> registered st j \<or> j = length (tc_heap st)" for j by (auto simp: registered_def)
  have "table_wf ?st"
    unfolding table_wf_def
  proof (intro conjI)
    show "distinct (omap_keys (tc_peers ?st))" using t new by (auto simp: table_wf_def)
    show "distinct (map snd (tc_peers ?st))" using t lt by (auto simp: table_wf_def)
    show "\<forall>(b, j)\<in>set (tc_peers ?st). j < length (tc_heap ?st) \<and> id_address (pe_identity (tc_heap ?st ! j)) = b"
      using t pe(1) by (auto simp: table_wf_def nth_append)
    show "\<forall>j<length (tc_heap ?st). peer_ok ?st j"
      using t pe by (auto simp: peer_ok_def r table_wf_def nth_append less_Suc_eq)
    show "\<forall>w\<in>set (tc_claims ?st). fst w < length (tc_heap ?st)" using t by (auto simp: table_wf_def)
  qed
  then show ?thesis using s unfolding upd pe_def [symmetric] by (simp add: core_inv_def stats_add_up_def)
qed

lemma close_peer_gone: "current (close_peer a i d st) a = None" "tc_config (close_peer a i d st) = tc_config st"
  by (simp_all add: close_peer_def Let_def current_def)

text \<open>A link that no registered peer uses.\<close>

definition fresh_link :: "nat \<Rightarrow> 'p core \<Rightarrow> bool" where
  "fresh_link l st \<longleftrightarrow> (\<forall>i < length (tc_heap st). pe_link (tc_heap st ! i) \<noteq> l)"

lemma inv_register:
  assumes "core_inv st" "fresh_link l st"
  shows "core_inv (register_peer l n ident now st)"
proof -
  define st1 where "st1 = (case current st (id_address ident) of None \<Rightarrow> st
      | Some i \<Rightarrow> if pe_link (tc_heap st ! i) \<noteq> l then close_peer (id_address ident) i False st else st)"
  have st1: "core_inv st1 \<and> current st1 (id_address ident) = None"
  proof (cases "current st (id_address ident)")
    case (Some i)
    then have "pe_link (tc_heap st ! i) \<noteq> l"
      using current_registered(2) [OF assms(1) Some] assms(2) by (simp add: fresh_link_def)
    then show ?thesis using Some inv_close_peer [OF assms(1) Some] by (simp add: st1_def close_peer_gone)
  qed (use assms(1) in \<open>simp add: st1_def\<close>)
  show ?thesis
    unfolding register_peer_def Let_def st1_def [symmetric]
    by (intro inv_performs inv_record_connected inv_add_peer) (use st1 in auto)
qed

lemma inv_rejected: "core_inv st \<Longrightarrow> core_inv (record_handshake_rejected a st)"
  "core_inv st \<Longrightarrow> core_inv (record_auth_rejected a st)"
  "core_inv st \<Longrightarrow> core_inv (record_inbound_rejection a b st)"
  by (simp_all add: record_handshake_rejected_def record_auth_rejected_def record_inbound_rejection_def inv_performs)

lemma inv_open: "core_inv (st\<lparr>tc_open := X\<rparr>) = core_inv st" "fresh_link l (st\<lparr>tc_open := X\<rparr>) = fresh_link l st"
  by (rule inv_cong) (simp_all add: fresh_link_def)

lemma inv_close_link: "core_inv (close_link l st) = core_inv st"
  by (simp add: close_link_def inv_open)

lemma inv_inbound_link: "core_inv st \<Longrightarrow> fresh_link l st \<Longrightarrow> core_inv (accept_inbound_link l n ident now st)"
  by (auto simp: accept_inbound_link_def Let_def inv_close_link inv_open inv_rejected inv_register split: option.splits)

lemma inv_dialed:
  assumes "core_inv st" "case r of Inl e \<Rightarrow> True | Inr d \<Rightarrow> fresh_link (di_link d) st"
  shows "core_inv (snd (connect_end a r auth now st))"
  using assms
  by (cases r) (auto simp: connect_end_def Let_def inv_close_link inv_open inv_rejected intro!: inv_register)

lemma inv_send:
  assumes "core_inv st"
  shows "core_inv (snd (send size_of a m t st))"
proof (cases "current st a")
  case None
  then show ?thesis using assms by (simp add: send_def)
next
  case (Some i)
  note reg = current_registered [OF assms Some]
  let ?pe = "(tc_heap st ! i)\<lparr>pe_sequence := pe_sequence (tc_heap st ! i) + 1\<rparr>"
  have "core_inv (st\<lparr>tc_heap := (tc_heap st)[i := ?pe]\<rparr>)"
    by (rule inv_peer_update) (use assms reg in \<open>auto simp: peer_wf_def\<close>)
  then have st1: "core_inv (st\<lparr>tc_heap := (tc_heap st)[i := ?pe], tc_tickets := k\<rparr>)" for k
    by (simp add: inv_cong [of "st\<lparr>tc_heap := _, tc_tickets := k\<rparr>" "st\<lparr>tc_heap := _\<rparr>"])
  have wf: "peer_wf (tc_config st) ?pe" using reg by (simp add: peer_wf_def)
  have "core_inv (with_peer a i (enqueue_frame (tc_config st) True (link_open st i)
      \<lparr>qi_frame = f, qi_ticket = k, qi_track = True\<rparr>) (st\<lparr>tc_heap := (tc_heap st)[i := ?pe], tc_tickets := k'\<rparr>))" for f k k'
    by (rule inv_with_peer [OF st1]) (use reg wf in \<open>auto simp: peer_ops_keep peer_wf_steps registered_def\<close>)
  then show ?thesis using Some assms by (simp add: send_def Let_def inv_performs)
qed

lemma inv_flush: "core_inv st \<Longrightarrow> core_inv (flush_peer a st)"
proof (cases "current st a")
  case (Some i)
  assume inv: "core_inv st"
  note reg = current_registered [OF inv Some]
  have "core_inv (with_peer a i (flush_queue True (link_open st i)) st)"
    by (rule inv_with_peer [OF inv]) (use reg in \<open>auto simp: peer_ops_keep peer_wf_steps\<close>)
  then show ?thesis using Some by (simp add: flush_peer_def)
qed (simp add: flush_peer_def)

lemma inv_resume_send: "core_inv st \<Longrightarrow> core_inv (resume_send a i ok now st)"
proof (cases "length (tc_heap st) \<le> i \<or> pe_in_flight (tc_heap st ! i) = None")
  case False
  assume inv: "core_inv st"
  have i: "i < length (tc_heap st)" using False by simp
  note hp = heap_peer [OF inv i]
  have "core_inv (with_peer a i (send_done (tc_config st) (live st a i) (link_open st i) ok now) st)"
    by (rule inv_with_peer [OF inv]) (use hp in \<open>auto simp: send_done_keep peer_wf_steps\<close>)
  then show ?thesis using False by (cases ok) (auto simp: resume_send_def Let_def inv_disconnect)
qed (simp add: resume_send_def)

lemma inv_ack_timer:
  assumes "core_inv st"
  shows "core_inv (fire_ack_timer a i mid now st)"
proof (cases "length (tc_heap st) \<le> i")
  case False
  then have i: "i < length (tc_heap st)" by simp
  note hp = heap_peer [OF assms i]
  let ?st = "st\<lparr>tc_tickets := Suc (tc_tickets st)\<rparr>"
  let ?f = "ack_timer (tc_config st) (live st a i) (link_open st i) now (tc_tickets st) mid"
  have inv: "core_inv ?st" using assms by (subst inv_cong [of _ st]) simp_all
  have q: "registered ?st i \<or> pe_queue (snd (?f (tc_heap st ! i))) = []"
  proof (cases "registered st i")
    case True
    then show ?thesis by (simp add: registered_def)
  next
    case False
    then have "\<not> live st a i" using hp(3) by (simp add: live_def)
    then show ?thesis using hp(2) False by (simp add: ack_timer_keep)
  qed
  have "core_inv (with_peer a i ?f ?st)"
    by (rule inv_with_peer [OF inv]) (use hp q in \<open>auto simp: ack_timer_keep peer_wf_steps\<close>)
  then show ?thesis using False by (simp add: fire_ack_timer_def)
qed (use assms in \<open>simp add: fire_ack_timer_def\<close>)

lemma inv_heartbeat: "core_inv st \<Longrightarrow> core_inv (fire_heartbeat a i st)"
proof (cases "length (tc_heap st) \<le> i")
  case False
  assume inv: "core_inv st"
  have i: "i < length (tc_heap st)" using False by simp
  note hp = heap_peer [OF inv i]
  have "core_inv (with_peer a i (heartbeat_tick (tc_config st) (live st a i) (link_open st i)) st)"
    by (rule inv_with_peer [OF inv]) (use hp in \<open>auto simp: heartbeat_keep peer_wf_steps\<close>)
  then show ?thesis using False by (simp add: fire_heartbeat_def)
qed (simp add: fire_heartbeat_def)

lemma deadline_live: "fst (heartbeat_deadline cf l now pe) \<Longrightarrow> l"
  by (auto simp: heartbeat_deadline_def Let_def split: if_splits)

lemma inv_deadline:
  assumes "core_inv st"
  shows "core_inv (fire_deadline a i now st)"
proof (cases "length (tc_heap st) \<le> i")
  case False
  then have i: "i < length (tc_heap st)" by simp
  note hp = heap_peer [OF assms i]
  obtain b pe where d: "heartbeat_deadline (tc_config st) (live st a i) now (tc_heap st ! i) = (b, pe)" by fastforce
  have st1: "core_inv (st\<lparr>tc_heap := (tc_heap st)[i := pe]\<rparr>)"
    by (rule inv_peer_update [OF assms])
       (use hp d heartbeat_keep(4-6) [of "tc_config st" "live st a i" now "tc_heap st ! i"]
          peer_wf_steps(6) [OF hp(1), of "live st a i" now] in auto)
  have "current st a = Some i" if b
    using deadline_live [of "tc_config st" "live st a i" now "tc_heap st ! i"] d that by (simp add: live_def)
  then have "core_inv (close_peer a i True (performs a es (st\<lparr>tc_heap := (tc_heap st)[i := pe]\<rparr>)))" if b for es
    using that by (intro inv_close_peer inv_performs st1) (simp add: current_def)
  then show ?thesis using False d st1 by (simp add: fire_deadline_def Let_def)
qed (use assms in \<open>simp add: fire_deadline_def\<close>)

lemma inv_mark_seen:
  assumes "core_inv st"
  shows "core_inv (mark_peer_seen a l now st)"
proof (cases "current st a")
  case (Some i)
  note reg = current_registered [OF assms Some]
  have "core_inv (st\<lparr>tc_heap := (tc_heap st)[i := mark_seen now (tc_heap st ! i)]\<rparr>)"
    by (rule inv_peer_update [OF assms]) (use reg peer_wf_steps(8) [OF reg(4)] in \<open>auto simp: mark_seen_def\<close>)
  then show ?thesis using Some assms by (simp add: mark_peer_seen_def)
qed (use assms in \<open>simp add: mark_peer_seen_def\<close>)

lemma inv_drop: "core_inv st \<Longrightarrow> core_inv (drop_and_disconnect a c st)"
  unfolding drop_and_disconnect_def record_frame_dropped_def by (intro inv_disconnect inv_performs)

lemma mark_seen_fields:
  "length (tc_heap (mark_peer_seen a l now st)) = length (tc_heap st)" "tc_self (mark_peer_seen a l now st) = tc_self st"
  "current (mark_peer_seen a l now st) b = current st b" "tc_config (mark_peer_seen a l now st) = tc_config st"
  by (simp_all add: mark_peer_seen_def current_def split: option.splits)

lemma inv_clear_ack:
  assumes "core_inv st" "i < length (tc_heap st)"
  shows "core_inv (with_peer a i (clear_pending_ack m) st)"
  by (rule inv_with_peer [OF assms(1)]) (use heap_peer [OF assms] in \<open>auto simp: clear_ack_keep peer_wf_steps\<close>)

lemma inv_handle_ack: "core_inv st \<Longrightarrow> i < length (tc_heap st) \<Longrightarrow> core_inv (handle_ack a i v now st)"
  by (auto simp: handle_ack_def inv_drop mark_seen_fields intro!: inv_clear_ack inv_mark_seen split: validation.splits)

lemma inv_handle_heartbeat: "core_inv st \<Longrightarrow> core_inv (handle_heartbeat a i v now st)"
  by (auto simp: handle_heartbeat_def inv_drop intro!: inv_performs inv_mark_seen split: validation.splits)

lemma inv_received:
  assumes "core_inv st" "i < length (tc_heap st)"
  shows "core_inv (record_frame_received a i f st)"
proof -
  have "core_inv (st\<lparr>tc_heap := (tc_heap st)[i := (tc_heap st ! i)\<lparr>pe_last_received := n\<rparr>]\<rparr>)" for n
    by (rule inv_peer_update [OF assms(1)]) (use heap_peer [OF assms] in \<open>auto simp: peer_wf_def\<close>)
  then show ?thesis unfolding record_frame_received_def Let_def by (rule inv_performs)
qed

lemma inv_after_claim:
  assumes "core_inv st" "i < length (tc_heap st)"
  shows "core_inv (after_claim a i f out st)"
proof (cases out)
  case (Accepted s ev input)
  define st2 where "st2 = (if s = From_provider \<and> input \<noteq> None
     then performs a [Count Provider_claims, Telemetry Ev_provider_claimed None] (record_evictions a ev st)
     else record_evictions a ev st)"
  have "core_inv st2" "i < length (tc_heap st2)"
    using assms by (auto simp: st2_def record_evictions_def inv_performs)
  then have "core_inv (record_frame_received a i f st2)" by (rule inv_received)
  then have "core_inv (performs (id_address (fr_source f)) [Deliver (fr_message f)] (send_ack a f (record_frame_received a i f st2)))"
    unfolding send_ack_def by (intro inv_performs)
  then show ?thesis unfolding Accepted after_claim_def claim_outcome.case Let_def st2_def .
qed (use assms in \<open>auto simp: after_claim_def send_ack_def record_duplicate_def record_evictions_def intro!: inv_performs inv_drop\<close>)

lemma inv_set_inbound:
  assumes "core_inv st" "i < length (tc_heap st)"
  shows "core_inv (set_inbound i x st)"
proof -
  have "core_inv (st\<lparr>tc_heap := (tc_heap st)[i := (tc_heap st ! i)\<lparr>pe_cache := in_cache x\<rparr>]\<rparr>)"
    by (rule inv_peer_update [OF assms(1)]) (use heap_peer [OF assms] in \<open>auto simp: peer_wf_def\<close>)
  then show ?thesis unfolding set_inbound_def by (subst inv_cong [of _ "st\<lparr>tc_heap := _\<rparr>"]) simp_all
qed

lemma inv_add_claims:
  assumes "core_inv st" "i < length (tc_heap st)"
  shows "core_inv (st\<lparr>tc_claims := tc_claims st @ map (\<lambda>(input, r). (i, a, f, input, r)) xs\<rparr>)"
  using assms by (auto simp: core_inv_def stats_add_up_def table_wf_def peer_ok_def registered_def)

lemma inv_drop_claim: "core_inv st \<Longrightarrow> core_inv (st\<lparr>tc_claims := take n (tc_claims st) @ drop m (tc_claims st)\<rparr>)"
  by (auto simp: core_inv_def stats_add_up_def table_wf_def peer_ok_def registered_def dest!: in_set_takeD in_set_dropD)

lemma inv_claim_frame:
  assumes "core_inv st" "i < length (tc_heap st)"
  shows "core_inv (claim_frame provider a i f st)"
proof -
  obtain out x where c: "claim_begin provider (node_of (tc_self st)) (node_of (pe_identity (tc_heap st ! i)))
      (claimable f) (inbound_of i st []) = (out, x)" by fastforce
  have s: "core_inv (set_inbound i x st)" "i < length (tc_heap (set_inbound i x st))"
    using inv_set_inbound [OF assms] assms(2) by (auto simp: set_inbound_def)
  then show ?thesis
    by (auto simp: claim_frame_def c Let_def intro: inv_after_claim inv_add_claims split: option.splits)
qed

lemma inv_resume_claim:
  assumes "core_inv st"
  shows "core_inv (resume_claim n st)"
proof (cases "length (tc_claims st) \<le> n")
  case False
  obtain i a f input r where w: "tc_claims st ! n = (i, a, f, input, r)" by (metis prod_cases5)
  define st0 where "st0 = st\<lparr>tc_claims := take n (tc_claims st) @ drop (Suc n) (tc_claims st)\<rparr>"
  have i: "i < length (tc_heap st)"
    using assms False w nth_mem [of n "tc_claims st"] by (auto simp: core_inv_def table_wf_def)
  have st0: "core_inv st0" "i < length (tc_heap st0)" using inv_drop_claim [OF assms] i by (auto simp: st0_def)
  obtain out x where c: "claim_end 0 (inbound_of i st0 [(input, r)]) = (out, x)" by fastforce
  have s: "core_inv (set_inbound i x st0)" "i < length (tc_heap (set_inbound i x st0))"
    using inv_set_inbound [OF st0] st0(2) by (auto simp: set_inbound_def)
  then show ?thesis using False w c
    by (auto simp: resume_claim_def Let_def st0_def [symmetric] intro: inv_after_claim split: option.splits)
qed (use assms in \<open>simp add: resume_claim_def\<close>)

lemma inv_payload:
  assumes "core_inv st"
  shows "core_inv (handle_payload provider a l v now st)"
proof (cases "current st a")
  case (Some i)
  note reg = current_registered [OF assms Some]
  have "core_inv (claim_frame provider a i f (mark_peer_seen a l now st))" for f
    by (rule inv_claim_frame) (use inv_mark_seen [OF assms] reg in \<open>simp_all add: mark_seen_fields\<close>)
  then show ?thesis
    using Some assms reg
    by (auto simp: handle_payload_def inv_drop inv_handle_ack inv_handle_heartbeat split: validation.splits)
qed (use assms in \<open>simp add: handle_payload_def\<close>)

lemma inv_start: "core_inv st \<Longrightarrow> core_inv (start st)"
  by (auto simp: start_def intro!: inv_performs) (subst inv_cong [of _ st], simp_all)

lemma inv_stop: "core_inv st \<Longrightarrow> core_inv (stop st)"
  unfolding stop_def
  by (intro inv_performs close_all_inv) (auto simp: current_def core_inv_def table_wf_def)

lemma inv_handler: "core_inv st \<Longrightarrow> core_inv (run_handler st)"
  by (auto simp: run_handler_def intro!: inv_disconnect split: list.splits) (subst inv_cong [of _ st], simp_all)

text \<open>A channel hands every link over once.\<close>

fun links_once :: "core_event \<Rightarrow> 'p core \<Rightarrow> bool" where
  "links_once (E_dialed a (Inr d) auth now) st = fresh_link (di_link d) st"
| "links_once (E_inbound_link l n ident now) st = fresh_link l st"
| "links_once _ st = True"

lemma core_step_inv:
  assumes "core_inv st" "links_once e st"
  shows "core_inv (core_step provider size_of e st)"
proof (cases e)
  case (E_dialed a r auth now)
  then show ?thesis using assms by (cases r) (auto intro: inv_dialed)
qed (use assms in \<open>auto simp: inv_start inv_stop inv_inbound_link inv_rejected inv_disconnect inv_link_closed inv_send
      inv_flush inv_resume_send inv_handler inv_ack_timer inv_heartbeat inv_deadline inv_mark_seen inv_payload
      inv_resume_claim inv_open connect_begin_def inv_performs\<close>)

inductive reachable :: "'p provider option \<Rightarrow> (rt_frame \<Rightarrow> int) \<Rightarrow> 'p core \<Rightarrow> 'p core \<Rightarrow> bool"
  for provider size_of st where
  reach_init: "reachable provider size_of st st"
| reach_step: "reachable provider size_of st st1 \<Longrightarrow> links_once e st1 \<Longrightarrow>
     reachable provider size_of st (core_step provider size_of e st1)"

lemma new_core_inv: "core_inv (new_core self cf p)"
  by (simp add: core_inv_def stats_add_up_def table_wf_def new_core_def)

lemma reachable_inv: "reachable provider size_of st st1 \<Longrightarrow> core_inv st \<Longrightarrow> core_inv st1"
  by (induction rule: reachable.induct) (auto intro: core_step_inv)

section \<open>Properties\<close>


definition start_core :: "unit core" where "start_core = new_core (id_of ''a'') two_deep ()"

definition linked_core :: "unit core" where
  "linked_core = core_step None (\<lambda>_. 0) (E_inbound_link 1 False (Some (id_of ''b'')) 0)
     (core_step None (\<lambda>_. 0) (E_inbound_link 0 False (Some (id_of ''b'')) 0) start_core)"

lemma linked_core_reachable: "reachable None (\<lambda>_. 0) start_core linked_core"
  unfolding linked_core_def
  by (intro reach_step reach_init)
     (simp_all add: fresh_link_def start_core_def new_core_def accept_inbound_link_def can_accept_peer_def
       current_def create_identity_def id_of_def register_peer_def record_peer_connected_def start_heartbeat_def
       new_peer_def two_deep_def Let_def)


lemma register_peer_fields:
  fixes st :: "'p core" and l n ident now
  defines "st1 \<equiv> register_peer l n ident now st"
  shows "tc_self st1 = tc_self st" "tc_config st1 = tc_config st"
    "\<exists>i. current st1 (id_address ident) = Some i \<and> pe_sequence (tc_heap st1 ! i) = 0
       \<and> pe_identity (tc_heap st1 ! i) = ident \<and> pe_queue (tc_heap st1 ! i) = [] \<and> \<not> pe_flushing (tc_heap st1 ! i)"
proof -
  define st0 where "st0 = (case current st (id_address ident) of None \<Rightarrow> st
      | Some i \<Rightarrow> if pe_link (tc_heap st ! i) \<noteq> l then close_peer (id_address ident) i False st else st)"
  have s: "tc_self st0 = tc_self st" "tc_config st0 = tc_config st"
    by (auto simp: st0_def close_peer_def Let_def split: option.splits)
  show "tc_self st1 = tc_self st" "tc_config st1 = tc_config st"
    unfolding st1_def register_peer_def Let_def st0_def [symmetric] by (simp_all add: record_peer_connected_def s)
  show "\<exists>i. current st1 (id_address ident) = Some i \<and> pe_sequence (tc_heap st1 ! i) = 0
       \<and> pe_identity (tc_heap st1 ! i) = ident \<and> pe_queue (tc_heap st1 ! i) = [] \<and> \<not> pe_flushing (tc_heap st1 ! i)"
    unfolding st1_def register_peer_def Let_def st0_def [symmetric]
    by (intro exI [of _ "length (tc_heap st0)"])
       (simp add: record_peer_connected_def current_def start_heartbeat_def new_peer_def)
qed

lemma inbound_link_fields:
  "tc_self (accept_inbound_link l n ident now st) = tc_self st"
  "tc_config (accept_inbound_link l n ident now st) = tc_config st"
  by (auto simp: accept_inbound_link_def Let_def register_peer_fields close_link_def record_inbound_rejection_def
      record_handshake_rejected_def split: option.splits)

lemma first_frame_of_connection:
  fixes st :: "'p core"
  assumes "cf_queue_limit (tc_config st) \<noteq> 0"
    and "\<And>f. fst (validate_payload_size size_of f (cf_max_frame_bytes (tc_config st)))"
  shows "\<exists>k f. (id_address ident, Queued k f) \<in> set (tc_log (snd (send size_of (id_address ident) m t
      (register_peer l n ident now st))))
    \<and> fr_message f = m \<and> fr_message_id f = create_message_id (tc_self st) ident 1"
proof -
  define st1 where "st1 = register_peer l n ident now st"
  note reg = register_peer_fields [of l n ident now st, folded st1_def]
  obtain i where i: "current st1 (id_address ident) = Some i" "pe_sequence (tc_heap st1 ! i) = 0"
    "pe_identity (tc_heap st1 ! i) = ident" "pe_queue (tc_heap st1 ! i) = []" "\<not> pe_flushing (tc_heap st1 ! i)"
    using reg(3) by blast
  define f where "f = create_frame (tc_self st) ident (Some (create_message_id (tc_self st) ident 1)) 1 m t"
  let ?pe = "(tc_heap st1 ! i)\<lparr>pe_sequence := 1\<rparr>"
  let ?st2 = "st1\<lparr>tc_heap := (tc_heap st1)[i := ?pe], tc_tickets := Suc (tc_tickets st1)\<rparr>"
  let ?enq = "enqueue_frame (tc_config st) True (link_open st1 i) \<lparr>qi_frame = f, qi_ticket = tc_tickets st1, qi_track = True\<rparr>"
  have snd: "snd (send size_of (id_address ident) m t st1) = with_peer (id_address ident) i ?enq ?st2"
    using i reg assms(2) by (simp add: send_def f_def Let_def)
  have "pe_queue (tc_heap ?st2 ! i) = []" using i by (cases "i < length (tc_heap st1)") (simp_all add: list_update_beyond)
  then have "Queued (tc_tickets st1) f \<in> set (fst (?enq (tc_heap ?st2 ! i)))"
    using assms(1) by (auto simp: enqueue_frame_def resolve_backpressure_def Let_def split_beta)
  then have "(id_address ident, Queued (tc_tickets st1) f) \<in> set (tc_log (with_peer (id_address ident) i ?enq ?st2))"
    unfolding with_peer_fields by simp
  moreover have "fr_message f = m" "fr_message_id f = create_message_id (tc_self st) ident 1"
    by (simp_all add: f_def create_frame_def)
  ultimately show ?thesis unfolding st1_def [symmetric] snd by blast
qed

lemma memory_claim_again:
  assumes "ci_scope x' = ci_scope x" "ci_key x' = ci_key x"
  shows "fst (memory_claim x' (fold (\<lambda>y q. snd (memory_claim y q)) ys (snd (memory_claim x q)))) = Inr Duplicate_claim"
proof -
  have "memory_taken (snd (memory_claim x q)) (ci_scope x) (ci_key x)"
    using mem.claim_takes [of x q] by (auto simp: memory_claim_def Let_def)
  then have "memory_taken (fold (\<lambda>y q. snd (memory_claim y q)) ys (snd (memory_claim x q))) (ci_scope x) (ci_key x)"
    by (induction ys arbitrary: q rule: rev_induct) (auto intro: mem.claim_keeps)
  then show ?thesis using assms by (auto simp: memory_claim_def memory_taken_def Let_def split: option.splits)
qed

text \<open>
  Sequence numbers, and with them message ids, start over with every connection: the first
  message after a reconnect carries the id of the first message of the connection before. A
  receiver with an idempotency provider (whose claims outlive the connection) therefore answers
  \<open>duplicate\<close> for it, whatever was claimed in between: it is acknowledged and never delivered.
\<close>

theorem reconnect_reuses_message_ids:
  fixes st st' :: "'p core"
  assumes "tc_self st' = tc_self st"
    and "cf_queue_limit (tc_config st) \<noteq> 0" "cf_queue_limit (tc_config st') \<noteq> 0"
    and "\<And>f. fst (validate_payload_size size_of f (cf_max_frame_bytes (tc_config st)))"
    and "\<And>f. fst (validate_payload_size size_of f (cf_max_frame_bytes (tc_config st')))"
  shows "\<exists>k f k' f'.
      (id_address ident, Queued k f) \<in> set (tc_log (snd (send size_of (id_address ident) m t
          (register_peer l n ident now st)))) \<and> fr_message f = m
    \<and> (id_address ident, Queued k' f') \<in> set (tc_log (snd (send size_of (id_address ident) m' t'
          (register_peer l' n ident now' st')))) \<and> fr_message f' = m'
    \<and> fr_message_id f' = fr_message_id f
    \<and> (\<forall>q ys. fst (memory_claim (claim_input_for recv sender (claimable f'))
            (fold (\<lambda>y q. snd (memory_claim y q)) ys
              (snd (memory_claim (claim_input_for recv sender (claimable f)) q)))) = Inr Duplicate_claim)"
proof -
  obtain k f where f: "(id_address ident, Queued k f) \<in> set (tc_log (snd (send size_of (id_address ident) m t
          (register_peer l n ident now st))))" "fr_message f = m"
      "fr_message_id f = create_message_id (tc_self st) ident 1"
    using first_frame_of_connection [OF assms(2,4)] by blast
  obtain k' f' where f': "(id_address ident, Queued k' f') \<in> set (tc_log (snd (send size_of (id_address ident) m' t'
          (register_peer l' n ident now' st'))))" "fr_message f' = m'"
      "fr_message_id f' = create_message_id (tc_self st') ident 1"
    using first_frame_of_connection [OF assms(3,5)] by blast
  have id: "fr_message_id f' = fr_message_id f" using f(3) f'(3) assms(1) by simp
  then have "fst (memory_claim (claim_input_for recv sender (claimable f')) (fold (\<lambda>y q. snd (memory_claim y q)) ys
              (snd (memory_claim (claim_input_for recv sender (claimable f)) q)))) = Inr Duplicate_claim" for q ys
    by (intro memory_claim_again) (simp_all add: claim_input_for_def claimable_def Let_def)
  then show ?thesis using f f' id by blast
qed

theorem reconnect_reuses_message_ids_witness:
  "\<exists>k f k' f'.
      (''b'', Queued k f) \<in> set (tc_log (snd (send (\<lambda>_. 0) ''b'' JNull ''t'' (register_peer 0 False (id_of ''b'') 0 start_core))))
    \<and> (''b'', Queued k' f') \<in> set (tc_log (snd (send (\<lambda>_. 0) ''b'' (JBool True) ''t'' (register_peer 1 False (id_of ''b'') 9 linked_core))))
    \<and> fr_message f = JNull \<and> fr_message f' = JBool True \<and> fr_message_id f' = fr_message_id f"
proof -
  have cfg: "tc_self linked_core = tc_self start_core" "tc_config linked_core = two_deep" "tc_config start_core = two_deep"
    by (simp_all add: linked_core_def start_core_def new_core_def inbound_link_fields)
  have b: "id_address (id_of ''b'') = ''b''" by (simp add: id_of_def create_identity_def)
  have lim: "cf_queue_limit two_deep \<noteq> 0" "cf_max_frame_bytes two_deep = None" by (simp_all add: two_deep_def)
  have ok: "fst (validate_payload_size (\<lambda>_. 0) f None)" for f
    by (simp add: validate_payload_size_def normalize_max_frame_bytes_def Let_def)
  obtain k f k' f' where
    "(''b'', Queued k f) \<in> set (tc_log (snd (send (\<lambda>_. 0) ''b'' JNull ''t'' (register_peer 0 False (id_of ''b'') 0 start_core))))"
    "(''b'', Queued k' f') \<in> set (tc_log (snd (send (\<lambda>_. 0) ''b'' (JBool True) ''t'' (register_peer 1 False (id_of ''b'') 9 linked_core))))"
    "fr_message f = JNull" "fr_message f' = JBool True" "fr_message_id f' = fr_message_id f"
    using reconnect_reuses_message_ids [of linked_core start_core "\<lambda>_. 0" "id_of ''b''" JNull "''t''" 0 False 0
        "JBool True" "''t''" 1 9 "node_of (id_of ''b'')" "node_of (id_of ''a'')"] cfg lim ok unfolding b by metis
  then show ?thesis by blast
qed

text \<open>
  A send still pending on a replaced connection takes the new one down: when it fails (closing
  the old link is a reason to), its handler disconnects the address, and the healthy connection
  registered there meanwhile is closed, its link shut and its queue rejected.
\<close>

theorem stale_send_failure_disconnects:
  assumes "current st a = Some j" "i \<noteq> j" "i < length (tc_heap st)" "pe_in_flight (tc_heap st ! i) \<noteq> None"
    and "st1 = core_step provider size_of (E_send_resumed a i False now) st"
  shows "current st1 a = None \<and> pe_link (tc_heap st ! j) \<notin> tc_open st1
    \<and> (\<forall>item \<in> set (pe_queue (tc_heap st ! j)). (a, Settle (qi_ticket item) False) \<in> set (tc_log st1))"
proof -
  define st0 where "st0 = with_peer a i (send_done (tc_config st) (live st a i) (link_open st i) False now) st"
  have st0: "tc_heap st0 ! j = tc_heap st ! j" "current st0 a = Some j"
    using assms(1,2) by (simp_all add: st0_def current_def)
  have st1: "st1 = close_peer a j True st0"
    using assms(3-5) st0(2) by (auto simp: resume_send_def st0_def disconnect_def Let_def)
  have "(a, Settle (qi_ticket item) False) \<in> set (tc_log (close_peer a j True st0))"
    if "item \<in> set (pe_queue (tc_heap st0 ! j))" for item
    using that by (auto simp: close_peer_def Let_def close_peer_state_def reject_item_def intro!: bexI)
  moreover have "pe_link (tc_heap st0 ! j) \<notin> tc_open (close_peer a j True st0)"
    by (cases "j < length (tc_heap st0)")
       (simp_all add: close_peer_def Let_def close_peer_state_def clear_heartbeat_def list_update_beyond)
  ultimately show ?thesis using st0 unfolding st1 by (simp add: close_peer_gone)
qed

definition replaced_core :: "unit core" where
  "replaced_core =
     fold (core_step None (\<lambda>_. 0))
       [E_inbound_link 0 False (Some (id_of ''b'')) 0, E_send ''b'' JNull ''t'',
        E_inbound_link 1 False (Some (id_of ''b'')) 1] start_core"

lemma replaced_core_state: "current replaced_core ''b'' = Some 1" "length (tc_heap replaced_core) = 2"
  "pe_in_flight (tc_heap replaced_core ! 0) \<noteq> None" "pe_link (tc_heap replaced_core ! 1) = 1"
  "is_connected replaced_core ''b''"
  by (simp_all add: replaced_core_def start_core_def new_core_def accept_inbound_link_def can_accept_peer_def
       current_def create_identity_def id_of_def register_peer_def record_peer_connected_def start_heartbeat_def
       new_peer_def two_deep_def Let_def send_def validate_payload_size_def normalize_max_frame_bytes_def
       enqueue_frame_def resolve_backpressure_def flush_queue_def drain_queue_def link_open_def close_peer_def
       close_peer_state_def clear_heartbeat_def is_connected_def)

theorem stale_send_failure_witness:
  "is_connected replaced_core ''b''
   \<and> current (core_step None (\<lambda>_. 0) (E_send_resumed ''b'' 0 False 2) replaced_core) ''b'' = None"
  using stale_send_failure_disconnects [OF replaced_core_state(1), of 0 _ None "\<lambda>_. 0" 2]
    replaced_core_state by simp

end
