(* ===== verification/Transport_Stream.thy ===== *)
theory Transport_Stream
  imports Complex_Main "HOL-Library.Multiset" Actor_Prelude
begin

text \<open>
  Credit-controlled streams over the transport, \<open>runtime-transport-stream.ts\<close>: the writable end
  (pending writes, credit, one chunk send in flight, closing after the last write), the readable
  end (expected sequence, one credit back per consumed chunk), and the host that keeps both and
  dispatches messages. Messages of one stream are handled one after the other (the promise chain
  of \<open>enqueueStreamMessage\<close>), so a handler is one step whose consumer's answer is an argument; the
  writable end resumes separately after each send. Payloads are a type parameter. Not modelled:
  a \<open>stop\<close> that comes while a consumer's promise is pending, stream metadata and the error texts.
\<close>

section \<open>Messages and effects\<close>

datatype 'p stream_message =
    Open_msg string
  | Credit_msg string rat
  | Chunk_msg string int 'p
  | Close_msg string
  | Error_msg string string

fun stream_id_of :: "'p stream_message \<Rightarrow> string" where
  "stream_id_of (Open_msg s) = s"
| "stream_id_of (Credit_msg s c) = s"
| "stream_id_of (Chunk_msg s n p) = s"
| "stream_id_of (Close_msg s) = s"
| "stream_id_of (Error_msg s c) = s"

datatype 'p stream_effect =
    Send_to string "'p stream_message"   \<comment> \<open>\<open>transport.send\<close>\<close>
  | Write_settled nat bool               \<comment> \<open>the promise of a write\<close>
  | Close_settled bool                   \<comment> \<open>the promise of \<open>close()\<close>\<close>
  | Consume string int 'p                \<comment> \<open>\<open>onChunk\<close>\<close>
  | Consumer_closed string
  | Consumer_error string string
  | Host_error string string

definition normalize_positive :: "rat \<Rightarrow> int \<Rightarrow> int" where
  "normalize_positive r fallback = (if 0 < r then \<lfloor>r\<rfloor> else fallback)"

section \<open>The writable end\<close>

record 'p out_stream =
  os_id :: string
  os_destination :: string
  os_pending :: "(nat \<times> 'p) list"
  os_in_flight :: "nat option"
  os_close_waiting :: bool
  os_next :: int
  os_credit :: int
  os_flushing :: bool
  os_closed :: bool
  os_close_requested :: bool

type_synonym 'p out_result = "'p stream_effect list \<times> 'p out_stream"

definition new_out :: "string \<Rightarrow> string \<Rightarrow> 'p out_stream" where
  "new_out sid dest =
     \<lparr>os_id = sid, os_destination = dest, os_pending = [], os_in_flight = None, os_close_waiting = False,
      os_next = 1, os_credit = 0, os_flushing = False, os_closed = False, os_close_requested = False\<rparr>"

definition finish_close :: "'p out_stream \<Rightarrow> 'p out_result" where
  "finish_close s =
     (if os_closed s \<or> \<not> os_close_requested s \<or> os_flushing s \<or> os_pending s \<noteq> [] then ([], s)
      else ([Send_to (os_destination s) (Close_msg (os_id s))], s\<lparr>os_closed := True\<rparr>))"

text \<open>From the loop head to the next send, or out of the loop and through its \<open>finally\<close>.\<close>

definition drain_out :: "'p out_stream \<Rightarrow> 'p out_result" where
  "drain_out s =
     (case os_pending s of
        (t, p) # rest \<Rightarrow>
          if \<not> os_closed s \<and> 0 < os_credit s
          then ([Send_to (os_destination s) (Chunk_msg (os_id s) (os_next s) p)],
                s\<lparr>os_pending := rest, os_in_flight := Some t, os_next := os_next s + 1, os_credit := os_credit s - 1\<rparr>)
          else finish_close (s\<lparr>os_flushing := False\<rparr>)
      | [] \<Rightarrow> finish_close (s\<lparr>os_flushing := False\<rparr>))"

definition flush_out :: "'p out_stream \<Rightarrow> 'p out_result" where
  "flush_out s = (if os_flushing s then ([], s) else drain_out (s\<lparr>os_flushing := True\<rparr>))"

definition fail_out :: "'p out_stream \<Rightarrow> 'p out_result" where
  "fail_out s =
     (map (\<lambda>(t, p). Write_settled t False) (os_pending s) @ (if os_close_waiting s then [Close_settled False] else []),
      s\<lparr>os_closed := True, os_pending := [], os_close_waiting := False\<rparr>)"

text \<open>\<open>write\<close>: \<open>None\<close> when the stream is closed (the promise is rejected at once).\<close>

definition write_out :: "nat \<Rightarrow> 'p \<Rightarrow> 'p out_stream \<Rightarrow> 'p out_result option" where
  "write_out t p s =
     (if os_closed s \<or> os_close_requested s then None
      else Some (flush_out (s\<lparr>os_pending := os_pending s @ [(t, p)]\<rparr>)))"

definition sent_out :: "bool \<Rightarrow> 'p out_stream \<Rightarrow> 'p out_result" where
  "sent_out ok s =
     (case os_in_flight s of
        None \<Rightarrow> ([], s)
      | Some t \<Rightarrow>
          (let s1 = s\<lparr>os_in_flight := None\<rparr>
           in if ok then (let (outs, s2) = drain_out s1 in (Write_settled t True # outs, s2))
              else (let (outs, s2) = fail_out s1 in (Write_settled t False # outs, s2\<lparr>os_flushing := False\<rparr>))))"

definition close_out :: "'p out_stream \<Rightarrow> 'p out_result" where
  "close_out s =
     (if os_closed s \<or> os_close_waiting s then ([], s)
      else finish_close (s\<lparr>os_close_requested := True, os_close_waiting := True\<rparr>))"

definition close_sent_out :: "bool \<Rightarrow> 'p out_stream \<Rightarrow> 'p out_result" where
  "close_sent_out ok s =
     (if os_closed s \<and> os_close_waiting s then ([Close_settled ok], s\<lparr>os_close_waiting := False\<rparr>) else ([], s))"

definition error_out :: "string \<Rightarrow> 'p out_stream \<Rightarrow> 'p out_result" where
  "error_out code s =
     (if os_closed s then ([], s)
      else (let (outs, s1) = fail_out s in (outs @ [Send_to (os_destination s) (Error_msg (os_id s) code)], s1)))"

definition credit_out :: "rat \<Rightarrow> 'p out_stream \<Rightarrow> 'p out_result" where
  "credit_out c s =
     (if os_closed s then ([], s) else flush_out (s\<lparr>os_credit := os_credit s + normalize_positive c 0\<rparr>))"

section \<open>The readable end\<close>

record in_stream =
  is_source :: string
  is_expected :: int

text \<open>\<open>None\<close> as new state: the stream is failed and removed.\<close>

definition chunk_in :: "bool \<Rightarrow> string \<Rightarrow> string \<Rightarrow> int \<Rightarrow> 'p \<Rightarrow> in_stream \<Rightarrow> 'p stream_effect list \<times> in_stream option" where
  "chunk_in ok source sid n p s =
     (if is_source s \<noteq> source then ([Host_error ''stream_source_mismatch'' sid], Some s)
      else if n \<noteq> is_expected s
      then ([Consumer_error sid ''sequence_mismatch'', Send_to source (Error_msg sid ''sequence_mismatch'')], None)
      else if \<not> ok
      then ([Consume sid n p, Consumer_error sid ''consumer_failed'', Send_to source (Error_msg sid ''consumer_failed'')], None)
      else ([Consume sid n p, Send_to source (Credit_msg sid 1)], Some (s\<lparr>is_expected := is_expected s + 1\<rparr>)))"

section \<open>The host\<close>

text \<open>Outgoing states are objects (a resuming send holds one), so they live in a heap.\<close>

record 'p host =
  ho_heap :: "'p out_stream list"
  ho_outgoing :: "(string, nat) omap"
  ho_incoming :: "(string, in_stream) omap"
  ho_initial_credit :: int
  ho_stopped :: bool

definition new_host :: "rat \<Rightarrow> 'p host" where
  "new_host initial = \<lparr>ho_heap = [], ho_outgoing = [], ho_incoming = [],
     ho_initial_credit = normalize_positive initial 1, ho_stopped = False\<rparr>"

type_synonym 'p host_result = "'p stream_effect list \<times> 'p host"

text \<open>Run an operation of the object \<open>i\<close>; an object that closes is removed from the map.\<close>

definition on_out :: "nat \<Rightarrow> ('p out_stream \<Rightarrow> 'p out_result) \<Rightarrow> 'p host \<Rightarrow> 'p host_result" where
  "on_out i f h =
     (let s = ho_heap h ! i; (outs, s1) = f s
      in (outs, h\<lparr>ho_heap := (ho_heap h)[i := s1],
                  ho_outgoing := (if \<not> os_closed s \<and> os_closed s1 then omap_delete (os_id s) (ho_outgoing h)
                                  else ho_outgoing h)\<rparr>))"

definition open_stream :: "string \<Rightarrow> string \<Rightarrow> 'p host \<Rightarrow> 'p host_result option" where
  "open_stream sid dest h =
     (if ho_stopped h \<or> omap_get (ho_outgoing h) sid \<noteq> None \<or> omap_get (ho_incoming h) sid \<noteq> None then None
      else Some ([Send_to dest (Open_msg sid)],
                 h\<lparr>ho_heap := ho_heap h @ [new_out sid dest], ho_outgoing := omap_set sid (length (ho_heap h)) (ho_outgoing h)\<rparr>))"

definition open_failed :: "string \<Rightarrow> 'p host \<Rightarrow> 'p host" where
  "open_failed sid h = h\<lparr>ho_outgoing := omap_delete sid (ho_outgoing h)\<rparr>"

definition host_write :: "string \<Rightarrow> nat \<Rightarrow> 'p \<Rightarrow> 'p host \<Rightarrow> 'p host_result option" where
  "host_write sid t p h =
     (if ho_stopped h then None
      else (case omap_get (ho_outgoing h) sid of
              None \<Rightarrow> None
            | Some i \<Rightarrow>
                if write_out t p (ho_heap h ! i) = None then None
                else Some (on_out i (\<lambda>s. the (write_out t p s)) h)))"

text \<open>The drain of object \<open>i\<close> resumes; a failure deletes the id whatever it now stands for.\<close>

definition host_sent :: "nat \<Rightarrow> bool \<Rightarrow> 'p host \<Rightarrow> 'p host_result" where
  "host_sent i ok h =
     (if length (ho_heap h) \<le> i \<or> os_in_flight (ho_heap h ! i) = None then ([], h)
      else (let (outs, h1) = on_out i (sent_out ok) h
            in (outs, if ok then h1
                      else h1\<lparr>ho_outgoing := omap_delete (os_id (ho_heap h ! i)) (ho_outgoing h1)\<rparr>)))"

definition host_close :: "string \<Rightarrow> 'p host \<Rightarrow> 'p host_result" where
  "host_close sid h =
     (case omap_get (ho_outgoing h) sid of None \<Rightarrow> ([], h) | Some i \<Rightarrow> on_out i close_out h)"

definition host_error :: "string \<Rightarrow> string \<Rightarrow> 'p host \<Rightarrow> 'p host_result" where
  "host_error sid code h =
     (case omap_get (ho_outgoing h) sid of None \<Rightarrow> ([], h) | Some i \<Rightarrow> on_out i (error_out code) h)"

definition handle_open :: "bool \<Rightarrow> string \<Rightarrow> string \<Rightarrow> 'p host \<Rightarrow> 'p host_result" where
  "handle_open has_consumer source sid h =
     (if omap_get (ho_incoming h) sid \<noteq> None \<or> omap_get (ho_outgoing h) sid \<noteq> None
      then ([Send_to source (Error_msg sid ''duplicate_stream'')], h)
      else if \<not> has_consumer then ([Send_to source (Error_msg sid ''stream_not_handled'')], h)
      else ([Send_to source (Credit_msg sid (of_int (ho_initial_credit h)))],
            h\<lparr>ho_incoming := omap_set sid \<lparr>is_source = source, is_expected = 1\<rparr> (ho_incoming h)\<rparr>))"

definition handle_credit :: "string \<Rightarrow> string \<Rightarrow> rat \<Rightarrow> 'p host \<Rightarrow> 'p host_result" where
  "handle_credit source sid c h =
     (case omap_get (ho_outgoing h) sid of
        None \<Rightarrow> ([], h)
      | Some i \<Rightarrow>
          if os_closed (ho_heap h ! i) then ([], h)
          else if os_destination (ho_heap h ! i) \<noteq> source then ([Host_error ''stream_source_mismatch'' sid], h)
          else on_out i (credit_out c) h)"

definition handle_chunk :: "bool \<Rightarrow> string \<Rightarrow> string \<Rightarrow> int \<Rightarrow> 'p \<Rightarrow> 'p host \<Rightarrow> 'p host_result" where
  "handle_chunk ok source sid n p h =
     (case omap_get (ho_incoming h) sid of
        None \<Rightarrow> ([Send_to source (Error_msg sid ''unknown_stream'')], h)
      | Some s \<Rightarrow>
          (let (outs, r) = chunk_in ok source sid n p s
           in (outs, h\<lparr>ho_incoming := (case r of None \<Rightarrow> omap_delete sid (ho_incoming h)
                                      | Some s1 \<Rightarrow> omap_set sid s1 (ho_incoming h))\<rparr>)))"

definition handle_close :: "string \<Rightarrow> string \<Rightarrow> 'p host \<Rightarrow> 'p host_result" where
  "handle_close source sid h =
     (case omap_get (ho_incoming h) sid of
        None \<Rightarrow> ([], h)
      | Some s \<Rightarrow>
          if is_source s \<noteq> source then ([Host_error ''stream_source_mismatch'' sid], h)
          else ([Consumer_closed sid], h\<lparr>ho_incoming := omap_delete sid (ho_incoming h)\<rparr>))"

definition handle_error :: "string \<Rightarrow> string \<Rightarrow> string \<Rightarrow> 'p host \<Rightarrow> 'p host_result" where
  "handle_error source sid code h =
     (let (o1, h1) = (case omap_get (ho_outgoing h) sid of
                        None \<Rightarrow> ([], h)
                      | Some i \<Rightarrow> if os_destination (ho_heap h ! i) = source then on_out i fail_out h
                                  else ([Host_error ''stream_source_mismatch'' sid], h));
          (o2, h2) = (case omap_get (ho_incoming h1) sid of
                        None \<Rightarrow> ([], h1)
                      | Some s \<Rightarrow> if is_source s = source
                                  then ([Consumer_error sid code], h1\<lparr>ho_incoming := omap_delete sid (ho_incoming h1)\<rparr>)
                                  else ([Host_error ''stream_source_mismatch'' sid], h1))
      in (o1 @ o2, h2))"

text \<open>One message; \<open>answer\<close> is whether a handler takes the stream, or whether \<open>onChunk\<close> returns.\<close>

fun handle_stream_message :: "bool \<Rightarrow> string \<Rightarrow> 'p stream_message \<Rightarrow> 'p host \<Rightarrow> 'p host_result" where
  "handle_stream_message answer source (Open_msg sid) h = handle_open answer source sid h"
| "handle_stream_message answer source (Credit_msg sid c) h = handle_credit source sid c h"
| "handle_stream_message answer source (Chunk_msg sid n p) h = handle_chunk answer source sid n p h"
| "handle_stream_message answer source (Close_msg sid) h = handle_close source sid h"
| "handle_stream_message answer source (Error_msg sid c) h = handle_error source sid c h"

text \<open>The queued handler of a message does nothing once the host is stopped.\<close>

definition enqueue_stream_message :: "bool \<Rightarrow> string \<Rightarrow> 'p stream_message \<Rightarrow> 'p host \<Rightarrow> 'p host_result" where
  "enqueue_stream_message answer source m h =
     (if ho_stopped h then ([], h) else handle_stream_message answer source m h)"

fun fail_all_out :: "(string \<times> nat) list \<Rightarrow> 'p host \<Rightarrow> 'p host_result" where
  "fail_all_out [] h = ([], h)"
| "fail_all_out ((sid, i) # rest) h =
     (let (o1, h1) = on_out i fail_out h; (o2, h2) = fail_all_out rest h1 in (o1 @ o2, h2))"

definition stop_host :: "'p host \<Rightarrow> 'p host_result" where
  "stop_host h =
     (if ho_stopped h then ([], h)
      else (let (outs, h1) = fail_all_out (ho_outgoing h) (h\<lparr>ho_stopped := True\<rparr>)
            in (outs @ map (\<lambda>(sid, s). Consumer_error sid ''stream_host_stopped'') (ho_incoming h),
                h1\<lparr>ho_outgoing := [], ho_incoming := []\<rparr>)))"

section \<open>The writable end in any environment\<close>

datatype 'p out_event =
    O_write nat 'p
  | O_credit rat
  | O_sent bool
  | O_close
  | O_close_sent bool
  | O_error string
  | O_fail

fun out_step :: "'p out_event \<Rightarrow> 'p out_stream \<Rightarrow> 'p out_result" where
  "out_step (O_write t p) s = (case write_out t p s of None \<Rightarrow> ([], s) | Some r \<Rightarrow> r)"
| "out_step (O_credit c) s = credit_out c s"
| "out_step (O_sent ok) s = sent_out ok s"
| "out_step O_close s = close_out s"
| "out_step (O_close_sent ok) s = close_sent_out ok s"
| "out_step (O_error code) s = error_out code s"
| "out_step O_fail s = fail_out s"

fun accepted_by :: "'p out_event \<Rightarrow> 'p out_stream \<Rightarrow> (nat \<times> 'p) list" where
  "accepted_by (O_write t p) s = (if write_out t p s = None then [] else [(t, p)])"
| "accepted_by _ s = []"

fun granted_by :: "'p out_event \<Rightarrow> int" where
  "granted_by (O_credit c) = normalize_positive c 0"
| "granted_by _ = 0"

text \<open>What a run did: the effects, the accepted writes, the credit granted, the final state.\<close>

fun out_run :: "'p out_event list \<Rightarrow> 'p out_stream \<Rightarrow> 'p stream_effect list \<times> (nat \<times> 'p) list \<times> int \<times> 'p out_stream" where
  "out_run [] s = ([], [], 0, s)"
| "out_run (e # es) s =
     (let (outs, s1) = out_step e s; (outs2, acc, g, s2) = out_run es s1
      in (outs @ outs2, accepted_by e s @ acc, granted_by e + g, s2))"

fun chunk_of :: "'p stream_effect \<Rightarrow> (int \<times> 'p) list" where
  "chunk_of (Send_to d (Chunk_msg sid n p)) = [(n, p)]"
| "chunk_of _ = []"

fun settled_write :: "'p stream_effect \<Rightarrow> nat list" where
  "settled_write (Write_settled t ok) = [t]"
| "settled_write _ = []"

fun close_of :: "'p stream_effect \<Rightarrow> nat" where
  "close_of (Send_to d (Close_msg sid)) = 1"
| "close_of _ = 0"

definition chunks :: "'p stream_effect list \<Rightarrow> (int \<times> 'p) list" where "chunks outs = concat (map chunk_of outs)"
definition settled_writes :: "'p stream_effect list \<Rightarrow> nat list" where "settled_writes outs = concat (map settled_write outs)"
definition closes :: "'p stream_effect list \<Rightarrow> nat" where "closes outs = sum_list (map close_of outs)"

lemma projections [simp]:
  "chunks (a @ b) = chunks a @ chunks b" "chunks (e # b) = chunk_of e @ chunks b" "chunks [] = []"
  "settled_writes (a @ b) = settled_writes a @ settled_writes b"
  "settled_writes (e # b) = settled_write e @ settled_writes b" "settled_writes [] = []"
  "closes (a @ b) = closes a + closes b" "closes (e # b) = close_of e + closes b" "closes [] = 0"
  by (simp_all add: chunks_def settled_writes_def closes_def)

lemma fail_projections [simp]:
  "chunks (map (\<lambda>(t, p). Write_settled t False) xs) = []"
  "settled_writes (map (\<lambda>(t, p). Write_settled t False) xs) = map fst xs"
  "closes (map (\<lambda>(t, p). Write_settled t False) xs) = 0"
  by (induction xs) auto

definition seq_upto :: "nat \<Rightarrow> int list" where
  "seq_upto n = map (\<lambda>i. int (Suc i)) [0..<n]"

lemma seq_upto_Suc: "seq_upto (Suc n) = seq_upto n @ [int n + 1]"
  by (simp add: seq_upto_def)

text \<open>
  The state of the writable end against its history: chunks sent \<open>C\<close>, promises settled \<open>T\<close>, writes
  accepted \<open>A\<close>, credit granted \<open>G\<close>, close messages sent \<open>K\<close>.
\<close>

definition history :: "'p out_stream \<Rightarrow> (int \<times> 'p) list \<Rightarrow> nat multiset \<Rightarrow> (nat \<times> 'p) list \<Rightarrow> int \<Rightarrow> nat \<Rightarrow> bool" where
  "history s C T A G K \<longleftrightarrow>
     map fst C = seq_upto (length C) \<and> os_next s = int (length C) + 1
   \<and> os_credit s \<le> G - int (length C) \<and> 0 \<le> os_credit s
   \<and> length C \<le> length A \<and> map snd C = map snd (take (length C) A)
   \<and> os_pending s = (if os_closed s then [] else drop (length C) A)
   \<and> T + mset (case os_in_flight s of None \<Rightarrow> [] | Some t \<Rightarrow> [t]) + mset (map fst (os_pending s)) = mset (map fst A)
   \<and> (if K = 0 then True else K = 1 \<and> os_closed s \<and> os_close_requested s \<and> length C = length A \<and> os_in_flight s = None)"

definition tracks :: "'p out_stream \<Rightarrow> (int \<times> 'p) list \<Rightarrow> nat multiset \<Rightarrow> (nat \<times> 'p) list \<Rightarrow> int \<Rightarrow> nat \<Rightarrow> bool" where
  "tracks s C T A G K \<longleftrightarrow> history s C T A G K \<and> (os_flushing s \<longleftrightarrow> os_in_flight s \<noteq> None)"

lemma history_flags [simp]:
  "history (s\<lparr>os_flushing := b\<rparr>) C T A G K = history s C T A G K"
  "history (s\<lparr>os_close_waiting := b\<rparr>) C T A G K = history s C T A G K"
  by (simp_all add: history_def)

lemma history_granted: "history s C T A G K \<Longrightarrow> 0 \<le> g \<Longrightarrow> history s C T A (G + g) K"
  by (auto simp: history_def)

lemma history_credit: "history s C T A G K \<Longrightarrow> 0 \<le> g \<Longrightarrow> history (s\<lparr>os_credit := os_credit s + g\<rparr>) C T A (G + g) K"
  by (auto simp: history_def)

lemma history_failed:
  "history s C T A G K \<Longrightarrow>
   history (s\<lparr>os_closed := True, os_pending := [], os_close_waiting := b\<rparr>) C (T + mset (map fst (os_pending s))) A G K"
  by (auto simp: history_def ac_simps)

lemma history_open: "history s C T A G K \<Longrightarrow> \<not> os_closed s \<Longrightarrow> K = 0"
  by (auto simp: history_def split: if_splits)

lemma finish_close_history:
  assumes "history s C T A G K" "os_in_flight s = None" "\<not> os_flushing s"
  shows "tracks (snd (finish_close s)) (C @ chunks (fst (finish_close s))) (T + mset (settled_writes (fst (finish_close s))))
     A G (K + closes (fst (finish_close s)))"
proof (cases "os_closed s \<or> \<not> os_close_requested s \<or> os_flushing s \<or> os_pending s \<noteq> []")
  case True
  then show ?thesis using assms by (simp add: finish_close_def tracks_def)
next
  case False
  have "K = 0" using history_open [OF assms(1)] False by simp
  moreover have "length C = length A" using assms(1) False by (auto simp: history_def)
  ultimately show ?thesis using assms False
    by (auto simp: finish_close_def tracks_def history_def)
qed

lemma drain_history:
  assumes "history s C T A G K" "os_in_flight s = None" and fl: "os_flushing s"
  shows "tracks (snd (drain_out s)) (C @ chunks (fst (drain_out s))) (T + mset (settled_writes (fst (drain_out s))))
     A G (K + closes (fst (drain_out s)))"
proof -
  have stop: "tracks (snd (finish_close (s\<lparr>os_flushing := False\<rparr>))) (C @ chunks (fst (finish_close (s\<lparr>os_flushing := False\<rparr>))))
     (T + mset (settled_writes (fst (finish_close (s\<lparr>os_flushing := False\<rparr>))))) A G (K + closes (fst (finish_close (s\<lparr>os_flushing := False\<rparr>))))"
    by (rule finish_close_history) (use assms in simp_all)
  show ?thesis
  proof (cases "os_pending s")
    case Nil
    then show ?thesis using stop by (simp add: drain_out_def)
  next
    case (Cons x rest)
    obtain t p where x: "x = (t, p)" by (cases x)
    show ?thesis
    proof (cases "\<not> os_closed s \<and> 0 < os_credit s")
      case False
      then have "drain_out s = finish_close (s\<lparr>os_flushing := False\<rparr>)" using Cons x by (auto simp: drain_out_def)
      then show ?thesis using stop by simp
    next
      case True
      have K: "K = 0" using history_open [OF assms(1)] True by simp
      have h: "map fst C = seq_upto (length C)" "os_next s = int (length C) + 1" "length C \<le> length A"
        "map snd C = map snd (take (length C) A)" "os_pending s = drop (length C) A"
        "os_credit s \<le> G - int (length C)" "T + mset (map fst (os_pending s)) = mset (map fst A)"
        using assms True by (auto simp: history_def)
      have dr: "drop (length C) A = (t, p) # rest" using h(5) Cons x by simp
      have lt: "length C < length A" using dr by (metis drop_all list.distinct(1) not_le)
      have nth: "A ! length C = (t, p)" "drop (Suc (length C)) A = rest"
        using dr lt by (metis Cons_nth_drop_Suc list.inject)+
      have "map snd (C @ [(n, p)]) = map snd (take (length (C @ [(n, p)])) A)" for n
        using h(4) lt nth by (simp add: take_Suc_conv_app_nth)
      moreover have "drain_out s = ([Send_to (os_destination s) (Chunk_msg (os_id s) (os_next s) p)],
          s\<lparr>os_pending := rest, os_in_flight := Some t, os_next := os_next s + 1, os_credit := os_credit s - 1\<rparr>)"
        using True Cons x by (simp add: drain_out_def)
      moreover have "T + mset [t] + mset (map fst rest) = mset (map fst A)" using h(7) unfolding Cons x by simp
      ultimately show ?thesis using True K h(1,2,6) lt nth(2) fl
        by (simp add: tracks_def history_def seq_upto_Suc)
    qed
  qed
qed

lemma flush_extends:
  assumes "history s C T A G K" "os_flushing s \<longleftrightarrow> os_in_flight s \<noteq> None"
  shows "tracks (snd (flush_out s)) (C @ chunks (fst (flush_out s))) (T + mset (settled_writes (fst (flush_out s))))
     A G (K + closes (fst (flush_out s)))"
proof (cases "os_flushing s")
  case True
  then show ?thesis using assms by (simp add: flush_out_def tracks_def)
next
  case False
  have "history (s\<lparr>os_flushing := True\<rparr>) C T A G K" using assms(1) by simp
  then show ?thesis using drain_history [of "s\<lparr>os_flushing := True\<rparr>" C T A G K] False assms(2) by (simp add: flush_out_def)
qed

lemma fail_extends:
  assumes "tracks s C T A G K"
  shows "tracks (snd (fail_out s)) (C @ chunks (fst (fail_out s))) (T + mset (settled_writes (fst (fail_out s))))
     A G (K + closes (fst (fail_out s)))"
proof -
  have "chunks (fst (fail_out s)) = []" "closes (fst (fail_out s)) = 0" "settled_writes (fst (fail_out s)) = map fst (os_pending s)"
    by (simp_all add: fail_out_def)
  then show ?thesis using assms history_failed [of s C T A G K False] by (simp add: tracks_def fail_out_def)
qed

lemma write_extends:
  assumes "tracks s C T A G K" "write_out t p s = Some r"
  shows "tracks (snd r) (C @ chunks (fst r)) (T + mset (settled_writes (fst r))) (A @ [(t, p)]) G (K + closes (fst r))"
proof -
  have o: "\<not> os_closed s" and r: "r = flush_out (s\<lparr>os_pending := os_pending s @ [(t, p)]\<rparr>)"
    using assms(2) by (auto simp: write_out_def split: if_splits)
  have K: "K = 0" using assms(1) o history_open by (auto simp: tracks_def)
  have "history (s\<lparr>os_pending := os_pending s @ [(t, p)]\<rparr>) C T (A @ [(t, p)]) G K"
    using assms(1) o K by (auto simp: tracks_def history_def)
  then show ?thesis unfolding r by (rule flush_extends) (use assms(1) in \<open>simp add: tracks_def\<close>)
qed

lemma sent_extends:
  assumes "tracks s C T A G K"
  shows "tracks (snd (sent_out ok s)) (C @ chunks (fst (sent_out ok s))) (T + mset (settled_writes (fst (sent_out ok s))))
     A G (K + closes (fst (sent_out ok s)))"
proof (cases "os_in_flight s")
  case None
  then show ?thesis using assms by (simp add: sent_out_def)
next
  case (Some t)
  have K: "K = 0" using assms Some by (auto simp: tracks_def history_def split: if_splits)
  have f: "os_flushing s" using assms Some by (simp add: tracks_def)
  have h: "history (s\<lparr>os_in_flight := None\<rparr>) C (T + {#t#}) A G K"
    using assms Some K by (auto simp: tracks_def history_def)
  show ?thesis
  proof (cases ok)
    case True
    then show ?thesis using drain_history [OF h] Some f by (simp add: sent_out_def Let_def split_beta)
  next
    case False
    then show ?thesis using history_failed [OF h, of False] Some
      by (simp add: sent_out_def Let_def split_beta fail_out_def tracks_def ac_simps)
  qed
qed

lemma out_step_extends:
  assumes "tracks s C T A G K"
  shows "tracks (snd (out_step e s)) (C @ chunks (fst (out_step e s))) (T + mset (settled_writes (fst (out_step e s))))
     (A @ accepted_by e s) (G + granted_by e) (K + closes (fst (out_step e s)))"
proof (cases e)
  case (O_write t p)
  then show ?thesis using assms write_extends [OF assms, of t p] by (cases "write_out t p s") auto
next
  case (O_credit c)
  have c: "0 \<le> normalize_positive c 0" by (simp add: normalize_positive_def)
  show ?thesis
  proof (cases "os_closed s")
    case True
    then show ?thesis using O_credit assms history_granted [of s C T A G K, OF _ c] by (simp add: credit_out_def tracks_def)
  next
    case False
    have "history (s\<lparr>os_credit := os_credit s + normalize_positive c 0\<rparr>) C T A (G + normalize_positive c 0) K"
      using assms history_credit [of s C T A G K, OF _ c] by (simp add: tracks_def)
    from flush_extends [OF this] show ?thesis using O_credit False assms by (simp add: credit_out_def tracks_def)
  qed
next
  case (O_sent ok)
  then show ?thesis using sent_extends [OF assms] by simp
next
  case O_close
  have "history (s\<lparr>os_close_requested := True, os_close_waiting := True\<rparr>) C T A G K"
    using assms by (auto simp: tracks_def history_def split: if_splits)
  then show ?thesis
    using O_close assms finish_close_history [of "s\<lparr>os_close_requested := True, os_close_waiting := True\<rparr>" C T A G K]
    by (cases "os_flushing s") (auto simp: close_out_def tracks_def finish_close_def)
next
  case (O_close_sent ok)
  then show ?thesis using assms by (auto simp: close_sent_out_def tracks_def history_def)
next
  case (O_error code)
  then show ?thesis using assms fail_extends [OF assms] by (auto simp: error_out_def Let_def split_beta)
next
  case O_fail
  then show ?thesis using fail_extends [OF assms] by simp
qed

lemma out_run_tracks:
  assumes "tracks s C T A G K" "out_run es s = (outs, acc, g, s1)"
  shows "tracks s1 (C @ chunks outs) (T + mset (settled_writes outs)) (A @ acc) (G + g) (K + closes outs)"
  using assms
proof (induction es arbitrary: s C T A G K outs acc g)
  case (Cons e es)
  obtain o1 s2 where s: "out_step e s = (o1, s2)" by fastforce
  obtain o2 acc2 g2 where r: "out_run es s2 = (o2, acc2, g2, s1)"
    and eq: "outs = o1 @ o2" "acc = accepted_by e s @ acc2" "g = granted_by e + g2"
    using Cons.prems(2) s by (auto simp: Let_def split: prod.splits)
  from Cons.IH [OF out_step_extends [OF Cons.prems(1), of e, unfolded s fst_conv snd_conv] r]
  show ?case by (simp add: eq add.assoc)
qed simp

lemma new_out_tracks: "tracks (new_out sid dest) [] {#} [] 0 0"
  by (simp add: tracks_def history_def new_out_def seq_upto_def)

section \<open>Two hosts and the network between them\<close>

text \<open>
  The stream \<open>sid\<close> from host \<open>a\<close> to host \<open>b\<close> over a transport that delivers each message once and
  in order in each direction, at any later time. The writer writes and closes when it likes.
\<close>

record 'p net =
  nt_a :: "'p host"
  nt_b :: "'p host"
  nt_down :: "'p stream_message list"
  nt_up :: "'p stream_message list"
  nt_log :: "'p stream_effect list"

fun sent_message :: "'p stream_effect \<Rightarrow> 'p stream_message list" where
  "sent_message (Send_to d m) = [m]"
| "sent_message _ = []"

fun local_effect :: "'p stream_effect \<Rightarrow> 'p stream_effect list" where
  "local_effect (Send_to d m) = []"
| "local_effect e = [e]"

definition sends :: "'p stream_effect list \<Rightarrow> 'p stream_message list" where "sends outs = concat (map sent_message outs)"
definition locals :: "'p stream_effect list \<Rightarrow> 'p stream_effect list" where "locals outs = concat (map local_effect outs)"

definition at_a :: "'p host_result \<Rightarrow> 'p net \<Rightarrow> 'p net" where
  "at_a r n = n\<lparr>nt_a := snd r, nt_down := nt_down n @ sends (fst r), nt_log := nt_log n @ locals (fst r)\<rparr>"

definition at_b :: "'p host_result \<Rightarrow> 'p net \<Rightarrow> 'p net" where
  "at_b r n = n\<lparr>nt_b := snd r, nt_up := nt_up n @ sends (fst r), nt_log := nt_log n @ locals (fst r)\<rparr>"

datatype 'p net_event = N_write nat 'p | N_sent | N_close | N_close_sent | N_down | N_up

fun net_step :: "string \<Rightarrow> 'p net_event \<Rightarrow> 'p net \<Rightarrow> 'p net" where
  "net_step sid (N_write t p) n = (case host_write sid t p (nt_a n) of None \<Rightarrow> n | Some r \<Rightarrow> at_a r n)"
| "net_step sid N_sent n = at_a (host_sent 0 True (nt_a n)) n"
| "net_step sid N_close n = at_a (host_close sid (nt_a n)) n"
| "net_step sid N_close_sent n = at_a (on_out 0 (close_sent_out True) (nt_a n)) n"
| "net_step sid N_down n = (case nt_down n of [] \<Rightarrow> n
     | m # ms \<Rightarrow> at_b (enqueue_stream_message True ''a'' m (nt_b n)) (n\<lparr>nt_down := ms\<rparr>))"
| "net_step sid N_up n = (case nt_up n of [] \<Rightarrow> n
     | m # ms \<Rightarrow> at_a (enqueue_stream_message True ''b'' m (nt_a n)) (n\<lparr>nt_up := ms\<rparr>))"

definition opened_net :: "string \<Rightarrow> rat \<Rightarrow> rat \<Rightarrow> 'p net" where
  "opened_net sid ra rb =
     (let (outs, a) = the (open_stream sid ''b'' (new_host ra))
      in \<lparr>nt_a = a, nt_b = new_host rb, nt_down = sends outs, nt_up = [], nt_log = []\<rparr>)"

fun consumed_of :: "'p stream_effect \<Rightarrow> 'p list" where
  "consumed_of (Consume sid n p) = [p]"
| "consumed_of _ = []"

definition consumed :: "'p stream_effect list \<Rightarrow> 'p list" where "consumed outs = concat (map consumed_of outs)"

fun fault :: "'p stream_effect \<Rightarrow> bool" where
  "fault (Consumer_error sid c) = True"
| "fault (Host_error c sid) = True"
| "fault _ = False"

text \<open>What a sender operation sends are its chunks, paid with credit, then its close.\<close>

definition plain :: "int \<Rightarrow> 'p out_stream \<Rightarrow> 'p out_result \<Rightarrow> bool" where
  "plain g s r \<longleftrightarrow>
     sends (fst r) = map (\<lambda>(n, p). Chunk_msg (os_id s) n p) (chunks (fst r)) @ replicate (closes (fst r)) (Close_msg (os_id s))
   \<and> consumed (fst r) = [] \<and> filter fault (fst r) = [] \<and> (\<forall>i. Consumer_closed i \<notin> set (fst r))
   \<and> os_id (snd r) = os_id s \<and> os_destination (snd r) = os_destination s
   \<and> os_credit (snd r) + int (length (chunks (fst r))) = os_credit s + g
   \<and> (os_closed s \<longrightarrow> chunks (fst r) = [])
   \<and> os_closed (snd r) = (os_closed s \<or> 0 < closes (fst r))"

text \<open>An idle sender has nothing left that it could do.\<close>

definition eager :: "'p out_stream \<Rightarrow> bool" where
  "eager s \<longleftrightarrow> os_closed s \<or> os_flushing s
     \<or> ((os_pending s = [] \<or> os_credit s \<le> 0) \<and> (os_close_requested s \<longrightarrow> os_pending s \<noteq> []))"

lemma net_projections [simp]:
  "sends (a @ b) = sends a @ sends b" "sends (e # b) = sent_message e @ sends b" "sends [] = []"
  "locals (a @ b) = locals a @ locals b" "locals (e # b) = local_effect e @ locals b" "locals [] = []"
  "consumed (a @ b) = consumed a @ consumed b" "consumed (e # b) = consumed_of e @ consumed b" "consumed [] = []"
  by (simp_all add: sends_def locals_def consumed_def)

lemma consumed_locals [simp]: "consumed (locals outs) = consumed outs"
proof (induction outs)
  case (Cons e outs)
  then show ?case by (cases e) auto
qed simp

lemma locals_fault [simp]: "filter fault (locals outs) = filter fault outs"
proof (induction outs)
  case (Cons e outs)
  then show ?case by (cases e) auto
qed simp

lemma locals_settled [simp]: "settled_writes (locals outs) = settled_writes outs"
proof (induction outs)
  case (Cons e outs)
  then show ?case by (cases e) auto
qed simp

lemma locals_consumer_closed [simp]: "Consumer_closed i \<in> set (locals outs) \<longleftrightarrow> Consumer_closed i \<in> set outs"
proof (induction outs)
  case (Cons e outs)
  then show ?case by (cases e) auto
qed simp

lemma finish_close_plain: "plain 0 s (finish_close s)"
  by (simp add: plain_def finish_close_def)

lemma plain_flags:
  "plain g (s\<lparr>os_flushing := b\<rparr>) r = plain g s r" "plain g (s\<lparr>os_pending := x\<rparr>) r = plain g s r"
  "plain g (s\<lparr>os_in_flight := f\<rparr>) r = plain g s r"
  "plain g (s\<lparr>os_credit := os_credit s + c\<rparr>) r = plain (c + g) s r"
  "plain g (s\<lparr>os_close_requested := b, os_close_waiting := b'\<rparr>) r = plain g s r"
  by (simp_all add: plain_def add.assoc)

lemma drain_plain: "plain 0 s (drain_out s)"
  using finish_close_plain [of "s\<lparr>os_flushing := False\<rparr>"]
  by (auto simp: drain_out_def plain_flags split: list.splits) (simp add: plain_def)

lemma unchanged_plain: "plain 0 s ([], s)" by (simp add: plain_def)

lemma flush_plain: "plain 0 s (flush_out s)"
  using drain_plain [of "s\<lparr>os_flushing := True\<rparr>"] by (auto simp: flush_out_def plain_flags unchanged_plain)

lemma write_plain: "write_out t p s = Some r \<Longrightarrow> plain 0 s r"
  using flush_plain [of "s\<lparr>os_pending := os_pending s @ [(t, p)]\<rparr>"] by (auto simp: write_out_def plain_flags split: if_splits)

lemma sent_plain: "plain 0 s (sent_out True s)"
proof (cases "os_in_flight s")
  case None
  then show ?thesis by (simp add: sent_out_def unchanged_plain)
next
  case (Some t)
  then show ?thesis using drain_plain [of "s\<lparr>os_in_flight := None\<rparr>"]
    by (simp add: sent_out_def Let_def split_beta plain_flags) (simp add: plain_def)
qed

lemma close_plain: "plain 0 s (close_out s)"
  using finish_close_plain [of "s\<lparr>os_close_requested := True, os_close_waiting := True\<rparr>"]
  by (auto simp: close_out_def plain_flags unchanged_plain)

lemma close_sent_plain: "plain 0 s (close_sent_out True s)"
  by (simp add: close_sent_out_def plain_def)

lemma credit_plain: "\<not> os_closed s \<Longrightarrow> plain (normalize_positive c 0) s (credit_out c s)"
  using flush_plain [of "s\<lparr>os_credit := os_credit s + normalize_positive c 0\<rparr>"]
  by (simp add: credit_out_def plain_flags)

lemma finish_close_eager: "os_closed s \<or> os_pending s = [] \<or> os_credit s \<le> 0 \<Longrightarrow> eager (snd (finish_close s))"
  by (auto simp: finish_close_def eager_def)

lemma drain_eager:
  assumes "os_flushing s"
  shows "eager (snd (drain_out s))"
proof (cases "\<not> os_closed s \<and> 0 < os_credit s \<and> os_pending s \<noteq> []")
  case True
  then show ?thesis using assms by (cases "os_pending s") (auto simp: drain_out_def eager_def)
next
  case False
  then have "drain_out s = finish_close (s\<lparr>os_flushing := False\<rparr>)" by (auto simp: drain_out_def split: list.splits)
  then show ?thesis using finish_close_eager [of "s\<lparr>os_flushing := False\<rparr>"] False by auto
qed

lemma flush_eager: "eager (snd (flush_out s))"
  by (simp add: flush_out_def drain_eager) (simp add: eager_def)

lemma step_eager:
  assumes "tracks s C T A G K" "eager s"
  shows "write_out t p s = Some r \<Longrightarrow> eager (snd r)" "eager (snd (sent_out True s))" "eager (snd (close_out s))"
    "eager (snd (close_sent_out True s))" "eager (snd (credit_out c s))"
proof -
  show "write_out t p s = Some r \<Longrightarrow> eager (snd r)" by (auto simp: write_out_def flush_eager split: if_splits)
  show "eager (snd (sent_out True s))"
    using assms drain_eager [of "s\<lparr>os_in_flight := None\<rparr>"]
    by (cases "os_in_flight s") (auto simp: sent_out_def Let_def split_beta tracks_def)
  show "eager (snd (close_out s))"
    using assms(2) by (auto simp: close_out_def finish_close_def eager_def)
  show "eager (snd (close_sent_out True s))" using assms(2) by (simp add: close_sent_out_def eager_def)
  show "eager (snd (credit_out c s))" using assms(2) by (simp add: credit_out_def flush_eager)
qed

text \<open>
  The invariant of the two hosts: chunks sent \<open>C\<close>, of which \<open>k\<close> are consumed, credits on the way
  back \<open>cs\<close>, and the rest of the history of the sender.
\<close>

datatype phase = Opening | Running | Finished

definition net_inv :: "string \<Rightarrow> int \<Rightarrow> phase \<Rightarrow> (int \<times> 'p) list \<Rightarrow> (nat \<times> 'p) list \<Rightarrow> int \<Rightarrow> nat \<Rightarrow> nat \<Rightarrow> int list
    \<Rightarrow> 'p out_stream \<Rightarrow> 'p net \<Rightarrow> bool" where
  "net_inv sid c0 ph C A G K k cs s n \<longleftrightarrow>
     ho_heap (nt_a n) = [s] \<and> ho_outgoing (nt_a n) = (if os_closed s then [] else [(sid, 0)])
   \<and> ho_incoming (nt_a n) = [] \<and> \<not> ho_stopped (nt_a n)
   \<and> tracks s C (mset (settled_writes (nt_log n))) A G K \<and> os_id s = sid \<and> os_destination s = ''b''
   \<and> eager s \<and> (os_closed s \<longleftrightarrow> K = 1)
   \<and> nt_down n = (if ph = Opening then [Open_msg sid] else []) @ map (\<lambda>(i, p). Chunk_msg sid i p) (drop k C)
       @ (if ph = Finished then [] else replicate K (Close_msg sid))
   \<and> (ph = Opening \<longrightarrow> k = 0) \<and> (ph = Finished \<longrightarrow> k = length C \<and> K = 1) \<and> k \<le> length C
   \<and> nt_up n = map (\<lambda>c. Credit_msg sid (of_int c)) cs \<and> (\<forall>c \<in> set cs. 0 \<le> c)
   \<and> os_credit s + int (length C) + sum_list cs \<le> (if ph = Opening then 0 else c0 + int k)
   \<and> (\<not> os_closed s \<longrightarrow> os_credit s + int (length C) + sum_list cs = (if ph = Opening then 0 else c0 + int k))
   \<and> \<not> ho_stopped (nt_b n) \<and> ho_outgoing (nt_b n) = [] \<and> ho_initial_credit (nt_b n) = c0
   \<and> ho_incoming (nt_b n) = (if ph = Running then [(sid, \<lparr>is_source = ''a'', is_expected = int k + 1\<rparr>)] else [])
   \<and> consumed (nt_log n) = map snd (take k C) \<and> filter fault (nt_log n) = []
   \<and> (Consumer_closed sid \<in> set (nt_log n) \<longleftrightarrow> ph = Finished)"

lemma tracks_closes: "tracks s C T A G K \<Longrightarrow> K \<le> 1"
  by (auto simp: tracks_def history_def split: if_splits)

lemma sender_operation:
  assumes inv: "net_inv sid c0 ph C A G K k cs s n" and r: "f s = r"
    and t: "tracks (snd r) (C @ chunks (fst r)) (mset (settled_writes (nt_log n)) + mset (settled_writes (fst r)))
              (A @ acc) (G + g) (K + closes (fst r))"
    and p: "plain g s r" and e: "eager (snd r)" and cs: "g + sum_list cs' = sum_list cs" "\<forall>c \<in> set cs'. 0 \<le> c"
  shows "net_inv sid c0 ph (C @ chunks (fst r)) (A @ acc) (G + g) (K + closes (fst r)) k cs' (snd r)
           (at_a (on_out 0 f (nt_a n)) (n\<lparr>nt_up := map (\<lambda>c. Credit_msg sid (of_int c)) cs'\<rparr>))"
proof -
  have K: "K + closes (fst r) \<le> 1" using t by (rule tracks_closes)
  have i: "ho_heap (nt_a n) = [s]" "ho_outgoing (nt_a n) = (if os_closed s then [] else [(sid, 0)])"
    "os_id s = sid" "os_closed s \<longleftrightarrow> K = 1" "k \<le> length C" "ph = Finished \<Longrightarrow> k = length C \<and> K = 1"
    using inv by (auto simp: net_inv_def)
  have on: "on_out 0 f (nt_a n) = (fst r, (nt_a n)\<lparr>ho_heap := [snd r],
      ho_outgoing := (if os_closed (snd r) then [] else [(sid, 0)])\<rparr>)"
    using i p r by (auto simp: on_out_def Let_def split_beta plain_def)
  have cl: "os_closed (snd r) \<longleftrightarrow> K + closes (fst r) = 1" using i(4) K p by (auto simp: plain_def)
  have ch: "K = 1 \<Longrightarrow> chunks (fst r) = [] \<and> closes (fst r) = 0" using i(4) K p by (auto simp: plain_def)
  have down: "nt_down n @ sends (fst r) = (if ph = Opening then [Open_msg sid] else [])
      @ map (\<lambda>(i, p). Chunk_msg sid i p) (drop k (C @ chunks (fst r)))
      @ (if ph = Finished then [] else replicate (K + closes (fst r)) (Close_msg sid))"
  proof (cases "K = 1")
    case True
    then show ?thesis using inv p i(3) ch [OF True] by (simp add: net_inv_def plain_def)
  next
    case False
    then have K0: "K = 0" "ph \<noteq> Finished" using K i(6) by auto
    have "nt_down n = (if ph = Opening then [Open_msg sid] else []) @ map (\<lambda>(i, p). Chunk_msg sid i p) (drop k C)"
      using inv K0 by (simp add: net_inv_def)
    then show ?thesis using p i(3,5) K0 by (simp add: plain_def)
  qed
  have credit: "os_credit (snd r) + int (length (C @ chunks (fst r))) + sum_list cs' = os_credit s + int (length C) + sum_list cs"
    using p cs(1) by (simp add: plain_def)
  have mono: "os_closed s \<Longrightarrow> os_closed (snd r)" using p by (simp add: plain_def)
  let ?n = "at_a (on_out 0 f (nt_a n)) (n\<lparr>nt_up := map (\<lambda>c. Credit_msg sid (of_int c)) cs'\<rparr>)"
  have fields: "nt_a ?n = (nt_a n)\<lparr>ho_heap := [snd r], ho_outgoing := (if os_closed (snd r) then [] else [(sid, 0)])\<rparr>"
    "nt_b ?n = nt_b n" "nt_up ?n = map (\<lambda>c. Credit_msg sid (of_int c)) cs'"
    "nt_down ?n = nt_down n @ sends (fst r)" "nt_log ?n = nt_log n @ locals (fst r)"
    by (simp_all add: at_a_def on)
  have old: "ho_incoming (nt_a n) = []" "\<not> ho_stopped (nt_a n)" "os_destination s = ''b''"
    "\<not> ho_stopped (nt_b n)" "ho_outgoing (nt_b n) = []" "ho_initial_credit (nt_b n) = c0" "ph = Opening \<longrightarrow> k = 0"
    "ho_incoming (nt_b n) = (if ph = Running then [(sid, \<lparr>is_source = ''a'', is_expected = int k + 1\<rparr>)] else [])"
    "consumed (nt_log n) = map snd (take k C)" "filter fault (nt_log n) = []"
    "Consumer_closed sid \<in> set (nt_log n) \<longleftrightarrow> ph = Finished"
    "os_credit s + int (length C) + sum_list cs \<le> (if ph = Opening then 0 else c0 + int k)"
    "\<not> os_closed s \<longrightarrow> os_credit s + int (length C) + sum_list cs = (if ph = Opening then 0 else c0 + int k)"
    using inv unfolding net_inv_def by blast+
  have new: "os_id (snd r) = sid" "os_destination (snd r) = ''b''" "consumed (fst r) = []" "filter fault (fst r) = []"
    "Consumer_closed sid \<notin> set (fst r)"
    using p i(3) old(3) by (simp_all add: plain_def)
  have fin: "ph = Finished \<longrightarrow> k = length (C @ chunks (fst r)) \<and> K + closes (fst r) = 1" using i(6) ch by auto
  have exact: "\<not> os_closed (snd r) \<longrightarrow> os_credit (snd r) + int (length (C @ chunks (fst r))) + sum_list cs' =
      (if ph = Opening then 0 else c0 + int k)"
    using credit mono old(13) by argo
  show ?thesis unfolding net_inv_def fields
    using old(1-11) new down t e cl cs(2) i(5) fin exact old(12) credit
    by (intro conjI) (simp_all only: host.simps host.update_convs projections net_projections append_Nil2 filter_append set_append
        Un_iff consumed_locals locals_fault locals_settled locals_consumer_closed mset_append length_append, auto)
qed

definition net_ok :: "string \<Rightarrow> int \<Rightarrow> (nat \<times> 'p) list \<Rightarrow> 'p net \<Rightarrow> bool" where
  "net_ok sid c0 A n \<longleftrightarrow> (\<exists>ph C G K k cs s. net_inv sid c0 ph C A G K k cs s n)"

fun accepted_in :: "string \<Rightarrow> 'p net_event \<Rightarrow> 'p net \<Rightarrow> (nat \<times> 'p) list" where
  "accepted_in sid (N_write t p) n = (if host_write sid t p (nt_a n) = None then [] else [(t, p)])"
| "accepted_in sid _ n = []"

lemma up_unchanged: "net_inv sid c0 ph C A G K k cs s n \<Longrightarrow> n\<lparr>nt_up := map (\<lambda>c. Credit_msg sid (of_int c)) cs\<rparr> = n"
  by (cases n) (simp add: net_inv_def)

lemma sender_operation_ok:
  assumes inv: "net_inv sid c0 ph C A G K k cs s n" and r: "f s = r"
    and t: "tracks (snd r) (C @ chunks (fst r)) (mset (settled_writes (nt_log n)) + mset (settled_writes (fst r)))
              (A @ acc) G (K + closes (fst r))"
    and p: "plain 0 s r" and e: "eager (snd r)"
  shows "net_ok sid c0 (A @ acc) (at_a (on_out 0 f (nt_a n)) n)"
proof -
  have cs: "\<forall>c \<in> set cs. 0 \<le> c" using inv by (simp add: net_inv_def)
  have t': "tracks (snd r) (C @ chunks (fst r)) (mset (settled_writes (nt_log n)) + mset (settled_writes (fst r)))
              (A @ acc) (G + 0) (K + closes (fst r))" using t by simp
  from sender_operation [where cs' = cs and f = f and s = s and r = r, OF inv r t' p e add_0 cs]
  have "net_inv sid c0 ph (C @ chunks (fst r)) (A @ acc) (G + 0) (K + closes (fst r)) k cs (snd r) (at_a (on_out 0 f (nt_a n)) n)"
    unfolding up_unchanged [OF inv] by simp
  then show ?thesis unfolding net_ok_def by blast
qed

lemma net_inv_sender:
  assumes "net_inv sid c0 ph C A G K k cs s n"
  shows "ho_heap (nt_a n) ! 0 = s" "length (ho_heap (nt_a n)) = 1" "\<not> ho_stopped (nt_a n)"
    "omap_get (ho_outgoing (nt_a n)) sid = (if os_closed s then None else Some 0)"
    "tracks s C (mset (settled_writes (nt_log n))) A G K" "eager s" "os_destination s = ''b''"
  using assms by (simp_all add: net_inv_def)

lemma at_a_nothing [simp]: "at_a ([], nt_a n) n = n" by (cases n) (simp add: at_a_def)

lemma net_write: "net_ok sid c0 A n \<Longrightarrow> net_ok sid c0 (A @ accepted_in sid (N_write t p) n) (net_step sid (N_write t p) n)"
proof -
  assume ok: "net_ok sid c0 A n"
  then obtain ph C G K k cs s where inv: "net_inv sid c0 ph C A G K k cs s n" unfolding net_ok_def by blast
  note i = net_inv_sender [OF inv]
  show ?thesis
  proof (cases "write_out t p s")
    case None
    then have "host_write sid t p (nt_a n) = None" using i by (simp add: host_write_def)
    then show ?thesis using ok by simp
  next
    case (Some r)
    then have "\<not> os_closed s" by (auto simp: write_out_def split: if_splits)
    then have hw: "host_write sid t p (nt_a n) = Some (on_out 0 (\<lambda>s. the (write_out t p s)) (nt_a n))"
      using i Some by (simp add: host_write_def)
    have "net_ok sid c0 (A @ [(t, p)]) (at_a (on_out 0 (\<lambda>s. the (write_out t p s)) (nt_a n)) n)"
      by (rule sender_operation_ok [OF inv, where r = r])
        (use Some write_extends [OF i(5) Some] write_plain [OF Some] step_eager(1) [OF i(5,6) Some] in simp_all)
    then show ?thesis using hw by simp
  qed
qed

lemma net_sender_events:
  assumes "net_ok sid c0 A n" "e \<in> {N_sent, N_close, N_close_sent}"
  shows "net_ok sid c0 A (net_step sid e n)"
proof -
  obtain ph C G K k cs s where inv: "net_inv sid c0 ph C A G K k cs s n" using assms(1) unfolding net_ok_def by blast
  note i = net_inv_sender [OF inv]
  have sent: "net_ok sid c0 (A @ []) (at_a (on_out 0 (sent_out True) (nt_a n)) n)"
    by (rule sender_operation_ok [OF inv refl])
      (use sent_extends [OF i(5), of True] sent_plain step_eager(2) [OF i(5,6)] in simp_all)
  have close: "net_ok sid c0 (A @ []) (at_a (on_out 0 close_out (nt_a n)) n)"
    by (rule sender_operation_ok [OF inv refl])
      (use out_step_extends [OF i(5), of O_close] close_plain step_eager(3) [OF i(5,6)] in simp_all)
  have closed: "net_ok sid c0 (A @ []) (at_a (on_out 0 (close_sent_out True) (nt_a n)) n)"
    by (rule sender_operation_ok [OF inv refl])
      (use out_step_extends [OF i(5), of "O_close_sent True"] close_sent_plain step_eager(4) [OF i(5,6)] in simp_all)
  have "on_out 0 (sent_out True) (nt_a n) = (fst (on_out 0 (sent_out True) (nt_a n)), snd (on_out 0 (sent_out True) (nt_a n)))"
    by simp
  then have hs: "host_sent 0 True (nt_a n) = (if os_in_flight s = None then ([], nt_a n) else on_out 0 (sent_out True) (nt_a n))"
    using i by (simp add: host_sent_def Let_def split_beta)
  show ?thesis using assms sent close closed i(4) hs
    by (auto simp: host_close_def)
qed

lemma net_credit:
  assumes "net_ok sid c0 A n"
  shows "net_ok sid c0 A (net_step sid N_up n)"
proof -
  obtain ph C G K k cs s where inv: "net_inv sid c0 ph C A G K k cs s n" using assms(1) unfolding net_ok_def by blast
  note i = net_inv_sender [OF inv]
  show ?thesis
  proof (cases cs)
    case Nil
    then have "nt_up n = []" using inv by (simp add: net_inv_def)
    then show ?thesis using assms by simp
  next
    case (Cons c cs')
    let ?n = "n\<lparr>nt_up := map (\<lambda>c. Credit_msg sid (of_int c)) cs'\<rparr>"
    have up: "nt_up n = Credit_msg sid (of_int c) # map (\<lambda>c. Credit_msg sid (of_int c)) cs'" "0 \<le> c" "\<forall>c \<in> set cs'. 0 \<le> c"
      using inv Cons by (auto simp: net_inv_def)
    then have step: "net_step sid N_up n = at_a (handle_credit ''b'' sid (of_int c) (nt_a n)) ?n" using i(3) by (simp add: enqueue_stream_message_def)
    show ?thesis
    proof (cases "os_closed s")
      case True
      then have "net_step sid N_up n = ?n" unfolding step handle_credit_def i(4)
        using at_a_nothing [of ?n] by simp
      moreover have "net_inv sid c0 ph C A G K k cs' s ?n" using inv up True unfolding net_inv_def Cons by auto
      ultimately show ?thesis unfolding net_ok_def by metis
    next
      case False
      have g: "normalize_positive (of_int c) 0 = c" using up(2) by (simp add: normalize_positive_def)
      have "handle_credit ''b'' sid (of_int c) (nt_a n) = on_out 0 (credit_out (of_int c)) (nt_a n)"
        using i False by (simp add: handle_credit_def)
      moreover have "net_inv sid c0 ph (C @ chunks (fst (credit_out (of_int c) s))) (A @ []) (G + c)
          (K + closes (fst (credit_out (of_int c) s))) k cs' (snd (credit_out (of_int c) s))
          (at_a (on_out 0 (credit_out (of_int c)) (nt_a n)) ?n)"
        by (rule sender_operation [OF inv refl])
          (use out_step_extends [OF i(5), of "O_credit (of_int c)"] credit_plain [OF False, of "of_int c"] g
             step_eager(5) [OF i(5,6)] up(3) Cons in simp_all)
      ultimately have "net_inv sid c0 ph (C @ chunks (fst (credit_out (of_int c) s))) A (G + c)
          (K + closes (fst (credit_out (of_int c) s))) k cs' (snd (credit_out (of_int c) s)) (net_step sid N_up n)"
        unfolding step by (metis append_Nil2)
      then show ?thesis unfolding net_ok_def by blast
    qed
  qed
qed

lemma net_open_delivered:
  assumes "net_inv sid c0 Opening C A G K k cs s n" "0 \<le> c0"
  shows "net_inv sid c0 Running C A G K k (cs @ [c0]) s (net_step sid N_down n)"
  using assms by (auto simp: net_inv_def enqueue_stream_message_def handle_open_def at_b_def)

lemma net_chunk_delivered:
  assumes "net_inv sid c0 Running C A G K k cs s n" "k < length C"
  shows "net_inv sid c0 Running C A G K (Suc k) (cs @ [1]) s (net_step sid N_down n)"
proof -
  obtain i p where x: "C ! k = (i, p)" by (cases "C ! k")
  have "map fst C = seq_upto (length C)" using assms(1) by (simp add: net_inv_def tracks_def history_def)
  then have "fst (C ! k) = seq_upto (length C) ! k" using assms(2) by (metis nth_map)
  then have i: "i = int k + 1" using x assms(2) by (simp add: seq_upto_def)
  have dr: "drop k C = (int k + 1, p) # drop (Suc k) C" using x i assms(2) by (metis Cons_nth_drop_Suc)
  have tk: "take (Suc k) C = take k C @ [(int k + 1, p)]" using x i assms(2) by (simp add: take_Suc_conv_app_nth)
  have "nt_down n = Chunk_msg sid (int k + 1) p # map (\<lambda>(i, p). Chunk_msg sid i p) (drop (Suc k) C) @ replicate K (Close_msg sid)"
    using assms(1) dr by (simp add: net_inv_def)
  moreover have "omap_get (ho_incoming (nt_b n)) sid = Some \<lparr>is_source = ''a'', is_expected = int k + 1\<rparr>"
    using assms(1) by (simp add: net_inv_def)
  moreover have "\<not> ho_stopped (nt_b n)" using assms(1) by (simp add: net_inv_def)
  ultimately have "net_step sid N_down n = n\<lparr>
      nt_down := map (\<lambda>(i, p). Chunk_msg sid i p) (drop (Suc k) C) @ replicate K (Close_msg sid),
      nt_b := (nt_b n)\<lparr>ho_incoming := omap_set sid \<lparr>is_source = ''a'', is_expected = 2 + int k\<rparr> (ho_incoming (nt_b n))\<rparr>,
      nt_up := nt_up n @ [Credit_msg sid 1], nt_log := nt_log n @ [Consume sid (int k + 1) p]\<rparr>"
    by (simp add: enqueue_stream_message_def handle_chunk_def chunk_in_def at_b_def)
  then show ?thesis using assms tk by (auto simp: net_inv_def)
qed

lemma net_close_delivered:
  assumes "net_inv sid c0 Running C A G (Suc 0) (length C) cs s n"
  shows "net_inv sid c0 Finished C A G (Suc 0) (length C) cs s (net_step sid N_down n)"
  using assms by (auto simp: net_inv_def enqueue_stream_message_def handle_close_def at_b_def)

lemma net_down:
  assumes "net_ok sid c0 A n" "0 \<le> c0"
  shows "net_ok sid c0 A (net_step sid N_down n)"
proof -
  obtain ph C G K k cs s where inv: "net_inv sid c0 ph C A G K k cs s n" using assms(1) unfolding net_ok_def by blast
  have down: "nt_down n = (if ph = Opening then [Open_msg sid] else []) @ map (\<lambda>(i, p). Chunk_msg sid i p) (drop k C)
       @ (if ph = Finished then [] else replicate K (Close_msg sid))"
    and k: "k \<le> length C" "ph = Finished \<Longrightarrow> k = length C"
    using inv by (simp_all add: net_inv_def)
  have t: "tracks s C (mset (settled_writes (nt_log n))) A G K" using inv by (simp add: net_inv_def)
  show ?thesis
  proof (cases "nt_down n = []")
    case True
    then show ?thesis using assms(1) by simp
  next
    case False
    show ?thesis
    proof (cases ph)
      case Opening
      then show ?thesis using net_open_delivered inv assms(2) unfolding net_ok_def by blast
    next
      case Running
      show ?thesis
      proof (cases "k < length C")
        case True
        then show ?thesis using net_chunk_delivered inv Running unfolding net_ok_def by blast
      next
        case f: False
        then have "k = length C" "K = Suc 0" using down k(1) False tracks_closes [OF t] Running by (auto simp: le_Suc_eq)
        then show ?thesis using net_close_delivered inv Running unfolding net_ok_def by blast
      qed
    next
      case Finished
      then show ?thesis using down k(2) False by simp
    qed
  qed
qed

lemma net_step_ok: "net_ok sid c0 A n \<Longrightarrow> 0 \<le> c0 \<Longrightarrow> net_ok sid c0 (A @ accepted_in sid e n) (net_step sid e n)"
  using net_write [of sid c0 A n] net_sender_events [of sid c0 A n e] net_credit [of sid c0 A n] net_down [of sid c0 A n]
  by (cases e) auto

fun net_run :: "string \<Rightarrow> 'p net_event list \<Rightarrow> 'p net \<Rightarrow> (nat \<times> 'p) list \<times> 'p net" where
  "net_run sid [] n = ([], n)"
| "net_run sid (e # es) n = (let (acc, n') = net_run sid es (net_step sid e n) in (accepted_in sid e n @ acc, n'))"

lemma net_run_ok:
  "net_ok sid c0 A n \<Longrightarrow> 0 \<le> c0 \<Longrightarrow> net_ok sid c0 (A @ fst (net_run sid es n)) (snd (net_run sid es n))"
proof (induction es arbitrary: A n)
  case (Cons e es)
  from Cons.IH [OF net_step_ok [OF Cons.prems, of e] Cons.prems(2)] show ?case
    by (simp add: Let_def split_beta)
qed simp

lemma opened_net_ok: "net_ok sid (normalize_positive rb 1) [] (opened_net sid ra rb)"
proof -
  have "net_inv sid (normalize_positive rb 1) Opening [] [] 0 0 0 [] (new_out sid ''b'') (opened_net sid ra rb)"
    using new_out_tracks [of sid "''b''"]
    by (auto simp: net_inv_def opened_net_def open_stream_def new_host_def eager_def new_out_def)
  then show ?thesis unfolding net_ok_def by blast
qed

definition quiescent :: "'p net \<Rightarrow> bool" where
  "quiescent n \<longleftrightarrow> nt_down n = [] \<and> nt_up n = [] \<and> os_in_flight (ho_heap (nt_a n) ! 0) = None"

fun is_chunk :: "'p stream_message \<Rightarrow> bool" where
  "is_chunk (Chunk_msg s n p) = True"
| "is_chunk _ = False"

lemma filter_chunks: "length (filter is_chunk (map (\<lambda>(i, p). Chunk_msg sid i p) xs)) = length xs"
  by (induction xs) auto

lemma net_inv_safe:
  assumes "net_inv sid c0 ph C A G K k cs s n" "0 \<le> c0"
  shows "\<exists>rest. map snd A = consumed (nt_log n) @ rest" "filter fault (nt_log n) = []"
    "int (length (filter is_chunk (nt_down n))) \<le> c0"
    "Consumer_closed sid \<in> set (nt_log n) \<Longrightarrow> consumed (nt_log n) = map snd A"
proof -
  have h: "map snd C = map snd (take (length C) A)" "0 \<le> os_credit s" "ph = Finished \<Longrightarrow> length C = length A"
    "ph = Finished \<Longrightarrow> k = length C"
    using assms(1) by (auto simp: net_inv_def tracks_def history_def split: if_splits)
  have con: "consumed (nt_log n) = map snd (take k C)" and k: "k \<le> length C" using assms(1) by (simp_all add: net_inv_def)
  have "map snd (take k C) = take k (take (length C) (map snd A))" using h(1) by (simp add: take_map [symmetric])
  then have eq: "consumed (nt_log n) = take k (map snd A)" using con k by (simp add: min_def)
  then have "map snd A = consumed (nt_log n) @ drop k (map snd A)" by simp
  then show "\<exists>rest. map snd A = consumed (nt_log n) @ rest" by blast
  show "filter fault (nt_log n) = []" using assms(1) by (simp add: net_inv_def)
  have "0 \<le> sum_list cs" using assms(1) by (simp add: net_inv_def sum_list_nonneg)
  then have "int (length C) \<le> c0 + int k" using assms h(2) by (auto simp: net_inv_def split: if_splits)
  moreover have "length (filter is_chunk (nt_down n)) = length C - k"
    using assms(1) filter_chunks [of sid "drop k C"] by (auto simp: net_inv_def)
  ultimately show "int (length (filter is_chunk (nt_down n))) \<le> c0" using k by simp
  show "Consumer_closed sid \<in> set (nt_log n) \<Longrightarrow> consumed (nt_log n) = map snd A"
    using eq h(3,4) assms(1) by (simp add: net_inv_def)
qed

lemma net_inv_live:
  assumes "net_inv sid c0 ph C A G K k cs s n" "0 < c0" "quiescent n"
  shows "consumed (nt_log n) = map snd A" "mset (settled_writes (nt_log n)) = mset (map fst A)"
    "os_close_requested s \<Longrightarrow> Consumer_closed sid \<in> set (nt_log n)"
proof -
  have q: "os_in_flight s = None" "cs = []" "ph \<noteq> Opening" "k = length C" "os_closed s \<Longrightarrow> ph = Finished"
    using assms(1,3) by (auto simp: quiescent_def net_inv_def split: if_splits)
  have t: "tracks s C (mset (settled_writes (nt_log n))) A G K" "eager s" "os_closed s \<longleftrightarrow> K = 1"
    using assms(1) by (simp_all add: net_inv_def)
  have fl: "\<not> os_flushing s" using t(1) q(1) by (simp add: tracks_def)
  have "\<not> os_closed s \<Longrightarrow> os_credit s = c0" using assms(1) q by (auto simp: net_inv_def)
  then have pe: "os_pending s = []" and cr: "os_close_requested s \<Longrightarrow> os_closed s"
    using t fl assms(2) by (auto simp: eager_def tracks_def history_def)
  have len: "length C = length A" using t pe by (auto simp: tracks_def history_def split: if_splits)
  show "consumed (nt_log n) = map snd A" using assms(1) t(1) q(4) len by (simp add: net_inv_def tracks_def history_def)
  show "mset (settled_writes (nt_log n)) = mset (map fst A)" using t(1) q(1) pe by (simp add: tracks_def history_def)
  show "os_close_requested s \<Longrightarrow> Consumer_closed sid \<in> set (nt_log n)" using cr q(5) assms(1) by (simp add: net_inv_def)
qed

section \<open>The readable end against any peers\<close>

datatype 'p host_event =
    H_open string string
  | H_write string nat 'p
  | H_sent nat bool
  | H_close string
  | H_error string string
  | H_message bool string "'p stream_message"
  | H_stop

fun host_step :: "'p host_event \<Rightarrow> 'p host \<Rightarrow> 'p host_result" where
  "host_step (H_open sid d) h = (case open_stream sid d h of None \<Rightarrow> ([], h) | Some r \<Rightarrow> r)"
| "host_step (H_write sid t p) h = (case host_write sid t p h of None \<Rightarrow> ([], h) | Some r \<Rightarrow> r)"
| "host_step (H_sent i ok) h = host_sent i ok h"
| "host_step (H_close sid) h = host_close sid h"
| "host_step (H_error sid c) h = host_error sid c h"
| "host_step (H_message answer source m) h = enqueue_stream_message answer source m h"
| "host_step H_stop h = stop_host h"

fun host_run :: "'p host_event list \<Rightarrow> 'p host \<Rightarrow> 'p host_result" where
  "host_run [] h = ([], h)"
| "host_run (e # es) h = (let (o1, h1) = host_step e h; (o2, h2) = host_run es h1 in (o1 @ o2, h2))"

fun consumed_number :: "string \<Rightarrow> 'p stream_effect \<Rightarrow> int list" where
  "consumed_number sid (Consume s n p) = (if s = sid then [n] else [])"
| "consumed_number sid _ = []"

definition consumed_numbers :: "string \<Rightarrow> 'p stream_effect list \<Rightarrow> int list" where
  "consumed_numbers sid outs = concat (map (consumed_number sid) outs)"

lemma consumed_numbers_simps [simp]:
  "consumed_numbers sid (a @ b) = consumed_numbers sid a @ consumed_numbers sid b"
  "consumed_numbers sid (e # b) = consumed_number sid e @ consumed_numbers sid b" "consumed_numbers sid [] = []"
  by (simp_all add: consumed_numbers_def)

text \<open>Each number starts a sequence at 1 or follows the one before it.\<close>

definition gapless :: "int list \<Rightarrow> bool" where
  "gapless ns \<longleftrightarrow> (\<forall>i < length ns. ns ! i = 1 \<or> (0 < i \<and> ns ! i = ns ! (i - 1) + 1))"

definition follows :: "int list \<Rightarrow> int \<Rightarrow> bool" where
  "follows ns m \<longleftrightarrow> m = 1 \<or> (ns \<noteq> [] \<and> m = last ns + 1)"

lemma gapless_snoc: "gapless ns \<Longrightarrow> follows ns m \<Longrightarrow> gapless (ns @ [m])"
  by (auto simp: gapless_def follows_def nth_append less_Suc_eq last_conv_nth)

lemma follows_snoc [simp]: "follows (ns @ [m]) (m + 1)" "follows ns 1" by (simp_all add: follows_def)

definition receiver_ok :: "'p stream_effect list \<Rightarrow> 'p host \<Rightarrow> bool" where
  "receiver_ok past h \<longleftrightarrow> (\<forall>sid. gapless (consumed_numbers sid past)
     \<and> (\<forall>s. omap_get (ho_incoming h) sid = Some s \<longrightarrow> follows (consumed_numbers sid past) (is_expected s)))"

definition silent :: "'p host \<Rightarrow> 'p host_result \<Rightarrow> bool" where
  "silent h r \<longleftrightarrow> (\<forall>sid. consumed_numbers sid (fst r) = [])
     \<and> (\<forall>sid s. omap_get (ho_incoming (snd r)) sid = Some s \<longrightarrow> omap_get (ho_incoming h) sid = Some s \<or> is_expected s = 1)"

lemma silent_ok: "receiver_ok past h \<Longrightarrow> silent h r \<Longrightarrow> receiver_ok (past @ fst r) (snd r)"
  unfolding receiver_ok_def silent_def by (metis append_Nil2 consumed_numbers_simps(1) follows_snoc(2))

lemma nothing_silent: "silent h ([], h)" by (simp add: silent_def)

lemma failed_quiet [simp]:
  "consumed_numbers sid (map (\<lambda>(t, p). Write_settled t False) xs) = []"
  "consumed_numbers sid (map (\<lambda>(i, s). Consumer_error i c) ys) = []"
  by (induction xs, auto) (induction ys, auto)

lemma finish_close_quiet [simp]: "consumed_numbers sid (fst (finish_close s)) = []" by (simp add: finish_close_def)

lemma drain_quiet [simp]: "consumed_numbers sid (fst (drain_out s)) = []" by (simp add: drain_out_def split: list.splits)

lemma flush_quiet [simp]: "consumed_numbers sid (fst (flush_out s)) = []" by (simp add: flush_out_def)

lemma fail_quiet [simp]: "consumed_numbers sid (fst (fail_out s)) = []" by (simp add: fail_out_def)

lemma sender_quiet [simp]:
  "consumed_numbers sid (fst (sent_out ok s)) = []" "consumed_numbers sid (fst (close_out s)) = []"
  "consumed_numbers sid (fst (error_out c s)) = []" "consumed_numbers sid (fst (credit_out g s)) = []"
  "write_out t p s = Some r \<Longrightarrow> consumed_numbers sid (fst r) = []"
  by (simp_all add: sent_out_def close_out_def error_out_def credit_out_def Let_def split_beta split: option.splits)
    (auto simp: write_out_def split: if_splits)

lemma on_out_silent: "(\<And>sid. consumed_numbers sid (fst (f (ho_heap h ! i))) = []) \<Longrightarrow> silent h (on_out i f h)"
  by (simp add: silent_def on_out_def Let_def split_beta)

lemma silent_incoming:
  assumes "silent h r" "fst r' = fst r" "ho_incoming (snd r') = ho_incoming (snd r)"
  shows "silent h r'"
  using assms by (simp add: silent_def)

lemma silent_then: "silent h r1 \<Longrightarrow> silent (snd r1) r2 \<Longrightarrow> silent h (fst r1 @ fst r2, snd r2)"
  unfolding silent_def by fastforce

lemma fail_all_silent: "silent h (fail_all_out xs h)"
proof (induction xs arbitrary: h)
  case (Cons x xs)
  obtain sid i where x: "x = (sid, i)" by (cases x)
  show ?case
    using silent_then [OF on_out_silent [of fail_out h i] Cons.IH [of "snd (on_out i fail_out h)"]]
    by (simp add: x Let_def split_beta)
qed (simp add: nothing_silent)

lemma local_steps_silent:
  "silent h (host_step (H_open sid d) h)" "silent h (host_step (H_write sid t p) h)" "silent h (host_step (H_sent i ok) h)"
  "silent h (host_step (H_close sid) h)" "silent h (host_step (H_error sid c) h)" "silent h (host_step H_stop h)"
proof -
  show "silent h (host_step (H_open sid d) h)" by (simp add: open_stream_def silent_def)
  show "silent h (host_step (H_write sid t p) h)"
  proof (cases "host_write sid t p h")
    case (Some r)
    then obtain i w where "write_out t p (ho_heap h ! i) = Some w" "r = on_out i (\<lambda>s. the (write_out t p s)) h"
      by (auto simp: host_write_def split: if_splits option.splits)
    then show ?thesis using Some on_out_silent [of "\<lambda>s. the (write_out t p s)" h i] by simp
  qed (simp add: nothing_silent)
  have on: "silent h (on_out i (sent_out ok) h)" by (rule on_out_silent) simp
  show "silent h (host_step (H_sent i ok) h)"
    using silent_incoming [OF on] nothing_silent [of h] by (simp add: host_sent_def Let_def split_beta)
  show "silent h (host_step (H_close sid) h)"
    by (simp add: host_close_def nothing_silent on_out_silent split: option.split)
  show "silent h (host_step (H_error sid c) h)"
    by (simp add: host_error_def nothing_silent on_out_silent split: option.split)
  show "silent h (host_step H_stop h)"
    using fail_all_silent [of "h\<lparr>ho_stopped := True\<rparr>" "ho_outgoing h"]
    by (simp add: stop_host_def nothing_silent Let_def split_beta) (simp add: silent_def)
qed

lemma handle_error_silent:
  fixes h :: "'a host"
  shows "silent h (handle_error source sid c h)"
proof -
  let ?r1 = "(case omap_get (ho_outgoing h) sid of None \<Rightarrow> ([], h)
     | Some i \<Rightarrow> if os_destination (ho_heap h ! i) = source then on_out i fail_out h
                 else ([Host_error ''stream_source_mismatch'' sid], h)) :: 'a host_result"
  let ?h = "snd ?r1"
  let ?r2 = "(case omap_get (ho_incoming ?h) sid of None \<Rightarrow> ([], ?h)
     | Some s \<Rightarrow> if is_source s = source then ([Consumer_error sid c], ?h\<lparr>ho_incoming := omap_delete sid (ho_incoming ?h)\<rparr>)
                 else ([Host_error ''stream_source_mismatch'' sid], ?h)) :: 'a host_result"
  have "silent h ?r1" by (simp add: on_out_silent split: option.split) (simp add: silent_def)
  moreover have "silent ?h ?r2" by (simp add: silent_def split: option.split)
  ultimately have "silent h (fst ?r1 @ fst ?r2, snd ?r2)" by (rule silent_then)
  then show ?thesis by (simp only: handle_error_def Let_def split_beta)
qed

lemma handle_chunk_ok:
  assumes "receiver_ok past h"
  shows "receiver_ok (past @ fst (handle_chunk answer source sid n p h)) (snd (handle_chunk answer source sid n p h))"
proof (cases "omap_get (ho_incoming h) sid")
  case None
  then show ?thesis using assms by (simp add: handle_chunk_def receiver_ok_def)
next
  case (Some s)
  show ?thesis
  proof (cases "is_source s = source \<and> n = is_expected s")
    case False
    then have "silent h (handle_chunk answer source sid n p h)"
      using Some by (auto simp: handle_chunk_def chunk_in_def silent_def)
    then show ?thesis by (rule silent_ok [OF assms])
  next
    case True
    have g: "gapless (consumed_numbers k past)" "omap_get (ho_incoming h) k = Some t \<Longrightarrow> follows (consumed_numbers k past) (is_expected t)" for k t
      using assms by (auto simp: receiver_ok_def)
    have "gapless (consumed_numbers sid past @ [n])" using g Some True by (simp add: gapless_snoc)
    moreover have "follows (consumed_numbers sid past @ [n]) (is_expected s + 1)" using True follows_snoc by blast
    ultimately show ?thesis using Some True g
      by (auto simp: handle_chunk_def chunk_in_def receiver_ok_def)
  qed
qed

lemma handle_other_silent:
  "silent h (handle_open answer source k h)" "silent h (handle_credit source k g h)" "silent h (handle_close source k h)"
proof -
  show "silent h (handle_open answer source k h)" by (auto simp: handle_open_def silent_def)
  show "silent h (handle_close source k h)" by (auto simp: handle_close_def silent_def split: option.split)
  have "silent h ([Host_error a b], h)" for a b by (simp add: silent_def)
  then show "silent h (handle_credit source k g h)"
    by (simp add: handle_credit_def on_out_silent nothing_silent split: option.split)
qed

lemma host_step_ok: "receiver_ok past h \<Longrightarrow> receiver_ok (past @ fst (host_step e h)) (snd (host_step e h))"
proof (cases e)
  case (H_message answer source m)
  assume ok: "receiver_ok past h"
  show ?thesis
    using silent_ok [OF ok] handle_error_silent [of h source] handle_other_silent [of h] handle_chunk_ok [OF ok] H_message
      nothing_silent [of h] ok
    by (cases "ho_stopped h"; cases m) (auto simp: enqueue_stream_message_def)
qed (use silent_ok local_steps_silent in \<open>metis\<close>)+

lemma host_run_ok: "receiver_ok past h \<Longrightarrow> receiver_ok (past @ fst (host_run es h)) (snd (host_run es h))"
proof (induction es arbitrary: past h)
  case (Cons e es)
  from Cons.IH [OF host_step_ok [OF Cons.prems, of e]] show ?case by (simp add: Let_def split_beta)
qed simp

section \<open>Properties\<close>

text \<open>
  C19. A stream between two hosts, with any interleaving of writes, close, send completions and
  deliveries over a transport that is reliable and ordered in each direction: the consumer gets a
  prefix of the accepted writes and no error arises on either side; the chunks in transit never
  exceed the reader's initial credit; when the consumer is told that the stream is closed it has
  got every accepted write; and when nothing is in transit and the initial credit is not zero
  every accepted write was consumed and its promise settled exactly once, and a requested close
  has reached the consumer, so that credit never stalls a stream.\<close>

theorem stream_delivery:
  assumes "net_run sid es (opened_net sid ra rb) = (acc, n)"
  shows "(\<exists>rest. map snd acc = consumed (nt_log n) @ rest) \<and> filter fault (nt_log n) = []
    \<and> int (length (filter is_chunk (nt_down n))) \<le> normalize_positive rb 1
    \<and> (Consumer_closed sid \<in> set (nt_log n) \<longrightarrow> consumed (nt_log n) = map snd acc)
    \<and> (quiescent n \<and> 0 < normalize_positive rb 1 \<longrightarrow>
         consumed (nt_log n) = map snd acc \<and> mset (settled_writes (nt_log n)) = mset (map fst acc)
       \<and> (os_close_requested (ho_heap (nt_a n) ! 0) \<longrightarrow> Consumer_closed sid \<in> set (nt_log n)))"
proof -
  have c0: "0 \<le> normalize_positive rb 1" by (simp add: normalize_positive_def)
  from net_run_ok [where es = es, OF opened_net_ok [where ra = ra and sid = sid] c0] have "net_ok sid (normalize_positive rb 1) acc n" using assms by simp
  then obtain ph C G K k cs s where inv: "net_inv sid (normalize_positive rb 1) ph C acc G K k cs s n"
    unfolding net_ok_def by blast
  have "ho_heap (nt_a n) ! 0 = s" using net_inv_sender(1) [OF inv] .
  then show ?thesis using net_inv_safe [OF inv c0] net_inv_live [OF inv] by blast
qed

definition sample_net_events :: "nat net_event list" where
  "sample_net_events = [N_write 1 10, N_write 2 20, N_down, N_up, N_close, N_sent, N_down, N_up, N_sent, N_down, N_close_sent, N_up, N_down]"

lemma stream_delivery_witness:
  "consumed (nt_log (snd (net_run ''s'' sample_net_events (opened_net ''s'' 1 1)))) = [10, 20]
   \<and> (\<exists>rest. map snd (fst (net_run ''s'' sample_net_events (opened_net ''s'' 1 1))) = [10, 20] @ rest)"
proof -
  have "consumed (nt_log (snd (net_run ''s'' sample_net_events (opened_net ''s'' 1 1)))) = [10, 20]" by code_simp
  then show ?thesis
    using stream_delivery [where sid = "''s''" and es = sample_net_events and ra = 1 and rb = 1, OF prod.collapse [symmetric]]
    by simp
qed

text \<open>
  The writable end alone, whatever happens around it (writes, any credits, failing and
  succeeding sends, close, errors from either side, in any order): chunks are numbered 1, 2, 3, ...
  and carry the first accepted writes in order, never more of them than the credit granted; the
  promise of every accepted write is settled exactly once or is still pending or in flight; a
  close message is sent at most once and only after every accepted write was sent.\<close>

theorem stream_writer_discipline:
  assumes "out_run es (new_out sid dest) = (outs, acc, g, s)"
  shows "map fst (chunks outs) = seq_upto (length (chunks outs))
    \<and> map snd (chunks outs) = map snd (take (length (chunks outs)) acc) \<and> int (length (chunks outs)) \<le> g
    \<and> mset (settled_writes outs) + mset (case os_in_flight s of None \<Rightarrow> [] | Some t \<Rightarrow> [t]) + mset (map fst (os_pending s))
        = mset (map fst acc)
    \<and> closes outs \<le> 1 \<and> (closes outs = 1 \<longrightarrow> length (chunks outs) = length acc)"
  using out_run_tracks [OF new_out_tracks assms] by (auto simp: tracks_def history_def split: if_splits)

lemma stream_writer_discipline_witness:
  "\<exists>outs acc g s. out_run [O_write 1 ''p'', O_credit 2, O_close, O_sent True] (new_out ''s'' ''b'') = (outs, acc, g, s)
     \<and> chunks outs = [(1, ''p'')] \<and> closes outs = 1 \<and> length (chunks outs) = length acc"
proof -
  obtain outs acc g s where r: "out_run [O_write 1 ''p'', O_credit 2, O_close, O_sent True] (new_out ''s'' ''b'') = (outs, acc, g, s)"
    using prod_cases4 by blast
  have "(let (outs, acc, g, s) = out_run [O_write 1 ''p'', O_credit 2, O_close, O_sent True] (new_out ''s'' ''b'')
         in chunks outs = [(1, ''p'')] \<and> closes outs = 1)" by code_simp
  then have "chunks outs = [(1, ''p'')]" "closes outs = 1" using r by simp_all
  then show ?thesis using stream_writer_discipline [OF r] r by blast
qed

text \<open>
  The readable end against any peers: whatever messages arrive (duplicated, reordered, from
  another node, for unknown streams) and whatever the host does meanwhile, the consumer of a
  stream id only ever gets chunk number 1 or the number after the one it got last.\<close>

theorem reader_gapless: "gapless (consumed_numbers sid (fst (host_run es (new_host r))))"
proof -
  have "receiver_ok [] (new_host r)" by (simp add: receiver_ok_def gapless_def new_host_def)
  from host_run_ok [OF this, of es] show ?thesis by (simp add: receiver_ok_def)
qed

end
