(* ===== verification/Text_Order.thy ===== *)
theory Text_Order
  imports Actor_Prelude
begin

text \<open>
  JavaScript's \<open>localeCompare\<close>. Its result depends on the locale of the host, so the model takes any
  function that ECMA-262 allows: the type \<open>collator\<close> of consistent comparisons, of which the
  comparison by code units is an example.
\<close>

text \<open>What ECMA-262 requires of \<open>localeCompare\<close>: a consistent comparison function.\<close>

definition consistent_comparison :: "(string \<Rightarrow> string \<Rightarrow> int) \<Rightarrow> bool" where
  "consistent_comparison f \<longleftrightarrow>
     (\<forall>a b. sgn (f a b) = - sgn (f b a)) \<and> (\<forall>a b c. f a b \<le> 0 \<longrightarrow> f b c \<le> 0 \<longrightarrow> f a c \<le> 0)"

fun code_unit_compare :: "string \<Rightarrow> string \<Rightarrow> int" where
  "code_unit_compare [] [] = 0"
| "code_unit_compare [] (b # bs) = - 1"
| "code_unit_compare (a # as) [] = 1"
| "code_unit_compare (a # as) (b # bs) =
     (if a = b then code_unit_compare as bs else if (of_char a :: nat) < of_char b then - 1 else 1)"

lemma code_unit_flip: "code_unit_compare a b = - code_unit_compare b a"
proof (induction a b rule: code_unit_compare.induct)
  case (4 a as b bs)
  have "(of_char a :: nat) = of_char b \<Longrightarrow> a = b" by simp
  then show ?case using 4 by (auto simp: not_less)
qed auto

lemma code_unit_step:
  "code_unit_compare (a # as) (b # bs) \<le> 0 \<longleftrightarrow>
     (of_char a :: nat) < of_char b \<or> (a = b \<and> code_unit_compare as bs \<le> 0)"
  by simp

lemma code_unit_trans: "code_unit_compare a b \<le> 0 \<Longrightarrow> code_unit_compare b c \<le> 0 \<Longrightarrow> code_unit_compare a c \<le> 0"
proof (induction a arbitrary: b c)
  case Nil
  then show ?case by (cases c) auto
next
  case (Cons x a)
  then obtain y b' where b: "b = y # b'" by (cases b) auto
  then obtain z c' where c: "c = z # c'" using Cons.prems by (cases c) auto
  show ?case using Cons.prems Cons.IH [of b' c'] unfolding b c code_unit_step by (metis less_trans)
qed

lemma code_unit_consistent: "consistent_comparison code_unit_compare"
  unfolding consistent_comparison_def
proof (intro conjI allI impI)
  show "sgn (code_unit_compare a b) = - sgn (code_unit_compare b a)" for a b
    unfolding code_unit_flip [of a b] by (simp add: sgn_if)
qed (rule code_unit_trans)

typedef collator = "{f. consistent_comparison f}" morphisms locale_compare Collator
  using code_unit_consistent by blast

setup_lifting type_definition_collator

lift_definition code_unit_collator :: collator is code_unit_compare by (rule code_unit_consistent)

lemma locale_compare_flip: "sgn (locale_compare c a b) = - sgn (locale_compare c b a)"
  using locale_compare [of c] unfolding consistent_comparison_def by blast

lemma locale_compare_trans: "locale_compare c x y \<le> 0 \<Longrightarrow> locale_compare c y z \<le> 0 \<Longrightarrow> locale_compare c x z \<le> 0"
  using locale_compare [of c] unfolding consistent_comparison_def by blast

section \<open>Sorting by a comparison\<close>

text \<open>\<open>Array.prototype.sort\<close> is stable; so is insertion from the right.\<close>

fun insert_by :: "('a \<Rightarrow> 'a \<Rightarrow> int) \<Rightarrow> 'a \<Rightarrow> 'a list \<Rightarrow> 'a list" where
  "insert_by cmp x [] = [x]"
| "insert_by cmp x (y # ys) = (if cmp x y \<le> 0 then x # y # ys else y # insert_by cmp x ys)"

definition sort_by :: "('a \<Rightarrow> 'a \<Rightarrow> int) \<Rightarrow> 'a list \<Rightarrow> 'a list" where
  "sort_by cmp rs = foldr (insert_by cmp) rs []"

fun in_order :: "('a \<Rightarrow> 'a \<Rightarrow> int) \<Rightarrow> 'a list \<Rightarrow> bool" where
  "in_order cmp [] = True"
| "in_order cmp [x] = True"
| "in_order cmp (x # y # ys) = (cmp x y \<le> 0 \<and> in_order cmp (y # ys))"

lemma insert_by_set [simp]: "set (insert_by cmp x ys) = insert x (set ys)"
  by (induction ys) auto

lemma sort_by_set [simp]: "set (sort_by cmp xs) = set xs"
  by (induction xs) (auto simp: sort_by_def)

lemma insert_by_nonempty [simp]: "insert_by cmp x ys \<noteq> []" by (cases ys) auto

lemma sort_by_empty [simp]: "sort_by cmp xs = [] \<longleftrightarrow> xs = []"
  by (cases xs) (auto simp: sort_by_def)

lemma insert_in_order:
  assumes "in_order cmp ys" "\<And>y. y \<in> set ys \<Longrightarrow> cmp x y \<le> 0 \<or> cmp y x \<le> 0"
  shows "in_order cmp (insert_by cmp x ys)"
  using assms
proof (induction ys rule: in_order.induct)
  case (2 cmp y)
  then show ?case by auto
next
  case (3 cmp y z zs)
  have "cmp x y \<le> 0 \<or> cmp y x \<le> 0" using 3(3) by simp
  moreover have "in_order cmp (insert_by cmp x (z # zs))" using 3 by simp
  ultimately show ?case using 3(2) by (auto split: if_splits)
qed simp

lemma sort_in_order:
  assumes "\<And>x y. x \<in> set xs \<Longrightarrow> y \<in> set xs \<Longrightarrow> cmp x y \<le> 0 \<or> cmp y x \<le> 0"
  shows "in_order cmp (sort_by cmp xs)"
  using assms
proof (induction xs)
  case (Cons x xs)
  have "in_order cmp (sort_by cmp xs)" using Cons by simp
  then have "in_order cmp (insert_by cmp x (sort_by cmp xs))"
    by (rule insert_in_order) (use Cons.prems in simp)
  then show ?case by (simp add: sort_by_def)
qed (simp add: sort_by_def)

lemma sort_ordered: "in_order cmp xs \<Longrightarrow> sort_by cmp xs = xs"
proof (induction cmp xs rule: in_order.induct)
  case (3 cmp x y ys)
  then have "sort_by cmp (y # ys) = y # ys" by simp
  then show ?case using 3(2) by (simp add: sort_by_def)
qed (simp_all add: sort_by_def)

end
