(* ===== verification/Mesh.thy ===== *)
theory Mesh
  imports Complex_Main Text_Order
begin

text \<open>
  The shared knowledge of \<open>packages/actor-labs-mesh\<close>: \<open>membership.ts\<close> (which incarnation of a node
  is alive, suspect, dead or left) and \<open>directory.ts\<close> (which node owns an actor). Both keep the
  newest record of a key, so both instantiate one interface, \<open>newest_wins\<close>, which proves that
  replicas that got the same records in any order agree. Clocks, versions and numeric incarnations
  are integers, numbers written in text are exact rationals (no rounding to doubles), and the
  locale-dependent \<open>localeCompare\<close> is any total preorder on texts, the type \<open>collator\<close>.
\<close>

section \<open>Incarnations\<close>

datatype incarnation = Inc_number int | Inc_text string

text \<open>JavaScript's \<open>Number(text)\<close>, \<open>None\<close> where it is not finite.\<close>

definition digit_value :: "char \<Rightarrow> nat option" where
  "digit_value c =
     (let n = of_char c
      in if 48 \<le> n \<and> n \<le> 57 then Some (n - 48)
         else if 97 \<le> n \<and> n \<le> 122 then Some (n - 87)
         else if 65 \<le> n \<and> n \<le> 90 then Some (n - 55) else None)"

definition is_digit :: "nat \<Rightarrow> char \<Rightarrow> bool" where
  "is_digit b c \<longleftrightarrow> (case digit_value c of None \<Rightarrow> False | Some d \<Rightarrow> d < b)"

definition digits_number :: "nat \<Rightarrow> string \<Rightarrow> nat" where
  "digits_number b s = foldl (\<lambda>n c. n * b + (case digit_value c of None \<Rightarrow> 0 | Some d \<Rightarrow> d)) 0 s"

definition radix_number :: "nat \<Rightarrow> string \<Rightarrow> rat option" where
  "radix_number b s = (if s \<noteq> [] \<and> list_all (is_digit b) s then Some (of_nat (digits_number b s)) else None)"

definition power_of_ten :: "int \<Rightarrow> rat" where
  "power_of_ten e = (if 0 \<le> e then 10 ^ nat e else 1 / 10 ^ nat (- e))"

definition exponent :: "string \<Rightarrow> int option" where
  "exponent s =
     (let (sign, ds) = (case s of [] \<Rightarrow> (1, []) | c # cs \<Rightarrow>
                          if c = CHR ''-'' then (- 1, cs) else if c = CHR ''+'' then (1, cs) else (1, s))
      in if ds \<noteq> [] \<and> list_all (is_digit 10) ds then Some (sign * int (digits_number 10 ds)) else None)"

definition decimal_number :: "string \<Rightarrow> rat option" where
  "decimal_number s =
     (let whole = takeWhile (is_digit 10) s; r1 = dropWhile (is_digit 10) s;
          (frac, r2) = (case r1 of [] \<Rightarrow> ([], []) | c # cs \<Rightarrow>
                          if c = CHR ''.'' then (takeWhile (is_digit 10) cs, dropWhile (is_digit 10) cs) else ([], r1));
          mantissa = of_nat (digits_number 10 (whole @ frac)) * power_of_ten (- int (length frac))
      in if whole @ frac = [] then None
         else (case r2 of [] \<Rightarrow> Some mantissa
               | c # cs \<Rightarrow> if c \<in> set ''eE'' then map_option (\<lambda>e. mantissa * power_of_ten e) (exponent cs) else None))"

definition number_of_text :: "string \<Rightarrow> rat option" where
  "number_of_text text =
     (let s = trim text
      in if s = [] then Some 0
         else if take 2 s \<in> set [''0x'', ''0X''] then radix_number 16 (drop 2 s)
         else if take 2 s \<in> set [''0o'', ''0O''] then radix_number 8 (drop 2 s)
         else if take 2 s \<in> set [''0b'', ''0B''] then radix_number 2 (drop 2 s)
         else if hd s = CHR ''-'' then map_option uminus (decimal_number (tl s))
         else if hd s = CHR ''+'' then decimal_number (tl s)
         else decimal_number s)"

fun to_incarnation_order :: "incarnation \<Rightarrow> rat option \<times> string" where
  "to_incarnation_order (Inc_number n) = (Some (of_int n), int_text n)"
| "to_incarnation_order (Inc_text s) = (number_of_text s, s)"

definition compare_incarnation :: "collator \<Rightarrow> incarnation \<Rightarrow> incarnation \<Rightarrow> int" where
  "compare_incarnation c l r =
     (let (ln, lt) = to_incarnation_order l; (rn, rt) = to_incarnation_order r
      in case (ln, rn) of
           (Some x, Some y) \<Rightarrow> if x < y then - 1 else if y < x then 1 else locale_compare c lt rt
         | (Some x, None) \<Rightarrow> - 1
         | (None, Some y) \<Rightarrow> 1
         | (None, None) \<Rightarrow> locale_compare c lt rt)"

section \<open>Membership\<close>

datatype member_status = Alive | Suspect | Dead | Left

fun membership_rank :: "member_status \<Rightarrow> nat" where
  "membership_rank Alive = 0" | "membership_rank Suspect = 1" | "membership_rank Dead = 2" | "membership_rank Left = 3"

record member =
  mr_node :: string
  mr_incarnation :: incarnation
  mr_state :: member_status
  mr_seen_at :: int
  mr_metadata :: "(string, string) omap option"

datatype merge_code =
    Accepted | Stale_incarnation | Weaker_state | Same_record | Owner_conflict | Stale_version | Same_entry

type_synonym membership = "(string, member) omap"

definition merge_member :: "collator \<Rightarrow> membership \<Rightarrow> member \<Rightarrow> bool \<times> merge_code \<times> membership" where
  "merge_member c state r =
     (let accept = (True, Accepted, omap_set (mr_node r) r state)
      in case omap_get state (mr_node r) of
           None \<Rightarrow> accept
         | Some cur \<Rightarrow>
             (let ord = compare_incarnation c (mr_incarnation r) (mr_incarnation cur)
              in if ord < 0 then (False, Stale_incarnation, state)
                 else if ord = 0 \<and> membership_rank (mr_state r) < membership_rank (mr_state cur) then (False, Weaker_state, state)
                 else if ord = 0 \<and> membership_rank (mr_state r) = membership_rank (mr_state cur) \<and> mr_seen_at r \<le> mr_seen_at cur
                 then (False, Same_record, state)
                 else accept))"

definition apply_membership :: "collator \<Rightarrow> member list \<Rightarrow> membership \<Rightarrow> membership" where
  "apply_membership c rs state = foldl (\<lambda>m r. snd (snd (merge_member c m r))) state rs"

definition create_membership :: "collator \<Rightarrow> member list \<Rightarrow> membership" where
  "create_membership c rs = apply_membership c rs []"

definition is_node_routeable :: "membership \<Rightarrow> string \<Rightarrow> bool" where
  "is_node_routeable state a = (case omap_get state a of None \<Rightarrow> False | Some r \<Rightarrow> mr_state r = Alive)"

section \<open>The actor directory\<close>

record dir_entry =
  de_address :: string
  de_owner :: string
  de_incarnation :: incarnation
  de_version :: int
  de_updated_at :: int
  de_tombstone :: bool
  de_ttl :: "int option"

type_synonym directory = "(string, dir_entry) omap"

definition apply_entry :: "collator \<Rightarrow> directory \<Rightarrow> dir_entry \<Rightarrow> bool \<times> merge_code \<times> directory" where
  "apply_entry c state e =
     (let accept = (True, Accepted, omap_set (de_address e) e state)
      in case omap_get state (de_address e) of
           None \<Rightarrow> accept
         | Some cur \<Rightarrow>
             if de_owner cur \<noteq> de_owner e then (False, Owner_conflict, state)
             else (let ord = compare_incarnation c (de_incarnation e) (de_incarnation cur)
                   in if ord < 0 then (False, Stale_incarnation, state)
                      else if ord = 0 \<and> de_version e < de_version cur then (False, Stale_version, state)
                      else if ord = 0 \<and> de_version e = de_version cur \<and> de_updated_at e \<le> de_updated_at cur
                      then (False, Same_entry, state)
                      else accept))"

definition merge_entries :: "collator \<Rightarrow> dir_entry list \<Rightarrow> directory \<Rightarrow> directory" where
  "merge_entries c es state = foldl (\<lambda>d e. snd (snd (apply_entry c d e))) state es"

definition create_directory :: "collator \<Rightarrow> dir_entry list \<Rightarrow> directory" where
  "create_directory c es = merge_entries c es []"

definition resolve_location :: "directory \<Rightarrow> string \<Rightarrow> int option \<Rightarrow> string option" where
  "resolve_location state a now =
     (case omap_get state a of
        None \<Rightarrow> None
      | Some e \<Rightarrow>
          if de_tombstone e then None
          else (case (de_ttl e, now) of
                  (Some t, Some n) \<Rightarrow> if t \<le> n then None else Some (de_owner e)
                | _ \<Rightarrow> Some (de_owner e)))"

definition export_entries :: "directory \<Rightarrow> dir_entry list" where
  "export_entries state = map snd state"

section \<open>Newest wins\<close>

definition absorb :: "('r \<Rightarrow> 'r \<Rightarrow> bool) \<Rightarrow> ('r \<Rightarrow> 'k) \<Rightarrow> ('k, 'r) omap \<Rightarrow> 'r \<Rightarrow> ('k, 'r) omap" where
  "absorb le key m r =
     (case omap_get m (key r) of
        None \<Rightarrow> omap_set (key r) r m
      | Some cur \<Rightarrow> if le r cur then m else omap_set (key r) r m)"

locale newest_wins =
  fixes le :: "'r \<Rightarrow> 'r \<Rightarrow> bool"
    and key :: "'r \<Rightarrow> 'k"
  assumes le_total: "le a b \<or> le b a"
    and le_trans: "le a b \<Longrightarrow> le b d \<Longrightarrow> le a d"
begin

lemma le_refl: "le a a" using le_total by blast

lemma absorb_get:
  "omap_get (absorb le key m r) k =
     (if key r = k then (case omap_get m k of None \<Rightarrow> Some r | Some cur \<Rightarrow> if le r cur then Some cur else Some r)
      else omap_get m k)"
  by (auto simp: absorb_def split: option.split)

text \<open>A record that is present only gives way to a newer one.\<close>

lemma absorb_grows: "omap_get m k = Some a \<Longrightarrow> \<exists>b. omap_get (absorb le key m r) k = Some b \<and> le a b"
  using le_total [of r a] le_refl by (auto simp: absorb_get)

lemma fold_grows: "omap_get m k = Some a \<Longrightarrow> \<exists>b. omap_get (foldl (absorb le key) m rs) k = Some b \<and> le a b"
proof (induction rs arbitrary: m a)
  case (Cons r rs)
  then show ?case using absorb_grows [OF Cons.prems, of r] le_trans by (metis foldl_Cons)
qed (simp add: le_refl)

lemma fold_newest:
  "\<forall>r \<in> set rs. \<exists>b. omap_get (foldl (absorb le key) m rs) (key r) = Some b \<and> le r b"
proof (induction rs arbitrary: m)
  case (Cons r rs)
  have "\<exists>a. omap_get (absorb le key m r) (key r) = Some a \<and> le r a"
    using le_refl by (auto simp: absorb_get split: option.split)
  then have "\<exists>b. omap_get (foldl (absorb le key) (absorb le key m r) rs) (key r) = Some b \<and> le r b"
    using fold_grows le_trans by blast
  then show ?case using Cons.IH by simp
qed simp

lemma fold_source:
  "omap_get (foldl (absorb le key) m rs) k = Some b \<Longrightarrow> omap_get m k = Some b \<or> (b \<in> set rs \<and> key b = k)"
proof (induction rs arbitrary: m)
  case (Cons r rs)
  then show ?case by (auto simp: absorb_get dest!: Cons.IH split: option.splits if_splits)
qed simp

text \<open>Replicas that absorbed the same records agree up to ties.\<close>

lemma same_records:
  assumes "set rs = set rs'" "omap_get (foldl (absorb le key) [] rs) k = Some a"
  shows "\<exists>b. omap_get (foldl (absorb le key) [] rs') k = Some b \<and> le a b \<and> le b a"
proof -
  have a: "a \<in> set rs" "key a = k" using fold_source [OF assms(2)] by simp_all
  then obtain b where b: "omap_get (foldl (absorb le key) [] rs') k = Some b" "le a b"
    using fold_newest [of rs' "[]"] assms(1) by blast
  have "b \<in> set rs'" "key b = k" using fold_source [OF b(1)] by simp_all
  then have "le b a" using fold_newest [of rs "[]"] assms by fastforce
  then show ?thesis using b by blast
qed

end

section \<open>The order on stamps\<close>

lemma compare_incarnation_flip: "sgn (compare_incarnation c a b) = - sgn (compare_incarnation c b a)"
proof -
  obtain an ta where a: "to_incarnation_order a = (an, ta)" by fastforce
  obtain bn tb where b: "to_incarnation_order b = (bn, tb)" by fastforce
  have f: "sgn (locale_compare c ta tb) = - sgn (locale_compare c tb ta)" by (rule locale_compare_flip)
  show ?thesis by (cases an; cases bn) (simp_all add: compare_incarnation_def a b f)
qed

lemma compare_incarnation_trans:
  "compare_incarnation c x y \<le> 0 \<Longrightarrow> compare_incarnation c y z \<le> 0 \<Longrightarrow> compare_incarnation c x z \<le> 0"
proof -
  assume h: "compare_incarnation c x y \<le> 0" "compare_incarnation c y z \<le> 0"
  obtain an ta where a: "to_incarnation_order x = (an, ta)" by fastforce
  obtain bn tb where b: "to_incarnation_order y = (bn, tb)" by fastforce
  obtain dn td where d: "to_incarnation_order z = (dn, td)" by fastforce
  have t: "locale_compare c ta tb \<le> 0 \<Longrightarrow> locale_compare c tb td \<le> 0 \<Longrightarrow> locale_compare c ta td \<le> 0"
    by (rule locale_compare_trans)
  show ?thesis using h t
    by (cases an; cases bn; cases dn) (auto simp: compare_incarnation_def a b d split: if_splits)
qed

lemma compare_incarnation_swap:
  "compare_incarnation c a b < 0 \<longleftrightarrow> 0 < compare_incarnation c b a" "compare_incarnation c a b = 0 \<longleftrightarrow> compare_incarnation c b a = 0"
  using compare_incarnation_flip [of c a b] by (auto simp: sgn_if split: if_splits)

text \<open>Both kinds of records are ordered by their incarnation, then by two numbers.\<close>

type_synonym stamp = "incarnation \<times> int \<times> int"

fun stamp_le :: "collator \<Rightarrow> stamp \<Rightarrow> stamp \<Rightarrow> bool" where
  "stamp_le c (i, x, y) (i', x', y') \<longleftrightarrow>
     compare_incarnation c i i' < 0 \<or> (compare_incarnation c i i' = 0 \<and> (x < x' \<or> (x = x' \<and> y \<le> y')))"

lemma stamp_total: "stamp_le c s t \<or> stamp_le c t s"
proof -
  obtain i x y i' x' y' where "s = (i, x, y)" "t = (i', x', y')" by (cases s; cases t) auto
  then show ?thesis using compare_incarnation_swap [of c i i'] by auto
qed

lemma compare_incarnation_chain:
  assumes "compare_incarnation c a b \<le> 0" "compare_incarnation c b d \<le> 0"
  shows "compare_incarnation c a d < 0 \<or>
    (compare_incarnation c a d = 0 \<and> compare_incarnation c a b = 0 \<and> compare_incarnation c b d = 0)"
proof (cases "compare_incarnation c a d < 0")
  case False
  have "compare_incarnation c a d \<le> 0" using compare_incarnation_trans [OF assms] .
  then have ad: "compare_incarnation c a d = 0" using False by simp
  then have da: "compare_incarnation c d a \<le> 0" using compare_incarnation_swap(2) [of c a d] by simp
  have "compare_incarnation c b a \<le> 0" using compare_incarnation_trans [OF assms(2) da] .
  moreover have "compare_incarnation c d b \<le> 0" using compare_incarnation_trans [OF da assms(1)] .
  ultimately show ?thesis
    using ad assms compare_incarnation_swap(1) [of c a b] compare_incarnation_swap(1) [of c b d] by simp
qed simp

lemma stamp_trans: "stamp_le c s t \<Longrightarrow> stamp_le c t u \<Longrightarrow> stamp_le c s u"
proof -
  assume st: "stamp_le c s t" "stamp_le c t u"
  obtain i x y where s: "s = (i, x, y)" by (cases s)
  obtain i' x' y' where t: "t = (i', x', y')" by (cases t)
  obtain i'' x'' y'' where u: "u = (i'', x'', y'')" by (cases u)
  have le: "compare_incarnation c i i' \<le> 0" "compare_incarnation c i' i'' \<le> 0" using st by (auto simp: s t u)
  then show ?thesis using st compare_incarnation_chain [OF le] by (auto simp: s t u)
qed

lemma stamp_tie:
  "stamp_le c (i, x, y) (i', x', y') \<Longrightarrow> stamp_le c (i', x', y') (i, x, y) \<Longrightarrow>
   compare_incarnation c i i' = 0 \<and> x = x' \<and> y = y'"
  using compare_incarnation_swap [of c i i'] by auto

definition member_stamp :: "member \<Rightarrow> stamp" where
  "member_stamp r = (mr_incarnation r, int (membership_rank (mr_state r)), mr_seen_at r)"

definition entry_stamp :: "dir_entry \<Rightarrow> stamp" where
  "entry_stamp e = (de_incarnation e, de_version e, de_updated_at e)"

definition member_le :: "collator \<Rightarrow> member \<Rightarrow> member \<Rightarrow> bool" where
  "member_le c a b \<longleftrightarrow> stamp_le c (member_stamp a) (member_stamp b)"

definition entry_le :: "collator \<Rightarrow> dir_entry \<Rightarrow> dir_entry \<Rightarrow> bool" where
  "entry_le c a b \<longleftrightarrow> stamp_le c (entry_stamp a) (entry_stamp b)"

interpretation members: newest_wins "member_le c" mr_node for c
  unfolding member_le_def by unfold_locales (rule stamp_total, rule stamp_trans)

interpretation entries: newest_wins "entry_le c" de_address for c
  unfolding entry_le_def by unfold_locales (rule stamp_total, rule stamp_trans)

section \<open>Membership is newest-wins\<close>

lemma merge_member_absorb: "snd (snd (merge_member c m r)) = absorb (member_le c) mr_node m r"
  by (auto simp: merge_member_def absorb_def member_le_def member_stamp_def Let_def split: option.split)

lemma apply_membership_fold: "apply_membership c rs m = foldl (absorb (member_le c) mr_node) m rs"
  by (simp add: apply_membership_def merge_member_absorb)

lemma rank_inject: "membership_rank a = membership_rank b \<longleftrightarrow> a = b"
  by (cases a; cases b) auto

lemma member_tie:
  "member_le c a b \<Longrightarrow> member_le c b a \<Longrightarrow>
   compare_incarnation c (mr_incarnation a) (mr_incarnation b) = 0 \<and> mr_state a = mr_state b \<and> mr_seen_at a = mr_seen_at b"
  using stamp_tie [of c "mr_incarnation a" "int (membership_rank (mr_state a))" "mr_seen_at a"
      "mr_incarnation b" "int (membership_rank (mr_state b))" "mr_seen_at b"]
  by (simp add: member_le_def member_stamp_def rank_inject del: stamp_le.simps)

lemma routeable_iff: "is_node_routeable m a \<longleftrightarrow> (\<exists>r. omap_get m a = Some r \<and> mr_state r = Alive)"
  by (simp add: is_node_routeable_def split: option.split)

lemma create_membership_same:
  assumes "set rs = set rs'" "omap_get (create_membership c rs) a = Some r"
  shows "\<exists>r'. omap_get (create_membership c rs') a = Some r' \<and> compare_incarnation c (mr_incarnation r) (mr_incarnation r') = 0
    \<and> mr_state r = mr_state r' \<and> mr_seen_at r = mr_seen_at r'"
  using members.same_records [OF assms(1), of c a r] assms(2) member_tie
  unfolding create_membership_def apply_membership_fold by blast

text \<open>
  C23. Membership gossip converges: replicas that were given the same records, in whatever order
  and however often, know the same nodes with the same incarnation, status and time, and so agree
  on which nodes may be routed to.\<close>

theorem membership_converges:
  assumes "set rs = set rs'"
  shows "(\<forall>a. is_node_routeable (create_membership c rs) a = is_node_routeable (create_membership c rs') a)
    \<and> (\<forall>a r. omap_get (create_membership c rs) a = Some r \<longrightarrow>
         (\<exists>r'. omap_get (create_membership c rs') a = Some r' \<and> compare_incarnation c (mr_incarnation r) (mr_incarnation r') = 0
            \<and> mr_state r = mr_state r' \<and> mr_seen_at r = mr_seen_at r'))"
proof (intro conjI allI impI)
  show "is_node_routeable (create_membership c rs) a = is_node_routeable (create_membership c rs') a" for a
    using create_membership_same [OF assms, of c a] create_membership_same [OF assms [symmetric], of c a]
    by (fastforce simp: routeable_iff)
qed (rule create_membership_same [OF assms])

definition alive_1 :: member where
  "alive_1 = \<lparr>mr_node = ''n'', mr_incarnation = Inc_number 1, mr_state = Alive, mr_seen_at = 5, mr_metadata = None\<rparr>"

definition dead_1 :: member where
  "dead_1 = \<lparr>mr_node = ''n'', mr_incarnation = Inc_number 1, mr_state = Dead, mr_seen_at = 3, mr_metadata = None\<rparr>"

lemma membership_converges_witness:
  "is_node_routeable (create_membership code_unit_collator [alive_1, dead_1]) ''n''
     = is_node_routeable (create_membership code_unit_collator [dead_1, dead_1, alive_1]) ''n''"
  using membership_converges [of "[alive_1, dead_1]" "[dead_1, dead_1, alive_1]" code_unit_collator] by auto

text \<open>
  No resurrection: a node that a replica does not consider alive only becomes routeable again
  when a record of a newer incarnation arrives; old, duplicated or replayed records never bring it
  back.\<close>

theorem membership_no_resurrection:
  assumes "omap_get m a = Some r" "mr_state r \<noteq> Alive" "is_node_routeable (apply_membership c rs m) a"
  shows "\<exists>r' \<in> set rs. mr_node r' = a \<and> mr_state r' = Alive
    \<and> 0 < compare_incarnation c (mr_incarnation r') (mr_incarnation r)"
proof -
  obtain r' where r': "omap_get (apply_membership c rs m) a = Some r'" "mr_state r' = Alive"
    using assms(3) by (auto simp: routeable_iff)
  have le: "member_le c r r'" using members.fold_grows [OF assms(1), of c rs] r'(1) by (simp add: apply_membership_fold)
  have "\<not> int (membership_rank (mr_state r)) \<le> 0" using assms(2) by (cases "mr_state r") auto
  then have newer: "compare_incarnation c (mr_incarnation r) (mr_incarnation r') < 0"
    using le r'(2) by (auto simp: member_le_def member_stamp_def)
  have "r' \<noteq> r" using r'(2) assms(2) by auto
  then have "r' \<in> set rs" "mr_node r' = a"
    using members.fold_source [of c m rs a r'] r'(1) assms(1) by (auto simp: apply_membership_fold)
  then show ?thesis using newer r'(2) compare_incarnation_swap(1) by blast
qed

lemma membership_no_resurrection_witness:
  "\<exists>r' \<in> set [alive_1, alive_1\<lparr>mr_incarnation := Inc_text ''2''\<rparr>].
     0 < compare_incarnation code_unit_collator (mr_incarnation r') (mr_incarnation dead_1)"
proof -
  have "is_node_routeable (apply_membership code_unit_collator [alive_1, alive_1\<lparr>mr_incarnation := Inc_text ''2''\<rparr>] [(''n'', dead_1)]) ''n''"
    by code_simp
  then show ?thesis
    using membership_no_resurrection [of "[(''n'', dead_1)]" "''n''" dead_1 code_unit_collator
        "[alive_1, alive_1\<lparr>mr_incarnation := Inc_text ''2''\<rparr>]"] by (auto simp: dead_1_def)
qed

section \<open>The directory under a single writer\<close>

definition single_owner :: "dir_entry set \<Rightarrow> bool" where
  "single_owner U \<longleftrightarrow> (\<forall>e \<in> U. \<forall>e' \<in> U. de_address e = de_address e' \<longrightarrow> de_owner e = de_owner e')"

lemma apply_entry_absorb:
  "(\<And>cur. omap_get d (de_address e) = Some cur \<Longrightarrow> de_owner cur = de_owner e) \<Longrightarrow>
   snd (snd (apply_entry c d e)) = absorb (entry_le c) de_address d e"
  by (auto simp: apply_entry_def absorb_def entry_le_def entry_stamp_def Let_def split: option.split)

lemma merge_entries_fold:
  assumes "single_owner U" "set es \<subseteq> U" "\<And>a x. omap_get d a = Some x \<Longrightarrow> x \<in> U \<and> de_address x = a"
  shows "merge_entries c es d = foldl (absorb (entry_le c) de_address) d es"
  using assms(2,3)
proof (induction es arbitrary: d)
  case (Cons e es)
  have e: "e \<in> U" using Cons.prems(1) by simp
  have "snd (snd (apply_entry c d e)) = absorb (entry_le c) de_address d e"
  proof (rule apply_entry_absorb)
    fix cur assume "omap_get d (de_address e) = Some cur"
    then have "cur \<in> U" "de_address cur = de_address e" using Cons.prems(2) by blast+
    then show "de_owner cur = de_owner e" using assms(1) e unfolding single_owner_def by blast
  qed
  moreover have "merge_entries c es (absorb (entry_le c) de_address d e) = foldl (absorb (entry_le c) de_address) (absorb (entry_le c) de_address d e) es"
  proof (rule Cons.IH)
    show "x \<in> U \<and> de_address x = a" if "omap_get (absorb (entry_le c) de_address d e) a = Some x" for a x
      using that e Cons.prems(2) by (auto simp: entries.absorb_get split: option.splits if_splits)
  qed (use Cons.prems(1) in simp)
  ultimately show ?case by (simp add: merge_entries_def)
qed (simp add: merge_entries_def)

text \<open>
  Directory propagation converges under the single-writer rule of the mesh design: if every
  address is published by one owner, and an owner never publishes two different entries with the
  same incarnation, version and time, then replicas that merged the same entries, in any order and
  with any repetition, hold the same entry for every address and resolve it to the same node.\<close>

theorem directory_converges:
  assumes "set es = set es'" "single_owner (set es)"
    "\<And>e e'. e \<in> set es \<Longrightarrow> e' \<in> set es \<Longrightarrow> de_address e = de_address e' \<Longrightarrow>
       entry_le c e e' \<Longrightarrow> entry_le c e' e \<Longrightarrow> e = e'"
  shows "omap_get (create_directory c es) a = omap_get (create_directory c es') a
    \<and> resolve_location (create_directory c es) a now = resolve_location (create_directory c es') a now"
proof -
  have f: "create_directory c es = foldl (absorb (entry_le c) de_address) [] es"
    "create_directory c es' = foldl (absorb (entry_le c) de_address) [] es'"
    using merge_entries_fold [OF assms(2), of es "[]"] merge_entries_fold [OF assms(2), of es' "[]"] assms(1)
    by (simp_all add: create_directory_def)
  have half: "omap_get (foldl (absorb (entry_le c) de_address) [] es2) a = Some x"
    if h: "omap_get (foldl (absorb (entry_le c) de_address) [] es1) a = Some x" "set es1 = set es" "set es2 = set es" for es1 es2 x
  proof -
    obtain y where y: "omap_get (foldl (absorb (entry_le c) de_address) [] es2) a = Some y" "entry_le c x y" "entry_le c y x"
      using entries.same_records [of es1 es2, OF _ h(1)] h(2,3) by metis
    have "x \<in> set es" "de_address x = a" using entries.fold_source [OF h(1)] h(2) by auto
    moreover have "y \<in> set es" "de_address y = a" using entries.fold_source [OF y(1)] h(3) by auto
    ultimately have "x = y" using assms(3) [OF _ _ _ y(2,3)] by simp
    then show ?thesis using y(1) by simp
  qed
  have s: "set es' = set es" using assms(1) by simp
  have "omap_get (create_directory c es) a = Some x \<longleftrightarrow> omap_get (create_directory c es') a = Some x" for x
    unfolding f using half [OF _ refl s] half [OF _ s refl] by blast
  then have "omap_get (create_directory c es) a = omap_get (create_directory c es') a" by (metis option.exhaust)
  then show ?thesis by (simp add: resolve_location_def)
qed

definition entry_v :: "int \<Rightarrow> bool \<Rightarrow> dir_entry" where
  "entry_v v t = \<lparr>de_address = ''a'', de_owner = ''n'', de_incarnation = Inc_number 1, de_version = v,
     de_updated_at = v, de_tombstone = t, de_ttl = None\<rparr>"

lemma directory_converges_witness:
  "resolve_location (create_directory code_unit_collator [entry_v 1 False, entry_v 2 True]) ''a'' None
     = resolve_location (create_directory code_unit_collator [entry_v 2 True, entry_v 1 False]) ''a'' None"
proof -
  have "omap_get (create_directory code_unit_collator [entry_v 1 False, entry_v 2 True]) ''a''
        = omap_get (create_directory code_unit_collator [entry_v 2 True, entry_v 1 False]) ''a''
    \<and> resolve_location (create_directory code_unit_collator [entry_v 1 False, entry_v 2 True]) ''a'' None
        = resolve_location (create_directory code_unit_collator [entry_v 2 True, entry_v 1 False]) ''a'' None"
    by (rule directory_converges)
      (use compare_incarnation_swap(1) [of code_unit_collator "Inc_number 1" "Inc_number 1"] in
        \<open>auto simp: entry_v_def single_owner_def entry_le_def entry_stamp_def\<close>)
  then show ?thesis by simp
qed

text \<open>
  The owner of an address is fixed by the first entry a replica hears of: whatever is merged
  later, the address resolves to that owner or to nothing, even after the owner's tombstone or
  expiry; an actor cannot move to another node under the same address.\<close>

theorem directory_owner_pinned:
  assumes "omap_get d a = Some e" "de_address e = a"
  shows "resolve_location (merge_entries c es d) a now \<in> {None, Some (de_owner e)}"
proof -
  have "\<exists>x. omap_get (merge_entries c es d) a = Some x \<and> de_address x = a \<and> de_owner x = de_owner e"
    using assms
  proof (induction es arbitrary: d e)
    case (Cons f es)
    have "\<exists>x. omap_get (snd (snd (apply_entry c d f))) a = Some x \<and> de_address x = a \<and> de_owner x = de_owner e"
    proof (cases "de_address f = a")
      case True
      then show ?thesis using Cons.prems by (simp add: apply_entry_def Let_def)
    next
      case False
      then show ?thesis using Cons.prems by (auto simp: apply_entry_def Let_def split: option.split)
    qed
    then show ?case using Cons.IH by (fastforce simp: merge_entries_def)
  qed (simp add: merge_entries_def)
  then show ?thesis by (auto simp: resolve_location_def split: option.split)
qed

lemma directory_owner_pinned_witness:
  "resolve_location (merge_entries code_unit_collator [(entry_v 9 False)\<lparr>de_owner := ''m''\<rparr>] [(''a'', entry_v 2 True)]) ''a'' None
     \<in> {None, Some ''n''}"
  using directory_owner_pinned [of "[(''a'', entry_v 2 True)]" "''a''" "entry_v 2 True" code_unit_collator
      "[(entry_v 9 False)\<lparr>de_owner := ''m''\<rparr>]" None] by (simp add: entry_v_def)

end
