(* ===== verification/Mesh_Routing.thy ===== *)
theory Mesh_Routing
  imports Mesh Transport_Contract
begin

text \<open>
  Next-hop routing of \<open>packages/actor-labs-mesh\<close> (\<open>routing.ts\<close>) and the object that holds a node's
  view (\<open>mesh.ts\<close>): the breadth-first search over routeable, unvisited nodes, the route token that a
  delivery carries, and the router the runtime calls.
\<close>

section \<open>Route tokens and results\<close>

record route_token =
  rt_visited :: "string list"
  rt_hop_limit :: int

datatype route_failure = Hop_limit_exhausted | Route_loop | Unsafe_node | Unreachable

type_synonym route_result = "route_failure + string \<times> route_token"

type_synonym adjacency = "(string, string list) omap"

definition create_route_token :: "string \<Rightarrow> int \<Rightarrow> route_token" where
  "create_route_token here max_hops = \<lparr>rt_visited = [here], rt_hop_limit = max_hops\<rparr>"

definition advance_route :: "string \<Rightarrow> route_token \<Rightarrow> route_result" where
  "advance_route h tk =
     (if h \<in> set (rt_visited tk) then Inl Route_loop
      else Inr (h, \<lparr>rt_visited = rt_visited tk @ [h], rt_hop_limit = rt_hop_limit tk - 1\<rparr>))"

section \<open>The search\<close>

definition neighbors :: "adjacency \<Rightarrow> string \<Rightarrow> string list" where
  "neighbors adj n = (case omap_get adj n of None \<Rightarrow> [] | Some ns \<Rightarrow> ns)"

fun seed_paths :: "string \<Rightarrow> string set \<Rightarrow> string set \<Rightarrow> membership \<Rightarrow> string list \<Rightarrow> string list list \<Rightarrow> string set
    \<Rightarrow> string list list \<times> string set" where
  "seed_paths here links visited mem [] queue seen = (queue, seen)"
| "seed_paths here links visited mem (n # ns) queue seen =
     (if n \<notin> links \<or> n \<in> visited then seed_paths here links visited mem ns queue seen
      else if \<not> is_node_routeable mem n then seed_paths here links visited mem ns queue seen
      else seed_paths here links visited mem ns (queue @ [[here, n]]) (insert n seen))"

fun push_paths :: "string set \<Rightarrow> membership \<Rightarrow> string list \<Rightarrow> string list \<Rightarrow> string list list \<Rightarrow> string set
    \<Rightarrow> string list list \<times> string set" where
  "push_paths visited mem path [] queue seen = (queue, seen)"
| "push_paths visited mem path (n # ns) queue seen =
     (if n \<in> seen \<or> n \<in> visited then push_paths visited mem path ns queue seen
      else if \<not> is_node_routeable mem n then push_paths visited mem path ns queue seen
      else push_paths visited mem path ns (queue @ [path @ [n]]) (insert n seen))"

definition all_neighbors :: "adjacency \<Rightarrow> string set" where
  "all_neighbors adj = set (concat (map snd adj))"

lemma neighbors_all: "set (neighbors adj n) \<subseteq> all_neighbors adj"
proof (cases "omap_get adj n")
  case (Some ns)
  then have "(n, ns) \<in> set adj" by (rule map_of_SomeD)
  then show ?thesis using Some by (force simp: neighbors_def all_neighbors_def)
qed (simp add: neighbors_def)

lemma push_paths_measure:
  assumes "push_paths visited mem path ns queue seen = (queue', seen')" "set ns \<subseteq> U" "finite U"
  shows "length queue' + card (U - seen') \<le> length queue + card (U - seen)"
  using assms(1,2)
proof (induction ns arbitrary: queue seen)
  case (Cons n ns)
  show ?case
  proof (cases "n \<in> seen \<or> n \<in> visited \<or> \<not> is_node_routeable mem n")
    case True
    then show ?thesis using Cons by (auto split: if_splits)
  next
    case False
    then have r: "push_paths visited mem path ns (queue @ [path @ [n]]) (insert n seen) = (queue', seen')"
      using Cons.prems(1) by simp
    have "n \<in> U - seen" using False Cons.prems(2) by simp
    moreover have "U - insert n seen = (U - seen) - {n}" by blast
    ultimately have "Suc (card (U - insert n seen)) = card (U - seen)" using assms(3) by (metis card_Suc_Diff1 finite_Diff)
    then show ?thesis using Cons.IH [OF r] Cons.prems(2) by simp
  qed
qed simp

function search_paths :: "string set \<Rightarrow> membership \<Rightarrow> adjacency \<Rightarrow> string \<Rightarrow> string list list \<Rightarrow> string set \<Rightarrow> string list option" where
  "search_paths visited mem adj target [] seen = None"
| "search_paths visited mem adj target (path # queue) seen =
     (if last path = target then Some path
      else (let (queue', seen') = push_paths visited mem path (neighbors adj (last path)) queue seen
            in search_paths visited mem adj target queue' seen'))"
  by pat_completeness auto

termination
proof (relation "measure (\<lambda>(visited, mem, adj, target, queue, seen). length queue + card (all_neighbors adj - seen))")
  fix visited mem adj target path queue seen r queue' seen'
  assume "r = push_paths visited mem path (neighbors adj (last path)) queue seen" "(queue', seen') = r"
  then have "length queue' + card (all_neighbors adj - seen') \<le> length queue + card (all_neighbors adj - seen)"
    using push_paths_measure [of visited mem path "neighbors adj (last path)" queue seen queue' seen' "all_neighbors adj"]
      neighbors_all [of adj "last path"] by (simp add: all_neighbors_def)
  then show "((visited, mem, adj, target, queue', seen'), visited, mem, adj, target, path # queue, seen)
    \<in> measure (\<lambda>(visited, mem, adj, target, queue, seen). length queue + card (all_neighbors adj - seen))" by simp
qed simp

definition find_route_path :: "string \<Rightarrow> string \<Rightarrow> string set \<Rightarrow> string set \<Rightarrow> membership \<Rightarrow> adjacency \<Rightarrow> string list option" where
  "find_route_path here target links visited mem adj =
     (let (queue, seen) = seed_paths here links visited mem (neighbors adj here) [] visited
      in search_paths visited mem adj target queue seen)"

definition resolve_next_hop :: "string \<Rightarrow> string \<Rightarrow> string list \<Rightarrow> membership \<Rightarrow> adjacency \<Rightarrow> route_token option \<Rightarrow> int option
    \<Rightarrow> route_result" where
  "resolve_next_hop here target links mem adj token max_hops =
     (let tk = (case token of Some t \<Rightarrow> t
                | None \<Rightarrow> create_route_token here (case max_hops of None \<Rightarrow> 16 | Some n \<Rightarrow> n))
      in if rt_hop_limit tk \<le> 0 then Inl Hop_limit_exhausted
         else if target \<in> set (rt_visited tk) then Inl Route_loop
         else if \<not> is_node_routeable mem target then Inl Unsafe_node
         else if target \<in> set links then advance_route target tk
         else (case find_route_path here target (set links) (set (rt_visited tk)) mem adj of
                 None \<Rightarrow> Inl Unreachable
               | Some path \<Rightarrow> advance_route (path ! 1) tk))"

section \<open>The mesh object and its router\<close>

record labs_mesh =
  lm_local :: string
  lm_membership :: membership
  lm_directory :: directory
  lm_adjacency :: adjacency

definition new_mesh :: "collator \<Rightarrow> string \<Rightarrow> member list \<Rightarrow> dir_entry list \<Rightarrow> adjacency \<Rightarrow> labs_mesh" where
  "new_mesh c here ms es adj =
     \<lparr>lm_local = here, lm_membership = create_membership c ms, lm_directory = create_directory c es, lm_adjacency = adj\<rparr>"

definition mesh_apply_membership :: "collator \<Rightarrow> member \<Rightarrow> labs_mesh \<Rightarrow> labs_mesh" where
  "mesh_apply_membership c r m = m\<lparr>lm_membership := snd (snd (merge_member c (lm_membership m) r))\<rparr>"

definition record_peer :: "collator \<Rightarrow> string \<Rightarrow> incarnation option \<Rightarrow> (string, string) omap option \<Rightarrow> int
    \<Rightarrow> member_status option \<Rightarrow> labs_mesh \<Rightarrow> labs_mesh" where
  "record_peer c node inc metadata seen_at status m =
     mesh_apply_membership c
       \<lparr>mr_node = node, mr_incarnation = (case inc of None \<Rightarrow> Inc_number 0 | Some i \<Rightarrow> i),
        mr_state = (case status of None \<Rightarrow> Alive | Some s \<Rightarrow> s), mr_seen_at = seen_at, mr_metadata = metadata\<rparr> m"

definition mesh_apply_entry :: "collator \<Rightarrow> dir_entry \<Rightarrow> labs_mesh \<Rightarrow> labs_mesh" where
  "mesh_apply_entry c e m = m\<lparr>lm_directory := snd (snd (apply_entry c (lm_directory m) e))\<rparr>"

definition mesh_merge_entries :: "collator \<Rightarrow> dir_entry list \<Rightarrow> labs_mesh \<Rightarrow> labs_mesh" where
  "mesh_merge_entries c es m = m\<lparr>lm_directory := merge_entries c es (lm_directory m)\<rparr>"

definition mesh_location :: "labs_mesh \<Rightarrow> string \<Rightarrow> int \<Rightarrow> string option" where
  "mesh_location m a now = resolve_location (lm_directory m) a (Some now)"

definition set_adjacency :: "string \<Rightarrow> string list \<Rightarrow> labs_mesh \<Rightarrow> labs_mesh" where
  "set_adjacency node peers m = m\<lparr>lm_adjacency := omap_set node peers (lm_adjacency m)\<rparr>"

definition mesh_next_hop :: "labs_mesh \<Rightarrow> string \<Rightarrow> string list \<Rightarrow> route_token option \<Rightarrow> route_result" where
  "mesh_next_hop m target links token =
     resolve_next_hop (lm_local m) target links (lm_membership m) (lm_adjacency m) token None"

fun string_values :: "json option \<Rightarrow> string list option" where
  "string_values (Some (JArray xs)) =
     (if list_all (\<lambda>x. case x of JString s \<Rightarrow> True | _ \<Rightarrow> False) xs
      then Some (map (\<lambda>x. case x of JString s \<Rightarrow> s | _ \<Rightarrow> []) xs) else None)"
| "string_values _ = None"

fun integer_value :: "json option \<Rightarrow> int option" where
  "integer_value (Some (JNumber r)) = (if snd (quotient_of r) = 1 then Some (fst (quotient_of r)) else None)"
| "integer_value _ = None"

text \<open>\<open>isMeshRouteToken\<close>, with the token the value is used as.\<close>

definition route_token_of :: "json \<Rightarrow> route_token option" where
  "route_token_of v =
     (case (string_values (field v ''visitedNodes''), integer_value (field v ''hopLimit'')) of
        (Some vs, Some n) \<Rightarrow> Some \<lparr>rt_visited = vs, rt_hop_limit = n\<rparr>
      | _ \<Rightarrow> None)"

datatype router_error = Malformed_token | No_route route_failure

definition remote_next_hop :: "labs_mesh \<Rightarrow> route_token option \<Rightarrow> string \<Rightarrow> string list \<Rightarrow> json option
    \<Rightarrow> router_error + string \<times> route_token" where
  "remote_next_hop m fallback location links token =
     (case token of
        Some v \<Rightarrow>
          (case route_token_of v of
             None \<Rightarrow> Inl Malformed_token
           | Some tk \<Rightarrow> map_sum No_route id (mesh_next_hop m location links (Some tk)))
      | None \<Rightarrow> map_sum No_route id (mesh_next_hop m location links fallback))"

section \<open>Safe routes\<close>

definition eligible :: "string set \<Rightarrow> membership \<Rightarrow> string \<Rightarrow> bool" where
  "eligible visited mem n \<longleftrightarrow> n \<notin> visited \<and> is_node_routeable mem n"

text \<open>A chain of eligible nodes, each a neighbor of the one before.\<close>

fun chain :: "string set \<Rightarrow> membership \<Rightarrow> adjacency \<Rightarrow> string list \<Rightarrow> bool" where
  "chain visited mem adj [] = True"
| "chain visited mem adj [n] = eligible visited mem n"
| "chain visited mem adj (n # m # ns) = (eligible visited mem n \<and> m \<in> set (neighbors adj n) \<and> chain visited mem adj (m # ns))"

definition safe_route :: "string \<Rightarrow> string \<Rightarrow> string set \<Rightarrow> string set \<Rightarrow> membership \<Rightarrow> adjacency \<Rightarrow> string list \<Rightarrow> bool" where
  "safe_route here target links visited mem adj p \<longleftrightarrow>
     p \<noteq> [] \<and> hd p \<in> links \<and> hd p \<in> set (neighbors adj here) \<and> last p = target \<and> chain visited mem adj p"

lemma chain_snoc:
  "chain visited mem adj p \<Longrightarrow> p \<noteq> [] \<Longrightarrow> n \<in> set (neighbors adj (last p)) \<Longrightarrow> eligible visited mem n \<Longrightarrow>
   chain visited mem adj (p @ [n])"
  by (induction visited mem adj p rule: chain.induct) auto

text \<open>The shape of the paths in the queue: the local node, then a chain from a connected neighbor.\<close>

definition queued :: "string \<Rightarrow> string set \<Rightarrow> string set \<Rightarrow> membership \<Rightarrow> adjacency \<Rightarrow> string list \<Rightarrow> bool" where
  "queued here links visited mem adj path \<longleftrightarrow>
     (\<exists>p. path = here # p \<and> p \<noteq> [] \<and> hd p \<in> links \<and> hd p \<in> set (neighbors adj here) \<and> chain visited mem adj p)"

lemma seed_paths_spec:
  assumes "seed_paths here links visited mem ns queue seen = (queue', seen')"
  shows "set queue' = set queue \<union> (\<lambda>n. [here, n]) ` {n \<in> set ns. n \<in> links \<and> eligible visited mem n}"
    "seen' = seen \<union> {n \<in> set ns. n \<in> links \<and> eligible visited mem n}"
proof -
  have "set queue' = set queue \<union> (\<lambda>n. [here, n]) ` {n \<in> set ns. n \<in> links \<and> eligible visited mem n}
     \<and> seen' = seen \<union> {n \<in> set ns. n \<in> links \<and> eligible visited mem n}"
    using assms
  proof (induction ns arbitrary: queue seen)
    case (Cons n ns)
    show ?case
    proof (cases "n \<in> links \<and> eligible visited mem n")
      case True
      then have "seed_paths here links visited mem ns (queue @ [[here, n]]) (insert n seen) = (queue', seen')"
        using Cons.prems by (simp add: eligible_def)
      from Cons.IH [OF this] True show ?thesis by auto
    next
      case False
      then have "seed_paths here links visited mem ns queue seen = (queue', seen')"
        using Cons.prems by (auto simp: eligible_def split: if_splits)
      from Cons.IH [OF this] False show ?thesis by auto
    qed
  qed simp
  then show "set queue' = set queue \<union> (\<lambda>n. [here, n]) ` {n \<in> set ns. n \<in> links \<and> eligible visited mem n}"
    "seen' = seen \<union> {n \<in> set ns. n \<in> links \<and> eligible visited mem n}" by blast+
qed

lemma push_paths_spec:
  assumes "push_paths visited mem path ns queue seen = (queue', seen')"
  shows "set queue' = set queue \<union> (\<lambda>n. path @ [n]) ` {n \<in> set ns. n \<notin> seen \<and> eligible visited mem n}
     \<and> seen' = seen \<union> {n \<in> set ns. eligible visited mem n}"
  using assms
proof (induction ns arbitrary: queue seen)
  case (Cons n ns)
  show ?case
  proof (cases "n \<notin> seen \<and> eligible visited mem n")
    case True
    then have "push_paths visited mem path ns (queue @ [path @ [n]]) (insert n seen) = (queue', seen')"
      using Cons.prems by (simp add: eligible_def)
    from Cons.IH [OF this] True show ?thesis by auto
  next
    case False
    then have "push_paths visited mem path ns queue seen = (queue', seen')"
      using Cons.prems by (auto simp: eligible_def split: if_splits)
    from Cons.IH [OF this] False show ?thesis by auto
  qed
qed simp

lemma search_sound:
  "search_paths visited mem adj target queue seen = Some path \<Longrightarrow> \<forall>q \<in> set queue. queued here links visited mem adj q \<Longrightarrow>
   queued here links visited mem adj path \<and> last path = target"
proof (induction visited mem adj target queue seen rule: search_paths.induct)
  case (2 visited mem adj target q queue seen)
  show ?case
  proof (cases "last q = target")
    case True
    then show ?thesis using 2 by simp
  next
    case False
    obtain queue' seen' where ps: "push_paths visited mem q (neighbors adj (last q)) queue seen = (queue', seen')" by fastforce
    have r: "search_paths visited mem adj target queue' seen' = Some path" using 2(2) False ps by simp
    have "queued here links visited mem adj x" if "x \<in> set queue'" for x
    proof (cases "x \<in> set queue")
      case True
      then show ?thesis using 2(3) by simp
    next
      case notin: False
      then have "x \<in> (\<lambda>n. q @ [n]) ` {n \<in> set (neighbors adj (last q)). n \<notin> seen \<and> eligible visited mem n}"
        using push_paths_spec [OF ps] that by simp
      then obtain n where n: "x = q @ [n]" "n \<in> set (neighbors adj (last q))" "eligible visited mem n" by blast
      obtain p where p: "q = here # p" "p \<noteq> []" "hd p \<in> links" "hd p \<in> set (neighbors adj here)" "chain visited mem adj p"
        using 2(3) by (auto simp: queued_def)
      then show ?thesis using n chain_snoc [OF p(5,2)] by (auto simp: queued_def)
    qed
    then show ?thesis using 2(1) [OF False refl ps [symmetric] r] by blast
  qed
qed simp

text \<open>Every discovered node is waiting in the queue, or is not the target and has its eligible neighbors discovered.\<close>

definition explored :: "string set \<Rightarrow> membership \<Rightarrow> adjacency \<Rightarrow> string \<Rightarrow> string list list \<Rightarrow> string set \<Rightarrow> bool" where
  "explored visited mem adj target queue seen \<longleftrightarrow>
     (\<forall>x \<in> seen - visited. x \<in> last ` set queue
        \<or> (x \<noteq> target \<and> (\<forall>n \<in> set (neighbors adj x). eligible visited mem n \<longrightarrow> n \<in> seen)))"

lemma closed_chain:
  assumes "explored visited mem adj target [] seen" "chain visited mem adj p" "p \<noteq> []" "hd p \<in> seen"
  shows "last p \<noteq> target"
  using assms
proof (induction visited mem adj p rule: chain.induct)
  case (2 visited mem adj n)
  then show ?case by (auto simp: explored_def eligible_def)
next
  case (3 visited mem adj n m ns)
  have "eligible visited mem m" using 3(3) by (cases ns) auto
  moreover have "n \<in> seen - visited" using 3(3,5) by (simp add: eligible_def)
  ultimately have "m \<in> seen" using 3(2,3) by (auto simp: explored_def)
  then show ?case using 3 by simp
qed simp

lemma search_complete:
  "search_paths visited mem adj target queue seen = None \<Longrightarrow> explored visited mem adj target queue seen \<Longrightarrow>
   hd p \<in> seen \<Longrightarrow> p \<noteq> [] \<Longrightarrow> chain visited mem adj p \<Longrightarrow> last p \<noteq> target"
proof (induction visited mem adj target queue seen rule: search_paths.induct)
  case (1 visited mem adj target seen)
  then show ?case using closed_chain by blast
next
  case (2 visited mem adj target q queue seen)
  have nt: "last q \<noteq> target" using 2(2) by (auto split: if_splits)
  obtain queue' seen' where ps: "push_paths visited mem q (neighbors adj (last q)) queue seen = (queue', seen')" by fastforce
  have r: "search_paths visited mem adj target queue' seen' = None" using 2(2) nt ps by simp
  note sp = push_paths_spec [OF ps]
  have "explored visited mem adj target queue' seen'" unfolding explored_def
  proof
    fix x assume x: "x \<in> seen' - visited"
    show "x \<in> last ` set queue' \<or> (x \<noteq> target \<and> (\<forall>n \<in> set (neighbors adj x). eligible visited mem n \<longrightarrow> n \<in> seen'))"
    proof (cases "x \<in> seen")
      case True
      then consider "x \<in> last ` set queue" | "x = last q" | "x \<noteq> target \<and> (\<forall>n \<in> set (neighbors adj x). eligible visited mem n \<longrightarrow> n \<in> seen)"
        using 2(3) x by (auto simp: explored_def)
      then show ?thesis using sp nt by cases auto
    next
      case False
      then have "q @ [x] \<in> set queue'" using x sp by blast
      then show ?thesis by (metis image_eqI last_snoc)
    qed
  qed
  moreover have "hd p \<in> seen'" using sp 2(4) by blast
  ultimately show ?case using 2(1) [OF nt refl ps [symmetric] r] 2(5,6) by blast
qed

lemma chain_hd: "chain visited mem adj p \<Longrightarrow> p \<noteq> [] \<Longrightarrow> eligible visited mem (hd p)"
  by (induction visited mem adj p rule: chain.induct) auto

lemma find_route_sound:
  assumes "find_route_path here target links visited mem adj = Some path"
  shows "\<exists>p. path = here # p \<and> safe_route here target links visited mem adj p"
proof -
  obtain queue seen where s: "seed_paths here links visited mem (neighbors adj here) [] visited = (queue, seen)" by fastforce
  have "\<forall>q \<in> set queue. queued here links visited mem adj q"
    using seed_paths_spec(1) [OF s] by (auto simp: queued_def)
  from search_sound [OF _ this] have "queued here links visited mem adj path \<and> last path = target"
    using assms s by (simp add: find_route_path_def)
  then show ?thesis by (auto simp: queued_def safe_route_def)
qed

lemma find_route_complete:
  assumes "find_route_path here target links visited mem adj = None"
  shows "\<not> safe_route here target links visited mem adj p"
proof
  assume p: "safe_route here target links visited mem adj p"
  obtain queue seen where s: "seed_paths here links visited mem (neighbors adj here) [] visited = (queue, seen)" by fastforce
  have ch: "chain visited mem adj p" "p \<noteq> []" using p by (simp_all add: safe_route_def)
  then have "eligible visited mem (hd p)" by (rule chain_hd)
  then have "hd p \<in> seen" using seed_paths_spec(2) [OF s] p by (auto simp: safe_route_def)
  moreover have "explored visited mem adj target queue seen"
    using seed_paths_spec [OF s] by (force simp: explored_def image_iff)
  ultimately show False
    using search_complete [of visited mem adj target queue seen p] ch assms s p by (simp add: find_route_path_def safe_route_def)
qed

lemma safe_route_hop:
  assumes "safe_route here target links visited mem adj p"
  shows "hd p \<in> links" "hd p \<notin> visited" "is_node_routeable mem (hd p)"
proof -
  have "chain visited mem adj p" "p \<noteq> []" using assms by (simp_all add: safe_route_def)
  then have "eligible visited mem (hd p)" by (rule chain_hd)
  then show "hd p \<notin> visited" "is_node_routeable mem (hd p)" by (simp_all add: eligible_def)
qed (use assms in \<open>simp add: safe_route_def\<close>)

definition extend_token :: "route_token \<Rightarrow> string \<Rightarrow> route_token" where
  "extend_token tk h = \<lparr>rt_visited = rt_visited tk @ [h], rt_hop_limit = rt_hop_limit tk - 1\<rparr>"

lemma advance_route_new: "h \<notin> set (rt_visited tk) \<Longrightarrow> advance_route h tk = Inr (h, extend_token tk h)"
  by (simp add: advance_route_def extend_token_def)

lemma resolve_cases:
  assumes "0 < rt_hop_limit tk" "target \<notin> set (rt_visited tk)" "is_node_routeable mem target"
  shows "(\<exists>h. resolve_next_hop here target links mem adj (Some tk) mh = Inr (h, extend_token tk h)
       \<and> h \<in> set links \<and> h \<notin> set (rt_visited tk) \<and> is_node_routeable mem h
       \<and> (h = target \<or> (\<exists>p. safe_route here target (set links) (set (rt_visited tk)) mem adj (h # p))))
    \<or> (resolve_next_hop here target links mem adj (Some tk) mh = Inl Unreachable
       \<and> target \<notin> set links \<and> (\<forall>p. \<not> safe_route here target (set links) (set (rt_visited tk)) mem adj p))"
proof (cases "target \<in> set links")
  case True
  then show ?thesis using assms by (simp add: resolve_next_hop_def advance_route_new)
next
  case False
  show ?thesis
  proof (cases "find_route_path here target (set links) (set (rt_visited tk)) mem adj")
    case None
    then show ?thesis using assms False find_route_complete [OF None] by (simp add: resolve_next_hop_def)
  next
    case (Some path)
    then obtain p where p: "path = here # p" "safe_route here target (set links) (set (rt_visited tk)) mem adj p"
      using find_route_sound by blast
    have hd: "path ! 1 = hd p" "hd p # tl p = p" using p by (cases p; simp add: safe_route_def)+
    then have "resolve_next_hop here target links mem adj (Some tk) mh = Inr (hd p, extend_token tk (hd p))"
      using assms False Some safe_route_hop(2) [OF p(2)] by (simp add: resolve_next_hop_def advance_route_new)
    then show ?thesis using safe_route_hop [OF p(2)] p(2) hd(2) by metis
  qed
qed

text \<open>
  C24. Next-hop selection is exact: for a routeable target that the delivery has not visited, a hop
  is found if and only if the target is connected or some chain of routeable, unvisited nodes
  leads to it from a connected neighbor; the hop is then the first node of such a chain: connected,
  routeable and not visited before. Otherwise the route fails as unreachable.\<close>

theorem next_hop_exact:
  assumes "0 < rt_hop_limit tk" "target \<notin> set (rt_visited tk)" "is_node_routeable mem target"
  shows "(if target \<in> set links \<or> (\<exists>p. safe_route here target (set links) (set (rt_visited tk)) mem adj p)
     then \<exists>h. resolve_next_hop here target links mem adj (Some tk) mh = Inr (h, extend_token tk h)
       \<and> h \<in> set links \<and> h \<notin> set (rt_visited tk) \<and> is_node_routeable mem h
       \<and> (h = target \<or> (\<exists>p. safe_route here target (set links) (set (rt_visited tk)) mem adj (h # p)))
     else resolve_next_hop here target links mem adj (Some tk) mh = Inl Unreachable)"
proof (cases "target \<in> set links \<or> (\<exists>p. safe_route here target (set links) (set (rt_visited tk)) mem adj p)")
  case True
  then show ?thesis using resolve_cases [OF assms, of here links adj mh] by (simp only: if_True) blast
next
  case False
  then show ?thesis using resolve_cases [OF assms, of here links adj mh] by (simp only: if_False) (metis list.inject)
qed

definition node_alive :: "string \<Rightarrow> string \<times> member" where
  "node_alive n = (n, \<lparr>mr_node = n, mr_incarnation = Inc_number 1, mr_state = Alive, mr_seen_at = 0, mr_metadata = None\<rparr>)"

lemma next_hop_exact_witness:
  "\<exists>h. resolve_next_hop ''a'' ''c'' [''b''] [node_alive ''b'', node_alive ''c''] [(''a'', [''b'']), (''b'', [''c''])]
        (Some (create_route_token ''a'' 16)) None = Inr (h, extend_token (create_route_token ''a'' 16) h) \<and> h \<in> set [''b'']"
proof -
  have s: "safe_route ''a'' ''c'' (set [''b'']) (set (rt_visited (create_route_token ''a'' 16)))
      [node_alive ''b'', node_alive ''c''] [(''a'', [''b'']), (''b'', [''c''])] [''b'', ''c'']" by code_simp
  have h: "0 < rt_hop_limit (create_route_token ''a'' 16)" "''c'' \<notin> set (rt_visited (create_route_token ''a'' 16))"
    "is_node_routeable [node_alive ''b'', node_alive ''c''] ''c''" by code_simp+
  show ?thesis
    using next_hop_exact [OF h, of "[''b'']" "''a''" "[(''a'', [''b'']), (''b'', [''c''])]" None] s
    by (simp split: if_splits)
qed

section \<open>A delivery across nodes\<close>

text \<open>Each node that relays the delivery decides with its own view: its links, its membership, its adjacency.\<close>

inductive relayed :: "string \<Rightarrow> string \<Rightarrow> int \<Rightarrow> nat \<Rightarrow> route_token \<Rightarrow> bool" where
  relay_start: "relayed origin target limit 0 (create_route_token origin limit)"
| relay_hop: "relayed origin target limit k tk \<Longrightarrow>
    resolve_next_hop (last (rt_visited tk)) target links mem adj (Some tk) mh = Inr (h, tk') \<Longrightarrow>
    relayed origin target limit (Suc k) tk'"

lemma resolve_hop_token:
  assumes "resolve_next_hop here target links mem adj (Some tk) mh = Inr (h, tk')"
  shows "tk' = extend_token tk h" "h \<notin> set (rt_visited tk)" "0 < rt_hop_limit tk" "target \<notin> set (rt_visited tk)"
    "h \<in> set links" "is_node_routeable mem h"
proof -
  show g: "0 < rt_hop_limit tk" "target \<notin> set (rt_visited tk)"
    using assms by (auto simp: resolve_next_hop_def split: if_splits)
  have "is_node_routeable mem target" using assms by (auto simp: resolve_next_hop_def split: if_splits)
  from resolve_cases [OF g this, of here links adj mh] assms
  show "tk' = extend_token tk h" "h \<notin> set (rt_visited tk)" "h \<in> set links" "is_node_routeable mem h" by auto
qed

lemma relayed_token:
  "relayed origin target limit k tk \<Longrightarrow>
   distinct (rt_visited tk) \<and> length (rt_visited tk) = Suc k \<and> hd (rt_visited tk) = origin
   \<and> rt_hop_limit tk = limit - int k \<and> (k = 0 \<or> 0 \<le> rt_hop_limit tk)
   \<and> (target \<in> set (rt_visited tk) \<longrightarrow> last (rt_visited tk) = target)"
proof (induction rule: relayed.induct)
  case (relay_hop origin target limit k tk links mem adj mh h tk')
  then show ?case using resolve_hop_token [OF relay_hop.hyps(2)]
    by (auto simp: extend_token_def hd_append)
qed (simp add: create_route_token_def)

text \<open>
  C25. A delivery cannot be relayed forever or in a circle, whatever the views of the relaying
  nodes, however stale or inconsistent: it never reaches a node twice, it is relayed at most hop
  limit times, and once at its target it goes no further.\<close>

theorem delivery_bounded:
  assumes "relayed origin target limit k tk"
  shows "distinct (rt_visited tk) \<and> length (rt_visited tk) = k + 1 \<and> int k \<le> max 0 limit
    \<and> (target \<in> set (rt_visited tk) \<longrightarrow> last (rt_visited tk) = target
        \<and> (\<forall>here links mem adj mh. isl (resolve_next_hop here target links mem adj (Some tk) mh)))"
proof -
  have "isl (resolve_next_hop here target links mem adj (Some tk) mh)"
    if "target \<in> set (rt_visited tk)" for here links mem adj mh
    using resolve_hop_token(4) [of here target links mem adj tk mh] that
    by (metis isl_def sum.exhaust_sel surj_pair)
  then show ?thesis using relayed_token [OF assms] by auto
qed

lemma delivery_bounded_witness:
  "distinct (rt_visited (extend_token (create_route_token ''a'' 16) ''b''))
   \<and> length (rt_visited (extend_token (create_route_token ''a'' 16) ''b'')) = 2"
proof -
  have "resolve_next_hop (last (rt_visited (create_route_token ''a'' 16))) ''b'' [''b''] [node_alive ''b''] []
      (Some (create_route_token ''a'' 16)) None = Inr (''b'', extend_token (create_route_token ''a'' 16) ''b'')" by code_simp
  from relay_hop [OF relay_start this] show ?thesis
    using delivery_bounded [of "''a''" "''b''" 16 1 "extend_token (create_route_token ''a'' 16) ''b''"] by simp
qed

end
