(* ===== verification/Text_Encoding.thy ===== *)
theory Text_Encoding
  imports Actor_Prelude
begin

text \<open>
  \<open>encodeURIComponent\<close>, which the runtime uses to build keys out of parts: it is injective, and
  its results have no colon, so parts joined by colons can be told apart.
\<close>

text \<open>\<open>encodeURIComponent\<close>: characters outside the unreserved set become the percent-encoded bytes of UTF-8.\<close>

definition unreserved :: "char \<Rightarrow> bool" where
  "unreserved c \<longleftrightarrow>
     (let n = of_char c :: nat
      in 48 \<le> n \<and> n \<le> 57 \<or> 65 \<le> n \<and> n \<le> 90 \<or> 97 \<le> n \<and> n \<le> 122 \<or> n \<in> {33, 39, 40, 41, 42, 45, 46, 95, 126})"

definition hex_char :: "nat \<Rightarrow> char" where
  "hex_char n = (if n < 10 then char_of (48 + n) else char_of (55 + n))"

definition percent :: "nat \<Rightarrow> string" where
  "percent n = [CHR ''%'', hex_char (n div 16), hex_char (n mod 16)]"

definition encode_char :: "char \<Rightarrow> string" where
  "encode_char c =
     (let n = of_char c :: nat
      in if unreserved c then [c]
         else if n < 128 then percent n
         else percent (192 + n div 64) @ percent (128 + n mod 64))"

definition encode_component :: "string \<Rightarrow> string" where
  "encode_component s = concat (map encode_char s)"

lemma hex_char_inject: "a < 16 \<Longrightarrow> b < 16 \<Longrightarrow> hex_char a = hex_char b \<longleftrightarrow> a = b"
proof -
  assume ab: "a < 16" "b < 16"
  have v: "(of_char (hex_char n) :: nat) = (if n < 10 then 48 + n else 55 + n)" if "n < 16" for n
    using that by (simp add: hex_char_def)
  show ?thesis
  proof
    assume "hex_char a = hex_char b"
    then have "(of_char (hex_char a) :: nat) = of_char (hex_char b)" by simp
    then show "a = b" using v [OF ab(1)] v [OF ab(2)] ab by (simp split: if_splits)
  qed simp
qed

lemma percent_inject: "a < 256 \<Longrightarrow> b < 256 \<Longrightarrow> percent a = percent b \<longleftrightarrow> a = b"
proof -
  assume ab: "a < 256" "b < 256"
  have "a div 16 < 16" "b div 16 < 16" using ab by simp_all
  then have "percent a = percent b \<longleftrightarrow> a div 16 = b div 16 \<and> a mod 16 = b mod 16"
    by (simp add: percent_def hex_char_inject)
  then show ?thesis by (metis div_mult_mod_eq)
qed

lemma percent_append: "a < 256 \<Longrightarrow> b < 256 \<Longrightarrow> percent a @ r = percent b @ r' \<longleftrightarrow> a = b \<and> r = r'"
  using percent_inject [of a b] by (auto simp: percent_def)

lemma unreserved_percent: "\<not> unreserved CHR ''%''" by (simp add: unreserved_def)

lemma of_char_256: "(of_char c :: nat) < 256" by (rule nat_of_char_less_256)

lemma of_char_div: "(of_char c :: nat) div 64 < 4" using of_char_256 [of c] by linarith

lemma encode_char_append:
  assumes "encode_char a @ r = encode_char b @ r'"
  shows "a = b \<and> r = r'"
proof -
  let ?m = "of_char a :: nat" and ?n = "of_char b :: nat"
  have lt: "?m < 256" "?n < 256" by (simp_all add: of_char_256)
  have same: "?m = ?n \<Longrightarrow> a = b" by simp
  consider "unreserved a" "unreserved b" | "unreserved a \<noteq> unreserved b"
    | "\<not> unreserved a" "\<not> unreserved b" "?m < 128" "?n < 128"
    | "\<not> unreserved a" "\<not> unreserved b" "(?m < 128) \<noteq> (?n < 128)"
    | "\<not> unreserved a" "\<not> unreserved b" "128 \<le> ?m" "128 \<le> ?n" by linarith
  then show ?thesis
  proof cases
    case 1
    then show ?thesis using assms by (simp add: encode_char_def)
  next
    case 2
    then show ?thesis using assms unreserved_percent by (auto simp: encode_char_def percent_def Let_def split: if_splits)
  next
    case 3
    then have "percent ?m @ r = percent ?n @ r'" using assms by (simp add: encode_char_def)
    then show ?thesis using percent_append [OF lt] same by simp
  next
    case 4
    have ne: "percent x @ s \<noteq> percent (192 + y div 64) @ t" if "x < 128" "y < 256" for x y s t
      using that percent_append [of x "192 + y div 64" s t] by simp
    have "encode_char a @ r \<noteq> encode_char b @ r'"
    proof (cases "?m < 128")
      case True
      then show ?thesis using 4 ne [OF True lt(2)] by (simp add: encode_char_def Let_def)
    next
      case False
      then have n: "?n < 128" using 4 by simp
      show ?thesis using 4 False n ne [OF n lt(1)] by (simp add: encode_char_def Let_def) metis
    qed
    then show ?thesis using assms by simp
  next
    case 5
    have d: "?m div 64 < 4" "?n div 64 < 4" by (rule of_char_div)+
    have "percent (192 + ?m div 64) @ percent (128 + ?m mod 64) @ r = percent (192 + ?n div 64) @ percent (128 + ?n mod 64) @ r'"
      using assms 5 by (simp add: encode_char_def Let_def)
    then have "192 + ?m div 64 = 192 + ?n div 64" "percent (128 + ?m mod 64) @ r = percent (128 + ?n mod 64) @ r'"
      using percent_append [of "192 + ?m div 64" "192 + ?n div 64"] d by simp_all
    moreover from this(2) have "128 + ?m mod 64 = 128 + ?n mod 64 \<and> r = r'"
      using percent_append [of "128 + ?m mod 64" "128 + ?n mod 64" r r'] by simp
    ultimately show ?thesis using same by (metis add_left_cancel div_mult_mod_eq)
  qed
qed

lemma encode_char_nonempty [simp]: "encode_char c \<noteq> []" by (simp add: encode_char_def percent_def Let_def)

lemma encode_component_inject: "encode_component a = encode_component b \<Longrightarrow> a = b"
proof (induction a arbitrary: b)
  case Nil
  then show ?case by (cases b) (simp_all add: encode_component_def)
next
  case (Cons x a)
  then obtain y b' where b: "b = y # b'" by (cases b) (auto simp: encode_component_def)
  then have "encode_char x @ encode_component a = encode_char y @ encode_component b'"
    using Cons.prems by (simp add: encode_component_def)
  from encode_char_append [OF this] show ?case using Cons.IH b by blast
qed

lemma hex_char_colon: "n < 16 \<Longrightarrow> hex_char n \<noteq> CHR '':''"
proof
  assume n: "n < 16" "hex_char n = CHR '':''"
  have "(of_char (hex_char n) :: nat) = (if n < 10 then 48 + n else 55 + n)" using n(1) by (simp add: hex_char_def)
  then show False using n by (simp split: if_splits)
qed

lemma encode_char_colon: "CHR '':'' \<notin> set (encode_char c)"
proof -
  have p: "CHR '':'' \<notin> set (percent n)" if "n < 256" for n
    proof -
    have "n div 16 < 16" using that by simp
    then show ?thesis using hex_char_colon [of "n div 16"] hex_char_colon [of "n mod 16"] by (auto simp: percent_def)
  qed
  have lt: "(of_char c :: nat) < 256" by (rule of_char_256)
  have "192 + of_char c div 64 < (256 :: nat)" "128 + of_char c mod 64 < (256 :: nat)" using of_char_div [of c] by simp_all
  then show ?thesis using p lt by (auto simp: encode_char_def Let_def unreserved_def)
qed

lemma encode_component_colon: "CHR '':'' \<notin> set (encode_component s)"
  using encode_char_colon by (auto simp: encode_component_def)

lemma colon_split:
  assumes "p @ [CHR '':''] @ r = q @ [CHR '':''] @ r'" "CHR '':'' \<notin> set p" "CHR '':'' \<notin> set q"
  shows "p = q \<and> r = r'"
proof -
  have t: "takeWhile (\<lambda>c. c \<noteq> CHR '':'') (x @ [CHR '':''] @ y) = x" if "CHR '':'' \<notin> set x" for x y
    using that by (induction x) auto
  have "p = q" using t [OF assms(2), of r] t [OF assms(3), of r'] assms(1) by simp
  then show ?thesis using assms(1) by simp
qed

end
