(* ===== verification/Effect_Journal.thy ===== *)
theory Effect_Journal
  imports Transport_Contract Text_Encoding
begin

text \<open>
  The journal that makes a provider's lifecycle effects (spawn, signal, probes) happen at most once:
  \<open>node-provider-lifecycle-effect-journal.ts\<close>, and its client \<open>runEffect\<close> of
  \<open>node-provider-actor.ts\<close> (claim, perform, record), whose perform step takes time and so
  interleaves with other calls. A journal is an interface (the locale \<open>effect_journal\<close>) that the
  in-memory journal implements. Results are JSON-compatible values, a type parameter: the clones
  and freezes of the source are the identity on them. Texts are lists of characters below 256.
\<close>

section \<open>Idempotency keys\<close>

datatype effect_kind =
    Duplicate_prevention | Spawn | Signal | Readiness | Filesystem_probe | Model_cache_inspect | Cancellation

fun kind_text :: "effect_kind \<Rightarrow> string" where
  "kind_text Duplicate_prevention = ''duplicate_prevention''"
| "kind_text Spawn = ''spawn''"
| "kind_text Signal = ''signal''"
| "kind_text Readiness = ''readiness''"
| "kind_text Filesystem_probe = ''filesystem_probe''"
| "kind_text Model_cache_inspect = ''model_cache_inspect''"
| "kind_text Cancellation = ''cancellation''"

record key_input =
  ki_kind :: effect_kind
  ki_provider :: string
  ki_operation :: string
  ki_activation :: "string option"
  ki_acquisition :: "string option"
  ki_handle :: "string option"
  ki_target :: "string option"

fun join_colon :: "string list \<Rightarrow> string" where
  "join_colon [] = []"
| "join_colon [p] = p"
| "join_colon (p # q # ps) = p @ [CHR '':''] @ join_colon (q # ps)"

text \<open>An absent and an empty part are left out.\<close>

definition optional_part :: "string \<Rightarrow> string option \<Rightarrow> string list" where
  "optional_part label v =
     (case v of None \<Rightarrow> [] | Some s \<Rightarrow> if s = [] then [] else [label @ encode_component s])"

definition key_parts :: "key_input \<Rightarrow> string list" where
  "key_parts i =
     [''node-provider-lifecycle-effect'', ''key'', ''kind='' @ kind_text (ki_kind i),
      ''provider='' @ encode_component (ki_provider i), ''operation='' @ encode_component (ki_operation i)]
     @ optional_part ''activation='' (ki_activation i) @ optional_part ''acquisition='' (ki_acquisition i)
     @ optional_part ''handle='' (ki_handle i) @ optional_part ''target='' (ki_target i)"

definition create_idempotency_key :: "key_input \<Rightarrow> string option" where
  "create_idempotency_key i =
     (if blank (ki_provider i) then None
      else if blank (ki_operation i) then None
      else Some (join_colon (key_parts i)))"

section \<open>The in-memory journal\<close>

datatype effect_status = Pending_effect | Recorded_effect

record 'r effect_record =
  er_key :: string
  er_kind :: effect_kind
  er_recorded_at :: string
  er_result :: 'r

record 'r journal_entry =
  je_kind :: effect_kind
  je_status :: effect_status
  je_record :: "'r effect_record option"

type_synonym 'r journal = "(string, 'r journal_entry) omap"

datatype 'r effect_claim =
    Claimed_effect
  | Duplicate_effect effect_status "'r effect_record option"
  | Kind_mismatch effect_kind effect_kind

definition journal_claim :: "string \<Rightarrow> effect_kind \<Rightarrow> 'r journal \<Rightarrow> 'r effect_claim \<times> 'r journal" where
  "journal_claim key kind j =
     (case omap_get j key of
        None \<Rightarrow> (Claimed_effect, omap_set key \<lparr>je_kind = kind, je_status = Pending_effect, je_record = None\<rparr> j)
      | Some cur \<Rightarrow>
          if je_kind cur \<noteq> kind then (Kind_mismatch (je_kind cur) kind, j)
          else if je_status cur = Recorded_effect then (Duplicate_effect Recorded_effect (je_record cur), j)
          else (Duplicate_effect Pending_effect None, j))"

datatype 'r record_result =
    Recorded_now "'r effect_record"
  | Missing_claim
  | Already_recorded "'r effect_record"
  | Record_mismatch effect_kind effect_kind

definition journal_record :: "'r effect_record \<Rightarrow> 'r journal \<Rightarrow> 'r record_result \<times> 'r journal" where
  "journal_record r j =
     (case omap_get j (er_key r) of
        None \<Rightarrow> (Missing_claim, j)
      | Some cur \<Rightarrow>
          if je_kind cur \<noteq> er_kind r then (Record_mismatch (je_kind cur) (er_kind r), j)
          else (case (je_status cur, je_record cur) of
                  (Recorded_effect, Some old) \<Rightarrow> (Already_recorded old, j)
                | _ \<Rightarrow> (Recorded_now r,
                        omap_set (er_key r) \<lparr>je_kind = er_kind r, je_status = Recorded_effect, je_record = Some r\<rparr> j)))"

datatype 'r replay_result =
    Replay_missing
  | Replay_pending
  | Replay_recorded "'r effect_record"
  | Replay_mismatch effect_kind effect_kind

definition journal_replay :: "string \<Rightarrow> effect_kind \<Rightarrow> 'r journal \<Rightarrow> 'r replay_result" where
  "journal_replay key kind j =
     (case omap_get j key of
        None \<Rightarrow> Replay_missing
      | Some cur \<Rightarrow>
          if je_kind cur \<noteq> kind then Replay_mismatch (je_kind cur) kind
          else (case (je_status cur, je_record cur) of
                  (Recorded_effect, Some r) \<Rightarrow> Replay_recorded r
                | _ \<Rightarrow> Replay_pending))"

section \<open>Running an effect\<close>

text \<open>
  \<open>runEffect\<close> up to the call of \<open>perform\<close>, and from its return or throw (then the result is the
  structured failure of the kind) to the end. Calls are numbered by the caller. The journal's
  \<open>claim\<close> and \<open>record\<close> are arguments.
\<close>

datatype run_error = Invalid_effect_key | Already_pending | Kind_error effect_kind effect_kind | Not_persisted

datatype 'r run_output =
    Perform nat string                    \<comment> \<open>\<open>params.perform()\<close> is called\<close>
  | Effect_result nat string 'r bool      \<comment> \<open>outcome \<open>recorded\<close>, whether replayed\<close>
  | Effect_error nat run_error

record ('j, 'r) runner =
  ru_journal :: 'j
  ru_running :: "(nat, string \<times> effect_kind) omap"

definition run_effect_begin ::
  "(string \<Rightarrow> effect_kind \<Rightarrow> 'j \<Rightarrow> 'r effect_claim \<times> 'j) \<Rightarrow> nat \<Rightarrow> key_input \<Rightarrow> ('j, 'r) runner
    \<Rightarrow> 'r run_output list \<times> ('j, 'r) runner" where
  "run_effect_begin claim n i ru =
     (case create_idempotency_key i of
        None \<Rightarrow> ([Effect_error n Invalid_effect_key], ru)
      | Some key \<Rightarrow>
          (let (res, j) = claim key (ki_kind i) (ru_journal ru); ru1 = ru\<lparr>ru_journal := j\<rparr>
           in case res of
                Kind_mismatch e a \<Rightarrow> ([Effect_error n (Kind_error e a)], ru1)
              | Duplicate_effect st (Some r) \<Rightarrow> ([Effect_result n key (er_result r) True], ru1)
              | Duplicate_effect st None \<Rightarrow> ([Effect_error n Already_pending], ru1)
              | Claimed_effect \<Rightarrow> ([Perform n key], ru1\<lparr>ru_running := omap_set n (key, ki_kind i) (ru_running ru)\<rparr>)))"

definition run_effect_end ::
  "('r effect_record \<Rightarrow> 'j \<Rightarrow> 'r record_result \<times> 'j) \<Rightarrow> nat \<Rightarrow> string \<Rightarrow> 'r \<Rightarrow> ('j, 'r) runner
    \<Rightarrow> 'r run_output list \<times> ('j, 'r) runner" where
  "run_effect_end record n now result ru =
     (case omap_get (ru_running ru) n of
        None \<Rightarrow> ([], ru)
      | Some (key, kind) \<Rightarrow>
          (let (res, j) = record \<lparr>er_key = key, er_kind = kind, er_recorded_at = now, er_result = result\<rparr> (ru_journal ru);
               ru1 = ru\<lparr>ru_journal := j, ru_running := omap_delete n (ru_running ru)\<rparr>
           in case res of
                Record_mismatch e a \<Rightarrow> ([Effect_error n (Kind_error e a)], ru1)
              | Missing_claim \<Rightarrow> ([Effect_error n Not_persisted], ru1)
              | Recorded_now r \<Rightarrow> ([Effect_result n key (er_result r) False], ru1)
              | Already_recorded r \<Rightarrow> ([Effect_result n key (er_result r) True], ru1)))"

section \<open>Keys identify operations\<close>

lemma join_colon_inject:
  "join_colon ps = join_colon qs \<Longrightarrow> ps \<noteq> [] \<Longrightarrow> qs \<noteq> [] \<Longrightarrow> (\<forall>p \<in> set ps. CHR '':'' \<notin> set p) \<Longrightarrow> (\<forall>q \<in> set qs. CHR '':'' \<notin> set q)
   \<Longrightarrow> ps = qs"
proof (induction ps arbitrary: qs rule: join_colon.induct)
  case (2 p)
  then obtain q qs' where q: "qs = q # qs'" by (cases qs) auto
  show ?case
  proof (cases qs')
    case (Cons x xs)
    then have "p = q @ [CHR '':''] @ join_colon (x # xs)" using 2 q by simp
    then have "CHR '':'' \<in> set p" by simp
    then show ?thesis using 2(4) by simp
  qed (use 2 q in simp)
next
  case (3 p p' ps)
  then obtain q qs' where q: "qs = q # qs'" by (cases qs) auto
  show ?case
  proof (cases qs')
    case Nil
    then have "q = p @ [CHR '':''] @ join_colon (p' # ps)" using 3(2) q by simp
    then have "CHR '':'' \<in> set q" by simp
    then show ?thesis using 3(6) q by simp
  next
    case (Cons x xs)
    then have "p = q \<and> join_colon (p' # ps) = join_colon (x # xs)"
      using 3(2,5,6) q colon_split [of p "join_colon (p' # ps)" q "join_colon (x # xs)"] by simp
    then show ?thesis using 3(1) [of "x # xs"] 3(5,6) q Cons by simp
  qed
qed simp

definition part :: "string option \<Rightarrow> string option" where
  "part v = (if v = Some [] then None else v)"

text \<open>What an input denotes: an empty optional part counts as absent.\<close>

definition operation_of :: "key_input \<Rightarrow> effect_kind \<times> string \<times> string \<times> string option \<times> string option \<times> string option \<times> string option" where
  "operation_of i = (ki_kind i, ki_provider i, ki_operation i, part (ki_activation i), part (ki_acquisition i), part (ki_handle i), part (ki_target i))"

lemma optional_part_cases: "optional_part label v = (case part v of None \<Rightarrow> [] | Some s \<Rightarrow> [label @ encode_component s])"
  by (auto simp: optional_part_def part_def split: option.split)

lemma optional_part_step:
  assumes "optional_part label v @ r = optional_part label w @ r'"
    "\<And>s. label @ s \<notin> set r" "\<And>s. label @ s \<notin> set r'"
  shows "part v = part w \<and> r = r'"
proof (cases "part v")
  case None
  then show ?thesis using assms(1) assms(2) by (cases "part w") (auto simp: optional_part_cases)
next
  case (Some a)
  show ?thesis
  proof (cases "part w")
    case None
    then have "(label @ encode_component a) # r = r'" using assms(1) Some by (simp add: optional_part_cases)
    then have "label @ encode_component a \<in> set r'" by auto
    then show ?thesis using assms(3) by blast
  next
    case w: (Some b)
    then have "encode_component a = encode_component b" "r = r'" using assms(1) Some by (simp_all add: optional_part_cases)
    then show ?thesis using Some w encode_component_inject by simp
  qed
qed

lemma optional_part_label:
  assumes "x \<in> set (optional_part label v)"
  shows "\<exists>s. x = label @ s"
  using assms by (auto simp: optional_part_cases split: option.splits)

lemma kind_text_inject: "kind_text a = kind_text b \<longleftrightarrow> a = b"
  by (cases a; cases b) simp_all

lemma key_parts_inject:
  assumes "key_parts i = key_parts i'"
  shows "operation_of i = operation_of i'"
proof -
  define t where "t i = optional_part ''target='' (ki_target i)" for i :: key_input
  define h where "h i = optional_part ''handle='' (ki_handle i) @ t i" for i :: key_input
  define q where "q i = optional_part ''acquisition='' (ki_acquisition i) @ h i" for i :: key_input
  have fixed: "ki_kind i = ki_kind i'" "ki_provider i = ki_provider i'" "ki_operation i = ki_operation i'"
    and opts: "optional_part ''activation='' (ki_activation i) @ q i = optional_part ''activation='' (ki_activation i') @ q i'"
    using assms encode_component_inject by (auto simp: key_parts_def kind_text_inject q_def h_def t_def)
  have "''target='' @ s \<notin> set []" for s :: string by simp
  have nh: "''handle='' @ s \<notin> set (t j)" for s j by (auto simp: t_def dest!: optional_part_label)
  have nq: "''acquisition='' @ s \<notin> set (h j)" for s j by (auto simp: t_def h_def dest!: optional_part_label)
  have na: "''activation='' @ s \<notin> set (q j)" for s j by (auto simp: t_def h_def q_def dest!: optional_part_label)
  have a: "part (ki_activation i) = part (ki_activation i')" "q i = q i'"
    using optional_part_step [OF opts na na] by simp_all
  have b: "part (ki_acquisition i) = part (ki_acquisition i')" "h i = h i'"
    using optional_part_step [OF a(2) [unfolded q_def] nq nq] by simp_all
  have c: "part (ki_handle i) = part (ki_handle i')" "t i = t i'"
    using optional_part_step [OF b(2) [unfolded h_def] nh nh] by simp_all
  have "part (ki_target i) = part (ki_target i')"
    using optional_part_step [of "''target=''" "ki_target i" "[]" "ki_target i'" "[]"] c(2) by (simp add: t_def)
  then show ?thesis using fixed a b c by (simp add: operation_of_def)
qed

lemma kind_text_colon: "CHR '':'' \<notin> set (kind_text k)" by (cases k) simp_all

lemma key_parts_colon: "\<forall>p \<in> set (key_parts i). CHR '':'' \<notin> set p"
  using encode_component_colon kind_text_colon by (auto simp: key_parts_def optional_part_cases split: option.splits)

lemma key_inject:
  assumes "create_idempotency_key i = Some k" "create_idempotency_key i' = Some k"
  shows "operation_of i = operation_of i'"
proof -
  have "join_colon (key_parts i) = join_colon (key_parts i')"
    using assms by (auto simp: create_idempotency_key_def split: if_splits)
  then have "key_parts i = key_parts i'"
    by (rule join_colon_inject) (simp_all add: key_parts_colon, simp_all add: key_parts_def)
  then show ?thesis by (rule key_parts_inject)
qed

text \<open>
  The idempotency key of an effect identifies its operation: two inputs get the same key only
  if they agree on kind, provider, operation key and every optional part (an empty one being an
  absent one), whatever characters these contain.\<close>

theorem key_identifies_operation:
  assumes "create_idempotency_key i = Some k" "create_idempotency_key i' = Some k"
  shows "operation_of i = operation_of i'"
  using assms by (rule key_inject)


definition sample_key :: "string \<Rightarrow> string \<Rightarrow> key_input" where
  "sample_key op act = \<lparr>ki_kind = Spawn, ki_provider = ''p'', ki_operation = op, ki_activation = Some act,
     ki_acquisition = None, ki_handle = None, ki_target = None\<rparr>"

lemma key_identifies_operation_witness:
  "operation_of (sample_key ''s:1'' ''a'') = operation_of ((sample_key ''s:1'' ''a'')\<lparr>ki_target := Some []\<rparr>)"
proof -
  have "create_idempotency_key (sample_key ''s:1'' ''a'')
      = Some ''node-provider-lifecycle-effect:key:kind=spawn:provider=p:operation=s%3A1:activation=a''" by code_simp
  moreover have "create_idempotency_key ((sample_key ''s:1'' ''a'')\<lparr>ki_target := Some []\<rparr>)
      = Some ''node-provider-lifecycle-effect:key:kind=spawn:provider=p:operation=s%3A1:activation=a''" by code_simp
  ultimately show ?thesis by (rule key_identifies_operation)
qed

section \<open>Effects under interleaved calls\<close>

datatype 'r effect_event = Begin_effect nat key_input | End_effect nat string 'r

fun effect_step ::
  "(string \<Rightarrow> effect_kind \<Rightarrow> 'j \<Rightarrow> 'r effect_claim \<times> 'j) \<Rightarrow> ('r effect_record \<Rightarrow> 'j \<Rightarrow> 'r record_result \<times> 'j)
    \<Rightarrow> 'r effect_event \<Rightarrow> ('j, 'r) runner \<Rightarrow> 'r run_output list \<times> ('j, 'r) runner" where
  "effect_step claim recorder (Begin_effect n i) ru = run_effect_begin claim n i ru"
| "effect_step claim recorder (End_effect n now r) ru = run_effect_end recorder n now r ru"

fun effect_run ::
  "(string \<Rightarrow> effect_kind \<Rightarrow> 'j \<Rightarrow> 'r effect_claim \<times> 'j) \<Rightarrow> ('r effect_record \<Rightarrow> 'j \<Rightarrow> 'r record_result \<times> 'j)
    \<Rightarrow> 'r effect_event list \<Rightarrow> ('j, 'r) runner \<Rightarrow> 'r run_output list \<times> ('j, 'r) runner" where
  "effect_run claim recorder [] ru = ([], ru)"
| "effect_run claim recorder (e # es) ru =
     (let (o1, ru1) = effect_step claim recorder e ru; (o2, ru2) = effect_run claim recorder es ru1 in (o1 @ o2, ru2))"

fun performs :: "string \<Rightarrow> 'r run_output \<Rightarrow> bool" where
  "performs key (Perform n k) = (k = key)"
| "performs key _ = False"

fun result_for :: "string \<Rightarrow> 'r run_output \<Rightarrow> 'r option" where
  "result_for key (Effect_result n k r b) = (if k = key then Some r else None)"
| "result_for key _ = None"

definition performed :: "string \<Rightarrow> 'r run_output list \<Rightarrow> nat" where
  "performed key outs = length (filter (performs key) outs)"

definition results :: "string \<Rightarrow> 'r run_output list \<Rightarrow> 'r list" where
  "results key outs = List.map_filter (result_for key) outs"

lemma performed_simps [simp]:
  "performed key [] = 0" "performed key (a @ b) = performed key a + performed key b"
  "performed key (x # b) = (if performs key x then 1 else 0) + performed key b"
  by (simp_all add: performed_def)

lemma results_simps [simp]:
  "results key [] = []" "results key (a @ b) = results key a @ results key b"
  "results key (x # b) = (case result_for key x of None \<Rightarrow> [] | Some r \<Rightarrow> [r]) @ results key b"
  by (simp_all add: results_def List.map_filter_def split: option.split)

text \<open>
  What the client needs from a journal, through the \<open>entry\<close> it holds for a key: nothing, a kind
  with a pending claim, or a kind with a result.
\<close>

locale effect_journal =
  fixes claim :: "string \<Rightarrow> effect_kind \<Rightarrow> 'j \<Rightarrow> 'r effect_claim \<times> 'j"
    and recorder :: "'r effect_record \<Rightarrow> 'j \<Rightarrow> 'r record_result \<times> 'j"
    and entry :: "'j \<Rightarrow> string \<Rightarrow> (effect_kind \<times> 'r option) option"
  assumes claim_absent: "entry j key = None \<Longrightarrow> claim key kind j = (res, j') \<Longrightarrow>
        res = Claimed_effect \<and> entry j' = (entry j)(key \<mapsto> (kind, None))"
    and claim_present: "entry j key = Some (kind', x) \<Longrightarrow> claim key kind j = (res, j') \<Longrightarrow> entry j' = entry j
        \<and> (if kind' \<noteq> kind then \<exists>e a. res = Kind_mismatch e a
           else \<exists>st. case x of None \<Rightarrow> res = Duplicate_effect st None
                | Some r \<Rightarrow> \<exists>rec. res = Duplicate_effect st (Some rec) \<and> er_result rec = r)"
    and record_pending: "entry j (er_key rec) = Some (er_kind rec, None) \<Longrightarrow> recorder rec j = (res', j') \<Longrightarrow>
        (\<exists>rec'. res' = Recorded_now rec' \<and> er_result rec' = er_result rec)
      \<and> entry j' = (entry j)(er_key rec \<mapsto> (er_kind rec, Some (er_result rec)))"
    and record_done: "entry j (er_key rec) = Some (er_kind rec, Some r) \<Longrightarrow> recorder rec j = (res', j') \<Longrightarrow>
        (\<exists>old. res' = Already_recorded old \<and> er_result old = r) \<and> entry j' = entry j"
begin

lemma begin_invalid:
  "create_idempotency_key i = None \<Longrightarrow> run_effect_begin claim n i ru = ([Effect_error n Invalid_effect_key], ru)"
  by (simp add: run_effect_begin_def)

end

text \<open>The outputs so far against the journal and the running calls.\<close>

fun key_ok :: "(effect_kind \<times> 'r option) option \<Rightarrow> nat \<Rightarrow> 'r list \<Rightarrow> bool" where
  "key_ok None p rs \<longleftrightarrow> p = 0 \<and> rs = []"
| "key_ok (Some (kind, None)) p rs \<longleftrightarrow> p = 1 \<and> rs = []"
| "key_ok (Some (kind, Some r)) p rs \<longleftrightarrow> p = 1 \<and> set rs \<subseteq> {r}"

definition effects_ok :: "('j \<Rightarrow> string \<Rightarrow> (effect_kind \<times> 'r option) option) \<Rightarrow> 'r run_output list \<Rightarrow> ('j, 'r) runner \<Rightarrow> bool" where
  "effects_ok entry outs ru \<longleftrightarrow>
     (\<forall>key. key_ok (entry (ru_journal ru) key) (performed key outs) (results key outs))
   \<and> (\<forall>n key kind. omap_get (ru_running ru) n = Some (key, kind) \<longrightarrow> (\<exists>x. entry (ru_journal ru) key = Some (kind, x)))"

lemma key_ok_more:
  assumes "key_ok e p rs" "\<And>r. r \<in> set rs' \<Longrightarrow> \<exists>kind. e = Some (kind, Some r)"
  shows "key_ok e p (rs @ rs')"
proof -
  consider "e = None" | kind where "e = Some (kind, None)" | kind r where "e = Some (kind, Some r)"
    by (metis option.exhaust surj_pair)
  then show ?thesis
  proof cases
    case 1
    then show ?thesis using assms by (cases rs') auto
  next
    case 2
    then show ?thesis using assms by (cases rs') auto
  next
    case 3
    then have "set rs' \<subseteq> {r}" using assms(2) by auto
    then show ?thesis using assms(1) 3 by simp
  qed
qed

lemma running_entry: "effects_ok entry outs ru \<Longrightarrow> omap_get (ru_running ru) n = Some (key, kind) \<Longrightarrow>
    \<exists>x. entry (ru_journal ru) key = Some (kind, x)"
  by (simp add: effects_ok_def)

lemma effects_okI:
  assumes "\<And>key. key_ok (entry (ru_journal ru) key) (performed key outs) (results key outs)"
    "\<And>n key kind. omap_get (ru_running ru) n = Some (key, kind) \<Longrightarrow> \<exists>x. entry (ru_journal ru) key = Some (kind, x)"
  shows "effects_ok entry outs ru"
  using assms by (auto simp: effects_ok_def)

context effect_journal begin

lemma effects_ok_unchanged:
  assumes "effects_ok entry outs ru" "entry (ru_journal ru1) = entry (ru_journal ru)"
    "\<And>n v. omap_get (ru_running ru1) n = Some v \<Longrightarrow> omap_get (ru_running ru) n = Some v"
    "\<And>key. performed key extra = 0"
    "\<And>key r. r \<in> set (results key extra) \<Longrightarrow> \<exists>kind. entry (ru_journal ru) key = Some (kind, Some r)"
  shows "effects_ok entry (outs @ extra) ru1"
proof (rule effects_okI)
  show "key_ok (entry (ru_journal ru1) key) (performed key (outs @ extra)) (results key (outs @ extra))" for key
    using key_ok_more [OF _ assms(5), of key] assms(1,2,4) by (simp add: effects_ok_def)
next
  show "\<exists>x. entry (ru_journal ru1) key = Some (kind, x)" if "omap_get (ru_running ru1) n = Some (key, kind)" for n key kind
    using assms(3) [OF that] assms(1,2) by (simp add: effects_ok_def)
qed

lemma begin_ok:
  assumes "effects_ok entry outs ru"
  shows "effects_ok entry (outs @ fst (run_effect_begin claim n i ru)) (snd (run_effect_begin claim n i ru))"
proof (cases "create_idempotency_key i")
  case None
  then show ?thesis using effects_ok_unchanged [OF assms, of ru "[Effect_error n Invalid_effect_key]"]
    by (simp add: begin_invalid)
next
  case (Some key)
  obtain res j where c: "claim key (ki_kind i) (ru_journal ru) = (res, j)" by fastforce
  show ?thesis
  proof (cases "entry (ru_journal ru) key")
    case None
    from claim_absent [OF this c] have r: "res = Claimed_effect" "entry j = (entry (ru_journal ru))(key \<mapsto> (ki_kind i, None))"
      by simp_all
    have "run_effect_begin claim n i ru =
        ([Perform n key], ru\<lparr>ru_journal := j, ru_running := omap_set n (key, ki_kind i) (ru_running ru)\<rparr>)"
      using Some c r by (simp add: run_effect_begin_def)
    moreover have "effects_ok entry (outs @ [Perform n key]) (ru\<lparr>ru_journal := j, ru_running := omap_set n (key, ki_kind i) (ru_running ru)\<rparr>)"
    proof (rule effects_okI)
      fix k
      have "key_ok (entry (ru_journal ru) k) (performed k outs) (results k outs)" using assms by (simp add: effects_ok_def)
      then show "key_ok (entry (ru_journal (ru\<lparr>ru_journal := j, ru_running := omap_set n (key, ki_kind i) (ru_running ru)\<rparr>)) k)
          (performed k (outs @ [Perform n key])) (results k (outs @ [Perform n key]))"
        using None r(2) by (cases "k = key") simp_all
    next
      fix m k kind
      assume "omap_get (ru_running (ru\<lparr>ru_journal := j, ru_running := omap_set n (key, ki_kind i) (ru_running ru)\<rparr>)) m = Some (k, kind)"
      then show "\<exists>x. entry (ru_journal (ru\<lparr>ru_journal := j, ru_running := omap_set n (key, ki_kind i) (ru_running ru)\<rparr>)) k = Some (kind, x)"
        using running_entry [OF assms, of m k kind] r(2) None by (cases "m = n") (auto split: if_splits)
    qed
    ultimately show ?thesis by simp
  next
    case e: (Some x)
    obtain kind' y where x: "x = (kind', y)" by (cases x)
    have p: "entry j = entry (ru_journal ru)" and res: "if kind' \<noteq> ki_kind i then \<exists>e a. res = Kind_mismatch e a
           else \<exists>st. case y of None \<Rightarrow> res = Duplicate_effect st None
                | Some r \<Rightarrow> \<exists>rec. res = Duplicate_effect st (Some rec) \<and> er_result rec = r"
      using claim_present [OF e [unfolded x] c] by simp_all
    have u: "effects_ok entry (outs @ extra) (ru\<lparr>ru_journal := j\<rparr>)"
      if "\<And>k. performed k extra = 0" "\<And>k r. r \<in> set (results k extra) \<Longrightarrow> \<exists>kind. entry (ru_journal ru) k = Some (kind, Some r)" for extra
      by (rule effects_ok_unchanged [OF assms]) (simp_all add: p that)
    show ?thesis
    proof (cases "kind' = ki_kind i")
      case False
      then obtain a b where "res = Kind_mismatch a b" using res by auto
      then have "run_effect_begin claim n i ru = ([Effect_error n (Kind_error a b)], ru\<lparr>ru_journal := j\<rparr>)"
        using Some c by (simp add: run_effect_begin_def)
      then show ?thesis using u [of "[Effect_error n (Kind_error a b)]"] by simp
    next
      case True
      show ?thesis
      proof (cases y)
        case None
        then obtain st where "res = Duplicate_effect st None" using res True by auto
        then have "run_effect_begin claim n i ru = ([Effect_error n Already_pending], ru\<lparr>ru_journal := j\<rparr>)"
          using Some c by (simp add: run_effect_begin_def)
        then show ?thesis using u [of "[Effect_error n Already_pending]"] by simp
      next
        case y: (Some r)
        then obtain st rec where "res = Duplicate_effect st (Some rec)" "er_result rec = r" using res True by auto
        then have "run_effect_begin claim n i ru = ([Effect_result n key r True], ru\<lparr>ru_journal := j\<rparr>)"
          using Some c by (simp add: run_effect_begin_def)
        moreover have "effects_ok entry (outs @ [Effect_result n key r True]) (ru\<lparr>ru_journal := j\<rparr>)"
          by (rule u) (use e x y in \<open>auto split: if_splits\<close>)
        ultimately show ?thesis by simp
      qed
    qed
  qed
qed

lemma end_ok:
  assumes "effects_ok entry outs ru"
  shows "effects_ok entry (outs @ fst (run_effect_end recorder n now r ru)) (snd (run_effect_end recorder n now r ru))"
proof (cases "omap_get (ru_running ru) n")
  case None
  then show ?thesis using assms by (simp add: run_effect_end_def)
next
  case (Some kk)
  obtain key kind where kk: "kk = (key, kind)" by (cases kk)
  let ?rec = "\<lparr>er_key = key, er_kind = kind, er_recorded_at = now, er_result = r\<rparr>"
  obtain res j where c: "recorder ?rec (ru_journal ru) = (res, j)" by fastforce
  let ?ru = "ru\<lparr>ru_journal := j, ru_running := omap_delete n (ru_running ru)\<rparr>"
  have "\<exists>x. entry (ru_journal ru) key = Some (kind, x)" using assms Some kk by (simp add: effects_ok_def)
  then obtain x where e: "entry (ru_journal ru) key = Some (kind, x)" by blast
  show ?thesis
  proof (cases x)
    case None
    then obtain rec' where q: "res = Recorded_now rec'" "er_result rec' = r"
        "entry j = (entry (ru_journal ru))(key \<mapsto> (kind, Some r))"
      using record_pending [of "ru_journal ru" ?rec res j] e c by auto
    have "run_effect_end recorder n now r ru = ([Effect_result n key r False], ?ru)"
      using Some kk c q by (simp add: run_effect_end_def)
    moreover have "effects_ok entry (outs @ [Effect_result n key r False]) ?ru"
    proof (rule effects_okI)
      fix k
      have "key_ok (entry (ru_journal ru) k) (performed k outs) (results k outs)" using assms by (simp add: effects_ok_def)
      then show "key_ok (entry (ru_journal ?ru) k) (performed k (outs @ [Effect_result n key r False]))
          (results k (outs @ [Effect_result n key r False]))"
        using e None q(3) by (cases "k = key") auto
    next
      fix m k kd
      assume "omap_get (ru_running ?ru) m = Some (k, kd)"
      then show "\<exists>x. entry (ru_journal ?ru) k = Some (kd, x)"
        using running_entry [OF assms, of m k kd] q(3) e by (auto split: if_splits)
    qed
    ultimately show ?thesis by simp
  next
    case x: (Some r0)
    then obtain old where q: "res = Already_recorded old" "er_result old = r0" "entry j = entry (ru_journal ru)"
      using record_done [of "ru_journal ru" ?rec r0 res j] e c by auto
    have "run_effect_end recorder n now r ru = ([Effect_result n key r0 True], ?ru)"
      using Some kk c q by (simp add: run_effect_end_def)
    moreover have "effects_ok entry (outs @ [Effect_result n key r0 True]) ?ru"
      by (rule effects_ok_unchanged [OF assms]) (use q e x in \<open>auto split: if_splits\<close>)
    ultimately show ?thesis by simp
  qed
qed

lemma run_ok:
  "effects_ok entry outs ru \<Longrightarrow>
   effects_ok entry (outs @ fst (effect_run claim recorder es ru)) (snd (effect_run claim recorder es ru))"
proof (induction es arbitrary: outs ru)
  case (Cons e es)
  have "effects_ok entry (outs @ fst (effect_step claim recorder e ru)) (snd (effect_step claim recorder e ru))"
    using begin_ok [OF Cons.prems] end_ok [OF Cons.prems] by (cases e) simp_all
  from Cons.IH [OF this] show ?case by (simp add: Let_def split_beta)
qed simp

lemma run_once:
  assumes "\<And>key. entry j key = None"
  shows "performed key (fst (effect_run claim recorder es \<lparr>ru_journal = j, ru_running = []\<rparr>)) \<le> 1"
    "r \<in> set (results key (fst (effect_run claim recorder es \<lparr>ru_journal = j, ru_running = []\<rparr>))) \<Longrightarrow>
     set (results key (fst (effect_run claim recorder es \<lparr>ru_journal = j, ru_running = []\<rparr>))) = {r}
     \<and> performed key (fst (effect_run claim recorder es \<lparr>ru_journal = j, ru_running = []\<rparr>)) = 1"
proof -
  let ?r = "effect_run claim recorder es \<lparr>ru_journal = j, ru_running = []\<rparr>"
  have "effects_ok entry ([] @ fst ?r) (snd ?r)"
    by (rule run_ok) (simp add: effects_ok_def assms)
  then have k: "key_ok (entry (ru_journal (snd ?r)) key) (performed key (fst ?r)) (results key (fst ?r))"
    by (simp add: effects_ok_def)
  show "performed key (fst ?r) \<le> 1" using k by (cases "(entry (ru_journal (snd ?r)) key, performed key (fst ?r), results key (fst ?r))" rule: key_ok.cases) auto
  show "set (results key (fst ?r)) = {r} \<and> performed key (fst ?r) = 1" if "r \<in> set (results key (fst ?r))"
    using k that by (cases "(entry (ru_journal (snd ?r)) key, performed key (fst ?r), results key (fst ?r))" rule: key_ok.cases) auto
qed

end

definition journal_entry_of :: "'r journal \<Rightarrow> string \<Rightarrow> (effect_kind \<times> 'r option) option" where
  "journal_entry_of j key =
     map_option (\<lambda>e. (je_kind e, if je_status e = Recorded_effect then map_option er_result (je_record e) else None)) (omap_get j key)"

interpretation in_memory: effect_journal journal_claim journal_record journal_entry_of
proof
  fix j :: "'r journal" and key kind res j'
  show "journal_entry_of j key = None \<Longrightarrow> journal_claim key kind j = (res, j') \<Longrightarrow>
        res = Claimed_effect \<and> journal_entry_of j' = (journal_entry_of j)(key \<mapsto> (kind, None))"
    by (auto simp: journal_entry_of_def journal_claim_def fun_eq_iff)
next
  fix j :: "'r journal" and key kind' x kind res j'
  show "journal_entry_of j key = Some (kind', x) \<Longrightarrow> journal_claim key kind j = (res, j') \<Longrightarrow> journal_entry_of j' = journal_entry_of j
        \<and> (if kind' \<noteq> kind then \<exists>e a. res = Kind_mismatch e a
           else \<exists>st. case x of None \<Rightarrow> res = Duplicate_effect st None
                | Some r \<Rightarrow> \<exists>rec. res = Duplicate_effect st (Some rec) \<and> er_result rec = r)"
    by (auto simp: journal_entry_of_def journal_claim_def split: option.splits if_splits)
next
  fix j :: "'r journal" and rec res' j'
  show "journal_entry_of j (er_key rec) = Some (er_kind rec, None) \<Longrightarrow> journal_record rec j = (res', j') \<Longrightarrow>
        (\<exists>rec'. res' = Recorded_now rec' \<and> er_result rec' = er_result rec)
      \<and> journal_entry_of j' = (journal_entry_of j)(er_key rec \<mapsto> (er_kind rec, Some (er_result rec)))"
    by (auto simp: journal_entry_of_def journal_record_def fun_eq_iff split: option.splits if_splits effect_status.splits)
next
  fix j :: "'r journal" and rec r res' j'
  show "journal_entry_of j (er_key rec) = Some (er_kind rec, Some r) \<Longrightarrow> journal_record rec j = (res', j') \<Longrightarrow>
        (\<exists>old. res' = Already_recorded old \<and> er_result old = r) \<and> journal_entry_of j' = journal_entry_of j"
    by (auto simp: journal_entry_of_def journal_record_def split: option.splits if_splits effect_status.splits)
qed

text \<open>
  C26. With the in-memory journal every lifecycle effect happens at most once, for any interleaving
  of calls and whatever the performed effects answer or never answer: a key is performed at most
  once, and all callers that get a result for it get the result of that one performance.\<close>

theorem effects_happen_once:
  "performed key (fst (effect_run journal_claim journal_record es \<lparr>ru_journal = [], ru_running = []\<rparr>)) \<le> 1
   \<and> (let rs = results key (fst (effect_run journal_claim journal_record es \<lparr>ru_journal = [], ru_running = []\<rparr>))
      in rs = [] \<or> (\<exists>r. set rs = {r}
           \<and> performed key (fst (effect_run journal_claim journal_record es \<lparr>ru_journal = [], ru_running = []\<rparr>)) = 1))"
proof -
  have e: "journal_entry_of [] k = None" for k :: string by (simp add: journal_entry_of_def)
  let ?rs = "results key (fst (effect_run journal_claim journal_record es \<lparr>ru_journal = [], ru_running = []\<rparr>))"
  have "?rs = [] \<or> (\<exists>r. r \<in> set ?rs)" by (metis last_in_set)
  then show ?thesis using in_memory.run_once [where key = key and es = es, OF e] unfolding Let_def by blast
qed

end
