(* ===== verification/Provider_Actor.thy ===== *)
theory Provider_Actor
  imports Effect_Journal Json_Values Text_Order
begin

text \<open>
  The provider actor of \<open>node-provider-actor.ts\<close>: the projection, its commands, and every lifecycle
  effect run through the in-memory journal. The ports (child process, readiness, file system, model
  cache, clock) are functions on a world that the state carries; a port that throws answers \<open>Inl\<close>.
  Commands are dispatched one after the other. \<open>ps_outs\<close> and \<open>ps_calls\<close> are logs: what the journalled
  effects did, and the calls of the ports.
\<close>

section \<open>Data\<close>

record provider_failure =
  pf_code :: string
  pf_message :: string
  pf_retryable :: bool
  pf_details :: "json option"

text \<open>A \<open>ChildProcessHandle\<close> is a text that is not empty, by its constructor.\<close>

datatype child_handle = Child_handle char string

fun handle_text :: "child_handle \<Rightarrow> string" where
  "handle_text (Child_handle c cs) = c # cs"

text \<open>
  The result of an effect: \<open>outcome\<close> and the properties that the actor reads, flattened
  (\<open>failure\<close> or \<open>error\<close>, the handle of the process, the time of the fact, the disposition of a
  duplicate, the cancellation fact).
\<close>

record effect_result =
  re_outcome :: string
  re_failure :: provider_failure
  re_handle :: child_handle
  re_at :: "string option"
  re_disposition :: string
  re_fact :: json

datatype provider_status = Pv_idle | Pv_starting | Pv_running | Pv_stopping | Pv_failed

record output_projection =
  op_lines :: "string list"
  op_truncated :: bool
  op_total :: nat

record provider_projection =
  pp_status :: provider_status
  pp_activation :: "string option"
  pp_acquisition :: "string option"
  pp_handle :: "child_handle option"
  pp_endpoint :: "string option"
  pp_ready :: bool
  pp_failure :: "provider_failure option"
  pp_restarts :: nat
  pp_idle_since :: "string option"
  pp_idle_deadline :: "string option"
  pp_stdout :: output_projection
  pp_stderr :: output_projection
  pp_observed_at :: "string option"

record provider_options =
  po_provider :: string
  po_executable :: string
  po_args :: "string list"
  po_endpoint :: string
  po_group :: string
  po_strategy :: string
  po_target :: string
  po_startup_timeout :: int
  po_idle_shutdown :: int
  po_tail_limit :: int
  po_probe_target :: string
  po_model_id :: string
  po_cache_key :: string

datatype provider_call =
    Probe_call string
  | Inspect_call string string string
  | Claim_duplicate_call string string string
  | Spawn_call string string string string "string list" string
  | Readiness_call child_handle nat string string
  | Signal_call child_handle string json
  | Exit_call child_handle
  | Tail_call child_handle int

record exit_fact =
  xf_code :: json
  xf_signal :: json
  xf_at :: string

datatype exit_answer =
    Exit_error provider_failure
  | Exit_running
  | Exit_crashed exit_fact
  | Exit_exited exit_fact
  | Exit_cancelled exit_fact

datatype tail_answer = Tail_failed provider_failure | Tailed output_projection output_projection

record 'w provider_ports =
  pt_perform :: "provider_call \<Rightarrow> 'w \<Rightarrow> (string + effect_result) \<times> 'w"
  pt_exit :: "child_handle \<Rightarrow> 'w \<Rightarrow> (string + exit_answer) \<times> 'w"
  pt_tail :: "child_handle \<Rightarrow> int \<Rightarrow> 'w \<Rightarrow> (string + tail_answer) \<times> 'w"
  pt_now_iso :: "'w \<Rightarrow> string \<times> 'w"
  pt_now_ms :: "'w \<Rightarrow> int \<times> 'w"
  pt_iso_text :: "int \<Rightarrow> string"

record 'w provider_state =
  ps_proj :: provider_projection
  ps_attempts :: nat
  ps_startup :: "int option"
  ps_runner :: "(effect_result journal, effect_result) runner"
  ps_outs :: "effect_result run_output list"
  ps_calls :: "provider_call list"
  ps_world :: 'w

datatype provider_command =
    Acquire_provider string string
  | Cancel_provider "string option" "string option"
  | Check_readiness
  | Release_provider "string option"
  | Tick_idle_shutdown
  | Observe_exit

definition empty_output :: output_projection where
  "empty_output = \<lparr>op_lines = [], op_truncated = False, op_total = 0\<rparr>"

definition initial_projection :: provider_projection where
  "initial_projection =
     \<lparr>pp_status = Pv_idle, pp_activation = None, pp_acquisition = None, pp_handle = None, pp_endpoint = None, pp_ready = False,
      pp_failure = None, pp_restarts = 0, pp_idle_since = None, pp_idle_deadline = None, pp_stdout = empty_output,
      pp_stderr = empty_output, pp_observed_at = None\<rparr>"

definition new_provider :: "'w \<Rightarrow> 'w provider_state" where
  "new_provider w =
     \<lparr>ps_proj = initial_projection, ps_attempts = 0, ps_startup = None, ps_runner = \<lparr>ru_journal = [], ru_running = []\<rparr>,
      ps_outs = [], ps_calls = [], ps_world = w\<rparr>"

definition project_failure :: "provider_failure \<Rightarrow> string option \<Rightarrow> provider_projection \<Rightarrow> provider_projection" where
  "project_failure f observed p =
     p\<lparr>pp_status := Pv_failed, pp_ready := False, pp_failure := Some f, pp_idle_since := None, pp_idle_deadline := None,
       pp_observed_at := observed\<rparr>"

definition actor_failure :: "string \<Rightarrow> string \<Rightarrow> json option \<Rightarrow> provider_failure" where
  "actor_failure code message details = \<lparr>pf_code = code, pf_message = message, pf_retryable = False, pf_details = details\<rparr>"

definition throw_failure :: "effect_kind \<Rightarrow> string \<Rightarrow> string \<Rightarrow> string \<Rightarrow> provider_failure" where
  "throw_failure kind opkey phase message =
     actor_failure ''invalid_request''
       (''Node provider actor '' @ phase @ '' failed for lifecycle effect \"'' @ kind_text kind @ ''\": '' @ message)
       (Some (JObject [(''kind'', JString (kind_text kind)), (''operationKey'', JString opkey), (''phase'', JString phase),
                       (''message'', JString message)]))"

text \<open>A result without a process; its handle is never read.\<close>

definition no_handle :: child_handle where "no_handle = Child_handle CHR ''-'' []"

definition plain_result :: "string \<Rightarrow> provider_failure \<Rightarrow> effect_result" where
  "plain_result outcome f =
     \<lparr>re_outcome = outcome, re_failure = f, re_handle = no_handle, re_at = None, re_disposition = [], re_fact = JNull\<rparr>"

definition structured_failure :: "effect_kind \<Rightarrow> provider_failure \<Rightarrow> effect_result" where
  "structured_failure kind f = plain_result (if kind = Duplicate_prevention then ''error'' else ''failed'') f"

section \<open>Running an effect\<close>

definition read_iso :: "'w provider_ports \<Rightarrow> 'w provider_state \<Rightarrow> string \<times> 'w provider_state" where
  "read_iso pt s = (let (t, w) = pt_now_iso pt (ps_world s) in (t, s\<lparr>ps_world := w\<rparr>))"

definition read_ms :: "'w provider_ports \<Rightarrow> 'w provider_state \<Rightarrow> int \<times> 'w provider_state" where
  "read_ms pt s = (let (t, w) = pt_now_ms pt (ps_world s) in (t, s\<lparr>ps_world := w\<rparr>))"

text \<open>What \<open>perform\<close> does: call a port, or return a value.\<close>

datatype performer = Call provider_call | Value effect_result

fun perform :: "'w provider_ports \<Rightarrow> performer \<Rightarrow> 'w provider_state \<Rightarrow> (string + effect_result) \<times> 'w provider_state" where
  "perform pt (Call c) s =
     (let (a, w) = pt_perform pt c (ps_world s) in (a, s\<lparr>ps_world := w, ps_calls := ps_calls s @ [c]\<rparr>))"
| "perform pt (Value r) s = (Inr r, s)"

definition kind_mismatch_failure :: "key_input \<Rightarrow> effect_kind \<Rightarrow> effect_kind \<Rightarrow> provider_failure" where
  "kind_mismatch_failure i e a =
     actor_failure ''invalid_request'' ''Node provider lifecycle effect kind did not match the existing journal entry.''
       (Some (JObject ((case create_idempotency_key i of None \<Rightarrow> [] | Some k \<Rightarrow> [(''idempotencyKey'', JString k)])
          @ [(''expectedKind'', JString (kind_text e)), (''actualKind'', JString (kind_text a))])))"

fun run_failure :: "key_input \<Rightarrow> run_error \<Rightarrow> provider_failure" where
  "run_failure i (Kind_error e a) = kind_mismatch_failure i e a"
| "run_failure i e =
     actor_failure (if e = Already_pending then ''duplicate'' else ''invalid_request'')
       (case e of
          Already_pending \<Rightarrow> ''Node provider actor observed an already-pending lifecycle effect.''
        | Not_persisted \<Rightarrow> ''Node provider actor could not persist a lifecycle effect record.''
        | _ \<Rightarrow> ''Node provider actor could not create a lifecycle effect key.'')
       (Some (JObject [(''kind'', JString (kind_text (ki_kind i))), (''operationKey'', JString (ki_operation i))]))"

text \<open>The reply of an effect, from the outputs of its two halves.\<close>

fun effect_reply :: "key_input \<Rightarrow> effect_result run_output list \<Rightarrow> provider_failure + effect_result" where
  "effect_reply i (Effect_result n k r b # os) = Inr r"
| "effect_reply i (Effect_error n e # os) = Inl (run_failure i e)"
| "effect_reply i _ = Inl (run_failure i Not_persisted)"

fun to_perform :: "effect_result run_output list \<Rightarrow> bool" where
  "to_perform (Perform n k # os) = True"
| "to_perform _ = False"

definition run_effect ::
  "'w provider_ports \<Rightarrow> key_input \<Rightarrow> performer \<Rightarrow> 'w provider_state \<Rightarrow> (provider_failure + effect_result) \<times> 'w provider_state" where
  "run_effect pt i pf s =
     (let (outs, ru) = run_effect_begin journal_claim 0 i (ps_runner s);
          s1 = s\<lparr>ps_runner := ru, ps_outs := ps_outs s @ outs\<rparr>
      in if \<not> to_perform outs then (effect_reply i outs, s1)
         else (let (a, s2) = perform pt pf s1;
                   r = (case a of Inl msg \<Rightarrow> structured_failure (ki_kind i) (throw_failure (ki_kind i) (ki_operation i) ''perform'' msg)
                        | Inr r \<Rightarrow> r);
                   (now, s3) = read_iso pt s2;
                   (outs2, ru2) = run_effect_end journal_record 0 now r (ps_runner s3)
               in (effect_reply i outs2, s3\<lparr>ps_runner := ru2, ps_outs := ps_outs s3 @ outs2\<rparr>)))"

definition effect_input ::
  "provider_options \<Rightarrow> effect_kind \<Rightarrow> string \<Rightarrow> string option \<Rightarrow> string option \<Rightarrow> string option \<Rightarrow> string option \<Rightarrow> key_input" where
  "effect_input po kind opkey act acq handle target =
     \<lparr>ki_kind = kind, ki_provider = po_provider po, ki_operation = opkey, ki_activation = act, ki_acquisition = acq,
      ki_handle = handle, ki_target = target\<rparr>"

section \<open>Commands\<close>

definition fail_now :: "'w provider_ports \<Rightarrow> provider_failure \<Rightarrow> 'w provider_state \<Rightarrow> 'w provider_state" where
  "fail_now pt f s = (let (now, s1) = read_iso pt s in s1\<lparr>ps_proj := project_failure f (Some now) (ps_proj s1)\<rparr>)"

text \<open>\<open>ACQUIRE_PROVIDER\<close>, from its last effect to the first.\<close>

definition acquire_spawn ::
  "'w provider_ports \<Rightarrow> provider_options \<Rightarrow> string \<Rightarrow> string \<Rightarrow> 'w provider_state \<Rightarrow> 'w provider_state" where
  "acquire_spawn pt po act acq s =
     (case run_effect pt (effect_input po Spawn (''spawn:'' @ act @ '':'' @ acq) (Some act) (Some acq) None None)
        (Call (Spawn_call act acq (po_provider po) (po_executable po) (po_args po) (po_group po))) s of
        (Inl f, s1) \<Rightarrow> fail_now pt f s1
      | (Inr r, s1) \<Rightarrow>
          if re_outcome r = ''failed'' then fail_now pt (re_failure r) s1
          else (let s2 = s1\<lparr>ps_proj := (ps_proj s1)\<lparr>pp_status := Pv_starting, pp_handle := Some (re_handle r),
                      pp_endpoint := Some (po_endpoint po), pp_ready := False, pp_failure := None, pp_idle_since := None,
                      pp_idle_deadline := None, pp_observed_at := re_at r\<rparr>, ps_attempts := 0\<rparr>;
                    (ms, s3) = read_ms pt s2
                in s3\<lparr>ps_startup := Some ms\<rparr>))"

definition duplicate_failure :: "effect_result \<Rightarrow> string \<Rightarrow> string \<Rightarrow> provider_failure" where
  "duplicate_failure r act acq =
     actor_failure ''duplicate'' ''Provider acquisition was already in progress or already satisfied.''
       (Some (JObject [(''disposition'', JString (re_disposition r)), (''activationKey'', JString act), (''acquisitionKey'', JString acq)]))"

definition acquire_duplicate ::
  "'w provider_ports \<Rightarrow> provider_options \<Rightarrow> string \<Rightarrow> string \<Rightarrow> 'w provider_state \<Rightarrow> 'w provider_state" where
  "acquire_duplicate pt po act acq s =
     (case run_effect pt (effect_input po Duplicate_prevention (''acquire:'' @ act @ '':'' @ acq) (Some act) (Some acq) None None)
        (Call (Claim_duplicate_call act acq (po_provider po))) s of
        (Inl f, s1) \<Rightarrow> fail_now pt f s1
      | (Inr r, s1) \<Rightarrow>
          if re_outcome r = ''already_running''
          then s1\<lparr>ps_proj := (ps_proj s1)\<lparr>pp_status := Pv_running, pp_handle := Some (re_handle r), pp_ready := True,
                 pp_failure := None, pp_idle_since := None, pp_observed_at := re_at r\<rparr>, ps_attempts := 0, ps_startup := None\<rparr>
          else if re_outcome r = ''duplicate''
          then s1\<lparr>ps_proj := (ps_proj s1)
                 \<lparr>pp_status := (if pp_handle (ps_proj s1) \<noteq> None then pp_status (ps_proj s1) else Pv_starting),
                  pp_handle := Some (re_handle r), pp_failure := Some (duplicate_failure r act acq), pp_observed_at := re_at r\<rparr>\<rparr>
          else if re_outcome r = ''error'' then fail_now pt (re_failure r) s1
          else acquire_spawn pt po act acq s1)"

definition acquire_cache ::
  "'w provider_ports \<Rightarrow> provider_options \<Rightarrow> string \<Rightarrow> string \<Rightarrow> 'w provider_state \<Rightarrow> 'w provider_state" where
  "acquire_cache pt po act acq s =
     (case run_effect pt (effect_input po Model_cache_inspect (''cache:'' @ po_cache_key po) (Some act) (Some acq) None None)
        (Call (Inspect_call (po_provider po) (po_model_id po) (po_cache_key po))) s of
        (Inl f, s1) \<Rightarrow> fail_now pt f s1
      | (Inr r, s1) \<Rightarrow>
          if re_outcome r = ''failed'' then fail_now pt (re_failure r) s1 else acquire_duplicate pt po act acq s1)"

definition acquire_provider ::
  "'w provider_ports \<Rightarrow> provider_options \<Rightarrow> string \<Rightarrow> string \<Rightarrow> 'w provider_state \<Rightarrow> 'w provider_state" where
  "acquire_provider pt po act acq s =
     (let (now, s0) = read_iso pt s;
          s1 = s0\<lparr>ps_proj := (ps_proj s0)\<lparr>pp_activation := Some act, pp_acquisition := Some acq, pp_endpoint := Some (po_endpoint po),
                 pp_failure := None, pp_idle_since := None, pp_idle_deadline := None, pp_observed_at := Some now\<rparr>\<rparr>
      in (case run_effect pt (effect_input po Filesystem_probe (''filesystem:'' @ po_probe_target po) (Some act) (Some acq) None
                (Some (po_probe_target po))) (Call (Probe_call (po_probe_target po))) s1 of
            (Inl f, s2) \<Rightarrow> fail_now pt f s2
          | (Inr r, s2) \<Rightarrow>
              if re_outcome r = ''failed'' then fail_now pt (re_failure r) s2 else acquire_cache pt po act acq s2))"

definition cancellation_fact :: "string \<Rightarrow> string \<Rightarrow> string \<Rightarrow> string option \<Rightarrow> json" where
  "cancellation_fact by_whom reason at_time act = JObject
     ([(''requestedBy'', JString by_whom), (''reason'', JString reason), (''requestedAt'', JString at_time)]
      @ (case act of Some a \<Rightarrow> if a \<noteq> [] then [(''activationKey'', JString a)] else [] | None \<Rightarrow> []))"

definition cancelled_result :: "json \<Rightarrow> effect_result" where
  "cancelled_result v = (plain_result ''cancelled'' (actor_failure [] [] None))\<lparr>re_fact := v\<rparr>"

text \<open>An effect for the process of the projection, with the keys of the projection.\<close>

definition handle_effect ::
  "'w provider_ports \<Rightarrow> provider_options \<Rightarrow> effect_kind \<Rightarrow> string \<Rightarrow> child_handle \<Rightarrow> string option \<Rightarrow> performer \<Rightarrow> 'w provider_state
    \<Rightarrow> (provider_failure + effect_result) \<times> 'w provider_state" where
  "handle_effect pt po kind opkey handle target pf s =
     run_effect pt (effect_input po kind opkey (pp_activation (ps_proj s)) (pp_acquisition (ps_proj s)) (Some (handle_text handle)) target) pf s"

definition fail_readiness ::
  "'w provider_ports \<Rightarrow> provider_options \<Rightarrow> provider_failure \<Rightarrow> string option \<Rightarrow> 'w provider_state \<Rightarrow> 'w provider_state" where
  "fail_readiness pt po f observed s =
     (let s0 = s\<lparr>ps_proj := project_failure f observed (ps_proj s), ps_startup := None\<rparr>
      in (case pp_handle (ps_proj s) of
            None \<Rightarrow> s0
          | Some h \<Rightarrow>
              (let (now, s1) = read_iso pt s0;
                        cancellation = cancellation_fact ''runtime'' ''readiness_failed'' now (pp_activation (ps_proj s1))
                    in (case handle_effect pt po Cancellation (''cancellation:readiness_failed:'' @ handle_text h) h None (Value (cancelled_result cancellation)) s1 of
                          (Inl f1, s2) \<Rightarrow> fail_now pt f1 s2
                        | (Inr r, s2) \<Rightarrow>
                            (case handle_effect pt po Signal (''signal:readiness_failed:'' @ handle_text h) h None
                                    (Call (Signal_call h ''cancellation'' (re_fact r))) s2 of
                               (Inl f2, s3) \<Rightarrow> fail_now pt f2 s3
                             | (Inr r2, s3) \<Rightarrow> if re_outcome r2 = ''failed'' then fail_now pt (re_failure r2) s3 else s3)))))"


definition startup_failure :: "provider_options \<Rightarrow> nat \<Rightarrow> provider_failure" where
  "startup_failure po attempts =
     actor_failure ''startup_timeout'' ''Provider readiness did not complete before the configured timeout.''
       (Some (JObject [(''timeoutMs'', JNumber (of_int (po_startup_timeout po))), (''target'', JString (po_target po)),
                       (''attempts'', JNumber (of_nat attempts))]))"

text \<open>The check proper, after the timeout has been ruled out.\<close>

definition run_readiness :: "'w provider_ports \<Rightarrow> provider_options \<Rightarrow> child_handle \<Rightarrow> 'w provider_state \<Rightarrow> 'w provider_state" where
  "run_readiness pt po h s =
     (let s1 = s\<lparr>ps_attempts := Suc (ps_attempts s)\<rparr>
      in (case handle_effect pt po Readiness (''readiness:'' @ handle_text h @ '':'' @ nat_digits (ps_attempts s1)) h (Some (po_target po))
               (Call (Readiness_call h (ps_attempts s1) (po_strategy po) (po_target po))) s1 of
            (Inl f, s2) \<Rightarrow> fail_now pt f s2
          | (Inr r, s2) \<Rightarrow>
              if re_outcome r = ''ready''
              then s2\<lparr>ps_proj := (ps_proj s2)\<lparr>pp_status := Pv_running, pp_ready := True, pp_failure := None, pp_idle_since := None,
                     pp_idle_deadline := None, pp_observed_at := re_at r\<rparr>, ps_startup := None\<rparr>
              else if re_outcome r = ''waiting''
              then s2\<lparr>ps_proj := (ps_proj s2)\<lparr>pp_status := Pv_starting, pp_ready := False, pp_failure := None, pp_observed_at := re_at r\<rparr>\<rparr>
              else if re_outcome r = ''failed'' \<and> re_at r \<noteq> None then fail_readiness pt po (re_failure r) (re_at r) s2
              else (let (now, s3) = read_iso pt s2 in fail_readiness pt po (re_failure r) (Some now) s3)))"

definition check_readiness :: "'w provider_ports \<Rightarrow> provider_options \<Rightarrow> 'w provider_state \<Rightarrow> 'w provider_state" where
  "check_readiness pt po s =
     (case pp_handle (ps_proj s) of
        None \<Rightarrow> s
      | Some h \<Rightarrow>
          if pp_status (ps_proj s) = Pv_idle \<or> pp_status (ps_proj s) = Pv_failed then s
          else (let (ms, s1) = read_ms pt s
                in if (case ps_startup s1 of None \<Rightarrow> False
                       | Some t \<Rightarrow> \<not> pp_ready (ps_proj s1) \<and> po_startup_timeout po \<le> ms - t)
                   then (let (now, s2) = read_iso pt s1 in fail_readiness pt po (startup_failure po (ps_attempts s2)) (Some now) s2)
                   else run_readiness pt po h s1))"

definition cancel_provider ::
  "'w provider_ports \<Rightarrow> provider_options \<Rightarrow> string \<Rightarrow> string \<Rightarrow> 'w provider_state \<Rightarrow> 'w provider_state" where
  "cancel_provider pt po by_whom why s =
     (case pp_handle (ps_proj s) of
        None \<Rightarrow> s
      | Some h \<Rightarrow>
          (let (now, s1) = read_iso pt s;
               cancellation = cancellation_fact by_whom why now (pp_activation (ps_proj s1))
           in (case handle_effect pt po Cancellation (''cancellation:'' @ why @ '':'' @ handle_text h) h None (Value (cancelled_result cancellation)) s1 of
                 (Inl f, s2) \<Rightarrow> fail_now pt f s2
               | (Inr r, s2) \<Rightarrow>
                   (case handle_effect pt po Signal (''signal:'' @ why @ '':'' @ handle_text h) h None
                           (Call (Signal_call h ''cancellation'' cancellation)) s2 of
                      (Inl f2, s3) \<Rightarrow> fail_now pt f2 s3
                    | (Inr r2, s3) \<Rightarrow>
                        if re_outcome r2 = ''failed'' then fail_now pt (re_failure r2) s3
                        else (let (seen, s4) = (if re_outcome r2 = ''signaled'' then (re_at r2, s3)
                                                else (let (t, s4) = read_iso pt s3 in (Some t, s4)))
                              in s4\<lparr>ps_proj := (ps_proj s4)\<lparr>pp_status := Pv_stopping, pp_ready := False, pp_failure := None,
                                   pp_idle_since := None, pp_idle_deadline := None, pp_observed_at := seen\<rparr>\<rparr>)))))"

definition release_provider :: "'w provider_ports \<Rightarrow> provider_options \<Rightarrow> string option \<Rightarrow> 'w provider_state \<Rightarrow> 'w provider_state" where
  "release_provider pt po acq s =
     (if pp_status (ps_proj s) = Pv_running \<and> pp_ready (ps_proj s)
         \<and> (acq = None \<or> acq = Some [] \<or> acq = pp_acquisition (ps_proj s))
      then (let (ms, s1) = read_ms pt s; (now, s2) = read_iso pt s1
            in s2\<lparr>ps_proj := (ps_proj s2)\<lparr>pp_idle_since := Some now,
                 pp_idle_deadline := Some (pt_iso_text pt (ms + po_idle_shutdown po)), pp_observed_at := Some now\<rparr>\<rparr>)
      else s)"

definition idle_fact :: "string \<Rightarrow> string \<Rightarrow> int \<Rightarrow> string option \<Rightarrow> json" where
  "idle_fact since now window acq = JObject
     ([(''idleSince'', JString since), (''shutdownRequestedAt'', JString now), (''inactivityWindowMs'', JNumber (of_int window))]
      @ (case acq of None \<Rightarrow> [] | Some a \<Rightarrow> [(''acquisitionKey'', JString a)]))"

definition idle_shutdown ::
  "'w provider_ports \<Rightarrow> provider_options \<Rightarrow> child_handle \<Rightarrow> string \<Rightarrow> string \<Rightarrow> 'w provider_state \<Rightarrow> 'w provider_state" where
  "idle_shutdown pt po h since deadline s =
     (let (now, s1) = read_iso pt s
      in (case handle_effect pt po Signal (''idle-shutdown:'' @ handle_text h @ '':'' @ deadline) h None
               (Call (Signal_call h ''idle_shutdown'' (idle_fact since now (po_idle_shutdown po) (pp_acquisition (ps_proj s1))))) s1 of
            (Inl f, s2) \<Rightarrow> fail_now pt f s2
          | (Inr r, s2) \<Rightarrow>
              if re_outcome r = ''failed'' then fail_now pt (re_failure r) s2
              else s2\<lparr>ps_proj := (ps_proj s2)\<lparr>pp_status := Pv_stopping, pp_ready := False, pp_idle_since := None,
                     pp_idle_deadline := None, pp_observed_at := (if re_outcome r = ''signaled'' then re_at r else Some now)\<rparr>\<rparr>))"

text \<open>ISO texts are compared as JavaScript compares strings, by code units.\<close>

definition tick_idle :: "'w provider_ports \<Rightarrow> provider_options \<Rightarrow> 'w provider_state \<Rightarrow> 'w provider_state" where
  "tick_idle pt po s =
     (case (pp_handle (ps_proj s), pp_idle_since (ps_proj s), pp_idle_deadline (ps_proj s)) of
        (Some h, Some since, Some deadline) \<Rightarrow>
          if pp_status (ps_proj s) \<noteq> Pv_running \<or> since = [] \<or> deadline = [] then s
          else (let (now, s1) = read_iso pt s
                in if code_unit_compare now deadline < 0 then s1 else idle_shutdown pt po h since deadline s1)
      | _ \<Rightarrow> s)"

definition exit_failure :: "string \<Rightarrow> string \<Rightarrow> exit_fact \<Rightarrow> provider_failure" where
  "exit_failure code message x =
     actor_failure code message (Some (JObject [(''exitCode'', xf_code x), (''signal'', xf_signal x)]))"

definition exited_projection ::
  "provider_status \<Rightarrow> provider_failure option \<Rightarrow> exit_fact \<Rightarrow> provider_projection \<Rightarrow> provider_projection" where
  "exited_projection status f x p =
     p\<lparr>pp_status := status, pp_handle := None, pp_ready := False, pp_idle_since := None, pp_idle_deadline := None,
       pp_failure := f, pp_observed_at := Some (xf_at x)\<rparr>"

text \<open>The end of \<open>observeExit\<close>, with the output tail.\<close>

definition finish_exit ::
  "'w provider_ports \<Rightarrow> provider_options \<Rightarrow> child_handle \<Rightarrow> exit_fact \<Rightarrow> (provider_projection \<Rightarrow> provider_projection) \<Rightarrow> 'w provider_state
    \<Rightarrow> 'w provider_state" where
  "finish_exit pt po h x done_with s =
     (let (a, w) = pt_tail pt h (po_tail_limit po) (ps_world s);
          s1 = s\<lparr>ps_world := w, ps_calls := ps_calls s @ [Tail_call h (po_tail_limit po)]\<rparr>
      in (case a of
            Inl msg \<Rightarrow> s1
          | Inr (Tail_failed f) \<Rightarrow> s1\<lparr>ps_proj := project_failure f (Some (xf_at x)) (ps_proj s1)\<rparr>
          | Inr (Tailed out err) \<Rightarrow>
              s1\<lparr>ps_proj := done_with ((ps_proj s1)\<lparr>pp_stdout := out, pp_stderr := err\<rparr>), ps_startup := None, ps_attempts := 0\<rparr>))"

definition observe_exit :: "'w provider_ports \<Rightarrow> provider_options \<Rightarrow> 'w provider_state \<Rightarrow> 'w provider_state" where
  "observe_exit pt po s =
     (case pp_handle (ps_proj s) of
        None \<Rightarrow> s
      | Some h \<Rightarrow>
          (let (a, w) = pt_exit pt h (ps_world s); s1 = s\<lparr>ps_world := w, ps_calls := ps_calls s @ [Exit_call h]\<rparr>
           in (case a of
                 Inl msg \<Rightarrow> s1
               | Inr (Exit_error f) \<Rightarrow> fail_now pt f s1
               | Inr Exit_running \<Rightarrow> (let (now, s2) = read_iso pt s1 in s2\<lparr>ps_proj := (ps_proj s2)\<lparr>pp_observed_at := Some now\<rparr>\<rparr>)
               | Inr (Exit_crashed x) \<Rightarrow>
                   finish_exit pt po h x (\<lambda>p. (exited_projection Pv_failed (Some (exit_failure ''crashed'' ''Provider process crashed.'' x)) x p)
                      \<lparr>pp_restarts := Suc (pp_restarts p)\<rparr>) s1
               | Inr (Exit_exited x) \<Rightarrow>
                   finish_exit pt po h x (exited_projection Pv_idle (Some (exit_failure ''exited'' ''Provider process exited.'' x)) x) s1
               | Inr (Exit_cancelled x) \<Rightarrow> finish_exit pt po h x (exited_projection Pv_idle None x) s1)))"

definition or_text :: "string option \<Rightarrow> string \<Rightarrow> string" where
  "or_text v d = (case v of None \<Rightarrow> d | Some s \<Rightarrow> s)"

fun dispatch :: "'w provider_ports \<Rightarrow> provider_options \<Rightarrow> provider_command \<Rightarrow> 'w provider_state \<Rightarrow> 'w provider_state" where
  "dispatch pt po (Acquire_provider act acq) s = acquire_provider pt po act acq s"
| "dispatch pt po (Cancel_provider by_whom why) s =
     cancel_provider pt po (or_text by_whom ''runtime'') (or_text why ''shutdown_requested'') s"
| "dispatch pt po Check_readiness s = check_readiness pt po s"
| "dispatch pt po (Release_provider acq) s = release_provider pt po acq s"
| "dispatch pt po Tick_idle_shutdown s = tick_idle pt po s"
| "dispatch pt po Observe_exit s = observe_exit pt po s"

fun dispatch_all :: "'w provider_ports \<Rightarrow> provider_options \<Rightarrow> provider_command list \<Rightarrow> 'w provider_state \<Rightarrow> 'w provider_state" where
  "dispatch_all pt po [] s = s"
| "dispatch_all pt po (c # cs) s = dispatch_all pt po cs (dispatch pt po c s)"

section \<open>The projection is consistent\<close>

definition projection_ok :: "provider_projection \<Rightarrow> bool" where
  "projection_ok p \<longleftrightarrow>
     pp_ready p = (pp_status p = Pv_running)
   \<and> (pp_idle_since p = None \<longleftrightarrow> pp_idle_deadline p = None)
   \<and> (case pp_status p of
        Pv_idle \<Rightarrow> pp_handle p = None \<and> pp_idle_since p = None
      | Pv_starting \<Rightarrow> pp_handle p \<noteq> None
      | Pv_running \<Rightarrow> pp_handle p \<noteq> None
      | Pv_stopping \<Rightarrow> pp_handle p \<noteq> None \<and> pp_idle_since p = None
      | Pv_failed \<Rightarrow> pp_idle_since p = None)"

lemma read_proj [simp]: "ps_proj (snd (read_iso pt s)) = ps_proj s" "ps_proj (snd (read_ms pt s)) = ps_proj s"
  by (simp_all add: read_iso_def read_ms_def split_beta Let_def)

lemma perform_proj [simp]: "ps_proj (snd (perform pt pf s)) = ps_proj s"
  by (cases pf) (simp_all add: split_beta Let_def)

lemma run_effect_proj [simp]: "ps_proj (snd (run_effect pt i pf s)) = ps_proj s"
  by (simp add: run_effect_def split_beta Let_def)

lemma handle_effect_proj [simp]: "ps_proj (snd (handle_effect pt po k opk h t pf s)) = ps_proj s"
  by (simp add: handle_effect_def)

lemma failure_ok [simp]: "projection_ok (project_failure f at_time p)"
  by (simp add: project_failure_def projection_ok_def)

lemma fail_now_ok [simp]: "projection_ok (ps_proj (fail_now pt f s))"
  by (simp add: fail_now_def split_beta Let_def)

lemma acquire_spawn_ok: "projection_ok (ps_proj (acquire_spawn pt po act acq s))"
  by (simp add: acquire_spawn_def split_beta Let_def split: sum.split) (simp add: projection_ok_def)

lemma acquire_duplicate_ok:
  assumes "projection_ok (ps_proj s)" "pp_idle_since (ps_proj s) = None"
  shows "projection_ok (ps_proj (acquire_duplicate pt po act acq s))"
proof -
  have d: "pp_idle_deadline (ps_proj s) = None" using assms by (simp add: projection_ok_def)
  have run: "projection_ok ((ps_proj s)\<lparr>pp_status := Pv_running, pp_handle := Some h, pp_ready := True, pp_failure := None,
      pp_idle_since := None, pp_observed_at := t\<rparr>)" for h t
    using d by (simp add: projection_ok_def)
  have dup1: "\<exists>y. pp_handle (ps_proj s) = Some y \<Longrightarrow>
      projection_ok ((ps_proj s)\<lparr>pp_handle := Some h, pp_failure := f, pp_observed_at := t\<rparr>)" for h f t
    using assms d by (cases "pp_status (ps_proj s)") (simp_all add: projection_ok_def)
  have dup2: "pp_handle (ps_proj s) = None \<Longrightarrow>
      projection_ok ((ps_proj s)\<lparr>pp_status := Pv_starting, pp_handle := Some h, pp_failure := f, pp_observed_at := t\<rparr>)" for h f t
    using assms d by (cases "pp_status (ps_proj s)") (simp_all add: projection_ok_def)
  show ?thesis
    by (simp add: acquire_duplicate_def split_beta Let_def acquire_spawn_ok run dup1 dup2 split: sum.split)
qed

lemma acquire_cache_ok:
  assumes "projection_ok (ps_proj s)" "pp_idle_since (ps_proj s) = None"
  shows "projection_ok (ps_proj (acquire_cache pt po act acq s))"
  using assms by (simp add: acquire_cache_def split_beta Let_def acquire_duplicate_ok split: sum.split)

lemma acquire_ok:
  assumes "projection_ok (ps_proj s)"
  shows "projection_ok (ps_proj (acquire_provider pt po act acq s))"
proof -
  have "projection_ok ((ps_proj s)\<lparr>pp_activation := a, pp_acquisition := b, pp_endpoint := e, pp_failure := None,
      pp_idle_since := None, pp_idle_deadline := None, pp_observed_at := t\<rparr>)" for a b e t
    using assms by (cases "pp_status (ps_proj s)") (auto simp: projection_ok_def)
  then show ?thesis by (simp add: acquire_provider_def split_beta Let_def acquire_cache_ok split: sum.split)
qed

lemma fail_readiness_ok [simp]: "projection_ok (ps_proj (fail_readiness pt po f observed s))"
  by (simp add: fail_readiness_def split_beta Let_def split: sum.split option.split)

lemma check_ok:
  assumes "projection_ok (ps_proj s)"
  shows "projection_ok (ps_proj (check_readiness pt po s))"
proof -
  have "projection_ok (ps_proj (run_readiness pt po h s'))" if "ps_proj s' = ps_proj s" "pp_handle (ps_proj s) = Some h" for h s'
    using assms that
    by (simp add: run_readiness_def split_beta Let_def split: sum.split) (auto simp: projection_ok_def split: provider_status.splits)
  then show ?thesis using assms by (simp add: check_readiness_def split_beta Let_def split: option.split)
qed

lemma cancel_ok:
  assumes "projection_ok (ps_proj s)"
  shows "projection_ok (ps_proj (cancel_provider pt po by_whom why s))"
  using assms
  by (simp add: cancel_provider_def split_beta Let_def split: sum.split option.split) (auto simp: projection_ok_def)

lemma release_ok:
  assumes "projection_ok (ps_proj s)"
  shows "projection_ok (ps_proj (release_provider pt po acq s))"
  using assms by (simp add: release_provider_def split_beta Let_def) (auto simp: projection_ok_def split: provider_status.splits)

lemma idle_ok:
  assumes "projection_ok (ps_proj s)"
  shows "projection_ok (ps_proj (tick_idle pt po s))"
proof -
  have "projection_ok (ps_proj (idle_shutdown pt po h since deadline s'))" if "ps_proj s' = ps_proj s" "pp_handle (ps_proj s) = Some h" for h since deadline s'
    using assms that by (simp add: idle_shutdown_def split_beta Let_def split: sum.split) (auto simp: projection_ok_def)
  then show ?thesis using assms by (simp add: tick_idle_def split_beta Let_def split: option.split)
qed

lemma exited_ok [simp]: "projection_ok (exited_projection Pv_idle f x p)" "projection_ok (exited_projection Pv_failed f x p)"
  "projection_ok ((exited_projection Pv_failed f x p)\<lparr>pp_restarts := n\<rparr>)"
  by (simp_all add: exited_projection_def projection_ok_def)

lemma finish_exit_ok:
  assumes "projection_ok (ps_proj s)" "\<And>p. projection_ok (done_with p)"
  shows "projection_ok (ps_proj (finish_exit pt po h x done_with s))"
  using assms by (simp add: finish_exit_def split_beta Let_def split: sum.split tail_answer.split)

lemma exit_ok:
  assumes "projection_ok (ps_proj s)"
  shows "projection_ok (ps_proj (observe_exit pt po s))"
proof -
  have "projection_ok ((ps_proj s)\<lparr>pp_observed_at := t\<rparr>)" for t
    using assms by (cases "pp_status (ps_proj s)") (auto simp: projection_ok_def)
  then show ?thesis
    using assms by (simp add: observe_exit_def split_beta Let_def finish_exit_ok split: option.split sum.split exit_answer.split)
qed

lemma dispatch_ok: "projection_ok (ps_proj s) \<Longrightarrow> projection_ok (ps_proj (dispatch pt po c s))"
  by (cases c) (simp_all add: acquire_ok check_ok cancel_ok release_ok idle_ok exit_ok)

lemma dispatch_all_ok: "projection_ok (ps_proj s) \<Longrightarrow> projection_ok (ps_proj (dispatch_all pt po cs s))"
  by (induction cs arbitrary: s) (simp_all add: dispatch_ok)

text \<open>
  Whatever the ports answer or throw, and in whatever order commands are dispatched, the
  projection of the provider actor stays consistent: ready means running, a provider that is
  starting, running or stopping has a process handle, an idle one has none, and an idle deadline is
  pending only together with its start and never for a provider that is idle, stopping or failed.\<close>

theorem provider_projection_consistent:
  "case ps_proj (dispatch_all pt po cs (new_provider w)) of p \<Rightarrow>
     pp_ready p = (pp_status p = Pv_running)
   \<and> (pp_idle_since p = None \<longleftrightarrow> pp_idle_deadline p = None)
   \<and> (case pp_status p of
        Pv_idle \<Rightarrow> pp_handle p = None \<and> pp_idle_since p = None
      | Pv_starting \<Rightarrow> pp_handle p \<noteq> None
      | Pv_running \<Rightarrow> pp_handle p \<noteq> None
      | Pv_stopping \<Rightarrow> pp_handle p \<noteq> None \<and> pp_idle_since p = None
      | Pv_failed \<Rightarrow> pp_idle_since p = None)"
proof -
  have "projection_ok (ps_proj (new_provider w))" by (simp add: new_provider_def initial_projection_def projection_ok_def)
  from dispatch_all_ok [OF this, of pt po cs] show ?thesis unfolding projection_ok_def by simp
qed

section \<open>Effects of the actor happen once\<close>

text \<open>The journal of the actor and its log are those of a sequence of effect events.\<close>

definition journalled :: "'w provider_state \<Rightarrow> bool" where
  "journalled s \<longleftrightarrow>
     (\<exists>es. effect_run journal_claim journal_record es \<lparr>ru_journal = [], ru_running = []\<rparr> = (ps_outs s, ps_runner s))"

text \<open>A starting condition, the calls a step adds, and the performed effects that justify them.\<close>

definition spawns :: "string \<Rightarrow> string \<Rightarrow> provider_call \<Rightarrow> bool" where
  "spawns act acq c = (case c of Spawn_call a q p e xs g \<Rightarrow> a = act \<and> q = acq | _ \<Rightarrow> False)"

definition spawn_input :: "provider_options \<Rightarrow> string \<Rightarrow> string \<Rightarrow> key_input" where
  "spawn_input po act acq = effect_input po Spawn (''spawn:'' @ act @ '':'' @ acq) (Some act) (Some acq) None None"

definition spawn_count :: "string \<Rightarrow> string \<Rightarrow> 'w provider_state \<Rightarrow> nat" where
  "spawn_count act acq s = length (filter (spawns act acq) (ps_calls s))"

definition spawn_ok :: "provider_options \<Rightarrow> 'w provider_state \<Rightarrow> bool" where
  "spawn_ok po s \<longleftrightarrow> journalled s \<and>
     (\<forall>act acq key. create_idempotency_key (spawn_input po act acq) = Some key \<longrightarrow> spawn_count act acq s \<le> performed key (ps_outs s))
   \<and> (\<forall>act acq. create_idempotency_key (spawn_input po act acq) = None \<longrightarrow> spawn_count act acq s = 0)"

lemma effect_run_append:
  "effect_run claim recorder (es @ fs) ru =
     (let (o1, r1) = effect_run claim recorder es ru; (o2, r2) = effect_run claim recorder fs r1 in (o1 @ o2, r2))"
  by (induction es arbitrary: ru) (auto simp: Let_def split_beta)

lemma journalled_step:
  assumes "journalled s" "effect_step journal_claim journal_record e (ps_runner s) = (outs, ru)"
    "ps_outs s' = ps_outs s @ outs" "ps_runner s' = ru"
  shows "journalled s'"
proof -
  obtain es where es: "effect_run journal_claim journal_record es \<lparr>ru_journal = [], ru_running = []\<rparr> = (ps_outs s, ps_runner s)"
    using assms(1) by (auto simp: journalled_def)
  have "effect_run journal_claim journal_record (es @ [e]) \<lparr>ru_journal = [], ru_running = []\<rparr> = (ps_outs s', ps_runner s')"
    using es assms(2-4) by (simp add: effect_run_append)
  then show ?thesis unfolding journalled_def by blast
qed

lemma begin_performs:
  assumes "run_effect_begin claim n i ru = (outs, ru')" "to_perform outs"
  shows "\<exists>key. create_idempotency_key i = Some key \<and> outs = [Perform n key]"
  using assms by (auto simp: run_effect_begin_def Let_def split: option.splits effect_claim.splits prod.splits)

lemma read_fields [simp]:
  "ps_outs (snd (read_iso pt s)) = ps_outs s" "ps_runner (snd (read_iso pt s)) = ps_runner s" "ps_calls (snd (read_iso pt s)) = ps_calls s"
  "ps_outs (snd (read_ms pt s)) = ps_outs s" "ps_runner (snd (read_ms pt s)) = ps_runner s" "ps_calls (snd (read_ms pt s)) = ps_calls s"
  by (simp_all add: read_iso_def read_ms_def split_beta Let_def)

fun calls_of :: "performer \<Rightarrow> provider_call list" where
  "calls_of (Call c) = [c]"
| "calls_of (Value r) = []"

lemma port_fields [simp]:
  "ps_outs (snd (perform pt pf s)) = ps_outs s" "ps_runner (snd (perform pt pf s)) = ps_runner s"
  "ps_calls (snd (perform pt pf s)) = ps_calls s @ calls_of pf"
  by (cases pf; simp add: split_beta Let_def)+

text \<open>One effect: the journal moves by its events, and a port is called only for a performed key.\<close>

lemma run_effect_log:
  assumes "journalled s"
  shows "journalled (snd (run_effect pt i pf s))
    \<and> (\<exists>extra. ps_outs (snd (run_effect pt i pf s)) = ps_outs s @ extra
         \<and> (ps_calls (snd (run_effect pt i pf s)) = ps_calls s
            \<or> ps_calls (snd (run_effect pt i pf s)) = ps_calls s @ calls_of pf
              \<and> (\<exists>key. create_idempotency_key i = Some key \<and> performed key extra \<ge> 1)))"
proof -
  obtain outs ru where b: "run_effect_begin journal_claim 0 i (ps_runner s) = (outs, ru)" by fastforce
  let ?s1 = "s\<lparr>ps_runner := ru, ps_outs := ps_outs s @ outs\<rparr>"
  have j1: "journalled ?s1"
    by (rule journalled_step [OF assms, where e = "Begin_effect 0 i"]) (simp_all add: b)
  show ?thesis
  proof (cases "to_perform outs")
    case False
    then show ?thesis using j1 by (auto simp: run_effect_def b)
  next
    case True
    obtain key where key: "create_idempotency_key i = Some key" "outs = [Perform 0 key]"
      using begin_performs [OF b True] by blast
    obtain a s2 where p: "perform pt pf ?s1 = (a, s2)" by fastforce
    let ?r = "case a of Inl msg \<Rightarrow> structured_failure (ki_kind i) (throw_failure (ki_kind i) (ki_operation i) ''perform'' msg) | Inr r \<Rightarrow> r"
    obtain now s3 where n: "read_iso pt s2 = (now, s3)" by fastforce
    obtain outs2 ru2 where e: "run_effect_end journal_record 0 now ?r (ps_runner s3) = (outs2, ru2)" by fastforce
    have s3: "ps_outs s3 = ps_outs s @ outs" "ps_runner s3 = ru" "ps_calls s3 = ps_calls s @ calls_of pf"
      using port_fields [of pt pf ?s1] read_fields(1-3) [of pt s2] by (simp_all add: p n)
    let ?s4 = "s3\<lparr>ps_runner := ru2, ps_outs := ps_outs s3 @ outs2\<rparr>"
    have r: "snd (run_effect pt i pf s) = ?s4" using True by (simp add: run_effect_def b p n e Let_def)
    have "journalled ?s4"
      by (rule journalled_step [OF j1, where e = "End_effect 0 now ?r"]) (use s3 e in simp_all)
    moreover have "ps_outs ?s4 = ps_outs s @ (outs @ outs2)" "performed key (outs @ outs2) \<ge> 1" using s3 key by simp_all
    ultimately show ?thesis unfolding r using key s3 by auto
  qed
qed

lemma spawn_ok_same:
  "ps_outs s' = ps_outs s \<Longrightarrow> ps_runner s' = ps_runner s \<Longrightarrow> ps_calls s' = ps_calls s \<Longrightarrow> spawn_ok po s' = spawn_ok po s"
  by (simp add: spawn_ok_def journalled_def spawn_count_def)

lemma spawn_ok_calls:
  "ps_outs s' = ps_outs s \<Longrightarrow> ps_runner s' = ps_runner s \<Longrightarrow> ps_calls s' = ps_calls s @ cs \<Longrightarrow>
   (\<And>act acq. filter (spawns act acq) cs = []) \<Longrightarrow> spawn_ok po s' = spawn_ok po s"
  by (simp add: spawn_ok_def journalled_def spawn_count_def)

lemma run_effect_spawn_ok:
  assumes s: "spawn_ok po s" and c: "\<And>act acq. filter (spawns act acq) (calls_of pf) \<noteq> [] \<Longrightarrow> i = spawn_input po act acq"
  shows "spawn_ok po (snd (run_effect pt i pf s))"
proof -
  let ?s = "snd (run_effect pt i pf s)"
  have len: "length (filter f (calls_of pf)) \<le> 1" for f by (cases pf) simp_all
  have j: "journalled s" using s by (simp add: spawn_ok_def)
  obtain extra where x: "journalled ?s" "ps_outs ?s = ps_outs s @ extra"
    "ps_calls ?s = ps_calls s \<or> ps_calls ?s = ps_calls s @ calls_of pf
              \<and> (\<exists>key. create_idempotency_key i = Some key \<and> performed key extra \<ge> 1)"
    using run_effect_log [OF j, of pt i pf] by blast
  have "spawn_count act acq ?s \<le> performed key (ps_outs ?s)" if k: "create_idempotency_key (spawn_input po act acq) = Some key" for act acq key
  proof -
    have old: "spawn_count act acq s \<le> performed key (ps_outs s)" using s k by (simp add: spawn_ok_def)
    show ?thesis
    proof (cases "filter (spawns act acq) (calls_of pf) = []")
      case True
      then show ?thesis using x(2,3) old by (auto simp: spawn_count_def)
    next
      case False
      then show ?thesis using x(2,3) old c [OF False] k len [of "spawns act acq"] by (auto simp: spawn_count_def)
    qed
  qed
  moreover have "spawn_count act acq ?s = 0" if k: "create_idempotency_key (spawn_input po act acq) = None" for act acq
  proof -
    have "spawn_count act acq s = 0" using s k by (simp add: spawn_ok_def)
    moreover have "filter (spawns act acq) (calls_of pf) = []" if "ps_calls ?s \<noteq> ps_calls s"
    proof (rule ccontr)
      assume "filter (spawns act acq) (calls_of pf) \<noteq> []"
      then have "i = spawn_input po act acq" by (rule c)
      then show False using that x(3) k by auto
    qed
    ultimately show ?thesis using x(3) by (cases "ps_calls ?s = ps_calls s") (simp_all add: spawn_count_def)
  qed
  ultimately show ?thesis using x(1) unfolding spawn_ok_def by blast
qed

lemma handle_effect_spawn_ok [simp]:
  assumes "spawn_ok po s" "\<And>act acq. filter (spawns act acq) (calls_of pf) = []"
  shows "spawn_ok po (snd (handle_effect pt po k opk h t pf s))"
  unfolding handle_effect_def by (rule run_effect_spawn_ok) (use assms in simp_all)

lemma read_spawn_ok [simp]: "spawn_ok po (snd (read_iso pt s)) = spawn_ok po s" "spawn_ok po (snd (read_ms pt s)) = spawn_ok po s"
  by (rule spawn_ok_same; simp)+

lemma update_spawn_ok [simp]:
  "spawn_ok po (s\<lparr>ps_proj := p\<rparr>) = spawn_ok po s" "spawn_ok po (s\<lparr>ps_attempts := n\<rparr>) = spawn_ok po s"
  "spawn_ok po (s\<lparr>ps_startup := t\<rparr>) = spawn_ok po s"
  by (rule spawn_ok_same; simp)+

lemma fail_now_spawn_ok [simp]: "spawn_ok po (fail_now pt f s) = spawn_ok po s"
  by (simp add: fail_now_def split_beta Let_def)

lemma no_spawn [simp]:
  "\<not> spawns act acq (Probe_call t)" "\<not> spawns act acq (Inspect_call a b c)" "\<not> spawns act acq (Claim_duplicate_call a b c)"
  "\<not> spawns act acq (Readiness_call h n a b)" "\<not> spawns act acq (Signal_call h a v)" "\<not> spawns act acq (Exit_call h)"
  "\<not> spawns act acq (Tail_call h l)" "spawns act acq (Spawn_call a q p e xs g) \<longleftrightarrow> a = act \<and> q = acq"
  by (simp_all add: spawns_def)

lemma acquire_spawn_ok_spawn:
  assumes "spawn_ok po s"
  shows "spawn_ok po (acquire_spawn pt po act acq s)"
proof -
  let ?pf = "Call (Spawn_call act acq (po_provider po) (po_executable po) (po_args po) (po_group po))"
  have "filter (spawns a q) (calls_of ?pf) \<noteq> [] \<Longrightarrow> spawn_input po act acq = spawn_input po a q" for a q
    by (simp split: if_splits)
  then have "spawn_ok po (snd (run_effect pt (spawn_input po act acq) ?pf s))"
    by (rule run_effect_spawn_ok [OF assms])
  then show ?thesis
    unfolding acquire_spawn_def spawn_input_def [symmetric]
    by (simp add: split_beta Let_def split: sum.split)
qed

lemma run_plain_spawn_ok [simp]:
  "spawn_ok po s \<Longrightarrow> (\<And>act acq. filter (spawns act acq) (calls_of pf) = []) \<Longrightarrow> spawn_ok po (snd (run_effect pt i pf s))"
  by (rule run_effect_spawn_ok) simp_all

lemma acquire_duplicate_spawn_ok: "spawn_ok po s \<Longrightarrow> spawn_ok po (acquire_duplicate pt po act acq s)"
  by (simp add: acquire_duplicate_def acquire_spawn_ok_spawn split_beta Let_def split: sum.split)

lemma acquire_cache_spawn_ok: "spawn_ok po s \<Longrightarrow> spawn_ok po (acquire_cache pt po act acq s)"
  by (simp add: acquire_cache_def acquire_duplicate_spawn_ok split_beta Let_def split: sum.split)

lemma acquire_spawn_ok_all: "spawn_ok po s \<Longrightarrow> spawn_ok po (acquire_provider pt po act acq s)"
  by (simp add: acquire_provider_def acquire_cache_spawn_ok split_beta Let_def split: sum.split)

lemma fail_readiness_spawn_ok [simp]: "spawn_ok po s \<Longrightarrow> spawn_ok po (fail_readiness pt po f observed s)"
  by (simp add: fail_readiness_def split_beta Let_def split: sum.split option.split)

lemma check_spawn_ok: "spawn_ok po s \<Longrightarrow> spawn_ok po (check_readiness pt po s)"
  by (simp add: check_readiness_def run_readiness_def split_beta Let_def split: option.split sum.split)

lemma cancel_spawn_ok: "spawn_ok po s \<Longrightarrow> spawn_ok po (cancel_provider pt po by_whom why s)"
  by (simp add: cancel_provider_def split_beta Let_def split: option.split sum.split)

lemma tick_spawn_ok: "spawn_ok po s \<Longrightarrow> spawn_ok po (tick_idle pt po s)"
  by (simp add: tick_idle_def idle_shutdown_def split_beta Let_def split: option.split sum.split)

lemma exit_call_spawn_ok [simp]:
  "spawn_ok po (s\<lparr>ps_world := w, ps_calls := ps_calls s @ [Exit_call h]\<rparr>) = spawn_ok po s"
  by (rule spawn_ok_calls [where cs = "[Exit_call h]"]) simp_all

lemma tail_call_spawn_ok [simp]:
  "spawn_ok po (s\<lparr>ps_world := w, ps_calls := ps_calls s @ [Tail_call h l]\<rparr>) = spawn_ok po s"
  by (rule spawn_ok_calls [where cs = "[Tail_call h l]"]) simp_all

lemma finish_exit_spawn_ok [simp]: "spawn_ok po s \<Longrightarrow> spawn_ok po (finish_exit pt po h x d s)"
  by (simp add: finish_exit_def split_beta Let_def split: sum.split tail_answer.split)

lemma exit_spawn_ok: "spawn_ok po s \<Longrightarrow> spawn_ok po (observe_exit pt po s)"
  by (simp add: observe_exit_def split_beta Let_def split: option.split sum.split exit_answer.split)

lemma dispatch_spawn_ok: "spawn_ok po s \<Longrightarrow> spawn_ok po (dispatch pt po c s)"
  by (cases c) (simp_all add: acquire_spawn_ok_all check_spawn_ok cancel_spawn_ok tick_spawn_ok exit_spawn_ok
      release_provider_def split_beta Let_def)

lemma dispatch_all_spawn_ok: "spawn_ok po s \<Longrightarrow> spawn_ok po (dispatch_all pt po cs s)"
  by (induction cs arbitrary: s) (simp_all add: dispatch_spawn_ok)


text \<open>
  C29. The actor spawns at most one process for an activation and acquisition, whatever the ports
  answer or throw and whatever commands are dispatched in between: a spawn that has been performed is
  in the journal and is replayed from it, a failed one as well.\<close>

theorem spawned_at_most_once:
  "length (filter (\<lambda>c. \<exists>provider exe args grp. c = Spawn_call act acq provider exe args grp)
     (ps_calls (dispatch_all pt po cs (new_provider w)))) \<le> 1"
proof -
  let ?s = "dispatch_all pt po cs (new_provider w)"
  have "journalled (new_provider w)" unfolding journalled_def new_provider_def by (rule exI [of _ "[]"]) simp
  then have "spawn_ok po (new_provider w)" by (simp add: spawn_ok_def spawn_count_def new_provider_def)
  then have ok: "spawn_ok po ?s" by (rule dispatch_all_spawn_ok)
  then obtain es where es: "effect_run journal_claim journal_record es \<lparr>ru_journal = [], ru_running = []\<rparr> = (ps_outs ?s, ps_runner ?s)"
    by (auto simp: spawn_ok_def journalled_def)
  have e: "journal_entry_of [] k = None" for k :: string by (simp add: journal_entry_of_def)
  have once: "performed key (ps_outs ?s) \<le> 1" for key
    using in_memory.run_once(1) [where j = "[]" and es = es and key = key, OF e] by (simp only: es fst_conv)
  have "spawn_count act acq ?s \<le> 1"
  proof (cases "create_idempotency_key (spawn_input po act acq)")
    case None
    then show ?thesis using ok by (simp add: spawn_ok_def)
  next
    case (Some key)
    then show ?thesis using ok once [of key] by (fastforce simp: spawn_ok_def)
  qed
  moreover have "spawns act acq = (\<lambda>c. \<exists>provider exe args grp. c = Spawn_call act acq provider exe args grp)"
    by (auto simp: fun_eq_iff spawns_def split: provider_call.splits)
  ultimately show ?thesis by (simp add: spawn_count_def)
qed

section \<open>Acquisitions are replayed\<close>

text \<open>The recorded result of an effect.\<close>

definition recorded :: "'w provider_state \<Rightarrow> key_input \<Rightarrow> effect_result option" where
  "recorded s i =
     (case create_idempotency_key i of
        None \<Rightarrow> None
      | Some key \<Rightarrow>
          (case journal_entry_of (ru_journal (ps_runner s)) key of
             Some (kind, Some r) \<Rightarrow> if kind = ki_kind i then Some r else None
           | _ \<Rightarrow> None))"

lemma recorded_entry:
  "recorded s i = Some r \<longleftrightarrow>
     (\<exists>key. create_idempotency_key i = Some key \<and> journal_entry_of (ru_journal (ps_runner s)) key = Some (ki_kind i, Some r))"
  by (auto simp: recorded_def split: option.splits prod.splits if_splits)

lemma entry_cases:
  "journal_entry_of j key = None \<longleftrightarrow> omap_get j key = None"
  "journal_entry_of j key = Some (kind, Some r) \<longleftrightarrow>
     (\<exists>e rec. omap_get j key = Some e \<and> je_kind e = kind \<and> je_status e = Recorded_effect \<and> je_record e = Some rec \<and> er_result rec = r)"
  by (auto simp: journal_entry_of_def split: if_splits)

lemma replayed:
  assumes "recorded s i = Some r"
  shows "fst (run_effect pt i pf s) = Inr r" "ps_calls (snd (run_effect pt i pf s)) = ps_calls s"
    "ps_runner (snd (run_effect pt i pf s)) = ps_runner s"
proof -
  obtain key e rec where k: "create_idempotency_key i = Some key" "omap_get (ru_journal (ps_runner s)) key = Some e"
    "je_kind e = ki_kind i" "je_status e = Recorded_effect" "je_record e = Some rec" "er_result rec = r"
    using assms by (auto simp: recorded_entry entry_cases)
  have "run_effect_begin journal_claim 0 i (ps_runner s) = ([Effect_result 0 key r True], ps_runner s)"
    using k by (simp add: run_effect_begin_def journal_claim_def)
  then show "fst (run_effect pt i pf s) = Inr r" "ps_calls (snd (run_effect pt i pf s)) = ps_calls s"
    "ps_runner (snd (run_effect pt i pf s)) = ps_runner s"
    by (simp_all add: run_effect_def)
qed

text \<open>What one effect does to the journal: nothing, or it records its result under its own key.\<close>

lemma run_effect_journal:
  "(ru_journal (ps_runner (snd (run_effect pt i pf s))) = ru_journal (ps_runner s)
      \<and> (\<forall>r. fst (run_effect pt i pf s) = Inr r \<longrightarrow> recorded s i = Some r))
   \<or> (\<exists>key r. create_idempotency_key i = Some key \<and> journal_entry_of (ru_journal (ps_runner s)) key = None
        \<and> fst (run_effect pt i pf s) = Inr r
        \<and> journal_entry_of (ru_journal (ps_runner (snd (run_effect pt i pf s)))) =
            (journal_entry_of (ru_journal (ps_runner s)))(key \<mapsto> (ki_kind i, Some r)))"
proof (cases "create_idempotency_key i")
  case None
  then show ?thesis by (simp add: run_effect_def run_effect_begin_def)
next
  case (Some key)
  let ?j = "ru_journal (ps_runner s)"
  show ?thesis
  proof (cases "omap_get ?j key")
    case (Some e)
    then show ?thesis
      using \<open>create_idempotency_key i = Some key\<close>
      by (cases "je_record e"; cases "je_status e"; cases "je_kind e = ki_kind i")
        (auto simp: run_effect_def run_effect_begin_def journal_claim_def recorded_entry entry_cases)
  next
    case None
    let ?j1 = "omap_set key \<lparr>je_kind = ki_kind i, je_status = Pending_effect, je_record = None :: effect_result effect_record option\<rparr> ?j"
    let ?ru = "ps_runner s\<lparr>ru_journal := ?j1, ru_running := omap_set 0 (key, ki_kind i) (ru_running (ps_runner s))\<rparr>"
    have b: "run_effect_begin journal_claim 0 i (ps_runner s) = ([Perform 0 key], ?ru)"
      using Some None by (simp add: run_effect_begin_def journal_claim_def)
    let ?s1 = "s\<lparr>ps_runner := ?ru, ps_outs := ps_outs s @ [Perform 0 key]\<rparr>"
    obtain a s2 where p: "perform pt pf ?s1 = (a, s2)" by fastforce
    obtain now s3 where n: "read_iso pt s2 = (now, s3)" by fastforce
    have s3: "ps_runner s3 = ?ru" using port_fields(2) [of pt pf ?s1] read_fields(2) [of pt s2] by (simp add: p n)
    let ?r = "case a of Inl msg \<Rightarrow> structured_failure (ki_kind i) (throw_failure (ki_kind i) (ki_operation i) ''perform'' msg) | Inr r \<Rightarrow> r"
    let ?rec = "\<lparr>er_key = key, er_kind = ki_kind i, er_recorded_at = now, er_result = ?r\<rparr>"
    have e: "run_effect_end journal_record 0 now ?r ?ru =
        ([Effect_result 0 key ?r False],
         ?ru\<lparr>ru_journal := omap_set key \<lparr>je_kind = ki_kind i, je_status = Recorded_effect, je_record = Some ?rec\<rparr> ?j1,
             ru_running := omap_delete 0 (ru_running ?ru)\<rparr>)"
      by (simp add: run_effect_end_def journal_record_def)
    have r: "run_effect pt i pf s = (Inr ?r, s3\<lparr>ps_runner := snd (run_effect_end journal_record 0 now ?r ?ru),
        ps_outs := ps_outs s3 @ [Effect_result 0 key ?r False]\<rparr>)"
      by (simp add: run_effect_def b p n s3 e)
    have "journal_entry_of (ru_journal (snd (run_effect_end journal_record 0 now ?r ?ru))) = (journal_entry_of ?j)(key \<mapsto> (ki_kind i, Some ?r))"
      unfolding e by (simp add: journal_entry_of_def fun_eq_iff)
    then show ?thesis using Some None r by (auto simp: entry_cases)
  qed
qed

lemma effect_recorded: "fst (run_effect pt i pf s) = Inr r \<Longrightarrow> recorded (snd (run_effect pt i pf s)) i = Some r"
  using run_effect_journal [of pt i pf s] by (auto simp: recorded_entry)

lemma recorded_stays: "recorded s i' = Some r \<Longrightarrow> recorded (snd (run_effect pt i pf s)) i' = Some r"
  using run_effect_journal [of pt i pf s] by (auto simp: recorded_entry)

lemma recorded_new:
  assumes "recorded (snd (run_effect pt i pf s)) i' = Some r"
  shows "recorded s i' = Some r \<or> operation_of i' = operation_of i"
proof -
  let ?s = "snd (run_effect pt i pf s)"
  obtain key' where k': "create_idempotency_key i' = Some key'"
    "journal_entry_of (ru_journal (ps_runner ?s)) key' = Some (ki_kind i', Some r)"
    using assms by (auto simp: recorded_entry)
  have "recorded s i' = Some r"
    if "journal_entry_of (ru_journal (ps_runner ?s)) key' = journal_entry_of (ru_journal (ps_runner s)) key'"
    using k' that by (auto simp: recorded_entry)
  then show ?thesis
    using run_effect_journal [of pt i pf s] key_inject [OF k'(1), of i]
    by (metis fun_upd_other)
qed

definition probe_input :: "provider_options \<Rightarrow> string \<Rightarrow> string \<Rightarrow> key_input" where
  "probe_input po act acq =
     effect_input po Filesystem_probe (''filesystem:'' @ po_probe_target po) (Some act) (Some acq) None (Some (po_probe_target po))"

definition cache_input :: "provider_options \<Rightarrow> string \<Rightarrow> string \<Rightarrow> key_input" where
  "cache_input po act acq = effect_input po Model_cache_inspect (''cache:'' @ po_cache_key po) (Some act) (Some acq) None None"

definition duplicate_input :: "provider_options \<Rightarrow> string \<Rightarrow> string \<Rightarrow> key_input" where
  "duplicate_input po act acq =
     effect_input po Duplicate_prevention (''acquire:'' @ act @ '':'' @ acq) (Some act) (Some acq) None None"

definition passed_probe :: "provider_options \<Rightarrow> string \<Rightarrow> string \<Rightarrow> 'w provider_state \<Rightarrow> bool" where
  "passed_probe po act acq s \<longleftrightarrow> (\<exists>r. recorded s (probe_input po act acq) = Some r \<and> re_outcome r \<noteq> ''failed'')"

definition passed_cache :: "provider_options \<Rightarrow> string \<Rightarrow> string \<Rightarrow> 'w provider_state \<Rightarrow> bool" where
  "passed_cache po act acq s \<longleftrightarrow> (\<exists>r. recorded s (cache_input po act acq) = Some r \<and> re_outcome r \<noteq> ''failed'')"

definition passed_duplicate :: "provider_options \<Rightarrow> string \<Rightarrow> string \<Rightarrow> 'w provider_state \<Rightarrow> bool" where
  "passed_duplicate po act acq s \<longleftrightarrow>
     (\<exists>r. recorded s (duplicate_input po act acq) = Some r
        \<and> re_outcome r \<noteq> ''already_running'' \<and> re_outcome r \<noteq> ''duplicate'' \<and> re_outcome r \<noteq> ''error'')"

text \<open>A spawn is recorded only after the three effects before it passed.\<close>

definition settled :: "provider_options \<Rightarrow> 'w provider_state \<Rightarrow> bool" where
  "settled po s \<longleftrightarrow>
     (\<forall>act acq. recorded s (spawn_input po act acq) \<noteq> None \<longrightarrow>
        passed_probe po act acq s \<and> passed_cache po act acq s \<and> passed_duplicate po act acq s)"

lemma passed_stays [simp]:
  "passed_probe po act acq s \<Longrightarrow> passed_probe po act acq (snd (run_effect pt i pf s))"
  "passed_cache po act acq s \<Longrightarrow> passed_cache po act acq (snd (run_effect pt i pf s))"
  "passed_duplicate po act acq s \<Longrightarrow> passed_duplicate po act acq (snd (run_effect pt i pf s))"
  using recorded_stays unfolding passed_probe_def passed_cache_def passed_duplicate_def by blast+

lemma settled_step:
  assumes "settled po s"
    and "\<And>act acq. operation_of (spawn_input po act acq) = operation_of i \<Longrightarrow>
        passed_probe po act acq s \<and> passed_cache po act acq s \<and> passed_duplicate po act acq s"
  shows "settled po (snd (run_effect pt i pf s))"
  unfolding settled_def
proof (intro allI impI)
  fix act acq
  assume "recorded (snd (run_effect pt i pf s)) (spawn_input po act acq) \<noteq> None"
  then have "recorded s (spawn_input po act acq) \<noteq> None \<or> operation_of (spawn_input po act acq) = operation_of i"
    using recorded_new by blast
  then have "passed_probe po act acq s \<and> passed_cache po act acq s \<and> passed_duplicate po act acq s"
    using assms unfolding settled_def by blast
  then show "passed_probe po act acq (snd (run_effect pt i pf s)) \<and> passed_cache po act acq (snd (run_effect pt i pf s))
      \<and> passed_duplicate po act acq (snd (run_effect pt i pf s))" by simp
qed

lemma part_inject: "part (Some a) = part (Some b) \<Longrightarrow> a = b"
  by (auto simp: part_def split: if_splits)

lemma spawn_operation:
  "operation_of (spawn_input po act acq) = operation_of (spawn_input po a q) \<Longrightarrow> act = a \<and> acq = q"
  by (auto simp: operation_of_def spawn_input_def effect_input_def dest: part_inject)

lemma settled_other: "settled po s \<Longrightarrow> ki_kind i \<noteq> Spawn \<Longrightarrow> settled po (snd (run_effect pt i pf s))"
  by (rule settled_step) (auto simp: operation_of_def spawn_input_def effect_input_def)

lemma recorded_runner: "ps_runner s' = ps_runner s \<Longrightarrow> recorded s' = recorded s"
  unfolding recorded_def by (simp only:)

lemma settled_runner: "ps_runner s' = ps_runner s \<Longrightarrow> settled po s' = settled po s"
  using recorded_runner [of s' s] by (simp add: settled_def passed_probe_def passed_cache_def passed_duplicate_def)

lemma settled_simps [simp]:
  "settled po (snd (read_iso pt s)) = settled po s" "settled po (snd (read_ms pt s)) = settled po s"
  "settled po (s\<lparr>ps_proj := p\<rparr>) = settled po s" "settled po (s\<lparr>ps_attempts := n\<rparr>) = settled po s"
  "settled po (s\<lparr>ps_startup := t\<rparr>) = settled po s" "settled po (s\<lparr>ps_world := w, ps_calls := cs\<rparr>) = settled po s"
  by (rule settled_runner; simp; fail | simp add: settled_runner)+

lemma settled_fail [simp]: "settled po (fail_now pt f s) = settled po s"
  by (simp add: fail_now_def split_beta Let_def)

lemma settled_handle [simp]: "settled po s \<Longrightarrow> k \<noteq> Spawn \<Longrightarrow> settled po (snd (handle_effect pt po k opk h t pf s))"
  unfolding handle_effect_def by (rule settled_other) (simp_all add: effect_input_def)


lemma spawn_settled:
  assumes "settled po s" "passed_probe po act acq s" "passed_cache po act acq s" "passed_duplicate po act acq s"
  shows "settled po (acquire_spawn pt po act acq s)"
proof -
  have "settled po (snd (run_effect pt (spawn_input po act acq) pf s))" for pf
    by (rule settled_step) (use assms spawn_operation in blast)+
  then show ?thesis
    unfolding acquire_spawn_def spawn_input_def [symmetric]
    by (simp add: split_beta Let_def split: sum.split)
qed

lemma duplicate_settled:
  assumes "settled po s" "passed_probe po act acq s" "passed_cache po act acq s"
  shows "settled po (acquire_duplicate pt po act acq s)"
proof -
  let ?pf = "Call (Claim_duplicate_call act acq (po_provider po))"
  let ?s = "snd (run_effect pt (duplicate_input po act acq) ?pf s)"
  have s: "settled po ?s" by (rule settled_other [OF assms(1)]) (simp add: duplicate_input_def effect_input_def)
  have "settled po (acquire_spawn pt po act acq ?s)"
    if r: "fst (run_effect pt (duplicate_input po act acq) ?pf s) = Inr r"
      "re_outcome r \<noteq> ''already_running''" "re_outcome r \<noteq> ''duplicate''" "re_outcome r \<noteq> ''error''" for r
  proof -
    have "passed_duplicate po act acq ?s" using effect_recorded [OF r(1)] r(2-4) unfolding passed_duplicate_def by blast
    then show ?thesis using spawn_settled [OF s] assms by simp
  qed
  then show ?thesis
    unfolding acquire_duplicate_def duplicate_input_def [symmetric]
    using s by (simp add: split_beta Let_def split: sum.split)
qed

lemma cache_settled:
  assumes "settled po s" "passed_probe po act acq s"
  shows "settled po (acquire_cache pt po act acq s)"
proof -
  let ?pf = "Call (Inspect_call (po_provider po) (po_model_id po) (po_cache_key po))"
  let ?s = "snd (run_effect pt (cache_input po act acq) ?pf s)"
  have s: "settled po ?s" by (rule settled_other [OF assms(1)]) (simp add: cache_input_def effect_input_def)
  have "settled po (acquire_duplicate pt po act acq ?s)"
    if r: "fst (run_effect pt (cache_input po act acq) ?pf s) = Inr r" "re_outcome r \<noteq> ''failed''" for r
  proof -
    have "passed_cache po act acq ?s" using effect_recorded [OF r(1)] r(2) unfolding passed_cache_def by blast
    then show ?thesis using duplicate_settled [OF s] assms by simp
  qed
  then show ?thesis
    unfolding acquire_cache_def cache_input_def [symmetric]
    using s by (simp add: split_beta Let_def split: sum.split)
qed

lemma acquire_settled:
  assumes "settled po s"
  shows "settled po (acquire_provider pt po act acq s)"
proof -
  let ?pf = "Call (Probe_call (po_probe_target po))"
  have "settled po (snd (run_effect pt (probe_input po act acq) ?pf s'))" if "settled po s'" for s'
    by (rule settled_other [OF that]) (simp add: probe_input_def effect_input_def)
  moreover have "settled po (acquire_cache pt po act acq (snd (run_effect pt (probe_input po act acq) ?pf s')))"
    if "settled po s'" "fst (run_effect pt (probe_input po act acq) ?pf s') = Inr r" "re_outcome r \<noteq> ''failed''" for s' r
  proof (rule cache_settled)
    show "passed_probe po act acq (snd (run_effect pt (probe_input po act acq) ?pf s'))"
      using effect_recorded [OF that(2)] that(3) unfolding passed_probe_def by blast
  qed (use calculation that in blast)
  ultimately show ?thesis
    unfolding acquire_provider_def probe_input_def [symmetric]
    using assms by (simp add: split_beta Let_def split: sum.split)
qed

lemma fail_readiness_settled [simp]: "settled po s \<Longrightarrow> settled po (fail_readiness pt po f observed s)"
  by (simp add: fail_readiness_def split_beta Let_def split: sum.split option.split)

lemma check_settled: "settled po s \<Longrightarrow> settled po (check_readiness pt po s)"
  by (simp add: check_readiness_def run_readiness_def split_beta Let_def split: option.split sum.split)

lemma cancel_settled: "settled po s \<Longrightarrow> settled po (cancel_provider pt po by_whom why s)"
  by (simp add: cancel_provider_def split_beta Let_def split: option.split sum.split)

lemma tick_settled: "settled po s \<Longrightarrow> settled po (tick_idle pt po s)"
  by (simp add: tick_idle_def idle_shutdown_def split_beta Let_def split: option.split sum.split)

lemma finish_exit_settled [simp]: "settled po s \<Longrightarrow> settled po (finish_exit pt po h x d s)"
  by (simp add: finish_exit_def split_beta Let_def split: sum.split tail_answer.split)

lemma exit_settled: "settled po s \<Longrightarrow> settled po (observe_exit pt po s)"
  by (simp add: observe_exit_def split_beta Let_def split: option.split sum.split exit_answer.split)

lemma dispatch_all_settled: "settled po s \<Longrightarrow> settled po (dispatch_all pt po cs s)"
proof (induction cs arbitrary: s)
  case (Cons c cs)
  have "settled po (dispatch pt po c s)"
    using Cons.prems
    by (cases c) (simp_all add: acquire_settled check_settled cancel_settled tick_settled exit_settled release_provider_def split_beta Let_def)
  then show ?case using Cons.IH by simp
qed simp

lemma new_settled: "settled po (new_provider w)"
  by (simp add: settled_def recorded_def new_provider_def journal_entry_of_def split: option.split)

lemma dispatch_all_append: "dispatch_all pt po (cs @ [c]) s = dispatch pt po c (dispatch_all pt po cs s)"
  by (induction cs arbitrary: s) simp_all

lemma replay_step:
  assumes "recorded s i = Some r"
  obtains s' where "run_effect pt i pf s = (Inr r, s')" "recorded s' = recorded s" "ps_calls s' = ps_calls s" "ps_proj s' = ps_proj s"
proof -
  have "run_effect pt i pf s = (Inr r, snd (run_effect pt i pf s))" using replayed(1) [OF assms] by (simp add: prod_eq_iff)
  then show ?thesis using that replayed(2,3) [OF assms] recorded_runner run_effect_proj by blast
qed

lemma acquire_replayed:
  assumes "settled po s" "recorded s (spawn_input po act acq) = Some r" "re_outcome r \<noteq> ''failed''"
  shows "ps_calls (acquire_provider pt po act acq s) = ps_calls s
    \<and> pp_status (ps_proj (acquire_provider pt po act acq s)) = Pv_starting
    \<and> pp_handle (ps_proj (acquire_provider pt po act acq s)) = Some (re_handle r)
    \<and> pp_failure (ps_proj (acquire_provider pt po act acq s)) = None"
proof -
  obtain rp rc rd where p: "recorded s (probe_input po act acq) = Some rp" "re_outcome rp \<noteq> ''failed''"
    "recorded s (cache_input po act acq) = Some rc" "re_outcome rc \<noteq> ''failed''"
    "recorded s (duplicate_input po act acq) = Some rd"
    "re_outcome rd \<noteq> ''already_running''" "re_outcome rd \<noteq> ''duplicate''" "re_outcome rd \<noteq> ''error''"
    using assms unfolding settled_def passed_probe_def passed_cache_def passed_duplicate_def by blast
  obtain now s0 where n: "read_iso pt s = (now, s0)" by fastforce
  define s1 where "s1 = s0\<lparr>ps_proj := (ps_proj s0)\<lparr>pp_activation := Some act, pp_acquisition := Some acq,
      pp_endpoint := Some (po_endpoint po), pp_failure := None, pp_idle_since := None, pp_idle_deadline := None, pp_observed_at := Some now\<rparr>\<rparr>"
  have s1: "recorded s1 = recorded s" "ps_calls s1 = ps_calls s"
    using read_fields(2,3) [of pt s] recorded_runner [of s1 s] by (simp_all add: s1_def n)
  obtain s2 where e2: "run_effect pt (probe_input po act acq) (Call (Probe_call (po_probe_target po))) s1 = (Inr rp, s2)"
    "recorded s2 = recorded s" "ps_calls s2 = ps_calls s"
    using replay_step [of s1 "probe_input po act acq" rp pt] p(1) s1 by metis
  obtain s3 where e3: "run_effect pt (cache_input po act acq) (Call (Inspect_call (po_provider po) (po_model_id po) (po_cache_key po))) s2
      = (Inr rc, s3)" "recorded s3 = recorded s" "ps_calls s3 = ps_calls s"
    using replay_step [of s2 "cache_input po act acq" rc pt] p(3) e2 by metis
  obtain s4 where e4: "run_effect pt (duplicate_input po act acq) (Call (Claim_duplicate_call act acq (po_provider po))) s3 = (Inr rd, s4)"
    "recorded s4 = recorded s" "ps_calls s4 = ps_calls s"
    using replay_step [of s3 "duplicate_input po act acq" rd pt] p(5) e3 by metis
  obtain s5 where e5: "run_effect pt (spawn_input po act acq)
        (Call (Spawn_call act acq (po_provider po) (po_executable po) (po_args po) (po_group po))) s4 = (Inr r, s5)"
    "ps_calls s5 = ps_calls s"
    using replay_step [of s4 "spawn_input po act acq" r pt] assms(2) e4 by metis
  have a: "acquire_provider pt po act acq s = acquire_cache pt po act acq s2"
    unfolding acquire_provider_def probe_input_def [symmetric] n Let_def prod.case s1_def [symmetric] e2(1) using p(2) by simp
  have b: "acquire_cache pt po act acq s2 = acquire_duplicate pt po act acq s3"
    unfolding acquire_cache_def cache_input_def [symmetric] e3(1) using p(4) by simp
  have c: "acquire_duplicate pt po act acq s3 = acquire_spawn pt po act acq s4"
    unfolding acquire_duplicate_def duplicate_input_def [symmetric] e4(1) using p(6-8) by simp
  show ?thesis
    unfolding a b c acquire_spawn_def spawn_input_def [symmetric] e5(1)
    using assms(3) e5(2) by (simp add: split_beta Let_def)
qed

text \<open>The readiness of the first life is replayed as well: the provider is then reported running.\<close>

lemma check_replayed:
  assumes "pp_handle (ps_proj s) = Some h" "pp_status (ps_proj s) = Pv_starting" "ps_attempts s = 0" "ps_startup s = Some t"
    "fst (pt_now_ms pt (ps_world s)) - t < po_startup_timeout po" "re_outcome r = ''ready''"
    "recorded s (effect_input po Readiness (''readiness:'' @ handle_text h @ '':'' @ nat_digits 1) (pp_activation (ps_proj s))
       (pp_acquisition (ps_proj s)) (Some (handle_text h)) (Some (po_target po))) = Some r"
  shows "pp_status (ps_proj (check_readiness pt po s)) = Pv_running" "ps_calls (check_readiness pt po s) = ps_calls s"
proof -
  obtain ms s1 where n: "read_ms pt s = (ms, s1)" by fastforce
  let ?i = "effect_input po Readiness (''readiness:'' @ handle_text h @ '':'' @ nat_digits 1) (pp_activation (ps_proj s))
       (pp_acquisition (ps_proj s)) (Some (handle_text h)) (Some (po_target po))"
  let ?s2 = "s1\<lparr>ps_attempts := Suc (ps_attempts s1)\<rparr>"
  have f: "ms = fst (pt_now_ms pt (ps_world s))" "ps_attempts s1 = 0" "ps_startup s1 = Some t" "ps_proj s1 = ps_proj s"
    "ps_runner s1 = ps_runner s" "ps_calls s1 = ps_calls s"
    using n assms(3,4) by (auto simp: read_ms_def split_beta Let_def)
  have "recorded ?s2 ?i = Some r" using recorded_runner [of ?s2 s] f(5) assms(7) by simp
  then obtain s3 where e: "run_effect pt ?i (Call (Readiness_call h 1 (po_strategy po) (po_target po))) ?s2 = (Inr r, s3)" "ps_calls s3 = ps_calls ?s2"
    by (rule replay_step [where pt = pt and pf = "Call (Readiness_call h 1 (po_strategy po) (po_target po))"]) (rule that)
  have "check_readiness pt po s = run_readiness pt po h s1"
    using assms(1-5) f n by (simp add: check_readiness_def)
  then show "pp_status (ps_proj (check_readiness pt po s)) = Pv_running" "ps_calls (check_readiness pt po s) = ps_calls s"
    using e f assms(6) by (simp_all add: run_readiness_def handle_effect_def)
qed

text \<open>
  An acquisition is used once: after a spawn for an activation and acquisition has succeeded,
  acquiring with the same keys, at any later time and also after the process has exited or crashed,
  calls no port at all and reports the handle of that first process as starting, without a failure.\<close>

theorem reacquire_replays:
  "recorded (dispatch_all pt po cs (new_provider w)) (spawn_input po act acq) = Some r \<Longrightarrow> re_outcome r \<noteq> ''failed'' \<Longrightarrow>
   (case dispatch_all pt po (cs @ [Acquire_provider act acq]) (new_provider w) of s \<Rightarrow>
      ps_calls s = ps_calls (dispatch_all pt po cs (new_provider w)) \<and> pp_status (ps_proj s) = Pv_starting
    \<and> pp_handle (ps_proj s) = Some (re_handle r) \<and> pp_failure (ps_proj s) = None)"
  using acquire_replayed [OF dispatch_all_settled [OF new_settled, of po pt cs w], of act acq r pt]
  by (simp add: dispatch_all_append)

definition sample_answer :: "provider_call \<Rightarrow> effect_result" where
  "sample_answer c = (plain_result (case c of Spawn_call a q p e xs g \<Rightarrow> ''spawned'' | Readiness_call h n s t \<Rightarrow> ''ready'' | _ \<Rightarrow> ''done'')
      (actor_failure [] [] None))\<lparr>re_handle := Child_handle CHR ''h'' ''1'', re_at := Some ''t''\<rparr>"

definition sample_ports :: "unit provider_ports" where
  "sample_ports = \<lparr>pt_perform = (\<lambda>c w. (Inr (sample_answer c), w)),
     pt_exit = (\<lambda>h w. (Inr (Exit_exited \<lparr>xf_code = JNumber 0, xf_signal = JNull, xf_at = ''t''\<rparr>), w)),
     pt_tail = (\<lambda>h l w. (Inr (Tailed empty_output empty_output), w)), pt_now_iso = (\<lambda>w. (''t'', w)), pt_now_ms = (\<lambda>w. (0, w)),
     pt_iso_text = (\<lambda>t. ''t'')\<rparr>"

definition sample_options :: provider_options where
  "sample_options = \<lparr>po_provider = ''p'', po_executable = ''x'', po_args = [], po_endpoint = ''e'', po_group = ''none'', po_strategy = ''http'',
     po_target = ''r'', po_startup_timeout = 5, po_idle_shutdown = 9, po_tail_limit = 3, po_probe_target = ''f'', po_model_id = ''m'',
     po_cache_key = ''c''\<rparr>"

abbreviation first_life :: "provider_command list" where
  "first_life \<equiv> [Acquire_provider ''a'' ''q'', Check_readiness, Observe_exit]"

theorem reacquire_replays_witness:
  "ps_calls (dispatch_all sample_ports sample_options (first_life @ [Acquire_provider ''a'' ''q'']) (new_provider ()))
     = ps_calls (dispatch_all sample_ports sample_options first_life (new_provider ()))
   \<and> pp_handle (ps_proj (dispatch_all sample_ports sample_options (first_life @ [Acquire_provider ''a'' ''q'']) (new_provider ())))
     = Some (Child_handle CHR ''h'' ''1'')"
proof -
  have r: "recorded (dispatch_all sample_ports sample_options first_life (new_provider ())) (spawn_input sample_options ''a'' ''q'')
      = Some (sample_answer (Spawn_call ''a'' ''q'' ''p'' ''x'' [] ''none''))" by code_simp
  have o1: "re_outcome (sample_answer (Spawn_call ''a'' ''q'' ''p'' ''x'' [] ''none'')) \<noteq> ''failed''" by code_simp
  show ?thesis using reacquire_replays [OF r o1] by (simp add: sample_answer_def)
qed

end
