(* ===== verification/Agent_Receipts.thy ===== *)
theory Agent_Receipts
  imports Json_Values Text_Order
begin

text \<open>
  The receipts and traces of agent execution, \<open>agent-execution-contract.ts\<close>: redaction of secrets,
  the validators of the twelve kinds of receipts, sorting, the terminal-lineage rule, building,
  parsing and sanitizing a trace. Receipts are JSON objects, as they are stored; every JSON value
  of the model is JSON-safe, so \<open>isJsonSafeValue\<close> holds of it and clones are the identity.
  \<open>Date.parse\<close> accepts implementation-defined formats, so it is an argument.
\<close>

section \<open>Redaction\<close>

definition lower_char :: "char \<Rightarrow> char" where
  "lower_char c =
     (let n = of_char c :: nat
      in if 65 \<le> n \<and> n \<le> 90 \<or> 192 \<le> n \<and> n \<le> 222 \<and> n \<noteq> 215 then char_of (n + 32) else c)"

datatype redaction = Secret | Prompt

definition should_redact_key :: "string \<Rightarrow> redaction option" where
  "should_redact_key key =
     (let k = map lower_char key
      in if has_substring k ''token'' \<or> has_substring k ''authorization'' \<or> has_substring k ''apikey'' \<or> has_substring k ''api_key''
            \<or> has_substring k ''secret'' \<or> has_substring k ''password'' \<or> has_substring k ''credential'' then Some Secret
         else if has_substring k ''prompt'' then Some Prompt
         else None)"

fun redaction_marker :: "redaction \<Rightarrow> json" where
  "redaction_marker Secret = JString ''[redacted:secret]''"
| "redaction_marker Prompt = JString ''[redacted:prompt]''"

fun redact :: "json \<Rightarrow> json" and redact_list :: "json list \<Rightarrow> json list"
  and redact_fields :: "(string \<times> json) list \<Rightarrow> (string \<times> json) list" where
  "redact (JArray xs) = JArray (redact_list xs)"
| "redact (JObject fs) = JObject (redact_fields fs)"
| "redact v = v"
| "redact_list [] = []"
| "redact_list (x # xs) = redact x # redact_list xs"
| "redact_fields [] = []"
| "redact_fields ((k, v) # fs) =
     (k, case should_redact_key k of None \<Rightarrow> redact v | Some r \<Rightarrow> redaction_marker r) # redact_fields fs"

fun find_credential :: "json \<Rightarrow> string \<Rightarrow> string option" and find_credential_list :: "json list \<Rightarrow> nat \<Rightarrow> string \<Rightarrow> string option"
  and find_credential_fields :: "(string \<times> json) list \<Rightarrow> string \<Rightarrow> string option" where
  "find_credential (JArray xs) path = find_credential_list xs 0 path"
| "find_credential (JObject fs) path = find_credential_fields fs path"
| "find_credential v path = None"
| "find_credential_list [] i path = None"
| "find_credential_list (x # xs) i path =
     (case find_credential x (path @ ''['' @ nat_digits i @ '']'') of
        Some p \<Rightarrow> Some p | None \<Rightarrow> find_credential_list xs (Suc i) path)"
| "find_credential_fields [] path = None"
| "find_credential_fields ((k, v) # fs) path =
     (if should_redact_key k = Some Secret then Some (path @ ''.'' @ k)
      else (case find_credential v (path @ ''.'' @ k) of
              Some p \<Rightarrow> Some p | None \<Rightarrow> find_credential_fields fs path))"

section \<open>Receipt constructors\<close>

definition contract_version :: json where "contract_version = JNumber 1"

definition normalize_receipt :: "(string \<times> json) list \<Rightarrow> json" where
  "normalize_receipt r = JObject (with_fields [(''version'', contract_version)] r)"

definition stamped :: "string \<Rightarrow> string \<Rightarrow> (string \<times> json) list \<Rightarrow> (string \<times> json) list \<Rightarrow> json" where
  "stamped kind status fields r =
     normalize_receipt (with_fields
       ([(''version'', contract_version), (''receiptKind'', JString kind), (''status'', JString status)] @ fields) r)"

text \<open>\<open>receipt.x ?? y\<close>\<close>

definition nullish :: "json option \<Rightarrow> bool" where
  "nullish v \<longleftrightarrow> v = None \<or> v = Some JNull"

definition or_field :: "(string \<times> json) list \<Rightarrow> string \<Rightarrow> json option \<Rightarrow> (string \<times> json) list" where
  "or_field r k fallback =
     (if nullish (map_of r k) then (case fallback of None \<Rightarrow> [] | Some v \<Rightarrow> [(k, v)])
      else (case map_of r k of None \<Rightarrow> [] | Some v \<Rightarrow> [(k, v)]))"

definition sub :: "json \<Rightarrow> string \<Rightarrow> string \<Rightarrow> json option" where
  "sub r k k' = (case field r k of None \<Rightarrow> None | Some v \<Rightarrow> field v k')"

definition authorized_receipt :: "(string \<times> json) list \<Rightarrow> json" where
  "authorized_receipt r =
     stamped ''authorization'' ''authorized''
       ([(''admissionStage'', JString ''execution-authorized'')] @ or_field r ''principalId'' (sub (JObject r) ''principal'' ''id'')) r"

definition admission_receipt :: "(string \<times> json) list \<Rightarrow> json" where
  "admission_receipt r = stamped ''command_admission'' ''observed'' [] r"

definition rejected_receipt :: "(string \<times> json) list \<Rightarrow> json" where
  "rejected_receipt r = stamped ''rejection'' ''rejected'' [] r"

definition success_receipt :: "(string \<times> json) list \<Rightarrow> json" where
  "success_receipt r = stamped ''result'' ''succeeded'' [] r"

definition timeout_receipt :: "(string \<times> json) list \<Rightarrow> json" where
  "timeout_receipt r = stamped ''timeout'' ''timeout'' [] r"

definition retry_receipt :: "(string \<times> json) list \<Rightarrow> json" where
  "retry_receipt r = stamped ''retry'' ''retrying'' [] r"

definition cancellation_receipt :: "(string \<times> json) list \<Rightarrow> json" where
  "cancellation_receipt r = stamped ''cancellation'' ''cancelled'' [] r"

definition reconciliation_receipt :: "(string \<times> json) list \<Rightarrow> json" where
  "reconciliation_receipt r = stamped ''reconciliation'' ''reconciled'' [] r"

definition stale_projection_receipt :: "(string \<times> json) list \<Rightarrow> json" where
  "stale_projection_receipt r =
     stamped ''projection'' ''stale_projection''
       (or_field r ''checkpointId'' (sub (JObject r) ''projection'' ''checkpointId'')
        @ or_field r ''revision'' (sub (JObject r) ''projection'' ''revision'')) r"

definition effect_intent_receipt :: "(string \<times> json) list \<Rightarrow> json" where
  "effect_intent_receipt r = stamped ''effect_intent'' ''observed'' [] r"

definition effect_attempt_receipt :: "(string \<times> json) list \<Rightarrow> json" where
  "effect_attempt_receipt r =
     normalize_receipt (with_fields [(''version'', contract_version), (''receiptKind'', JString ''effect_attempt'')] r)"

section \<open>Lineage, status and order\<close>

definition text_field :: "json \<Rightarrow> string \<Rightarrow> string" where
  "text_field v k = (case field v k of Some (JString s) \<Rightarrow> s | _ \<Rightarrow> [])"

definition derive_trace_status :: "json list \<Rightarrow> string" where
  "derive_trace_status rs =
     (if rs = [] then ''pending''
      else (let s = text_field (last rs) ''status'' in if s = ''observed'' then ''pending'' else s))"

definition is_terminal :: "json \<Rightarrow> bool" where
  "is_terminal r \<longleftrightarrow> text_field r ''status'' \<in> set [''rejected'', ''succeeded'', ''cancelled'', ''stale_projection'']"

definition post_terminal_allowed :: "json \<Rightarrow> bool" where
  "post_terminal_allowed r \<longleftrightarrow> text_field r ''receiptKind'' \<in> set [''reconciliation'', ''projection'']"

text \<open>The receipt that breaks the lineage, if any.\<close>

fun lineage_violation :: "bool \<Rightarrow> json list \<Rightarrow> json option" where
  "lineage_violation seen [] = None"
| "lineage_violation seen (r # rs) =
     (if seen \<and> \<not> post_terminal_allowed r then Some r else lineage_violation (seen \<or> is_terminal r) rs)"

definition compare_receipts :: "(string \<Rightarrow> int option) \<Rightarrow> collator \<Rightarrow> json \<Rightarrow> json \<Rightarrow> int" where
  "compare_receipts dp c l r =
     (if field l ''sequence'' \<noteq> field r ''sequence''
      then (case (field l ''sequence'', field r ''sequence'') of
              (Some (JNumber a), Some (JNumber b)) \<Rightarrow> if a < b then - 1 else 1
            | _ \<Rightarrow> 0)
      else (case (dp (text_field l ''occurredAt''), dp (text_field r ''occurredAt'')) of
              (Some s, Some t) \<Rightarrow>
                if s < t then - 1 else if t < s then 1
                else locale_compare c (text_field l ''receiptId'') (text_field r ''receiptId'')
            | _ \<Rightarrow> 0))"

section \<open>Receipt validation\<close>

text \<open>The identity a receipt has to agree with.\<close>

record trace_head =
  th_trace_id :: string
  th_actor_id :: string
  th_session_id :: string
  th_command_id :: string
  th_intent_id :: "string option"
  th_principal_id :: "string option"
  th_attempt :: "rat option"
  th_revision :: "rat option"
  th_checkpoint_id :: "string option"

definition is_iso_timestamp :: "(string \<Rightarrow> int option) \<Rightarrow> json option \<Rightarrow> bool" where
  "is_iso_timestamp dp v \<longleftrightarrow> is_non_empty_string v \<and> (case v of Some (JString s) \<Rightarrow> dp s \<noteq> None | _ \<Rightarrow> False)"

definition matching_optional :: "json option \<Rightarrow> json option \<Rightarrow> bool" where
  "matching_optional v t \<longleftrightarrow> v = None \<or> t = None \<or> v = t"

definition optional_text :: "json option \<Rightarrow> bool" where
  "optional_text v \<longleftrightarrow> v = None \<or> is_non_empty_string v"

definition optional_number :: "json option \<Rightarrow> bool" where
  "optional_number v \<longleftrightarrow> v = None \<or> is_finite_number v"

definition receipt_base_shape :: "(string \<Rightarrow> int option) \<Rightarrow> trace_head \<Rightarrow> json \<Rightarrow> bool" where
  "receipt_base_shape dp h r \<longleftrightarrow>
     list_all (\<lambda>k. is_non_empty_string (field r k))
       [''receiptId'', ''recordId'', ''traceId'', ''actorId'', ''sessionId'', ''commandId'', ''receiptKind'', ''status'']
   \<and> is_finite_number (field r ''sequence'') \<and> is_iso_timestamp dp (field r ''occurredAt'')
   \<and> field r ''traceId'' = Some (JString (th_trace_id h)) \<and> field r ''actorId'' = Some (JString (th_actor_id h))
   \<and> field r ''sessionId'' = Some (JString (th_session_id h)) \<and> field r ''commandId'' = Some (JString (th_command_id h))
   \<and> matching_optional (field r ''intentId'') (map_option JString (th_intent_id h))
   \<and> matching_optional (field r ''principalId'') (map_option JString (th_principal_id h))
   \<and> matching_optional (field r ''attempt'') (map_option JNumber (th_attempt h))
   \<and> matching_optional (field r ''revision'') (map_option JNumber (th_revision h))
   \<and> matching_optional (field r ''checkpointId'') (map_option JString (th_checkpoint_id h))
   \<and> optional_text (field r ''intentId'') \<and> optional_text (field r ''principalId'')
   \<and> optional_number (field r ''attempt'') \<and> optional_number (field r ''revision'') \<and> optional_text (field r ''checkpointId'')"

definition known_statuses :: "string list" where
  "known_statuses = [''observed'', ''authorized'', ''rejected'', ''succeeded'', ''timeout'', ''retrying'', ''cancelled'',
     ''reconciled'', ''stale_projection'', ''partial_failure'', ''failed'']"

definition one_of :: "string list \<Rightarrow> json option \<Rightarrow> bool" where
  "one_of ss v \<longleftrightarrow> (case v of Some (JString s) \<Rightarrow> s \<in> set ss | _ \<Rightarrow> False)"

definition known_admission_stage :: "json option \<Rightarrow> bool" where
  "known_admission_stage = one_of [''schema-admitted'', ''domain-accepted'', ''execution-authorized'']"

definition recheck_fields :: "string list" where
  "recheck_fields = [''command'', ''payload'', ''principal'', ''approval'', ''revision'', ''idempotency'', ''policy'']"

definition status_is :: "string \<Rightarrow> json \<Rightarrow> bool" where
  "status_is s r \<longleftrightarrow> field r ''status'' = Some (JString s)"

definition admission_shape :: "json \<Rightarrow> bool" where
  "admission_shape r \<longleftrightarrow>
     status_is ''observed'' r \<and> known_admission_stage (field r ''admissionStage'') \<and> is_json_object (field r ''admission'')
   \<and> sub r ''admission'' ''discovery'' = Some (JString ''descriptive_only'')
   \<and> one_of [''admitted'', ''rejected''] (sub r ''admission'' ''outcome'')
   \<and> (case sub r ''admission'' ''rechecked'' of Some (JArray xs) \<Rightarrow> list_all (\<lambda>x. one_of recheck_fields (Some x)) xs | _ \<Rightarrow> False)"

definition event_shape :: "json \<Rightarrow> bool" where
  "event_shape r \<longleftrightarrow>
     status_is ''observed'' r \<and> is_json_object (field r ''event'') \<and> is_non_empty_string (sub r ''event'' ''kind'')
   \<and> is_non_empty_string (sub r ''event'' ''type'') \<and> sub r ''event'' ''payload'' \<noteq> None"

definition authorization_shape :: "json \<Rightarrow> bool" where
  "authorization_shape r \<longleftrightarrow>
     status_is ''authorized'' r \<and> field r ''admissionStage'' = Some (JString ''execution-authorized'')
   \<and> is_non_empty_string (field r ''principalId'') \<and> is_json_object (field r ''principal'')
   \<and> sub r ''principal'' ''id'' = field r ''principalId'' \<and> is_json_object (field r ''authorization'')
   \<and> is_non_empty_string (sub r ''authorization'' ''policy'')
   \<and> one_of [''approved'', ''denied''] (sub r ''authorization'' ''decision'')"

definition outcome_shape :: "json \<Rightarrow> string \<Rightarrow> bool" where
  "outcome_shape r k \<longleftrightarrow>
     is_json_object (field r k) \<and> is_non_empty_string (sub r k ''code'') \<and> optional_text (sub r k ''detail'')"

definition rejection_shape :: "json \<Rightarrow> bool" where
  "rejection_shape r \<longleftrightarrow>
     status_is ''rejected'' r \<and> known_admission_stage (field r ''admissionStage'') \<and> outcome_shape r ''reason''"

definition retry_shape :: "json \<Rightarrow> bool" where
  "retry_shape r \<longleftrightarrow>
     status_is ''retrying'' r \<and> is_json_object (field r ''retry'') \<and> is_finite_number (sub r ''retry'' ''attempt'')
   \<and> is_non_empty_string (sub r ''retry'' ''reason'') \<and> is_non_empty_string (sub r ''retry'' ''policy'')
   \<and> field r ''attempt'' = sub r ''retry'' ''attempt''"

definition two_texts_shape :: "string \<Rightarrow> string \<Rightarrow> string \<Rightarrow> string \<Rightarrow> json \<Rightarrow> bool" where
  "two_texts_shape status k a b r \<longleftrightarrow>
     status_is status r \<and> is_json_object (field r k) \<and> is_non_empty_string (sub r k a) \<and> is_non_empty_string (sub r k b)"

definition projection_shape :: "json \<Rightarrow> bool" where
  "projection_shape r \<longleftrightarrow>
     status_is ''stale_projection'' r \<and> is_non_empty_string (field r ''checkpointId'') \<and> is_finite_number (field r ''revision'')
   \<and> is_json_object (field r ''projection'') \<and> sub r ''projection'' ''checkpointId'' = field r ''checkpointId''
   \<and> sub r ''projection'' ''revision'' = field r ''revision'' \<and> is_finite_number (sub r ''projection'' ''expectedRevision'')"

definition effect_intent_shape :: "json \<Rightarrow> bool" where
  "effect_intent_shape r \<longleftrightarrow>
     status_is ''observed'' r \<and> is_non_empty_string (field r ''effectId'') \<and> is_finite_number (field r ''attempt'')
   \<and> is_json_object (field r ''effect'') \<and> is_non_empty_string (sub r ''effect'' ''effectType'')
   \<and> is_boolean (sub r ''effect'' ''irreversible'') \<and> is_non_empty_string (sub r ''effect'' ''idempotencyScope'')"

definition effect_attempt_shape :: "json \<Rightarrow> bool" where
  "effect_attempt_shape r \<longleftrightarrow>
     one_of [''succeeded'', ''partial_failure'', ''failed'', ''timeout'', ''cancelled''] (field r ''status'')
   \<and> is_non_empty_string (field r ''effectId'') \<and> is_finite_number (field r ''attempt'') \<and> outcome_shape r ''outcome''"

definition result_shape :: "json \<Rightarrow> bool" where
  "result_shape r \<longleftrightarrow> status_is ''succeeded'' r \<and> is_json_object (field r ''result'')"

definition timeout_shape :: "json \<Rightarrow> bool" where
  "timeout_shape r \<longleftrightarrow> status_is ''timeout'' r \<and> is_finite_number (field r ''timeoutMs'')"

definition kind_shapes :: "(string \<times> (json \<Rightarrow> bool)) list" where
  "kind_shapes =
     [(''command_admission'', admission_shape), (''event'', event_shape), (''authorization'', authorization_shape),
      (''rejection'', rejection_shape), (''result'', result_shape), (''timeout'', timeout_shape), (''retry'', retry_shape),
      (''cancellation'', two_texts_shape ''cancelled'' ''cancellation'' ''reason'' ''requestedBy''),
      (''reconciliation'', two_texts_shape ''reconciled'' ''reconciliation'' ''outcome'' ''source''),
      (''projection'', projection_shape), (''effect_intent'', effect_intent_shape), (''effect_attempt'', effect_attempt_shape)]"

definition kind_shape :: "json \<Rightarrow> bool" where
  "kind_shape r =
     (case field r ''receiptKind'' of
        Some (JString k) \<Rightarrow> (case map_of kind_shapes k of None \<Rightarrow> False | Some shape \<Rightarrow> shape r)
      | _ \<Rightarrow> False)"

definition receipt_shape :: "(string \<Rightarrow> int option) \<Rightarrow> trace_head \<Rightarrow> json \<Rightarrow> bool" where
  "receipt_shape dp h r \<longleftrightarrow>
     is_record r \<and> receipt_base_shape dp h r \<and> one_of known_statuses (field r ''status'')
   \<and> list_all (\<lambda>k. optional_text (field r k))
       [''effectId'', ''effectAttemptId'', ''provider'', ''idempotencyKey'', ''correlationId'', ''causationId'']
   \<and> kind_shape r"

section \<open>Traces\<close>

record agent_trace = trace_head +
  at_correlation_id :: "json option"
  at_causation_id :: "json option"
  at_receipts :: "json list"
  at_status :: string
  at_last_receipt :: "json option"

definition non_empty :: "string option \<Rightarrow> string option" where
  "non_empty v = (if v = Some [] then None else v)"

text \<open>JavaScript truthiness of a property that was not validated.\<close>

definition truthy :: "json option \<Rightarrow> bool" where
  "truthy v \<longleftrightarrow> v \<noteq> None \<and> v \<noteq> Some JNull \<and> v \<noteq> Some (JBool False) \<and> v \<noteq> Some (JNumber 0) \<and> v \<noteq> Some (JString [])"

definition create_trace :: "(string \<Rightarrow> int option) \<Rightarrow> collator \<Rightarrow> trace_head \<Rightarrow> json option \<Rightarrow> json option \<Rightarrow> json list \<Rightarrow> agent_trace" where
  "create_trace dp c h correlation causation receipts =
     (let rs = sort_by (compare_receipts dp c) receipts
      in \<lparr>th_trace_id = th_trace_id h, th_actor_id = th_actor_id h, th_session_id = th_session_id h,
          th_command_id = th_command_id h, th_intent_id = non_empty (th_intent_id h),
          th_principal_id = non_empty (th_principal_id h), th_attempt = th_attempt h, th_revision = th_revision h,
          th_checkpoint_id = non_empty (th_checkpoint_id h),
          at_correlation_id = (if truthy correlation then correlation else None),
          at_causation_id = (if truthy causation then causation else None),
          at_receipts = rs, at_status = derive_trace_status rs,
          at_last_receipt = (if rs = [] then None else Some (last rs))\<rparr>)"

definition validate_trace :: "agent_trace \<Rightarrow> json option" where
  "validate_trace t = lineage_violation False (at_receipts t)"

datatype trace_error =
    Unsupported_version | Invalid_trace_id | Invalid_actor_id | Invalid_session_id | Invalid_command_id
  | Invalid_receipts | Invalid_terminal_lineage string

definition parse_trace :: "(string \<Rightarrow> int option) \<Rightarrow> collator \<Rightarrow> json \<Rightarrow> trace_error + agent_trace" where
  "parse_trace dp c v =
     (if \<not> is_record v \<and> \<not> is_array (Some v) then Inl Invalid_receipts
      else if (if nullish (field v ''schemaVersion'') then field v ''version'' else field v ''schemaVersion'') \<noteq> Some contract_version
      then Inl Unsupported_version
      else if \<not> is_non_empty_string (field v ''traceId'') then Inl Invalid_trace_id
      else if \<not> is_non_empty_string (field v ''actorId'') then Inl Invalid_actor_id
      else if \<not> is_non_empty_string (field v ''sessionId'') then Inl Invalid_session_id
      else if \<not> is_non_empty_string (field v ''commandId'') then Inl Invalid_command_id
      else if \<not> optional_text (field v ''intentId'') \<or> \<not> optional_text (field v ''principalId'')
           \<or> \<not> optional_number (field v ''attempt'') \<or> \<not> optional_number (field v ''revision'')
           \<or> \<not> optional_text (field v ''checkpointId'') then Inl Invalid_receipts
      else (case field v ''receipts'' of
              Some (JArray rs) \<Rightarrow>
                (let h = \<lparr>th_trace_id = text_field v ''traceId'', th_actor_id = text_field v ''actorId'',
                          th_session_id = text_field v ''sessionId'', th_command_id = text_field v ''commandId'',
                          th_intent_id = text_value (field v ''intentId''), th_principal_id = text_value (field v ''principalId''),
                          th_attempt = number_value (field v ''attempt''), th_revision = number_value (field v ''revision''),
                          th_checkpoint_id = text_value (field v ''checkpointId'')\<rparr>
                 in if \<not> list_all (receipt_shape dp h) rs then Inl Invalid_receipts
                    else (let t = create_trace dp c h (field v ''correlationId'') (field v ''causationId'') rs
                          in case validate_trace t of
                               Some r \<Rightarrow> Inl (Invalid_terminal_lineage (text_field r ''receiptId''))
                             | None \<Rightarrow> Inr t))
            | _ \<Rightarrow> Inl Invalid_receipts))"

text \<open>What \<open>JSON.stringify\<close> keeps of a trace.\<close>

definition opt_field :: "string \<Rightarrow> json option \<Rightarrow> (string \<times> json) list" where
  "opt_field k v = (case v of None \<Rightarrow> [] | Some j \<Rightarrow> [(k, j)])"

definition trace_json :: "agent_trace \<Rightarrow> json" where
  "trace_json t = JObject
     ([(''version'', contract_version), (''schemaVersion'', contract_version), (''traceId'', JString (th_trace_id t)),
       (''actorId'', JString (th_actor_id t)), (''sessionId'', JString (th_session_id t)), (''commandId'', JString (th_command_id t))]
      @ opt_field ''intentId'' (map_option JString (th_intent_id t)) @ opt_field ''principalId'' (map_option JString (th_principal_id t))
      @ opt_field ''attempt'' (map_option JNumber (th_attempt t)) @ opt_field ''revision'' (map_option JNumber (th_revision t))
      @ opt_field ''checkpointId'' (map_option JString (th_checkpoint_id t)) @ opt_field ''correlationId'' (at_correlation_id t)
      @ opt_field ''causationId'' (at_causation_id t)
      @ [(''receipts'', JArray (at_receipts t)), (''status'', JString (at_status t))] @ opt_field ''lastReceipt'' (at_last_receipt t))"

section \<open>Sanitizing\<close>

definition receipt_base_keys :: "string list" where
  "receipt_base_keys = [''version'', ''receiptId'', ''traceId'', ''recordId'', ''actorId'', ''sessionId'', ''commandId'', ''intentId'',
     ''principalId'', ''sequence'', ''attempt'', ''revision'', ''checkpointId'', ''receiptKind'', ''status'', ''occurredAt'',
     ''correlationId'', ''causationId'', ''effectId'', ''effectAttemptId'', ''provider'', ''idempotencyKey'']"

text \<open>The payload properties of each kind: copied, and redacted.\<close>

definition kind_payload :: "(string \<times> string list \<times> string list) list" where
  "kind_payload =
     [(''command_admission'', [''admissionStage''], [''admission'']), (''event'', [], [''event'']),
      (''authorization'', [''admissionStage''], [''principal'', ''authorization'']), (''rejection'', [''admissionStage''], [''reason'']),
      (''result'', [], [''result'']), (''timeout'', [''timeoutMs''], []), (''retry'', [], [''retry'']),
      (''cancellation'', [], [''cancellation'']), (''reconciliation'', [], [''reconciliation'']), (''projection'', [], [''projection'']),
      (''effect_intent'', [], [''effect'']), (''effect_attempt'', [], [''outcome''])]"

definition keep_fields :: "string list \<Rightarrow> json \<Rightarrow> (string \<times> json) list" where
  "keep_fields ks r = concat (map (\<lambda>k. opt_field k (field r k)) ks)"

definition sanitize_receipt :: "json \<Rightarrow> json" where
  "sanitize_receipt r =
     JObject (keep_fields receipt_base_keys r
       @ (case map_of kind_payload (text_field r ''receiptKind'') of
            None \<Rightarrow> []
          | Some (plain, redacted) \<Rightarrow> keep_fields plain r @ map (\<lambda>(k, v). (k, redact v)) (keep_fields redacted r)))"

definition sanitize_trace :: "(string \<Rightarrow> int option) \<Rightarrow> collator \<Rightarrow> agent_trace \<Rightarrow> agent_trace" where
  "sanitize_trace dp c t =
     create_trace dp c (trace_head.truncate t) (at_correlation_id t) (at_causation_id t) (map sanitize_receipt (at_receipts t))"

section \<open>Keys and conversions\<close>

definition trace_idempotency_key :: "string \<Rightarrow> string \<Rightarrow> string \<Rightarrow> string \<Rightarrow> string option" where
  "trace_idempotency_key trace cmd eff att =
     (if blank trace \<or> blank cmd \<or> blank eff \<or> blank att then None
      else Some (''agent-execution:key:trace='' @ trace @ '':command='' @ cmd @ '':effect='' @ eff @ '':attempt='' @ att))"

section \<open>Redaction is exact\<close>

fun exposes :: "json \<Rightarrow> bool" and exposes_list :: "json list \<Rightarrow> bool" and exposes_fields :: "(string \<times> json) list \<Rightarrow> bool" where
  "exposes (JArray xs) = exposes_list xs"
| "exposes (JObject fs) = exposes_fields fs"
| "exposes v = False"
| "exposes_list [] = False"
| "exposes_list (x # xs) = (exposes x \<or> exposes_list xs)"
| "exposes_fields [] = False"
| "exposes_fields ((k, v) # fs) =
     ((case should_redact_key k of None \<Rightarrow> exposes v | Some r \<Rightarrow> v \<noteq> redaction_marker r) \<or> exposes_fields fs)"

lemma marker_plain [simp]: "redact (redaction_marker r) = redaction_marker r" "\<not> exposes (redaction_marker r)"
  by (cases r; simp)+

lemma redact_hides:
  "\<not> exposes (redact v)" "\<not> exposes_list (redact_list xs)" "\<not> exposes_fields (redact_fields fs)"
  by (induction v and xs and fs rule: redact_redact_list_redact_fields.induct) (auto split: option.splits)

lemma redact_same:
  "(redact v = v) = (\<not> exposes v)" "(redact_list xs = xs) = (\<not> exposes_list xs)" "(redact_fields fs = fs) = (\<not> exposes_fields fs)"
  by (induction v and xs and fs rule: redact_redact_list_redact_fields.induct) (auto split: option.splits)

text \<open>
  Redaction is exact: in the result every property with a secret-bearing or prompt-bearing
  name, at any depth, holds its marker; a value is left unchanged precisely when that was already
  so, hence redacting twice is redacting once.\<close>

theorem redaction_exact:
  "\<not> exposes (redact v) \<and> (redact v = v \<longleftrightarrow> \<not> exposes v) \<and> redact (redact v) = redact v"
  using redact_hides(1) [of v] redact_same(1) by simp

section \<open>Sorting receipts\<close>

lemma in_order_map:
  "(\<And>x y. cmp (f x) (f y) = cmp x y) \<Longrightarrow> in_order cmp (map f xs) = in_order cmp xs"
  by (induction cmp xs rule: in_order.induct) auto

text \<open>Valid receipts are comparable.\<close>

lemma shape_comparable:
  assumes "receipt_shape dp h l" "receipt_shape dp h r"
  shows "compare_receipts dp c l r \<le> 0 \<or> compare_receipts dp c r l \<le> 0"
proof -
  have num: "\<exists>a. field x ''sequence'' = Some (JNumber a)" "\<exists>t. dp (text_field x ''occurredAt'') = Some t" if "receipt_shape dp h x" for x
    using that by (auto simp: receipt_shape_def receipt_base_shape_def finite_number is_iso_timestamp_def text_field_def
        split: option.splits json.splits)
  obtain a b s t where f: "field l ''sequence'' = Some (JNumber a)" "field r ''sequence'' = Some (JNumber b)"
    "dp (text_field l ''occurredAt'') = Some s" "dp (text_field r ''occurredAt'') = Some t"
    using num assms by metis
  have "locale_compare c (text_field l ''receiptId'') (text_field r ''receiptId'') \<le> 0
      \<or> locale_compare c (text_field r ''receiptId'') (text_field l ''receiptId'') \<le> 0"
    using locale_compare_flip [of c "text_field l ''receiptId''" "text_field r ''receiptId''"]
    by (auto simp: sgn_if split: if_splits)
  then show ?thesis by (simp add: compare_receipts_def f)
qed

lemma valid_sorted:
  assumes "list_all (receipt_shape dp h) rs"
  shows "in_order (compare_receipts dp c) (sort_by (compare_receipts dp c) rs)"
  by (rule sort_in_order) (use assms shape_comparable in \<open>force simp: list_all_iff\<close>)

section \<open>Parsing is stable\<close>

definition head_of :: "agent_trace \<Rightarrow> trace_head" where
  "head_of t = trace_head.truncate t"

definition good_head :: "trace_head \<Rightarrow> bool" where
  "good_head h \<longleftrightarrow> \<not> blank (th_trace_id h) \<and> \<not> blank (th_actor_id h) \<and> \<not> blank (th_session_id h) \<and> \<not> blank (th_command_id h)
     \<and> (\<forall>v \<in> {th_intent_id h, th_principal_id h, th_checkpoint_id h}. case v of None \<Rightarrow> True | Some s \<Rightarrow> \<not> blank s)"

definition good_trace :: "(string \<Rightarrow> int option) \<Rightarrow> collator \<Rightarrow> agent_trace \<Rightarrow> bool" where
  "good_trace dp c t \<longleftrightarrow>
     good_head (head_of t) \<and> list_all (receipt_shape dp (head_of t)) (at_receipts t)
   \<and> in_order (compare_receipts dp c) (at_receipts t) \<and> lineage_violation False (at_receipts t) = None
   \<and> at_correlation_id t = (if truthy (at_correlation_id t) then at_correlation_id t else None)
   \<and> at_causation_id t = (if truthy (at_causation_id t) then at_causation_id t else None)
   \<and> at_status t = derive_trace_status (at_receipts t)
   \<and> at_last_receipt t = (if at_receipts t = [] then None else Some (last (at_receipts t)))"

lemma blank_empty [simp]: "blank []" by (simp add: blank_def)

lemma non_empty_good: "(case v of None \<Rightarrow> True | Some s \<Rightarrow> \<not> blank s) \<Longrightarrow> non_empty v = v"
  by (cases v) (auto simp: non_empty_def)

lemma create_trace_fields:
  "at_receipts (create_trace dp c h co ca rs) = sort_by (compare_receipts dp c) rs"
  "at_correlation_id (create_trace dp c h co ca rs) = (if truthy co then co else None)"
  "at_causation_id (create_trace dp c h co ca rs) = (if truthy ca then ca else None)"
  "at_status (create_trace dp c h co ca rs) = derive_trace_status (sort_by (compare_receipts dp c) rs)"
  "at_last_receipt (create_trace dp c h co ca rs) =
     (if sort_by (compare_receipts dp c) rs = [] then None else Some (last (sort_by (compare_receipts dp c) rs)))"
  by (simp_all add: create_trace_def Let_def)

lemma truthy_none: "\<not> truthy None" by (simp add: truthy_def)

lemma create_trace_good:
  assumes "good_head h" "list_all (receipt_shape dp h) rs" "validate_trace (create_trace dp c h co ca rs) = None"
  shows "good_trace dp c (create_trace dp c h co ca rs)"
proof -
  have ne: "non_empty (th_intent_id h) = th_intent_id h" "non_empty (th_principal_id h) = th_principal_id h"
    "non_empty (th_checkpoint_id h) = th_checkpoint_id h"
    using assms(1) by (auto simp: good_head_def non_empty_good)
  have hd: "head_of (create_trace dp c h co ca rs) = h"
    by (cases h) (use ne in \<open>simp add: head_of_def create_trace_def Let_def trace_head.defs\<close>)
  have rs: "list_all (receipt_shape dp h) (sort_by (compare_receipts dp c) rs)" using assms(2) by (simp add: list_all_iff)
  show ?thesis unfolding good_trace_def hd
    using assms valid_sorted [OF assms(2), of c] rs by (simp add: create_trace_fields validate_trace_def truthy_none)
qed

lemma opt_field_get [simp]: "map_of (opt_field k v) k' = (if k = k' then v else None)"
  by (simp add: opt_field_def split: option.split)

lemma trace_json_fields:
  "field (trace_json t) ''schemaVersion'' = Some contract_version"
  "field (trace_json t) ''traceId'' = Some (JString (th_trace_id t))"
  "field (trace_json t) ''actorId'' = Some (JString (th_actor_id t))"
  "field (trace_json t) ''sessionId'' = Some (JString (th_session_id t))"
  "field (trace_json t) ''commandId'' = Some (JString (th_command_id t))"
  "field (trace_json t) ''intentId'' = map_option JString (th_intent_id t)"
  "field (trace_json t) ''principalId'' = map_option JString (th_principal_id t)"
  "field (trace_json t) ''attempt'' = map_option JNumber (th_attempt t)"
  "field (trace_json t) ''revision'' = map_option JNumber (th_revision t)"
  "field (trace_json t) ''checkpointId'' = map_option JString (th_checkpoint_id t)"
  "field (trace_json t) ''correlationId'' = at_correlation_id t"
  "field (trace_json t) ''causationId'' = at_causation_id t"
  "field (trace_json t) ''receipts'' = Some (JArray (at_receipts t))"
  by (simp_all add: trace_json_def map_add_def split: option.split)

lemma parse_good:
  assumes "good_trace dp c t"
  shows "parse_trace dp c (trace_json t) = Inr t"
proof -
  let ?h = "head_of t"
  have h: "th_trace_id ?h = th_trace_id t" "th_actor_id ?h = th_actor_id t" "th_session_id ?h = th_session_id t"
    "th_command_id ?h = th_command_id t" "th_intent_id ?h = th_intent_id t" "th_principal_id ?h = th_principal_id t"
    "th_attempt ?h = th_attempt t" "th_revision ?h = th_revision t" "th_checkpoint_id ?h = th_checkpoint_id t"
    by (simp_all add: head_of_def trace_head.defs)
  have g: "good_head ?h" "list_all (receipt_shape dp ?h) (at_receipts t)" "in_order (compare_receipts dp c) (at_receipts t)"
    "lineage_violation False (at_receipts t) = None"
    using assms by (simp_all add: good_trace_def)
  have ne: "non_empty (th_intent_id t) = th_intent_id t" "non_empty (th_principal_id t) = th_principal_id t"
    "non_empty (th_checkpoint_id t) = th_checkpoint_id t"
    using g(1) h non_empty_good by (auto simp: good_head_def)
  have tv: "text_value (map_option JString x) = x" "number_value (map_option JNumber y) = y" for x y
    by (cases x; simp) (cases y; simp)
  have ot: "optional_text (map_option JString (th_intent_id t))" "optional_text (map_option JString (th_principal_id t))"
    "optional_text (map_option JString (th_checkpoint_id t))"
    using g(1) h by (auto simp: good_head_def optional_text_def split: option.splits)
  have on: "optional_number (map_option JNumber y)" for y by (cases y) (simp_all add: optional_number_def)
  have hd: "\<lparr>th_trace_id = th_trace_id t, th_actor_id = th_actor_id t, th_session_id = th_session_id t, th_command_id = th_command_id t,
      th_intent_id = th_intent_id t, th_principal_id = th_principal_id t, th_attempt = th_attempt t, th_revision = th_revision t,
      th_checkpoint_id = th_checkpoint_id t\<rparr> = ?h"
    by (simp add: head_of_def trace_head.defs)
  have ct: "create_trace dp c ?h (at_correlation_id t) (at_causation_id t) (at_receipts t) = t"
    using assms sort_ordered [OF g(3)] by (simp add: create_trace_def Let_def h ne good_trace_def)
  have nb: "\<not> blank (th_trace_id t)" "\<not> blank (th_actor_id t)" "\<not> blank (th_session_id t)" "\<not> blank (th_command_id t)"
    using g(1) h by (simp_all add: good_head_def)
  have r: "is_record (trace_json t)" by (simp add: trace_json_def)
  have tf: "text_field (trace_json t) ''traceId'' = th_trace_id t" "text_field (trace_json t) ''actorId'' = th_actor_id t"
    "text_field (trace_json t) ''sessionId'' = th_session_id t" "text_field (trace_json t) ''commandId'' = th_command_id t"
    by (simp_all add: text_field_def trace_json_fields)
  have cv: "nullish (Some contract_version) = False" by (simp add: nullish_def contract_version_def)
  show ?thesis unfolding parse_trace_def trace_json_fields tf tv
    using r nb ot on cv g(2,4) by (simp add: hd ct validate_trace_def)
qed

lemma parse_trace_good:
  assumes "parse_trace dp c v = Inr t"
  shows "good_trace dp c t"
proof -
  obtain rs where rs: "field v ''receipts'' = Some (JArray rs)"
    using assms by (auto simp: parse_trace_def split: if_splits option.splits json.splits)
  define h where "h = \<lparr>th_trace_id = text_field v ''traceId'', th_actor_id = text_field v ''actorId'',
      th_session_id = text_field v ''sessionId'', th_command_id = text_field v ''commandId'',
      th_intent_id = text_value (field v ''intentId''), th_principal_id = text_value (field v ''principalId''),
      th_attempt = number_value (field v ''attempt''), th_revision = number_value (field v ''revision''),
      th_checkpoint_id = text_value (field v ''checkpointId'')\<rparr>"
  have t: "list_all (receipt_shape dp h) rs" "t = create_trace dp c h (field v ''correlationId'') (field v ''causationId'') rs"
    "validate_trace t = None"
    using assms rs by (auto simp: parse_trace_def Let_def h_def split: if_splits option.splits)
  have "is_non_empty_string (field v ''traceId'')" "is_non_empty_string (field v ''actorId'')"
    "is_non_empty_string (field v ''sessionId'')" "is_non_empty_string (field v ''commandId'')"
    "optional_text (field v ''intentId'')" "optional_text (field v ''principalId'')" "optional_text (field v ''checkpointId'')"
    using assms by (auto simp: parse_trace_def split: if_splits)
  then have "good_head h" by (auto simp: good_head_def h_def non_empty_text text_field_def optional_text_def)
  then show ?thesis using create_trace_good [OF _ t(1)] t(2,3) by blast
qed

text \<open>
  C38. Parsing is stable: what \<open>parseAgentExecutionTrace\<close> accepts it accepts again when the accepted
  trace is serialized and read back, and it returns the same trace: sorting, dropping of blank
  identities and the derived status are idempotent.\<close>

theorem parse_trace_stable:
  "parse_trace dp c v = Inr t \<Longrightarrow> parse_trace dp c (trace_json t) = Inr t"
  using parse_good parse_trace_good by blast

definition sample_receipt :: json where
  "sample_receipt = JObject
     [(''receiptId'', JString ''r1''), (''recordId'', JString ''1''), (''traceId'', JString ''t''), (''actorId'', JString ''a''),
      (''sessionId'', JString ''s''), (''commandId'', JString ''c''), (''receiptKind'', JString ''result''),
      (''status'', JString ''succeeded''), (''sequence'', JNumber 1), (''occurredAt'', JString ''now''),
      (''result'', JObject [(''apiKey'', JString ''k'')])]"

definition sample_trace :: json where
  "sample_trace = JObject
     [(''version'', JNumber 1), (''traceId'', JString ''t''), (''actorId'', JString ''a''), (''sessionId'', JString ''s''),
      (''commandId'', JString ''c''), (''receipts'', JArray [sample_receipt])]"

lemma sample_shape:
  "receipt_shape (\<lambda>s. Some 0) \<lparr>th_trace_id = ''t'', th_actor_id = ''a'', th_session_id = ''s'', th_command_id = ''c'',
     th_intent_id = None, th_principal_id = None, th_attempt = None, th_revision = None, th_checkpoint_id = None\<rparr> sample_receipt"
  by (simp add: receipt_shape_def receipt_base_shape_def sample_receipt_def blank_def js_space_def is_iso_timestamp_def
      matching_optional_def optional_text_def optional_number_def one_of_def known_statuses_def kind_shape_def kind_shapes_def
      result_shape_def status_is_def)

lemma sample_parses: "\<exists>t. parse_trace (\<lambda>s. Some 0) c sample_trace = Inr t"
  using sample_shape
  by (simp add: parse_trace_def sample_trace_def nullish_def contract_version_def blank_def js_space_def text_field_def
      optional_text_def optional_number_def validate_trace_def create_trace_fields sort_by_def)

theorem parse_trace_stable_witness:
  "\<exists>t. parse_trace (\<lambda>s. Some 0) code_unit_collator sample_trace = Inr t
     \<and> parse_trace (\<lambda>s. Some 0) code_unit_collator (trace_json t) = Inr t"
  using sample_parses parse_trace_stable by metis

section \<open>Sanitizing keeps a trace valid\<close>

lemma keep_fields_get: "map_of (keep_fields ks r) k = (if k \<in> set ks then field r k else None)"
  by (induction ks) (auto simp: keep_fields_def map_add_def split: option.split)

definition payload_field :: "json \<Rightarrow> string \<Rightarrow> json option" where
  "payload_field r k =
     (case map_of kind_payload (text_field r ''receiptKind'') of
        None \<Rightarrow> None
      | Some (plain, redacted) \<Rightarrow>
          if k \<in> set plain then field r k else if k \<in> set redacted then map_option redact (field r k) else None)"

lemma sanitized_field:
  "field (sanitize_receipt r) k = (if k \<in> set receipt_base_keys then field r k else payload_field r k)"
  by (cases "field r k")
    (auto simp: sanitize_receipt_def payload_field_def keep_fields_get map_add_def map_of_map split: option.split)

lemma sanitized_base: "k \<in> set receipt_base_keys \<Longrightarrow> field (sanitize_receipt r) k = field r k"
  by (simp add: sanitized_field)

lemma redact_fields_get: "should_redact_key k = None \<Longrightarrow> map_of (redact_fields fs) k = map_option redact (map_of fs k)"
  by (induction fs) auto

lemma redact_field: "should_redact_key k = None \<Longrightarrow> field (redact v) k = map_option redact (field v k)"
  by (cases v) (simp_all add: redact_fields_get)

lemma redact_kind [simp]:
  "redact v = JString s \<longleftrightarrow> v = JString s" "redact v = JNumber n \<longleftrightarrow> v = JNumber n" "redact v = JBool b \<longleftrightarrow> v = JBool b"
  by (cases v; simp)+

lemma redact_some [simp]:
  "map_option redact x = Some (JString s) \<longleftrightarrow> x = Some (JString s)"
  "map_option redact x = Some (JNumber n) \<longleftrightarrow> x = Some (JNumber n)"
  "is_non_empty_string (map_option redact x) = is_non_empty_string x"
  "is_finite_number (map_option redact x) = is_finite_number x"
  "is_boolean (map_option redact x) = is_boolean x"
  "is_json_object (map_option redact x) = is_json_object x"
  "optional_text (map_option redact x) = optional_text x"
  "one_of ss (map_option redact x) = one_of ss x"
  by (cases x; (simp add: optional_text_def)?; (rename_tac j; case_tac j; simp add: optional_text_def one_of_def)?)+

lemma safe_keys [simp]:
  "should_redact_key ''discovery'' = None" "should_redact_key ''outcome'' = None" "should_redact_key ''rechecked'' = None"
  "should_redact_key ''kind'' = None" "should_redact_key ''type'' = None" "should_redact_key ''payload'' = None"
  "should_redact_key ''id'' = None" "should_redact_key ''policy'' = None" "should_redact_key ''decision'' = None"
  "should_redact_key ''code'' = None" "should_redact_key ''detail'' = None" "should_redact_key ''attempt'' = None"
  "should_redact_key ''reason'' = None" "should_redact_key ''requestedBy'' = None" "should_redact_key ''source'' = None"
  "should_redact_key ''checkpointId'' = None" "should_redact_key ''revision'' = None"
  "should_redact_key ''expectedRevision'' = None" "should_redact_key ''effectType'' = None"
  "should_redact_key ''irreversible'' = None" "should_redact_key ''idempotencyScope'' = None"
  by (simp_all add: should_redact_key_def lower_char_def char_of_def of_char_def Let_def)

lemma sanitized_payload:
  assumes "field r ''receiptKind'' = Some (JString kind)" "map_of kind_payload kind = Some (plain, redacted)"
  shows "k \<notin> set receipt_base_keys \<Longrightarrow> k \<in> set plain \<Longrightarrow> field (sanitize_receipt r) k = field r k"
    and "k \<notin> set receipt_base_keys \<Longrightarrow> k \<notin> set plain \<Longrightarrow> k \<in> set redacted \<Longrightarrow>
      field (sanitize_receipt r) k = map_option redact (field r k)"
    and "k \<notin> set receipt_base_keys \<Longrightarrow> k \<notin> set plain \<Longrightarrow> k \<in> set redacted \<Longrightarrow> should_redact_key k' = None \<Longrightarrow>
      sub (sanitize_receipt r) k k' = map_option redact (sub r k k')"
  using assms by (auto simp: sanitized_field payload_field_def text_field_def sub_def redact_field split: option.split)

lemma sanitized_recheck:
  "(case map_option redact v of Some (JArray xs) \<Rightarrow> list_all (\<lambda>x. one_of recheck_fields (Some x)) xs | _ \<Rightarrow> False)
   \<longleftrightarrow> (case v of Some (JArray xs) \<Rightarrow> list_all (\<lambda>x. one_of recheck_fields (Some x)) xs | _ \<Rightarrow> False)"
proof -
  have "list_all (\<lambda>x. one_of recheck_fields (Some x)) (redact_list xs) = list_all (\<lambda>x. one_of recheck_fields (Some x)) xs" for xs
  proof (induction xs)
    case (Cons x xs)
    then show ?case using redact_some(8) [of recheck_fields "Some x"] by simp
  qed simp
  then show ?thesis by (cases v; simp; rename_tac j; case_tac j; simp)
qed

lemmas sanitized_shape_defs =
  admission_shape_def event_shape_def authorization_shape_def rejection_shape_def result_shape_def timeout_shape_def
  retry_shape_def two_texts_shape_def projection_shape_def effect_intent_shape_def effect_attempt_shape_def
  outcome_shape_def status_is_def known_admission_stage_def

lemma redact_scalar:
  "is_non_empty_string y \<Longrightarrow> map_option redact y = y"
  "is_finite_number z \<Longrightarrow> map_option redact z = z"
  by (auto simp: non_empty_text finite_number)

lemma kind_payloads:
  "map_of kind_payload ''command_admission'' = Some ([''admissionStage''], [''admission''])"
  "map_of kind_payload ''event'' = Some ([], [''event''])"
  "map_of kind_payload ''authorization'' = Some ([''admissionStage''], [''principal'', ''authorization''])"
  "map_of kind_payload ''rejection'' = Some ([''admissionStage''], [''reason''])"
  "map_of kind_payload ''result'' = Some ([], [''result''])"
  "map_of kind_payload ''timeout'' = Some ([''timeoutMs''], [])"
  "map_of kind_payload ''retry'' = Some ([], [''retry''])"
  "map_of kind_payload ''cancellation'' = Some ([], [''cancellation''])"
  "map_of kind_payload ''reconciliation'' = Some ([], [''reconciliation''])"
  "map_of kind_payload ''projection'' = Some ([], [''projection''])"
  "map_of kind_payload ''effect_intent'' = Some ([], [''effect''])"
  "map_of kind_payload ''effect_attempt'' = Some ([], [''outcome''])"
  by (simp_all add: kind_payload_def)

lemma base_keys [simp]:
  "''version'' \<in> set receipt_base_keys"
  "''receiptId'' \<in> set receipt_base_keys"
  "''traceId'' \<in> set receipt_base_keys"
  "''recordId'' \<in> set receipt_base_keys"
  "''actorId'' \<in> set receipt_base_keys"
  "''sessionId'' \<in> set receipt_base_keys"
  "''commandId'' \<in> set receipt_base_keys"
  "''intentId'' \<in> set receipt_base_keys"
  "''principalId'' \<in> set receipt_base_keys"
  "''sequence'' \<in> set receipt_base_keys"
  "''attempt'' \<in> set receipt_base_keys"
  "''revision'' \<in> set receipt_base_keys"
  "''checkpointId'' \<in> set receipt_base_keys"
  "''receiptKind'' \<in> set receipt_base_keys"
  "''status'' \<in> set receipt_base_keys"
  "''occurredAt'' \<in> set receipt_base_keys"
  "''correlationId'' \<in> set receipt_base_keys"
  "''causationId'' \<in> set receipt_base_keys"
  "''effectId'' \<in> set receipt_base_keys"
  "''effectAttemptId'' \<in> set receipt_base_keys"
  "''provider'' \<in> set receipt_base_keys"
  "''idempotencyKey'' \<in> set receipt_base_keys"
  "''admissionStage'' \<notin> set receipt_base_keys"
  "''admission'' \<notin> set receipt_base_keys"
  "''event'' \<notin> set receipt_base_keys"
  "''principal'' \<notin> set receipt_base_keys"
  "''authorization'' \<notin> set receipt_base_keys"
  "''reason'' \<notin> set receipt_base_keys"
  "''result'' \<notin> set receipt_base_keys"
  "''timeoutMs'' \<notin> set receipt_base_keys"
  "''retry'' \<notin> set receipt_base_keys"
  "''cancellation'' \<notin> set receipt_base_keys"
  "''reconciliation'' \<notin> set receipt_base_keys"
  "''projection'' \<notin> set receipt_base_keys"
  "''effect'' \<notin> set receipt_base_keys"
  "''outcome'' \<notin> set receipt_base_keys"
  by (simp_all add: receipt_base_keys_def)

lemma sanitized_command_admission:
  assumes "field r ''receiptKind'' = Some (JString ''command_admission'')" "admission_shape r"
  shows "admission_shape (sanitize_receipt r)"
  using assms(2) sanitized_payload [OF assms(1) kind_payloads(1)]
  by (auto simp: sanitized_shape_defs sanitized_base sanitized_recheck redact_scalar simp del: case_map_option)

lemma sanitized_event:
  assumes "field r ''receiptKind'' = Some (JString ''event'')" "event_shape r"
  shows "event_shape (sanitize_receipt r)"
  using assms(2) sanitized_payload [OF assms(1) kind_payloads(2)]
  by (auto simp: sanitized_shape_defs sanitized_base redact_scalar)

lemma sanitized_authorization:
  assumes "field r ''receiptKind'' = Some (JString ''authorization'')" "authorization_shape r"
  shows "authorization_shape (sanitize_receipt r)"
  using assms(2) sanitized_payload [OF assms(1) kind_payloads(3)]
  by (auto simp: sanitized_shape_defs sanitized_base redact_scalar)

lemma sanitized_rejection:
  assumes "field r ''receiptKind'' = Some (JString ''rejection'')" "rejection_shape r"
  shows "rejection_shape (sanitize_receipt r)"
  using assms(2) sanitized_payload [OF assms(1) kind_payloads(4)]
  by (auto simp: sanitized_shape_defs sanitized_base redact_scalar)

lemma sanitized_result:
  assumes "field r ''receiptKind'' = Some (JString ''result'')" "result_shape r"
  shows "result_shape (sanitize_receipt r)"
  using assms(2) sanitized_payload [OF assms(1) kind_payloads(5)]
  by (auto simp: sanitized_shape_defs sanitized_base redact_scalar)

lemma sanitized_timeout:
  assumes "field r ''receiptKind'' = Some (JString ''timeout'')" "timeout_shape r"
  shows "timeout_shape (sanitize_receipt r)"
  using assms(2) sanitized_payload [OF assms(1) kind_payloads(6)]
  by (auto simp: sanitized_shape_defs sanitized_base redact_scalar)

lemma sanitized_retry:
  assumes "field r ''receiptKind'' = Some (JString ''retry'')" "retry_shape r"
  shows "retry_shape (sanitize_receipt r)"
  using assms(2) sanitized_payload [OF assms(1) kind_payloads(7)]
  by (auto simp: sanitized_shape_defs sanitized_base redact_scalar)

lemma sanitized_cancellation:
  assumes "field r ''receiptKind'' = Some (JString ''cancellation'')" "two_texts_shape ''cancelled'' ''cancellation'' ''reason'' ''requestedBy'' r"
  shows "two_texts_shape ''cancelled'' ''cancellation'' ''reason'' ''requestedBy'' (sanitize_receipt r)"
  using assms(2) sanitized_payload [OF assms(1) kind_payloads(8)]
  by (auto simp: sanitized_shape_defs sanitized_base redact_scalar)

lemma sanitized_reconciliation:
  assumes "field r ''receiptKind'' = Some (JString ''reconciliation'')" "two_texts_shape ''reconciled'' ''reconciliation'' ''outcome'' ''source'' r"
  shows "two_texts_shape ''reconciled'' ''reconciliation'' ''outcome'' ''source'' (sanitize_receipt r)"
  using assms(2) sanitized_payload [OF assms(1) kind_payloads(9)]
  by (auto simp: sanitized_shape_defs sanitized_base redact_scalar)

lemma sanitized_projection:
  assumes "field r ''receiptKind'' = Some (JString ''projection'')" "projection_shape r"
  shows "projection_shape (sanitize_receipt r)"
  using assms(2) sanitized_payload [OF assms(1) kind_payloads(10)]
  by (auto simp: sanitized_shape_defs sanitized_base redact_scalar)

lemma sanitized_effect_intent:
  assumes "field r ''receiptKind'' = Some (JString ''effect_intent'')" "effect_intent_shape r"
  shows "effect_intent_shape (sanitize_receipt r)"
  using assms(2) sanitized_payload [OF assms(1) kind_payloads(11)]
  by (auto simp: sanitized_shape_defs sanitized_base redact_scalar)

lemma sanitized_effect_attempt:
  assumes "field r ''receiptKind'' = Some (JString ''effect_attempt'')" "effect_attempt_shape r"
  shows "effect_attempt_shape (sanitize_receipt r)"
  using assms(2) sanitized_payload [OF assms(1) kind_payloads(12)]
  by (auto simp: sanitized_shape_defs sanitized_base redact_scalar)

lemma sanitized_each:
  "list_all (\<lambda>(kind, shape). \<forall>r. field r ''receiptKind'' = Some (JString kind) \<longrightarrow> shape r \<longrightarrow> shape (sanitize_receipt r)) kind_shapes"
  unfolding kind_shapes_def list.pred_inject prod.case
  by (intro conjI TrueI allI impI sanitized_command_admission sanitized_event sanitized_authorization sanitized_rejection sanitized_result sanitized_timeout sanitized_retry sanitized_cancellation sanitized_reconciliation sanitized_projection sanitized_effect_intent sanitized_effect_attempt; assumption?) simp

lemma sanitized_kind:
  assumes "kind_shape r"
  shows "kind_shape (sanitize_receipt r)"
proof -
  obtain kind shape where k: "field r ''receiptKind'' = Some (JString kind)" "map_of kind_shapes kind = Some shape" "shape r"
    using assms by (auto simp: kind_shape_def split: option.splits json.splits)
  then have "shape (sanitize_receipt r)"
    using map_of_SomeD [OF k(2)] sanitized_each by (fastforce simp: list_all_iff)
  then show ?thesis using k by (simp add: kind_shape_def sanitized_base)
qed

lemma sanitized_shape:
  assumes "receipt_shape dp h r"
  shows "receipt_shape dp h (sanitize_receipt r)"
proof -
  have b: "field (sanitize_receipt r) k = field r k" if "k \<in> set receipt_base_keys" for k
    using that by (rule sanitized_base)
  have "receipt_base_shape dp h (sanitize_receipt r) = receipt_base_shape dp h r"
    by (simp add: receipt_base_shape_def b)
  moreover have "is_record (sanitize_receipt r)" by (simp add: sanitize_receipt_def)
  ultimately show ?thesis using assms sanitized_kind [of r] by (simp add: receipt_shape_def b)
qed

lemma sanitized_text: "k \<in> set receipt_base_keys \<Longrightarrow> text_field (sanitize_receipt r) k = text_field r k"
  by (simp add: text_field_def sanitized_base)

lemma sanitized_compare: "compare_receipts dp c (sanitize_receipt l) (sanitize_receipt r) = compare_receipts dp c l r"
  unfolding compare_receipts_def sanitized_base [OF base_keys(10)] sanitized_text [OF base_keys(16)] sanitized_text [OF base_keys(2)] ..

lemma sanitized_lineage: "lineage_violation seen (map sanitize_receipt rs) = map_option sanitize_receipt (lineage_violation seen rs)"
  by (induction rs arbitrary: seen)
    (simp_all add: post_terminal_allowed_def is_terminal_def sanitized_text)

lemma sanitized_status: "derive_trace_status (map sanitize_receipt rs) = derive_trace_status rs"
  by (cases rs rule: rev_cases) (simp_all add: derive_trace_status_def sanitized_text)

lemma sanitize_good:
  assumes "good_trace dp c t"
  shows "sanitize_trace dp c t =
      t\<lparr>at_receipts := map sanitize_receipt (at_receipts t), at_last_receipt := map_option sanitize_receipt (at_last_receipt t)\<rparr>"
    and "good_trace dp c (sanitize_trace dp c t)"
proof -
  let ?h = "head_of t" and ?rs = "map sanitize_receipt (at_receipts t)"
  have g: "good_head ?h" "list_all (receipt_shape dp ?h) (at_receipts t)" "in_order (compare_receipts dp c) (at_receipts t)"
    "lineage_violation False (at_receipts t) = None"
    using assms by (simp_all add: good_trace_def)
  have o1: "sort_by (compare_receipts dp c) ?rs = ?rs"
    by (rule sort_ordered) (use g(3) in_order_map [of "compare_receipts dp c" sanitize_receipt] sanitized_compare in blast)
  have ne: "non_empty (th_intent_id t) = th_intent_id t" "non_empty (th_principal_id t) = th_principal_id t"
    "non_empty (th_checkpoint_id t) = th_checkpoint_id t"
    using g(1) non_empty_good by (auto simp: good_head_def head_of_def trace_head.defs)
  have l: "(if ?rs = [] then None else Some (last ?rs)) = map_option sanitize_receipt (at_last_receipt t)"
    using assms by (simp add: good_trace_def last_map)
  have cc: "(if truthy (at_correlation_id t) then at_correlation_id t else None) = at_correlation_id t"
    "(if truthy (at_causation_id t) then at_causation_id t else None) = at_causation_id t" "at_status t = derive_trace_status (at_receipts t)"
    using assms by (simp_all add: good_trace_def)
  show "sanitize_trace dp c t =
      t\<lparr>at_receipts := ?rs, at_last_receipt := map_option sanitize_receipt (at_last_receipt t)\<rparr>"
    unfolding sanitize_trace_def create_trace_def Let_def o1 l cc sanitized_status
    by (simp add: trace_head.defs ne cc(3))
  have "list_all (receipt_shape dp ?h) ?rs" using g(2) sanitized_shape by (fastforce simp: list_all_iff)
  then show "good_trace dp c (sanitize_trace dp c t)"
    using create_trace_good [OF g(1), of dp ?rs c "at_correlation_id t" "at_causation_id t"]
    by (simp add: sanitize_trace_def head_of_def validate_trace_def create_trace_fields o1 sanitized_lineage g(4))
qed

text \<open>
  Sanitizing an accepted trace changes nothing but the payloads of its receipts: identity,
  order, lineage and derived status stay, every receipt still has the shape of its kind, and the
  sanitized trace is accepted when read back.\<close>

theorem sanitize_keeps_validity:
  "parse_trace dp c v = Inr t \<Longrightarrow>
     sanitize_trace dp c t =
       t\<lparr>at_receipts := map sanitize_receipt (at_receipts t), at_last_receipt := map_option sanitize_receipt (at_last_receipt t)\<rparr>
   \<and> parse_trace dp c (trace_json (sanitize_trace dp c t)) = Inr (sanitize_trace dp c t)"
  using parse_trace_good sanitize_good parse_good by blast

theorem sanitize_keeps_validity_witness:
  "\<exists>t. parse_trace (\<lambda>s. Some 0) code_unit_collator sample_trace = Inr t
     \<and> parse_trace (\<lambda>s. Some 0) code_unit_collator (trace_json (sanitize_trace (\<lambda>s. Some 0) code_unit_collator t))
       = Inr (sanitize_trace (\<lambda>s. Some 0) code_unit_collator t)"
  using sample_parses sanitize_keeps_validity by meson

section \<open>Trace idempotency keys\<close>

text \<open>The identities are joined without escaping, so different identities can share a key.\<close>

lemma trace_key_collision:
  "trace_idempotency_key ''t:command=x'' ''c'' ''e'' ''a'' = trace_idempotency_key ''t'' ''x:command=c'' ''e'' ''a''"
  by (simp add: trace_idempotency_key_def blank_def js_space_def)

end
