(* ===== verification/Agent_Admission.thy ===== *)
theory Agent_Admission
  imports Agent_Receipts
begin

text \<open>
  Admission of an agent command, \<open>admitAgentExecutionCommand\<close> in \<open>agent-execution-contract.ts\<close>:
  validation of the metadata, the message and the principal, the policy adapter, the idempotency
  claim, and the receipts of the decision. The inputs are JSON values (so \<open>isJsonSafeValue\<close> holds);
  the two adapters are functions of the context they are called with, and the calls are logged.
  The counter of the fallback command ids is threaded through.
\<close>

section \<open>Data\<close>

datatype policy_answer = Policy_throws | Policy_returns json

text \<open>What a claim returns: its JSON part, and whether it has a \<open>settle\<close> function.\<close>

datatype claim_answer = Claim_throws | Claim_returns json bool

datatype port_call = Policy_call json | Claim_call json

record admission_input =
  ai_actor_id :: string
  ai_session_id :: string
  ai_kind :: string
  ai_message :: json
  ai_principal :: json
  ai_metadata :: "json option"
  ai_policy :: "(json \<Rightarrow> policy_answer) option"
  ai_require_policy :: bool
  ai_idempotency :: "(json \<Rightarrow> claim_answer) option"

record admission_decision =
  ad_ok :: bool
  ad_principal :: json
  ad_metadata :: json
  ad_admission :: json
  ad_authorization :: "json option"
  ad_rejection :: "json option"
  ad_claim :: "json option"

text \<open>The clock: the ISO text of \<open>now\<close> and its milliseconds.\<close>

type_synonym clock = "string \<times> int"

section \<open>Validation\<close>

definition admission_rechecks :: json where
  "admission_rechecks = JArray (map JString recheck_fields)"

definition reason :: "string \<Rightarrow> string \<Rightarrow> json" where
  "reason code detail = JObject [(''code'', JString code), (''detail'', JString detail)]"

definition invalid_admission :: "string \<Rightarrow> json" where
  "invalid_admission detail = reason ''invalid_command_metadata'' detail"

definition fallback_command_id :: "clock \<Rightarrow> nat \<Rightarrow> string \<times> nat" where
  "fallback_command_id now n = (''command:'' @ fst now @ '':'' @ nat_digits (Suc n), Suc n)"

definition metadata_input :: "json option \<Rightarrow> json option" where
  "metadata_input v = (if is_json_object v then v else None)"

definition meta_field :: "json option \<Rightarrow> string \<Rightarrow> json option" where
  "meta_field v k = (case metadata_input v of None \<Rightarrow> None | Some m \<Rightarrow> field m k)"

definition command_id :: "json option \<Rightarrow> clock \<Rightarrow> nat \<Rightarrow> string \<times> nat" where
  "command_id v now n =
     (if is_non_empty_string (meta_field v ''commandId'')
      then (case text_value (meta_field v ''commandId'') of Some s \<Rightarrow> (trim s, n) | None \<Rightarrow> fallback_command_id now n)
      else fallback_command_id now n)"

definition to_command_metadata :: "json option \<Rightarrow> clock \<Rightarrow> nat \<Rightarrow> json \<times> nat" where
  "to_command_metadata v now n =
     (let (cid, n1) = command_id v now n
      in (JObject ((''commandId'', JString cid)
            # concat (map (\<lambda>k. opt_field k (meta_field v k))
                [''intentId'', ''correlationId'', ''revision'', ''idempotencyKey'', ''capability'', ''approval'', ''policyVersion''])),
          n1))"

definition fallback_metadata :: "json option \<Rightarrow> clock \<Rightarrow> nat \<Rightarrow> json \<times> nat" where
  "fallback_metadata v now n = (let (cid, n1) = command_id v now n in (JObject [(''commandId'', JString cid)], n1))"

definition validate_container :: "json option \<Rightarrow> json option" where
  "validate_container v =
     (if v = None then None
      else if \<not> is_json_object v then Some (invalid_admission ''metadata must be a JSON object when provided.'')
      else None)"

definition validate_raw_metadata :: "json option \<Rightarrow> json option" where
  "validate_raw_metadata v =
     (case metadata_input v of
        None \<Rightarrow> None
      | Some m \<Rightarrow>
          if \<not> optional_text (field m ''commandId'')
          then Some (invalid_admission ''commandId must be a non-empty string when provided.'')
          else if \<not> optional_text (field m ''idempotencyKey'')
          then Some (invalid_admission ''idempotencyKey must be a non-empty string when provided.'')
          else if field m ''approval'' \<noteq> None \<and> \<not> is_json_object (field m ''approval'')
          then Some (invalid_admission ''approval must be a JSON-safe object when provided.'')
          else if \<not> optional_text (sub m ''approval'' ''expiresAt'')
          then Some (invalid_admission ''approval.expiresAt must be a non-empty ISO-8601 timestamp when provided.'')
          else (case find_credential m ''metadata'' of
                  None \<Rightarrow> None
                | Some p \<Rightarrow> Some (reason ''credential_bearing_metadata''
                    (p @ '' is secret-bearing. Supply credential-free command metadata.''))))"

fun is_natural_number :: "json \<Rightarrow> bool" where
  "is_natural_number (JNumber r) = (snd (quotient_of r) = 1 \<and> 0 \<le> r)"
| "is_natural_number _ = False"

definition validate_approval :: "(string \<Rightarrow> int option) \<Rightarrow> clock \<Rightarrow> json \<Rightarrow> json option" where
  "validate_approval dp now m =
     (if sub m ''approval'' ''state'' \<noteq> None \<and> \<not> one_of [''granted'', ''missing'', ''expired''] (sub m ''approval'' ''state'')
      then Some (invalid_admission ''approval.state must be granted, missing, or expired when provided.'')
      else (case sub m ''approval'' ''expiresAt'' of
              Some (JString e) \<Rightarrow>
                (if e = [] then None
                 else case dp e of
                        None \<Rightarrow> Some (invalid_admission ''approval.expiresAt must be a valid ISO-8601 timestamp.'')
                      | Some t \<Rightarrow>
                          if t \<le> snd now then Some (reason ''approval_expired'' ''approval.expiresAt is in the past.'') else None)
            | _ \<Rightarrow> None))"

definition validate_principal :: "json \<Rightarrow> json option" where
  "validate_principal p =
     (if \<not> is_non_empty_string (field p ''id'') then Some (reason ''missing_principal'' ''Command principal id is required.'')
      else if \<not> one_of [''authenticated'', ''local'', ''system''] (field p ''kind'')
      then Some (invalid_admission ''principal.kind must be one of authenticated, local, or system.'')
      else if \<not> optional_text (field p ''role'')
      then Some (invalid_admission ''principal.role must be a non-empty string when provided.'')
      else (case find_credential p ''principal'' of
              None \<Rightarrow> None
            | Some q \<Rightarrow> Some (reason ''credential_bearing_principal''
                (q @ '' is secret-bearing. Supply a credential-free principal.''))))"

definition validate_metadata :: "json \<Rightarrow> json option" where
  "validate_metadata m =
     (if \<not> optional_text (field m ''intentId'') then Some (invalid_admission ''intentId must be a non-empty string when provided.'')
      else if \<not> optional_text (field m ''correlationId'')
      then Some (invalid_admission ''correlationId must be a non-empty string when provided.'')
      else if (case field m ''revision'' of None \<Rightarrow> False | Some v \<Rightarrow> \<not> is_natural_number v)
      then Some (invalid_admission ''revision must be a non-negative integer.'')
      else if \<not> optional_text (field m ''capability'')
      then Some (invalid_admission ''capability must be a non-empty string when provided.'')
      else if \<not> optional_text (field m ''policyVersion'')
      then Some (invalid_admission ''policyVersion must be a non-empty string when provided.'')
      else None)"

definition validate_message :: "json \<Rightarrow> json option" where
  "validate_message msg =
     (if \<not> is_non_empty_string (field msg ''type'') then Some (invalid_admission ''message.type must be a non-empty string.'')
      else (case find_credential msg ''message'' of
              None \<Rightarrow> None
            | Some p \<Rightarrow> Some (reason ''credential_bearing_message''
                (p @ '' is secret-bearing. Supply a credential-free command payload.''))))"

definition or_else :: "'a option \<Rightarrow> 'a option \<Rightarrow> 'a option" where
  "or_else x y = (case x of None \<Rightarrow> y | Some v \<Rightarrow> Some v)"

definition validate_admission :: "(string \<Rightarrow> int option) \<Rightarrow> json \<Rightarrow> json \<Rightarrow> json \<Rightarrow> clock \<Rightarrow> json option" where
  "validate_admission dp m p msg now =
     or_else (validate_message msg) (or_else (validate_principal p) (or_else (validate_metadata m) (validate_approval dp now m)))"

definition valid_policy_decision :: "json \<Rightarrow> bool" where
  "valid_policy_decision d \<longleftrightarrow>
     is_record d
   \<and> (if field d ''outcome'' = Some (JString ''authorized'') then is_non_empty_string (field d ''policy'')
      else if field d ''outcome'' = Some (JString ''rejected'')
      then is_non_empty_string (field d ''policy'') \<and> is_non_empty_string (field d ''code'')
      else False)"

definition valid_claim_result :: "json \<Rightarrow> bool \<Rightarrow> bool" where
  "valid_claim_result r settles \<longleftrightarrow>
     is_record r
   \<and> (if field r ''outcome'' = Some (JString ''available'') then settles
      else if field r ''outcome'' = Some (JString ''duplicate'')
      then optional_text (field r ''code'') \<and> optional_text (field r ''detail'')
      else False)"

section \<open>Receipts of a decision\<close>

definition trace_base :: "admission_input \<Rightarrow> json \<Rightarrow> json \<Rightarrow> string \<Rightarrow> (string \<times> json) list" where
  "trace_base i p m occurred =
     [(''traceId'', JString (''trace:'' @ ai_session_id i @ '':'' @ text_field m ''commandId'')), (''actorId'', JString (ai_actor_id i)),
      (''sessionId'', JString (ai_session_id i)), (''commandId'', JString (text_field m ''commandId''))]
     @ (if truthy (field m ''intentId'') then opt_field ''intentId'' (field m ''intentId'') else [])
     @ opt_field ''principalId'' (field p ''id'') @ opt_field ''revision'' (field m ''revision'')
     @ (if truthy (field m ''correlationId'') then opt_field ''correlationId'' (field m ''correlationId'') else [])
     @ [(''occurredAt'', JString occurred)]
     @ (if truthy (field m ''idempotencyKey'') then opt_field ''idempotencyKey'' (field m ''idempotencyKey'') else [])"

definition trace_id_of :: "(string \<times> json) list \<Rightarrow> string" where
  "trace_id_of base = text_field (JObject base) ''traceId''"

text \<open>\<open>{ receiptId, recordId, ...base, sequence, ...fields }\<close>\<close>

definition receipt_fields :: "(string \<times> json) list \<Rightarrow> string \<Rightarrow> nat \<Rightarrow> (string \<times> json) list \<Rightarrow> (string \<times> json) list" where
  "receipt_fields base name n extra =
     [(''receiptId'', JString (trace_id_of base @ '':'' @ name @ '':'' @ nat_digits n)),
      (''recordId'', JString (trace_id_of base @ '':record:'' @ name @ '':'' @ nat_digits n))]
     @ base @ [(''sequence'', JNumber (of_nat n))] @ extra"

definition decision_admission :: "(string \<times> json) list \<Rightarrow> string \<Rightarrow> string \<Rightarrow> json" where
  "decision_admission base stage outcome =
     admission_receipt (receipt_fields base ''admission'' 1
       [(''admissionStage'', JString stage),
        (''admission'', JObject [(''discovery'', JString ''descriptive_only''), (''outcome'', JString outcome), (''rechecked'', admission_rechecks)])])"

definition reject_with :: "json \<Rightarrow> json \<Rightarrow> (string \<times> json) list \<Rightarrow> string \<Rightarrow> json \<Rightarrow> admission_decision" where
  "reject_with dprincipal m base stage why =
     \<lparr>ad_ok = False, ad_principal = dprincipal, ad_metadata = m, ad_admission = decision_admission base stage ''rejected'',
      ad_authorization = None,
      ad_rejection = Some (rejected_receipt (receipt_fields base ''rejection'' 2 [(''admissionStage'', JString stage), (''reason'', why)])),
      ad_claim = None\<rparr>"

definition authorize_with :: "json \<Rightarrow> json \<Rightarrow> (string \<times> json) list \<Rightarrow> json \<Rightarrow> json option \<Rightarrow> admission_decision" where
  "authorize_with dprincipal m base decision claim =
     \<lparr>ad_ok = True, ad_principal = dprincipal, ad_metadata = m,
      ad_admission = decision_admission base ''execution-authorized'' ''admitted'',
      ad_authorization = Some (authorized_receipt (receipt_fields base ''authorization'' 2
        [(''principal'', dprincipal),
         (''authorization'', JObject [(''policy'', JString (text_field decision ''policy'')), (''decision'', JString ''approved'')])])),
      ad_rejection = None, ad_claim = claim\<rparr>"

section \<open>The decision\<close>

definition authorized_stage :: "string" where "authorized_stage = ''execution-authorized''"

text \<open>The claim of the idempotency key, after the policy has authorized the command.\<close>

definition admit_claim :: "admission_input \<Rightarrow> json \<Rightarrow> json \<Rightarrow> json \<Rightarrow> (string \<times> json) list \<Rightarrow> json \<Rightarrow> admission_decision \<times> port_call list" where
  "admit_claim i ctx dp m base decision =
     (let reject = reject_with dp m base authorized_stage
      in if ai_idempotency i = None \<and> field m ''idempotencyKey'' = None then (authorize_with dp m base decision None, [])
         else (case ai_idempotency i of
                 None \<Rightarrow> (reject (reason ''missing_idempotency_adapter''
                    ''commandAdmission metadata.idempotencyKey requires an explicit idempotency adapter.''), [])
               | Some claim \<Rightarrow>
                   ((case claim ctx of
                       Claim_throws \<Rightarrow> reject (reason ''idempotency_adapter_failure''
                          ''Idempotency adapter threw before returning a claim result.'')
                     | Claim_returns r settles \<Rightarrow>
                         if \<not> valid_claim_result r settles
                         then reject (reason ''idempotency_adapter_invalid_result''
                            ''Idempotency adapter must return a valid available settlement or duplicate decision.'')
                         else if field r ''outcome'' = Some (JString ''duplicate'')
                         then reject (JObject
                            ((''code'', case field r ''code'' of None \<Rightarrow> JString ''duplicate_idempotency_key'' | Some c \<Rightarrow> c)
                             # (if truthy (field r ''detail'') then opt_field ''detail'' (field r ''detail'') else [])))
                         else authorize_with dp m base decision (Some r)),
                    [Claim_call ctx])))"

definition legacy_decision :: json where
  "legacy_decision = JObject [(''outcome'', JString ''authorized''), (''policy'', JString ''legacy-compatibility'')]"

text \<open>What follows the answer of the policy.\<close>

definition after_policy ::
  "admission_input \<Rightarrow> json \<Rightarrow> json \<Rightarrow> json \<Rightarrow> (string \<times> json) list \<Rightarrow> policy_answer \<Rightarrow> admission_decision \<times> port_call list" where
  "after_policy i ctx dp m base answer =
     (let reject = reject_with dp m base authorized_stage
      in (case answer of
            Policy_throws \<Rightarrow> (reject (reason ''policy_adapter_failure'' ''Policy adapter threw before returning a decision.''), [])
          | Policy_returns decision \<Rightarrow>
              if \<not> valid_policy_decision decision
              then (reject (reason ''policy_adapter_invalid_result''
                      ''Policy adapter must return a valid authorized or rejected decision.''), [])
              else if field decision ''outcome'' = Some (JString ''rejected'')
              then (reject (JObject
                      ((''code'', JString (text_field decision ''code''))
                       # (if truthy (field decision ''detail'') then opt_field ''detail'' (field decision ''detail'') else []))), [])
              else admit_claim i ctx dp m base decision))"

definition admit_policy :: "admission_input \<Rightarrow> json \<Rightarrow> json \<Rightarrow> json \<Rightarrow> (string \<times> json) list \<Rightarrow> admission_decision \<times> port_call list" where
  "admit_policy i ctx dp m base =
     (if ai_require_policy i \<and> ai_policy i = None
      then (reject_with dp m base authorized_stage
              (reason ''missing_policy_adapter'' ''commandAdmission requires an explicit policy adapter.''), [])
      else (case ai_policy i of
              None \<Rightarrow> after_policy i ctx dp m base (Policy_returns legacy_decision)
            | Some policy \<Rightarrow>
                (let (d, calls) = after_policy i ctx dp m base (policy ctx) in (d, Policy_call ctx # calls))))"

definition policy_context :: "admission_input \<Rightarrow> json \<Rightarrow> json \<Rightarrow> json \<Rightarrow> json" where
  "policy_context i msg p m = JObject
     [(''actorId'', JString (ai_actor_id i)), (''sessionId'', JString (ai_session_id i)), (''kind'', JString (ai_kind i)),
      (''message'', msg), (''principal'', p), (''metadata'', m)]"

definition input_principal :: "admission_input \<Rightarrow> json" where
  "input_principal i =
     (if is_record (ai_principal i) then ai_principal i else JObject [(''id'', JString []), (''kind'', JString ''system'')])"

definition input_message :: "admission_input \<Rightarrow> json" where
  "input_message i = (if is_record (ai_message i) then ai_message i else JObject [(''type'', JString [])])"

definition admit_command ::
  "(string \<Rightarrow> int option) \<Rightarrow> clock \<Rightarrow> admission_input \<Rightarrow> nat \<Rightarrow> (admission_decision \<times> port_call list) \<times> nat" where
  "admit_command dp now i n =
     (let p = input_principal i;
          msg = input_message i;
          dprincipal = redact p;
          (fm, n1) = fallback_metadata (ai_metadata i) now n;
          fbase = trace_base i p fm (fst now)
      in (case or_else (validate_container (ai_metadata i)) (validate_raw_metadata (ai_metadata i)) of
            Some why \<Rightarrow> ((reject_with dprincipal fm fbase ''schema-admitted'' why, []), n1)
          | None \<Rightarrow>
              (let (m, n2) = to_command_metadata (ai_metadata i) now n1;
                   base = trace_base i p m (fst now)
               in (case validate_admission dp m p msg now of
                     Some why \<Rightarrow>
                       ((reject_with dprincipal m base
                           (if field why ''code'' = Some (JString ''invalid_command_metadata'') then ''schema-admitted'' else authorized_stage)
                           why, []), n2)
                   | None \<Rightarrow> (admit_policy i (policy_context i msg p m) dprincipal m base, n2)))))"

section \<open>Admission is exact\<close>

definition policy_allows :: "admission_input \<Rightarrow> json \<Rightarrow> bool" where
  "policy_allows i ctx \<longleftrightarrow>
     (case ai_policy i of
        None \<Rightarrow> \<not> ai_require_policy i
      | Some policy \<Rightarrow>
          (case policy ctx of
             Policy_throws \<Rightarrow> False
           | Policy_returns d \<Rightarrow>
               is_record d \<and> field d ''outcome'' = Some (JString ''authorized'') \<and> is_non_empty_string (field d ''policy'')))"

definition claim_allows :: "admission_input \<Rightarrow> json \<Rightarrow> json \<Rightarrow> bool" where
  "claim_allows i ctx m \<longleftrightarrow>
     (case ai_idempotency i of
        None \<Rightarrow> field m ''idempotencyKey'' = None
      | Some claim \<Rightarrow>
          (case claim ctx of
             Claim_throws \<Rightarrow> False
           | Claim_returns r settles \<Rightarrow> is_record r \<and> field r ''outcome'' = Some (JString ''available'') \<and> settles))"

text \<open>The metadata after both of its validations, with the counter as the fallback left it.\<close>

definition decided_metadata :: "clock \<Rightarrow> admission_input \<Rightarrow> nat \<Rightarrow> json" where
  "decided_metadata now i n = fst (to_command_metadata (ai_metadata i) now (snd (fallback_metadata (ai_metadata i) now n)))"

definition inputs_valid :: "(string \<Rightarrow> int option) \<Rightarrow> clock \<Rightarrow> admission_input \<Rightarrow> nat \<Rightarrow> bool" where
  "inputs_valid dp now i n \<longleftrightarrow>
     validate_container (ai_metadata i) = None \<and> validate_raw_metadata (ai_metadata i) = None
   \<and> validate_admission dp (decided_metadata now i n) (input_principal i) (input_message i) now = None"

definition decision_context :: "clock \<Rightarrow> admission_input \<Rightarrow> nat \<Rightarrow> json" where
  "decision_context now i n = policy_context i (input_message i) (input_principal i) (decided_metadata now i n)"

lemma reject_with_ok [simp]: "ad_ok (reject_with p m b s w) = False" "ad_rejection (reject_with p m b s w) \<noteq> None"
  by (simp_all add: reject_with_def)

lemma authorize_with_ok [simp]: "ad_ok (authorize_with p m b d c)" "ad_rejection (authorize_with p m b d c) = None"
  by (simp_all add: authorize_with_def)

lemma admit_claim_exact:
  "ad_ok (fst (admit_claim i ctx p m base d)) = claim_allows i ctx m"
  "snd (admit_claim i ctx p m base d) = (if ai_idempotency i = None then [] else [Claim_call ctx])"
  by (auto simp: admit_claim_def claim_allows_def Let_def valid_claim_result_def split: option.splits claim_answer.splits if_splits)

definition answer_allows :: "policy_answer \<Rightarrow> bool" where
  "answer_allows a \<longleftrightarrow>
     (case a of
        Policy_throws \<Rightarrow> False
      | Policy_returns d \<Rightarrow>
          is_record d \<and> field d ''outcome'' = Some (JString ''authorized'') \<and> is_non_empty_string (field d ''policy''))"

lemma after_policy_exact:
  "ad_ok (fst (after_policy i ctx p m base a)) = (answer_allows a \<and> claim_allows i ctx m)"
  "snd (after_policy i ctx p m base a) = (if answer_allows a \<and> ai_idempotency i \<noteq> None then [Claim_call ctx] else [])"
  by (auto simp: after_policy_def answer_allows_def Let_def valid_policy_decision_def admit_claim_exact
      split: policy_answer.splits if_splits)

lemma legacy_allows: "answer_allows (Policy_returns legacy_decision)"
  by (simp add: answer_allows_def legacy_decision_def blank_def js_space_def)

lemma policy_allows_answer: "ai_policy i = Some f \<Longrightarrow> policy_allows i ctx = answer_allows (f ctx)"
  by (simp add: policy_allows_def answer_allows_def)

lemma admit_policy_exact:
  "ad_ok (fst (admit_policy i ctx p m base)) = (policy_allows i ctx \<and> claim_allows i ctx m)"
  "snd (admit_policy i ctx p m base) =
     (if ai_policy i = None then [] else [Policy_call ctx])
     @ (if policy_allows i ctx \<and> ai_idempotency i \<noteq> None then [Claim_call ctx] else [])"
proof -
  have "ad_ok (fst (admit_policy i ctx p m base)) = (policy_allows i ctx \<and> claim_allows i ctx m)
    \<and> snd (admit_policy i ctx p m base) =
     (if ai_policy i = None then [] else [Policy_call ctx])
     @ (if policy_allows i ctx \<and> ai_idempotency i \<noteq> None then [Claim_call ctx] else [])"
  proof (cases "ai_policy i")
    case None
    then have "policy_allows i ctx = (\<not> ai_require_policy i)" by (simp add: policy_allows_def)
    then show ?thesis by (simp add: admit_policy_def None after_policy_exact legacy_allows)
  next
    case (Some f)
    then show ?thesis by (simp add: admit_policy_def after_policy_exact policy_allows_answer split_beta Let_def)
  qed
  then show "ad_ok (fst (admit_policy i ctx p m base)) = (policy_allows i ctx \<and> claim_allows i ctx m)"
    "snd (admit_policy i ctx p m base) =
     (if ai_policy i = None then [] else [Policy_call ctx])
     @ (if policy_allows i ctx \<and> ai_idempotency i \<noteq> None then [Claim_call ctx] else [])"
    by blast+
qed

lemma admit_valid:
  assumes "inputs_valid dp now i n"
  shows "fst (admit_command dp now i n) =
     admit_policy i (decision_context now i n) (redact (input_principal i)) (decided_metadata now i n)
       (trace_base i (input_principal i) (decided_metadata now i n) (fst now))"
proof -
  obtain fm n1 where f: "fallback_metadata (ai_metadata i) now n = (fm, n1)" by fastforce
  obtain m n2 where m: "to_command_metadata (ai_metadata i) now n1 = (m, n2)" by fastforce
  have d: "decided_metadata now i n = m" by (simp add: decided_metadata_def f m)
  show ?thesis
    using assms by (simp add: admit_command_def Let_def f m d decision_context_def inputs_valid_def or_else_def)
qed

lemma admit_invalid:
  assumes "\<not> inputs_valid dp now i n"
  shows "\<not> ad_ok (fst (fst (admit_command dp now i n)))" "snd (fst (admit_command dp now i n)) = []"
  using assms
  by (auto simp: admit_command_def Let_def split_beta decided_metadata_def inputs_valid_def or_else_def split: option.splits)

text \<open>
  C28. Admission fails closed. A command is admitted exactly when its metadata, message and principal
  are valid, the policy adapter, if there is one, answers with a well-formed authorization (and there
  is one if the caller requires it), and the idempotency adapter, if there is one or a key was
  supplied, answers with a claim that can be settled; every adapter that throws or answers with
  something malformed rejects. The adapters are called at most once each and in this order: the
  policy only for valid input, the idempotency claim only after the policy authorized.\<close>

theorem admission_exact:
  "case fst (admit_command dp now i n) of (d, calls) \<Rightarrow>
     ad_ok d = (inputs_valid dp now i n \<and> policy_allows i (decision_context now i n)
                \<and> claim_allows i (decision_context now i n) (decided_metadata now i n))
   \<and> calls =
       (if inputs_valid dp now i n
        then (if ai_policy i = None then [] else [Policy_call (decision_context now i n)])
             @ (if policy_allows i (decision_context now i n) \<and> ai_idempotency i \<noteq> None
                then [Claim_call (decision_context now i n)] else [])
        else [])"
  by (cases "inputs_valid dp now i n") (simp_all add: split_beta admit_valid admit_invalid admit_policy_exact)

section \<open>The receipts of an admission\<close>

text \<open>The trace of a decision: its identity and its two receipts.\<close>

definition decision_trace :: "(string \<times> json) list \<Rightarrow> json \<Rightarrow> json \<Rightarrow> json" where
  "decision_trace base r1 r2 = JObject ((''version'', contract_version) # base @ [(''receipts'', JArray [r1, r2])])"

definition base_head :: "(string \<times> json) list \<Rightarrow> trace_head" where
  "base_head base =
     \<lparr>th_trace_id = text_field (JObject base) ''traceId'', th_actor_id = text_field (JObject base) ''actorId'',
      th_session_id = text_field (JObject base) ''sessionId'', th_command_id = text_field (JObject base) ''commandId'',
      th_intent_id = text_value (map_of base ''intentId''), th_principal_id = text_value (map_of base ''principalId''),
      th_attempt = None, th_revision = number_value (map_of base ''revision''), th_checkpoint_id = None\<rparr>"

text \<open>The keys that the receipts add to the base.\<close>

definition receipt_own_keys :: "string list" where
  "receipt_own_keys = [''receiptId'', ''recordId'', ''sequence'', ''admissionStage'', ''admission'', ''principal'', ''authorization'',
     ''version'', ''receiptKind'', ''status'', ''receipts'', ''attempt'', ''checkpointId'', ''effectId'', ''effectAttemptId'', ''provider'',
     ''causationId'', ''schemaVersion'']"

definition good_base :: "(string \<Rightarrow> int option) \<Rightarrow> (string \<times> json) list \<Rightarrow> bool" where
  "good_base dp base \<longleftrightarrow>
     list_all (\<lambda>k. is_non_empty_string (map_of base k)) [''traceId'', ''actorId'', ''sessionId'', ''commandId'', ''principalId'']
   \<and> is_iso_timestamp dp (map_of base ''occurredAt'')
   \<and> list_all (\<lambda>k. optional_text (map_of base k)) [''intentId'', ''correlationId'', ''idempotencyKey'']
   \<and> optional_number (map_of base ''revision'')
   \<and> list_all (\<lambda>k. map_of base k = None) receipt_own_keys"

lemma opt_if_get [simp]: "map_of (if b then opt_field k v else []) k' = (if b \<and> k = k' then v else None)"
  by simp

lemma trace_base_get:
  "map_of (trace_base i p m o1) ''traceId'' = Some (JString (''trace:'' @ ai_session_id i @ '':'' @ text_field m ''commandId''))"
  "map_of (trace_base i p m o1) ''actorId'' = Some (JString (ai_actor_id i))"
  "map_of (trace_base i p m o1) ''sessionId'' = Some (JString (ai_session_id i))"
  "map_of (trace_base i p m o1) ''commandId'' = Some (JString (text_field m ''commandId''))"
  "map_of (trace_base i p m o1) ''principalId'' = field p ''id''"
  "map_of (trace_base i p m o1) ''occurredAt'' = Some (JString o1)"
  "map_of (trace_base i p m o1) ''intentId'' = (if truthy (field m ''intentId'') then field m ''intentId'' else None)"
  "map_of (trace_base i p m o1) ''correlationId'' = (if truthy (field m ''correlationId'') then field m ''correlationId'' else None)"
  "map_of (trace_base i p m o1) ''idempotencyKey'' = (if truthy (field m ''idempotencyKey'') then field m ''idempotencyKey'' else None)"
  "map_of (trace_base i p m o1) ''revision'' = field m ''revision''"
  by (simp_all add: trace_base_def map_add_def split: option.split)

lemma trace_base_own: "list_all (\<lambda>k. map_of (trace_base i p m o1) k = None) receipt_own_keys"
  by (simp add: receipt_own_keys_def trace_base_def map_add_def)

lemma own_absent: "good_base dp base \<Longrightarrow> k \<in> set receipt_own_keys \<Longrightarrow> map_of base k = None"
  by (simp add: good_base_def list_all_iff)

lemma receipt_fields_get:
  "map_of (receipt_fields base name n extra) k =
     (if k = ''receiptId'' then Some (JString (trace_id_of base @ '':'' @ name @ '':'' @ nat_digits n))
      else if k = ''recordId'' then Some (JString (trace_id_of base @ '':record:'' @ name @ '':'' @ nat_digits n))
      else (case map_of base k of
              Some v \<Rightarrow> Some v
            | None \<Rightarrow> if k = ''sequence'' then Some (JNumber (of_nat n)) else map_of extra k))"
  by (auto simp: receipt_fields_def map_add_def split: option.split)

lemma stamped_get:
  "field (stamped kind status extra r) k =
     (if k = ''version'' then Some contract_version
      else (case map_of (rev ([(''version'', contract_version), (''receiptKind'', JString kind), (''status'', JString status)] @ extra)) k of
              None \<Rightarrow> map_of r k | Some v \<Rightarrow> Some v))"
  by (simp add: stamped_def normalize_receipt_def with_fields_get map_add_def)

lemma blank_colon: "\<not> blank (x @ CHR '':'' # y)"
  by (simp add: blank_def js_space_def)

lemma decision_admission_get:
  assumes "map_of base ''receiptKind'' = None" "map_of base ''status'' = None" "map_of base ''version'' = None"
  shows "field (decision_admission base stage outcome) k =
     (if k = ''version'' then Some contract_version
      else if k = ''receiptKind'' then Some (JString ''command_admission'')
      else if k = ''status'' then Some (JString ''observed'')
      else map_of (receipt_fields base ''admission'' 1
       [(''admissionStage'', JString stage),
        (''admission'', JObject [(''discovery'', JString ''descriptive_only''), (''outcome'', JString outcome), (''rechecked'', admission_rechecks)])]) k)"
  by (simp add: decision_admission_def admission_receipt_def stamped_get)

definition authorization_fields :: "json \<Rightarrow> string \<Rightarrow> (string \<times> json) list" where
  "authorization_fields dprincipal policy =
     [(''principal'', dprincipal), (''authorization'', JObject [(''policy'', JString policy), (''decision'', JString ''approved'')])]"

lemma authorized_receipt_get:
  assumes "map_of base ''principalId'' = Some (JString s)"
  shows "field (authorized_receipt (receipt_fields base ''authorization'' 2 extra)) k =
     (if k = ''version'' then Some contract_version
      else if k = ''receiptKind'' then Some (JString ''authorization'')
      else if k = ''status'' then Some (JString ''authorized'')
      else if k = ''admissionStage'' then Some (JString ''execution-authorized'')
      else map_of (receipt_fields base ''authorization'' 2 extra) k)"
  using assms by (simp add: authorized_receipt_def stamped_get or_field_def receipt_fields_get nullish_def)

lemma rechecks_known: "list_all (\<lambda>x. one_of recheck_fields (Some x)) (map JString recheck_fields)"
  by (simp add: recheck_fields_def one_of_def)

lemma good_base_text:
  assumes "good_base dp base" "k \<in> {''traceId'', ''actorId'', ''sessionId'', ''commandId'', ''principalId''}"
  shows "\<exists>s. map_of base k = Some (JString s) \<and> \<not> blank s"
  using assms by (auto simp: good_base_def non_empty_text)

lemma good_base_facts:
  assumes "good_base dp base"
  obtains t a s c p where "map_of base ''traceId'' = Some (JString t)" "map_of base ''actorId'' = Some (JString a)"
    "map_of base ''sessionId'' = Some (JString s)" "map_of base ''commandId'' = Some (JString c)"
    "map_of base ''principalId'' = Some (JString p)"
    "\<not> blank t" "\<not> blank a" "\<not> blank s" "\<not> blank c" "\<not> blank p"
    "is_iso_timestamp dp (map_of base ''occurredAt'')" "optional_text (map_of base ''intentId'')"
    "optional_text (map_of base ''correlationId'')" "optional_text (map_of base ''idempotencyKey'')"
    "optional_number (map_of base ''revision'')"
    "list_all (\<lambda>k. map_of base k = None) receipt_own_keys"
  using assms that unfolding good_base_def list.pred_inject non_empty_text by blast

lemma matching_self:
  "optional_text v \<Longrightarrow> matching_optional v (map_option JString (text_value v))"
  "optional_number v \<Longrightarrow> matching_optional v (map_option JNumber (number_value v))"
  by (auto simp: matching_optional_def optional_text_def optional_number_def non_empty_text finite_number)

text \<open>A receipt with the fields of a good base has the base shape.\<close>

lemma base_receipt_shape:
  assumes "good_base dp base" "is_record r" "\<And>k. k \<notin> {''version'', ''receiptKind'', ''status'', ''admissionStage''} \<Longrightarrow>
      field r k = map_of (receipt_fields base name n extra) k"
    "field r ''receiptKind'' = Some (JString kind)" "field r ''status'' = Some (JString status)" "\<not> blank kind"
    "status \<in> set known_statuses" "\<not> blank status" "kind_shape r"
    "list_all (\<lambda>k. map_of extra k = None) [''attempt'', ''checkpointId'', ''effectId'', ''effectAttemptId'', ''provider'', ''causationId'',
       ''intentId'', ''revision'', ''correlationId'', ''idempotencyKey'']"
  shows "receipt_shape dp (base_head base) r"
proof -
  obtain t a s c p where b: "map_of base ''traceId'' = Some (JString t)" "map_of base ''actorId'' = Some (JString a)"
    "map_of base ''sessionId'' = Some (JString s)" "map_of base ''commandId'' = Some (JString c)"
    "map_of base ''principalId'' = Some (JString p)"
    "\<not> blank t" "\<not> blank a" "\<not> blank s" "\<not> blank c" "\<not> blank p"
    "is_iso_timestamp dp (map_of base ''occurredAt'')" "optional_text (map_of base ''intentId'')"
    "optional_text (map_of base ''correlationId'')" "optional_text (map_of base ''idempotencyKey'')"
    "optional_number (map_of base ''revision'')"
    "list_all (\<lambda>k. map_of base k = None) receipt_own_keys"
    using good_base_facts [OF assms(1)] by blast
  have e: "list_all (\<lambda>k. field r k = map_of base k)
      [''traceId'', ''actorId'', ''sessionId'', ''commandId'', ''principalId'']"
    by (simp add: assms(3) receipt_fields_get b)
  have o1: "field r ''occurredAt'' = map_of base ''occurredAt''"
    using b(11) by (auto simp: assms(3) receipt_fields_get is_iso_timestamp_def split: option.splits)
  have o2: "field r k = map_of base k" if "k \<in> {''intentId'', ''revision'', ''correlationId'', ''idempotencyKey''}" for k
    using that assms(10) by (auto simp: assms(3) receipt_fields_get split: option.splits)
  have o3: "field r k = None" if "k \<in> {''attempt'', ''checkpointId'', ''effectId'', ''effectAttemptId'', ''provider'', ''causationId''}" for k
    using that assms(10) b(16) by (auto simp: assms(3) receipt_fields_get receipt_own_keys_def split: option.splits)
  have ids: "is_non_empty_string (field r ''receiptId'')" "is_non_empty_string (field r ''recordId'')"
    "is_finite_number (field r ''sequence'')"
    using b(16) blank_colon by (simp_all add: assms(3) receipt_fields_get receipt_own_keys_def)
  have "receipt_base_shape dp (base_head base) r"
    using b e o1 ids assms(4-8) matching_self
    by (simp add: receipt_base_shape_def o2 o3 base_head_def text_field_def matching_optional_def optional_text_def optional_number_def)
  then show ?thesis
    using assms(2,5,7,9) o2 o3 b by (simp add: receipt_shape_def one_of_def optional_text_def)
qed

lemma known_kind_shape:
  "map_of kind_shapes ''command_admission'' = Some admission_shape"
  "map_of kind_shapes ''authorization'' = Some authorization_shape"
  by (simp_all add: kind_shapes_def)

lemma admission_receipt_shape:
  assumes b: "good_base dp base" and o: "outcome \<in> {''admitted'', ''rejected''}"
    and st: "stage \<in> {''schema-admitted'', ''execution-authorized''}"
  shows "receipt_shape dp (base_head base) (decision_admission base stage outcome)"
proof -
  have own: "map_of base ''receiptKind'' = None" "map_of base ''status'' = None" "map_of base ''version'' = None"
    "map_of base ''admissionStage'' = None" "map_of base ''admission'' = None"
    using own_absent [OF b] by (simp_all add: receipt_own_keys_def)
  let ?r = "decision_admission base stage outcome"
  have g: "field ?r ''receiptKind'' = Some (JString ''command_admission'')" "field ?r ''status'' = Some (JString ''observed'')"
    "field ?r ''admissionStage'' = Some (JString stage)"
    "field ?r ''admission'' = Some (JObject
       [(''discovery'', JString ''descriptive_only''), (''outcome'', JString outcome), (''rechecked'', admission_rechecks)])"
    by (simp_all add: decision_admission_get [OF own(1-3)] receipt_fields_get own(4,5))
  have "kind_shape ?r"
    using o st rechecks_known
    by (auto simp: kind_shape_def g known_kind_shape admission_shape_def status_is_def known_admission_stage_def one_of_def sub_def
        admission_rechecks_def)
  moreover have "is_record ?r" by (simp add: decision_admission_def admission_receipt_def stamped_def normalize_receipt_def)
  moreover have "field ?r k = map_of (receipt_fields base ''admission'' 1 [(''admissionStage'', JString stage), (''admission'', JObject
       [(''discovery'', JString ''descriptive_only''), (''outcome'', JString outcome), (''rechecked'', admission_rechecks)])]) k"
    if "k \<notin> {''version'', ''receiptKind'', ''status'', ''admissionStage''}" for k
    using that by (simp only: decision_admission_get [OF own(1-3)] insert_iff de_Morgan_disj if_False)
  ultimately show ?thesis
    by (intro base_receipt_shape [OF b _ _ g(1,2)]) (assumption | simp add: blank_def js_space_def known_statuses_def)+
qed

lemma authorization_receipt_shape:
  assumes b: "good_base dp base" and p: "is_record dp1" "field dp1 ''id'' = map_of base ''principalId''" and pol: "\<not> blank policy"
  shows "receipt_shape dp (base_head base)
    (authorized_receipt (receipt_fields base ''authorization'' 2 (authorization_fields dp1 policy)))"
proof -
  obtain s where s: "map_of base ''principalId'' = Some (JString s)" "\<not> blank s"
    using good_base_text [OF b, of "''principalId''"] by auto
  have own: "map_of base ''principal'' = None" "map_of base ''authorization'' = None"
    using own_absent [OF b] by (simp_all add: receipt_own_keys_def)
  let ?r = "authorized_receipt (receipt_fields base ''authorization'' 2 (authorization_fields dp1 policy))"
  note get = authorized_receipt_get [OF s(1)]
  have g: "field ?r ''receiptKind'' = Some (JString ''authorization'')" "field ?r ''status'' = Some (JString ''authorized'')"
    "field ?r ''admissionStage'' = Some (JString ''execution-authorized'')" "field ?r ''principalId'' = Some (JString s)"
    "field ?r ''principal'' = Some dp1"
    "field ?r ''authorization'' = Some (JObject [(''policy'', JString policy), (''decision'', JString ''approved'')])"
    by (simp_all add: get receipt_fields_get own s(1) authorization_fields_def)
  have "is_json_object (Some dp1)" using p(1) by (cases dp1) auto
  then have "kind_shape ?r"
    using p(2) pol s
    by (simp add: kind_shape_def g known_kind_shape authorization_shape_def status_is_def one_of_def sub_def)
  moreover have "is_record ?r" by (simp add: authorized_receipt_def stamped_def normalize_receipt_def)
  moreover have "field ?r k = map_of (receipt_fields base ''authorization'' 2 (authorization_fields dp1 policy)) k"
    if "k \<notin> {''version'', ''receiptKind'', ''status'', ''admissionStage''}" for k
    using that by (simp only: get insert_iff de_Morgan_disj if_False)
  ultimately show ?thesis
    by (intro base_receipt_shape [OF b _ _ g(1,2)])
      (assumption | simp add: blank_def js_space_def known_statuses_def authorization_fields_def)+
qed

section \<open>An admitted command starts a valid trace\<close>

lemma decision_trace_get:
  "good_base dp base \<Longrightarrow> field (decision_trace base r1 r2) k =
     (if k = ''version'' then Some contract_version else if k = ''receipts'' then Some (JArray [r1, r2]) else map_of base k)"
  by (auto simp: decision_trace_def map_add_def own_absent receipt_own_keys_def split: option.split)

lemma decision_parses:
  assumes b: "good_base dp base" and s: "receipt_shape dp (base_head base) r1" "receipt_shape dp (base_head base) r2"
    and q: "field r1 ''sequence'' = Some (JNumber 1)" "field r2 ''sequence'' = Some (JNumber 2)"
    and st: "text_field r1 ''status'' = ''observed''" "text_field r2 ''status'' = ''authorized''"
  shows "\<exists>t. parse_trace dp c (decision_trace base r1 r2) = Inr t \<and> at_status t = ''authorized'' \<and> at_receipts t = [r1, r2]"
proof -
  let ?v = "decision_trace base r1 r2"
  note get = decision_trace_get [OF b, of r1 r2]
  have own: "map_of base ''schemaVersion'' = None" "map_of base ''attempt'' = None" "map_of base ''checkpointId'' = None"
    using own_absent [OF b] by (simp_all add: receipt_own_keys_def)
  have h: "\<lparr>th_trace_id = text_field ?v ''traceId'', th_actor_id = text_field ?v ''actorId'',
                          th_session_id = text_field ?v ''sessionId'', th_command_id = text_field ?v ''commandId'',
                          th_intent_id = text_value (field ?v ''intentId''), th_principal_id = text_value (field ?v ''principalId''),
                          th_attempt = number_value (field ?v ''attempt''), th_revision = number_value (field ?v ''revision''),
                          th_checkpoint_id = text_value (field ?v ''checkpointId'')\<rparr> = base_head base"
    by (simp add: base_head_def text_field_def get own)
  let ?t = "create_trace dp c (base_head base) (field ?v ''correlationId'') (field ?v ''causationId'') [r1, r2]"
  have srt: "sort_by (compare_receipts dp c) [r1, r2] = [r1, r2]"
    by (rule sort_ordered) (simp add: compare_receipts_def q)
  have rs: "at_receipts ?t = [r1, r2]" "at_status ?t = ''authorized''"
    by (simp_all add: create_trace_fields srt derive_trace_status_def st)
  have v: "validate_trace ?t = None"
    by (simp add: validate_trace_def rs is_terminal_def st)
  obtain t a s1 c1 p where f: "map_of base ''traceId'' = Some (JString t)" "map_of base ''actorId'' = Some (JString a)"
    "map_of base ''sessionId'' = Some (JString s1)" "map_of base ''commandId'' = Some (JString c1)"
    "map_of base ''principalId'' = Some (JString p)" "\<not> blank t" "\<not> blank a" "\<not> blank s1" "\<not> blank c1" "\<not> blank p"
    "optional_text (map_of base ''intentId'')" "optional_number (map_of base ''revision'')"
    by (rule good_base_facts [OF b]) (erule (11) that)
  have on: "optional_text None" "optional_number None" "optional_text (Some (JString p))"
    using f(10) by (simp_all add: optional_text_def optional_number_def)
  have rec: "is_record ?v" by (simp add: decision_trace_def)
  have chk: "nullish (field ?v ''schemaVersion'')" "field ?v ''version'' = Some contract_version"
    "is_non_empty_string (field ?v ''traceId'')" "is_non_empty_string (field ?v ''actorId'')"
    "is_non_empty_string (field ?v ''sessionId'')" "is_non_empty_string (field ?v ''commandId'')"
    "optional_text (field ?v ''intentId'')" "optional_text (field ?v ''principalId'')" "optional_number (field ?v ''attempt'')"
    "optional_number (field ?v ''revision'')" "optional_text (field ?v ''checkpointId'')"
    "field ?v ''receipts'' = Some (JArray [r1, r2])"
    by (simp_all add: get own f on nullish_def)
  have "parse_trace dp c ?v = Inr ?t"
    unfolding parse_trace_def chk(12) option.case json.case Let_def h
    by (simp only: rec chk(1-11) v option.case simp_thms if_True if_False list.pred_inject s)
  then show ?thesis using rs by blast
qed

lemma all_dropWhile: "list_all P (dropWhile P xs) = list_all P xs"
  by (induction xs) auto

lemma blank_trim [simp]: "blank (trim s) = blank s"
  by (simp add: blank_def trim_def all_dropWhile)

lemma command_id_text: "\<not> blank (fst (command_id v now n))"
proof (cases "is_non_empty_string (meta_field v ''commandId'')")
  case True
  then show ?thesis by (auto simp: command_id_def non_empty_text)
next
  case False
  have "\<not> blank (''command:'' @ x)" for x by (simp add: blank_def js_space_def)
  then show ?thesis using False by (simp add: command_id_def fallback_command_id_def)
qed

lemma decided_get:
  "field (decided_metadata now i n) ''commandId'' =
     Some (JString (fst (command_id (ai_metadata i) now (snd (fallback_metadata (ai_metadata i) now n)))))"
  "field (decided_metadata now i n) ''intentId'' = meta_field (ai_metadata i) ''intentId''"
  "field (decided_metadata now i n) ''correlationId'' = meta_field (ai_metadata i) ''correlationId''"
  "field (decided_metadata now i n) ''revision'' = meta_field (ai_metadata i) ''revision''"
  "field (decided_metadata now i n) ''idempotencyKey'' = meta_field (ai_metadata i) ''idempotencyKey''"
  by (simp_all add: decided_metadata_def to_command_metadata_def split_beta Let_def map_add_def split: option.split)

lemma or_else_none: "or_else x y = None \<longleftrightarrow> x = None \<and> y = None"
  by (simp add: or_else_def split: option.split)

lemma input_principal_record: "is_record (input_principal i)"
  by (simp add: input_principal_def)

lemma raw_key_text: "validate_raw_metadata v = None \<Longrightarrow> optional_text (meta_field v ''idempotencyKey'')"
  by (auto simp: validate_raw_metadata_def meta_field_def optional_text_def split: option.splits if_splits)

lemma natural_number_text: "is_natural_number v \<Longrightarrow> optional_number (Some v)"
  by (cases v) (simp_all add: optional_number_def)

lemma valid_principal_id: "validate_principal p = None \<Longrightarrow> is_non_empty_string (field p ''id'')"
  by (simp add: validate_principal_def split: if_splits)

lemma valid_metadata_fields:
  assumes "validate_metadata m = None"
  shows "optional_text (field m ''intentId'')" "optional_text (field m ''correlationId'')" "optional_number (field m ''revision'')"
proof -
  show "optional_text (field m ''intentId'')" "optional_text (field m ''correlationId'')"
    using assms by (simp_all add: validate_metadata_def split: if_splits)
  show "optional_number (field m ''revision'')"
    using assms natural_number_text by (simp add: validate_metadata_def optional_number_def split: if_splits option.splits)
qed

lemma optional_if: "optional_text v \<Longrightarrow> optional_text (if b then v else None)"
  by (simp add: optional_text_def)

lemma valid_base:
  assumes "inputs_valid dp now i n" "\<not> blank (ai_actor_id i)" "\<not> blank (ai_session_id i)" "dp (fst now) \<noteq> None" "\<not> blank (fst now)"
  shows "good_base dp (trace_base i (input_principal i) (decided_metadata now i n) (fst now))"
proof -
  let ?m = "decided_metadata now i n" and ?p = "input_principal i"
  have v: "validate_principal ?p = None" "validate_metadata ?m = None" "validate_raw_metadata (ai_metadata i) = None"
    using assms(1) by (simp_all add: inputs_valid_def validate_admission_def or_else_none)
  have c: "\<not> blank (text_field ?m ''commandId'')"
    by (simp add: text_field_def decided_get command_id_text)
  have t: "\<not> blank (''trace:'' @ x)" for x by (simp add: blank_def js_space_def)
  have nil: "list_all P []" for P :: "string \<Rightarrow> bool" by simp
  have k: "optional_text (field ?m ''idempotencyKey'')" using raw_key_text [OF v(3)] by (simp add: decided_get)
  have "list_all (\<lambda>k. is_non_empty_string (map_of (trace_base i ?p ?m (fst now)) k))
      [''traceId'', ''actorId'', ''sessionId'', ''commandId'', ''principalId'']"
    unfolding list.pred_inject trace_base_get is_non_empty_string.simps
    using assms(2,3) c t valid_principal_id [OF v(1)] nil by blast
  moreover have "is_iso_timestamp dp (map_of (trace_base i ?p ?m (fst now)) ''occurredAt'')"
    unfolding trace_base_get using assms(4,5) by (simp add: is_iso_timestamp_def)
  moreover have "list_all (\<lambda>k. optional_text (map_of (trace_base i ?p ?m (fst now)) k)) [''intentId'', ''correlationId'', ''idempotencyKey'']"
    unfolding list.pred_inject trace_base_get
    using valid_metadata_fields(1,2) [OF v(2)] k optional_if nil by blast
  moreover have "optional_number (map_of (trace_base i ?p ?m (fst now)) ''revision'')"
    unfolding trace_base_get by (rule valid_metadata_fields(3) [OF v(2)])
  ultimately show ?thesis using trace_base_own by (simp add: good_base_def)
qed


lemma redact_record: "is_record p \<Longrightarrow> is_record (redact p)"
  by (cases p) auto

lemma redact_id: "is_non_empty_string (field p ''id'') \<Longrightarrow> field (redact p) ''id'' = field p ''id''"
  by (auto simp: redact_field non_empty_text)

lemma admit_claim_receipts:
  assumes "claim_allows i ctx m"
  shows "\<exists>c. fst (admit_claim i ctx p m base d) = authorize_with p m base d c"
  using assms
  by (auto simp: admit_claim_def claim_allows_def Let_def valid_claim_result_def split: option.splits claim_answer.splits)

lemma admit_policy_receipts:
  assumes "policy_allows i ctx" "claim_allows i ctx m"
  shows "\<exists>d c. fst (admit_policy i ctx p m base) = authorize_with p m base d c \<and> \<not> blank (text_field d ''policy'')"
proof -
  have a: "\<exists>d c. fst (after_policy i ctx p m base a) = authorize_with p m base d c \<and> \<not> blank (text_field d ''policy'')"
    if allows: "answer_allows a" for a
  proof -
    obtain d where d: "a = Policy_returns d" "is_record d" "field d ''outcome'' = Some (JString ''authorized'')"
      "is_non_empty_string (field d ''policy'')"
      using allows by (auto simp: answer_allows_def split: policy_answer.splits)
    have "\<not> blank (text_field d ''policy'')" using d(4) by (auto simp: non_empty_text text_field_def)
    moreover have "after_policy i ctx p m base a = admit_claim i ctx p m base d"
      using d by (simp add: after_policy_def valid_policy_decision_def)
    ultimately show ?thesis using admit_claim_receipts [OF assms(2)] by metis
  qed
  show ?thesis
  proof (cases "ai_policy i")
    case None
    then show ?thesis using assms(1) a [OF legacy_allows] by (simp add: admit_policy_def policy_allows_def)
  next
    case (Some f)
    then show ?thesis using assms(1) a [of "f ctx"] by (simp add: admit_policy_def policy_allows_answer split_beta Let_def)
  qed
qed

text \<open>
  Every admitted command starts a valid trace: its two receipts, the admission and the
  authorization of the redacted principal, have the shapes of their kinds, agree with the identity of
  the decision, and the trace they form is accepted by \<open>parseAgentExecutionTrace\<close> with the status
  authorized. (\<open>now().toISOString()\<close> gives a text that \<open>Date.parse\<close> reads.)\<close>

theorem admitted_trace_valid:
  "\<not> blank (ai_actor_id i) \<Longrightarrow> \<not> blank (ai_session_id i) \<Longrightarrow> \<not> blank (fst now) \<Longrightarrow> dp (fst now) \<noteq> None \<Longrightarrow>
   ad_ok (fst (fst (admit_command dp now i n))) \<Longrightarrow>
   \<exists>auth t. ad_authorization (fst (fst (admit_command dp now i n))) = Some auth
     \<and> parse_trace dp c (decision_trace (trace_base i (input_principal i) (decided_metadata now i n) (fst now))
         (ad_admission (fst (fst (admit_command dp now i n)))) auth) = Inr t
     \<and> at_status t = ''authorized'' \<and> at_receipts t = [ad_admission (fst (fst (admit_command dp now i n))), auth]"
proof -
  assume a: "\<not> blank (ai_actor_id i)" "\<not> blank (ai_session_id i)" "\<not> blank (fst now)" "dp (fst now) \<noteq> None"
    "ad_ok (fst (fst (admit_command dp now i n)))"
  let ?p = "input_principal i" and ?m = "decided_metadata now i n" and ?ctx = "decision_context now i n"
  let ?base = "trace_base i ?p ?m (fst now)"
  have v: "inputs_valid dp now i n" using a(5) admit_invalid(1) by blast
  note cmd = admit_valid [OF v]
  have al: "policy_allows i ?ctx" "claim_allows i ?ctx ?m"
    using a(5) by (simp_all add: cmd admit_policy_exact)
  obtain d cl where d: "fst (admit_policy i ?ctx (redact ?p) ?m ?base) = authorize_with (redact ?p) ?m ?base d cl"
    "\<not> blank (text_field d ''policy'')"
    using admit_policy_receipts [OF al] by blast
  have b: "good_base dp ?base" by (rule valid_base [OF v a(1,2,4,3)])
  have vp: "is_non_empty_string (field ?p ''id'')"
    using v valid_principal_id by (simp add: inputs_valid_def validate_admission_def or_else_none)
  let ?r1 = "decision_admission ?base ''execution-authorized'' ''admitted''"
  let ?r2 = "authorized_receipt (receipt_fields ?base ''authorization'' 2 (authorization_fields (redact ?p) (text_field d ''policy'')))"
  have own: "map_of ?base ''receiptKind'' = None" "map_of ?base ''status'' = None" "map_of ?base ''version'' = None" "map_of ?base ''sequence'' = None"
    using own_absent [OF b] by (simp_all add: receipt_own_keys_def)
  obtain s where s: "map_of ?base ''principalId'' = Some (JString s)" using vp by (auto simp: trace_base_get non_empty_text)
  have s1: "receipt_shape dp (base_head ?base) ?r1" by (rule admission_receipt_shape [OF b]) simp_all
  have s2: "receipt_shape dp (base_head ?base) ?r2"
    by (rule authorization_receipt_shape [OF b redact_record [OF input_principal_record] _ d(2)])
      (simp add: redact_id [OF vp] trace_base_get)
  have "\<exists>t. parse_trace dp c (decision_trace ?base ?r1 ?r2) = Inr t \<and> at_status t = ''authorized'' \<and> at_receipts t = [?r1, ?r2]"
    by (rule decision_parses [OF b s1 s2])
      (simp_all add: decision_admission_get [OF own(1-3)] authorized_receipt_get [OF s] receipt_fields_get own(4) text_field_def)
  moreover have "ad_admission (fst (fst (admit_command dp now i n))) = ?r1" "ad_authorization (fst (fst (admit_command dp now i n))) = Some ?r2"
    by (simp_all add: cmd d(1) authorize_with_def authorization_fields_def)
  ultimately show ?thesis by metis
qed

definition sample_admission :: admission_input where
  "sample_admission =
     \<lparr>ai_actor_id = ''a'', ai_session_id = ''s'', ai_kind = ''command'', ai_message = JObject [(''type'', JString ''GO'')],
      ai_principal = JObject [(''id'', JString ''p''), (''kind'', JString ''local'')], ai_metadata = None, ai_policy = None,
      ai_require_policy = False, ai_idempotency = None\<rparr>"

lemma sample_admitted: "ad_ok (fst (fst (admit_command (\<lambda>s. Some 0) (''now'', 0) sample_admission 0)))"
proof -
  have "inputs_valid (\<lambda>s. Some 0) (''now'', 0) sample_admission 0"
    by (simp add: inputs_valid_def validate_container_def validate_raw_metadata_def metadata_input_def sample_admission_def
        validate_admission_def or_else_none validate_message_def validate_principal_def validate_metadata_def validate_approval_def
        decided_get [unfolded sample_admission_def] sub_def one_of_def optional_text_def blank_def js_space_def input_message_def
        input_principal_def should_redact_key_def lower_char_def meta_field_def decided_metadata_def to_command_metadata_def
        command_id_def fallback_command_id_def fallback_metadata_def opt_field_def)
  then show ?thesis
    by (simp add: admit_valid admit_policy_exact policy_allows_def claim_allows_def decided_get(5) meta_field_def metadata_input_def)
      (simp add: sample_admission_def decided_get(5) meta_field_def metadata_input_def)
qed

theorem admitted_trace_valid_witness:
  "\<exists>auth t. ad_authorization (fst (fst (admit_command (\<lambda>s. Some 0) (''now'', 0) sample_admission 0))) = Some auth
     \<and> parse_trace (\<lambda>s. Some 0) code_unit_collator
         (decision_trace (trace_base sample_admission (input_principal sample_admission) (decided_metadata (''now'', 0) sample_admission 0) ''now'')
           (ad_admission (fst (fst (admit_command (\<lambda>s. Some 0) (''now'', 0) sample_admission 0)))) auth) = Inr t
     \<and> at_status t = ''authorized''"
  using admitted_trace_valid [OF _ _ _ _ sample_admitted, of code_unit_collator]
  by (force simp: sample_admission_def blank_def js_space_def)

section \<open>Rejections without a principal\<close>

text \<open>
  A command without a principal is rejected with receipts whose \<open>principalId\<close> is empty; the
  validators of the same file accept no such receipt, so the rejection cannot be read back.\<close>

lemma rejection_without_principal:
  assumes "\<not> is_record (ai_principal i)" "p = input_principal i"
  shows "\<not> receipt_shape dp h (decision_admission (trace_base i p m o1) stage outcome)"
proof -
  let ?b = "trace_base i p m o1"
  have own: "map_of ?b ''receiptKind'' = None" "map_of ?b ''status'' = None" "map_of ?b ''version'' = None"
    using trace_base_own [of i p m o1] by (simp_all add: receipt_own_keys_def)
  have idf: "field p ''id'' = Some (JString [])" using assms by (simp add: input_principal_def)
  have "field (decision_admission ?b stage outcome) ''principalId'' = Some (JString [])"
    using idf by (simp add: decision_admission_get [OF own] receipt_fields_get trace_base_get)
  then show ?thesis by (simp add: receipt_shape_def receipt_base_shape_def optional_text_def)
qed

end
