(* ===== verification/Checkpoint_Store.thy ===== *)
theory Checkpoint_Store
  imports Json_Values
begin

text \<open>
  Checkpoints of agent sessions, \<open>agent-session-checkpoint-store.ts\<close>: the validators of an envelope,
  building and parsing it, the classification of what a store holds, the in-memory store and the
  decision whether a session may resume. Date parsing, ISO formatting and the byte length of the
  JSON text are arguments. Texts are lists of characters below 256, which \<open>encodeURIComponent\<close>
  never refuses; every JSON value of the model is JSON-safe, so clones are the identity.
\<close>

section \<open>Data\<close>

record checkpoint_host =
  hs_parse :: "string \<Rightarrow> int option"    \<comment> \<open>\<open>Date.parse\<close>, \<open>None\<close> for NaN\<close>
  hs_iso :: "int \<Rightarrow> string"               \<comment> \<open>\<open>toISOString\<close>\<close>
  hs_bytes :: "json \<Rightarrow> nat"               \<comment> \<open>bytes of \<open>JSON.stringify\<close>\<close>

record actor_identity =
  ai_actor :: string
  ai_session :: string
  ai_turn :: string
  ai_trace :: string
  ai_command :: string
  ai_correlation :: string
  ai_causation :: string

datatype effect_phase = No_effect | Intent_recorded | Receipt_recorded | Reconciliation_required

record effect_state =
  es_effect_id :: string
  es_attempt_id :: string
  es_phase :: effect_phase
  es_irreversible :: bool
  es_intent :: "json option"
  es_receipt :: "json option"

datatype disposition = Not_redacted | Metadata_only

text \<open>The payload \<open>null\<close> is \<open>JNull\<close>; \<open>expiresAt\<close> may be absent, \<open>null\<close> or a text.\<close>

record continuation =
  cn_provider :: string
  cn_adapter :: string
  cn_format :: rat
  cn_payload :: json
  cn_payload_bytes :: rat
  cn_expires_at :: "string option option"
  cn_disposition :: disposition
  cn_fields :: "string list"

datatype reconciliation_status = Rec_clear | Rec_pending | Rec_required

record reconciliation =
  rc_status :: reconciliation_status
  rc_reason :: "string option"

record checkpoint_envelope =
  ck_session :: string
  ck_checkpoint :: string
  ck_actor :: actor_identity
  ck_deterministic :: json
  ck_effect :: "effect_state option"
  ck_continuation :: "continuation option"
  ck_reconciliation :: reconciliation
  ck_recorded_at :: string
  ck_expires_at :: "string option"
  ck_stale_at :: "string option"
  ck_redacted :: "string list"
  ck_metadata :: "json option"

section \<open>Validators\<close>

definition is_digit :: "char \<Rightarrow> bool" where
  "is_digit c \<longleftrightarrow> (48 :: nat) \<le> of_char c \<and> of_char c \<le> (57 :: nat)"

text \<open>The pattern of \<open>isIsoDateString\<close>: digits at \<open>d\<close>, the character itself elsewhere.\<close>

definition iso_pattern :: string where "iso_pattern = ''dddd-dd-ddTdd:dd:dd.dddZ''"

definition matches_iso :: "string \<Rightarrow> bool" where
  "matches_iso s \<longleftrightarrow> list_all2 (\<lambda>p c. if p = CHR ''d'' then is_digit c else c = p) iso_pattern s"

fun is_iso_date :: "checkpoint_host \<Rightarrow> json option \<Rightarrow> bool" where
  "is_iso_date hs (Some (JString s)) =
     (\<not> blank s \<and> matches_iso s \<and> (case hs_parse hs s of None \<Rightarrow> False | Some t \<Rightarrow> hs_iso hs t = s))"
| "is_iso_date hs _ = False"

definition optional_iso_date :: "checkpoint_host \<Rightarrow> json option \<Rightarrow> bool" where
  "optional_iso_date hs v \<longleftrightarrow> v = None \<or> v = Some JNull \<or> is_iso_date hs v"

definition truthy_object :: "json option \<Rightarrow> bool" where
  "truthy_object v \<longleftrightarrow> is_json_object v \<or> is_array v"

definition identity_keys :: "string list" where
  "identity_keys = [''actorId'', ''sessionId'', ''turnId'', ''traceId'', ''commandId'', ''correlationId'', ''causationId'']"

fun is_valid_identity :: "json option \<Rightarrow> bool" where
  "is_valid_identity (Some v) = (truthy_object (Some v) \<and> list_all (\<lambda>k. is_non_empty_string (field v k)) identity_keys)"
| "is_valid_identity None = False"

fun phase_of :: "json option \<Rightarrow> effect_phase option" where
  "phase_of (Some (JString s)) =
     (if s = ''none'' then Some No_effect else if s = ''intent_recorded'' then Some Intent_recorded
      else if s = ''receipt_recorded'' then Some Receipt_recorded
      else if s = ''reconciliation_required'' then Some Reconciliation_required else None)"
| "phase_of _ = None"

fun is_valid_effect :: "json option \<Rightarrow> bool" where
  "is_valid_effect (Some JNull) = True"
| "is_valid_effect (Some v) =
     (truthy_object (Some v) \<and> is_non_empty_string (field v ''effectId'') \<and> is_non_empty_string (field v ''effectAttemptId'')
      \<and> phase_of (field v ''phase'') \<noteq> None \<and> is_boolean (field v ''irreversible''))"
| "is_valid_effect None = False"

fun integer_from :: "int \<Rightarrow> json option \<Rightarrow> bool" where
  "integer_from low (Some (JNumber r)) = (snd (quotient_of r) = 1 \<and> of_int low \<le> r)"
| "integer_from low _ = False"

fun is_string_array :: "json option \<Rightarrow> bool" where
  "is_string_array (Some (JArray xs)) = list_all (\<lambda>x. is_non_empty_string (Some x)) xs"
| "is_string_array _ = False"

fun disposition_of :: "json option \<Rightarrow> disposition option" where
  "disposition_of (Some (JString s)) =
     (if s = ''none'' then Some Not_redacted else if s = ''metadata_only'' then Some Metadata_only else None)"
| "disposition_of _ = None"

definition subfield :: "json \<Rightarrow> string \<Rightarrow> string \<Rightarrow> json option" where
  "subfield v k k' = (case field v k of None \<Rightarrow> None | Some w \<Rightarrow> field w k')"

definition payload_bytes :: "checkpoint_host \<Rightarrow> json \<Rightarrow> nat" where
  "payload_bytes hs v = (if v = JNull then 0 else hs_bytes hs v)"

fun is_valid_continuation :: "checkpoint_host \<Rightarrow> json option \<Rightarrow> bool" where
  "is_valid_continuation hs (Some JNull) = True"
| "is_valid_continuation hs (Some v) =
     (truthy_object (Some v) \<and> is_non_empty_string (field v ''provider'') \<and> is_non_empty_string (field v ''adapter'')
      \<and> integer_from 1 (field v ''formatVersion'') \<and> field v ''payload'' \<noteq> None \<and> integer_from 0 (field v ''payloadBytes'')
      \<and> optional_iso_date hs (field v ''expiresAt'') \<and> truthy_object (field v ''redaction'')
      \<and> disposition_of (subfield v ''redaction'' ''disposition'') \<noteq> None \<and> is_string_array (subfield v ''redaction'' ''fields'')
      \<and> (if disposition_of (subfield v ''redaction'' ''disposition'') = Some Metadata_only then field v ''payload'' = Some JNull
         else (case field v ''payload'' of
                 None \<Rightarrow> False | Some p \<Rightarrow> field v ''payloadBytes'' = Some (JNumber (of_nat (payload_bytes hs p))))))"
| "is_valid_continuation hs None = False"

fun status_of :: "json option \<Rightarrow> reconciliation_status option" where
  "status_of (Some (JString s)) =
     (if s = ''clear'' then Some Rec_clear else if s = ''pending'' then Some Rec_pending
      else if s = ''required'' then Some Rec_required else None)"
| "status_of _ = None"

fun is_valid_reconciliation :: "json option \<Rightarrow> bool" where
  "is_valid_reconciliation (Some v) =
     (truthy_object (Some v) \<and> status_of (field v ''status'') \<noteq> None
      \<and> (field v ''reason'' = None \<or> is_non_empty_string (field v ''reason'')))"
| "is_valid_reconciliation None = False"

section \<open>Envelopes\<close>

definition text_of :: "json option \<Rightarrow> string" where
  "text_of v = (case text_value v of None \<Rightarrow> [] | Some s \<Rightarrow> s)"

definition texts_of :: "json option \<Rightarrow> string list" where
  "texts_of v = (case v of Some (JArray xs) \<Rightarrow> map (\<lambda>x. text_of (Some x)) xs | _ \<Rightarrow> [])"

definition number_of :: "json option \<Rightarrow> rat" where
  "number_of v = (case number_value v of None \<Rightarrow> 0 | Some r \<Rightarrow> r)"

definition clone_identity :: "json \<Rightarrow> actor_identity" where
  "clone_identity v =
     \<lparr>ai_actor = text_of (field v ''actorId''), ai_session = text_of (field v ''sessionId''), ai_turn = text_of (field v ''turnId''),
      ai_trace = text_of (field v ''traceId''), ai_command = text_of (field v ''commandId''),
      ai_correlation = text_of (field v ''correlationId''), ai_causation = text_of (field v ''causationId'')\<rparr>"

definition clone_effect :: "json \<Rightarrow> effect_state option" where
  "clone_effect v =
     (if v = JNull then None
      else Some \<lparr>es_effect_id = text_of (field v ''effectId''), es_attempt_id = text_of (field v ''effectAttemptId''),
        es_phase = (case phase_of (field v ''phase'') of Some p \<Rightarrow> p | None \<Rightarrow> No_effect),
        es_irreversible = (field v ''irreversible'' = Some (JBool True)),
        es_intent = field v ''intent'', es_receipt = field v ''receipt''\<rparr>)"

definition nullable_text :: "json option \<Rightarrow> string option option" where
  "nullable_text v = (case v of None \<Rightarrow> None | Some (JString s) \<Rightarrow> Some (Some s) | _ \<Rightarrow> Some None)"

definition clone_continuation :: "json \<Rightarrow> continuation option" where
  "clone_continuation v =
     (if v = JNull then None
      else Some \<lparr>cn_provider = text_of (field v ''provider''), cn_adapter = text_of (field v ''adapter''),
        cn_format = number_of (field v ''formatVersion''),
        cn_payload = (case field v ''payload'' of None \<Rightarrow> JNull | Some p \<Rightarrow> p),
        cn_payload_bytes = number_of (field v ''payloadBytes''), cn_expires_at = nullable_text (field v ''expiresAt''),
        cn_disposition = (case disposition_of (subfield v ''redaction'' ''disposition'') of Some d \<Rightarrow> d | None \<Rightarrow> Not_redacted),
        cn_fields = texts_of (subfield v ''redaction'' ''fields'')\<rparr>)"

definition clone_reconciliation :: "json \<Rightarrow> reconciliation" where
  "clone_reconciliation v =
     \<lparr>rc_status = (case status_of (field v ''status'') of Some s \<Rightarrow> s | None \<Rightarrow> Rec_clear), rc_reason = text_value (field v ''reason'')\<rparr>"

definition object_at :: "json \<Rightarrow> string \<Rightarrow> json" where
  "object_at v k = (case field v k of None \<Rightarrow> JNull | Some w \<Rightarrow> w)"

definition normalize_envelope :: "json \<Rightarrow> checkpoint_envelope" where
  "normalize_envelope v =
     \<lparr>ck_session = text_of (field v ''sessionId''), ck_checkpoint = text_of (field v ''checkpointId''),
      ck_actor = clone_identity (object_at v ''actor''), ck_deterministic = object_at v ''deterministic'',
      ck_effect = clone_effect (object_at v ''effect''), ck_continuation = clone_continuation (object_at v ''continuation''),
      ck_reconciliation = clone_reconciliation (object_at v ''reconciliation''), ck_recorded_at = text_of (field v ''recordedAt''),
      ck_expires_at = text_value (field v ''expiresAt''), ck_stale_at = text_value (field v ''staleAt''),
      ck_redacted = texts_of (field v ''redactedFields''), ck_metadata = field v ''metadata''\<rparr>"

text \<open>The checks of \<open>createAgentSessionCheckpointEnvelope\<close>, each with what it throws.\<close>

definition create_checks :: "checkpoint_host \<Rightarrow> json \<Rightarrow> (bool \<times> string) list" where
  "create_checks hs v =
     [(is_non_empty_string (field v ''sessionId''), ''Agent session checkpoint requires a non-empty sessionId.''),
      (is_non_empty_string (field v ''checkpointId''), ''Agent session checkpoint requires a non-empty checkpointId.''),
      (is_valid_identity (field v ''actor''), ''Agent session checkpoint actor identity is invalid.''),
      (subfield v ''actor'' ''sessionId'' = field v ''sessionId'', ''Actor sessionId must match the checkpoint sessionId.''),
      (is_valid_effect (field v ''effect''), ''Agent session checkpoint effect state is invalid.''),
      (is_valid_continuation hs (field v ''continuation''), ''Agent session checkpoint continuation is invalid.''),
      (is_valid_reconciliation (field v ''reconciliation''), ''Agent session checkpoint reconciliation state is invalid.''),
      (field v ''redactedFields'' = None \<or> is_string_array (field v ''redactedFields''),
         ''Agent session checkpoint redactedFields are invalid.''),
      (is_iso_date hs (field v ''recordedAt''), ''Agent session checkpoint recordedAt must be an ISO timestamp.''),
      (optional_iso_date hs (field v ''expiresAt''), ''Agent session checkpoint expiresAt must be an ISO timestamp when provided.''),
      (optional_iso_date hs (field v ''staleAt''), ''Agent session checkpoint staleAt must be an ISO timestamp when provided.''),
      (field v ''deterministic'' \<noteq> None, ''Agent session checkpoint deterministic state must be JSON-safe.'')]"

fun first_failure :: "(bool \<times> string) list \<Rightarrow> string option" where
  "first_failure [] = None"
| "first_failure ((ok, e) # cs) = (if ok then first_failure cs else Some e)"

definition create_envelope :: "checkpoint_host \<Rightarrow> json \<Rightarrow> string + checkpoint_envelope" where
  "create_envelope hs v = (case first_failure (create_checks hs v) of Some e \<Rightarrow> Inl e | None \<Rightarrow> Inr (normalize_envelope v))"

datatype parse_error = Corrupt | Version_mismatch "rat option"

definition parse_envelope :: "checkpoint_host \<Rightarrow> json \<Rightarrow> parse_error + checkpoint_envelope" where
  "parse_envelope hs v =
     (if \<not> truthy_object (Some v) then Inl Corrupt
      else if field v ''schemaVersion'' \<noteq> Some (JNumber 1) then Inl (Version_mismatch (number_value (field v ''schemaVersion'')))
      else if \<not> is_non_empty_string (field v ''sessionId'') \<or> \<not> is_non_empty_string (field v ''checkpointId'')
           \<or> \<not> is_valid_identity (field v ''actor'') \<or> subfield v ''actor'' ''sessionId'' \<noteq> field v ''sessionId''
           \<or> field v ''deterministic'' = None \<or> \<not> is_valid_effect (field v ''effect'')
           \<or> \<not> is_valid_continuation hs (field v ''continuation'') \<or> \<not> is_valid_reconciliation (field v ''reconciliation'')
           \<or> \<not> is_iso_date hs (field v ''recordedAt'') \<or> \<not> optional_iso_date hs (field v ''expiresAt'')
           \<or> \<not> optional_iso_date hs (field v ''staleAt'') \<or> \<not> is_string_array (field v ''redactedFields'')
      then Inl Corrupt
      else Inr (normalize_envelope v))"

section \<open>Serialized envelopes\<close>

text \<open>What \<open>JSON.stringify\<close> writes for an envelope and its parts.\<close>

definition optional_entry :: "string \<Rightarrow> json option \<Rightarrow> (string \<times> json) list" where
  "optional_entry k v = (case v of None \<Rightarrow> [] | Some j \<Rightarrow> [(k, j)])"

definition nullable :: "string option \<Rightarrow> json" where
  "nullable v = (case v of None \<Rightarrow> JNull | Some s \<Rightarrow> JString s)"

definition identity_json :: "actor_identity \<Rightarrow> json" where
  "identity_json a = JObject
     [(''actorId'', JString (ai_actor a)), (''sessionId'', JString (ai_session a)), (''turnId'', JString (ai_turn a)),
      (''traceId'', JString (ai_trace a)), (''commandId'', JString (ai_command a)), (''correlationId'', JString (ai_correlation a)),
      (''causationId'', JString (ai_causation a))]"

fun phase_text :: "effect_phase \<Rightarrow> string" where
  "phase_text No_effect = ''none''"
| "phase_text Intent_recorded = ''intent_recorded''"
| "phase_text Receipt_recorded = ''receipt_recorded''"
| "phase_text Reconciliation_required = ''reconciliation_required''"

definition effect_json :: "effect_state option \<Rightarrow> json" where
  "effect_json v =
     (case v of None \<Rightarrow> JNull
      | Some e \<Rightarrow> JObject
          ([(''effectId'', JString (es_effect_id e)), (''effectAttemptId'', JString (es_attempt_id e)),
            (''phase'', JString (phase_text (es_phase e))), (''irreversible'', JBool (es_irreversible e))]
           @ optional_entry ''intent'' (es_intent e) @ optional_entry ''receipt'' (es_receipt e)))"

fun disposition_text :: "disposition \<Rightarrow> string" where
  "disposition_text Not_redacted = ''none''"
| "disposition_text Metadata_only = ''metadata_only''"

definition continuation_json :: "continuation option \<Rightarrow> json" where
  "continuation_json v =
     (case v of None \<Rightarrow> JNull
      | Some c \<Rightarrow> JObject
          ([(''provider'', JString (cn_provider c)), (''adapter'', JString (cn_adapter c)), (''formatVersion'', JNumber (cn_format c)),
            (''payload'', cn_payload c), (''payloadBytes'', JNumber (cn_payload_bytes c))]
           @ optional_entry ''expiresAt'' (map_option nullable (cn_expires_at c))
           @ [(''redaction'', JObject [(''disposition'', JString (disposition_text (cn_disposition c))),
                (''fields'', JArray (map JString (cn_fields c)))])]))"

fun status_text :: "reconciliation_status \<Rightarrow> string" where
  "status_text Rec_clear = ''clear''"
| "status_text Rec_pending = ''pending''"
| "status_text Rec_required = ''required''"

definition reconciliation_json :: "reconciliation \<Rightarrow> json" where
  "reconciliation_json r = JObject ((''status'', JString (status_text (rc_status r))) # optional_entry ''reason'' (map_option JString (rc_reason r)))"

definition envelope_json :: "checkpoint_envelope \<Rightarrow> json" where
  "envelope_json e = JObject
     ([(''schemaVersion'', JNumber 1), (''sessionId'', JString (ck_session e)), (''checkpointId'', JString (ck_checkpoint e)),
       (''actor'', identity_json (ck_actor e)), (''deterministic'', ck_deterministic e), (''effect'', effect_json (ck_effect e)),
       (''continuation'', continuation_json (ck_continuation e)), (''reconciliation'', reconciliation_json (ck_reconciliation e)),
       (''recordedAt'', JString (ck_recorded_at e)), (''expiresAt'', nullable (ck_expires_at e)), (''staleAt'', nullable (ck_stale_at e)),
       (''redactedFields'', JArray (map JString (ck_redacted e)))]
      @ optional_entry ''metadata'' (ck_metadata e))"

section \<open>Reading a serialized envelope back\<close>

lemma optional_entry_get [simp]: "map_of (optional_entry k v) k' = (if k = k' then v else None)"
  by (simp add: optional_entry_def split: option.split)

lemma text_of_string [simp]: "text_of (Some (JString s)) = s" by (simp add: text_of_def)
lemma number_of_number [simp]: "number_of (Some (JNumber r)) = r" by (simp add: number_of_def)

lemma texts_of_strings [simp]: "texts_of (Some (JArray (map JString xs))) = xs"
  by (induction xs) (simp_all add: texts_of_def)

lemma phase_text_of [simp]: "phase_of (Some (JString (phase_text p))) = Some p" by (cases p) simp_all
lemma disposition_text_of [simp]: "disposition_of (Some (JString (disposition_text d))) = Some d" by (cases d) simp_all
lemma status_text_of [simp]: "status_of (Some (JString (status_text s))) = Some s" by (cases s) simp_all

declare phase_of.simps(1) [simp del] disposition_of.simps(1) [simp del] status_of.simps(1) [simp del]

lemma clone_identity_json [simp]: "clone_identity (identity_json a) = a"
  by (cases a) (simp add: clone_identity_def identity_json_def)

lemma clone_effect_json [simp]: "clone_effect (effect_json v) = v"
  by (cases v) (simp_all add: clone_effect_def effect_json_def map_add_def split: option.split)

lemma nullable_text_json [simp]: "nullable_text None = None" "nullable_text (Some (nullable x)) = Some x"
  by (simp_all add: nullable_text_def nullable_def split: option.split)

lemma text_value_nullable [simp]: "text_value (Some (nullable v)) = v" by (cases v) (simp_all add: nullable_def)
lemma text_value_string [simp]: "text_value (map_option JString v) = v" by (cases v) simp_all

lemma clone_continuation_json [simp]: "clone_continuation (continuation_json v) = v"
proof (cases v)
  case (Some c)
  then show ?thesis by (simp add: clone_continuation_def continuation_json_def subfield_def map_add_def split: option.split)
qed (simp add: clone_continuation_def continuation_json_def)

lemma clone_reconciliation_json [simp]: "clone_reconciliation (reconciliation_json r) = r"
  by (simp add: clone_reconciliation_def reconciliation_json_def)

lemma envelope_fields:
  "field (envelope_json e) ''schemaVersion'' = Some (JNumber 1)"
  "field (envelope_json e) ''sessionId'' = Some (JString (ck_session e))"
  "field (envelope_json e) ''checkpointId'' = Some (JString (ck_checkpoint e))"
  "field (envelope_json e) ''actor'' = Some (identity_json (ck_actor e))"
  "field (envelope_json e) ''deterministic'' = Some (ck_deterministic e)"
  "field (envelope_json e) ''effect'' = Some (effect_json (ck_effect e))"
  "field (envelope_json e) ''continuation'' = Some (continuation_json (ck_continuation e))"
  "field (envelope_json e) ''reconciliation'' = Some (reconciliation_json (ck_reconciliation e))"
  "field (envelope_json e) ''recordedAt'' = Some (JString (ck_recorded_at e))"
  "field (envelope_json e) ''expiresAt'' = Some (nullable (ck_expires_at e))"
  "field (envelope_json e) ''staleAt'' = Some (nullable (ck_stale_at e))"
  "field (envelope_json e) ''redactedFields'' = Some (JArray (map JString (ck_redacted e)))"
  "field (envelope_json e) ''metadata'' = ck_metadata e"
  by (simp_all add: envelope_json_def map_add_def split: option.split)

lemma normalize_json: "normalize_envelope (envelope_json e) = e"
  by (simp add: normalize_envelope_def envelope_fields object_at_def)


section \<open>Round trip\<close>

text \<open>What the validators guarantee of an envelope.\<close>

definition good_identity :: "actor_identity \<Rightarrow> bool" where
  "good_identity a \<longleftrightarrow> \<not> blank (ai_actor a) \<and> \<not> blank (ai_session a) \<and> \<not> blank (ai_turn a) \<and> \<not> blank (ai_trace a)
     \<and> \<not> blank (ai_command a) \<and> \<not> blank (ai_correlation a) \<and> \<not> blank (ai_causation a)"

definition good_texts :: "string list \<Rightarrow> bool" where "good_texts xs \<longleftrightarrow> list_all (\<lambda>s. \<not> blank s) xs"

definition good_date :: "checkpoint_host \<Rightarrow> string option \<Rightarrow> bool" where
  "good_date hs v \<longleftrightarrow> v = None \<or> is_iso_date hs (map_option JString v)"

definition good_effect :: "effect_state option \<Rightarrow> bool" where
  "good_effect v \<longleftrightarrow> (case v of None \<Rightarrow> True | Some e \<Rightarrow> \<not> blank (es_effect_id e) \<and> \<not> blank (es_attempt_id e))"

definition good_continuation :: "checkpoint_host \<Rightarrow> continuation option \<Rightarrow> bool" where
  "good_continuation hs v \<longleftrightarrow>
     (case v of None \<Rightarrow> True
      | Some c \<Rightarrow> \<not> blank (cn_provider c) \<and> \<not> blank (cn_adapter c) \<and> integer_from 1 (Some (JNumber (cn_format c)))
          \<and> integer_from 0 (Some (JNumber (cn_payload_bytes c)))
          \<and> (case cn_expires_at c of None \<Rightarrow> True | Some d \<Rightarrow> good_date hs d) \<and> good_texts (cn_fields c)
          \<and> (if cn_disposition c = Metadata_only then cn_payload c = JNull
             else cn_payload_bytes c = of_nat (payload_bytes hs (cn_payload c))))"

definition good_envelope :: "checkpoint_host \<Rightarrow> checkpoint_envelope \<Rightarrow> bool" where
  "good_envelope hs e \<longleftrightarrow>
     \<not> blank (ck_session e) \<and> \<not> blank (ck_checkpoint e) \<and> good_identity (ck_actor e) \<and> ai_session (ck_actor e) = ck_session e
   \<and> good_effect (ck_effect e) \<and> good_continuation hs (ck_continuation e)
   \<and> (case rc_reason (ck_reconciliation e) of None \<Rightarrow> True | Some s \<Rightarrow> \<not> blank s)
   \<and> is_iso_date hs (Some (JString (ck_recorded_at e))) \<and> good_date hs (ck_expires_at e) \<and> good_date hs (ck_stale_at e)
   \<and> good_texts (ck_redacted e)"

declare is_iso_date.simps(1) [simp del] integer_from.simps(1) [simp del]

lemma valid_date_json [simp]: "optional_iso_date hs (Some (nullable v)) = good_date hs v"
  by (cases v) (simp_all add: optional_iso_date_def nullable_def good_date_def)

lemma valid_texts_json [simp]: "is_string_array (Some (JArray (map JString xs))) = good_texts xs"
  by (simp add: good_texts_def list_all_iff)

declare is_string_array.simps(1) [simp del]

lemma valid_identity_json [simp]: "is_valid_identity (Some (identity_json a)) = good_identity a"
  by (simp add: identity_json_def truthy_object_def identity_keys_def good_identity_def)

lemma valid_effect_json [simp]: "is_valid_effect (Some (effect_json v)) = good_effect v"
  by (cases v) (simp_all add: effect_json_def truthy_object_def good_effect_def map_add_def split: option.split)

lemma valid_continuation_json [simp]: "is_valid_continuation hs (Some (continuation_json v)) = good_continuation hs v"
proof (cases v)
  case (Some c)
  have "optional_iso_date hs None" by (simp add: optional_iso_date_def)
  then show ?thesis
    by (simp add: Some continuation_json_def truthy_object_def good_continuation_def subfield_def map_add_def split: option.split)
qed (simp add: continuation_json_def good_continuation_def)

lemma valid_reconciliation_json [simp]:
  "is_valid_reconciliation (Some (reconciliation_json r)) = (case rc_reason r of None \<Rightarrow> True | Some s \<Rightarrow> \<not> blank s)"
  by (cases "rc_reason r") (simp_all add: reconciliation_json_def truthy_object_def)

declare is_valid_identity.simps(1) [simp del] is_valid_reconciliation.simps(1) [simp del]

lemma good_parses: "good_envelope hs e \<Longrightarrow> parse_envelope hs (envelope_json e) = Inr e"
proof -
  have "truthy_object (Some (envelope_json e))" by (simp add: truthy_object_def envelope_json_def)
  moreover have "subfield (envelope_json e) ''actor'' ''sessionId'' = Some (JString (ai_session (ck_actor e)))"
    by (simp add: subfield_def envelope_fields) (simp add: identity_json_def)
  ultimately show "good_envelope hs e \<Longrightarrow> ?thesis"
    by (simp add: parse_envelope_def envelope_fields normalize_json good_envelope_def)
qed


text \<open>What the validators accept becomes a good envelope.\<close>

lemma text_good: "is_non_empty_string x \<Longrightarrow> \<not> blank (text_of x)"
  by (auto simp: non_empty_text)

lemma texts_good: "is_string_array x \<Longrightarrow> good_texts (texts_of x)"
  by (cases x rule: is_string_array.cases)
    (simp_all add: is_string_array.simps(1) good_texts_def texts_of_def list_all_iff text_good)

lemma date_good: "optional_iso_date hs x \<Longrightarrow> good_date hs (text_value x)"
  by (cases "(hs, x)" rule: is_iso_date.cases) (auto simp: optional_iso_date_def good_date_def)

lemma nullable_good: "optional_iso_date hs x \<Longrightarrow> nullable_text x = Some d \<Longrightarrow> good_date hs d"
  by (cases "(hs, x)" rule: is_iso_date.cases) (auto simp: optional_iso_date_def good_date_def nullable_text_def)

lemma integer_good: "integer_from n x \<Longrightarrow> integer_from n (Some (JNumber (number_of x)))"
  by (cases "(n, x)" rule: integer_from.cases) auto

lemma identity_good: "is_valid_identity (Some v) \<Longrightarrow> good_identity (clone_identity v)"
  by (simp add: is_valid_identity.simps(1) identity_keys_def good_identity_def clone_identity_def text_good)

lemma effect_good: "is_valid_effect (Some v) \<Longrightarrow> good_effect (clone_effect v)"
  by (cases v) (simp_all add: good_effect_def clone_effect_def text_good truthy_object_def)

lemma continuation_good:
  assumes "is_valid_continuation hs (Some v)"
  shows "good_continuation hs (clone_continuation v)"
proof (cases "v = JNull")
  case False
  then have "is_valid_continuation hs (Some v) =
     (truthy_object (Some v) \<and> is_non_empty_string (field v ''provider'') \<and> is_non_empty_string (field v ''adapter'')
      \<and> integer_from 1 (field v ''formatVersion'') \<and> field v ''payload'' \<noteq> None \<and> integer_from 0 (field v ''payloadBytes'')
      \<and> optional_iso_date hs (field v ''expiresAt'') \<and> truthy_object (field v ''redaction'')
      \<and> disposition_of (subfield v ''redaction'' ''disposition'') \<noteq> None \<and> is_string_array (subfield v ''redaction'' ''fields'')
      \<and> (if disposition_of (subfield v ''redaction'' ''disposition'') = Some Metadata_only then field v ''payload'' = Some JNull
         else (case field v ''payload'' of
                 None \<Rightarrow> False | Some p \<Rightarrow> field v ''payloadBytes'' = Some (JNumber (of_nat (payload_bytes hs p))))))"
    by (cases v) (simp, simp_all only: is_valid_continuation.simps)
  note v = assms [unfolded this]
  obtain p d where pd: "field v ''payload'' = Some p" "disposition_of (subfield v ''redaction'' ''disposition'') = Some d"
    using v by blast
  have e: "case nullable_text (field v ''expiresAt'') of None \<Rightarrow> True | Some d \<Rightarrow> good_date hs d"
    using v nullable_good [of hs "field v ''expiresAt''"] by (simp split: option.split)
  show ?thesis
    using v e False by (simp add: good_continuation_def clone_continuation_def pd text_good integer_good texts_good split: if_splits)
qed (simp add: clone_continuation_def good_continuation_def)

lemma reconciliation_good:
  "is_valid_reconciliation (Some v) \<Longrightarrow> case rc_reason (clone_reconciliation v) of None \<Rightarrow> True | Some s \<Rightarrow> \<not> blank s"
  by (auto simp: is_valid_reconciliation.simps(1) clone_reconciliation_def non_empty_text split: option.split)

lemma iso_text: "is_iso_date hs x \<Longrightarrow> x = Some (JString (text_of x))"
  by (cases "(hs, x)" rule: is_iso_date.cases) auto

lemma some_object:
  "is_valid_identity x \<Longrightarrow> x \<noteq> None" "is_valid_effect x \<Longrightarrow> x \<noteq> None" "is_valid_continuation hs x \<Longrightarrow> x \<noteq> None"
  "is_valid_reconciliation x \<Longrightarrow> x \<noteq> None"
  by (cases x; simp)+

lemma normalized_good:
  assumes "is_non_empty_string (field v ''sessionId'')" "is_non_empty_string (field v ''checkpointId'')"
    "is_valid_identity (field v ''actor'')" "subfield v ''actor'' ''sessionId'' = field v ''sessionId''"
    "is_valid_effect (field v ''effect'')" "is_valid_continuation hs (field v ''continuation'')"
    "is_valid_reconciliation (field v ''reconciliation'')" "field v ''redactedFields'' = None \<or> is_string_array (field v ''redactedFields'')"
    "is_iso_date hs (field v ''recordedAt'')" "optional_iso_date hs (field v ''expiresAt'')" "optional_iso_date hs (field v ''staleAt'')"
  shows "good_envelope hs (normalize_envelope v)"
proof -
  obtain a e c r where f: "field v ''actor'' = Some a" "field v ''effect'' = Some e" "field v ''continuation'' = Some c"
    "field v ''reconciliation'' = Some r"
    using assms(3,5-7) some_object by blast
  have "ai_session (clone_identity a) = text_of (field v ''sessionId'')"
    using assms(4) by (simp add: clone_identity_def subfield_def f)
  moreover have "is_iso_date hs (Some (JString (text_of (field v ''recordedAt''))))" using assms(9) iso_text by metis
  moreover have "good_texts (texts_of (field v ''redactedFields''))"
    using assms(8) texts_good by (auto simp: texts_of_def good_texts_def)
  ultimately show ?thesis
    using assms text_good date_good identity_good [of a] effect_good [of e] continuation_good [of hs c] reconciliation_good [of r]
    by (simp add: good_envelope_def normalize_envelope_def object_at_def f)
qed

lemma first_failure_none: "first_failure cs = None \<longleftrightarrow> list_all fst cs"
  by (induction cs rule: first_failure.induct) auto

lemma created_good:
  assumes "create_envelope hs v = Inr e"
  shows "good_envelope hs e"
proof -
  have c: "list_all fst (create_checks hs v)" "e = normalize_envelope v"
    using assms by (auto simp: create_envelope_def first_failure_none split: option.splits)
  show ?thesis unfolding c(2) by (rule normalized_good) (use c(1) in \<open>simp_all add: create_checks_def\<close>)
qed

lemma parsed_good:
  assumes "parse_envelope hs v = Inr e"
  shows "good_envelope hs e"
proof -
  have e: "e = normalize_envelope v" using assms by (simp add: parse_envelope_def split: if_splits)
  show ?thesis unfolding e by (rule normalized_good) (use assms in \<open>simp_all add: parse_envelope_def split: if_splits\<close>)
qed

text \<open>
  A checkpoint survives its storage: an envelope that was created, or parsed from any text,
  and then serialized is parsed again as the same envelope.\<close>

theorem checkpoint_roundtrip:
  "create_envelope hs v = Inr e \<or> parse_envelope hs v = Inr e \<Longrightarrow> parse_envelope hs (envelope_json e) = Inr e"
  using created_good parsed_good good_parses by blast

definition sample_host :: checkpoint_host where
  "sample_host = \<lparr>hs_parse = (\<lambda>s. Some 0), hs_iso = (\<lambda>t. ''1970-01-01T00:00:00.000Z''), hs_bytes = (\<lambda>v. 4)\<rparr>"

definition sample_envelope :: json where
  "sample_envelope = JObject
     [(''schemaVersion'', JNumber 1), (''sessionId'', JString ''s''), (''checkpointId'', JString ''c''),
      (''actor'', JObject (map (\<lambda>k. (k, JString ''s'')) identity_keys)), (''deterministic'', JNull), (''effect'', JNull),
      (''continuation'', JNull), (''reconciliation'', JObject [(''status'', JString ''clear'')]),
      (''recordedAt'', JString ''1970-01-01T00:00:00.000Z''), (''redactedFields'', JArray [])]"

theorem checkpoint_roundtrip_witness:
  "\<exists>e. parse_envelope sample_host sample_envelope = Inr e \<and> parse_envelope sample_host (envelope_json e) = Inr e"
proof -
  have "\<exists>e. parse_envelope sample_host sample_envelope = Inr e"
    by (simp add: parse_envelope_def sample_envelope_def truthy_object_def blank_def js_space_def is_valid_identity.simps(1) identity_keys_def
        subfield_def is_valid_reconciliation.simps(1) status_of.simps(1) is_iso_date.simps(1) sample_host_def matches_iso_def
        iso_pattern_def is_digit_def optional_iso_date_def is_string_array.simps(1))
  then show ?thesis using checkpoint_roundtrip by blast
qed

section \<open>What a store holds\<close>

definition date_ms :: "checkpoint_host \<Rightarrow> string option \<Rightarrow> int option" where
  "date_ms hs v = (case v of None \<Rightarrow> None | Some s \<Rightarrow> if s = [] then None else hs_parse hs s)"

datatype read_result =
    Missing string
  | Present checkpoint_envelope
  | Stale checkpoint_envelope
  | Expired checkpoint_envelope
  | Redacted checkpoint_envelope "string list"
  | Corrupt_read string string
  | Version_read string "rat option"

definition due :: "int option \<Rightarrow> int \<Rightarrow> bool" where
  "due t now \<longleftrightarrow> (case t of None \<Rightarrow> False | Some m \<Rightarrow> m \<le> now)"

definition continuation_expiry :: "checkpoint_envelope \<Rightarrow> string option" where
  "continuation_expiry e = (case ck_continuation e of None \<Rightarrow> None | Some c \<Rightarrow> (case cn_expires_at c of None \<Rightarrow> None | Some d \<Rightarrow> d))"

definition continuation_redacted :: "checkpoint_envelope \<Rightarrow> bool" where
  "continuation_redacted e \<longleftrightarrow> (case ck_continuation e of None \<Rightarrow> False | Some c \<Rightarrow> cn_disposition c = Metadata_only)"

definition classify_read :: "checkpoint_host \<Rightarrow> checkpoint_envelope \<Rightarrow> int \<Rightarrow> read_result" where
  "classify_read hs e now =
     (if due (date_ms hs (ck_expires_at e)) now then Expired e
      else if due (date_ms hs (continuation_expiry e)) now then Expired e
      else if due (date_ms hs (ck_stale_at e)) now then Stale e
      else if ck_redacted e \<noteq> [] \<or> continuation_redacted e
      then Redacted e (if ck_redacted e \<noteq> [] then ck_redacted e
             else (case ck_continuation e of None \<Rightarrow> [] | Some c \<Rightarrow> cn_fields c))
      else Present e)"

fun envelope_of :: "read_result \<Rightarrow> checkpoint_envelope option" where
  "envelope_of (Present e) = Some e"
| "envelope_of (Redacted e fs) = Some e"
| "envelope_of (Stale e) = Some e"
| "envelope_of (Expired e) = Some e"
| "envelope_of _ = None"

definition is_duplicate_read :: "read_result \<Rightarrow> string \<Rightarrow> bool" where
  "is_duplicate_read r cid \<longleftrightarrow> (case envelope_of r of None \<Rightarrow> False | Some e \<Rightarrow> ck_checkpoint e = cid)"

section \<open>The in-memory store\<close>

type_synonym checkpoint_store = "(string, checkpoint_envelope) omap"

datatype write_result =
    Stored checkpoint_envelope
  | Replaced checkpoint_envelope checkpoint_envelope
  | Duplicate_write checkpoint_envelope
  | Expired_write checkpoint_envelope

definition store_read :: "checkpoint_host \<Rightarrow> string \<Rightarrow> int \<Rightarrow> checkpoint_store \<Rightarrow> read_result" where
  "store_read hs sid now st = (case omap_get st sid of None \<Rightarrow> Missing sid | Some e \<Rightarrow> classify_read hs e now)"

definition store_write :: "checkpoint_host \<Rightarrow> checkpoint_envelope \<Rightarrow> int \<Rightarrow> checkpoint_store \<Rightarrow> write_result \<times> checkpoint_store" where
  "store_write hs e now st =
     (case omap_get st (ck_session e) of
        Some old \<Rightarrow>
          if is_duplicate_read (classify_read hs old now) (ck_checkpoint e) then (Duplicate_write old, st)
          else if due (date_ms hs (ck_expires_at e)) now \<or> due (date_ms hs (continuation_expiry e)) now then (Expired_write e, st)
          else (Replaced e old, omap_set (ck_session e) e st)
      | None \<Rightarrow>
          if due (date_ms hs (ck_expires_at e)) now \<or> due (date_ms hs (continuation_expiry e)) now then (Expired_write e, st)
          else (Stored e, omap_set (ck_session e) e st))"

definition store_clear :: "checkpoint_store \<Rightarrow> checkpoint_store" where "store_clear st = []"

section \<open>Rehydration\<close>

datatype rehydration =
    Resumed checkpoint_envelope
  | Deferred checkpoint_envelope string
  | Manual string string "string option" "checkpoint_envelope option"    \<comment> \<open>session, reason, detail, envelope\<close>

fun comma_join :: "string list \<Rightarrow> string" where
  "comma_join [] = []"
| "comma_join [x] = x"
| "comma_join (x # y # ys) = x @ [CHR '',''] @ comma_join (y # ys)"

text \<open>\<open>String\<close> of a number is an argument.\<close>

definition supported_format :: "(string \<times> string \<times> rat) list \<Rightarrow> continuation \<Rightarrow> bool" where
  "supported_format fmts c \<longleftrightarrow> (\<exists>f \<in> set fmts. f = (cn_provider c, cn_adapter c, cn_format c))"

definition rehydrate_effect :: "checkpoint_envelope \<Rightarrow> rehydration" where
  "rehydrate_effect e =
     (if (case ck_effect e of None \<Rightarrow> False
          | Some f \<Rightarrow> es_irreversible f \<and> es_phase f = Intent_recorded \<and> es_receipt f = None)
      then Deferred e ''Irreversible effect intent was recorded without a settled receipt.''
      else if rc_status (ck_reconciliation e) = Rec_pending \<or> rc_status (ck_reconciliation e) = Rec_required
           \<or> (case ck_effect e of None \<Rightarrow> False | Some f \<Rightarrow> es_phase f = Reconciliation_required)
      then Deferred e (case rc_reason (ck_reconciliation e) of
             None \<Rightarrow> ''Checkpoint requires reconciliation before resume.'' | Some s \<Rightarrow> s)
      else Resumed e)"

definition rehydrate_present :: "(rat \<Rightarrow> string) \<Rightarrow> (string \<times> string \<times> rat) list \<Rightarrow> checkpoint_envelope \<Rightarrow> rehydration" where
  "rehydrate_present num fmts e =
     (case ck_continuation e of
        Some c \<Rightarrow>
          if cn_disposition c = Metadata_only
          then Manual (ck_session e) ''redacted'' (Some (comma_join (cn_fields c))) (Some e)
          else if \<not> supported_format fmts c
          then Manual (ck_session e) ''continuation_incompatible''
                 (Some (''Unsupported continuation format: '' @ cn_provider c @ ''/'' @ cn_adapter c @ ''@'' @ num (cn_format c))) (Some e)
          else rehydrate_effect e
      | None \<Rightarrow> rehydrate_effect e)"


definition rehydrate :: "(rat \<Rightarrow> string) \<Rightarrow> (string \<times> string \<times> rat) list \<Rightarrow> read_result \<Rightarrow> rehydration" where
  "rehydrate num fmts r =
     (case r of
        Missing sid \<Rightarrow> Manual sid ''missing'' None None
      | Corrupt_read sid detail \<Rightarrow> Manual sid ''corrupt'' (Some detail) None
      | Version_read sid v \<Rightarrow> Manual sid ''version_mismatch''
          (Some (''Unsupported schema version: '' @ (case v of None \<Rightarrow> ''null'' | Some n \<Rightarrow> num n))) None
      | Expired e \<Rightarrow> Manual (ck_session e) ''expired'' None (Some e)
      | Stale e \<Rightarrow> Manual (ck_session e) ''stale'' None (Some e)
      | Redacted e fs \<Rightarrow> Manual (ck_session e) ''redacted'' (Some (comma_join fs)) (Some e)
      | Present e \<Rightarrow> rehydrate_present num fmts e)"

section \<open>Resuming is safe\<close>

text \<open>A history of the store: writes and clears, each at its time.\<close>

datatype store_event = Write_checkpoint checkpoint_envelope int | Clear_checkpoints

fun store_step :: "checkpoint_host \<Rightarrow> store_event \<Rightarrow> checkpoint_store \<Rightarrow> checkpoint_store" where
  "store_step hs (Write_checkpoint e now) st = snd (store_write hs e now st)"
| "store_step hs Clear_checkpoints st = store_clear st"

definition store_run :: "checkpoint_host \<Rightarrow> store_event list \<Rightarrow> checkpoint_store" where
  "store_run hs evs = foldl (\<lambda>st ev. store_step hs ev st) [] evs"

text \<open>The current checkpoint of a session: the last one accepted since the last clear.\<close>

fun current_checkpoint :: "checkpoint_host \<Rightarrow> string \<Rightarrow> store_event list \<Rightarrow> checkpoint_envelope option" where
  "current_checkpoint hs sid [] = None"
| "current_checkpoint hs sid (Clear_checkpoints # older) = None"
| "current_checkpoint hs sid (Write_checkpoint e now # older) =
     (let cur = current_checkpoint hs sid older
      in if ck_session e = sid \<and> (case cur of None \<Rightarrow> True | Some old \<Rightarrow> ck_checkpoint old \<noteq> ck_checkpoint e)
            \<and> \<not> due (date_ms hs (ck_expires_at e)) now \<and> \<not> due (date_ms hs (continuation_expiry e)) now
         then Some e else cur)"

lemma classify_envelope: "envelope_of (classify_read hs e now) = Some e"
  by (simp add: classify_read_def)

lemma store_run_snoc: "store_run hs (evs @ [ev]) = store_step hs ev (store_run hs evs)"
  by (simp add: store_run_def)

lemma store_current: "omap_get (store_run hs evs) sid = current_checkpoint hs sid (rev evs)"
proof (induction evs rule: rev_induct)
  case (snoc ev evs)
  show ?case
  proof (cases ev)
    case (Write_checkpoint e now)
    then show ?thesis
      using snoc by (cases "ck_session e = sid"; cases "omap_get (store_run hs evs) (ck_session e)")
        (auto simp: store_run_snoc store_write_def is_duplicate_read_def classify_envelope Let_def split: option.split)
  qed (simp add: store_run_snoc store_clear_def)
qed (simp add: store_run_def)

definition settled_effect :: "effect_state option \<Rightarrow> bool" where
  "settled_effect v \<longleftrightarrow>
     (case v of None \<Rightarrow> True
      | Some f \<Rightarrow> es_phase f \<noteq> Reconciliation_required \<and> (es_irreversible f \<longrightarrow> es_phase f = Intent_recorded \<longrightarrow> es_receipt f \<noteq> None))"

lemma effect_resumed:
  "rehydrate_effect e' = Resumed e \<longleftrightarrow> e' = e \<and> settled_effect (ck_effect e) \<and> rc_status (ck_reconciliation e) = Rec_clear"
proof -
  have "rc_status (ck_reconciliation e') = Rec_clear \<longleftrightarrow>
      rc_status (ck_reconciliation e') \<noteq> Rec_pending \<and> rc_status (ck_reconciliation e') \<noteq> Rec_required"
    by (cases "rc_status (ck_reconciliation e')") simp_all
  then show ?thesis by (cases "ck_effect e'") (auto simp: rehydrate_effect_def settled_effect_def)
qed

lemma present_resumed:
  "rehydrate_present num fmts e' = Resumed e \<longleftrightarrow>
     e' = e \<and> settled_effect (ck_effect e) \<and> rc_status (ck_reconciliation e) = Rec_clear
   \<and> (case ck_continuation e of None \<Rightarrow> True | Some c \<Rightarrow> cn_disposition c = Not_redacted \<and> supported_format fmts c)"
proof (cases "ck_continuation e'")
  case (Some c)
  then show ?thesis by (cases "cn_disposition c") (auto simp: rehydrate_present_def effect_resumed)
qed (auto simp: rehydrate_present_def effect_resumed)

lemma rehydrate_resumed:
  "rehydrate num fmts r = Resumed e \<longleftrightarrow>
     r = Present e \<and> settled_effect (ck_effect e) \<and> rc_status (ck_reconciliation e) = Rec_clear
   \<and> (case ck_continuation e of None \<Rightarrow> True | Some c \<Rightarrow> cn_disposition c = Not_redacted \<and> supported_format fmts c)"
  by (cases r) (simp_all add: rehydrate_def present_resumed)

text \<open>
  C27. A session resumes exactly from its current checkpoint and only when that is safe: after any
  history of writes and clears, rehydrating what the store reads resumes with the checkpoint that was
  accepted last, and does so if and only if nothing of it has expired, become stale or been redacted,
  its continuation has a supported format, no irreversible effect was intended without a receipt, and
  nothing waits for reconciliation.\<close>

theorem resume_exact:
  "rehydrate num fmts (store_read hs sid now (store_run hs evs)) = Resumed e \<longleftrightarrow>
     current_checkpoint hs sid (rev evs) = Some e
   \<and> \<not> due (date_ms hs (ck_expires_at e)) now \<and> \<not> due (date_ms hs (continuation_expiry e)) now
   \<and> \<not> due (date_ms hs (ck_stale_at e)) now \<and> ck_redacted e = []
   \<and> (case ck_continuation e of None \<Rightarrow> True | Some c \<Rightarrow> cn_disposition c = Not_redacted \<and> supported_format fmts c)
   \<and> settled_effect (ck_effect e) \<and> rc_status (ck_reconciliation e) = Rec_clear"
proof -
  have "classify_read hs x now = Present e \<longleftrightarrow> x = e \<and> \<not> due (date_ms hs (ck_expires_at e)) now
      \<and> \<not> due (date_ms hs (continuation_expiry e)) now \<and> \<not> due (date_ms hs (ck_stale_at e)) now \<and> ck_redacted e = []
      \<and> \<not> continuation_redacted e" for x
    by (auto simp: classify_read_def)
  then show ?thesis
    unfolding rehydrate_resumed store_read_def store_current
    by (auto simp: continuation_redacted_def split: option.splits)
qed

end
