(* ===== verification/Request_Correlation.thy ===== *)
theory Request_Correlation
  imports Actor_Prelude
begin

text \<open>
  Pending requests of the ask pattern: \<open>PureXStateCorrelationManager\<close> with the timeouts it keeps
  (\<open>pure-xstate-utilities.ts\<close>) and the \<open>MockCorrelationManager\<close> of \<open>correlation-manager.ts\<close>. A promise is a
  ticket, and what settles it is an output. An XState timeout is an entry of the timeout map from its
  start until it completes or is cancelled; it completes at most once, not before its delay is over.
  Both managers offer the interface \<open>correlation\<close>.
\<close>

section \<open>Data\<close>

datatype corr_error = Timed_out string ms ms | Cleared string | Failed_with string | Mock_timeout string | Mock_cleanup

datatype 'v settlement = Resolved 'v | Rejected corr_error

type_synonym 'v settled = "(nat \<times> 'v settlement) list"

record corr_timer =
  tm_corr :: string
  tm_due :: ms

record pending_request =
  pq_ticket :: nat
  pq_created :: ms
  pq_timeout :: ms
  pq_timer :: string

record manager =
  cm_pending :: "(string, pending_request) omap"
  cm_timers :: "(string, corr_timer) omap"
  cm_requests :: nat
  cm_timer_ids :: nat

definition new_manager :: manager where
  "new_manager = \<lparr>cm_pending = [], cm_timers = [], cm_requests = 0, cm_timer_ids = 0\<rparr>"

section \<open>Timeouts\<close>

definition numbered :: "string \<Rightarrow> ms \<Rightarrow> nat \<Rightarrow> string" where
  "numbered p now n = p @ int_text now @ ''-'' @ nat_digits n"

definition set_timeout :: "ms \<Rightarrow> string \<Rightarrow> ms \<Rightarrow> manager \<Rightarrow> string \<times> manager" where
  "set_timeout now cid delay m =
     (let i = numbered ''timeout-'' now (cm_timer_ids m)
      in (i, m\<lparr>cm_timer_ids := cm_timer_ids m + 1,
              cm_timers := omap_set i \<lparr>tm_corr = cid, tm_due = now + delay\<rparr> (cm_timers m)\<rparr>))"

definition clear_timeout :: "string \<Rightarrow> manager \<Rightarrow> manager" where
  "clear_timeout i m = m\<lparr>cm_timers := omap_delete i (cm_timers m)\<rparr>"

definition clear_all_timeouts :: "manager \<Rightarrow> manager" where
  "clear_all_timeouts m = m\<lparr>cm_timers := []\<rparr>"

section \<open>Requests\<close>

definition generate_id :: "ms \<Rightarrow> manager \<Rightarrow> string \<times> manager" where
  "generate_id now m = (numbered ''corr-'' now (cm_requests m + 1), m\<lparr>cm_requests := cm_requests m + 1\<rparr>)"

text \<open>\<open>None\<close> where the id is in use (the promise returned is rejected and nothing else happens).\<close>

definition register_request :: "ms \<Rightarrow> string \<Rightarrow> ms \<Rightarrow> nat \<Rightarrow> manager \<Rightarrow> manager option" where
  "register_request now cid timeout ticket m =
     (if omap_get (cm_pending m) cid \<noteq> None then None
      else (let (i, m1) = set_timeout now cid timeout m
            in Some (m1\<lparr>cm_pending := omap_set cid
                 \<lparr>pq_ticket = ticket, pq_created = now, pq_timeout = timeout, pq_timer = i\<rparr> (cm_pending m1)\<rparr>)))"

definition remove_pending :: "string \<Rightarrow> manager \<Rightarrow> manager" where
  "remove_pending cid m = m\<lparr>cm_pending := omap_delete cid (cm_pending m)\<rparr>"

definition handle_response :: "string \<Rightarrow> 'v \<Rightarrow> manager \<Rightarrow> 'v settled \<times> manager" where
  "handle_response cid v m = (case omap_get (cm_pending m) cid of
       None \<Rightarrow> ([], m)
     | Some p \<Rightarrow> ([(pq_ticket p, Resolved v)], remove_pending cid (clear_timeout (pq_timer p) m)))"

definition handle_error :: "string \<Rightarrow> string \<Rightarrow> manager \<Rightarrow> 'v settled \<times> manager" where
  "handle_error cid err m = (case omap_get (cm_pending m) cid of
       None \<Rightarrow> ([], m)
     | Some p \<Rightarrow> ([(pq_ticket p, Rejected (Failed_with err))], remove_pending cid (clear_timeout (pq_timer p) m)))"

text \<open>The timeout entry of the request is left alone.\<close>

definition handle_timeout :: "ms \<Rightarrow> string \<Rightarrow> manager \<Rightarrow> 'v settled \<times> manager" where
  "handle_timeout now cid m = (case omap_get (cm_pending m) cid of
       None \<Rightarrow> ([], m)
     | Some p \<Rightarrow> ([(pq_ticket p, Rejected (Timed_out cid (now - pq_created p) (pq_timeout p)))], remove_pending cid m))"

text \<open>A timeout completes: its callback, then its clean-up.\<close>

definition fire_timeout :: "ms \<Rightarrow> string \<Rightarrow> manager \<Rightarrow> 'v settled \<times> manager" where
  "fire_timeout now i m = (case omap_get (cm_timers m) i of
       None \<Rightarrow> ([], m)
     | Some t \<Rightarrow> if now < tm_due t then ([], m)
                else (let (out, m1) = handle_timeout now (tm_corr t) m in (out, clear_timeout i m1)))"

definition clear_all_requests :: "manager \<Rightarrow> 'v settled \<times> manager" where
  "clear_all_requests m =
     (map (\<lambda>(cid, p). (pq_ticket p, Rejected (Cleared cid))) (cm_pending m),
      (clear_all_timeouts m)\<lparr>cm_pending := []\<rparr>)"

definition destroy_manager :: "manager \<Rightarrow> 'v settled \<times> manager" where
  "destroy_manager m = (let (out, m1) = clear_all_requests m in (out, clear_all_timeouts m1))"

definition pending_count :: "manager \<Rightarrow> nat" where
  "pending_count m = length (cm_pending m)"

datatype 'v corr_event = Response string 'v | Error_reply string string | Timeout_of string | Timer_fires string
  | Clear_all | Destroy | New_id

fun corr_settle :: "ms \<times> 'v corr_event \<Rightarrow> manager \<Rightarrow> 'v settled \<times> manager" where
  "corr_settle (now, Response cid v) m = handle_response cid v m"
| "corr_settle (now, Error_reply cid e) m = handle_error cid e m"
| "corr_settle (now, Timeout_of cid) m = handle_timeout now cid m"
| "corr_settle (now, Timer_fires i) m = fire_timeout now i m"
| "corr_settle (now, Clear_all) m = clear_all_requests m"
| "corr_settle (now, Destroy) m = destroy_manager m"
| "corr_settle (now, New_id) m = ([], snd (generate_id now m))"

section \<open>The mock manager\<close>

record 'v mock_manager =
  mk_pending :: "(string, nat \<times> ms \<times> ms) omap"    \<comment> \<open>promise, creation time, timeout\<close>
  mk_responses :: "(string, 'v) omap"
  mk_timeouts :: "string list"
  mk_ids :: nat

definition mock_generate :: "'v mock_manager \<Rightarrow> string \<times> 'v mock_manager" where
  "mock_generate m = (''mock-corr-'' @ nat_digits (mk_ids m + 1), m\<lparr>mk_ids := mk_ids m + 1\<rparr>)"

definition mock_register :: "ms \<Rightarrow> string \<Rightarrow> ms \<Rightarrow> nat \<Rightarrow> 'v mock_manager \<Rightarrow> 'v mock_manager option" where
  "mock_register now cid timeout ticket m =
     (if omap_get (mk_pending m) cid \<noteq> None then None
      else Some (m\<lparr>mk_pending := omap_set cid (ticket, now, timeout) (mk_pending m)\<rparr>))"

definition mock_response :: "string \<Rightarrow> 'v \<Rightarrow> 'v mock_manager \<Rightarrow> 'v settled \<times> 'v mock_manager" where
  "mock_response cid v m = (case omap_get (mk_pending m) cid of
       None \<Rightarrow> ([], m)
     | Some p \<Rightarrow> ([(fst p, Resolved v)],
         m\<lparr>mk_responses := omap_set cid v (mk_responses m), mk_pending := omap_delete cid (mk_pending m)\<rparr>))"

definition mock_error :: "string \<Rightarrow> string \<Rightarrow> 'v mock_manager \<Rightarrow> 'v settled \<times> 'v mock_manager" where
  "mock_error cid err m = (case omap_get (mk_pending m) cid of
       None \<Rightarrow> ([], m)
     | Some p \<Rightarrow> ([(fst p, Rejected (Failed_with err))], m\<lparr>mk_pending := omap_delete cid (mk_pending m)\<rparr>))"

definition mock_timeout :: "string \<Rightarrow> 'v mock_manager \<Rightarrow> 'v settled \<times> 'v mock_manager" where
  "mock_timeout cid m = (case omap_get (mk_pending m) cid of
       None \<Rightarrow> ([], m)
     | Some p \<Rightarrow> ([(fst p, Rejected (Mock_timeout cid))],
         m\<lparr>mk_timeouts := (if cid \<in> set (mk_timeouts m) then mk_timeouts m else mk_timeouts m @ [cid]),
           mk_pending := omap_delete cid (mk_pending m)\<rparr>))"

definition mock_clear :: "'v mock_manager \<Rightarrow> 'v settled \<times> 'v mock_manager" where
  "mock_clear m = (map (\<lambda>(cid, p). (fst p, Rejected Mock_cleanup)) (mk_pending m), m\<lparr>mk_pending := []\<rparr>)"

definition mock_reset :: "'v mock_manager \<Rightarrow> 'v settled \<times> 'v mock_manager" where
  "mock_reset m = (let (out, m1) = mock_clear m in (out, m1\<lparr>mk_responses := [], mk_timeouts := [], mk_ids := 0\<rparr>))"

datatype 'v mock_event = Mock_response string 'v | Mock_error string string | Mock_trigger string | Mock_clear | Mock_reset

fun mock_settle :: "'v mock_event \<Rightarrow> 'v mock_manager \<Rightarrow> 'v settled \<times> 'v mock_manager" where
  "mock_settle (Mock_response cid v) m = mock_response cid v m"
| "mock_settle (Mock_error cid e) m = mock_error cid e m"
| "mock_settle (Mock_trigger cid) m = mock_timeout cid m"
| "mock_settle Mock_clear m = mock_clear m"
| "mock_settle Mock_reset m = mock_reset m"

section \<open>What a correlation manager promises\<close>

text \<open>
  \<open>waiting\<close> is the ticket registered under an id. A registration takes a free id; every other operation
  settles exactly the tickets it removes. Then over any history every promise is settled once or still waits.
\<close>

datatype ('t, 'e) corr_op = Enroll 't string ms | Settle 'e

fun run_corr :: "('t \<Rightarrow> string \<Rightarrow> ms \<Rightarrow> nat \<Rightarrow> 'c \<Rightarrow> 'c option) \<Rightarrow> ('e \<Rightarrow> 'c \<Rightarrow> 'v settled \<times> 'c)
    \<Rightarrow> ('t, 'e) corr_op list \<Rightarrow> nat \<Rightarrow> 'c \<Rightarrow> 'v settled \<times> nat \<times> 'c" where
  "run_corr enroll settle [] n c = ([], n, c)"
| "run_corr enroll settle (Enroll t cid d # ops) n c =
     (case enroll t cid d n c of
        None \<Rightarrow> run_corr enroll settle ops n c
      | Some c1 \<Rightarrow> run_corr enroll settle ops (Suc n) c1)"
| "run_corr enroll settle (Settle e # ops) n c =
     (let (out, c1) = settle e c; (outs, n1, c2) = run_corr enroll settle ops n c1 in (out @ outs, n1, c2))"

definition settled_count :: "nat \<Rightarrow> 'v settled \<Rightarrow> nat" where
  "settled_count tk out = length (filter (\<lambda>x. fst x = tk) out)"

locale correlation =
  fixes waiting :: "'c \<Rightarrow> string \<Rightarrow> nat option"
    and enroll :: "'t \<Rightarrow> string \<Rightarrow> ms \<Rightarrow> nat \<Rightarrow> 'c \<Rightarrow> 'c option"
    and settle :: "'e \<Rightarrow> 'c \<Rightarrow> 'v settled \<times> 'c"
    and inv :: "'c \<Rightarrow> bool"
  assumes waiting_finite: "inv c \<Longrightarrow> finite (dom (waiting c))"
    and enroll_free: "inv c \<Longrightarrow> waiting c cid = None \<Longrightarrow>
      \<exists>c1. enroll t cid d n c = Some c1 \<and> inv c1 \<and> waiting c1 = (waiting c)(cid \<mapsto> n)"
    and enroll_used: "waiting c cid \<noteq> None \<Longrightarrow> enroll t cid d n c = None"
    and settle_inv: "inv c \<Longrightarrow> inv (snd (settle e c))"
    and settle_count: "inv c \<Longrightarrow> waiting (snd (settle e c)) \<subseteq>\<^sub>m waiting c
      \<and> settled_count tk (fst (settle e c)) = card {k. waiting c k = Some tk \<and> waiting (snd (settle e c)) k = None}"
begin

definition wait_count :: "nat \<Rightarrow> 'c \<Rightarrow> nat" where
  "wait_count tk c = card {k. waiting c k = Some tk}"

lemma waiting_finite_ids: "inv c \<Longrightarrow> finite {k. waiting c k = Some tk}"
  using waiting_finite [of c] by (rule finite_subset [rotated]) auto

lemma settle_conserves:
  assumes "inv c"
  shows "settled_count tk (fst (settle e c)) + wait_count tk (snd (settle e c)) = wait_count tk c"
proof -
  let ?c1 = "snd (settle e c)"
  have s: "waiting ?c1 \<subseteq>\<^sub>m waiting c" using settle_count [OF assms] by blast
  have "{k. waiting c k = Some tk} = {k. waiting c k = Some tk \<and> waiting ?c1 k = None} \<union> {k. waiting ?c1 k = Some tk}"
    using s by (auto simp: map_le_def dom_def)
  moreover have "finite {k. waiting c k = Some tk \<and> waiting ?c1 k = None}"
    by (rule finite_subset [OF _ waiting_finite_ids [OF assms, of tk]]) auto
  ultimately show ?thesis
    using settle_count [OF assms, of e tk] waiting_finite_ids [OF settle_inv [OF assms, of e], of tk]
    by (simp add: wait_count_def) (subst card_Un_disjoint; auto)
qed

definition tickets_below :: "nat \<Rightarrow> 'c \<Rightarrow> bool" where
  "tickets_below n c \<longleftrightarrow> inv c \<and> (\<forall>k tk. waiting c k = Some tk \<longrightarrow> tk < n)"

lemma wait_count_above: "tickets_below n c \<Longrightarrow> n \<le> tk \<Longrightarrow> wait_count tk c = 0"
  unfolding tickets_below_def wait_count_def by (metis (mono_tags, lifting) card.empty empty_Collect_eq leD)

lemma settle_below: "tickets_below n c \<Longrightarrow> tickets_below n (snd (settle e c))"
  using settle_inv [of c e] settle_count [of c e] unfolding tickets_below_def map_le_def by (metis domI)

lemma enroll_below:
  assumes "tickets_below n c" "enroll t cid d n c = Some c1"
  shows "tickets_below (Suc n) c1" "wait_count tk c1 = wait_count tk c + (if tk = n then 1 else 0)"
proof -
  have free: "waiting c cid = None" using enroll_used assms(2) by fastforce
  then have c1: "inv c1" "waiting c1 = (waiting c)(cid \<mapsto> n)"
    using enroll_free [of c cid t d n] assms by (auto simp: tickets_below_def)
  then show "tickets_below (Suc n) c1" using assms(1) by (auto simp: tickets_below_def less_Suc_eq)
  have "{k. waiting c1 k = Some tk} = (if tk = n then insert cid {k. waiting c k = Some tk} else {k. waiting c k = Some tk})"
    using free by (auto simp: c1(2))
  then show "wait_count tk c1 = wait_count tk c + (if tk = n then 1 else 0)"
    using free waiting_finite_ids [of c tk] assms(1) by (auto simp: wait_count_def tickets_below_def card_insert_disjoint)
qed

lemma run_conserves:
  assumes "tickets_below n c" "run_corr enroll settle ops n c = (out, n1, c1)"
  shows "tickets_below n1 c1 \<and> n \<le> n1
    \<and> settled_count tk out + wait_count tk c1 = wait_count tk c + (if n \<le> tk \<and> tk < n1 then 1 else 0)"
  using assms
proof (induction ops arbitrary: n c out)
  case Nil
  then show ?case by (simp add: settled_count_def)
next
  case (Cons x ops)
  show ?case
  proof (cases x)
    case (Enroll t cid d)
    show ?thesis
    proof (cases "enroll t cid d n c")
      case None
      then show ?thesis using Cons Enroll by simp
    next
      case (Some c2)
      note b = enroll_below [OF Cons.prems(1) Some]
      have "tickets_below n1 c1 \<and> Suc n \<le> n1
          \<and> settled_count tk out + wait_count tk c1 = wait_count tk c2 + (if Suc n \<le> tk \<and> tk < n1 then 1 else 0)"
        using Cons.prems(2) Enroll Some by (intro Cons.IH [OF b(1)]) simp
      then show ?thesis using b(2) [of tk] by auto
    qed
  next
    case (Settle e)
    obtain out2 where r: "run_corr enroll settle ops n (snd (settle e c)) = (out2, n1, c1)" "out = fst (settle e c) @ out2"
      using Cons.prems(2) Settle by (cases "run_corr enroll settle ops n (snd (settle e c))") (auto simp: split_beta Let_def)
    show ?thesis
      using Cons.IH [OF settle_below [OF Cons.prems(1)] r(1)] settle_conserves [of c tk e] Cons.prems(1) r(2)
      by (simp add: settled_count_def tickets_below_def)
  qed
qed

text \<open>Each promise handed out is settled exactly once or waits under exactly one id, and no other promise is touched.\<close>

lemma settled_or_waiting:
  assumes "inv c" "waiting c = Map.empty" "run_corr enroll settle ops 0 c = (out, n, c1)"
  shows "settled_count tk out + wait_count tk c1 = (if tk < n then 1 else 0)"
  using run_conserves [of 0 c ops out n c1 tk] assms by (simp add: tickets_below_def wait_count_def)

end

section \<open>Both managers keep the promise\<close>

definition mgr_waiting :: "manager \<Rightarrow> string \<Rightarrow> nat option" where
  "mgr_waiting m cid = map_option pq_ticket (omap_get (cm_pending m) cid)"

definition mgr_keys :: "manager \<Rightarrow> bool" where
  "mgr_keys m \<longleftrightarrow> distinct (omap_keys (cm_pending m))"

definition mock_waiting :: "'v mock_manager \<Rightarrow> string \<Rightarrow> nat option" where
  "mock_waiting m cid = map_option fst (omap_get (mk_pending m) cid)"

definition mock_keys :: "'v mock_manager \<Rightarrow> bool" where
  "mock_keys m \<longleftrightarrow> distinct (omap_keys (mk_pending m))"

lemma settled_count_all:
  assumes "distinct (omap_keys m)"
  shows "settled_count tk (map (\<lambda>(k, p). (f p, h k)) m) = card {k. map_option f (omap_get m k) = Some tk}"
  using assms
proof (induction m)
  case (Cons x m)
  obtain k p where x: "x = (k, p)" by (cases x)
  have fin: "finite {k. map_option f (omap_get m k) = Some tk}"
    by (rule finite_subset [OF _ finite_dom_map_of [of m]]) auto
  have "{k'. map_option f (omap_get (x # m) k') = Some tk}
      = (if f p = tk then insert k {k. map_option f (omap_get m k) = Some tk} else {k. map_option f (omap_get m k) = Some tk})"
    using Cons.prems x by (auto simp: map_of_eq_None_iff) (metis (no_types, lifting) image_eqI fst_conv map_of_SomeD)+
  moreover have "k \<notin> {k. map_option f (omap_get m k) = Some tk}" using Cons.prems x by (force dest: map_of_SomeD)
  moreover have "settled_count tk (map (\<lambda>(k, p). (f p, h k)) m) = card {k. map_option f (omap_get m k) = Some tk}"
    using Cons by simp
  ultimately show ?case using fin x by (simp add: settled_count_def del: map_option_eq_Some)
qed (simp add: settled_count_def)

lemma settled_count_one:
  assumes "w cid = Some tk0" "w1 = w(cid := None)"
  shows "w1 \<subseteq>\<^sub>m w \<and> settled_count tk [(tk0, x)] = card {k. w k = Some tk \<and> w1 k = None}"
proof -
  have "{k. w k = Some tk \<and> w1 k = None} = (if tk0 = tk then {cid} else {})" using assms by auto
  then show ?thesis using assms by (simp add: settled_count_def map_le_def)
qed

lemma settled_count_none: "w \<subseteq>\<^sub>m w \<and> settled_count tk [] = card {k. w k = Some tk \<and> w k = None}"
proof -
  have "{k. w k = Some tk \<and> w k = None} = {}" by auto
  then show ?thesis by (simp add: settled_count_def del: Collect_empty_eq)
qed

lemma mgr_waiting_remove: "mgr_waiting (remove_pending cid m) = (mgr_waiting m)(cid := None)"
  by (auto simp: mgr_waiting_def remove_pending_def)

lemma mgr_waiting_timers [simp]: "mgr_waiting (clear_timeout i m) = mgr_waiting m" "mgr_keys (clear_timeout i m) = mgr_keys m"
  by (auto simp: mgr_waiting_def mgr_keys_def clear_timeout_def)

lemma mgr_keys_remove: "mgr_keys m \<Longrightarrow> mgr_keys (remove_pending cid m)"
  by (simp add: mgr_keys_def remove_pending_def)

lemma handle_timeout_law:
  "mgr_keys m \<Longrightarrow> mgr_keys (snd (handle_timeout now cid m))"
  "mgr_waiting (snd (handle_timeout now cid m)) \<subseteq>\<^sub>m mgr_waiting m
    \<and> settled_count tk (fst (handle_timeout now cid m))
      = card {k. mgr_waiting m k = Some tk \<and> mgr_waiting (snd (handle_timeout now cid m)) k = None}"
proof -
  show "mgr_keys m \<Longrightarrow> mgr_keys (snd (handle_timeout now cid m))"
    by (simp add: handle_timeout_def mgr_keys_remove split: option.split)
  show "mgr_waiting (snd (handle_timeout now cid m)) \<subseteq>\<^sub>m mgr_waiting m
    \<and> settled_count tk (fst (handle_timeout now cid m))
      = card {k. mgr_waiting m k = Some tk \<and> mgr_waiting (snd (handle_timeout now cid m)) k = None}"
  proof (cases "omap_get (cm_pending m) cid")
    case None
    then show ?thesis using settled_count_none by (simp add: handle_timeout_def)
  next
    case (Some p)
    have "mgr_waiting m cid = Some (pq_ticket p)" using Some by (simp add: mgr_waiting_def)
    from settled_count_one [of "mgr_waiting m", OF this mgr_waiting_remove] show ?thesis
      using Some by (simp add: handle_timeout_def)
  qed
qed

lemma corr_settle_law:
  assumes "mgr_keys m"
  shows "mgr_keys (snd (corr_settle e m))"
    "mgr_waiting (snd (corr_settle e m)) \<subseteq>\<^sub>m mgr_waiting m
      \<and> settled_count tk (fst (corr_settle e m))
        = card {k. mgr_waiting m k = Some tk \<and> mgr_waiting (snd (corr_settle e m)) k = None}"
proof -
  obtain now x where e: "e = (now, x)" by (cases e)
  have one: "mgr_waiting (remove_pending cid (clear_timeout i m)) \<subseteq>\<^sub>m mgr_waiting m
      \<and> settled_count tk [(pq_ticket p, y)] = card {k. mgr_waiting m k = Some tk \<and> mgr_waiting (remove_pending cid (clear_timeout i m)) k = None}"
    if "omap_get (cm_pending m) cid = Some p" for cid p i and y :: "'a settlement"
    using that by (intro settled_count_one [of _ cid]) (simp_all add: mgr_waiting_remove mgr_waiting_def [of m])
  have none: "mgr_waiting m \<subseteq>\<^sub>m mgr_waiting m \<and> settled_count tk ([] :: 'a settled)
      = card {k. mgr_waiting m k = Some tk \<and> mgr_waiting m k = None}" by (rule settled_count_none)
  have all: "mgr_waiting (snd (clear_all_requests m :: 'a settled \<times> manager)) = Map.empty"
    "settled_count tk (fst (clear_all_requests m :: 'a settled \<times> manager)) = card {k. mgr_waiting m k = Some tk}"
    using settled_count_all [OF assms [unfolded mgr_keys_def], of tk pq_ticket]
    by (simp_all add: clear_all_requests_def clear_all_timeouts_def mgr_waiting_def fun_eq_iff)
  have "mgr_keys (snd (clear_all_requests m :: 'a settled \<times> manager))" "mgr_keys (snd (destroy_manager m :: 'a settled \<times> manager))"
    "mgr_keys (snd (generate_id now m))"
    using assms by (simp_all add: mgr_keys_def clear_all_requests_def destroy_manager_def generate_id_def clear_all_timeouts_def Let_def split_beta)
  then show "mgr_keys (snd (corr_settle e m))" using assms handle_timeout_law(1) [OF assms]
    by (cases x) (auto simp: e handle_response_def handle_error_def fire_timeout_def mgr_keys_remove Let_def split_beta split: option.split)
  show "mgr_waiting (snd (corr_settle e m)) \<subseteq>\<^sub>m mgr_waiting m
      \<and> settled_count tk (fst (corr_settle e m))
        = card {k. mgr_waiting m k = Some tk \<and> mgr_waiting (snd (corr_settle e m)) k = None}"
  proof (cases x)
    case (Response cid v)
    then show ?thesis using one [of cid] none by (cases "omap_get (cm_pending m) cid") (simp_all add: e handle_response_def)
  next
    case (Error_reply cid s)
    then show ?thesis using one [of cid] none by (cases "omap_get (cm_pending m) cid") (simp_all add: e handle_error_def)
  next
    case (Timeout_of cid)
    then show ?thesis using handle_timeout_law(2) by (simp add: e)
  next
    case (Timer_fires i)
    then show ?thesis using handle_timeout_law(2) none
      by (cases "omap_get (cm_timers m) i") (auto simp: e fire_timeout_def Let_def split_beta)
  next
    case Clear_all
    then show ?thesis using all by (simp add: e)
  next
    case Destroy
    have "mgr_waiting (clear_all_timeouts (snd (clear_all_requests m :: 'a settled \<times> manager))) = Map.empty"
      by (simp add: clear_all_requests_def clear_all_timeouts_def mgr_waiting_def fun_eq_iff)
    then show ?thesis using Destroy all by (simp add: e destroy_manager_def split_beta Let_def)
  next
    case New_id
    have "mgr_waiting (snd (generate_id now m)) = mgr_waiting m" by (simp add: generate_id_def mgr_waiting_def fun_eq_iff)
    then show ?thesis using New_id none by (simp add: e)
  qed
qed

interpretation xstate: correlation mgr_waiting register_request corr_settle mgr_keys
proof
  fix c :: manager and cid t d n
  show "finite (dom (mgr_waiting c))"
    by (rule finite_subset [OF _ finite_dom_map_of [of "cm_pending c"]]) (auto simp: mgr_waiting_def)
  show "\<exists>c1. register_request t cid d n c = Some c1 \<and> mgr_keys c1 \<and> mgr_waiting c1 = (mgr_waiting c)(cid \<mapsto> n)"
    if "mgr_keys c" "mgr_waiting c cid = None"
    using that by (simp add: register_request_def set_timeout_def Let_def split_beta mgr_keys_def)
      (auto simp: mgr_waiting_def fun_eq_iff)
  show "register_request t cid d n c = None" if "mgr_waiting c cid \<noteq> None"
    using that by (simp add: register_request_def mgr_waiting_def)
qed (simp_all add: corr_settle_law del: corr_settle.simps)

lemma mock_settle_law:
  assumes "mock_keys m"
  shows "mock_keys (snd (mock_settle e m))"
    "mock_waiting (snd (mock_settle e m)) \<subseteq>\<^sub>m mock_waiting m
      \<and> settled_count tk (fst (mock_settle e m))
        = card {k. mock_waiting m k = Some tk \<and> mock_waiting (snd (mock_settle e m)) k = None}"
proof -
  show "mock_keys (snd (mock_settle e m))" using assms
    by (cases e) (auto simp: mock_keys_def mock_response_def mock_error_def mock_timeout_def mock_clear_def mock_reset_def
        Let_def split_beta split: option.split)
  have none: "mock_waiting m \<subseteq>\<^sub>m mock_waiting m \<and> settled_count tk ([] :: 'a settled)
      = card {k. mock_waiting m k = Some tk \<and> mock_waiting m k = None}" by (rule settled_count_none)
  have one: "mock_waiting m1 \<subseteq>\<^sub>m mock_waiting m
      \<and> settled_count tk [(fst p, y)] = card {k. mock_waiting m k = Some tk \<and> mock_waiting m1 k = None}"
    if "omap_get (mk_pending m) cid = Some p" "mk_pending m1 = omap_delete cid (mk_pending m)"
    for cid p and m1 :: "'a mock_manager" and y :: "'a settlement"
    using that by (intro settled_count_one [of _ cid]) (auto simp: mock_waiting_def)
  have all: "settled_count tk (map (\<lambda>(k, p). (fst p, Rejected Mock_cleanup :: 'a settlement)) (mk_pending m))
      = card {k. mock_waiting m k = Some tk}" "\<And>m1 :: 'a mock_manager. mk_pending m1 = [] \<Longrightarrow> mock_waiting m1 = Map.empty"
    using settled_count_all [OF assms [unfolded mock_keys_def], of tk fst] by (simp_all add: mock_waiting_def fun_eq_iff)
  show "mock_waiting (snd (mock_settle e m)) \<subseteq>\<^sub>m mock_waiting m
      \<and> settled_count tk (fst (mock_settle e m))
        = card {k. mock_waiting m k = Some tk \<and> mock_waiting (snd (mock_settle e m)) k = None}"
  proof (cases e)
    case (Mock_response cid v)
    then show ?thesis using one [of cid] none by (cases "omap_get (mk_pending m) cid") (simp_all add: mock_response_def)
  next
    case (Mock_error cid s)
    then show ?thesis using one [of cid] none by (cases "omap_get (mk_pending m) cid") (simp_all add: mock_error_def)
  next
    case (Mock_trigger cid)
    then show ?thesis using one [of cid] none by (cases "omap_get (mk_pending m) cid") (simp_all add: mock_timeout_def)
  qed (simp_all add: mock_clear_def mock_reset_def Let_def all)
qed

interpretation mock: correlation mock_waiting mock_register mock_settle mock_keys
proof
  fix c :: "'v mock_manager" and cid t d n
  show "finite (dom (mock_waiting c))"
    by (rule finite_subset [OF _ finite_dom_map_of [of "mk_pending c"]]) (auto simp: mock_waiting_def)
  show "\<exists>c1. mock_register t cid d n c = Some c1 \<and> mock_keys c1 \<and> mock_waiting c1 = (mock_waiting c)(cid \<mapsto> n)"
    if "mock_keys c" "mock_waiting c cid = None"
    using that by (auto simp: mock_register_def mock_keys_def mock_waiting_def fun_eq_iff)
  show "mock_register t cid d n c = None" if "mock_waiting c cid \<noteq> None"
    using that by (simp add: mock_register_def mock_waiting_def)
qed (simp_all add: mock_settle_law del: mock_settle.simps)

section \<open>Every waiting request has its timeout\<close>

lemma dash_suffix: "xs @ CHR ''-'' # a = ys @ CHR ''-'' # b \<Longrightarrow> CHR ''-'' \<notin> set a \<Longrightarrow> CHR ''-'' \<notin> set b \<Longrightarrow> a = b"
  by (auto simp: append_eq_append_conv2 Cons_eq_append_conv append_eq_Cons_conv)

lemma numbered_inject: "numbered p t n = numbered p' t' n' \<Longrightarrow> n = n'"
  using dash_suffix [of "p @ int_text t" "nat_digits n" "p' @ int_text t'" "nat_digits n'"] nat_digits_minus
  by (simp add: numbered_def)

definition timer_of :: "string \<Rightarrow> pending_request \<Rightarrow> corr_timer" where
  "timer_of cid p = \<lparr>tm_corr = cid, tm_due = pq_created p + pq_timeout p\<rparr>"

definition timers_ok :: "manager \<Rightarrow> bool" where
  "timers_ok m \<longleftrightarrow>
     (\<forall>cid p. omap_get (cm_pending m) cid = Some p \<longrightarrow> omap_get (cm_timers m) (pq_timer p) = Some (timer_of cid p))
   \<and> (\<forall>i. omap_get (cm_timers m) i \<noteq> None \<longrightarrow> (\<exists>t n. i = numbered ''timeout-'' t n \<and> n < cm_timer_ids m))"

lemma timers_ok_removed:
  assumes "timers_ok m" "cm_pending m1 = omap_delete cid (cm_pending m)" "cm_timer_ids m1 = cm_timer_ids m"
    "cm_timers m1 = cm_timers m \<or> (\<exists>i t. omap_get (cm_timers m) i = Some t \<and> tm_corr t = cid \<and> cm_timers m1 = omap_delete i (cm_timers m))"
  shows "timers_ok m1"
  using assms(4)
proof (elim disjE exE conjE)
  fix i t assume t: "omap_get (cm_timers m) i = Some t" "tm_corr t = cid" "cm_timers m1 = omap_delete i (cm_timers m)"
  have "pq_timer p \<noteq> i" if "omap_get (cm_pending m) c = Some p" "c \<noteq> cid" for c p
    using assms(1) that t unfolding timers_ok_def by (metis corr_timer.select_convs(1) option.inject timer_of_def)
  then show ?thesis using assms(1-3) t(3) by (simp add: timers_ok_def)
qed (use assms(1-3) in \<open>simp add: timers_ok_def\<close>)

lemma omap_delete_absent: "omap_get m k = None \<Longrightarrow> omap_delete k m = m"
  by (simp add: map_of_eq_None_iff delete_idem)

lemma handle_timeout_state: "snd (handle_timeout now cid m) = remove_pending cid m"
  by (cases "omap_get (cm_pending m) cid") (simp_all add: handle_timeout_def remove_pending_def omap_delete_absent)

lemma timers_ok_timeout:
  assumes "timers_ok m"
  shows "timers_ok (snd (handle_timeout now cid m))"
    "omap_get (cm_timers m) i = Some t \<Longrightarrow> timers_ok (clear_timeout i (snd (handle_timeout now (tm_corr t) m)))"
  by (rule timers_ok_removed [OF assms, of _ cid], simp_all add: handle_timeout_state remove_pending_def)
    (rule timers_ok_removed [OF assms, of _ "tm_corr t"], auto simp: clear_timeout_def)

lemma timers_ok_settle:
  assumes "timers_ok m"
  shows "timers_ok (snd (corr_settle e m))"
proof -
  obtain now x where e: "e = (now, x)" by (cases e)
  have one: "timers_ok (remove_pending cid (clear_timeout (pq_timer p) m))" if "omap_get (cm_pending m) cid = Some p" for cid p
  proof (rule timers_ok_removed [OF assms, of _ cid])
    have "omap_get (cm_timers m) (pq_timer p) = Some (timer_of cid p)" using assms that by (simp add: timers_ok_def)
    then show "cm_timers (remove_pending cid (clear_timeout (pq_timer p) m)) = cm_timers m \<or>
        (\<exists>i t. omap_get (cm_timers m) i = Some t \<and> tm_corr t = cid
           \<and> cm_timers (remove_pending cid (clear_timeout (pq_timer p) m)) = omap_delete i (cm_timers m))"
      by (intro disjI2 exI [of _ "pq_timer p"] exI [of _ "timer_of cid p"]) (simp add: timer_of_def remove_pending_def clear_timeout_def)
  qed (simp_all add: remove_pending_def clear_timeout_def)
  have "timers_ok (snd (clear_all_requests m :: 'a settled \<times> manager))" "timers_ok (snd (destroy_manager m :: 'a settled \<times> manager))"
    "timers_ok (snd (generate_id now m))"
    using assms by (simp_all add: timers_ok_def clear_all_requests_def destroy_manager_def generate_id_def clear_all_timeouts_def Let_def split_beta)
  then show ?thesis using assms one timers_ok_timeout [OF assms]
    by (cases x) (auto simp: e handle_response_def handle_error_def fire_timeout_def Let_def split_beta split: option.split)
qed

lemma timers_ok_register:
  assumes "timers_ok m" "register_request now cid d tk m = Some m1"
  shows "timers_ok m1"
proof -
  let ?i = "numbered ''timeout-'' now (cm_timer_ids m)"
  have fresh: "omap_get (cm_timers m) ?i = None"
    using assms(1) numbered_inject by (fastforce simp: timers_ok_def)
  have "m1 = m\<lparr>cm_timer_ids := cm_timer_ids m + 1, cm_timers := omap_set ?i \<lparr>tm_corr = cid, tm_due = now + d\<rparr> (cm_timers m),
      cm_pending := omap_set cid \<lparr>pq_ticket = tk, pq_created = now, pq_timeout = d, pq_timer = ?i\<rparr> (cm_pending m)\<rparr>"
    using assms(2) by (simp add: register_request_def set_timeout_def Let_def split: if_splits)
  then show ?thesis using assms(1) fresh
    by (auto simp: timers_ok_def timer_of_def dest: less_SucI) (metis less_SucI option.distinct(1))+
qed

lemma timers_ok_run:
  "timers_ok m \<Longrightarrow> run_corr register_request corr_settle ops n m = (out, n1, m1) \<Longrightarrow> timers_ok m1"
proof (induction ops arbitrary: n m out)
  case (Cons x ops)
  show ?case
  proof (cases x)
    case (Enroll t cid d)
    then show ?thesis using Cons by (cases "register_request t cid d n m") (auto dest: timers_ok_register)
  next
    case (Settle e)
    then show ?thesis using Cons.prems Cons.IH [OF timers_ok_settle [OF Cons.prems(1), of e], of n]
      by (cases "run_corr register_request corr_settle ops n (snd (corr_settle e m))") (simp add: split_beta Let_def)
  qed
qed simp

definition corr_history :: "(ms, ms \<times> 'v corr_event) corr_op list \<Rightarrow> 'v settled \<times> nat \<times> manager" where
  "corr_history ops = run_corr register_request corr_settle ops 0 new_manager"

text \<open>
  C17. After any history of a correlation manager (registrations under any ids, responses, errors, timeouts, clearing)
  each promise handed out is settled exactly once or waits under exactly one id, no other promise is settled, and each waiting request
  has a live timeout of its own, due at its creation time plus its timeout: no request waits for ever.\<close>

theorem requests_settled_once:
  "case corr_history ops of (out, n, m) \<Rightarrow>
     (\<forall>tk. settled_count tk out + card {cid. mgr_waiting m cid = Some tk} = (if tk < n then 1 else 0))
     \<and> (\<forall>cid. case omap_get (cm_pending m) cid of
            None \<Rightarrow> True
          | Some p \<Rightarrow> omap_get (cm_timers m) (pq_timer p) = Some \<lparr>tm_corr = cid, tm_due = pq_created p + pq_timeout p\<rparr>)"
proof -
  obtain out n m where h: "corr_history ops = (out, n, m)" by (cases "corr_history ops")
  note r = h [unfolded corr_history_def]
  have "settled_count tk out + card {cid. mgr_waiting m cid = Some tk} = (if tk < n then 1 else 0)" for tk
    using xstate.settled_or_waiting [OF _ _ r, of tk] by (simp add: xstate.wait_count_def new_manager_def mgr_keys_def mgr_waiting_def fun_eq_iff)
  moreover have "timers_ok m" by (rule timers_ok_run [OF _ r]) (simp add: timers_ok_def new_manager_def)
  ultimately show ?thesis by (simp add: h timers_ok_def timer_of_def split: option.split)
qed

text \<open>The mock manager, after any history: the same account of its promises.\<close>

lemma mock_settled_once:
  assumes "run_corr mock_register mock_settle ops 0 \<lparr>mk_pending = [], mk_responses = [], mk_timeouts = [], mk_ids = 0\<rparr> = (out, n, m)"
  shows "settled_count tk out + card {cid. mock_waiting m cid = Some tk} = (if tk < n then 1 else 0)"
  using mock.settled_or_waiting [OF _ _ assms, of tk] by (simp add: mock.wait_count_def mock_keys_def mock_waiting_def fun_eq_iff)

text \<open>A timeout handled from outside, as the ask pattern does, leaves its entry behind until it is due.\<close>

lemma outside_timeout_leaves_entry:
  "case corr_history [Enroll 0 ''a'' 100, Settle (10, Timeout_of ''a'')] of
     (out, n, m) \<Rightarrow> cm_pending m = [] \<and> map snd (cm_timers m) = [\<lparr>tm_corr = ''a'', tm_due = 100\<rparr>]"
  by code_simp

end
