(* ===== verification/Ask_Pattern.thy ===== *)
theory Ask_Pattern
  imports Request_Correlation Json_Values
begin

text \<open>
  The ask pattern of \<open>actor-system-impl.ts\<close> (\<open>askLocalActor\<close>, \<open>sendRuntimeRequest\<close> and the requests built on it)
  over the correlation manager, with the reply message of \<open>otp-message-plan-processor.ts\<close> and the timeout of
  \<open>ask-pattern-safeguards.ts\<close>. Messages are JSON values. A call is registered, then sends (which takes time and may
  fail), then waits; everything between two awaits is a step. The promise of the \<open>k\<close>-th call is the ticket \<open>k\<close>.
\<close>

section \<open>Replies\<close>

definition spread_reply :: "json \<Rightarrow> (string \<times> json) list" where
  "spread_reply r = (case r of
       JArray xs \<Rightarrow> [(''payload'', r)]
     | JObject fs \<Rightarrow> fs
     | _ \<Rightarrow> [(''value'', r)])"

definition reply_message :: "string \<Rightarrow> json \<Rightarrow> string \<Rightarrow> ms \<Rightarrow> json" where
  "reply_message message_type r cid now =
     JObject (with_fields [(''_correlationId'', JString cid), (''_timestamp'', JNumber (of_int now)), (''_version'', JString ''2.0.0'')]
       (with_fields (spread_reply r) [(''type'', JString message_type)]))"

definition envelope_keys :: "string list" where
  "envelope_keys = [''type'', ''_timestamp'', ''_version'', ''_correlationId'', ''_sender'']"

text \<open>What the asker is given.\<close>

definition ask_result :: "json \<Rightarrow> json" where
  "ask_result r = (case r of
       JObject fs \<Rightarrow>
         (if field r ''type'' \<noteq> None \<and> field r ''_timestamp'' \<noteq> None \<and> field r ''_version'' \<noteq> None
          then (let response = filter (\<lambda>x. fst x \<notin> set envelope_keys) fs
                in case response of
                     [(k, v)] \<Rightarrow> if k = ''value'' \<or> k = ''payload'' then v else JObject response
                   | _ \<Rightarrow> JObject response)
          else r)
     | _ \<Rightarrow> r)"

section \<open>Calls\<close>

datatype request_kind = Ask_request | Snapshot_request | Stop_request | Stats_request | Sync_request

fun response_type :: "request_kind \<Rightarrow> string" where
  "response_type Ask_request = ''__runtime.remote.ask.response''"
| "response_type Snapshot_request = ''__runtime.remote.snapshot.fetch.response''"
| "response_type Stop_request = ''__runtime.remote.stop.response''"
| "response_type Stats_request = ''__runtime.remote.stats.response''"
| "response_type Sync_request = ''__runtime.directory.sync.response''"

text \<open>What a request returns: \<open>None\<close> is \<open>undefined\<close>.\<close>

fun response_value :: "request_kind \<Rightarrow> json \<Rightarrow> json option" where
  "response_value Stop_request r = None"
| "response_value Sync_request r = field r ''entries''"
| "response_value _ r = field r ''payload''"

datatype call_kind = Local_call | Remote_call request_kind

datatype ask_error = Ask_timeout | Request_failed corr_error | Send_error string | Unexpected_response

datatype call_phase = Sending | Awaiting | Finished "ask_error + json option"

datatype ask_timer = No_timer | Armed ms | Fired | Stopped

record ask_call =
  ak_kind :: call_kind
  ak_corr :: string
  ak_started :: ms
  ak_timeout :: ms
  ak_timer :: ask_timer
  ak_phase :: call_phase
  ak_observed :: bool     \<comment> \<open>whether the call ever awaited its promise\<close>

record ask_system =
  as_mgr :: manager
  as_calls :: "ask_call list"
  as_settled :: "json settled"

definition new_ask_system :: ask_system where
  "new_ask_system = \<lparr>as_mgr = new_manager, as_calls = [], as_settled = []\<rparr>"

definition promise_of :: "nat \<Rightarrow> ask_system \<Rightarrow> json settlement option" where
  "promise_of k s = map_of (as_settled s) k"

definition set_call :: "nat \<Rightarrow> ask_call \<Rightarrow> ask_system \<Rightarrow> ask_system" where
  "set_call k c s = s\<lparr>as_calls := (as_calls s)[k := c]\<rparr>"

definition apply_mgr :: "json settled \<times> manager \<Rightarrow> ask_system \<Rightarrow> ask_system" where
  "apply_mgr r s = s\<lparr>as_mgr := snd r, as_settled := as_settled s @ fst r\<rparr>"

text \<open>The timeout the correlation manager is given: ten times that of the ask, or that of the request.\<close>

definition corr_timeout :: "call_kind \<Rightarrow> ms \<Rightarrow> ms" where
  "corr_timeout kind d = (case kind of Local_call \<Rightarrow> d * 10 | Remote_call _ \<Rightarrow> d)"

definition begin_call :: "call_kind \<Rightarrow> ms \<Rightarrow> ms \<Rightarrow> ask_system \<Rightarrow> ask_system" where
  "begin_call kind d now s =
     (let k = length (as_calls s); (cid, m) = generate_id now (as_mgr s);
          c = \<lparr>ak_kind = kind, ak_corr = cid, ak_started = now, ak_timeout = d,
               ak_timer = (case kind of Local_call \<Rightarrow> Armed (now + d) | Remote_call _ \<Rightarrow> No_timer),
               ak_phase = Sending, ak_observed = False\<rparr>
      in case register_request now cid (corr_timeout kind d) k m of
           Some m1 \<Rightarrow> s\<lparr>as_mgr := m1, as_calls := as_calls s @ [c]\<rparr>
         | None \<Rightarrow> s\<lparr>as_mgr := m, as_calls := as_calls s @ [c],
             as_settled := as_settled s @ [(k, Rejected (Failed_with (''Correlation ID already in use: '' @ cid)))]\<rparr>)"

definition cancel_timer :: "ask_call \<Rightarrow> ask_call" where
  "cancel_timer c = c\<lparr>ak_timer := (case ak_timer c of Armed d \<Rightarrow> Stopped | t \<Rightarrow> t)\<rparr>"

text \<open>A call that waits goes on when its promise is settled or, for a local ask, its own timer has fired.\<close>

definition finish_local :: "ms \<Rightarrow> nat \<Rightarrow> ask_call \<Rightarrow> ask_system \<Rightarrow> ask_system" where
  "finish_local now k c s = (case promise_of k s of
       Some (Resolved v) \<Rightarrow> set_call k ((cancel_timer c)\<lparr>ak_phase := Finished (Inr (Some (ask_result v)))\<rparr>) s
     | Some (Rejected e) \<Rightarrow> set_call k ((cancel_timer c)\<lparr>ak_phase := Finished (Inl (Request_failed e))\<rparr>) s
     | None \<Rightarrow>
         (if ak_timer c = Fired
          then apply_mgr (handle_timeout now (ak_corr c) (as_mgr s))
                 (set_call k ((cancel_timer c)\<lparr>ak_phase := Finished (Inl Ask_timeout)\<rparr>) s)
          else s))"

definition finish_remote :: "request_kind \<Rightarrow> nat \<Rightarrow> ask_call \<Rightarrow> ask_system \<Rightarrow> ask_system" where
  "finish_remote kind k c s = (case promise_of k s of
       Some (Resolved v) \<Rightarrow>
         set_call k (c\<lparr>ak_phase := Finished (if field v ''type'' = Some (JString (response_type kind))
                                          then Inr (response_value kind v) else Inl Unexpected_response)\<rparr>) s
     | Some (Rejected e) \<Rightarrow>
         apply_mgr (handle_error (ak_corr c) '''' (as_mgr s)) (set_call k (c\<lparr>ak_phase := Finished (Inl (Request_failed e))\<rparr>) s)
     | None \<Rightarrow> s)"

definition wake_call :: "ms \<Rightarrow> nat \<Rightarrow> ask_system \<Rightarrow> ask_system" where
  "wake_call now k s =
     (if k < length (as_calls s) \<and> ak_phase (as_calls s ! k) = Awaiting
      then (case ak_kind (as_calls s ! k) of
              Local_call \<Rightarrow> finish_local now k (as_calls s ! k) s
            | Remote_call kind \<Rightarrow> finish_remote kind k (as_calls s ! k) s)
      else s)"

text \<open>An operation of the manager, then the calls whose promises it settled.\<close>

definition manager_step :: "ms \<Rightarrow> json settled \<times> manager \<Rightarrow> ask_system \<Rightarrow> ask_system" where
  "manager_step now r s = fold (wake_call now) (map fst (fst r)) (apply_mgr r s)"

definition send_done :: "ms \<Rightarrow> nat \<Rightarrow> ask_system \<Rightarrow> ask_system" where
  "send_done now k s =
     (if k < length (as_calls s) \<and> ak_phase (as_calls s ! k) = Sending
      then wake_call now k (set_call k ((as_calls s ! k)\<lparr>ak_phase := Awaiting, ak_observed := True\<rparr>) s) else s)"

definition send_failed :: "nat \<Rightarrow> string \<Rightarrow> ask_system \<Rightarrow> ask_system" where
  "send_failed k err s =
     (if k < length (as_calls s) \<and> ak_phase (as_calls s ! k) = Sending
      then (let c = (as_calls s ! k); s1 = set_call k (c\<lparr>ak_phase := Finished (Inl (Send_error err))\<rparr>) s
            in case ak_kind c of
                 Local_call \<Rightarrow> s1
               | Remote_call _ \<Rightarrow> apply_mgr (handle_error (ak_corr c) err (as_mgr s1)) s1)
      else s)"

definition ask_timer_fires :: "ms \<Rightarrow> nat \<Rightarrow> ask_system \<Rightarrow> ask_system" where
  "ask_timer_fires now k s =
     (if k < length (as_calls s)
      then (case ak_timer (as_calls s ! k) of
              Armed d \<Rightarrow> if now < d then s else wake_call now k (set_call k ((as_calls s ! k)\<lparr>ak_timer := Fired\<rparr>) s)
            | _ \<Rightarrow> s)
      else s)"

section \<open>The system as a machine\<close>

text \<open>A reply or an error comes from a handler or in a frame of any peer: it is matched by its id alone.\<close>

datatype ask_event = Ask_begins call_kind ms | Send_done nat | Send_failed nat string
  | Reply string json | Reply_error string string | Ask_timer_fires nat | Corr_timer_fires string | Requests_cleared

fun ask_step :: "ms \<times> ask_event \<Rightarrow> ask_system \<Rightarrow> ask_system" where
  "ask_step (now, Ask_begins kind d) s = begin_call kind d now s"
| "ask_step (now, Send_done k) s = send_done now k s"
| "ask_step (now, Send_failed k e) s = send_failed k e s"
| "ask_step (now, Reply cid v) s = manager_step now (handle_response cid v (as_mgr s)) s"
| "ask_step (now, Reply_error cid e) s = manager_step now (handle_error cid e (as_mgr s)) s"
| "ask_step (now, Ask_timer_fires k) s = ask_timer_fires now k s"
| "ask_step (now, Corr_timer_fires i) s = manager_step now (fire_timeout now i (as_mgr s)) s"
| "ask_step (now, Requests_cleared) s = manager_step now (clear_all_requests (as_mgr s)) s"

definition ask_run :: "(ms \<times> ask_event) list \<Rightarrow> ask_system" where
  "ask_run es = fold ask_step es new_ask_system"

section \<open>What the asker gets of a reply\<close>

lemma filter_omap_set:
  "filter (\<lambda>x. fst x \<notin> K) (omap_set k v m) =
    (if k \<in> K then filter (\<lambda>x. fst x \<notin> K) m else omap_set k v (filter (\<lambda>x. fst x \<notin> K) m))"
  by (induction m) auto

lemma omap_set_absent: "k \<notin> set (omap_keys m) \<Longrightarrow> omap_set k v m = m @ [(k, v)]"
  by (induction m) auto

lemma filter_with_fields:
  assumes "distinct (omap_keys fs)" "set (omap_keys fs) \<inter> set (omap_keys (filter (\<lambda>x. fst x \<notin> K) base)) = {}"
  shows "filter (\<lambda>x. fst x \<notin> K) (with_fields fs base) = filter (\<lambda>x. fst x \<notin> K) base @ filter (\<lambda>x. fst x \<notin> K) fs"
  using assms
proof (induction fs arbitrary: base)
  case (Cons f fs)
  obtain k v where f: "f = (k, v)" by (cases f)
  have w: "with_fields (f # fs) base = with_fields fs (omap_set k v base)" by (simp add: with_fields_def f)
  have s: "filter (\<lambda>x. fst x \<notin> K) (omap_set k v base)
      = filter (\<lambda>x. fst x \<notin> K) base @ (if k \<in> K then [] else [(k, v)])"
    using Cons.prems(2) f by (auto simp: filter_omap_set intro!: omap_set_absent)
  have "filter (\<lambda>x. fst x \<notin> K) (with_fields fs (omap_set k v base))
      = filter (\<lambda>x. fst x \<notin> K) (omap_set k v base) @ filter (\<lambda>x. fst x \<notin> K) fs"
    using Cons.prems by (intro Cons.IH) (auto simp: s f)
  then show ?case unfolding w s by (simp add: f)
qed (simp add: with_fields_def)

lemma filter_with_fields_in:
  "set (omap_keys fs) \<subseteq> K \<Longrightarrow> filter (\<lambda>x. fst x \<notin> K) (with_fields fs base) = filter (\<lambda>x. fst x \<notin> K) base"
  by (induction fs arbitrary: base) (auto simp: with_fields_def filter_omap_set)

lemma reply_message_data:
  assumes "distinct (omap_keys (spread_reply r))"
  shows "filter (\<lambda>x. fst x \<notin> set envelope_keys) (object_fields (reply_message mt r cid now))
    = filter (\<lambda>x. fst x \<notin> set envelope_keys) (spread_reply r)"
proof -
  have "filter (\<lambda>x. fst x \<notin> set envelope_keys) (with_fields (spread_reply r) [(''type'', JString mt)])
      = filter (\<lambda>x. fst x \<notin> set envelope_keys) (spread_reply r)"
    using filter_with_fields [OF assms, of "set envelope_keys" "[(''type'', JString mt)]"] by (simp add: envelope_keys_def)
  moreover have "set (omap_keys [(''_correlationId'', JString cid), (''_timestamp'', JNumber (of_int now)), (''_version'', JString ''2.0.0'')])
      \<subseteq> set envelope_keys" by (simp add: envelope_keys_def)
  ultimately show ?thesis unfolding reply_message_def object_fields.simps by (simp only: filter_with_fields_in)
qed

lemma reply_message_envelope:
  "field (reply_message mt r cid now) ''type'' \<noteq> None" "field (reply_message mt r cid now) ''_timestamp'' \<noteq> None"
  "field (reply_message mt r cid now) ''_version'' \<noteq> None"
  by (auto simp: reply_message_def with_fields_get split: option.split)

definition reply_kept :: "json \<Rightarrow> bool" where
  "reply_kept r \<longleftrightarrow> (case r of
       JObject fs \<Rightarrow> list_all (\<lambda>k. k \<notin> set envelope_keys) (omap_keys fs)
         \<and> omap_keys fs \<noteq> [''value''] \<and> omap_keys fs \<noteq> [''payload'']
     | _ \<Rightarrow> True)"

lemma ask_result_data:
  assumes "distinct (omap_keys (spread_reply r))"
  shows "ask_result (reply_message mt r cid now) =
    (let response = filter (\<lambda>x. fst x \<notin> set envelope_keys) (spread_reply r)
     in case response of
          [(k, v)] \<Rightarrow> if k = ''value'' \<or> k = ''payload'' then v else JObject response
        | _ \<Rightarrow> JObject response)"
proof -
  have m: "reply_message mt r cid now = JObject (object_fields (reply_message mt r cid now))" by (simp add: reply_message_def)
  show ?thesis using reply_message_envelope [of mt r cid now]
    by (subst m, subst (asm) (1 2 3) m) (simp add: ask_result_def reply_message_data [OF assms])
qed

lemma json_not_inside: "v \<noteq> JObject [(k, v)]"
proof
  assume "v = JObject [(k, v)]"
  then have "size v = size (JObject [(k, v)])" by simp
  then show False by simp
qed

text \<open>
  A handler's reply reaches the asker unchanged exactly when it is not an object, or an object without envelope
  fields (\<open>type\<close>, \<open>_sender\<close>, \<open>_timestamp\<close>, \<open>_version\<close>, \<open>_correlationId\<close>) whose only field is not \<open>value\<close> or \<open>payload\<close>:
  envelope fields of a reply are lost, and an object with the single field \<open>value\<close> or \<open>payload\<close> is unwrapped.\<close>

theorem ask_reply_exact:
  assumes "distinct (omap_keys (spread_reply r))"
  shows "ask_result (reply_message mt r cid now) = r \<longleftrightarrow> reply_kept r"
proof (cases r)
  case (JObject fs)
  let ?d = "filter (\<lambda>x. fst x \<notin> set envelope_keys) fs"
  have r: "ask_result (reply_message mt r cid now) =
      (case ?d of [(k, v)] \<Rightarrow> if k = ''value'' \<or> k = ''payload'' then v else JObject ?d | _ \<Rightarrow> JObject ?d)"
    using ask_result_data [OF assms, of mt cid now] by (simp add: JObject spread_reply_def Let_def)
  have same: "?d = fs \<longleftrightarrow> list_all (\<lambda>k. k \<notin> set envelope_keys) (omap_keys fs)"
    by (auto simp: list_all_iff filter_id_conv)
  show ?thesis
  proof (cases "\<exists>k v. ?d = [(k, v)] \<and> (k = ''value'' \<or> k = ''payload'')")
    case True
    then obtain k v where d: "?d = [(k, v)]" "k = ''value'' \<or> k = ''payload''" by blast
    show ?thesis
    proof (cases "?d = fs")
      case True
      then show ?thesis using d r json_not_inside [of v k] same by (auto simp: JObject reply_kept_def)
    next
      case False
      have "v \<noteq> JObject fs"
      proof
        assume v: "v = JObject fs"
        have "(k, v) \<in> set fs" using d(1) by (metis (no_types, lifting) filter_is_subset list.set_intros(1) subsetD)
        then have "size v < size (JObject fs)" by (induction fs) auto
        then show False using v by simp
      qed
      then show ?thesis using False d r same by (auto simp: JObject reply_kept_def)
    qed
  next
    case False
    then have "ask_result (reply_message mt r cid now) = JObject ?d" using r by (auto split: list.split)
    moreover have "omap_keys fs \<noteq> [''value''] \<and> omap_keys fs \<noteq> [''payload'']" if "?d = fs"
      using False that by (cases fs) auto
    ultimately show ?thesis using same by (auto simp: JObject reply_kept_def)
  qed
qed (use ask_result_data [OF assms, of mt cid now] in
     \<open>simp_all add: spread_reply_def reply_kept_def envelope_keys_def Let_def\<close>)

theorem ask_reply_exact_witness:
  "ask_result (reply_message ''GET'' (JObject [(''n'', JNumber 5), (''type'', JString ''x'')]) ''c'' 7) \<noteq> JObject [(''n'', JNumber 5), (''type'', JString ''x'')]
    \<and> ask_result (reply_message ''GET'' (JObject [(''value'', JNumber 5)]) ''c'' 7) \<noteq> JObject [(''value'', JNumber 5)]
    \<and> ask_result (reply_message ''GET'' (JObject [(''n'', JNumber 5)]) ''c'' 7) = JObject [(''n'', JNumber 5)]"
  using ask_reply_exact [of "JObject [(''n'', JNumber 5), (''type'', JString ''x'')]" "''GET''" "''c''" 7]
    ask_reply_exact [of "JObject [(''value'', JNumber 5)]" "''GET''" "''c''" 7] ask_reply_exact [of "JObject [(''n'', JNumber 5)]" "''GET''" "''c''" 7]
  by (simp add: spread_reply_def reply_kept_def envelope_keys_def)

section \<open>What an operation of the manager settles\<close>

definition settles :: "manager \<Rightarrow> json settled \<times> manager \<Rightarrow> bool" where
  "settles m r \<longleftrightarrow> timers_ok (snd r) \<and> mgr_keys (snd r) \<and> cm_requests (snd r) = cm_requests m
     \<and> omap_get (cm_pending (snd r)) \<subseteq>\<^sub>m omap_get (cm_pending m)
     \<and> (\<forall>cid p. omap_get (cm_pending m) cid = Some p \<and> omap_get (cm_pending (snd r)) cid = None \<longrightarrow> pq_ticket p \<in> fst ` set (fst r))
     \<and> (\<forall>k \<in> fst ` set (fst r). \<exists>cid p. omap_get (cm_pending m) cid = Some p \<and> pq_ticket p = k
          \<and> omap_get (cm_pending (snd r)) cid = None)"

lemma settles_removed:
  assumes "timers_ok (snd r)" "mgr_keys (snd r)" "cm_requests (snd r) = cm_requests m"
    "cm_pending (snd r) = omap_delete cid (cm_pending m)" "omap_get (cm_pending m) cid = Some p" "map fst (fst r) = [pq_ticket p]"
  shows "settles m r"
proof -
  have "fst ` set (fst r) = {pq_ticket p}" using assms(6) by (metis list.set(1) list.simps(15) set_map)
  then show ?thesis using assms by (auto simp: settles_def map_le_def split: if_splits)
qed

lemma settles_nothing: "timers_ok m \<Longrightarrow> mgr_keys m \<Longrightarrow> settles m ([], m)"
  by (simp add: settles_def)

lemma settles_ops:
  assumes "timers_ok m" "mgr_keys m"
  shows "settles m (handle_response cid v m)" "settles m (handle_error cid e m)" "settles m (handle_timeout now cid m)"
    "settles m (fire_timeout now i m)" "settles m (clear_all_requests m)"
proof -
  note t = timers_ok_settle [OF assms(1)] and k = corr_settle_law(1) [OF assms(2)]
  show "settles m (handle_response cid v m)"
  proof (cases "omap_get (cm_pending m) cid")
    case (Some p)
    then show ?thesis using t [of "(0, Response cid v)"] k [of "(0, Response cid v)"]
      by (intro settles_removed [OF _ _ _ _ Some]) (simp_all add: handle_response_def remove_pending_def clear_timeout_def)
  qed (use assms in \<open>simp add: handle_response_def settles_nothing\<close>)
  show "settles m (handle_error cid e m)"
  proof (cases "omap_get (cm_pending m) cid")
    case (Some p)
    then show ?thesis using t [of "(0, Error_reply cid e)"] k [of "(0, Error_reply cid e)"]
      by (intro settles_removed [OF _ _ _ _ Some]) (simp_all add: handle_error_def remove_pending_def clear_timeout_def)
  qed (use assms in \<open>simp add: handle_error_def settles_nothing\<close>)
  show h: "settles m (handle_timeout now cid m)" for cid
  proof (cases "omap_get (cm_pending m) cid")
    case (Some p)
    then show ?thesis using t [of "(now, Timeout_of cid)"] k [of "(now, Timeout_of cid)"]
      by (intro settles_removed [OF _ _ _ _ Some]) (simp_all add: handle_timeout_def remove_pending_def)
  qed (use assms in \<open>simp add: handle_timeout_def settles_nothing\<close>)
  show "settles m (fire_timeout now i m)"
  proof (cases "omap_get (cm_timers m) i")
    case (Some t')
    show ?thesis
    proof (cases "now < tm_due t'")
      case False
      let ?h = "handle_timeout now (tm_corr t') m :: json settled \<times> manager"
      from False have f: "fire_timeout now i m = (fst ?h, clear_timeout i (snd ?h))"
        using Some by (simp add: fire_timeout_def Let_def split_beta)
      have "cm_pending (clear_timeout i x) = cm_pending x" "cm_requests (clear_timeout i x) = cm_requests x" for x
        by (simp_all add: clear_timeout_def)
      then show ?thesis using timers_ok_timeout(2) [OF assms(1) Some, of now] h [of "tm_corr t'"]
        by (simp add: f settles_def)
    qed (use assms Some in \<open>simp add: fire_timeout_def settles_nothing\<close>)
  qed (use assms in \<open>simp add: fire_timeout_def settles_nothing\<close>)
  have out: "fst ` set (fst (clear_all_requests m :: json settled \<times> manager)) = (\<lambda>x. pq_ticket (snd x)) ` set (cm_pending m)"
    by (force simp: clear_all_requests_def)
  have st: "cm_pending (snd (clear_all_requests m :: json settled \<times> manager)) = []"
    "cm_requests (snd (clear_all_requests m :: json settled \<times> manager)) = cm_requests m"
    by (simp_all add: clear_all_requests_def clear_all_timeouts_def)
  have d: "(c, p) \<in> set (cm_pending m) \<longleftrightarrow> omap_get (cm_pending m) c = Some p" for c p
    using assms(2) by (simp add: mgr_keys_def)
  show "settles m (clear_all_requests m)" unfolding settles_def out st
  proof (intro conjI allI impI ballI)
    fix k assume "k \<in> (\<lambda>x. pq_ticket (snd x)) ` set (cm_pending m)"
    then show "\<exists>cid p. omap_get (cm_pending m) cid = Some p \<and> pq_ticket p = k \<and> omap_get [] cid = None"
      using d by (force simp: split_paired_all)
  next
    fix cid p assume "omap_get (cm_pending m) cid = Some p \<and> omap_get [] cid = None"
    then show "pq_ticket p \<in> (\<lambda>x. pq_ticket (snd x)) ` set (cm_pending m)" using d [of cid p] by force
  qed (use t [of "(0, Clear_all)"] k [of "(0, Clear_all)"] in \<open>simp_all add: map_le_def\<close>)
qed

section \<open>The invariant of calls\<close>

definition pending_ok :: "ask_system \<Rightarrow> string \<Rightarrow> pending_request \<Rightarrow> bool" where
  "pending_ok s cid p \<longleftrightarrow> pq_ticket p < length (as_calls s) \<and> promise_of (pq_ticket p) s = None
     \<and> (let c = as_calls s ! pq_ticket p
        in ak_corr c = cid \<and> pq_created p = ak_started c \<and> pq_timeout p = corr_timeout (ak_kind c) (ak_timeout c))"

definition timer_ok :: "ask_call \<Rightarrow> bool" where
  "timer_ok c \<longleftrightarrow> (case ak_kind c of
       Local_call \<Rightarrow> ak_timer c = Armed (ak_started c + ak_timeout c) \<or> ak_timer c = Fired
     | Remote_call _ \<Rightarrow> ak_timer c = No_timer)"

text \<open>A call that is not finished has its promise settled or registered, and its timer running or fired.\<close>

definition call_ok :: "ask_system \<Rightarrow> nat \<Rightarrow> ask_call \<Rightarrow> bool" where
  "call_ok s k c \<longleftrightarrow> (\<exists>t i. ak_corr c = numbered ''corr-'' t i \<and> i \<le> cm_requests (as_mgr s))
     \<and> ((\<exists>r. ak_phase c = Finished r)
        \<or> timer_ok c \<and> ak_observed c = (ak_phase c = Awaiting)
          \<and> (promise_of k s \<noteq> None \<or> mgr_waiting (as_mgr s) (ak_corr c) = Some k))"

text \<open>A call that awaits has nothing to go on with.\<close>

definition call_quiet :: "ask_system \<Rightarrow> nat \<Rightarrow> ask_call \<Rightarrow> bool" where
  "call_quiet s k c \<longleftrightarrow> (ak_phase c = Awaiting \<longrightarrow> promise_of k s = None \<and> ak_timer c \<noteq> Fired)"

definition ask_inv :: "nat set \<Rightarrow> ask_system \<Rightarrow> bool" where
  "ask_inv K s \<longleftrightarrow> timers_ok (as_mgr s) \<and> mgr_keys (as_mgr s)
     \<and> (\<forall>cid p. omap_get (cm_pending (as_mgr s)) cid = Some p \<longrightarrow> pending_ok s cid p)
     \<and> (\<forall>k < length (as_calls s). call_ok s k (as_calls s ! k) \<and> (k \<notin> K \<longrightarrow> call_quiet s k (as_calls s ! k)))
     \<and> (\<forall>x \<in> set (as_settled s). fst x < length (as_calls s))
     \<and> distinct (map ak_corr (as_calls s))"

lemma ask_invD:
  assumes "ask_inv K s"
  shows "timers_ok (as_mgr s)" "mgr_keys (as_mgr s)"
    "\<And>cid p. omap_get (cm_pending (as_mgr s)) cid = Some p \<Longrightarrow> pending_ok s cid p"
    "\<And>k. k < length (as_calls s) \<Longrightarrow> call_ok s k (as_calls s ! k)"
    "\<And>k. k < length (as_calls s) \<Longrightarrow> k \<notin> K \<Longrightarrow> call_quiet s k (as_calls s ! k)"
    "\<And>x. x \<in> set (as_settled s) \<Longrightarrow> fst x < length (as_calls s)"
    "distinct (map ak_corr (as_calls s))"
  using assms by (auto simp: ask_inv_def)

lemma promise_apply: "promise_of k (apply_mgr r s) =
    (case promise_of k s of None \<Rightarrow> map_of (fst r) k | Some x \<Rightarrow> Some x)"
  by (simp add: promise_of_def apply_mgr_def map_add_def)

lemma apply_mgr_simps [simp]: "as_calls (apply_mgr r s) = as_calls s" "as_mgr (apply_mgr r s) = snd r"
  "as_settled (apply_mgr r s) = as_settled s @ fst r"
  by (simp_all add: apply_mgr_def)

lemma apply_mgr_nothing [simp]: "as_mgr s = m \<Longrightarrow> apply_mgr ([], m) s = s"
  by (auto simp: apply_mgr_def)

lemma set_call_simps [simp]: "as_calls (set_call k c s) = (as_calls s)[k := c]" "as_mgr (set_call k c s) = as_mgr s"
  "as_settled (set_call k c s) = as_settled s" "promise_of j (set_call k c s) = promise_of j s"
  by (simp_all add: set_call_def promise_of_def)

lemma timer_ok_updates [simp]: "timer_ok (c\<lparr>ak_phase := p, ak_observed := b\<rparr>) = timer_ok c"
  by (simp add: timer_ok_def split: call_kind.split)

lemma ask_inv_apply:
  assumes inv: "ask_inv K s" and r: "settles (as_mgr s) r"
  shows "ask_inv (K \<union> fst ` set (fst r)) (apply_mgr r s)"
  unfolding ask_inv_def
proof (intro conjI allI impI ballI)
  note D = ask_invD [OF inv]
  have sub: "omap_get (cm_pending (snd r)) cid = Some p \<Longrightarrow> omap_get (cm_pending (as_mgr s)) cid = Some p" for cid p
    using r unfolding settles_def map_le_def by (metis domI)
  have gone: "\<exists>cid p. omap_get (cm_pending (as_mgr s)) cid = Some p \<and> pq_ticket p = k \<and> omap_get (cm_pending (snd r)) cid = None"
    if "k \<in> fst ` set (fst r)" for k using r that unfolding settles_def by blast
  show "timers_ok (as_mgr (apply_mgr r s))" "mgr_keys (as_mgr (apply_mgr r s))" "distinct (map ak_corr (as_calls (apply_mgr r s)))"
    using r D(7) by (simp_all add: settles_def)
  fix cid p assume p: "omap_get (cm_pending (as_mgr (apply_mgr r s))) cid = Some p"
  then have ok: "pending_ok s cid p" using sub D(3) by simp
  have "pq_ticket p \<notin> fst ` set (fst r)"
  proof
    assume "pq_ticket p \<in> fst ` set (fst r)"
    then obtain c q where "omap_get (cm_pending (as_mgr s)) c = Some q" "pq_ticket q = pq_ticket p" "omap_get (cm_pending (snd r)) c = None"
      using gone by blast
    then show False using D(3) [of c q] ok p by (auto simp: pending_ok_def Let_def)
  qed
  then have "map_of (fst r) (pq_ticket p) = None" by (simp add: map_of_eq_None_iff)
  then show "pending_ok (apply_mgr r s) cid p" using ok by (simp add: pending_ok_def promise_apply)
next
  note D = ask_invD [OF inv]
  fix k assume k: "k < length (as_calls (apply_mgr r s))"
  let ?c = "as_calls s ! k"
  have w: "promise_of k (apply_mgr r s) \<noteq> None \<or> mgr_waiting (snd r) (ak_corr ?c) = Some k"
    if h: "promise_of k s \<noteq> None \<or> mgr_waiting (as_mgr s) (ak_corr ?c) = Some k"
  proof (cases "promise_of k s")
    case None
    then obtain p where p: "omap_get (cm_pending (as_mgr s)) (ak_corr ?c) = Some p" "pq_ticket p = k"
      using h by (auto simp: mgr_waiting_def)
    show ?thesis
    proof (cases "omap_get (cm_pending (snd r)) (ak_corr ?c)")
      case None
      then have "k \<in> fst ` set (fst r)" using r p unfolding settles_def by blast
      then have "map_of (fst r) k \<noteq> None" by (simp add: map_of_eq_None_iff)
      then show ?thesis by (auto simp: promise_apply split: option.split)
    next
      case (Some q)
      then have "q = p" using r p unfolding settles_def map_le_def by (metis domI option.inject)
      then show ?thesis using Some p by (simp add: mgr_waiting_def)
    qed
  qed (simp add: promise_apply)
  show "call_ok (apply_mgr r s) k (as_calls (apply_mgr r s) ! k)"
    using D(4) [of k] k w r unfolding call_ok_def settles_def by auto
  assume "k \<notin> K \<union> fst ` set (fst r)"
  then show "call_quiet (apply_mgr r s) k (as_calls (apply_mgr r s) ! k)"
    using D(5) [of k] k by (auto simp: call_quiet_def promise_apply map_of_eq_None_iff)
next
  fix x assume "x \<in> set (as_settled (apply_mgr r s))"
  moreover have "fst x < length (as_calls s)" if "x \<in> set (fst r)"
  proof -
    obtain cid p where "omap_get (cm_pending (as_mgr s)) cid = Some p" "pq_ticket p = fst x"
      using r \<open>x \<in> set (fst r)\<close> unfolding settles_def by blast
    then show ?thesis using ask_invD(3) [OF inv] by (fastforce simp: pending_ok_def)
  qed
  ultimately show "fst x < length (as_calls (apply_mgr r s))" using ask_invD(6) [OF inv, of x] by auto
qed

lemma ask_inv_set_call:
  assumes "ask_inv K s" "k < length (as_calls s)" "ak_corr c = ak_corr (as_calls s ! k)"
    "ak_started c = ak_started (as_calls s ! k)" "ak_timeout c = ak_timeout (as_calls s ! k)" "ak_kind c = ak_kind (as_calls s ! k)"
    "(\<exists>r. ak_phase c = Finished r)
      \<or> timer_ok c \<and> ak_observed c = (ak_phase c = Awaiting) \<and> \<not> (\<exists>r. ak_phase (as_calls s ! k) = Finished r)"
    "k \<in> L \<or> call_quiet s k c" "K - {k} \<subseteq> L"
  shows "ask_inv L (set_call k c s)"
  unfolding ask_inv_def
proof (intro conjI allI impI ballI)
  note D = ask_invD [OF assms(1)]
  show "timers_ok (as_mgr (set_call k c s))" "mgr_keys (as_mgr (set_call k c s))" using D by simp_all
  have "map ak_corr (as_calls (set_call k c s)) = map ak_corr (as_calls s)"
    using assms(2,3) by (simp add: map_update) (metis length_map list_update_id nth_map)
  then show "distinct (map ak_corr (as_calls (set_call k c s)))" using D(7) by simp
  fix cid p assume "omap_get (cm_pending (as_mgr (set_call k c s))) cid = Some p"
  then show "pending_ok (set_call k c s) cid p"
    using D(3) [of cid p] assms(2-6) by (auto simp: pending_ok_def Let_def nth_list_update)
next
  note D = ask_invD [OF assms(1)]
  fix j assume j: "j < length (as_calls (set_call k c s))"
  show "call_ok (set_call k c s) j (as_calls (set_call k c s) ! j)"
    using D(4) [of j] j assms(2,3,7) by (auto simp: call_ok_def nth_list_update)
  assume "j \<notin> L"
  then show "call_quiet (set_call k c s) j (as_calls (set_call k c s) ! j)"
    using D(5) [of j] j assms(2,8,9) by (auto simp: call_quiet_def nth_list_update)
next
  fix x assume "x \<in> set (as_settled (set_call k c s))"
  then show "fst x < length (as_calls (set_call k c s))" using ask_invD(6) [OF assms(1)] by simp
qed

lemma ask_inv_quiet:
  "ask_inv L s \<Longrightarrow> (\<And>k. k < length (as_calls s) \<Longrightarrow> k \<in> L \<Longrightarrow> k \<notin> K \<Longrightarrow> call_quiet s k (as_calls s ! k)) \<Longrightarrow> ask_inv K s"
  unfolding ask_inv_def by blast

lemma pending_ticket:
  assumes "ask_inv K s" "k < length (as_calls s)" "omap_get (cm_pending (as_mgr s)) (ak_corr (as_calls s ! k)) = Some p"
  shows "pq_ticket p = k" "promise_of k s = None"
proof -
  have "pending_ok s (ak_corr (as_calls s ! k)) p" using ask_invD(3) [OF assms(1,3)] .
  then show "pq_ticket p = k" "promise_of k s = None"
    using ask_invD(7) [OF assms(1)] assms(2) by (auto simp: pending_ok_def Let_def distinct_conv_nth)
qed

lemma corr_settled_tickets:
  assumes "ask_inv K s" "k < length (as_calls s)" "c = ak_corr (as_calls s ! k)"
  shows "fst ` set (fst (handle_timeout now c (as_mgr s) :: json settled \<times> manager)) \<subseteq> {k}"
    "promise_of k s \<noteq> None \<Longrightarrow> handle_error c e (as_mgr s) = ([] :: json settled, as_mgr s)"
    "fst ` set (fst (handle_error c e (as_mgr s) :: json settled \<times> manager)) \<subseteq> {k}"
  using pending_ticket [OF assms(1,2)] unfolding assms(3)
  by (cases "omap_get (cm_pending (as_mgr s)) (ak_corr (as_calls s ! k))"; auto simp: handle_timeout_def handle_error_def)+

lemma ask_inv_wake:
  assumes inv: "ask_inv L s" and sub: "L - {k} \<subseteq> K"
  shows "ask_inv K (wake_call now k s)"
proof (cases "k < length (as_calls s) \<and> ak_phase (as_calls s ! k) = Awaiting")
  case False
  then have "ask_inv K s" using sub by (intro ask_inv_quiet [OF inv]) (auto simp: call_quiet_def)
  then show ?thesis using False unfolding wake_call_def by (simp only: if_False)
next
  case True
  let ?c = "as_calls s ! k"
  have finish: "ask_inv K (set_call k c s)"
    if "ak_phase c = Finished r" "ak_corr c = ak_corr ?c" "ak_started c = ak_started ?c" "ak_timeout c = ak_timeout ?c" "ak_kind c = ak_kind ?c" for c r
    using that True sub by (intro ask_inv_set_call [OF inv]) (auto simp: call_quiet_def)
  have same: "ask_inv K s" if "promise_of k s = None" "ak_timer ?c \<noteq> Fired"
    using that sub by (intro ask_inv_quiet [OF inv]) (auto simp: call_quiet_def)
  show ?thesis
  proof (cases "ak_kind ?c")
    case Local_call
    show ?thesis
    proof (cases "promise_of k s")
      case None
      show ?thesis
      proof (cases "ak_timer ?c = Fired")
        case fired: True
        let ?s1 = "set_call k ((cancel_timer ?c)\<lparr>ak_phase := Finished (Inl Ask_timeout)\<rparr>) s"
        let ?r = "handle_timeout now (ak_corr ?c) (as_mgr s) :: json settled \<times> manager"
        have i: "ask_inv K ?s1" by (rule finish) (simp_all add: cancel_timer_def)
        have "ask_inv (K \<union> fst ` set (fst ?r)) (apply_mgr ?r ?s1)"
          by (rule ask_inv_apply [OF i]) (use settles_ops(3) ask_invD(1,2) [OF inv] in simp)
        moreover have "fst ` set (fst ?r) \<subseteq> {k}" by (rule corr_settled_tickets [OF inv]) (use True in simp_all)
        ultimately have "ask_inv K (apply_mgr ?r ?s1)"
          by (elim ask_inv_quiet) (use True in \<open>auto simp: call_quiet_def\<close>)
        then show ?thesis using True Local_call None fired by (simp add: wake_call_def finish_local_def)
      qed (use True Local_call None same in \<open>simp add: wake_call_def finish_local_def\<close>)
    next
      case (Some x)
      then show ?thesis using True Local_call finish
        by (cases x) (simp_all add: wake_call_def finish_local_def cancel_timer_def)
    qed
  next
    case (Remote_call kind)
    have "ak_timer ?c \<noteq> Fired" using ask_invD(4) [OF inv, of k] True Remote_call by (auto simp: call_ok_def timer_ok_def)
    then show ?thesis
      using True Remote_call finish same corr_settled_tickets(2) [OF inv, of k "ak_corr ?c" "[]"]
      by (auto simp: wake_call_def finish_remote_def split: option.split settlement.split)
  qed
qed

lemma ask_inv_wake_all: "ask_inv (set ks) s \<Longrightarrow> ask_inv {} (fold (wake_call now) ks s)"
proof (induction ks arbitrary: s)
  case (Cons k ks)
  have "ask_inv (set ks) (wake_call now k s)" by (rule ask_inv_wake [OF Cons.prems]) auto
  then show ?case using Cons.IH by simp
qed simp

lemma ask_inv_manager_step: "ask_inv {} s \<Longrightarrow> settles (as_mgr s) r \<Longrightarrow> ask_inv {} (manager_step now r s)"
  using ask_inv_apply [of "{}" s r] by (simp add: manager_step_def ask_inv_wake_all)

lemma promise_of_calls [simp]: "promise_of k (s\<lparr>as_mgr := m, as_calls := cs\<rparr>) = promise_of k s"
  by (simp add: promise_of_def)

lemma register_request_some:
  assumes "register_request now cid d k m = Some m1"
  shows "omap_get (cm_pending m1) = (omap_get (cm_pending m))(cid \<mapsto>
      \<lparr>pq_ticket = k, pq_created = now, pq_timeout = d, pq_timer = numbered ''timeout-'' now (cm_timer_ids m)\<rparr>)"
    "cm_requests m1 = cm_requests m"
  using assms by (auto simp: register_request_def set_timeout_def Let_def fun_eq_iff split: if_splits)

lemma call_ok_extend:
  assumes "call_ok s k c" "cm_requests (as_mgr s) \<le> cm_requests (as_mgr s1)" "promise_of k s1 = promise_of k s"
    "mgr_waiting (as_mgr s) (ak_corr c) = Some k \<Longrightarrow> mgr_waiting (as_mgr s1) (ak_corr c) = Some k"
  shows "call_ok s1 k c"
  using assms unfolding call_ok_def by (fastforce intro: order_trans)

lemma generated_fresh:
  assumes "ask_inv K s" "k < length (as_calls s)"
  shows "ak_corr (as_calls s ! k) \<noteq> numbered ''corr-'' now (cm_requests (as_mgr s) + 1)"
proof
  assume eq: "ak_corr (as_calls s ! k) = numbered ''corr-'' now (cm_requests (as_mgr s) + 1)"
  obtain t i where "ak_corr (as_calls s ! k) = numbered ''corr-'' t i" "i \<le> cm_requests (as_mgr s)"
    using ask_invD(4) [OF assms] by (auto simp: call_ok_def)
  then show False using numbered_inject [of "''corr-''" t i "''corr-''" now "cm_requests (as_mgr s) + 1"] eq by simp
qed

lemma ask_inv_begin:
  assumes inv: "ask_inv {} s"
  shows "ask_inv {} (begin_call kind d now s)"
proof -
  note D = ask_invD [OF inv]
  let ?n = "length (as_calls s)" and ?m = "as_mgr s\<lparr>cm_requests := cm_requests (as_mgr s) + 1\<rparr>"
  let ?cid = "numbered ''corr-'' now (cm_requests (as_mgr s) + 1)"
  have m: "timers_ok ?m" "mgr_keys ?m" using D(1,2) by (simp_all add: timers_ok_def mgr_keys_def)
  have free: "omap_get (cm_pending ?m) ?cid = None"
  proof (cases "omap_get (cm_pending (as_mgr s)) ?cid")
    case (Some p)
    then show ?thesis using D(3) [OF Some] generated_fresh [OF inv, of "pq_ticket p" now] by (auto simp: pending_ok_def Let_def)
  qed simp
  then obtain m1 where m1: "register_request now ?cid (corr_timeout kind d) ?n ?m = Some m1"
    by (simp add: register_request_def set_timeout_def Let_def)
  note r = register_request_some [OF m1]
  have k1: "timers_ok m1" "mgr_keys m1" using timers_ok_register [OF m(1) m1] m(2) m1
    by (auto simp: mgr_keys_def register_request_def set_timeout_def Let_def split: if_splits)
  let ?c = "\<lparr>ak_kind = kind, ak_corr = ?cid, ak_started = now, ak_timeout = d,
      ak_timer = (case kind of Local_call \<Rightarrow> Armed (now + d) | Remote_call _ \<Rightarrow> No_timer), ak_phase = Sending, ak_observed = False\<rparr>"
  let ?s1 = "s\<lparr>as_mgr := m1, as_calls := as_calls s @ [?c]\<rparr>"
  have s1: "begin_call kind d now s = ?s1" using m1 by (simp add: begin_call_def generate_id_def Let_def)
  have new: "promise_of ?n s = None" using D(6) by (fastforce simp: promise_of_def map_of_eq_None_iff)
  show ?thesis unfolding s1 ask_inv_def
  proof (intro conjI allI impI ballI)
    show "timers_ok (as_mgr ?s1)" "mgr_keys (as_mgr ?s1)" using k1 by simp_all
    have "?cid \<notin> set (map ak_corr (as_calls s))" using generated_fresh [OF inv, of _ now] by (fastforce simp: in_set_conv_nth)
    then show "distinct (map ak_corr (as_calls ?s1))" using D(7) by simp
    fix cid p assume "omap_get (cm_pending (as_mgr ?s1)) cid = Some p"
    then show "pending_ok ?s1 cid p" using D(3) [of cid p] new
      by (auto simp: r pending_ok_def Let_def nth_append split: if_splits)
  next
    fix k assume "k < length (as_calls ?s1)"
    then consider "k < ?n" | "k = ?n" by fastforce
    then have "call_ok ?s1 k (as_calls ?s1 ! k) \<and> call_quiet ?s1 k (as_calls ?s1 ! k)"
    proof cases
      case 1
      have "call_ok ?s1 k (as_calls s ! k)"
        by (rule call_ok_extend [OF D(4) [OF 1]]) (use generated_fresh [OF inv 1] in \<open>auto simp: r mgr_waiting_def\<close>)
      then show ?thesis using D(5) [OF 1] 1 by (simp add: call_quiet_def nth_append)
    next
      case 2
      then show ?thesis
        by (auto simp: call_ok_def timer_ok_def call_quiet_def r mgr_waiting_def split: call_kind.split)
    qed
    then show "call_ok ?s1 k (as_calls ?s1 ! k)" "call_quiet ?s1 k (as_calls ?s1 ! k)" by blast+
  next
    fix x assume "x \<in> set (as_settled ?s1)"
    then show "fst x < length (as_calls ?s1)" using D(6) by fastforce
  qed
qed

lemma ask_inv_send_done: "ask_inv {} s \<Longrightarrow> ask_inv {} (send_done now k s)"
proof -
  assume inv: "ask_inv {} s"
  show ?thesis
  proof (cases "k < length (as_calls s) \<and> ak_phase (as_calls s ! k) = Sending")
    case True
    have "timer_ok (as_calls s ! k)" using ask_invD(4) [OF inv, of k] True by (auto simp: call_ok_def)
    then have "ask_inv {k} (set_call k ((as_calls s ! k)\<lparr>ak_phase := Awaiting, ak_observed := True\<rparr>) s)"
      by (intro ask_inv_set_call [OF inv]) (use True in auto)
    then have "ask_inv {} (wake_call now k (set_call k ((as_calls s ! k)\<lparr>ak_phase := Awaiting, ak_observed := True\<rparr>) s))"
      by (rule ask_inv_wake) simp
    then show ?thesis using True by (simp add: send_done_def)
  qed (use inv in \<open>auto simp: send_done_def\<close>)
qed

lemma ask_inv_send_failed: "ask_inv {} s \<Longrightarrow> ask_inv {} (send_failed k err s)"
proof -
  assume inv: "ask_inv {} s"
  show ?thesis
  proof (cases "k < length (as_calls s) \<and> ak_phase (as_calls s ! k) = Sending")
    case True
    let ?c = "as_calls s ! k"
    let ?s1 = "set_call k (?c\<lparr>ak_phase := Finished (Inl (Send_error err))\<rparr>) s"
    let ?r = "handle_error (ak_corr ?c) err (as_mgr s) :: json settled \<times> manager"
    have i: "ask_inv {} ?s1" by (rule ask_inv_set_call [OF inv]) (use True in \<open>auto simp: call_quiet_def\<close>)
    have "ask_inv (fst ` set (fst ?r)) (apply_mgr ?r ?s1)"
      using ask_inv_apply [OF i, of ?r] settles_ops(2) ask_invD(1,2) [OF inv] by simp
    moreover have "fst ` set (fst ?r) \<subseteq> {k}" by (rule corr_settled_tickets [OF inv]) (use True in simp_all)
    ultimately have "ask_inv {} (apply_mgr ?r ?s1)" by (elim ask_inv_quiet) (use True in \<open>auto simp: call_quiet_def\<close>)
    then show ?thesis using True i by (simp add: send_failed_def Let_def split: call_kind.split)
  qed (use inv in \<open>auto simp: send_failed_def\<close>)
qed

lemma ask_inv_timer: "ask_inv {} s \<Longrightarrow> ask_inv {} (ask_timer_fires now k s)"
proof -
  assume inv: "ask_inv {} s"
  have "ask_inv {} (wake_call now k (set_call k ((as_calls s ! k)\<lparr>ak_timer := Fired\<rparr>) s))"
    if k: "k < length (as_calls s)" and t: "ak_timer (as_calls s ! k) = Armed d" for d
  proof (rule ask_inv_wake)
    have ok: "call_ok s k (as_calls s ! k)" by (rule ask_invD(4) [OF inv k])
    then show "ask_inv {k} (set_call k ((as_calls s ! k)\<lparr>ak_timer := Fired\<rparr>) s)"
      by (intro ask_inv_set_call [OF inv k]) (auto simp: call_ok_def timer_ok_def t split: call_kind.splits)
  qed simp
  then show ?thesis using inv by (simp add: ask_timer_fires_def split: ask_timer.split)
qed

lemma ask_inv_step: "ask_inv {} s \<Longrightarrow> ask_inv {} (ask_step e s)"
proof -
  assume inv: "ask_inv {} s"
  note m = ask_inv_manager_step [OF inv] and o = settles_ops [OF ask_invD(1,2) [OF inv]]
  obtain now x where "e = (now, x)" by (cases e)
  then show ?thesis
    by (cases x) (simp_all add: inv m o ask_inv_begin ask_inv_send_done ask_inv_send_failed ask_inv_timer)
qed

lemma ask_inv_run: "ask_inv {} (ask_run es)"
  unfolding ask_run_def
proof (induction es rule: rev_induct)
  case Nil
  then show ?case by (simp add: ask_inv_def new_ask_system_def new_manager_def timers_ok_def mgr_keys_def)
qed (simp add: ask_inv_step)

section \<open>Every call ends\<close>

lemma corr_timer_due:
  assumes inv: "ask_inv {} s" and k: "k < length (as_calls s)" and w: "ak_phase (as_calls s ! k) = Awaiting"
  defines "c \<equiv> as_calls s ! k"
  obtains p where "omap_get (cm_pending (as_mgr s)) (ak_corr c) = Some p" "pq_ticket p = k"
    "omap_get (cm_timers (as_mgr s)) (pq_timer p)
       = Some \<lparr>tm_corr = ak_corr c, tm_due = ak_started c + corr_timeout (ak_kind c) (ak_timeout c)\<rparr>"
proof -
  have "promise_of k s = None" using ask_invD(5) [OF inv k] w by (simp add: call_quiet_def)
  then have "mgr_waiting (as_mgr s) (ak_corr c) = Some k"
    using ask_invD(4) [OF inv k] w by (simp add: call_ok_def c_def)
  then obtain p where p: "omap_get (cm_pending (as_mgr s)) (ak_corr c) = Some p" "pq_ticket p = k"
    by (auto simp: mgr_waiting_def)
  have "omap_get (cm_timers (as_mgr s)) (pq_timer p) = Some (timer_of (ak_corr c) p)"
    using ask_invD(1) [OF inv] p by (simp add: timers_ok_def)
  then show ?thesis using that p ask_invD(3) [OF inv p(1)] by (simp add: pending_ok_def timer_of_def Let_def c_def)
qed

text \<open>The timer that ends a call: its own for a local ask, the one of the correlation manager for a request.\<close>

definition ending_timer :: "nat \<Rightarrow> ask_system \<Rightarrow> ask_event" where
  "ending_timer k s = (case ak_kind (as_calls s ! k) of
       Local_call \<Rightarrow> Ask_timer_fires k
     | Remote_call _ \<Rightarrow> Corr_timer_fires (case omap_get (cm_pending (as_mgr s)) (ak_corr (as_calls s ! k)) of
         None \<Rightarrow> '''' | Some p \<Rightarrow> pq_timer p))"

definition deadline :: "ask_call \<Rightarrow> ms" where
  "deadline c = ak_started c + ak_timeout c"

lemma call_ends:
  assumes inv: "ask_inv {} s" and k: "k < length (as_calls s)" and w: "ak_phase (as_calls s ! k) = Awaiting"
    and now: "deadline (as_calls s ! k) \<le> now"
  shows "\<exists>e. ak_phase (as_calls (ask_step (now, ending_timer k s) s) ! k) = Finished (Inl e)"
proof -
  let ?c = "as_calls s ! k"
  have quiet: "promise_of k s = None" "ak_timer ?c \<noteq> Fired" using ask_invD(5) [OF inv k] w by (simp_all add: call_quiet_def)
  have ok: "timer_ok ?c" using ask_invD(4) [OF inv k] w by (simp add: call_ok_def)
  show ?thesis
  proof (cases "ak_kind ?c")
    case Local_call
    then have "ak_timer ?c = Armed (deadline ?c)" using ok quiet(2) by (simp add: timer_ok_def deadline_def)
    then show ?thesis using Local_call k w now quiet(1)
      by (simp add: ending_timer_def ask_timer_fires_def wake_call_def finish_local_def cancel_timer_def)
  next
    case (Remote_call kind)
    have due: "ak_started ?c + corr_timeout (ak_kind ?c) (ak_timeout ?c) = deadline ?c"
      by (simp add: Remote_call corr_timeout_def deadline_def)
    obtain p where p: "omap_get (cm_pending (as_mgr s)) (ak_corr ?c) = Some p" "pq_ticket p = k"
      "omap_get (cm_timers (as_mgr s)) (pq_timer p) = Some \<lparr>tm_corr = ak_corr ?c, tm_due = deadline ?c\<rparr>"
      by (rule corr_timer_due [OF inv k w, unfolded due])
    have e: "ending_timer k s = Corr_timer_fires (pq_timer p)" using Remote_call p(1) by (simp add: ending_timer_def)
    let ?r = "fire_timeout now (pq_timer p) (as_mgr s) :: json settled \<times> manager"
    obtain err where r: "fst ?r = [(k, Rejected err)]"
      using p now by (simp add: fire_timeout_def handle_timeout_def Let_def split_beta)
    then have "promise_of k (apply_mgr ?r s) = Some (Rejected err)" using quiet(1) by (simp add: promise_apply)
    then show ?thesis unfolding e using r k w Remote_call
      by (simp add: manager_step_def wake_call_def finish_remote_def)
  qed
qed

text \<open>
  C18. No ask waits for ever. Whatever happened before (replies and errors under any ids from anyone, timers,
  clearing, sends that are slow or fail), a call that waits for its answer is ended with an error by its timer as
  soon as the time it was given is over; the promises settled are those of calls, each at most once.\<close>

theorem asks_end_by_their_deadline:
  assumes "k < length (as_calls (ask_run es))" "ak_phase (as_calls (ask_run es) ! k) = Awaiting"
    "deadline (as_calls (ask_run es) ! k) \<le> now"
  shows "\<exists>e. ak_phase (as_calls (ask_step (now, ending_timer k (ask_run es)) (ask_run es)) ! k) = Finished (Inl e)"
  using call_ends [OF ask_inv_run assms] .

theorem asks_end_by_their_deadline_witness:
  "let s = ask_run [(0, Ask_begins (Remote_call Stop_request) 5), (1, Send_done 0)]
   in \<exists>e. ak_phase (as_calls (ask_step (9, ending_timer 0 s) s) ! 0) = Finished (Inl e)"
proof -
  let ?s = "ask_run [(0, Ask_begins (Remote_call Stop_request) 5), (1, Send_done 0)]"
  have "0 < length (as_calls ?s)" "ak_phase (as_calls ?s ! 0) = Awaiting" "deadline (as_calls ?s ! 0) \<le> 9" by code_simp+
  from asks_end_by_their_deadline [OF this] show ?thesis by (simp add: Let_def)
qed

text \<open>A rejected promise nobody will ever await: the host reports it as an unhandled rejection.\<close>

definition unobserved_rejection :: "nat \<Rightarrow> ask_system \<Rightarrow> bool" where
  "unobserved_rejection k s \<longleftrightarrow> k < length (as_calls s) \<and> \<not> ak_observed (as_calls s ! k)
     \<and> (case ak_phase (as_calls s ! k) of Finished _ \<Rightarrow> True | _ \<Rightarrow> False)
     \<and> (case promise_of k s of Some (Rejected _) \<Rightarrow> True | _ \<Rightarrow> False)"

lemma failed_send:
  assumes inv: "ask_inv {} s" and k: "k < length (as_calls s)" and w: "ak_phase (as_calls s ! k) = Sending"
    and kind: "ak_kind (as_calls s ! k) = Remote_call q" and p: "promise_of k s = None"
  shows "unobserved_rejection k (send_failed k err s)"
    "ak_phase (as_calls (send_failed k err s) ! k) = Finished (Inl (Send_error err))"
proof -
  let ?c = "as_calls s ! k"
  have ok: "\<not> ak_observed ?c" "mgr_waiting (as_mgr s) (ak_corr ?c) = Some k"
    using ask_invD(4) [OF inv k] w p by (auto simp: call_ok_def)
  then obtain r where r: "omap_get (cm_pending (as_mgr s)) (ak_corr ?c) = Some r" "pq_ticket r = k"
    by (auto simp: mgr_waiting_def)
  then show "unobserved_rejection k (send_failed k err s)"
    "ak_phase (as_calls (send_failed k err s) ! k) = Finished (Inl (Send_error err))"
    using k w kind p ok(1)
    by (simp_all add: unobserved_rejection_def send_failed_def Let_def promise_apply handle_error_def)
qed

text \<open>
  When the frame of a remote request cannot be sent, the caller gets the error of the send; but the promise of the
  request, which it had registered and does not await any more, is rejected too, and nobody observes it: every failed
  send leaves an unhandled rejection.\<close>

theorem failed_request_is_unobserved:
  assumes "k < length (as_calls (ask_run es))" "ak_phase (as_calls (ask_run es) ! k) = Sending"
    "ak_kind (as_calls (ask_run es) ! k) = Remote_call q" "promise_of k (ask_run es) = None"
  shows "ak_phase (as_calls (ask_step (now, Send_failed k err) (ask_run es)) ! k) = Finished (Inl (Send_error err))
    \<and> unobserved_rejection k (ask_step (now, Send_failed k err) (ask_run es))"
  using failed_send [OF ask_inv_run assms, of err] by simp

theorem failed_request_is_unobserved_witness:
  "unobserved_rejection 0 (ask_step (1, Send_failed 0 ''not connected'') (ask_run [(0, Ask_begins (Remote_call Ask_request) 5)]))"
proof -
  let ?s = "ask_run [(0, Ask_begins (Remote_call Ask_request) 5)]"
  have "0 < length (as_calls ?s)" "ak_phase (as_calls ?s ! 0) = Sending" "ak_kind (as_calls ?s ! 0) = Remote_call Ask_request"
    "promise_of 0 ?s = None" by code_simp+
  from failed_request_is_unobserved [OF this] show ?thesis by blast
qed

text \<open>A local ask whose enqueueing throws leaves its timer and its registration behind; both reject later, unobserved.\<close>

lemma failed_local_ask_leaks:
  "let s = ask_step (1, Send_failed 0 ''interceptor'') (ask_run [(0, Ask_begins Local_call 5)])
   in ak_timer (as_calls s ! 0) = Armed 5 \<and> pending_count (as_mgr s) = 1
      \<and> (let s1 = ask_step (50, Corr_timer_fires (fst (hd (cm_timers (as_mgr s))))) s in unobserved_rejection 0 s1)"
  by code_simp

text \<open>A frame that merely names the id of a local ask answers it.\<close>

lemma peer_answers_local_ask:
  "let s = ask_run [(0, Ask_begins Local_call 5), (1, Send_done 0)]
   in ak_phase (as_calls (ask_step (2, Reply (ak_corr (as_calls s ! 0)) (JObject [(''forged'', JBool True)])) s) ! 0)
      = Finished (Inr (Some (JObject [(''forged'', JBool True)])))"
  by (simp add: ask_run_def new_ask_system_def new_manager_def begin_call_def generate_id_def register_request_def
      set_timeout_def send_done_def wake_call_def finish_local_def promise_of_def set_call_def Let_def corr_timeout_def
      manager_step_def handle_response_def apply_mgr_def clear_timeout_def remove_pending_def cancel_timer_def ask_result_def)

end
