(* ===== verification/Actor_Address.thy ===== *)
theory Actor_Address
  imports Actor_Prelude
begin

text \<open>
  Actor addresses: the minter \<open>mint\<close>, \<open>parse\<close>, \<open>matchesAddressQuery\<close> of \<open>utils/factories.ts\<close> and
  \<open>parseActorPath\<close>, \<open>isLocalAddress\<close> of \<open>actor-system.ts\<close>. An address is its path. Regular
  expressions are written out: \<open>.\<close> matches every character but the line terminators, which below 256 are
  line feed and carriage return. Arguments have the types the source declares.
\<close>

section \<open>Paths\<close>

datatype address_kind = Actor_kind | Callback_kind

record parsed_address =
  pa_id :: string
  pa_kind :: address_kind
  pa_node :: string

definition strip_prefix :: "string \<Rightarrow> string \<Rightarrow> string option" where
  "strip_prefix p s = (if take (length p) s = p then Some (drop (length p) s) else None)"

definition scheme :: string where "scheme = ''actor://''"

definition callback_segment :: string where "callback_segment = ''callback/''"

definition line_break :: "char \<Rightarrow> bool" where
  "line_break c \<longleftrightarrow> c = CHR 0x0A \<or> c = CHR 0x0D"

text \<open>What \<open>(.+)$\<close> matches.\<close>

definition dot_plus :: "string \<Rightarrow> bool" where
  "dot_plus s \<longleftrightarrow> s \<noteq> [] \<and> list_all (\<lambda>c. \<not> line_break c) s"

text \<open>The node and what follows the slash after it, \<open>^actor:\/\/([^/]+)\/\<close>.\<close>

definition split_path :: "string \<Rightarrow> (string \<times> string) option" where
  "split_path s = (case strip_prefix scheme s of
       None \<Rightarrow> None
     | Some r \<Rightarrow>
         (let node = takeWhile (\<lambda>c. c \<noteq> CHR ''/'') r; rest = dropWhile (\<lambda>c. c \<noteq> CHR ''/'') r
          in if node = [] \<or> rest = [] then None else Some (node, tl rest)))"

definition parse_path :: "string \<Rightarrow> parsed_address option" where
  "parse_path s = (case split_path s of
       None \<Rightarrow> None
     | Some (node, rest) \<Rightarrow>
         (case strip_prefix callback_segment rest of
            Some i \<Rightarrow> if dot_plus i then Some \<lparr>pa_id = i, pa_kind = Callback_kind, pa_node = node\<rparr>
                      else if dot_plus rest then Some \<lparr>pa_id = rest, pa_kind = Actor_kind, pa_node = node\<rparr>
                      else None
          | None \<Rightarrow> if dot_plus rest then Some \<lparr>pa_id = rest, pa_kind = Actor_kind, pa_node = node\<rparr> else None))"

section \<open>Minting\<close>

datatype address_error = Empty_id | Bad_node | Reserved_segment | Reserved_guardian | Invalid_path

definition guardian :: string where "guardian = ''guardian''"

definition mint_path :: "string \<Rightarrow> string \<Rightarrow> address_kind \<Rightarrow> string" where
  "mint_path i node kind =
     scheme @ node @ ''/'' @ (case kind of Callback_kind \<Rightarrow> callback_segment @ i | Actor_kind \<Rightarrow> i)"

definition reserved_segment :: "string \<Rightarrow> bool" where
  "reserved_segment i \<longleftrightarrow> strip_prefix callback_segment i \<noteq> None \<or> has_substring i (''/'' @ callback_segment)"

definition mint :: "string \<Rightarrow> string option \<Rightarrow> address_kind \<Rightarrow> address_error + string" where
  "mint i node kind =
     (if i = [] then Inl Empty_id
      else if (case node of None \<Rightarrow> False | Some n \<Rightarrow> n = [] \<or> CHR ''/'' \<in> set n) then Inl Bad_node
      else if kind = Actor_kind \<and> reserved_segment i then Inl Reserved_segment
      else if kind = Actor_kind \<and> i = guardian then Inl Reserved_guardian
      else Inr (mint_path i (case node of None \<Rightarrow> ''local'' | Some n \<Rightarrow> n) kind))"

definition address_from_text :: "string \<Rightarrow> address_error + string" where
  "address_from_text s = (case parse_path s of
       None \<Rightarrow> Inl Invalid_path
     | Some p \<Rightarrow> mint (pa_id p) (Some (pa_node p)) (pa_kind p))"

definition parse_actor_path :: "string \<Rightarrow> address_error + string" where
  "parse_actor_path s = (case parse_path s of
       None \<Rightarrow> Inl Invalid_path
     | Some p \<Rightarrow>
         (if pa_kind p = Callback_kind then mint (pa_id p) (Some (pa_node p)) Callback_kind
          else if pa_id p = guardian
               then (if pa_node p \<noteq> ''local'' then Inl Invalid_path else Inr (mint_path guardian ''local'' Actor_kind))
          else mint (pa_id p) (Some (pa_node p)) Actor_kind))"

text \<open>\<open>None\<close> where \<open>parse\<close> throws.\<close>

definition is_local_address :: "string \<Rightarrow> bool option" where
  "is_local_address s = map_option (\<lambda>p. pa_node p = [] \<or> pa_node p = ''local'') (parse_path s)"

record address_query =
  aq_id :: "string option"
  aq_kind :: "address_kind option"
  aq_node :: "string option"

definition matches_query :: "string \<Rightarrow> address_query \<Rightarrow> bool option" where
  "matches_query s q = map_option (\<lambda>p.
     (aq_id q = None \<or> aq_id q = Some (pa_id p)) \<and> (aq_kind q = None \<or> aq_kind q = Some (pa_kind p))
     \<and> (aq_node q = None \<or> aq_node q = Some (pa_node p))) (parse_path s)"

section \<open>Round trip\<close>

lemma strip_prefix_append [simp]: "strip_prefix p (p @ s) = Some s"
  by (simp add: strip_prefix_def)

lemma strip_prefix_Some: "strip_prefix p s = Some r \<longleftrightarrow> s = p @ r"
  by (auto simp: strip_prefix_def) (metis append_take_drop_id)

lemma split_minted:
  assumes "n \<noteq> []" "CHR ''/'' \<notin> set n"
  shows "split_path (scheme @ n @ CHR ''/'' # r) = Some (n, r)"
  using assms by (auto simp: split_path_def takeWhile_append dropWhile_append)

lemma split_path_Some:
  assumes "split_path s = Some (n, r)"
  shows "s = scheme @ n @ CHR ''/'' # r" "n \<noteq> []" "CHR ''/'' \<notin> set n"
proof -
  obtain t where t: "strip_prefix scheme s = Some t" "takeWhile (\<lambda>c. c \<noteq> CHR ''/'') t = n" "n \<noteq> []"
      "dropWhile (\<lambda>c. c \<noteq> CHR ''/'') t \<noteq> []" "r = tl (dropWhile (\<lambda>c. c \<noteq> CHR ''/'') t)"
    using assms by (auto simp: split_path_def Let_def split: option.splits if_splits)
  have "hd (dropWhile (\<lambda>c. c \<noteq> CHR ''/'') t) = CHR ''/''" using hd_dropWhile [OF t(4)] by simp
  then have "t = n @ CHR ''/'' # r" using t by (metis hd_Cons_tl takeWhile_dropWhile_id)
  then show "s = scheme @ n @ CHR ''/'' # r" "n \<noteq> []" "CHR ''/'' \<notin> set n"
    using t by (auto simp: strip_prefix_Some dest: set_takeWhileD)
qed

lemma dot_plus_callback: "dot_plus (callback_segment @ i) \<longleftrightarrow> list_all (\<lambda>c. \<not> line_break c) i"
  by (simp add: dot_plus_def callback_segment_def line_break_def)

text \<open>The conditions under which an address of each kind is minted.\<close>

definition mintable :: "string \<Rightarrow> string option \<Rightarrow> address_kind \<Rightarrow> bool" where
  "mintable i node kind \<longleftrightarrow> i \<noteq> [] \<and> (\<forall>n. node = Some n \<longrightarrow> n \<noteq> [] \<and> CHR ''/'' \<notin> set n)
     \<and> (kind = Actor_kind \<longrightarrow> \<not> reserved_segment i \<and> i \<noteq> guardian)"

lemma mint_Inr: "mint i node kind = Inr a \<longleftrightarrow>
    mintable i node kind \<and> a = mint_path i (case node of None \<Rightarrow> ''local'' | Some n \<Rightarrow> n) kind"
  by (auto simp: mint_def mintable_def split: option.splits)

lemma parse_mint_path:
  assumes "n \<noteq> []" "CHR ''/'' \<notin> set n" "i \<noteq> []" "kind = Actor_kind \<longrightarrow> strip_prefix callback_segment i = None"
  shows "parse_path (mint_path i n kind) =
    (if list_all (\<lambda>c. \<not> line_break c) i then Some \<lparr>pa_id = i, pa_kind = kind, pa_node = n\<rparr> else None)"
proof (cases kind)
  case Actor_kind
  then show ?thesis using assms by (auto simp: parse_path_def mint_path_def split_minted dot_plus_def)
next
  case Callback_kind
  then show ?thesis using assms
    by (auto simp: parse_path_def mint_path_def split_minted dot_plus_callback) (simp_all add: dot_plus_def)
qed

lemma minted_parts:
  assumes "mint i node kind = Inr a"
  defines "n \<equiv> case node of None \<Rightarrow> ''local'' | Some n \<Rightarrow> n"
  shows "a = mint_path i n kind" "n \<noteq> []" "CHR ''/'' \<notin> set n" "i \<noteq> []"
    "kind = Actor_kind \<longrightarrow> strip_prefix callback_segment i = None"
  using assms by (auto simp: mint_Inr mintable_def reserved_segment_def split: option.splits)

text \<open>Two minted addresses are equal only if their parts are.\<close>

lemma mint_inject:
  assumes "mint i node kind = Inr a" "mint i' node' kind' = Inr a"
  shows "i = i' \<and> kind = kind' \<and>
    (case node of None \<Rightarrow> ''local'' | Some n \<Rightarrow> n) = (case node' of None \<Rightarrow> ''local'' | Some n \<Rightarrow> n)"
proof -
  note m = minted_parts [OF assms(1)] and m' = minted_parts [OF assms(2)]
  have "split_path a = Some (case node of None \<Rightarrow> ''local'' | Some n \<Rightarrow> n, case kind of Callback_kind \<Rightarrow> callback_segment @ i | Actor_kind \<Rightarrow> i)"
    using m(1-3) by (simp add: mint_path_def split_minted)
  moreover have "split_path a = Some (case node' of None \<Rightarrow> ''local'' | Some n \<Rightarrow> n, case kind' of Callback_kind \<Rightarrow> callback_segment @ i' | Actor_kind \<Rightarrow> i')"
    using m'(1-3) by (simp add: mint_path_def split_minted)
  ultimately show ?thesis using m(5) m'(5) by (cases kind; cases kind') auto
qed

lemma parse_actor_path_id: "parse_actor_path s = Inr a \<Longrightarrow> a = s"
proof -
  assume r: "parse_actor_path s = Inr a"
  then obtain p where p: "parse_path s = Some p" by (cases "parse_path s") (simp_all add: parse_actor_path_def)
  then have "s = mint_path (pa_id p) (pa_node p) (pa_kind p)"
    by (auto simp: parse_path_def mint_path_def strip_prefix_Some split: option.splits if_splits
        dest!: split_path_Some(1))
  moreover have "a = mint_path (pa_id p) (pa_node p) (pa_kind p)"
    using r p by (cases "pa_kind p") (auto simp: parse_actor_path_def mint_Inr split: if_splits)
  ultimately show "a = s" by simp
qed

section \<open>The fast path of routing\<close>

lemma has_substring_skip:
  "c \<notin> set xs \<Longrightarrow> has_substring (xs @ ys) (c # w) = has_substring ys (c # w)"
  by (induction xs) auto

lemma take_segment:
  assumes "d \<notin> set n" "d \<notin> set w"
  shows "take (Suc (length w)) (n @ d # r) = w @ [d] \<longleftrightarrow> n = w"
  using assms
proof (induction w arbitrary: n)
  case Nil
  then show ?case by (cases n) auto
next
  case (Cons x w)
  then show ?case by (cases n) auto
qed

lemma callback_in_path:
  assumes "CHR ''/'' \<notin> set n"
  shows "has_substring (scheme @ n @ CHR ''/'' # r) ''/callback/'' \<longleftrightarrow>
    n = ''callback'' \<or> strip_prefix callback_segment r \<noteq> None \<or> has_substring r ''/callback/''"
proof -
  have "take 9 (n @ CHR ''/'' # r) = ''callback/'' \<longleftrightarrow> n = ''callback''"
    using take_segment [OF assms, of "''callback''" r] by (simp add: eval_nat_numeral del: take_append)
  moreover have "has_substring (n @ CHR ''/'' # r) ''/callback/'' = has_substring (CHR ''/'' # r) ''/callback/''"
    by (rule has_substring_skip [OF assms])
  ultimately show ?thesis
    by (simp add: scheme_def strip_prefix_def callback_segment_def eval_nat_numeral del: take_append)
qed

text \<open>
  C33. Addresses round-trip, with two exceptions. A minted address parses to the id, kind and node it was minted
  from (no node being \<open>local\<close>) and \<open>parseActorPath\<close> returns it unchanged, unless the id holds a line break:
  then both throw, though minting accepted it. The routing test \<open>includes('/callback/')\<close> recognises callbacks,
  and also every actor of a node named \<open>callback\<close>.\<close>

theorem minted_address_exact:
  assumes "mint i node kind = Inr a"
  defines "ok \<equiv> list_all (\<lambda>c. \<not> line_break c) i"
  defines "n \<equiv> case node of None \<Rightarrow> ''local'' | Some n \<Rightarrow> n"
  shows "parse_path a = (if ok then Some \<lparr>pa_id = i, pa_kind = kind, pa_node = n\<rparr> else None)
    \<and> parse_actor_path a = (if ok then Inr a else Inl Invalid_path)
    \<and> (has_substring a ''/callback/'' \<longleftrightarrow> kind = Callback_kind \<or> n = ''callback'')"
proof (intro conjI)
  note m = minted_parts [OF assms(1), folded n_def]
  show p: "parse_path a = (if ok then Some \<lparr>pa_id = i, pa_kind = kind, pa_node = n\<rparr> else None)"
    unfolding m(1) ok_def by (rule parse_mint_path [OF m(2-5)])
  have g: "kind = Actor_kind \<Longrightarrow> i \<noteq> guardian" "kind = Actor_kind \<Longrightarrow> \<not> reserved_segment i"
    using assms(1) by (auto simp: mint_Inr mintable_def)
  have "mint i (Some n) kind = Inr a"
    using m g by (cases kind) (auto simp: mint_Inr mintable_def)
  then show "parse_actor_path a = (if ok then Inr a else Inl Invalid_path)"
    using p g by (cases kind) (auto simp: parse_actor_path_def)
  show "has_substring a ''/callback/'' \<longleftrightarrow> kind = Callback_kind \<or> n = ''callback''"
  proof (cases kind)
    case Actor_kind
    then show ?thesis using g(2)
      by (auto simp: m(1) mint_path_def callback_in_path [OF m(3)] reserved_segment_def callback_segment_def)
  qed (simp add: m(1) mint_path_def callback_in_path [OF m(3)])
qed

theorem minted_address_exact_witness:
  "parse_path ''actor://a/x'' = Some \<lparr>pa_id = ''x'', pa_kind = Actor_kind, pa_node = ''a''\<rparr>
    \<and> parse_actor_path ''actor://a/x'' = Inr ''actor://a/x'' \<and> \<not> has_substring ''actor://a/x'' ''/callback/''"
proof -
  have "mint ''x'' (Some ''a'') Actor_kind = Inr ''actor://a/x''" by code_simp
  from minted_address_exact [OF this] show ?thesis by (simp add: line_break_def)
qed

end
