(* ===== verification/Actor_Directory.thy ===== *)
theory Actor_Directory
  imports Actor_Address
begin

text \<open>
  The directory of actors, \<open>distributed-actor-directory.ts\<close>: a registry of where actors live, and a cache
  in front of it that lookups fill. Both are insertion-ordered maps; the time to live of a local
  actor is \<open>Number.POSITIVE_INFINITY\<close>, here \<open>None\<close>. The broadcasts to other nodes are placeholders in the
  source (a lookup answers \<open>undefined\<close>). Listeners are numbers, and what they are told is an output.
\<close>

section \<open>Data\<close>

record directory_config =
  dg_cache_ttl :: ms
  dg_max_size :: int
  dg_node :: string

record cache_entry =
  ce_location :: string
  ce_timestamp :: ms
  ce_hits :: nat
  ce_accessed :: ms
  ce_ttl :: ms

record registry_entry =
  re_location :: string
  re_timestamp :: ms
  re_ttl :: "ms option"

datatype directory_change = Registered | Unregistered

record directory_event =
  ev_change :: directory_change
  ev_address :: string
  ev_location :: "string option"
  ev_time :: ms

record actor_directory =
  dy_cache :: "(string, cache_entry) omap"
  dy_registry :: "(string, registry_entry) omap"
  dy_listeners :: "nat list"
  dy_hits :: nat
  dy_misses :: nat
  dy_reset :: ms

definition new_directory :: "ms \<Rightarrow> actor_directory" where
  "new_directory now = \<lparr>dy_cache = [], dy_registry = [], dy_listeners = [], dy_hits = 0, dy_misses = 0, dy_reset = now\<rparr>"

text \<open>A directory entry as it travels between nodes.\<close>

record wire_entry =
  we_address :: string
  we_location :: string
  we_timestamp :: ms
  we_ttl :: "ms option"

definition live_ttl :: "ms option \<Rightarrow> ms \<Rightarrow> bool" where
  "live_ttl ttl now \<longleftrightarrow> (case ttl of None \<Rightarrow> True | Some t \<Rightarrow> t > now)"

section \<open>Operations\<close>

definition notify :: "directory_event \<Rightarrow> actor_directory \<Rightarrow> (nat \<times> directory_event) list" where
  "notify ev d = map (\<lambda>l. (l, ev)) (dy_listeners d)"

definition dir_register :: "directory_config \<Rightarrow> ms \<Rightarrow> string \<Rightarrow> string \<Rightarrow> actor_directory \<Rightarrow> (nat \<times> directory_event) list \<times> actor_directory" where
  "dir_register g now a loc d =
     (let e = \<lparr>re_location = loc, re_timestamp = now,
               re_ttl = (if loc = dg_node g then None else Some (now + dg_cache_ttl g))\<rparr>;
          d1 = d\<lparr>dy_registry := omap_set a e (dy_registry d)\<rparr>
      in (notify \<lparr>ev_change = Registered, ev_address = a, ev_location = Some loc, ev_time = now\<rparr> d1, d1))"

definition dir_unregister :: "ms \<Rightarrow> string \<Rightarrow> actor_directory \<Rightarrow> (nat \<times> directory_event) list \<times> actor_directory" where
  "dir_unregister now a d =
     (let d1 = d\<lparr>dy_registry := omap_delete a (dy_registry d), dy_cache := omap_delete a (dy_cache d)\<rparr>
      in (notify \<lparr>ev_change = Unregistered, ev_address = a, ev_location = None, ev_time = now\<rparr> d1, d1))"

definition delete_keys :: "'k list \<Rightarrow> ('k, 'v) omap \<Rightarrow> ('k, 'v) omap" where
  "delete_keys ks m = fold omap_delete ks m"

text \<open>The entries accessed longest ago make room for one more.\<close>

definition evict_old :: "directory_config \<Rightarrow> (string, cache_entry) omap \<Rightarrow> (string, cache_entry) omap" where
  "evict_old g m =
     (let n = max 0 (int (length m) - dg_max_size g + 1)
      in if n \<le> 0 then m
         else delete_keys (map fst (take (nat n) (sort_key (\<lambda>(k, e). ce_accessed e) m))) m)"

definition registered_location :: "ms \<Rightarrow> string \<Rightarrow> actor_directory \<Rightarrow> string option" where
  "registered_location now a d = (case omap_get (dy_registry d) a of
       None \<Rightarrow> None
     | Some e \<Rightarrow> if live_ttl (re_ttl e) now then Some (re_location e) else None)"

text \<open>An empty location is falsy, and is not cached.\<close>

definition dir_miss :: "directory_config \<Rightarrow> ms \<Rightarrow> string \<Rightarrow> actor_directory \<Rightarrow> string option \<times> actor_directory" where
  "dir_miss g now a d =
     (let location = registered_location now a d;
          d1 = d\<lparr>dy_misses := dy_misses d + 1\<rparr>
      in if location = None \<or> location = Some [] then (location, d1)
         else (location,
           d1\<lparr>dy_cache := omap_set a
             \<lparr>ce_location = the location, ce_timestamp = now, ce_hits = 0, ce_accessed = now, ce_ttl = now + dg_cache_ttl g\<rparr>
             (evict_old g (dy_cache d))\<rparr>))"

definition dir_lookup :: "directory_config \<Rightarrow> ms \<Rightarrow> string \<Rightarrow> actor_directory \<Rightarrow> string option \<times> actor_directory" where
  "dir_lookup g now a d =
     (case omap_get (dy_cache d) a of
        Some e \<Rightarrow>
          if ce_ttl e > now
          then (Some (ce_location e),
                d\<lparr>dy_cache := omap_set a (e\<lparr>ce_hits := ce_hits e + 1, ce_accessed := now\<rparr>) (dy_cache d),
                  dy_hits := dy_hits d + 1\<rparr>)
          else dir_miss g now a d
      | None \<Rightarrow> dir_miss g now a d)"

definition matching_keys :: "address_query \<Rightarrow> string list \<Rightarrow> string list" where
  "matching_keys q ks = filter (\<lambda>k. case parse_actor_path k of
       Inl _ \<Rightarrow> False | Inr a \<Rightarrow> matches_query a q = Some True) ks"

definition live_registry :: "ms \<Rightarrow> actor_directory \<Rightarrow> string list" where
  "live_registry now d = map fst (filter (\<lambda>(k, e). live_ttl (re_ttl e) now) (dy_registry d))"

definition live_cache :: "ms \<Rightarrow> actor_directory \<Rightarrow> string list" where
  "live_cache now d = map fst (filter (\<lambda>(k, e). ce_ttl e > now) (dy_cache d))"

definition dir_find :: "ms \<Rightarrow> address_query \<Rightarrow> actor_directory \<Rightarrow> string list" where
  "dir_find now q d =
     (let found = matching_keys q (live_registry now d)
      in found @ matching_keys q (filter (\<lambda>k. k \<notin> set found) (live_cache now d)))"

definition dir_get_all :: "ms \<Rightarrow> actor_directory \<Rightarrow> (string \<times> string) list" where
  "dir_get_all now d =
     (let reg = map (\<lambda>(k, e). (k, re_location e)) (filter (\<lambda>(k, e). live_ttl (re_ttl e) now) (dy_registry d))
      in reg @ map (\<lambda>(k, e). (k, ce_location e))
           (filter (\<lambda>(k, e). ce_ttl e > now \<and> k \<notin> set (map fst reg)) (dy_cache d)))"

definition dir_export :: "directory_config \<Rightarrow> ms \<Rightarrow> actor_directory \<Rightarrow> wire_entry list" where
  "dir_export g now d =
     map (\<lambda>(k, e). \<lparr>we_address = k, we_location = re_location e, we_timestamp = re_timestamp e,
            we_ttl = (if re_location e = dg_node g then Some (now + dg_cache_ttl g) else re_ttl e)\<rparr>)
       (filter (\<lambda>(k, e). live_ttl (re_ttl e) now
          \<and> (case parse_actor_path k of Inl _ \<Rightarrow> False | Inr a \<Rightarrow> is_local_address a = Some False)) (dy_registry d))"

definition dir_apply_remote :: "wire_entry \<Rightarrow> actor_directory \<Rightarrow> actor_directory" where
  "dir_apply_remote w d =
     d\<lparr>dy_registry := omap_set (we_address w)
         \<lparr>re_location = we_location w, re_timestamp = we_timestamp w, re_ttl = we_ttl w\<rparr> (dy_registry d),
       dy_cache := omap_delete (we_address w) (dy_cache d)\<rparr>"

definition dir_remove_remote :: "string \<Rightarrow> actor_directory \<Rightarrow> actor_directory" where
  "dir_remove_remote a d = d\<lparr>dy_registry := omap_delete a (dy_registry d), dy_cache := omap_delete a (dy_cache d)\<rparr>"

definition dir_subscribe :: "nat \<Rightarrow> actor_directory \<Rightarrow> actor_directory" where
  "dir_subscribe l d = d\<lparr>dy_listeners := (if l \<in> set (dy_listeners d) then dy_listeners d else dy_listeners d @ [l])\<rparr>"

definition dir_unsubscribe :: "nat \<Rightarrow> actor_directory \<Rightarrow> actor_directory" where
  "dir_unsubscribe l d = d\<lparr>dy_listeners := filter (\<lambda>x. x \<noteq> l) (dy_listeners d)\<rparr>"

definition dir_expire :: "ms \<Rightarrow> actor_directory \<Rightarrow> actor_directory" where
  "dir_expire now d =
     d\<lparr>dy_cache := delete_keys (map fst (filter (\<lambda>(k, e). ce_ttl e \<le> now) (dy_cache d))) (dy_cache d),
       dy_registry := delete_keys (map fst (filter (\<lambda>(k, e). \<not> live_ttl (re_ttl e) now) (dy_registry d))) (dy_registry d)\<rparr>"

definition dir_reset_metrics :: "ms \<Rightarrow> actor_directory \<Rightarrow> actor_directory" where
  "dir_reset_metrics now d = d\<lparr>dy_hits := 0, dy_misses := 0, dy_reset := now\<rparr>"

definition dir_cleanup :: "actor_directory \<Rightarrow> actor_directory" where
  "dir_cleanup d = d\<lparr>dy_cache := [], dy_registry := [], dy_listeners := []\<rparr>"

section \<open>The directory as a machine\<close>

datatype dir_op = Do_register string string | Do_unregister string | Do_lookup string | Do_apply wire_entry
  | Do_remove string | Do_expire | Do_reset_metrics | Do_cleanup

fun dir_step :: "directory_config \<Rightarrow> ms \<times> dir_op \<Rightarrow> actor_directory \<Rightarrow> actor_directory" where
  "dir_step g (now, Do_register a l) d = snd (dir_register g now a l d)"
| "dir_step g (now, Do_unregister a) d = snd (dir_unregister now a d)"
| "dir_step g (now, Do_lookup a) d = snd (dir_lookup g now a d)"
| "dir_step g (now, Do_apply w) d = dir_apply_remote w d"
| "dir_step g (now, Do_remove a) d = dir_remove_remote a d"
| "dir_step g (now, Do_expire) d = dir_expire now d"
| "dir_step g (now, Do_reset_metrics) d = dir_reset_metrics now d"
| "dir_step g (now, Do_cleanup) d = dir_cleanup d"

definition dir_run :: "directory_config \<Rightarrow> (ms \<times> dir_op) list \<Rightarrow> actor_directory \<Rightarrow> actor_directory" where
  "dir_run g ops d = fold (dir_step g) ops d"

text \<open>The operations after which a cached location of an address is gone.\<close>

fun invalidates :: "string \<Rightarrow> dir_op \<Rightarrow> bool" where
  "invalidates a (Do_unregister b) = (a = b)"
| "invalidates a (Do_apply w) = (a = we_address w)"
| "invalidates a (Do_remove b) = (a = b)"
| "invalidates a Do_cleanup = True"
| "invalidates a _ = False"

lemmas dir_ops = dir_register_def dir_unregister_def dir_apply_remote_def dir_remove_remote_def
  dir_expire_def dir_reset_metrics_def dir_cleanup_def

section \<open>Where a cached location comes from\<close>

lemma delete_keys_get: "omap_get (delete_keys ks m) k = (if k \<in> set ks then None else omap_get m k)"
  unfolding delete_keys_def by (induction ks arbitrary: m) auto

lemma evict_old_get: "omap_get (evict_old g m) k = Some e \<Longrightarrow> omap_get m k = Some e"
  by (auto simp: evict_old_def delete_keys_get Let_def split: if_splits)

lemma miss_cache:
  assumes "omap_get (dy_cache (snd (dir_miss g t b d))) a = Some e"
  shows "omap_get (dy_cache d) a = Some e
    \<or> a = b \<and> registered_location t a d = Some (ce_location e) \<and> ce_ttl e = t + dg_cache_ttl g"
  using assms by (auto simp: dir_miss_def Let_def split: if_splits dest: evict_old_get)

lemma lookup_cache:
  assumes "omap_get (dy_cache (snd (dir_lookup g t b d))) a = Some e"
  shows "(\<exists>e0. omap_get (dy_cache d) a = Some e0 \<and> ce_location e0 = ce_location e \<and> ce_ttl e0 = ce_ttl e)
    \<or> a = b \<and> registered_location t a d = Some (ce_location e) \<and> ce_ttl e = t + dg_cache_ttl g"
  using assms miss_cache [of g t b d a e] by (auto simp: dir_lookup_def split: option.splits if_splits)

lemma step_cache:
  assumes "omap_get (dy_cache (dir_step g (t, x) d)) a = Some e"
  shows "(\<not> invalidates a x \<and> (\<exists>e0. omap_get (dy_cache d) a = Some e0 \<and> ce_location e0 = ce_location e \<and> ce_ttl e0 = ce_ttl e))
    \<or> x = Do_lookup a \<and> registered_location t a d = Some (ce_location e) \<and> ce_ttl e = t + dg_cache_ttl g"
proof (cases x)
  case (Do_lookup b)
  then show ?thesis using lookup_cache [of g t b d a e] assms by auto
qed (use assms in \<open>auto simp: dir_ops Let_def delete_keys_get split: if_splits\<close>)

lemma dir_run_snoc: "dir_run g (ops @ [x]) d = dir_step g x (dir_run g ops d)"
  by (simp add: dir_run_def)

definition cached_by :: "directory_config \<Rightarrow> ms \<Rightarrow> (ms \<times> dir_op) list \<Rightarrow> string \<Rightarrow> ms \<Rightarrow> string \<Rightarrow> bool" where
  "cached_by g t0 ops a t loc \<longleftrightarrow> (\<exists>pre post. ops = pre @ (t, Do_lookup a) # post
     \<and> registered_location t a (dir_run g pre (new_directory t0)) = Some loc
     \<and> list_all (\<lambda>x. \<not> invalidates a (snd x)) post)"

lemma cached_by_snoc: "cached_by g t0 ops a t loc \<Longrightarrow> \<not> invalidates a (snd x) \<Longrightarrow> cached_by g t0 (ops @ [x]) a t loc"
  unfolding cached_by_def by fastforce

lemma cache_provenance:
  assumes "omap_get (dy_cache (dir_run g ops (new_directory t0))) a = Some e"
  shows "\<exists>t. cached_by g t0 ops a t (ce_location e) \<and> ce_ttl e = t + dg_cache_ttl g"
  using assms
proof (induction ops arbitrary: e rule: rev_induct)
  case Nil
  then show ?case by (simp add: dir_run_def new_directory_def)
next
  case (snoc x ops)
  obtain t y where x: "x = (t, y)" by (cases x)
  show ?case using step_cache [OF snoc.prems [unfolded x dir_run_snoc]]
  proof (elim disjE conjE exE)
    fix e0 assume "omap_get (dy_cache (dir_run g ops (new_directory t0))) a = Some e0" "\<not> invalidates a y"
      "ce_location e0 = ce_location e" "ce_ttl e0 = ce_ttl e"
    then show ?thesis using snoc.IH [of e0] x by (auto intro!: exI [of _ "ce_ttl e - dg_cache_ttl g"] cached_by_snoc)
  next
    assume "y = Do_lookup a" "registered_location t a (dir_run g ops (new_directory t0)) = Some (ce_location e)"
      "ce_ttl e = t + dg_cache_ttl g"
    then show ?thesis unfolding cached_by_def x by (intro exI [of _ t] exI [of _ ops] conjI exI [of _ "[]"]) simp_all
  qed
qed

section \<open>The cache is bounded\<close>

definition cache_ok :: "directory_config \<Rightarrow> actor_directory \<Rightarrow> bool" where
  "cache_ok g d \<longleftrightarrow> distinct (omap_keys (dy_cache d)) \<and> int (length (dy_cache d)) \<le> max 1 (dg_max_size g)"

lemma delete_keys_distinct: "distinct (omap_keys m) \<Longrightarrow> distinct (omap_keys (delete_keys ks m))"
  unfolding delete_keys_def by (induction ks arbitrary: m) auto

lemma delete_keys_length: "length (delete_keys ks m) \<le> length m"
  unfolding delete_keys_def by (induction ks arbitrary: m) (auto intro: order_trans [OF _ length_delete_le])

lemma omap_delete_length: "distinct (omap_keys m) \<Longrightarrow> k \<in> set (omap_keys m) \<Longrightarrow> Suc (length (omap_delete k m)) = length m"
proof (induction m)
  case (Cons p m)
  obtain k' v where "p = (k', v)" by (cases p)
  then show ?case using Cons by (cases "k' = k") (auto simp: delete_idem)
qed simp

lemma delete_keys_length_exact:
  assumes "distinct (omap_keys m)" "distinct ks" "set ks \<subseteq> set (omap_keys m)"
  shows "length (delete_keys ks m) + length ks = length m"
  using assms
proof (induction ks arbitrary: m)
  case (Cons k ks)
  have "length (delete_keys ks (omap_delete k m)) + length ks = length (omap_delete k m)"
    using Cons.prems by (intro Cons.IH distinct_omap_delete) (auto simp: delete_keys)
  moreover have "delete_keys (k # ks) m = delete_keys ks (omap_delete k m)" by (simp add: delete_keys_def)
  ultimately show ?case using omap_delete_length [of m k] Cons.prems by simp
qed (simp add: delete_keys_def)

lemma evict_old_makes_room:
  assumes "distinct (omap_keys m)"
  shows "distinct (omap_keys (evict_old g m))" "int (length (evict_old g m)) \<le> max 0 (dg_max_size g - 1)"
proof -
  let ?n = "max 0 (int (length m) - dg_max_size g + 1)"
  let ?ks = "map fst (take (nat ?n) (sort_key (\<lambda>(k, e). ce_accessed e) m))"
  show "distinct (omap_keys (evict_old g m))" using assms by (simp add: evict_old_def Let_def delete_keys_distinct)
  have p: "distinct (map fst (sort_key (\<lambda>(k, e). ce_accessed e) m))"
    using assms by (metis distinct_map distinct_sort inj_on_def set_sort)
  have "distinct ?ks" using distinct_take [OF p, of "nat ?n"] by (simp add: take_map)
  moreover have "set ?ks \<subseteq> set (omap_keys m)" using set_take_subset by fastforce
  ultimately have "length (delete_keys ?ks m) + length ?ks = length m" by (rule delete_keys_length_exact [OF assms])
  moreover have "length ?ks = min (nat ?n) (length m)" by simp
  ultimately show "int (length (evict_old g m)) \<le> max 0 (dg_max_size g - 1)" by (auto simp: evict_old_def Let_def)
qed

lemma cache_ok_step: "cache_ok g d \<Longrightarrow> cache_ok g (dir_step g x d)"
proof -
  assume ok: "cache_ok g d"
  then have ds: "distinct (omap_keys (dy_cache d))" and ln: "int (length (dy_cache d)) \<le> max 1 (dg_max_size g)"
    by (simp_all add: cache_ok_def)
  obtain t y where x: "x = (t, y)" by (cases x)
  have del: "int (length (omap_delete a (dy_cache d))) \<le> max 1 (dg_max_size g)" for a
    using length_delete_le [of a "dy_cache d"] ln by linarith
  have dels: "int (length (delete_keys ks (dy_cache d))) \<le> max 1 (dg_max_size g)" for ks
    using delete_keys_length [of ks "dy_cache d"] ln by linarith
  have miss: "cache_ok g (snd (dir_miss g t a d))" for a
    using ok evict_old_makes_room [OF ds, of g]
    by (auto simp: cache_ok_def dir_miss_def Let_def length_omap_set)
  show ?thesis
  proof (cases y)
    case (Do_lookup a)
    show ?thesis using ok miss [of a]
      using omap_get_None [of "dy_cache d" a]
      by (auto simp: x Do_lookup cache_ok_def dir_lookup_def length_omap_set split: option.splits)
  qed (use ds ln del dels delete_keys_distinct [OF ds] in \<open>auto simp: x cache_ok_def dir_ops Let_def\<close>)
qed

lemma cache_ok_run: "cache_ok g (dir_run g ops (new_directory t0))"
proof (induction ops rule: rev_induct)
  case Nil
  then show ?case by (simp add: dir_run_def new_directory_def cache_ok_def)
next
  case (snoc x ops)
  then show ?case by (simp add: dir_run_snoc cache_ok_step)
qed

lemma lookup_result: "fst (dir_lookup g now a d) =
    (case omap_get (dy_cache d) a of
       Some e \<Rightarrow> if ce_ttl e > now then Some (ce_location e) else registered_location now a d
     | None \<Rightarrow> registered_location now a d)"
  by (auto simp: dir_lookup_def dir_miss_def Let_def split: option.splits)

definition directory_after :: "directory_config \<Rightarrow> ms \<Rightarrow> (ms \<times> dir_op) list \<Rightarrow> actor_directory" where
  "directory_after g t0 ops = dir_run g ops (new_directory t0)"

text \<open>
  C30. How stale a lookup can be. After any operations on a new directory, a lookup that finds nothing
  means that no live registration exists; a location it returns is the one registered now, or one that was
  registered at an earlier lookup of the same address, less than \<open>cacheTtl\<close> ago, since when the
  address was neither unregistered nor updated by a peer (registering it again does not refresh the cache).
  The cache never exceeds its maximum size (or one entry).\<close>

theorem lookup_staleness_bounded:
  "(case fst (dir_lookup g now a (directory_after g t0 ops)) of
       None \<Rightarrow> registered_location now a (directory_after g t0 ops) = None
     | Some loc \<Rightarrow> registered_location now a (directory_after g t0 ops) = Some loc
         \<or> (\<exists>t pre post. now < t + dg_cache_ttl g \<and> ops = pre @ (t, Do_lookup a) # post
              \<and> registered_location t a (directory_after g t0 pre) = Some loc \<and> list_all (\<lambda>x. \<not> invalidates a (snd x)) post))
    \<and> int (length (dy_cache (directory_after g t0 ops))) \<le> max 1 (dg_max_size g)"
proof
  show "int (length (dy_cache (directory_after g t0 ops))) \<le> max 1 (dg_max_size g)"
    using cache_ok_run by (simp add: directory_after_def cache_ok_def)
  show "case fst (dir_lookup g now a (directory_after g t0 ops)) of
       None \<Rightarrow> registered_location now a (directory_after g t0 ops) = None
     | Some loc \<Rightarrow> registered_location now a (directory_after g t0 ops) = Some loc
         \<or> (\<exists>t pre post. now < t + dg_cache_ttl g \<and> ops = pre @ (t, Do_lookup a) # post
              \<and> registered_location t a (directory_after g t0 pre) = Some loc \<and> list_all (\<lambda>x. \<not> invalidates a (snd x)) post)"
  proof (cases "omap_get (dy_cache (directory_after g t0 ops)) a")
    case (Some e)
    then obtain t where "cached_by g t0 ops a t (ce_location e)" "ce_ttl e = t + dg_cache_ttl g"
      using cache_provenance unfolding directory_after_def by blast
    then show ?thesis using Some unfolding cached_by_def directory_after_def by (auto simp: lookup_result split: option.split)
  qed (simp add: lookup_result split: option.split)
qed

text \<open>A registration elsewhere is not seen while the old location is cached.\<close>

lemma registered_behind_cache:
  fixes g :: directory_config
  assumes "dg_cache_ttl g = 100" "dg_max_size g = 10" "dg_node g = ''n''"
  defines "d \<equiv> dir_run g [(0, Do_apply \<lparr>we_address = ''actor://m/x'', we_location = ''m'', we_timestamp = 0, we_ttl = None\<rparr>),
     (1, Do_lookup ''actor://m/x''), (2, Do_register ''actor://m/x'' ''n'')] (new_directory 0)"
  shows "fst (dir_lookup g 3 ''actor://m/x'' d) = Some ''m''" "registered_location 3 ''actor://m/x'' d = Some ''n''"
  using assms by (simp_all add: dir_run_def new_directory_def dir_apply_remote_def dir_register_def dir_lookup_def
      dir_miss_def Let_def registered_location_def live_ttl_def evict_old_def)

end
