(* ===== verification/Dead_Letters.thy ===== *)
theory Dead_Letters
  imports Actor_Prelude
begin

text \<open>
  The queue of undeliverable messages, \<open>messaging/dead-letter-queue.ts\<close>. A dead letter is an object that a
  pending retry still holds while the queue changes under it, so letters live in a heap (the index is
  the object's identity) and the queue is a list of references. A retry is two steps around its
  \<open>await\<close>; the pending ones are part of the state. Persisting is a stub in the source.
\<close>

section \<open>Data\<close>

record 'm dead_letter =
  dl_message :: 'm
  dl_target :: string
  dl_reason :: string
  dl_time :: ms
  dl_attempts :: nat
  dl_error :: "string option"

record dead_config =
  dz_max_size :: int
  dz_ttl :: ms

record 'm dead_queue =
  dq_heap :: "'m dead_letter list"
  dq_queue :: "nat list"
  dq_retries :: "(int \<times> nat) list"    \<comment> \<open>suspended calls of \<open>retry\<close>: index asked for, letter held\<close>

definition empty_dead_queue :: "'m dead_queue" where
  "empty_dead_queue = \<lparr>dq_heap = [], dq_queue = [], dq_retries = []\<rparr>"

section \<open>Operations\<close>

text \<open>The new letter is pushed before the oldest is evicted; the reference is what the handler is called with.\<close>

definition dq_add :: "dead_config \<Rightarrow> ms \<Rightarrow> 'm \<Rightarrow> string \<Rightarrow> string \<Rightarrow> nat \<Rightarrow> string option \<Rightarrow> 'm dead_queue \<Rightarrow> nat \<times> 'm dead_queue" where
  "dq_add c now m target reason attempts err q =
     (let r = length (dq_heap q);
          l = \<lparr>dl_message = m, dl_target = target, dl_reason = reason, dl_time = now, dl_attempts = attempts, dl_error = err\<rparr>;
          pushed = dq_queue q @ [r]
      in (r, q\<lparr>dq_heap := dq_heap q @ [l],
               dq_queue := (if int (length pushed) > dz_max_size c then tl pushed else pushed)\<rparr>))"

definition dq_letters :: "'m dead_queue \<Rightarrow> 'm dead_letter list" where
  "dq_letters q = map (\<lambda>r. dq_heap q ! r) (dq_queue q)"

definition dq_by_actor :: "string \<Rightarrow> 'm dead_queue \<Rightarrow> 'm dead_letter list" where
  "dq_by_actor a q = filter (\<lambda>l. dl_target l = a) (dq_letters q)"

definition dq_by_type :: "('m \<Rightarrow> string) \<Rightarrow> string \<Rightarrow> 'm dead_queue \<Rightarrow> 'm dead_letter list" where
  "dq_by_type type_of t q = filter (\<lambda>l. type_of (dl_message l) = t) (dq_letters q)"

text \<open>\<open>splice(index, 1)\<close>: a negative index counts from the end, one past the end removes nothing.\<close>

definition splice_at :: "int \<Rightarrow> 'a list \<Rightarrow> 'a option \<times> 'a list" where
  "splice_at i xs =
     (let k = (if i < 0 then nat (max 0 (int (length xs) + i)) else nat i)
      in if k < length xs then (Some (xs ! k), take k xs @ drop (Suc k) xs) else (None, xs))"

definition dq_remove :: "int \<Rightarrow> 'm dead_queue \<Rightarrow> nat option \<times> 'm dead_queue" where
  "dq_remove i q = (let (x, rest) = splice_at i (dq_queue q) in (x, q\<lparr>dq_queue := rest\<rparr>))"

definition dq_clear :: "'m dead_queue \<Rightarrow> 'm dead_queue" where
  "dq_clear q = q\<lparr>dq_queue := []\<rparr>"

definition dq_size :: "'m dead_queue \<Rightarrow> nat" where
  "dq_size q = length (dq_queue q)"

definition count_key :: "string \<Rightarrow> (string, nat) omap \<Rightarrow> (string, nat) omap" where
  "count_key k m = omap_set k ((case omap_get m k of None \<Rightarrow> 0 | Some n \<Rightarrow> n) + 1) m"

record dead_stats =
  dt_size :: nat
  dt_oldest :: "ms option"
  dt_newest :: "ms option"
  dt_types :: "(string, nat) omap"
  dt_actors :: "(string, nat) omap"

definition dq_stats :: "('m \<Rightarrow> string) \<Rightarrow> 'm dead_queue \<Rightarrow> dead_stats" where
  "dq_stats type_of q =
     (let ls = dq_letters q
      in if ls = [] then \<lparr>dt_size = 0, dt_oldest = None, dt_newest = None, dt_types = [], dt_actors = []\<rparr>
         else \<lparr>dt_size = length ls, dt_oldest = Some (dl_time (hd ls)), dt_newest = Some (dl_time (last ls)),
               dt_types = fold (\<lambda>l. count_key (type_of (dl_message l))) ls [],
               dt_actors = fold (\<lambda>l. count_key (dl_target l)) ls []\<rparr>)"

text \<open>\<open>retry\<close> up to its await: \<open>None\<close> is the answer \<open>false\<close>.\<close>

definition dq_retry :: "int \<Rightarrow> 'm dead_queue \<Rightarrow> nat option \<times> 'm dead_queue" where
  "dq_retry i q =
     (if 0 \<le> i \<and> nat i < length (dq_queue q)
      then (let r = dq_queue q ! nat i in (Some r, q\<lparr>dq_retries := dq_retries q @ [(i, r)]\<rparr>))
      else (None, q))"

definition resume_at :: "nat \<Rightarrow> 'a list \<Rightarrow> 'a list" where
  "resume_at k xs = take k xs @ drop (Suc k) xs"

text \<open>The \<open>k\<close>-th suspended retry resumes, because its delivery succeeded or threw.\<close>

definition dq_retry_ok :: "nat \<Rightarrow> 'm dead_queue \<Rightarrow> 'm dead_queue" where
  "dq_retry_ok k q =
     (if k < length (dq_retries q)
      then snd (dq_remove (fst (dq_retries q ! k)) (q\<lparr>dq_retries := resume_at k (dq_retries q)\<rparr>)) else q)"

definition dq_retry_failed :: "ms \<Rightarrow> string \<Rightarrow> nat \<Rightarrow> 'm dead_queue \<Rightarrow> 'm dead_queue" where
  "dq_retry_failed now err k q =
     (if k < length (dq_retries q)
      then (let r = snd (dq_retries q ! k); l = dq_heap q ! r
            in q\<lparr>dq_retries := resume_at k (dq_retries q),
                 dq_heap := (dq_heap q)[r := l\<lparr>dl_attempts := dl_attempts l + 1, dl_time := now, dl_error := Some err\<rparr>]\<rparr>)
      else q)"

definition dq_cleanup :: "dead_config \<Rightarrow> ms \<Rightarrow> 'm dead_queue \<Rightarrow> 'm dead_queue" where
  "dq_cleanup c now q = q\<lparr>dq_queue := filter (\<lambda>r. now - dl_time (dq_heap q ! r) < dz_ttl c) (dq_queue q)\<rparr>"

section \<open>The queue as a machine\<close>

datatype 'm dead_op = Dead_add 'm string string nat "string option" | Dead_remove int | Dead_clear | Dead_retry int
  | Dead_retry_ok nat | Dead_retry_failed string nat | Dead_cleanup

fun dead_step :: "dead_config \<Rightarrow> ms \<times> 'm dead_op \<Rightarrow> 'm dead_queue \<Rightarrow> unit \<times> 'm dead_queue" where
  "dead_step c (now, Dead_add m t r n e) q = ((), snd (dq_add c now m t r n e q))"
| "dead_step c (now, Dead_remove i) q = ((), snd (dq_remove i q))"
| "dead_step c (now, Dead_clear) q = ((), dq_clear q)"
| "dead_step c (now, Dead_retry i) q = ((), snd (dq_retry i q))"
| "dead_step c (now, Dead_retry_ok k) q = ((), dq_retry_ok k q)"
| "dead_step c (now, Dead_retry_failed e k) q = ((), dq_retry_failed now e k q)"
| "dead_step c (now, Dead_cleanup) q = ((), dq_cleanup c now q)"

text \<open>Letters are in the order they were added, so no letter is queued twice.\<close>

definition dead_wf :: "dead_config \<Rightarrow> 'm dead_queue \<Rightarrow> bool" where
  "dead_wf c q \<longleftrightarrow> sorted_wrt (<) (dq_queue q) \<and> (\<forall>r \<in> set (dq_queue q). r < length (dq_heap q))
     \<and> int (length (dq_queue q)) \<le> max 0 (dz_max_size c)
     \<and> (\<forall>(i, r) \<in> set (dq_retries q). 0 \<le> i \<and> r < length (dq_heap q))"

section \<open>Well-formed queues\<close>

lemma splice_set: "set (snd (splice_at i xs)) \<subseteq> set xs" "length (snd (splice_at i xs)) \<le> length xs"
  by (auto simp: splice_at_def Let_def dest: in_set_takeD in_set_dropD)

lemma sorted_wrt_drop_one:
  assumes "sorted_wrt P xs"
  shows "sorted_wrt P (take k xs @ drop (Suc k) xs)"
proof (cases "k < length xs")
  case True
  then have "sorted_wrt P (take k xs @ xs ! k # drop (Suc k) xs)" using assms by (simp add: id_take_nth_drop [symmetric])
  then show ?thesis by (simp add: sorted_wrt_append)
qed (simp add: assms)

lemma splice_sorted: "sorted_wrt P xs \<Longrightarrow> sorted_wrt P (snd (splice_at i xs))"
  by (simp add: splice_at_def Let_def sorted_wrt_drop_one)

lemma resume_at_set: "set (resume_at k xs) \<subseteq> set xs"
  by (auto simp: resume_at_def dest: in_set_takeD in_set_dropD)

lemma dead_wf_remove: "dead_wf c q \<Longrightarrow> dead_wf c (snd (dq_remove i q))"
  using splice_set [of i "dq_queue q"] splice_sorted [of "(<)" "dq_queue q" i]
  by (auto simp: dead_wf_def dq_remove_def split_beta)

lemma dead_wf_add:
  assumes "dead_wf c q"
  shows "dead_wf c (snd (dq_add c now m t r n e q))"
proof -
  have "sorted_wrt (<) (dq_queue q @ [length (dq_heap q)])"
    using assms by (simp add: dead_wf_def sorted_wrt_append)
  then have "sorted_wrt (<) (tl (dq_queue q @ [length (dq_heap q)]))" by (cases "dq_queue q") simp_all
  then show ?thesis using assms by (cases "dq_queue q") (auto simp: dead_wf_def dq_add_def Let_def sorted_wrt_append)
qed

lemma dead_wf_step: "dead_wf c q \<Longrightarrow> dead_wf c (snd (dead_step c e q))"
proof -
  assume wf: "dead_wf c q"
  obtain now x where e: "e = (now, x)" by (cases e)
  show ?thesis
  proof (cases x)
    case (Dead_retry_ok k)
    have "dead_wf c (q\<lparr>dq_retries := resume_at k (dq_retries q)\<rparr>)"
      using wf resume_at_set [of k "dq_retries q"] by (auto simp: dead_wf_def)
    then show ?thesis using wf by (simp add: e Dead_retry_ok dq_retry_ok_def dead_wf_remove)
  next
    case (Dead_cleanup)
    have "int (length (filter P (dq_queue q))) \<le> max 0 (dz_max_size c)" for P
      using wf length_filter_le [of P "dq_queue q"] unfolding dead_wf_def by linarith
    then show ?thesis using wf by (auto simp: e Dead_cleanup dead_wf_def dq_cleanup_def sorted_wrt_filter)
  next
    case (Dead_retry i)
    then show ?thesis using wf by (auto simp: e dead_wf_def dq_retry_def Let_def)
  next
    case (Dead_retry_failed s k)
    then show ?thesis using wf resume_at_set [of k "dq_retries q"] by (auto simp: e dead_wf_def dq_retry_failed_def Let_def)
  qed (use wf in \<open>simp_all add: e dead_wf_add dead_wf_remove\<close>, simp add: dead_wf_def dq_clear_def)
qed

interpretation dead_machine: invariant_machine "dead_step c" "dead_wf c" for c
  by unfold_locales (rule dead_wf_step)

definition dead_after :: "dead_config \<Rightarrow> (ms \<times> 'm dead_op) list \<Rightarrow> 'm dead_queue" where
  "dead_after c ops = snd (run_machine (dead_step c) ops empty_dead_queue)"

lemma dead_after_wf: "dead_wf c (dead_after c ops)"
  unfolding dead_after_def by (rule dead_machine.inv_run) (simp add: dead_wf_def empty_dead_queue_def)

section \<open>What a retry removes\<close>

lemma remove_nth_set:
  assumes "distinct xs" "k < length xs"
  shows "set (take k xs @ drop (Suc k) xs) = set xs - {xs ! k}"
proof -
  have "distinct (take k xs @ xs ! k # drop (Suc k) xs)" "set xs = set (take k xs @ xs ! k # drop (Suc k) xs)"
    using assms by (simp_all add: id_take_nth_drop [symmetric])
  then show ?thesis by auto
qed

lemma retry_ok_queue:
  assumes "dead_wf c q" "k < length (dq_retries q)" "dq_retries q ! k = (i, r)"
  shows "set (dq_queue (dq_retry_ok k q)) =
    set (dq_queue q) - (if nat i < length (dq_queue q) then {dq_queue q ! nat i} else {})"
proof -
  have "0 \<le> i" using assms nth_mem [OF assms(2)] by (auto simp: dead_wf_def)
  moreover have "distinct (dq_queue q)" using assms(1) by (simp add: dead_wf_def strict_sorted_iff)
  ultimately show ?thesis using assms(2,3)
    by (simp add: dq_retry_ok_def dq_remove_def splice_at_def Let_def split_beta remove_nth_set del: set_append)
qed

text \<open>
  What a successful retry removes, whatever happened to the queue during the delivery: exactly the letter
  that is \<^emph>\<open>now\<close> at the index asked for. The delivered letter leaves the queue only if it is still there; if it moved,
  another letter is dropped undelivered. The queue keeps its order and never exceeds its maximum size.\<close>

theorem dead_letter_retry_exact:
  assumes "k < length (dq_retries (dead_after c ops))" "dq_retries (dead_after c ops) ! k = (i, r)"
  defines "q \<equiv> dead_after c ops"
  shows "set (dq_queue q) - set (dq_queue (dq_retry_ok k q))
       = (if nat i < length (dq_queue q) then {dq_queue q ! nat i} else {})
    \<and> (r \<notin> set (dq_queue (dq_retry_ok k q))
         \<longleftrightarrow> r \<notin> set (dq_queue q) \<or> nat i < length (dq_queue q) \<and> dq_queue q ! nat i = r)
    \<and> sorted_wrt (<) (dq_queue q) \<and> int (length (dq_queue q)) \<le> max 0 (dz_max_size c)"
proof -
  have wf: "dead_wf c q" unfolding q_def by (rule dead_after_wf)
  then show ?thesis using retry_ok_queue [OF wf, of k i r] assms(1,2) nth_mem [of "nat i" "dq_queue q"]
    unfolding q_def [symmetric] by (auto simp: dead_wf_def)
qed

text \<open>A full queue of two: during the retry of the first letter a third arrives, and the second is lost.\<close>

definition lossy_history :: "(ms \<times> string dead_op) list" where
  "lossy_history = [(0, Dead_add ''a'' ''x'' ''r'' 1 None), (1, Dead_add ''b'' ''x'' ''r'' 1 None), (2, Dead_retry 0),
     (3, Dead_add ''c'' ''x'' ''r'' 1 None)]"

theorem dead_letter_retry_exact_witness:
  "let q = dead_after \<lparr>dz_max_size = 2, dz_ttl = 100\<rparr> lossy_history
   in dq_retries q = [(0, 0)] \<and> dq_queue q = [1, 2] \<and> set (dq_queue q) - set (dq_queue (dq_retry_ok 0 q)) = {1}"
proof -
  let ?q = "dead_after \<lparr>dz_max_size = 2, dz_ttl = 100\<rparr> lossy_history"
  have q: "dq_retries ?q = [(0, 0)]" "dq_queue ?q = [1, 2]" by code_simp+
  have "set (dq_queue ?q) - set (dq_queue (dq_retry_ok 0 ?q)) = {1}"
    using dead_letter_retry_exact [of 0 "\<lparr>dz_max_size = 2, dz_ttl = 100\<rparr>" lossy_history 0 0] q by simp
  then show ?thesis using q by (simp add: Let_def)
qed

end
