(* ===== verification/Interceptor_Chain.thy ===== *)
theory Interceptor_Chain
  imports Actor_Prelude
begin

text \<open>
  Chains of message interceptors, \<open>messaging/interceptor-chain.ts\<close>. A registration is an object, named by a number, so that
  the composed pipelines the chain caches can hold on to it. Hooks are functions of the message on a world \<open>'w\<close> (which holds the
  context and whatever else they touch); a filter may throw (\<open>None\<close>). The times in the statistics are left out,
  and the pipelines of one chain run one after the other.
\<close>

section \<open>Data\<close>

datatype 'm hook_answer = Hook_throws | Hook_null | Hook_message 'm

record ('m, 'w) interceptor =
  ih_before_send :: "('m \<Rightarrow> 'w \<Rightarrow> 'm hook_answer \<times> 'w) option"
  ih_before_receive :: "('m \<Rightarrow> 'w \<Rightarrow> 'm hook_answer \<times> 'w) option"
  ih_after_process :: "('m \<Rightarrow> 'w \<Rightarrow> bool \<times> 'w) option"   \<comment> \<open>whether it returned\<close>
  ih_on_error :: "('m \<Rightarrow> 'w \<Rightarrow> bool \<times> 'w) option"

record ('m, 'w) registration =
  ir_ref :: nat
  ir_id :: string
  ir_hooks :: "('m, 'w) interceptor"
  ir_priority :: int
  ir_filter :: "('m \<Rightarrow> bool option) option"
  ir_enabled :: bool

record interceptor_stats =
  is_invocations :: nat
  is_errors :: nat
  is_filtered :: nat
  is_enabled :: bool

record ('m, 'w) chain =
  ch_regs :: "('m, 'w) registration list"
  ch_composed :: "nat list option"
  ch_after :: "nat list option"
  ch_error :: "nat list option"
  ch_stats :: "(string, interceptor_stats) omap"
  ch_next_id :: nat
  ch_next_ref :: nat

definition new_chain :: "('m, 'w) chain" where
  "new_chain = \<lparr>ch_regs = [], ch_composed = None, ch_after = None, ch_error = None, ch_stats = [],
     ch_next_id = 1, ch_next_ref = 0\<rparr>"

definition invalidate :: "('m, 'w) chain \<Rightarrow> ('m, 'w) chain" where
  "invalidate c = c\<lparr>ch_composed := None, ch_after := None, ch_error := None\<rparr>"

section \<open>Registration\<close>

text \<open>An empty id is falsy, so one is made up.\<close>

definition chain_register :: "('m, 'w) interceptor \<Rightarrow> string \<Rightarrow> int \<Rightarrow> ('m \<Rightarrow> bool option) option \<Rightarrow> ('m, 'w) chain
    \<Rightarrow> string \<times> ('m, 'w) chain" where
  "chain_register hooks i priority flt c =
     (let (rid, next) = (if i = [] then (''interceptor-'' @ nat_digits (ch_next_id c), ch_next_id c + 1) else (i, ch_next_id c));
          r = \<lparr>ir_ref = ch_next_ref c, ir_id = rid, ir_hooks = hooks, ir_priority = priority, ir_filter = flt, ir_enabled = True\<rparr>
      in (rid, invalidate (c\<lparr>ch_regs := ch_regs c @ [r],
            ch_stats := omap_set rid \<lparr>is_invocations = 0, is_errors = 0, is_filtered = 0, is_enabled = True\<rparr> (ch_stats c),
            ch_next_id := next, ch_next_ref := ch_next_ref c + 1\<rparr>)))"

fun remove_first :: "('a \<Rightarrow> bool) \<Rightarrow> 'a list \<Rightarrow> 'a list" where
  "remove_first P [] = []"
| "remove_first P (x # xs) = (if P x then xs else x # remove_first P xs)"

fun update_first :: "('a \<Rightarrow> bool) \<Rightarrow> ('a \<Rightarrow> 'a) \<Rightarrow> 'a list \<Rightarrow> 'a list" where
  "update_first P f [] = []"
| "update_first P f (x # xs) = (if P x then f x # xs else x # update_first P f xs)"

definition chain_unregister :: "string \<Rightarrow> ('m, 'w) chain \<Rightarrow> bool \<times> ('m, 'w) chain" where
  "chain_unregister i c =
     (if i \<notin> set (map ir_id (ch_regs c)) then (False, c)
      else (True, invalidate (c\<lparr>ch_regs := remove_first (\<lambda>r. ir_id r = i) (ch_regs c),
                    ch_stats := omap_delete i (ch_stats c)\<rparr>)))"

definition map_stats :: "string \<Rightarrow> (interceptor_stats \<Rightarrow> interceptor_stats) \<Rightarrow> ('m, 'w) chain \<Rightarrow> ('m, 'w) chain" where
  "map_stats i f c = (case omap_get (ch_stats c) i of None \<Rightarrow> c | Some s \<Rightarrow> c\<lparr>ch_stats := omap_set i (f s) (ch_stats c)\<rparr>)"

definition chain_set_enabled :: "string \<Rightarrow> bool \<Rightarrow> ('m, 'w) chain \<Rightarrow> bool \<times> ('m, 'w) chain" where
  "chain_set_enabled i b c =
     (if i \<notin> set (map ir_id (ch_regs c)) then (False, c)
      else (True, invalidate (map_stats i (\<lambda>s. s\<lparr>is_enabled := b\<rparr>)
             (c\<lparr>ch_regs := update_first (\<lambda>r. ir_id r = i) (\<lambda>r. r\<lparr>ir_enabled := b\<rparr>) (ch_regs c)\<rparr>))))"

definition chain_clear :: "('m, 'w) chain \<Rightarrow> ('m, 'w) chain" where
  "chain_clear c = (invalidate c)\<lparr>ch_regs := [], ch_stats := []\<rparr>"

section \<open>Pipelines\<close>

definition find_ref :: "('m, 'w) chain \<Rightarrow> nat \<Rightarrow> ('m, 'w) registration option" where
  "find_ref c r = find (\<lambda>x. ir_ref x = r) (ch_regs c)"

text \<open>The orders the pipelines are composed in (the sorts are stable).\<close>

definition before_order :: "('m, 'w) registration list \<Rightarrow> nat list" where
  "before_order rs = map ir_ref (sort_key (\<lambda>r. - ir_priority r) rs)"

definition after_order :: "(('m, 'w) interceptor \<Rightarrow> bool) \<Rightarrow> ('m, 'w) registration list \<Rightarrow> nat list" where
  "after_order has rs = map ir_ref (filter (\<lambda>r. has (ir_hooks r)) (sort_key ir_priority rs))"

datatype phase = On_send | On_receive

definition phase_hook :: "phase \<Rightarrow> ('m, 'w) interceptor \<Rightarrow> ('m \<Rightarrow> 'w \<Rightarrow> 'm hook_answer \<times> 'w) option" where
  "phase_hook ph h = (case ph of On_send \<Rightarrow> ih_before_send h | On_receive \<Rightarrow> ih_before_receive h)"

text \<open>What a registration does with a message: \<open>None\<close> where its filter throws, \<open>Some None\<close> where it is passed over.\<close>

definition selected :: "('m, 'w) registration \<Rightarrow> 'm \<Rightarrow> bool option" where
  "selected r m = (if \<not> ir_enabled r then Some False else case ir_filter r of None \<Rightarrow> Some True | Some f \<Rightarrow> f m)"

datatype 'm pipeline_result = Pipeline_throws | Message_filtered | Message_continues 'm

fun run_before :: "phase \<Rightarrow> ('m, 'w) registration list \<Rightarrow> 'm \<Rightarrow> 'w \<Rightarrow> ('m, 'w) chain \<Rightarrow> 'm pipeline_result \<times> 'w \<times> ('m, 'w) chain" where
  "run_before ph [] m w c = (Message_continues m, w, c)"
| "run_before ph (r # rs) m w c =
     (case selected r m of
        None \<Rightarrow> (Pipeline_throws, w, c)
      | Some False \<Rightarrow> run_before ph rs m w c
      | Some True \<Rightarrow>
          (case phase_hook ph (ir_hooks r) of
             None \<Rightarrow> run_before ph rs m w c
           | Some hook \<Rightarrow>
               (case hook m w of
                  (Hook_throws, w1) \<Rightarrow> run_before ph rs m w1 (map_stats (ir_id r) (\<lambda>s. s\<lparr>is_errors := is_errors s + 1\<rparr>) c)
                | (Hook_null, w1) \<Rightarrow> (Message_filtered, w1,
                    map_stats (ir_id r) (\<lambda>s. s\<lparr>is_invocations := is_invocations s + 1, is_filtered := is_filtered s + 1\<rparr>) c)
                | (Hook_message m1, w1) \<Rightarrow>
                    run_before ph rs m1 w1 (map_stats (ir_id r) (\<lambda>s. s\<lparr>is_invocations := is_invocations s + 1\<rparr>) c))))"

definition the_regs :: "('m, 'w) chain \<Rightarrow> nat list \<Rightarrow> ('m, 'w) registration list" where
  "the_regs c refs = List.map_filter (find_ref c) refs"

definition chain_execute :: "phase \<Rightarrow> 'm \<Rightarrow> 'w \<Rightarrow> ('m, 'w) chain \<Rightarrow> 'm pipeline_result \<times> 'w \<times> ('m, 'w) chain" where
  "chain_execute ph m w c =
     (if ch_regs c = [] then (Message_continues m, w, c)
      else (let refs = (case ch_composed c of None \<Rightarrow> before_order (ch_regs c) | Some l \<Rightarrow> l)
            in run_before ph (the_regs c refs) m w (c\<lparr>ch_composed := Some refs\<rparr>)))"

fun run_after :: "(('m, 'w) interceptor \<Rightarrow> ('m \<Rightarrow> 'w \<Rightarrow> bool \<times> 'w) option) \<Rightarrow> ('m, 'w) registration list \<Rightarrow> 'm \<Rightarrow> 'w
    \<Rightarrow> ('m, 'w) chain \<Rightarrow> bool \<times> 'w \<times> ('m, 'w) chain" where
  "run_after hook_of [] m w c = (True, w, c)"
| "run_after hook_of (r # rs) m w c =
     (case selected r m of
        None \<Rightarrow> (False, w, c)
      | Some False \<Rightarrow> run_after hook_of rs m w c
      | Some True \<Rightarrow>
          (case hook_of (ir_hooks r) of
             None \<Rightarrow> run_after hook_of rs m w c
           | Some hook \<Rightarrow>
               (let (ok, w1) = hook m w
                in run_after hook_of rs m w1 (map_stats (ir_id r) (\<lambda>s.
                     if ok then s\<lparr>is_invocations := is_invocations s + 1\<rparr> else s\<lparr>is_errors := is_errors s + 1\<rparr>) c))))"

definition chain_after_process :: "'m \<Rightarrow> 'w \<Rightarrow> ('m, 'w) chain \<Rightarrow> bool \<times> 'w \<times> ('m, 'w) chain" where
  "chain_after_process m w c =
     (if ch_regs c = [] then (True, w, c)
      else (let refs = (case ch_after c of None \<Rightarrow> after_order (\<lambda>h. ih_after_process h \<noteq> None) (ch_regs c) | Some l \<Rightarrow> l)
            in run_after ih_after_process (the_regs c refs) m w (c\<lparr>ch_after := Some refs\<rparr>)))"

definition chain_on_error :: "'m \<Rightarrow> 'w \<Rightarrow> ('m, 'w) chain \<Rightarrow> bool \<times> 'w \<times> ('m, 'w) chain" where
  "chain_on_error m w c =
     (if ch_regs c = [] then (True, w, c)
      else (let refs = (case ch_error c of None \<Rightarrow> after_order (\<lambda>h. ih_on_error h \<noteq> None) (ch_regs c) | Some l \<Rightarrow> l)
            in run_after ih_on_error (the_regs c refs) m w (c\<lparr>ch_error := Some refs\<rparr>)))"

section \<open>The cached pipelines are the composed ones\<close>

definition chain_wf :: "('m, 'w) chain \<Rightarrow> bool" where
  "chain_wf c \<longleftrightarrow> distinct (map ir_ref (ch_regs c)) \<and> (\<forall>r \<in> set (ch_regs c). ir_ref r < ch_next_ref c)
     \<and> (ch_composed c \<noteq> None \<longrightarrow> ch_composed c = Some (before_order (ch_regs c)))
     \<and> (ch_after c \<noteq> None \<longrightarrow> ch_after c = Some (after_order (\<lambda>h. ih_after_process h \<noteq> None) (ch_regs c)))
     \<and> (ch_error c \<noteq> None \<longrightarrow> ch_error c = Some (after_order (\<lambda>h. ih_on_error h \<noteq> None) (ch_regs c)))"

datatype ('m, 'w) chain_op = Chain_register "('m, 'w) interceptor" string int "('m \<Rightarrow> bool option) option"
  | Chain_unregister string | Chain_set_enabled string bool | Chain_clear
  | Chain_execute phase 'm 'w | Chain_after 'm 'w | Chain_error 'm 'w

fun chain_step :: "('m, 'w) chain_op \<Rightarrow> ('m, 'w) chain \<Rightarrow> unit \<times> ('m, 'w) chain" where
  "chain_step (Chain_register h i p f) c = ((), snd (chain_register h i p f c))"
| "chain_step (Chain_unregister i) c = ((), snd (chain_unregister i c))"
| "chain_step (Chain_set_enabled i b) c = ((), snd (chain_set_enabled i b c))"
| "chain_step Chain_clear c = ((), chain_clear c)"
| "chain_step (Chain_execute ph m w) c = ((), snd (snd (chain_execute ph m w c)))"
| "chain_step (Chain_after m w) c = ((), snd (snd (chain_after_process m w c)))"
| "chain_step (Chain_error m w) c = ((), snd (snd (chain_on_error m w c)))"

lemma map_stats_keeps [simp]: "ch_regs (map_stats i f c) = ch_regs c" "ch_composed (map_stats i f c) = ch_composed c"
  "ch_after (map_stats i f c) = ch_after c" "ch_error (map_stats i f c) = ch_error c" "ch_next_ref (map_stats i f c) = ch_next_ref c"
  by (simp_all add: map_stats_def split: option.split)

lemma chain_wf_stats [simp]: "chain_wf (map_stats i f c) = chain_wf c"
  by (simp add: chain_wf_def)

lemma run_before_wf: "chain_wf c \<Longrightarrow> chain_wf (snd (snd (run_before ph rs m w c)))"
  by (induction ph rs m w c rule: run_before.induct) (auto split: option.split bool.split hook_answer.split prod.split)

lemma run_after_wf: "chain_wf c \<Longrightarrow> chain_wf (snd (snd (run_after hook_of rs m w c)))"
  by (induction hook_of rs m w c rule: run_after.induct) (auto simp: Let_def split: option.split bool.split prod.split)

lemma invalidate_simps [simp]: "ch_regs (invalidate c) = ch_regs c" "ch_composed (invalidate c) = None"
  "ch_after (invalidate c) = None" "ch_error (invalidate c) = None" "ch_next_ref (invalidate c) = ch_next_ref c"
  by (simp_all add: invalidate_def)

lemma remove_first_refs: "distinct (map f xs) \<Longrightarrow> distinct (map f (remove_first P xs))" "set (remove_first P xs) \<subseteq> set xs"
  by (induction xs) (auto dest: subsetD)

lemma update_first_refs:
  "(\<And>x. f (g x) = f x) \<Longrightarrow> map f (update_first P g xs) = map f xs"
  by (induction xs) auto

lemma chain_wf_refs:
  assumes "chain_wf c" "distinct (map ir_ref (ch_regs c1))" "set (map ir_ref (ch_regs c1)) \<subseteq> set (map ir_ref (ch_regs c))"
    "ch_next_ref c1 = ch_next_ref c" "ch_composed c1 = None" "ch_after c1 = None" "ch_error c1 = None"
  shows "chain_wf c1"
  using assms by (auto simp: chain_wf_def)

lemma chain_wf_step: "chain_wf c \<Longrightarrow> chain_wf (snd (chain_step e c))"
proof -
  assume wf: "chain_wf c"
  show ?thesis
  proof (cases e)
    case (Chain_register h i p f)
    then show ?thesis using wf by (auto simp: chain_wf_def chain_register_def Let_def split_beta)
  next
    case (Chain_unregister i)
    let ?c1 = "invalidate (c\<lparr>ch_regs := remove_first (\<lambda>r. ir_id r = i) (ch_regs c), ch_stats := omap_delete i (ch_stats c)\<rparr>)"
    have "distinct (map ir_ref (ch_regs c))" using wf by (simp add: chain_wf_def)
    then have "chain_wf ?c1"
      using remove_first_refs(1) [of ir_ref "ch_regs c" "\<lambda>r. ir_id r = i"] remove_first_refs(2) [of "\<lambda>r. ir_id r = i" "ch_regs c"] by (intro chain_wf_refs [OF wf]) auto
    then show ?thesis using wf by (simp add: Chain_unregister chain_unregister_def)
  next
    case (Chain_set_enabled i b)
    have u: "map ir_ref (update_first P (\<lambda>r. r\<lparr>ir_enabled := b\<rparr>) rs) = map ir_ref rs" for P and rs :: "('a, 'b) registration list"
      by (rule update_first_refs) simp
    have "chain_wf (snd (chain_set_enabled i b c))"
    proof (cases "i \<in> set (map ir_id (ch_regs c))")
      case True
      then show ?thesis
        using wf u [of "\<lambda>r. ir_id r = i" "ch_regs c"]
        by (intro chain_wf_refs [OF wf]) (auto simp: chain_set_enabled_def chain_wf_def simp del: set_map simp flip: set_map)
    qed (use wf in \<open>auto simp: chain_set_enabled_def\<close>)
    then show ?thesis by (simp add: Chain_set_enabled)
  next
    case Chain_clear
    then show ?thesis by (simp add: chain_wf_def chain_clear_def)
  next
    case (Chain_execute ph m w)
    have "chain_wf (c\<lparr>ch_composed := Some (case ch_composed c of None \<Rightarrow> before_order (ch_regs c) | Some l \<Rightarrow> l)\<rparr>)"
      using wf by (auto simp: chain_wf_def split: option.split)
    then show ?thesis using wf by (simp add: Chain_execute chain_execute_def Let_def run_before_wf)
  next
    case (Chain_after m w)
    have "chain_wf (c\<lparr>ch_after := Some (case ch_after c of None \<Rightarrow> after_order (\<lambda>h. ih_after_process h \<noteq> None) (ch_regs c) | Some l \<Rightarrow> l)\<rparr>)"
      using wf by (auto simp: chain_wf_def split: option.split)
    then show ?thesis using wf by (simp add: Chain_after chain_after_process_def Let_def run_after_wf)
  next
    case (Chain_error m w)
    have "chain_wf (c\<lparr>ch_error := Some (case ch_error c of None \<Rightarrow> after_order (\<lambda>h. ih_on_error h \<noteq> None) (ch_regs c) | Some l \<Rightarrow> l)\<rparr>)"
      using wf by (auto simp: chain_wf_def split: option.split)
    then show ?thesis using wf by (simp add: Chain_error chain_on_error_def Let_def run_after_wf)
  qed
qed

interpretation chains: invariant_machine chain_step chain_wf
  by unfold_locales (rule chain_wf_step)

definition chain_history :: "('m, 'w) chain_op list \<Rightarrow> ('m, 'w) chain" where
  "chain_history ops = snd (run_machine chain_step ops new_chain)"

lemma chain_history_wf: "chain_wf (chain_history ops)"
  unfolding chain_history_def by (rule chains.inv_run) (simp add: chain_wf_def new_chain_def)

section \<open>Reference semantics\<close>

text \<open>
  What a chain is for, without caches and statistics: the interceptors one after the other, the one of the
  highest priority first, one of equal priority in order of registration; one that throws is passed over.\<close>

fun intercept :: "phase \<Rightarrow> ('m, 'w) registration list \<Rightarrow> 'm \<Rightarrow> 'w \<Rightarrow> 'm pipeline_result \<times> 'w" where
  "intercept ph [] m w = (Message_continues m, w)"
| "intercept ph (r # rs) m w =
     (case (selected r m, phase_hook ph (ir_hooks r)) of
        (None, _) \<Rightarrow> (Pipeline_throws, w)
      | (Some True, Some hook) \<Rightarrow>
          (case hook m w of
             (Hook_message m1, w1) \<Rightarrow> intercept ph rs m1 w1
           | (Hook_null, w1) \<Rightarrow> (Message_filtered, w1)
           | (Hook_throws, w1) \<Rightarrow> intercept ph rs m w1)
      | _ \<Rightarrow> intercept ph rs m w)"

lemma run_before_intercept:
  "(fst (run_before ph rs m w c), fst (snd (run_before ph rs m w c))) = intercept ph rs m w"
  by (induction ph rs m w c rule: run_before.induct) (auto split: option.split bool.split hook_answer.split prod.split)

lemma find_ref_mem:
  assumes "distinct (map ir_ref (ch_regs c))" "r \<in> set (ch_regs c)"
  shows "find_ref c (ir_ref r) = Some r"
proof -
  have "find (\<lambda>x. ir_ref x = ir_ref r) rs = Some r" if "distinct (map ir_ref rs)" "r \<in> set rs" for rs
    using that by (induction rs) (auto simp: image_iff)
  then show ?thesis using assms by (simp add: find_ref_def)
qed

lemma the_regs_map:
  "distinct (map ir_ref (ch_regs c)) \<Longrightarrow> set rs \<subseteq> set (ch_regs c) \<Longrightarrow> the_regs c (map ir_ref rs) = rs"
  by (induction rs) (auto simp: the_regs_def map_filter_simps find_ref_mem)

text \<open>
  C32. After any history of registrations, removals, switches and messages, a message passes through a chain with its cached
  pipelines and statistics exactly as it passes, one by one, through the enabled interceptors of the phase in the order of their
  priorities (equal ones in order of registration); one that throws changes nothing for those after it.\<close>

theorem interceptors_run_by_priority:
  "(let c = chain_history ops; (res, w1, c1) = chain_execute ph m w c
    in (res, w1) = intercept ph (sort_key (\<lambda>r. - ir_priority r) (ch_regs c)) m w \<and> ch_regs c1 = ch_regs c)"
proof -
  let ?c = "chain_history ops" and ?rs = "sort_key (\<lambda>r. - ir_priority r) (ch_regs (chain_history ops))"
  have wf: "chain_wf ?c" by (rule chain_history_wf)
  have regs: "ch_regs (snd (snd (run_before ph rs m w c))) = ch_regs c" for rs c and m :: 'a and w :: 'b
    by (induction ph rs m w c rule: run_before.induct) (auto split: option.split bool.split hook_answer.split prod.split)
  show ?thesis
  proof (cases "ch_regs ?c = []")
    case False
    let ?c1 = "?c\<lparr>ch_composed := Some (before_order (ch_regs ?c))\<rparr>"
    have "chain_execute ph m w ?c = run_before ph (the_regs ?c (before_order (ch_regs ?c))) m w ?c1"
      using False wf by (auto simp: chain_execute_def chain_wf_def Let_def split: option.split)
    moreover have "the_regs ?c (before_order (ch_regs ?c)) = ?rs"
      unfolding before_order_def by (rule the_regs_map) (use wf in \<open>simp_all add: chain_wf_def\<close>)
    ultimately show ?thesis using run_before_intercept [of ph ?rs m w ?c1] regs [of ?rs m w ?c1] by (simp add: Let_def split_beta)
  qed (simp add: chain_execute_def)
qed

end
