(* ===== verification/Message_Routing.thy ===== *)
theory Message_Routing
  imports Actor_Directory Dead_Letters Interceptor_Chain Processing_Loop Json_Values
begin

text \<open>
  Where a sent message goes: \<open>enqueueMessageInternal\<close> and \<open>deliverMessageRemote\<close> of \<open>actor-system-impl.ts\<close>, over the
  global interceptors, the directory, the router, the transport, the mailboxes of local actors and the dead letters. A send waits
  for the interceptors, the directory, the router and the transport; between two awaits it is a step, and other sends
  and operations of the directory come in between. A callback is a function that may throw; what a router and a
  transport answer are arguments of the steps that resume.
\<close>

section \<open>State\<close>

datatype message_fate =
    Filtered_out            \<comment> \<open>an interceptor returned no message\<close>
  | Called_back             \<comment> \<open>delivered to a callback of the system events\<close>
  | In_mailbox              \<comment> \<open>queued, or its sender parked\<close>
  | Frame_sent string       \<comment> \<open>handed to the transport for this node\<close>
  | Dead_lettered string
  | Send_rejected           \<comment> \<open>\<open>enqueueMessage\<close> itself rejected\<close>

datatype 'm send_stage =
    Intercepted "'m pipeline_result"
  | Located 'm "string option"
  | Resolving 'm string
  | Transmitting 'm string

record 'm pending_send =
  ps_address :: string
  ps_token :: "json option"
  ps_stage :: "'m send_stage"

record ('m, 'w) route_env =
  rv_config :: directory_config
  rv_notification :: "'m \<Rightarrow> bool"                     \<comment> \<open>\<open>type = 'SYSTEM_EVENT_NOTIFICATION'\<close>\<close>
  rv_callback :: "string \<Rightarrow> ('m \<Rightarrow> bool) option"      \<comment> \<open>registered callbacks: whether one returns\<close>
  rv_router :: bool                                  \<comment> \<open>whether a router is configured\<close>
  rv_transport :: bool

record ('m, 'w) routing =
  ro_chain :: "('m, 'w) chain"
  ro_world :: 'w
  ro_directory :: actor_directory
  ro_dead :: "'m dead_queue"
  ro_cells :: "string \<Rightarrow> 'm actor_cell"
  ro_addresses :: "string list"                       \<comment> \<open>the addresses of all sends so far\<close>
  ro_pending :: "(nat, 'm pending_send) omap"
  ro_fates :: "(nat \<times> message_fate) list"

definition dead_defaults :: dead_config where
  "dead_defaults = \<lparr>dz_max_size = 1000, dz_ttl = 86400000\<rparr>"

definition finish_send :: "nat \<Rightarrow> message_fate \<Rightarrow> ('m, 'w) routing \<Rightarrow> ('m, 'w) routing" where
  "finish_send i f s = s\<lparr>ro_pending := omap_delete i (ro_pending s), ro_fates := ro_fates s @ [(i, f)]\<rparr>"

definition set_stage :: "nat \<Rightarrow> 'm pending_send \<Rightarrow> 'm send_stage \<Rightarrow> ('m, 'w) routing \<Rightarrow> ('m, 'w) routing" where
  "set_stage i p st s = s\<lparr>ro_pending := omap_set i (p\<lparr>ps_stage := st\<rparr>) (ro_pending s)\<rparr>"

definition bury :: "ms \<Rightarrow> nat \<Rightarrow> string \<Rightarrow> 'm \<Rightarrow> string \<Rightarrow> string option \<Rightarrow> ('m, 'w) routing \<Rightarrow> ('m, 'w) routing" where
  "bury now i a m reason err s =
     finish_send i (Dead_lettered reason) (s\<lparr>ro_dead := snd (dq_add dead_defaults now m a reason 1 err (ro_dead s))\<rparr>)"

section \<open>Local delivery\<close>

definition deliver_local :: "ms \<Rightarrow> nat \<Rightarrow> string \<Rightarrow> 'm \<Rightarrow> ('m, 'w) routing \<Rightarrow> ('m, 'w) routing" where
  "deliver_local now i a m s =
     (let c = enqueue_message now m ((ro_cells s a)\<lparr>ac_dead_letters := []\<rparr>);
          s1 = s\<lparr>ro_cells := (ro_cells s)(a := c)\<rparr>
      in case ac_dead_letters c of
           [] \<Rightarrow> finish_send i In_mailbox s1
         | (m1, reason) # _ \<Rightarrow> bury now i a m1 reason (strip_prefix ''Failed to enqueue message: '' reason) s1)"

section \<open>Remote delivery\<close>

text \<open>\<open>normalizeRemoteRouteDecision\<close>; \<open>None\<close> where it throws.\<close>

fun route_decision :: "json \<Rightarrow> (string \<times> json option) option" where
  "route_decision (JString hop) = Some (hop, None)"
| "route_decision v =
     (case field v ''nextHop'' of
        Some (JString hop) \<Rightarrow> if hop = [] then None else Some (hop, field v ''routeToken'')
      | _ \<Rightarrow> None)"

definition remote_failed :: "ms \<Rightarrow> nat \<Rightarrow> string \<Rightarrow> 'm \<Rightarrow> string \<Rightarrow> ('m, 'w) routing \<Rightarrow> ('m, 'w) routing" where
  "remote_failed now i a m err s = bury now i a m ''Remote delivery failed'' (Some err) s"

text \<open>\<open>sendTransportMessage\<close> up to its await.\<close>

definition transmit :: "('m, 'w) route_env \<Rightarrow> ms \<Rightarrow> nat \<Rightarrow> 'm pending_send \<Rightarrow> 'm \<Rightarrow> string \<Rightarrow> ('m, 'w) routing \<Rightarrow> ('m, 'w) routing" where
  "transmit ev now i p m hop s =
     (if hop = [] then remote_failed now i (ps_address p) m ''Remote transport destination is required'' s
      else if \<not> rv_transport ev then remote_failed now i (ps_address p) m ''Actor system transport is not configured'' s
      else set_stage i p (Transmitting m hop) s)"

definition deliver_remote :: "('m, 'w) route_env \<Rightarrow> ms \<Rightarrow> nat \<Rightarrow> 'm pending_send \<Rightarrow> 'm \<Rightarrow> string \<Rightarrow> ('m, 'w) routing \<Rightarrow> ('m, 'w) routing" where
  "deliver_remote ev now i p m location s =
     (if is_local_address (ps_address p) \<noteq> Some False
      then remote_failed now i (ps_address p) m ''Cannot deliver node-private local address'' s
      else if rv_router ev then set_stage i p (Resolving m location) s
      else transmit ev now i p m location s)"

section \<open>Routing\<close>

definition after_lookup :: "('m, 'w) route_env \<Rightarrow> ms \<Rightarrow> nat \<Rightarrow> 'm pending_send \<Rightarrow> 'm \<Rightarrow> string option \<Rightarrow> ('m, 'w) routing \<Rightarrow> ('m, 'w) routing" where
  "after_lookup ev now i p m location s = (case location of
       None \<Rightarrow> bury now i (ps_address p) m ''Actor not found in directory'' None s
     | Some l \<Rightarrow>
         (if l = [] then bury now i (ps_address p) m ''Actor not found in directory'' None s
          else if l \<noteq> dg_node (rv_config ev) then deliver_remote ev now i p m l s
          else deliver_local now i (ps_address p) m s))"

definition callback_path :: "string \<Rightarrow> bool" where
  "callback_path a \<longleftrightarrow> has_substring a ''/callback/''"

definition deliver_callback :: "('m, 'w) route_env \<Rightarrow> ms \<Rightarrow> nat \<Rightarrow> 'm pending_send \<Rightarrow> 'm \<Rightarrow> ('m, 'w) routing \<Rightarrow> ('m, 'w) routing" where
  "deliver_callback ev now i p m s =
     (case (if rv_notification ev m then rv_callback ev (ps_address p) else None) of
        Some cb \<Rightarrow> finish_send i (if cb m then Called_back else Send_rejected) s
      | None \<Rightarrow> bury now i (ps_address p) m ''Callback not found'' None s)"

text \<open>An address that does not parse makes \<open>isLocalAddress\<close> throw.\<close>

definition locate :: "('m, 'w) route_env \<Rightarrow> ms \<Rightarrow> nat \<Rightarrow> 'm pending_send \<Rightarrow> 'm \<Rightarrow> ('m, 'w) routing \<Rightarrow> ('m, 'w) routing" where
  "locate ev now i p m s =
     (if callback_path (ps_address p) then deliver_callback ev now i p m s
      else case is_local_address (ps_address p) of
             None \<Rightarrow> finish_send i Send_rejected s
           | Some True \<Rightarrow> after_lookup ev now i p m (Some (dg_node (rv_config ev))) s
           | Some False \<Rightarrow>
               (let (location, d) = dir_lookup (rv_config ev) now (ps_address p) (ro_directory s)
                in set_stage i p (Located m location) (s\<lparr>ro_directory := d\<rparr>)))"

definition after_interceptors :: "('m, 'w) route_env \<Rightarrow> ms \<Rightarrow> nat \<Rightarrow> 'm pending_send \<Rightarrow> 'm pipeline_result \<Rightarrow> ('m, 'w) routing \<Rightarrow> ('m, 'w) routing" where
  "after_interceptors ev now i p res s = (case res of
       Pipeline_throws \<Rightarrow> finish_send i Send_rejected s
     | Message_filtered \<Rightarrow> finish_send i Filtered_out s
     | Message_continues m \<Rightarrow> locate ev now i p m s)"

definition begin_send :: "('m, 'w) route_env \<Rightarrow> ms \<Rightarrow> string \<Rightarrow> 'm \<Rightarrow> json option \<Rightarrow> ('m, 'w) routing \<Rightarrow> ('m, 'w) routing" where
  "begin_send ev now a m token s =
     (let i = length (ro_addresses s); s1 = s\<lparr>ro_addresses := ro_addresses s @ [a]\<rparr>
      in if ch_regs (ro_chain s) = []
         then locate ev now i \<lparr>ps_address = a, ps_token = token, ps_stage = Located m None\<rparr> m s1
         else (let (res, w, c) = chain_execute On_send m (ro_world s) (ro_chain s)
               in s1\<lparr>ro_chain := c, ro_world := w,
                    ro_pending := omap_set i \<lparr>ps_address = a, ps_token = token, ps_stage = Intercepted res\<rparr> (ro_pending s)\<rparr>))"

text \<open>What a suspended send resumes with: nothing of its own, the decision of the router, or the outcome of the transport.\<close>

datatype resume_with = Resume_plain | Router_says "string + json" | Transport_says "string option"

fun resume_stage :: "('m, 'w) route_env \<Rightarrow> ms \<Rightarrow> nat \<Rightarrow> 'm pending_send \<Rightarrow> 'm send_stage \<Rightarrow> resume_with \<Rightarrow> ('m, 'w) routing \<Rightarrow> ('m, 'w) routing" where
  "resume_stage ev now i p (Intercepted res) Resume_plain s = after_interceptors ev now i p res s"
| "resume_stage ev now i p (Located m location) Resume_plain s = after_lookup ev now i p m location s"
| "resume_stage ev now i p (Resolving m location) (Router_says (Inl err)) s = remote_failed now i (ps_address p) m err s"
| "resume_stage ev now i p (Resolving m location) (Router_says (Inr v)) s = (case route_decision v of
     None \<Rightarrow> remote_failed now i (ps_address p) m ''RemoteMessageRouter returned an invalid route decision.'' s
   | Some (hop, token) \<Rightarrow> transmit ev now i (p\<lparr>ps_token := token\<rparr>) m hop s)"
| "resume_stage ev now i p (Transmitting m hop) (Transport_says None) s = finish_send i (Frame_sent hop) s"
| "resume_stage ev now i p (Transmitting m hop) (Transport_says (Some err)) s = remote_failed now i (ps_address p) m err s"
| "resume_stage ev now i p st r s = s"

definition resume_send :: "('m, 'w) route_env \<Rightarrow> ms \<Rightarrow> nat \<Rightarrow> resume_with \<Rightarrow> ('m, 'w) routing \<Rightarrow> ('m, 'w) routing" where
  "resume_send ev now i r s = (case omap_get (ro_pending s) i of
       None \<Rightarrow> s
     | Some p \<Rightarrow> resume_stage ev now i p (ps_stage p) r s)"

section \<open>The system as a machine\<close>

datatype ('m, 'w) route_event = Begin_send string 'm "json option" | Resume_send nat resume_with
  | Directory_op dir_op | Chain_op "('m, 'w) chain_op" | Dead_op "'m dead_op" | Cell_event string "'m loop_event"

fun route_step :: "('m, 'w) route_env \<Rightarrow> ms \<times> ('m, 'w) route_event \<Rightarrow> ('m, 'w) routing \<Rightarrow> ('m, 'w) routing" where
  "route_step ev (now, Begin_send a m t) s = begin_send ev now a m t s"
| "route_step ev (now, Resume_send i r) s = resume_send ev now i r s"
| "route_step ev (now, Directory_op x) s = s\<lparr>ro_directory := dir_step (rv_config ev) (now, x) (ro_directory s)\<rparr>"
| "route_step ev (now, Chain_op x) s = s\<lparr>ro_chain := snd (chain_step x (ro_chain s))\<rparr>"
| "route_step ev (now, Dead_op x) s = s\<lparr>ro_dead := snd (dead_step dead_defaults (now, x) (ro_dead s))\<rparr>"
| "route_step ev (now, Cell_event a x) s = s\<lparr>ro_cells := (ro_cells s)(a := loop_step x (ro_cells s a))\<rparr>"

definition new_routing :: "'w \<Rightarrow> ms \<Rightarrow> ('m, 'w) routing" where
  "new_routing w now = \<lparr>ro_chain = new_chain, ro_world = w, ro_directory = new_directory now, ro_dead = empty_dead_queue,
     ro_cells = (\<lambda>_. empty_cell), ro_addresses = [], ro_pending = [], ro_fates = []\<rparr>"

definition route_run :: "('m, 'w) route_env \<Rightarrow> (ms \<times> ('m, 'w) route_event) list \<Rightarrow> ('m, 'w) routing \<Rightarrow> ('m, 'w) routing" where
  "route_run ev es s = fold (route_step ev) es s"

section \<open>Every message has one fate\<close>

definition has_letter :: "'m dead_queue \<Rightarrow> string \<Rightarrow> string \<Rightarrow> bool" where
  "has_letter q a reason \<longleftrightarrow> list_ex (\<lambda>l. dl_target l = a \<and> dl_reason l = reason) (dq_heap q)"

definition fate_ok :: "('m, 'w) routing \<Rightarrow> nat \<Rightarrow> message_fate \<Rightarrow> bool" where
  "fate_ok s i f \<longleftrightarrow> i < length (ro_addresses s) \<and> (let a = ro_addresses s ! i in case f of
       Frame_sent hop \<Rightarrow> hop \<noteq> [] \<and> is_local_address a = Some False \<and> \<not> callback_path a
     | In_mailbox \<Rightarrow> \<not> callback_path a
     | Called_back \<Rightarrow> callback_path a
     | Dead_lettered reason \<Rightarrow> has_letter (ro_dead s) a reason
     | _ \<Rightarrow> True)"

definition stage_ok :: "'m pending_send \<Rightarrow> bool" where
  "stage_ok p \<longleftrightarrow> (case ps_stage p of
       Intercepted r \<Rightarrow> True
     | Located m l \<Rightarrow> is_local_address (ps_address p) = Some False \<and> \<not> callback_path (ps_address p)
     | Resolving m l \<Rightarrow> is_local_address (ps_address p) = Some False \<and> \<not> callback_path (ps_address p)
     | Transmitting m hop \<Rightarrow> hop \<noteq> [] \<and> is_local_address (ps_address p) = Some False \<and> \<not> callback_path (ps_address p))"

definition fated :: "('m, 'w) routing \<Rightarrow> nat set" where
  "fated s = fst ` set (ro_fates s)"

lemma fate_ok_cong: "ro_addresses s1 = ro_addresses s \<Longrightarrow> ro_dead s1 = ro_dead s \<Longrightarrow> fate_ok s1 = fate_ok s"
  unfolding fate_ok_def by (intro ext) (simp split: message_fate.split)

text \<open>The sends in \<open>K\<close> are being processed: they may be neither pending nor fated.\<close>

definition route_inv :: "nat set \<Rightarrow> ('m, 'w) routing \<Rightarrow> bool" where
  "route_inv K s \<longleftrightarrow> distinct (map fst (ro_fates s)) \<and> (\<forall>(i, f) \<in> set (ro_fates s). fate_ok s i f)
     \<and> (\<forall>i p. omap_get (ro_pending s) i = Some p \<longrightarrow>
          i < length (ro_addresses s) \<and> i \<notin> fated s \<and> ps_address p = ro_addresses s ! i \<and> (i \<notin> K \<longrightarrow> stage_ok p))
     \<and> (\<forall>i < length (ro_addresses s). i \<notin> K \<longrightarrow> i \<in> fated s \<or> omap_get (ro_pending s) i \<noteq> None)
     \<and> (\<forall>i \<in> K. i < length (ro_addresses s) \<and> i \<notin> fated s)"

lemma route_inv_exempt:
  assumes "route_inv {} s" "omap_get (ro_pending s) i = Some p"
  shows "route_inv {i} s"
  using assms by (auto simp: route_inv_def)

lemma route_inv_finish:
  assumes "route_inv {i} s" "fate_ok s i f"
  shows "route_inv {} (finish_send i f s)"
proof -
  have ok: "fate_ok (finish_send i f s) = fate_ok s" by (rule fate_ok_cong) (simp_all add: finish_send_def)
  have fd: "fated (finish_send i f s) = insert i (fated s)" by (auto simp: fated_def finish_send_def)
  show ?thesis unfolding route_inv_def ok fd using assms
    by (auto simp: route_inv_def finish_send_def fated_def split: if_splits)
qed

lemma route_inv_stage:
  assumes "route_inv {i} s" "stage_ok (p\<lparr>ps_stage := st\<rparr>)" "ps_address p = ro_addresses s ! i"
  shows "route_inv {} (set_stage i p st s)"
proof -
  have ok: "fate_ok (set_stage i p st s) = fate_ok s" by (rule fate_ok_cong) (simp_all add: set_stage_def)
  have fd: "fated (set_stage i p st s) = fated s" by (simp add: fated_def set_stage_def)
  show ?thesis unfolding route_inv_def ok fd using assms by (auto simp: route_inv_def set_stage_def)
qed

text \<open>What leaves the books alone.\<close>

lemma route_inv_cong:
  assumes "route_inv K s" "ro_fates s1 = ro_fates s" "ro_pending s1 = ro_pending s" "ro_addresses s1 = ro_addresses s"
    "\<And>a reason. has_letter (ro_dead s) a reason \<Longrightarrow> has_letter (ro_dead s1) a reason"
  shows "route_inv K s1"
proof -
  have "fate_ok s i f \<Longrightarrow> fate_ok s1 i f" for i f
    using assms(4,5) by (auto simp: fate_ok_def Let_def split: message_fate.splits)
  then show ?thesis using assms(1-4) by (fastforce simp: route_inv_def fated_def)
qed

lemma has_letter_step:
  assumes "has_letter q a reason"
  shows "has_letter (snd (dead_step c e q)) a reason"
proof -
  obtain now x where e: "e = (now, x)" by (cases e)
  obtain k where k: "k < length (dq_heap q)" "dl_target (dq_heap q ! k) = a" "dl_reason (dq_heap q ! k) = reason"
    using assms by (auto simp: has_letter_def list_ex_iff in_set_conv_nth)
  have h: "has_letter q1 a reason"
    if "k < length (dq_heap q1)" "dl_target (dq_heap q1 ! k) = a" "dl_reason (dq_heap q1 ! k) = reason" for q1 :: "'a dead_queue"
    using that by (auto simp: has_letter_def list_ex_iff)
  have upd: "dl_target (xs[r := (xs ! r)\<lparr>dl_attempts := n, dl_time := t, dl_error := er\<rparr>] ! k) = dl_target (xs ! k)"
    "dl_reason (xs[r := (xs ! r)\<lparr>dl_attempts := n, dl_time := t, dl_error := er\<rparr>] ! k) = dl_reason (xs ! k)"
    if "k < length xs" for xs :: "'a dead_letter list" and r n t er using that by (cases "r = k"; simp)+
  show ?thesis
    by (cases x; rule h) (use k in \<open>auto simp: e dq_add_def dq_remove_def dq_clear_def dq_retry_def dq_retry_ok_def
      dq_retry_failed_def dq_cleanup_def Let_def split_beta nth_append upd\<close>)
qed

lemma bury_inv:
  assumes "route_inv {i} s" "a = ro_addresses s ! i"
  shows "route_inv {} (bury now i a m reason err s)"
  unfolding bury_def
proof (rule route_inv_finish)
  let ?s = "s\<lparr>ro_dead := snd (dq_add dead_defaults now m a reason 1 err (ro_dead s))\<rparr>"
  show "route_inv {i} ?s"
    by (rule route_inv_cong [OF assms(1)])
      (use has_letter_step [of "ro_dead s" _ _ dead_defaults "(now, Dead_add m a reason 1 err)"] in simp_all)
  show "fate_ok ?s i (Dead_lettered reason)"
    using assms by (auto simp: fate_ok_def route_inv_def has_letter_def dq_add_def Let_def)
qed

lemma deliver_local_inv:
  assumes "route_inv {i} s" "a = ro_addresses s ! i" "\<not> callback_path a"
  shows "route_inv {} (deliver_local now i a m s)"
proof -
  have "route_inv {i} (s\<lparr>ro_cells := x\<rparr>)" for x by (rule route_inv_cong [OF assms(1)]) simp_all
  moreover have "fate_ok (s\<lparr>ro_cells := x\<rparr>) i In_mailbox" for x
    using assms by (auto simp: fate_ok_def route_inv_def)
  ultimately show ?thesis using assms(2)
    by (auto simp: deliver_local_def Let_def split: list.split intro!: route_inv_finish bury_inv)
qed

lemma transmit_inv:
  assumes "route_inv {i} s" "ps_address p = ro_addresses s ! i" "is_local_address (ps_address p) = Some False" "\<not> callback_path (ps_address p)"
  shows "route_inv {} (transmit ev now i p m hop s)"
  using assms by (auto simp: transmit_def remote_failed_def stage_ok_def intro!: bury_inv route_inv_stage)

lemma deliver_remote_inv:
  assumes "route_inv {i} s" "ps_address p = ro_addresses s ! i" "\<not> callback_path (ps_address p)"
  shows "route_inv {} (deliver_remote ev now i p m location s)"
  using assms by (auto simp: deliver_remote_def remote_failed_def stage_ok_def intro!: bury_inv route_inv_stage transmit_inv)

lemma after_lookup_inv:
  assumes "route_inv {i} s" "ps_address p = ro_addresses s ! i" "\<not> callback_path (ps_address p)"
  shows "route_inv {} (after_lookup ev now i p m location s)"
  using assms by (auto simp: after_lookup_def split: option.split intro!: bury_inv deliver_remote_inv deliver_local_inv)

lemma locate_inv:
  assumes "route_inv {i} s" "ps_address p = ro_addresses s ! i"
  shows "route_inv {} (locate ev now i p m s)"
proof (cases "callback_path (ps_address p)")
  case True
  then have "fate_ok s i Called_back" "fate_ok s i Send_rejected"
    using assms by (auto simp: fate_ok_def route_inv_def)
  then show ?thesis using True assms
    by (auto simp: locate_def deliver_callback_def split: option.split intro!: bury_inv route_inv_finish)
next
  case False
  show ?thesis
  proof (cases "is_local_address (ps_address p)")
    case None
    have "fate_ok s i Send_rejected" using assms by (auto simp: fate_ok_def route_inv_def)
    then show ?thesis using None False assms by (simp add: locate_def route_inv_finish)
  next
    case (Some b)
    have "route_inv {i} (s\<lparr>ro_directory := d\<rparr>)" for d by (rule route_inv_cong [OF assms(1)]) simp_all
    then show ?thesis using Some False assms
      by (cases b) (auto simp: locate_def Let_def split_beta stage_ok_def intro!: after_lookup_inv route_inv_stage)
  qed
qed

lemma after_interceptors_inv:
  assumes "route_inv {i} s" "ps_address p = ro_addresses s ! i"
  shows "route_inv {} (after_interceptors ev now i p res s)"
proof -
  have "fate_ok s i Send_rejected" "fate_ok s i Filtered_out" using assms by (auto simp: fate_ok_def route_inv_def)
  then show ?thesis using assms
    by (auto simp: after_interceptors_def split: pipeline_result.split intro!: route_inv_finish locate_inv)
qed

lemma begin_send_inv:
  assumes inv: "route_inv {} s"
  shows "route_inv {} (begin_send ev now a m token s)"
proof -
  let ?i = "length (ro_addresses s)"
  let ?s1 = "s\<lparr>ro_addresses := ro_addresses s @ [a]\<rparr>"
  have new: "?i \<notin> fated s" using inv by (auto simp: route_inv_def fated_def fate_ok_def)
  have "fate_ok s j f \<Longrightarrow> fate_ok ?s1 j f" for j f
    by (auto simp: fate_ok_def nth_append Let_def split: message_fate.splits)
  then have s1: "route_inv {?i} ?s1"
    using inv new by (fastforce simp: route_inv_def fated_def nth_append less_Suc_eq)
  have "route_inv {} (?s1\<lparr>ro_chain := c, ro_world := w, ro_pending := omap_set ?i p (ro_pending s)\<rparr>)"
    if "ps_address p = a" "stage_ok p" for c w p
  proof -
    have "route_inv {} (set_stage ?i p (ps_stage p) ?s1)"
      using that by (intro route_inv_stage [OF s1]) simp_all
    then show ?thesis by (rule route_inv_cong) (simp_all add: set_stage_def)
  qed
  then show ?thesis using s1 locate_inv [OF s1]
    by (auto simp: begin_send_def Let_def split_beta stage_ok_def)
qed

lemma resume_send_inv:
  assumes inv: "route_inv {} s"
  shows "route_inv {} (resume_send ev now i r s)"
proof (cases "omap_get (ro_pending s) i")
  case (Some p)
  have e: "route_inv {i} s" by (rule route_inv_exempt [OF inv Some])
  have p: "ps_address p = ro_addresses s ! i" "stage_ok p" "i < length (ro_addresses s)"
    using inv Some by (auto simp: route_inv_def)
  have "route_inv {} (resume_stage ev now i p (ps_stage p) r s)"
    using p e inv
    by (cases "(ev, now, i, p, ps_stage p, r, s)" rule: resume_stage.cases)
      (auto simp: stage_ok_def remote_failed_def fate_ok_def split: option.split
        intro!: after_interceptors_inv after_lookup_inv bury_inv transmit_inv route_inv_finish)
  then show ?thesis using Some by (simp add: resume_send_def)
qed (use inv in \<open>simp add: resume_send_def\<close>)

lemma route_inv_step: "route_inv {} s \<Longrightarrow> route_inv {} (route_step ev e s)"
proof -
  assume inv: "route_inv {} s"
  obtain now x where e: "e = (now, x)" by (cases e)
  have "route_inv {} (s\<lparr>ro_dead := snd (dead_step dead_defaults (now, y) (ro_dead s))\<rparr>)" for y
    by (rule route_inv_cong [OF inv]) (simp_all add: has_letter_step)
  moreover have "route_inv {} (s\<lparr>ro_directory := d\<rparr>)" "route_inv {} (s\<lparr>ro_chain := c\<rparr>)" "route_inv {} (s\<lparr>ro_cells := f\<rparr>)" for d c f
    by (rule route_inv_cong [OF inv]; simp)+
  ultimately show ?thesis using inv by (cases x) (simp_all add: e begin_send_inv resume_send_inv)
qed

lemma route_inv_run: "route_inv {} (route_run ev es (new_routing w t0))"
  unfolding route_run_def
proof (induction es rule: rev_induct)
  case Nil
  then show ?case by (simp add: route_inv_def new_routing_def)
qed (simp add: route_inv_step)


text \<open>An address that does not parse: the send rejects, and no dead letter records the message.\<close>

lemma unparsable_address_leaves_no_letter:
  fixes ev :: "(string, unit) route_env"
  shows "let s = route_run ev [(0, Begin_send ''actor:/broken'' ''m'' None)] (new_routing () 0)
   in ro_fates s = [(0, Send_rejected)] \<and> dq_queue (ro_dead s) = []"
proof -
  have a: "callback_path ''actor:/broken'' = False" "is_local_address ''actor:/broken'' = None"
    by (simp_all add: callback_path_def is_local_address_def parse_path_def split_path_def strip_prefix_def scheme_def)
  show ?thesis
    by (simp add: route_run_def new_routing_def begin_send_def new_chain_def locate_def a finish_send_def empty_dead_queue_def Let_def)
qed

end
