(* ===== verification/Directory_Readiness.thy ===== *)
theory Directory_Readiness
  imports Actor_Directory
begin

text \<open>
  The readiness of the directory of remote nodes, in \<open>actor-system-impl.ts\<close>: \<open>ensureRemoteDirectoryReady\<close>, the
  handlers of connecting and disconnecting transports, \<open>join\<close> and \<open>leave\<close>. A synchronisation takes time: it is begun, and its
  answer is another step, before which the node may disconnect, come back as another incarnation or be asked again. The token of
  an attempt is its index among all attempts; \<open>JSON.stringify\<close> is injective on identities, so they are the connection keys.
\<close>

section \<open>State\<close>

type_synonym connection = "(string \<times> string) option"    \<comment> \<open>node id and incarnation\<close>

datatype readiness = Syncing | Ready | Degraded string

record readiness_fact =
  rf_connection :: connection
  rf_status :: readiness

datatype sync_outcome = In_flight | Synced | Superseded | Failed_sync

record sync_attempt =
  sa_node :: string
  sa_connection :: connection
  sa_outcome :: sync_outcome

datatype cluster_status = Cluster_up | Cluster_leaving

record readiness_state =
  rs_self :: string
  rs_connections :: "(string, string \<times> string) omap"    \<comment> \<open>what the transport reports\<close>
  rs_attempts :: "(string, nat) omap"                    \<comment> \<open>the token of the newest attempt\<close>
  rs_facts :: "(string, readiness_fact) omap"
  rs_log :: "sync_attempt list"
  rs_directory :: actor_directory
  rs_cluster :: "string list"
  rs_cluster_status :: cluster_status

definition connection_of :: "string \<Rightarrow> readiness_state \<Rightarrow> connection" where
  "connection_of n s = omap_get (rs_connections s) n"

definition fact_status :: "string \<Rightarrow> readiness_state \<Rightarrow> readiness option" where
  "fact_status n s = map_option rf_status (omap_get (rs_facts s) n)"

section \<open>Synchronising\<close>

definition start_sync :: "string \<Rightarrow> readiness_state \<Rightarrow> readiness_state" where
  "start_sync n s =
     (let c = connection_of n s
      in s\<lparr>rs_facts := omap_set n \<lparr>rf_connection = c, rf_status = Syncing\<rparr> (rs_facts s),
           rs_attempts := omap_set n (length (rs_log s)) (rs_attempts s),
           rs_log := rs_log s @ [\<lparr>sa_node = n, sa_connection = c, sa_outcome = In_flight\<rparr>]\<rparr>)"

text \<open>The token of the attempt whose promise the caller gets.\<close>

definition ensure_ready :: "string \<Rightarrow> bool \<Rightarrow> readiness_state \<Rightarrow> nat \<times> readiness_state" where
  "ensure_ready n refresh_if_ready s =
     (case omap_get (rs_attempts s) n of
        Some t \<Rightarrow>
          if sa_connection (rs_log s ! t) = connection_of n s \<and> (\<not> refresh_if_ready \<or> fact_status n s = Some Syncing)
          then (t, s) else (length (rs_log s), start_sync n s)
      | None \<Rightarrow> (length (rs_log s), start_sync n s))"

definition set_outcome :: "nat \<Rightarrow> sync_outcome \<Rightarrow> readiness_state \<Rightarrow> readiness_state" where
  "set_outcome t x s = s\<lparr>rs_log := (rs_log s)[t := (rs_log s ! t)\<lparr>sa_outcome := x\<rparr>]\<rparr>"

definition is_current :: "nat \<Rightarrow> readiness_state \<Rightarrow> bool" where
  "is_current t s \<longleftrightarrow> omap_get (rs_attempts s) (sa_node (rs_log s ! t)) = Some t
     \<and> connection_of (sa_node (rs_log s ! t)) s = sa_connection (rs_log s ! t)"

definition superseded :: "nat \<Rightarrow> readiness_state \<Rightarrow> readiness_state" where
  "superseded t s =
     (let n = sa_node (rs_log s ! t)
      in set_outcome t Superseded
           (if omap_get (rs_attempts s) n = Some t
            then s\<lparr>rs_attempts := omap_delete n (rs_attempts s),
                   rs_facts := (if fact_status n s = Some Syncing then omap_delete n (rs_facts s) else rs_facts s)\<rparr>
            else s))"

definition sync_answered :: "nat \<Rightarrow> wire_entry list \<Rightarrow> readiness_state \<Rightarrow> readiness_state" where
  "sync_answered t entries s =
     (if t < length (rs_log s) \<and> sa_outcome (rs_log s ! t) = In_flight
      then (if is_current t s
            then set_outcome t Synced (s\<lparr>rs_directory := fold dir_apply_remote entries (rs_directory s),
                   rs_facts := omap_set (sa_node (rs_log s ! t))
                     \<lparr>rf_connection = sa_connection (rs_log s ! t), rf_status = Ready\<rparr> (rs_facts s)\<rparr>)
            else superseded t s)
      else s)"

definition sync_failed :: "nat \<Rightarrow> string \<Rightarrow> readiness_state \<Rightarrow> readiness_state" where
  "sync_failed t err s =
     (if t < length (rs_log s) \<and> sa_outcome (rs_log s ! t) = In_flight
      then (if is_current t s
            then set_outcome t Failed_sync (s\<lparr>rs_attempts := omap_delete (sa_node (rs_log s ! t)) (rs_attempts s),
                   rs_facts := omap_set (sa_node (rs_log s ! t))
                     \<lparr>rf_connection = sa_connection (rs_log s ! t), rf_status = Degraded err\<rparr> (rs_facts s)\<rparr>)
            else superseded t s)
      else s)"

section \<open>The cluster\<close>

definition add_node :: "string \<Rightarrow> string list \<Rightarrow> string list" where
  "add_node n ns = (if n \<in> set ns then ns else ns @ [n])"

definition transport_connected :: "string \<Rightarrow> readiness_state \<Rightarrow> readiness_state" where
  "transport_connected n s =
     snd (ensure_ready n False (s\<lparr>rs_cluster := add_node n (rs_cluster s), rs_cluster_status := Cluster_up\<rparr>))"

definition forget_node :: "string \<Rightarrow> readiness_state \<Rightarrow> readiness_state" where
  "forget_node n s = s\<lparr>rs_attempts := omap_delete n (rs_attempts s), rs_facts := omap_delete n (rs_facts s)\<rparr>"

text \<open>Every entry that names the node as its location is removed.\<close>

definition drop_located :: "ms \<Rightarrow> string \<Rightarrow> actor_directory \<Rightarrow> actor_directory" where
  "drop_located now n d =
     fold (\<lambda>(k, location) d1. if location = n \<and> (case parse_actor_path k of Inl _ \<Rightarrow> False | Inr _ \<Rightarrow> True)
                              then dir_remove_remote k d1 else d1) (dir_get_all now d) d"

definition transport_disconnected :: "ms \<Rightarrow> string \<Rightarrow> readiness_state \<Rightarrow> readiness_state" where
  "transport_disconnected now n s =
     (let s1 = forget_node n s
      in s1\<lparr>rs_cluster := filter (\<lambda>x. x = rs_self s \<or> x \<noteq> n) (rs_cluster s), rs_cluster_status := Cluster_up,
            rs_directory := drop_located now n (rs_directory s)\<rparr>)"

definition leave_cluster :: "string list \<Rightarrow> readiness_state \<Rightarrow> readiness_state" where
  "leave_cluster connected_nodes s =
     (fold forget_node connected_nodes s)\<lparr>rs_cluster := [rs_self s], rs_cluster_status := Cluster_leaving\<rparr>"

datatype readiness_event = Ensure string bool | Sync_answered nat "wire_entry list" | Sync_failed nat string
  | Connection_is string connection | Connected_to string | Disconnected_from string | Leave "string list" | Local_op dir_op

fun readiness_step :: "directory_config \<Rightarrow> ms \<times> readiness_event \<Rightarrow> readiness_state \<Rightarrow> readiness_state" where
  "readiness_step g (now, Ensure n b) s = snd (ensure_ready n b s)"
| "readiness_step g (now, Sync_answered t es) s = sync_answered t es s"
| "readiness_step g (now, Sync_failed t e) s = sync_failed t e s"
| "readiness_step g (now, Connection_is n c) s =
     s\<lparr>rs_connections := (case c of None \<Rightarrow> omap_delete n (rs_connections s) | Some i \<Rightarrow> omap_set n i (rs_connections s))\<rparr>"
| "readiness_step g (now, Connected_to n) s = transport_connected n s"
| "readiness_step g (now, Disconnected_from n) s = transport_disconnected now n s"
| "readiness_step g (now, Leave ns) s = leave_cluster ns s"
| "readiness_step g (now, Local_op x) s = s\<lparr>rs_directory := dir_step g (now, x) (rs_directory s)\<rparr>"

definition new_readiness :: "string \<Rightarrow> ms \<Rightarrow> readiness_state" where
  "new_readiness self now = \<lparr>rs_self = self, rs_connections = [], rs_attempts = [], rs_facts = [], rs_log = [],
     rs_directory = new_directory now, rs_cluster = [self], rs_cluster_status = Cluster_up\<rparr>"

definition readiness_run :: "directory_config \<Rightarrow> (ms \<times> readiness_event) list \<Rightarrow> readiness_state \<Rightarrow> readiness_state" where
  "readiness_run g es s = fold (readiness_step g) es s"

section \<open>Facts and attempts\<close>

text \<open>What the fact and the newest attempt of a node say of each other.\<close>

fun node_fits :: "sync_attempt list \<Rightarrow> string \<Rightarrow> nat option \<Rightarrow> readiness_fact option \<Rightarrow> bool" where
  "node_fits l n None None = True"
| "node_fits l n None (Some f) = (rf_status f \<noteq> Syncing \<and> rf_status f \<noteq> Ready)"
| "node_fits l n (Some t) None = False"
| "node_fits l n (Some t) (Some f) = (t < length l \<and> sa_node (l ! t) = n \<and> rf_connection f = sa_connection (l ! t)
     \<and> (rf_status f = Syncing \<and> sa_outcome (l ! t) = In_flight \<or> rf_status f = Ready \<and> sa_outcome (l ! t) = Synced))"

definition node_ok :: "readiness_state \<Rightarrow> string \<Rightarrow> bool" where
  "node_ok s n \<longleftrightarrow> node_fits (rs_log s) n (omap_get (rs_attempts s) n) (omap_get (rs_facts s) n)"

lemma node_fits_log:
  assumes "node_fits l n a f" "\<And>t. a = Some t \<Longrightarrow> t < length l \<Longrightarrow> sa_node (l ! t) = n \<Longrightarrow> t < length l1 \<and> l1 ! t = l ! t"
  shows "node_fits l1 n a f"
proof (cases a)
  case None then show ?thesis using assms(1) by (cases f) auto
next
  case (Some t) then show ?thesis using assms by (cases f) force+
qed

lemma node_ok_other:
  assumes "node_ok s n" "omap_get (rs_attempts s1) n = omap_get (rs_attempts s) n" "omap_get (rs_facts s1) n = omap_get (rs_facts s) n"
    "\<And>t. omap_get (rs_attempts s) n = Some t \<Longrightarrow> t < length (rs_log s) \<Longrightarrow> sa_node (rs_log s ! t) = n
       \<Longrightarrow> t < length (rs_log s1) \<and> rs_log s1 ! t = rs_log s ! t"
  shows "node_ok s1 n"
  unfolding node_ok_def assms(2,3)
  by (rule node_fits_log [OF assms(1) [unfolded node_ok_def]]) (use assms(4) in blast)

lemma node_ok_same:
  assumes "node_ok s n" "rs_attempts s1 = rs_attempts s" "rs_facts s1 = rs_facts s" "rs_log s1 = rs_log s"
  shows "node_ok s1 n"
  using assms by (simp add: node_ok_def)

lemma node_ok_start: "node_ok s n \<Longrightarrow> node_ok (start_sync m s) n"
proof (cases "n = m")
  case False
  assume "node_ok s n"
  then show ?thesis
    by (rule node_ok_other) (simp_all add: start_sync_def Let_def nth_append False)
qed (simp add: node_ok_def start_sync_def Let_def)

lemma node_ok_ensure: "node_ok s n \<Longrightarrow> node_ok (snd (ensure_ready m b s)) n"
  by (simp add: ensure_ready_def node_ok_start split: option.splits)

lemma node_ok_forget: "node_ok s n \<Longrightarrow> node_ok (forget_node m s) n"
  by (simp add: node_ok_def forget_node_def)

lemma node_ok_forget_all: "node_ok s n \<Longrightarrow> node_ok (fold forget_node ms s) n"
  by (induction ms arbitrary: s) (simp_all add: node_ok_forget)

lemma newest_node: "node_ok s n \<Longrightarrow> omap_get (rs_attempts s) n = Some t \<Longrightarrow> t < length (rs_log s) \<and> sa_node (rs_log s ! t) = n"
  by (cases "omap_get (rs_facts s) n") (simp_all add: node_ok_def)

lemma newest_in_flight:
  "node_ok s n \<Longrightarrow> omap_get (rs_attempts s) n = Some t \<Longrightarrow> sa_outcome (rs_log s ! t) = In_flight \<Longrightarrow> fact_status n s = Some Syncing"
  by (cases "omap_get (rs_facts s) n") (auto simp: node_ok_def fact_status_def)

lemma node_ok_outcome_other:
  assumes "node_ok s n" "omap_get (rs_attempts s) n \<noteq> Some t \<or> sa_node (rs_log s ! t) \<noteq> n"
  shows "node_ok (set_outcome t x s) n"
proof (rule node_ok_other [OF assms(1)])
  fix u assume "omap_get (rs_attempts s) n = Some u" "u < length (rs_log s)" "sa_node (rs_log s ! u) = n"
  then have "t \<noteq> u" using assms(2) by auto
  then show "u < length (rs_log (set_outcome t x s)) \<and> rs_log (set_outcome t x s) ! u = rs_log s ! u"
    using \<open>u < length (rs_log s)\<close> by (simp add: set_outcome_def)
qed (simp_all add: set_outcome_def)

lemma node_ok_elsewhere:
  assumes "node_ok s n" "rs_log s1 = rs_log s" "omap_get (rs_attempts s1) n = omap_get (rs_attempts s) n"
    "omap_get (rs_facts s1) n = omap_get (rs_facts s) n" "sa_node (rs_log s ! t) \<noteq> n"
  shows "node_ok (set_outcome t x s1) n"
proof (rule node_ok_outcome_other)
  show "node_ok s1 n" using assms(1-4) by (simp add: node_ok_def)
qed (simp add: assms(2,5))

lemma node_ok_superseded:
  assumes "node_ok s n" "t < length (rs_log s)" "sa_outcome (rs_log s ! t) = In_flight"
  shows "node_ok (superseded t s) n"
proof (cases "omap_get (rs_attempts s) n = Some t")
  case True
  then have "sa_node (rs_log s ! t) = n" "fact_status n s = Some Syncing"
    using assms newest_node [of s n t] newest_in_flight [of s n t] by auto
  then show ?thesis using True by (simp add: superseded_def node_ok_def set_outcome_def Let_def)
next
  case False
  show ?thesis
  proof (cases "sa_node (rs_log s ! t) = n")
    case True
    then show ?thesis using False assms(1) by (simp add: superseded_def node_ok_outcome_other)
  next
    case False
    show ?thesis unfolding superseded_def Let_def
      by (rule node_ok_elsewhere [OF assms(1) _ _ _ False]) (use False in \<open>simp_all split: if_split\<close>)
  qed
qed

lemma node_ok_answered:
  assumes "node_ok s n" shows "node_ok (sync_answered t es s) n"
proof (cases "t < length (rs_log s) \<and> sa_outcome (rs_log s ! t) = In_flight \<and> is_current t s")
  case True
  then show ?thesis
  proof (cases "sa_node (rs_log s ! t) = n")
    case True
    then show ?thesis using \<open>_ \<and> _ \<and> is_current t s\<close>
      by (simp add: sync_answered_def set_outcome_def node_ok_def is_current_def)
  next
    case False
    have "node_ok (set_outcome t x s1) n" if "rs_log s1 = rs_log s" "omap_get (rs_attempts s1) n = omap_get (rs_attempts s) n"
      "omap_get (rs_facts s1) n = omap_get (rs_facts s) n" for x s1
      using node_ok_elsewhere [OF assms that False] .
    then show ?thesis using \<open>_ \<and> _ \<and> is_current t s\<close> False by (simp add: sync_answered_def)
  qed
qed (use assms in \<open>simp add: sync_answered_def node_ok_superseded\<close>)

lemma node_ok_failed:
  assumes "node_ok s n" shows "node_ok (sync_failed t e s) n"
proof (cases "t < length (rs_log s) \<and> sa_outcome (rs_log s ! t) = In_flight \<and> is_current t s")
  case True
  then show ?thesis
  proof (cases "sa_node (rs_log s ! t) = n")
    case True
    then show ?thesis using \<open>_ \<and> _ \<and> is_current t s\<close>
      by (simp add: sync_failed_def set_outcome_def node_ok_def is_current_def)
  next
    case False
    have "node_ok (set_outcome t x s1) n" if "rs_log s1 = rs_log s" "omap_get (rs_attempts s1) n = omap_get (rs_attempts s) n"
      "omap_get (rs_facts s1) n = omap_get (rs_facts s) n" for x s1
      using node_ok_elsewhere [OF assms that False] .
    then show ?thesis using \<open>_ \<and> _ \<and> is_current t s\<close> False by (simp add: sync_failed_def)
  qed
qed (use assms in \<open>simp add: sync_failed_def node_ok_superseded\<close>)

lemma node_ok_disconnected: "node_ok s n \<Longrightarrow> node_ok (transport_disconnected now m s) n"
  using node_ok_forget [of s n m] by (simp add: transport_disconnected_def Let_def node_ok_def)

lemma node_ok_leave: "node_ok s n \<Longrightarrow> node_ok (leave_cluster ms s) n"
  using node_ok_forget_all [of s n ms] by (simp add: leave_cluster_def node_ok_def)

lemma node_ok_connected: "node_ok s n \<Longrightarrow> node_ok (transport_connected m s) n"
  unfolding transport_connected_def by (rule node_ok_ensure, erule node_ok_same) simp_all

lemma node_ok_step: "node_ok s n \<Longrightarrow> node_ok (readiness_step g (now, e) s) n"
  by (cases e) (simp_all add: node_ok_ensure node_ok_answered node_ok_failed node_ok_disconnected node_ok_leave
    node_ok_connected node_ok_same [of s n])

lemma node_ok_run: "node_ok s n \<Longrightarrow> node_ok (readiness_run g es s) n"
  unfolding readiness_run_def by (induction es arbitrary: s) (auto simp: node_ok_step)

section \<open>Attempts that have been overtaken\<close>

definition overtaken :: "nat \<Rightarrow> readiness_state \<Rightarrow> bool" where
  "overtaken t s \<longleftrightarrow> t < length (rs_log s) \<and> omap_get (rs_attempts s) (sa_node (rs_log s ! t)) \<noteq> Some t"

lemma overtaken_ensure: "overtaken t s \<Longrightarrow> overtaken t (snd (ensure_ready m b s))"
  by (auto simp: overtaken_def ensure_ready_def start_sync_def Let_def nth_append split: option.splits)

lemma overtaken_outcome [simp]: "overtaken t (set_outcome u x s) = overtaken t s"
  by (cases "u = t") (auto simp: overtaken_def set_outcome_def nth_list_update)

lemma overtaken_superseded: "overtaken t s \<Longrightarrow> overtaken t (superseded u s)"
  by (simp add: superseded_def Let_def) (simp add: overtaken_def)

lemma overtaken_answered: "overtaken t s \<Longrightarrow> overtaken t (sync_answered u es s)"
  by (simp add: sync_answered_def overtaken_superseded) (simp add: overtaken_def)

lemma overtaken_failed: "overtaken t s \<Longrightarrow> overtaken t (sync_failed u e s)"
  by (simp add: sync_failed_def overtaken_superseded) (simp add: overtaken_def)

lemma overtaken_forget: "overtaken t s \<Longrightarrow> overtaken t (forget_node m s)"
  by (auto simp: overtaken_def forget_node_def)

lemma overtaken_forget_all: "overtaken t s \<Longrightarrow> overtaken t (fold forget_node ms s)"
  by (induction ms arbitrary: s) (simp_all add: overtaken_forget)

lemma overtaken_same: "overtaken t s \<Longrightarrow> rs_attempts s1 = rs_attempts s \<Longrightarrow> rs_log s1 = rs_log s \<Longrightarrow> overtaken t s1"
  by (simp add: overtaken_def)

lemma overtaken_connected: "overtaken t s \<Longrightarrow> overtaken t (transport_connected m s)"
  unfolding transport_connected_def by (rule overtaken_ensure, erule overtaken_same) simp_all

lemma overtaken_disconnected: "overtaken t s \<Longrightarrow> overtaken t (transport_disconnected now m s)"
  using overtaken_forget [of t s m] by (simp add: transport_disconnected_def Let_def overtaken_def)

lemma overtaken_leave: "overtaken t s \<Longrightarrow> overtaken t (leave_cluster ms s)"
  using overtaken_forget_all [of t s ms] by (simp add: leave_cluster_def overtaken_def)

lemma overtaken_step: "overtaken t s \<Longrightarrow> overtaken t (readiness_step g (now, e) s)"
  by (cases e) (simp_all add: overtaken_ensure overtaken_answered overtaken_failed overtaken_connected
    overtaken_disconnected overtaken_leave overtaken_same [of t s])

lemma overtaken_run: "overtaken t s \<Longrightarrow> overtaken t (readiness_run g es s)"
  unfolding readiness_run_def by (induction es arbitrary: s) (auto simp: overtaken_step)

lemma overtaken_answer_ignored:
  "overtaken t s \<Longrightarrow> rs_directory (sync_answered t es s) = rs_directory s \<and> rs_facts (sync_answered t es s) = rs_facts s
     \<and> rs_attempts (sync_answered t es s) = rs_attempts s"
  by (simp add: sync_answered_def superseded_def overtaken_def is_current_def set_outcome_def Let_def)

section \<open>Properties\<close>

text \<open>
  The readiness a system reports of a node follows its newest synchronisation, whatever is asked, answered, failed,
  connected, disconnected or left, in any order: a node is syncing exactly when its newest attempt is still in flight, and ready
  only when that attempt was answered, in both cases for the connection that attempt was begun with; with no attempt left it is
  degraded or unknown. No node is left syncing with nothing under way.
\<close>

theorem readiness_follows_newest_attempt:
  "node_ok (readiness_run g es (new_readiness self now)) n"
  by (rule node_ok_run) (simp add: node_ok_def new_readiness_def)

text \<open>
  C31. The answer to a synchronisation that was begun before the node disconnected is ignored, whatever happens in between (the
  node may have come back under the same identity and be syncing again): neither the directory nor the readiness of any node
  changes when it arrives.
\<close>

theorem late_sync_is_ignored:
  assumes "s0 = readiness_step g (now, Disconnected_from n) s" "t < length (rs_log s0)" "sa_node (rs_log s0 ! t) = n"
    "s1 = readiness_run g es s0"
  shows "rs_directory (sync_answered t entries s1) = rs_directory s1 \<and> rs_facts (sync_answered t entries s1) = rs_facts s1
    \<and> rs_attempts (sync_answered t entries s1) = rs_attempts s1"
proof -
  have "overtaken t s0"
    using assms(1-3) by (simp add: overtaken_def transport_disconnected_def forget_node_def Let_def)
  then show ?thesis unfolding assms(4) by (intro overtaken_answer_ignored overtaken_run)
qed

text \<open>
  A node comes back under its old identity while the answer to the first synchronisation is still on its way: the late answer
  is dropped, the second one is applied.
\<close>

definition two_incarnations :: "directory_config \<Rightarrow> readiness_state" where
  "two_incarnations g = readiness_run g
     [(0, Connection_is ''n2'' (Some (''n2'', ''i1''))), (1, Connected_to ''n2'')] (new_readiness ''n1'' 0)"

theorem late_sync_is_ignored_witness:
  "let g = \<lparr>dg_cache_ttl = 10, dg_max_size = 2, dg_node = ''n1''\<rparr>;
       e = \<lparr>we_address = ''actor://n2/actor/a'', we_location = ''n2'', we_timestamp = 0, we_ttl = None\<rparr>;
       s0 = readiness_step g (2, Disconnected_from ''n2'') (two_incarnations g);
       s1 = readiness_run g [(3, Connected_to ''n2'')] s0
   in rs_directory (sync_answered 0 [e] s1) = rs_directory s1 \<and> rs_facts (sync_answered 0 [e] s1) = rs_facts s1
     \<and> rs_attempts (sync_answered 0 [e] s1) = rs_attempts s1 \<and> rs_directory (sync_answered 1 [e] s1) \<noteq> rs_directory s1"
proof -
  define g where "g = \<lparr>dg_cache_ttl = 10, dg_max_size = 2, dg_node = ''n1''\<rparr>"
  define e where "e = \<lparr>we_address = ''actor://n2/actor/a'', we_location = ''n2'', we_timestamp = 0, we_ttl = None\<rparr>"
  define s0 where "s0 = readiness_step g (2, Disconnected_from ''n2'') (two_incarnations g)"
  define s1 where "s1 = readiness_run g [(3, Connected_to ''n2'')] s0"
  have "0 < length (rs_log s0) \<and> sa_node (rs_log s0 ! 0) = ''n2''" unfolding s0_def g_def by code_simp
  then have "rs_directory (sync_answered 0 [e] s1) = rs_directory s1 \<and> rs_facts (sync_answered 0 [e] s1) = rs_facts s1
     \<and> rs_attempts (sync_answered 0 [e] s1) = rs_attempts s1"
    using late_sync_is_ignored [OF s0_def _ _ s1_def, of 0 "[e]"] by blast
  moreover have "dy_registry (rs_directory (sync_answered 1 [e] s1)) \<noteq> dy_registry (rs_directory s1)"
    unfolding s1_def s0_def g_def e_def by code_simp
  then have "rs_directory (sync_answered 1 [e] s1) \<noteq> rs_directory s1" by metis
  ultimately show ?thesis unfolding Let_def s1_def s0_def g_def e_def by blast
qed

end
