(* ===== verification/Message_Processing.thy ===== *)
theory Message_Processing
  imports Interceptor_Chain
begin

text \<open>
  How one message is processed: \<open>deliverMessageLocal\<close>, \<open>processMessageWithContext\<close> and \<open>executeErrorInterceptors\<close> of
  \<open>actor-system-impl.ts\<close>, with the registration of interceptors, message and snapshot subscribers. Starting an actor and
  handling a message take time: between them the instance changes and others read its snapshot. The handlers are the user's: whether
  they return is an input, observers are functions of the environment on a world \<open>'w\<close>. An object is a number, so the WeakMap
  of the actors' interceptors is a map from numbers. Actors are spawned (again) only between messages; stopping is modelled
  in \<open>Processing_Loop\<close>.
\<close>

section \<open>State\<close>

record message_stats =
  sx_received :: nat
  sx_processed :: nat
  sx_errors :: nat

record ('m, 'w, 's) observers =
  ob_type :: "'m \<Rightarrow> string"
  ob_corr :: "'m \<Rightarrow> string option"
  ob_same :: "'s \<Rightarrow> 's \<Rightarrow> bool"                        \<comment> \<open>equal JSON texts\<close>
  ob_message :: "nat \<Rightarrow> 'm \<Rightarrow> 'w \<Rightarrow> bool \<times> 'w"        \<comment> \<open>a message subscriber: whether it returns\<close>
  ob_snapshot :: "nat \<Rightarrow> 's \<Rightarrow> 'w \<Rightarrow> bool \<times> 'w"

datatype outcome = Not_deliverable | Receive_rejected | Filtered_on_receive | Start_failed | Handler_failed | Listener_failed
  | Observer_failed | Processed

datatype 'm stage = Starting 'm "nat option" | Handling 'm "nat option"      \<comment> \<open>with the key of the actor's chain\<close>

record ('m, 'w, 's) processing =
  pr_global :: "('m, 'w) chain"
  pr_chains :: "(nat, ('m, 'w) chain) omap"           \<comment> \<open>by the PID object\<close>
  pr_refs :: nat                                     \<comment> \<open>PID objects made so far\<close>
  pr_world :: 'w
  pr_actors :: "string list"
  pr_instance :: "string \<Rightarrow> 's"
  pr_started :: "string list"
  pr_stats :: "(string, message_stats) omap"
  pr_snapshots :: "(string, 's) omap"
  pr_subscribers :: "(string, nat list) omap"
  pr_listeners :: "(string, nat list) omap"
  pr_active :: "(string, 'm stage) omap"
  pr_rejected :: "string list"                       \<comment> \<open>correlation ids answered with an error\<close>
  pr_published :: "(string \<times> 's) list"                \<comment> \<open>snapshots published to other nodes\<close>
  pr_log :: "string \<Rightarrow> outcome list"

section \<open>Subscriptions\<close>

definition add_subscriber :: "string \<Rightarrow> nat \<Rightarrow> (string, nat list) omap \<Rightarrow> (string, nat list) omap" where
  "add_subscriber k h m = (let hs = (case omap_get m k of None \<Rightarrow> [] | Some l \<Rightarrow> l)
     in omap_set k (if h \<in> set hs then hs else hs @ [h]) m)"

definition remove_subscriber :: "string \<Rightarrow> nat \<Rightarrow> (string, nat list) omap \<Rightarrow> (string, nat list) omap" where
  "remove_subscriber k h m = (case omap_get m k of
       None \<Rightarrow> m
     | Some hs \<Rightarrow> (let l = filter (\<lambda>x. x \<noteq> h) hs in if l = [] then omap_delete k m else omap_set k l m))"

definition subscribers_of :: "string \<Rightarrow> (string, nat list) omap \<Rightarrow> nat list" where
  "subscribers_of k m = (case omap_get m k of None \<Rightarrow> [] | Some l \<Rightarrow> l)"

definition message_key :: "string \<Rightarrow> string \<Rightarrow> string" where
  "message_key a t = a @ '':'' @ t"

text \<open>Observers are called in turn until one throws.\<close>

fun call_all :: "(nat \<Rightarrow> 'w \<Rightarrow> bool \<times> 'w) \<Rightarrow> nat list \<Rightarrow> 'w \<Rightarrow> bool \<times> 'w" where
  "call_all f [] w = (True, w)"
| "call_all f (h # hs) w = (let (ok, w1) = f h w in if ok then call_all f hs w1 else (False, w1))"

definition notify_message :: "('m, 'w, 's) observers \<Rightarrow> string \<Rightarrow> 'm \<Rightarrow> (string, nat list) omap \<Rightarrow> 'w \<Rightarrow> bool \<times> 'w" where
  "notify_message ob a m subs w =
     (let (ok, w1) = call_all (\<lambda>h. ob_message ob h m) (subscribers_of (message_key a ''*'') subs) w
      in if ok then call_all (\<lambda>h. ob_message ob h m) (subscribers_of (message_key a (ob_type ob m)) subs) w1 else (False, w1))"

section \<open>Interceptors of one actor\<close>

definition register_actor_interceptor :: "nat \<Rightarrow> ('m, 'w) interceptor \<Rightarrow> string \<Rightarrow> int \<Rightarrow> ('m \<Rightarrow> bool option) option
    \<Rightarrow> ('m, 'w, 's) processing \<Rightarrow> ('m, 'w, 's) processing" where
  "register_actor_interceptor pid hooks i p f s =
     s\<lparr>pr_chains := omap_set pid
        (snd (chain_register hooks i p f (case omap_get (pr_chains s) pid of None \<Rightarrow> new_chain | Some c \<Rightarrow> c))) (pr_chains s)\<rparr>"

definition unregister_actor_interceptor :: "nat \<Rightarrow> string \<Rightarrow> ('m, 'w, 's) processing \<Rightarrow> bool \<times> ('m, 'w, 's) processing" where
  "unregister_actor_interceptor pid i s = (case omap_get (pr_chains s) pid of
       None \<Rightarrow> (False, s)
     | Some c \<Rightarrow> (fst (chain_unregister i c), s\<lparr>pr_chains := omap_set pid (snd (chain_unregister i c)) (pr_chains s)\<rparr>))"

definition set_actor_interceptor_enabled :: "nat \<Rightarrow> string \<Rightarrow> bool \<Rightarrow> ('m, 'w, 's) processing \<Rightarrow> bool \<times> ('m, 'w, 's) processing" where
  "set_actor_interceptor_enabled pid i b s = (case omap_get (pr_chains s) pid of
       None \<Rightarrow> (False, s)
     | Some c \<Rightarrow> (fst (chain_set_enabled i b c), s\<lparr>pr_chains := omap_set pid (snd (chain_set_enabled i b c)) (pr_chains s)\<rparr>))"

section \<open>Processing a message\<close>

definition log_outcome :: "string \<Rightarrow> outcome \<Rightarrow> ('m, 'w, 's) processing \<Rightarrow> ('m, 'w, 's) processing" where
  "log_outcome a r s = s\<lparr>pr_active := omap_delete a (pr_active s), pr_log := (pr_log s)(a := pr_log s a @ [r])\<rparr>"

definition update_stats :: "string \<Rightarrow> (message_stats \<Rightarrow> message_stats) \<Rightarrow> ('m, 'w, 's) processing \<Rightarrow> ('m, 'w, 's) processing" where
  "update_stats a f s = (case omap_get (pr_stats s) a of None \<Rightarrow> s | Some x \<Rightarrow> s\<lparr>pr_stats := omap_set a (f x) (pr_stats s)\<rparr>)"

text \<open>
  The chain of the actor is looked up once, when the message begins, by a PID object made there; a stage keeps its key. What a chain
  throws in the error path is caught.\<close>

definition chain_runs :: "nat option \<Rightarrow> ('w \<Rightarrow> ('m, 'w) chain \<Rightarrow> 'r \<times> 'w \<times> ('m, 'w) chain) \<Rightarrow> 'r \<Rightarrow> ('m, 'w, 's) processing
    \<Rightarrow> 'r \<times> ('m, 'w, 's) processing" where
  "chain_runs k f r s = (case k of
       None \<Rightarrow> (r, s)
     | Some i \<Rightarrow> (case omap_get (pr_chains s) i of
         None \<Rightarrow> (r, s)
       | Some c \<Rightarrow> if ch_regs c = [] then (r, s)
                   else (case f (pr_world s) c of
                           (r1, w, c1) \<Rightarrow> (r1, s\<lparr>pr_world := w, pr_chains := omap_set i c1 (pr_chains s)\<rparr>))))"

definition global_runs :: "('w \<Rightarrow> ('m, 'w) chain \<Rightarrow> 'r \<times> 'w \<times> ('m, 'w) chain) \<Rightarrow> 'r \<Rightarrow> ('m, 'w, 's) processing
    \<Rightarrow> 'r \<times> ('m, 'w, 's) processing" where
  "global_runs f r s =
     (if ch_regs (pr_global s) = [] then (r, s)
      else (case f (pr_world s) (pr_global s) of (r1, w, c) \<Rightarrow> (r1, s\<lparr>pr_world := w, pr_global := c\<rparr>)))"

definition error_interceptors :: "'m \<Rightarrow> nat option \<Rightarrow> ('m, 'w, 's) processing \<Rightarrow> ('m, 'w, 's) processing" where
  "error_interceptors m k s = snd (chain_runs k (chain_on_error m) True (snd (global_runs (chain_on_error m) True s)))"

definition fail_message :: "('m, 'w, 's) observers \<Rightarrow> string \<Rightarrow> 'm \<Rightarrow> nat option \<Rightarrow> outcome \<Rightarrow> ('m, 'w, 's) processing \<Rightarrow> ('m, 'w, 's) processing" where
  "fail_message ob a m k r s =
     (let s1 = (case ob_corr ob m of None \<Rightarrow> s | Some cid \<Rightarrow> if cid = [] then s else s\<lparr>pr_rejected := pr_rejected s @ [cid]\<rparr>);
          s2 = update_stats a (\<lambda>x. x\<lparr>sx_errors := sx_errors x + 1\<rparr>) s1
      in log_outcome a r (error_interceptors m k s2))"

definition count_received :: "string \<Rightarrow> 'm \<Rightarrow> nat option \<Rightarrow> ('m, 'w, 's) processing \<Rightarrow> ('m, 'w, 's) processing" where
  "count_received a m k s =
     update_stats a (\<lambda>x. x\<lparr>sx_received := sx_received x + 1\<rparr>) (s\<lparr>pr_active := omap_set a (Handling m k) (pr_active s)\<rparr>)"

definition start_or_handle :: "string \<Rightarrow> 'm \<Rightarrow> nat option \<Rightarrow> ('m, 'w, 's) processing \<Rightarrow> ('m, 'w, 's) processing" where
  "start_or_handle a m k s =
     (if a \<in> set (pr_started s) then count_received a m k s else s\<lparr>pr_active := omap_set a (Starting m k) (pr_active s)\<rparr>)"

definition after_receive :: "string \<Rightarrow> 'm pipeline_result \<Rightarrow> ('m \<Rightarrow> ('m, 'w, 's) processing) \<Rightarrow> ('m, 'w, 's) processing \<Rightarrow> ('m, 'w, 's) processing" where
  "after_receive a r k s = (case r of
       Pipeline_throws \<Rightarrow> log_outcome a Receive_rejected s
     | Message_filtered \<Rightarrow> log_outcome a Filtered_on_receive s
     | Message_continues m \<Rightarrow> k m)"

definition begin_message :: "string \<Rightarrow> 'm \<Rightarrow> ('m, 'w, 's) processing \<Rightarrow> ('m, 'w, 's) processing" where
  "begin_message a m s =
     (if omap_get (pr_active s) a \<noteq> None then s
      else if a \<notin> set (pr_actors s) then log_outcome a Not_deliverable s
      else (let (r1, s1) = global_runs (chain_execute On_receive m) (Message_continues m) s
            in after_receive a r1 (\<lambda>m1.
                 let k = (if omap_get (pr_chains s1) (pr_refs s1) = None then None else Some (pr_refs s1));
                     s2 = s1\<lparr>pr_refs := Suc (pr_refs s1)\<rparr>;
                     (r2, s3) = chain_runs k (chain_execute On_receive m1) (Message_continues m1) s2
                 in after_receive a r2 (\<lambda>m2. start_or_handle a m2 k s3) s3) s1))"

definition finish_start :: "('m, 'w, 's) observers \<Rightarrow> string \<Rightarrow> bool \<Rightarrow> ('m, 'w, 's) processing \<Rightarrow> ('m, 'w, 's) processing" where
  "finish_start ob a ok s = (case omap_get (pr_active s) a of
       Some (Starting m k) \<Rightarrow>
         (if ok then count_received a m k (s\<lparr>pr_started := pr_started s @ [a]\<rparr>) else fail_message ob a m k Start_failed s)
     | _ \<Rightarrow> s)"

definition after_process :: "('m, 'w, 's) observers \<Rightarrow> string \<Rightarrow> 'm \<Rightarrow> nat option \<Rightarrow> ('m, 'w, 's) processing \<Rightarrow> ('m, 'w, 's) processing" where
  "after_process ob a m k s =
     (let (ok, s1) = global_runs (chain_after_process m) True s; (ok2, s2) = (if ok then chain_runs k (chain_after_process m) True s1 else (False, s1))
      in if ok2 then log_outcome a Processed s2 else fail_message ob a m k Observer_failed s2)"

definition report_message :: "('m, 'w, 's) observers \<Rightarrow> string \<Rightarrow> 'm \<Rightarrow> nat option \<Rightarrow> ('m, 'w, 's) processing \<Rightarrow> ('m, 'w, 's) processing" where
  "report_message ob a m k s =
     (let s1 = update_stats a (\<lambda>x. x\<lparr>sx_processed := sx_processed x + 1\<rparr>) s;
          (ok, w) = notify_message ob a m (pr_subscribers s1) (pr_world s1); s2 = s1\<lparr>pr_world := w\<rparr>
      in if ok then after_process ob a m k s2 else fail_message ob a m k Observer_failed s2)"

definition finish_message :: "('m, 'w, 's) observers \<Rightarrow> string \<Rightarrow> bool \<Rightarrow> ('m, 'w, 's) processing \<Rightarrow> ('m, 'w, 's) processing" where
  "finish_message ob a ok s = (case omap_get (pr_active s) a of
       Some (Handling m k) \<Rightarrow>
         (if \<not> ok then fail_message ob a m k Handler_failed s
          else (let latest = pr_instance s a;
                    previous = (case omap_get (pr_snapshots s) a of None \<Rightarrow> latest | Some x \<Rightarrow> x);
                    s1 = s\<lparr>pr_snapshots := omap_set a latest (pr_snapshots s)\<rparr>
                in if ob_same ob previous latest then report_message ob a m k s1
                   else (let (told, w) = call_all (\<lambda>h. ob_snapshot ob h latest) (subscribers_of a (pr_listeners s1)) (pr_world s1);
                             s2 = s1\<lparr>pr_world := w\<rparr>
                         in if told then report_message ob a m k (s2\<lparr>pr_published := pr_published s2 @ [(a, latest)]\<rparr>)
                            else fail_message ob a m k Listener_failed s2)))
     | _ \<Rightarrow> s)"

definition read_snapshot :: "string \<Rightarrow> ('m, 'w, 's) processing \<Rightarrow> 's option \<times> ('m, 'w, 's) processing" where
  "read_snapshot a s =
     (if a \<in> set (pr_actors s) then (Some (pr_instance s a), s\<lparr>pr_snapshots := omap_set a (pr_instance s a) (pr_snapshots s)\<rparr>)
      else (omap_get (pr_snapshots s) a, s))"

definition put_actor :: "string \<Rightarrow> 's \<Rightarrow> ('m, 'w, 's) processing \<Rightarrow> ('m, 'w, 's) processing" where
  "put_actor a x s =
     (if omap_get (pr_active s) a \<noteq> None then s
      else s\<lparr>pr_actors := (if a \<in> set (pr_actors s) then pr_actors s else pr_actors s @ [a]), pr_instance := (pr_instance s)(a := x),
             pr_snapshots := omap_set a x (pr_snapshots s), pr_started := filter (\<lambda>b. b \<noteq> a) (pr_started s),
             pr_stats := omap_set a \<lparr>sx_received = 0, sx_processed = 0, sx_errors = 0\<rparr> (pr_stats s), pr_log := (pr_log s)(a := [])\<rparr>)"

section \<open>The system as a machine\<close>

datatype ('m, 'w, 's) process_event =
    Spawn_actor string 's | New_pid | Begin_message string 'm | Start_ends string bool | Instance_changes string 's
  | Handler_ends string bool | Read_snapshot string
  | Subscribe_message string string nat | Unsubscribe_message string string nat
  | Subscribe_snapshot string nat | Unsubscribe_snapshot string nat
  | Global_chain "('m, 'w) chain_op"
  | Actor_register nat "('m, 'w) interceptor" string int "('m \<Rightarrow> bool option) option" | Actor_unregister nat string
  | Actor_set_enabled nat string bool

fun process_step :: "('m, 'w, 's) observers \<Rightarrow> ('m, 'w, 's) process_event \<Rightarrow> ('m, 'w, 's) processing \<Rightarrow> ('m, 'w, 's) processing" where
  "process_step ob (Spawn_actor a x) s = put_actor a x s"
| "process_step ob New_pid s = s\<lparr>pr_refs := Suc (pr_refs s)\<rparr>"
| "process_step ob (Begin_message a m) s = begin_message a m s"
| "process_step ob (Start_ends a ok) s = finish_start ob a ok s"
| "process_step ob (Instance_changes a x) s = s\<lparr>pr_instance := (pr_instance s)(a := x)\<rparr>"
| "process_step ob (Handler_ends a ok) s = finish_message ob a ok s"
| "process_step ob (Read_snapshot a) s = snd (read_snapshot a s)"
| "process_step ob (Subscribe_message a t h) s = s\<lparr>pr_subscribers := add_subscriber (message_key a t) h (pr_subscribers s)\<rparr>"
| "process_step ob (Unsubscribe_message a t h) s = s\<lparr>pr_subscribers := remove_subscriber (message_key a t) h (pr_subscribers s)\<rparr>"
| "process_step ob (Subscribe_snapshot a h) s = s\<lparr>pr_listeners := add_subscriber a h (pr_listeners s)\<rparr>"
| "process_step ob (Unsubscribe_snapshot a h) s = s\<lparr>pr_listeners := remove_subscriber a h (pr_listeners s)\<rparr>"
| "process_step ob (Global_chain x) s = s\<lparr>pr_global := snd (chain_step x (pr_global s))\<rparr>"
| "process_step ob (Actor_register pid h i p f) s = (if pid < pr_refs s then register_actor_interceptor pid h i p f s else s)"
| "process_step ob (Actor_unregister pid i) s = snd (unregister_actor_interceptor pid i s)"
| "process_step ob (Actor_set_enabled pid i b) s = snd (set_actor_interceptor_enabled pid i b s)"

definition process_run :: "('m, 'w, 's) observers \<Rightarrow> ('m, 'w, 's) process_event list \<Rightarrow> ('m, 'w, 's) processing \<Rightarrow> ('m, 'w, 's) processing" where
  "process_run ob es s = fold (process_step ob) es s"

definition new_processing :: "'w \<Rightarrow> 's \<Rightarrow> ('m, 'w, 's) processing" where
  "new_processing w x = \<lparr>pr_global = new_chain, pr_chains = [], pr_refs = 0, pr_world = w, pr_actors = [], pr_instance = (\<lambda>_. x),
     pr_started = [], pr_stats = [], pr_snapshots = [], pr_subscribers = [], pr_listeners = [], pr_active = [], pr_rejected = [],
     pr_published = [], pr_log = (\<lambda>_. [])\<rparr>"
section \<open>The interceptors of one actor\<close>

fun for_one_actor :: "('m, 'w, 's) process_event \<Rightarrow> bool" where
  "for_one_actor (Actor_register pid h i p f) = True"
| "for_one_actor (Actor_unregister pid i) = True"
| "for_one_actor (Actor_set_enabled pid i b) = True"
| "for_one_actor _ = False"

definition plain :: "('m, 'w, 's) processing \<Rightarrow> ('m, 'w, 's) processing" where
  "plain s = s\<lparr>pr_chains := []\<rparr>"

fun stage_key :: "'m stage \<Rightarrow> nat option" where
  "stage_key (Starting m k) = k"
| "stage_key (Handling m k) = k"

definition keys_old :: "('m, 'w, 's) processing \<Rightarrow> bool" where
  "keys_old s \<longleftrightarrow> (\<forall>k \<in> set (omap_keys (pr_chains s)). k < pr_refs s)
     \<and> (\<forall>a st. omap_get (pr_active s) a = Some st \<longrightarrow> stage_key st = None)"

lemma chain_runs_None [simp]: "chain_runs None f r s = (r, s)"
  by (simp add: chain_runs_def)

lemma plain_fields [simp]: "pr_global (plain s) = pr_global s" "pr_chains (plain s) = []" "pr_refs (plain s) = pr_refs s"
  "pr_world (plain s) = pr_world s" "pr_actors (plain s) = pr_actors s" "pr_instance (plain s) = pr_instance s"
  "pr_started (plain s) = pr_started s" "pr_stats (plain s) = pr_stats s" "pr_snapshots (plain s) = pr_snapshots s"
  "pr_subscribers (plain s) = pr_subscribers s" "pr_listeners (plain s) = pr_listeners s" "pr_active (plain s) = pr_active s"
  "pr_rejected (plain s) = pr_rejected s" "pr_published (plain s) = pr_published s" "pr_log (plain s) = pr_log s"
  by (simp_all add: plain_def)

lemma plain_updates [simp]: "(plain s)\<lparr>pr_global := g\<rparr> = plain (s\<lparr>pr_global := g\<rparr>)" "(plain s)\<lparr>pr_refs := n\<rparr> = plain (s\<lparr>pr_refs := n\<rparr>)"
  "(plain s)\<lparr>pr_world := w\<rparr> = plain (s\<lparr>pr_world := w\<rparr>)" "(plain s)\<lparr>pr_started := l\<rparr> = plain (s\<lparr>pr_started := l\<rparr>)"
  "(plain s)\<lparr>pr_stats := x\<rparr> = plain (s\<lparr>pr_stats := x\<rparr>)" "(plain s)\<lparr>pr_snapshots := y\<rparr> = plain (s\<lparr>pr_snapshots := y\<rparr>)"
  "(plain s)\<lparr>pr_subscribers := u\<rparr> = plain (s\<lparr>pr_subscribers := u\<rparr>)" "(plain s)\<lparr>pr_listeners := u\<rparr> = plain (s\<lparr>pr_listeners := u\<rparr>)"
  "(plain s)\<lparr>pr_active := v\<rparr> = plain (s\<lparr>pr_active := v\<rparr>)" "(plain s)\<lparr>pr_rejected := l\<rparr> = plain (s\<lparr>pr_rejected := l\<rparr>)"
  "(plain s)\<lparr>pr_published := q\<rparr> = plain (s\<lparr>pr_published := q\<rparr>)" "(plain s)\<lparr>pr_log := o1\<rparr> = plain (s\<lparr>pr_log := o1\<rparr>)"
  "(plain s)\<lparr>pr_actors := l\<rparr> = plain (s\<lparr>pr_actors := l\<rparr>)" "(plain s)\<lparr>pr_instance := i\<rparr> = plain (s\<lparr>pr_instance := i\<rparr>)"
  by (simp_all add: plain_def)

lemma plain_small [simp]: "update_stats a f (plain s) = plain (update_stats a f s)" "log_outcome a r (plain s) = plain (log_outcome a r s)"
  "global_runs g b (plain s) = map_prod id plain (global_runs g b s)"
  by (auto simp: update_stats_def log_outcome_def global_runs_def split: option.split prod.split)

lemma plain_fail [simp]: "fail_message ob a m None r (plain s) = plain (fail_message ob a m None r s)"
  by (auto simp: fail_message_def error_interceptors_def Let_def snd_map_prod split: option.split)

lemma plain_start [simp]: "start_or_handle a m k (plain s) = plain (start_or_handle a m k s)"
  "count_received a m k (plain s) = plain (count_received a m k s)"
  by (simp_all add: start_or_handle_def count_received_def)

lemma plain_report [simp]: "report_message ob a m None (plain s) = plain (report_message ob a m None s)"
  by (auto simp: report_message_def after_process_def Let_def split: prod.split)

text \<open>What the parts of a step leave of the keys.\<close>

lemma same_keys_small [simp]: "pr_chains (update_stats a f s) = pr_chains s" "pr_refs (update_stats a f s) = pr_refs s"
  "pr_active (update_stats a f s) = pr_active s"
  "pr_chains (log_outcome a r s) = pr_chains s" "pr_refs (log_outcome a r s) = pr_refs s"
  "pr_active (log_outcome a r s) = omap_delete a (pr_active s)"
  by (auto simp: update_stats_def log_outcome_def split: option.split)

lemma global_runs_keys: "global_runs f b s = (r, s1) \<Longrightarrow> pr_chains s1 = pr_chains s \<and> pr_refs s1 = pr_refs s \<and> pr_active s1 = pr_active s"
  by (auto simp: global_runs_def split: if_splits prod.splits)

lemma keys_old_fresh: "keys_old s \<Longrightarrow> omap_get (pr_chains s) (pr_refs s) = None"
  by (auto simp: keys_old_def map_of_eq_None_iff)

lemma fail_keys: "pr_chains (fail_message ob a m None r s) = pr_chains s \<and> pr_refs (fail_message ob a m None r s) = pr_refs s
    \<and> pr_active (fail_message ob a m None r s) = omap_delete a (pr_active s)"
  by (auto simp: fail_message_def error_interceptors_def Let_def global_runs_def split: option.split prod.split)

lemma report_keys: "pr_chains (report_message ob a m None s) = pr_chains s \<and> pr_refs (report_message ob a m None s) = pr_refs s
    \<and> pr_active (report_message ob a m None s) = omap_delete a (pr_active s)"
  by (auto simp: report_message_def after_process_def Let_def global_runs_def fail_keys split: prod.split)

lemma keys_old_stage:
  assumes "keys_old s"
  shows "omap_get (pr_active s) a = Some (Starting m k) \<Longrightarrow> k = None" "omap_get (pr_active s) a = Some (Handling m k) \<Longrightarrow> k = None"
proof -
  have "stage_key st = None" if "omap_get (pr_active s) a = Some st" for st using assms that unfolding keys_old_def by blast
  then show "omap_get (pr_active s) a = Some (Starting m k) \<Longrightarrow> k = None" "omap_get (pr_active s) a = Some (Handling m k) \<Longrightarrow> k = None"
    by force+
qed

lemma keys_old_less:
  assumes "keys_old s" "pr_chains t = pr_chains s" "pr_refs t = pr_refs s" "pr_active t = omap_delete a (pr_active s) \<or> pr_active t = pr_active s"
  shows "keys_old t"
  using assms by (auto simp: keys_old_def split: if_splits)

lemma finish_keys:
  assumes k: "keys_old s"
  shows "keys_old (finish_message ob a ok s)"
proof (cases "omap_get (pr_active s) a")
  case None
  then show ?thesis using k by (simp add: finish_message_def)
next
  case (Some st)
  show ?thesis
  proof (cases st)
    case (Handling m key)
    then have st: "omap_get (pr_active s) a = Some (Handling m None)" using Some keys_old_stage(2) [OF k] by auto
    show ?thesis
      by (rule keys_old_less [OF k, where a = a])
        (auto simp: finish_message_def st fail_keys report_keys Let_def split: option.split prod.split)
  qed (use Some k in \<open>simp add: finish_message_def\<close>)
qed

lemma begin_keys:
  assumes k: "keys_old s"
  shows "keys_old (begin_message a m s)"
proof -
  obtain r1 s1 where g: "global_runs (chain_execute On_receive m) (Message_continues m) s = (r1, s1)" by fastforce
  have k1: "keys_old s1" using k global_runs_keys [OF g] by (simp add: keys_old_def)
  have d: "keys_old (log_outcome a r t)" if "keys_old t" for r and t :: "('a, 'b, 'c) processing"
    using that by (auto simp: keys_old_def)
  have "keys_old (start_or_handle a m2 None (s1\<lparr>pr_refs := Suc (pr_refs s1)\<rparr>))" for m2
    using k1 by (auto simp: keys_old_def start_or_handle_def count_received_def dest: less_SucI)
  then show ?thesis using k k1 d
    by (auto simp: begin_message_def g after_receive_def Let_def keys_old_fresh [OF k1] split: pipeline_result.split)
qed

lemma plain_begin:
  assumes k: "keys_old s"
  shows "begin_message a m (plain s) = plain (begin_message a m s)"
proof -
  obtain r1 s1 where g: "global_runs (chain_execute On_receive m) (Message_continues m) s = (r1, s1)" by fastforce
  have "keys_old s1" using k global_runs_keys [OF g] by (simp add: keys_old_def)
  then show ?thesis
    by (simp add: begin_message_def g after_receive_def Let_def keys_old_fresh split: pipeline_result.split)
qed

lemma plain_finish:
  assumes "keys_old s"
  shows "finish_message ob a ok (plain s) = plain (finish_message ob a ok s)"
    "finish_start ob a ok (plain s) = plain (finish_start ob a ok s)"
proof -
  note n = keys_old_stage [OF assms]
  show "finish_message ob a ok (plain s) = plain (finish_message ob a ok s)"
    by (auto simp: finish_message_def Let_def split: option.split stage.split prod.split dest: n)
  show "finish_start ob a ok (plain s) = plain (finish_start ob a ok s)"
    by (auto simp: finish_start_def split: option.split stage.split dest: n)
qed
lemma finish_start_keys: "keys_old s \<Longrightarrow> keys_old (finish_start ob a ok s)"
proof -
  assume k: "keys_old s"
  show ?thesis
  proof (cases "omap_get (pr_active s) a")
    case (Some st)
    show ?thesis
    proof (cases st)
      case (Starting m key)
      then have st: "omap_get (pr_active s) a = Some (Starting m None)" using Some keys_old_stage(1) [OF k] by auto
      show ?thesis
      proof (cases ok)
        case True
        then show ?thesis using k by (auto simp: finish_start_def st keys_old_def count_received_def)
      next
        case False
        then show ?thesis by (intro keys_old_less [OF k, where a = a]) (auto simp: finish_start_def st fail_keys)
      qed
    qed (use Some k in \<open>simp add: finish_start_def\<close>)
  qed (use k in \<open>simp add: finish_start_def\<close>)
qed

lemma keys_old_step: "keys_old s \<Longrightarrow> keys_old (process_step ob e s)"
proof -
  assume k: "keys_old s"
  have same: "keys_old t" if "pr_chains t = pr_chains s" "pr_refs t = pr_refs s" "pr_active t = pr_active s" for t
    by (rule keys_old_less [OF k that(1,2), where a = "[]"]) (simp add: that(3))
  have upd: "keys_old (s\<lparr>pr_chains := omap_set p c (pr_chains s)\<rparr>)" if "p < pr_refs s" for p c
    using k that omap_keys_set [of p c "pr_chains s"] by (auto simp: keys_old_def simp del: set_map)
  have old: "p < pr_refs s" if "omap_get (pr_chains s) p = Some c" for p c
  proof -
    have "p \<in> set (omap_keys (pr_chains s))" using that map_of_SomeD by force
    then show ?thesis using k by (simp add: keys_old_def del: set_map)
  qed
  show ?thesis
  proof (cases e)
    case New_pid
    then show ?thesis using k by (auto simp: keys_old_def dest: less_SucI)
  next
    case (Begin_message a m)
    then show ?thesis using begin_keys [OF k] by simp
  next
    case (Start_ends a ok)
    then show ?thesis using finish_start_keys [OF k] by simp
  next
    case (Handler_ends a ok)
    then show ?thesis using finish_keys [OF k] by simp
  next
    case (Actor_register pid h i p f)
    then show ?thesis using k upd by (simp add: register_actor_interceptor_def)
  next
    case (Actor_unregister pid i)
    then show ?thesis using k upd old by (auto simp: unregister_actor_interceptor_def split: option.split)
  next
    case (Actor_set_enabled pid i b)
    then show ?thesis using k upd old by (auto simp: set_actor_interceptor_enabled_def split: option.split)
  next
    case (Spawn_actor a x)
    then show ?thesis by (auto intro: same simp: put_actor_def)
  next
    case (Read_snapshot a)
    then show ?thesis by (auto intro: same simp: read_snapshot_def)
  qed (auto intro: same)
qed

lemma plain_spawn [simp]: "put_actor a x (plain s) = plain (put_actor a x s)"
  by (simp add: put_actor_def plain_def)

lemma plain_read [simp]: "snd (read_snapshot a (plain s)) = plain (snd (read_snapshot a s))"
  by (simp add: read_snapshot_def)

lemma plain_step:
  assumes "keys_old s"
  shows "plain (process_step ob e s) = (if for_one_actor e then plain s else process_step ob e (plain s))"
proof (cases e)
  case (Actor_register pid h i p f)
  then show ?thesis by (simp add: register_actor_interceptor_def plain_def)
next
  case (Actor_unregister pid i)
  then show ?thesis by (simp add: unregister_actor_interceptor_def plain_def split: option.split)
next
  case (Actor_set_enabled pid i b)
  then show ?thesis by (simp add: set_actor_interceptor_enabled_def plain_def split: option.split)
qed (simp_all add: plain_begin [OF assms] plain_finish [OF assms])

lemma keys_old_run: "keys_old s \<Longrightarrow> plain (process_run ob es s) = process_run ob (filter (\<lambda>e. \<not> for_one_actor e) es) (plain s)"
  unfolding process_run_def by (induction es arbitrary: s) (simp_all add: keys_old_step plain_step)

text \<open>
  In any history, the interceptors registered for single actors, however they are removed, enabled or disabled, change nothing:
  all but the table they stand in is as in the history without them. Messages look the table up by a PID object of
  their own.\<close>

theorem actor_interceptors_never_run:
  "(process_run ob es (new_processing w x))\<lparr>pr_chains := []\<rparr>
     = process_run ob (filter (\<lambda>e. \<not> for_one_actor e) es) (new_processing w x)"
proof -
  let ?n = "new_processing w x :: ('a, 'b, 'c) processing"
  have "keys_old ?n" "plain ?n = ?n" by (simp_all add: keys_old_def new_processing_def plain_def)
  then show ?thesis using keys_old_run [of ?n ob es] by (simp add: plain_def [symmetric])
qed
section \<open>Every message is accounted for\<close>

definition tally :: "outcome list \<Rightarrow> outcome list \<Rightarrow> nat" where
  "tally rs l = length (filter (\<lambda>r. r \<in> set rs) l)"

fun balanced :: "message_stats option \<times> outcome list \<times> 'm stage option \<Rightarrow> bool" where
  "balanced (None, l, st) = False"
| "balanced (Some x, l, st) =
     (sx_received x = tally [Handler_failed, Listener_failed, Observer_failed, Processed] l
        + (case st of Some (Handling m k) \<Rightarrow> 1 | _ \<Rightarrow> 0)
      \<and> sx_processed x = tally [Processed, Observer_failed] l
      \<and> sx_errors x = tally [Start_failed, Handler_failed, Listener_failed, Observer_failed] l)"

definition account :: "('m, 'w, 's) processing \<Rightarrow> string \<Rightarrow> message_stats option \<times> outcome list \<times> 'm stage option" where
  "account s a = (omap_get (pr_stats s) a, pr_log s a, omap_get (pr_active s) a)"

definition accounted :: "('m, 'w, 's) processing \<Rightarrow> bool" where
  "accounted s \<longleftrightarrow> list_all (\<lambda>a. balanced (account s a)) (pr_actors s)"

lemma tally_simps [simp]: "tally rs [] = 0" "tally rs (l @ [r]) = (if r \<in> set rs then Suc (tally rs l) else tally rs l)"
  by (simp_all add: tally_def)

lemma account_update: "account (update_stats a f s) b =
    (if b = a then (map_option f (fst (account s a)), snd (account s a)) else account s b)"
  by (auto simp: account_def update_stats_def split: option.split)

lemma account_log: "account (log_outcome a r s) b =
    (if b = a then (omap_get (pr_stats s) a, pr_log s a @ [r], None) else account s b)"
  by (simp add: account_def log_outcome_def)

lemma account_cong: "pr_stats s1 = pr_stats s \<Longrightarrow> pr_log s1 = pr_log s \<Longrightarrow> pr_active s1 = pr_active s \<Longrightarrow> account s1 = account s"
  by (simp add: account_def fun_eq_iff)

text \<open>Chains leave the bookkeeping alone.\<close>

definition same_books :: "('m, 'w, 's) processing \<Rightarrow> ('m, 'w, 's) processing \<Rightarrow> bool" where
  "same_books s1 s \<longleftrightarrow> pr_stats s1 = pr_stats s \<and> pr_log s1 = pr_log s \<and> pr_active s1 = pr_active s \<and> pr_actors s1 = pr_actors s
     \<and> pr_started s1 = pr_started s"

lemma same_books_runs: "global_runs f b s = (r, s1) \<Longrightarrow> same_books s1 s" "chain_runs k f b s = (r, s1) \<Longrightarrow> same_books s1 s"
  by (auto simp: global_runs_def chain_runs_def same_books_def split: if_splits prod.splits option.splits)

lemma same_books_snd: "same_books (snd (global_runs f b s)) s" "same_books (snd (chain_runs k g b s)) s"
  by (rule same_books_runs(1) [OF prod.collapse [symmetric]], rule same_books_runs(2) [OF prod.collapse [symmetric]])

lemma same_books_trans: "same_books s2 s1 \<Longrightarrow> same_books s1 s \<Longrightarrow> same_books s2 s"
  by (simp add: same_books_def)

lemma same_books_account: "same_books s1 s \<Longrightarrow> account s1 = account s"
  by (rule account_cong) (simp_all add: same_books_def)

lemma same_books_errors: "same_books (error_interceptors m k s) s"
  unfolding error_interceptors_def by (rule same_books_trans [OF same_books_snd(2) same_books_snd(1)])

text \<open>What a message that ends leaves in the books: of another actor nothing, of its own one count and one outcome.\<close>

definition booked :: "('m, 'w, 's) processing \<Rightarrow> string \<Rightarrow> outcome \<Rightarrow> (message_stats \<Rightarrow> message_stats) \<Rightarrow> ('m, 'w, 's) processing \<Rightarrow> bool" where
  "booked t a r f s \<longleftrightarrow> pr_actors t = pr_actors s
     \<and> account t = (account s)(a := (map_option f (omap_get (pr_stats s) a), pr_log s a @ [r], None))"

lemma booked_fail: "booked (fail_message ob a m k r s) a r (\<lambda>x. x\<lparr>sx_errors := sx_errors x + 1\<rparr>) s"
proof -
  define s1 where "s1 = (case ob_corr ob m of None \<Rightarrow> s | Some cid \<Rightarrow> if cid = [] then s else s\<lparr>pr_rejected := pr_rejected s @ [cid]\<rparr>)"
  define s2 where "s2 = update_stats a (\<lambda>x. x\<lparr>sx_errors := sx_errors x + 1\<rparr>) s1"
  have 1: "same_books s1 s" by (auto simp: s1_def same_books_def split: option.split)
  have 2: "pr_stats (error_interceptors m k s2) = pr_stats s2" "account (error_interceptors m k s2) = account s2"
    "pr_log (error_interceptors m k s2) = pr_log s2" "pr_actors (error_interceptors m k s2) = pr_actors s2"
    using same_books_errors [of m k s2] same_books_account [OF same_books_errors, of m k s2] by (simp_all add: same_books_def)
  have 3: "pr_log s2 = pr_log s" "pr_actors s2 = pr_actors s" "omap_get (pr_stats s2) a = map_option (\<lambda>x. x\<lparr>sx_errors := sx_errors x + 1\<rparr>) (omap_get (pr_stats s) a)"
    "account s2 b = (if b = a then (map_option (\<lambda>x. x\<lparr>sx_errors := sx_errors x + 1\<rparr>) (omap_get (pr_stats s) a), snd (account s a)) else account s b)" for b
    using 1 by (auto simp: s2_def account_update same_books_account [OF 1]) (auto simp: update_stats_def same_books_def account_def split: option.split)
  have "fail_message ob a m k r s = log_outcome a r (error_interceptors m k s2)"
    by (simp add: fail_message_def s1_def s2_def Let_def)
  then show ?thesis
    by (auto simp: booked_def fun_eq_iff account_log 2 3) (simp add: log_outcome_def 2 3)
qed
fun books :: "outcome \<Rightarrow> message_stats \<Rightarrow> message_stats" where
  "books Processed x = x\<lparr>sx_processed := sx_processed x + 1\<rparr>"
| "books Observer_failed x = x\<lparr>sx_processed := sx_processed x + 1, sx_errors := sx_errors x + 1\<rparr>"
| "books r x = x\<lparr>sx_errors := sx_errors x + 1\<rparr>"

lemma booked_same: "booked t a r f s1 \<Longrightarrow> same_books s1 s \<Longrightarrow> booked t a r f s"
  by (auto simp: booked_def same_books_account) (simp add: same_books_def)+

lemma booked_fun: "booked t a r f s \<Longrightarrow> (\<And>x. f x = g x) \<Longrightarrow> booked t a r g s"
  by (simp add: booked_def cong: option.map_cong)

lemma booked_after:
  assumes "booked t a r f (update_stats a g s)"
  shows "booked t a r (\<lambda>x. f (g x)) s"
proof -
  have 1: "pr_log (update_stats a g s) = pr_log s" "pr_actors (update_stats a g s) = pr_actors s"
    "omap_get (pr_stats (update_stats a g s)) a = map_option g (omap_get (pr_stats s) a)"
    by (auto simp: update_stats_def split: option.split)
  show ?thesis using assms by (auto simp: booked_def 1 fun_eq_iff account_update option.map_comp comp_def)
qed

lemma booked_report: "\<exists>r \<in> {Processed, Observer_failed}. booked (report_message ob a m k s) a r (books r) s"
proof -
  define s1 where "s1 = update_stats a (\<lambda>x. x\<lparr>sx_processed := sx_processed x + 1\<rparr>) s"
  obtain ok w where n: "notify_message ob a m (pr_subscribers s1) (pr_world s1) = (ok, w)" by fastforce
  obtain ok2 s2 where g: "global_runs (chain_after_process m) True (s1\<lparr>pr_world := w\<rparr>) = (ok2, s2)" by fastforce
  obtain ok3 s3 where c: "(if ok2 then chain_runs k (chain_after_process m) True s2 else (False, s2)) = (ok3, s3)" by fastforce
  have b1: "same_books (s1\<lparr>pr_world := w\<rparr>) s1" by (simp add: same_books_def)
  have b3: "same_books s3 s1"
    using same_books_trans [OF same_books_runs(1) [OF g] b1] c same_books_runs(2) [of k "chain_after_process m" True s2 ok3 s3]
    by (auto split: if_splits intro: same_books_trans)
  let ?f = "\<lambda>x. x\<lparr>sx_errors := sx_errors x + 1\<rparr>"
  have fail: "booked (fail_message ob a m k Observer_failed t) a Observer_failed (books Observer_failed) s" if "same_books t s1" for t
    by (rule booked_fun [OF booked_after [OF booked_same [OF booked_fail that [unfolded s1_def]]]]) simp
  have done1: "booked (log_outcome a Processed s3) a Processed (books Processed) s"
  proof -
    have "booked (log_outcome a Processed s3) a Processed (\<lambda>x. x) s1"
      using b3 by (simp add: booked_def fun_eq_iff account_log same_books_account [OF b3]) (simp add: same_books_def log_outcome_def option.map_ident)
    then show ?thesis unfolding s1_def by (rule booked_fun [OF booked_after]) simp
  qed
  have eq: "report_message ob a m k s = (if ok then if ok3 then log_outcome a Processed s3 else fail_message ob a m k Observer_failed s3
      else fail_message ob a m k Observer_failed (s1\<lparr>pr_world := w\<rparr>))"
    unfolding report_message_def after_process_def Let_def s1_def [symmetric] by (simp add: n g c)
  show ?thesis
    using fail [OF b1] fail [OF b3] done1 unfolding eq by (cases ok; cases ok3) simp_all
qed

lemma balanced_books:
  assumes "balanced (Some x, l, Some (Handling m k))" "r \<in> {Handler_failed, Listener_failed, Observer_failed, Processed}"
  shows "balanced (Some (books r x), l @ [r], None)"
  using assms by (auto simp: numeral_eq_Suc)

lemma balanced_some: "balanced (ac, l, st) \<Longrightarrow> \<exists>x. ac = Some x"
  by (cases ac) auto

lemma accounted_booked:
  assumes s: "accounted s" and b: "booked t a r (books r) s" and h: "omap_get (pr_active s) a = Some (Handling m k)"
    and r: "r \<in> {Handler_failed, Listener_failed, Observer_failed, Processed}"
  shows "accounted t"
proof -
  have "balanced (account t b)" if m: "b \<in> set (pr_actors s)" for b
  proof -
    have v: "balanced (account s b)" using s m by (simp add: accounted_def list_all_iff)
    show ?thesis
    proof (cases "b = a")
      case True
      obtain x where x: "omap_get (pr_stats s) a = Some x" using v balanced_some unfolding True account_def by blast
      have "balanced (Some x, pr_log s a, Some (Handling m k))" using v by (simp only: True account_def x h)
      then show ?thesis using b balanced_books [OF _ r] by (simp add: booked_def True x)
    qed (use b v in \<open>simp add: booked_def\<close>)
  qed
  then show ?thesis using b by (simp add: accounted_def list_all_iff booked_def)
qed
lemma accounted_one:
  assumes s: "accounted s" and other: "pr_actors t = pr_actors s" "\<And>b. b \<noteq> a \<Longrightarrow> account t b = account s b"
    and own: "balanced (account s a) \<Longrightarrow> balanced (account t a)"
  shows "accounted t"
proof -
  have "balanced (account t b)" if "b \<in> set (pr_actors s)" for b
  proof -
    have "balanced (account s b)" using s that by (simp add: accounted_def list_all_iff)
    then show ?thesis by (cases "b = a") (simp_all add: own other)
  qed
  then show ?thesis by (simp add: accounted_def list_all_iff other)
qed

lemma accounted_same: "accounted s \<Longrightarrow> same_books t s \<Longrightarrow> accounted t"
  by (simp add: accounted_def same_books_account) (simp add: same_books_def)

lemma balanced_start: "balanced (st, l, Some (Starting m k)) \<Longrightarrow> balanced (map_option (books Start_failed) st, l @ [Start_failed], None)"
  by (cases st) auto

lemma balanced_received: "balanced (st, l, act) \<Longrightarrow> (case act of Some (Handling m k) \<Rightarrow> False | _ \<Rightarrow> True)
    \<Longrightarrow> balanced (map_option (\<lambda>x. x\<lparr>sx_received := sx_received x + 1\<rparr>) st, l, Some (Handling m k))"
  by (cases st) (auto split: option.splits stage.splits)

lemma balanced_idle: "balanced (ac, l, None) \<Longrightarrow> r \<in> {Not_deliverable, Receive_rejected, Filtered_on_receive} \<Longrightarrow> balanced (ac, l @ [r], None)"
  "balanced (ac, l, None) \<Longrightarrow> balanced (ac, l, Some (Starting m k))"
  by (cases ac; auto)+

lemma accounted_received:
  assumes "accounted s" "case omap_get (pr_active s) a of Some (Handling m1 k1) \<Rightarrow> False | _ \<Rightarrow> True"
    and t: "same_books (t\<lparr>pr_started := pr_started s\<rparr>) s"
  shows "accounted (count_received a m k t)"
proof (rule accounted_one [OF assms(1), where a = a])
  have t2: "account t = account s" "pr_actors t = pr_actors s" "pr_active t = pr_active s" "pr_log t = pr_log s" "pr_stats t = pr_stats s"
    using t by (auto simp: same_books_def account_def)
  show "pr_actors (count_received a m k t) = pr_actors s"
    by (simp add: count_received_def update_stats_def t2 split: option.split)
  show "account (count_received a m k t) b = account s b" if "b \<noteq> a" for b
    using that by (simp add: count_received_def account_update) (simp add: account_def t2)
  show "balanced (account (count_received a m k t) a)" if "balanced (account s a)"
    using balanced_received [OF that [unfolded account_def] assms(2), of m k]
    by (simp add: count_received_def account_update) (simp add: account_def t2)
qed

lemma accounted_log:
  assumes "accounted s" "omap_get (pr_active s) a = None" "r \<in> {Not_deliverable, Receive_rejected, Filtered_on_receive}"
  shows "accounted (log_outcome a r s)"
proof (rule accounted_one [OF assms(1), where a = a])
  show "balanced (account (log_outcome a r s) a)" if "balanced (account s a)"
    using that assms(2) balanced_idle(1) [OF _ assms(3)] by (simp add: account_log) (simp add: account_def)
qed (simp_all add: account_log, simp add: log_outcome_def)

lemma accounted_start:
  assumes "accounted s" "omap_get (pr_active s) a = None"
  shows "accounted (start_or_handle a m k s)"
proof (cases "a \<in> set (pr_started s)")
  case True
  then show ?thesis using accounted_received [OF assms(1), of a s m k] assms(2) by (simp add: start_or_handle_def same_books_def)
next
  case False
  show ?thesis
  proof (rule accounted_one [OF assms(1), where a = a])
    show "balanced (account (start_or_handle a m k s) a)" if "balanced (account s a)"
      using that False assms(2) by (simp add: start_or_handle_def account_def balanced_idle(2))
  qed (simp_all add: start_or_handle_def False account_def)
qed

lemma accounted_begin:
  assumes "accounted s"
  shows "accounted (begin_message a m s)"
proof (cases "omap_get (pr_active s) a = None \<and> a \<in> set (pr_actors s)")
  case True
  obtain r1 s1 where g: "global_runs (chain_execute On_receive m) (Message_continues m) s = (r1, s1)" by fastforce
  define k where "k = (if omap_get (pr_chains s1) (pr_refs s1) = None then None else Some (pr_refs s1))"
  have b1: "same_books s1 s" by (rule same_books_runs(1) [OF g])
  have ok: "accounted t" "omap_get (pr_active t) a = None" if "same_books t s" for t
    using accounted_same [OF assms that] that True by (simp_all add: same_books_def)
  have "accounted (let (r2, s3) = chain_runs k (chain_execute On_receive m1) (Message_continues m1) (s1\<lparr>pr_refs := Suc (pr_refs s1)\<rparr>)
      in after_receive a r2 (\<lambda>m2. start_or_handle a m2 k s3) s3)" for m1
  proof -
    obtain r2 s3 where c: "chain_runs k (chain_execute On_receive m1) (Message_continues m1) (s1\<lparr>pr_refs := Suc (pr_refs s1)\<rparr>) = (r2, s3)"
      by fastforce
    have "same_books s3 s"
      using same_books_runs(2) [OF c] b1 by (simp add: same_books_def)
    then show ?thesis using ok [of s3]
      by (simp add: c after_receive_def accounted_log accounted_start split: pipeline_result.split)
  qed
  then have "accounted (after_receive a r1 (\<lambda>m1. let k = (if omap_get (pr_chains s1) (pr_refs s1) = None then None else Some (pr_refs s1));
        s2 = s1\<lparr>pr_refs := Suc (pr_refs s1)\<rparr>; (r2, s3) = chain_runs k (chain_execute On_receive m1) (Message_continues m1) s2
      in after_receive a r2 (\<lambda>m2. start_or_handle a m2 k s3) s3) s1)"
    using ok [OF b1] unfolding after_receive_def [of a r1] k_def
    by (cases r1) (simp_all add: accounted_log Let_def)
  then show ?thesis using True by (simp add: begin_message_def g)
next
  case False
  then show ?thesis
  proof (cases "omap_get (pr_active s) a = None")
    case True
    then show ?thesis using False assms by (simp add: begin_message_def accounted_log)
  qed (use assms in \<open>simp add: begin_message_def\<close>)
qed
lemma accounted_finish_start:
  assumes "accounted s"
  shows "accounted (finish_start ob a ok s)"
proof (cases "omap_get (pr_active s) a")
  case (Some st)
  show ?thesis
  proof (cases st)
    case (Starting m k)
    show ?thesis
    proof (cases ok)
      case True
      have "accounted (count_received a m k (s\<lparr>pr_started := pr_started s @ [a]\<rparr>))"
        by (rule accounted_received [OF assms]) (simp_all add: Some Starting same_books_def)
      then show ?thesis using True by (simp add: finish_start_def Some Starting)
    next
      case False
      have b: "booked (fail_message ob a m k Start_failed s) a Start_failed (books Start_failed) s"
        by (rule booked_fun [OF booked_fail]) simp
      have "accounted (fail_message ob a m k Start_failed s)"
        by (rule accounted_one [OF assms, where a = a])
          (use b balanced_start [of "omap_get (pr_stats s) a" "pr_log s a" m k] in
            \<open>simp_all add: booked_def account_def [of s a] Some Starting\<close>)
      then show ?thesis using False by (simp add: finish_start_def Some Starting)
    qed
  qed (use Some assms in \<open>simp add: finish_start_def\<close>)
qed (use assms in \<open>simp add: finish_start_def\<close>)

lemma accounted_fail:
  assumes "accounted s" "same_books t s" "omap_get (pr_active s) a = Some (Handling m k)" "r \<in> {Handler_failed, Listener_failed}"
  shows "accounted (fail_message ob a m k r t)"
proof -
  have "booked (fail_message ob a m k r t) a r (books r) s"
    by (rule booked_fun [OF booked_same [OF booked_fail assms(2)]]) (use assms(4) in auto)
  then show ?thesis by (rule accounted_booked [OF assms(1) _ assms(3)]) (use assms(4) in auto)
qed

lemma accounted_report:
  assumes "accounted s" "same_books t s" "omap_get (pr_active s) a = Some (Handling m k)"
  shows "accounted (report_message ob a m k t)"
proof -
  obtain r where "r \<in> {Processed, Observer_failed}" "booked (report_message ob a m k t) a r (books r) t"
    by (rule bexE [OF booked_report])
  then show ?thesis by (intro accounted_booked [OF assms(1) _ assms(3), where r = r] booked_same [OF _ assms(2)]) auto
qed

lemma accounted_finish:
  assumes "accounted s"
  shows "accounted (finish_message ob a ok s)"
proof (cases "omap_get (pr_active s) a")
  case (Some st)
  show ?thesis
  proof (cases st)
    case (Handling m k)
    note h = Some [unfolded Handling]
    have "accounted (fail_message ob a m k Handler_failed s)" by (rule accounted_fail [OF assms _ h]) (simp_all add: same_books_def)
    moreover have "accounted (report_message ob a m k (s\<lparr>pr_snapshots := x\<rparr>))"
      "accounted (report_message ob a m k (s\<lparr>pr_snapshots := x, pr_world := w, pr_published := p\<rparr>))"
      "accounted (fail_message ob a m k Listener_failed (s\<lparr>pr_snapshots := x, pr_world := w\<rparr>))" for x w p
      by (rule accounted_report [OF assms _ h] accounted_fail [OF assms _ h], simp_all add: same_books_def)+
    ultimately show ?thesis by (simp add: finish_message_def h Let_def split: prod.split)
  qed (use Some assms in \<open>simp add: finish_message_def\<close>)
qed (use assms in \<open>simp add: finish_message_def\<close>)

lemma accounted_spawn:
  assumes "accounted s"
  shows "accounted (put_actor a x s)"
proof (cases "omap_get (pr_active s) a")
  case None
  have "balanced (account (put_actor a x s) b)" if "b = a \<or> b \<in> set (pr_actors s)" for b
    using that assms None by (cases "b = a") (auto simp: accounted_def list_all_iff put_actor_def account_def)
  then show ?thesis using None by (auto simp: accounted_def list_all_iff put_actor_def)
qed (use assms in \<open>simp add: put_actor_def\<close>)

lemma accounted_step: "accounted s \<Longrightarrow> accounted (process_step ob e s)"
proof -
  assume s: "accounted s"
  have q: "same_books t s \<Longrightarrow> accounted t" for t by (rule accounted_same [OF s])
  show ?thesis
    by (cases e) (auto simp: accounted_spawn accounted_begin accounted_finish accounted_finish_start s
      register_actor_interceptor_def unregister_actor_interceptor_def set_actor_interceptor_enabled_def read_snapshot_def
      same_books_def split: option.split intro: q)
qed

interpretation processing: invariant_machine "\<lambda>e s. ((), process_step ob e s)" accounted for ob
  by unfold_locales (simp add: accounted_step)

lemma process_run_machine: "process_run ob es s = snd (run_machine (\<lambda>e s. ((), process_step ob e s)) es s)"
  by (induction es arbitrary: s) (simp_all add: process_run_def split_beta)


text \<open>A snapshot read while a handler runs becomes the one the next is compared with: the change is announced to nobody.\<close>

lemma read_hides_change:
  assumes "ob_same ob (pr_instance s a) (pr_instance s a)" "a \<in> set (pr_actors s)" "omap_get (pr_active s) a = Some (Handling m k)"
  shows "finish_message ob a True (snd (read_snapshot a s)) = report_message ob a m k (snd (read_snapshot a s))"
  using assms by (simp add: finish_message_def read_snapshot_def Let_def AList.update_Some_unfold)

end
