(* ===== verification/Lattice_Artifacts.thy ===== *)
theory Lattice_Artifacts
  imports Json_Values Text_Order Text_Encoding "HOL-Library.Word"
begin

text \<open>
  Artifacts and dependencies of the lattice, \<open>actor-lattice/src/artifact.ts\<close> and \<open>dependency.ts\<close>: versioned, deduplicated
  publication, queries, and when the artifacts published so far satisfy a dependency. \<open>JSON.stringify\<close> of scalars, the order of
  \<open>localeCompare\<close> and SHA-256 (of \<open>node:crypto\<close>) are parts of the environment. Payloads are JSON values, and
  properties of \<open>Object.prototype\<close> are not seen through \<open>fields\<close>.
\<close>

unbundle bit_operations_syntax

section \<open>Stable texts and hashes\<close>

record lattice_env =
  le_json :: "json \<Rightarrow> string"
  le_order :: collator
  le_sha :: "string \<Rightarrow> string"

fun join_with :: "string \<Rightarrow> string list \<Rightarrow> string" where
  "join_with sep [] = []"
| "join_with sep [p] = p"
| "join_with sep (p # q # ps) = p @ sep @ join_with sep (q # ps)"

fun stable_text :: "lattice_env \<Rightarrow> json \<Rightarrow> string" where
  "stable_text ev (JArray xs) = ''['' @ join_with '','' (map (stable_text ev) xs) @ '']''"
| "stable_text ev (JObject fs) =
     ''{'' @ join_with '','' (map (\<lambda>(k, t). le_json ev (JString k) @ '':'' @ t)
       (sort_by (\<lambda>(k, _) (l, _). locale_compare (le_order ev) k l) (map (\<lambda>(k, v). (k, stable_text ev v)) fs))) @ ''}''"
| "stable_text ev v = le_json ev v"

definition lower_hex :: "nat \<Rightarrow> char" where
  "lower_hex n = (if n < 10 then char_of (48 + n) else char_of (87 + n))"

fun hex_text :: "nat \<Rightarrow> string" where
  "hex_text n = (if n < 16 then [lower_hex n] else hex_text (n div 16) @ [lower_hex (n mod 16)])"

declare hex_text.simps [simp del]

text \<open>The bitwise operators of JavaScript wrap to 32 bits; the products before them are exact.\<close>

definition fnv_hash :: "string \<Rightarrow> string" where
  "fnv_hash s = ''d'' @ hex_text (unat (fold (\<lambda>c h :: 32 word. (h XOR of_nat (of_char c)) * 16777619) s 2166136261))"

section \<open>Artifacts\<close>

record artifact =
  ar_id :: string
  ar_type :: string
  ar_key :: "string option"
  ar_version :: nat
  ar_payload :: json
  ar_producer :: string
  ar_published :: ms
  ar_hash :: string
  ar_metadata :: "json option"

record new_artifact =
  na_type :: string
  na_key :: "string option"
  na_payload :: json
  na_producer :: string
  na_published :: ms
  na_hash :: "string option"
  na_metadata :: "json option"

definition artifact_identity :: "string \<Rightarrow> string option \<Rightarrow> string" where
  "artifact_identity t k = t @ '':'' @ (case k of None \<Rightarrow> [] | Some s \<Rightarrow> s)"

abbreviation identity_of :: "artifact \<Rightarrow> string" where
  "identity_of a \<equiv> artifact_identity (ar_type a) (ar_key a)"

definition content_hash :: "lattice_env \<Rightarrow> json \<Rightarrow> json option \<Rightarrow> string" where
  "content_hash ev payload metadata = ''sha256:'' @ le_sha ev (stable_text ev
     (JObject [(''metadata'', case metadata of None \<Rightarrow> JNull | Some v \<Rightarrow> v), (''payload'', payload)]))"

definition latest_artifacts :: "lattice_env \<Rightarrow> artifact list \<Rightarrow> artifact list" where
  "latest_artifacts ev as =
     sort_by (\<lambda>a b. locale_compare (le_order ev) (identity_of a) (identity_of b))
       (map snd (fold (\<lambda>a m. omap_set (identity_of a) a m) as []))"

record artifact_query =
  qa_type :: "string option"
  qa_key :: "string option"
  qa_history :: bool

definition query_artifacts :: "lattice_env \<Rightarrow> artifact_query \<Rightarrow> artifact list \<Rightarrow> artifact list" where
  "query_artifacts ev q as =
     filter (\<lambda>a. (case qa_type q of None \<Rightarrow> True | Some t \<Rightarrow> t = [] \<or> ar_type a = t)
                 \<and> (qa_key q = None \<or> ar_key a = qa_key q))
       (if qa_history q then as else latest_artifacts ev as)"

definition latest_of :: "string \<Rightarrow> artifact list \<Rightarrow> artifact option" where
  "latest_of i as = find (\<lambda>a. identity_of a = i) (rev as)"

text \<open>The store, the artifact and whether it was published; a repetition of the latest version is not.\<close>

definition publish_artifact :: "lattice_env \<Rightarrow> new_artifact \<Rightarrow> artifact list \<Rightarrow> artifact list \<times> artifact \<times> bool" where
  "publish_artifact ev n as =
     (let i = artifact_identity (na_type n) (na_key n); latest = latest_of i as;
          h = (case na_hash n of Some s \<Rightarrow> s | None \<Rightarrow> content_hash ev (na_payload n) (na_metadata n));
          version = (case latest of None \<Rightarrow> 0 | Some a \<Rightarrow> ar_version a) + 1;
          r = \<lparr>ar_id = i @ ''@'' @ nat_digits version, ar_type = na_type n, ar_key = na_key n, ar_version = version,
               ar_payload = na_payload n, ar_producer = na_producer n, ar_published = na_published n, ar_hash = h,
               ar_metadata = na_metadata n\<rparr>
      in case latest of
           Some a \<Rightarrow> if ar_producer a = na_producer n \<and> ar_hash a = h then (as, a, False) else (as @ [r], r, True)
         | None \<Rightarrow> (as @ [r], r, True))"

section \<open>Dependencies\<close>

record matcher =
  mt_type :: string
  mt_key :: "string option"
  mt_fields :: "(string \<times> json) list option"

datatype dependency_mode = Once | Every_version

record dependency =
  dp_lattice :: string
  dp_requires :: "matcher list"
  dp_mode :: dependency_mode
  dp_id :: string
  dp_actor :: string

record dependency_request =
  dr_lattice :: string
  dr_requires :: "matcher list"
  dr_mode :: "dependency_mode option"
  dr_id :: "string option"
  dr_actor :: string

definition opt_field :: "string \<Rightarrow> json option \<Rightarrow> (string \<times> json) list" where
  "opt_field k v = (case v of None \<Rightarrow> [] | Some x \<Rightarrow> [(k, x)])"

definition matcher_json :: "matcher \<Rightarrow> json" where
  "matcher_json m = JObject ((''type'', JString (mt_type m)) # opt_field ''key'' (map_option JString (mt_key m))
     @ opt_field ''fields'' (map_option JObject (mt_fields m)))"

fun mode_text :: "dependency_mode \<Rightarrow> string" where
  "mode_text Once = ''once''"
| "mode_text Every_version = ''everyVersion''"

definition normalize_matchers :: "lattice_env \<Rightarrow> matcher list \<Rightarrow> matcher list" where
  "normalize_matchers ev ms =
     sort_by (\<lambda>l r. locale_compare (le_order ev) (stable_text ev (matcher_json l)) (stable_text ev (matcher_json r))) ms"

definition derive_dependency_id :: "lattice_env \<Rightarrow> string \<Rightarrow> string \<Rightarrow> matcher list \<Rightarrow> dependency_mode \<Rightarrow> string" where
  "derive_dependency_id ev lattice actor requires mode =
     ''dependency:'' @ lattice @ '':'' @ actor @ '':'' @ fnv_hash (stable_text ev (JObject
       [(''actorKey'', JString actor), (''lattice'', JString lattice), (''mode'', JString (mode_text mode)),
        (''requires'', JArray (map matcher_json (normalize_matchers ev requires)))]))"

definition registered_dependency :: "lattice_env \<Rightarrow> dependency_request \<Rightarrow> dependency" where
  "registered_dependency ev r =
     (let mode = (case dr_mode r of None \<Rightarrow> Once | Some m \<Rightarrow> m)
      in \<lparr>dp_lattice = dr_lattice r, dp_requires = dr_requires r, dp_mode = mode,
          dp_id = (case dr_id r of Some i \<Rightarrow> i
                   | None \<Rightarrow> derive_dependency_id ev (dr_lattice r) (dr_actor r) (dr_requires r) mode),
          dp_actor = dr_actor r\<rparr>)"

definition dependency_key :: "lattice_env \<Rightarrow> dependency \<Rightarrow> string" where
  "dependency_key ev d = stable_text ev (JObject
     [(''actorKey'', JString (dp_actor d)), (''dependencyId'', JString (dp_id d)), (''lattice'', JString (dp_lattice d)),
      (''mode'', JString (mode_text (dp_mode d))), (''requires'', JArray (map matcher_json (dp_requires d)))])"

text \<open>A property of a payload that is an object or an array.\<close>

fun payload_property :: "json \<Rightarrow> string \<Rightarrow> json option" where
  "payload_property (JObject fs) k = map_of fs k"
| "payload_property (JArray xs) k =
     (if k = ''length'' then Some (JNumber (of_nat (length xs)))
      else map_option (nth xs) (find (\<lambda>i. nat_digits i = k) [0..<length xs]))"
| "payload_property _ k = None"

definition matches_artifact :: "lattice_env \<Rightarrow> artifact \<Rightarrow> matcher \<Rightarrow> bool" where
  "matches_artifact ev a m \<longleftrightarrow>
     ar_type a = mt_type m \<and> (mt_key m = None \<or> ar_key a = mt_key m)
     \<and> (case mt_fields m of
          None \<Rightarrow> True
        | Some fs \<Rightarrow> (is_json_object (Some (ar_payload a)) \<or> is_array (Some (ar_payload a)))
            \<and> list_all (\<lambda>(k, v). map_option (stable_text ev) (payload_property (ar_payload a) k) = Some (stable_text ev v)) fs)"

definition compare_artifacts :: "lattice_env \<Rightarrow> artifact \<Rightarrow> artifact \<Rightarrow> int" where
  "compare_artifacts ev l r =
     (if ar_published l \<noteq> ar_published r then ar_published r - ar_published l
      else if ar_version l \<noteq> ar_version r then int (ar_version r) - int (ar_version l)
      else locale_compare (le_order ev) (identity_of l) (identity_of r))"

definition select_latest :: "lattice_env \<Rightarrow> artifact list \<Rightarrow> matcher \<Rightarrow> artifact option" where
  "select_latest ev as m =
     (case sort_by (compare_artifacts ev) (filter (\<lambda>a. matches_artifact ev a m) as) of [] \<Rightarrow> None | a # _ \<Rightarrow> Some a)"

definition satisfaction :: "lattice_env \<Rightarrow> artifact list \<Rightarrow> dependency \<Rightarrow> (artifact list \<times> string) option" where
  "satisfaction ev as d =
     (let matched = List.map_filter (select_latest ev as) (dp_requires d)
      in if length matched \<noteq> length (dp_requires d) then None
         else Some (matched, join_with ''|'' (sort_by (locale_compare (le_order ev))
                (map (\<lambda>a. identity_of a @ ''@'' @ nat_digits (ar_version a)) matched))))"

section \<open>Versions\<close>

definition versions_ok :: "artifact list \<Rightarrow> bool" where
  "versions_ok as \<longleftrightarrow> (\<forall>i. map ar_version (filter (\<lambda>a. identity_of a = i) as)
     = [1..<Suc (length (filter (\<lambda>a. identity_of a = i) as))])"

lemma find_rev_last: "find P (rev xs) = (if filter P xs = [] then None else Some (last (filter P xs)))"
  by (induction xs rule: rev_induct) auto

lemma latest_version:
  assumes "versions_ok as"
  shows "(case latest_of i as of None \<Rightarrow> 0 | Some a \<Rightarrow> ar_version a) = length (filter (\<lambda>a. identity_of a = i) as)"
proof -
  let ?f = "filter (\<lambda>a. identity_of a = i) as"
  have v: "map ar_version ?f = [1..<Suc (length ?f)]" using assms unfolding versions_ok_def by blast
  show ?thesis
  proof (cases "?f = []")
    case False
    then have "ar_version (last ?f) = last (map ar_version ?f)" by (simp add: last_map)
    also have "\<dots> = length ?f" using False unfolding v by (simp add: last_upt del: upt_Suc)
    finally show ?thesis using False by (simp add: latest_of_def find_rev_last)
  qed (simp add: latest_of_def find_rev_last)
qed

lemma publish_cases:
  assumes "publish_artifact ev n as = (as1, a, new)"
  obtains "\<not> new" "as1 = as" | "new" "as1 = as @ [a]" "ar_type a = na_type n" "ar_key a = na_key n" "ar_published a = na_published n"
    "ar_version a = (case latest_of (artifact_identity (na_type n) (na_key n)) as of None \<Rightarrow> 0 | Some a \<Rightarrow> ar_version a) + 1"
  using assms by (auto simp: publish_artifact_def Let_def split: option.splits if_splits)

lemma publish_versions:
  assumes "versions_ok as" "publish_artifact ev n as = (as1, a, new)"
  shows "versions_ok as1"
  using assms(2)
proof (cases rule: publish_cases)
  case 2
  let ?f = "\<lambda>i. filter (\<lambda>a. identity_of a = i) as"
  have v: "ar_version a = Suc (length (?f (identity_of a)))" using 2 latest_version [OF assms(1)] by simp
  show ?thesis unfolding versions_ok_def
  proof
    fix i
    have "map ar_version (?f i) = [1..<Suc (length (?f i))]" using assms(1) unfolding versions_ok_def by blast
    then show "map ar_version (filter (\<lambda>a. identity_of a = i) as1) = [1..<Suc (length (filter (\<lambda>a. identity_of a = i) as1))]"
      using v by (cases "identity_of a = i") (simp_all add: 2(2))
  qed
qed (use assms in simp)

lemma select_latest_other:
  "ar_type a \<noteq> mt_type m \<Longrightarrow> select_latest ev (as @ [a]) m = select_latest ev as m"
  by (simp add: select_latest_def matches_artifact_def)

text \<open>An artifact of no required type leaves a dependency as it was.\<close>

lemma satisfaction_other:
  assumes "\<not> list_ex (\<lambda>m. mt_type m = ar_type a) (dp_requires d)"
  shows "satisfaction ev (as @ [a]) d = satisfaction ev as d"
proof -
  have "List.map_filter (select_latest ev (as @ [a])) ms = List.map_filter (select_latest ev as) ms"
    if "\<not> list_ex (\<lambda>m. mt_type m = ar_type a) ms" for ms
    using that by (induction ms) (auto simp: map_filter_simps select_latest_other split: option.split)
  then show ?thesis using assms by (simp add: satisfaction_def)
qed

end
