(* ===== verification/Event_Store.thy ===== *)
theory Event_Store
  imports Actor_Prelude
begin

text \<open>
  The in-memory journal of \<open>event-sourcing.ts\<close>: streams of versioned events with optimistic concurrency,
  and snapshots. What an event carries in \<open>metadata.data\<close> and what a snapshot holds are type parameters; a stream
  that was never written to is empty.
\<close>

section \<open>Data\<close>

record 'd base_event =
  be_type :: string
  be_time :: ms
  be_id :: string
  be_actor :: string
  be_version :: nat
  be_data :: "'d option"

record ('d, 's) event_store =
  vs_events :: "(string, 'd base_event list) omap"
  vs_snapshots :: "(string, 's \<times> nat) omap"

datatype store_error = Concurrency_conflict nat nat | Invalid_version nat nat

definition new_event_store :: "('d, 's) event_store" where
  "new_event_store = \<lparr>vs_events = [], vs_snapshots = []\<rparr>"

definition stream_of :: "('d, 's) event_store \<Rightarrow> string \<Rightarrow> 'd base_event list" where
  "stream_of st a = (case omap_get (vs_events st) a of None \<Rightarrow> [] | Some es \<Rightarrow> es)"

section \<open>Operations\<close>

text \<open>The first event whose version is not the next one.\<close>

fun version_error :: "nat \<Rightarrow> 'd base_event list \<Rightarrow> store_error option" where
  "version_error n [] = None"
| "version_error n (e # es) = (if be_version e \<noteq> n then Some (Invalid_version n (be_version e)) else version_error (Suc n) es)"

definition store_append :: "string \<Rightarrow> 'd base_event list \<Rightarrow> nat \<Rightarrow> ('d, 's) event_store \<Rightarrow> store_error + ('d, 's) event_store" where
  "store_append a es expected st =
     (let existing = stream_of st a
      in if length existing \<noteq> expected then Inl (Concurrency_conflict expected (length existing))
         else case version_error (Suc (length existing)) es of
                Some e \<Rightarrow> Inl e
              | None \<Rightarrow> Inr (st\<lparr>vs_events := omap_set a (existing @ es) (vs_events st)\<rparr>))"

definition store_events :: "string \<Rightarrow> nat \<Rightarrow> ('d, 's) event_store \<Rightarrow> 'd base_event list" where
  "store_events a from_version st = drop from_version (stream_of st a)"

definition store_events_between :: "string \<Rightarrow> ms \<Rightarrow> ms \<Rightarrow> ('d, 's) event_store \<Rightarrow> 'd base_event list" where
  "store_events_between a t0 t1 st = filter (\<lambda>e. t0 \<le> be_time e \<and> be_time e \<le> t1) (stream_of st a)"

definition store_snapshot :: "string \<Rightarrow> nat option \<Rightarrow> ('d, 's) event_store \<Rightarrow> 's option" where
  "store_snapshot a version st = (case omap_get (vs_snapshots st) a of
       None \<Rightarrow> None
     | Some (s, v) \<Rightarrow> if version \<noteq> None \<and> version \<noteq> Some v then None else Some s)"

definition store_save :: "string \<Rightarrow> 's \<Rightarrow> nat \<Rightarrow> ('d, 's) event_store \<Rightarrow> ('d, 's) event_store" where
  "store_save a s version st = st\<lparr>vs_snapshots := omap_set a (s, version) (vs_snapshots st)\<rparr>"

definition store_events_of_type :: "string \<Rightarrow> nat \<Rightarrow> ('d, 's) event_store \<Rightarrow> 'd base_event list" where
  "store_events_of_type t limit st =
     take limit (sort_key (\<lambda>e. - be_time e) (concat (map (\<lambda>(a, es). filter (\<lambda>e. be_type e = t) es) (vs_events st))))"

definition store_clear_all :: "('d, 's) event_store \<Rightarrow> ('d, 's) event_store" where
  "store_clear_all st = st\<lparr>vs_events := [], vs_snapshots := []\<rparr>"

record store_stats =
  ss_events :: nat
  ss_actors :: nat
  ss_snapshots :: nat

definition store_get_stats :: "('d, 's) event_store \<Rightarrow> store_stats" where
  "store_get_stats st = \<lparr>ss_events = sum_list (map (\<lambda>(a, es). length es) (vs_events st)),
     ss_actors = length (vs_events st), ss_snapshots = length (vs_snapshots st)\<rparr>"

section \<open>Streams are numbered\<close>

definition numbered_stream :: "'d base_event list \<Rightarrow> bool" where
  "numbered_stream es \<longleftrightarrow> map be_version es = [1..<Suc (length es)]"

lemma version_error_None: "version_error n es = None \<longleftrightarrow> map be_version es = [n..<n + length es]"
  by (induction es arbitrary: n) (auto simp: upt_rec)

lemma store_append_Inr:
  assumes "store_append a es expected st = Inr st1"
  shows "expected = length (stream_of st a)" "stream_of st1 a = stream_of st a @ es"
    "b \<noteq> a \<Longrightarrow> stream_of st1 b = stream_of st b"
  using assms by (auto simp: store_append_def stream_of_def Let_def split: if_splits option.splits)

lemma store_append_numbered:
  assumes "numbered_stream (stream_of st b)" "store_append a es expected st = Inr st1"
  shows "numbered_stream (stream_of st1 b)"
proof (cases "b = a")
  case True
  have "version_error (Suc (length (stream_of st a))) es = None"
    using assms(2) by (auto simp: store_append_def Let_def split: if_splits option.splits)
  then have "map be_version es = [Suc (length (stream_of st a))..<Suc (length (stream_of st a)) + length es]"
    by (simp only: version_error_None)
  moreover have "map be_version (stream_of st a) = [1..<Suc (length (stream_of st a))]"
    using assms(1) True by (simp only: numbered_stream_def)
  moreover have "[1..<Suc (length (stream_of st a)) + length es] =
      [1..<Suc (length (stream_of st a))] @ [Suc (length (stream_of st a))..<Suc (length (stream_of st a)) + length es]"
    by (rule upt_add_eq_append) simp
  ultimately have "map be_version (stream_of st a @ es) = [1..<Suc (length (stream_of st a)) + length es]"
    by (simp only: map_append)
  then show ?thesis unfolding numbered_stream_def True store_append_Inr(2) [OF assms(2)] by (simp only: length_append add_Suc)
next
  case False
  then show ?thesis using assms store_append_Inr(3) [OF assms(2)] by simp
qed

end
