(* ===== verification/Lattice.thy ===== *)
theory Lattice
  imports Lattice_Artifacts Event_Store
begin

text \<open>
  The lattice actor, \<open>actor-lattice/src/lattice-actor.ts\<close>: artifacts are published, dependencies registered, and each
  dependency that becomes satisfied is activated; an activation is delivered again until it is acknowledged. Every change but
  the deliveries is journaled, and a restarted actor replays its journal.
\<close>

section \<open>State\<close>

datatype activation_status = Act_pending | Act_delivered | Act_acknowledged

record activation =
  av_id :: string
  av_dep :: string
  av_actor :: string
  av_lattice :: string
  av_key :: string
  av_artifacts :: "artifact list"
  av_status :: activation_status
  av_attempts :: nat
  av_created :: ms
  av_delivered :: "ms option"
  av_timeout :: "ms option"
  av_acknowledged :: "ms option"

record lattice =
  lt_id :: string
  lt_timeout :: ms
  lt_artifacts :: "artifact list"
  lt_dependencies :: "dependency list"
  lt_activations :: "activation list"
  lt_version :: nat
  lt_delivered :: "(string, string list) omap"

definition new_lattice :: "string \<Rightarrow> ms option \<Rightarrow> lattice" where
  "new_lattice i timeout = \<lparr>lt_id = i, lt_timeout = (case timeout of None \<Rightarrow> 30000 | Some t \<Rightarrow> t), lt_artifacts = [],
     lt_dependencies = [], lt_activations = [], lt_version = 0, lt_delivered = []\<rparr>"

datatype lattice_event =
    Artifact_published artifact
  | Dependency_satisfied string string string string string "artifact list"
  | Activation_timed_out string string string string ms

datatype journal_event =
    J_published artifact
  | J_registered dependency "ms option"
  | J_withdrawn string
  | J_acknowledged string ms

datatype lattice_message =
    Publish_artifact new_artifact
  | Register_dependency dependency_request "ms option"
  | Withdraw_dependency string
  | Ack_activation string "ms option"
  | Query_artifacts artifact_query
  | Check_timeouts ms

section \<open>Activation\<close>

definition activation_id :: "string \<Rightarrow> string \<Rightarrow> string" where
  "activation_id d k = ''activation:'' @ d @ [CHR '':''] @ encode_component k"

definition delivered_keys :: "(string, string list) omap \<Rightarrow> string \<Rightarrow> string list" where
  "delivered_keys m d = (case omap_get m d of None \<Rightarrow> [] | Some ks \<Rightarrow> ks)"

definition append_delivered :: "string \<Rightarrow> string \<Rightarrow> (string, string list) omap \<Rightarrow> (string, string list) omap" where
  "append_delivered d k m =
     (if k \<in> set (delivered_keys m d) then m else omap_set d (delivered_keys m d @ [k]) m)"

definition reset_dependency :: "string \<Rightarrow> lattice \<Rightarrow> lattice" where
  "reset_dependency d s = s\<lparr>lt_activations := filter (\<lambda>a. av_dep a \<noteq> d) (lt_activations s),
     lt_delivered := omap_delete d (lt_delivered s)\<rparr>"

definition should_emit :: "lattice \<Rightarrow> dependency \<Rightarrow> string \<Rightarrow> bool" where
  "should_emit s d k = (case dp_mode d of
       Once \<Rightarrow> delivered_keys (lt_delivered s) (dp_id d) = []
     | Every_version \<Rightarrow> k \<notin> set (delivered_keys (lt_delivered s) (dp_id d)))"

definition new_activation :: "ms \<Rightarrow> dependency \<Rightarrow> artifact list \<Rightarrow> string \<Rightarrow> activation" where
  "new_activation now d as k = \<lparr>av_id = activation_id (dp_id d) k, av_dep = dp_id d, av_actor = dp_actor d,
     av_lattice = dp_lattice d, av_key = k, av_artifacts = as, av_status = Act_pending, av_attempts = 0, av_created = now,
     av_delivered = None, av_timeout = None, av_acknowledged = None\<rparr>"

definition queue_one :: "lattice_env \<Rightarrow> artifact list \<Rightarrow> ms \<Rightarrow> dependency \<Rightarrow> lattice \<Rightarrow> lattice" where
  "queue_one ev arts now d s = (case satisfaction ev arts d of
       None \<Rightarrow> s
     | Some (as, k) \<Rightarrow>
         (if \<not> should_emit s d k then s
          else (case find (\<lambda>a. av_id a = activation_id (dp_id d) k) (lt_activations s) of
                  Some a \<Rightarrow> if av_status a \<noteq> Act_acknowledged then s
                            else s\<lparr>lt_activations := lt_activations s @ [new_activation now d as k]\<rparr>
                | None \<Rightarrow> s\<lparr>lt_activations := lt_activations s @ [new_activation now d as k]\<rparr>)))"

definition queue_activations :: "lattice_env \<Rightarrow> dependency list \<Rightarrow> ms \<Rightarrow> lattice \<Rightarrow> lattice" where
  "queue_activations ev ds now s = fold (queue_one ev (lt_artifacts s) now) ds s"

definition satisfied_event :: "activation \<Rightarrow> lattice_event" where
  "satisfied_event a = Dependency_satisfied (av_id a) (av_dep a) (av_actor a) (av_lattice a) (av_key a) (av_artifacts a)"

definition pending :: "activation \<Rightarrow> bool" where
  "pending a \<longleftrightarrow> av_status a = Act_pending"

definition delivered_now :: "ms \<Rightarrow> ms \<Rightarrow> activation \<Rightarrow> activation" where
  "delivered_now now timeout a = a\<lparr>av_status := Act_delivered, av_attempts := av_attempts a + 1, av_delivered := Some now,
     av_timeout := Some (now + timeout)\<rparr>"

definition deliver_pending :: "ms \<Rightarrow> lattice \<Rightarrow> lattice \<times> lattice_event list" where
  "deliver_pending now s =
     (s\<lparr>lt_activations := map (\<lambda>a. if pending a then delivered_now now (lt_timeout s) a else a) (lt_activations s),
        lt_delivered := fold (\<lambda>a. append_delivered (av_dep a) (av_key a)) (filter pending (lt_activations s)) (lt_delivered s)\<rparr>,
      map satisfied_event (filter pending (lt_activations s)))"

definition activate :: "lattice_env \<Rightarrow> dependency list \<Rightarrow> ms \<Rightarrow> lattice \<Rightarrow> lattice \<times> lattice_event list" where
  "activate ev ds now s = deliver_pending now (queue_activations ev ds now s)"

section \<open>The journal and the messages\<close>

definition put_dependency :: "lattice_env \<Rightarrow> dependency \<Rightarrow> dependency list \<Rightarrow> dependency list" where
  "put_dependency ev d ds = sort_by (\<lambda>l r. locale_compare (le_order ev) (dependency_key ev l) (dependency_key ev r))
     (filter (\<lambda>x. dp_id x \<noteq> dp_id d) ds @ [d])"

definition impacted :: "string \<Rightarrow> dependency list \<Rightarrow> dependency list" where
  "impacted t ds = filter (\<lambda>d. list_ex (\<lambda>m. mt_type m = t) (dp_requires d)) ds"

definition acknowledge :: "string \<Rightarrow> ms \<Rightarrow> activation list \<Rightarrow> activation list" where
  "acknowledge i t as = map (\<lambda>a. if av_id a = i
     then a\<lparr>av_status := Act_acknowledged, av_acknowledged := Some t, av_timeout := None\<rparr> else a) as"

definition apply_journal :: "lattice_env \<Rightarrow> journal_event \<Rightarrow> lattice \<Rightarrow> lattice" where
  "apply_journal ev e s = (case e of
       J_published a \<Rightarrow>
         fst (activate ev (impacted (ar_type a) (lt_dependencies s)) (ar_published a)
           (s\<lparr>lt_artifacts := lt_artifacts s @ [a], lt_version := lt_version s + 1\<rparr>))
     | J_registered d t \<Rightarrow>
         fst (activate ev [d] (case t of None \<Rightarrow> 0 | Some x \<Rightarrow> x)
           (reset_dependency (dp_id d) (s\<lparr>lt_dependencies := put_dependency ev d (lt_dependencies s), lt_version := lt_version s + 1\<rparr>)))
     | J_withdrawn d \<Rightarrow>
         reset_dependency d (s\<lparr>lt_dependencies := filter (\<lambda>x. dp_id x \<noteq> d) (lt_dependencies s), lt_version := lt_version s + 1\<rparr>)
     | J_acknowledged i t \<Rightarrow> s\<lparr>lt_activations := acknowledge i t (lt_activations s), lt_version := lt_version s + 1\<rparr>)"

definition due :: "ms \<Rightarrow> activation \<Rightarrow> bool" where
  "due now a \<longleftrightarrow> av_status a = Act_delivered \<and> (case av_timeout a of None \<Rightarrow> False | Some t \<Rightarrow> t \<le> now)"

definition timed_out_event :: "ms \<Rightarrow> activation \<Rightarrow> lattice_event" where
  "timed_out_event now a = Activation_timed_out (av_id a) (av_dep a) (av_actor a) (av_lattice a) now"

definition evaluate_timeouts :: "ms \<Rightarrow> lattice \<Rightarrow> lattice \<times> lattice_event list" where
  "evaluate_timeouts now s =
     (let timed_out = filter (due now) (lt_activations s);
          acts = fold (\<lambda>a. map (\<lambda>c. if av_id c = av_id a then c\<lparr>av_status := Act_pending\<rparr> else c)) timed_out (lt_activations s);
          (s1, emit) = deliver_pending now (s\<lparr>lt_activations := acts\<rparr>)
      in (s1, map (timed_out_event now) timed_out @ emit))"

record reduction =
  rd_state :: lattice
  rd_emit :: "lattice_event list"
  rd_journal :: "journal_event list"
  rd_reply :: "artifact list option"

definition unchanged :: "lattice \<Rightarrow> reduction" where
  "unchanged s = \<lparr>rd_state = s, rd_emit = [], rd_journal = [], rd_reply = None\<rparr>"

fun reduce_lattice :: "lattice_env \<Rightarrow> lattice_message \<Rightarrow> lattice \<Rightarrow> reduction" where
  "reduce_lattice ev (Query_artifacts q) s = (unchanged s)\<lparr>rd_reply := Some (query_artifacts ev q (lt_artifacts s))\<rparr>"
| "reduce_lattice ev (Check_timeouts now) s =
     (let (s1, emit) = evaluate_timeouts now s in (unchanged s1)\<lparr>rd_emit := emit\<rparr>)"
| "reduce_lattice ev (Register_dependency r t) s =
     (let d = registered_dependency ev r; t1 = (case t of None \<Rightarrow> 0 | Some x \<Rightarrow> x);
          (s1, emit) = activate ev [d] t1
            (reset_dependency (dp_id d) (s\<lparr>lt_dependencies := put_dependency ev d (lt_dependencies s)\<rparr>))
      in \<lparr>rd_state = s1, rd_emit = emit, rd_journal = [J_registered d (Some t1)], rd_reply = None\<rparr>)"
| "reduce_lattice ev (Withdraw_dependency d) s =
     (unchanged (reset_dependency d (s\<lparr>lt_dependencies := filter (\<lambda>x. dp_id x \<noteq> d) (lt_dependencies s)\<rparr>)))\<lparr>rd_journal := [J_withdrawn d]\<rparr>"
| "reduce_lattice ev (Ack_activation i t) s =
     (case find (\<lambda>a. av_id a = i) (lt_activations s) of
        None \<Rightarrow> unchanged s
      | Some a \<Rightarrow>
          (if av_status a = Act_acknowledged then unchanged s
           else (let t1 = (case t of Some x \<Rightarrow> x | None \<Rightarrow> case av_delivered a of Some x \<Rightarrow> x | None \<Rightarrow> av_created a)
                 in (unchanged (s\<lparr>lt_activations := acknowledge i t1 (lt_activations s)\<rparr>))\<lparr>rd_journal := [J_acknowledged i t1]\<rparr>)))"
| "reduce_lattice ev (Publish_artifact n) s =
     (let (arts, a, fresh) = publish_artifact ev n (lt_artifacts s)
      in if \<not> fresh then unchanged s
         else (let (s1, emit) = activate ev (impacted (ar_type a) (lt_dependencies s)) (ar_published a) (s\<lparr>lt_artifacts := arts\<rparr>)
               in \<lparr>rd_state = s1, rd_emit = Artifact_published a # emit, rd_journal = [J_published a], rd_reply = None\<rparr>))"

section \<open>The actor\<close>

definition artifact_json :: "artifact \<Rightarrow> json" where
  "artifact_json a = JObject ([(''artifactId'', JString (ar_id a)), (''version'', JNumber (of_nat (ar_version a))),
     (''contentHash'', JString (ar_hash a)), (''type'', JString (ar_type a))] @ opt_field ''key'' (map_option JString (ar_key a))
     @ [(''payload'', ar_payload a), (''producer'', JString (ar_producer a)), (''publishedAt'', JNumber (of_int (ar_published a)))]
     @ opt_field ''metadata'' (ar_metadata a))"

definition dependency_json :: "dependency \<Rightarrow> json" where
  "dependency_json d = JObject [(''lattice'', JString (dp_lattice d)), (''requires'', JArray (map matcher_json (dp_requires d))),
     (''actorKey'', JString (dp_actor d)), (''dependencyId'', JString (dp_id d)), (''mode'', JString (mode_text (dp_mode d)))]"

fun journal_kind :: "journal_event \<Rightarrow> string" where
  "journal_kind (J_published a) = ''ARTIFACT_PUBLISHED''"
| "journal_kind (J_registered d t) = ''DEPENDENCY_REGISTERED''"
| "journal_kind (J_withdrawn d) = ''DEPENDENCY_WITHDRAWN''"
| "journal_kind (J_acknowledged i t) = ''ACTIVATION_ACKNOWLEDGED''"

fun journal_time :: "journal_event \<Rightarrow> ms" where
  "journal_time (J_published a) = ar_published a"
| "journal_time (J_registered d t) = (case t of None \<Rightarrow> 0 | Some x \<Rightarrow> x)"
| "journal_time (J_withdrawn d) = 0"
| "journal_time (J_acknowledged i t) = t"

fun journal_json :: "journal_event \<Rightarrow> json" where
  "journal_json (J_published a) = JObject [(''kind'', JString ''ARTIFACT_PUBLISHED''), (''artifact'', artifact_json a)]"
| "journal_json (J_registered d t) = JObject ([(''kind'', JString ''DEPENDENCY_REGISTERED''), (''dependency'', dependency_json d)]
     @ opt_field ''registeredAt'' (map_option (\<lambda>x. JNumber (of_int x)) t))"
| "journal_json (J_withdrawn d) = JObject [(''kind'', JString ''DEPENDENCY_WITHDRAWN''), (''dependencyId'', JString d)]"
| "journal_json (J_acknowledged i t) = JObject [(''kind'', JString ''ACTIVATION_ACKNOWLEDGED''), (''activationId'', JString i),
     (''acknowledgedAt'', JNumber (of_int t))]"

definition djb_hash :: "string \<Rightarrow> string" where
  "djb_hash s = ''a'' @ hex_text (unat (fold (\<lambda>c h :: 32 word. (h * 33) XOR of_nat (of_char c)) s 5381))"

definition to_base_event :: "lattice_env \<Rightarrow> string \<Rightarrow> nat \<Rightarrow> journal_event \<Rightarrow> journal_event base_event" where
  "to_base_event ev i version e = \<lparr>be_type = journal_kind e, be_time = journal_time e,
     be_id = i @ '':'' @ nat_digits version @ '':'' @ djb_hash (stable_text ev (journal_json e)), be_actor = i,
     be_version = version, be_data = Some e\<rparr>"

type_synonym lattice_store = "(journal_event, unit) event_store"

definition journal_append :: "lattice_env \<Rightarrow> string \<Rightarrow> journal_event list \<Rightarrow> nat \<Rightarrow> lattice_store \<Rightarrow> store_error + nat \<times> lattice_store" where
  "journal_append ev i es expected st =
     (case store_append i (map (\<lambda>(k, e). to_base_event ev i (expected + k + 1) e) (enumerate 0 es)) expected st of
        Inl err \<Rightarrow> Inl err
      | Inr st1 \<Rightarrow> Inr (expected + length es, st1))"

definition log_replay :: "string \<Rightarrow> nat \<Rightarrow> lattice_store \<Rightarrow> journal_event list" where
  "log_replay i from_version st = List.map_filter be_data (store_events i from_version st)"

definition replay_lattice :: "lattice_env \<Rightarrow> string \<Rightarrow> ms option \<Rightarrow> journal_event list \<Rightarrow> lattice" where
  "replay_lattice ev i timeout es = fold (apply_journal ev) es (new_lattice i timeout)"

text \<open>The context of the actor; \<open>la_hydrated\<close> is its membership in \<open>hydratedContexts\<close>.\<close>

record lattice_actor =
  la_context :: lattice
  la_hydrated :: bool

definition hydrate :: "lattice_env \<Rightarrow> string \<Rightarrow> ms option \<Rightarrow> lattice_store \<Rightarrow> lattice_actor \<Rightarrow> lattice" where
  "hydrate ev i timeout st c =
     (if la_hydrated c then la_context c else replay_lattice ev i timeout (log_replay i 0 st))"

text \<open>\<open>Inl\<close> where the handler throws because the journal refuses the event; the context stays as it was.\<close>

definition lattice_handle :: "lattice_env \<Rightarrow> string \<Rightarrow> ms option \<Rightarrow> ms \<Rightarrow> lattice_message \<Rightarrow> lattice_actor \<times> lattice_store
    \<Rightarrow> (store_error + lattice_event list \<times> artifact list option) \<times> lattice_actor \<times> lattice_store" where
  "lattice_handle ev i timeout now m cs =
     (let ctx = hydrate ev i timeout (snd cs) (fst cs);
          m1 = (case m of Register_dependency r None \<Rightarrow> Register_dependency r (Some now) | _ \<Rightarrow> m);
          r = reduce_lattice ev m1 ctx
      in if rd_journal r = [] then (Inr (rd_emit r, rd_reply r), \<lparr>la_context = rd_state r, la_hydrated = True\<rparr>, snd cs)
         else case journal_append ev (lt_id ctx) (rd_journal r) (lt_version ctx) (snd cs) of
                Inl err \<Rightarrow> (Inl err, fst cs, snd cs)
              | Inr (v, st1) \<Rightarrow> (Inr (rd_emit r, rd_reply r),
                  \<lparr>la_context = (rd_state r)\<lparr>lt_version := v\<rparr>, la_hydrated = True\<rparr>, st1))"

text \<open>A new or restarted actor; another actor of the same lattice writes to the same journal.\<close>

definition fresh_actor :: "string \<Rightarrow> ms option \<Rightarrow> lattice_actor" where
  "fresh_actor i timeout = \<lparr>la_context = new_lattice i timeout, la_hydrated = False\<rparr>"

datatype actor_event = Lattice_message ms lattice_message | Lattice_restart | Other_writer "journal_event list" nat

fun actor_event_step :: "lattice_env \<Rightarrow> string \<Rightarrow> ms option \<Rightarrow> actor_event \<Rightarrow> lattice_actor \<times> lattice_store \<Rightarrow> lattice_actor \<times> lattice_store" where
  "actor_event_step ev i timeout (Lattice_message now m) cs = snd (lattice_handle ev i timeout now m cs)"
| "actor_event_step ev i timeout Lattice_restart cs = (fresh_actor i timeout, snd cs)"
| "actor_event_step ev i timeout (Other_writer es v) cs =
     (case journal_append ev i es v (snd cs) of Inl err \<Rightarrow> cs | Inr (_, st) \<Rightarrow> (fst cs, st))"

definition lattice_history :: "lattice_env \<Rightarrow> string \<Rightarrow> ms option \<Rightarrow> actor_event list \<Rightarrow> lattice_actor \<times> lattice_store" where
  "lattice_history ev i timeout es = fold (actor_event_step ev i timeout) es (fresh_actor i timeout, new_event_store)"
section \<open>What activating does\<close>

lemma activation_id_inject: "activation_id d k = activation_id e l \<longleftrightarrow> d = e \<and> k = l"
proof
  assume "activation_id d k = activation_id e l"
  then have "rev (d @ [CHR '':''] @ encode_component k) = rev (e @ [CHR '':''] @ encode_component l)"
    by (simp add: activation_id_def)
  then have "rev (encode_component k) @ [CHR '':''] @ rev d = rev (encode_component l) @ [CHR '':''] @ rev e" by simp
  from colon_split [OF this] encode_component_colon have "rev (encode_component k) = rev (encode_component l) \<and> rev d = rev e"
    by simp
  then show "d = e \<and> k = l" using encode_component_inject by auto
qed simp

definition keys_of :: "lattice \<Rightarrow> string \<Rightarrow> string list" where
  "keys_of s d = map av_key (filter (\<lambda>a. av_dep a = d) (lt_activations s))"

abbreviation keys_delivered :: "lattice \<Rightarrow> string \<Rightarrow> string list" where
  "keys_delivered s d \<equiv> delivered_keys (lt_delivered s) d"

definition activation_ok :: "activation \<Rightarrow> bool" where
  "activation_ok a \<longleftrightarrow> av_id a = activation_id (av_dep a) (av_key a) \<and> \<not> pending a \<and> (av_status a = Act_delivered \<longrightarrow> av_timeout a \<noteq> None)"

definition core_ok :: "lattice \<Rightarrow> bool" where
  "core_ok s \<longleftrightarrow> (\<forall>d. keys_delivered s d = keys_of s d) \<and> distinct (map av_id (lt_activations s))
     \<and> (\<forall>a \<in> set (lt_activations s). activation_ok a \<and> av_dep a \<in> dp_id ` set (lt_dependencies s))
     \<and> distinct (map dp_id (lt_dependencies s))
     \<and> (\<forall>d \<in> set (lt_dependencies s). dp_mode d = Once \<longrightarrow> length (keys_of s (dp_id d)) \<le> 1)"

definition needs :: "lattice_env \<Rightarrow> lattice \<Rightarrow> dependency \<Rightarrow> bool" where
  "needs ev s d \<longleftrightarrow> (case satisfaction ev (lt_artifacts s) d of None \<Rightarrow> False | Some (as, k) \<Rightarrow> should_emit s d k)"

definition new_of :: "lattice_env \<Rightarrow> lattice \<Rightarrow> ms \<Rightarrow> dependency \<Rightarrow> activation" where
  "new_of ev s now d = (case satisfaction ev (lt_artifacts s) d of
       None \<Rightarrow> new_activation now d [] [] | Some (as, k) \<Rightarrow> new_activation now d as k)"

definition news :: "lattice_env \<Rightarrow> lattice \<Rightarrow> ms \<Rightarrow> dependency list \<Rightarrow> activation list" where
  "news ev s now ds = map (new_of ev s now) (filter (needs ev s) ds)"

lemma new_of_simps [simp]: "av_dep (new_of ev s now d) = dp_id d" "pending (new_of ev s now d)"
  "av_id (new_of ev s now d) = activation_id (dp_id d) (av_key (new_of ev s now d))"
  by (auto simp: new_of_def new_activation_def pending_def split: option.split)

lemma key_not_delivered: "needs ev s d \<Longrightarrow> av_key (new_of ev s now d) \<notin> set (keys_delivered s (dp_id d))"
  by (cases "dp_mode d") (auto simp: needs_def new_of_def should_emit_def new_activation_def split: option.splits)

lemma new_id_fresh:
  assumes "core_ok s" "needs ev s d" "a \<in> set (lt_activations s)"
  shows "av_id a \<noteq> av_id (new_of ev s now d)"
proof
  assume "av_id a = av_id (new_of ev s now d)"
  moreover have "av_id a = activation_id (av_dep a) (av_key a)" using assms by (auto simp: core_ok_def activation_ok_def)
  ultimately have "av_dep a = dp_id d" "av_key a = av_key (new_of ev s now d)" by (simp_all add: activation_id_inject)
  moreover have "av_key a \<in> set (keys_of s (av_dep a))" using assms(3) by (simp add: keys_of_def)
  moreover have "keys_delivered s (dp_id d) = keys_of s (dp_id d)" using assms(1) unfolding core_ok_def by blast
  ultimately have "av_key (new_of ev s now d) \<in> set (keys_delivered s (dp_id d))" by simp
  then show False using key_not_delivered [OF assms(2)] by blast
qed

lemma should_emit_cong: "lt_delivered s1 = lt_delivered s \<Longrightarrow> should_emit s1 = should_emit s"
  by (intro ext) (simp only: should_emit_def)

lemma queue_exact:
  assumes "core_ok s" "distinct (map dp_id ds)"
  shows "queue_activations ev ds now s = s\<lparr>lt_activations := lt_activations s @ news ev s now ds\<rparr>"
  using assms(2)
proof (induction ds rule: rev_induct)
  case Nil
  then show ?case by (simp add: queue_activations_def news_def)
next
  case (snoc d ds)
  let ?s = "s\<lparr>lt_activations := lt_activations s @ news ev s now ds\<rparr>"
  have q: "queue_activations ev (ds @ [d]) now s = queue_one ev (lt_artifacts s) now d ?s"
    using snoc by (simp add: queue_activations_def)
  show ?case
  proof (cases "needs ev s d")
    case True
    then obtain as k where k: "satisfaction ev (lt_artifacts s) d = Some (as, k)" "should_emit s d k"
      by (auto simp: needs_def split: option.splits)
    have n: "new_of ev s now d = new_activation now d as k" using k by (simp add: new_of_def)
    have "av_id a \<noteq> activation_id (dp_id d) k" if "a \<in> set (lt_activations ?s)" for a
    proof -
      have i: "activation_id (dp_id d) k = av_id (new_of ev s now d)" by (simp only: n) (simp add: new_activation_def)
      consider "a \<in> set (lt_activations s)" | e where "e \<in> set ds" "a = new_of ev s now e" using \<open>a \<in> _\<close> by (auto simp: news_def)
      then show ?thesis
      proof cases
        case 1 then show ?thesis using new_id_fresh [OF assms(1) True] unfolding i by blast
      next
        case 2 then show ?thesis using snoc.prems unfolding i by (auto simp: activation_id_inject image_iff)
      qed
    qed
    then have f: "find (\<lambda>a. av_id a = activation_id (dp_id d) k) (lt_activations s @ news ev s now ds) = None"
      unfolding find_None_iff by auto
    have "should_emit ?s = should_emit s" by (rule should_emit_cong) simp
    then have "should_emit ?s d k" using k(2) by simp
    moreover have "news ev s now (ds @ [d]) = news ev s now ds @ [new_activation now d as k]" using True n by (simp add: news_def)
    ultimately show ?thesis unfolding q queue_one_def by (simp add: k f)
  next
    case False
    then have "satisfaction ev (lt_artifacts s) d = None \<or> (\<exists>as k. satisfaction ev (lt_artifacts s) d = Some (as, k) \<and> \<not> should_emit s d k)"
      by (auto simp: needs_def split: option.splits)
    moreover have "should_emit ?s = should_emit s" by (rule should_emit_cong) simp
    ultimately show ?thesis using False unfolding q queue_one_def by (auto simp: news_def)
  qed
qed

lemma map_if_none: "filter P xs = [] \<Longrightarrow> map (\<lambda>a. if P a then f a else a) xs = xs"
  by (induction xs) (auto split: if_splits)

lemma core_no_pending: "core_ok s \<Longrightarrow> filter pending (lt_activations s) = []"
  by (auto simp: core_ok_def activation_ok_def filter_empty_conv)

text \<open>Activating appends one delivered activation for each dependency in need, and nothing else.\<close>

lemma activate_exact:
  assumes "core_ok s" "distinct (map dp_id ds)"
  shows "activate ev ds now s =
    (s\<lparr>lt_activations := lt_activations s @ map (delivered_now now (lt_timeout s)) (news ev s now ds),
       lt_delivered := fold (\<lambda>a. append_delivered (av_dep a) (av_key a)) (news ev s now ds) (lt_delivered s)\<rparr>,
     map satisfied_event (news ev s now ds))"
proof -
  have p: "filter pending (news ev s now ds) = news ev s now ds" by (auto simp: news_def filter_id_conv)
  then have m: "map (\<lambda>a. if pending a then f a else a) (news ev s now ds) = map f (news ev s now ds)" for f
    by (simp add: filter_id_conv)
  show ?thesis unfolding activate_def queue_exact [OF assms] deliver_pending_def
    by (simp add: core_no_pending [OF assms(1)] p m map_if_none)
qed

lemma append_delivered_keys:
  "delivered_keys (append_delivered d k m) e =
    (if e = d \<and> k \<notin> set (delivered_keys m d) then delivered_keys m d @ [k] else delivered_keys m e)"
  by (auto simp: append_delivered_def delivered_keys_def)

lemma fold_delivered_keys:
  assumes "distinct (map av_dep P)" "\<And>a. a \<in> set P \<Longrightarrow> av_key a \<notin> set (delivered_keys m (av_dep a))"
  shows "delivered_keys (fold (\<lambda>a. append_delivered (av_dep a) (av_key a)) P m) d
    = delivered_keys m d @ map av_key (filter (\<lambda>a. av_dep a = d) P)"
  using assms
proof (induction P arbitrary: m)
  case (Cons a P)
  let ?m = "append_delivered (av_dep a) (av_key a) m"
  have "delivered_keys (fold (\<lambda>a. append_delivered (av_dep a) (av_key a)) P ?m) d
      = delivered_keys ?m d @ map av_key (filter (\<lambda>a. av_dep a = d) P)"
    using Cons.prems by (intro Cons.IH) (auto simp: append_delivered_keys image_iff)
  moreover have "filter (\<lambda>b. av_dep b = av_dep a) P = []" using Cons.prems(1) by (auto simp: filter_empty_conv image_iff)
  ultimately show ?case using Cons.prems(2) [of a] by (auto simp: append_delivered_keys)
qed simp

lemma news_delivered:
  assumes "core_ok s" "distinct (map dp_id ds)"
  shows "delivered_keys (fold (\<lambda>a. append_delivered (av_dep a) (av_key a)) (news ev s now ds) (lt_delivered s)) d
    = keys_delivered s d @ map av_key (filter (\<lambda>a. av_dep a = d) (news ev s now ds))"
proof (rule fold_delivered_keys)
  show "distinct (map av_dep (news ev s now ds))"
    using assms(2) by (induction ds) (auto simp: news_def)
qed (auto simp: news_def key_not_delivered)

lemma news_of_id:
  assumes "distinct (map dp_id ds)" "d \<in> set ds"
  shows "filter (\<lambda>a. av_dep a = dp_id d) (news ev s now ds) = (if needs ev s d then [new_of ev s now d] else [])"
proof -
  have "filter (\<lambda>e. dp_id e = dp_id d) ds = [d]" using assms by (induction ds) (auto simp: filter_empty_conv image_iff)
  moreover have "filter (\<lambda>a. av_dep a = i) (news ev s now ds) = map (new_of ev s now) (filter (needs ev s) (filter (\<lambda>e. dp_id e = i) ds))" for i
    by (induction ds) (auto simp: news_def)
  ultimately show ?thesis by (simp del: filter_filter)
qed
section \<open>Every operation keeps the books\<close>

definition covered :: "lattice_env \<Rightarrow> lattice \<Rightarrow> dependency \<Rightarrow> bool" where
  "covered ev s d \<longleftrightarrow> (case satisfaction ev (lt_artifacts s) d of
       None \<Rightarrow> True
     | Some (as, k) \<Rightarrow> (case dp_mode d of Once \<Rightarrow> keys_delivered s (dp_id d) \<noteq> [] | Every_version \<Rightarrow> k \<in> set (keys_delivered s (dp_id d))))"

definition lattice_ok :: "lattice_env \<Rightarrow> lattice \<Rightarrow> bool" where
  "lattice_ok ev s \<longleftrightarrow> core_ok s \<and> list_all (covered ev s) (lt_dependencies s)"

lemma covered_cong:
  assumes "lt_artifacts s1 = lt_artifacts s" "keys_delivered s1 (dp_id d) = keys_delivered s (dp_id d)"
  shows "covered ev s1 d = covered ev s d"
  unfolding covered_def assms ..

lemma covered_needs: "covered ev s d \<longleftrightarrow> \<not> needs ev s d"
  by (cases "dp_mode d") (auto simp: covered_def needs_def should_emit_def split: option.split)

lemma delivered_now_simps [simp]: "av_dep (delivered_now now t a) = av_dep a" "av_key (delivered_now now t a) = av_key a"
  "av_id (delivered_now now t a) = av_id a" "\<not> pending (delivered_now now t a)" "av_timeout (delivered_now now t a) = Some (now + t)"
  by (simp_all add: delivered_now_def pending_def)

lemma activated_keys_delivered:
  assumes core: "core_ok s" and ds: "distinct (map dp_id ds)"
  shows "keys_delivered (fst (activate ev ds now s)) d = keys_delivered s d @ map av_key (filter (\<lambda>a. av_dep a = d) (news ev s now ds))"
  unfolding activate_exact [OF core ds] by (simp add: news_delivered [OF core ds])

lemma activated_keys:
  assumes core: "core_ok s" and ds: "distinct (map dp_id ds)"
  shows "keys_of (fst (activate ev ds now s)) d = keys_of s d @ map av_key (filter (\<lambda>a. av_dep a = d) (news ev s now ds))"
  unfolding activate_exact [OF core ds] by (simp add: keys_of_def filter_map comp_def)

lemma news_ids_distinct: "distinct (map dp_id ds) \<Longrightarrow> distinct (map av_id (news ev s now ds))"
  by (induction ds) (auto simp: news_def activation_id_inject image_iff)

lemma activate_core:
  assumes core: "core_ok s" and ds: "distinct (map dp_id ds)" and sub: "set ds \<subseteq> set (lt_dependencies s)"
  shows "core_ok (fst (activate ev ds now s))"
proof -
  let ?s = "fst (activate ev ds now s)" and ?n = "news ev s now ds"
  have acts: "lt_activations ?s = lt_activations s @ map (delivered_now now (lt_timeout s)) ?n"
    and same: "lt_dependencies ?s = lt_dependencies s" "lt_artifacts ?s = lt_artifacts s"
    unfolding activate_exact [OF core ds] by simp_all
  have "\<forall>d. keys_delivered ?s d = keys_of ?s d"
    using core unfolding activated_keys_delivered [OF core ds] activated_keys [OF core ds] core_ok_def by simp
  moreover have "distinct (map av_id (lt_activations ?s))"
  proof -
    have "av_id a \<noteq> av_id b" if "a \<in> set (lt_activations s)" "b \<in> set ?n" for a b
    proof -
      obtain d where "b = new_of ev s now d" "needs ev s d" using \<open>b \<in> _\<close> by (auto simp: news_def)
      then show ?thesis using new_id_fresh [OF core _ \<open>a \<in> _\<close>] by blast
    qed
    then have "set (map av_id (lt_activations s)) \<inter> set (map av_id ?n) = {}" by (auto simp: image_iff)
    moreover have "map av_id (lt_activations ?s) = map av_id (lt_activations s) @ map av_id ?n" by (simp add: acts comp_def)
    ultimately show ?thesis using core news_ids_distinct [OF ds] by (simp only: distinct_append) (simp add: core_ok_def)
  qed
  moreover have "activation_ok a \<and> av_dep a \<in> dp_id ` set (lt_dependencies ?s)" if "a \<in> set (lt_activations ?s)" for a
  proof -
    have "a \<in> set (lt_activations s) \<or> a \<in> delivered_now now (lt_timeout s) ` set ?n" using that by (simp add: acts)
    then show ?thesis
    proof
      assume "a \<in> set (lt_activations s)" then show ?thesis using core unfolding same core_ok_def by blast
    next
      assume "a \<in> delivered_now now (lt_timeout s) ` set ?n"
      then obtain b where "b \<in> set ?n" and a: "a = delivered_now now (lt_timeout s) b" by blast
      then obtain d where "d \<in> set ds" "b = new_of ev s now d" by (auto simp: news_def)
      then show ?thesis using sub by (auto simp: activation_ok_def same a)
    qed
  qed
  moreover have "length (keys_of ?s (dp_id d)) \<le> 1" if "d \<in> set (lt_dependencies ?s)" "dp_mode d = Once" for d
  proof (cases "d \<in> set ds")
    case True
    have "length (keys_of s (dp_id d)) \<le> 1" "keys_delivered s (dp_id d) = keys_of s (dp_id d)"
      using core that unfolding same core_ok_def by blast+
    moreover have "needs ev s d \<Longrightarrow> keys_delivered s (dp_id d) = []"
      using that(2) by (auto simp: needs_def should_emit_def split: option.splits)
    ultimately show ?thesis unfolding activated_keys [OF core ds] news_of_id [OF ds True] by auto
  next
    case False
    have "distinct (map dp_id (lt_dependencies s))" using core by (simp add: core_ok_def)
    then have "dp_id e \<noteq> dp_id d" if "e \<in> set ds" for e
      using that False \<open>d \<in> _\<close> sub unfolding same by (metis distinct_map inj_onD subsetD)
    then have "filter (\<lambda>a. av_dep a = dp_id d) ?n = []" by (auto simp: news_def filter_empty_conv)
    then show ?thesis using core that unfolding activated_keys [OF core ds] same core_ok_def by simp
  qed
  ultimately show ?thesis using core unfolding core_ok_def same by blast
qed

lemma activate_covers:
  assumes core: "core_ok s" and ds: "distinct (map dp_id ds)" and sub: "set ds \<subseteq> set (lt_dependencies s)" and d: "d \<in> set ds"
  shows "covered ev (fst (activate ev ds now s)) d"
proof -
  let ?s = "fst (activate ev ds now s)"
  have a: "lt_artifacts ?s = lt_artifacts s" unfolding activate_exact [OF core ds] by simp
  show ?thesis
  proof (cases "needs ev s d")
    case False
    then have "keys_delivered ?s (dp_id d) = keys_delivered s (dp_id d)"
      unfolding activated_keys_delivered [OF core ds] news_of_id [OF ds d] by simp
    from covered_cong [OF a this] show ?thesis using False by (simp add: covered_needs)
  next
    case True
    then have "keys_delivered ?s (dp_id d) = keys_delivered s (dp_id d) @ [av_key (new_of ev s now d)]"
      unfolding activated_keys_delivered [OF core ds] news_of_id [OF ds d] by simp
    then show ?thesis using True
      by (cases "dp_mode d") (auto simp: covered_def a needs_def new_of_def new_activation_def split: option.splits)
  qed
qed

lemma activate_covers_other:
  assumes core: "core_ok s" and ds: "distinct (map dp_id ds)" and sub: "set ds \<subseteq> set (lt_dependencies s)"
    and dep: "d \<in> set (lt_dependencies s)" and cov: "covered ev s d"
  shows "covered ev (fst (activate ev ds now s)) d"
proof (cases "d \<in> set ds")
  case False
  have "distinct (map dp_id (lt_dependencies s))" using core by (simp add: core_ok_def)
  then have "dp_id e \<noteq> dp_id d" if "e \<in> set ds" for e
    using that False dep sub by (metis distinct_map inj_onD subsetD)
  then have "filter (\<lambda>a. av_dep a = dp_id d) (news ev s now ds) = []" by (auto simp: news_def filter_empty_conv)
  then have "keys_delivered (fst (activate ev ds now s)) (dp_id d) = keys_delivered s (dp_id d)"
    unfolding activated_keys_delivered [OF core ds] by simp
  moreover have "lt_artifacts (fst (activate ev ds now s)) = lt_artifacts s" unfolding activate_exact [OF core ds] by simp
  ultimately have "covered ev (fst (activate ev ds now s)) d = covered ev s d" by (intro covered_cong)
  then show ?thesis using cov by simp
qed (rule activate_covers [OF core ds sub])

lemma activate_ok:
  assumes "core_ok s" "distinct (map dp_id ds)" "set ds \<subseteq> set (lt_dependencies s)"
    "\<And>d. d \<in> set (lt_dependencies s) \<Longrightarrow> d \<notin> set ds \<Longrightarrow> covered ev s d"
  shows "lattice_ok ev (fst (activate ev ds now s))"
proof -
  have "lt_dependencies (fst (activate ev ds now s)) = lt_dependencies s" unfolding activate_exact [OF assms(1,2)] by simp
  moreover have "covered ev (fst (activate ev ds now s)) d" if d: "d \<in> set (lt_dependencies s)" for d
    using activate_covers [OF assms(1-3), of d] activate_covers_other [OF assms(1-3) d] assms(4) [OF d] by blast
  ultimately show ?thesis using activate_core [OF assms(1-3)] by (simp add: lattice_ok_def list_all_iff)
qed
section \<open>Timeouts, resets, acknowledgements\<close>

lemma fold_to_pending:
  "fold (\<lambda>a. map (\<lambda>c. if av_id c = av_id a then c\<lparr>av_status := Act_pending\<rparr> else c)) L as
    = map (\<lambda>c. if av_id c \<in> av_id ` set L then c\<lparr>av_status := Act_pending\<rparr> else c) as"
  by (induction L arbitrary: as) auto

lemma append_delivered_old: "k \<in> set (delivered_keys m d) \<Longrightarrow> append_delivered d k m = m"
  by (simp add: append_delivered_def)

text \<open>A check delivers again exactly the activations that are due.\<close>

lemma timeouts_exact:
  assumes "core_ok s"
  shows "evaluate_timeouts now s =
    (s\<lparr>lt_activations := map (\<lambda>a. if due now a then delivered_now now (lt_timeout s) a else a) (lt_activations s)\<rparr>,
     map (timed_out_event now) (filter (due now) (lt_activations s)) @ map satisfied_event (filter (due now) (lt_activations s)))"
proof -
  let ?as = "lt_activations s" and ?p = "\<lambda>c. c\<lparr>av_status := Act_pending\<rparr>"
  have dist: "distinct (map av_id ?as)" and ok: "\<And>a. a \<in> set ?as \<Longrightarrow> activation_ok a"
    using assms by (auto simp: core_ok_def)
  have "av_id c \<in> av_id ` set (filter (due now) ?as) \<longleftrightarrow> due now c" if "c \<in> set ?as" for c
    using dist that by (auto simp: distinct_map dest: inj_onD)
  then have acts: "fold (\<lambda>a. map (\<lambda>c. if av_id c = av_id a then ?p c else c)) (filter (due now) ?as) ?as
      = map (\<lambda>c. if due now c then ?p c else c) ?as"
    unfolding fold_to_pending by (intro map_cong refl) simp
  have np: "\<not> pending a" if "a \<in> set ?as" for a using ok [OF that] by (simp add: activation_ok_def)
  have pp: "pending (?p c)" for c by (simp add: pending_def)
  have flt: "filter pending (map (\<lambda>c. if due now c then ?p c else c) xs) = map ?p (filter (due now) xs)"
    if "set xs \<subseteq> set ?as" for xs using that by (induction xs) (auto simp: pp np)
  have dn: "delivered_now now t (?p c) = delivered_now now t c" for t c by (simp add: delivered_now_def)
  have mp: "map (\<lambda>a. if pending a then delivered_now now t a else a) (map (\<lambda>c. if due now c then ?p c else c) xs)
      = map (\<lambda>a. if due now a then delivered_now now t a else a) xs" if "set xs \<subseteq> set ?as" for t xs
    using that by (induction xs) (auto simp: pp np dn)
  have key: "av_key a \<in> set (keys_delivered s (av_dep a))" if "a \<in> set ?as" for a
    using assms that by (simp add: core_ok_def keys_of_def)
  have del: "fold (\<lambda>a. append_delivered (av_dep a) (av_key a)) (map ?p xs) (lt_delivered s) = lt_delivered s"
    if "set xs \<subseteq> set ?as" for xs using that by (induction xs) (simp_all add: append_delivered_old key)
  have ev: "satisfied_event (?p c) = satisfied_event c" for c by (simp add: satisfied_event_def)
  show ?thesis
    unfolding evaluate_timeouts_def deliver_pending_def acts Let_def
    by (simp add: flt [OF subset_refl] mp [OF subset_refl] del [OF filter_is_subset] comp_def ev del: map_map)
      (simp add: comp_def ev)
qed

lemma core_map:
  assumes "core_ok s" "\<And>a. av_id (f a) = av_id a \<and> av_dep (f a) = av_dep a \<and> av_key (f a) = av_key a"
    "\<And>a. activation_ok a \<Longrightarrow> activation_ok (f a)" "lt_activations s1 = map f (lt_activations s)"
    "lt_dependencies s1 = lt_dependencies s" "lt_delivered s1 = lt_delivered s"
  shows "core_ok s1"
proof -
  have "keys_of s1 d = keys_of s d" for d using assms(2) by (simp add: keys_of_def assms(4) filter_map comp_def)
  moreover have "map av_id (lt_activations s1) = map av_id (lt_activations s)" using assms(2) by (simp add: assms(4))
  moreover have "activation_ok a \<and> av_dep a \<in> dp_id ` set (lt_dependencies s)" if "a \<in> set (lt_activations s1)" for a
    using that assms(1-3) unfolding core_ok_def assms(4) by auto
  ultimately show ?thesis using assms(1) unfolding core_ok_def assms(5,6) by simp
qed

lemma lattice_ok_map:
  assumes "lattice_ok ev s" "\<And>a. av_id (f a) = av_id a \<and> av_dep (f a) = av_dep a \<and> av_key (f a) = av_key a"
    "\<And>a. activation_ok a \<Longrightarrow> activation_ok (f a)" "lt_activations s1 = map f (lt_activations s)"
    "lt_dependencies s1 = lt_dependencies s" "lt_delivered s1 = lt_delivered s" "lt_artifacts s1 = lt_artifacts s"
  shows "lattice_ok ev s1"
proof -
  have "covered ev s1 d = covered ev s d" for d by (rule covered_cong) (simp_all add: assms(6,7))
  then show ?thesis using core_map [OF _ assms(2-6)] assms(1,5) by (simp add: lattice_ok_def list_all_iff)
qed

lemma acknowledge_ok: "lattice_ok ev s \<Longrightarrow> lattice_ok ev (s\<lparr>lt_activations := acknowledge i t (lt_activations s), lt_version := v\<rparr>)"
  by (rule lattice_ok_map [where f = "\<lambda>a. if av_id a = i then a\<lparr>av_status := Act_acknowledged, av_acknowledged := Some t, av_timeout := None\<rparr> else a"])
    (simp_all add: acknowledge_def activation_ok_def pending_def)

lemma timeouts_ok: "lattice_ok ev s \<Longrightarrow> lattice_ok ev (fst (evaluate_timeouts now s))"
  by (rule lattice_ok_map [where f = "\<lambda>a. if due now a then delivered_now now (lt_timeout s) a else a"])
    (simp_all add: lattice_ok_def timeouts_exact activation_ok_def)

lemma version_ok: "lattice_ok ev s \<Longrightarrow> lattice_ok ev (s\<lparr>lt_version := v\<rparr>)"
  by (rule lattice_ok_map [where f = "\<lambda>a. a"]) simp_all

lemma keys_delivered_reset: "keys_delivered (reset_dependency d s) e = (if e = d then [] else keys_delivered s e)"
  by (simp add: reset_dependency_def delivered_keys_def)

lemma keys_of_reset: "keys_of (reset_dependency d s) e = (if e = d then [] else keys_of s e)"
proof (cases "e = d")
  case False
  then have "filter (\<lambda>a. av_dep a = e) (filter (\<lambda>a. av_dep a \<noteq> d) as) = filter (\<lambda>a. av_dep a = e) as" for as :: "activation list"
    by (induction as) auto
  then show ?thesis using False by (simp add: reset_dependency_def keys_of_def del: filter_filter)
qed (simp add: reset_dependency_def keys_of_def filter_empty_conv)

lemma insert_by_distinct: "distinct (map f (insert_by cmp x ys)) = distinct (map f (x # ys))"
  by (induction ys) auto

lemma sort_by_distinct: "distinct (map f (sort_by cmp xs)) = distinct (map f xs)"
proof (induction xs)
  case (Cons x xs)
  have "set (map f (sort_by cmp xs)) = set (map f xs)" by simp
  moreover have "distinct (map f (sort_by cmp (x # xs))) = distinct (map f (x # sort_by cmp xs))"
    unfolding sort_by_def foldr.simps comp_def by (rule insert_by_distinct)
  ultimately show ?case using Cons by (simp del: set_map)
qed (simp add: sort_by_def)

lemma put_dependency_set: "set (put_dependency ev d ds) = insert d {e \<in> set ds. dp_id e \<noteq> dp_id d}"
  by (auto simp: put_dependency_def)

lemma put_dependency_distinct: "distinct (map dp_id ds) \<Longrightarrow> distinct (map dp_id (put_dependency ev d ds))"
  by (simp add: put_dependency_def sort_by_distinct distinct_map_filter) (auto simp: image_iff)

text \<open>Forgetting what is known of an id whose dependency is replaced or removed.\<close>

lemma reset_core:
  assumes "core_ok s" "distinct (map dp_id ds)" "{e \<in> set ds. dp_id e \<noteq> d} = {e \<in> set (lt_dependencies s). dp_id e \<noteq> d}"
  shows "core_ok (reset_dependency d (s\<lparr>lt_dependencies := ds, lt_version := v\<rparr>))"
proof -
  let ?s = "s\<lparr>lt_dependencies := ds, lt_version := v\<rparr>" and ?r = "reset_dependency d (s\<lparr>lt_dependencies := ds, lt_version := v\<rparr>)"
  have acts: "lt_activations ?r = filter (\<lambda>a. av_dep a \<noteq> d) (lt_activations s)" and deps: "lt_dependencies ?r = ds"
    by (simp_all add: reset_dependency_def)
  have ko: "keys_of ?s e = keys_of s e" for e by (simp add: keys_of_def)
  have "\<forall>e. keys_delivered ?r e = keys_of ?r e"
    using assms(1) unfolding keys_delivered_reset keys_of_reset ko core_ok_def by simp
  moreover have "distinct (map av_id (lt_activations ?r))" using assms(1) unfolding acts core_ok_def by (simp add: distinct_map_filter)
  moreover have "activation_ok a \<and> av_dep a \<in> dp_id ` set ds" if "a \<in> set (lt_activations ?r)" for a
  proof -
    have a: "a \<in> set (lt_activations s)" "av_dep a \<noteq> d" using that unfolding acts by simp_all
    then obtain e where e: "e \<in> set (lt_dependencies s)" "av_dep a = dp_id e" "activation_ok a"
      using assms(1) unfolding core_ok_def by blast
    then have "e \<in> {e \<in> set ds. dp_id e \<noteq> d}" using a(2) assms(3) by simp
    then show ?thesis using e by blast
  qed
  moreover have "length (keys_of ?r (dp_id e)) \<le> 1" if "e \<in> set ds" "dp_mode e = Once" for e
  proof (cases "dp_id e = d")
    case False
    then have "e \<in> set (lt_dependencies s)" using that(1) assms(3) by blast
    then show ?thesis using assms(1) that(2) False unfolding keys_of_reset ko core_ok_def by simp
  qed (simp add: keys_of_reset)
  ultimately show ?thesis using assms(2) unfolding core_ok_def deps by blast
qed

lemma reset_covered: "covered ev s e \<Longrightarrow> dp_id e \<noteq> d \<Longrightarrow> covered ev (reset_dependency d (s\<lparr>lt_dependencies := ds, lt_version := v\<rparr>)) e"
proof -
  assume a: "covered ev s e" "dp_id e \<noteq> d"
  have "covered ev (reset_dependency d (s\<lparr>lt_dependencies := ds, lt_version := v\<rparr>)) e = covered ev s e"
    by (rule covered_cong) (simp_all add: keys_delivered_reset a(2), simp add: reset_dependency_def)
  then show ?thesis using a(1) by simp
qed
section \<open>Messages and journal events keep the lattice in order\<close>

lemma impacted_set: "set (impacted t ds) \<subseteq> set ds" by (auto simp: impacted_def)

lemma impacted_distinct: "distinct (map dp_id ds) \<Longrightarrow> distinct (map dp_id (impacted t ds))"
  by (simp add: impacted_def distinct_map_filter)

lemma publish_ok:
  assumes "lattice_ok ev s"
  shows "lattice_ok ev (fst (activate ev (impacted (ar_type a) (lt_dependencies s)) now
    (s\<lparr>lt_artifacts := lt_artifacts s @ [a], lt_version := v\<rparr>)))"
proof (rule activate_ok)
  let ?s = "s\<lparr>lt_artifacts := lt_artifacts s @ [a], lt_version := v\<rparr>"
  have core: "core_ok s" and cov: "\<And>d. d \<in> set (lt_dependencies s) \<Longrightarrow> covered ev s d"
    using assms by (auto simp: lattice_ok_def list_all_iff)
  show "core_ok ?s" by (rule core_map [OF core, where f = "\<lambda>a. a"]) simp_all
  show "distinct (map dp_id (impacted (ar_type a) (lt_dependencies s)))" using core by (simp add: core_ok_def impacted_distinct)
  show "set (impacted (ar_type a) (lt_dependencies s)) \<subseteq> set (lt_dependencies ?s)" using impacted_set by simp
  fix d assume d: "d \<in> set (lt_dependencies ?s)" "d \<notin> set (impacted (ar_type a) (lt_dependencies s))"
  then have sat: "satisfaction ev (lt_artifacts s @ [a]) d = satisfaction ev (lt_artifacts s) d"
    by (intro satisfaction_other) (simp add: impacted_def)
  have eq: "lt_artifacts ?s = lt_artifacts s @ [a]" "lt_delivered ?s = lt_delivered s" by simp_all
  have "covered ev s d" using cov d(1) by simp
  then show "covered ev ?s d" unfolding covered_def eq sat .
qed

lemma register_ok:
  assumes "lattice_ok ev s"
  shows "lattice_ok ev (fst (activate ev [d] now
    (reset_dependency (dp_id d) (s\<lparr>lt_dependencies := put_dependency ev d (lt_dependencies s), lt_version := v\<rparr>))))"
proof (rule activate_ok)
  let ?ds = "put_dependency ev d (lt_dependencies s)"
  let ?s = "reset_dependency (dp_id d) (s\<lparr>lt_dependencies := ?ds, lt_version := v\<rparr>)"
  have core: "core_ok s" and cov: "\<And>d. d \<in> set (lt_dependencies s) \<Longrightarrow> covered ev s d"
    using assms by (auto simp: lattice_ok_def list_all_iff)
  show "core_ok ?s" by (rule reset_core [OF core]) (use core in \<open>auto simp: core_ok_def put_dependency_distinct put_dependency_set\<close>)
  show "set [d] \<subseteq> set (lt_dependencies ?s)" by (simp add: reset_dependency_def put_dependency_set)
  fix e assume "e \<in> set (lt_dependencies ?s)" "e \<notin> set [d]"
  then have "e \<in> set (lt_dependencies s)" "dp_id e \<noteq> dp_id d" by (auto simp: reset_dependency_def put_dependency_set)
  then show "covered ev ?s e" by (intro reset_covered cov)
qed simp

lemma withdraw_ok:
  assumes "lattice_ok ev s"
  shows "lattice_ok ev (reset_dependency d (s\<lparr>lt_dependencies := filter (\<lambda>x. dp_id x \<noteq> d) (lt_dependencies s), lt_version := v\<rparr>))"
proof -
  let ?ds = "filter (\<lambda>x. dp_id x \<noteq> d) (lt_dependencies s)"
  let ?s = "reset_dependency d (s\<lparr>lt_dependencies := ?ds, lt_version := v\<rparr>)"
  have core: "core_ok s" and cov: "\<And>d. d \<in> set (lt_dependencies s) \<Longrightarrow> covered ev s d"
    using assms by (auto simp: lattice_ok_def list_all_iff)
  have "core_ok ?s" by (rule reset_core [OF core]) (use core in \<open>auto simp: core_ok_def distinct_map_filter\<close>)
  moreover have "covered ev ?s e" if "e \<in> set ?ds" for e using that by (intro reset_covered cov) simp_all
  ultimately show ?thesis by (simp add: lattice_ok_def list_all_iff) (simp add: reset_dependency_def)
qed

lemma apply_journal_ok: "lattice_ok ev s \<Longrightarrow> lattice_ok ev (apply_journal ev e s)"
  by (cases e) (simp_all add: apply_journal_def publish_ok register_ok withdraw_ok acknowledge_ok)

lemma version_same: "s\<lparr>lt_version := lt_version s\<rparr> = s" by simp

lemma reduce_ok: "lattice_ok ev s \<Longrightarrow> lattice_ok ev (rd_state (reduce_lattice ev m s))"
proof -
  assume ok: "lattice_ok ev s"
  show ?thesis
  proof (cases m)
    case (Publish_artifact n)
    obtain arts a fresh where p: "publish_artifact ev n (lt_artifacts s) = (arts, a, fresh)" by (cases "publish_artifact ev n (lt_artifacts s)")
    from p show ?thesis
    proof (cases rule: publish_cases)
      case 2
      have "s\<lparr>lt_artifacts := arts\<rparr> = s\<lparr>lt_artifacts := lt_artifacts s @ [a], lt_version := lt_version s\<rparr>" by (simp add: 2(2))
      then show ?thesis using publish_ok [OF ok, of a "ar_published a" "lt_version s"] 2(1)
        by (simp add: Publish_artifact p split_beta Let_def)
    qed (use ok in \<open>simp add: Publish_artifact p unchanged_def\<close>)
  next
    case (Register_dependency r t)
    then show ?thesis using register_ok [OF ok, of "registered_dependency ev r" "case t of None \<Rightarrow> 0 | Some x \<Rightarrow> x" "lt_version s"]
      by (simp add: split_beta Let_def)
  next
    case (Withdraw_dependency d)
    then show ?thesis using withdraw_ok [OF ok, of d "lt_version s"] by (simp add: unchanged_def)
  next
    case (Ack_activation i t)
    have "lattice_ok ev (s\<lparr>lt_activations := acknowledge i x (lt_activations s)\<rparr>)" for x
      using acknowledge_ok [OF ok, where i = i and t = x and v = "lt_version s"] by simp
    then show ?thesis using ok by (simp add: Ack_activation unchanged_def Let_def split: option.split)
  next
    case (Check_timeouts now)
    then show ?thesis using timeouts_ok [OF ok, of now] by (simp add: unchanged_def split_beta)
  qed (use ok in \<open>simp add: unchanged_def\<close>)
qed

lemma new_lattice_ok: "lattice_ok ev (new_lattice i timeout)"
  by (simp add: lattice_ok_def core_ok_def new_lattice_def keys_of_def delivered_keys_def)

lemma replay_ok: "lattice_ok ev (replay_lattice ev i timeout es)"
proof -
  have "lattice_ok ev s \<Longrightarrow> lattice_ok ev (fold (apply_journal ev) es s)" for s
    by (induction es arbitrary: s) (simp_all add: apply_journal_ok)
  then show ?thesis by (simp add: replay_lattice_def new_lattice_ok)
qed

section \<open>What a replay recovers\<close>

text \<open>A replay does not know how often and when an activation was delivered.\<close>

definition erase :: "activation \<Rightarrow> activation" where
  "erase a = a\<lparr>av_attempts := 0, av_delivered := None, av_timeout := None\<rparr>"

definition books :: "lattice \<Rightarrow> lattice" where
  "books s = s\<lparr>lt_activations := map erase (lt_activations s)\<rparr>"

lemma books_iff: "books s = books t \<longleftrightarrow> lt_id s = lt_id t \<and> lt_timeout s = lt_timeout t \<and> lt_artifacts s = lt_artifacts t
    \<and> lt_dependencies s = lt_dependencies t \<and> map erase (lt_activations s) = map erase (lt_activations t)
    \<and> lt_version s = lt_version t \<and> lt_delivered s = lt_delivered t"
  by (cases s; cases t) (auto simp: books_def)

lemma news_cong:
  assumes "lt_artifacts s = lt_artifacts t" "lt_delivered s = lt_delivered t"
  shows "news ev s now ds = news ev t now ds"
proof -
  have "needs ev s = needs ev t" unfolding needs_def should_emit_def assms ..
  moreover have "new_of ev s now = new_of ev t now" unfolding new_of_def assms ..
  ultimately show ?thesis by (simp add: news_def)
qed

lemma books_activate:
  assumes "core_ok s" "core_ok t" "distinct (map dp_id ds)" "books s = books t"
  shows "books (fst (activate ev ds now s)) = books (fst (activate ev ds now t))"
proof -
  note b = assms(4) [unfolded books_iff]
  have "news ev s now ds = news ev t now ds" by (rule news_cong) (use b in simp_all)
  then show ?thesis unfolding books_iff activate_exact [OF assms(1,3)] activate_exact [OF assms(2,3)] using b by simp
qed

lemma core_cong:
  "core_ok s \<Longrightarrow> lt_activations s1 = lt_activations s \<Longrightarrow> lt_dependencies s1 = lt_dependencies s \<Longrightarrow> lt_delivered s1 = lt_delivered s
    \<Longrightarrow> core_ok s1"
  by (rule core_map [where f = "\<lambda>a. a"]) simp_all

lemma activate_version:
  assumes "core_ok s" "distinct (map dp_id ds)"
  shows "fst (activate ev ds now (s\<lparr>lt_version := v\<rparr>)) = (fst (activate ev ds now s))\<lparr>lt_version := v\<rparr>"
proof -
  have c: "core_ok (s\<lparr>lt_version := v\<rparr>)" by (rule core_cong [OF assms(1)]) simp_all
  have n: "news ev (s\<lparr>lt_version := v\<rparr>) now ds = news ev s now ds" by (rule news_cong) simp_all
  show ?thesis unfolding activate_exact [OF assms] activate_exact [OF c assms(2)] n by simp
qed

lemma erase_delivered: "av_status a = Act_delivered \<Longrightarrow> erase (delivered_now now t a) = erase a"
  by (simp add: erase_def delivered_now_def)

lemma books_timeouts: "core_ok s \<Longrightarrow> books (fst (evaluate_timeouts now s)) = books s"
  by (simp add: books_iff timeouts_exact) (auto simp: due_def erase_delivered)

lemma erase_acknowledge: "map erase (acknowledge i t as) = acknowledge i t (map erase as)"
  by (induction as) (auto simp: acknowledge_def erase_def)

lemma books_reset: "books s = books t \<Longrightarrow> books (reset_dependency d s) = books (reset_dependency d t)"
proof -
  have "map erase (filter (\<lambda>a. av_dep a \<noteq> d) as) = filter (\<lambda>a. av_dep a \<noteq> d) (map erase as)" for as
    by (induction as) (auto simp: erase_def)
  then show "books s = books t \<Longrightarrow> ?thesis" by (simp add: books_iff reset_dependency_def)
qed
section \<open>The interface of a journal\<close>

text \<open>
  What the actor relies on: an append succeeds only at the current version, and then its events are what is replayed last.
\<close>

locale lattice_journal =
  fixes append_to :: "string \<Rightarrow> 'e list \<Rightarrow> nat \<Rightarrow> 's \<Rightarrow> 'err + nat \<times> 's"
    and replay :: "string \<Rightarrow> 's \<Rightarrow> 'e list"
    and good :: "string \<Rightarrow> 's \<Rightarrow> bool"
  assumes append_good: "good i st \<Longrightarrow> append_to i es v st = Inr (v1, st1) \<Longrightarrow>
    good i st1 \<and> v = length (replay i st) \<and> v1 = v + length es \<and> replay i st1 = replay i st @ es"
begin

lemma append_version:
  assumes "good i st" "append_to i es v st = Inr (v1, st1)"
  shows "v1 = length (replay i st1)"
  using append_good [OF assms] by simp

text \<open>Who replayed a prefix before an append still has a prefix after it.\<close>

lemma append_keeps_prefix:
  assumes "good i st" "append_to i es v st = Inr (v1, st1)" "n \<le> length (replay i st)"
  shows "n \<le> length (replay i st1) \<and> take n (replay i st1) = take n (replay i st)"
  using append_good [OF assms(1,2)] assms(3) by simp

end

definition full_stream :: "string \<Rightarrow> lattice_store \<Rightarrow> bool" where
  "full_stream i st \<longleftrightarrow> list_all (\<lambda>e. be_data e \<noteq> None) (stream_of st i)"

lemma replay_length: "list_all (\<lambda>e. be_data e \<noteq> None) es \<Longrightarrow> length (List.map_filter be_data es) = length es"
  by (induction es) (auto simp: map_filter_simps)

lemma map_filter_append: "List.map_filter f (xs @ ys) = List.map_filter f xs @ List.map_filter f ys"
  by (induction xs) (auto simp: map_filter_simps split: option.split)

lemma journal_append_Inr:
  assumes "full_stream i st" "journal_append ev i es v st = Inr (v1, st1)"
  shows "full_stream i st1 \<and> v = length (log_replay i 0 st) \<and> v1 = v + length es
    \<and> log_replay i 0 st1 = log_replay i 0 st @ es"
proof -
  let ?f = "\<lambda>(k, e). to_base_event ev i (v + k + 1) e"
  have a: "store_append i (map ?f (enumerate 0 es)) v st = Inr st1" and v1: "v1 = v + length es"
    using assms(2) by (auto simp: journal_append_def split: sum.splits)
  have data: "List.map_filter be_data (map (\<lambda>(k, e). to_base_event ev i (Suc (w + k)) e) (enumerate n es)) = es" for w n
    by (induction es arbitrary: n) (auto simp: map_filter_simps to_base_event_def)
  have full: "list_all (\<lambda>e. be_data e \<noteq> None) (map ?f (enumerate 0 es))"
    by (auto simp: list_all_iff to_base_event_def)
  have "length (log_replay i 0 st) = length (stream_of st i)"
    using assms(1) by (simp add: log_replay_def store_events_def full_stream_def replay_length)
  then show ?thesis
    using assms(1) store_append_Inr(1,2) [OF a] full v1
    by (simp add: full_stream_def log_replay_def store_events_def map_filter_append data)
qed

interpretation journal: lattice_journal "journal_append ev" "\<lambda>i. log_replay i 0" full_stream for ev
  by unfold_locales (rule journal_append_Inr)

section \<open>The live state and its journal\<close>

lemma reduce_journal:
  assumes "lattice_ok ev s" "core_ok t" "books s = books t"
  shows "case rd_journal (reduce_lattice ev m s) of
      [] \<Rightarrow> books (rd_state (reduce_lattice ev m s)) = books s
    | e # es \<Rightarrow> es = [] \<and> books (apply_journal ev e t) = books ((rd_state (reduce_lattice ev m s))\<lparr>lt_version := lt_version s + 1\<rparr>)"
proof -
  have core: "core_ok s" using assms(1) by (simp add: lattice_ok_def)
  note b = assms(3) [unfolded books_iff]
  show ?thesis
  proof (cases m)
    case (Publish_artifact n)
    obtain arts a fresh where p: "publish_artifact ev n (lt_artifacts s) = (arts, a, fresh)" by (cases "publish_artifact ev n (lt_artifacts s)")
    let ?ds = "impacted (ar_type a) (lt_dependencies s)"
    have ds: "distinct (map dp_id ?ds)" using core by (simp add: core_ok_def impacted_distinct)
    from p show ?thesis
    proof (cases rule: publish_cases)
      case 2
      let ?s = "s\<lparr>lt_artifacts := lt_artifacts s @ [a]\<rparr>" and ?t = "t\<lparr>lt_artifacts := lt_artifacts t @ [a], lt_version := lt_version t + 1\<rparr>"
      have cs: "core_ok ?s" "core_ok (?s\<lparr>lt_version := lt_version s + 1\<rparr>)" "core_ok ?t"
        by (rule core_cong [OF core] core_cong [OF assms(2)]; simp)+
      have "books (fst (activate ev ?ds (ar_published a) ?t)) = books (fst (activate ev ?ds (ar_published a) (?s\<lparr>lt_version := lt_version s + 1\<rparr>)))"
        using b by (intro books_activate cs ds) (simp add: books_iff)
      moreover have "reduce_lattice ev m s = \<lparr>rd_state = fst (activate ev ?ds (ar_published a) ?s),
          rd_emit = Artifact_published a # snd (activate ev ?ds (ar_published a) ?s), rd_journal = [J_published a], rd_reply = None\<rparr>"
        using 2(1,2) by (simp add: Publish_artifact p split_beta Let_def)
      ultimately show ?thesis using b unfolding activate_version [OF cs(1) ds] by (simp add: apply_journal_def)
    qed (simp add: Publish_artifact p unchanged_def)
  next
    case (Register_dependency r t0)
    let ?d = "registered_dependency ev r" and ?now = "case t0 of None \<Rightarrow> 0 | Some x \<Rightarrow> x"
    let ?u = "\<lambda>x v. reset_dependency (dp_id ?d) (x\<lparr>lt_dependencies := put_dependency ev ?d (lt_dependencies x), lt_version := v\<rparr>)"
    have c: "core_ok (?u x v)" if "core_ok x" for x v
      by (rule reset_core [OF that]) (use that in \<open>auto simp: core_ok_def put_dependency_distinct put_dependency_set\<close>)
    have d1: "distinct (map dp_id [?d])" by simp
    have "books (?u t (lt_version t + 1)) = books (?u s (lt_version s + 1))"
      using b by (intro books_reset) (simp add: books_iff)
    then have "books (fst (activate ev [?d] ?now (?u t (lt_version t + 1)))) = books (fst (activate ev [?d] ?now (?u s (lt_version s + 1))))"
      by (intro books_activate c core assms(2) d1)
    moreover have "?u s (lt_version s + 1) = (?u s (lt_version s))\<lparr>lt_version := lt_version s + 1\<rparr>" by (simp add: reset_dependency_def)
    ultimately have "books (fst (activate ev [?d] ?now (?u t (lt_version t + 1))))
        = books ((fst (activate ev [?d] ?now (?u s (lt_version s))))\<lparr>lt_version := lt_version s + 1\<rparr>)"
      by (simp only: activate_version [OF c [OF core] d1])
    then show ?thesis by (simp add: Register_dependency split_beta Let_def apply_journal_def)
  next
    case (Withdraw_dependency d)
    have "books (reset_dependency d (t\<lparr>lt_dependencies := filter (\<lambda>x. dp_id x \<noteq> d) (lt_dependencies t), lt_version := lt_version t + 1\<rparr>))
        = books (reset_dependency d (s\<lparr>lt_dependencies := filter (\<lambda>x. dp_id x \<noteq> d) (lt_dependencies s), lt_version := lt_version s + 1\<rparr>))"
      using b by (intro books_reset) (simp add: books_iff)
    also have "\<dots> = books ((reset_dependency d (s\<lparr>lt_dependencies := filter (\<lambda>x. dp_id x \<noteq> d) (lt_dependencies s)\<rparr>))\<lparr>lt_version := lt_version s + 1\<rparr>)"
      by (simp add: books_iff reset_dependency_def)
    finally show ?thesis by (simp add: Withdraw_dependency unchanged_def apply_journal_def)
  next
    case (Ack_activation i t0)
    have "books (t\<lparr>lt_activations := acknowledge i x (lt_activations t), lt_version := lt_version t + 1\<rparr>)
        = books (s\<lparr>lt_activations := acknowledge i x (lt_activations s), lt_version := lt_version s + 1\<rparr>)" for x
      using b by (simp add: books_iff erase_acknowledge)
    then show ?thesis by (simp add: Ack_activation unchanged_def apply_journal_def Let_def split: option.split)
  next
    case (Check_timeouts now)
    then show ?thesis using books_timeouts [OF core] by (simp add: unchanged_def split_beta)
  qed (simp add: unchanged_def)
qed

lemma replay_snoc: "replay_lattice ev i timeout (es @ [e]) = apply_journal ev e (replay_lattice ev i timeout es)"
  by (simp add: replay_lattice_def)

lemma activate_fields:
  "lt_id (fst (activate ev ds now s)) = lt_id s" "lt_version (fst (activate ev ds now s)) = lt_version s"
proof -
  have q: "lt_id (fold (queue_one ev arts now) ds s) = lt_id s \<and> lt_version (fold (queue_one ev arts now) ds s) = lt_version s" for arts
    by (induction ds arbitrary: s) (simp_all add: queue_one_def split: option.split)
  show "lt_id (fst (activate ev ds now s)) = lt_id s" "lt_version (fst (activate ev ds now s)) = lt_version s"
    using q by (simp_all add: activate_def deliver_pending_def queue_activations_def)
qed

lemma apply_journal_fields: "lt_id (apply_journal ev e s) = lt_id s" "lt_version (apply_journal ev e s) = lt_version s + 1"
  by (cases e; simp add: apply_journal_def activate_fields reset_dependency_def)+

lemma replay_fields: "lt_id (replay_lattice ev i timeout es) = i" "lt_version (replay_lattice ev i timeout es) = length es"
  by (induction es rule: rev_induct)
    (simp_all add: replay_snoc apply_journal_fields, simp_all add: replay_lattice_def new_lattice_def)

lemma books_fields: "books s = books t \<Longrightarrow> lt_id s = lt_id t \<and> lt_version s = lt_version t"
  by (simp add: books_iff)

definition actor_inv :: "lattice_env \<Rightarrow> string \<Rightarrow> ms option \<Rightarrow> lattice_actor \<times> lattice_store \<Rightarrow> bool" where
  "actor_inv ev i timeout cs \<longleftrightarrow> full_stream i (snd cs) \<and>
     (let s = la_context (fst cs); es = log_replay i 0 (snd cs)
      in if la_hydrated (fst cs)
         then lt_version s \<le> length es \<and> books s = books (replay_lattice ev i timeout (take (lt_version s) es)) \<and> lattice_ok ev s
         else s = new_lattice i timeout)"

lemma hydrated_state:
  assumes "actor_inv ev i timeout cs"
  defines "s \<equiv> hydrate ev i timeout (snd cs) (fst cs)" and "es \<equiv> log_replay i 0 (snd cs)"
  shows "lt_version s \<le> length es" "books s = books (replay_lattice ev i timeout (take (lt_version s) es))" "lattice_ok ev s" "lt_id s = i"
proof -
  show a: "lt_version s \<le> length es" "books s = books (replay_lattice ev i timeout (take (lt_version s) es))" "lattice_ok ev s"
    using assms(1) unfolding s_def es_def by (auto simp: actor_inv_def hydrate_def Let_def replay_fields replay_ok)
  show "lt_id s = i" using books_fields [OF a(2)] by (simp add: replay_fields)
qed

lemma handle_inv:
  assumes inv: "actor_inv ev i timeout cs"
  shows "actor_inv ev i timeout (snd (lattice_handle ev i timeout now m cs))"
proof -
  define s where "s = hydrate ev i timeout (snd cs) (fst cs)"
  define es where "es = log_replay i 0 (snd cs)"
  define r where "r = reduce_lattice ev (case m of Register_dependency x None \<Rightarrow> Register_dependency x (Some now) | _ \<Rightarrow> m) s"
  note h = hydrated_state [OF inv, folded s_def es_def]
  let ?t = "replay_lattice ev i timeout (take (lt_version s) es)"
  have full: "full_stream i (snd cs)" using inv by (simp add: actor_inv_def)
  have rok: "lattice_ok ev (rd_state r)" unfolding r_def by (rule reduce_ok [OF h(3)])
  have core: "core_ok ?t" using replay_ok by (simp add: lattice_ok_def)
  note rj = reduce_journal [OF h(3) core h(2), of "case m of Register_dependency x None \<Rightarrow> Register_dependency x (Some now) | _ \<Rightarrow> m", folded r_def]
  have res: "lattice_handle ev i timeout now m cs =
      (if rd_journal r = [] then (Inr (rd_emit r, rd_reply r), \<lparr>la_context = rd_state r, la_hydrated = True\<rparr>, snd cs)
       else case journal_append ev (lt_id s) (rd_journal r) (lt_version s) (snd cs) of
              Inl err \<Rightarrow> (Inl err, fst cs, snd cs)
            | Inr (v, st1) \<Rightarrow> (Inr (rd_emit r, rd_reply r), \<lparr>la_context = (rd_state r)\<lparr>lt_version := v\<rparr>, la_hydrated = True\<rparr>, st1))"
    unfolding lattice_handle_def Let_def s_def r_def ..
  show ?thesis
  proof (cases "rd_journal r")
    case Nil
    then have b: "books (rd_state r) = books s" using rj by simp
    then have v: "lt_version (rd_state r) = lt_version s" by (simp add: books_iff)
    show ?thesis using h(1,2) full rok by (simp add: res Nil actor_inv_def b v es_def)
  next
    case (Cons e js)
    then have js: "js = []" and bk: "books (apply_journal ev e ?t) = books ((rd_state r)\<lparr>lt_version := lt_version s + 1\<rparr>)"
      using rj by simp_all
    show ?thesis
    proof (cases "journal_append ev (lt_id s) (rd_journal r) (lt_version s) (snd cs)")
      case (Inl err)
      then show ?thesis using inv by (simp add: res Cons)
    next
      case (Inr x)
      obtain v st1 where x: "x = (v, st1)" by (cases x)
      have a: "journal_append ev i [e] (lt_version s) (snd cs) = Inr (v, st1)" using Inr by (simp add: x h(4) Cons js)
      note ap = journal.append_good [OF full a, folded es_def]
      have "take (lt_version s) es = es" using ap by simp
      then have "books ((rd_state r)\<lparr>lt_version := v\<rparr>) = books (replay_lattice ev i timeout (es @ [e]))"
        using bk ap by (simp add: replay_snoc)
      moreover have "lattice_ok ev ((rd_state r)\<lparr>lt_version := v\<rparr>)" by (rule version_ok [OF rok])
      ultimately show ?thesis using ap Inr by (simp add: res Cons x actor_inv_def)
    qed
  qed
qed

lemma actor_step_inv: "actor_inv ev i timeout cs \<Longrightarrow> actor_inv ev i timeout (actor_event_step ev i timeout e cs)"
proof -
  assume inv: "actor_inv ev i timeout cs"
  show ?thesis
  proof (cases e)
    case (Lattice_message now m)
    then show ?thesis using handle_inv [OF inv] by simp
  next
    case Lattice_restart
    then show ?thesis using inv by (simp add: actor_inv_def fresh_actor_def)
  next
    case (Other_writer es v)
    have full: "full_stream i (snd cs)" using inv by (simp add: actor_inv_def)
    show ?thesis
    proof (cases "journal_append ev i es v (snd cs)")
      case (Inr x)
      obtain v1 st1 where x: "x = (v1, st1)" by (cases x)
      note a = Inr [unfolded x]
      have "full_stream i st1" using journal.append_good [OF full a] by blast
      moreover have "n \<le> length (log_replay i 0 (snd cs)) \<Longrightarrow> n \<le> length (log_replay i 0 st1)
          \<and> take n (log_replay i 0 st1) = take n (log_replay i 0 (snd cs))" for n
        by (rule journal.append_keeps_prefix [OF full a])
      ultimately show ?thesis using inv by (auto simp: Other_writer Inr x actor_inv_def Let_def)
    qed (use inv in \<open>simp add: Other_writer\<close>)
  qed
qed

lemma history_inv: "actor_inv ev i timeout (lattice_history ev i timeout es)"
proof -
  have "actor_inv ev i timeout cs \<Longrightarrow> actor_inv ev i timeout (fold (actor_event_step ev i timeout) es cs)" for cs
    by (induction es arbitrary: cs) (simp_all add: actor_step_inv)
  moreover have "actor_inv ev i timeout (fresh_actor i timeout, new_event_store)"
    by (simp add: actor_inv_def fresh_actor_def new_event_store_def full_stream_def stream_of_def)
  ultimately show ?thesis by (simp add: lattice_history_def)
qed
section \<open>Properties\<close>

text \<open>
  C6. Crash recovery by replay. After any history of messages, refused appends, restarts and appends of other actors of the same
  lattice, the context of a running lattice actor is what replaying the journal up to its version gives, except how often and when
  activations were delivered; an actor that has not handled a message since its start has the initial context. In
  particular a restart loses no artifact, dependency, delivered key or acknowledgement that was journaled.
\<close>

theorem lattice_recovers:
  "case lattice_history ev i timeout es of (c, st) \<Rightarrow>
     if la_hydrated c
     then lt_version (la_context c) \<le> length (log_replay i 0 st)
       \<and> books (la_context c) = books (replay_lattice ev i timeout (take (lt_version (la_context c)) (log_replay i 0 st)))
     else la_context c = new_lattice i timeout"
  using history_inv [of ev i timeout es]
  by (cases "lattice_history ev i timeout es") (simp add: actor_inv_def Let_def split: if_splits)

lemma history_ok: "lattice_ok ev (la_context (fst (lattice_history ev i timeout es)))"
  using history_inv [of ev i timeout es] new_lattice_ok [of ev i timeout]
  by (simp add: actor_inv_def Let_def split: if_splits)


text \<open>
  Redelivery until acknowledged. Every activation that is not acknowledged has a time at which it is due again; a check at time
  \<open>now\<close> reports and delivers again exactly the activations due by then, schedules each for \<open>timeoutMs\<close> later and leaves
  all others alone, so no unacknowledged activation is forgotten and no acknowledged one is delivered again.
\<close>

theorem unacknowledged_delivered_again:
  "let s = la_context (fst (lattice_history ev i timeout es));
       overdue = filter (\<lambda>a. av_status a \<noteq> Act_acknowledged \<and> the (av_timeout a) \<le> now) (lt_activations s)
   in list_all (\<lambda>a. case av_timeout a of None \<Rightarrow> av_status a = Act_acknowledged | Some t \<Rightarrow> True) (lt_activations s)
      \<and> rd_emit (reduce_lattice ev (Check_timeouts now) s)
          = map (timed_out_event now) overdue @ map satisfied_event overdue
      \<and> lt_activations (rd_state (reduce_lattice ev (Check_timeouts now) s))
          = map (\<lambda>a. if a \<in> set overdue then delivered_now now (lt_timeout s) a else a) (lt_activations s)"
proof -
  let ?s = "la_context (fst (lattice_history ev i timeout es))"
  have core: "core_ok ?s" using history_ok by (simp add: lattice_ok_def)
  have st: "av_status a = Act_delivered \<and> av_timeout a \<noteq> None \<or> av_status a = Act_acknowledged" if "a \<in> set (lt_activations ?s)" for a
    using core that by (cases "av_status a") (auto simp: core_ok_def activation_ok_def pending_def)
  have due: "due now a \<longleftrightarrow> av_status a \<noteq> Act_acknowledged \<and> the (av_timeout a) \<le> now" if "a \<in> set (lt_activations ?s)" for a
    using st [OF that] by (auto simp: due_def)
  have od: "filter (due now) (lt_activations ?s)
      = filter (\<lambda>a. av_status a \<noteq> Act_acknowledged \<and> the (av_timeout a) \<le> now) (lt_activations ?s)"
    by (rule filter_cong [OF refl due])
  have "list_all (\<lambda>a. case av_timeout a of None \<Rightarrow> av_status a = Act_acknowledged | Some t \<Rightarrow> True) (lt_activations ?s)"
    using st unfolding list_all_iff by (force split: option.split)
  then show ?thesis using due
    by (simp add: Let_def unchanged_def split_beta timeouts_exact [OF core] od)
qed
text \<open>Registering a dependency again activates it again, though it was activated and acknowledged before.\<close>

lemma registration_activates_again:
  assumes "core_ok s" "satisfaction ev (lt_artifacts s) (registered_dependency ev r) = Some (as, k)"
  shows "rd_emit (reduce_lattice ev (Register_dependency r t) s)
    = [satisfied_event (new_activation (case t of None \<Rightarrow> 0 | Some x \<Rightarrow> x) (registered_dependency ev r) as k)]"
proof -
  let ?d = "registered_dependency ev r" and ?now = "case t of None \<Rightarrow> 0 | Some x \<Rightarrow> x"
  let ?s = "reset_dependency (dp_id ?d) (s\<lparr>lt_dependencies := put_dependency ev ?d (lt_dependencies s), lt_version := lt_version s\<rparr>)"
  have c: "core_ok ?s"
    by (rule reset_core [OF assms(1)]) (use assms(1) in \<open>auto simp: core_ok_def put_dependency_distinct put_dependency_set\<close>)
  have a: "lt_artifacts ?s = lt_artifacts s" by (simp add: reset_dependency_def)
  have "keys_delivered ?s (dp_id ?d) = []" by (simp add: keys_delivered_reset)
  then have "should_emit ?s ?d k" unfolding should_emit_def by (simp split: dependency_mode.split)
  then have n: "needs ev ?s ?d" and no: "new_of ev ?s ?now ?d = new_activation ?now ?d as k"
    unfolding needs_def new_of_def a assms(2) by simp_all
  have "news ev ?s ?now [?d] = [new_activation ?now ?d as k]" unfolding news_def using n no by simp
  then have "snd (activate ev [?d] ?now ?s) = [satisfied_event (new_activation ?now ?d as k)]"
    using activate_exact [OF c, of "[?d]" ev ?now] by simp
  then show ?thesis by (simp add: split_beta Let_def)
qed

end
