(* ===== verification/Runtime_Projection.thy ===== *)
theory Runtime_Projection
  imports Json_Values
begin

text \<open>
  What of an actor is shown to other nodes, \<open>runtime-projection.ts\<close>: snapshots and events as plain data, and
  back again. Rendering numbers and parsing dates are arguments. The flags \<open>matches\<close>, \<open>can\<close> and \<open>hasTag\<close> of a snapshot are
  functions of the text asked for.
\<close>

section \<open>Data\<close>

record actor_snapshot =
  sn_value :: "json option"
  sn_context :: json
  sn_status :: string
  sn_matches :: "string \<Rightarrow> bool"
  sn_can :: bool
  sn_has_tag :: "string \<Rightarrow> bool"

record runtime_snapshot =
  rn_actor :: string
  rn_status :: string
  rn_label :: string
  rn_created :: string
  rn_updated :: string
  rn_correlation :: string
  rn_last_event :: "string option"

record transition_record =
  tr_from_state :: string
  tr_to_state :: string
  tr_from_status :: string
  tr_to_status :: string

record runtime_projection =
  rp_snapshot :: runtime_snapshot
  rp_value :: "json option"
  rp_context :: json

datatype event_kind = Command_event | Fact_event | Timer_event

record event_envelope =
  en_id :: string
  en_kind :: event_kind
  en_type :: string
  en_version :: nat
  en_occurred :: string
  en_source :: string
  en_target :: "string option"
  en_correlation :: "string option"
  en_causation :: "string option"
  en_payload :: "(string \<times> json) list"

record envelope_options =
  eo_id :: string
  eo_kind :: event_kind
  eo_occurred :: string
  eo_source :: string
  eo_target :: "string option"
  eo_correlation :: "string option"
  eo_causation :: "string option"

record snapshot_input =
  si_snapshot :: actor_snapshot
  si_actor :: string
  si_created :: string
  si_updated :: string
  si_correlation :: string
  si_label :: "string option"
  si_status :: "string option"
  si_last_event :: "string option"

record transition_input =
  ti_from :: actor_snapshot
  ti_to :: actor_snapshot
  ti_from_state :: "string option"
  ti_to_state :: "string option"
  ti_from_status :: "string option"
  ti_to_status :: "string option"

abbreviation default_to :: "'a option \<Rightarrow> 'a \<Rightarrow> 'a" where        \<comment> \<open>\<open>a ?? b\<close>\<close>
  "default_to x y \<equiv> (case x of None \<Rightarrow> y | Some v \<Rightarrow> v)"

section \<open>Events\<close>

definition envelope_fields :: "string list" where
  "envelope_fields = [''type'', ''_timestamp'', ''_version'', ''_correlationId'', ''_sender'']"

text \<open>A message is its entries, in order.\<close>

definition event_payload :: "(string \<times> json) list \<Rightarrow> (string \<times> json) list" where
  "event_payload m = filter (\<lambda>(k, v). k \<notin> set envelope_fields) m"

definition message_text :: "(string \<times> json) list \<Rightarrow> string \<Rightarrow> string option" where
  "message_text m k = text_value (map_of m k)"

definition event_envelope_of :: "(string \<times> json) list \<Rightarrow> envelope_options \<Rightarrow> event_envelope" where
  "event_envelope_of m opts =
     (let correlation = (case message_text m ''_correlationId'' of None \<Rightarrow> eo_correlation opts | Some c \<Rightarrow> Some c)
      in \<lparr>en_id = eo_id opts, en_kind = eo_kind opts, en_type = default_to (message_text m ''type'') [], en_version = 1,
          en_occurred = eo_occurred opts, en_source = eo_source opts, en_target = eo_target opts, en_correlation = correlation,
          en_causation = eo_causation opts, en_payload = event_payload m\<rparr>)"

text \<open>\<open>date\<close> is \<open>Date.parse\<close>, \<open>None\<close> for \<open>NaN\<close>.\<close>

definition event_message :: "(string \<Rightarrow> rat option) \<Rightarrow> event_envelope \<Rightarrow> (string \<times> json) list" where
  "event_message date e =
     with_fields ([(''_timestamp'', JNumber (default_to (date (en_occurred e)) 0)), (''_version'', JString (nat_digits (en_version e)))]
         @ (case en_correlation e of None \<Rightarrow> [] | Some c \<Rightarrow> [(''_correlationId'', JString c)]))
       (with_fields (en_payload e) [(''type'', JString (en_type e))])"

section \<open>Snapshots\<close>

definition join_dots :: "string list \<Rightarrow> string" where
  "join_dots xs = (case xs of [] \<Rightarrow> [] | x # ys \<Rightarrow> foldl (\<lambda>s y. s @ ''.'' @ y) x ys)"

fun state_label :: "(rat \<Rightarrow> string) \<Rightarrow> json \<Rightarrow> string" where
  "state_label num (JString s) = s"
| "state_label num (JNumber r) = num r"
| "state_label num (JBool b) = (if b then ''true'' else ''false'')"
| "state_label num JNull = ''unknown''"
| "state_label num (JArray xs) = (if xs = [] then ''array'' else join_dots (map (state_label num) xs))"
| "state_label num (JObject fs) = (if fs = [] then ''object'' else join_dots (map (\<lambda>f. fst f @ ''.'' @ state_label num (snd f)) fs))"

definition label_of :: "(rat \<Rightarrow> string) \<Rightarrow> json option \<Rightarrow> string" where
  "label_of num v = (case v of None \<Rightarrow> ''unknown'' | Some j \<Rightarrow> state_label num j)"

definition runtime_snapshot_of :: "(rat \<Rightarrow> string) \<Rightarrow> snapshot_input \<Rightarrow> runtime_snapshot" where
  "runtime_snapshot_of num i =
     \<lparr>rn_actor = si_actor i, rn_status = default_to (si_status i) (sn_status (si_snapshot i)),
      rn_label = default_to (si_label i) (label_of num (sn_value (si_snapshot i))), rn_created = si_created i,
      rn_updated = si_updated i, rn_correlation = si_correlation i, rn_last_event = si_last_event i\<rparr>"

definition transition_of :: "(rat \<Rightarrow> string) \<Rightarrow> transition_input \<Rightarrow> transition_record" where
  "transition_of num i =
     \<lparr>tr_from_state = default_to (ti_from_state i) (label_of num (sn_value (ti_from i))),
      tr_to_state = default_to (ti_to_state i) (label_of num (sn_value (ti_to i))),
      tr_from_status = default_to (ti_from_status i) (sn_status (ti_from i)),
      tr_to_status = default_to (ti_to_status i) (sn_status (ti_to i))\<rparr>"

definition actor_snapshot_of :: "(rat \<Rightarrow> string) \<Rightarrow> runtime_projection \<Rightarrow> actor_snapshot" where
  "actor_snapshot_of num p =
     (let status = rn_status (rp_snapshot p); lbl = rn_label (rp_snapshot p)
      in \<lparr>sn_value = rp_value p, sn_context = rp_context p, sn_status = status,
          sn_matches = (\<lambda>st. st = lbl \<or> st = label_of num (rp_value p)), sn_can = (status = ''running''), sn_has_tag = (\<lambda>_. False)\<rparr>)"

section \<open>There and back\<close>

lemma map_of_rev_distinct: "distinct (map fst fs) \<Longrightarrow> map_of (rev fs) = map_of fs"
proof (induction fs)
  case (Cons f fs)
  then have "map_of fs (fst f) = None" by (simp add: map_of_eq_None_iff)
  then show ?case using Cons by (cases f) (auto simp: fun_eq_iff map_add_def split: option.split)
qed simp

lemma with_fields_distinct: "distinct (map fst fs) \<Longrightarrow> map_of (with_fields fs base) k =
    (case map_of fs k of None \<Rightarrow> map_of base k | Some v \<Rightarrow> Some v)"
  by (simp add: with_fields_get map_of_rev_distinct)

lemma payload_get: "map_of (event_payload m) k = (if k \<in> set envelope_fields then None else map_of m k)"
proof -
  have "map_of (filter (\<lambda>(k, v). P k) m) k = (if P k then map_of m k else None)" for P
    by (induction m) (auto split: prod.split)
  from this [of "\<lambda>k. k \<notin> set envelope_fields"] show ?thesis by (simp add: event_payload_def)
qed

text \<open>
  A message that was published as an event and comes back as a message on another node has its type and all entries of its
  data as they were, no sender, version "1", the time parsed from its envelope, and its correlation id, or the one of the
  envelope where it had none.\<close>

theorem event_crosses_nodes:
  assumes "distinct (map fst m)" "message_text m ''type'' = Some t"
  shows "map_of (event_message date (event_envelope_of m opts)) k =
    (if k = ''_timestamp'' then Some (JNumber (default_to (date (eo_occurred opts)) 0))
     else if k = ''_version'' then Some (JString ''1'')
     else if k = ''_correlationId'' then
       map_option JString (case message_text m ''_correlationId'' of None \<Rightarrow> eo_correlation opts | Some c \<Rightarrow> Some c)
     else if k = ''_sender'' then None
     else map_of m k)"
proof -
  have t: "map_of m ''type'' = Some (JString t)" using assms(2) by (auto simp: message_text_def elim: text_value.elims)
  have d: "distinct (map fst (event_payload m))" using assms(1) by (simp add: event_payload_def distinct_map_filter)
  have p: "map_of (with_fields (event_payload m) [(''type'', JString t)]) k =
      (if k = ''type'' then Some (JString t) else if k \<in> set envelope_fields then None else map_of m k)" for k
    by (simp add: with_fields_distinct [OF d] payload_get envelope_fields_def split: option.split)
  have one: "nat_digits (Suc 0) = ''1''" by code_simp
  define c where "c = (case message_text m ''_correlationId'' of None \<Rightarrow> eo_correlation opts | Some c \<Rightarrow> Some c)"
  show ?thesis
    unfolding c_def [symmetric]
    by (cases c) (simp_all add: event_message_def event_envelope_of_def with_fields_distinct assms(2) p t one envelope_fields_def c_def [symmetric])
qed

lemma event_crosses_nodes_witness:
  "map_of (event_message (\<lambda>_. Some 5) (event_envelope_of
      [(''type'', JString ''Paid''), (''amount'', JNumber 7), (''_sender'', JNull), (''_correlationId'', JString ''c1'')]
      \<lparr>eo_id = ''e1'', eo_kind = Fact_event, eo_occurred = ''now'', eo_source = ''a'', eo_target = None, eo_correlation = None, eo_causation = None\<rparr>))
    ''amount'' = Some (JNumber 7)"
  using event_crosses_nodes [of "[(''type'', JString ''Paid''), (''amount'', JNumber 7), (''_sender'', JNull), (''_correlationId'', JString ''c1'')]" "''Paid''"
    "\<lambda>_. Some 5" "\<lparr>eo_id = ''e1'', eo_kind = Fact_event, eo_occurred = ''now'', eo_source = ''a'', eo_target = None, eo_correlation = None, eo_causation = None\<rparr>" "''amount''"]
  by (simp add: message_text_def)

text \<open>A snapshot shown to another node: the projection a publisher sends, and what a watcher makes of it.\<close>

definition projected :: "(rat \<Rightarrow> string) \<Rightarrow> snapshot_input \<Rightarrow> runtime_projection" where
  "projected num i = \<lparr>rp_snapshot = runtime_snapshot_of num i, rp_value = sn_value (si_snapshot i), rp_context = sn_context (si_snapshot i)\<rparr>"

lemma snapshot_crosses_nodes:
  assumes "si_status i = None" "si_label i = None"
  shows "(let s = si_snapshot i; r = actor_snapshot_of num (projected num i)
    in sn_value r = sn_value s \<and> sn_context r = sn_context s \<and> sn_status r = sn_status s
     \<and> sn_matches r = (\<lambda>st. st = label_of num (sn_value s)) \<and> sn_can r = (sn_status s = ''running'') \<and> sn_has_tag r = (\<lambda>_. False))"
  using assms by (simp add: projected_def actor_snapshot_of_def runtime_snapshot_of_def Let_def)

text \<open>
  The label of a nested state names its whole path, so that a remote \<open>matches\<close> knows only the full path, where
  a machine's own also knows the parents.\<close>

lemma nested_state_label: "state_label num (JObject [(a, JString b)]) = a @ ''.'' @ b"
  by (simp add: join_dots_def)

end
