(* ===== verification/Remote_Projection.thy ===== *)
theory Remote_Projection
  imports Runtime_Projection
begin

text \<open>
  Snapshots and events of actors on other nodes, \<open>actor-system-impl.ts\<close>: a publisher counts what it sends of each actor and knows
  the nodes that asked for it; a watcher on another node keeps the last snapshot, the last number and how well it follows.
  Between two nodes messages arrive in order or the connection is lost with what is under way. Times and lags are left out.
\<close>

section \<open>Status\<close>

datatype transport_state = Local | Connected | Replaying | Degraded | Disconnected

record transport_status =
  pt_state :: transport_state
  pt_last :: "nat option"
  pt_reason :: "string option"

definition transport_status_of :: "transport_state \<Rightarrow> nat option \<Rightarrow> string option \<Rightarrow> transport_status" where
  "transport_status_of st n r = \<lparr>pt_state = st, pt_last = n, pt_reason = r\<rparr>"

section \<open>The publisher\<close>

record projection_state =
  ps_created :: string
  ps_updated :: string
  ps_correlation :: string
  ps_last_event :: "string option"
  ps_sequence :: nat

record snapshot_projection =
  sp_address :: string
  sp_data :: runtime_projection
  sp_sequence :: nat
  sp_transition :: "transition_record option"

record event_projection =
  ep_address :: string
  ep_envelope :: event_envelope
  ep_sequence :: nat

datatype protocol_message =
    Snapshot_subscribe string | Snapshot_unsubscribe string | Event_subscribe string | Event_unsubscribe string
  | Fetch_request nat string | Fetch_response nat snapshot_projection
  | Snapshot_update snapshot_projection | Event_update event_projection

record publisher =
  pu_states :: "(string, projection_state) omap"
  pu_subscribers :: "(string, string list \<times> string list) omap"       \<comment> \<open>the nodes of snapshots and of events\<close>
  pu_snapshot :: "string \<Rightarrow> actor_snapshot"

record projection_env =
  pv_number :: "rat \<Rightarrow> string"
  pv_date :: "string \<Rightarrow> rat option"
  pv_actor_id :: "string \<Rightarrow> string"
  pv_iso :: "(string \<times> json) list \<Rightarrow> string"                        \<comment> \<open>the time of an event\<close>

definition projection_state_of :: "string \<Rightarrow> string \<Rightarrow> publisher \<Rightarrow> projection_state \<times> publisher" where
  "projection_state_of now a p = (case omap_get (pu_states p) a of
       Some st \<Rightarrow> (st, p)
     | None \<Rightarrow> (let st = \<lparr>ps_created = now, ps_updated = now, ps_correlation = a, ps_last_event = None, ps_sequence = 0\<rparr>
               in (st, p\<lparr>pu_states := omap_set a st (pu_states p)\<rparr>)))"

definition update_projection_state :: "string \<Rightarrow> string \<Rightarrow> (projection_state \<Rightarrow> projection_state) \<Rightarrow> publisher \<Rightarrow> publisher" where
  "update_projection_state now a f p =
     (let (st, p1) = projection_state_of now a p
      in p1\<lparr>pu_states := omap_set a ((f st)\<lparr>ps_created := ps_created st, ps_sequence := ps_sequence st\<rparr>) (pu_states p1)\<rparr>)"

definition next_sequence :: "string \<Rightarrow> string \<Rightarrow> publisher \<Rightarrow> nat \<times> publisher" where
  "next_sequence now a p =
     (let (st, p1) = projection_state_of now a p; n = ps_sequence st + 1
      in (n, p1\<lparr>pu_states := omap_set a (st\<lparr>ps_sequence := n\<rparr>) (pu_states p1)\<rparr>))"

definition current_sequence :: "string \<Rightarrow> publisher \<Rightarrow> nat" where
  "current_sequence a p = (case omap_get (pu_states p) a of Some st \<Rightarrow> ps_sequence st | None \<Rightarrow> 0)"

definition snapshot_projection_of :: "projection_env \<Rightarrow> string \<Rightarrow> string \<Rightarrow> actor_snapshot \<Rightarrow> actor_snapshot option \<Rightarrow> publisher
    \<Rightarrow> snapshot_projection \<times> publisher" where
  "snapshot_projection_of pv now a sn previous p =
     (let (st, p1) = projection_state_of now a p;
          i = \<lparr>si_snapshot = sn, si_actor = pv_actor_id pv a, si_created = ps_created st, si_updated = ps_updated st,
               si_correlation = ps_correlation st, si_label = None, si_status = None, si_last_event = ps_last_event st\<rparr>;
          transition = (case previous of
              None \<Rightarrow> None
            | Some old \<Rightarrow> if sn_status old \<noteq> sn_status sn \<or> sn_value old \<noteq> sn_value sn
                then Some (transition_of (pv_number pv) \<lparr>ti_from = old, ti_to = sn, ti_from_state = None, ti_to_state = None,
                             ti_from_status = None, ti_to_status = None\<rparr>)
                else None)
      in (\<lparr>sp_address = a, sp_data = projected (pv_number pv) i, sp_sequence = ps_sequence st, sp_transition = transition\<rparr>, p1))"

definition event_projection_of :: "projection_env \<Rightarrow> string \<Rightarrow> string \<Rightarrow> (string \<times> json) list \<Rightarrow> publisher
    \<Rightarrow> event_projection \<times> publisher" where
  "event_projection_of pv now a m p =
     (let (st, p1) = projection_state_of now a p; n = ps_sequence st
      in (\<lparr>ep_address = a, ep_envelope = event_envelope_of m
             \<lparr>eo_id = a @ '':event:'' @ nat_digits n, eo_kind = Fact_event, eo_occurred = pv_iso pv m, eo_source = a, eo_target = None,
              eo_correlation = (case message_text m ''_correlationId'' of None \<Rightarrow> Some (ps_correlation st) | Some c \<Rightarrow> Some c),
              eo_causation = None\<rparr>, ep_sequence = n\<rparr>, p1))"

definition subscriber_nodes :: "string \<Rightarrow> publisher \<Rightarrow> string list \<times> string list" where
  "subscriber_nodes a p = (case omap_get (pu_subscribers p) a of None \<Rightarrow> ([], []) | Some ns \<Rightarrow> ns)"

definition join_node :: "string \<Rightarrow> string list \<Rightarrow> string list" where
  "join_node n ns = (if n \<in> set ns then ns else ns @ [n])"

definition leave_node :: "string \<Rightarrow> string list \<Rightarrow> string list" where
  "leave_node n ns = filter (\<lambda>x. x \<noteq> n) ns"

definition add_outbound :: "projection_env \<Rightarrow> string \<Rightarrow> string \<Rightarrow> string \<Rightarrow> bool \<Rightarrow> publisher
    \<Rightarrow> (string \<times> protocol_message) list \<times> publisher" where
  "add_outbound pv now a n snapshots p =
     (let (ss, es) = subscriber_nodes a p
      in if snapshots
         then (let p1 = p\<lparr>pu_subscribers := omap_set a (join_node n ss, es) (pu_subscribers p)\<rparr>;
                   (x, p2) = snapshot_projection_of pv now a (pu_snapshot p1 a) None p1
               in ([(n, Snapshot_update x)], p2))
         else ([], p\<lparr>pu_subscribers := omap_set a (ss, join_node n es) (pu_subscribers p)\<rparr>))"

definition drop_empty :: "string \<Rightarrow> string list \<times> string list \<Rightarrow> publisher \<Rightarrow> publisher" where
  "drop_empty a ns p =
     p\<lparr>pu_subscribers := (if ns = ([], []) then omap_delete a (pu_subscribers p) else omap_set a ns (pu_subscribers p))\<rparr>"

definition remove_outbound :: "string \<Rightarrow> string \<Rightarrow> bool \<Rightarrow> publisher \<Rightarrow> publisher" where
  "remove_outbound a n snapshots p = (case omap_get (pu_subscribers p) a of
       None \<Rightarrow> p
     | Some (ss, es) \<Rightarrow> drop_empty a (if snapshots then (leave_node n ss, es) else (ss, leave_node n es)) p)"

definition remove_outbound_node :: "string \<Rightarrow> publisher \<Rightarrow> publisher" where
  "remove_outbound_node n p =
     fold (\<lambda>a q. case omap_get (pu_subscribers q) a of
         None \<Rightarrow> q
       | Some (ss, es) \<Rightarrow> drop_empty a (leave_node n ss, leave_node n es) q) (omap_keys (pu_subscribers p)) p"

definition publish_snapshot :: "projection_env \<Rightarrow> string \<Rightarrow> string \<Rightarrow> actor_snapshot \<Rightarrow> actor_snapshot \<Rightarrow> publisher
    \<Rightarrow> (string \<times> protocol_message) list \<times> publisher" where
  "publish_snapshot pv now a sn previous p =
     (let ss = fst (subscriber_nodes a p)
      in if ss = [] then ([], p)
         else (let (n, p1) = next_sequence now a p; (x, p2) = snapshot_projection_of pv now a sn (Some previous) p1
               in (map (\<lambda>node. (node, Snapshot_update (x\<lparr>sp_sequence := n\<rparr>))) ss, p2)))"

definition publish_event :: "projection_env \<Rightarrow> string \<Rightarrow> string \<Rightarrow> (string \<times> json) list \<Rightarrow> publisher
    \<Rightarrow> (string \<times> protocol_message) list \<times> publisher" where
  "publish_event pv now a m p =
     (let es = snd (subscriber_nodes a p)
      in if es = [] then ([], p)
         else (let (n, p1) = next_sequence now a p; (x, p2) = event_projection_of pv now a m p1
               in (map (\<lambda>node. (node, Event_update (x\<lparr>ep_sequence := n\<rparr>))) es, p2)))"

text \<open>A handler returned: the actor's snapshot is published where it differs from the last one.\<close>

definition actor_changes :: "projection_env \<Rightarrow> string \<Rightarrow> string \<Rightarrow> string \<Rightarrow> actor_snapshot \<Rightarrow> bool \<Rightarrow> publisher
    \<Rightarrow> (string \<times> protocol_message) list \<times> publisher" where
  "actor_changes pv now a correlation sn differs p =
     (let p1 = update_projection_state now a (\<lambda>st. st\<lparr>ps_updated := now, ps_correlation := correlation\<rparr>) p;
          p2 = p1\<lparr>pu_snapshot := (pu_snapshot p1)(a := sn)\<rparr>
      in if differs then publish_snapshot pv now a sn (pu_snapshot p a) p2 else ([], p2))"

definition actor_emits :: "projection_env \<Rightarrow> string \<Rightarrow> string \<Rightarrow> (string \<times> json) list \<Rightarrow> publisher
    \<Rightarrow> (string \<times> protocol_message) list \<times> publisher" where
  "actor_emits pv now a m p =
     publish_event pv now a m (update_projection_state now a (\<lambda>st. st\<lparr>ps_updated := now, ps_last_event := message_text m ''type'',
        ps_correlation := default_to (message_text m ''_correlationId'') (ps_correlation st)\<rparr>) p)"

definition stopped_snapshot :: "actor_snapshot \<Rightarrow> actor_snapshot" where
  "stopped_snapshot sn = sn\<lparr>sn_status := ''stopped'', sn_can := False\<rparr>"

definition stop_projecting :: "projection_env \<Rightarrow> string \<Rightarrow> string \<Rightarrow> publisher \<Rightarrow> (string \<times> protocol_message) list \<times> publisher" where
  "stop_projecting pv now a p =
     (let sn = stopped_snapshot (pu_snapshot p a); (msgs, p1) = publish_snapshot pv now a sn (pu_snapshot p a) (p\<lparr>pu_snapshot := (pu_snapshot p)(a := sn)\<rparr>)
      in (msgs, p1\<lparr>pu_states := omap_delete a (pu_states p1), pu_subscribers := omap_delete a (pu_subscribers p1)\<rparr>))"

definition start_projecting :: "string \<Rightarrow> string \<Rightarrow> actor_snapshot \<Rightarrow> publisher \<Rightarrow> publisher" where
  "start_projecting now a sn p = p\<lparr>pu_snapshot := (pu_snapshot p)(a := sn),
     pu_states := omap_set a \<lparr>ps_created = now, ps_updated = now, ps_correlation = a, ps_last_event = None, ps_sequence = 0\<rparr> (pu_states p)\<rparr>"

definition publisher_receives :: "projection_env \<Rightarrow> string \<Rightarrow> string \<Rightarrow> protocol_message \<Rightarrow> publisher
    \<Rightarrow> (string \<times> protocol_message) list \<times> publisher" where
  "publisher_receives pv now n m p = (case m of
       Snapshot_subscribe a \<Rightarrow> add_outbound pv now a n True p
     | Snapshot_unsubscribe a \<Rightarrow> ([], remove_outbound a n True p)
     | Event_subscribe a \<Rightarrow> add_outbound pv now a n False p
     | Event_unsubscribe a \<Rightarrow> ([], remove_outbound a n False p)
     | Fetch_request r a \<Rightarrow> (let (x, p1) = snapshot_projection_of pv now a (pu_snapshot p a) None p in ([(n, Fetch_response r x)], p1))
     | _ \<Rightarrow> ([], p))"

section \<open>The watcher\<close>

record watcher =
  wt_snapshot :: actor_snapshot
  wt_snapshot_listeners :: "nat list"
  wt_event_listeners :: "(nat \<times> string list option) list"
  wt_status_listeners :: "nat list"
  wt_status :: transport_status
  wt_snapshot_subscribed :: bool
  wt_event_subscribed :: bool

datatype fetch_kind = Fetch_prime | Fetch_replay

datatype notice = Told_snapshot nat string actor_snapshot | Told_event nat string "(string \<times> json) list" | Told_status nat string transport_status

record watching =
  wa_watchers :: "(string, watcher) omap"
  wa_fetches :: "(nat, string \<times> fetch_kind) omap"
  wa_next :: nat
  wa_notices :: "notice list"

definition fallback_snapshot :: actor_snapshot where
  "fallback_snapshot = \<lparr>sn_value = None, sn_context = JObject [], sn_status = ''running'', sn_matches = (\<lambda>_. False), sn_can = True,
     sn_has_tag = (\<lambda>_. False)\<rparr>"

definition new_watcher :: "bool \<Rightarrow> watcher" where
  "new_watcher linked = \<lparr>wt_snapshot = fallback_snapshot, wt_snapshot_listeners = [], wt_event_listeners = [], wt_status_listeners = [],
     wt_status = transport_status_of (if linked then Replaying else Disconnected) None None, wt_snapshot_subscribed = False,
     wt_event_subscribed = False\<rparr>"

definition watcher_of :: "bool \<Rightarrow> string \<Rightarrow> watching \<Rightarrow> watcher" where
  "watcher_of linked a w = (case omap_get (wa_watchers w) a of Some x \<Rightarrow> x | None \<Rightarrow> new_watcher linked)"

definition put_watcher :: "string \<Rightarrow> watcher \<Rightarrow> watching \<Rightarrow> watching" where
  "put_watcher a x w = w\<lparr>wa_watchers := omap_set a x (wa_watchers w)\<rparr>"

definition tell :: "notice list \<Rightarrow> watching \<Rightarrow> watching" where
  "tell ns w = w\<lparr>wa_notices := wa_notices w @ ns\<rparr>"

definition set_status :: "string \<Rightarrow> transport_status \<Rightarrow> watcher \<Rightarrow> watching \<Rightarrow> watcher \<times> watching" where
  "set_status a st x w =
     (let x1 = x\<lparr>wt_status := st\<rparr>
      in (x1, tell (map (\<lambda>l. Told_status l a st) (wt_status_listeners x)) (put_watcher a x1 w)))"

definition gap_reason :: "string \<Rightarrow> string" where
  "gap_reason a = ''Projection sequence gap detected for '' @ a"

text \<open>\<open>None\<close>: the projection is stale. A gap is told at once.\<close>

definition note_sequence :: "string \<Rightarrow> nat \<Rightarrow> watcher \<Rightarrow> watching \<Rightarrow> (watcher \<times> watching) option" where
  "note_sequence a n x w = (case pt_last (wt_status x) of
       None \<Rightarrow> Some (x, w)
     | Some old \<Rightarrow> if n \<le> old then None
                  else if n > old + 1 then Some (set_status a (transport_status_of Degraded (Some old) (Some (gap_reason a))) x w)
                  else Some (x, w))"

definition settle_status :: "string \<Rightarrow> nat \<Rightarrow> watcher \<Rightarrow> watching \<Rightarrow> watcher \<times> watching" where
  "settle_status a n x w =
     (let st = pt_state (wt_status x)
      in set_status a (transport_status_of (if st = Disconnected then Connected else st) (Some n)
           (if st = Degraded then pt_reason (wt_status x) else None)) x w)"

definition handle_snapshot_projection :: "projection_env \<Rightarrow> bool \<Rightarrow> snapshot_projection \<Rightarrow> watching \<Rightarrow> watching" where
  "handle_snapshot_projection pv linked p w =
     (let a = sp_address p; x0 = watcher_of linked a w; w0 = put_watcher a x0 w
      in case note_sequence a (sp_sequence p) x0 w0 of
           None \<Rightarrow> w0
         | Some (x, w1) \<Rightarrow>
             (let sn = actor_snapshot_of (pv_number pv) (sp_data p); x1 = x\<lparr>wt_snapshot := sn\<rparr>
              in snd (settle_status a (sp_sequence p) x1
                   (tell (map (\<lambda>l. Told_snapshot l a sn) (wt_snapshot_listeners x1)) (put_watcher a x1 w1)))))"

definition wants_event :: "string \<Rightarrow> string list option \<Rightarrow> bool" where
  "wants_event t types = (case types of None \<Rightarrow> True | Some ts \<Rightarrow> ts = [] \<or> t \<in> set ts)"

definition handle_event_projection :: "projection_env \<Rightarrow> bool \<Rightarrow> event_projection \<Rightarrow> watching \<Rightarrow> watching" where
  "handle_event_projection pv linked p w =
     (let a = ep_address p; x0 = watcher_of linked a w; w0 = put_watcher a x0 w
      in case note_sequence a (ep_sequence p) x0 w0 of
           None \<Rightarrow> w0
         | Some (x, w1) \<Rightarrow>
             (let m = event_message (pv_date pv) (ep_envelope p);
                  told = map fst (filter (\<lambda>(l, ts). wants_event (default_to (message_text m ''type'') []) ts) (wt_event_listeners x))
              in snd (settle_status a (ep_sequence p) x (tell (map (\<lambda>l. Told_event l a m) told) w1))))"

definition request_snapshot :: "fetch_kind \<Rightarrow> string \<Rightarrow> watching \<Rightarrow> protocol_message list \<times> watching" where
  "request_snapshot k a w =
     ([Fetch_request (wa_next w) a], w\<lparr>wa_fetches := omap_set (wa_next w) (a, k) (wa_fetches w), wa_next := wa_next w + 1\<rparr>)"

definition begin_replay :: "string \<Rightarrow> watching \<Rightarrow> protocol_message list \<times> watching" where
  "begin_replay a w = (case omap_get (wa_watchers w) a of
       None \<Rightarrow> ([], w)
     | Some x \<Rightarrow>
         (let (x1, w1) = set_status a (transport_status_of Replaying (pt_last (wt_status x)) None) x w; (fs, w2) = request_snapshot Fetch_replay a w1
          in ((if wt_snapshot_subscribed x1 then [Snapshot_subscribe a] else [])
              @ (if wt_event_subscribed x1 then [Event_subscribe a] else []) @ fs, w2)))"

definition prime_watcher :: "bool \<Rightarrow> string \<Rightarrow> watching \<Rightarrow> protocol_message list \<times> watching" where
  "prime_watcher linked a w = request_snapshot Fetch_prime a (put_watcher a (watcher_of linked a w) w)"

definition fetch_answered :: "projection_env \<Rightarrow> bool \<Rightarrow> nat \<Rightarrow> snapshot_projection \<Rightarrow> watching \<Rightarrow> watching" where
  "fetch_answered pv linked r p w = (case omap_get (wa_fetches w) r of
       None \<Rightarrow> w
     | Some (a, k) \<Rightarrow>
         (let w1 = w\<lparr>wa_fetches := omap_delete r (wa_fetches w)\<rparr>; x = watcher_of linked a w1;
              connected = transport_status_of Connected (Some (sp_sequence p)) None
          in case k of
               Fetch_prime \<Rightarrow>
                 snd (set_status a connected (x\<lparr>wt_snapshot := actor_snapshot_of (pv_number pv) (sp_data p)\<rparr>) w1)
             | Fetch_replay \<Rightarrow>
                 (let w2 = handle_snapshot_projection pv linked p w1 in snd (set_status a connected (watcher_of linked a w2) w2))))"

definition fetch_failed :: "bool \<Rightarrow> nat \<Rightarrow> string \<Rightarrow> watching \<Rightarrow> watching" where
  "fetch_failed linked r why w = (case omap_get (wa_fetches w) r of
       None \<Rightarrow> w
     | Some (a, k) \<Rightarrow>
         (let w1 = w\<lparr>wa_fetches := omap_delete r (wa_fetches w)\<rparr>; x = watcher_of linked a w1
          in snd (set_status a (transport_status_of (case k of Fetch_prime \<Rightarrow> Disconnected | Fetch_replay \<Rightarrow> Degraded)
               (pt_last (wt_status x)) (Some why)) x w1)))"

definition subscribe_snapshots :: "bool \<Rightarrow> string \<Rightarrow> nat \<Rightarrow> watching \<Rightarrow> protocol_message list \<times> watching" where
  "subscribe_snapshots linked a l w =
     (let x = watcher_of linked a w
      in ((if wt_snapshot_subscribed x then [] else [Snapshot_subscribe a]),
          put_watcher a (x\<lparr>wt_snapshot_listeners := (if l \<in> set (wt_snapshot_listeners x) then wt_snapshot_listeners x else wt_snapshot_listeners x @ [l]),
             wt_snapshot_subscribed := True\<rparr>) w))"

definition unsubscribe_snapshots :: "string \<Rightarrow> nat \<Rightarrow> watching \<Rightarrow> protocol_message list \<times> watching" where
  "unsubscribe_snapshots a l w = (case omap_get (wa_watchers w) a of
       None \<Rightarrow> ([], w)
     | Some x \<Rightarrow>
         (let ls = filter (\<lambda>y. y \<noteq> l) (wt_snapshot_listeners x); last = (ls = [] \<and> wt_snapshot_subscribed x)
          in ((if last then [Snapshot_unsubscribe a] else []),
              put_watcher a (x\<lparr>wt_snapshot_listeners := ls, wt_snapshot_subscribed := wt_snapshot_subscribed x \<and> \<not> last\<rparr>) w)))"

definition subscribe_events :: "bool \<Rightarrow> string \<Rightarrow> nat \<Rightarrow> string list option \<Rightarrow> watching \<Rightarrow> protocol_message list \<times> watching" where
  "subscribe_events linked a l types w =
     (let x = watcher_of linked a w
      in ((if wt_event_subscribed x then [] else [Event_subscribe a]),
          put_watcher a (x\<lparr>wt_event_listeners := wt_event_listeners x @ [(l, types)], wt_event_subscribed := True\<rparr>) w))"

definition unsubscribe_events :: "string \<Rightarrow> nat \<Rightarrow> watching \<Rightarrow> protocol_message list \<times> watching" where
  "unsubscribe_events a l w = (case omap_get (wa_watchers w) a of
       None \<Rightarrow> ([], w)
     | Some x \<Rightarrow>
         (let ls = filter (\<lambda>y. fst y \<noteq> l) (wt_event_listeners x); last = (ls = [] \<and> wt_event_subscribed x)
          in ((if last then [Event_unsubscribe a] else []),
              put_watcher a (x\<lparr>wt_event_listeners := ls, wt_event_subscribed := wt_event_subscribed x \<and> \<not> last\<rparr>) w)))"

definition subscribe_status :: "bool \<Rightarrow> string \<Rightarrow> nat \<Rightarrow> watching \<Rightarrow> watching" where
  "subscribe_status linked a l w =
     (let x = watcher_of linked a w
      in tell [Told_status l a (wt_status x)]
           (put_watcher a (x\<lparr>wt_status_listeners := (if l \<in> set (wt_status_listeners x) then wt_status_listeners x else wt_status_listeners x @ [l])\<rparr>) w))"

definition watchers_disconnect :: "string \<Rightarrow> watching \<Rightarrow> watching" where
  "watchers_disconnect node w =
     fold (\<lambda>a u. case omap_get (wa_watchers u) a of
         None \<Rightarrow> u
       | Some x \<Rightarrow> snd (set_status a (transport_status_of Disconnected (pt_last (wt_status x)) (Some (''Transport disconnected from '' @ node))) x u))
       (omap_keys (wa_watchers w)) w"

definition watcher_receives :: "projection_env \<Rightarrow> protocol_message \<Rightarrow> watching \<Rightarrow> watching" where
  "watcher_receives pv m w = (case m of
       Snapshot_update p \<Rightarrow> handle_snapshot_projection pv True p w
     | Event_update p \<Rightarrow> handle_event_projection pv True p w
     | Fetch_response r p \<Rightarrow> fetch_answered pv True r p w
     | _ \<Rightarrow> w)"

section \<open>A publishing node and the nodes that watch it\<close>

text \<open>
  All addresses are of one node's actors. A step is an event at a time. The two ends notice a lost connection each on their own.\<close>

record channel =
  ln_up :: bool
  ln_down :: "protocol_message list"
  ln_back :: "protocol_message list"

record projection_net =
  nt_pub :: publisher
  nt_watch :: "string \<Rightarrow> watching"
  nt_link :: "string \<Rightarrow> channel"

datatype projection_event =
    Actor_changes string string actor_snapshot bool | Actor_emits string "(string \<times> json) list" | Actor_respawns string actor_snapshot
  | Watch_snapshots string string nat | Unwatch_snapshots string string nat
  | Watch_events string string nat "string list option" | Unwatch_events string string nat | Watch_status string string nat
  | Prime string string | Replay string string | Fetch_fails string nat string
  | To_publisher string | To_watcher string | Link_up string | Link_lost string | Publisher_notices string | Watcher_notices string

definition post_down :: "(string \<times> protocol_message) list \<Rightarrow> projection_net \<Rightarrow> projection_net" where
  "post_down ms s = s\<lparr>nt_link := (\<lambda>n. let c = nt_link s n
     in if ln_up c then c\<lparr>ln_down := ln_down c @ map snd (filter (\<lambda>x. fst x = n) ms)\<rparr> else c)\<rparr>"

definition published :: "(string \<times> protocol_message) list \<times> publisher \<Rightarrow> projection_net \<Rightarrow> projection_net" where
  "published r s = post_down (fst r) (s\<lparr>nt_pub := snd r\<rparr>)"

definition watched :: "string \<Rightarrow> protocol_message list \<times> watching \<Rightarrow> projection_net \<Rightarrow> projection_net" where
  "watched n r s =
     (let c = nt_link s n
      in s\<lparr>nt_watch := (nt_watch s)(n := snd r),
           nt_link := (nt_link s)(n := if ln_up c then c\<lparr>ln_back := ln_back c @ fst r\<rparr> else c)\<rparr>)"

definition set_link :: "string \<Rightarrow> channel \<Rightarrow> projection_net \<Rightarrow> projection_net" where
  "set_link n c s = s\<lparr>nt_link := (nt_link s)(n := c)\<rparr>"

fun projection_step :: "projection_env \<Rightarrow> string \<times> projection_event \<Rightarrow> projection_net \<Rightarrow> projection_net" where
  "projection_step pv (now, Actor_changes a c sn d) s = published (actor_changes pv now a c sn d (nt_pub s)) s"
| "projection_step pv (now, Actor_emits a m) s = published (actor_emits pv now a m (nt_pub s)) s"
| "projection_step pv (now, Actor_respawns a sn) s =
     (let s1 = published (stop_projecting pv now a (nt_pub s)) s in s1\<lparr>nt_pub := start_projecting now a sn (nt_pub s1)\<rparr>)"
| "projection_step pv (now, Watch_snapshots n a l) s = watched n (subscribe_snapshots (ln_up (nt_link s n)) a l (nt_watch s n)) s"
| "projection_step pv (now, Unwatch_snapshots n a l) s = watched n (unsubscribe_snapshots a l (nt_watch s n)) s"
| "projection_step pv (now, Watch_events n a l ts) s = watched n (subscribe_events (ln_up (nt_link s n)) a l ts (nt_watch s n)) s"
| "projection_step pv (now, Unwatch_events n a l) s = watched n (unsubscribe_events a l (nt_watch s n)) s"
| "projection_step pv (now, Watch_status n a l) s = watched n ([], subscribe_status (ln_up (nt_link s n)) a l (nt_watch s n)) s"
| "projection_step pv (now, Prime n a) s = watched n (prime_watcher (ln_up (nt_link s n)) a (nt_watch s n)) s"
| "projection_step pv (now, Replay n a) s = watched n (begin_replay a (nt_watch s n)) s"
| "projection_step pv (now, Fetch_fails n r why) s = watched n ([], fetch_failed (ln_up (nt_link s n)) r why (nt_watch s n)) s"
| "projection_step pv (now, To_publisher n) s = (case ln_back (nt_link s n) of
       [] \<Rightarrow> s
     | m # ms \<Rightarrow> published (publisher_receives pv now n m (nt_pub s)) (set_link n ((nt_link s n)\<lparr>ln_back := ms\<rparr>) s))"
| "projection_step pv (now, To_watcher n) s = (case ln_down (nt_link s n) of
       [] \<Rightarrow> s
     | m # ms \<Rightarrow> watched n ([], watcher_receives pv m (nt_watch s n)) (set_link n ((nt_link s n)\<lparr>ln_down := ms\<rparr>) s))"
| "projection_step pv (now, Link_up n) s = set_link n ((nt_link s n)\<lparr>ln_up := True\<rparr>) s"
| "projection_step pv (now, Link_lost n) s = set_link n \<lparr>ln_up = False, ln_down = [], ln_back = []\<rparr> s"
| "projection_step pv (now, Publisher_notices n) s = s\<lparr>nt_pub := remove_outbound_node n (nt_pub s)\<rparr>"
| "projection_step pv (now, Watcher_notices n) s = watched n ([], watchers_disconnect n (nt_watch s n)) s"

definition projection_run :: "projection_env \<Rightarrow> (string \<times> projection_event) list \<Rightarrow> projection_net \<Rightarrow> projection_net" where
  "projection_run pv es s = fold (projection_step pv) es s"

definition no_watching :: watching where
  "no_watching = \<lparr>wa_watchers = [], wa_fetches = [], wa_next = 0, wa_notices = []\<rparr>"

definition new_projection_net :: projection_net where
  "new_projection_net = \<lparr>nt_pub = \<lparr>pu_states = [], pu_subscribers = [], pu_snapshot = (\<lambda>_. fallback_snapshot)\<rparr>,
     nt_watch = (\<lambda>_. no_watching), nt_link = (\<lambda>_. \<lparr>ln_up = False, ln_down = [], ln_back = []\<rparr>)\<rparr>"

section \<open>What a watcher makes of a run of projections\<close>

lemma watcher_of_put [simp]: "watcher_of l a (put_watcher b x w) = (if a = b then x else watcher_of l a w)"
  by (simp add: watcher_of_def put_watcher_def)

lemma watcher_of_tell [simp]: "watcher_of l a (tell ns w) = watcher_of l a w"
  by (simp add: watcher_of_def tell_def)

lemma put_fields [simp]: "wa_fetches (put_watcher a x w) = wa_fetches w" "wa_next (put_watcher a x w) = wa_next w"
  "wa_fetches (tell ns w) = wa_fetches w" "wa_next (tell ns w) = wa_next w" "wa_notices (put_watcher a x w) = wa_notices w"
  "wa_notices (tell ns w) = wa_notices w @ ns"
  by (simp_all add: put_watcher_def tell_def)

lemma set_status_of [simp]: "fst (set_status a st x w) = x\<lparr>wt_status := st\<rparr>"
  "watcher_of l b (snd (set_status a st x w)) = (if b = a then x\<lparr>wt_status := st\<rparr> else watcher_of l b w)"
  "wa_fetches (snd (set_status a st x w)) = wa_fetches w" "wa_next (snd (set_status a st x w)) = wa_next w"
  "wa_notices (snd (set_status a st x w)) = wa_notices w @ map (\<lambda>l. Told_status l a st) (wt_status_listeners x)"
  by (simp_all add: set_status_def Let_def)

lemma status_fields [simp]: "pt_state (transport_status_of st n r) = st" "pt_last (transport_status_of st n r) = n"
  "pt_reason (transport_status_of st n r) = r"
  by (simp_all add: transport_status_of_def)

definition stale :: "nat \<Rightarrow> watcher \<Rightarrow> bool" where
  "stale n x \<longleftrightarrow> (case pt_last (wt_status x) of None \<Rightarrow> False | Some old \<Rightarrow> n \<le> old)"

definition gap :: "nat \<Rightarrow> watcher \<Rightarrow> bool" where
  "gap n x \<longleftrightarrow> (case pt_last (wt_status x) of None \<Rightarrow> False | Some old \<Rightarrow> n > old + 1)"

definition state_after :: "nat \<Rightarrow> watcher \<Rightarrow> transport_state" where
  "state_after n x = (let st = (if gap n x then Degraded else pt_state (wt_status x)) in if st = Disconnected then Connected else st)"

definition noted :: "string \<Rightarrow> nat \<Rightarrow> watcher \<Rightarrow> watcher" where
  "noted a n x = (if gap n x then x\<lparr>wt_status := transport_status_of Degraded (pt_last (wt_status x)) (Some (gap_reason a))\<rparr> else x)"

lemma note_sequence_eq: "note_sequence a n x w =
    (if stale n x then None
     else Some (noted a n x, if gap n x then snd (set_status a (wt_status (noted a n x)) x w) else w))"
  by (auto simp: note_sequence_def stale_def gap_def noted_def set_status_def Let_def split: option.split)

definition settled_watcher :: "string \<Rightarrow> nat \<Rightarrow> watcher \<Rightarrow> watcher" where
  "settled_watcher a n x = x\<lparr>wt_status := transport_status_of (state_after n x) (Some n)
     (if gap n x then Some (gap_reason a) else if pt_state (wt_status x) = Degraded then pt_reason (wt_status x) else None)\<rparr>"

lemma settle_status_eq: "pt_state (wt_status y) = pt_state (wt_status (noted a n x)) \<Longrightarrow> pt_reason (wt_status y) = pt_reason (wt_status (noted a n x)) \<Longrightarrow>
    fst (settle_status a n y w) = y\<lparr>wt_status := wt_status (settled_watcher a n x)\<rparr>"
  by (simp add: settle_status_def settled_watcher_def noted_def state_after_def Let_def split: if_split)

lemma settle_status_of: "watcher_of l b (snd (settle_status a n y w)) = (if b = a then fst (settle_status a n y w) else watcher_of l b w)"
  by (simp add: settle_status_def Let_def)

text \<open>A snapshot or an event that is not stale is taken over with its number.\<close>

lemma handle_snapshot_watcher:
  "watcher_of l b (handle_snapshot_projection pv l p w) =
     (let x = watcher_of l b w
      in if b \<noteq> sp_address p \<or> stale (sp_sequence p) x then x
         else settled_watcher b (sp_sequence p) (x\<lparr>wt_snapshot := actor_snapshot_of (pv_number pv) (sp_data p)\<rparr>))"
  by (simp add: handle_snapshot_projection_def note_sequence_eq Let_def settle_status_of
      settle_status_eq [of _ _ _ "watcher_of l (sp_address p) w"] split: if_split)
    (auto simp: settled_watcher_def noted_def state_after_def gap_def)

lemma handle_event_watcher:
  "watcher_of l b (handle_event_projection pv l p w) =
     (let x = watcher_of l b w in if b \<noteq> ep_address p \<or> stale (ep_sequence p) x then x else settled_watcher b (ep_sequence p) x)"
  by (simp add: handle_event_projection_def note_sequence_eq Let_def settle_status_of
      settle_status_eq [of _ _ _ "watcher_of l (ep_address p) w"] split: if_split)
    (auto simp: settled_watcher_def noted_def)

datatype update = Of_snapshot snapshot_projection | Of_event event_projection

fun update_sequence :: "update \<Rightarrow> nat" where
  "update_sequence (Of_snapshot p) = sp_sequence p"
| "update_sequence (Of_event p) = ep_sequence p"

fun update_address :: "update \<Rightarrow> string" where
  "update_address (Of_snapshot p) = sp_address p"
| "update_address (Of_event p) = ep_address p"

fun handle_update :: "projection_env \<Rightarrow> bool \<Rightarrow> update \<Rightarrow> watching \<Rightarrow> watching" where
  "handle_update pv l (Of_snapshot p) w = handle_snapshot_projection pv l p w"
| "handle_update pv l (Of_event p) w = handle_event_projection pv l p w"

text \<open>Which of a run of updates are taken over, and whether one is missing among them.\<close>

fun taken :: "nat option \<Rightarrow> update list \<Rightarrow> update list" where
  "taken k [] = []"
| "taken k (u # us) = (if (case k of None \<Rightarrow> False | Some old \<Rightarrow> update_sequence u \<le> old) then taken k us
     else u # taken (Some (update_sequence u)) us)"

fun gapless_from :: "nat option \<Rightarrow> nat list \<Rightarrow> bool" where
  "gapless_from k [] = True"
| "gapless_from k (n # ns) = ((case k of None \<Rightarrow> True | Some old \<Rightarrow> n = old + 1) \<and> gapless_from (Some n) ns)"

fun snapshots_in :: "update list \<Rightarrow> snapshot_projection list" where
  "snapshots_in [] = []"
| "snapshots_in (Of_snapshot p # us) = p # snapshots_in us"
| "snapshots_in (Of_event p # us) = snapshots_in us"

lemma handle_update_other: "update_address u \<noteq> a \<Longrightarrow> watcher_of l a (handle_update pv l u w) = watcher_of l a w"
  by (cases u) (simp_all add: handle_snapshot_watcher handle_event_watcher Let_def)

lemma handle_update_watcher: "update_address u = a \<Longrightarrow> watcher_of l a (handle_update pv l u w) =
    (let x = watcher_of l a w
     in if stale (update_sequence u) x then x
        else settled_watcher a (update_sequence u) (case u of Of_event p \<Rightarrow> x
               | Of_snapshot p \<Rightarrow> x\<lparr>wt_snapshot := actor_snapshot_of (pv_number pv) (sp_data p)\<rparr>))"
  by (cases u) (simp_all add: handle_snapshot_watcher handle_event_watcher Let_def)

text \<open>
  Whatever updates of an actor arrive at a watcher, it takes over those whose numbers are above all before, in their order, ends with
  the snapshot and the number of the last of them, and is degraded if and only if it was before or a number between two of them is
  missing.\<close>

theorem watcher_follows_sequence:
  "(let x = watcher_of l a w; y = watcher_of l a (fold (handle_update pv l) us w);
        ts = taken (pt_last (wt_status x)) (filter (\<lambda>u. update_address u = a) us)
    in pt_last (wt_status y) = (if ts = [] then pt_last (wt_status x) else Some (update_sequence (last ts)))
     \<and> wt_snapshot y = (if snapshots_in ts = [] then wt_snapshot x else actor_snapshot_of (pv_number pv) (sp_data (last (snapshots_in ts))))
     \<and> pt_state (wt_status y) = (if ts = [] then pt_state (wt_status x)
         else if \<not> gapless_from (pt_last (wt_status x)) (map update_sequence ts) then Degraded
         else if pt_state (wt_status x) = Disconnected then Connected else pt_state (wt_status x)))"
proof (induction us arbitrary: w)
  case (Cons u us)
  let ?x = "watcher_of l a w" and ?w = "handle_update pv l u w"
  note ih = Cons.IH [of ?w, unfolded Let_def]
  show ?case
  proof (cases "update_address u = a")
    case False
    then show ?thesis using ih by (simp add: handle_update_other Let_def)
  next
    case u: True
    let ?us = "filter (\<lambda>u. update_address u = a) us"
    have f: "filter (\<lambda>u. update_address u = a) (u # us) = u # ?us" by (simp add: u)
  show ?thesis
  proof (cases "stale (update_sequence u) ?x")
    case True
    then have "watcher_of l a ?w = ?x" "taken (pt_last (wt_status ?x)) (u # ?us) = taken (pt_last (wt_status ?x)) ?us"
      using handle_update_watcher [OF u] by (simp_all add: Let_def stale_def)
    then show ?thesis using ih by (simp add: Let_def u)
  next
    case False
    let ?k = "pt_last (wt_status ?x)" and ?n = "update_sequence u"
    have w: "watcher_of l a ?w = settled_watcher a ?n (case u of Of_event p \<Rightarrow> ?x
        | Of_snapshot p \<Rightarrow> ?x\<lparr>wt_snapshot := actor_snapshot_of (pv_number pv) (sp_data p)\<rparr>)"
      using False handle_update_watcher [OF u] by (simp add: Let_def)
    have k: "pt_last (wt_status (watcher_of l a ?w)) = Some ?n" unfolding w by (simp add: settled_watcher_def)
    have s: "pt_state (wt_status (watcher_of l a ?w)) = state_after ?n ?x"
      unfolding w by (cases u) (simp_all add: settled_watcher_def state_after_def gap_def)
    have t: "taken ?k (u # ?us) = u # taken (Some ?n) ?us" using False by (simp add: stale_def)
    have g: "gap ?n ?x \<longleftrightarrow> \<not> (case ?k of None \<Rightarrow> True | Some old \<Rightarrow> ?n = old + 1)"
      using False by (auto simp: gap_def stale_def split: option.split)
    define n where "n = ?n"
    define e where "e = (case u of Of_event p \<Rightarrow> None | Of_snapshot p \<Rightarrow> Some p)"
    have sn: "wt_snapshot (watcher_of l a ?w) = (case e of None \<Rightarrow> wt_snapshot ?x | Some p \<Rightarrow> actor_snapshot_of (pv_number pv) (sp_data p))"
      unfolding w e_def by (cases u) (simp_all add: settled_watcher_def)
    have sl: "snapshots_in (u # ts) = (case e of None \<Rightarrow> snapshots_in ts | Some p \<Rightarrow> p # snapshots_in ts)" for ts
      unfolding e_def by (cases u) simp_all
    note ih2 = ih [unfolded k s sn, folded n_def]
    show ?thesis
      using ih2 g unfolding Let_def fold_simps f t sl n_def [symmetric]
      by (cases e) (auto simp: state_after_def n_def [symmetric])
  qed
  qed
qed simp

section \<open>A watcher is never ahead of its publisher\<close>

lemma projection_state_facts:
  assumes "projection_state_of now a p = (st, p1)"
  shows "ps_sequence st = current_sequence a p" "current_sequence b p1 = current_sequence b p" "pu_subscribers p1 = pu_subscribers p"
    "pu_snapshot p1 = pu_snapshot p" "omap_get (pu_states p1) a = Some st"
  using assms by (auto simp: projection_state_of_def current_sequence_def Let_def split: option.splits if_splits)

lemma update_state_facts [simp]:
  "current_sequence b (update_projection_state now a f p) = current_sequence b p"
  "pu_subscribers (update_projection_state now a f p) = pu_subscribers p"
  "pu_snapshot (update_projection_state now a f p) = pu_snapshot p"
proof -
  obtain st p1 where s: "projection_state_of now a p = (st, p1)" by fastforce
  note f = projection_state_facts [OF s]
  show "current_sequence b (update_projection_state now a f p) = current_sequence b p"
    using f(1) f(2) [of b] by (auto simp: update_projection_state_def s current_sequence_def split: if_splits)
  show "pu_subscribers (update_projection_state now a f p) = pu_subscribers p"
    "pu_snapshot (update_projection_state now a f p) = pu_snapshot p"
    using f by (simp_all add: update_projection_state_def s)
qed

lemma next_sequence_facts:
  assumes "next_sequence now a p = (n, p1)"
  shows "n = current_sequence a p + 1" "current_sequence b p1 = (if b = a then n else current_sequence b p)"
    "pu_subscribers p1 = pu_subscribers p" "pu_snapshot p1 = pu_snapshot p"
proof -
  obtain st p0 where s: "projection_state_of now a p = (st, p0)" by fastforce
  note f = projection_state_facts [OF s]
  show "n = current_sequence a p + 1" "pu_subscribers p1 = pu_subscribers p" "pu_snapshot p1 = pu_snapshot p"
    using assms f by (auto simp: next_sequence_def s Let_def)
  show "current_sequence b p1 = (if b = a then n else current_sequence b p)"
    using assms f(2) [of b] by (auto simp: next_sequence_def s Let_def current_sequence_def)
qed

lemma snapshot_projection_facts:
  assumes "snapshot_projection_of pv now a sn old p = (x, p1)"
  shows "sp_address x = a" "sp_sequence x = current_sequence a p" "current_sequence b p1 = current_sequence b p"
    "pu_subscribers p1 = pu_subscribers p" "pu_snapshot p1 = pu_snapshot p"
    "actor_snapshot_of (pv_number pv) (sp_data x) = \<lparr>sn_value = sn_value sn, sn_context = sn_context sn, sn_status = sn_status sn,
       sn_matches = (\<lambda>st. st = label_of (pv_number pv) (sn_value sn)), sn_can = (sn_status sn = ''running''), sn_has_tag = (\<lambda>_. False)\<rparr>"
proof -
  obtain st p0 where s: "projection_state_of now a p = (st, p0)" by fastforce
  note f = projection_state_facts [OF s]
  show "sp_address x = a" "sp_sequence x = current_sequence a p" "current_sequence b p1 = current_sequence b p"
    "pu_subscribers p1 = pu_subscribers p" "pu_snapshot p1 = pu_snapshot p"
    "actor_snapshot_of (pv_number pv) (sp_data x) = \<lparr>sn_value = sn_value sn, sn_context = sn_context sn, sn_status = sn_status sn,
       sn_matches = (\<lambda>st. st = label_of (pv_number pv) (sn_value sn)), sn_can = (sn_status sn = ''running''), sn_has_tag = (\<lambda>_. False)\<rparr>"
    using assms f by (auto simp: snapshot_projection_of_def s Let_def projected_def actor_snapshot_of_def runtime_snapshot_of_def)
qed

lemma event_projection_facts:
  assumes "event_projection_of pv now a m p = (x, p1)"
  shows "ep_address x = a" "ep_sequence x = current_sequence a p" "current_sequence b p1 = current_sequence b p"
    "pu_subscribers p1 = pu_subscribers p" "pu_snapshot p1 = pu_snapshot p"
proof -
  obtain st p0 where s: "projection_state_of now a p = (st, p0)" by fastforce
  note f = projection_state_facts [OF s]
  show "ep_address x = a" "ep_sequence x = current_sequence a p" "current_sequence b p1 = current_sequence b p"
    "pu_subscribers p1 = pu_subscribers p" "pu_snapshot p1 = pu_snapshot p"
    using assms f by (auto simp: event_projection_of_def s Let_def)
qed

text \<open>What a publisher sends has numbers up to its own, which only grow.\<close>

fun counted :: "publisher \<Rightarrow> protocol_message \<Rightarrow> bool" where
  "counted p (Snapshot_update x) = (sp_sequence x \<le> current_sequence (sp_address x) p)"
| "counted p (Event_update x) = (ep_sequence x \<le> current_sequence (ep_address x) p)"
| "counted p (Fetch_response r x) = (sp_sequence x \<le> current_sequence (sp_address x) p)"
| "counted p _ = True"

definition grows :: "publisher \<Rightarrow> (string \<times> protocol_message) list \<times> publisher \<Rightarrow> bool" where
  "grows p r \<longleftrightarrow> (\<forall>b. current_sequence b p \<le> current_sequence b (snd r)) \<and> (\<forall>m \<in> set (map snd (fst r)). counted (snd r) m)"

lemma counted_mono: "counted p m \<Longrightarrow> (\<And>b. current_sequence b p \<le> current_sequence b q) \<Longrightarrow> counted q m"
  by (cases m) (auto intro: order_trans)

lemma same_sequence [simp]: "current_sequence b (p\<lparr>pu_snapshot := f\<rparr>) = current_sequence b p"
  "current_sequence b (p\<lparr>pu_subscribers := g\<rparr>) = current_sequence b p"
  "current_sequence b (drop_empty a ns p) = current_sequence b p"
  by (simp_all add: current_sequence_def drop_empty_def)

lemma same_sequence_remove [simp]: "current_sequence b (remove_outbound a n k p) = current_sequence b p"
  "current_sequence b (remove_outbound_node n p) = current_sequence b p"
proof -
  show "current_sequence b (remove_outbound a n k p) = current_sequence b p" by (simp add: remove_outbound_def split: option.split)
  have "current_sequence b (fold (\<lambda>a q. case omap_get (pu_subscribers q) a of None \<Rightarrow> q
      | Some (ss, es) \<Rightarrow> drop_empty a (leave_node n ss, leave_node n es) q) l p) = current_sequence b p" for l
    by (induction l arbitrary: p) (auto split: option.split)
  then show "current_sequence b (remove_outbound_node n p) = current_sequence b p" by (simp add: remove_outbound_node_def)
qed

lemma publish_snapshot_grows: "grows p (publish_snapshot pv now a sn old p)"
proof -
  obtain n p1 where n: "next_sequence now a p = (n, p1)" by fastforce
  obtain x p2 where x: "snapshot_projection_of pv now a sn (Some old) p1 = (x, p2)" by fastforce
  show ?thesis
    using next_sequence_facts [OF n] snapshot_projection_facts [OF x] by (auto simp: grows_def publish_snapshot_def n x Let_def)
qed

lemma publish_event_grows: "grows p (publish_event pv now a m p)"
proof -
  obtain n p1 where n: "next_sequence now a p = (n, p1)" by fastforce
  obtain x p2 where x: "event_projection_of pv now a m p1 = (x, p2)" by fastforce
  show ?thesis
    using next_sequence_facts [OF n] event_projection_facts [OF x] by (auto simp: grows_def publish_event_def n x Let_def)
qed

lemma grows_same: "grows q r \<Longrightarrow> (\<And>b. current_sequence b p = current_sequence b q) \<Longrightarrow> grows p r"
  by (simp add: grows_def)

lemma actor_changes_grows: "grows p (actor_changes pv now a c sn d p)"
proof (cases d)
  case True
  then show ?thesis unfolding actor_changes_def Let_def by (auto intro: grows_same [OF publish_snapshot_grows])
qed (simp add: actor_changes_def Let_def grows_def)

lemma actor_emits_grows: "grows p (actor_emits pv now a m p)"
  unfolding actor_emits_def by (rule grows_same [OF publish_event_grows]) simp

lemma add_outbound_grows: "grows p (add_outbound pv now a n k p)"
proof -
  obtain ss es where s: "subscriber_nodes a p = (ss, es)" by fastforce
  obtain x p2 where x: "snapshot_projection_of pv now a (pu_snapshot p a) None (p\<lparr>pu_subscribers := omap_set a (join_node n ss, es) (pu_subscribers p)\<rparr>) = (x, p2)"
    by fastforce
  show ?thesis using snapshot_projection_facts [OF x] by (auto simp: grows_def add_outbound_def s x Let_def)
qed

lemma publisher_receives_grows: "grows p (publisher_receives pv now n m p)"
proof (cases m)
  case (Fetch_request r a)
  obtain x p2 where x: "snapshot_projection_of pv now a (pu_snapshot p a) None p = (x, p2)" by fastforce
  show ?thesis using snapshot_projection_facts [OF x] by (auto simp: Fetch_request grows_def publisher_receives_def x)
qed (simp_all add: publisher_receives_def add_outbound_grows, simp_all add: grows_def)

text \<open>A watcher's number stays within the publisher's; answers go to the fetches that asked.\<close>

definition known_number :: "string \<Rightarrow> watching \<Rightarrow> nat option" where
  "known_number a w = pt_last (wt_status (watcher_of True a w))"

lemma known_number_any: "pt_last (wt_status (watcher_of l a w)) = known_number a w"
  by (simp add: known_number_def watcher_of_def new_watcher_def transport_status_of_def split: option.split)

definition not_ahead :: "publisher \<Rightarrow> watching \<Rightarrow> bool" where
  "not_ahead p w \<longleftrightarrow> (\<forall>a. case known_number a w of None \<Rightarrow> True | Some k \<Rightarrow> k \<le> current_sequence a p)"

fun fetch_fits :: "watching \<Rightarrow> protocol_message \<Rightarrow> bool" where
  "fetch_fits w (Fetch_request r a) = (r < wa_next w \<and> (case omap_get (wa_fetches w) r of None \<Rightarrow> True | Some (b, k) \<Rightarrow> b = a))"
| "fetch_fits w (Fetch_response r x) = (r < wa_next w \<and> (case omap_get (wa_fetches w) r of None \<Rightarrow> True | Some (b, k) \<Rightarrow> b = sp_address x))"
| "fetch_fits w _ = True"

text \<open>A step of a watching node: its numbers are old ones or those of \<open>known\<close>, its open fetches are old or new ones it sends.\<close>

definition watch_steps :: "(string \<Rightarrow> nat \<Rightarrow> bool) \<Rightarrow> watching \<Rightarrow> protocol_message list \<times> watching \<Rightarrow> bool" where
  "watch_steps known w r \<longleftrightarrow> wa_next w \<le> wa_next (snd r)
     \<and> (\<forall>a k. known_number a (snd r) = Some k \<longrightarrow> known_number a w = Some k \<or> known a k)
     \<and> (\<forall>i < wa_next w. omap_get (wa_fetches (snd r)) i = omap_get (wa_fetches w) i \<or> omap_get (wa_fetches (snd r)) i = None)
     \<and> (\<forall>m \<in> set (fst r). fetch_fits (snd r) m)"

lemma fetch_fits_step: "fetch_fits w m \<Longrightarrow> wa_next w \<le> wa_next v \<Longrightarrow>
    (\<forall>i < wa_next w. omap_get (wa_fetches v) i = omap_get (wa_fetches w) i \<or> omap_get (wa_fetches v) i = None) \<Longrightarrow> fetch_fits v m"
  by (cases m) (auto split: option.splits)

lemma known_number_put [simp]: "known_number a (put_watcher b x w) = (if a = b then pt_last (wt_status x) else known_number a w)"
  by (simp add: known_number_def)

lemma known_number_tell [simp]: "known_number a (tell ns w) = known_number a w"
  by (simp add: known_number_def)

lemma known_number_status [simp]: "known_number a (snd (set_status b st x w)) = (if a = b then pt_last st else known_number a w)"
  by (simp add: known_number_def)

lemma known_number_fetches [simp]: "known_number a (w\<lparr>wa_fetches := f\<rparr>) = known_number a w" "known_number a (w\<lparr>wa_next := n\<rparr>) = known_number a w"
  by (simp_all add: known_number_def watcher_of_def)

lemma handle_fields [simp]: "wa_fetches (handle_snapshot_projection pv l p w) = wa_fetches w" "wa_next (handle_snapshot_projection pv l p w) = wa_next w"
  "wa_fetches (handle_event_projection pv l q w) = wa_fetches w" "wa_next (handle_event_projection pv l q w) = wa_next w"
  by (auto simp: handle_snapshot_projection_def handle_event_projection_def note_sequence_eq settle_status_def Let_def split: option.split)

lemma handle_last: "known_number a (handle_snapshot_projection pv l p w) = Some k \<Longrightarrow> known_number a w = Some k \<or> a = sp_address p \<and> k = sp_sequence p"
  "known_number a (handle_event_projection pv l q w) = Some k \<Longrightarrow> known_number a w = Some k \<or> a = ep_address q \<and> k = ep_sequence q"
  using handle_snapshot_watcher [of l a pv p w] handle_event_watcher [of l a pv q w]
  by (auto simp: known_number_any [of l, symmetric] Let_def settled_watcher_def split: if_splits)

lemma set_status_pair: "set_status a st x w = (x\<lparr>wt_status := st\<rparr>, snd (set_status a st x w))"
  by (simp add: prod_eq_iff)

lemma begin_replay_steps: "watch_steps known w (begin_replay a w)"
proof (cases "omap_get (wa_watchers w) a")
  case (Some x)
  then have "known_number a w = pt_last (wt_status x)" by (simp add: known_number_def watcher_of_def)
  then show ?thesis
    unfolding begin_replay_def Some
    by (subst set_status_pair) (auto simp: watch_steps_def request_snapshot_def Let_def split: if_splits)
qed (simp add: begin_replay_def watch_steps_def)

lemma prime_steps: "watch_steps known w (prime_watcher l a w)"
  by (auto simp: prime_watcher_def watch_steps_def request_snapshot_def known_number_any split: if_splits)

lemma subscribe_steps: "watch_steps known w (subscribe_snapshots l a h w)" "watch_steps known w (subscribe_events l a h ts w)"
  "watch_steps known w ([], subscribe_status l a h w)"
  by (auto simp: subscribe_snapshots_def subscribe_events_def subscribe_status_def watch_steps_def Let_def known_number_any split: if_splits)

lemma unsubscribe_steps: "watch_steps known w (unsubscribe_snapshots a h w)" "watch_steps known w (unsubscribe_events a h w)"
proof -
  have "known_number a w = pt_last (wt_status x)" if "omap_get (wa_watchers w) a = Some x" for x
    using that by (simp add: known_number_def watcher_of_def)
  then show "watch_steps known w (unsubscribe_snapshots a h w)" "watch_steps known w (unsubscribe_events a h w)"
    by (auto simp: unsubscribe_snapshots_def unsubscribe_events_def watch_steps_def Let_def split: option.split if_splits)
qed

lemma fetch_failed_steps: "watch_steps known w ([], fetch_failed l r why w)"
  by (auto simp: fetch_failed_def watch_steps_def Let_def known_number_any split: option.split if_splits)

lemma disconnect_steps: "watch_steps known w ([], watchers_disconnect node w)"
proof -
  let ?f = "\<lambda>a u. case omap_get (wa_watchers u) a of None \<Rightarrow> u
      | Some x \<Rightarrow> snd (set_status a (transport_status_of Disconnected (pt_last (wt_status x)) (Some (''Transport disconnected from '' @ node))) x u)"
  have "known_number b (?f a u) = known_number b u \<and> wa_fetches (?f a u) = wa_fetches u \<and> wa_next (?f a u) = wa_next u" for a b u
    by (simp add: known_number_def [of a u] watcher_of_def split: option.split)
  then have "known_number b (fold ?f l u) = known_number b u \<and> wa_fetches (fold ?f l u) = wa_fetches u \<and> wa_next (fold ?f l u) = wa_next u" for b l u
    by (induction l arbitrary: u) simp_all
  then show ?thesis by (simp add: watch_steps_def watchers_disconnect_def)
qed

lemma fetch_answered_steps:
  assumes "fetch_fits w (Fetch_response r p)" "\<And>a k. a = sp_address p \<Longrightarrow> k = sp_sequence p \<Longrightarrow> known a k"
  shows "watch_steps known w ([], fetch_answered pv l r p w)"
proof (cases "omap_get (wa_fetches w) r")
  case (Some ak)
  obtain a k where ak: "ak = (a, k)" by fastforce
  have a: "a = sp_address p" using assms(1) Some by (simp add: ak)
  show ?thesis using assms(2) [OF a] handle_last(1)
    by (cases k) (auto simp: fetch_answered_def Some ak watch_steps_def Let_def a split: if_splits dest: handle_last(1))
qed (simp add: fetch_answered_def watch_steps_def)

lemma watcher_receives_steps:
  assumes "fetch_fits w m" "counted q m" "\<And>a k. k \<le> current_sequence a q \<Longrightarrow> known a k"
  shows "watch_steps known w ([], watcher_receives pv m w)"
proof (cases m)
  case (Fetch_response r p)
  then show ?thesis using fetch_answered_steps [of w r p known pv True] assms by (simp add: watcher_receives_def)
qed (use assms in \<open>auto simp: watcher_receives_def watch_steps_def dest!: handle_last\<close>)

definition watch_net_ok :: "projection_net \<Rightarrow> bool" where
  "watch_net_ok s \<longleftrightarrow> (\<forall>n. not_ahead (nt_pub s) (nt_watch s n)
     \<and> (\<forall>m \<in> set (ln_down (nt_link s n)). counted (nt_pub s) m \<and> fetch_fits (nt_watch s n) m)
     \<and> (\<forall>m \<in> set (ln_back (nt_link s n)). fetch_fits (nt_watch s n) m))"

lemma not_aheadD: "not_ahead p w \<Longrightarrow> known_number a w = Some k \<Longrightarrow> k \<le> current_sequence a p"
  by (auto simp: not_ahead_def split: option.splits dest: spec [where x = a])

lemma watch_net_okD: "watch_net_ok s \<Longrightarrow> m \<in> set (ln_down (nt_link s n)) \<Longrightarrow> counted (nt_pub s) m \<and> fetch_fits (nt_watch s n) m"
  "watch_net_ok s \<Longrightarrow> m \<in> set (ln_back (nt_link s n)) \<Longrightarrow> fetch_fits (nt_watch s n) m"
  "watch_net_ok s \<Longrightarrow> not_ahead (nt_pub s) (nt_watch s n)"
  by (simp_all add: watch_net_ok_def)

lemma not_ahead_grows: "not_ahead p w \<Longrightarrow> (\<And>b. current_sequence b p \<le> current_sequence b q) \<Longrightarrow> not_ahead q w"
  by (auto simp: not_ahead_def split: option.splits intro: order_trans)

lemma post_down_fields [simp]: "nt_pub (post_down ms s) = nt_pub s" "nt_watch (post_down ms s) = nt_watch s"
  "ln_up (nt_link (post_down ms s) n) = ln_up (nt_link s n)" "ln_back (nt_link (post_down ms s) n) = ln_back (nt_link s n)"
  "ln_down (nt_link (post_down ms s) n) = ln_down (nt_link s n) @ (if ln_up (nt_link s n) then map snd (filter (\<lambda>x. fst x = n) ms) else [])"
  by (simp_all add: post_down_def Let_def)

lemma watch_net_ok_published:
  assumes s: "watch_net_ok s" and g: "grows (nt_pub s) r" and f: "\<And>n m. (n, m) \<in> set (fst r) \<Longrightarrow> fetch_fits (nt_watch s n) m"
  shows "watch_net_ok (published r s)"
proof -
  have mono: "current_sequence b (nt_pub s) \<le> current_sequence b (snd r)" for b using g by (simp add: grows_def)
  have new: "counted (snd r) m" if "(n, m) \<in> set (fst r)" for n m using g that by (force simp: grows_def)
  show ?thesis
    using s f new by (auto simp: watch_net_ok_def published_def intro: not_ahead_grows [OF _ mono] counted_mono [OF _ mono])
qed

lemma watched_fields [simp]: "nt_pub (watched n r s) = nt_pub s" "nt_watch (watched n r s) = (nt_watch s)(n := snd r)"
  "ln_up (nt_link (watched n r s) k) = ln_up (nt_link s k)" "ln_down (nt_link (watched n r s) k) = ln_down (nt_link s k)"
  "ln_back (nt_link (watched n r s) k) = ln_back (nt_link s k) @ (if k = n \<and> ln_up (nt_link s n) then fst r else [])"
  by (simp_all add: watched_def Let_def)

lemma set_link_fields [simp]: "nt_pub (set_link n c s) = nt_pub s" "nt_watch (set_link n c s) = nt_watch s"
  "nt_link (set_link n c s) = (nt_link s)(n := c)"
  by (simp_all add: set_link_def)

lemma watch_net_ok_watched:
  assumes s: "watch_net_ok s" and w: "watch_steps (\<lambda>a k. k \<le> current_sequence a (nt_pub s)) (nt_watch s n) r"
  shows "watch_net_ok (watched n r s)"
proof -
  have v: "wa_next (nt_watch s n) \<le> wa_next (snd r)"
    "\<forall>i < wa_next (nt_watch s n). omap_get (wa_fetches (snd r)) i = omap_get (wa_fetches (nt_watch s n)) i \<or> omap_get (wa_fetches (snd r)) i = None"
    using w by (simp_all add: watch_steps_def)
  have old: "fetch_fits (snd r) m" if "fetch_fits (nt_watch s n) m" for m by (rule fetch_fits_step [OF that v])
  have "not_ahead (nt_pub s) (snd r)"
    using s w by (auto simp: watch_net_ok_def not_ahead_def watch_steps_def split: option.splits) (metis option.simps(5))
  then show ?thesis using s w old by (auto simp: watch_net_ok_def watch_steps_def)
qed

lemma watch_net_ok_link:
  assumes "watch_net_ok s" "set (ln_down c) \<subseteq> set (ln_down (nt_link s n))" "set (ln_back c) \<subseteq> set (ln_back (nt_link s n))"
  shows "watch_net_ok (set_link n c s)"
  using assms by (auto simp: watch_net_ok_def)

lemma no_fetches: "(n, m) \<in> set (fst (publish_snapshot pv now a sn old p)) \<Longrightarrow> fetch_fits w m"
  "(n, m) \<in> set (fst (publish_event pv now a ev p)) \<Longrightarrow> fetch_fits w m"
  "(n, m) \<in> set (fst (add_outbound pv now a k b p)) \<Longrightarrow> fetch_fits w m"
  by (auto simp: publish_snapshot_def publish_event_def add_outbound_def Let_def split: if_splits prod.splits)

fun respawns :: "projection_event \<Rightarrow> bool" where
  "respawns (Actor_respawns a sn) = True"
| "respawns _ = False"

lemma publisher_answer_fits:
  assumes "fetch_fits (nt_watch s n) m" "(k, x) \<in> set (fst (publisher_receives pv now n m p))"
  shows "fetch_fits (nt_watch s k) x"
proof (cases m)
  case (Fetch_request r a)
  obtain y p1 where y: "snapshot_projection_of pv now a (pu_snapshot p a) None p = (y, p1)" by fastforce
  have "k = n" "x = Fetch_response r y" using assms(2) by (auto simp: Fetch_request publisher_receives_def y)
  then show ?thesis using assms(1) snapshot_projection_facts(1) [OF y] by (auto simp: Fetch_request split: option.splits)
qed (use assms no_fetches(3) in \<open>auto simp: publisher_receives_def\<close>)

lemma watch_net_ok_step:
  assumes s: "watch_net_ok s" and r: "\<not> respawns (snd e)"
  shows "watch_net_ok (projection_step pv e s)"
proof -
  obtain now ev where e: "e = (now, ev)" by fastforce
  show ?thesis unfolding e
  proof (cases ev)
    case (Actor_changes a c sn d)
    have "fetch_fits w m" if "(n, m) \<in> set (fst (actor_changes pv now a c sn d (nt_pub s)))" for n m w
      using that no_fetches(1) by (auto simp: actor_changes_def Let_def split: if_splits)
    then show "watch_net_ok (projection_step pv (now, ev) s)" by (simp add: Actor_changes watch_net_ok_published [OF s actor_changes_grows])
  next
    case (Actor_emits a m)
    show "watch_net_ok (projection_step pv (now, ev) s)"
      using watch_net_ok_published [OF s actor_emits_grows] no_fetches(2) by (simp add: Actor_emits actor_emits_def)
  next
    case (To_publisher n)
    show "watch_net_ok (projection_step pv (now, ev) s)"
    proof (cases "ln_back (nt_link s n)")
      case (Cons m ms)
      let ?s = "set_link n ((nt_link s n)\<lparr>ln_back := ms\<rparr>) s"
      have "fetch_fits (nt_watch ?s n) m" "watch_net_ok ?s"
        using watch_net_okD(2) [OF s, of m n] watch_net_ok_link [OF s, of "(nt_link s n)\<lparr>ln_back := ms\<rparr>" n] Cons by auto
      then show ?thesis
        using watch_net_ok_published [of ?s, OF _ publisher_receives_grows] publisher_answer_fits [of ?s n m] by (simp add: To_publisher Cons)
    qed (simp add: To_publisher s)
  next
    case (To_watcher n)
    show "watch_net_ok (projection_step pv (now, ev) s)"
    proof (cases "ln_down (nt_link s n)")
      case (Cons m ms)
      let ?s = "set_link n ((nt_link s n)\<lparr>ln_down := ms\<rparr>) s"
      have "fetch_fits (nt_watch ?s n) m" "counted (nt_pub ?s) m" "watch_net_ok ?s"
        using watch_net_okD(1) [OF s, of m n] watch_net_ok_link [OF s, of "(nt_link s n)\<lparr>ln_down := ms\<rparr>" n] Cons by auto
      then have "watch_net_ok (watched n ([], watcher_receives pv m (nt_watch ?s n)) ?s)"
        by (intro watch_net_ok_watched watcher_receives_steps) assumption+
      then show ?thesis by (simp add: To_watcher Cons)
    qed (simp add: To_watcher s)
  next
    case (Publisher_notices n)
    have "counted (remove_outbound_node n p) m = counted p m" "not_ahead (remove_outbound_node n p) w = not_ahead p w" for p m w
      by (cases m, simp_all add: not_ahead_def cong: option.case_cong)
    then show "watch_net_ok (projection_step pv (now, ev) s)" using s by (simp add: watch_net_ok_def Publisher_notices)
  next
    case (Link_up n)
    then show "watch_net_ok (projection_step pv (now, ev) s)" using watch_net_ok_link [OF s] by simp
  next
    case (Link_lost n)
    then show "watch_net_ok (projection_step pv (now, ev) s)" using watch_net_ok_link [OF s] by simp
  qed (use r e in \<open>simp_all add: watch_net_ok_watched [OF s] subscribe_steps unsubscribe_steps prime_steps begin_replay_steps fetch_failed_steps disconnect_steps\<close>)
qed

lemma watch_net_ok_new: "watch_net_ok new_projection_net"
  by (simp add: watch_net_ok_def new_projection_net_def not_ahead_def known_number_def watcher_of_def no_watching_def new_watcher_def transport_status_of_def)

lemma watch_net_ok_run: "watch_net_ok s \<Longrightarrow> list_all (\<lambda>e. \<not> respawns (snd e)) es \<Longrightarrow> watch_net_ok (projection_run pv es s)"
  unfolding projection_run_def by (induction es arbitrary: s) (simp_all add: watch_net_ok_step)

lemma drain_watcher:
  assumes "ln_down (nt_link t n) = ds @ ms" "not_ahead p (nt_watch t n)" "\<forall>m \<in> set ds. counted p m \<and> fetch_fits (nt_watch t n) m"
  shows "ln_down (nt_link (projection_run pv (replicate (length ds) (now, To_watcher n)) t) n) = ms
    \<and> not_ahead p (nt_watch (projection_run pv (replicate (length ds) (now, To_watcher n)) t) n)
    \<and> nt_pub (projection_run pv (replicate (length ds) (now, To_watcher n)) t) = nt_pub t"
  using assms
proof (induction ds arbitrary: t)
  case (Cons d ds)
  let ?w = "nt_watch t n" and ?t = "projection_step pv (now, To_watcher n) t"
  have t: "ln_down (nt_link ?t n) = ds @ ms" "nt_watch ?t n = watcher_receives pv d ?w" "nt_pub ?t = nt_pub t"
    using Cons.prems(1) by simp_all
  have st: "watch_steps (\<lambda>a k. k \<le> current_sequence a p) ?w ([], watcher_receives pv d ?w)"
    using Cons.prems(3) by (intro watcher_receives_steps) auto
  have ahead: "not_ahead p (watcher_receives pv d ?w)"
    using Cons.prems(2) st by (auto simp: not_ahead_def watch_steps_def split: option.splits)
  have fits: "\<forall>m \<in> set ds. counted p m \<and> fetch_fits (nt_watch ?t n) m"
    unfolding t(2) using Cons.prems(3) st fetch_fits_step [of ?w _ "watcher_receives pv d ?w"] by (simp add: watch_steps_def)
  have "not_ahead p (nt_watch ?t n)" unfolding t(2) by (rule ahead)
  from Cons.IH [OF t(1) this fits] show ?case
    unfolding t(3) projection_run_def by (simp del: projection_step.simps)
qed (simp add: projection_run_def)

lemma actor_changes_sends:
  assumes "n \<in> set (fst (subscriber_nodes a p))" "distinct (fst (subscriber_nodes a p))"
  shows "\<exists>y. map snd (filter (\<lambda>x. fst x = n) (fst (actor_changes pv now a c sn True p))) = [Snapshot_update y]
    \<and> sp_address y = a \<and> sp_sequence y = current_sequence a p + 1
    \<and> sp_sequence y = current_sequence a (snd (actor_changes pv now a c sn True p))
    \<and> sn_value (actor_snapshot_of (pv_number pv) (sp_data y)) = sn_value sn
    \<and> sn_context (actor_snapshot_of (pv_number pv) (sp_data y)) = sn_context sn
    \<and> sn_status (actor_snapshot_of (pv_number pv) (sp_data y)) = sn_status sn"
proof -
  define q where "q = (update_projection_state now a (\<lambda>st. st\<lparr>ps_updated := now, ps_correlation := c\<rparr>) p)"
  define q2 where "q2 = q\<lparr>pu_snapshot := (pu_snapshot q)(a := sn)\<rparr>"
  have q: "current_sequence b q2 = current_sequence b p" "subscriber_nodes a q2 = subscriber_nodes a p" for b
    by (simp_all add: q_def q2_def subscriber_nodes_def)
  obtain k p1 where k: "next_sequence now a q2 = (k, p1)" by fastforce
  obtain x p2 where x: "snapshot_projection_of pv now a sn (Some (pu_snapshot p a)) p1 = (x, p2)" by fastforce
  note f = next_sequence_facts [OF k] snapshot_projection_facts [OF x]
  let ?y = "x\<lparr>sp_sequence := k\<rparr>"
  have ne: "fst (subscriber_nodes a p) \<noteq> []" using assms(1) by auto
  have r: "actor_changes pv now a c sn True p = (map (\<lambda>node. (node, Snapshot_update ?y)) (fst (subscriber_nodes a p)), p2)"
    unfolding actor_changes_def Let_def q_def [symmetric] q2_def [symmetric] using ne by (simp add: publish_snapshot_def q k x Let_def)
  have one: "filter (\<lambda>z. z = n) l = [n]" if "n \<in> set l" "distinct l" for l :: "string list"
    using that by (induction l) (auto simp: filter_empty_conv)
  have "map snd (filter (\<lambda>z. fst z = n) (map (\<lambda>node. (node, Snapshot_update ?y)) l)) = map (\<lambda>_. Snapshot_update ?y) (filter (\<lambda>z. z = n) l)" for l
    by (induction l) auto
  then show ?thesis using one [OF assms] f q by (intro exI [of _ ?y]) (simp add: r)
qed

definition sets_ok :: "publisher \<Rightarrow> bool" where
  "sets_ok p \<longleftrightarrow> (\<forall>a. distinct (fst (subscriber_nodes a p)))"

lemma subscriber_nodes_put: "subscriber_nodes b (p\<lparr>pu_subscribers := omap_set a ns (pu_subscribers p)\<rparr>) = (if b = a then ns else subscriber_nodes b p)"
  by (simp add: subscriber_nodes_def)

lemma subscriber_nodes_cong: "pu_subscribers p = pu_subscribers q \<Longrightarrow> subscriber_nodes b p = subscriber_nodes b q"
  by (simp add: subscriber_nodes_def)

lemma subscriber_nodes_drop: "subscriber_nodes b (drop_empty a ns p) = (if b = a then ns else subscriber_nodes b p)"
  by (simp add: subscriber_nodes_def drop_empty_def)

lemma sets_ok_published: "pu_subscribers (snd (actor_changes pv now a c sn d p)) = pu_subscribers p"
  "pu_subscribers (snd (actor_emits pv now a m p)) = pu_subscribers p"
  "pu_subscribers (snd (publish_snapshot pv now a sn old p)) = pu_subscribers p"
proof -
  have s: "pu_subscribers (snd (publish_snapshot pv now a sn old p)) = pu_subscribers p" for old p
    using next_sequence_facts(3) snapshot_projection_facts(4)
    by (auto simp: publish_snapshot_def Let_def split: prod.split)
  have e: "pu_subscribers (snd (publish_event pv now a m p)) = pu_subscribers p" for p
    using next_sequence_facts(3) event_projection_facts(4)
    by (auto simp: publish_event_def Let_def split: prod.split)
  show "pu_subscribers (snd (publish_snapshot pv now a sn old p)) = pu_subscribers p" by (rule s)
  show "pu_subscribers (snd (actor_changes pv now a c sn d p)) = pu_subscribers p" by (simp add: actor_changes_def Let_def s)
  show "pu_subscribers (snd (actor_emits pv now a m p)) = pu_subscribers p" by (simp add: actor_emits_def e)
qed

lemma sets_ok_add: "sets_ok p \<Longrightarrow> sets_ok (snd (add_outbound pv now a n k p))"
proof -
  assume p: "sets_ok p"
  obtain ss es where s: "subscriber_nodes a p = (ss, es)" by fastforce
  have ds: "distinct (fst (subscriber_nodes b p))" for b using p by (simp add: sets_ok_def)
  have d: "distinct ss" using ds [of a] by (simp add: s)
  let ?p1 = "p\<lparr>pu_subscribers := omap_set a (join_node n ss, es) (pu_subscribers p)\<rparr>"
  obtain x p2 where x: "snapshot_projection_of pv now a (pu_snapshot ?p1 a) None ?p1 = (x, p2)" by fastforce
  have "subscriber_nodes b p2 = subscriber_nodes b ?p1" for b by (rule subscriber_nodes_cong) (rule snapshot_projection_facts(4) [OF x])
  then show ?thesis using ds d x
    by (cases k) (auto simp: sets_ok_def add_outbound_def s subscriber_nodes_put join_node_def Let_def split: prod.split)
qed

lemma sets_ok_drop: "sets_ok p \<Longrightarrow> omap_get (pu_subscribers p) a = Some (ss, es) \<Longrightarrow> sets_ok (drop_empty a (leave_node n ss, es2) p)"
  "sets_ok p \<Longrightarrow> omap_get (pu_subscribers p) a = Some (ss, es) \<Longrightarrow> sets_ok (drop_empty a (ss, es2) p)"
proof -
  assume p: "sets_ok p" and a: "omap_get (pu_subscribers p) a = Some (ss, es)"
  have d: "distinct (fst (subscriber_nodes b p))" for b using p by (simp add: sets_ok_def)
  then have "distinct ss" using d [of a] a by (simp add: subscriber_nodes_def)
  then show "sets_ok (drop_empty a (leave_node n ss, es2) p)" "sets_ok (drop_empty a (ss, es2) p)"
    using d by (simp_all add: sets_ok_def subscriber_nodes_drop leave_node_def)
qed

lemma sets_ok_remove: "sets_ok p \<Longrightarrow> sets_ok (remove_outbound a n k p)" "sets_ok p \<Longrightarrow> sets_ok (remove_outbound_node n p)"
proof -
  assume p: "sets_ok p"
  show "sets_ok (remove_outbound a n k p)"
    using p sets_ok_drop [OF p] by (cases k) (simp_all add: remove_outbound_def split: option.split)
  have "sets_ok (fold (\<lambda>a q. case omap_get (pu_subscribers q) a of None \<Rightarrow> q
      | Some (ss, es) \<Rightarrow> drop_empty a (leave_node n ss, leave_node n es) q) l p)" for l
    using p by (induction l arbitrary: p) (simp_all add: sets_ok_drop(1) split: option.split)
  then show "sets_ok (remove_outbound_node n p)" by (simp add: remove_outbound_node_def)
qed

lemma sets_ok_receives: "sets_ok p \<Longrightarrow> sets_ok (snd (publisher_receives pv now n m p))"
proof (cases m)
  case (Fetch_request r a)
  assume p: "sets_ok p"
  obtain y p1 where y: "snapshot_projection_of pv now a (pu_snapshot p a) None p = (y, p1)" by fastforce
  have "subscriber_nodes b p1 = subscriber_nodes b p" for b by (rule subscriber_nodes_cong) (rule snapshot_projection_facts(4) [OF y])
  then show ?thesis using p by (simp add: Fetch_request publisher_receives_def y sets_ok_def)
qed (simp_all add: publisher_receives_def sets_ok_add sets_ok_remove)

lemma sets_ok_step: "sets_ok (nt_pub s) \<Longrightarrow> sets_ok (nt_pub (projection_step pv e s))"
proof -
  assume s: "sets_ok (nt_pub s)"
  have c: "sets_ok q" if "pu_subscribers q = pu_subscribers (nt_pub s)" for q
    using s subscriber_nodes_cong [OF that] by (simp add: sets_ok_def)
  obtain now ev where e: "e = (now, ev)" by fastforce
  show ?thesis unfolding e
  proof (cases ev)
    case (Actor_respawns a sn)
    have "distinct (fst (subscriber_nodes b (nt_pub s)))" for b using s by (simp add: sets_ok_def)
    then show "sets_ok (nt_pub (projection_step pv (now, ev) s))"
      by (auto simp: Actor_respawns published_def stop_projecting_def start_projecting_def sets_ok_def subscriber_nodes_def Let_def sets_ok_published split_beta)
  next
    case (To_publisher n)
    then show "sets_ok (nt_pub (projection_step pv (now, ev) s))" using s by (simp add: published_def sets_ok_receives split: list.split)
  qed (simp_all add: published_def sets_ok_published c s sets_ok_remove split: list.split)
qed

lemma sets_ok_run: "sets_ok (nt_pub s) \<Longrightarrow> sets_ok (nt_pub (projection_run pv es s))"
  unfolding projection_run_def by (induction es arbitrary: s) (simp_all add: sets_ok_step)

text \<open>
  C14. In every history of publishing, subscribing, fetching, lost and new connections in which the actor is not stopped: once the
  publisher knows that a connected node watches the snapshots of an actor, a change of the actor is at that node as soon as
  what is under way has arrived: its watcher then holds the actor's value, context and status, under the
  publisher's number.\<close>

theorem watcher_catches_up:
  assumes "list_all (\<lambda>e. \<not> respawns (snd e)) es" "s = projection_run pv es new_projection_net"
    "n \<in> set (fst (subscriber_nodes a (nt_pub s)))" "ln_up (nt_link s n)"
  shows "(let t = projection_step pv (now, Actor_changes a c sn True) s;
        u = projection_run pv (replicate (length (ln_down (nt_link t n))) (later, To_watcher n)) t; x = watcher_of True a (nt_watch u n)
      in sn_value (wt_snapshot x) = sn_value sn \<and> sn_context (wt_snapshot x) = sn_context sn \<and> sn_status (wt_snapshot x) = sn_status sn
         \<and> pt_last (wt_status x) = Some (current_sequence a (nt_pub u)))"
proof -
  let ?p = "nt_pub s" and ?t = "projection_step pv (now, Actor_changes a c sn True) s"
  have ok: "watch_net_ok s" unfolding assms(2) by (rule watch_net_ok_run [OF watch_net_ok_new assms(1)])
  have "sets_ok (nt_pub new_projection_net)" by (simp add: sets_ok_def new_projection_net_def subscriber_nodes_def)
  then have "distinct (fst (subscriber_nodes a ?p))" using sets_ok_run [of new_projection_net pv es] by (simp add: assms(2) sets_ok_def)
  from actor_changes_sends [OF assms(3) this, of pv now c sn] obtain y where y: "map snd (filter (\<lambda>x. fst x = n) (fst (actor_changes pv now a c sn True ?p))) = [Snapshot_update y]"
      "sp_address y = a" "sp_sequence y = current_sequence a ?p + 1"
      "sp_sequence y = current_sequence a (snd (actor_changes pv now a c sn True ?p))"
      "sn_value (actor_snapshot_of (pv_number pv) (sp_data y)) = sn_value sn"
      "sn_context (actor_snapshot_of (pv_number pv) (sp_data y)) = sn_context sn"
      "sn_status (actor_snapshot_of (pv_number pv) (sp_data y)) = sn_status sn"
    by (elim exE conjE)
  define ds where "ds = ln_down (nt_link s n)"
  have t: "ln_down (nt_link ?t n) = ds @ [Snapshot_update y]" "nt_watch ?t = nt_watch s" "nt_pub ?t = snd (actor_changes pv now a c sn True ?p)"
    by (simp_all add: published_def ds_def assms(4) y(1))
  define u0 where "u0 = projection_run pv (replicate (length ds) (later, To_watcher n)) ?t"
  have "\<forall>m \<in> set ds. counted ?p m \<and> fetch_fits (nt_watch ?t n) m" "not_ahead ?p (nt_watch ?t n)"
    unfolding t(2) ds_def using watch_net_okD [OF ok] by blast+
  then have u0: "ln_down (nt_link u0 n) = [Snapshot_update y]" "not_ahead ?p (nt_watch u0 n)" "nt_pub u0 = nt_pub ?t"
    using drain_watcher [OF t(1), of ?p pv later] by (simp_all add: u0_def del: projection_step.simps)
  define u where "u = projection_run pv (replicate (length (ln_down (nt_link ?t n))) (later, To_watcher n)) ?t"
  have "replicate (Suc k) z = replicate k z @ [z]" for k and z :: "string \<times> projection_event" by (induction k) simp_all
  then have "u = projection_step pv (later, To_watcher n) u0"
    by (simp add: u_def t(1) u0_def projection_run_def del: projection_step.simps replicate_Suc)
  then have u: "nt_watch u n = handle_snapshot_projection pv True y (nt_watch u0 n)" "nt_pub u = nt_pub ?t"
    using u0(1,3) by (simp_all add: watcher_receives_def)
  have fresh: "\<not> stale (sp_sequence y) (watcher_of True a (nt_watch u0 n))"
    using not_aheadD [OF u0(2), of a] y(3) by (fastforce simp: stale_def known_number_def split: option.splits)
  have x: "watcher_of True a (nt_watch u n) = settled_watcher a (sp_sequence y)
      ((watcher_of True a (nt_watch u0 n))\<lparr>wt_snapshot := actor_snapshot_of (pv_number pv) (sp_data y)\<rparr>)"
    using fresh by (simp add: u(1) handle_snapshot_watcher y(2) Let_def)
  have "sn_value (wt_snapshot (watcher_of True a (nt_watch u n))) = sn_value sn"
    "sn_context (wt_snapshot (watcher_of True a (nt_watch u n))) = sn_context sn"
    "sn_status (wt_snapshot (watcher_of True a (nt_watch u n))) = sn_status sn"
    "pt_last (wt_status (watcher_of True a (nt_watch u n))) = Some (current_sequence a (nt_pub u))"
    unfolding x u(2) t(3) y(4) [symmetric] by (simp_all add: settled_watcher_def y(5,6,7))
  then show ?thesis unfolding Let_def u_def [symmetric] by blast
qed

section \<open>Examples\<close>

definition plain_env :: projection_env where
  "plain_env = \<lparr>pv_number = (\<lambda>_. ''0''), pv_date = (\<lambda>_. None), pv_actor_id = (\<lambda>a. a), pv_iso = (\<lambda>_. ''t'')\<rparr>"

definition state_snapshot :: "string \<Rightarrow> actor_snapshot" where
  "state_snapshot v = fallback_snapshot\<lparr>sn_value := Some (JString v)\<rparr>"

definition one_watcher :: "(string \<times> projection_event) list" where
  "one_watcher = [(''0'', Link_up ''b''), (''0'', Watch_snapshots ''b'' ''x'' 0), (''1'', To_publisher ''b'')]"

lemma watcher_catches_up_witness:
  "sn_value (wt_snapshot (watcher_of True ''x'' (nt_watch (projection_run plain_env (one_watcher @
     [(''2'', Actor_changes ''x'' ''c'' (state_snapshot ''on'') True), (''3'', To_watcher ''b''), (''3'', To_watcher ''b'')]) new_projection_net) ''b'')))
   = Some (JString ''on'')"
proof -
  let ?s = "projection_run plain_env one_watcher new_projection_net"
  have s: "fst (subscriber_nodes ''x'' (nt_pub ?s)) = [''b'']" "ln_up (nt_link ?s ''b'')" "length (ln_down (nt_link ?s ''b'')) = 1"
    by (simp_all add: one_watcher_def projection_run_def new_projection_net_def subscribe_snapshots_def watcher_of_def no_watching_def
        new_watcher_def published_def post_down_def watched_def set_link_def publisher_receives_def add_outbound_def subscriber_nodes_def
        join_node_def snapshot_projection_of_def projection_state_of_def Let_def)
  have l: "length (ln_down (nt_link (projection_step plain_env (''2'', Actor_changes ''x'' ''c'' (state_snapshot ''on'') True) ?s) ''b'')) = 2"
    using s actor_changes_sends [of "''b''" "''x''" "nt_pub ?s" plain_env "''2''" "''c''" "state_snapshot ''on''"]
    by (auto simp: published_def)
  have "sn_value (wt_snapshot (watcher_of True ''x'' (nt_watch (projection_run plain_env (replicate 2 (''3'', To_watcher ''b''))
      (projection_step plain_env (''2'', Actor_changes ''x'' ''c'' (state_snapshot ''on'') True) ?s)) ''b''))) = Some (JString ''on'')"
    using watcher_catches_up [of one_watcher ?s plain_env "''b''" "''x''" "''2''" "''c''" "state_snapshot ''on''" "''3''"] s l
    by (simp add: Let_def one_watcher_def state_snapshot_def del: projection_step.simps)
  then show ?thesis by (simp add: projection_run_def numeral_2_eq_2 del: projection_step.simps)
qed

text \<open>
  Where a watcher is not told. A replay that finds the publisher's number where it left it keeps the old snapshot, whatever the
  answer holds, and calls itself connected. An actor that is stopped and spawned again, as a restart does, has no subscribers
  left, and the watchers do not learn of it.\<close>

lemma replay_keeps_old_snapshot:
  assumes "omap_get (wa_fetches w) r = Some (sp_address p, Fetch_replay)" "stale (sp_sequence p) (watcher_of True (sp_address p) w)"
  shows "(let x = watcher_of True (sp_address p) (fetch_answered pv True r p w)
    in wt_snapshot x = wt_snapshot (watcher_of True (sp_address p) w) \<and> pt_state (wt_status x) = Connected)"
proof -
  have w: "watcher_of True a (w\<lparr>wa_fetches := f\<rparr>) = watcher_of True a w" for a f by (simp add: watcher_of_def)
  show ?thesis using assms by (simp add: fetch_answered_def Let_def handle_snapshot_watcher w)
qed

lemma respawn_ends_subscriptions:
  "subscriber_nodes a (nt_pub (projection_step pv (now, Actor_respawns a sn) s)) = ([], [])"
  "nt_watch (projection_step pv (now, Actor_respawns a sn) s) = nt_watch s"
  by (simp_all add: published_def stop_projecting_def start_projecting_def subscriber_nodes_def Let_def split_beta)

end
