(* ===== verification/Topology_Edges.thy ===== *)
theory Topology_Edges
  imports Actor_Prelude
begin

text \<open>
  Subscriptions between actors of different nodes, \<open>actor-system-impl.ts\<close>: the node of the subscriber keeps what it asked for and asks
  again when the publisher's node is back; the publisher's node keeps the edges and sends each event along those whose filter lets
  it through. An edge is told apart by its node and the path of its subscriber.
\<close>

section \<open>The publisher's edges\<close>

record topology_edge =
  te_node :: string
  te_subscriber :: string
  te_events :: "string list option"

type_synonym edge_table = "(string, topology_edge list) omap"

definition edges_at :: "string \<Rightarrow> edge_table \<Rightarrow> topology_edge list" where
  "edges_at p es = (case omap_get es p of None \<Rightarrow> [] | Some l \<Rightarrow> l)"

definition put_edges :: "string \<Rightarrow> topology_edge list \<Rightarrow> edge_table \<Rightarrow> edge_table" where
  "put_edges p l es = (if l = [] then omap_delete p es else omap_set p l es)"

definition same_edge :: "string \<Rightarrow> string \<Rightarrow> topology_edge \<Rightarrow> bool" where
  "same_edge n sub e \<longleftrightarrow> te_node e = n \<and> te_subscriber e = sub"

definition register_edge :: "string \<Rightarrow> string \<Rightarrow> string \<Rightarrow> string list option \<Rightarrow> edge_table \<Rightarrow> edge_table" where
  "register_edge p n sub events es =
     omap_set p (filter (\<lambda>e. \<not> same_edge n sub e) (edges_at p es) @ [\<lparr>te_node = n, te_subscriber = sub, te_events = events\<rparr>]) es"

definition remove_edge :: "string \<Rightarrow> string \<Rightarrow> string \<Rightarrow> edge_table \<Rightarrow> edge_table" where
  "remove_edge p n sub es = (case omap_get es p of
       None \<Rightarrow> es
     | Some l \<Rightarrow> put_edges p (filter (\<lambda>e. \<not> same_edge n sub e) l) es)"

definition remove_edges_of_node :: "string \<Rightarrow> edge_table \<Rightarrow> edge_table" where
  "remove_edges_of_node n es = fold (\<lambda>p t. put_edges p (filter (\<lambda>e. te_node e \<noteq> n) (edges_at p t)) t) (omap_keys es) es"

definition lets_through :: "string list option \<Rightarrow> string \<Rightarrow> bool" where
  "lets_through events t = (case events of None \<Rightarrow> True | Some ts \<Rightarrow> ts = [] \<or> t \<in> set ts)"

definition match_edges :: "string \<Rightarrow> string \<Rightarrow> edge_table \<Rightarrow> (string \<times> string) list" where
  "match_edges p t es = map (\<lambda>e. (te_node e, te_subscriber e)) (filter (\<lambda>e. lets_through (te_events e) t) (edges_at p es))"

section \<open>The subscriber's intents\<close>

text \<open>An intent is an object; its number tells it apart from others that say the same.\<close>

record intent =
  in_ref :: nat
  in_publisher :: string
  in_subscriber :: string
  in_events :: "string list option"

datatype topology_message = Topology_subscribe string string "string list option" | Topology_unsubscribe string string

definition intent_message :: "intent \<Rightarrow> topology_message" where
  "intent_message i = Topology_subscribe (in_publisher i) (in_subscriber i) (in_events i)"

definition send_subscribe :: "nat \<Rightarrow> string \<Rightarrow> string \<Rightarrow> string list option \<Rightarrow> intent list \<Rightarrow> topology_message list \<times> intent list" where
  "send_subscribe r p sub events is =
     (let i = \<lparr>in_ref = r, in_publisher = p, in_subscriber = sub, in_events = events\<rparr> in ([intent_message i], is @ [i]))"

definition send_unsubscribe :: "intent \<Rightarrow> intent list \<Rightarrow> topology_message list \<times> intent list" where
  "send_unsubscribe i is =
     ([Topology_unsubscribe (in_publisher i) (in_subscriber i)], filter (\<lambda>j. in_ref j \<noteq> in_ref i) is)"

definition replay_intents :: "intent list \<Rightarrow> topology_message list" where
  "replay_intents is = map intent_message is"

definition receive_topology :: "string \<Rightarrow> topology_message \<Rightarrow> edge_table \<Rightarrow> edge_table" where
  "receive_topology n m es = (case m of
       Topology_subscribe p sub events \<Rightarrow> register_edge p n sub events es
     | Topology_unsubscribe p sub \<Rightarrow> remove_edge p n sub es)"

section \<open>One publishing node and the nodes that subscribe\<close>

text \<open>
  A lost connection loses what is under way; the publisher has noticed it when the next one is made. A node replays its intents some
  time after the connection is up.\<close>

record subscriber_node =
  su_intents :: "intent list"
  su_next :: nat
  su_up :: bool
  su_noticed :: bool
  su_replayed :: bool
  su_queue :: "topology_message list"

record topology_net =
  tn_edges :: edge_table
  tn_nodes :: "string \<Rightarrow> subscriber_node"

datatype topology_event = Topology_wire string string string "string list option" | Topology_unwire string nat
  | Topology_arrives string | Topology_up string | Topology_lost string | Topology_noticed string | Topology_replay string

definition send_topology :: "topology_message list \<Rightarrow> subscriber_node \<Rightarrow> subscriber_node" where
  "send_topology ms x = (if su_up x then x\<lparr>su_queue := su_queue x @ ms\<rparr> else x)"

definition put_node :: "string \<Rightarrow> subscriber_node \<Rightarrow> topology_net \<Rightarrow> topology_net" where
  "put_node n x s = s\<lparr>tn_nodes := (tn_nodes s)(n := x)\<rparr>"

definition pairs :: "intent list \<Rightarrow> (string \<times> string) list" where
  "pairs is = map (\<lambda>i. (in_publisher i, in_subscriber i)) is"

text \<open>A pair of actors is wired once at a time.\<close>

fun topology_step :: "topology_event \<Rightarrow> topology_net \<Rightarrow> topology_net" where
  "topology_step (Topology_wire n p sub events) s =
     (let x = tn_nodes s n; (ms, is) = send_subscribe (su_next x) p sub events (su_intents x)
      in if (p, sub) \<in> set (pairs (su_intents x)) then s
         else put_node n (send_topology ms (x\<lparr>su_intents := is, su_next := su_next x + 1\<rparr>)) s)"
| "topology_step (Topology_unwire n r) s =
     (let x = tn_nodes s n in case find (\<lambda>i. in_ref i = r) (su_intents x) of
        None \<Rightarrow> s
      | Some i \<Rightarrow> (let (ms, is) = send_unsubscribe i (su_intents x) in put_node n (send_topology ms (x\<lparr>su_intents := is\<rparr>)) s))"
| "topology_step (Topology_arrives n) s =
     (let x = tn_nodes s n in case su_queue x of
        [] \<Rightarrow> s
      | m # ms \<Rightarrow> (put_node n (x\<lparr>su_queue := ms\<rparr>) s)\<lparr>tn_edges := receive_topology n m (tn_edges s)\<rparr>)"
| "topology_step (Topology_up n) s =
     (let x = tn_nodes s n in if su_noticed x \<and> \<not> su_up x then put_node n (x\<lparr>su_up := True\<rparr>) s else s)"
| "topology_step (Topology_lost n) s =
     put_node n ((tn_nodes s n)\<lparr>su_up := False, su_noticed := False, su_replayed := False, su_queue := []\<rparr>) s"
| "topology_step (Topology_noticed n) s =
     (let x = tn_nodes s n
      in if su_up x then s else (put_node n (x\<lparr>su_noticed := True\<rparr>) s)\<lparr>tn_edges := remove_edges_of_node n (tn_edges s)\<rparr>)"
| "topology_step (Topology_replay n) s =
     (let x = tn_nodes s n
      in if su_up x then put_node n (send_topology (replay_intents (su_intents x)) (x\<lparr>su_replayed := True\<rparr>)) s else s)"

definition topology_run :: "topology_event list \<Rightarrow> topology_net \<Rightarrow> topology_net" where
  "topology_run es s = fold topology_step es s"

definition new_topology_net :: topology_net where
  "new_topology_net = \<lparr>tn_edges = [], tn_nodes = (\<lambda>_. \<lparr>su_intents = [], su_next = 0, su_up = False, su_noticed = True,
     su_replayed = False, su_queue = []\<rparr>)\<rparr>"

section \<open>Edges are unique, and what each operation does to one\<close>

definition edge_of :: "string \<Rightarrow> string \<Rightarrow> string \<Rightarrow> edge_table \<Rightarrow> topology_edge option" where
  "edge_of p n sub es = find (same_edge n sub) (edges_at p es)"

definition edges_ok :: "edge_table \<Rightarrow> bool" where
  "edges_ok es \<longleftrightarrow> distinct (omap_keys es) \<and> (\<forall>p. distinct (map (\<lambda>e. (te_node e, te_subscriber e)) (edges_at p es)))"

lemma edges_at_put [simp]: "edges_at q (put_edges p l es) = (if q = p then l else edges_at q es)"
  by (simp add: edges_at_def put_edges_def)

lemma edges_at_register [simp]: "edges_at q (register_edge p n sub ev es) =
    (if q = p then filter (\<lambda>e. \<not> same_edge n sub e) (edges_at p es) @ [\<lparr>te_node = n, te_subscriber = sub, te_events = ev\<rparr>] else edges_at q es)"
  by (simp add: register_edge_def edges_at_def)

lemma edges_at_remove [simp]: "edges_at q (remove_edge p n sub es) =
    (if q = p then filter (\<lambda>e. \<not> same_edge n sub e) (edges_at p es) else edges_at q es)"
  by (simp add: remove_edge_def split: option.split) (auto simp: edges_at_def)

lemma edges_at_fold: "edges_at q (fold (\<lambda>p t. put_edges p (f (edges_at p t)) t) ps es) =
    (if q \<in> set ps then (f ^^ count_list ps q) (edges_at q es) else edges_at q es)"
  by (induction ps arbitrary: es) (auto simp: count_list_0_iff funpow_swap1)

lemma edges_at_node [simp]:
  "edges_at q (remove_edges_of_node n es) = filter (\<lambda>e. te_node e \<noteq> n) (edges_at q es)"
proof -
  have twice: "(filter P ^^ Suc k) l = filter P l" for P :: "topology_edge \<Rightarrow> bool" and k l by (induction k) simp_all
  show ?thesis
  proof (cases "q \<in> set (omap_keys es)")
    case True
    then obtain k where "count_list (omap_keys es) q = Suc k" by (metis count_list_0_iff not0_implies_Suc)
    then show ?thesis using True
      by (simp add: remove_edges_of_node_def edges_at_fold [of q "filter (\<lambda>e. te_node e \<noteq> n)"] twice del: funpow.simps set_map)
  next
    case False
    then have "omap_get es q = None" by (simp add: map_of_eq_None_iff)
    then have "edges_at q es = []" by (simp add: edges_at_def)
    then show ?thesis using False
      by (simp add: remove_edges_of_node_def edges_at_fold [of q "filter (\<lambda>e. te_node e \<noteq> n)"] del: set_map)
  qed
qed

definition edges_unique :: "edge_table \<Rightarrow> bool" where
  "edges_unique es \<longleftrightarrow> (\<forall>p. distinct (map (\<lambda>e. (te_node e, te_subscriber e)) (edges_at p es)))"

lemma edges_unique_receive: "edges_unique es \<Longrightarrow> edges_unique (receive_topology n m es)"
  by (cases m) (auto simp: edges_unique_def receive_topology_def same_edge_def distinct_map_filter)

lemma edges_unique_node: "edges_unique es \<Longrightarrow> edges_unique (remove_edges_of_node n es)"
  by (simp add: edges_unique_def distinct_map_filter)

text \<open>The edges of one node as a map from pairs of paths to filters.\<close>

definition edge_map :: "string \<Rightarrow> edge_table \<Rightarrow> string \<times> string \<Rightarrow> string list option option" where
  "edge_map n es = (\<lambda>(p, sub). map_option te_events (find (same_edge n sub) (edges_at p es)))"

fun told_map :: "topology_message \<Rightarrow> (string \<times> string \<Rightarrow> string list option option) \<Rightarrow> string \<times> string \<Rightarrow> string list option option" where
  "told_map (Topology_subscribe p sub ev) v = v((p, sub) := Some ev)"
| "told_map (Topology_unsubscribe p sub) v = v((p, sub) := None)"

definition intent_map :: "intent list \<Rightarrow> string \<times> string \<Rightarrow> string list option option" where
  "intent_map is = map_of (map (\<lambda>i. ((in_publisher i, in_subscriber i), in_events i)) is)"

lemma find_filter_other: "\<not> (P x) \<Longrightarrow> find P (filter (\<lambda>e. \<not> Q e) l @ [x]) = find P (filter (\<lambda>e. \<not> Q e) l)"
  by (induction l) auto

lemma find_filter_keep: "(\<And>e. P e \<Longrightarrow> \<not> Q e) \<Longrightarrow> find P (filter (\<lambda>e. \<not> Q e) l) = find P l"
  by (induction l) auto

lemma find_filter_none: "find P (filter (\<lambda>e. \<not> P e) l) = None"
  by (induction l) auto

lemma find_append_none: "find P l = None \<Longrightarrow> find P (l @ [x]) = (if P x then Some x else None)"
  by (induction l) (auto split: if_splits)

lemma edge_map_receive: "edge_map k (receive_topology n m es) = (if k = n then told_map m (edge_map n es) else edge_map k es)"
proof -
  have other: "find (same_edge k sub2) (filter (\<lambda>e. \<not> same_edge n sub e) l) = find (same_edge k sub2) l" if "k \<noteq> n \<or> sub2 \<noteq> sub" for sub sub2 l
    by (rule find_filter_keep) (use that in \<open>auto simp: same_edge_def\<close>)
  show ?thesis
  proof (cases m)
    case (Topology_subscribe p sub ev)
    let ?x = "\<lparr>te_node = n, te_subscriber = sub, te_events = ev\<rparr>"
    have "find (same_edge k sub2) (filter (\<lambda>e. \<not> same_edge n sub e) l @ [?x]) =
        (if k = n \<and> sub2 = sub then Some ?x else find (same_edge k sub2) l)" for sub2 l
    proof (cases "k = n \<and> sub2 = sub")
      case True
      then show ?thesis using find_append_none [OF find_filter_none [of "same_edge n sub" l], of ?x] by (simp add: same_edge_def)
    next
      case False
      then have "\<not> same_edge k sub2 ?x" by (auto simp: same_edge_def)
      then show ?thesis using False other [of sub2 sub l] by (simp add: find_filter_other del: de_Morgan_conj) blast
    qed
    then show ?thesis by (auto simp: Topology_subscribe edge_map_def receive_topology_def fun_eq_iff)
  next
    case (Topology_unsubscribe p sub)
    have "find (same_edge k sub2) (filter (\<lambda>e. \<not> same_edge n sub e) l) = (if k = n \<and> sub2 = sub then None else find (same_edge k sub2) l)" for sub2 l
      using other [of sub2 sub l] by (auto simp: find_filter_none)
    then show ?thesis by (auto simp: Topology_unsubscribe edge_map_def receive_topology_def fun_eq_iff)
  qed
qed

lemma edge_map_node: "edge_map k (remove_edges_of_node n es) = (if k = n then Map.empty else edge_map k es)"
proof (cases "k = n")
  case True
  have "find (same_edge n sub) (filter (\<lambda>e. te_node e \<noteq> n) l) = None" for sub l by (induction l) (auto simp: same_edge_def)
  then show ?thesis using True by (auto simp: edge_map_def fun_eq_iff)
next
  case False
  have "find (same_edge k sub) (filter (\<lambda>e. \<not> te_node e = n) l) = find (same_edge k sub) l" for sub l
    by (rule find_filter_keep) (use False in \<open>auto simp: same_edge_def\<close>)
  then show ?thesis using False by (simp add: edge_map_def)
qed

section \<open>The edges follow the intents\<close>

definition node_ok_at :: "edge_table \<Rightarrow> string \<Rightarrow> subscriber_node \<Rightarrow> bool" where
  "node_ok_at es n x \<longleftrightarrow> distinct (pairs (su_intents x)) \<and> distinct (map in_ref (su_intents x)) \<and> (\<forall>i \<in> set (su_intents x). in_ref i < su_next x)
     \<and> (let v = fold told_map (su_queue x) (edge_map n es)
        in if su_up x then (if su_replayed x then v = intent_map (su_intents x) else v \<subseteq>\<^sub>m intent_map (su_intents x))
           else \<not> su_replayed x \<and> su_queue x = [] \<and> (su_noticed x \<longrightarrow> v = Map.empty))"

definition topology_ok :: "topology_net \<Rightarrow> bool" where
  "topology_ok s \<longleftrightarrow> edges_unique (tn_edges s) \<and> (\<forall>n. node_ok_at (tn_edges s) n (tn_nodes s n))"

lemma intent_map_add: "(p, sub) \<notin> set (pairs is) \<Longrightarrow>
    intent_map (is @ [\<lparr>in_ref = r, in_publisher = p, in_subscriber = sub, in_events = ev\<rparr>]) = (intent_map is)((p, sub) \<mapsto> ev)"
  by (induction "is") (auto simp: intent_map_def pairs_def fun_eq_iff)

lemma intent_map_none: "intent_map is k = None \<longleftrightarrow> k \<notin> set (pairs is)"
  by (simp add: intent_map_def pairs_def map_of_eq_None_iff image_image comp_def)

lemma intent_map_remove:
  assumes "distinct (pairs is)" "distinct (map in_ref is)" "i \<in> set is"
  shows "intent_map (filter (\<lambda>j. in_ref j \<noteq> in_ref i) is) = (intent_map is)((in_publisher i, in_subscriber i) := None)"
  using assms
proof (induction "is")
  case (Cons j js)
  show ?case
  proof (cases "j = i")
    case True
    then have "filter (\<lambda>j. in_ref j \<noteq> in_ref i) js = js" using Cons.prems by (auto simp: filter_id_conv image_iff)
    moreover have "intent_map js (in_publisher i, in_subscriber i) = None" using Cons.prems True by (simp add: intent_map_none pairs_def)
    ultimately show ?thesis using True by (auto simp: intent_map_def fun_eq_iff)
  next
    case False
    then have i: "i \<in> set js" using Cons.prems by simp
    then have "in_ref j \<noteq> in_ref i" "(in_publisher j, in_subscriber j) \<noteq> (in_publisher i, in_subscriber i)"
      using Cons.prems by (auto simp: pairs_def image_iff)
    then show ?thesis using Cons.IH [OF _ _ i] Cons.prems by (auto simp: intent_map_def pairs_def fun_eq_iff)
  qed
qed simp

lemma told_append: "fold told_map (q @ [m]) v = told_map m (fold told_map q v)"
  by simp

lemma told_replay:
  assumes "distinct (pairs is)"
  shows "fold told_map (replay_intents is) v = v ++ intent_map is"
  using assms
proof (induction "is" arbitrary: v)
  case (Cons i js)
  have "intent_map js (in_publisher i, in_subscriber i) = None" using Cons.prems by (simp add: intent_map_none pairs_def)
  then show ?case using Cons
    by (auto simp: replay_intents_def intent_message_def intent_map_def pairs_def fun_eq_iff map_add_def split: option.split)
qed (simp add: replay_intents_def intent_map_def)

lemma map_le_add: "v \<subseteq>\<^sub>m iv \<Longrightarrow> v ++ iv = iv"
  by (auto simp: map_le_def map_add_def fun_eq_iff dom_def split: option.split)

lemma map_le_put: "v \<subseteq>\<^sub>m iv \<Longrightarrow> v(k \<mapsto> x) \<subseteq>\<^sub>m iv(k \<mapsto> x)" "v \<subseteq>\<^sub>m iv \<Longrightarrow> v(k := None) \<subseteq>\<^sub>m iv(k := None)"
  by (auto simp: map_le_def)

lemma node_ok_cong: "node_ok_at es n x \<Longrightarrow> edge_map n es2 = edge_map n es \<Longrightarrow> node_ok_at es2 n x"
  by (simp add: node_ok_at_def)

lemma topology_ok_put: "topology_ok s \<Longrightarrow> node_ok_at (tn_edges s) n x \<Longrightarrow> topology_ok (put_node n x s)"
  by (simp add: topology_ok_def put_node_def)

lemma node_ok_wire:
  assumes x: "node_ok_at es n x" and new: "(p, sub) \<notin> set (pairs (su_intents x))"
  shows "node_ok_at es n (send_topology [Topology_subscribe p sub ev]
    (x\<lparr>su_intents := su_intents x @ [\<lparr>in_ref = su_next x, in_publisher = p, in_subscriber = sub, in_events = ev\<rparr>], su_next := su_next x + 1\<rparr>))"
proof -
  have r: "su_next x \<notin> in_ref ` set (su_intents x)" using x by (auto simp: node_ok_at_def)
  have d: "distinct (pairs (su_intents x @ [\<lparr>in_ref = su_next x, in_publisher = p, in_subscriber = sub, in_events = ev\<rparr>]))"
    using x new by (simp add: node_ok_at_def pairs_def)
  show ?thesis
    using x r d by (auto simp: node_ok_at_def send_topology_def Let_def intent_map_add [OF new] map_le_put(1))
qed

lemma node_ok_unwire:
  assumes x: "node_ok_at es n x" and i: "i \<in> set (su_intents x)"
  shows "node_ok_at es n (send_topology [Topology_unsubscribe (in_publisher i) (in_subscriber i)]
    (x\<lparr>su_intents := filter (\<lambda>j. in_ref j \<noteq> in_ref i) (su_intents x)\<rparr>))"
proof -
  have m: "intent_map (filter (\<lambda>j. in_ref j \<noteq> in_ref i) (su_intents x)) = (intent_map (su_intents x))((in_publisher i, in_subscriber i) := None)"
    using x i by (intro intent_map_remove) (simp_all add: node_ok_at_def)
  have d: "distinct (pairs (filter P (su_intents x)))" "distinct (map in_ref (filter P (su_intents x)))" for P
    using x by (simp_all add: node_ok_at_def pairs_def distinct_map_filter)
  show ?thesis
    using x by (auto simp: node_ok_at_def send_topology_def Let_def m d map_le_put(2))
qed

lemma node_ok_replay:
  assumes x: "node_ok_at es n x" and up: "su_up x"
  shows "node_ok_at es n (send_topology (replay_intents (su_intents x)) (x\<lparr>su_replayed := True\<rparr>))"
proof -
  let ?v = "fold told_map (su_queue x) (edge_map n es)"
  have "?v \<subseteq>\<^sub>m intent_map (su_intents x)" using x up by (auto simp: node_ok_at_def Let_def split: if_splits)
  then have "?v ++ intent_map (su_intents x) = intent_map (su_intents x)" by (rule map_le_add)
  then show ?thesis using x up by (simp add: node_ok_at_def send_topology_def told_replay Let_def)
qed

lemma topology_ok_step:
  assumes s: "topology_ok s"
  shows "topology_ok (topology_step e s)"
proof -
  have x: "node_ok_at (tn_edges s) n (tn_nodes s n)" for n using s by (simp add: topology_ok_def)
  show ?thesis
  proof (cases e)
    case (Topology_wire n p sub ev)
    then show ?thesis
      using s topology_ok_put [OF s node_ok_wire [OF x, of p sub n ev]] by (simp add: Let_def send_subscribe_def intent_message_def)
  next
    case (Topology_unwire n r)
    show ?thesis
    proof (cases "find (\<lambda>i. in_ref i = r) (su_intents (tn_nodes s n))")
      case (Some i)
      then have "i \<in> set (su_intents (tn_nodes s n))" by (auto simp: find_Some_iff)
      then show ?thesis using topology_ok_put [OF s node_ok_unwire [OF x]] by (simp add: Topology_unwire Some send_unsubscribe_def Let_def)
    qed (simp add: Topology_unwire s)
  next
    case (Topology_arrives n)
    show ?thesis
    proof (cases "su_queue (tn_nodes s n)")
      case (Cons m ms)
      have "node_ok_at (receive_topology n m (tn_edges s)) n ((tn_nodes s n)\<lparr>su_queue := ms\<rparr>)"
        using x [of n] Cons by (auto simp: node_ok_at_def edge_map_receive Let_def)
      moreover have "node_ok_at (receive_topology n m (tn_edges s)) k (tn_nodes s k)" if "k \<noteq> n" for k
        by (rule node_ok_cong [OF x]) (simp add: edge_map_receive that)
      ultimately show ?thesis using s
        by (simp add: Topology_arrives Cons topology_ok_def put_node_def edges_unique_receive)
    qed (simp add: Topology_arrives s)
  next
    case (Topology_up n)
    have "node_ok_at (tn_edges s) n ((tn_nodes s n)\<lparr>su_up := True\<rparr>)" if "su_noticed (tn_nodes s n)" "\<not> su_up (tn_nodes s n)"
      using x [of n] that by (auto simp: node_ok_at_def Let_def)
    then show ?thesis using s topology_ok_put [OF s] by (auto simp: Topology_up Let_def)
  next
    case (Topology_lost n)
    show ?thesis using x [of n] by (auto simp: Topology_lost node_ok_at_def Let_def intro!: topology_ok_put [OF s])
  next
    case (Topology_noticed n)
    show ?thesis
    proof (cases "su_up (tn_nodes s n)")
      case False
      have "node_ok_at (remove_edges_of_node n (tn_edges s)) n ((tn_nodes s n)\<lparr>su_noticed := True\<rparr>)"
        using x [of n] False by (auto simp: node_ok_at_def edge_map_node Let_def)
      moreover have "node_ok_at (remove_edges_of_node n (tn_edges s)) k (tn_nodes s k)" if "k \<noteq> n" for k
        by (rule node_ok_cong [OF x]) (simp add: edge_map_node that)
      ultimately show ?thesis using s False by (simp add: Topology_noticed topology_ok_def put_node_def edges_unique_node Let_def)
    qed (simp add: Topology_noticed s Let_def)
  next
    case (Topology_replay n)
    then show ?thesis using s topology_ok_put [OF s node_ok_replay [OF x]] by (simp add: Let_def)
  qed
qed

lemma topology_ok_run: "topology_ok (topology_run es new_topology_net)"
proof -
  have "topology_ok new_topology_net"
    by (simp add: topology_ok_def new_topology_net_def edges_unique_def edges_at_def node_ok_at_def pairs_def edge_map_def fun_eq_iff)
  moreover have "topology_ok s \<Longrightarrow> topology_ok (fold topology_step es s)" for s
    by (induction es arbitrary: s) (simp_all add: topology_ok_step)
  ultimately show ?thesis by (simp add: topology_run_def)
qed

lemma match_edges_iff:
  assumes "edges_unique es"
  shows "(n, sub) \<in> set (match_edges p t es) \<longleftrightarrow> (case edge_map n es (p, sub) of None \<Rightarrow> False | Some ev \<Rightarrow> lets_through ev t)"
proof -
  have "(n, sub) \<in> set (map (\<lambda>e. (te_node e, te_subscriber e)) (filter (\<lambda>e. lets_through (te_events e) t) l))
      \<longleftrightarrow> (case find (same_edge n sub) l of None \<Rightarrow> False | Some e \<Rightarrow> lets_through (te_events e) t)"
    if "distinct (map (\<lambda>e. (te_node e, te_subscriber e)) l)" for l
    using that by (induction l) (force simp: same_edge_def image_iff split: option.splits)+
  then show ?thesis using assms by (simp add: match_edges_def edge_map_def edges_unique_def case_map_option comp_def cong: option.case_cong)
qed

text \<open>
  C15. In every history of wiring, removing, lost and new connections and replays in which a pair of actors is wired once at a time:
  an event goes to no subscriber twice, and once a connected node has replayed and what it sent has arrived, the subscribers on it that
  an event of an actor is sent to are exactly those that are wired to the actor with a filter that lets it through.\<close>

theorem events_reach_the_wired_subscribers:
  "(let s = topology_run es new_topology_net; sent = match_edges p t (tn_edges s)
    in distinct sent
     \<and> (let x = tn_nodes s n
        in if su_up x \<and> su_replayed x \<and> su_queue x = []
           then set (map snd (filter (\<lambda>e. fst e = n) sent))
              = set (map in_subscriber (filter (\<lambda>i. in_publisher i = p \<and> lets_through (in_events i) t) (su_intents x)))
           else True))"
proof -
  let ?s = "topology_run es new_topology_net"
  let ?x = "tn_nodes ?s n" and ?sent = "match_edges p t (tn_edges ?s)"
  have u: "edges_unique (tn_edges ?s)" and x: "node_ok_at (tn_edges ?s) n ?x"
    using topology_ok_run [of es] by (simp_all add: topology_ok_def)
  have d: "distinct ?sent" using u by (simp add: match_edges_def edges_unique_def distinct_map_filter)
  have "sub \<in> set (map snd (filter (\<lambda>e. fst e = n) ?sent)) \<longleftrightarrow>
      sub \<in> set (map in_subscriber (filter (\<lambda>i. in_publisher i = p \<and> lets_through (in_events i) t) (su_intents ?x)))"
    if "su_up ?x" "su_replayed ?x" "su_queue ?x = []" for sub
  proof -
    have m: "edge_map n (tn_edges ?s) = intent_map (su_intents ?x)" and dp: "distinct (pairs (su_intents ?x))"
      using x that by (simp_all add: node_ok_at_def)
    have "intent_map (su_intents ?x) (p, sub) = Some ev \<longleftrightarrow>
        (\<exists>i \<in> set (su_intents ?x). in_publisher i = p \<and> in_subscriber i = sub \<and> in_events i = ev)" for ev
      using dp by (auto simp: intent_map_def pairs_def comp_def map_of_eq_Some_iff image_iff)
    moreover have "(case z of None \<Rightarrow> False | Some ev \<Rightarrow> P ev) \<longleftrightarrow> (\<exists>ev. z = Some ev \<and> P ev)" for z and P :: "string list option \<Rightarrow> bool"
      by (simp split: option.split)
    ultimately have "(case intent_map (su_intents ?x) (p, sub) of None \<Rightarrow> False | Some ev \<Rightarrow> lets_through ev t) \<longleftrightarrow>
        (\<exists>i \<in> set (su_intents ?x). in_publisher i = p \<and> in_subscriber i = sub \<and> lets_through (in_events i) t)"
      by auto
    moreover have "sub \<in> set (map snd (filter (\<lambda>e. fst e = n) ?sent)) \<longleftrightarrow> (n, sub) \<in> set ?sent" by force
    ultimately show ?thesis by (auto simp: match_edges_iff [OF u] m)
  qed
  then show ?thesis using d by (auto simp: Let_def simp del: set_map)
qed

text \<open>
  Where a pair is wired twice, the publisher keeps the filter told last only, and no edge once either of the two is removed.\<close>

lemma second_wiring_replaces_first:
  "edge_map n (receive_topology n (Topology_subscribe p sub ev2) (receive_topology n (Topology_subscribe p sub ev1) es)) (p, sub) = Some ev2"
  "edge_map n (receive_topology n (Topology_unsubscribe p sub) es) (p, sub) = None"
  by (simp_all add: edge_map_receive)

end
