(* ===== verification/Agent_Loop.thy ===== *)
theory Agent_Loop
  imports Checkpoint_Store
begin

text \<open>
  The loop of a language-model agent, \<open>packages/actor-agent/src/index.ts\<close>: its context, the checkpoints it writes before and
  after each call of the model, the decision to go on, wait or refuse, and reconciliation by an operator. The model, the store's
  failures and crashes are inputs; a message ends in one step, or in two where the model is called in between. Causes of
  errors are left out. \<open>JSON.stringify\<close> is an argument.
\<close>

section \<open>Data\<close>

datatype agent_role = System_role | User_role | Assistant_role | Tool_role

record tool_call =
  tc_id :: string
  tc_name :: string
  tc_input :: json

record llm_message =
  lm_role :: agent_role
  lm_content :: string
  lm_call :: "string option"
  lm_tool :: "string option"
  lm_calls :: "tool_call list option"

record agent_error =
  ae_code :: string
  ae_message :: string

record agent_context =
  ax_system :: "string option"
  ax_history :: "llm_message list"
  ax_steps :: nat
  ax_pending :: "tool_call list"
  ax_error :: "agent_error option"

datatype llm_result = Llm_ok llm_message "json option" | Llm_failed agent_error

record llm_request =
  lq_system :: "string option"
  lq_messages :: "llm_message list"
  lq_tools :: "string list"
  lq_definitions :: "string list option"       \<comment> \<open>their names\<close>

datatype agent_message =
    Start_agent string "string option"
  | Observe_tool_result string string bool json
  | Reconcile_session string bool "json option"    \<comment> \<open>receipt, whether the effect was applied, the state\<close>
  | Get_agent_context

datatype agent_reply =
    Answered llm_message "tool_call list" "json option" | Waiting_for_tool llm_message | Reconciled_reply string bool
  | Context_reply agent_context | Refused agent_error

datatype agent_event =
    Step_completed nat llm_message | Tool_call_requested nat tool_call | Tool_result_observed string string bool
  | Step_failed nat agent_error | Session_reconciled string bool

record checkpoint_config =
  cc_session :: string
  cc_actor :: "string option"

record agent_options =
  ao_system :: "string option"
  ao_definitions :: "string list option"
  ao_history :: "llm_message list"
  ao_state :: "agent_context option"           \<comment> \<open>\<open>initialCheckpointState\<close>\<close>
  ao_checkpoint :: "checkpoint_config option"

record agent_env =
  av_host :: checkpoint_host
  av_render :: "json \<Rightarrow> string"
  av_number :: "rat \<Rightarrow> string"
  av_tools :: "string list"                    \<comment> \<open>the registered tools\<close>

section \<open>Contexts as JSON\<close>

fun role_text :: "agent_role \<Rightarrow> string" where
  "role_text System_role = ''system''"
| "role_text User_role = ''user''"
| "role_text Assistant_role = ''assistant''"
| "role_text Tool_role = ''tool''"

definition tool_call_json :: "tool_call \<Rightarrow> json" where
  "tool_call_json t = JObject [(''id'', JString (tc_id t)), (''name'', JString (tc_name t)), (''input'', tc_input t)]"

definition message_json :: "llm_message \<Rightarrow> json" where
  "message_json m = JObject
     ([(''role'', JString (role_text (lm_role m))), (''content'', JString (lm_content m))]
      @ optional_entry ''toolCallId'' (map_option JString (lm_call m)) @ optional_entry ''toolName'' (map_option JString (lm_tool m))
      @ optional_entry ''toolCalls'' (map_option (\<lambda>ts. JArray (map tool_call_json ts)) (lm_calls m)))"

definition agent_error_json :: "agent_error option \<Rightarrow> json" where
  "agent_error_json e = (case e of None \<Rightarrow> JNull
     | Some x \<Rightarrow> JObject [(''code'', JString (ae_code x)), (''message'', JString (ae_message x))])"

definition context_json :: "agent_context \<Rightarrow> json" where
  "context_json c = JObject
     (optional_entry ''system'' (map_option JString (ax_system c))
      @ [(''history'', JArray (map message_json (ax_history c))), (''steps'', JNumber (of_nat (ax_steps c))),
         (''pendingToolCalls'', JArray (map tool_call_json (ax_pending c))), (''lastError'', agent_error_json (ax_error c))])"

fun role_of :: "json option \<Rightarrow> agent_role option" where
  "role_of (Some (JString s)) =
     (if s = ''system'' then Some System_role else if s = ''user'' then Some User_role
      else if s = ''assistant'' then Some Assistant_role else if s = ''tool'' then Some Tool_role else None)"
| "role_of _ = None"

text \<open>Whether every element of a list is what a check makes of it: \<open>every\<close> with what the checked values are.\<close>

fun all_of :: "('a \<Rightarrow> 'b option) \<Rightarrow> 'a list \<Rightarrow> 'b list option" where
  "all_of f [] = Some []"
| "all_of f (x # xs) = (case (f x, all_of f xs) of (Some y, Some ys) \<Rightarrow> Some (y # ys) | _ \<Rightarrow> None)"

fun tool_call_of :: "json \<Rightarrow> tool_call option" where
  "tool_call_of v = (case (text_value (field v ''id''), text_value (field v ''name''), field v ''input'') of
     (Some i, Some n, Some x) \<Rightarrow> Some \<lparr>tc_id = i, tc_name = n, tc_input = x\<rparr> | _ \<Rightarrow> None)"

text \<open>An optional text: absent or a text.\<close>

definition text_or_absent :: "json option \<Rightarrow> string option option" where
  "text_or_absent v = (case v of None \<Rightarrow> Some None | Some (JString s) \<Rightarrow> Some (Some s) | _ \<Rightarrow> None)"

definition tool_calls_of :: "json option \<Rightarrow> tool_call list option option" where
  "tool_calls_of v = (case v of None \<Rightarrow> Some None | Some (JArray xs) \<Rightarrow> map_option Some (all_of tool_call_of xs) | _ \<Rightarrow> None)"

definition message_of :: "json \<Rightarrow> llm_message option" where
  "message_of v = (case (role_of (field v ''role''), text_value (field v ''content''), text_or_absent (field v ''toolCallId''),
       text_or_absent (field v ''toolName''), tool_calls_of (field v ''toolCalls'')) of
     (Some r, Some c, Some i, Some t, Some cs) \<Rightarrow> Some \<lparr>lm_role = r, lm_content = c, lm_call = i, lm_tool = t, lm_calls = cs\<rparr>
   | _ \<Rightarrow> None)"

definition error_of :: "json option \<Rightarrow> agent_error option option" where
  "error_of v = (case v of
       Some JNull \<Rightarrow> Some None
     | Some w \<Rightarrow> (case (text_value (field w ''code''), text_value (field w ''message'')) of
         (Some c, Some m) \<Rightarrow> Some (Some \<lparr>ae_code = c, ae_message = m\<rparr>) | _ \<Rightarrow> None)
     | None \<Rightarrow> None)"

definition steps_of :: "json option \<Rightarrow> nat option" where
  "steps_of v = (case v of Some (JNumber r) \<Rightarrow> if integer_from 0 v then Some (nat \<lfloor>r\<rfloor>) else None | _ \<Rightarrow> None)"

definition list_of :: "(json \<Rightarrow> 'a option) \<Rightarrow> json option \<Rightarrow> 'a list option" where
  "list_of f v = (case v of Some (JArray xs) \<Rightarrow> all_of f xs | _ \<Rightarrow> None)"

text \<open>\<open>isCheckpointStateCandidate\<close>, with the state it accepts.\<close>

definition state_of :: "json option \<Rightarrow> agent_context option" where
  "state_of v = (case v of
       Some w \<Rightarrow> (case (text_or_absent (field w ''system''), list_of message_of (field w ''history''), steps_of (field w ''steps''),
             list_of tool_call_of (field w ''pendingToolCalls''), error_of (field w ''lastError'')) of
           (Some s, Some h, Some n, Some p, Some e) \<Rightarrow>
             Some \<lparr>ax_system = s, ax_history = h, ax_steps = n, ax_pending = p, ax_error = e\<rparr>
         | _ \<Rightarrow> None)
     | None \<Rightarrow> None)"

section \<open>Parts of a turn\<close>

definition initial_context :: "agent_options \<Rightarrow> agent_context" where
  "initial_context op = (case ao_state op of
       Some c \<Rightarrow> c\<lparr>ax_system := (case ax_system c of None \<Rightarrow> ao_system op | s \<Rightarrow> s)\<rparr>
     | None \<Rightarrow> \<lparr>ax_system = ao_system op, ax_history = ao_history op, ax_steps = 0, ax_pending = [], ax_error = None\<rparr>)"

definition model_tools :: "agent_env \<Rightarrow> string list" where
  "model_tools ev = filter (\<lambda>n. n \<noteq> ''llm'') (av_tools ev)"

definition model_definitions :: "string list option \<Rightarrow> string list \<Rightarrow> string list option" where
  "model_definitions requested allowed = (case requested of
       None \<Rightarrow> None
     | Some ds \<Rightarrow> (let ok = filter (\<lambda>d. d \<in> set allowed) ds in if ok = [] then None else Some ok))"

definition observed_message :: "agent_env \<Rightarrow> string \<Rightarrow> string \<Rightarrow> bool \<Rightarrow> json \<Rightarrow> llm_message" where
  "observed_message ev i name ok out =
     \<lparr>lm_role = Tool_role, lm_content = av_render ev (JObject [(''ok'', JBool ok), (''output'', out)]), lm_call = Some i,
      lm_tool = Some name, lm_calls = None\<rparr>"

record turn_result =
  tu_context :: agent_context
  tu_reply :: agent_reply
  tu_emit :: "agent_event list"

definition failure_result :: "agent_context \<Rightarrow> agent_error \<Rightarrow> agent_event list \<Rightarrow> turn_result" where
  "failure_result c e prefix =
     \<lparr>tu_context = c\<lparr>ax_error := Some e\<rparr>, tu_reply = Refused e, tu_emit = prefix @ [Step_failed (ax_steps c) e]\<rparr>"

definition agent_failure :: "string \<Rightarrow> string \<Rightarrow> agent_error" where
  "agent_failure c m = \<lparr>ae_code = c, ae_message = m\<rparr>"

text \<open>An error that is thrown: its \<open>code\<close>, when it has one that is a text, and its message.\<close>

datatype thrown = Thrown "string option" string

fun thrown_text :: "thrown \<Rightarrow> string" where
  "thrown_text (Thrown c m) = m"

fun thrown_error :: "thrown \<Rightarrow> agent_error" where
  "thrown_error (Thrown (Some c) m) = agent_failure c m"
| "thrown_error (Thrown None m) =
     agent_failure (if has_substring m ''Actor tool \"llm\" is not registered.'' then ''LLM_TOOL_UNAVAILABLE'' else ''AGENT_LOOP_FAILED'') m"

section \<open>Checkpoints\<close>

definition numbered_text :: "string \<Rightarrow> string \<Rightarrow> nat \<Rightarrow> string" where
  "numbered_text p sid n = p @ sid @ '':'' @ nat_digits n"

definition agent_identity :: "checkpoint_config \<Rightarrow> nat \<Rightarrow> actor_identity" where
  "agent_identity cc n = \<lparr>ai_actor = (case cc_actor cc of None \<Rightarrow> ''actor://local/agent'' | Some a \<Rightarrow> a), ai_session = cc_session cc,
     ai_turn = ''turn:'' @ nat_digits n, ai_trace = numbered_text ''trace:'' (cc_session cc) n,
     ai_command = numbered_text ''cmd:'' (cc_session cc) n, ai_correlation = numbered_text ''corr:'' (cc_session cc) n,
     ai_causation = numbered_text ''cause:'' (cc_session cc) n\<rparr>"

datatype turn_receipt = Receipt_of llm_result | Receipt_plain

definition sanitized_message :: "llm_message \<Rightarrow> json" where
  "sanitized_message m = JObject
     ((''role'', JString (role_text (lm_role m)))
      # optional_entry ''toolCallId'' (map_option JString (lm_call m)) @ optional_entry ''toolName'' (map_option JString (lm_tool m))
      @ optional_entry ''toolCalls'' (map_option (\<lambda>ts. JArray (map tool_call_json ts)) (lm_calls m)))"

definition sanitized_receipt :: "turn_receipt \<Rightarrow> json" where
  "sanitized_receipt r = (case r of
       Receipt_plain \<Rightarrow> JObject [(''recorded'', JBool True)]
     | Receipt_of (Llm_ok m usage) \<Rightarrow>
         JObject [(''ok'', JBool True), (''value'', JObject (optional_entry ''usage'' usage @ [(''message'', sanitized_message m)]))]
     | Receipt_of (Llm_failed e) \<Rightarrow> JObject [(''ok'', JBool False), (''error'', agent_error_json (Some e))])"

record checkpoint_input =
  ci_step :: nat
  ci_phase :: effect_phase
  ci_intent :: "json option"
  ci_receipt :: "turn_receipt option"
  ci_reason :: "string option"
  ci_key :: "string option"                    \<comment> \<open>\<open>checkpointKey\<close> and \<open>effectKey\<close>\<close>

definition checkpoint_id :: "string \<Rightarrow> nat \<Rightarrow> string \<Rightarrow> string" where
  "checkpoint_id sid n key = ''checkpoint:'' @ sid @ '':'' @ nat_digits n @ '':'' @ key"

definition turn_envelope :: "agent_env \<Rightarrow> checkpoint_config \<Rightarrow> int \<Rightarrow> agent_context \<Rightarrow> checkpoint_input \<Rightarrow> checkpoint_envelope" where
  "turn_envelope ev cc now c i =
     (let effect_key = (case ci_key i of None \<Rightarrow> nat_digits (ci_step i) | Some k \<Rightarrow> k)
      in \<lparr>ck_session = cc_session cc,
          ck_checkpoint = checkpoint_id (cc_session cc) (ci_step i) (case ci_key i of None \<Rightarrow> phase_text (ci_phase i) | Some k \<Rightarrow> k),
          ck_actor = agent_identity cc (ci_step i), ck_deterministic = context_json c,
          ck_effect = Some \<lparr>es_effect_id = ''effect:'' @ cc_session cc @ '':'' @ effect_key,
             es_attempt_id = ''effect-attempt:'' @ cc_session cc @ '':'' @ effect_key, es_phase = ci_phase i, es_irreversible = True,
             es_intent = ci_intent i, es_receipt = map_option sanitized_receipt (ci_receipt i)\<rparr>,
          ck_continuation = None,
          ck_reconciliation = (if ci_phase i = Reconciliation_required
             then \<lparr>rc_status = Rec_required, rc_reason = Some (case ci_reason i of None \<Rightarrow> ''Checkpoint requires reconciliation before resume.'' | Some r \<Rightarrow> r)\<rparr>
             else \<lparr>rc_status = Rec_clear, rc_reason = None\<rparr>),
          ck_recorded_at = hs_iso (av_host ev) now, ck_expires_at = None, ck_stale_at = None, ck_redacted = [], ck_metadata = None\<rparr>)"

text \<open>How the store takes a write: it answers, or throws without or after having stored.\<close>

datatype write_mode = Write_answers | Write_lost thrown | Write_unanswered thrown

definition durable :: "write_result \<Rightarrow> bool" where
  "durable r = (case r of Stored e \<Rightarrow> True | Replaced e old \<Rightarrow> True | Duplicate_write e \<Rightarrow> True | Expired_write e \<Rightarrow> False)"

text \<open>The attempt to write a checkpoint: what it throws, if it does not become durable, and the store.\<close>

definition write_envelope :: "agent_env \<Rightarrow> int \<Rightarrow> write_mode \<Rightarrow> checkpoint_envelope \<Rightarrow> checkpoint_store \<Rightarrow> (thrown + write_result) \<times> checkpoint_store" where
  "write_envelope ev now mode e st = (case create_envelope (av_host ev) (envelope_json e) of
       Inl why \<Rightarrow> (Inl (Thrown None why), st)
     | Inr e1 \<Rightarrow> (case mode of
         Write_lost x \<Rightarrow> (Inl x, st)
       | Write_unanswered x \<Rightarrow> (Inl x, snd (store_write (av_host ev) e1 now st))
       | Write_answers \<Rightarrow> (case store_write (av_host ev) e1 now st of (r, st1) \<Rightarrow> (Inr r, st1))))"

definition write_refused :: agent_error where
  "write_refused = agent_failure ''CHECKPOINT_WRITE_FAILED'' ''Checkpoint write failed: expired.''"

text \<open>\<open>requireCheckpointWriteStored\<close> with the error that its callers make of what it throws.\<close>

definition require_stored :: "agent_env \<Rightarrow> int \<Rightarrow> write_mode \<Rightarrow> checkpoint_envelope \<Rightarrow> checkpoint_store \<Rightarrow> agent_error option \<times> checkpoint_store" where
  "require_stored ev now mode e st = (case write_envelope ev now mode e st of
       (Inl x, st1) \<Rightarrow> (Some (thrown_error x), st1)
     | (Inr r, st1) \<Rightarrow> (if durable r then None else Some write_refused, st1))"

datatype bootstrap = Boot_ready agent_context | Boot_blocked agent_error

definition read_failure :: "thrown \<Rightarrow> agent_error" where
  "read_failure x = agent_failure ''CHECKPOINT_READ_FAILED'' (''Checkpoint read failed: '' @ thrown_text x)"

definition bootstrap_checkpoint :: "agent_env \<Rightarrow> checkpoint_config option \<Rightarrow> int \<Rightarrow> thrown option \<Rightarrow> agent_context \<Rightarrow> checkpoint_store \<Rightarrow> bootstrap" where
  "bootstrap_checkpoint ev cc now unreadable c st = (case cc of
       None \<Rightarrow> Boot_ready c
     | Some cf \<Rightarrow> (case unreadable of
         Some x \<Rightarrow> Boot_blocked (read_failure x)
       | None \<Rightarrow> (case rehydrate (av_number ev) [] (store_read (av_host ev) (cc_session cf) now st) of
             Resumed e \<Rightarrow> (case state_of (Some (ck_deterministic e)) of
                 Some c1 \<Rightarrow> Boot_ready c1
               | None \<Rightarrow> Boot_blocked (agent_failure ''CHECKPOINT_INVALID_STATE'' ''Checkpoint deterministic state is invalid.''))
           | Deferred e why \<Rightarrow> Boot_blocked (agent_failure ''CHECKPOINT_RECONCILIATION_REQUIRED'' why)
           | Manual sid reason detail e \<Rightarrow>
               if reason = ''missing'' then Boot_ready c
               else Boot_blocked (agent_failure ''CHECKPOINT_RECOVERY_REQUIRED''
                 (case detail of None \<Rightarrow> ''Checkpoint recovery required: '' @ reason @ ''.'' | Some d \<Rightarrow> d)))))"

section \<open>Reconciliation\<close>

definition reconciled_envelope :: "agent_env \<Rightarrow> int \<Rightarrow> string \<Rightarrow> bool \<Rightarrow> agent_context \<Rightarrow> checkpoint_envelope \<Rightarrow> checkpoint_envelope" where
  "reconciled_envelope ev now receipt applied c e =
     e\<lparr>ck_checkpoint := ck_checkpoint e @ '':reconciled:'' @ receipt, ck_deterministic := context_json c,
       ck_effect := map_option (\<lambda>f. f\<lparr>es_phase := Receipt_recorded, es_receipt := Some (JObject
          [(''receiptId'', JString receipt), (''receiptKind'', JString ''reconciliation''), (''status'', JString ''reconciled''),
           (''outcome'', JString (if applied then ''effect_applied'' else ''effect_not_applied''))])\<rparr>) (ck_effect e),
       ck_reconciliation := \<lparr>rc_status = Rec_clear, rc_reason = None\<rparr>, ck_recorded_at := hs_iso (av_host ev) now, ck_stale_at := None\<rparr>"

definition reconcile_checkpoint :: "agent_env \<Rightarrow> checkpoint_config \<Rightarrow> int \<Rightarrow> thrown option \<Rightarrow> write_mode \<Rightarrow> string \<Rightarrow> bool \<Rightarrow> json option
    \<Rightarrow> checkpoint_store \<Rightarrow> (agent_error + agent_context) \<times> checkpoint_store" where
  "reconcile_checkpoint ev cc now unreadable mode receipt applied state st =
     (if blank receipt then (Inl (agent_failure ''CHECKPOINT_RECONCILIATION_INVALID'' ''Reconciliation requires a non-empty receiptId.''), st)
      else (case unreadable of
          Some x \<Rightarrow> (Inl (read_failure x), st)
        | None \<Rightarrow> (case rehydrate (av_number ev) [] (store_read (av_host ev) (cc_session cc) now st) of
            Deferred e why \<Rightarrow>
              (case state_of (Some (ck_deterministic e)) of
                 None \<Rightarrow> (Inl (agent_failure ''CHECKPOINT_INVALID_STATE'' ''Checkpoint deterministic state is invalid.''), st)
               | Some old \<Rightarrow>
                   (case (if applied then state_of state else Some old) of
                      None \<Rightarrow> (Inl (agent_failure ''CHECKPOINT_RECONCILIATION_INVALID''
                         ''Applied-effect reconciliation requires the resulting deterministic checkpoint state.''), st)
                    | Some c \<Rightarrow>
                        (case write_envelope ev now mode (reconciled_envelope ev now receipt applied c e) st of
                           (Inl x, st1) \<Rightarrow> (Inl (agent_failure ''CHECKPOINT_WRITE_FAILED'' (''Checkpoint write failed: '' @ thrown_text x)), st1)
                         | (Inr r, st1) \<Rightarrow> (if durable r then Inr c else Inl write_refused, st1))))
          | _ \<Rightarrow> (Inl (agent_failure ''CHECKPOINT_RECONCILIATION_NOT_REQUIRED'' ''The current checkpoint is not awaiting reconciliation.''), st))))"

section \<open>A turn\<close>

text \<open>A call of the model that is under way: what the turn has read and computed before it.\<close>

record open_call =
  oc_step :: nat
  oc_message :: agent_message
  oc_active :: agent_context
  oc_context :: agent_context              \<comment> \<open>\<open>executionContext\<close>\<close>
  oc_observed :: "agent_event list"

datatype turn = Turn_ends turn_result | Turn_calls open_call llm_request

definition message_kind :: "agent_message \<Rightarrow> string" where
  "message_kind m = (case m of Start_agent p s \<Rightarrow> ''START_AGENT'' | Observe_tool_result i n ok x \<Rightarrow> ''OBSERVE_TOOL_RESULT''
     | Reconcile_session r b c \<Rightarrow> ''RECONCILE_AGENT_SESSION'' | Get_agent_context \<Rightarrow> ''GET_AGENT_CONTEXT'')"

definition llm_intent :: "agent_message \<Rightarrow> json" where
  "llm_intent m = JObject [(''tool'', JString ''llm''), (''messageType'', JString (message_kind m))]"

text \<open>A write of the turn; without a store nothing is to be written.\<close>

definition turn_write :: "agent_env \<Rightarrow> agent_options \<Rightarrow> int \<Rightarrow> write_mode \<Rightarrow> agent_context \<Rightarrow> checkpoint_input \<Rightarrow> checkpoint_store
    \<Rightarrow> agent_error option \<times> checkpoint_store" where
  "turn_write ev op now mode c i st = (case ao_checkpoint op of
       None \<Rightarrow> (None, st)
     | Some cc \<Rightarrow> require_stored ev now mode (turn_envelope ev cc now c i) st)"

definition turn_messages :: "agent_env \<Rightarrow> agent_message \<Rightarrow> llm_message list" where
  "turn_messages ev m = (case m of
       Start_agent p s \<Rightarrow> [\<lparr>lm_role = User_role, lm_content = p, lm_call = None, lm_tool = None, lm_calls = None\<rparr>]
     | Observe_tool_result i name ok out \<Rightarrow> [observed_message ev i name ok out]
     | _ \<Rightarrow> [])"

definition turn_system :: "agent_options \<Rightarrow> agent_message \<Rightarrow> agent_context \<Rightarrow> string option" where
  "turn_system op m c =
     (let rest = (case ax_system c of None \<Rightarrow> ao_system op | s \<Rightarrow> s)
      in case m of Start_agent p (Some s) \<Rightarrow> Some s | _ \<Rightarrow> rest)"

definition call_model :: "agent_env \<Rightarrow> agent_options \<Rightarrow> int \<Rightarrow> write_mode \<Rightarrow> agent_message \<Rightarrow> agent_context \<Rightarrow> agent_context \<Rightarrow> agent_event list
    \<Rightarrow> checkpoint_store \<Rightarrow> turn \<times> checkpoint_store" where
  "call_model ev op now mode m active c observed st =
     (let n = ax_steps active + 1;
          (failed, st1) = turn_write ev op now mode c \<lparr>ci_step = n, ci_phase = Intent_recorded, ci_intent = Some (llm_intent m), ci_receipt = None,
             ci_reason = None, ci_key = None\<rparr> st
      in case failed of
           Some e \<Rightarrow> (Turn_ends (failure_result c e observed), st1)
         | None \<Rightarrow> (Turn_calls \<lparr>oc_step = n, oc_message = m, oc_active = active, oc_context = c, oc_observed = observed\<rparr>
             \<lparr>lq_system = ax_system c, lq_messages = ax_history c, lq_tools = model_tools ev,
              lq_definitions = model_definitions (ao_definitions op) (model_tools ev)\<rparr>, st1))"

definition begin_turn :: "agent_env \<Rightarrow> agent_options \<Rightarrow> int \<Rightarrow> thrown option \<Rightarrow> write_mode \<Rightarrow> agent_message \<Rightarrow> agent_context \<Rightarrow> checkpoint_store
    \<Rightarrow> turn \<times> checkpoint_store" where
  "begin_turn ev op now unreadable mode m context st = (case m of
       Reconcile_session receipt applied state \<Rightarrow>
         (case ao_checkpoint op of
            None \<Rightarrow> (Turn_ends (failure_result context (agent_failure ''CHECKPOINT_RECONCILIATION_UNAVAILABLE''
              ''Agent-session reconciliation requires a configured checkpoint store.'') []), st)
          | Some cc \<Rightarrow>
              (case reconcile_checkpoint ev cc now unreadable mode receipt applied state st of
                 (Inl e, st1) \<Rightarrow> (Turn_ends (failure_result context e []), st1)
               | (Inr c, st1) \<Rightarrow> (Turn_ends \<lparr>tu_context = c, tu_reply = Reconciled_reply receipt applied,
                     tu_emit = [Session_reconciled receipt applied]\<rparr>, st1)))
     | _ \<Rightarrow>
         (case bootstrap_checkpoint ev (ao_checkpoint op) now unreadable context st of
            Boot_blocked e \<Rightarrow> (Turn_ends (failure_result context e []), st)
          | Boot_ready active \<Rightarrow>
              (let msgs = ax_history active @ turn_messages ev m; system = turn_system op m active
               in case m of
                    Get_agent_context \<Rightarrow> (Turn_ends \<lparr>tu_context = active, tu_reply = Context_reply active, tu_emit = []\<rparr>, st)
                  | Observe_tool_result i name ok out \<Rightarrow>
                      (let pending = filter (\<lambda>t. tc_id t \<noteq> i) (ax_pending active); observed = [Tool_result_observed i name ok]
                       in if pending \<noteq> []
                          then (let c = \<lparr>ax_system = system, ax_history = msgs, ax_steps = ax_steps active, ax_pending = pending, ax_error = None\<rparr>;
                                    (failed, st1) = turn_write ev op now mode c \<lparr>ci_step = ax_steps active, ci_phase = Receipt_recorded,
                                      ci_intent = Some (JObject [(''tool'', JString name), (''toolCallId'', JString i)]),
                                      ci_receipt = Some Receipt_plain, ci_reason = None, ci_key = Some (''tool_result:'' @ i)\<rparr> st
                                in case failed of
                                     Some e \<Rightarrow> (Turn_ends (failure_result active e observed), st1)
                                   | None \<Rightarrow> (Turn_ends \<lparr>tu_context = c, tu_reply = Waiting_for_tool (observed_message ev i name ok out),
                                           tu_emit = observed\<rparr>, st1))
                          else call_model ev op now mode m active
                            (active\<lparr>ax_system := system, ax_history := msgs, ax_pending := pending, ax_error := None\<rparr>) observed st)
                  | _ \<Rightarrow> call_model ev op now mode m active
                      (active\<lparr>ax_system := system, ax_history := msgs, ax_error := None\<rparr>) [] st)))"

text \<open>What the call of the model comes to: a result, or something thrown.\<close>

datatype model_outcome = Call_returns llm_result | Call_throws thrown

definition end_turn :: "agent_env \<Rightarrow> agent_options \<Rightarrow> int \<Rightarrow> write_mode \<Rightarrow> open_call \<Rightarrow> model_outcome \<Rightarrow> checkpoint_store
    \<Rightarrow> turn_result \<times> checkpoint_store" where
  "end_turn ev op now mode oc out st =
     (let n = oc_step oc; c = oc_context oc; observed = oc_observed oc;
          write = (\<lambda>cx phase receipt reason. turn_write ev op now mode cx \<lparr>ci_step = n, ci_phase = phase, ci_intent = Some (llm_intent (oc_message oc)),
             ci_receipt = receipt, ci_reason = reason, ci_key = None\<rparr> st)
      in case out of
           Call_throws x \<Rightarrow>
             (let f = failure_result c (thrown_error x) observed;
                  (failed, st1) = write (tu_context f) Reconciliation_required None (Some (ae_message (thrown_error x)))
              in (f, st1))
         | Call_returns (Llm_failed e) \<Rightarrow>
             (let f = failure_result c e observed; (failed, st1) = write (tu_context f) Receipt_recorded (Some (Receipt_of (Llm_failed e))) None
              in (f, st1))
         | Call_returns (Llm_ok a usage) \<Rightarrow>
             (let calls = (case lm_calls a of None \<Rightarrow> [] | Some ts \<Rightarrow> ts);
                  c1 = \<lparr>ax_system = ax_system c, ax_history = ax_history c @ [a], ax_steps = n, ax_pending = ax_pending c @ calls, ax_error = None\<rparr>;
                  emit = (if calls = [] then [Step_completed n a] else map (Tool_call_requested n) calls);
                  (failed, st1) = write c1 Receipt_recorded (Some (Receipt_of (Llm_ok a usage))) None
              in (case failed of None \<Rightarrow> \<lparr>tu_context = c1, tu_reply = Answered a calls usage, tu_emit = observed @ emit\<rparr>
                  | Some e \<Rightarrow> failure_result c1 e (observed @ emit), st1)))"
section \<open>A session\<close>

text \<open>
  An actor with a checkpoint store: its messages in order, each to its end before the next, crashes that lose the context and a call
  that is under way (the store stays), and a ledger of what happened, newest entry first: what the store took and each call of the model.
\<close>

datatype ledger_entry = Intent_stored string | Model_called nat | Outcome_stored | Doubt_stored

record session =
  sn_context :: agent_context
  sn_store :: checkpoint_store
  sn_open :: "open_call option"
  sn_ledger :: "ledger_entry list"

datatype session_event =
    Message_arrives agent_message int "thrown option" write_mode
  | Call_ends model_outcome int write_mode
  | Crash

definition stored_entry :: "checkpoint_envelope \<Rightarrow> ledger_entry list" where
  "stored_entry e = (case ck_effect e of
       None \<Rightarrow> []
     | Some f \<Rightarrow> (case es_phase f of
         No_effect \<Rightarrow> [] | Intent_recorded \<Rightarrow> [Intent_stored (ck_checkpoint e)] | Receipt_recorded \<Rightarrow> [Outcome_stored]
       | Reconciliation_required \<Rightarrow> [Doubt_stored]))"

definition store_entries :: "string \<Rightarrow> checkpoint_store \<Rightarrow> checkpoint_store \<Rightarrow> ledger_entry list" where
  "store_entries sid old new =
     (if omap_get new sid = omap_get old sid then [] else case omap_get new sid of None \<Rightarrow> [] | Some e \<Rightarrow> stored_entry e)"

definition session_start :: "agent_options \<Rightarrow> session" where
  "session_start op = \<lparr>sn_context = initial_context op, sn_store = [], sn_open = None, sn_ledger = []\<rparr>"

definition end_session_turn :: "string \<Rightarrow> turn_result \<Rightarrow> checkpoint_store \<Rightarrow> session \<Rightarrow> session" where
  "end_session_turn sid r st s =
     \<lparr>sn_context = tu_context r, sn_store = st, sn_open = None, sn_ledger = store_entries sid (sn_store s) st @ sn_ledger s\<rparr>"

fun session_step :: "agent_env \<Rightarrow> agent_options \<Rightarrow> checkpoint_config \<Rightarrow> session_event \<Rightarrow> session \<Rightarrow> turn_result option \<times> session" where
  "session_step ev op cc (Message_arrives m now unreadable mode) s =
     (case sn_open s of
        Some oc \<Rightarrow> (None, s)
      | None \<Rightarrow> (case begin_turn ev (op\<lparr>ao_checkpoint := Some cc\<rparr>) now unreadable mode m (sn_context s) (sn_store s) of
          (Turn_ends r, st) \<Rightarrow> (Some r, end_session_turn (cc_session cc) r st s)
        | (Turn_calls oc q, st) \<Rightarrow> (None, s\<lparr>sn_store := st, sn_open := Some oc,
            sn_ledger := Model_called (oc_step oc) # store_entries (cc_session cc) (sn_store s) st @ sn_ledger s\<rparr>)))"
| "session_step ev op cc (Call_ends out now mode) s =
     (case sn_open s of
        None \<Rightarrow> (None, s)
      | Some oc \<Rightarrow> (case end_turn ev (op\<lparr>ao_checkpoint := Some cc\<rparr>) now mode oc out (sn_store s) of
          (r, st) \<Rightarrow> (Some r, end_session_turn (cc_session cc) r st s)))"
| "session_step ev op cc Crash s = (None, s\<lparr>sn_context := initial_context op, sn_open := None\<rparr>)"

definition session_run :: "agent_env \<Rightarrow> agent_options \<Rightarrow> checkpoint_config \<Rightarrow> session_event list \<Rightarrow> session" where
  "session_run ev op cc es = snd (run_machine (session_step ev op cc) es (session_start op))"

text \<open>The order in which a ledger may go: a state, and what each entry makes of it.\<close>

datatype duty = Free | Intended string | Called

fun duty_step :: "string \<Rightarrow> ledger_entry \<Rightarrow> duty \<Rightarrow> duty option" where
  "duty_step sid (Intent_stored i) Free = Some (Intended i)"
| "duty_step sid (Model_called n) (Intended i) = (if i = checkpoint_id sid n ''intent_recorded'' then Some Called else None)"
| "duty_step sid Doubt_stored Called = Some Called"
| "duty_step sid Outcome_stored d = Some Free"
| "duty_step sid e d = None"

fun duty_of :: "string \<Rightarrow> ledger_entry list \<Rightarrow> duty option" where
  "duty_of sid [] = Some Free"
| "duty_of sid (e # older) = Option.bind (duty_of sid older) (duty_step sid e)"

section \<open>The checkpoint of a session\<close>

definition unsettled :: "checkpoint_envelope \<Rightarrow> bool" where
  "unsettled e \<longleftrightarrow> (\<exists>f. ck_effect e = Some f \<and> (es_irreversible f \<and> es_phase f = Intent_recorded \<and> es_receipt f = None
     \<or> es_phase f = Reconciliation_required))"

text \<open>An envelope that a turn writes never expires, and is either unsettled or about an outcome.\<close>

definition unexpiring :: "checkpoint_envelope \<Rightarrow> bool" where
  "unexpiring e \<longleftrightarrow> ck_expires_at e = None \<and> ck_stale_at e = None \<and> ck_continuation e = None \<and> ck_redacted e = []"

definition settled_outcome :: "checkpoint_envelope \<Rightarrow> bool" where
  "settled_outcome e \<longleftrightarrow> (\<exists>f. ck_effect e = Some f \<and> es_phase f = Receipt_recorded) \<and> rc_status (ck_reconciliation e) = Rec_clear
     \<and> (\<forall>n. ck_checkpoint e \<noteq> checkpoint_id (ck_session e) n ''intent_recorded'')"

lemma unexpiring_read: "unexpiring e \<Longrightarrow> classify_read hs e now = Present e"
  by (simp add: unexpiring_def classify_read_def due_def date_ms_def continuation_expiry_def continuation_redacted_def)

lemma unexpiring_write:
  "unexpiring e \<Longrightarrow> store_write hs e now st = (case omap_get st (ck_session e) of
     None \<Rightarrow> (Stored e, omap_set (ck_session e) e st)
   | Some old \<Rightarrow> if ck_checkpoint old = ck_checkpoint e then (Duplicate_write old, st) else (Replaced e old, omap_set (ck_session e) e st))"
  by (simp add: unexpiring_def store_write_def is_duplicate_read_def classify_envelope due_def date_ms_def continuation_expiry_def
      split: option.split)

lemma created_itself: "create_envelope hs (envelope_json e) = Inr e1 \<Longrightarrow> e1 = e"
  by (simp add: create_envelope_def normalize_json split: option.splits)

text \<open>What a write of a plain envelope leaves: the store as it was, or the envelope as the session's checkpoint.\<close>

lemma write_outcomes:
  assumes "unexpiring e" "write_envelope ev now mode e st = (r, st1)"
  shows "st1 = st \<and> (case r of Inl x \<Rightarrow> True | Inr w \<Rightarrow> durable w \<longrightarrow> (\<exists>old. omap_get st (ck_session e) = Some old \<and> ck_checkpoint old = ck_checkpoint e))
       \<or> st1 = omap_set (ck_session e) e st \<and> (case omap_get st (ck_session e) of None \<Rightarrow> True | Some old \<Rightarrow> ck_checkpoint old \<noteq> ck_checkpoint e)"
  using assms(2)
  by (auto simp: write_envelope_def unexpiring_write [OF assms(1)] split: sum.splits write_mode.splits option.splits if_splits
      dest!: created_itself)

lemma settled_rehydrates:
  assumes "unexpiring e"
  shows "settled_outcome e \<Longrightarrow> rehydrate num fmts (store_read hs sid now [(sid, e)]) = Resumed e"
    "unsettled e \<Longrightarrow> \<exists>why. rehydrate num fmts (store_read hs sid now [(sid, e)]) = Deferred e why"
  using assms by (auto simp: store_read_def unexpiring_read rehydrate_def rehydrate_present_def unexpiring_def rehydrate_effect_def settled_outcome_def unsettled_def)
lemma session_rehydrates:
  assumes "omap_get st sid = Some e" "unexpiring e"
  shows "settled_outcome e \<Longrightarrow> rehydrate num fmts (store_read hs sid now st) = Resumed e"
    "unsettled e \<Longrightarrow> \<exists>why. rehydrate num fmts (store_read hs sid now st) = Deferred e why"
  using assms by (auto simp: store_read_def unexpiring_read rehydrate_def rehydrate_present_def unexpiring_def rehydrate_effect_def settled_outcome_def unsettled_def)

lemma nat_digits_colon: "CHR '':'' \<notin> set (nat_digits n)"
proof (induction n rule: less_induct)
  case (less n)
  have "of_char (digit_char n) \<noteq> (of_char (CHR '':'') :: nat)" unfolding digit_char_code by simp
  then have "CHR '':'' \<noteq> digit_char n" by metis
  then show ?case using less [of "n div 10"] by (subst nat_digits.simps) auto
qed

lemma split_at_mark:
  assumes "c \<notin> set xs" "c \<notin> set ys"
  shows "xs @ c # us = ys @ c # vs \<longleftrightarrow> xs = ys \<and> us = vs"
  using assms by (induction xs arbitrary: ys) (case_tac ys, auto)+

lemma checkpoint_id_inject [simp]: "checkpoint_id sid n k = checkpoint_id sid m k' \<longleftrightarrow> n = m \<and> k = k'"
  using split_at_mark [OF nat_digits_colon nat_digits_colon, of n k m k'] by (auto simp: checkpoint_id_def)

lemma reconciled_id:
  assumes "c \<notin> set k'" "c \<in> set suffix"
  shows "checkpoint_id sid n k @ suffix \<noteq> checkpoint_id sid m k'"
proof -
  have "checkpoint_id sid n k @ suffix = checkpoint_id sid n (k @ suffix)" by (simp add: checkpoint_id_def)
  then show ?thesis using assms by auto
qed

text \<open>The envelopes that turns write.\<close>

lemma turn_envelope_facts [simp]:
  "unexpiring (turn_envelope ev cc now c i)" "ck_session (turn_envelope ev cc now c i) = cc_session cc"
  "ck_deterministic (turn_envelope ev cc now c i) = context_json c"
  "ck_checkpoint (turn_envelope ev cc now c i) =
     checkpoint_id (cc_session cc) (ci_step i) (case ci_key i of None \<Rightarrow> phase_text (ci_phase i) | Some k \<Rightarrow> k)"
  "stored_entry (turn_envelope ev cc now c i) = (case ci_phase i of No_effect \<Rightarrow> [] | Receipt_recorded \<Rightarrow> [Outcome_stored]
     | Reconciliation_required \<Rightarrow> [Doubt_stored]
     | Intent_recorded \<Rightarrow> [Intent_stored (checkpoint_id (cc_session cc) (ci_step i) (case ci_key i of None \<Rightarrow> phase_text (ci_phase i) | Some k \<Rightarrow> k))])"
  "unsettled (turn_envelope ev cc now c i) \<longleftrightarrow>
     ci_phase i = Intent_recorded \<and> ci_receipt i = None \<or> ci_phase i = Reconciliation_required"
  "settled_outcome (turn_envelope ev cc now c i) \<longleftrightarrow> ci_phase i = Receipt_recorded \<and> ci_key i \<noteq> Some ''intent_recorded''"
  by (auto simp: turn_envelope_def unexpiring_def Let_def stored_entry_def unsettled_def settled_outcome_def split: option.split effect_phase.split)

lemma reconciled_facts:
  assumes "unexpiring e" "unsettled e"
  shows "unexpiring (reconciled_envelope ev now receipt applied c e)"
    "ck_session (reconciled_envelope ev now receipt applied c e) = ck_session e"
    "ck_deterministic (reconciled_envelope ev now receipt applied c e) = context_json c"
    "ck_checkpoint (reconciled_envelope ev now receipt applied c e) \<noteq> ck_checkpoint e"
    "stored_entry (reconciled_envelope ev now receipt applied c e) = [Outcome_stored]"
  using assms by (auto simp: reconciled_envelope_def unexpiring_def unsettled_def stored_entry_def)

definition numbered_checkpoint :: "checkpoint_envelope \<Rightarrow> bool" where
  "numbered_checkpoint e \<longleftrightarrow> (\<exists>n k. ck_checkpoint e = checkpoint_id (ck_session e) n k)"

lemma reconciled_outcome:
  assumes "unsettled e" "numbered_checkpoint e"
  shows "settled_outcome (reconciled_envelope ev now receipt applied c e)"
    "numbered_checkpoint (reconciled_envelope ev now receipt applied c e)"
proof -
  obtain n k where i: "ck_checkpoint e = checkpoint_id (ck_session e) n k" using assms(2) by (auto simp: numbered_checkpoint_def)
  have "checkpoint_id (ck_session e) n k @ '':reconciled:'' @ receipt \<noteq> checkpoint_id (ck_session e) m ''intent_recorded''" for m
    by (rule reconciled_id [where c = "CHR '':''"]) simp_all
  then show "settled_outcome (reconciled_envelope ev now receipt applied c e)"
    using assms(1) by (auto simp: settled_outcome_def reconciled_envelope_def unsettled_def i)
  have "checkpoint_id (ck_session e) n k @ '':reconciled:'' @ receipt = checkpoint_id (ck_session e) n (k @ '':reconciled:'' @ receipt)"
    by (simp add: checkpoint_id_def)
  then show "numbered_checkpoint (reconciled_envelope ev now receipt applied c e)"
    by (auto simp: numbered_checkpoint_def reconciled_envelope_def i)
qed

definition session_ok :: "string \<Rightarrow> session \<Rightarrow> bool" where
  "session_ok sid s \<longleftrightarrow> (\<exists>d. duty_of sid (sn_ledger s) = Some d
     \<and> (case omap_get (sn_store s) sid of
          None \<Rightarrow> d = Free
        | Some e \<Rightarrow> unexpiring e \<and> ck_session e = sid \<and> numbered_checkpoint e \<and> (if d = Free then settled_outcome e else unsettled e))
     \<and> (case sn_open s of None \<Rightarrow> True
        | Some oc \<Rightarrow> d = Called \<and> (\<exists>e. omap_get (sn_store s) sid = Some e \<and> ck_checkpoint e = checkpoint_id sid (oc_step oc) ''intent_recorded'')))"
text \<open>What may become the checkpoint of a session, by its duty, and what a turn leaves in the store.\<close>

definition next_checkpoint :: "string \<Rightarrow> duty \<Rightarrow> checkpoint_envelope \<Rightarrow> bool" where
  "next_checkpoint sid d x \<longleftrightarrow> unexpiring x \<and> ck_session x = sid \<and> numbered_checkpoint x
     \<and> (settled_outcome x \<and> stored_entry x = [Outcome_stored]
        \<or> unsettled x \<and> (d = Called \<and> stored_entry x = [Doubt_stored] \<or> d = Free \<and> stored_entry x = [Intent_stored (ck_checkpoint x)]))"

definition store_effect :: "string \<Rightarrow> duty \<Rightarrow> checkpoint_store \<Rightarrow> checkpoint_store \<Rightarrow> bool" where
  "store_effect sid d st st1 \<longleftrightarrow> st1 = st \<or> (\<exists>x. st1 = omap_set sid x st \<and> next_checkpoint sid d x
     \<and> (case omap_get st sid of None \<Rightarrow> True | Some old \<Rightarrow> ck_checkpoint old \<noteq> ck_checkpoint x))"

lemma changed_entries:
  "case omap_get st sid of None \<Rightarrow> True | Some old \<Rightarrow> ck_checkpoint old \<noteq> ck_checkpoint x \<Longrightarrow>
     store_entries sid st (omap_set sid x st) = stored_entry x"
  by (auto simp: store_entries_def split: option.splits)

lemma no_entries [simp]: "store_entries sid st st = []" by (simp add: store_entries_def)

lemma outcome_settled: "settled_outcome e \<Longrightarrow> \<not> unsettled e"
  by (auto simp: settled_outcome_def unsettled_def)

lemma turn_end_ok:
  assumes "session_ok sid s" "duty_of sid (sn_ledger s) = Some d" "store_effect sid d (sn_store s) st"
  shows "session_ok sid (end_session_turn sid r st s)"
  using assms(3) [unfolded store_effect_def]
proof (elim disjE exE conjE)
  assume "st = sn_store s"
  then show ?thesis using assms(1) by (auto simp: session_ok_def end_session_turn_def split: option.splits)
next
  fix x assume x: "st = omap_set sid x (sn_store s)" "next_checkpoint sid d x"
    "case omap_get (sn_store s) sid of None \<Rightarrow> True | Some old \<Rightarrow> ck_checkpoint old \<noteq> ck_checkpoint x"
  obtain d1 where d1: "duty_of sid (stored_entry x @ sn_ledger s) = Some d1" "if d1 = Free then settled_outcome x else unsettled x"
    using x(2) assms(2) unfolding next_checkpoint_def by (elim conjE disjE) simp_all
  have "unexpiring x" "ck_session x = sid" "numbered_checkpoint x" using x(2) by (simp_all add: next_checkpoint_def)
  then show ?thesis
    unfolding session_ok_def end_session_turn_def x(1) by (intro exI [of _ d1]) (simp add: changed_entries [OF x(3)] d1)
qed

lemma written_effect:
  assumes "write_envelope ev now mode x st = (w, st1)" "next_checkpoint sid d x"
  shows "store_effect sid d st st1"
  using write_outcomes [OF _ assms(1)] assms(2) by (auto simp: store_effect_def next_checkpoint_def)

lemma required_effect:
  assumes "require_stored ev now mode x st = (f, st1)" "next_checkpoint sid d x"
  shows "store_effect sid d st st1"
proof -
  have "st1 = snd (write_envelope ev now mode x st)"
    using assms(1) by (auto simp: require_stored_def split: prod.splits sum.splits)
  then show ?thesis using written_effect [OF _ assms(2), of ev now mode st] by (metis prod.collapse)
qed

lemma numbered_turn [simp]: "numbered_checkpoint (turn_envelope ev cc now c i)"
  by (auto simp: numbered_checkpoint_def)

text \<open>When a turn may go on, and when a session is reconciled.\<close>

lemma boot_free:
  assumes "session_ok (cc_session cc) s" "bootstrap_checkpoint ev (Some cc) now u c (sn_store s) = Boot_ready a"
  shows "duty_of (cc_session cc) (sn_ledger s) = Some Free"
    "case omap_get (sn_store s) (cc_session cc) of None \<Rightarrow> True | Some e \<Rightarrow> settled_outcome e \<and> ck_session e = cc_session cc"
proof -
  obtain d where d: "duty_of (cc_session cc) (sn_ledger s) = Some d"
    "case omap_get (sn_store s) (cc_session cc) of None \<Rightarrow> d = Free
       | Some e \<Rightarrow> unexpiring e \<and> ck_session e = cc_session cc \<and> numbered_checkpoint e \<and> (if d = Free then settled_outcome e else unsettled e)"
    using assms(1) by (auto simp: session_ok_def)
  have "d = Free"
  proof (cases "omap_get (sn_store s) (cc_session cc)")
    case (Some e)
    show ?thesis
    proof (rule ccontr)
      assume "d \<noteq> Free"
      then have "unexpiring e" "unsettled e" using d(2) Some by simp_all
      then obtain why where "rehydrate (av_number ev) [] (store_read (av_host ev) (cc_session cc) now (sn_store s)) = Deferred e why"
        using session_rehydrates(2) [OF Some] by blast
      then show False using assms(2) by (simp add: bootstrap_checkpoint_def split: option.splits)
    qed
  qed (use d in simp)
  then show "duty_of (cc_session cc) (sn_ledger s) = Some Free"
    "case omap_get (sn_store s) (cc_session cc) of None \<Rightarrow> True | Some e \<Rightarrow> settled_outcome e \<and> ck_session e = cc_session cc"
    using d by (auto split: option.splits)
qed

lemma deferred_current:
  assumes "session_ok sid s" "rehydrate num [] (store_read hs sid now (sn_store s)) = Deferred e why"
  shows "omap_get (sn_store s) sid = Some e" "unexpiring e" "unsettled e" "numbered_checkpoint e" "ck_session e = sid"
proof -
  obtain e' where e': "omap_get (sn_store s) sid = Some e'"
    using assms(2) by (cases "omap_get (sn_store s) sid") (simp_all add: store_read_def rehydrate_def)
  have ok: "unexpiring e'" "ck_session e' = sid" "numbered_checkpoint e'" "settled_outcome e' \<or> unsettled e'"
    using assms(1) by (auto simp: session_ok_def e' split: if_splits)
  have no: "\<not> settled_outcome e'" using session_rehydrates(1) [OF e' ok(1)] assms(2) by auto
  then have u: "unsettled e'" using ok(4) by blast
  have "e' = e" using session_rehydrates(2) [OF e' ok(1) u] assms(2)
    by (auto simp: store_read_def e' unexpiring_read [OF ok(1)] rehydrate_def rehydrate_present_def rehydrate_effect_def split: option.splits if_splits)
  then show "omap_get (sn_store s) sid = Some e" "unexpiring e" "unsettled e" "numbered_checkpoint e" "ck_session e = sid"
    using e' ok u by auto
qed

lemma reconcile_effect:
  assumes "session_ok (cc_session cc) s" "reconcile_checkpoint ev cc now u mode receipt applied state (sn_store s) = (r, st)"
  shows "store_effect (cc_session cc) d (sn_store s) st"
proof (cases "st = sn_store s")
  case False
  then obtain e why c w where e: "rehydrate (av_number ev) [] (store_read (av_host ev) (cc_session cc) now (sn_store s)) = Deferred e why"
    "write_envelope ev now mode (reconciled_envelope ev now receipt applied c e) (sn_store s) = (w, st)"
    using assms(2) unfolding reconcile_checkpoint_def
    by (auto split: if_splits option.splits rehydration.splits prod.splits sum.splits)
  note cur = deferred_current [OF assms(1) e(1)]
  show ?thesis
    by (rule written_effect [OF e(2)])
      (use reconciled_facts [OF cur(2,3)] reconciled_outcome [OF cur(3,4)] cur(5) in \<open>simp add: next_checkpoint_def\<close>)
qed (simp add: store_effect_def)
abbreviation with_store :: "agent_options \<Rightarrow> checkpoint_config \<Rightarrow> agent_options" where
  "with_store op cc \<equiv> op\<lparr>ao_checkpoint := Some cc\<rparr>"

text \<open>A turn that calls the model has made its intent the session's checkpoint.\<close>

definition intent_effect :: "string \<Rightarrow> nat \<Rightarrow> checkpoint_store \<Rightarrow> checkpoint_store \<Rightarrow> bool" where
  "intent_effect sid n st st1 \<longleftrightarrow> (\<exists>x. st1 = omap_set sid x st \<and> unexpiring x \<and> ck_session x = sid \<and> numbered_checkpoint x \<and> unsettled x
     \<and> ck_checkpoint x = checkpoint_id sid n ''intent_recorded'' \<and> stored_entry x = [Intent_stored (ck_checkpoint x)]
     \<and> (case omap_get st sid of None \<Rightarrow> True | Some old \<Rightarrow> ck_checkpoint old \<noteq> ck_checkpoint x))"

definition turn_effect :: "string \<Rightarrow> duty \<Rightarrow> checkpoint_store \<Rightarrow> turn \<times> checkpoint_store \<Rightarrow> bool" where
  "turn_effect sid d st t \<longleftrightarrow> (case t of
     (Turn_ends r, st1) \<Rightarrow> store_effect sid d st st1 | (Turn_calls oc q, st1) \<Rightarrow> d = Free \<and> intent_effect sid (oc_step oc) st st1)"

lemma same_store [simp]: "store_effect sid d st st" by (simp add: store_effect_def)

lemma calling_effect:
  assumes "case omap_get st (cc_session cc) of None \<Rightarrow> True | Some e \<Rightarrow> settled_outcome e \<and> ck_session e = cc_session cc"
  shows "turn_effect (cc_session cc) Free st (call_model ev (with_store op cc) now mode m active c observed st)"
proof -
  let ?n = "ax_steps active + 1"
  let ?x = "turn_envelope ev cc now c \<lparr>ci_step = ?n, ci_phase = Intent_recorded, ci_intent = Some (llm_intent m), ci_receipt = None,
     ci_reason = None, ci_key = None\<rparr>"
  obtain f st1 where w: "require_stored ev now mode ?x st = (f, st1)" by fastforce
  have call: "call_model ev (with_store op cc) now mode m active c observed st =
      (case f of Some e \<Rightarrow> (Turn_ends (failure_result c e observed), st1)
       | None \<Rightarrow> (Turn_calls \<lparr>oc_step = ?n, oc_message = m, oc_active = active, oc_context = c, oc_observed = observed\<rparr>
             \<lparr>lq_system = ax_system c, lq_messages = ax_history c, lq_tools = model_tools ev,
              lq_definitions = model_definitions (ao_definitions op) (model_tools ev)\<rparr>, st1))"
    using w by (simp add: call_model_def turn_write_def Let_def cong: option.case_cong)
  have new: "case omap_get st (cc_session cc) of None \<Rightarrow> True | Some old \<Rightarrow> ck_checkpoint old \<noteq> ck_checkpoint ?x"
    using assms by (auto simp: settled_outcome_def split: option.splits)
  show ?thesis
  proof (cases f)
    case (Some e)
    have "next_checkpoint (cc_session cc) Free ?x" by (simp add: next_checkpoint_def)
    then show ?thesis using required_effect [OF w] by (simp add: call Some turn_effect_def)
  next
    case None
    obtain r where r: "write_envelope ev now mode ?x st = (r, st1)" "case r of Inl y \<Rightarrow> False | Inr v \<Rightarrow> durable v"
      using w None by (auto simp: require_stored_def split: prod.splits sum.splits if_splits)
    have st1: "st1 = omap_set (cc_session cc) ?x st"
      using write_outcomes [OF _ r(1)] r(2) new by (auto split: sum.splits)
    have "intent_effect (cc_session cc) ?n st st1"
      unfolding intent_effect_def by (rule exI [of _ ?x]) (intro conjI st1 new, simp_all)
    then show ?thesis by (simp add: call None turn_effect_def)
  qed
qed

lemma waiting_effect:
  assumes "turn_write ev (with_store op cc) now mode c i st = (f, st1)" "ci_phase i = Receipt_recorded" "ci_key i \<noteq> Some ''intent_recorded''"
  shows "store_effect (cc_session cc) d st st1"
  by (rule required_effect [of ev now mode "turn_envelope ev cc now c i" st f])
    (use assms in \<open>simp_all add: turn_write_def next_checkpoint_def\<close>)

lemma beginning_effect:
  assumes ok: "session_ok (cc_session cc) s" and d: "duty_of (cc_session cc) (sn_ledger s) = Some d"
  shows "turn_effect (cc_session cc) d (sn_store s) (begin_turn ev (with_store op cc) now u mode m context (sn_store s))"
proof (cases "\<exists>receipt applied state. m = Reconcile_session receipt applied state")
  case True
  then obtain receipt applied state where m: "m = Reconcile_session receipt applied state" by blast
  obtain r st where r: "reconcile_checkpoint ev cc now u mode receipt applied state (sn_store s) = (r, st)" by fastforce
  show ?thesis using reconcile_effect [OF ok r] by (simp add: m begin_turn_def r turn_effect_def split: sum.split)
next
  case False
  show ?thesis
  proof (cases "bootstrap_checkpoint ev (Some cc) now u context (sn_store s)")
    case (Boot_blocked e)
    then show ?thesis using False by (cases m) (simp_all add: begin_turn_def turn_effect_def)
  next
    case (Boot_ready active)
    note free = boot_free [OF ok Boot_ready]
    then have dF: "d = Free" using d by simp
    note calls = calling_effect [OF free(2)]
    show ?thesis
    proof (cases m)
      case (Observe_tool_result i name b out)
      let ?pending = "filter (\<lambda>t. tc_id t \<noteq> i) (ax_pending active)"
      show ?thesis
      proof (cases "?pending = []")
        case True
        then show ?thesis using calls by (simp add: Observe_tool_result begin_turn_def Boot_ready Let_def dF)
      next
        case False
        let ?c = "\<lparr>ax_system = turn_system (with_store op cc) m active, ax_history = ax_history active @ turn_messages ev m, ax_steps = ax_steps active,
           ax_pending = ?pending, ax_error = None\<rparr>"
        let ?i = "\<lparr>ci_step = ax_steps active, ci_phase = Receipt_recorded,
           ci_intent = Some (JObject [(''tool'', JString name), (''toolCallId'', JString i)]),
           ci_receipt = Some Receipt_plain, ci_reason = None, ci_key = Some (''tool_result:'' @ i)\<rparr>"
        obtain f st1 where w: "turn_write ev (with_store op cc) now mode ?c ?i (sn_store s) = (f, st1)" by fastforce
        have "store_effect (cc_session cc) d (sn_store s) st1" by (rule waiting_effect [OF w]) simp_all
        then show ?thesis
          using w False by (simp add: Observe_tool_result begin_turn_def Boot_ready Let_def turn_effect_def split: option.split)
      qed
    qed (use False calls in \<open>simp_all add: begin_turn_def Boot_ready Let_def dF turn_effect_def [of _ _ _ "(Turn_ends r, st)" for r st]\<close>)
  qed
qed

lemma ending_effect:
  assumes "session_ok (cc_session cc) s" "sn_open s = Some oc"
  shows "store_effect (cc_session cc) Called (sn_store s) (snd (end_turn ev (with_store op cc) now mode oc out (sn_store s)))"
proof -
  have "store_effect (cc_session cc) Called (sn_store s) (snd (turn_write ev (with_store op cc) now mode c i (sn_store s)))"
    if "ci_phase i = Receipt_recorded \<or> ci_phase i = Reconciliation_required" "ci_key i = None" for c i
  proof -
    obtain f st1 where w: "require_stored ev now mode (turn_envelope ev cc now c i) (sn_store s) = (f, st1)" by fastforce
    have "next_checkpoint (cc_session cc) Called (turn_envelope ev cc now c i)" using that by (auto simp: next_checkpoint_def)
    then show ?thesis using required_effect [OF w] by (simp add: turn_write_def w)
  qed
  then show ?thesis
    by (simp add: end_turn_def Let_def case_prod_unfold split: llm_result.split model_outcome.split)
qed
section \<open>One call, one settled_outcome\<close>

lemma intent_duty:
  assumes "session_ok sid s" "duty_of sid (sn_ledger s) = Some Free" "intent_effect sid (oc_step oc) (sn_store s) st"
  shows "session_ok sid (s\<lparr>sn_store := st, sn_open := Some oc, sn_ledger := Model_called (oc_step oc) # store_entries sid (sn_store s) st @ sn_ledger s\<rparr>)"
proof -
  obtain x where x: "st = omap_set sid x (sn_store s)" "unexpiring x" "ck_session x = sid" "numbered_checkpoint x" "unsettled x"
    "ck_checkpoint x = checkpoint_id sid (oc_step oc) ''intent_recorded''" "stored_entry x = [Intent_stored (ck_checkpoint x)]"
    "case omap_get (sn_store s) sid of None \<Rightarrow> True | Some old \<Rightarrow> ck_checkpoint old \<noteq> ck_checkpoint x"
    using assms(3) unfolding intent_effect_def by blast
  show ?thesis
    unfolding session_ok_def x(1) by (intro exI [of _ Called]) (simp add: changed_entries [OF x(8)] x assms(2))
qed

lemma closed_ok:
  assumes "session_ok sid s" "sn_store s1 = sn_store s" "sn_ledger s1 = sn_ledger s" "sn_open s1 = None"
  shows "session_ok sid s1"
  using assms(1) unfolding session_ok_def assms(2-4) by (elim exE conjE, intro exI conjI) (assumption, assumption, simp only: option.case)

lemma session_step_ok:
  assumes ok: "session_ok (cc_session cc) s"
  shows "session_ok (cc_session cc) (snd (session_step ev op cc e s))"
proof -
  obtain d where d: "duty_of (cc_session cc) (sn_ledger s) = Some d" using ok by (auto simp: session_ok_def)
  show ?thesis
  proof (cases e)
    case (Message_arrives m now u mode)
    show ?thesis
    proof (cases "sn_open s")
      case None
      obtain t st where t: "begin_turn ev (with_store op cc) now u mode m (sn_context s) (sn_store s) = (t, st)" by fastforce
      note eff = beginning_effect [OF ok d, of ev op now u mode m "sn_context s", unfolded t turn_effect_def]
      show ?thesis
      proof (cases t)
        case (Turn_ends r)
        show ?thesis using turn_end_ok [OF ok d] eff by (simp add: Message_arrives None t Turn_ends)
      next
        case (Turn_calls oc q)
        show ?thesis using intent_duty [OF ok] eff d by (simp add: Message_arrives None t Turn_calls)
      qed
    qed (use ok in \<open>simp add: Message_arrives\<close>)
  next
    case (Call_ends out now mode)
    show ?thesis
    proof (cases "sn_open s")
      case (Some oc)
      then have "d = Called" using ok d by (auto simp: session_ok_def)
      then show ?thesis using turn_end_ok [OF ok d] ending_effect [OF ok Some, of ev op now mode out]
        by (simp add: Call_ends Some case_prod_unfold)
    qed (use ok in \<open>simp add: Call_ends\<close>)
  next
    case Crash
    then show ?thesis by (intro closed_ok [OF ok]) simp_all
  qed
qed

interpretation session_machine: invariant_machine "session_step ev op cc" "session_ok (cc_session cc)" for ev op cc
  by unfold_locales (rule session_step_ok)

lemma session_run_ok: "session_ok (cc_session cc) (session_run ev op cc es)"
  unfolding session_run_def by (rule session_machine.inv_run) (simp add: session_start_def session_ok_def)

section \<open>Contexts survive\<close>

lemma all_of_map: "(\<And>x. x \<in> set xs \<Longrightarrow> f (g x) = Some x) \<Longrightarrow> all_of f (map g xs) = Some xs"
  by (induction xs) simp_all

lemma role_of_text [simp]: "role_of (Some (JString (role_text r))) = Some r" by (cases r) simp_all

declare role_of.simps(1) [simp del]

lemma tool_call_back [simp]: "tool_call_of (tool_call_json t) = Some t" by (simp add: tool_call_json_def)

lemma tool_calls_back [simp]: "all_of tool_call_of (map tool_call_json ts) = Some ts"
  by (rule all_of_map) (rule tool_call_back)

lemma calls_back: "tool_calls_of (map_option (\<lambda>ts. JArray (map tool_call_json ts)) v) = Some v"
  by (cases v) (simp_all add: tool_calls_of_def tool_calls_back)

lemma optional_text_back: "text_or_absent (map_option JString v) = Some v"
  by (cases v) (simp_all add: text_or_absent_def)

lemma message_fields:
  "field (message_json m) ''role'' = Some (JString (role_text (lm_role m)))" "field (message_json m) ''content'' = Some (JString (lm_content m))"
  "field (message_json m) ''toolCallId'' = map_option JString (lm_call m)" "field (message_json m) ''toolName'' = map_option JString (lm_tool m)"
  "field (message_json m) ''toolCalls'' = map_option (\<lambda>ts. JArray (map tool_call_json ts)) (lm_calls m)"
  by (simp_all add: message_json_def map_add_def split: option.split)

lemma message_back [simp]: "message_of (message_json m) = Some m"
  unfolding message_of_def message_fields calls_back optional_text_back by simp

lemma error_back: "error_of (Some (agent_error_json e)) = Some e"
  by (cases e) (simp_all add: agent_error_json_def error_of_def)

lemma steps_back: "steps_of (Some (JNumber (of_nat n))) = Some n"
proof -
  have "quotient_of (of_nat n) = (int n, 1)" using quotient_of_int [of "int n"] by simp
  then show ?thesis by (simp add: steps_of_def integer_from.simps(1))
qed

lemma context_fields:
  "field (context_json c) ''system'' = map_option JString (ax_system c)"
  "field (context_json c) ''history'' = Some (JArray (map message_json (ax_history c)))"
  "field (context_json c) ''steps'' = Some (JNumber (of_nat (ax_steps c)))"
  "field (context_json c) ''pendingToolCalls'' = Some (JArray (map tool_call_json (ax_pending c)))"
  "field (context_json c) ''lastError'' = Some (agent_error_json (ax_error c))"
  by (simp_all add: context_json_def map_add_def split: option.split)

lemma messages_back: "all_of message_of (map message_json h) = Some h"
  by (rule all_of_map) (rule message_back)

lemma context_back: "state_of (Some (context_json c)) = Some c"
  unfolding state_of_def option.case context_fields optional_text_back steps_back error_back
  by (simp add: list_of_def messages_back)
section \<open>The properties\<close>

text \<open>
  C4. The model is never called twice for one outcome. Whatever messages arrive, whatever the model, the store and its failures do,
  and whenever the actor crashes: each call of the model comes right after the durable record of its own intent, of the same step,
  and after a call nothing of the next is recorded, and no further call is made, before the outcome of the first is in the store:
  its receipt, or what an operator reconciled.\<close>

theorem one_call_per_outcome:
  "duty_of (cc_session cc) (sn_ledger (session_run ev op cc es)) \<noteq> None"
  using session_run_ok [of cc ev op es] by (auto simp: session_ok_def)

lemma outcome_boots:
  assumes "omap_get st (cc_session cc) = Some x" "unexpiring x" "settled_outcome x" "ck_deterministic x = context_json c"
  shows "bootstrap_checkpoint ev (Some cc) now None other st = Boot_ready c"
  by (simp add: bootstrap_checkpoint_def session_rehydrates(1) [OF assms(1-3)] assms(4) context_back)

lemma write_stores:
  assumes "unexpiring x" "write_envelope ev now mode x st = (Inr w, st1)" "durable w"
    "case omap_get st (ck_session x) of None \<Rightarrow> True | Some old \<Rightarrow> ck_checkpoint old \<noteq> ck_checkpoint x"
  shows "st1 = omap_set (ck_session x) x st"
  using write_outcomes [OF assms(1,2)] assms(3,4) by auto

lemma reconciled_boots:
  assumes "session_ok (cc_session cc) s" "reconcile_checkpoint ev cc now u mode receipt applied state (sn_store s) = (Inr c, st)"
  shows "bootstrap_checkpoint ev (Some cc) later None other st = Boot_ready c"
proof -
  obtain e why w where e: "rehydrate (av_number ev) [] (store_read (av_host ev) (cc_session cc) now (sn_store s)) = Deferred e why"
    "write_envelope ev now mode (reconciled_envelope ev now receipt applied c e) (sn_store s) = (Inr w, st)" "durable w"
    using assms(2) unfolding reconcile_checkpoint_def
    by (auto split: if_splits option.splits rehydration.splits prod.splits sum.splits)
  note cur = deferred_current [OF assms(1) e(1)]
  let ?x = "reconciled_envelope ev now receipt applied c e"
  note facts = reconciled_facts [OF cur(2,3), of ev now receipt applied c]
  have "st = omap_set (ck_session ?x) ?x (sn_store s)"
    by (rule write_stores [OF facts(1) e(2,3)]) (use facts(2,4) cur(1,5) in auto)
  then show ?thesis
    by (intro outcome_boots [OF _ facts(1) reconciled_outcome(1) [OF cur(3,4)] facts(3)]) (simp add: facts(2) cur(5))
qed

lemma answered_boots:
  assumes ok: "session_ok (cc_session cc) s" and oc: "sn_open s = Some oc"
    and r: "end_turn ev (with_store op cc) now mode oc out (sn_store s) = (r, st)" "tu_reply r = Answered a calls usage"
  shows "bootstrap_checkpoint ev (Some cc) later None other st = Boot_ready (tu_context r)"
proof -
  obtain i where i: "require_stored ev now mode (turn_envelope ev cc now (tu_context r) i) (sn_store s) = (None, st)"
    "ci_step i = oc_step oc" "ci_phase i = Receipt_recorded" "ci_key i = None"
    using r by (auto simp: end_turn_def Let_def turn_write_def failure_result_def split: llm_result.splits model_outcome.splits prod.splits option.splits)
  let ?x = "turn_envelope ev cc now (tu_context r) i"
  obtain w where w: "write_envelope ev now mode ?x (sn_store s) = (Inr w, st)" "durable w"
    using i(1) by (auto simp: require_stored_def split: prod.splits sum.splits if_splits)
  have "case omap_get (sn_store s) (ck_session ?x) of None \<Rightarrow> True | Some old \<Rightarrow> ck_checkpoint old \<noteq> ck_checkpoint ?x"
    using ok by (auto simp: session_ok_def oc i(2-4) split: option.splits)
  then have "st = omap_set (ck_session ?x) ?x (sn_store s)" by (rule write_stores [OF turn_envelope_facts(1) w])
  then show ?thesis by (intro outcome_boots [where x = ?x]) (simp_all add: i(3,4))
qed

definition outcome_reply :: "agent_reply \<Rightarrow> bool" where
  "outcome_reply x = (case x of Answered a calls usage \<Rightarrow> True | Reconciled_reply i b \<Rightarrow> True | _ \<Rightarrow> False)"

lemma begin_outcomes:
  assumes "begin_turn ev (with_store op cc) now u mode m context st = (Turn_ends r, st1)" "outcome_reply (tu_reply r)"
  shows "\<exists>receipt applied state. reconcile_checkpoint ev cc now u mode receipt applied state st = (Inr (tu_context r), st1)"
proof (cases m)
  case (Reconcile_session receipt applied state)
  obtain q st2 where q: "reconcile_checkpoint ev cc now u mode receipt applied state st = (q, st2)" by fastforce
  show ?thesis
  proof (cases q)
    case (Inl e)
    then show ?thesis using assms by (simp add: Reconcile_session begin_turn_def q outcome_reply_def failure_result_def split: agent_reply.splits) auto
  next
    case (Inr c)
    have "st2 = st1 \<and> tu_context r = c" using assms(1) by (auto simp: Reconcile_session begin_turn_def q Inr)
    then show ?thesis using q [unfolded Inr] by blast
  qed
qed (use assms in \<open>auto simp: begin_turn_def call_model_def Let_def outcome_reply_def failure_result_def
      split: bootstrap.splits prod.splits option.splits if_splits\<close>)

text \<open>
  C5. An answer is not given before it would survive: whenever the reply to a message is the model's answer or the confirmation of
  a reconciliation, then in every session an actor that starts afresh at any later time, with any other context in memory, takes up
  exactly the context of that reply from the store.\<close>

theorem answers_survive:
  "case session_step ev op cc e (session_run ev op cc es) of
     (Some r, s) \<Rightarrow> if outcome_reply (tu_reply r)
       then bootstrap_checkpoint ev (Some cc) later None other (sn_store s) = Boot_ready (tu_context r) else True
   | (None, s) \<Rightarrow> True"
proof -
  let ?s = "session_run ev op cc es"
  note ok = session_run_ok [of cc ev op es]
  have "bootstrap_checkpoint ev (Some cc) later None other (sn_store s) = Boot_ready (tu_context r)"
    if step: "session_step ev op cc e ?s = (Some r, s)" and out: "outcome_reply (tu_reply r)" for r s
  proof (cases e)
    case (Message_arrives m now u mode)
    then have "begin_turn ev (with_store op cc) now u mode m (sn_context ?s) (sn_store ?s) = (Turn_ends r, sn_store s)"
      using step by (auto simp: end_session_turn_def split: option.splits prod.splits turn.splits)
    from begin_outcomes [OF this out] show ?thesis by (elim exE) (rule reconciled_boots [OF ok])
  next
    case (Call_ends result now mode)
    then obtain oc where oc: "sn_open ?s = Some oc" "end_turn ev (with_store op cc) now mode oc result (sn_store ?s) = (r, sn_store s)"
      using step by (auto simp: end_session_turn_def split: option.splits prod.splits)
    obtain a calls usage where "tu_reply r = Answered a calls usage"
      using out oc(2) by (auto simp: end_turn_def Let_def failure_result_def outcome_reply_def
          split: llm_result.splits model_outcome.splits prod.splits option.splits)
    then show ?thesis by (rule answered_boots [OF ok oc])
  next
    case Crash
    then show ?thesis using step by simp
  qed
  then show ?thesis by (auto split: prod.split option.split)
qed

section \<open>A session that loses a receipt\<close>

definition sample_env :: agent_env where
  "sample_env = \<lparr>av_host = sample_host, av_render = (\<lambda>v. ''{}''), av_number = (\<lambda>r. ''0''), av_tools = [''llm'']\<rparr>"

definition sample_agent_options :: agent_options where
  "sample_agent_options = \<lparr>ao_system = None, ao_definitions = None, ao_history = [], ao_state = None, ao_checkpoint = None\<rparr>"

definition sample_message :: llm_message where
  "sample_message = \<lparr>lm_role = Assistant_role, lm_content = ''hi'', lm_call = None, lm_tool = None, lm_calls = None\<rparr>"

definition sample_events :: "write_mode \<Rightarrow> session_event list" where
  "sample_events mode = [Message_arrives (Start_agent ''a'' None) 0 None Write_answers, Call_ends (Call_returns (Llm_ok sample_message None)) 1 mode,
     Message_arrives (Start_agent ''b'' None) 2 None Write_answers]"

lemma sample_ledgers:
  "rev (sn_ledger (session_run sample_env sample_agent_options \<lparr>cc_session = ''s'', cc_actor = None\<rparr> (sample_events Write_answers))) =
     [Intent_stored ''checkpoint:s:1:intent_recorded'', Model_called 1, Outcome_stored,
      Intent_stored ''checkpoint:s:2:intent_recorded'', Model_called 2]"
  "rev (sn_ledger (session_run sample_env sample_agent_options \<lparr>cc_session = ''s'', cc_actor = None\<rparr> (sample_events (Write_lost (Thrown None ''x''))))) =
     [Intent_stored ''checkpoint:s:1:intent_recorded'', Model_called 1]"
  by code_simp+

end
