(* ===== verification/Gateway_Hub.thy ===== *)
theory Gateway_Hub
  imports Agent_Admission
begin

text \<open>
  The gateway that serves clients over a connection, \<open>runtime-gateway.ts\<close>: greeting, streams of snapshots, events and traces
  with numbers and a replay buffer, commands under admission, and a connection that ends. Code between two awaits is one step. Frames of
  the client are JSON values; what a source shows is a JSON value; hashing, \<open>JSON.stringify\<close> and dates are arguments; the times
  in answers are left out.
\<close>

section \<open>Frames and streams\<close>

datatype payload =
    Snapshot_of string json
  | Event_of string json
  | Transition_of json
  | Trace_of string bool json                     \<comment> \<open>whether the projection holds a trace\<close>

type_synonym replay_frame = "nat \<times> payload"

datatype shown_status = Replaying_status | Source_status json

datatype server_frame =
    Ready string int
  | Stream_frame string replay_frame
  | Status_frame string shown_status
  | Error_frame "string option" "string option" string string bool "json option"    \<comment> \<open>stream, request, code, message, recoverable, rejection\<close>
  | Ack_frame string "string option" "json option"
  | Reply_frame string string json "json option"
  | Pong_frame "json option"

datatype stream_mode = Full | Command_only | Trace_only

datatype subscription_kind = Sub_status | Sub_snapshot | Sub_event | Sub_transition | Sub_trace

text \<open>What a resolved source offers.\<close>

record source_info =
  so_address :: string
  so_send :: bool
  so_ask :: bool
  so_transitions :: bool
  so_traces :: bool

record gateway_stream =
  gs_id :: string
  gs_mode :: stream_mode
  gs_session :: string
  gs_storage :: string
  gs_accepts :: bool
  gs_attached :: bool
  gs_source :: source_info
  gs_sequence :: nat
  gs_replay :: "replay_frame list"
  gs_trace :: "payload option"
  gs_subscribed :: "subscription_kind list"

section \<open>Keys\<close>

text \<open>The parts of \<open>commandAdmission\<close> that are configured; its functions answer in the events.\<close>

record admission_config =
  ac_resolver :: bool
  ac_policy :: bool
  ac_sink :: bool
  ac_idempotency :: bool

record gateway_env =
  ge_order :: collator
  ge_json :: "json \<Rightarrow> string"
  ge_hash :: "string \<Rightarrow> string"
  ge_date :: "string \<Rightarrow> int option"
  ge_id :: string                                 \<comment> \<open>\<open>connectionId\<close>\<close>
  ge_heartbeat :: int
  ge_replay_size :: int
  ge_limit :: "int option"
  ge_storage :: bool
  ge_auth :: bool                                \<comment> \<open>an authentication provider is configured\<close>
  ge_verifier :: bool                            \<comment> \<open>and verifies\<close>
  ge_context :: "json option"                    \<comment> \<open>\<open>connection.authContext\<close>\<close>
  ge_admission :: "admission_config option"

text \<open>A list of values of which some are kept.\<close>

fun kept :: "'a option list \<Rightarrow> 'a list" where
  "kept [] = []"
| "kept (None # xs) = kept xs"
| "kept (Some x # xs) = x # kept xs"

fun canonical_owner :: "gateway_env \<Rightarrow> json \<Rightarrow> json option" where
  "canonical_owner ev JNull = None"
| "canonical_owner ev (JString s) = (if trim s = [] then None else Some (JString (trim s)))"
| "canonical_owner ev (JNumber r) = Some (JNumber r)"
| "canonical_owner ev (JBool b) = Some (JBool b)"
| "canonical_owner ev (JArray xs) = (let ys = kept (map (canonical_owner ev) xs) in if ys = [] then None else Some (JArray ys))"
| "canonical_owner ev (JObject fs) =
     (let ys = kept (map (\<lambda>(k, v). map_option (Pair k) v)
        (sort_by (\<lambda>l r. locale_compare (ge_order ev) (fst l) (fst r)) (map (\<lambda>(k, v). (k, canonical_owner ev v)) fs)))
      in if ys = [] then None else Some (JObject ys))"

definition owner_key :: "gateway_env \<Rightarrow> json option \<Rightarrow> string option" where
  "owner_key ev auth = (case Option.bind auth (canonical_owner ev) of
       None \<Rightarrow> None | Some v \<Rightarrow> Some (''auth:'' @ ge_hash ev (ge_json ev v)))"

fun canonical_scope :: "gateway_env \<Rightarrow> json \<Rightarrow> json" where
  "canonical_scope ev (JArray xs) = JArray (map (canonical_scope ev) xs)"
| "canonical_scope ev (JObject fs) =
     JObject (sort_by (\<lambda>l r. locale_compare (ge_order ev) (fst l) (fst r)) (map (\<lambda>(k, v). (k, canonical_scope ev v)) fs))"
| "canonical_scope ev v = v"

definition scope_text :: "gateway_env \<Rightarrow> json \<Rightarrow> string" where
  "scope_text ev scope = ge_json ev (canonical_scope ev (JObject (opt_field ''kind'' (field scope ''kind'')
     @ [(''params'', case field scope ''params'' of None \<Rightarrow> JObject [] | Some JNull \<Rightarrow> JObject [] | Some v \<Rightarrow> v)])))"

definition storage_stream_id :: "gateway_env \<Rightarrow> string \<Rightarrow> json \<Rightarrow> string" where
  "storage_stream_id ev sid scope = sid @ ''::'' @ scope_text ev scope"

definition storage_key :: "string \<Rightarrow> string \<Rightarrow> string" where
  "storage_key session sid = session @ ''::'' @ sid"

definition requested_session :: "gateway_env \<Rightarrow> json \<Rightarrow> string" where
  "requested_session ev hello = (case text_value (field hello ''lastConnectionId'') of
       Some s \<Rightarrow> if trim s = [] then ge_id ev else trim s | None \<Rightarrow> ge_id ev)"

definition replay_session :: "gateway_env \<Rightarrow> json option \<Rightarrow> json \<Rightarrow> string" where
  "replay_session ev auth hello = (case owner_key ev auth of
       None \<Rightarrow> ge_id ev | Some k \<Rightarrow> k @ ''::'' @ requested_session ev hello)"

definition normalize_limit :: "int option \<Rightarrow> int" where
  "normalize_limit v = (case v of None \<Rightarrow> 64 | Some n \<Rightarrow> if n \<le> 0 then 64 else n)"

section \<open>Replay buffers\<close>

definition trim_replay :: "gateway_env \<Rightarrow> replay_frame list \<Rightarrow> replay_frame list" where
  "trim_replay ev fs = (if ge_replay_size ev \<le> 0 then [] else drop (length fs - nat (ge_replay_size ev)) fs)"

fun frame_address :: "replay_frame \<Rightarrow> string option" where
  "frame_address (n, Snapshot_of a p) = Some a"
| "frame_address (n, Event_of a p) = Some a"
| "frame_address (n, Trace_of a h p) = Some a"
| "frame_address (n, Transition_of p) = None"

definition restored_match :: "replay_frame list \<Rightarrow> source_info \<Rightarrow> bool" where
  "restored_match fs src = (if fs = [] then True
     else (case filter (\<lambda>a. a \<noteq> []) (kept (map frame_address (rev fs))) of [] \<Rightarrow> False | a # _ \<Rightarrow> a = so_address src))"

definition latest_trace :: "replay_frame list \<Rightarrow> payload option" where
  "latest_trace fs =
     (let ts = filter (\<lambda>p. case p of Trace_of a h x \<Rightarrow> True | _ \<Rightarrow> False) (map snd (rev fs))
      in case filter (\<lambda>p. case p of Trace_of a h x \<Rightarrow> h | _ \<Rightarrow> False) ts of
           t # _ \<Rightarrow> Some t | [] \<Rightarrow> (case ts of t # _ \<Rightarrow> Some t | [] \<Rightarrow> None))"

definition last_number :: "replay_frame list \<Rightarrow> nat" where
  "last_number fs = (if fs = [] then 0 else fst (last fs))"

text \<open>\<open>canReplay\<close>: the frames from a number on are there without a gap.\<close>

definition replayable :: "nat \<Rightarrow> replay_frame list \<Rightarrow> bool" where
  "replayable n fs \<longleftrightarrow> fs \<noteq> [] \<and> map fst fs = [n ..< n + length fs]"

section \<open>A connection\<close>

record gateway_command =
  gc_kind :: string
  gc_stream :: nat                               \<comment> \<open>the object\<close>
  gc_id :: string
  gc_request :: "string option"
  gc_message :: json
  gc_timeout :: "rat option"
  gc_metadata :: "json option"
  gc_command :: string                           \<comment> \<open>\<open>commandId\<close>, made up before the admission when absent\<close>

datatype settle_outcome = Not_dispatched | Dispatch_succeeded | Dispatch_indeterminate

text \<open>Where a command waits: for the principal, the admission, the decision sink, the release of a claim, the dispatch, and the
  settlement of a claim after it.\<close>

datatype command_stage =
    Wait_principal
  | Wait_admission json
  | Wait_sink admission_decision
  | Wait_release admission_decision
  | Wait_dispatch "admission_decision option"
  | Wait_settled admission_decision json
  | Wait_indeterminate admission_decision string

datatype gateway_phase =
    Waiting                                       \<comment> \<open>no frame is being handled\<close>
  | Between                                       \<comment> \<open>a frame is done, the next is taken in a later job\<close>
  | Verifying json
  | Resolving string json stream_mode nat "json option"
  | Loading string json stream_mode nat "json option" source_info
  | Commanding gateway_command command_stage

text \<open>What the gateway has done, in order.\<close>

datatype gateway_action =
    Handed server_frame
  | Opened nat "replay_frame list"               \<comment> \<open>a stream object begins with restored frames\<close>
  | Numbered nat replay_frame                     \<comment> \<open>a frame got its number on a stream\<close>
  | Send_settled nat bool
  | Resolve_called json "json option"             \<comment> \<open>scope and authentication context\<close>
  | Load_called string string
  | Persist_called nat "replay_frame list"
  | Subscribed nat subscription_kind
  | Unsubscribed nat subscription_kind
  | Principal_called "json option"
  | Sink_called gateway_command admission_decision
  | Sink_failed
  | Dispatched gateway_command
  | Settle_called settle_outcome
  | Traced nat agent_trace
  | Fact_traced nat string string
  | Observed string nat
  | Persistence_aborted nat
  | Connection_closed

record gateway_view =
  vw_snapshot :: payload
  vw_status :: json

record gateway_conn =
  cn_greeted :: bool
  cn_session :: string
  cn_auth :: "json option"
  cn_objects :: "gateway_stream list"
  cn_streams :: "(string, nat) omap"
  cn_generations :: "string \<Rightarrow> nat"
  cn_pending :: "json list"
  cn_phase :: gateway_phase
  cn_terminated :: bool
  cn_idle :: bool
  cn_attempts :: nat
  cn_next_outcome :: nat
  cn_failures :: nat
  cn_outcomes :: "(nat, bool) omap"
  cn_open_sends :: "nat list"                    \<comment> \<open>attempts with a running timer\<close>
  cn_throws :: "bool list"                       \<comment> \<open>which of the next sends throw at once\<close>
  cn_views :: "nat \<Rightarrow> gateway_view"             \<comment> \<open>what the source of a stream object shows now\<close>
  cn_log :: "gateway_action list"                \<comment> \<open>newest first\<close>

definition log_action :: "gateway_action \<Rightarrow> gateway_conn \<Rightarrow> gateway_conn" where
  "log_action a s = s\<lparr>cn_log := a # cn_log s\<rparr>"

definition set_object :: "nat \<Rightarrow> gateway_stream \<Rightarrow> gateway_conn \<Rightarrow> gateway_conn" where
  "set_object k x s = s\<lparr>cn_objects := (cn_objects s)[k := x]\<rparr>"

definition object_of :: "gateway_conn \<Rightarrow> nat \<Rightarrow> gateway_stream" where
  "object_of s k = cn_objects s ! k"

section \<open>Ending a stream and a connection\<close>

definition log_unsubscriptions :: "nat \<Rightarrow> gateway_conn \<Rightarrow> gateway_conn" where
  "log_unsubscriptions k s = fold (\<lambda>c. log_action (Unsubscribed k c)) (gs_subscribed (object_of s k)) s"

definition cleanup_stream :: "string \<Rightarrow> gateway_conn \<Rightarrow> gateway_conn" where
  "cleanup_stream sid s = (case omap_get (cn_streams s) sid of
       None \<Rightarrow> s
     | Some k \<Rightarrow> log_unsubscriptions k ((set_object k ((object_of s k)\<lparr>gs_accepts := False\<rparr>) s)\<lparr>cn_streams := omap_delete sid (cn_streams s)\<rparr>))"

definition cleanup_all :: "gateway_conn \<Rightarrow> gateway_conn" where
  "cleanup_all s = fold cleanup_stream (omap_keys (cn_streams s)) (s\<lparr>cn_pending := []\<rparr>)"

definition abort_persistence :: "gateway_env \<Rightarrow> nat list \<Rightarrow> gateway_conn \<Rightarrow> gateway_conn" where
  "abort_persistence ev ks s = (if ge_storage ev then fold (\<lambda>k. log_action (Persistence_aborted k)) ks s else s)"

definition shutdown :: "gateway_env \<Rightarrow> bool \<Rightarrow> gateway_conn \<Rightarrow> gateway_conn" where
  "shutdown ev close s = (if cn_terminated s then s
     else (let s1 = abort_persistence ev (map snd (cn_streams s)) (cleanup_all (s\<lparr>cn_terminated := True, cn_idle := False, cn_open_sends := []\<rparr>))
           in if close then log_action Connection_closed s1 else s1))"

definition arm_idle :: "gateway_env \<Rightarrow> gateway_conn \<Rightarrow> gateway_conn" where
  "arm_idle ev s = s\<lparr>cn_idle := \<not> cn_terminated s \<and> 0 < ge_heartbeat ev\<rparr>"

section \<open>Sending\<close>

lemma log_outcomes [simp]: "cn_outcomes (log_action a s) = cn_outcomes s" by (simp add: log_action_def)

lemma fold_outcomes: "(\<And>x s. cn_outcomes (f x s) = cn_outcomes s) \<Longrightarrow> cn_outcomes (fold f xs s) = cn_outcomes s"
  by (induction xs arbitrary: s) simp_all

lemma shutdown_outcomes [simp]: "cn_outcomes (shutdown ev b s) = cn_outcomes s"
proof -
  have "cn_outcomes (cleanup_stream sid s) = cn_outcomes s" for sid s
    by (simp add: cleanup_stream_def log_unsubscriptions_def set_object_def fold_outcomes split: option.split)
  then show ?thesis by (simp add: shutdown_def Let_def abort_persistence_def cleanup_all_def fold_outcomes)
qed

text \<open>Outcomes are counted in the order of the attempts; three failures in a row end the connection.\<close>

lemma delete_shorter: "omap_get m k = Some v \<Longrightarrow> length (omap_delete k m) < length m"
  by (induction m) (auto simp: AList.delete_eq intro: le_imp_less_Suc split: if_splits)

function process_outcomes :: "gateway_env \<Rightarrow> gateway_conn \<Rightarrow> gateway_conn" where
  "process_outcomes ev s =
     (if cn_terminated s then s
      else (case omap_get (cn_outcomes s) (cn_next_outcome s) of
          None \<Rightarrow> s
        | Some ok \<Rightarrow>
            (let s1 = s\<lparr>cn_outcomes := omap_delete (cn_next_outcome s) (cn_outcomes s), cn_next_outcome := cn_next_outcome s + 1,
                  cn_failures := (if ok then 0 else cn_failures s + 1)\<rparr>
             in process_outcomes ev (if \<not> ok \<and> 3 \<le> cn_failures s1 then shutdown ev True s1 else s1))))"
  by pat_completeness auto

termination
  by (relation "measure (\<lambda>(ev, s). length (cn_outcomes s))") (auto simp: Let_def delete_shorter)

declare process_outcomes.simps [simp del]

definition record_outcome :: "gateway_env \<Rightarrow> nat \<Rightarrow> bool \<Rightarrow> gateway_conn \<Rightarrow> gateway_conn" where
  "record_outcome ev i ok s =
     (if cn_terminated s \<or> i \<notin> set (cn_open_sends s) then s
      else process_outcomes ev (log_action (Send_settled i ok)
        (s\<lparr>cn_open_sends := filter (\<lambda>j. j \<noteq> i) (cn_open_sends s), cn_outcomes := omap_set i ok (cn_outcomes s)\<rparr>)))"

definition send_frame :: "gateway_env \<Rightarrow> server_frame \<Rightarrow> gateway_conn \<Rightarrow> gateway_conn" where
  "send_frame ev f s =
     (if cn_terminated s then s
      else (let i = cn_attempts s + 1;
                throws = (case cn_throws s of [] \<Rightarrow> False | b # _ \<Rightarrow> b);
                s1 = log_action (Handed f) (s\<lparr>cn_attempts := i, cn_open_sends := cn_open_sends s @ [i], cn_throws := tl (cn_throws s)\<rparr>)
            in if throws then record_outcome ev i False s1 else s1))"

definition send_error :: "gateway_env \<Rightarrow> string \<Rightarrow> string \<Rightarrow> bool \<Rightarrow> string option \<Rightarrow> string option \<Rightarrow> gateway_conn \<Rightarrow> gateway_conn" where
  "send_error ev code message recoverable sid rid s = send_frame ev (Error_frame sid rid code message recoverable None) s"

definition send_status :: "gateway_env \<Rightarrow> string \<Rightarrow> shown_status \<Rightarrow> gateway_conn \<Rightarrow> gateway_conn" where
  "send_status ev sid st s = send_frame ev (Status_frame sid st) s"

definition reject_ingress :: "gateway_env \<Rightarrow> string \<Rightarrow> string \<Rightarrow> string \<Rightarrow> nat \<Rightarrow> gateway_conn \<Rightarrow> gateway_conn" where
  "reject_ingress ev code message kind depth s =
     shutdown ev True (send_error ev code message False None None (log_action (Observed kind depth) s))"

section \<open>Streams\<close>

definition stream_current :: "nat \<Rightarrow> gateway_conn \<Rightarrow> bool" where
  "stream_current k s \<longleftrightarrow> \<not> cn_terminated s \<and> gs_accepts (object_of s k)
     \<and> (\<not> gs_attached (object_of s k) \<or> omap_get (cn_streams s) (gs_id (object_of s k)) = Some k)"

definition send_sequenced :: "gateway_env \<Rightarrow> nat \<Rightarrow> payload \<Rightarrow> gateway_conn \<Rightarrow> gateway_conn" where
  "send_sequenced ev k p s =
     (let x = object_of s k; n = gs_sequence x + 1; fs = trim_replay ev (gs_replay x @ [(n, p)]);
          s1 = log_action (Numbered k (n, p)) (set_object k (x\<lparr>gs_sequence := n, gs_replay := fs\<rparr>) s);
          s2 = (if ge_storage ev then log_action (Persist_called k fs) s1 else s1)
      in send_frame ev (Stream_frame (gs_id x) (n, p)) s2)"

text \<open>What a subscription of the source brings to a stream object.\<close>

definition source_shows :: "gateway_env \<Rightarrow> nat \<Rightarrow> subscription_kind \<Rightarrow> payload \<Rightarrow> gateway_conn \<Rightarrow> gateway_conn" where
  "source_shows ev k c p s =
     (if \<not> stream_current k s then s
      else (case c of
          Sub_trace \<Rightarrow> send_sequenced ev k p (set_object k ((object_of s k)\<lparr>gs_trace := Some p\<rparr>) s)
        | _ \<Rightarrow> send_sequenced ev k p s))"

definition source_status :: "gateway_env \<Rightarrow> nat \<Rightarrow> json \<Rightarrow> gateway_conn \<Rightarrow> gateway_conn" where
  "source_status ev k st s = (if stream_current k s then send_status ev (gs_id (object_of s k)) (Source_status st) s else s)"

text \<open>Registering with the source: what each subscription shows at once, or that it throws.\<close>

record source_registration =
  rg_statuses :: "json list"
  rg_shown :: "subscription_kind \<Rightarrow> payload list"
  rg_latest :: "payload option"
  rg_throws :: "(subscription_kind \<times> string option) option"     \<comment> \<open>the message of an \<open>Error\<close>\<close>

definition subscribe_kind :: "gateway_env \<Rightarrow> source_registration \<Rightarrow> nat \<Rightarrow> subscription_kind \<Rightarrow> gateway_conn \<Rightarrow> gateway_conn" where
  "subscribe_kind ev rg k c s =
     (let s0 = (if c = Sub_trace then set_object k ((object_of s k)\<lparr>gs_trace := rg_latest rg\<rparr>) s else s);
          s1 = (if c = Sub_status then fold (source_status ev k) (rg_statuses rg) s0 else fold (source_shows ev k c) (rg_shown rg c) s0);
          x = object_of s1 k
      in log_action (Subscribed k c) (set_object k (x\<lparr>gs_subscribed := gs_subscribed x @ [c]\<rparr>) s1))"

definition kinds_of :: "stream_mode \<Rightarrow> source_info \<Rightarrow> subscription_kind list" where
  "kinds_of mode src = (case mode of
       Full \<Rightarrow> [Sub_status, Sub_snapshot, Sub_event] @ (if so_transitions src then [Sub_transition] else [])
     | Command_only \<Rightarrow> [Sub_status] | Trace_only \<Rightarrow> [Sub_status, Sub_trace])"

text \<open>The subscriptions one after the other, up to the one that throws.\<close>

fun register_kinds :: "gateway_env \<Rightarrow> source_registration \<Rightarrow> nat \<Rightarrow> subscription_kind list \<Rightarrow> gateway_conn \<Rightarrow> string option option \<times> gateway_conn" where
  "register_kinds ev rg k [] s = (None, s)"
| "register_kinds ev rg k (c # cs) s =
     (if c = Sub_trace \<and> \<not> so_traces (gs_source (object_of s k))
      then (Some (Some ''Runtime scope does not expose trace streaming.''), s)
      else (case rg_throws rg of
          Some (c1, why) \<Rightarrow> if c1 = c then (Some why, s) else register_kinds ev rg k cs (subscribe_kind ev rg k c s)
        | None \<Rightarrow> register_kinds ev rg k cs (subscribe_kind ev rg k c s)))"

definition detach_object :: "nat \<Rightarrow> gateway_conn \<Rightarrow> gateway_conn" where
  "detach_object k s = log_unsubscriptions k (set_object k ((object_of s k)\<lparr>gs_accepts := False\<rparr>) s)"

definition subscribe_current :: "string \<Rightarrow> nat \<Rightarrow> gateway_conn \<Rightarrow> bool" where
  "subscribe_current sid g s \<longleftrightarrow> \<not> cn_terminated s \<and> cn_generations s sid = g"

section \<open>Resynchronizing and subscribing\<close>

definition from_number :: "json option \<Rightarrow> nat option" where
  "from_number v = (case v of Some (JNumber r) \<Rightarrow> if is_natural_number (JNumber r) then Some (nat \<lfloor>r\<rfloor>) else None | _ \<Rightarrow> None)"

definition replay_answer :: "nat option \<Rightarrow> gateway_stream \<Rightarrow> replay_frame list option" where
  "replay_answer from x = (case from of
       None \<Rightarrow> None
     | Some n \<Rightarrow> (let fs = filter (\<lambda>f. n \<le> fst f) (gs_replay x) in if replayable n fs then Some fs else None))"

definition resync_stream :: "gateway_env \<Rightarrow> string \<Rightarrow> json option \<Rightarrow> gateway_conn \<Rightarrow> gateway_conn" where
  "resync_stream ev sid from s = (case omap_get (cn_streams s) sid of
       None \<Rightarrow> send_error ev ''not_found'' ''Cannot resync an unsubscribed stream.'' True (Some sid) None s
     | Some k \<Rightarrow>
         if from \<noteq> None \<and> from_number from = None
         then send_error ev ''bad_sequence'' ''fromSequence must be a non-negative integer.'' True (Some sid) None s
         else (let s1 = send_status ev sid Replaying_status s; x = object_of s1 k;
                   s2 = (if gs_mode x = Command_only then s1
                     else (case replay_answer (from_number from) x of
                         Some fs \<Rightarrow> fold (\<lambda>f. send_frame ev (Stream_frame sid f)) fs s1
                       | None \<Rightarrow>
                           if gs_mode x = Trace_only then (case gs_trace x of None \<Rightarrow> s1 | Some p \<Rightarrow> send_sequenced ev k p s1)
                           else send_sequenced ev k (vw_snapshot (cn_views s1 k)) s1))
               in send_status ev sid (Source_status (vw_status (cn_views s2 k))) s2))"

text \<open>The end of handling a frame: nothing more, or the resynchronization asked for with the subscription.\<close>

definition frame_done :: "gateway_conn \<Rightarrow> gateway_conn" where
  "frame_done s = s\<lparr>cn_phase := Between\<rparr>"

definition subscribe_done :: "gateway_env \<Rightarrow> string \<Rightarrow> json option \<Rightarrow> gateway_conn \<Rightarrow> gateway_conn" where
  "subscribe_done ev sid from s = frame_done (if from = None then s else resync_stream ev sid from s)"

definition new_stream :: "gateway_env \<Rightarrow> string \<Rightarrow> json \<Rightarrow> stream_mode \<Rightarrow> source_info \<Rightarrow> replay_frame list \<Rightarrow> gateway_conn \<Rightarrow> gateway_stream" where
  "new_stream ev sid scope mode src fs s =
     \<lparr>gs_id = sid, gs_mode = mode, gs_session = cn_session s, gs_storage = storage_stream_id ev sid scope, gs_accepts = True,
      gs_attached = False, gs_source = src, gs_sequence = last_number fs, gs_replay = fs, gs_trace = latest_trace fs, gs_subscribed = []\<rparr>"

definition open_object :: "gateway_stream \<Rightarrow> gateway_conn \<Rightarrow> gateway_conn" where
  "open_object x s = log_action (Opened (length (cn_objects s)) (gs_replay x)) (s\<lparr>cn_objects := cn_objects s @ [x]\<rparr>)"

definition attach_stream :: "gateway_env \<Rightarrow> string \<Rightarrow> json \<Rightarrow> stream_mode \<Rightarrow> nat \<Rightarrow> source_info \<Rightarrow> replay_frame list \<Rightarrow> source_registration
    \<Rightarrow> gateway_conn \<Rightarrow> gateway_conn" where
  "attach_stream ev sid scope mode g src restored rg s =
     (let k = length (cn_objects s);
          fs = (if restored_match restored src then restored else [])
      in if \<not> subscribe_current sid g s then s
         else (case register_kinds ev rg k (kinds_of mode src) (open_object (new_stream ev sid scope mode src fs s) s) of
             (Some why, s1) \<Rightarrow>
               (let s2 = detach_object k s1
                in if subscribe_current sid g s2
                   then send_error ev ''internal_error''
                     (case why of None \<Rightarrow> ''Internal gateway subscription source_registration error.'' | Some m \<Rightarrow> m) False (Some sid) None s2
                   else s2)
           | (None, s1) \<Rightarrow>
               if \<not> subscribe_current sid g s1 then detach_object k s1
               else (set_object k ((object_of s1 k)\<lparr>gs_attached := True\<rparr>) s1)\<lparr>cn_streams := omap_set sid k (cn_streams s1)\<rparr>))"

definition begin_subscribe :: "gateway_env \<Rightarrow> string \<Rightarrow> json \<Rightarrow> stream_mode \<Rightarrow> json option \<Rightarrow> gateway_conn \<Rightarrow> gateway_conn" where
  "begin_subscribe ev sid scope mode from s =
     (if cn_terminated s then subscribe_done ev sid from s
      else (let g = cn_generations s sid + 1;
                s1 = cleanup_stream sid (s\<lparr>cn_generations := (cn_generations s)(sid := g)\<rparr>)
            in (log_action (Resolve_called scope (cn_auth s1)) s1)\<lparr>cn_phase := Resolving sid scope mode g from\<rparr>))"

datatype resolution =
    Resolved_source source_info | Resolved_nothing | Scope_refused string string bool | Resolver_threw "string option"

definition scope_resolved :: "gateway_env \<Rightarrow> string \<Rightarrow> json \<Rightarrow> stream_mode \<Rightarrow> nat \<Rightarrow> json option \<Rightarrow> resolution \<Rightarrow> source_registration \<Rightarrow> gateway_conn \<Rightarrow> gateway_conn" where
  "scope_resolved ev sid scope mode g from r rg s =
     (if \<not> subscribe_current sid g s then subscribe_done ev sid from s
      else (case r of
          Scope_refused code message recoverable \<Rightarrow> subscribe_done ev sid from (send_error ev code message recoverable (Some sid) None s)
        | Resolver_threw why \<Rightarrow> subscribe_done ev sid from (send_error ev ''internal_error''
            (case why of None \<Rightarrow> ''Internal gateway resolver error.'' | Some m \<Rightarrow> m) False (Some sid) None s)
        | Resolved_nothing \<Rightarrow> subscribe_done ev sid from
            (send_error ev ''not_found'' ''Requested runtime scope was not found.'' True (Some sid) None s)
        | Resolved_source src \<Rightarrow>
            if mode \<noteq> Command_only \<and> ge_storage ev
            then (log_action (Load_called (cn_session s) (storage_stream_id ev sid scope)) s)\<lparr>cn_phase := Loading sid scope mode g from src\<rparr>
            else subscribe_done ev sid from (attach_stream ev sid scope mode g src [] rg s)))"

text \<open>The storage answers with frames or fails, which is reported and taken for no frames.\<close>

definition frames_loaded :: "gateway_env \<Rightarrow> string \<Rightarrow> json \<Rightarrow> stream_mode \<Rightarrow> nat \<Rightarrow> json option \<Rightarrow> source_info \<Rightarrow> replay_frame list option \<Rightarrow> source_registration
    \<Rightarrow> gateway_conn \<Rightarrow> gateway_conn" where
  "frames_loaded ev sid scope mode g from src fs rg s =
     subscribe_done ev sid from (attach_stream ev sid scope mode g src (case fs of None \<Rightarrow> [] | Some l \<Rightarrow> trim_replay ev l) rg s)"

section \<open>Commands\<close>

definition gateway_base :: "string \<Rightarrow> string \<Rightarrow> string \<Rightarrow> string \<Rightarrow> string option \<Rightarrow> (string \<times> json) list" where
  "gateway_base tid actor sid cid pid =
     [(''traceId'', JString tid), (''actorId'', JString actor), (''sessionId'', JString sid), (''commandId'', JString cid)]
     @ (case pid of None \<Rightarrow> [] | Some p \<Rightarrow> if p = [] then [] else [(''principalId'', JString p)])"

definition gateway_rejected :: "string \<Rightarrow> string \<Rightarrow> string \<Rightarrow> string \<Rightarrow> string \<Rightarrow> json \<Rightarrow> json option \<Rightarrow> string option \<Rightarrow> string \<Rightarrow> string \<Rightarrow> admission_decision" where
  "gateway_rejected occurred actor sid cid stage rechecked who pid code detail =
     (let base = gateway_base (''trace:'' @ sid @ '':'' @ cid) actor sid cid pid
      in \<lparr>ad_ok = False, ad_principal = (case who of None \<Rightarrow> JObject [(''id'', JString ''principal:unknown''), (''kind'', JString ''unknown'')] | Some p \<Rightarrow> p),
          ad_metadata = JObject [(''commandId'', JString cid)],
          ad_admission = admission_receipt (receipt_fields base ''admission'' 1
            [(''occurredAt'', JString occurred), (''admissionStage'', JString stage),
             (''admission'', JObject [(''discovery'', JString ''descriptive_only''), (''outcome'', JString ''rejected''), (''rechecked'', rechecked)])]),
          ad_authorization = None,
          ad_rejection = Some (rejected_receipt (receipt_fields base ''rejection'' 2
            [(''occurredAt'', JString occurred), (''admissionStage'', JString stage), (''reason'', reason code detail)])),
          ad_claim = None\<rparr>)"

definition config_failure :: "admission_config \<Rightarrow> (string \<times> string) option" where
  "config_failure c =
     (if \<not> ac_resolver c then Some (''missing_principal'', ''commandAdmission requires an explicit principal resolver.'')
      else if \<not> ac_policy c then Some (''missing_policy_adapter'', ''commandAdmission requires an explicit policy adapter.'')
      else if \<not> ac_sink c then Some (''missing_decision_sink'', ''commandAdmission requires an explicit durable decision sink.'')
      else None)"

definition gateway_command_id :: "json option \<Rightarrow> clock \<Rightarrow> nat \<Rightarrow> string" where
  "gateway_command_id meta now n = (case text_value (Option.bind meta (\<lambda>m. field m ''commandId'')) of
       Some t \<Rightarrow> if trim t = [] then fst (fallback_command_id now n) else trim t | None \<Rightarrow> fst (fallback_command_id now n))"

definition pre_auth_rejection :: "gateway_env \<Rightarrow> gateway_command \<Rightarrow> clock \<Rightarrow> string \<Rightarrow> string \<Rightarrow> gateway_conn \<Rightarrow> admission_decision" where
  "pre_auth_rejection ev c now code detail s =
     gateway_rejected (fst now) (so_address (gs_source (object_of s (gc_stream c)))) (ge_id ev) (gc_command c)
       ''schema-admitted'' (JArray []) None None code detail"

definition sink_rejection :: "gateway_env \<Rightarrow> gateway_command \<Rightarrow> clock \<Rightarrow> admission_decision \<Rightarrow> gateway_conn \<Rightarrow> admission_decision" where
  "sink_rejection ev c now d s =
     gateway_rejected (fst now) (so_address (gs_source (object_of s (gc_stream c)))) (ge_id ev) (text_field (ad_metadata d) ''commandId'')
       (text_field (ad_admission d) ''admissionStage'')
       (case sub (ad_admission d) ''admission'' ''rechecked'' of None \<Rightarrow> JNull | Some v \<Rightarrow> v) (Some (ad_principal d))
       (text_value (field (ad_principal d) ''id'')) ''decision_sink_failure'' ''Decision sink threw before recording the admission decision.''"

definition truthy_text :: "json option \<Rightarrow> string option" where
  "truthy_text v = (case text_value v of None \<Rightarrow> None | Some t \<Rightarrow> if t = [] then None else Some t)"

definition gateway_trace :: "gateway_env \<Rightarrow> admission_decision \<Rightarrow> json list \<Rightarrow> agent_trace" where
  "gateway_trace ev d receipts =
     (let first = (case receipts of r # _ \<Rightarrow> r | [] \<Rightarrow> ad_admission d)
      in create_trace (ge_date ev) (ge_order ev)
         \<lparr>th_trace_id = text_field first ''traceId'', th_actor_id = text_field first ''actorId'', th_session_id = text_field first ''sessionId'',
          th_command_id = text_field first ''commandId'', th_intent_id = None, th_principal_id = truthy_text (field (ad_principal d) ''id''),
          th_attempt = None, th_revision = None, th_checkpoint_id = None\<rparr>
         (if truthy (field first ''correlationId'') then field first ''correlationId'' else None)
         (if truthy (field first ''causationId'') then field first ''causationId'' else None) receipts)"

definition append_trace :: "gateway_env \<Rightarrow> nat \<Rightarrow> admission_decision \<Rightarrow> json list \<Rightarrow> gateway_conn \<Rightarrow> gateway_conn" where
  "append_trace ev k d receipts s = (if so_traces (gs_source (object_of s k)) then log_action (Traced k (gateway_trace ev d receipts)) s else s)"

definition append_fact :: "nat \<Rightarrow> string \<Rightarrow> string \<Rightarrow> gateway_conn \<Rightarrow> gateway_conn" where
  "append_fact k code message s = (if so_traces (gs_source (object_of s k)) then log_action (Fact_traced k code message) s else s)"

definition settle_claim :: "admission_decision \<Rightarrow> settle_outcome \<Rightarrow> gateway_conn \<Rightarrow> gateway_conn" where
  "settle_claim d o' s = (if ad_claim d = None then s else log_action (Settle_called o') s)"

definition rejection_code :: "admission_decision \<Rightarrow> string" where
  "rejection_code d =
     (let code = Option.bind (ad_rejection d) (\<lambda>r. sub r ''reason'' ''code'')
      in if code = Some (JString ''missing_principal'') \<or> code = Some (JString ''principal_resolution_failure'') then ''unauthorized''
         else if code = Some (JString ''invalid_command_metadata'') then ''invalid_frame'' else ''forbidden'')"

definition rejection_message :: "admission_decision \<Rightarrow> string" where
  "rejection_message d = (case ad_rejection d of
       None \<Rightarrow> ''Command admission rejected.''
     | Some r \<Rightarrow> (case truthy_text (sub r ''reason'' ''detail'') of
           Some t \<Rightarrow> (case text_value (sub r ''reason'' ''code'') of None \<Rightarrow> [] | Some c \<Rightarrow> c) @ '': '' @ t
         | None \<Rightarrow> (case text_value (sub r ''reason'' ''code'') of None \<Rightarrow> ''Command admission rejected.'' | Some c \<Rightarrow> c)))"

definition command_error :: "gateway_env \<Rightarrow> gateway_command \<Rightarrow> string \<Rightarrow> string \<Rightarrow> json option \<Rightarrow> gateway_conn \<Rightarrow> gateway_conn" where
  "command_error ev c code message rejection s =
     frame_done (send_frame ev (Error_frame (Some (gc_id c)) (gc_request c) code message False rejection) s)"

definition refuse_command :: "gateway_env \<Rightarrow> gateway_command \<Rightarrow> admission_decision \<Rightarrow> gateway_conn \<Rightarrow> gateway_conn" where
  "refuse_command ev c d s =
     command_error ev c (rejection_code d) (rejection_message d) (ad_rejection d)
       (append_trace ev (gc_stream c) d (ad_admission d # (case ad_rejection d of None \<Rightarrow> [] | Some r \<Rightarrow> [r])) s)"

definition dispatch_command :: "gateway_command \<Rightarrow> admission_decision option \<Rightarrow> gateway_conn \<Rightarrow> gateway_conn" where
  "dispatch_command c d s = (log_action (Dispatched c) s)\<lparr>cn_phase := Commanding c (Wait_dispatch d)\<rparr>"

definition decide_command :: "gateway_env \<Rightarrow> gateway_command \<Rightarrow> admission_decision \<Rightarrow> gateway_conn \<Rightarrow> gateway_conn" where
  "decide_command ev c d s =
     (if \<not> ad_ok d \<or> ad_authorization d = None then refuse_command ev c d s else dispatch_command c (Some d) s)"

definition answer_command :: "gateway_env \<Rightarrow> gateway_command \<Rightarrow> json option \<Rightarrow> json \<Rightarrow> gateway_conn \<Rightarrow> gateway_conn" where
  "answer_command ev c authorization value s = frame_done (send_frame ev
     (if gc_kind c = ''ask'' then Reply_frame (gc_id c) (case gc_request c of None \<Rightarrow> [] | Some r \<Rightarrow> r) value authorization
      else Ack_frame (gc_id c) (gc_request c) authorization) s)"

definition failure_text :: "gateway_command \<Rightarrow> string option \<Rightarrow> string" where
  "failure_text c why = (case why of Some m \<Rightarrow> m
     | None \<Rightarrow> if gc_kind c = ''ask'' then ''Runtime ask failed.'' else ''Runtime command failed.'')"

text \<open>The receipt of an ask that was answered, with the value redacted.\<close>

definition ask_receipt :: "clock \<Rightarrow> admission_decision \<Rightarrow> json \<Rightarrow> json \<Rightarrow> json" where
  "ask_receipt now d a value =
     (let n = nat \<lfloor>case number_value (field a ''sequence'') of None \<Rightarrow> 0 | Some r \<Rightarrow> r\<rfloor> + 1
      in success_receipt (receipt_fields
           (gateway_base (text_field a ''traceId'') (text_field a ''actorId'') (text_field a ''sessionId'') (text_field a ''commandId'') (text_value (field (ad_principal d) ''id'')))
           ''result'' n [(''occurredAt'', JString (fst now)), (''result'', JObject [(''output'', redact value)])]))"

definition admission_input_of :: "gateway_env \<Rightarrow> admission_config \<Rightarrow> gateway_command \<Rightarrow> json \<Rightarrow> (json \<Rightarrow> policy_answer) \<Rightarrow> (json \<Rightarrow> claim_answer) \<Rightarrow> gateway_conn
    \<Rightarrow> admission_input" where
  "admission_input_of ev cfg c who policy claim s =
     \<lparr>ai_actor_id = so_address (gs_source (object_of s (gc_stream c))), ai_session_id = ge_id ev, ai_kind = gc_kind c, ai_message = gc_message c,
      ai_principal = who, ai_metadata = gc_metadata c, ai_policy = (if ac_policy cfg then Some policy else None), ai_require_policy = True,
      ai_idempotency = (if ac_idempotency cfg then Some claim else None)\<rparr>"

definition start_command :: "gateway_env \<Rightarrow> gateway_command \<Rightarrow> clock \<Rightarrow> gateway_conn \<Rightarrow> gateway_conn" where
  "start_command ev c now s = (case ge_admission ev of
       None \<Rightarrow> dispatch_command c None s
     | Some cfg \<Rightarrow> (case config_failure cfg of
           Some (code, detail) \<Rightarrow> refuse_command ev c (pre_auth_rejection ev c now code detail s) s
         | None \<Rightarrow> (log_action (Principal_called (cn_auth s)) s)\<lparr>cn_phase := Commanding c Wait_principal\<rparr>))"

definition normal_request :: "json option \<Rightarrow> string option" where
  "normal_request v = (case text_value v of None \<Rightarrow> None | Some t \<Rightarrow> if trim t = [] then None else Some t)"

definition normal_timeout :: "json option \<Rightarrow> rat option option" where
  "normal_timeout v = (case v of
       None \<Rightarrow> Some None
     | Some (JNumber r) \<Rightarrow> if 0 < r \<and> snd (quotient_of r) = 1 then Some (Some r) else None
     | _ \<Rightarrow> None)"

definition receive_command :: "gateway_env \<Rightarrow> string \<Rightarrow> json \<Rightarrow> clock \<Rightarrow> nat \<Rightarrow> gateway_conn \<Rightarrow> gateway_conn" where
  "receive_command ev kind v now n s =
     (let rid = normal_request (field v ''requestId'') in
      case normal_request (field v ''streamId'') of
        None \<Rightarrow> frame_done (send_error ev ''invalid_frame'' ''command requires a non-empty streamId.'' True None rid s)
      | Some sid \<Rightarrow> (case omap_get (cn_streams s) sid of
          None \<Rightarrow> frame_done (send_error ev ''not_found'' ''Cannot send command to an unsubscribed stream.'' True (Some sid) rid s)
        | Some k \<Rightarrow>
            (if kind = ''ask'' \<and> rid = None
             then frame_done (send_error ev ''invalid_frame'' ''ask requires a non-empty requestId.'' True (Some sid) None s)
             else (case field v ''message'' of
                 None \<Rightarrow> frame_done (send_error ev ''invalid_frame'' (kind @ '' requires a valid actor message.'') True (Some sid) rid s)
               | Some m \<Rightarrow>
                   if \<not> is_non_empty_string (field m ''type'')
                   then frame_done (send_error ev ''invalid_frame'' (kind @ '' requires a valid actor message.'') True (Some sid) rid s)
                   else (case (if kind = ''ask'' then normal_timeout (field v ''timeoutMs'') else Some None) of
                       None \<Rightarrow> frame_done (send_error ev ''invalid_frame'' ''timeoutMs must be a positive integer.'' True (Some sid) rid s)
                     | Some t \<Rightarrow>
                         if kind = ''ask'' \<and> \<not> so_ask (gs_source (object_of s k))
                         then frame_done (send_error ev ''forbidden'' ''Runtime scope does not accept ask commands.'' False (Some sid) rid s)
                         else if kind \<noteq> ''ask'' \<and> \<not> so_send (gs_source (object_of s k))
                         then frame_done (send_error ev ''forbidden'' ''Runtime scope does not accept commands.'' False (Some sid) rid s)
                         else start_command ev \<lparr>gc_kind = kind, gc_stream = k, gc_id = sid, gc_request = rid, gc_message = m, gc_timeout = t,
                                gc_metadata = field v ''metadata'',
                                gc_command = gateway_command_id (field v ''metadata'') now n\<rparr> now s)))))"

section \<open>Frames of the client\<close>

text \<open>\<open>verifyRuntimeGatewayAuth\<close>: what the provider's verifier answers, and what is made of it.\<close>

datatype verdict = Verdict_flag bool | Verdict_ok "json option" | Verdict_no string | Verdict_throws "string option"

datatype auth_result = Auth_ok "json option" | Auth_refused string | Auth_threw "string option"

definition gateway_auth :: "gateway_env \<Rightarrow> verdict \<Rightarrow> auth_result" where
  "gateway_auth ev v =
     (if \<not> ge_verifier ev then Auth_ok None
      else (case v of
          Verdict_flag b \<Rightarrow> if b then Auth_ok None else Auth_refused ''Authentication rejected.''
        | Verdict_ok c \<Rightarrow> Auth_ok c | Verdict_no why \<Rightarrow> Auth_refused why | Verdict_throws m \<Rightarrow> Auth_threw m))"

definition handling_failed :: "gateway_env \<Rightarrow> string option \<Rightarrow> gateway_conn \<Rightarrow> gateway_conn" where
  "handling_failed ev why s = frame_done (send_error ev ''internal_error''
     (case why of None \<Rightarrow> ''Internal gateway frame handling error.'' | Some m \<Rightarrow> m) False None None s)"

definition greet :: "gateway_env \<Rightarrow> json \<Rightarrow> json option \<Rightarrow> gateway_conn \<Rightarrow> gateway_conn" where
  "greet ev v auth s = frame_done (send_frame ev (Ready (ge_id ev) (ge_heartbeat ev))
     (s\<lparr>cn_greeted := True, cn_auth := auth, cn_session := replay_session ev auth v\<rparr>))"

definition auth_answered :: "gateway_env \<Rightarrow> json \<Rightarrow> verdict \<Rightarrow> gateway_conn \<Rightarrow> gateway_conn" where
  "auth_answered ev v answer s = (case gateway_auth ev answer of
       Auth_ok c \<Rightarrow> greet ev v (case c of None \<Rightarrow> ge_context ev | Some x \<Rightarrow> Some x) s
     | Auth_refused why \<Rightarrow> frame_done (shutdown ev True (send_error ev ''unauthorized'' why False None None s))
     | Auth_threw why \<Rightarrow> handling_failed ev why s)"

definition valid_scope :: "json option \<Rightarrow> bool" where
  "valid_scope v = (case v of None \<Rightarrow> False
     | Some w \<Rightarrow> is_non_empty_string (field w ''kind'')
         \<and> (case field w ''params'' of None \<Rightarrow> True | Some x \<Rightarrow> is_json_object (Some x) \<or> is_array (Some x)))"

fun mode_of :: "json option \<Rightarrow> stream_mode option" where
  "mode_of None = Some Full"
| "mode_of (Some (JString s)) =
     (if s = ''full'' then Some Full else if s = ''command-only'' then Some Command_only else if s = ''trace-only'' then Some Trace_only else None)"
| "mode_of _ = None"

definition invalid :: "gateway_env \<Rightarrow> string \<Rightarrow> gateway_conn \<Rightarrow> gateway_conn" where
  "invalid ev message s = frame_done (send_error ev ''invalid_frame'' message True None None s)"

definition receive_subscribe :: "gateway_env \<Rightarrow> json \<Rightarrow> gateway_conn \<Rightarrow> gateway_conn" where
  "receive_subscribe ev v s = (case normal_request (field v ''streamId'') of
       None \<Rightarrow> invalid ev ''subscribe requires a non-empty streamId.'' s
     | Some sid \<Rightarrow>
         if \<not> valid_scope (field v ''scope'')
         then frame_done (send_error ev ''invalid_scope'' ''subscribe requires a valid scope descriptor.'' True None None s)
         else (case (field v ''scope'', mode_of (field v ''mode'')) of
             (Some scope, Some mode) \<Rightarrow> begin_subscribe ev sid scope mode (field v ''fromSequence'') s
           | _ \<Rightarrow> invalid ev ''subscribe mode must be full, command-only, or trace-only.'' s))"

definition receive_frame :: "gateway_env \<Rightarrow> json \<Rightarrow> clock \<Rightarrow> nat \<Rightarrow> gateway_conn \<Rightarrow> gateway_conn" where
  "receive_frame ev v now n s = (case text_value (field v ''type'') of
       None \<Rightarrow> invalid ev ''Gateway frame must be an object with a type field.'' s
     | Some t \<Rightarrow>
         if t \<noteq> ''hello'' \<and> \<not> cn_greeted s then invalid ev ''Send hello before subscribing to runtime streams.'' s
         else if t = ''hello'' then (if ge_auth ev then s\<lparr>cn_phase := Verifying v\<rparr> else greet ev v (cn_auth s) s)
         else if t = ''ping'' then frame_done (send_frame ev (Pong_frame (field v ''sentAt'')) s)
         else if t = ''unsubscribe'' then (case normal_request (field v ''streamId'') of
             None \<Rightarrow> invalid ev ''unsubscribe requires a non-empty streamId.'' s
           | Some sid \<Rightarrow> frame_done (cleanup_stream sid s))
         else if t = ''resync'' then (case normal_request (field v ''streamId'') of
             None \<Rightarrow> invalid ev ''resync requires a non-empty streamId.'' s
           | Some sid \<Rightarrow> frame_done (resync_stream ev sid (field v ''fromSequence'') s))
         else if t = ''send'' \<or> t = ''ask'' then receive_command ev t v now n s
         else if t = ''subscribe'' then receive_subscribe ev v s
         else frame_done s)"

text \<open>The next frame, unless the connection has ended; a falsy one only ends the loop, which is started again.\<close>

definition next_frame :: "gateway_env \<Rightarrow> clock \<Rightarrow> nat \<Rightarrow> gateway_conn \<Rightarrow> gateway_conn" where
  "next_frame ev now n s =
     (if cn_terminated s then s\<lparr>cn_phase := Waiting\<rparr>
      else (case cn_pending s of
          [] \<Rightarrow> s\<lparr>cn_phase := Waiting\<rparr>
        | v # vs \<Rightarrow> if truthy (Some v) then receive_frame ev v now n (s\<lparr>cn_pending := vs\<rparr>) else frame_done (s\<lparr>cn_pending := vs\<rparr>)))"

text \<open>A frame that arrives: the listener's own call throws for \<open>null\<close>.\<close>

definition frame_arrives :: "gateway_env \<Rightarrow> json \<Rightarrow> clock \<Rightarrow> nat \<Rightarrow> gateway_conn \<Rightarrow> gateway_conn" where
  "frame_arrives ev v now n s =
     (if cn_terminated s then s
      else if normalize_limit (ge_limit ev) \<le> int (length (cn_pending s))
      then reject_ingress ev ''invalid_frame'' ''Gateway inbound queue limit exceeded.'' ''inbound_queue_overflow'' (length (cn_pending s)) s
      else if v = JNull then s
      else (let sid = (case text_value (field v ''streamId'') of None \<Rightarrow> [] | Some t \<Rightarrow> trim t);
                s1 = (if field v ''type'' = Some (JString ''unsubscribe'') \<and> sid \<noteq> []
                      then s\<lparr>cn_generations := (cn_generations s)(sid := cn_generations s sid + 1)\<rparr> else s);
                s2 = arm_idle ev s1;
                s3 = s2\<lparr>cn_pending := cn_pending s2 @ [v]\<rparr>
            in if cn_phase s = Waiting then next_frame ev now n s3 else s3))"

section \<open>The connection as a machine\<close>

datatype gateway_event =
    Frame_arrives json clock nat
  | Bad_frame string
  | Next_job clock nat
  | Auth_answers verdict
  | Scope_answers resolution source_registration
  | Storage_answers "replay_frame list option" source_registration
  | Principal_answers "json option" clock
  | Admission_answers clock nat "json \<Rightarrow> policy_answer" "json \<Rightarrow> claim_answer"
  | Sink_answers bool clock
  | Settle_answers bool clock
  | Dispatch_answers "string option + json" clock
  | Source_shows nat subscription_kind payload
  | Source_status_changes nat json
  | View_changes nat gateway_view
  | Send_settles nat bool
  | Sends_will_throw "bool list"
  | Idle_passes
  | Link_closes

definition dispatch_answered :: "gateway_env \<Rightarrow> gateway_command \<Rightarrow> admission_decision option \<Rightarrow> string option + json \<Rightarrow> clock \<Rightarrow> gateway_conn \<Rightarrow> gateway_conn" where
  "dispatch_answered ev c decided r now s = (case (decided, r) of
       (None, Inr value) \<Rightarrow> answer_command ev c None value s
     | (None, Inl why) \<Rightarrow> command_error ev c ''internal_error'' (failure_text c why) None s
     | (Some d, Inr value) \<Rightarrow>
         (let a = (case ad_authorization d of None \<Rightarrow> JNull | Some x \<Rightarrow> x)
          in (settle_claim d Dispatch_succeeded (append_trace ev (gc_stream c) d
               ([ad_admission d, a] @ (if gc_kind c = ''ask'' then [ask_receipt now d a value] else [])) s))
                \<lparr>cn_phase := Commanding c (Wait_settled d value)\<rparr>)
     | (Some d, Inl why) \<Rightarrow>
         (settle_claim d Dispatch_indeterminate (append_fact (gc_stream c) ''trace_dispatch_failed''
            (if gc_kind c = ''ask'' then ''Runtime ask dispatch failed.'' else ''Runtime command dispatch failed.'') s))
           \<lparr>cn_phase := Commanding c (Wait_indeterminate d (failure_text c why))\<rparr>)"

definition command_step :: "gateway_env \<Rightarrow> gateway_command \<Rightarrow> command_stage \<Rightarrow> gateway_event \<Rightarrow> gateway_conn \<Rightarrow> gateway_conn" where
  "command_step ev c stage e s = (case stage of
       Wait_principal \<Rightarrow> (case e of
           Principal_answers None now \<Rightarrow> refuse_command ev c (pre_auth_rejection ev c now ''principal_resolution_failure''
             ''Principal resolver threw before returning a principal.'' s) s
         | Principal_answers (Some p) now \<Rightarrow> s\<lparr>cn_phase := Commanding c (Wait_admission p)\<rparr>
         | _ \<Rightarrow> s)
     | Wait_admission p \<Rightarrow> (case (e, ge_admission ev) of
           (Admission_answers now n policy claim, Some cfg) \<Rightarrow>
             (let d = fst (fst (admit_command (ge_date ev) now (admission_input_of ev cfg c p policy claim s) n))
              in (log_action (Sink_called c d) s)\<lparr>cn_phase := Commanding c (Wait_sink d)\<rparr>)
         | _ \<Rightarrow> s)
     | Wait_sink d \<Rightarrow> (case e of
           Sink_answers ok now \<Rightarrow>
             if ok then decide_command ev c d s
             else if ad_ok d then (settle_claim d Not_dispatched (log_action Sink_failed s))\<lparr>cn_phase := Commanding c (Wait_release d)\<rparr>
             else refuse_command ev c (sink_rejection ev c now d s) (log_action Sink_failed s)
         | _ \<Rightarrow> s)
     | Wait_release d \<Rightarrow> (case e of Settle_answers ok now \<Rightarrow> refuse_command ev c (sink_rejection ev c now d s) s | _ \<Rightarrow> s)
     | Wait_dispatch d \<Rightarrow> (case e of Dispatch_answers r now \<Rightarrow> dispatch_answered ev c d r now s | _ \<Rightarrow> s)
     | Wait_settled d value \<Rightarrow> (case e of
           Settle_answers ok now \<Rightarrow>
             if ok \<or> ad_claim d = None then answer_command ev c (ad_authorization d) value s
             else command_error ev c ''internal_error'' ''Dispatch outcome could not be recorded after execution.'' None s
         | _ \<Rightarrow> s)
     | Wait_indeterminate d message \<Rightarrow> (case e of Settle_answers ok now \<Rightarrow> command_error ev c ''internal_error'' message None s | _ \<Rightarrow> s))"

text \<open>Whether a stream object has a subscription of a kind at its source.\<close>

definition is_subscribed :: "nat \<Rightarrow> subscription_kind \<Rightarrow> gateway_conn \<Rightarrow> bool" where
  "is_subscribed k c s \<longleftrightarrow> k < length (cn_objects s) \<and> c \<in> set (gs_subscribed (object_of s k))"

definition phase_step :: "gateway_env \<Rightarrow> gateway_event \<Rightarrow> gateway_conn \<Rightarrow> gateway_conn" where
  "phase_step ev e s = (case cn_phase s of
       Waiting \<Rightarrow> s
     | Between \<Rightarrow> (case e of Next_job now n \<Rightarrow> next_frame ev now n s | _ \<Rightarrow> s)
     | Verifying v \<Rightarrow> (case e of Auth_answers a \<Rightarrow> auth_answered ev v a s | _ \<Rightarrow> s)
     | Resolving sid scope mode g from \<Rightarrow> (case e of Scope_answers r rg \<Rightarrow> scope_resolved ev sid scope mode g from r rg s | _ \<Rightarrow> s)
     | Loading sid scope mode g from src \<Rightarrow> (case e of Storage_answers fs rg \<Rightarrow> frames_loaded ev sid scope mode g from src fs rg s | _ \<Rightarrow> s)
     | Commanding c stage \<Rightarrow> command_step ev c stage e s)"

definition gateway_step :: "gateway_env \<Rightarrow> gateway_event \<Rightarrow> gateway_conn \<Rightarrow> gateway_conn" where
  "gateway_step ev e s = (case e of
       Frame_arrives v now n \<Rightarrow> frame_arrives ev v now n s
     | Bad_frame why \<Rightarrow> if cn_terminated s then s else reject_ingress ev ''invalid_frame'' why ''invalid_frame'' 0 s
     | Source_shows k c p \<Rightarrow> if is_subscribed k c s \<and> c \<noteq> Sub_status then source_shows ev k c p s else s
     | Source_status_changes k st \<Rightarrow> if is_subscribed k Sub_status s then source_status ev k st s else s
     | View_changes k w \<Rightarrow> s\<lparr>cn_views := (cn_views s)(k := w)\<rparr>
     | Send_settles i ok \<Rightarrow> record_outcome ev i ok s
     | Sends_will_throw bs \<Rightarrow> s\<lparr>cn_throws := bs\<rparr>
     | Idle_passes \<Rightarrow> if cn_idle s then shutdown ev True (s\<lparr>cn_idle := False\<rparr>) else s
     | Link_closes \<Rightarrow> shutdown ev False s
     | _ \<Rightarrow> phase_step ev e s)"

definition new_connection :: "gateway_env \<Rightarrow> gateway_conn" where
  "new_connection ev = arm_idle ev
     \<lparr>cn_greeted = False, cn_session = ge_id ev, cn_auth = ge_context ev, cn_objects = [], cn_streams = [], cn_generations = (\<lambda>_. 0),
      cn_pending = [], cn_phase = Waiting, cn_terminated = False, cn_idle = False, cn_attempts = 0, cn_next_outcome = 1, cn_failures = 0,
      cn_outcomes = [], cn_open_sends = [], cn_throws = [], cn_views = (\<lambda>_. \<lparr>vw_snapshot = Snapshot_of [] JNull, vw_status = JNull\<rparr>), cn_log = []\<rparr>"

definition gateway_run :: "gateway_env \<Rightarrow> gateway_event list \<Rightarrow> gateway_conn" where
  "gateway_run ev es = fold (gateway_step ev) es (new_connection ev)"
end
