(* ===== verification/Gateway_Commands.thy ===== *)
theory Gateway_Commands
  imports Gateway_Hub
begin

text \<open>
  Commands over the gateway: what may happen around one, as an order on the log, and that every connection keeps it. A command
  reaches its actor only after an admission that the decision sink has recorded, and each idempotency claim is settled once, by what
  really happened.
\<close>

section \<open>The order of a command\<close>

datatype desk =
    Desk_free | Desk_asked gateway_command admission_decision | Desk_unrecorded
  | Desk_running gateway_command admission_decision | Desk_succeeded gateway_command admission_decision | Desk_failed

text \<open>No claim is open.\<close>

fun desk_clear :: "desk \<Rightarrow> bool" where
  "desk_clear (Desk_asked c d) \<longleftrightarrow> \<not> ad_ok d"
| "desk_clear (Desk_running c d) \<longleftrightarrow> ad_claim d = None"
| "desk_clear Desk_unrecorded \<longleftrightarrow> False"
| "desk_clear q \<longleftrightarrow> True"

text \<open>The decision is the admission of exactly this command, with some principal and answers of the policy and the claims.\<close>

definition admitted_as :: "gateway_env \<Rightarrow> gateway_command \<Rightarrow> admission_decision \<Rightarrow> bool" where
  "admitted_as ev c d \<longleftrightarrow> (\<exists>cfg who policy claim s now n. ge_admission ev = Some cfg \<and> config_failure cfg = None
     \<and> d = fst (fst (admit_command (ge_date ev) now (admission_input_of ev cfg c who policy claim s) n)))"

definition answers_command :: "gateway_command \<Rightarrow> admission_decision \<Rightarrow> server_frame \<Rightarrow> bool" where
  "answers_command c d f = (case f of
       Ack_frame sid rid a \<Rightarrow> gc_kind c \<noteq> ''ask'' \<and> sid = gc_id c \<and> rid = gc_request c \<and> a = ad_authorization d
     | Reply_frame sid rid value a \<Rightarrow> gc_kind c = ''ask'' \<and> sid = gc_id c \<and> gc_request c = Some rid \<and> a = ad_authorization d
     | _ \<Rightarrow> False)"

fun is_answer :: "server_frame \<Rightarrow> bool" where
  "is_answer (Ack_frame sid rid a) \<longleftrightarrow> True"
| "is_answer (Reply_frame sid rid v a) \<longleftrightarrow> True"
| "is_answer f \<longleftrightarrow> False"

definition desk_step :: "gateway_env \<Rightarrow> gateway_action \<Rightarrow> desk \<Rightarrow> desk option" where
  "desk_step ev a q = (case a of
       Sink_called c d \<Rightarrow> if desk_clear q \<and> admitted_as ev c d then Some (Desk_asked c d) else None
     | Sink_failed \<Rightarrow> (case q of Desk_asked c d \<Rightarrow> Some (if ad_ok d \<and> ad_claim d \<noteq> None then Desk_unrecorded else Desk_free) | _ \<Rightarrow> None)
     | Dispatched c \<Rightarrow> (case q of Desk_asked c1 d \<Rightarrow> if c1 = c \<and> ad_ok d then Some (Desk_running c d) else None | _ \<Rightarrow> None)
     | Settle_called what \<Rightarrow> (case (q, what) of
           (Desk_unrecorded, Not_dispatched) \<Rightarrow> Some Desk_free
         | (Desk_running c d, Dispatch_succeeded) \<Rightarrow> if ad_claim d = None then None else Some (Desk_succeeded c d)
         | (Desk_running c d, Dispatch_indeterminate) \<Rightarrow> if ad_claim d = None then None else Some Desk_failed
         | _ \<Rightarrow> None)
     | Handed f \<Rightarrow> if \<not> is_answer f then Some q
         else (case q of
             Desk_running c d \<Rightarrow> if ad_claim d = None \<and> answers_command c d f then Some Desk_free else None
           | Desk_succeeded c d \<Rightarrow> if answers_command c d f then Some Desk_free else None
           | _ \<Rightarrow> None)
     | _ \<Rightarrow> Some q)"

fun desk_of :: "gateway_env \<Rightarrow> gateway_action list \<Rightarrow> desk option" where
  "desk_of ev [] = Some Desk_free"
| "desk_of ev (a # older) = Option.bind (desk_of ev older) (desk_step ev a)"

section \<open>What is not about commands leaves the desk as it is\<close>

definition at_desk :: "gateway_env \<Rightarrow> gateway_conn \<Rightarrow> desk option \<times> gateway_phase" where
  "at_desk ev s = (desk_of ev (cn_log s), cn_phase s)"

fun unremarkable :: "gateway_action \<Rightarrow> bool" where
  "unremarkable (Sink_called c d) \<longleftrightarrow> False"
| "unremarkable Sink_failed \<longleftrightarrow> False"
| "unremarkable (Dispatched c) \<longleftrightarrow> False"
| "unremarkable (Settle_called w) \<longleftrightarrow> False"
| "unremarkable (Handed f) \<longleftrightarrow> \<not> is_answer f"
| "unremarkable a \<longleftrightarrow> True"

lemma quiet_step: "unremarkable a \<Longrightarrow> Option.bind q (desk_step ev a) = q"
  by (cases q; cases a) (simp_all add: desk_step_def)

lemma desk_quiet [simp]: "unremarkable a \<Longrightarrow> at_desk ev (log_action a s) = at_desk ev s"
  by (simp add: at_desk_def log_action_def quiet_step)

lemma desk_cong:
  "cn_log s1 = cn_log s \<Longrightarrow> cn_phase s1 = cn_phase s \<Longrightarrow> at_desk ev s1 = at_desk ev s"
  by (simp add: at_desk_def)

lemma desk_updates [simp]:
  "at_desk ev (s\<lparr>cn_greeted := b\<rparr>) = at_desk ev s" "at_desk ev (s\<lparr>cn_session := t\<rparr>) = at_desk ev s" "at_desk ev (s\<lparr>cn_auth := au\<rparr>) = at_desk ev s"
  "at_desk ev (s\<lparr>cn_objects := xs\<rparr>) = at_desk ev s" "at_desk ev (s\<lparr>cn_streams := m\<rparr>) = at_desk ev s"
  "at_desk ev (s\<lparr>cn_generations := gn\<rparr>) = at_desk ev s" "at_desk ev (s\<lparr>cn_pending := vs\<rparr>) = at_desk ev s"
  "at_desk ev (s\<lparr>cn_terminated := b\<rparr>) = at_desk ev s" "at_desk ev (s\<lparr>cn_idle := b\<rparr>) = at_desk ev s" "at_desk ev (s\<lparr>cn_attempts := n\<rparr>) = at_desk ev s"
  "at_desk ev (s\<lparr>cn_next_outcome := n\<rparr>) = at_desk ev s" "at_desk ev (s\<lparr>cn_failures := n\<rparr>) = at_desk ev s"
  "at_desk ev (s\<lparr>cn_outcomes := om\<rparr>) = at_desk ev s" "at_desk ev (s\<lparr>cn_open_sends := ns\<rparr>) = at_desk ev s"
  "at_desk ev (s\<lparr>cn_throws := bs\<rparr>) = at_desk ev s" "at_desk ev (s\<lparr>cn_views := vw\<rparr>) = at_desk ev s"
  by (simp_all add: at_desk_def)

lemma desk_fold: "(\<And>x s. at_desk ev (f x s) = at_desk ev s) \<Longrightarrow> at_desk ev (fold f xs s) = at_desk ev s"
  by (induction xs arbitrary: s) simp_all

lemma desk_object [simp]: "at_desk ev (set_object k x s) = at_desk ev s" by (simp add: set_object_def)

lemma desk_unsubscriptions [simp]: "at_desk ev (log_unsubscriptions k s) = at_desk ev s"
  by (simp add: log_unsubscriptions_def desk_fold)

lemma desk_cleanup [simp]: "at_desk ev (cleanup_stream sid s) = at_desk ev s"
  by (simp add: cleanup_stream_def split: option.split)

lemma desk_shutdown [simp]: "at_desk ev (shutdown ev' b s) = at_desk ev s"
  by (simp add: shutdown_def cleanup_all_def abort_persistence_def desk_fold Let_def)

lemma desk_outcomes [simp]: "at_desk ev (process_outcomes ev' s) = at_desk ev s"
proof (induction ev' s rule: process_outcomes.induct)
  case (1 ev' s)
  show ?case
    by (subst process_outcomes.simps) (use 1 in \<open>auto simp: Let_def split: option.split\<close>)
qed

lemma desk_record [simp]: "at_desk ev (record_outcome ev' i ok s) = at_desk ev s"
  by (simp add: record_outcome_def)

lemma desk_send [simp]: "\<not> is_answer f \<Longrightarrow> at_desk ev (send_frame ev' f s) = at_desk ev s"
  by (simp add: send_frame_def Let_def)

lemma desk_sends [simp]:
  "at_desk ev (send_error ev' code m r sid rid s) = at_desk ev s" "at_desk ev (send_status ev' str st s) = at_desk ev s"
  "at_desk ev (reject_ingress ev' code m kind n s) = at_desk ev s" "at_desk ev (send_sequenced ev' k p s) = at_desk ev s"
  "at_desk ev (source_status ev' k v s) = at_desk ev s" "at_desk ev (source_shows ev' k c p s) = at_desk ev s"
  "at_desk ev (arm_idle ev' s) = at_desk ev s"
  by (simp_all add: send_error_def send_status_def reject_ingress_def send_sequenced_def Let_def source_status_def source_shows_def arm_idle_def
      split: subscription_kind.split)

lemma desk_subscribe [simp]: "at_desk ev (subscribe_kind ev' rg k c s) = at_desk ev s"
  by (simp add: subscribe_kind_def Let_def desk_fold)

lemma desk_register: "at_desk ev (snd (register_kinds ev' rg k cs s)) = at_desk ev s"
  by (induction ev' rg k cs s rule: register_kinds.induct) (simp_all split: option.split prod.split)

lemma desk_attach [simp]:
  "at_desk ev (detach_object k s) = at_desk ev s" "at_desk ev (open_object x s) = at_desk ev s"
  "at_desk ev (attach_stream ev' sid scope mode g src fs rg s) = at_desk ev s"
proof -
  show d: "at_desk ev (detach_object k s) = at_desk ev s" for k s by (simp add: detach_object_def)
  show o': "at_desk ev (open_object x s) = at_desk ev s" for x s by (simp add: open_object_def)
  let ?r = "register_kinds ev' rg (length (cn_objects s)) (kinds_of mode src)
    (open_object (new_stream ev' sid scope mode src (if restored_match fs src then fs else []) s) s)"
  have r: "at_desk ev (snd ?r) = at_desk ev s" by (simp add: desk_register o')
  obtain w s1 where w: "?r = (w, s1)" by fastforce
  then have "at_desk ev s1 = at_desk ev s" using r by simp
  then show "at_desk ev (attach_stream ev' sid scope mode g src fs rg s) = at_desk ev s"
    by (simp add: attach_stream_def Let_def w d split: option.split)
qed

lemma desk_resync [simp]: "at_desk ev (resync_stream ev' sid from s) = at_desk ev s"
  by (simp add: resync_stream_def Let_def desk_fold split: option.split)

lemma desk_greet [simp]:
  "desk_of ev (cn_log (frame_done s)) = desk_of ev (cn_log s)" "cn_phase (frame_done s) = Between"
  by (simp_all add: frame_done_def)

lemma desk_log_of: "desk_of ev (cn_log s) = fst (at_desk ev s)" by (simp add: at_desk_def)
lemma phase_of_desk: "cn_phase s = snd (at_desk undefined s)" by (simp add: at_desk_def)

section \<open>Every step keeps the order\<close>

definition configured :: "gateway_env \<Rightarrow> bool" where
  "configured ev \<longleftrightarrow> (\<exists>cfg. ge_admission ev = Some cfg \<and> config_failure cfg = None)"

definition phase_matches :: "gateway_env \<Rightarrow> gateway_phase \<Rightarrow> desk \<Rightarrow> bool" where
  "phase_matches ev p q \<longleftrightarrow> (case p of
       Commanding c stage \<Rightarrow> (gc_kind c = ''ask'' \<longrightarrow> gc_request c \<noteq> None) \<and> (case stage of
           Wait_sink d \<Rightarrow> q = Desk_asked c d \<and> (ad_ok d \<longrightarrow> ad_authorization d \<noteq> None)
         | Wait_dispatch d \<Rightarrow> (case d of None \<Rightarrow> False | Some d \<Rightarrow> q = Desk_running c d)
         | Wait_settled d v \<Rightarrow> q = (if ad_claim d = None then Desk_running c d else Desk_succeeded c d)
         | Wait_release d \<Rightarrow> desk_clear q
         | Wait_indeterminate d m \<Rightarrow> desk_clear q
         | _ \<Rightarrow> desk_clear q \<and> configured ev)
     | _ \<Rightarrow> desk_clear q)"

definition desk_ok :: "gateway_env \<Rightarrow> gateway_conn \<Rightarrow> bool" where
  "desk_ok ev s \<longleftrightarrow> (\<exists>q. desk_of ev (cn_log s) = Some q \<and> phase_matches ev (cn_phase s) q)"

lemma desk_okI: "desk_of ev (cn_log s) = Some q \<Longrightarrow> phase_matches ev (cn_phase s) q \<Longrightarrow> desk_ok ev s"
  by (auto simp: desk_ok_def)

text \<open>A step that changes neither the desk nor the phase, or ends the handling of a frame.\<close>

lemma desk_same: "at_desk ev s1 = at_desk ev s \<Longrightarrow> desk_ok ev s \<Longrightarrow> desk_ok ev s1"
  by (auto simp: desk_ok_def at_desk_def)

lemma desk_clear_phase: "desk_clear q \<Longrightarrow> \<forall>c st. p \<noteq> Commanding c st \<Longrightarrow> phase_matches ev p q"
  unfolding phase_matches_def by (cases p) auto

lemma desk_done: "at_desk ev s1 = at_desk ev s \<Longrightarrow> desk_of ev (cn_log s) = Some q \<Longrightarrow> desk_clear q \<Longrightarrow> desk_ok ev (frame_done s1)"
  by (auto simp: desk_ok_def at_desk_def intro!: desk_clear_phase)

lemma subscribe_done_desk:
  "at_desk ev s1 = at_desk ev s \<Longrightarrow> desk_of ev (cn_log s) = Some q \<Longrightarrow> desk_clear q \<Longrightarrow> desk_ok ev (subscribe_done ev' sid from s1)"
  by (simp add: subscribe_done_def desk_done [of ev _ s])

definition settled_decision :: "admission_decision \<Rightarrow> bool" where
  "settled_decision d \<longleftrightarrow> (if ad_ok d then ad_authorization d \<noteq> None else ad_claim d = None)"

lemma settled_decisions [simp]: "settled_decision (reject_with p m b st w)" "settled_decision (authorize_with p m b x c)"
  by (simp_all add: settled_decision_def reject_with_def authorize_with_def)

lemma settled_claim [simp]: "settled_decision (fst (admit_claim i ctx p m b x))"
  by (simp add: admit_claim_def Let_def split: option.split claim_answer.split)

lemma settled_policy [simp]: "settled_decision (fst (after_policy i ctx p m b a))"
  by (simp add: after_policy_def Let_def split: policy_answer.split)

lemma settled_admit [simp]: "settled_decision (fst (admit_policy i ctx p m b))"
  by (simp add: admit_policy_def Let_def case_prod_unfold split: option.split)

lemma settled_admission: "settled_decision (fst (fst (admit_command dp now i n)))"
  by (simp add: admit_command_def Let_def case_prod_unfold split: option.split)

lemma append_trace_desk [simp]: "at_desk ev (append_trace ev' k d rs s) = at_desk ev s" "at_desk ev (append_fact k code m s) = at_desk ev s"
  by (simp_all add: append_trace_def append_fact_def)

lemma error_desk [simp]: "at_desk ev (send_frame ev' (Error_frame a b c m r j) s) = at_desk ev s" by simp

lemma command_error_ok:
  "at_desk ev s1 = at_desk ev s \<Longrightarrow> desk_of ev (cn_log s) = Some q \<Longrightarrow> desk_clear q \<Longrightarrow> desk_ok ev (command_error ev' c code m r s1)"
  unfolding command_error_def by (rule desk_done [of ev _ s]) simp_all

lemma refuse_ok:
  "at_desk ev s1 = at_desk ev s \<Longrightarrow> desk_of ev (cn_log s) = Some q \<Longrightarrow> desk_clear q \<Longrightarrow> desk_ok ev (refuse_command ev' c d s1)"
  unfolding refuse_command_def by (rule command_error_ok [of ev _ s]) simp_all

lemma desk_logged: "desk_of ev (cn_log (log_action a s)) = Option.bind (desk_of ev (cn_log s)) (desk_step ev a)" "cn_phase (log_action a s) = cn_phase s"
  by (simp_all add: log_action_def)

lemma dispatch_follows:
  assumes "desk_of ev (cn_log s) = Some (Desk_asked c d)" "ad_ok d" "gc_kind c = ''ask'' \<longrightarrow> gc_request c \<noteq> None"
  shows "desk_ok ev (dispatch_command c (Some d) s)"
  by (rule desk_okI [where q = "Desk_running c d"])
    (use assms in \<open>simp_all add: dispatch_command_def desk_logged desk_step_def phase_matches_def\<close>)

lemma settle_desk:
  "desk_of ev (cn_log (settle_claim d what s)) =
     (if ad_claim d = None then desk_of ev (cn_log s) else Option.bind (desk_of ev (cn_log s)) (desk_step ev (Settle_called what)))"
  "cn_phase (settle_claim d what s) = cn_phase s"
  by (simp_all add: settle_claim_def desk_logged)

text \<open>The answer to the client: when it can still be handed over, the desk becomes free.\<close>

lemma answer_ok:
  assumes q: "desk_of ev (cn_log s) = Some (if ad_claim d = None then Desk_running c d else Desk_succeeded c d)"
    and c: "gc_kind c = ''ask'' \<longrightarrow> gc_request c \<noteq> None"
  shows "desk_ok ev (answer_command ev' c (ad_authorization d) value s)"
proof -
  let ?f = "if gc_kind c = ''ask'' then Reply_frame (gc_id c) (case gc_request c of None \<Rightarrow> [] | Some r \<Rightarrow> r) value (ad_authorization d)
      else Ack_frame (gc_id c) (gc_request c) (ad_authorization d)"
  have f: "is_answer ?f" "answers_command c d ?f" using c by (auto simp: answers_command_def)
  show ?thesis
  proof (cases "cn_terminated s")
    case True
    then have s: "send_frame ev' f s = s" for f by (simp add: send_frame_def)
    have "desk_clear (if ad_claim d = None then Desk_running c d else Desk_succeeded c d)" by simp
    then show ?thesis unfolding answer_command_def s by (rule desk_done [OF refl q])
  next
    case False
    define i where "i = cn_attempts s + 1"
    define s1 where "s1 = log_action (Handed ?f) (s\<lparr>cn_attempts := i, cn_open_sends := cn_open_sends s @ [i], cn_throws := tl (cn_throws s)\<rparr>)"
    have "send_frame ev' ?f s = (if (case cn_throws s of [] \<Rightarrow> False | b # _ \<Rightarrow> b) then record_outcome ev' i False s1 else s1)"
      unfolding send_frame_def Let_def s1_def i_def using False by simp
    then have "at_desk ev (send_frame ev' ?f s) = at_desk ev s1" by simp
    moreover have "desk_of ev (cn_log s1) = Some Desk_free"
      unfolding s1_def desk_logged using q f by (simp add: desk_step_def)
    ultimately show ?thesis unfolding answer_command_def by (rule desk_done) simp
  qed
qed

lemma admission_asks:
  assumes "desk_of ev (cn_log s) = Some q" "desk_clear q" "ge_admission ev = Some cfg" "config_failure cfg = None"
    "d = fst (fst (admit_command (ge_date ev) now (admission_input_of ev cfg c p policy claim s) n))"
    "gc_kind c = ''ask'' \<longrightarrow> gc_request c \<noteq> None"
  shows "desk_ok ev ((log_action (Sink_called c d) s)\<lparr>cn_phase := Commanding c (Wait_sink d)\<rparr>)"
proof -
  have "admitted_as ev c d" unfolding admitted_as_def using assms(3-5) by blast
  moreover have "ad_ok d \<longrightarrow> ad_authorization d \<noteq> None"
    using settled_admission [of "ge_date ev" now "admission_input_of ev cfg c p policy claim s" n] assms(5) by (simp add: settled_decision_def split: if_splits)
  ultimately show ?thesis
    by (intro desk_okI [where q = "Desk_asked c d"]) (use assms in \<open>simp_all add: desk_logged desk_step_def phase_matches_def\<close>)
qed

lemma start_ok:
  assumes "at_desk ev s1 = at_desk ev s" "desk_of ev (cn_log s) = Some q" "desk_clear q" "ge_admission ev \<noteq> None"
    "gc_kind c = ''ask'' \<longrightarrow> gc_request c \<noteq> None"
  shows "desk_ok ev (start_command ev c now s1)"
proof -
  obtain cfg where cfg: "ge_admission ev = Some cfg" using assms(4) by blast
  have q: "desk_of ev (cn_log s1) = Some q" using assms(1,2) by (simp add: at_desk_def)
  show ?thesis
  proof (cases "config_failure cfg")
    case None
    have "desk_ok ev ((log_action (Principal_called (cn_auth s1)) s1)\<lparr>cn_phase := Commanding c Wait_principal\<rparr>)"
      by (rule desk_okI [where q = q])
        (use q assms(3,5) None cfg in \<open>simp_all add: desk_logged desk_step_def phase_matches_def configured_def\<close>)
    then show ?thesis by (simp add: start_command_def cfg None)
  next
    case (Some w)
    then show ?thesis using refuse_ok [OF refl q assms(3)] by (cases w) (simp add: start_command_def cfg)
  qed
qed

lemma receive_command_ok:
  assumes "desk_of ev (cn_log s) = Some q" "desk_clear q" "ge_admission ev \<noteq> None"
  shows "desk_ok ev (receive_command ev kind v now n s)"
proof -
  have e: "desk_ok ev (frame_done (send_error ev code m r sid rid s))" for code m r sid rid by (rule desk_done [OF _ assms(1,2)]) simp
  have st: "desk_ok ev (start_command ev c now s)" if "gc_kind c = ''ask'' \<longrightarrow> gc_request c \<noteq> None" for c
    using start_ok [OF refl assms that] .
  show ?thesis unfolding receive_command_def Let_def by (auto intro!: e st split: option.split)
qed

lemma command_step_ok:
  assumes ok: "desk_ok ev s" and p: "cn_phase s = Commanding c stage"
  shows "desk_ok ev (command_step ev c stage e s)"
proof -
  obtain q where q: "desk_of ev (cn_log s) = Some q" "phase_matches ev (Commanding c stage) q"
    using ok by (auto simp: desk_ok_def p)
  have c: "gc_kind c = ''ask'' \<longrightarrow> gc_request c \<noteq> None" using q(2) by (simp add: phase_matches_def)
  show ?thesis
  proof (cases stage)
    case Wait_principal
    then have cl: "desk_clear q" "configured ev" using q(2) by (simp_all add: phase_matches_def)
    have "desk_ok ev (s\<lparr>cn_phase := Commanding c (Wait_admission x)\<rparr>)" for x
      by (rule desk_okI [where q = q]) (use q cl c in \<open>simp_all add: phase_matches_def\<close>)
    then show ?thesis using ok refuse_ok [OF refl q(1) cl(1)]
      by (auto simp: command_step_def Wait_principal split: gateway_event.split option.split)
  next
    case (Wait_admission x)
    then have cl: "desk_clear q" "configured ev" using q(2) by (simp_all add: phase_matches_def)
    obtain cfg where cfg: "ge_admission ev = Some cfg" "config_failure cfg = None" using cl(2) by (auto simp: configured_def)
    show ?thesis using ok admission_asks [OF q(1) cl(1) cfg refl c]
      by (auto simp: command_step_def Wait_admission cfg Let_def split: gateway_event.split)
  next
    case (Wait_sink d)
    then have qd: "q = Desk_asked c d" "ad_ok d \<longrightarrow> ad_authorization d \<noteq> None" using q(2) by (simp_all add: phase_matches_def)
    have dec: "desk_ok ev (decide_command ev c d s)"
      using dispatch_follows [of ev s c d] refuse_ok [OF refl q(1)] q(1) qd c by (auto simp: decide_command_def)
    let ?q = "if ad_ok d \<and> ad_claim d \<noteq> None then Desk_unrecorded else Desk_free"
    have failed: "desk_of ev (cn_log (log_action Sink_failed s)) = Some ?q" using q(1) qd(1) by (simp add: desk_logged desk_step_def)
    have ref: "desk_ok ev (refuse_command ev c y (log_action Sink_failed s))" if "\<not> ad_ok d" for y
      by (rule refuse_ok [OF refl failed]) (use that in simp)
    have rel: "desk_ok ev ((settle_claim d Not_dispatched (log_action Sink_failed s))\<lparr>cn_phase := Commanding c (Wait_release d)\<rparr>)" if "ad_ok d"
      by (rule desk_okI [where q = Desk_free]) (use failed that c in \<open>auto simp: settle_desk desk_step_def phase_matches_def\<close>)
    show ?thesis using ok dec ref rel by (auto simp: command_step_def Wait_sink split: gateway_event.split)
  next
    case (Wait_release d)
    then have "desk_clear q" using q(2) by (simp add: phase_matches_def)
    then show ?thesis using ok refuse_ok [OF refl q(1)] by (auto simp: command_step_def Wait_release split: gateway_event.split)
  next
    case (Wait_dispatch o')
    then obtain d where d: "o' = Some d" "q = Desk_running c d" using q(2) by (cases o') (simp_all add: phase_matches_def)
    have go: "desk_of ev (cn_log s1) = Some (Desk_running c d)" if "at_desk ev s1 = at_desk ev s" for s1
      using that q(1) d(2) by (simp add: at_desk_def)
    have "desk_ok ev (dispatch_answered ev c o' r now s)" for r now
    proof (cases r)
      case (Inl why)
      show ?thesis
        by (rule desk_okI [where q = "if ad_claim d = None then Desk_running c d else Desk_failed"])
          (use c in \<open>simp_all add: dispatch_answered_def d(1) Inl settle_desk go desk_step_def phase_matches_def\<close>)
    next
      case (Inr x)
      show ?thesis
        by (rule desk_okI [where q = "if ad_claim d = None then Desk_running c d else Desk_succeeded c d"])
          (use c in \<open>simp_all add: dispatch_answered_def d(1) Inr settle_desk go Let_def desk_step_def phase_matches_def\<close>)
    qed
    then show ?thesis using ok by (simp add: command_step_def Wait_dispatch split: gateway_event.split)
  next
    case (Wait_settled d v)
    then have qd: "q = (if ad_claim d = None then Desk_running c d else Desk_succeeded c d)" using q(2) by (simp add: phase_matches_def)
    then have "desk_clear q" by simp
    then show ?thesis using ok answer_ok [OF q(1) [unfolded qd] c] command_error_ok [OF refl q(1)]
      by (auto simp: command_step_def Wait_settled split: gateway_event.split)
  next
    case (Wait_indeterminate d m)
    then have "desk_clear q" using q(2) by (simp add: phase_matches_def)
    then show ?thesis using ok command_error_ok [OF refl q(1)] by (auto simp: command_step_def Wait_indeterminate split: gateway_event.split)
  qed
qed

lemma begin_subscribe_ok:
  assumes "desk_of ev (cn_log s) = Some q" "desk_clear q"
  shows "desk_ok ev (begin_subscribe ev sid scope mode from s)"
proof (cases "cn_terminated s")
  case True
  then show ?thesis using subscribe_done_desk [OF refl assms] by (simp add: begin_subscribe_def)
next
  case False
  let ?s = "cleanup_stream sid (s\<lparr>cn_generations := (cn_generations s)(sid := cn_generations s sid + 1)\<rparr>)"
  have "at_desk ev ?s = at_desk ev s" by simp
  then have "desk_of ev (cn_log ?s) = Some q" using assms(1) by (simp add: at_desk_def)
  then show ?thesis
    by (intro desk_okI [where q = q]) (simp_all add: begin_subscribe_def False Let_def desk_logged desk_step_def phase_matches_def assms(2))
qed

lemma scope_resolved_ok:
  assumes "desk_of ev (cn_log s) = Some q" "desk_clear q"
  shows "desk_ok ev (scope_resolved ev sid scope mode g from r rg s)"
proof -
  have e: "desk_ok ev (subscribe_done ev sid from s1)" if "at_desk ev s1 = at_desk ev s" for s1 by (rule subscribe_done_desk [OF that assms])
  have "desk_ok ev ((log_action (Load_called a b) s)\<lparr>cn_phase := Loading sid scope mode g from src\<rparr>)" for a b src
    by (rule desk_okI [where q = q]) (simp_all add: desk_logged desk_step_def phase_matches_def assms)
  then show ?thesis unfolding scope_resolved_def by (auto intro!: e split: resolution.split)
qed

lemma desk_if: "desk_ok ev a \<Longrightarrow> desk_ok ev b \<Longrightarrow> desk_ok ev (if P then a else b)" by simp

lemma desk_option: "desk_ok ev a \<Longrightarrow> (\<And>x. desk_ok ev (f x)) \<Longrightarrow> desk_ok ev (case v of None \<Rightarrow> a | Some x \<Rightarrow> f x)"
  by (simp split: option.split)

lemma receive_frame_ok:
  assumes "desk_of ev (cn_log s) = Some q" "desk_clear q" "ge_admission ev \<noteq> None"
  shows "desk_ok ev (receive_frame ev v now n s)"
proof -
  have e: "desk_ok ev (frame_done s1)" if "at_desk ev s1 = at_desk ev s" for s1 by (rule desk_done [OF that assms(1,2)])
  have i: "desk_ok ev (invalid ev m s)" for m by (simp add: invalid_def e)
  have g: "desk_ok ev (greet ev v au s)" for au by (simp add: greet_def e)
  have w: "desk_ok ev (s\<lparr>cn_phase := Verifying v\<rparr>)"
    by (rule desk_okI [where q = q]) (use assms in \<open>simp_all add: phase_matches_def\<close>)
  have b: "desk_ok ev (receive_subscribe ev v s)"
    unfolding receive_subscribe_def prod.case by (intro desk_if desk_option i e begin_subscribe_ok [OF assms(1,2)]) simp_all
  show ?thesis
    unfolding receive_frame_def by (intro desk_if desk_option i e g w b receive_command_ok [OF assms]) simp_all
qed

lemma next_frame_ok:
  assumes "desk_of ev (cn_log s) = Some q" "desk_clear q" "ge_admission ev \<noteq> None"
  shows "desk_ok ev (next_frame ev now n s)"
proof -
  have w: "desk_ok ev (s\<lparr>cn_phase := Waiting\<rparr>)" by (rule desk_okI [where q = q]) (use assms in \<open>simp_all add: phase_matches_def\<close>)
  have r: "desk_ok ev (receive_frame ev v now n (s\<lparr>cn_pending := vs\<rparr>))" for v vs
    by (rule receive_frame_ok [OF _ assms(2,3)]) (use assms in simp)
  have d: "desk_ok ev (frame_done (s\<lparr>cn_pending := vs\<rparr>))" for vs by (rule desk_done [OF _ assms(1,2)]) (simp add: at_desk_def)
  show ?thesis using w r d by (simp add: next_frame_def split: list.split)
qed

lemma frame_arrives_ok:
  assumes ok: "desk_ok ev s" and "ge_admission ev \<noteq> None"
  shows "desk_ok ev (frame_arrives ev v now n s)"
proof -
  define s1 where "s1 = (let sid = (case text_value (field v ''streamId'') of None \<Rightarrow> [] | Some t \<Rightarrow> trim t);
      s1 = (if field v ''type'' = Some (JString ''unsubscribe'') \<and> sid \<noteq> []
            then s\<lparr>cn_generations := (cn_generations s)(sid := cn_generations s sid + 1)\<rparr> else s);
      s2 = arm_idle ev s1 in s2\<lparr>cn_pending := cn_pending s2 @ [v]\<rparr>)"
  have s1: "at_desk ev s1 = at_desk ev s" by (simp add: s1_def Let_def)
  have go: "desk_ok ev (next_frame ev now n s1)" if w: "cn_phase s = Waiting"
  proof -
    obtain q where "desk_of ev (cn_log s1) = Some q" "desk_clear q"
      using ok s1 w by (auto simp: desk_ok_def at_desk_def phase_matches_def)
    then show ?thesis using assms(2) by (rule next_frame_ok)
  qed
  have "frame_arrives ev v now n s = (if cn_terminated s then s
      else if normalize_limit (ge_limit ev) \<le> int (length (cn_pending s))
      then reject_ingress ev ''invalid_frame'' ''Gateway inbound queue limit exceeded.'' ''inbound_queue_overflow'' (length (cn_pending s)) s
      else if v = JNull then s else if cn_phase s = Waiting then next_frame ev now n s1 else s1)"
    unfolding frame_arrives_def s1_def Let_def by simp
  then show ?thesis using ok go desk_same [OF s1 ok] desk_same [OF desk_sends(3) ok] by auto
qed

lemma auth_answered_ok:
  assumes "desk_of ev (cn_log s) = Some q" "desk_clear q"
  shows "desk_ok ev (auth_answered ev v a s)"
proof -
  have e: "desk_ok ev (frame_done s1)" if "at_desk ev s1 = at_desk ev s" for s1 by (rule desk_done [OF that assms(1,2)])
  show ?thesis unfolding auth_answered_def greet_def handling_failed_def by (auto intro!: e split: auth_result.split)
qed

lemma phase_step_ok:
  assumes ok: "desk_ok ev s" and "ge_admission ev \<noteq> None"
  shows "desk_ok ev (phase_step ev e s)"
proof -
  have clear: "\<exists>q. desk_of ev (cn_log s) = Some q \<and> desk_clear q" if "\<forall>c st. cn_phase s \<noteq> Commanding c st"
    using ok that by (cases "cn_phase s") (auto simp: desk_ok_def phase_matches_def)
  show ?thesis
  proof (cases "cn_phase s")
    case Waiting
    then show ?thesis using ok by (simp add: phase_step_def)
  next
    case (Commanding c st)
    then show ?thesis using command_step_ok [OF ok] by (simp add: phase_step_def)
  next
    case Between
    then obtain q where q: "desk_of ev (cn_log s) = Some q" "desk_clear q" using clear by auto
    show ?thesis using ok next_frame_ok [OF q assms(2)] by (simp add: phase_step_def Between split: gateway_event.split)
  next
    case (Verifying v)
    then obtain q where q: "desk_of ev (cn_log s) = Some q" "desk_clear q" using clear by auto
    show ?thesis using ok auth_answered_ok [OF q] by (simp add: phase_step_def Verifying split: gateway_event.split)
  next
    case (Resolving sid scope mode g fr)
    then obtain q where q: "desk_of ev (cn_log s) = Some q" "desk_clear q" using clear by auto
    show ?thesis using ok scope_resolved_ok [OF q] by (simp add: phase_step_def Resolving split: gateway_event.split)
  next
    case (Loading sid scope mode g fr src)
    then obtain q where q: "desk_of ev (cn_log s) = Some q" "desk_clear q" using clear by auto
    have "desk_ok ev (frames_loaded ev sid scope mode g fr src fs rg s)" for fs rg
      unfolding frames_loaded_def by (rule subscribe_done_desk [OF _ q]) simp
    then show ?thesis using ok by (simp add: phase_step_def Loading split: gateway_event.split)
  qed
qed

lemma gateway_step_ok:
  assumes ok: "desk_ok ev s" and "ge_admission ev \<noteq> None"
  shows "desk_ok ev (gateway_step ev e s)"
proof -
  have "at_desk ev (reject_ingress ev a b c n s) = at_desk ev s" for a b c n by simp
  note same = desk_same [OF _ ok]
  show ?thesis
    by (cases e) (simp_all add: gateway_step_def frame_arrives_ok [OF assms] phase_step_ok [OF assms] ok same)
qed

lemma gateway_run_ok: "ge_admission ev \<noteq> None \<Longrightarrow> desk_ok ev (gateway_run ev es)"
proof -
  assume a: "ge_admission ev \<noteq> None"
  have "desk_ok ev (new_connection ev)"
    by (rule desk_okI [where q = Desk_free]) (simp_all add: new_connection_def arm_idle_def phase_matches_def)
  moreover have "desk_ok ev s \<Longrightarrow> desk_ok ev (fold (gateway_step ev) es s)" for s
    by (induction es arbitrary: s) (simp_all add: gateway_step_ok a)
  ultimately show ?thesis by (simp add: gateway_run_def)
qed

end
