(* ===== verification/Gateway_Streams.thy ===== *)
theory Gateway_Streams
  imports Gateway_Hub
begin

text \<open>
  Streams over the gateway: the listeners at the sources, the numbers of the frames, and what a client that resynchronizes gets. The books
  of a connection hold in every reachable state, also while a stream object is being made.
\<close>

section \<open>The books\<close>

text \<open>How often a stream object listens to a kind: registrations less removals.\<close>

fun heard :: "gateway_action list \<Rightarrow> nat \<Rightarrow> subscription_kind \<Rightarrow> int" where
  "heard [] k c = 0"
| "heard (Subscribed k1 c1 # older) k c = heard older k c + (if k1 = k \<and> c1 = c then 1 else 0)"
| "heard (Unsubscribed k1 c1 # older) k c = heard older k c - (if k1 = k \<and> c1 = c then 1 else 0)"
| "heard (a # older) k c = heard older k c"

text \<open>The frames a stream object began with, and those it numbered since, oldest first.\<close>

fun opened :: "gateway_action list \<Rightarrow> nat \<Rightarrow> replay_frame list option" where
  "opened [] k = None"
| "opened (Opened k1 fs # older) k = (if k1 = k then Some fs else opened older k)"
| "opened (a # older) k = opened older k"

fun numbered_frames :: "gateway_action list \<Rightarrow> nat \<Rightarrow> replay_frame list" where
  "numbered_frames [] k = []"
| "numbered_frames (Numbered k1 f # older) k = numbered_frames older k @ (if k1 = k then [f] else [])"
| "numbered_frames (a # older) k = numbered_frames older k"

fun entered :: "gateway_action \<Rightarrow> bool" where
  "entered (Subscribed k c) \<longleftrightarrow> True"
| "entered (Unsubscribed k c) \<longleftrightarrow> True"
| "entered (Opened k fs) \<longleftrightarrow> True"
| "entered (Numbered k f) \<longleftrightarrow> True"
| "entered a \<longleftrightarrow> False"

text \<open>What of a connection the books speak of.\<close>

record page =
  pg_id :: string
  pg_kinds :: "subscription_kind list"
  pg_sequence :: nat
  pg_replay :: "replay_frame list"
  pg_subscribed :: "subscription_kind list"

definition page_of :: "gateway_stream \<Rightarrow> page" where
  "page_of x = \<lparr>pg_id = gs_id x, pg_kinds = kinds_of (gs_mode x) (gs_source x), pg_sequence = gs_sequence x, pg_replay = gs_replay x,
     pg_subscribed = gs_subscribed x\<rparr>"

definition pages :: "gateway_conn \<Rightarrow> page list \<times> (string, nat) omap \<times> gateway_action list" where
  "pages s = (map page_of (cn_objects s), cn_streams s, filter entered (cn_log s))"

text \<open>The numbers of a stream object, and its buffer.\<close>

definition tape_ok :: "gateway_env \<Rightarrow> gateway_action list \<Rightarrow> nat \<Rightarrow> page \<Rightarrow> bool" where
  "tape_ok ev l k x \<longleftrightarrow> (\<exists>fs. opened l k = Some fs \<and> pg_replay x = trim_replay ev (fs @ numbered_frames l k)
     \<and> pg_sequence x = last_number fs + length (numbered_frames l k)
     \<and> map fst (numbered_frames l k) = [last_number fs + 1 ..< pg_sequence x + 1])"

definition is_open :: "(string, nat) omap \<Rightarrow> nat \<Rightarrow> bool" where
  "is_open m k \<longleftrightarrow> (\<exists>sid. omap_get m sid = Some k)"

definition pages_balanced :: "gateway_env \<Rightarrow> nat option \<Rightarrow> page list \<Rightarrow> (string, nat) omap \<Rightarrow> gateway_action list \<Rightarrow> bool" where
  "pages_balanced ev ex xs m l \<longleftrightarrow>
     distinct (omap_keys m)
   \<and> (\<forall>sid k. omap_get m sid = Some k \<longrightarrow> k < length xs \<and> pg_id (xs ! k) = sid \<and> pg_subscribed (xs ! k) = pg_kinds (xs ! k))
   \<and> (case ex of None \<Rightarrow> True | Some k \<Rightarrow> k < length xs \<and> \<not> is_open m k)
   \<and> (\<forall>k c. heard l k c = (if ex = Some k \<or> is_open m k then int (count_list (pg_subscribed (xs ! k)) c) else 0))
   \<and> (\<forall>k. if k < length xs then tape_ok ev l k (xs ! k) else numbered_frames l k = [])"

definition books_ok :: "gateway_env \<Rightarrow> nat option \<Rightarrow> gateway_conn \<Rightarrow> bool" where
  "books_ok ev ex s \<longleftrightarrow> (case pages s of (xs, m, l) \<Rightarrow> pages_balanced ev ex xs m l)"

lemma books_same: "pages s1 = pages s \<Longrightarrow> books_ok ev ex s \<Longrightarrow> books_ok ev ex s1"
  by (simp add: books_ok_def)

lemma pages_fold: "(\<And>x s. pages (f x s) = pages s) \<Longrightarrow> pages (fold f xs s) = pages s"
  by (induction xs arbitrary: s) simp_all

lemma pages_updates [simp]:
  "pages (s\<lparr>cn_greeted := b\<rparr>) = pages s" "pages (s\<lparr>cn_session := t\<rparr>) = pages s" "pages (s\<lparr>cn_auth := au\<rparr>) = pages s"
  "pages (s\<lparr>cn_generations := gn\<rparr>) = pages s" "pages (s\<lparr>cn_pending := vs\<rparr>) = pages s" "pages (s\<lparr>cn_phase := ph\<rparr>) = pages s"
  "pages (s\<lparr>cn_terminated := b\<rparr>) = pages s" "pages (s\<lparr>cn_idle := b\<rparr>) = pages s" "pages (s\<lparr>cn_attempts := n\<rparr>) = pages s"
  "pages (s\<lparr>cn_next_outcome := n\<rparr>) = pages s" "pages (s\<lparr>cn_failures := n\<rparr>) = pages s" "pages (s\<lparr>cn_outcomes := om\<rparr>) = pages s"
  "pages (s\<lparr>cn_open_sends := ns\<rparr>) = pages s" "pages (s\<lparr>cn_throws := bs\<rparr>) = pages s" "pages (s\<lparr>cn_views := vw\<rparr>) = pages s"
  by (simp_all add: pages_def)

lemma pages_log [simp]: "\<not> entered a \<Longrightarrow> pages (log_action a s) = pages s"
  by (simp add: pages_def log_action_def)

lemma pages_object [simp]: "page_of x = page_of (object_of s k) \<Longrightarrow> pages (set_object k x s) = pages s"
  by (cases "k < length (cn_objects s)") (simp_all add: pages_def set_object_def object_of_def map_update list_update_same_conv list_update_beyond)

lemma page_quiet [simp]:
  "page_of (x\<lparr>gs_accepts := b\<rparr>) = page_of x" "page_of (x\<lparr>gs_trace := t\<rparr>) = page_of x" "page_of (x\<lparr>gs_attached := b\<rparr>) = page_of x"
  by (simp_all add: page_of_def)

section \<open>Ending streams\<close>

lemma booked_only [simp]:
  "heard (filter entered l) k c = heard l k c" "opened (filter entered l) k = opened l k" "numbered_frames (filter entered l) k = numbered_frames l k"
  by (induction l k c rule: heard.induct) simp_all

lemma unsubscriptions_log:
  "cn_log (fold (\<lambda>c. log_action (Unsubscribed k c)) cs s) = rev (map (Unsubscribed k) cs) @ cn_log s"
  "cn_objects (fold (\<lambda>c. log_action (Unsubscribed k c)) cs s) = cn_objects s" "cn_streams (fold (\<lambda>c. log_action (Unsubscribed k c)) cs s) = cn_streams s"
  by (induction cs arbitrary: s) (simp_all add: log_action_def)

lemma unsubscribed_books:
  "heard (rev (map (Unsubscribed k) cs) @ l) k1 c = heard l k1 c - (if k = k1 then int (count_list cs c) else 0)"
  "opened (rev (map (Unsubscribed k) cs) @ l) k1 = opened l k1"
  "numbered_frames (rev (map (Unsubscribed k) cs) @ l) k1 = numbered_frames l k1"
  by (induction cs rule: rev_induct) auto

section \<open>What the operations do to balanced books\<close>

lemma tape_quiet:
  "opened l1 k = opened l k \<Longrightarrow> numbered_frames l1 k = numbered_frames l k \<Longrightarrow> pg_replay x1 = pg_replay x \<Longrightarrow> pg_sequence x1 = pg_sequence x
     \<Longrightarrow> tape_ok ev l1 k x1 = tape_ok ev l k x"
  by (simp add: tape_ok_def)

lemma balancedI:
  assumes "distinct (omap_keys m)"
    "\<And>sid k. omap_get m sid = Some k \<Longrightarrow> k < length xs \<and> pg_id (xs ! k) = sid \<and> pg_subscribed (xs ! k) = pg_kinds (xs ! k)"
    "\<And>k. ex = Some k \<Longrightarrow> k < length xs \<and> \<not> is_open m k"
    "\<And>k c. heard l k c = (if ex = Some k \<or> is_open m k then int (count_list (pg_subscribed (xs ! k)) c) else 0)"
    "\<And>k. k < length xs \<Longrightarrow> tape_ok ev l k (xs ! k)" "\<And>k. length xs \<le> k \<Longrightarrow> numbered_frames l k = []"
  shows "pages_balanced ev ex xs m l"
  unfolding pages_balanced_def using assms by (simp split: option.split)

lemma balancedD:
  assumes "pages_balanced ev ex xs m l"
  shows "distinct (omap_keys m)"
    "omap_get m sid = Some k \<Longrightarrow> k < length xs \<and> pg_id (xs ! k) = sid \<and> pg_subscribed (xs ! k) = pg_kinds (xs ! k)"
    "ex = Some k \<Longrightarrow> k < length xs \<and> \<not> is_open m k"
    "heard l k c = (if ex = Some k \<or> is_open m k then int (count_list (pg_subscribed (xs ! k)) c) else 0)"
    "k < length xs \<Longrightarrow> tape_ok ev l k (xs ! k)" "length xs \<le> k \<Longrightarrow> numbered_frames l k = []"
proof -
  note c1 = assms [unfolded pages_balanced_def]
  note c2 = conjunct2 [OF c1] note c3 = conjunct2 [OF c2] note c4 = conjunct2 [OF c3]
  note a = conjunct1 [OF c1] conjunct1 [OF c2] conjunct1 [OF c3] conjunct1 [OF c4] conjunct2 [OF c4]
  show "distinct (omap_keys m)" by (rule a(1))
  show "omap_get m sid = Some k \<Longrightarrow> k < length xs \<and> pg_id (xs ! k) = sid \<and> pg_subscribed (xs ! k) = pg_kinds (xs ! k)"
    by (rule a(2) [rule_format])
  show "ex = Some k \<Longrightarrow> k < length xs \<and> \<not> is_open m k" using a(3) by simp
  show "heard l k c = (if ex = Some k \<or> is_open m k then int (count_list (pg_subscribed (xs ! k)) c) else 0)" by (rule a(4) [rule_format])
  show "k < length xs \<Longrightarrow> tape_ok ev l k (xs ! k)" "length xs \<le> k \<Longrightarrow> numbered_frames l k = []"
    using a(5) [THEN spec, of k] by simp_all
qed

lemma balanced_remove:
  assumes b: "pages_balanced ev ex xs m l" and k: "omap_get m sid = Some k"
  shows "pages_balanced ev ex xs (omap_delete sid m) (rev (map (Unsubscribed k) (pg_subscribed (xs ! k))) @ l)"
proof -
  note d = balancedD [OF b]
  have other: "is_open (omap_delete sid m) j \<longleftrightarrow> is_open m j \<and> j \<noteq> k" for j
  proof -
    have only: "sid1 = sid" if "omap_get m sid1 = Some k" for sid1 using d(2) [OF that] d(2) [OF k] by simp
    show ?thesis
    proof
      assume "is_open (omap_delete sid m) j"
      then obtain s1 where "s1 \<noteq> sid" "omap_get m s1 = Some j" by (auto simp: is_open_def split: if_splits)
      then show "is_open m j \<and> j \<noteq> k" using only unfolding is_open_def by blast
    next
      assume "is_open m j \<and> j \<noteq> k"
      then obtain s1 where "omap_get m s1 = Some j" "s1 \<noteq> sid" using k unfolding is_open_def by (metis option.inject)
      then show "is_open (omap_delete sid m) j" unfolding is_open_def by (intro exI [of _ s1]) simp
    qed
  qed
  have open_k: "is_open m k" using k by (auto simp: is_open_def)
  show ?thesis
  proof (rule balancedI)
    show "heard (rev (map (Unsubscribed k) (pg_subscribed (xs ! k))) @ l) j c
        = (if ex = Some j \<or> is_open (omap_delete sid m) j then int (count_list (pg_subscribed (xs ! j)) c) else 0)" for j c
      using d(3) [of k] d(4) [of j c] open_k by (auto simp: unsubscribed_books other)
    show "omap_get (omap_delete sid m) s1 = Some j \<Longrightarrow> j < length xs \<and> pg_id (xs ! j) = s1 \<and> pg_subscribed (xs ! j) = pg_kinds (xs ! j)" for s1 j
      using d(2) [of s1 j] by (simp split: if_splits)
    show "ex = Some j \<Longrightarrow> j < length xs \<and> \<not> is_open (omap_delete sid m) j" for j using d(3) other by blast
  qed (use d(1,5,6) in \<open>simp_all add: unsubscribed_books tape_ok_def\<close>)
qed

lemma balanced_detach:
  assumes b: "pages_balanced ev (Some k) xs m l"
  shows "pages_balanced ev None xs m (rev (map (Unsubscribed k) (pg_subscribed (xs ! k))) @ l)"
proof -
  note d = balancedD [OF b]
  show ?thesis
  proof (rule balancedI)
    show "heard (rev (map (Unsubscribed k) (pg_subscribed (xs ! k))) @ l) j c
        = (if None = Some j \<or> is_open m j then int (count_list (pg_subscribed (xs ! j)) c) else 0)" for j c
      using d(3) [of k] d(4) [of j c] by (auto simp: unsubscribed_books)
  qed (use d(1,2,5,6) in \<open>simp_all add: unsubscribed_books tape_ok_def\<close>)
qed

lemma balanced_subscribe:
  assumes b: "pages_balanced ev (Some k) xs m l"
  shows "pages_balanced ev (Some k) (xs[k := (xs ! k)\<lparr>pg_subscribed := pg_subscribed (xs ! k) @ [c]\<rparr>]) m (Subscribed k c # l)"
proof -
  note d = balancedD [OF b]
  have k: "k < length xs" "\<not> is_open m k" using d(3) by simp_all
  have nk: "j \<noteq> k" if "omap_get m s1 = Some j" for s1 j using k(2) that by (auto simp: is_open_def)
  show ?thesis
  proof (rule balancedI)
    show "heard (Subscribed k c # l) j c1 = (if Some k = Some j \<or> is_open m j
        then int (count_list (pg_subscribed (xs[k := (xs ! k)\<lparr>pg_subscribed := pg_subscribed (xs ! k) @ [c]\<rparr>] ! j)) c1) else 0)" for j c1
      using d(4) [of j c1] k by (auto simp: nth_list_update)
    show "tape_ok ev (Subscribed k c # l) j (xs[k := (xs ! k)\<lparr>pg_subscribed := pg_subscribed (xs ! k) @ [c]\<rparr>] ! j)"
      if "j < length (xs[k := (xs ! k)\<lparr>pg_subscribed := pg_subscribed (xs ! k) @ [c]\<rparr>])" for j
      using d(5) [of j] that by (cases "j = k") (simp_all add: tape_ok_def)
    show "omap_get m s1 = Some j \<Longrightarrow> j < length (xs[k := (xs ! k)\<lparr>pg_subscribed := pg_subscribed (xs ! k) @ [c]\<rparr>])
        \<and> pg_id (xs[k := (xs ! k)\<lparr>pg_subscribed := pg_subscribed (xs ! k) @ [c]\<rparr>] ! j) = s1
        \<and> pg_subscribed (xs[k := (xs ! k)\<lparr>pg_subscribed := pg_subscribed (xs ! k) @ [c]\<rparr>] ! j)
          = pg_kinds (xs[k := (xs ! k)\<lparr>pg_subscribed := pg_subscribed (xs ! k) @ [c]\<rparr>] ! j)" for s1 j
      using d(2) [of s1 j] nk [of s1 j] by simp
  qed (use d(1,6) k in simp_all)
qed

lemma trim_trim: "trim_replay ev (trim_replay ev as @ bs) = trim_replay ev (as @ bs)"
proof -
  have "trim_replay ev fs = (if ge_replay_size ev \<le> 0 then [] else rev (take (nat (ge_replay_size ev)) (rev fs)))" for fs
    by (simp add: trim_replay_def rev_take)
  then show ?thesis by (auto simp: min_def)
qed

lemma balanced_number:
  assumes b: "pages_balanced ev ex xs m l" and k: "k < length xs"
  shows "pages_balanced ev ex (xs[k := (xs ! k)\<lparr>pg_sequence := pg_sequence (xs ! k) + 1,
      pg_replay := trim_replay ev (pg_replay (xs ! k) @ [(pg_sequence (xs ! k) + 1, p)])\<rparr>]) m (Numbered k (pg_sequence (xs ! k) + 1, p) # l)"
    (is "pages_balanced ev ex (xs[k := ?x]) m (?a # l)")
proof -
  note d = balancedD [OF b]
  have t: "tape_ok ev (?a # l) k ?x" using d(5) [OF k] by (auto simp: tape_ok_def trim_trim)
  show ?thesis
  proof (rule balancedI)
    show "tape_ok ev (?a # l) j (xs[k := ?x] ! j)" if "j < length (xs[k := ?x])" for j
      using d(5) [of j] that t by (cases "j = k") (simp_all add: tape_ok_def)
    show "heard (?a # l) j c = (if ex = Some j \<or> is_open m j then int (count_list (pg_subscribed (xs[k := ?x] ! j)) c) else 0)" for j c
      using d(4) [of j c] k by (simp add: nth_list_update)
    show "omap_get m s1 = Some j \<Longrightarrow> j < length (xs[k := ?x]) \<and> pg_id (xs[k := ?x] ! j) = s1 \<and> pg_subscribed (xs[k := ?x] ! j) = pg_kinds (xs[k := ?x] ! j)" for s1 j
      using d(2) [of s1 j] k by (simp add: nth_list_update)
    show "numbered_frames (?a # l) j = []" if "length (xs[k := ?x]) \<le> j" for j using d(6) [of j] that k by simp
  qed (use d(1,3) in simp_all)
qed

lemma balanced_open:
  assumes b: "pages_balanced ev None xs m l" and x: "trim_replay ev (pg_replay x) = pg_replay x" "pg_sequence x = last_number (pg_replay x)" "pg_subscribed x = []"
  shows "pages_balanced ev (Some (length xs)) (xs @ [x]) m (Opened (length xs) (pg_replay x) # l)"
proof -
  note d = balancedD [OF b]
  have closed: "\<not> is_open m (length xs)" using d(2) by (auto simp: is_open_def)
  have less: "j < length xs" if "is_open m j" for j using that d(2) by (auto simp: is_open_def)
  show ?thesis
  proof (rule balancedI)
    show "heard (Opened (length xs) (pg_replay x) # l) j c
        = (if Some (length xs) = Some j \<or> is_open m j then int (count_list (pg_subscribed ((xs @ [x]) ! j)) c) else 0)" for j c
      using d(4) [of j c] x(3) closed less [of j] by (auto simp: nth_append)
    show "tape_ok ev (Opened (length xs) (pg_replay x) # l) j ((xs @ [x]) ! j)" if "j < length (xs @ [x])" for j
      using d(5) [of j] d(6) [of j] x that by (cases "j = length xs") (simp_all add: tape_ok_def nth_append)
    show "omap_get m s1 = Some j \<Longrightarrow> j < length (xs @ [x]) \<and> pg_id ((xs @ [x]) ! j) = s1 \<and> pg_subscribed ((xs @ [x]) ! j) = pg_kinds ((xs @ [x]) ! j)" for s1 j
      using d(2) [of s1 j] by (simp add: nth_append)
  qed (use d(1,6) closed in simp_all)
qed

lemma balanced_attach:
  assumes b: "pages_balanced ev (Some k) xs m l" and s: "omap_get m sid = None" "pg_id (xs ! k) = sid" "pg_subscribed (xs ! k) = pg_kinds (xs ! k)"
  shows "pages_balanced ev None xs (omap_set sid k m) l"
proof -
  note d = balancedD [OF b]
  have o': "is_open (omap_set sid k m) j \<longleftrightarrow> is_open m j \<or> j = k" for j
    using s(1) by (auto simp: is_open_def) (metis option.distinct(1))
  show ?thesis
  proof (rule balancedI)
    show "omap_get (omap_set sid k m) s1 = Some j \<Longrightarrow> j < length xs \<and> pg_id (xs ! j) = s1 \<and> pg_subscribed (xs ! j) = pg_kinds (xs ! j)" for s1 j
      using d(2) [of s1 j] d(3) [of k] s by (simp split: if_splits)
    show "heard l j c = (if None = Some j \<or> is_open (omap_set sid k m) j then int (count_list (pg_subscribed (xs ! j)) c) else 0)" for j c
      using d(4) [of j c] by (auto simp: o')
  qed (use d(1,5,6) in simp_all)
qed

section \<open>Every operation keeps the books\<close>

lemma booked_unsubscribed [simp]: "filter entered (rev (map (Unsubscribed k) cs) @ l) = rev (map (Unsubscribed k) cs) @ filter entered l"
  by (induction cs rule: rev_induct) simp_all

lemma page_nth: "k < length (cn_objects s) \<Longrightarrow> map page_of (cn_objects s) ! k = page_of (object_of s k)"
  by (simp add: object_of_def)

lemma pages_unsubscriptions:
  "pages (log_unsubscriptions k s) = (case pages s of (xs, m, l) \<Rightarrow> (xs, m, rev (map (Unsubscribed k) (gs_subscribed (object_of s k))) @ l))"
  by (simp add: pages_def log_unsubscriptions_def unsubscriptions_log)

lemma books_cleanup:
  assumes b: "books_ok ev ex s"
  shows "books_ok ev ex (cleanup_stream sid s)"
proof (cases "omap_get (cn_streams s) sid")
  case (Some k)
  have bal: "pages_balanced ev ex (map page_of (cn_objects s)) (cn_streams s) (filter entered (cn_log s))" using b by (simp add: books_ok_def pages_def)
  have k: "k < length (cn_objects s)" using balancedD(2) [OF bal Some] by simp
  let ?s = "(set_object k ((object_of s k)\<lparr>gs_accepts := False\<rparr>) s)\<lparr>cn_streams := omap_delete sid (cn_streams s)\<rparr>"
  have o': "gs_subscribed (object_of ?s k) = pg_subscribed (map page_of (cn_objects s) ! k)"
    using k by (simp add: set_object_def object_of_def page_of_def)
  have "pages ?s = (map page_of (cn_objects s), omap_delete sid (cn_streams s), filter entered (cn_log s))"
    using pages_object [of "(object_of s k)\<lparr>gs_accepts := False\<rparr>" s k] by (simp add: pages_def set_object_def)
  then have "pages (cleanup_stream sid s) = (map page_of (cn_objects s), omap_delete sid (cn_streams s),
      rev (map (Unsubscribed k) (pg_subscribed (map page_of (cn_objects s) ! k))) @ filter entered (cn_log s))"
    by (simp add: cleanup_stream_def Some pages_unsubscriptions o')
  then show ?thesis using balanced_remove [OF bal Some] by (simp add: books_ok_def)
qed (simp add: cleanup_stream_def b)

lemma books_fold: "(\<And>x s. books_ok ev ex s \<Longrightarrow> books_ok ev ex (f x s)) \<Longrightarrow> books_ok ev ex s \<Longrightarrow> books_ok ev ex (fold f xs s)"
  by (induction xs arbitrary: s) simp_all

lemma books_quiet [simp]: "\<not> entered a \<Longrightarrow> books_ok ev ex (log_action a s) = books_ok ev ex s" by (simp add: books_ok_def)

lemma books_updates [simp]:
  "books_ok ev ex (s\<lparr>cn_greeted := b\<rparr>) = books_ok ev ex s" "books_ok ev ex (s\<lparr>cn_session := t\<rparr>) = books_ok ev ex s"
  "books_ok ev ex (s\<lparr>cn_auth := au\<rparr>) = books_ok ev ex s" "books_ok ev ex (s\<lparr>cn_generations := gn\<rparr>) = books_ok ev ex s"
  "books_ok ev ex (s\<lparr>cn_pending := vs\<rparr>) = books_ok ev ex s" "books_ok ev ex (s\<lparr>cn_phase := ph\<rparr>) = books_ok ev ex s"
  "books_ok ev ex (s\<lparr>cn_terminated := b\<rparr>) = books_ok ev ex s" "books_ok ev ex (s\<lparr>cn_idle := b\<rparr>) = books_ok ev ex s"
  "books_ok ev ex (s\<lparr>cn_attempts := n\<rparr>) = books_ok ev ex s" "books_ok ev ex (s\<lparr>cn_next_outcome := n\<rparr>) = books_ok ev ex s"
  "books_ok ev ex (s\<lparr>cn_failures := n\<rparr>) = books_ok ev ex s" "books_ok ev ex (s\<lparr>cn_outcomes := om\<rparr>) = books_ok ev ex s"
  "books_ok ev ex (s\<lparr>cn_open_sends := ns\<rparr>) = books_ok ev ex s" "books_ok ev ex (s\<lparr>cn_throws := bs\<rparr>) = books_ok ev ex s"
  "books_ok ev ex (s\<lparr>cn_views := vw\<rparr>) = books_ok ev ex s"
  by (simp_all add: books_ok_def)

lemma books_shutdown [simp]: "books_ok ev ex s \<Longrightarrow> books_ok ev ex (shutdown ev' b s)"
  by (simp add: shutdown_def Let_def abort_persistence_def cleanup_all_def books_fold books_cleanup)

lemma books_outcomes [simp]: "books_ok ev ex s \<Longrightarrow> books_ok ev ex (process_outcomes ev' s)"
proof (induction ev' s rule: process_outcomes.induct)
  case (1 ev' s)
  show ?case by (subst process_outcomes.simps) (use 1 in \<open>auto simp: Let_def split: option.split\<close>)
qed

lemma books_send [simp]: "books_ok ev ex s \<Longrightarrow> books_ok ev ex (send_frame ev' f s)"
  by (simp add: send_frame_def record_outcome_def Let_def)

lemma books_sends [simp]:
  "books_ok ev ex s \<Longrightarrow> books_ok ev ex (record_outcome ev' i ok s)" "books_ok ev ex s \<Longrightarrow> books_ok ev ex (send_error ev' code msg r sid rid s)"
  "books_ok ev ex s \<Longrightarrow> books_ok ev ex (send_status ev' str st s)" "books_ok ev ex s \<Longrightarrow> books_ok ev ex (reject_ingress ev' code msg kind n s)"
  "books_ok ev ex s \<Longrightarrow> books_ok ev ex (arm_idle ev' s)" "books_ok ev ex s \<Longrightarrow> books_ok ev ex (source_status ev' k v s)"
  "books_ok ev ex (frame_done s) = books_ok ev ex s"
  by (simp_all add: record_outcome_def send_error_def send_status_def reject_ingress_def arm_idle_def source_status_def frame_done_def)

lemma objects_length [simp]:
  "length (cn_objects (log_action a s)) = length (cn_objects s)" "length (cn_objects (set_object k x s)) = length (cn_objects s)"
  by (simp_all add: log_action_def set_object_def)

lemma pages_length: "pages s1 = pages s \<Longrightarrow> length (cn_objects s1) = length (cn_objects s)"
  by (auto simp: pages_def dest: arg_cong [where f = length])

lemma books_sequenced:
  assumes b: "books_ok ev ex s" and k: "k < length (cn_objects s)"
  shows "books_ok ev ex (send_sequenced ev k p s)"
proof -
  let ?x = "object_of s k"
  let ?n = "gs_sequence ?x + 1"
  let ?fs = "trim_replay ev (gs_replay ?x @ [(?n, p)])"
  let ?y = "?x\<lparr>gs_sequence := ?n, gs_replay := ?fs\<rparr>"
  have bal: "pages_balanced ev ex (map page_of (cn_objects s)) (cn_streams s) (filter entered (cn_log s))" using b by (simp add: books_ok_def pages_def)
  have y: "page_of ?y = (page_of ?x)\<lparr>pg_sequence := pg_sequence (page_of ?x) + 1,
      pg_replay := trim_replay ev (pg_replay (page_of ?x) @ [(pg_sequence (page_of ?x) + 1, p)])\<rparr>" by (simp add: page_of_def)
  have "pages_balanced ev ex ((map page_of (cn_objects s))[k := page_of ?y]) (cn_streams s) (Numbered k (?n, p) # filter entered (cn_log s))"
    using balanced_number [OF bal, of k p] k unfolding y page_nth [OF k] by (simp add: page_of_def)
  then have "books_ok ev ex (log_action (Numbered k (?n, p)) (set_object k ?y s))"
    by (simp add: books_ok_def pages_def log_action_def set_object_def map_update)
  then show ?thesis by (simp add: send_sequenced_def Let_def)
qed

text \<open>What sends and views leave of the stream objects.\<close>

definition card_of :: "gateway_stream \<Rightarrow> string \<times> stream_mode \<times> source_info \<times> subscription_kind list" where
  "card_of x = (gs_id x, gs_mode x, gs_source x, gs_subscribed x)"

definition cards :: "gateway_conn \<Rightarrow> (string \<times> stream_mode \<times> source_info \<times> subscription_kind list) list" where
  "cards s = map card_of (cn_objects s)"

lemma cards_updates [simp]:
  "cards (s\<lparr>cn_streams := m\<rparr>) = cards s" "cards (s\<lparr>cn_pending := vs\<rparr>) = cards s" "cards (s\<lparr>cn_phase := ph\<rparr>) = cards s"
  "cards (s\<lparr>cn_terminated := b\<rparr>) = cards s" "cards (s\<lparr>cn_idle := b\<rparr>) = cards s" "cards (s\<lparr>cn_attempts := n\<rparr>) = cards s"
  "cards (s\<lparr>cn_next_outcome := n\<rparr>) = cards s" "cards (s\<lparr>cn_failures := n\<rparr>) = cards s" "cards (s\<lparr>cn_outcomes := om\<rparr>) = cards s"
  "cards (s\<lparr>cn_open_sends := ns\<rparr>) = cards s" "cards (s\<lparr>cn_throws := bs\<rparr>) = cards s" "cards (log_action a s) = cards s"
  by (simp_all add: cards_def log_action_def)

lemma cards_object [simp]: "card_of x = card_of (object_of s k) \<Longrightarrow> cards (set_object k x s) = cards s"
  by (cases "k < length (cn_objects s)")
    (simp_all add: cards_def set_object_def object_of_def map_update list_update_same_conv list_update_beyond)

lemma card_quiet [simp]:
  "card_of (x\<lparr>gs_accepts := b\<rparr>) = card_of x" "card_of (x\<lparr>gs_trace := t\<rparr>) = card_of x" "card_of (x\<lparr>gs_attached := b\<rparr>) = card_of x"
  "card_of (x\<lparr>gs_sequence := n, gs_replay := fs\<rparr>) = card_of x"
  by (simp_all add: card_of_def)

lemma cards_fold: "(\<And>x s. cards (f x s) = cards s) \<Longrightarrow> cards (fold f xs s) = cards s"
  by (induction xs arbitrary: s) simp_all

lemma cards_cleanup [simp]: "cards (cleanup_stream sid s) = cards s" "cards (log_unsubscriptions k s) = cards s"
  by (simp_all add: cleanup_stream_def log_unsubscriptions_def cards_fold split: option.split)

lemma cards_shutdown [simp]: "cards (shutdown ev b s) = cards s"
  by (simp add: shutdown_def Let_def abort_persistence_def cleanup_all_def cards_fold)

lemma cards_outcomes [simp]: "cards (process_outcomes ev s) = cards s"
proof (induction ev s rule: process_outcomes.induct)
  case (1 ev s)
  show ?case by (subst process_outcomes.simps) (use 1 in \<open>auto simp: Let_def split: option.split\<close>)
qed

lemma cards_send [simp]: "cards (send_frame ev f s) = cards s"
  by (simp add: send_frame_def record_outcome_def Let_def)

lemma cards_sends [simp]:
  "cards (send_status ev str st s) = cards s" "cards (send_sequenced ev k p s) = cards s"
  "cards (source_status ev k v s) = cards s" "cards (source_shows ev k c p s) = cards s"
  by (simp_all add: send_status_def send_sequenced_def Let_def source_status_def source_shows_def split: subscription_kind.split)

abbreviation count_objects :: "gateway_conn \<Rightarrow> nat" where "count_objects s \<equiv> length (cards s)"

lemma count_cards: "length (cn_objects s) = count_objects s" by (simp add: cards_def)

lemma card_nth: "k < count_objects s \<Longrightarrow> cards s ! k = card_of (object_of s k)"
  by (simp add: cards_def object_of_def)

lemma books_shows:
  assumes b: "books_ok ev ex s" and k: "k < count_objects s"
  shows "books_ok ev ex (source_shows ev k c p s)"
proof -
  have "books_ok ev ex (set_object k ((object_of s k)\<lparr>gs_trace := Some p\<rparr>) s)" by (rule books_same [OF _ b]) simp
  then show ?thesis using b k by (simp add: source_shows_def books_sequenced count_cards split: subscription_kind.split)
qed

lemma books_shows_all:
  assumes "books_ok ev ex s" "k < count_objects s"
  shows "books_ok ev ex (fold (source_shows ev k c) ps s) \<and> count_objects (fold (source_shows ev k c) ps s) = count_objects s"
  using assms by (induction ps arbitrary: s) (simp_all add: books_shows)

lemma subscribe_cards:
  assumes k: "k < count_objects s"
  shows "cards (subscribe_kind ev rg k c s) = (cards s)[k := (\<lambda>(i, m, src, cs). (i, m, src, cs @ [c])) (cards s ! k)]"
proof -
  define s0 where "s0 = (if c = Sub_trace then set_object k ((object_of s k)\<lparr>gs_trace := rg_latest rg\<rparr>) s else s)"
  define s1 where "s1 = (if c = Sub_status then fold (source_status ev k) (rg_statuses rg) s0 else fold (source_shows ev k c) (rg_shown rg c) s0)"
  have s1: "cards s1 = cards s" by (simp add: s1_def s0_def cards_fold)
  have "subscribe_kind ev rg k c s = log_action (Subscribed k c) (set_object k ((object_of s1 k)\<lparr>gs_subscribed := gs_subscribed (object_of s1 k) @ [c]\<rparr>) s1)"
    by (simp only: subscribe_kind_def Let_def s0_def s1_def)
  moreover have "card_of ((object_of s1 k)\<lparr>gs_subscribed := gs_subscribed (object_of s1 k) @ [c]\<rparr>) = (\<lambda>(i, m, src, cs). (i, m, src, cs @ [c])) (cards s ! k)"
    using card_nth [of k s1] k s1 by (simp add: card_of_def)
  ultimately show ?thesis using s1 by (simp add: cards_def log_action_def set_object_def map_update)
qed

lemma books_subscribe:
  assumes b: "books_ok ev (Some k) s"
  shows "books_ok ev (Some k) (subscribe_kind ev rg k c s)"
proof -
  have k: "k < count_objects s" using b by (auto simp: books_ok_def pages_def cards_def dest: balancedD(3))
  define s0 where "s0 = (if c = Sub_trace then set_object k ((object_of s k)\<lparr>gs_trace := rg_latest rg\<rparr>) s else s)"
  have "books_ok ev (Some k) (set_object k ((object_of s k)\<lparr>gs_trace := t\<rparr>) s)" for t by (rule books_same [OF _ b]) simp
  then have s0: "books_ok ev (Some k) s0" "cards s0 = cards s" using b by (simp_all add: s0_def)
  define s1 where "s1 = (if c = Sub_status then fold (source_status ev k) (rg_statuses rg) s0 else fold (source_shows ev k c) (rg_shown rg c) s0)"
  have s1: "books_ok ev (Some k) s1" "cards s1 = cards s"
    using books_shows_all [OF s0(1), of k c "rg_shown rg c"] k s0 by (simp_all add: s1_def books_fold cards_fold)
  have bal: "pages_balanced ev (Some k) (map page_of (cn_objects s1)) (cn_streams s1) (filter entered (cn_log s1))"
    using s1(1) by (simp add: books_ok_def pages_def)
  have "page_of ((object_of s1 k)\<lparr>gs_subscribed := gs_subscribed (object_of s1 k) @ [c]\<rparr>)
      = (page_of (object_of s1 k))\<lparr>pg_subscribed := pg_subscribed (page_of (object_of s1 k)) @ [c]\<rparr>" by (simp add: page_of_def)
  moreover have "k < length (cn_objects s1)" using k s1(2) by (simp add: count_cards)
  ultimately have "books_ok ev (Some k) (log_action (Subscribed k c) (set_object k ((object_of s1 k)\<lparr>gs_subscribed := gs_subscribed (object_of s1 k) @ [c]\<rparr>) s1))"
    using balanced_subscribe [OF bal, of c] page_nth [of k s1]
    by (simp add: books_ok_def pages_def log_action_def set_object_def map_update)
  moreover have "subscribe_kind ev rg k c s = log_action (Subscribed k c) (set_object k ((object_of s1 k)\<lparr>gs_subscribed := gs_subscribed (object_of s1 k) @ [c]\<rparr>) s1)"
    by (simp only: subscribe_kind_def Let_def s0_def s1_def)
  ultimately show ?thesis by simp
qed

lemma books_register:
  "books_ok ev (Some k) s \<Longrightarrow> books_ok ev (Some k) (snd (register_kinds ev rg k cs s))"
proof (induction ev rg k cs s rule: register_kinds.induct)
  case (2 ev rg k c cs s)
  then show ?case using books_subscribe [OF 2(3), of rg c] by (auto split: option.split)
qed simp

text \<open>A registration that does not throw has made all subscriptions, and changes nothing else of the card.\<close>

lemma registered_cards:
  assumes "register_kinds ev rg k cs s = (r, s1)" "k < count_objects s"
  shows "\<exists>ds. cards s1 = (cards s)[k := (\<lambda>(i, m, src, es). (i, m, src, es @ ds)) (cards s ! k)] \<and> (r = None \<longrightarrow> ds = cs)"
  using assms
proof (induction ev rg k cs s arbitrary: s1 rule: register_kinds.induct)
  case (1 ev rg k s)
  then show ?case by (intro exI [of _ "[]"]) (auto simp: case_prod_unfold)
next
  case (2 ev rg k c cs s)
  have go: ?case if A: "register_kinds ev rg k cs (subscribe_kind ev rg k c s) = (r, s1)"
    and B: "\<And>s1. register_kinds ev rg k cs (subscribe_kind ev rg k c s) = (r, s1) \<Longrightarrow> k < count_objects (subscribe_kind ev rg k c s) \<Longrightarrow>
        \<exists>ds. cards s1 = (cards (subscribe_kind ev rg k c s))[k := (\<lambda>(i, m, src, es). (i, m, src, es @ ds)) (cards (subscribe_kind ev rg k c s) ! k)] \<and> (r = None \<longrightarrow> ds = cs)"
  proof -
    note sc = subscribe_cards [OF 2(4), of ev rg c]
    obtain ds where "cards s1 = (cards (subscribe_kind ev rg k c s))[k := (\<lambda>(i, m, src, es). (i, m, src, es @ ds)) (cards (subscribe_kind ev rg k c s) ! k)]"
      "r = None \<longrightarrow> ds = cs" using B [OF A] 2(4) sc by auto
    then show ?case using 2(4) by (intro exI [of _ "c # ds"]) (simp add: sc case_prod_unfold)
  qed
  have stop: ?case if "s1 = s" "r \<noteq> None" using that by (intro exI [of _ "[]"]) (auto simp: case_prod_unfold)
  show ?case
  proof (cases "c = Sub_trace \<and> \<not> so_traces (gs_source (object_of s k))")
    case True
    then show ?thesis using 2(3) stop by auto
  next
    case False
    note IH = 2(1,2) [OF False]
    show ?thesis
    proof (cases "rg_throws rg")
      case None
      have "register_kinds ev rg k cs (subscribe_kind ev rg k c s) = (r, s1)" using 2(3) False by (auto simp: None)
      then show ?thesis by (rule go) (rule IH(1) [OF None])
    next
      case (Some t)
      obtain c1 why where t: "t = (c1, why)" by (cases t)
      show ?thesis
      proof (cases "c1 = c")
        case True
        then have "s1 = s" "r \<noteq> None" using 2(3) False Some t by auto
        then show ?thesis by (rule stop)
      next
        case ne: False
        have "register_kinds ev rg k cs (subscribe_kind ev rg k c s) = (r, s1)" using 2(3) False ne by (auto simp: Some t)
        then show ?thesis by (rule go) (rule IH(2) [OF Some t [symmetric] ne])
      qed
    qed
  qed
qed

text \<open>Only attaching a stream gives an identifier to an object, and what is being handled changes only between frames.\<close>

definition vacant :: "string \<Rightarrow> gateway_conn \<Rightarrow> bool" where
  "vacant sid s \<longleftrightarrow> omap_get (cn_streams s) sid = None"

lemma vacant_updates [simp]:
  "vacant sid (s\<lparr>cn_pending := vs\<rparr>) = vacant sid s" "vacant sid (s\<lparr>cn_phase := ph\<rparr>) = vacant sid s" "vacant sid (s\<lparr>cn_objects := xs\<rparr>) = vacant sid s"
  "vacant sid (s\<lparr>cn_terminated := b\<rparr>) = vacant sid s" "vacant sid (s\<lparr>cn_idle := b\<rparr>) = vacant sid s" "vacant sid (s\<lparr>cn_attempts := n\<rparr>) = vacant sid s"
  "vacant sid (s\<lparr>cn_next_outcome := n\<rparr>) = vacant sid s" "vacant sid (s\<lparr>cn_failures := n\<rparr>) = vacant sid s"
  "vacant sid (s\<lparr>cn_outcomes := om\<rparr>) = vacant sid s" "vacant sid (s\<lparr>cn_open_sends := ns\<rparr>) = vacant sid s" "vacant sid (s\<lparr>cn_throws := bs\<rparr>) = vacant sid s"
  "vacant sid (s\<lparr>cn_generations := gn\<rparr>) = vacant sid s" "vacant sid (s\<lparr>cn_views := vw\<rparr>) = vacant sid s"
  "vacant sid (log_action a s) = vacant sid s" "vacant sid (set_object k x s) = vacant sid s"
  by (simp_all add: vacant_def log_action_def set_object_def)

lemma vacant_fold: "(\<And>x s. vacant sid s \<Longrightarrow> vacant sid (f x s)) \<Longrightarrow> vacant sid s \<Longrightarrow> vacant sid (fold f xs s)"
  by (induction xs arbitrary: s) simp_all

lemma vacant_cleanup: "vacant sid s \<or> sid = sid1 \<Longrightarrow> vacant sid (cleanup_stream sid1 s)" "vacant sid (log_unsubscriptions k s) = vacant sid s"
  by (auto simp: cleanup_stream_def log_unsubscriptions_def unsubscriptions_log vacant_def set_object_def split: option.split)

lemma vacant_shutdown [simp]: "vacant sid s \<Longrightarrow> vacant sid (shutdown ev b s)"
  by (simp add: shutdown_def Let_def abort_persistence_def cleanup_all_def vacant_fold vacant_cleanup)

lemma vacant_outcomes [simp]: "vacant sid s \<Longrightarrow> vacant sid (process_outcomes ev s)"
proof (induction ev s rule: process_outcomes.induct)
  case (1 ev s)
  show ?case by (subst process_outcomes.simps) (use 1 in \<open>auto simp: Let_def split: option.split\<close>)
qed

lemma vacant_send [simp]: "vacant sid s \<Longrightarrow> vacant sid (send_frame ev f s)" "vacant sid s \<Longrightarrow> vacant sid (record_outcome ev i ok s)"
  by (simp_all add: send_frame_def record_outcome_def Let_def)

lemma vacant_shown: "vacant sid s \<Longrightarrow> vacant sid (send_sequenced ev k p s)" "vacant sid s \<Longrightarrow> vacant sid (source_status ev k v s)"
  by (simp_all add: send_sequenced_def Let_def source_status_def send_status_def)

lemma vacant_shows: "vacant sid s \<Longrightarrow> vacant sid (source_shows ev k c p s)"
  by (simp add: source_shows_def vacant_shown split: subscription_kind.split)

lemma vacant_subscribe: "vacant sid s \<Longrightarrow> vacant sid (subscribe_kind ev rg k c s)"
  by (simp add: subscribe_kind_def Let_def vacant_fold vacant_shown vacant_shows)

lemma vacant_register: "vacant sid s \<Longrightarrow> vacant sid (snd (register_kinds ev rg k cs s))"
  by (induction ev rg k cs s rule: register_kinds.induct) (auto simp: vacant_subscribe split: option.split)

section \<open>Attaching a stream\<close>

lemma books_balanced: "books_ok ev ex s \<Longrightarrow> pages_balanced ev ex (map page_of (cn_objects s)) (cn_streams s) (filter entered (cn_log s))"
  by (simp add: books_ok_def pages_def)

lemma books_detach:
  assumes b: "books_ok ev (Some k) s"
  shows "books_ok ev None (detach_object k s)"
proof -
  note bal = books_balanced [OF b]
  let ?s = "set_object k ((object_of s k)\<lparr>gs_accepts := False\<rparr>) s"
  have k: "k < length (cn_objects s)" using balancedD(3) [OF bal, of k] by simp
  have o': "gs_subscribed (object_of ?s k) = pg_subscribed (map page_of (cn_objects s) ! k)"
    using k by (simp add: set_object_def object_of_def page_of_def)
  have "pages ?s = pages s" by simp
  then have "pages (detach_object k s) = (map page_of (cn_objects s), cn_streams s,
      rev (map (Unsubscribed k) (pg_subscribed (map page_of (cn_objects s) ! k))) @ filter entered (cn_log s))"
    by (simp only: detach_object_def pages_unsubscriptions o') (simp add: pages_def)
  then show ?thesis using balanced_detach [OF bal] by (simp add: books_ok_def)
qed

lemma books_open:
  assumes b: "books_ok ev None s" and x: "trim_replay ev (gs_replay x) = gs_replay x" "gs_sequence x = last_number (gs_replay x)" "gs_subscribed x = []"
  shows "books_ok ev (Some (length (cn_objects s))) (open_object x s)"
  using balanced_open [OF books_balanced [OF b], of "page_of x"] x
  by (simp add: books_ok_def pages_def open_object_def log_action_def page_of_def)

lemma books_attached:
  assumes b: "books_ok ev (Some k) s" and k: "k < length (cn_objects s)"
    and x: "vacant (gs_id (object_of s k)) s" "gs_subscribed (object_of s k) = kinds_of (gs_mode (object_of s k)) (gs_source (object_of s k))"
  shows "books_ok ev None ((set_object k ((object_of s k)\<lparr>gs_attached := True\<rparr>) s)\<lparr>cn_streams := omap_set (gs_id (object_of s k)) k (cn_streams s)\<rparr>)"
proof -
  have "pages_balanced ev None (map page_of (cn_objects s)) (omap_set (gs_id (object_of s k)) k (cn_streams s)) (filter entered (cn_log s))"
    using x by (intro balanced_attach [OF books_balanced [OF b]]) (simp_all add: vacant_def page_nth [OF k] page_of_def)
  moreover have "pages (set_object k ((object_of s k)\<lparr>gs_attached := True\<rparr>) s) = pages s" by simp
  ultimately show ?thesis by (simp add: books_ok_def pages_def set_object_def log_action_def)
qed

lemma attach_outcome:
  fixes s :: gateway_conn
  defines "k \<equiv> length (cn_objects s)" and "fs \<equiv> \<lambda>restored src. (if restored_match restored src then restored else [])"
  assumes r: "register_kinds ev rg k (kinds_of mode src) (open_object (new_stream ev sid scope mode src (fs restored src) s) s) = (t, s1)"
  obtains (same) "attach_stream ev sid scope mode g src restored rg s = s"
  | (dropped) "attach_stream ev sid scope mode g src restored rg s = detach_object k s1"
  | (failed) m where "attach_stream ev sid scope mode g src restored rg s = send_error ev ''internal_error'' m False (Some sid) None (detach_object k s1)"
  | (attached) "t = None" "\<not> cn_terminated s1" "attach_stream ev sid scope mode g src restored rg s
      = (set_object k ((object_of s1 k)\<lparr>gs_attached := True\<rparr>) s1)\<lparr>cn_streams := omap_set sid k (cn_streams s1)\<rparr>"
proof (cases "subscribe_current sid g s")
  case False
  then show thesis by (intro same) (simp add: attach_stream_def)
next
  case True
  show thesis
  proof (cases t)
    case (Some why)
    have eq: "attach_stream ev sid scope mode g src restored rg s = (if subscribe_current sid g (detach_object k s1)
        then send_error ev ''internal_error'' (case why of None \<Rightarrow> ''Internal gateway subscription source_registration error.'' | Some m \<Rightarrow> m) False (Some sid) None (detach_object k s1)
        else detach_object k s1)"
      using True r by (simp add: attach_stream_def k_def fs_def Some Let_def)
    show thesis
    proof (cases "subscribe_current sid g (detach_object k s1)")
      case True
      show thesis by (rule failed) (simp only: eq True if_True)
    qed (rule dropped, simp add: eq)
  next
    case None
    have eq: "attach_stream ev sid scope mode g src restored rg s = (if \<not> subscribe_current sid g s1 then detach_object k s1
        else (set_object k ((object_of s1 k)\<lparr>gs_attached := True\<rparr>) s1)\<lparr>cn_streams := omap_set sid k (cn_streams s1)\<rparr>)"
      using True r by (simp add: attach_stream_def k_def fs_def None Let_def)
    show thesis
    proof (cases "subscribe_current sid g s1")
      case True
      then show thesis by (intro attached) (simp_all add: eq None, simp add: subscribe_current_def)
    qed (rule dropped, simp add: eq)
  qed
qed

lemma books_attach:
  assumes b: "books_ok ev None s" and v: "vacant sid s" and r: "trim_replay ev restored = restored"
  shows "books_ok ev None (attach_stream ev sid scope mode g src restored rg s)"
proof -
  define k where "k = length (cn_objects s)"
  define fs where "fs = (if restored_match restored src then restored else [])"
  define s0 where "s0 = open_object (new_stream ev sid scope mode src fs s) s"
  have "trim_replay ev fs = fs" using r by (simp add: fs_def trim_replay_def)
  then have s0: "books_ok ev (Some k) s0" unfolding k_def s0_def by (intro books_open [OF b]) (simp_all add: new_stream_def)
  have c0: "cards s0 = cards s @ [(sid, mode, src, [])]" by (simp add: s0_def cards_def open_object_def log_action_def card_of_def new_stream_def)
  have k0: "k < count_objects s0" "cards s0 ! k = (sid, mode, src, [])" using c0 by (simp_all add: k_def count_cards nth_append)
  have v0: "vacant sid s0" using v by (simp add: s0_def open_object_def)
  obtain t s1 where reg: "register_kinds ev rg k (kinds_of mode src) s0 = (t, s1)" by fastforce
  have s1: "books_ok ev (Some k) s1" "vacant sid s1"
    using books_register [OF s0, of rg "kinds_of mode src"] vacant_register [OF v0, of ev rg k "kinds_of mode src"] by (simp_all add: reg)
  show ?thesis
  proof (rule attach_outcome [of ev rg s mode src sid scope restored t s1 g, OF reg [unfolded s0_def fs_def k_def]], unfold k_def [symmetric], goal_cases)
    case 4
    obtain ds where ds: "cards s1 = (cards s0)[k := (\<lambda>(i, m, src, es). (i, m, src, es @ ds)) (cards s0 ! k)]" "ds = kinds_of mode src"
      using registered_cards [OF reg k0(1)] 4 by auto
    then have "card_of (object_of s1 k) = (sid, mode, src, kinds_of mode src)" using card_nth [of k s1] k0 by simp
    then have x: "gs_id (object_of s1 k) = sid" "gs_subscribed (object_of s1 k) = kinds_of (gs_mode (object_of s1 k)) (gs_source (object_of s1 k))"
      by (simp_all add: card_of_def)
    have "k < length (cn_objects s1)" using ds k0 by (simp add: count_cards)
    then show ?thesis using books_attached [OF s1(1)] s1(2) x by (simp add: 4)
  qed (simp_all add: b books_detach [OF s1(1)])
qed

section \<open>An ended connection has no streams\<close>

definition ended :: "gateway_conn \<Rightarrow> bool" where
  "ended s \<longleftrightarrow> (cn_terminated s \<longrightarrow> (\<forall>sid. vacant sid s))"

lemma ended_updates [simp]:
  "ended (s\<lparr>cn_pending := vs\<rparr>) = ended s" "ended (s\<lparr>cn_phase := ph\<rparr>) = ended s" "ended (s\<lparr>cn_objects := xs\<rparr>) = ended s"
  "ended (s\<lparr>cn_idle := b\<rparr>) = ended s" "ended (s\<lparr>cn_attempts := n\<rparr>) = ended s"
  "ended (s\<lparr>cn_next_outcome := n\<rparr>) = ended s" "ended (s\<lparr>cn_failures := n\<rparr>) = ended s"
  "ended (s\<lparr>cn_outcomes := om\<rparr>) = ended s" "ended (s\<lparr>cn_open_sends := ns\<rparr>) = ended s" "ended (s\<lparr>cn_throws := bs\<rparr>) = ended s"
  "ended (s\<lparr>cn_generations := gn\<rparr>) = ended s" "ended (s\<lparr>cn_views := vw\<rparr>) = ended s"
  "ended (s\<lparr>cn_greeted := b\<rparr>) = ended s" "ended (s\<lparr>cn_session := t\<rparr>) = ended s" "ended (s\<lparr>cn_auth := au\<rparr>) = ended s"
  "ended (log_action a s) = ended s" "ended (set_object k x s) = ended s"
  by (simp_all add: ended_def log_action_def set_object_def vacant_def)

lemma ended_fold: "(\<And>x s. ended s \<Longrightarrow> ended (f x s)) \<Longrightarrow> ended s \<Longrightarrow> ended (fold f xs s)"
  by (induction xs arbitrary: s) simp_all

lemma cleanup_terminated: "cn_terminated (cleanup_stream sid s) = cn_terminated s"
proof -
  have "cn_terminated (fold (\<lambda>c. log_action (Unsubscribed k c)) cs s) = cn_terminated s" for k cs s
    by (induction cs arbitrary: s) (simp_all add: log_action_def)
  then show ?thesis by (simp add: cleanup_stream_def log_unsubscriptions_def set_object_def split: option.split)
qed

lemma ended_cleanup [simp]: "ended s \<Longrightarrow> ended (cleanup_stream sid s)" "ended (log_unsubscriptions k s) = ended s"
proof -
  show "ended s \<Longrightarrow> ended (cleanup_stream sid s)" by (simp add: ended_def cleanup_terminated vacant_cleanup)
  have "cn_terminated (log_unsubscriptions k s) = cn_terminated s"
  proof -
    have "cn_terminated (fold (\<lambda>c. log_action (Unsubscribed k c)) cs s) = cn_terminated s" for cs s
      by (induction cs arbitrary: s) (simp_all add: log_action_def)
    then show ?thesis by (simp add: log_unsubscriptions_def)
  qed
  then show "ended (log_unsubscriptions k s) = ended s" by (simp add: ended_def vacant_cleanup(2))
qed

lemma cleaned_vacant: "sid \<in> set sids \<or> vacant sid s \<Longrightarrow> vacant sid (fold cleanup_stream sids s)"
  by (induction sids arbitrary: s) (auto simp: vacant_cleanup)

lemma ended_shutdown [simp]: "ended s \<Longrightarrow> ended (shutdown ev b s)"
proof (cases "cn_terminated s")
  case False
  have "vacant sid s \<or> sid \<in> set (omap_keys (cn_streams s))" for sid
    unfolding vacant_def omap_get_None by blast
  then have "sid \<in> set (omap_keys (cn_streams s)) \<or> vacant sid (s\<lparr>cn_terminated := True, cn_idle := False, cn_open_sends := [], cn_pending := []\<rparr>)" for sid
    by (simp del: set_map) blast
  then have v: "vacant sid (cleanup_all (s\<lparr>cn_terminated := True, cn_idle := False, cn_open_sends := []\<rparr>))" for sid
    by (simp add: cleanup_all_def cleaned_vacant del: set_map)
  then have "ended (fold (\<lambda>k. log_action (Persistence_aborted k)) ks (cleanup_all (s\<lparr>cn_terminated := True, cn_idle := False, cn_open_sends := []\<rparr>)))" for ks
    using v by (intro ended_fold) (simp, simp add: ended_def)
  moreover have "ended (cleanup_all (s\<lparr>cn_terminated := True, cn_idle := False, cn_open_sends := []\<rparr>))" using v by (simp add: ended_def)
  ultimately show ?thesis using False by (simp add: shutdown_def Let_def abort_persistence_def)
qed (simp add: shutdown_def)

lemma ended_outcomes [simp]: "ended s \<Longrightarrow> ended (process_outcomes ev s)"
proof (induction ev s rule: process_outcomes.induct)
  case (1 ev s)
  show ?case by (subst process_outcomes.simps) (use 1 in \<open>auto simp: Let_def split: option.split\<close>)
qed

lemma ended_send [simp]: "ended s \<Longrightarrow> ended (send_frame ev f s)" "ended s \<Longrightarrow> ended (record_outcome ev i ok s)"
  by (simp_all add: send_frame_def record_outcome_def Let_def)

lemma ended_shown [simp]:
  "ended s \<Longrightarrow> ended (send_sequenced ev k p s)" "ended s \<Longrightarrow> ended (source_status ev k v s)" "ended s \<Longrightarrow> ended (send_status ev str st s)"
  "ended s \<Longrightarrow> ended (send_error ev code msg r sid rid s)" "ended s \<Longrightarrow> ended (reject_ingress ev code msg kind n s)" "ended s \<Longrightarrow> ended (arm_idle ev s)"
  by (simp_all add: send_sequenced_def Let_def source_status_def send_status_def send_error_def reject_ingress_def arm_idle_def)

lemma ended_shows [simp]: "ended s \<Longrightarrow> ended (source_shows ev k c p s)"
  by (simp add: source_shows_def split: subscription_kind.split)

lemma ended_subscribe: "ended s \<Longrightarrow> ended (subscribe_kind ev rg k c s)"
  by (simp add: subscribe_kind_def Let_def ended_fold)

lemma ended_register: "ended s \<Longrightarrow> ended (snd (register_kinds ev rg k cs s))"
  by (induction ev rg k cs s rule: register_kinds.induct) (auto simp: ended_subscribe split: option.split)

lemma ended_detach: "ended s \<Longrightarrow> ended (detach_object k s)" by (simp add: detach_object_def)

lemma ended_attach:
  assumes "ended s"
  shows "ended (attach_stream ev sid scope mode g src restored rg s)"
proof -
  obtain t s1 where reg: "register_kinds ev rg (length (cn_objects s)) (kinds_of mode src)
      (open_object (new_stream ev sid scope mode src (if restored_match restored src then restored else []) s) s) = (t, s1)" by fastforce
  have "ended (open_object x s)" for x using assms by (simp add: open_object_def)
  then have s1: "ended s1" using ended_register [of _ ev rg "length (cn_objects s)" "kinds_of mode src"] reg by (metis snd_conv)
  show ?thesis
    by (rule attach_outcome [of ev rg s mode src sid scope restored t s1 g, OF reg])
      (simp_all add: assms s1 ended_detach, simp add: ended_def set_object_def)
qed

section \<open>The invariant of a connection\<close>

definition lodged :: "gateway_conn \<Rightarrow> bool" where
  "lodged s \<longleftrightarrow> (case cn_phase s of
       Resolving sid scope mode g from \<Rightarrow> vacant sid s | Loading sid scope mode g from src \<Rightarrow> vacant sid s | _ \<Rightarrow> True)"

lemma phase_log [simp]: "cn_phase (log_action a s) = cn_phase s" "cn_phase (set_object k x s) = cn_phase s"
  by (simp_all add: log_action_def set_object_def)

lemma phase_fold: "(\<And>x s. cn_phase (f x s) = cn_phase s) \<Longrightarrow> cn_phase (fold f xs s) = cn_phase s"
  by (induction xs arbitrary: s) simp_all

lemma phase_shutdown [simp]: "cn_phase (shutdown ev b s) = cn_phase s"
proof -
  have "cn_phase (cleanup_stream sid s) = cn_phase s" for sid s
    by (simp add: cleanup_stream_def log_unsubscriptions_def phase_fold split: option.split)
  then show ?thesis by (simp add: shutdown_def Let_def abort_persistence_def cleanup_all_def phase_fold)
qed

lemma phase_outcomes [simp]: "cn_phase (process_outcomes ev s) = cn_phase s"
proof (induction ev s rule: process_outcomes.induct)
  case (1 ev s)
  show ?case by (subst process_outcomes.simps) (use 1 in \<open>auto simp: Let_def split: option.split\<close>)
qed

lemma phase_send [simp]: "cn_phase (send_frame ev f s) = cn_phase s" "cn_phase (record_outcome ev i ok s) = cn_phase s"
  by (simp_all add: send_frame_def record_outcome_def Let_def)

lemma phase_shown [simp]:
  "cn_phase (send_sequenced ev k p s) = cn_phase s" "cn_phase (source_status ev k v s) = cn_phase s" "cn_phase (send_error ev code msg r sid rid s) = cn_phase s"
  "cn_phase (reject_ingress ev code msg kind n s) = cn_phase s" "cn_phase (arm_idle ev s) = cn_phase s"
  by (simp_all add: send_sequenced_def Let_def source_status_def send_status_def send_error_def reject_ingress_def arm_idle_def)

lemma phase_shows [simp]: "cn_phase (source_shows ev k c p s) = cn_phase s"
  by (simp add: source_shows_def split: subscription_kind.split)

lemma lodged_phase: "cn_phase s1 = cn_phase s \<Longrightarrow> (\<And>sid. vacant sid s \<Longrightarrow> vacant sid s1) \<Longrightarrow> lodged s \<Longrightarrow> lodged s1"
  by (auto simp: lodged_def split: gateway_phase.split)

definition streams_ok :: "gateway_env \<Rightarrow> gateway_conn \<Rightarrow> bool" where
  "streams_ok ev s \<longleftrightarrow> books_ok ev None s \<and> ended s \<and> lodged s"

lemma streams_same:
  assumes "streams_ok ev s" "books_ok ev None s \<Longrightarrow> books_ok ev None s1" "ended s \<Longrightarrow> ended s1" "cn_phase s1 = cn_phase s" "\<And>sid. vacant sid s \<Longrightarrow> vacant sid s1"
  shows "streams_ok ev s1"
  using assms lodged_phase [of s1 s] by (simp add: streams_ok_def)

lemma streams_free:
  assumes "books_ok ev None s" "ended s"
  shows "streams_ok ev (frame_done s)"
  using assms by (simp add: streams_ok_def frame_done_def lodged_def)

lemma ended_cleaned_all [simp]: "ended s \<Longrightarrow> ended (resync_stream ev sid from s)"
proof -
  assume e: "ended s"
  have "ended (fold (\<lambda>f. send_frame ev (Stream_frame sid f)) fs s)" if "ended s" for fs s using that by (simp add: ended_fold)
  then show ?thesis using e by (auto simp: resync_stream_def Let_def split: option.split)
qed

lemma books_resync:
  assumes b: "books_ok ev None s"
  shows "books_ok ev None (resync_stream ev sid from s)"
proof (cases "omap_get (cn_streams s) sid")
  case (Some k)
  have k: "k < count_objects s" using balancedD(2) [OF books_balanced [OF b] Some] by (simp add: count_cards [symmetric])
  then have q: "books_ok ev None (send_sequenced ev k p (send_status ev sid Replaying_status s))" for p
    using b by (intro books_sequenced) (simp_all add: count_cards)
  have f: "books_ok ev None (fold (\<lambda>f. send_frame ev (Stream_frame sid f)) fs (send_status ev sid Replaying_status s))" for fs
    using b by (intro books_fold) simp_all
  show ?thesis using b q f by (simp add: resync_stream_def Some Let_def split: option.split)
qed (simp add: resync_stream_def b)

lemma streams_subscribed: "books_ok ev None s \<Longrightarrow> ended s \<Longrightarrow> streams_ok ev (subscribe_done ev sid from s)"
  by (simp add: subscribe_done_def streams_free books_resync)

lemma streams_begin:
  assumes "books_ok ev None s" "ended s"
  shows "streams_ok ev (begin_subscribe ev sid scope mode from s)"
  using assms by (simp add: begin_subscribe_def Let_def streams_subscribed)
    (simp add: streams_ok_def lodged_def books_cleanup vacant_cleanup)

lemma trim_once: "trim_replay ev (trim_replay ev l) = trim_replay ev l"
  using trim_trim [of ev l "[]"] by simp

lemma streams_resolved:
  assumes i: "streams_ok ev s" and p: "cn_phase s = Resolving sid scope mode g from"
  shows "streams_ok ev (scope_resolved ev sid scope mode g from r rg s)"
proof -
  have s: "books_ok ev None s" "ended s" "vacant sid s" using i p by (simp_all add: streams_ok_def lodged_def)
  have a: "books_ok ev None (attach_stream ev sid scope mode g src [] rg s)" for src by (rule books_attach [OF s(1,3)]) (simp add: trim_replay_def)
  have l: "streams_ok ev ((log_action (Load_called t1 t2) s)\<lparr>cn_phase := Loading sid scope mode g from src\<rparr>)" for t1 t2 src
    using s by (simp add: streams_ok_def lodged_def)
  show ?thesis using s a l by (auto simp: scope_resolved_def ended_attach streams_subscribed split: resolution.split)
qed

lemma streams_loaded:
  assumes i: "streams_ok ev s" and p: "cn_phase s = Loading sid scope mode g from src"
  shows "streams_ok ev (frames_loaded ev sid scope mode g from src fs rg s)"
proof -
  have s: "books_ok ev None s" "ended s" "vacant sid s" using i p by (simp_all add: streams_ok_def lodged_def)
  have "trim_replay ev (case fs of None \<Rightarrow> [] | Some l \<Rightarrow> trim_replay ev l) = (case fs of None \<Rightarrow> [] | Some l \<Rightarrow> trim_replay ev l)"
    by (cases fs) (simp_all add: trim_once, simp add: trim_replay_def)
  then show ?thesis using s by (simp add: frames_loaded_def streams_subscribed books_attach ended_attach)
qed

section \<open>Commands and frames\<close>

lemma command_books [simp]:
  "books_ok ev ex (append_trace ev' k d rs s) = books_ok ev ex s" "books_ok ev ex (append_fact k t1 t2 s) = books_ok ev ex s"
  "books_ok ev ex (settle_claim d o' s) = books_ok ev ex s" "ended (append_trace ev' k d rs s) = ended s" "ended (append_fact k t1 t2 s) = ended s"
  "ended (settle_claim d o' s) = ended s"
  by (simp_all add: append_trace_def append_fact_def settle_claim_def)

lemma streams_commanding: "books_ok ev None s \<Longrightarrow> ended s \<Longrightarrow> streams_ok ev (s\<lparr>cn_phase := Commanding c stage\<rparr>)"
  by (simp add: streams_ok_def lodged_def)

lemma streams_command:
  assumes s: "books_ok ev None s" "ended s"
  shows "streams_ok ev (command_error ev c code msg rej s)" "streams_ok ev (refuse_command ev c d s)" "streams_ok ev (dispatch_command c od s)"
    "streams_ok ev (answer_command ev c a v s)" "streams_ok ev (decide_command ev c d s)" "streams_ok ev (start_command ev c now s)"
proof -
  have e: "streams_ok ev (command_error ev c code msg rej s)" if "books_ok ev None s" "ended s" for code msg rej s
    using that by (simp add: command_error_def streams_free)
  have r: "streams_ok ev (refuse_command ev c d s)" for d using s by (simp add: refuse_command_def e)
  have p: "streams_ok ev (dispatch_command c od s)" for od using s by (simp add: dispatch_command_def streams_commanding)
  show "streams_ok ev (command_error ev c code msg rej s)" by (rule e [OF s])
  show "streams_ok ev (refuse_command ev c d s)" by (rule r)
  show "streams_ok ev (dispatch_command c od s)" by (rule p)
  show "streams_ok ev (answer_command ev c a v s)" using s by (simp add: answer_command_def streams_free)
  show "streams_ok ev (decide_command ev c d s)" by (simp add: decide_command_def r p)
  show "streams_ok ev (start_command ev c now s)" using s by (auto simp: start_command_def r p streams_commanding split: option.split)
qed

lemma streams_step_command:
  assumes s: "books_ok ev None s" "ended s" and i: "streams_ok ev s"
  shows "streams_ok ev (command_step ev c stage e s)"
proof -
  have l: "books_ok ev None (log_action (Sink_called c d) s)" "ended (log_action (Sink_called c d) s)"
    "books_ok ev None (log_action Sink_failed s)" "ended (log_action Sink_failed s)" for d using s by simp_all
  have d: "streams_ok ev (dispatch_answered ev c od r now s)" for od r now
    using s by (auto simp: dispatch_answered_def Let_def streams_command streams_commanding split: option.split sum.split)
  show ?thesis unfolding command_step_def
    using i s l by (cases stage; cases e) (simp_all add: d streams_command streams_commanding Let_def split: option.split)
qed

lemma streams_command_received:
  assumes s: "books_ok ev None s" "ended s"
  shows "streams_ok ev (receive_command ev kind v now n s)"
  using s by (simp add: receive_command_def Let_def streams_free streams_command split: option.split)

lemma streams_received:
  assumes s: "books_ok ev None s" "ended s"
  shows "streams_ok ev (receive_frame ev v now n s)"
proof -
  have i: "streams_ok ev (invalid ev m s)" for m using s by (simp add: invalid_def streams_free)
  have g: "streams_ok ev (greet ev v a s)" for a using s by (simp add: greet_def streams_free)
  have b: "streams_ok ev (receive_subscribe ev v s)" using s i by (simp add: receive_subscribe_def streams_free streams_begin split: option.split)
  have w: "streams_ok ev (s\<lparr>cn_phase := Verifying v\<rparr>)" using s by (simp add: streams_ok_def lodged_def)
  show ?thesis using s by (simp add: receive_frame_def i g b w streams_free streams_command_received books_cleanup books_resync split: option.split)
qed

lemma streams_next:
  assumes s: "books_ok ev None s" "ended s"
  shows "streams_ok ev (next_frame ev now n s)"
  using s by (auto simp: next_frame_def streams_received streams_free split: list.split) (simp_all add: streams_ok_def lodged_def)

lemma streams_arrived:
  assumes i: "streams_ok ev s"
  shows "streams_ok ev (frame_arrives ev v now n s)"
proof -
  have s: "books_ok ev None s" "ended s" using i by (simp_all add: streams_ok_def)
  have r: "streams_ok ev (reject_ingress ev code msg kind m s)" for code msg kind m
    by (rule streams_same [OF i]) (simp_all add: reject_ingress_def send_error_def)
  have q: "streams_ok ev ((arm_idle ev s)\<lparr>cn_pending := vs\<rparr>)" "streams_ok ev ((arm_idle ev (s\<lparr>cn_generations := gn\<rparr>))\<lparr>cn_pending := vs\<rparr>)" for gn vs
    by (intro streams_same [OF i]; simp add: arm_idle_def)+
  have n: "streams_ok ev (next_frame ev now n ((arm_idle ev s)\<lparr>cn_pending := vs\<rparr>))"
    "streams_ok ev (next_frame ev now n ((arm_idle ev (s\<lparr>cn_generations := gn\<rparr>))\<lparr>cn_pending := vs\<rparr>))" for gn vs
    using s by (intro streams_next; simp)+
  show ?thesis using i r q n by (simp add: frame_arrives_def Let_def)
qed

lemma streams_phase:
  assumes i: "streams_ok ev s"
  shows "streams_ok ev (phase_step ev e s)"
proof -
  have s: "books_ok ev None s" "ended s" using i by (simp_all add: streams_ok_def)
  have a: "streams_ok ev (auth_answered ev v a s)" for v a
    using s by (auto simp: auth_answered_def greet_def handling_failed_def streams_free split: auth_result.split)
  show ?thesis unfolding phase_step_def
    using i s a by (cases "cn_phase s"; cases e)
      (simp_all add: streams_next streams_resolved streams_loaded streams_step_command)
qed

lemma streams_step:
  assumes i: "streams_ok ev s"
  shows "streams_ok ev (gateway_step ev e s)"
proof -
  have s: "books_ok ev None s" "ended s" using i by (simp_all add: streams_ok_def)
  have k: "streams_ok ev (source_shows ev k c p s)" if "is_subscribed k c s" for k c p
    using that by (intro streams_same [OF i]) (simp_all add: books_shows vacant_shows is_subscribed_def count_cards)
  have q: "streams_ok ev (source_status ev k v s)" "streams_ok ev (record_outcome ev j ok s)" "streams_ok ev (shutdown ev b s)"
    "streams_ok ev (reject_ingress ev code msg kind m s)" "streams_ok ev (s\<lparr>cn_views := vw\<rparr>)" "streams_ok ev (s\<lparr>cn_throws := bs\<rparr>)" 
    "streams_ok ev (shutdown ev b (s\<lparr>cn_idle := False\<rparr>))" for k v j ok b code msg kind m vw bs
    by (rule streams_same [OF i]; simp add: reject_ingress_def send_error_def vacant_shown)+
  show ?thesis using i k q by (cases e) (simp_all add: gateway_step_def streams_arrived streams_phase)
qed

lemma streams_reached: "streams_ok ev (gateway_run ev es)"
proof -
  have "books_ok ev None (new_connection ev)"
    by (simp add: new_connection_def arm_idle_def books_ok_def pages_def) (rule balancedI, simp_all add: is_open_def)
  then have "streams_ok ev (new_connection ev)" by (simp add: streams_ok_def ended_def lodged_def new_connection_def arm_idle_def)
  then have "streams_ok ev (fold (gateway_step ev) es (new_connection ev))"
    using fold_invariant [of es "\<lambda>_. True" "streams_ok ev" "new_connection ev" "gateway_step ev"] streams_step by simp
  then show ?thesis by (simp add: gateway_run_def)
qed
end
