(* ===== verification/Gateway_Replay.thy ===== *)
theory Gateway_Replay
  imports Gateway_Streams
begin

text \<open>
  What a client of the gateway relies on: every listener a connection registers is removed again, frames of a stream are numbered without a
  gap, and a client that names the next number it needs gets exactly the frames it missed, or a fresh one.
\<close>

section \<open>Numbers and buffers\<close>

lemma numbered_filter: "map fst fs = [a ..< a + length fs] \<Longrightarrow> filter (\<lambda>f. n \<le> fst f) fs = drop (n - a) (fs :: replay_frame list)"
proof (induction fs arbitrary: a)
  case (Cons f fs)
  have f: "fst f = a" "map fst fs = [Suc a ..< Suc a + length fs]"
    using Cons.prems by (simp_all add: upt_rec [of a] del: upt_Suc)
  show ?case
  proof (cases "n \<le> a")
    case True
    then show ?thesis using f Cons.IH [OF f(2)] by simp
  next
    case False
    then have "n - a = Suc (n - Suc a)" by simp
    then show ?thesis using f Cons.IH [OF f(2)] False by simp
  qed
qed simp

lemma numbered_drop: "map fst fs = [a ..< a + length fs] \<Longrightarrow> map fst (drop j fs) = [a + j ..< a + length (fs :: replay_frame list)]"
  by (simp only: drop_map [symmetric] drop_upt)

lemma replayed_suffix:
  fixes ns :: "replay_frame list"
  assumes ns: "map fst ns = [a ..< a + length ns]" and a: "a \<le> n"
  shows "replayable n (drop (max (n - a) j) ns) \<longleftrightarrow> n < a + length ns \<and> a + j \<le> n"
proof -
  let ?d = "drop (max (n - a) j) ns"
  have m: "map fst ?d = [a + max (n - a) j ..< a + length ns]" by (rule numbered_drop [OF ns])
  have l: "length ?d = length ns - max (n - a) j" by simp
  show ?thesis
  proof (cases "max (n - a) j < length ns")
    case True
    have "[a + max (n - a) j ..< a + length ns] = [n ..< n + length ?d] \<longleftrightarrow> a + max (n - a) j = n"
    proof
      assume "[a + max (n - a) j ..< a + length ns] = [n ..< n + length ?d]"
      then have "hd [a + max (n - a) j ..< a + length ns] = hd [n ..< n + length ?d]" by simp
      moreover have "n < n + length ?d" using True l by linarith
      ultimately show "a + max (n - a) j = n" using True by (simp del: length_drop)
    next
      assume "a + max (n - a) j = n"
      then show "[a + max (n - a) j ..< a + length ns] = [n ..< n + length ?d]" using True a by (simp add: add.commute)
    qed
    then show ?thesis using True a m by (auto simp: replayable_def)
  next
    case False
    then show ?thesis using a by (auto simp: replayable_def)
  qed
qed

lemma answer_exact:
  assumes old: "list_all (\<lambda>f. fst f \<le> b) fs" and ns: "map fst ns = [b + 1 ..< b + 1 + length ns]" and n: "b < n"
    and x: "gs_replay x = trim_replay ev (fs @ ns)"
  shows "replay_answer (Some n) x
    = (if n \<le> b + length ns \<and> int (b + length ns) < int n + ge_replay_size ev then Some (filter (\<lambda>f. n \<le> fst f) ns) else None)"
proof (cases "ge_replay_size ev \<le> 0")
  case True
  then show ?thesis using x by (auto simp: replay_answer_def trim_replay_def replayable_def)
next
  case False
  define size where "size = nat (ge_replay_size ev)"
  have size: "ge_replay_size ev = int size" "0 < size" using False by (simp_all add: size_def)
  have keep: "filter (\<lambda>f. n \<le> fst f) (drop i fs) = []" for i
  proof -
    have "\<not> n \<le> fst f" if "f \<in> set (drop i fs)" for f
      using in_set_dropD [OF that] old n unfolding list_all_iff by (meson le_trans not_le)
    then show ?thesis by (simp add: filter_empty_conv)
  qed
  have after: "filter (\<lambda>f. n \<le> fst f) (drop j ns) = drop (max (n - (b + 1)) j) ns" for j
  proof -
    have "map fst (drop j ns) = [b + 1 + j ..< b + 1 + j + length (drop j ns)]" using numbered_drop [OF ns, of j] by (cases "j \<le> length ns") simp_all
    from numbered_filter [OF this, of n] show ?thesis by (simp add: add.commute max_def le_diff_conv)
  qed
  have buffer: "filter (\<lambda>f. n \<le> fst f) (gs_replay x) = drop (max (n - (b + 1)) (length ns - size)) ns"
  proof -
    have "length fs + length ns - size - length fs = length ns - size" by simp
    then show ?thesis by (simp only: x trim_replay_def size, simp add: keep after size)
  qed
  have ok: "replayable n (drop (max (n - (b + 1)) (length ns - size)) ns) \<longleftrightarrow> n < b + 1 + length ns \<and> b + 1 + (length ns - size) \<le> n"
    by (rule replayed_suffix [OF ns]) (use n in simp)
  have all: "filter (\<lambda>f. n \<le> fst f) ns = drop (n - (b + 1)) ns" using after [of 0] by simp
  show ?thesis
  proof (cases "n < b + 1 + length ns \<and> b + 1 + (length ns - size) \<le> n")
    case True
    then have "length ns - size \<le> n - (b + 1)" by linarith
    then have "max (n - (b + 1)) (length ns - size) = n - (b + 1)" by (rule max_absorb1)
    moreover have "n \<le> b + length ns \<and> int (b + length ns) < int n + int size" using True by linarith
    ultimately show ?thesis using True ok buffer all by (simp add: replay_answer_def Let_def size)
  next
    case no: False
    then have "\<not> (n \<le> b + length ns \<and> int (b + length ns) < int n + int size)" using n size(2) by linarith
    then show ?thesis using no ok buffer by (simp add: replay_answer_def Let_def size)
  qed
qed

section \<open>What is sent when no send fails\<close>

text \<open>The frames handed to the transport, oldest first.\<close>

fun handed :: "gateway_action list \<Rightarrow> server_frame list" where
  "handed [] = []"
| "handed (Handed f # older) = handed older @ [f]"
| "handed (a # older) = handed older"

definition healthy :: "gateway_conn \<Rightarrow> bool" where
  "healthy s \<longleftrightarrow> \<not> cn_terminated s \<and> cn_throws s = []"

lemma healthy_send:
  assumes "healthy s"
  shows "healthy (send_frame ev f s)" "handed (cn_log (send_frame ev f s)) = handed (cn_log s) @ [f]"
    "cn_objects (send_frame ev f s) = cn_objects s" "cn_views (send_frame ev f s) = cn_views s"
  using assms by (simp_all add: healthy_def send_frame_def Let_def log_action_def)

lemma healthy_sends:
  assumes "healthy s"
  shows "healthy (fold (\<lambda>x. send_frame ev (g x)) xs s) \<and> handed (cn_log (fold (\<lambda>x. send_frame ev (g x)) xs s)) = handed (cn_log s) @ map g xs
    \<and> cn_views (fold (\<lambda>x. send_frame ev (g x)) xs s) = cn_views s"
  using assms by (induction xs arbitrary: s) (simp_all add: healthy_send)

lemma healthy_logged [simp]:
  "healthy (log_action a s) = healthy s" "healthy (set_object k x s) = healthy s" "cn_log (log_action a s) = a # cn_log s"
  "cn_log (set_object k x s) = cn_log s" "cn_views (log_action a s) = cn_views s" "cn_views (set_object k x s) = cn_views s"
  by (simp_all add: healthy_def log_action_def set_object_def)

lemma healthy_sequenced:
  assumes "healthy s"
  shows "healthy (send_sequenced ev k p s)"
    "handed (cn_log (send_sequenced ev k p s)) = handed (cn_log s) @ [Stream_frame (gs_id (object_of s k)) (gs_sequence (object_of s k) + 1, p)]"
    "cn_views (send_sequenced ev k p s) = cn_views s"
  using assms by (simp_all add: send_sequenced_def Let_def healthy_send)

text \<open>What a client gets that needs the frames from a number on.\<close>

definition resync_frames :: "gateway_env \<Rightarrow> nat option \<Rightarrow> nat \<Rightarrow> gateway_conn \<Rightarrow> replay_frame list" where
  "resync_frames ev from k s = (let x = object_of s k in
     if gs_mode x = Command_only then []
     else (case replay_answer from x of
         Some fs \<Rightarrow> fs
       | None \<Rightarrow> if gs_mode x = Trace_only then (case gs_trace x of None \<Rightarrow> [] | Some p \<Rightarrow> [(gs_sequence x + 1, p)])
           else [(gs_sequence x + 1, vw_snapshot (cn_views s k))]))"

lemma resync_healthy:
  assumes h: "healthy s" and k: "omap_get (cn_streams s) sid = Some k" "gs_id (object_of s k) = sid"
  shows "handed (cn_log (resync_stream ev sid (Some (JNumber (of_nat n))) s)) = handed (cn_log s) @ [Status_frame sid Replaying_status]
    @ map (Stream_frame sid) (resync_frames ev (Some n) k s) @ [Status_frame sid (Source_status (vw_status (cn_views s k)))]"
proof -
  have "quotient_of (of_nat n) = (int n, 1)" by (simp add: Fract_of_nat_eq [symmetric] quotient_of_Fract Rat.normalize_def)
  then have num: "from_number (Some (JNumber (of_nat n))) = Some n" by (simp add: from_number_def)
  let ?s = "send_status ev sid Replaying_status s"
  have s1: "healthy ?s" "handed (cn_log ?s) = handed (cn_log s) @ [Status_frame sid Replaying_status]" "cn_views ?s = cn_views s" "object_of ?s k = object_of s k"
    using healthy_send [OF h, of ev "Status_frame sid Replaying_status"] by (simp_all add: send_status_def object_of_def)
  note f = healthy_sends [OF s1(1), of ev "Stream_frame sid"] and q = healthy_sequenced [OF s1(1), of ev k]
  show ?thesis unfolding resync_stream_def
    using k(2) by (simp add: k(1) num Let_def send_status_def [of ev sid "Source_status st" for st] healthy_send f q s1 resync_frames_def
        split: option.split)
qed

section \<open>Reachable connections\<close>

lemma reached_books: "pages_balanced ev None (map page_of (cn_objects (gateway_run ev es))) (cn_streams (gateway_run ev es)) (filter entered (cn_log (gateway_run ev es)))"
  using streams_reached [of ev es] by (intro books_balanced) (simp add: streams_ok_def)

lemma reached_open:
  assumes "omap_get (cn_streams (gateway_run ev es)) sid = Some k"
  shows "k < length (cn_objects (gateway_run ev es)) \<and> gs_id (object_of (gateway_run ev es) k) = sid
    \<and> gs_subscribed (object_of (gateway_run ev es) k) = kinds_of (gs_mode (object_of (gateway_run ev es) k)) (gs_source (object_of (gateway_run ev es) k))"
  using balancedD(2) [OF reached_books assms] by (auto simp: page_of_def object_of_def)

lemma reached_tape:
  assumes "k < length (cn_objects (gateway_run ev es))"
  shows "\<exists>fs. opened (cn_log (gateway_run ev es)) k = Some fs
    \<and> gs_replay (object_of (gateway_run ev es) k) = trim_replay ev (fs @ numbered_frames (cn_log (gateway_run ev es)) k)
    \<and> gs_sequence (object_of (gateway_run ev es) k) = last_number fs + length (numbered_frames (cn_log (gateway_run ev es)) k)
    \<and> map fst (numbered_frames (cn_log (gateway_run ev es)) k) = [last_number fs + 1 ..< gs_sequence (object_of (gateway_run ev es) k) + 1]"
  using balancedD(5) [OF reached_books, of k] assms by (simp add: tape_ok_def page_of_def object_of_def)

lemma kinds_once: "int (count_list (kinds_of mode src) c) = (if c \<in> set (kinds_of mode src) then 1 else 0)"
  by (simp add: kinds_of_def split: stream_mode.split)

text \<open>
  C13. Whatever the client, the sources and the transport do, the listeners a connection holds at its sources are exactly those of its open
  streams: for each open stream object one per kind its mode asks for, for every other object (replaced, failed to register, cancelled while
  it registered, or of a connection that has ended) as many were removed as were registered. A connection that has ended has no open stream.
\<close>

theorem sources_released:
  "let s = gateway_run ev es in
     (\<forall>k c. heard (cn_log s) k c
        = (if is_open (cn_streams s) k \<and> c \<in> set (kinds_of (gs_mode (object_of s k)) (gs_source (object_of s k))) then 1 else 0))
     \<and> (if cn_terminated s then cn_streams s = [] else True)"
proof -
  let ?s = "gateway_run ev es"
  have "heard (cn_log ?s) k c = (if is_open (cn_streams ?s) k \<and> c \<in> set (kinds_of (gs_mode (object_of ?s k)) (gs_source (object_of ?s k))) then 1 else 0)" for k c
  proof (cases "is_open (cn_streams ?s) k")
    case True
    then obtain sid where "omap_get (cn_streams ?s) sid = Some k" by (auto simp: is_open_def)
    from reached_open [OF this] have "k < length (cn_objects ?s)"
      "gs_subscribed (object_of ?s k) = kinds_of (gs_mode (object_of ?s k)) (gs_source (object_of ?s k))" by simp_all
    then show ?thesis using balancedD(4) [OF reached_books, of ev es k c] True kinds_once by (simp add: page_of_def object_of_def)
  next
    case False
    then show ?thesis using balancedD(4) [OF reached_books, of ev es k c] by simp
  qed
  moreover have "cn_streams ?s = []" if "cn_terminated ?s"
  proof -
    have "omap_get (cn_streams ?s) sid = None" for sid
      using streams_reached [of ev es] that by (simp add: streams_ok_def ended_def vacant_def)
    then have "omap_get (cn_streams ?s) = Map.empty" by (rule ext)
    then show ?thesis by simp
  qed
  ultimately show ?thesis by (simp add: Let_def)
qed

text \<open>
  C12. A client that asks an open stream for the frames from a number it has not yet been given by the restored ones gets, while the
  connection is healthy: the replaying status, then exactly the frames the stream sent with that and all later numbers if the buffer still
  reaches back to it, otherwise (also when nothing newer was sent) one fresh frame with the next number - the current snapshot, or for a
  trace-only stream its latest trace if it has one - and last the status of the source. The frames of the stream carry consecutive numbers.
\<close>

theorem resync_exact:
  assumes k: "omap_get (cn_streams (gateway_run ev es)) sid = Some k"
    and h: "healthy (gateway_run ev es)" and mode: "gs_mode (object_of (gateway_run ev es) k) \<noteq> Command_only"
    and fs: "opened (cn_log (gateway_run ev es)) k = Some fs" "list_all (\<lambda>f. fst f \<le> last_number fs) fs" and n: "last_number fs < n"
  shows "let s = gateway_run ev es; x = object_of s k; ns = numbered_frames (cn_log s) k in
     map fst ns = [last_number fs + 1 ..< gs_sequence x + 1]
     \<and> handed (cn_log (resync_stream ev sid (Some (JNumber (of_nat n))) s)) = handed (cn_log s) @ [Status_frame sid Replaying_status]
       @ map (Stream_frame sid)
           (if n \<le> gs_sequence x \<and> int (gs_sequence x) < int n + ge_replay_size ev then filter (\<lambda>f. n \<le> fst f) ns
            else if gs_mode x = Trace_only then (case gs_trace x of None \<Rightarrow> [] | Some p \<Rightarrow> [(gs_sequence x + 1, p)])
            else [(gs_sequence x + 1, vw_snapshot (cn_views s k))])
       @ [Status_frame sid (Source_status (vw_status (cn_views s k)))]"
proof -
  let ?s = "gateway_run ev es" and ?x = "object_of (gateway_run ev es) k"
  have id: "k < length (cn_objects ?s)" "gs_id ?x = sid" using reached_open [OF k] by simp_all
  note t = reached_tape [OF id(1)]
  have t: "gs_replay ?x = trim_replay ev (fs @ numbered_frames (cn_log ?s) k)" "gs_sequence ?x = last_number fs + length (numbered_frames (cn_log ?s) k)"
    "map fst (numbered_frames (cn_log ?s) k) = [last_number fs + 1 ..< gs_sequence ?x + 1]" using t fs(1) by simp_all
  have "map fst (numbered_frames (cn_log ?s) k) = [last_number fs + 1 ..< last_number fs + 1 + length (numbered_frames (cn_log ?s) k)]"
    using t(2,3) by simp
  note a = answer_exact [OF fs(2) this n t(1), folded t(2)]
  then have "resync_frames ev (Some n) k ?s = (if n \<le> gs_sequence ?x \<and> int (gs_sequence ?x) < int n + ge_replay_size ev
      then filter (\<lambda>f. n \<le> fst f) (numbered_frames (cn_log ?s) k)
      else if gs_mode ?x = Trace_only then (case gs_trace ?x of None \<Rightarrow> [] | Some p \<Rightarrow> [(gs_sequence ?x + 1, p)])
      else [(gs_sequence ?x + 1, vw_snapshot (cn_views ?s k))])"
    using mode unfolding resync_frames_def Let_def by (simp only: if_False) simp
  then show ?thesis using resync_healthy [OF h k id(2), of ev n] t(3) unfolding Let_def by (simp only:)
qed

definition demo_gateway :: gateway_env where
  "demo_gateway = \<lparr>ge_order = code_unit_collator, ge_json = (\<lambda>v. ''{}''), ge_hash = id, ge_date = (\<lambda>t. None), ge_id = ''c'', ge_heartbeat = 30, ge_replay_size = 2,
     ge_limit = None, ge_storage = False, ge_auth = False, ge_verifier = False, ge_context = None, ge_admission = None\<rparr>"

definition demo_source :: source_info where
  "demo_source = \<lparr>so_address = ''a'', so_send = True, so_ask = True, so_transitions = False, so_traces = False\<rparr>"

definition demo_registration :: source_registration where
  "demo_registration = \<lparr>rg_statuses = [], rg_shown = (\<lambda>c. if c = Sub_snapshot then [Snapshot_of ''a'' JNull] else []), rg_latest = None, rg_throws = None\<rparr>"

definition demo_events :: "gateway_event list" where
  "demo_events =
    [Frame_arrives (JObject [(''type'', JString ''hello'')]) (''t'', 0) 0, Next_job (''t'', 0) 0,
     Frame_arrives (JObject [(''type'', JString ''subscribe''), (''streamId'', JString ''s''), (''scope'', JObject [(''kind'', JString ''k'')])]) (''t'', 0) 0,
     Scope_answers (Resolved_source demo_source) demo_registration, Source_shows 0 Sub_event (Event_of ''a'' (JNumber 1)),
     Source_shows 0 Sub_event (Event_of ''a'' (JNumber 2))]"

lemma demo_reached:
  "omap_get (cn_streams (gateway_run demo_gateway demo_events)) ''s'' = Some 0" "healthy (gateway_run demo_gateway demo_events)"
  "gs_mode (object_of (gateway_run demo_gateway demo_events) 0) = Full" "opened (cn_log (gateway_run demo_gateway demo_events)) 0 = Some []"
  "numbered_frames (cn_log (gateway_run demo_gateway demo_events)) 0 = [(1, Snapshot_of ''a'' JNull), (2, Event_of ''a'' (JNumber 1)), (3, Event_of ''a'' (JNumber 2))]"
  "gs_sequence (object_of (gateway_run demo_gateway demo_events) 0) = 3"
  by code_simp+

theorem resync_exact_witness:
  "\<exists>st. handed (cn_log (resync_stream demo_gateway ''s'' (Some (JNumber (of_nat 2))) (gateway_run demo_gateway demo_events)))
     = handed (cn_log (gateway_run demo_gateway demo_events)) @ [Status_frame ''s'' Replaying_status,
        Stream_frame ''s'' (2, Event_of ''a'' (JNumber 1)), Stream_frame ''s'' (3, Event_of ''a'' (JNumber 2)), Status_frame ''s'' st]"
  using resync_exact [OF demo_reached(1,2) _ demo_reached(4), of 2]
  by (simp add: demo_reached Let_def last_number_def) (simp add: demo_gateway_def)
end
