(* ===== verification/Gateway_Sources.thy ===== *)
theory Gateway_Sources
  imports Gateway_Hub Runtime_Projection "HOL-Library.Sublist"
begin

text \<open>
  What the gateway shows of an actor: the read model over an actor reference, \<open>createRuntimeGatewayReadModelSource\<close>, and the traces put on
  top of a source, \<open>createRuntimeGatewayTraceSource\<close>. Times and random ids are arguments.
\<close>

section \<open>The read model\<close>

text \<open>The reference as far as it is used: its address and id, and which subscriptions it has. What it emits arrives as calls.\<close>

record model_source =
  ms_address :: string
  ms_actor :: string
  ms_created :: string
  ms_correlation :: "string option"
  ms_kind :: "event_kind option"
  ms_origin :: "string option"
  ms_last_event :: "string option"

definition model_snapshot :: "(rat \<Rightarrow> string) \<Rightarrow> string \<Rightarrow> model_source \<Rightarrow> actor_snapshot \<Rightarrow> runtime_projection" where
  "model_snapshot num now m sn =
     \<lparr>rp_snapshot = runtime_snapshot_of num \<lparr>si_snapshot = sn, si_actor = ms_actor m, si_created = ms_created m, si_updated = now,
        si_correlation = default_to (ms_correlation m) (ms_address m), si_label = None, si_status = None, si_last_event = ms_last_event m\<rparr>,
      rp_value = sn_value sn, rp_context = sn_context sn\<rparr>"

definition model_event :: "string \<Rightarrow> string \<Rightarrow> (string \<times> json) list \<Rightarrow> model_source \<Rightarrow> event_envelope \<times> model_source" where
  "model_event i now e m =
     (event_envelope_of e \<lparr>eo_id = i, eo_kind = default_to (ms_kind m) Fact_event, eo_occurred = now, eo_source = default_to (ms_origin m) (ms_address m),
        eo_target = None, eo_correlation = ms_correlation m, eo_causation = None\<rparr>,
      m\<lparr>ms_last_event := Some (default_to (message_text e ''type'') [])\<rparr>)"

text \<open>\<open>subscribeTransition\<close>: the change from the snapshot before, unless state and status stay.\<close>

definition transition_step :: "(rat \<Rightarrow> string) \<Rightarrow> actor_snapshot \<Rightarrow> actor_snapshot \<Rightarrow> transition_record option \<times> actor_snapshot" where
  "transition_step num before sn =
     (let t = transition_of num \<lparr>ti_from = before, ti_to = sn, ti_from_state = None, ti_to_state = None, ti_from_status = None, ti_to_status = None\<rparr>
      in (if tr_from_state t = tr_to_state t \<and> tr_from_status t = tr_to_status t then None else Some t, sn))"

fun transitions_told :: "(rat \<Rightarrow> string) \<Rightarrow> actor_snapshot \<Rightarrow> actor_snapshot list \<Rightarrow> transition_record list" where
  "transitions_told num before [] = []"
| "transitions_told num before (sn # sns) =
     (case transition_step num before sn of (t, after) \<Rightarrow> (case t of None \<Rightarrow> [] | Some x \<Rightarrow> [x]) @ transitions_told num after sns)"

section \<open>Traces\<close>

datatype trace_fact_code = Buffer_overflow | Malformed_trace | Unsupported_trace | Dispatch_failed

record trace_fact =
  tf_code :: trace_fact_code
  tf_message :: string
  tf_detail :: "string option"
  tf_dropped :: "nat option"

record trace_projection =
  tp_address :: string
  tp_number :: nat
  tp_trace :: "agent_trace option"
  tp_fact :: "trace_fact option"

definition trace_cursor :: "trace_projection \<Rightarrow> string" where
  "trace_cursor p = tp_address p @ ''#trace:'' @ nat_digits (tp_number p)"

record trace_source =
  gt_address :: string
  gt_size :: nat
  gt_sequence :: nat
  gt_projections :: "trace_projection list"
  gt_latest :: "trace_projection option"
  gt_listeners :: "nat list"
  gt_told :: "(nat \<times> trace_projection) list"       \<comment> \<open>what was told to whom, oldest first\<close>

definition trace_buffer_size :: "rat option \<Rightarrow> nat" where
  "trace_buffer_size v = (case v of None \<Rightarrow> 64 | Some r \<Rightarrow> nat (max 1 \<lfloor>r\<rfloor>))"

definition notify_trace :: "trace_projection \<Rightarrow> trace_source \<Rightarrow> trace_source" where
  "notify_trace p s = s\<lparr>gt_told := gt_told s @ map (\<lambda>l. (l, p)) (gt_listeners s)\<rparr>"

definition store_projection :: "agent_trace option \<Rightarrow> trace_fact option \<Rightarrow> trace_source \<Rightarrow> trace_projection \<times> trace_source" where
  "store_projection t f s =
     (let n = gt_sequence s + 1;
          p = \<lparr>tp_address = gt_address s, tp_number = n, tp_trace = t, tp_fact = f\<rparr>;
          ps = gt_projections s @ [p];
          s1 = notify_trace p (s\<lparr>gt_sequence := n, gt_latest := (if t = None then gt_latest s else Some p), gt_projections := ps\<rparr>)
      in (p, if length ps \<le> gt_size s then s1
             else notify_trace \<lparr>tp_address = gt_address s, tp_number = n + 1, tp_trace = None,
                 tp_fact = Some \<lparr>tf_code = Buffer_overflow, tf_message = ''Dropped older traces while applying bounded backpressure.'',
                   tf_detail = None, tf_dropped = Some (length ps - gt_size s)\<rparr>\<rparr>
               (s1\<lparr>gt_projections := drop (length ps - gt_size s) ps, gt_sequence := n + 1\<rparr>)))"

text \<open>A trace is stored sanitized if it is one; otherwise that it was malformed.\<close>

definition store_trace :: "(string \<Rightarrow> int option) \<Rightarrow> collator \<Rightarrow> json \<Rightarrow> trace_source \<Rightarrow> trace_projection \<times> trace_source" where
  "store_trace dp c v s = (case parse_trace dp c v of
       Inr t \<Rightarrow> store_projection (Some (sanitize_trace dp c t)) None s
     | Inl e \<Rightarrow> store_projection None (Some \<lparr>tf_code = Malformed_trace, tf_message = ''Trace input did not satisfy the AgentExecutionTrace contract.'',
         tf_detail = Some (case v of JObject fs \<Rightarrow> ''invalid_shape'' | JArray xs \<Rightarrow> ''invalid_shape'' | JNull \<Rightarrow> ''invalid_primitive:object''
           | JString t \<Rightarrow> ''invalid_primitive:string'' | JNumber r \<Rightarrow> ''invalid_primitive:number'' | JBool b \<Rightarrow> ''invalid_primitive:boolean''),
         tf_dropped = None\<rparr>) s)"

definition store_fact :: "trace_fact \<Rightarrow> trace_source \<Rightarrow> trace_projection \<times> trace_source" where
  "store_fact f s = store_projection None (Some f) s"

datatype trace_source_event =
    Stores_trace json
  | Stores_fact trace_fact
  | Trace_watcher nat
  | Trace_watcher_leaves nat

definition trace_source_step :: "(string \<Rightarrow> int option) \<Rightarrow> collator \<Rightarrow> trace_source_event \<Rightarrow> trace_source \<Rightarrow> trace_source" where
  "trace_source_step dp c e s = (case e of
       Stores_trace v \<Rightarrow> snd (store_trace dp c v s)
     | Stores_fact f \<Rightarrow> snd (store_fact f s)
     | Trace_watcher l \<Rightarrow> s\<lparr>gt_listeners := (if l \<in> set (gt_listeners s) then gt_listeners s else gt_listeners s @ [l])\<rparr>
     | Trace_watcher_leaves l \<Rightarrow> s\<lparr>gt_listeners := removeAll l (gt_listeners s)\<rparr>)"

definition new_trace_source :: "string \<Rightarrow> rat option \<Rightarrow> trace_source" where
  "new_trace_source a v = \<lparr>gt_address = a, gt_size = trace_buffer_size v, gt_sequence = 0, gt_projections = [], gt_latest = None,
     gt_listeners = [], gt_told = []\<rparr>"

definition trace_source_run :: "(string \<Rightarrow> int option) \<Rightarrow> collator \<Rightarrow> string \<Rightarrow> rat option \<Rightarrow> trace_source_event list \<Rightarrow> trace_source" where
  "trace_source_run dp c a v es = fold (trace_source_step dp c) es (new_trace_source a v)"

section \<open>What they show\<close>

text \<open>The transitions of an actor lead from the state and status it had to those it has.\<close>

definition label_status :: "(rat \<Rightarrow> string) \<Rightarrow> actor_snapshot \<Rightarrow> string \<times> string" where
  "label_status num sn = (label_of num (sn_value sn), sn_status sn)"

fun follow :: "string \<times> string \<Rightarrow> transition_record list \<Rightarrow> (string \<times> string) option" where
  "follow st [] = Some st"
| "follow st (t # ts) = (if (tr_from_state t, tr_from_status t) = st \<and> (tr_to_state t, tr_to_status t) \<noteq> st
     then follow (tr_to_state t, tr_to_status t) ts else None)"

lemma transitions_lead: "follow (label_status num before) (transitions_told num before sns) = Some (label_status num (last (before # sns)))"
proof (induction sns arbitrary: before)
  case (Cons sn sns)
  obtain t where t: "transition_step num before sn = (t, sn)" by (simp add: transition_step_def Let_def)
  have "follow (label_status num before) ((case t of None \<Rightarrow> [] | Some x \<Rightarrow> [x]) @ ts) = follow (label_status num sn) ts" for ts
    using t by (auto simp: transition_step_def Let_def transition_of_def label_status_def split: if_splits)
  then show ?case using Cons.IH [of sn] t by simp
qed simp

definition told_to :: "nat \<Rightarrow> trace_source \<Rightarrow> trace_projection list" where
  "told_to l s = map snd (filter (\<lambda>x. fst x = l) (gt_told s))"

definition last_trace :: "trace_projection list \<Rightarrow> trace_projection option" where
  "last_trace ps = (case rev (filter (\<lambda>p. tp_trace p \<noteq> None) ps) of [] \<Rightarrow> None | p # _ \<Rightarrow> Some p)"

definition stores :: "trace_source_event \<Rightarrow> bool" where
  "stores e = (case e of Stores_trace v \<Rightarrow> True | Stores_fact f \<Rightarrow> True | _ \<Rightarrow> False)"

definition watched_ok :: "nat \<Rightarrow> nat \<Rightarrow> trace_source \<Rightarrow> bool" where
  "watched_ok l n s \<longleftrightarrow> l \<in> set (gt_listeners s) \<and> distinct (gt_listeners s) \<and> 0 < gt_size s
     \<and> map tp_number (told_to l s) = [1 ..< gt_sequence s + 1] \<and> length (gt_projections s) = min (gt_size s) n
     \<and> subseq (gt_projections s) (told_to l s) \<and> gt_latest s = last_trace (told_to l s)"

lemma told_notify: "distinct (gt_listeners s) \<Longrightarrow> l \<in> set (gt_listeners s) \<Longrightarrow> told_to l (notify_trace p s) = told_to l s @ [p]"
proof -
  assume a: "distinct (gt_listeners s)" "l \<in> set (gt_listeners s)"
  have "map snd (filter (\<lambda>x. fst x = l) (map (\<lambda>k. (k, p)) ls)) = (if l \<in> set ls then [p] else [])" if "distinct ls" for ls
    using that by (induction ls) auto
  from this [OF a(1)] a(2) show ?thesis by (simp add: told_to_def notify_trace_def)
qed

lemma last_trace_more: "last_trace (ps @ [p]) = (if tp_trace p = None then last_trace ps else Some p)"
  by (simp add: last_trace_def)

lemma watched_store: "watched_ok l n s \<Longrightarrow> watched_ok l (Suc n) (snd (store_projection t f s))"
proof -
  assume w: "watched_ok l n s"
  let ?p = "\<lparr>tp_address = gt_address s, tp_number = gt_sequence s + 1, tp_trace = t, tp_fact = f\<rparr>"
  define s0 where "s0 = s\<lparr>gt_sequence := gt_sequence s + 1, gt_latest := (if t = None then gt_latest s else Some ?p), gt_projections := gt_projections s @ [?p]\<rparr>"
  define s1 where "s1 = notify_trace ?p s0"
  have l0: "distinct (gt_listeners s0)" "l \<in> set (gt_listeners s0)" "told_to l s0 = told_to l s" using w by (simp_all add: s0_def watched_ok_def told_to_def)
  have t1: "told_to l s1 = told_to l s @ [?p]" using told_notify [OF l0(1,2)] l0(3) by (simp add: s1_def)
  have s1: "gt_listeners s1 = gt_listeners s" "gt_size s1 = gt_size s" "gt_sequence s1 = gt_sequence s + 1" "gt_projections s1 = gt_projections s @ [?p]"
    "gt_latest s1 = (if t = None then gt_latest s else Some ?p)" "gt_address s1 = gt_address s" by (simp_all add: s1_def s0_def notify_trace_def)
  have sub: "subseq (gt_projections s @ [?p]) (told_to l s @ [?p])" using w by (intro list_emb_append_mono) (simp_all add: watched_ok_def)
  have lt: "last_trace (told_to l s @ [?p]) = (if t = None then gt_latest s else Some ?p)" using w by (simp add: last_trace_more watched_ok_def)
  define d where "d = length (gt_projections s @ [?p]) - gt_size s"
  define q where "q = \<lparr>tp_address = gt_address s, tp_number = gt_sequence s + 1 + 1, tp_trace = None,
      tp_fact = Some \<lparr>tf_code = Buffer_overflow, tf_message = ''Dropped older traces while applying bounded backpressure.'', tf_detail = None, tf_dropped = Some d\<rparr>\<rparr>"
  define s2 where "s2 = notify_trace q (s1\<lparr>gt_projections := drop d (gt_projections s @ [?p]), gt_sequence := gt_sequence s + 1 + 1\<rparr>)"
  have eq: "snd (store_projection t f s) = (if length (gt_projections s @ [?p]) \<le> gt_size s then s1 else s2)"
    unfolding store_projection_def Let_def s2_def q_def d_def s1_def s0_def by simp
  show ?thesis
  proof (cases "length (gt_projections s @ [?p]) \<le> gt_size s")
    case True
    then have "length (gt_projections s @ [?p]) = min (gt_size s) (Suc n)" using w by (auto simp: watched_ok_def)
    then have "watched_ok l (Suc n) s1" using w sub lt unfolding watched_ok_def s1 t1 by simp
    then show ?thesis using True eq by simp
  next
    case False
    have "gt_listeners (s1\<lparr>gt_projections := ps, gt_sequence := m\<rparr>) = gt_listeners s" "told_to l (s1\<lparr>gt_projections := ps, gt_sequence := m\<rparr>) = told_to l s1" for ps m
      by (simp_all add: s1 told_to_def)
    then have t2: "told_to l s2 = told_to l s @ [?p] @ [q]" using told_notify [of "s1\<lparr>gt_projections := drop d (gt_projections s @ [?p]), gt_sequence := gt_sequence s + 1 + 1\<rparr>" l q] w t1
      by (simp add: s2_def watched_ok_def)
    have "subseq (drop d (gt_projections s @ [?p])) (gt_projections s @ [?p])" by (rule suffix_imp_subseq) (rule suffix_drop)
    then have sub2: "subseq (drop d (gt_projections s @ [?p])) (told_to l s @ [?p] @ [q])"
      using subseq_order.order_trans [OF _ subseq_order.order_trans [OF sub list_emb_append2 [of _ _ _ "[q]"]]] sub
      by (metis append.assoc list_emb_append_mono list_emb_Nil append_Nil2 subseq_order.order_trans)
    have len: "length (drop d (gt_projections s @ [?p])) = min (gt_size s) (Suc n)" using False w by (auto simp: d_def watched_ok_def)
    have lt2: "last_trace (told_to l s @ [?p] @ [q]) = (if t = None then gt_latest s else Some ?p)"
      using lt last_trace_more [of "told_to l s @ [?p]" q] by (simp add: q_def)
    have "gt_listeners s2 = gt_listeners s" "gt_size s2 = gt_size s" "gt_sequence s2 = gt_sequence s + 1 + 1" "gt_projections s2 = drop d (gt_projections s @ [?p])"
      "gt_latest s2 = (if t = None then gt_latest s else Some ?p)" by (simp_all add: s2_def notify_trace_def s1)
    note s2 = this
    have "watched_ok l (Suc n) s2" using w sub2 len lt2 unfolding watched_ok_def s2 t2 by (simp add: q_def)
    then show ?thesis using False eq by simp
  qed
qed

lemma watched_step:
  assumes "watched_ok l n s" "e \<noteq> Trace_watcher_leaves l"
  shows "watched_ok l (if stores e then Suc n else n) (trace_source_step dp c e s)"
proof (cases e)
  case (Stores_trace v)
  then show ?thesis using watched_store [OF assms(1)] by (simp add: trace_source_step_def stores_def store_trace_def split: sum.split)
next
  case (Stores_fact f)
  then show ?thesis using watched_store [OF assms(1)] by (simp add: trace_source_step_def stores_def store_fact_def)
qed (use assms in \<open>auto simp: trace_source_step_def stores_def watched_ok_def told_to_def distinct_removeAll\<close>)

text \<open>
  C40. The traces of a source over any calls and any other watchers, for a watcher that stays: it is told every projection, numbered from 1
  without a gap. The buffer never holds more than its size and holds that many as soon as so many were stored; it keeps the ones the watcher was
  told, in order, and the latest trace is the last trace the watcher was told.
\<close>

theorem traces_accounted:
  "let s = trace_source_run dp c a v (Trace_watcher l # filter (\<lambda>e. e \<noteq> Trace_watcher_leaves l) es);
       n = length (filter stores es)
   in map tp_number (told_to l s) = [1 ..< gt_sequence s + 1] \<and> length (gt_projections s) = min (trace_buffer_size v) n
     \<and> subseq (gt_projections s) (told_to l s) \<and> gt_latest s = last_trace (told_to l s)"
proof -
  let ?s0 = "trace_source_step dp c (Trace_watcher l) (new_trace_source a v)"
  have "0 < trace_buffer_size v" by (simp add: trace_buffer_size_def less_max_iff_disj split: option.split)
  then have start: "watched_ok l 0 ?s0"
    by (simp add: watched_ok_def trace_source_step_def new_trace_source_def told_to_def last_trace_def)
  have size: "gt_size (trace_source_step dp c e s) = gt_size s" for e s
    by (cases e) (simp_all add: trace_source_step_def store_trace_def store_fact_def store_projection_def notify_trace_def Let_def split: sum.split)
  have "watched_ok l (n + length (filter stores es)) (fold (trace_source_step dp c) (filter (\<lambda>e. e \<noteq> Trace_watcher_leaves l) es) s)
      \<and> gt_size (fold (trace_source_step dp c) (filter (\<lambda>e. e \<noteq> Trace_watcher_leaves l) es) s) = gt_size s" if "watched_ok l n s" for n s
    using that
  proof (induction es arbitrary: n s)
    case (Cons e es)
    show ?case
    proof (cases "e = Trace_watcher_leaves l")
      case True
      then show ?thesis using Cons by (simp add: stores_def)
    next
      case False
      then show ?thesis using Cons.IH [OF watched_step [OF Cons.prems False]] size [of e s] by (auto simp: size)
    qed
  qed simp
  from this [OF start] show ?thesis
    unfolding Let_def trace_source_run_def by (simp add: watched_ok_def size) (simp add: new_trace_source_def)
qed
end
