(* ===== verification/Web_Source.thy ===== *)
theory Web_Source
  imports Gateway_Replay Runtime_Projection
begin

text \<open>
  The client of the gateway, \<open>actor-web-source.ts\<close>: a page's view of one actor over one socket, with its snapshot, events, status,
  sends and asks, and the trace source, which reconnects. Frames to the gateway are JSON values; times and the wording of the errors the
  code does not read are left out. Code between two awaits is one step.
\<close>

section \<open>Scopes and frames\<close>

text \<open>\<open>mergeScope\<close>: kinds and parameters of the override win.\<close>

record source_scope =
  sp_kind :: string
  sp_params :: "(string \<times> string) list option"

record scope_override =
  sv_kind :: "string option"
  sv_params :: "(string \<times> string) list option"

definition spread_over :: "('k, 'v) omap option \<Rightarrow> ('k, 'v) omap \<Rightarrow> ('k, 'v) omap" where
  "spread_over xs base = (case xs of None \<Rightarrow> base | Some ys \<Rightarrow> fold (\<lambda>(k, v). omap_set k v) ys base)"

definition merge_scope :: "source_scope \<Rightarrow> scope_override option \<Rightarrow> source_scope" where
  "merge_scope sc ov = (case ov of
       None \<Rightarrow> sc
     | Some o' \<Rightarrow>
         \<lparr>sp_kind = (case sv_kind o' of None \<Rightarrow> sp_kind sc | Some k \<Rightarrow> k),
          sp_params = (if sp_params sc = None \<and> sv_params o' = None then None else Some (spread_over (sv_params o') (spread_over (sp_params sc) [])))\<rparr>)"

text \<open>The scope of a source: the inferred kind, then the overrides of the descriptor, the input and the gateway options.\<close>

definition source_scope_of :: "string \<Rightarrow> scope_override option \<Rightarrow> scope_override option \<Rightarrow> scope_override option \<Rightarrow> source_scope" where
  "source_scope_of kind descriptor input options =
     merge_scope (merge_scope (merge_scope \<lparr>sp_kind = kind, sp_params = None\<rparr> descriptor) input) options"

definition scope_json :: "source_scope \<Rightarrow> json" where
  "scope_json sc = JObject ((''kind'', JString (sp_kind sc)) # (case sp_params sc of None \<Rightarrow> []
     | Some ps \<Rightarrow> [(''params'', JObject (map (\<lambda>(k, v). (k, JString v)) ps))]))"

definition web_stream_id :: "string option \<Rightarrow> string \<Rightarrow> string" where
  "web_stream_id given actor = (case given of None \<Rightarrow> ''actor-web-'' @ actor | Some t \<Rightarrow> t)"

text \<open>\<open>resolveRuntimeAuthPayload\<close> on the token the provider gives; an empty text is no token.\<close>

definition auth_payload :: "json option \<Rightarrow> json option" where
  "auth_payload token = (case token of
       None \<Rightarrow> None
     | Some (JString t) \<Rightarrow> if t = [] then None else Some (JObject [(''scheme'', JString ''token''), (''token'', JString t)])
     | Some v \<Rightarrow> if \<not> truthy (Some v) then None
         else Some (JObject (concat (map (\<lambda>k. if truthy (field v k) then opt_field k (field v k) else []) [''scheme'', ''token'', ''metadata'']))))"

definition version_text :: "string option \<Rightarrow> string" where
  "version_text v = (case v of None \<Rightarrow> ''actor-web-source'' | Some t \<Rightarrow> t)"

definition page_hello :: "string option \<Rightarrow> string option \<Rightarrow> json option \<Rightarrow> json" where
  "page_hello version recent auth = JObject ([(''type'', JString ''hello''), (''clientVersion'', JString (version_text version))]
     @ (case recent of None \<Rightarrow> [] | Some t \<Rightarrow> if t = [] then [] else [(''lastConnectionId'', JString t)]) @ opt_field ''auth'' auth)"

definition subscribe_frame :: "string \<Rightarrow> json \<Rightarrow> string option \<Rightarrow> nat option \<Rightarrow> json" where
  "subscribe_frame sid scope mode from = JObject ([(''type'', JString ''subscribe''), (''streamId'', JString sid), (''scope'', scope)]
     @ opt_field ''mode'' (map_option JString mode) @ opt_field ''fromSequence'' (map_option (\<lambda>n. JNumber (of_nat n)) from))"

definition resync_frame :: "string \<Rightarrow> nat \<Rightarrow> json" where
  "resync_frame sid n = JObject [(''type'', JString ''resync''), (''streamId'', JString sid), (''fromSequence'', JNumber (of_nat n))]"

definition command_frame :: "bool \<Rightarrow> string \<Rightarrow> string \<Rightarrow> json \<Rightarrow> json option \<Rightarrow> json option \<Rightarrow> json" where
  "command_frame asks sid rid message timeout metadata =
     JObject ([(''type'', JString (if asks then ''ask'' else ''send'')), (''streamId'', JString sid), (''requestId'', JString rid), (''message'', message)]
       @ (if asks then opt_field ''timeoutMs'' timeout else []) @ (if truthy metadata then opt_field ''metadata'' metadata else []))"

section \<open>A source\<close>

text \<open>What a page sees of the actor: context, value and status of a snapshot, and the label its \<open>matches\<close> compares with.\<close>

record page_snapshot =
  vs_context :: "json option"
  vs_value :: "json option"
  vs_status :: "json option"
  vs_label :: "json option"
  vs_phase :: string

definition placeholder_snapshot :: "(rat \<Rightarrow> string) \<Rightarrow> page_snapshot" where
  "placeholder_snapshot num = \<lparr>vs_context = None, vs_value = Some (JString ''unknown''), vs_status = Some (JString ''idle''),
     vs_label = Some (JString ''unknown''), vs_phase = label_of num (Some (JString ''unknown''))\<rparr>"

definition page_snapshot_of :: "(rat \<Rightarrow> string) \<Rightarrow> json \<Rightarrow> page_snapshot" where
  "page_snapshot_of num p = \<lparr>vs_context = field p ''context'', vs_value = field p ''value'', vs_status = sub p ''snapshot'' ''status'',
     vs_label = sub p ''snapshot'' ''stateLabel'', vs_phase = label_of num (field p ''value'')\<rparr>"

definition page_event_of :: "json \<Rightarrow> json" where
  "page_event_of p = JObject (with_fields (opt_field ''address'' (field p ''address''))
     (with_fields (case sub p ''envelope'' ''payload'' of None \<Rightarrow> [] | Some v \<Rightarrow> object_fields v) (opt_field ''type'' (sub p ''envelope'' ''type''))))"

definition own_status :: "string \<Rightarrow> string option \<Rightarrow> json" where
  "own_status state why = JObject ((''state'', JString state) # opt_field ''reason'' (map_option JString why))"

definition shown_json :: "shown_status \<Rightarrow> json" where
  "shown_json st = (case st of Replaying_status \<Rightarrow> own_status ''replaying'' None | Source_status v \<Rightarrow> v)"

text \<open>A source local to the gateway is connected for the page.\<close>

definition page_status :: "shown_status \<Rightarrow> json" where
  "page_status st = (if field (shown_json st) ''state'' = Some (JString ''local'') then own_status ''connected'' None else shown_json st)"

record web_env =
  we_num :: "rat \<Rightarrow> string"
  we_stream_id :: string
  we_source_scope :: json
  we_command_only :: bool                        \<comment> \<open>\<open>createActorWebCommandSource\<close>: that mode, and ready on the first status\<close>
  we_version :: "string option"
  we_auth :: bool

datatype source_readiness = Not_ready | Is_ready | Never_ready string

datatype page_outcome = Fulfilled "json option" | Rejected string

datatype web_action =
    Sent_up json
  | Told_snapshot nat page_snapshot
  | Told_event nat json
  | Told_status nat json
  | Took replay_frame                             \<comment> \<open>a numbered frame was accepted\<close>
  | Settled nat page_outcome
  | Socket_closed

text \<open>A call of \<open>send\<close> or \<open>ask\<close>: whether it asks, message, timeout and metadata. It is numbered when made.\<close>

record page_call =
  pc_asks :: bool
  pc_message :: json
  pc_timeout :: "json option"
  pc_metadata :: "json option"

record web_source =
  ws_snapshot :: page_snapshot
  ws_status :: json
  ws_requests :: nat
  ws_last :: nat
  ws_resyncing :: bool
  ws_ready :: source_readiness
  ws_sends :: "(string, nat) omap"
  ws_order :: "string list"
  ws_asks :: "(string, nat) omap"
  ws_calls :: "(nat \<times> page_call) list"         \<comment> \<open>calls that await \<open>ready\<close>\<close>
  ws_tickets :: nat
  ws_snapshot_listeners :: "nat list"
  ws_event_listeners :: "(nat \<times> string list option) list"
  ws_status_listeners :: "nat list"
  ws_throws :: "bool list"                        \<comment> \<open>which of the next sends on the socket throw\<close>
  ws_log :: "web_action list"                     \<comment> \<open>newest first\<close>

definition web_log :: "web_action \<Rightarrow> web_source \<Rightarrow> web_source" where
  "web_log a s = s\<lparr>ws_log := a # ws_log s\<rparr>"

definition tell_snapshot :: "web_source \<Rightarrow> web_source" where
  "tell_snapshot s = fold (\<lambda>l. web_log (Told_snapshot l (ws_snapshot s))) (ws_snapshot_listeners s) s"

definition tell_status :: "web_source \<Rightarrow> web_source" where
  "tell_status s = fold (\<lambda>l. web_log (Told_status l (ws_status s))) (ws_status_listeners s) s"

definition set_page_status :: "json \<Rightarrow> web_source \<Rightarrow> web_source" where
  "set_page_status v s = tell_status (s\<lparr>ws_status := v\<rparr>)"

definition page_wants :: "string list option \<Rightarrow> json \<Rightarrow> bool" where
  "page_wants types e = (case types of
       None \<Rightarrow> True
     | Some ts \<Rightarrow> if ts = [] then True else (case text_value (field e ''type'') of None \<Rightarrow> False | Some t \<Rightarrow> t \<in> set ts))"

definition tell_event :: "json \<Rightarrow> web_source \<Rightarrow> web_source" where
  "tell_event e s = fold (\<lambda>(l, types). if page_wants types e then web_log (Told_event l e) else id) (ws_event_listeners s) s"

text \<open>Sending on the socket, and whether it threw.\<close>

definition send_up :: "json \<Rightarrow> web_source \<Rightarrow> bool \<times> web_source" where
  "send_up f s = (let s1 = s\<lparr>ws_throws := tl (ws_throws s)\<rparr>
     in if ws_throws s \<noteq> [] \<and> hd (ws_throws s) then (True, s1) else (False, web_log (Sent_up f) s1))"

section \<open>Numbers\<close>

definition is_snapshot :: "payload \<Rightarrow> bool" where
  "is_snapshot p = (case p of Snapshot_of a v \<Rightarrow> True | _ \<Rightarrow> False)"

definition take_frame :: "replay_frame \<Rightarrow> web_source \<Rightarrow> web_source" where
  "take_frame f s = web_log (Took f) (s\<lparr>ws_last := fst f\<rparr>)"

definition accept_sequence :: "web_env \<Rightarrow> replay_frame \<Rightarrow> web_source \<Rightarrow> bool \<times> web_source" where
  "accept_sequence ev f s =
     (let n = fst f; expected = ws_last s + 1
      in if n = expected then (True, take_frame f s)
         else if n \<le> ws_last s then (False, s)
         else if ws_resyncing s \<and> is_snapshot (snd f) then (True, (take_frame f s)\<lparr>ws_resyncing := False\<rparr>)
         else (False, snd (send_up (resync_frame (we_stream_id ev) expected)
           (set_page_status (own_status ''degraded'' (Some (''Gateway stream sequence gap: expected '' @ nat_digits expected @ '', received '' @ nat_digits n @ ''.'')))
             (s\<lparr>ws_resyncing := True\<rparr>)))))"

section \<open>Promises\<close>

definition settle_call :: "nat \<Rightarrow> page_outcome \<Rightarrow> web_source \<Rightarrow> web_source" where
  "settle_call t r s = web_log (Settled t r) s"

definition now_ready :: "web_source \<Rightarrow> web_source" where
  "now_ready s = (if ws_ready s = Not_ready then s\<lparr>ws_ready := Is_ready\<rparr> else s)"

text \<open>\<open>rejectPending\<close>: the promise of readiness, the sends in their order, the asks.\<close>

definition reject_sends :: "string \<Rightarrow> web_source \<Rightarrow> web_source" where
  "reject_sends why s = fold (\<lambda>r s. case omap_get (ws_sends s) r of
       None \<Rightarrow> s | Some t \<Rightarrow> settle_call t (Rejected why) (s\<lparr>ws_sends := omap_delete r (ws_sends s)\<rparr>)) (ws_order s) (s\<lparr>ws_order := []\<rparr>)"

definition reject_pending :: "string \<Rightarrow> web_source \<Rightarrow> web_source" where
  "reject_pending why s =
     (let s1 = reject_sends why (if ws_ready s = Not_ready then s\<lparr>ws_ready := Never_ready why\<rparr> else s)
      in (fold (\<lambda>(r, t). settle_call t (Rejected why)) (ws_asks s1) s1)\<lparr>ws_asks := []\<rparr>)"

fun oldest_send :: "string list \<Rightarrow> (string, nat) omap \<Rightarrow> nat option \<times> string list \<times> (string, nat) omap" where
  "oldest_send [] m = (None, [], m)"
| "oldest_send (r # rs) m =
     (if r = [] then (None, rs, m)
      else (case omap_get m r of Some t \<Rightarrow> (Some t, rs, omap_delete r m) | None \<Rightarrow> oldest_send rs m))"

text \<open>\<open>takePendingSend\<close>: the send with that id, or without one the oldest.\<close>

definition take_pending_send :: "string option \<Rightarrow> web_source \<Rightarrow> nat option \<times> web_source" where
  "take_pending_send rid s = (case rid of
       Some r \<Rightarrow> if r = [] then (case oldest_send (ws_order s) (ws_sends s) of (t, rs, m) \<Rightarrow> (t, s\<lparr>ws_order := rs, ws_sends := m\<rparr>))
         else (case omap_get (ws_sends s) r of
             None \<Rightarrow> (None, s)
           | Some t \<Rightarrow> (Some t, s\<lparr>ws_sends := omap_delete r (ws_sends s), ws_order := remove1 r (ws_order s)\<rparr>))
     | None \<Rightarrow> (case oldest_send (ws_order s) (ws_sends s) of (t, rs, m) \<Rightarrow> (t, s\<lparr>ws_order := rs, ws_sends := m\<rparr>)))"

definition settle_send :: "string option \<Rightarrow> page_outcome \<Rightarrow> web_source \<Rightarrow> bool \<times> web_source" where
  "settle_send rid r s = (case take_pending_send rid s of (None, s1) \<Rightarrow> (False, s1) | (Some t, s1) \<Rightarrow> (True, settle_call t r s1))"

definition settle_ask :: "string \<Rightarrow> page_outcome \<Rightarrow> web_source \<Rightarrow> bool \<times> web_source" where
  "settle_ask rid r s = (case omap_get (ws_asks s) rid of
       None \<Rightarrow> (False, s) | Some t \<Rightarrow> (True, settle_call t r (s\<lparr>ws_asks := omap_delete rid (ws_asks s)\<rparr>)))"

definition request_id :: "bool \<Rightarrow> nat \<Rightarrow> string" where
  "request_id asks n = (if asks then ''actor-web-source-request-'' else ''actor-web-source-send-'') @ nat_digits n"

text \<open>A call goes on once \<open>ready\<close> is settled.\<close>

definition call_continues :: "web_env \<Rightarrow> nat \<Rightarrow> page_call \<Rightarrow> web_source \<Rightarrow> web_source" where
  "call_continues ev t c s = (case ws_ready s of
       Not_ready \<Rightarrow> s
     | Never_ready why \<Rightarrow> settle_call t (Rejected why) s
     | Is_ready \<Rightarrow>
         (let n = ws_requests s + 1; rid = request_id (pc_asks c) n;
              s1 = (if pc_asks c then s\<lparr>ws_requests := n, ws_asks := omap_set rid t (ws_asks s)\<rparr>
                    else s\<lparr>ws_requests := n, ws_sends := omap_set rid t (ws_sends s), ws_order := ws_order s @ [rid]\<rparr>)
          in (case send_up (command_frame (pc_asks c) (we_stream_id ev) rid (pc_message c) (pc_timeout c) (pc_metadata c)) s1 of
                (False, s2) \<Rightarrow> s2
              | (True, s2) \<Rightarrow> snd (if pc_asks c then settle_ask rid (Rejected ''socket'') s2 else settle_send (Some rid) (Rejected ''socket'') s2))))"

section \<open>The handlers\<close>

definition source_ready :: "web_env \<Rightarrow> web_source \<Rightarrow> web_source" where
  "source_ready ev s = snd (send_up (subscribe_frame (we_stream_id ev) (we_source_scope ev) (if we_command_only ev then Some ''command-only'' else None) None)
     (set_page_status (own_status ''replaying'' (Some ''Subscribing to Actor-Web gateway'')) s))"

definition numbered_arrives :: "web_env \<Rightarrow> replay_frame \<Rightarrow> web_source \<Rightarrow> web_source" where
  "numbered_arrives ev f s = (case snd f of
       Trace_of a h v \<Rightarrow> s
     | Snapshot_of a v \<Rightarrow> (case accept_sequence ev f s of
           (False, s1) \<Rightarrow> s1
         | (True, s1) \<Rightarrow> tell_snapshot (now_ready (s1\<lparr>ws_snapshot := page_snapshot_of (we_num ev) v\<rparr>)))
     | Event_of a v \<Rightarrow> (case accept_sequence ev f s of (False, s1) \<Rightarrow> s1 | (True, s1) \<Rightarrow> tell_event (page_event_of v) s1)
     | Transition_of v \<Rightarrow> snd (accept_sequence ev f s))"

definition status_arrives :: "web_env \<Rightarrow> shown_status \<Rightarrow> web_source \<Rightarrow> web_source" where
  "status_arrives ev st s =
     (let s1 = (if field (shown_json st) ''state'' \<noteq> Some (JString ''replaying'') then s\<lparr>ws_resyncing := False\<rparr> else s);
          s2 = s1\<lparr>ws_status := page_status st\<rparr>
      in tell_status (if we_command_only ev then now_ready s2 else s2))"

definition error_arrives :: "string option \<Rightarrow> string \<Rightarrow> web_source \<Rightarrow> web_source" where
  "error_arrives rid message s =
     (let why = Rejected message;
          settled = (case rid of
              None \<Rightarrow> settle_send None why s
            | Some r \<Rightarrow> if r = [] then settle_send None why s
                else (case settle_ask r why s of (True, s1) \<Rightarrow> (True, s1) | (False, s1) \<Rightarrow> settle_send rid why s1))
      in case settled of
           (True, s1) \<Rightarrow> s1
         | (False, s1) \<Rightarrow> set_page_status (own_status ''degraded'' (Some message)) (reject_pending message s1))"

definition gateway_frame_arrives :: "web_env \<Rightarrow> server_frame \<Rightarrow> web_source \<Rightarrow> web_source" where
  "gateway_frame_arrives ev f s = (case f of
       Ready cid beat \<Rightarrow> source_ready ev s
     | Stream_frame sid nf \<Rightarrow> numbered_arrives ev nf s
     | Status_frame sid st \<Rightarrow> status_arrives ev st s
     | Ack_frame sid rid a \<Rightarrow> snd (settle_send rid (Fulfilled None) s)
     | Reply_frame sid rid v a \<Rightarrow> snd (settle_ask rid (Fulfilled (Some v)) s)
     | Error_frame sid rid code message recoverable rej \<Rightarrow> error_arrives rid message s
     | Pong_frame v \<Rightarrow> s)"

datatype web_event =
    Socket_opens
  | Auth_resolves "json option"                   \<comment> \<open>the token\<close>
  | Auth_rejects "string option"
  | Frame_comes server_frame
  | Garbage_comes
  | Socket_closes
  | Socket_fails
  | Page_calls page_call
  | Call_goes_on
  | Snapshot_listener nat
  | Snapshot_listener_leaves nat
  | Event_listener nat "string list option"
  | Event_listener_leaves nat
  | Status_listener nat
  | Status_listener_leaves nat
  | Socket_will_throw "bool list"
  | Page_closes

definition page_calls :: "page_call \<Rightarrow> web_source \<Rightarrow> web_source" where
  "page_calls c s = s\<lparr>ws_calls := ws_calls s @ [(ws_tickets s, c)], ws_tickets := ws_tickets s + 1\<rparr>"

definition insert_once :: "'a \<Rightarrow> 'a list \<Rightarrow> 'a list" where
  "insert_once x xs = (if x \<in> set xs then xs else xs @ [x])"

definition source_step :: "web_env \<Rightarrow> web_event \<Rightarrow> web_source \<Rightarrow> web_source" where
  "source_step ev e s = (case e of
       Socket_opens \<Rightarrow> if we_auth ev then s else snd (send_up (page_hello (we_version ev) None None) s)
     | Auth_resolves token \<Rightarrow> if we_auth ev then snd (send_up (page_hello (we_version ev) None (auth_payload token)) s) else s
     | Auth_rejects why \<Rightarrow> if we_auth ev
         then (let m = (case why of None \<Rightarrow> ''Actor-Web gateway authentication failed.'' | Some t \<Rightarrow> t)
               in set_page_status (own_status ''degraded'' (Some m)) (reject_pending m s)) else s
     | Frame_comes f \<Rightarrow> gateway_frame_arrives ev f s
     | Garbage_comes \<Rightarrow> set_page_status (own_status ''degraded'' (Some ''Actor-Web gateway sent an invalid JSON frame.'')) s
     | Socket_closes \<Rightarrow> set_page_status (own_status ''disconnected'' (Some ''Actor-Web gateway disconnected.''))
         (reject_pending ''Actor-Web gateway disconnected.'' s)
     | Socket_fails \<Rightarrow> set_page_status (own_status ''degraded'' (Some ''Actor-Web gateway connection failed.''))
         (reject_pending ''Actor-Web gateway connection failed.'' s)
     | Page_calls c \<Rightarrow> page_calls c s
     | Call_goes_on \<Rightarrow> (case ws_calls s of
           [] \<Rightarrow> s | (t, c) # cs \<Rightarrow> if ws_ready s = Not_ready then s else call_continues ev t c (s\<lparr>ws_calls := cs\<rparr>))
     | Snapshot_listener l \<Rightarrow> web_log (Told_snapshot l (ws_snapshot s)) (s\<lparr>ws_snapshot_listeners := insert_once l (ws_snapshot_listeners s)\<rparr>)
     | Snapshot_listener_leaves l \<Rightarrow> s\<lparr>ws_snapshot_listeners := removeAll l (ws_snapshot_listeners s)\<rparr>
     | Event_listener l types \<Rightarrow> s\<lparr>ws_event_listeners := ws_event_listeners s @ [(l, types)]\<rparr>
     | Event_listener_leaves l \<Rightarrow> s\<lparr>ws_event_listeners := filter (\<lambda>x. fst x \<noteq> l) (ws_event_listeners s)\<rparr>
     | Status_listener l \<Rightarrow> web_log (Told_status l (ws_status s)) (s\<lparr>ws_status_listeners := insert_once l (ws_status_listeners s)\<rparr>)
     | Status_listener_leaves l \<Rightarrow> s\<lparr>ws_status_listeners := removeAll l (ws_status_listeners s)\<rparr>
     | Socket_will_throw bs \<Rightarrow> s\<lparr>ws_throws := bs\<rparr>
     | Page_closes \<Rightarrow> (web_log Socket_closed (reject_pending ''Actor-Web source closed.'' s))
         \<lparr>ws_snapshot_listeners := [], ws_event_listeners := [], ws_status_listeners := []\<rparr>)"

definition new_source :: "web_env \<Rightarrow> web_source" where
  "new_source ev = \<lparr>ws_snapshot = placeholder_snapshot (we_num ev), ws_status = own_status ''replaying'' (Some ''Connecting to Actor-Web gateway''),
     ws_requests = 0, ws_last = 0, ws_resyncing = False, ws_ready = Not_ready, ws_sends = [], ws_order = [], ws_asks = [], ws_calls = [],
     ws_tickets = 0, ws_snapshot_listeners = [], ws_event_listeners = [], ws_status_listeners = [], ws_throws = [], ws_log = []\<rparr>"

definition source_run :: "web_env \<Rightarrow> web_event list \<Rightarrow> web_source" where
  "source_run ev es = fold (source_step ev) es (new_source ev)"
end
