(* ===== verification/Web_Calls.thy ===== *)
theory Web_Calls
  imports Web_Source
begin

text \<open>
  The promises of a page: every call of \<open>send\<close> or \<open>ask\<close> is in one place at any time, waiting for the source to be ready, sent, or
  settled, whatever the gateway answers and whenever the socket fails or closes.
\<close>

section \<open>Where a call is\<close>

fun settled_calls :: "web_action list \<Rightarrow> nat list" where
  "settled_calls [] = []"
| "settled_calls (Settled t r # older) = t # settled_calls older"
| "settled_calls (a # older) = settled_calls older"

definition pending_calls :: "web_source \<Rightarrow> nat list" where
  "pending_calls s = map fst (ws_calls s) @ map snd (ws_sends s) @ map snd (ws_asks s)"

definition places :: "web_source \<Rightarrow> nat \<Rightarrow> nat" where
  "places s t = count_list (settled_calls (ws_log s)) t + count_list (pending_calls s) t"

definition calls_ok :: "web_source \<Rightarrow> bool" where
  "calls_ok s \<longleftrightarrow> ws_order s = omap_keys (ws_sends s) \<and> distinct (omap_keys (ws_sends s)) \<and> distinct (omap_keys (ws_asks s))
     \<and> set (omap_keys (ws_sends s)) \<subseteq> request_id False ` {1 ..< ws_requests s + 1}
     \<and> set (omap_keys (ws_asks s)) \<subseteq> request_id True ` {1 ..< ws_requests s + 1}
     \<and> (\<forall>t. places s t = (if t < ws_tickets s then 1 else 0))"

text \<open>What the calls depend on.\<close>

definition desk_view :: "web_source \<Rightarrow> (string, nat) omap \<times> string list \<times> (string, nat) omap \<times> nat \<times> nat \<times> nat list \<times> nat list" where
  "desk_view s = (ws_sends s, ws_order s, ws_asks s, ws_requests s, ws_tickets s, map fst (ws_calls s), settled_calls (ws_log s))"

lemma calls_same: "desk_view s1 = desk_view s \<Longrightarrow> calls_ok s \<Longrightarrow> calls_ok s1"
  by (auto simp: desk_view_def calls_ok_def places_def pending_calls_def)

fun settles_call :: "web_action \<Rightarrow> bool" where
  "settles_call (Settled t r) \<longleftrightarrow> True"
| "settles_call a \<longleftrightarrow> False"

lemma view_log [simp]: "\<not> settles_call a \<Longrightarrow> desk_view (web_log a s) = desk_view s"
  by (cases a) (simp_all add: desk_view_def web_log_def)

lemma view_updates [simp]:
  "desk_view (s\<lparr>ws_snapshot := v1\<rparr>) = desk_view s" "desk_view (s\<lparr>ws_status := v2\<rparr>) = desk_view s" "desk_view (s\<lparr>ws_last := n\<rparr>) = desk_view s"
  "desk_view (s\<lparr>ws_resyncing := b\<rparr>) = desk_view s" "desk_view (s\<lparr>ws_ready := rd\<rparr>) = desk_view s" "desk_view (s\<lparr>ws_throws := bs\<rparr>) = desk_view s"
  "desk_view (s\<lparr>ws_snapshot_listeners := ls\<rparr>) = desk_view s" "desk_view (s\<lparr>ws_event_listeners := es\<rparr>) = desk_view s"
  "desk_view (s\<lparr>ws_status_listeners := ls\<rparr>) = desk_view s"
  by (simp_all add: desk_view_def)

lemma view_fold: "(\<And>x s. desk_view (f x s) = desk_view s) \<Longrightarrow> desk_view (fold f xs s) = desk_view s"
  by (induction xs arbitrary: s) simp_all

lemma view_told [simp]: "desk_view (tell_snapshot s) = desk_view s" "desk_view (tell_status s) = desk_view s" "desk_view (tell_event e s) = desk_view s"
  by (auto simp: tell_snapshot_def tell_status_def tell_event_def intro!: view_fold)

lemma view_status [simp]: "desk_view (set_page_status v s) = desk_view s" by (simp add: set_page_status_def)

lemma view_send [simp]: "desk_view (snd (send_up f s)) = desk_view s" by (simp add: send_up_def Let_def)

lemma view_ready [simp]: "desk_view (now_ready s) = desk_view s" by (simp add: now_ready_def)

lemma view_accept [simp]: "desk_view (snd (accept_sequence ev f s)) = desk_view s"
  by (simp add: accept_sequence_def Let_def take_frame_def)

lemma view_numbered [simp]: "desk_view (numbered_arrives ev f s) = desk_view s"
proof -
  have "desk_view s1 = desk_view s" if "accept_sequence ev f s = (b, s1)" for b s1 using view_accept [of ev f s] that by simp
  then show ?thesis by (auto simp: numbered_arrives_def split: payload.split prod.split bool.split)
qed

lemma view_status_arrives [simp]: "desk_view (status_arrives ev st s) = desk_view s" by (simp add: status_arrives_def Let_def)

lemma view_source_ready [simp]: "desk_view (source_ready ev s) = desk_view s" by (simp add: source_ready_def)

section \<open>Taking and settling\<close>

lemma count_delete: "distinct (omap_keys m) \<Longrightarrow> omap_get m r = Some t
    \<Longrightarrow> count_list (map snd m) u = count_list (map snd (omap_delete r m)) u + (if u = t then 1 else 0)"
proof (induction m)
  case (Cons x m)
  obtain k v where x: "x = (k, v)" by (cases x)
  show ?case
  proof (cases "k = r")
    case True
    then have "r \<notin> set (omap_keys m)" using Cons.prems x by simp
    then have "omap_delete r m = m" by (simp add: delete_id)
    then show ?thesis using Cons.prems True x by auto
  next
    case False
    then show ?thesis using Cons x by auto
  qed
qed simp

lemma fresh_set: "r \<notin> set (omap_keys m) \<Longrightarrow> omap_set r t m = m @ [(r, t)]"
  by (induction m) auto

lemma delete_head: "distinct (omap_keys ((r, t) # m)) \<Longrightarrow> omap_delete r ((r, t) # m) = m"
  by (simp add: delete_id)

lemma keys_delete: "distinct (omap_keys m) \<Longrightarrow> omap_keys (omap_delete r m) = remove1 r (omap_keys m)"
proof (induction m)
  case (Cons x m)
  then show ?case by (cases x) (auto simp: remove1_idem delete_id)
qed simp

text \<open>A settled send or ask leaves its place for the settled ones.\<close>

lemma calls_settle_send:
  assumes c: "calls_ok s" and m: "omap_get (ws_sends s) r = Some t"
  shows "calls_ok (settle_call t why (s\<lparr>ws_sends := omap_delete r (ws_sends s), ws_order := remove1 r (ws_order s)\<rparr>))"
proof -
  have d: "distinct (omap_keys (ws_sends s))" "ws_order s = omap_keys (ws_sends s)" using c by (simp_all add: calls_ok_def)
  have "places (settle_call t why (s\<lparr>ws_sends := omap_delete r (ws_sends s), ws_order := remove1 r (ws_order s)\<rparr>)) u = places s u" for u
    using count_delete [OF d(1) m, of u] by (simp add: places_def pending_calls_def settle_call_def web_log_def)
  moreover have "set (omap_keys (omap_delete r (ws_sends s))) \<subseteq> set (omap_keys (ws_sends s))"
    unfolding keys_delete [OF d(1)] by (rule set_remove1_subset)
  ultimately show ?thesis using c d by (auto simp: calls_ok_def settle_call_def web_log_def keys_delete simp del: set_map)
qed

lemma calls_settle_ask:
  assumes c: "calls_ok s" and m: "omap_get (ws_asks s) r = Some t"
  shows "calls_ok (settle_call t why (s\<lparr>ws_asks := omap_delete r (ws_asks s)\<rparr>))"
proof -
  have d: "distinct (omap_keys (ws_asks s))" using c by (simp add: calls_ok_def)
  have "places (settle_call t why (s\<lparr>ws_asks := omap_delete r (ws_asks s)\<rparr>)) u = places s u" for u
    using count_delete [OF d m, of u] by (simp add: places_def pending_calls_def settle_call_def web_log_def)
  moreover have "set (omap_keys (omap_delete r (ws_asks s))) \<subseteq> set (omap_keys (ws_asks s))"
    unfolding keys_delete [OF d] by (rule set_remove1_subset)
  ultimately show ?thesis using c d by (auto simp: calls_ok_def settle_call_def web_log_def keys_delete simp del: set_map)
qed

lemma request_not_empty [simp]: "request_id a n \<noteq> []" by (simp add: request_id_def)

lemma request_inject [simp]: "request_id a n = request_id a m \<longleftrightarrow> n = m" by (simp add: request_id_def)

text \<open>The oldest send is the first entry.\<close>

lemma calls_oldest:
  assumes c: "calls_ok s"
  shows "oldest_send (ws_order s) (ws_sends s)
    = (case ws_sends s of [] \<Rightarrow> (None, [], []) | (r, t) # m \<Rightarrow> (Some t, remove1 r (ws_order s), omap_delete r (ws_sends s)))"
proof (cases "ws_sends s")
  case (Cons x m)
  obtain r t where x: "x = (r, t)" by (cases x)
  have "r \<in> request_id False ` {1 ..< ws_requests s + 1}" using c Cons x by (simp add: calls_ok_def)
  then have "r \<noteq> []" by auto
  moreover have "ws_order s = r # omap_keys m" using c Cons x by (simp add: calls_ok_def)
  ultimately show ?thesis using Cons x by simp
qed (use c in \<open>simp add: calls_ok_def\<close>)

lemma calls_send_settled:
  assumes c: "calls_ok s"
  shows "calls_ok (snd (settle_send rid why s))"
proof -
  have old: "calls_ok (snd (case (case oldest_send (ws_order s) (ws_sends s) of (t, rs, m) \<Rightarrow> (t, s\<lparr>ws_order := rs, ws_sends := m\<rparr>)) of
      (None, s1) \<Rightarrow> (False, s1) | (Some t, s1) \<Rightarrow> (True, settle_call t why s1)))"
  proof (cases "ws_sends s")
    case Nil
    then have "s\<lparr>ws_order := [], ws_sends := []\<rparr> = s" using c by (simp add: calls_ok_def)
    moreover have "oldest_send (ws_order s) (ws_sends s) = (None, [], [])" using calls_oldest [OF c] Nil by simp
    ultimately show ?thesis using c by (simp only: prod.case option.case snd_conv)
  next
    case (Cons x m)
    obtain r t where x: "x = (r, t)" by (cases x)
    have "s\<lparr>ws_order := remove1 r (ws_order s), ws_sends := omap_delete r (ws_sends s)\<rparr>
        = s\<lparr>ws_sends := omap_delete r (ws_sends s), ws_order := remove1 r (ws_order s)\<rparr>" by simp
    moreover have "oldest_send (ws_order s) (ws_sends s) = (Some t, remove1 r (ws_order s), omap_delete r (ws_sends s))"
      using calls_oldest [OF c] Cons x by simp
    moreover have "omap_get (ws_sends s) r = Some t" using Cons x by simp
    ultimately show ?thesis using calls_settle_send [OF c, of r t why] by (simp only: prod.case option.case snd_conv)
  qed
  show ?thesis
  proof (cases rid)
    case None
    then show ?thesis using old by (simp add: settle_send_def take_pending_send_def)
  next
    case (Some r)
    then show ?thesis using old c calls_settle_send [OF c, of r _ why]
      by (cases "omap_get (ws_sends s) r") (simp_all add: settle_send_def take_pending_send_def)
  qed
qed

lemma calls_ask_settled: "calls_ok s \<Longrightarrow> calls_ok (snd (settle_ask r why s))"
  using calls_settle_ask [of s r _ why] by (simp add: settle_ask_def split: option.split)

section \<open>Rejecting everything\<close>

lemma rejected_sends:
  assumes "distinct (omap_keys m)" "ws_sends s = m"
  shows "desk_view (fold (\<lambda>r s. case omap_get (ws_sends s) r of None \<Rightarrow> s
      | Some t \<Rightarrow> settle_call t (Rejected why) (s\<lparr>ws_sends := omap_delete r (ws_sends s)\<rparr>)) (omap_keys m) s)
    = ([], ws_order s, ws_asks s, ws_requests s, ws_tickets s, map fst (ws_calls s), rev (map snd m) @ settled_calls (ws_log s))"
  using assms
proof (induction m arbitrary: s)
  case (Cons x m)
  obtain r t where x: "x = (r, t)" by (cases x)
  let ?s = "settle_call t (Rejected why) (s\<lparr>ws_sends := m\<rparr>)"
  have "ws_sends ?s = m" by (simp add: settle_call_def web_log_def)
  then show ?case using Cons.IH [of ?s] Cons.prems x delete_head [of r t m] by (simp add: settle_call_def web_log_def)
qed (simp add: desk_view_def)

lemma rejected_asks:
  "desk_view (fold (\<lambda>(r, t). settle_call t (Rejected why)) m s) = (case desk_view s of (a, b, c, d, e, f, l) \<Rightarrow> (a, b, c, d, e, f, rev (map snd m) @ l))"
  by (induction m arbitrary: s) (auto simp: desk_view_def settle_call_def web_log_def)

lemma calls_rejected:
  assumes c: "calls_ok s"
  shows "desk_view (reject_pending why s) = ([], [], [], ws_requests s, ws_tickets s, map fst (ws_calls s),
      rev (map snd (ws_asks s)) @ rev (map snd (ws_sends s)) @ settled_calls (ws_log s))"
proof -
  define s0 where "s0 = (if ws_ready s = Not_ready then s\<lparr>ws_ready := Never_ready why\<rparr> else s)"
  have s0: "ws_sends s0 = ws_sends s" "ws_order s0 = omap_keys (ws_sends s)" "distinct (omap_keys (ws_sends s))"
    "desk_view s0 = desk_view s" using c by (simp_all add: s0_def calls_ok_def)
  define s1 where "s1 = reject_sends why s0"
  have s1: "desk_view s1 = ([], [], ws_asks s, ws_requests s, ws_tickets s, map fst (ws_calls s), rev (map snd (ws_sends s)) @ settled_calls (ws_log s))"
    using rejected_sends [of "ws_sends s" "s0\<lparr>ws_order := []\<rparr>" why] s0 by (simp add: s1_def reject_sends_def desk_view_def)
  have "ws_asks s1 = ws_asks s" using s1 by (simp add: desk_view_def)
  then have "reject_pending why s = (fold (\<lambda>(r, t). settle_call t (Rejected why)) (ws_asks s) s1)\<lparr>ws_asks := []\<rparr>"
    by (simp add: reject_pending_def Let_def s0_def [symmetric] s1_def [symmetric])
  then show ?thesis using rejected_asks [of why "ws_asks s" s1] s1 by (simp add: desk_view_def)
qed

lemma count_rev: "count_list (rev xs) t = count_list xs t" by (induction xs) simp_all

lemma calls_reject: "calls_ok s \<Longrightarrow> calls_ok (reject_pending why s)"
proof -
  assume c: "calls_ok s"
  let ?s = "reject_pending why s"
  have v: "ws_sends ?s = []" "ws_order ?s = []" "ws_asks ?s = []" "ws_tickets ?s = ws_tickets s" "map fst (ws_calls ?s) = map fst (ws_calls s)"
    "settled_calls (ws_log ?s) = rev (map snd (ws_asks s)) @ rev (map snd (ws_sends s)) @ settled_calls (ws_log s)"
    using calls_rejected [OF c, of why] by (simp_all add: desk_view_def)
  have "places ?s t = places s t" for t using v by (simp add: places_def pending_calls_def count_rev)
  then show "calls_ok ?s" using v c by (simp add: calls_ok_def)
qed

section \<open>Every handler\<close>

lemma calls_error: "calls_ok s \<Longrightarrow> calls_ok (error_arrives rid m s)"
proof -
  assume c: "calls_ok s"
  have sd: "calls_ok s1" if "settle_send r why s = (b, s1)" "calls_ok s" for r why b s s1 using calls_send_settled [OF that(2), of r why] that(1) by simp
  have ak: "calls_ok s1" if "settle_ask r why s = (b, s1)" for r why b s1 using calls_ask_settled [OF c, of r why] that by simp
  have fin: "calls_ok (set_page_status v (reject_pending m s1))" if "calls_ok s1" for v s1
    by (rule calls_same [OF _ calls_reject [OF that, of m]]) simp
  show ?thesis unfolding error_arrives_def Let_def
    using c by (auto split: option.split prod.split bool.split dest!: sd ak intro!: fin intro: sd)
qed

lemma calls_continue:
  assumes c: "calls_ok s" and q: "ws_calls s = (t, c1) # cs" "ws_ready s \<noteq> Not_ready"
  shows "calls_ok (call_continues ev t c1 (s\<lparr>ws_calls := cs\<rparr>))"
proof (cases "ws_ready s")
  case (Never_ready why)
  have "places (settle_call t (Rejected why) (s\<lparr>ws_calls := cs\<rparr>)) u = places s u" for u
    using q(1) by (simp add: settle_call_def web_log_def places_def pending_calls_def)
  then show ?thesis using c Never_ready by (simp add: call_continues_def calls_ok_def settle_call_def web_log_def)
next
  case Is_ready
  define n where "n = ws_requests s + 1"
  define rid where "rid = request_id (pc_asks c1) n"
  define s1 where "s1 = (let s0 = s\<lparr>ws_calls := cs\<rparr> in if pc_asks c1 then s0\<lparr>ws_requests := n, ws_asks := omap_set rid t (ws_asks s)\<rparr>
                    else s0\<lparr>ws_requests := n, ws_sends := omap_set rid t (ws_sends s), ws_order := ws_order s @ [rid]\<rparr>)"
  have "request_id (pc_asks c1) n \<notin> request_id (pc_asks c1) ` {1 ..< ws_requests s + 1}" by (auto simp: n_def)
  then have new: "pc_asks c1 \<Longrightarrow> rid \<notin> set (omap_keys (ws_asks s))" "\<not> pc_asks c1 \<Longrightarrow> rid \<notin> set (omap_keys (ws_sends s))"
    using c by (auto simp: calls_ok_def rid_def simp del: set_map)
  have ids: "request_id b ` {1 ..< ws_requests s + 1} \<subseteq> request_id b ` {1 ..< n + 1}" "request_id b n \<in> request_id b ` {1 ..< n + 1}" for b
    by (auto simp: n_def)
  have keys: "set (omap_keys (ws_sends s)) \<subseteq> request_id False ` {1 ..< n + 1}" "set (omap_keys (ws_asks s)) \<subseteq> request_id True ` {1 ..< n + 1}"
    using c ids(1) [of False] ids(1) [of True] by (simp_all only: calls_ok_def) (meson subset_trans)+
  have s1: "calls_ok s1"
  proof (cases "pc_asks c1")
    case True
    then have "places s1 u = places s u" for u using q(1) new by (simp add: s1_def places_def pending_calls_def fresh_set)
    then show ?thesis using c True new keys ids(2) [of True] by (simp add: s1_def calls_ok_def fresh_set rid_def del: set_map)
  next
    case False
    then have "places s1 u = places s u" for u using q(1) new by (simp add: s1_def places_def pending_calls_def fresh_set)
    then show ?thesis using c False new keys ids(2) [of False] by (simp add: s1_def calls_ok_def fresh_set rid_def del: set_map)
  qed
  have eq: "call_continues ev t c1 (s\<lparr>ws_calls := cs\<rparr>)
      = (case send_up (command_frame (pc_asks c1) (we_stream_id ev) rid (pc_message c1) (pc_timeout c1) (pc_metadata c1)) s1 of
          (False, s2) \<Rightarrow> s2
        | (True, s2) \<Rightarrow> snd (if pc_asks c1 then settle_ask rid (Rejected ''socket'') s2 else settle_send (Some rid) (Rejected ''socket'') s2))"
    using Is_ready by (cases "pc_asks c1") (simp_all add: call_continues_def Let_def n_def rid_def s1_def split: prod.split bool.split)
  obtain b s2 where s2: "send_up (command_frame (pc_asks c1) (we_stream_id ev) rid (pc_message c1) (pc_timeout c1) (pc_metadata c1)) s1 = (b, s2)" by fastforce
  have "calls_ok s2" using calls_same [OF _ s1, of s2] view_send [of "command_frame (pc_asks c1) (we_stream_id ev) rid (pc_message c1) (pc_timeout c1) (pc_metadata c1)" s1] s2
    by simp
  then show ?thesis by (simp add: eq s2 calls_ask_settled calls_send_settled split: bool.split)
qed (use q in simp)

lemma calls_frame: "calls_ok s \<Longrightarrow> calls_ok (gateway_frame_arrives ev f s)"
  by (cases f) (simp_all add: gateway_frame_arrives_def calls_send_settled calls_ask_settled calls_error calls_same [of _ s])

lemma calls_step:
  assumes c: "calls_ok s"
  shows "calls_ok (source_step ev e s)"
proof -
  have v: "calls_ok s1" if "desk_view s1 = desk_view s" for s1 by (rule calls_same [OF that c])
  have r: "calls_ok (set_page_status v (reject_pending m s))" for v m by (rule calls_same [OF _ calls_reject [OF c, of m]]) simp
  have p: "calls_ok ((web_log Socket_closed (reject_pending m s))\<lparr>ws_snapshot_listeners := [], ws_event_listeners := [], ws_status_listeners := []\<rparr>)" for m
    by (rule calls_same [OF _ calls_reject [OF c, of m]]) simp
  have n: "calls_ok (page_calls c1 s)" for c1
    using c by (auto simp: calls_ok_def page_calls_def places_def pending_calls_def)
  have g: "calls_ok (case ws_calls s of [] \<Rightarrow> s | (t, c1) # cs \<Rightarrow> if ws_ready s = Not_ready then s else call_continues ev t c1 (s\<lparr>ws_calls := cs\<rparr>))"
    using c calls_continue [OF c] by (auto split: list.split)
  show ?thesis using c by (cases e) (simp_all add: source_step_def calls_frame v r p n g Let_def)
qed

lemma calls_reached: "calls_ok (source_run ev es)"
proof -
  have "calls_ok (new_source ev)" by (simp add: new_source_def calls_ok_def places_def pending_calls_def)
  then have "calls_ok (fold (source_step ev) es (new_source ev))"
    using fold_invariant [of es "\<lambda>_. True" calls_ok "new_source ev" "source_step ev"] calls_step by simp
  then show ?thesis by (simp add: source_run_def)
qed

text \<open>
  C11. Every call of a page is settled at most once and never lost: whatever the gateway sends, in any order, and however sends, closings
  and failures of the socket interleave, each call made so far is in exactly one place, settled, waiting for the source to be ready, or sent and
  unanswered. When the socket closes or fails, or the page closes the source, every sent and unanswered call is settled.
\<close>

theorem calls_settled_once:
  "let s = source_run ev es in
     (\<forall>t. count_list (settled_calls (ws_log s)) t + count_list (pending_calls s) t = (if t < ws_tickets s then 1 else 0))
     \<and> list_all (\<lambda>e. let s1 = source_step ev e s in
           ws_sends s1 = [] \<and> ws_asks s1 = [] \<and> ws_order s1 = [] \<and> pending_calls s1 = map fst (ws_calls s)) [Socket_closes, Socket_fails, Page_closes]"
proof -
  let ?s = "source_run ev es"
  have c: "calls_ok ?s" by (rule calls_reached)
  have "desk_view (set_page_status v (reject_pending m ?s)) = desk_view (reject_pending m ?s)" for v m by simp
  moreover have "desk_view ((web_log Socket_closed (reject_pending m ?s))\<lparr>ws_snapshot_listeners := [], ws_event_listeners := [], ws_status_listeners := []\<rparr>)
      = desk_view (reject_pending m ?s)" for m by simp
  ultimately have "ws_sends (source_step ev e ?s) = [] \<and> ws_asks (source_step ev e ?s) = [] \<and> ws_order (source_step ev e ?s) = []
      \<and> map fst (ws_calls (source_step ev e ?s)) = map fst (ws_calls ?s)" if "e \<in> {Socket_closes, Socket_fails, Page_closes}" for e
    using that calls_rejected [OF c] unfolding desk_view_def source_step_def by auto
  then show ?thesis using c by (simp add: Let_def calls_ok_def places_def pending_calls_def)
qed
end
