(* ===== verification/Gateway_Link.thy ===== *)
theory Gateway_Link
  imports Web_Source
begin

text \<open>
  Gateway and page together, over a link that keeps the order: the frames of a stream that the gateway hands over never leave a gap, so the
  page takes every number once, in order, and never asks for a resynchronization.
\<close>

section \<open>Numbers without a gap\<close>

fun flows :: "nat \<Rightarrow> replay_frame list \<Rightarrow> bool" where
  "flows m [] \<longleftrightarrow> True"
| "flows m ((n, p) # fs) \<longleftrightarrow> n \<le> m + 1 \<and> flows (max m n) fs"

fun top_number :: "nat \<Rightarrow> replay_frame list \<Rightarrow> nat" where
  "top_number m [] = m"
| "top_number m ((n, p) # fs) = top_number (max m n) fs"

text \<open>The first frame of each number.\<close>

fun firsts :: "nat \<Rightarrow> replay_frame list \<Rightarrow> replay_frame list" where
  "firsts m [] = []"
| "firsts m ((n, p) # fs) = (if m < n then (n, p) # firsts n fs else firsts m fs)"

lemma flows_append: "flows m (fs @ gs) \<longleftrightarrow> flows m fs \<and> flows (top_number m fs) gs"
  by (induction m fs rule: flows.induct) simp_all

lemma top_append: "top_number m (fs @ gs) = top_number (top_number m fs) gs"
  by (induction m fs rule: flows.induct) simp_all

lemma firsts_append: "firsts m (fs @ gs) = firsts m fs @ firsts (top_number m fs) gs"
proof (induction m fs rule: flows.induct)
  case (2 m n p fs)
  then show ?case by (cases "m < n") (simp_all add: max_def split: if_splits)
qed simp

lemma firsts_numbers: "flows m fs \<Longrightarrow> map fst (firsts m fs) = [m + 1 ..< top_number m fs + 1] \<and> m \<le> top_number m fs"
proof (induction m fs rule: flows.induct)
  case (2 m n p fs)
  then have ih: "map fst (firsts (max m n) fs) = [max m n + 1 ..< top_number (max m n) fs + 1]" "max m n \<le> top_number (max m n) fs" by simp_all
  show ?case
  proof (cases "m < n")
    case True
    then have "n = m + 1" using 2(2) by simp
    then show ?thesis using ih by (simp add: upt_rec [of "Suc m"] del: upt_Suc)
  next
    case False
    then show ?thesis using ih by (simp add: max_def)
  qed
qed simp

fun stream_frames :: "string \<Rightarrow> server_frame list \<Rightarrow> replay_frame list" where
  "stream_frames sid [] = []"
| "stream_frames sid (Stream_frame i f # fs) = (if i = sid then f # stream_frames sid fs else stream_frames sid fs)"
| "stream_frames sid (_ # fs) = stream_frames sid fs"

lemma stream_frames_append: "stream_frames sid (fs @ gs) = stream_frames sid fs @ stream_frames sid gs"
  by (induction sid fs rule: stream_frames.induct) simp_all

section \<open>What the gateway hands over\<close>

abbreviation told_frames :: "gateway_conn \<Rightarrow> string \<Rightarrow> replay_frame list" where
  "told_frames s sid \<equiv> stream_frames sid (handed (cn_log s))"

text \<open>No stream object of the connection began with restored frames.\<close>

fun begins_fresh :: "gateway_action \<Rightarrow> bool" where
  "begins_fresh (Opened k fs) \<longleftrightarrow> fs = []"
| "begins_fresh a \<longleftrightarrow> True"

definition tape_told :: "gateway_conn \<Rightarrow> gateway_stream \<Rightarrow> bool" where
  "tape_told s x \<longleftrightarrow> gs_sequence x \<le> top_number 0 (told_frames s (gs_id x)) \<and> list_all (\<lambda>f. fst f \<le> gs_sequence x) (gs_replay x)"

definition link_ok :: "gateway_conn \<Rightarrow> bool" where
  "link_ok s \<longleftrightarrow> (list_all begins_fresh (cn_log s) \<longrightarrow>
     (\<forall>sid. flows 0 (told_frames s sid)) \<and> (\<not> cn_terminated s \<longrightarrow> list_all (tape_told s) (cn_objects s)))"

text \<open>What of a connection this speaks of.\<close>

definition link_view :: "gateway_conn \<Rightarrow> (string \<times> nat \<times> replay_frame list) list \<times> server_frame list \<times> bool \<times> bool" where
  "link_view s = (map (\<lambda>x. (gs_id x, gs_sequence x, gs_replay x)) (cn_objects s), handed (cn_log s), cn_terminated s, list_all begins_fresh (cn_log s))"

lemma link_same: "link_view s1 = link_view s \<Longrightarrow> link_ok s \<Longrightarrow> link_ok s1"
proof -
  assume v: "link_view s1 = link_view s" and l: "link_ok s"
  have "list_all (tape_told t) (cn_objects t) = list_all (\<lambda>(i, n, fs). n \<le> top_number 0 (stream_frames i (handed (cn_log t))) \<and> list_all (\<lambda>f. fst f \<le> n) fs)
      (map (\<lambda>x. (gs_id x, gs_sequence x, gs_replay x)) (cn_objects t))" for t
    by (simp add: list_all_iff tape_told_def)
  then show ?thesis using v l by (simp add: link_ok_def link_view_def)
qed

lemma link_updates [simp]:
  "link_view (s\<lparr>cn_greeted := b\<rparr>) = link_view s" "link_view (s\<lparr>cn_session := t\<rparr>) = link_view s" "link_view (s\<lparr>cn_auth := au\<rparr>) = link_view s"
  "link_view (s\<lparr>cn_generations := gn\<rparr>) = link_view s" "link_view (s\<lparr>cn_pending := vs\<rparr>) = link_view s" "link_view (s\<lparr>cn_phase := ph\<rparr>) = link_view s"
  "link_view (s\<lparr>cn_idle := b\<rparr>) = link_view s" "link_view (s\<lparr>cn_attempts := n\<rparr>) = link_view s" "link_view (s\<lparr>cn_streams := m\<rparr>) = link_view s"
  "link_view (s\<lparr>cn_next_outcome := n\<rparr>) = link_view s" "link_view (s\<lparr>cn_failures := n\<rparr>) = link_view s" "link_view (s\<lparr>cn_outcomes := om\<rparr>) = link_view s"
  "link_view (s\<lparr>cn_open_sends := ns\<rparr>) = link_view s" "link_view (s\<lparr>cn_throws := bs\<rparr>) = link_view s" "link_view (s\<lparr>cn_views := vw\<rparr>) = link_view s"
  by (simp_all add: link_view_def)

fun linked :: "gateway_action \<Rightarrow> bool" where
  "linked (Handed f) \<longleftrightarrow> True"
| "linked (Opened k fs) \<longleftrightarrow> True"
| "linked a \<longleftrightarrow> False"

lemma link_log [simp]: "\<not> linked a \<Longrightarrow> link_view (log_action a s) = link_view s"
  by (cases a) (simp_all add: link_view_def log_action_def)

lemma link_object [simp]:
  "gs_id x = gs_id (object_of s k) \<Longrightarrow> gs_sequence x = gs_sequence (object_of s k) \<Longrightarrow> gs_replay x = gs_replay (object_of s k)
     \<Longrightarrow> link_view (set_object k x s) = link_view s"
  by (cases "k < length (cn_objects s)")
    (simp_all add: link_view_def set_object_def object_of_def map_update list_update_same_conv list_update_beyond)

lemma link_quiet [simp]: "link_ok (s\<lparr>cn_phase := ph\<rparr>) = link_ok s" "link_ok (s\<lparr>cn_throws := bs\<rparr>) = link_ok s" "link_ok (s\<lparr>cn_views := vw\<rparr>) = link_ok s"
  "link_ok (s\<lparr>cn_generations := gn\<rparr>) = link_ok s" "link_ok (s\<lparr>cn_pending := vs\<rparr>) = link_ok s" "link_ok (s\<lparr>cn_idle := b\<rparr>) = link_ok s"
  "link_ok (s\<lparr>cn_streams := m\<rparr>) = link_ok s" "link_ok (s\<lparr>cn_greeted := b, cn_auth := au, cn_session := t\<rparr>) = link_ok s"
  "\<not> linked a \<Longrightarrow> link_ok (log_action a s) = link_ok s"
  using link_same by (metis link_updates link_log)+

lemma link_fold: "(\<And>x s. link_ok s \<Longrightarrow> link_ok (f x s)) \<Longrightarrow> link_ok s \<Longrightarrow> link_ok (fold f xs s)"
  by (induction xs arbitrary: s) simp_all

section \<open>Every operation keeps the link\<close>

lemma link_cleanup [simp]: "link_view (cleanup_stream sid s) = link_view s" "link_view (log_unsubscriptions k s) = link_view s"
proof -
  have f: "link_view (fold (\<lambda>c. log_action (Unsubscribed k c)) cs s) = link_view s" for k cs s by (induction cs arbitrary: s) simp_all
  show "link_view (log_unsubscriptions k s) = link_view s" by (simp add: log_unsubscriptions_def f)
  show "link_view (cleanup_stream sid s) = link_view s" by (simp add: cleanup_stream_def log_unsubscriptions_def f split: option.split)
qed

lemma link_terminated: "link_ok s \<Longrightarrow> link_ok (s\<lparr>cn_terminated := True\<rparr>)" by (simp add: link_ok_def)

lemma link_shutdown [simp]: "link_ok s \<Longrightarrow> link_ok (shutdown ev b s)"
proof -
  assume l: "link_ok s"
  have f1: "link_view (fold (\<lambda>k. log_action (Persistence_aborted k)) ks s) = link_view s" for ks s by (induction ks arbitrary: s) simp_all
  have f2: "link_view (fold cleanup_stream sids s) = link_view s" for sids s by (induction sids arbitrary: s) simp_all
  have "link_view (shutdown ev b s) = link_view (if cn_terminated s then s else s\<lparr>cn_terminated := True\<rparr>)"
    by (simp add: shutdown_def Let_def abort_persistence_def cleanup_all_def f1 f2)
  then show ?thesis by (rule link_same) (simp add: l link_terminated)
qed

lemma link_outcomes [simp]: "link_ok s \<Longrightarrow> link_ok (process_outcomes ev s)"
proof (induction ev s rule: process_outcomes.induct)
  case (1 ev s)
  have "link_ok (s\<lparr>cn_outcomes := om, cn_next_outcome := i, cn_failures := n\<rparr>)" for om i n by (rule link_same [OF _ 1(2)]) simp
  then show ?case by (subst process_outcomes.simps) (use 1 in \<open>auto simp: Let_def split: option.split\<close>)
qed

lemma link_recorded [simp]: "link_ok s \<Longrightarrow> link_ok (record_outcome ev i ok s)"
proof -
  assume l: "link_ok s"
  have "link_ok (log_action (Send_settled i ok) (s\<lparr>cn_open_sends := ns, cn_outcomes := om\<rparr>))" for ns om by (rule link_same [OF _ l]) simp
  then show ?thesis using l by (simp add: record_outcome_def)
qed

text \<open>A frame may be handed over if it is no numbered one, or its number leaves no gap.\<close>

definition fits :: "server_frame \<Rightarrow> gateway_conn \<Rightarrow> bool" where
  "fits f s \<longleftrightarrow> (case f of
       Stream_frame sid nf \<Rightarrow> list_all begins_fresh (cn_log s) \<longrightarrow> fst nf \<le> top_number 0 (told_frames s sid) + 1
     | _ \<Rightarrow> True)"

lemma top_more: "k \<le> top_number k fs"
proof (induction k fs rule: flows.induct)
  case (2 m n p fs)
  then show ?case by simp
qed simp

lemma handed_append: "handed (l @ older) = handed older @ handed l"
  by (induction l rule: handed.induct) simp_all

lemma told_more: "cn_log s1 = Handed f # cn_log s \<Longrightarrow> top_number 0 (told_frames s sid) \<le> top_number 0 (told_frames s1 sid)"
  by (simp add: stream_frames_append top_append top_more)

lemma link_handed:
  assumes l: "link_ok s" and f: "fits f s"
  shows "link_ok (log_action (Handed f) s)"
proof -
  let ?s = "log_action (Handed f) s"
  have log: "cn_log ?s = Handed f # cn_log s" by (simp add: log_action_def)
  have more: "tape_told s x \<Longrightarrow> tape_told ?s x" for x using told_more [OF log, of "gs_id x"] by (simp add: tape_told_def)
  have "flows 0 (told_frames ?s sid)" if "list_all begins_fresh (cn_log s)" "flows 0 (told_frames s sid)" for sid
  proof (cases f)
    case (Stream_frame i nf)
    then show ?thesis using f that by (cases nf; cases "i = sid") (simp_all add: log_action_def stream_frames_append flows_append fits_def)
  qed (use that in \<open>simp_all add: log_action_def stream_frames_append\<close>)
  moreover have "list_all (tape_told ?s) (cn_objects ?s)" if "list_all (tape_told s) (cn_objects s)"
    using that more by (simp add: list_all_iff log_action_def)
  moreover have "list_all begins_fresh (cn_log ?s) = list_all begins_fresh (cn_log s)" "cn_terminated ?s = cn_terminated s" by (simp_all add: log_action_def)
  ultimately show ?thesis using l unfolding link_ok_def by blast
qed

lemma link_send:
  assumes l: "link_ok s" and f: "fits f s"
  shows "link_ok (send_frame ev f s)"
proof -
  have v: "link_view (s\<lparr>cn_attempts := i, cn_open_sends := ns, cn_throws := bs\<rparr>) = link_view s" for i ns bs by simp
  have "link_ok (log_action (Handed f) (s\<lparr>cn_attempts := i, cn_open_sends := ns, cn_throws := bs\<rparr>))" for i ns bs
    by (rule link_handed [OF link_same [OF v l]]) (use f in \<open>cases f; simp add: fits_def\<close>)
  then show ?thesis using l by (simp add: send_frame_def Let_def)
qed

fun unnumbered :: "server_frame \<Rightarrow> bool" where
  "unnumbered (Stream_frame sid f) \<longleftrightarrow> False"
| "unnumbered f \<longleftrightarrow> True"

lemma link_sent [simp]: "unnumbered f \<Longrightarrow> link_ok s \<Longrightarrow> link_ok (send_frame ev f s)"
  by (rule link_send) (cases f; simp add: fits_def)+

lemma link_told [simp]:
  "link_ok s \<Longrightarrow> link_ok (send_error ev code msg r sid rid s)" "link_ok s \<Longrightarrow> link_ok (send_status ev str st s)"
  "link_ok s \<Longrightarrow> link_ok (source_status ev k v s)" "link_ok s \<Longrightarrow> link_ok (reject_ingress ev code msg kind n s)" "link_ok s \<Longrightarrow> link_ok (arm_idle ev s)"
  "link_ok s \<Longrightarrow> link_ok (frame_done s)"
  by (simp_all add: send_error_def send_status_def source_status_def reject_ingress_def arm_idle_def frame_done_def)

text \<open>A frame that gets its number is handed over at once, or never if the connection has ended.\<close>

lemma link_sequenced:
  assumes l: "link_ok s" and k: "k < length (cn_objects s)"
  shows "link_ok (send_sequenced ev k p s)"
proof -
  let ?x = "object_of s k"
  let ?n = "gs_sequence ?x + 1"
  let ?fs = "trim_replay ev (gs_replay ?x @ [(?n, p)])"
  let ?y = "?x\<lparr>gs_sequence := ?n, gs_replay := ?fs\<rparr>"
  let ?s = "if ge_storage ev then log_action (Persist_called k ?fs) (log_action (Numbered k (?n, p)) (set_object k ?y s))
      else log_action (Numbered k (?n, p)) (set_object k ?y s)"
  have eq: "send_sequenced ev k p s = send_frame ev (Stream_frame (gs_id ?x) (?n, p)) ?s" by (simp add: send_sequenced_def Let_def)
  have s: "handed (cn_log ?s) = handed (cn_log s)" "cn_terminated ?s = cn_terminated s" "list_all begins_fresh (cn_log ?s) = list_all begins_fresh (cn_log s)"
    "cn_objects ?s = (cn_objects s)[k := ?y]" by (simp_all add: log_action_def set_object_def)
  show ?thesis
  proof (cases "cn_terminated s \<or> \<not> list_all begins_fresh (cn_log s)")
    case True
    then have "link_ok ?s" using l s by (auto simp: link_ok_def)
    then show ?thesis using True s(2,3) link_send [of ?s] by (cases "cn_terminated s") (simp_all add: eq send_frame_def fits_def)
  next
    case False
    then have f: "list_all (tape_told s) (cn_objects s)" "flows 0 (told_frames s sid)" for sid using l by (simp_all add: link_ok_def)
    have x: "tape_told s ?x" using f(1) k by (simp add: list_all_length object_of_def)
    define u where "u = log_action (Handed (Stream_frame (gs_id ?x) (?n, p))) ?s"
    have u: "handed (cn_log u) = handed (cn_log s) @ [Stream_frame (gs_id ?x) (?n, p)]" "cn_terminated u = cn_terminated s"
      "list_all begins_fresh (cn_log u) = list_all begins_fresh (cn_log s)" "cn_objects u = (cn_objects s)[k := ?y]"
      using s by (simp_all add: u_def log_action_def)
    have top: "top_number 0 (told_frames s sid) \<le> top_number 0 (told_frames u sid)" for sid
      using told_more [of "log_action (Handed (Stream_frame (gs_id ?x) (?n, p))) s" "Stream_frame (gs_id ?x) (?n, p)" s sid] u(1) by (simp add: log_action_def)
    have flow: "flows 0 (told_frames u sid)" for sid 
      using f(2) [of sid] x by (cases "gs_id ?x = sid") (simp_all add: u(1) stream_frames_append flows_append tape_told_def)
    have told: "tape_told u z" if "z \<in> set (cn_objects u)" for z
    proof -
      have "z = ?y \<or> z \<in> set (cn_objects s)" using that set_update_subset_insert [of "cn_objects s" k ?y] unfolding u(4) by blast
      then show ?thesis
      proof
        assume z: "z = ?y"
        have "list_all (\<lambda>f. fst f \<le> ?n) (gs_replay ?x @ [(?n, p)])" using x by (auto simp: tape_told_def list_all_iff intro: le_SucI)
        then have "list_all (\<lambda>f. fst f \<le> ?n) ?fs" by (auto simp: trim_replay_def list_all_iff dest: in_set_dropD)
        then show ?thesis by (simp add: z tape_told_def u(1) stream_frames_append top_append)
      next
        assume "z \<in> set (cn_objects s)"
        then have "tape_told s z" using f(1) by (simp add: list_all_iff)
        then show ?thesis using top [of "gs_id z"] by (simp add: tape_told_def)
      qed
    qed
    have "link_ok u" using flow told by (simp add: link_ok_def list_all_iff)
    then have v: "link_ok u1" if "link_view u1 = link_view u" for u1 using that by (rule link_same [rotated])
    have "link_view (log_action (Handed f) (?s\<lparr>cn_attempts := i, cn_open_sends := ns, cn_throws := bs\<rparr>)) = link_view (log_action (Handed f) ?s)" for f i ns bs
      by (simp add: link_view_def log_action_def)
    then have "link_ok (log_action (Handed (Stream_frame (gs_id ?x) (?n, p))) (?s\<lparr>cn_attempts := i, cn_open_sends := ns, cn_throws := bs\<rparr>))" for i ns bs
      by (intro v) (simp add: u_def)
    then show ?thesis using False s(2) unfolding eq send_frame_def Let_def by (simp del: if_image_distrib)
  qed
qed

lemma link_shows: "link_ok s \<Longrightarrow> k < count_objects s \<Longrightarrow> link_ok (source_shows ev k c p s)"
proof -
  assume l: "link_ok s" and k: "k < count_objects s"
  have "link_ok (set_object k ((object_of s k)\<lparr>gs_trace := Some p\<rparr>) s)" by (rule link_same [OF _ l]) simp
  then show ?thesis using l k by (simp add: source_shows_def link_sequenced count_cards split: subscription_kind.split)
qed

lemma link_shown: "link_ok s \<Longrightarrow> k < count_objects s \<Longrightarrow> link_ok (fold (source_shows ev k c) ps s)"
  by (induction ps arbitrary: s) (simp_all add: link_shows)

lemma link_subscribe:
  assumes l: "link_ok s" and k: "k < count_objects s"
  shows "link_ok (subscribe_kind ev rg k c s)"
proof -
  have "link_ok (set_object k ((object_of s k)\<lparr>gs_trace := t\<rparr>) s)" for t by (rule link_same [OF _ l]) simp
  then have s1: "link_ok (if c = Sub_status then fold (source_status ev k) (rg_statuses rg) s0 else fold (source_shows ev k c) (rg_shown rg c) s0)"
    if "s0 = (if c = Sub_trace then set_object k ((object_of s k)\<lparr>gs_trace := rg_latest rg\<rparr>) s else s)" for s0
    using l k by (simp add: that link_fold link_shown)
  have v: "link_ok (log_action (Subscribed k c) (set_object k ((object_of s1 k)\<lparr>gs_subscribed := cs\<rparr>) s1))" if "link_ok s1" for s1 cs
    by (rule link_same [OF _ that]) simp
  show ?thesis unfolding subscribe_kind_def Let_def by (rule v) (rule s1, simp)
qed

lemma link_register: "link_ok s \<Longrightarrow> k < count_objects s \<Longrightarrow> link_ok (snd (register_kinds ev rg k cs s))"
proof (induction ev rg k cs s rule: register_kinds.induct)
  case (2 ev rg k c cs s)
  then show ?case using link_subscribe [OF 2(3,4), of ev rg c] subscribe_cards [OF 2(4), of ev rg c] by (auto split: option.split)
qed simp

lemma link_open:
  assumes l: "link_ok s" and x: "gs_sequence x = last_number (gs_replay x)"
  shows "link_ok (open_object x s)"
proof (cases "list_all begins_fresh (cn_log s) \<and> gs_replay x = []")
  case True
  then have f: "flows 0 (told_frames s sid)" "\<not> cn_terminated s \<Longrightarrow> list_all (tape_told s) (cn_objects s)" for sid using l by (simp_all add: link_ok_def)
  have "tape_told (open_object x s) z" if "tape_told s z" for z using that by (simp add: tape_told_def open_object_def log_action_def)
  then have "list_all (tape_told (open_object x s)) (cn_objects s)" if "\<not> cn_terminated s" using f(2) [OF that] by (simp add: list_all_iff)
  moreover have "tape_told (open_object x s) x" using x True by (simp add: tape_told_def last_number_def)
  moreover have "told_frames (open_object x s) sid = told_frames s sid" "cn_terminated (open_object x s) = cn_terminated s"
    "cn_objects (open_object x s) = cn_objects s @ [x]" for sid by (simp_all add: open_object_def log_action_def)
  ultimately show ?thesis using f(1) by (simp add: link_ok_def)
qed (auto simp: link_ok_def open_object_def log_action_def)

lemma link_detach: "link_ok s \<Longrightarrow> link_ok (detach_object k s)"
  by (rule link_same [of _ s]) (simp_all add: detach_object_def)

lemma link_attach:
  assumes l: "link_ok s"
  shows "link_ok (attach_stream ev sid scope mode g src restored rg s)"
proof -
  define k where "k = length (cn_objects s)"
  define x where "x = new_stream ev sid scope mode src (if restored_match restored src then restored else []) s"
  obtain t s1 where reg: "register_kinds ev rg k (kinds_of mode src) (open_object x s) = (t, s1)" by fastforce
  have "link_ok (open_object x s)" by (rule link_open [OF l]) (simp add: x_def new_stream_def)
  moreover have "k < count_objects (open_object x s)" by (simp add: k_def open_object_def cards_def log_action_def)
  ultimately have s1: "link_ok s1" using link_register [of "open_object x s" k ev rg "kinds_of mode src"] reg by simp
  have a: "link_ok (set_object k ((object_of s1 k)\<lparr>gs_attached := True\<rparr>) s1)" by (rule link_same [OF _ s1]) simp
  show ?thesis
    by (rule attach_outcome [of ev rg s mode src sid scope restored t s1 g, OF reg [unfolded k_def x_def]])
      (simp_all add: l s1 a link_detach k_def [symmetric])
qed

text \<open>Sending only adds to the log.\<close>

definition log_grows :: "gateway_conn \<Rightarrow> gateway_conn \<Rightarrow> bool" where
  "log_grows s s1 \<longleftrightarrow> (\<exists>l. cn_log s1 = l @ cn_log s)"

lemma log_grows_same: "cn_log s1 = cn_log s \<Longrightarrow> log_grows s s1" by (simp add: log_grows_def)

lemma grows_trans: "log_grows s s1 \<Longrightarrow> log_grows s1 s2 \<Longrightarrow> log_grows s s2" by (auto simp: log_grows_def)

lemma grows_log: "log_grows s s1 \<Longrightarrow> log_grows s (log_action a s1)" by (auto simp: log_grows_def log_action_def)

lemma grows_fold: "(\<And>x s. log_grows s (f x s)) \<Longrightarrow> log_grows s (fold f xs s)"
  by (induction xs arbitrary: s) (auto intro: log_grows_same grows_trans)

lemma grows_cleanup: "log_grows s (cleanup_stream sid s)"
  by (auto simp: cleanup_stream_def log_unsubscriptions_def unsubscriptions_log log_grows_def set_object_def split: option.split)

lemma grows_shutdown: "log_grows s (shutdown ev b s)"
proof -
  have c: "log_grows s (cleanup_all s1)" if "cn_log s1 = cn_log s" for s1
    unfolding cleanup_all_def by (rule grows_trans [OF _ grows_fold [OF grows_cleanup]]) (simp add: log_grows_def that)
  have a: "log_grows s1 (abort_persistence ev ks s1)" for ks s1
    unfolding abort_persistence_def by (auto intro: grows_fold grows_log log_grows_same)
  show ?thesis by (auto simp: shutdown_def Let_def intro!: grows_log intro: log_grows_same grows_trans [OF c a])
qed

lemma grows_outcomes: "log_grows s (process_outcomes ev s)"
proof (induction ev s rule: process_outcomes.induct)
  case (1 ev s)
  show ?case
  proof (cases "cn_terminated s \<or> omap_get (cn_outcomes s) (cn_next_outcome s) = None")
    case True
    then show ?thesis by (subst process_outcomes.simps) (auto intro: log_grows_same)
  next
    case False
    then obtain ok where ok: "omap_get (cn_outcomes s) (cn_next_outcome s) = Some ok" by auto
    define s1 where "s1 = s\<lparr>cn_outcomes := omap_delete (cn_next_outcome s) (cn_outcomes s), cn_next_outcome := cn_next_outcome s + 1,
                  cn_failures := (if ok then 0 else cn_failures s + 1)\<rparr>"
    have "process_outcomes ev s = process_outcomes ev (if \<not> ok \<and> 3 \<le> cn_failures s1 then shutdown ev True s1 else s1)"
      by (subst process_outcomes.simps) (use False ok in \<open>simp add: s1_def Let_def\<close>)
    moreover have "log_grows (if \<not> ok \<and> 3 \<le> cn_failures s1 then shutdown ev True s1 else s1)
        (process_outcomes ev (if \<not> ok \<and> 3 \<le> cn_failures s1 then shutdown ev True s1 else s1))"
      unfolding s1_def by (rule 1 [OF _ ok refl]) (use False in simp)
    moreover have "log_grows s s1" by (simp add: log_grows_def s1_def)
    ultimately show ?thesis using grows_shutdown [of s1 ev True] by (auto intro: grows_trans split: if_splits)
  qed
qed

lemma grows_send: "log_grows s (send_frame ev f s)"
proof -
  have r: "log_grows s1 (record_outcome ev i ok s1)" for s1 i ok
  proof -
    have "log_grows s1 (log_action (Send_settled i ok) (s1\<lparr>cn_open_sends := ns, cn_outcomes := om\<rparr>))" for ns om by (simp add: log_grows_def log_action_def)
    then show ?thesis unfolding record_outcome_def by (auto intro: log_grows_same grows_trans [OF _ grows_outcomes])
  qed
  have "log_grows s (log_action (Handed f) (s\<lparr>cn_attempts := i, cn_open_sends := ns, cn_throws := bs\<rparr>))" for i ns bs by (simp add: log_grows_def log_action_def)
  then show ?thesis by (auto simp: send_frame_def Let_def intro: log_grows_same grows_trans [OF _ r])
qed

lemma link_replayed:
  assumes "link_ok s" "list_all begins_fresh (cn_log s) \<Longrightarrow> list_all (\<lambda>f. fst f \<le> top_number 0 (told_frames s sid)) fs"
  shows "link_ok (fold (\<lambda>f. send_frame ev (Stream_frame sid f)) fs s)"
proof -
  have "link_ok (fold (\<lambda>f. send_frame ev (Stream_frame sid f)) gs s1)"
    if "link_ok s1" "list_all begins_fresh (cn_log s1) \<Longrightarrow> list_all (\<lambda>f. fst f \<le> top_number 0 (told_frames s1 sid)) gs" for gs s1
    using that
  proof (induction gs arbitrary: s1)
    case (Cons g gs)
    have f: "fits (Stream_frame sid g) s1" using Cons.prems(2) by (auto simp: fits_def)
    let ?s = "send_frame ev (Stream_frame sid g) s1"
    obtain l where l: "cn_log ?s = l @ cn_log s1" using grows_send [of s1 ev "Stream_frame sid g"] by (auto simp: log_grows_def)
    have "list_all (\<lambda>f. fst f \<le> top_number 0 (told_frames ?s sid)) gs" if "list_all begins_fresh (cn_log ?s)"
    proof -
      have "list_all begins_fresh (cn_log s1)" using that l by simp
      then have "list_all (\<lambda>f. fst f \<le> top_number 0 (told_frames s1 sid)) gs" using Cons.prems(2) by simp
      moreover have "top_number 0 (told_frames s1 sid) \<le> top_number 0 (told_frames ?s sid)"
        by (simp add: l handed_append stream_frames_append top_append top_more)
      ultimately show ?thesis by (auto simp: list_all_iff intro: order_trans)
    qed
    then show ?case using Cons.IH [of ?s] link_send [OF Cons.prems(1) f] by simp
  qed simp
  then show ?thesis using assms by blast
qed

text \<open>Sending leaves the buffers of the stream objects.\<close>

lemma replay_sent: "gs_replay (object_of (send_status ev sid st s) k) = gs_replay (object_of s k)"
proof -
  have o': "gs_replay (object_of (set_object j ((object_of s j)\<lparr>gs_accepts := b\<rparr>) s) k) = gs_replay (object_of s k)" for j b s
    by (cases "j < length (cn_objects s)") (simp_all add: object_of_def set_object_def nth_list_update list_update_beyond)
  have l: "object_of (log_action a s) k = object_of s k" for a s by (simp add: object_of_def log_action_def)
  have u: "object_of (fold (\<lambda>c. log_action (Unsubscribed j c)) cs s) k = object_of s k" for j cs s by (simp add: object_of_def unsubscriptions_log)
  have c: "gs_replay (object_of (cleanup_stream i s) k) = gs_replay (object_of s k)" for i s
  proof (cases "omap_get (cn_streams s) i")
    case (Some j)
    have "object_of ((set_object j ((object_of s j)\<lparr>gs_accepts := False\<rparr>) s)\<lparr>cn_streams := m\<rparr>) k = object_of (set_object j ((object_of s j)\<lparr>gs_accepts := False\<rparr>) s) k" for m
      by (simp add: object_of_def)
    then show ?thesis using o' by (simp add: cleanup_stream_def log_unsubscriptions_def Some u)
  qed (simp add: cleanup_stream_def)
  have cs: "gs_replay (object_of (fold cleanup_stream is s) k) = gs_replay (object_of s k)" for "is" s by (induction "is" arbitrary: s) (simp_all add: c)
  have ps: "object_of (fold (\<lambda>k. log_action (Persistence_aborted k)) ks s) k = object_of s k" for ks s by (induction ks arbitrary: s) (simp_all add: l)
  have sh: "gs_replay (object_of (shutdown ev b s) k) = gs_replay (object_of s k)" for ev b s
    using cs by (simp add: shutdown_def Let_def abort_persistence_def cleanup_all_def l ps) (simp add: object_of_def)
  have po: "gs_replay (object_of (process_outcomes ev s) k) = gs_replay (object_of s k)" for ev s
  proof (induction ev s rule: process_outcomes.induct)
    case (1 ev s)
    show ?case
    proof (cases "cn_terminated s \<or> omap_get (cn_outcomes s) (cn_next_outcome s) = None")
      case True
      then show ?thesis by (subst process_outcomes.simps) auto
    next
      case False
      then obtain ok where ok: "omap_get (cn_outcomes s) (cn_next_outcome s) = Some ok" by auto
      define s1 where "s1 = s\<lparr>cn_outcomes := omap_delete (cn_next_outcome s) (cn_outcomes s), cn_next_outcome := cn_next_outcome s + 1,
                    cn_failures := (if ok then 0 else cn_failures s + 1)\<rparr>"
      have "process_outcomes ev s = process_outcomes ev (if \<not> ok \<and> 3 \<le> cn_failures s1 then shutdown ev True s1 else s1)"
        by (subst process_outcomes.simps) (use False ok in \<open>simp add: s1_def Let_def\<close>)
      moreover have "gs_replay (object_of (process_outcomes ev (if \<not> ok \<and> 3 \<le> cn_failures s1 then shutdown ev True s1 else s1)) k)
          = gs_replay (object_of (if \<not> ok \<and> 3 \<le> cn_failures s1 then shutdown ev True s1 else s1) k)"
        unfolding s1_def by (rule 1 [OF _ ok refl]) (use False in simp)
      moreover have "object_of s1 k = object_of s k" by (simp add: object_of_def s1_def)
      ultimately show ?thesis using sh [of ev True s1] by (cases "\<not> ok \<and> 3 \<le> cn_failures s1") simp_all
    qed
  qed
  have ob: "object_of (s\<lparr>cn_open_sends := ns, cn_outcomes := om\<rparr>) k = object_of s k" "object_of (s\<lparr>cn_attempts := i, cn_open_sends := ns, cn_throws := bs\<rparr>) k = object_of s k"
    for s ns om i bs by (simp_all add: object_of_def)
  show ?thesis by (simp add: send_status_def send_frame_def record_outcome_def Let_def po l ob)
qed

lemma link_resync:
  assumes l: "link_ok s" and b: "books_ok ev None s" and t: "ended s"
  shows "link_ok (resync_stream ev sid from s)"
proof (cases "omap_get (cn_streams s) sid")
  case (Some k)
  have k: "k < length (cn_objects s)" "gs_id (object_of s k) = sid"
    using balancedD(2) [OF books_balanced [OF b] Some] by (auto simp: page_of_def object_of_def)
  let ?s = "send_status ev sid Replaying_status s"
  have live: "\<not> cn_terminated s" using t Some by (auto simp: ended_def vacant_def)
  have s1: "link_ok ?s" "cards ?s = cards s" using l by simp_all
  have len: "k < length (cn_objects ?s)" using k(1) s1(2) by (simp add: count_cards)
  have q: "link_ok (send_sequenced ev k p ?s)" for p by (rule link_sequenced [OF s1(1) len])
  have f: "link_ok (fold (\<lambda>f. send_frame ev (Stream_frame sid f)) fs ?s)" if "replay_answer n (object_of ?s k) = Some fs" for n fs
  proof (rule link_replayed [OF s1(1)])
    assume fresh: "list_all begins_fresh (cn_log ?s)"
    have told: "cn_terminated ?s \<or> tape_told ?s (object_of ?s k)" using s1(1) fresh len by (auto simp: link_ok_def list_all_length object_of_def)
    have id: "gs_id (object_of ?s k) = sid" using k card_nth [of k ?s] card_nth [of k s] s1(2) by (simp add: count_cards card_of_def)
    have sub: "set fs \<subseteq> set (gs_replay (object_of ?s k))" using that by (auto simp: replay_answer_def Let_def split: option.splits if_splits)
    show "list_all (\<lambda>f. fst f \<le> top_number 0 (told_frames ?s sid)) fs"
    proof (cases "cn_terminated ?s")
      case False
      then show ?thesis using told sub id by (auto simp: tape_told_def list_all_iff intro: order_trans)
    next
      case True
      have r: "gs_replay (object_of ?s k) = gs_replay (object_of s k)" by (rule replay_sent)
      have "list_all begins_fresh (cn_log s)" using fresh grows_send [of s ev "Status_frame sid Replaying_status"] by (auto simp: log_grows_def send_status_def)
      then have "tape_told s (object_of s k)" using l live k(1) by (auto simp: link_ok_def list_all_length object_of_def)
      moreover have "top_number 0 (told_frames s sid) \<le> top_number 0 (told_frames ?s sid)"
        using grows_send [of s ev "Status_frame sid Replaying_status"]
        by (auto simp: log_grows_def send_status_def handed_append stream_frames_append top_append top_more)
      ultimately have le: "list_all (\<lambda>f. fst f \<le> gs_sequence (object_of s k)) (gs_replay (object_of s k))"
        "gs_sequence (object_of s k) \<le> top_number 0 (told_frames ?s sid)" using k(2) by (auto simp: tape_told_def)
      have "fst f \<le> top_number 0 (told_frames ?s sid)" if "f \<in> set fs" for f
      proof -
        have "fst f \<le> gs_sequence (object_of s k)" using that sub le(1) unfolding r list_all_iff by blast
        then show ?thesis using le(2) by (rule le_trans)
      qed
      then show ?thesis by (simp add: list_all_iff)
    qed
  qed
  show ?thesis using l q f by (auto simp: resync_stream_def Some Let_def split: option.split)
qed (simp add: resync_stream_def l)

lemma link_subscribed: "link_ok s \<Longrightarrow> books_ok ev None s \<Longrightarrow> ended s \<Longrightarrow> link_ok (subscribe_done ev sid from s)"
  by (simp add: subscribe_done_def link_resync)

lemma link_begin: "link_ok s \<Longrightarrow> books_ok ev None s \<Longrightarrow> ended s \<Longrightarrow> link_ok (begin_subscribe ev sid scope mode from s)"
proof -
  assume a: "link_ok s" "books_ok ev None s" "ended s"
  have "link_ok (cleanup_stream sid (s\<lparr>cn_generations := gn\<rparr>))" for gn by (rule link_same [OF _ a(1)]) simp
  then show ?thesis using a by (simp add: begin_subscribe_def Let_def link_subscribed)
qed

lemma link_resolved:
  assumes l: "link_ok s" and i: "streams_ok ev s" and p: "cn_phase s = Resolving sid scope mode g from"
  shows "link_ok (scope_resolved ev sid scope mode g from r rg s)"
proof -
  have s: "books_ok ev None s" "ended s" "vacant sid s" using i p by (simp_all add: streams_ok_def lodged_def)
  have a: "books_ok ev None (attach_stream ev sid scope mode g src [] rg s)" for src by (rule books_attach [OF s(1,3)]) (simp add: trim_replay_def)
  show ?thesis using s a l by (auto simp: scope_resolved_def ended_attach link_attach link_subscribed split: resolution.split)
qed

lemma link_loaded:
  assumes l: "link_ok s" and i: "streams_ok ev s" and p: "cn_phase s = Loading sid scope mode g from src"
  shows "link_ok (frames_loaded ev sid scope mode g from src fs rg s)"
proof -
  have s: "books_ok ev None s" "ended s" "vacant sid s" using i p by (simp_all add: streams_ok_def lodged_def)
  have "trim_replay ev (case fs of None \<Rightarrow> [] | Some l \<Rightarrow> trim_replay ev l) = (case fs of None \<Rightarrow> [] | Some l \<Rightarrow> trim_replay ev l)"
    by (cases fs) (simp_all add: trim_once, simp add: trim_replay_def)
  then show ?thesis using s l by (simp add: frames_loaded_def link_subscribed books_attach ended_attach link_attach)
qed

lemma link_commands [simp]:
  "link_ok (append_trace ev k d rs s) = link_ok s" "link_ok (append_fact k t1 t2 s) = link_ok s" "link_ok (settle_claim d o' s) = link_ok s"
  by (simp_all add: append_trace_def append_fact_def settle_claim_def)

lemma link_command [simp]:
  assumes "link_ok s"
  shows "link_ok (command_error ev c code msg rej s)" "link_ok (refuse_command ev c d s)" "link_ok (dispatch_command c od s)"
    "link_ok (answer_command ev c a v s)" "link_ok (decide_command ev c d s)" "link_ok (start_command ev c now s)"
  using assms by (simp_all add: command_error_def refuse_command_def dispatch_command_def answer_command_def decide_command_def start_command_def
      split: option.split)

lemma link_command_step: "link_ok s \<Longrightarrow> link_ok (command_step ev c stage e s)"
proof -
  assume l: "link_ok s"
  have d: "link_ok (dispatch_answered ev c od r now s)" for od r now using l by (simp add: dispatch_answered_def Let_def split: option.split sum.split)
  show ?thesis unfolding command_step_def using l by (cases stage; cases e) (simp_all add: d Let_def split: option.split)
qed

lemma link_received:
  assumes l: "link_ok s" and i: "books_ok ev None s" "ended s"
  shows "link_ok (receive_frame ev v now n s)"
proof -
  have c: "link_ok (cleanup_stream sid s)" for sid by (rule link_same [OF _ l]) simp
  have b: "link_ok (receive_subscribe ev v s)" using l i by (simp add: receive_subscribe_def invalid_def link_begin split: option.split)
  have k: "link_ok (receive_command ev kd v now n s)" for kd using l by (simp add: receive_command_def Let_def split: option.split)
  have g: "link_ok (greet ev v a s)" for a
  proof -
    have "link_ok (s\<lparr>cn_greeted := True, cn_auth := a, cn_session := replay_session ev a v\<rparr>)" by (rule link_same [OF _ l]) simp
    then show ?thesis by (simp add: greet_def)
  qed
  show ?thesis using l i b k g c by (simp add: receive_frame_def invalid_def link_resync split: option.split)
qed

lemma link_next: "link_ok s \<Longrightarrow> books_ok ev None s \<Longrightarrow> ended s \<Longrightarrow> link_ok (next_frame ev now n s)"
  by (simp add: next_frame_def link_received split: list.split)

lemma link_step:
  assumes l: "link_ok s" and i: "streams_ok ev s"
  shows "link_ok (gateway_step ev e s)"
proof -
  have s: "books_ok ev None s" "ended s" using i by (simp_all add: streams_ok_def)
  have f: "link_ok (frame_arrives ev v now n s)" for v now n
  proof -
    have q: "link_ok ((arm_idle ev s)\<lparr>cn_pending := vs\<rparr>)" "link_ok ((arm_idle ev (s\<lparr>cn_generations := gn\<rparr>))\<lparr>cn_pending := vs\<rparr>)" for gn vs
      using l by simp_all
    have n: "link_ok (next_frame ev now n ((arm_idle ev s)\<lparr>cn_pending := vs\<rparr>))"
      "link_ok (next_frame ev now n ((arm_idle ev (s\<lparr>cn_generations := gn\<rparr>))\<lparr>cn_pending := vs\<rparr>))" for gn vs
      using q s by (intro link_next; simp)+
    show ?thesis using l q n by (simp add: frame_arrives_def Let_def)
  qed
  have a: "link_ok (auth_answered ev v a s)" for v a
  proof -
    have "link_ok (s\<lparr>cn_greeted := True, cn_auth := a, cn_session := t\<rparr>)" for a t by (rule link_same [OF _ l]) simp
    then show ?thesis using l by (simp add: auth_answered_def greet_def handling_failed_def split: auth_result.split)
  qed
  have p: "link_ok (phase_step ev e s)" for e unfolding phase_step_def
    using l i s a by (cases "cn_phase s"; cases e) (simp_all add: link_next link_resolved link_loaded link_command_step)
  show ?thesis using l f p by (cases e) (simp_all add: gateway_step_def link_shows is_subscribed_def count_cards)
qed

lemma link_reached: "link_ok (gateway_run ev es)"
proof -
  have "link_ok (fold (gateway_step ev) es s) \<and> streams_ok ev (fold (gateway_step ev) es s)" if "link_ok s" "streams_ok ev s" for s
    using that by (induction es arbitrary: s) (simp_all add: link_step streams_step)
  moreover have "link_ok (new_connection ev)" by (simp add: link_ok_def new_connection_def arm_idle_def)
  ultimately show ?thesis using streams_reached [of ev "[]"] by (simp add: gateway_run_def)
qed
end
