(* ===== verification/Web_Delivery.thy ===== *)
theory Web_Delivery
  imports Gateway_Link
begin

text \<open>
  What a page takes of the frames it gets, on any link and on one that keeps the order of the gateway.
\<close>

section \<open>What the numbers depend on\<close>

fun took :: "web_action list \<Rightarrow> replay_frame list" where
  "took [] = []"
| "took (Took f # older) = took older @ [f]"
| "took (a # older) = took older"

definition asks_resync :: "json \<Rightarrow> bool" where
  "asks_resync f \<longleftrightarrow> field f ''type'' = Some (JString ''resync'')"

fun resyncs :: "web_action list \<Rightarrow> json list" where
  "resyncs [] = []"
| "resyncs (Sent_up f # older) = resyncs older @ (if asks_resync f then [f] else [])"
| "resyncs (a # older) = resyncs older"

definition number_view :: "web_source \<Rightarrow> nat \<times> replay_frame list \<times> json list" where
  "number_view s = (ws_last s, took (ws_log s), resyncs (ws_log s))"

fun counts_number :: "web_action \<Rightarrow> bool" where
  "counts_number (Took f) \<longleftrightarrow> True"
| "counts_number (Sent_up f) \<longleftrightarrow> asks_resync f"
| "counts_number a \<longleftrightarrow> False"

lemma number_log [simp]: "\<not> counts_number a \<Longrightarrow> number_view (web_log a s) = number_view s"
  by (cases a) (simp_all add: number_view_def web_log_def)

lemma number_updates [simp]:
  "number_view (s\<lparr>ws_snapshot := v1\<rparr>) = number_view s" "number_view (s\<lparr>ws_status := v2\<rparr>) = number_view s"
  "number_view (s\<lparr>ws_resyncing := b\<rparr>) = number_view s" "number_view (s\<lparr>ws_ready := rd\<rparr>) = number_view s" "number_view (s\<lparr>ws_throws := bs\<rparr>) = number_view s"
  "number_view (s\<lparr>ws_snapshot_listeners := ls\<rparr>) = number_view s" "number_view (s\<lparr>ws_event_listeners := es\<rparr>) = number_view s"
  "number_view (s\<lparr>ws_status_listeners := ls\<rparr>) = number_view s" "number_view (s\<lparr>ws_sends := m\<rparr>) = number_view s" "number_view (s\<lparr>ws_asks := m\<rparr>) = number_view s"
  "number_view (s\<lparr>ws_order := rs\<rparr>) = number_view s" "number_view (s\<lparr>ws_requests := n\<rparr>) = number_view s" "number_view (s\<lparr>ws_calls := cs\<rparr>) = number_view s"
  "number_view (s\<lparr>ws_tickets := n\<rparr>) = number_view s"
  by (simp_all add: number_view_def)

lemma number_fold: "(\<And>x s. number_view (f x s) = number_view s) \<Longrightarrow> number_view (fold f xs s) = number_view s"
  by (induction xs arbitrary: s) simp_all

lemma number_told [simp]: "number_view (tell_snapshot s) = number_view s" "number_view (tell_status s) = number_view s" "number_view (tell_event e s) = number_view s"
  by (auto simp: tell_snapshot_def tell_status_def tell_event_def intro!: number_fold)

lemma number_status [simp]: "number_view (set_page_status v s) = number_view s" by (simp add: set_page_status_def)

lemma number_send [simp]: "\<not> asks_resync f \<Longrightarrow> number_view (snd (send_up f s)) = number_view s" by (simp add: send_up_def Let_def)

lemma not_resync [simp]: "\<not> asks_resync (page_hello v r a)" "\<not> asks_resync (subscribe_frame sid sc md n)" "\<not> asks_resync (command_frame b sid rid m t mt)"
  by (simp_all add: asks_resync_def page_hello_def subscribe_frame_def command_frame_def)

lemma number_settled [simp]: "number_view (settle_call t r s) = number_view s" by (simp add: settle_call_def)

lemma number_rejected [simp]: "number_view (reject_pending why s) = number_view s"
proof -
  have a: "number_view (fold (\<lambda>(r, t). settle_call t (Rejected why)) m s) = number_view s" for m s
    by (rule number_fold) (simp add: case_prod_beta)
  have b: "number_view (reject_sends why s) = number_view s" for s
    unfolding reject_sends_def by (rule trans [OF number_fold]) (simp_all split: option.split)
  show ?thesis by (simp add: reject_pending_def Let_def a b)
qed

lemma number_taken [simp]: "number_view (snd (settle_send rid r s)) = number_view s" "number_view (snd (settle_ask i r s)) = number_view s"
  by (auto simp: settle_send_def take_pending_send_def settle_ask_def split: option.split prod.split)

lemma number_ready [simp]: "number_view (now_ready s) = number_view s" by (simp add: now_ready_def)

lemma number_arrived [simp]: "number_view (status_arrives ev st s) = number_view s" "number_view (source_ready ev s) = number_view s"
  by (simp_all add: status_arrives_def Let_def source_ready_def)

lemma number_error [simp]: "number_view (error_arrives rid m s) = number_view s"
proof -
  have a: "number_view s1 = number_view s" if "settle_send r why s = (b, s1)" for r why b s s1 using number_taken(1) [of r why s] that by simp
  have b: "number_view s1 = number_view s" if "settle_ask r why s = (b, s1)" for r why b s1 using number_taken(2) [of r why s] that by simp
  show ?thesis unfolding error_arrives_def Let_def
    by (auto split: option.split prod.split bool.split dest!: a b)
qed

lemma number_continues [simp]: "number_view (call_continues ev t c s) = number_view s"
proof -
  have "number_view s2 = number_view s1" if "send_up (command_frame a i rid m to md) s1 = (b, s2)" for a i rid m to md s1 b s2
    using number_send [OF not_resync(3), of a i rid m to md s1] that by simp
  then show ?thesis
    by (auto simp: call_continues_def Let_def split: source_readiness.split prod.split bool.split if_splits)
qed

section \<open>Frames\<close>

text \<open>Frames of the traces are not numbered for this source.\<close>

definition is_trace :: "payload \<Rightarrow> bool" where
  "is_trace p = (case p of Trace_of a h v \<Rightarrow> True | _ \<Rightarrow> False)"

lemma number_numbered:
  "number_view (numbered_arrives ev f s) = (if is_trace (snd f) then number_view s else number_view (snd (accept_sequence ev f s)))"
  by (auto simp: numbered_arrives_def is_trace_def split: payload.split prod.split bool.split)

lemma number_frame:
  "number_view (gateway_frame_arrives ev f s) = (case f of Stream_frame i nf \<Rightarrow> number_view (numbered_arrives ev nf s) | _ \<Rightarrow> number_view s)"
  by (cases f) (simp_all add: gateway_frame_arrives_def)

lemma number_step: "number_view (source_step ev e s) = (case e of Frame_comes f \<Rightarrow> number_view (gateway_frame_arrives ev f s) | _ \<Rightarrow> number_view s)"
  by (cases e) (simp_all add: source_step_def page_calls_def Let_def split: list.split)

lemma number_accept:
  "number_view (snd (accept_sequence ev f s)) = (case number_view s of (m, ts, rs) \<Rightarrow>
     if fst f = m + 1 \<or> (m + 1 < fst f \<and> ws_resyncing s \<and> is_snapshot (snd f)) then (fst f, ts @ [f], rs)
     else if fst f \<le> m \<or> (ws_throws s \<noteq> [] \<and> hd (ws_throws s)) then (m, ts, rs) else (m, ts, rs @ [resync_frame (we_stream_id ev) (m + 1)]))"
proof -
  have r: "asks_resync (resync_frame i n)" for i n by (simp add: asks_resync_def resync_frame_def)
  have v: "number_view (snd (send_up (resync_frame i n) s1)) = (if ws_throws s1 \<noteq> [] \<and> hd (ws_throws s1) then number_view s1
      else (case number_view s1 of (m, ts, rs) \<Rightarrow> (m, ts, rs @ [resync_frame i n])))" for i n s1
    by (simp add: send_up_def Let_def number_view_def web_log_def r)
  have t: "ws_throws (set_page_status w s1) = ws_throws s1" for w s1
  proof -
    have "ws_throws (fold (\<lambda>l. web_log (Told_status l w)) ls s1) = ws_throws s1" for ls w s1 by (induction ls arbitrary: s1) (simp_all add: web_log_def)
    then show ?thesis by (simp add: set_page_status_def tell_status_def)
  qed
  have n: "number_view (take_frame f s) = (fst f, took (ws_log s) @ [f], resyncs (ws_log s))" by (simp add: take_frame_def number_view_def web_log_def)
  have s': "number_view s = (ws_last s, took (ws_log s), resyncs (ws_log s))" by (simp add: number_view_def)
  show ?thesis by (auto simp: accept_sequence_def Let_def v t n s')
qed

section \<open>In sequence on any link\<close>

fun in_sequence :: "nat \<Rightarrow> replay_frame list \<Rightarrow> bool" where
  "in_sequence m [] \<longleftrightarrow> True"
| "in_sequence m ((n, p) # fs) \<longleftrightarrow> (if n = m + 1 then True else m < n \<and> is_snapshot p) \<and> in_sequence n fs"

fun last_taken :: "nat \<Rightarrow> replay_frame list \<Rightarrow> nat" where
  "last_taken m [] = m"
| "last_taken m ((n, p) # fs) = last_taken n fs"

lemma taken_append: "last_taken m (fs @ gs) = last_taken (last_taken m fs) gs"
  "in_sequence m (fs @ gs) \<longleftrightarrow> in_sequence m fs \<and> in_sequence (last_taken m fs) gs"
  by (induction m fs rule: in_sequence.induct) simp_all

definition numbers_ok :: "web_source \<Rightarrow> bool" where
  "numbers_ok s \<longleftrightarrow> (case number_view s of (m, ts, rs) \<Rightarrow> in_sequence 0 ts \<and> last_taken 0 ts = m)"

lemma numbers_step: "numbers_ok s \<Longrightarrow> numbers_ok (source_step ev e s)"
proof -
  assume s: "numbers_ok s"
  have "numbers_ok s1" if "number_view s1 = number_view (snd (accept_sequence ev f s))" for f s1
    using s that by (cases f) (auto simp: numbers_ok_def number_accept taken_append split: prod.splits if_splits)
  then show ?thesis using s by (cases e) (auto simp: numbers_ok_def number_step number_frame number_numbered split: server_frame.splits)
qed

lemma numbers_reached: "numbers_ok (source_run ev es)"
proof -
  have "numbers_ok (fold (source_step ev) es (new_source ev))"
    using fold_invariant [of es "\<lambda>_. True" numbers_ok "new_source ev" "source_step ev"] numbers_step
    by (simp add: numbers_ok_def number_view_def new_source_def)
  then show ?thesis by (simp add: source_run_def)
qed

section \<open>Everything once on an ordered link\<close>

fun arriving :: "web_event list \<Rightarrow> server_frame list" where
  "arriving [] = []"
| "arriving (Frame_comes f # es) = f # arriving es"
| "arriving (e # es) = arriving es"

definition page_frame :: "string \<Rightarrow> server_frame \<Rightarrow> bool" where
  "page_frame sid f = (case f of Stream_frame i nf \<Rightarrow> i = sid \<and> \<not> is_trace (snd nf) | _ \<Rightarrow> True)"

lemma delivered_exactly:
  assumes "list_all (page_frame sid) (arriving es)" "flows m (stream_frames sid (arriving es))" "number_view s = (m, ts, rs)"
  shows "number_view (fold (source_step ev) es s) = (top_number m (stream_frames sid (arriving es)), ts @ firsts m (stream_frames sid (arriving es)), rs)"
  using assms
proof (induction es arbitrary: s m ts)
  case (Cons e es)
  show ?case
  proof (cases "\<exists>i nf. e = Frame_comes (Stream_frame i nf)")
    case True
    then obtain n p where e: "e = Frame_comes (Stream_frame sid (n, p))" and t: "\<not> is_trace p" using Cons.prems(1) by (auto simp: page_frame_def)
    have n: "n \<le> m + 1" "flows (max m n) (stream_frames sid (arriving es))" using Cons.prems(2) by (simp_all add: e)
    have v: "number_view (source_step ev e s) = (max m n, ts @ (if m < n then [(n, p)] else []), rs)"
      using Cons.prems(3) n(1) t by (auto simp: e number_step number_frame number_numbered number_accept)
    show ?thesis using Cons.IH [OF _ n(2) v] Cons.prems(1) n(1) by (auto simp: e max_def)
  next
    case False
    have o': "number_view (source_step ev e s) = (m, ts, rs) \<and> stream_frames sid (arriving (e # es)) = stream_frames sid (arriving es)
        \<and> list_all (page_frame sid) (arriving es)"
    proof (cases e)
      case (Frame_comes f)
      then show ?thesis using False Cons.prems(1,3) by (cases f) (simp_all add: number_step number_frame)
    qed (use Cons.prems(1,3) in \<open>simp_all add: number_step\<close>)
    then have v: "number_view (source_step ev e s) = (m, ts, rs)"
      and a: "stream_frames sid (arriving (e # es)) = stream_frames sid (arriving es)" "list_all (page_frame sid) (arriving es)" by simp_all
    show ?thesis using Cons.IH [OF a(2) _ v] Cons.prems(2) by (simp add: a(1))
  qed
qed simp

text \<open>
  C10. Gateway and page together. Whatever happens on a gateway connection whose streams began without restored frames, and whatever else happens
  to the page, as long as the link keeps the order: of the frames the gateway has handed over, the page has taken each number of its
  stream exactly once, in order, from 1 without a gap, and has never asked for a resynchronization. And on any link at all the page takes
  numbers in increasing order only and jumps over some only to a snapshot.
\<close>

theorem page_sees_every_frame:
  assumes fresh: "list_all begins_fresh (cn_log (gateway_run gv ges))"
    and link: "arriving es = take i (handed (cn_log (gateway_run gv ges)))"
    and stream: "list_all (page_frame sid) (arriving es)"
  shows "took (ws_log (source_run ev es)) = firsts 0 (stream_frames sid (arriving es))
     \<and> map fst (took (ws_log (source_run ev es))) = [1 ..< top_number 0 (stream_frames sid (arriving es)) + 1]
     \<and> resyncs (ws_log (source_run ev es)) = [] \<and> in_sequence 0 (took (ws_log (source_run ev es1)))"
proof -
  let ?H = "handed (cn_log (gateway_run gv ges))"
  have "flows 0 (stream_frames sid (take i ?H @ drop i ?H))" using link_reached [of gv ges] fresh by (simp add: link_ok_def)
  then have f: "flows 0 (stream_frames sid (arriving es))" unfolding link stream_frames_append flows_append by (rule conjunct1)
  have "number_view (new_source ev) = (0, [], [])" by (simp add: number_view_def new_source_def)
  from delivered_exactly [OF stream f this, of ev]
  have "took (ws_log (source_run ev es)) = firsts 0 (stream_frames sid (arriving es))" "resyncs (ws_log (source_run ev es)) = []"
    by (simp_all add: number_view_def source_run_def)
  moreover have "map fst (firsts 0 (stream_frames sid (arriving es))) = [1 ..< top_number 0 (stream_frames sid (arriving es)) + 1]"
    using firsts_numbers [OF f] by simp
  moreover have "in_sequence 0 (took (ws_log (source_run ev es1)))" using numbers_reached [of ev es1] by (simp add: numbers_ok_def number_view_def)
  ultimately show ?thesis by simp
qed

definition demo_page :: web_env where
  "demo_page = \<lparr>we_num = (\<lambda>r. ''1''), we_stream_id = ''s'', we_source_scope = JObject [(''kind'', JString ''k'')], we_command_only = False,
     we_version = None, we_auth = False\<rparr>"

definition demo_page_events :: "web_event list" where
  "demo_page_events = Socket_opens # map Frame_comes (handed (cn_log (gateway_run demo_gateway demo_events)))"

lemma demo_frames: "handed (cn_log (gateway_run demo_gateway demo_events)) = [Ready ''c'' 30, Stream_frame ''s'' (1, Snapshot_of ''a'' JNull),
   Stream_frame ''s'' (2, Event_of ''a'' (JNumber 1)), Stream_frame ''s'' (3, Event_of ''a'' (JNumber 2))]"
  by code_simp

lemma demo_fresh: "list_all begins_fresh (cn_log (gateway_run demo_gateway demo_events))" by code_simp

lemma demo_arriving: "arriving demo_page_events = take 4 (handed (cn_log (gateway_run demo_gateway demo_events)))"
  by (simp add: demo_page_events_def demo_frames)

theorem page_sees_every_frame_witness:
  "took (ws_log (source_run demo_page demo_page_events))
     = [(1, Snapshot_of ''a'' JNull), (2, Event_of ''a'' (JNumber 1)), (3, Event_of ''a'' (JNumber 2))]"
proof -
  have "list_all (page_frame ''s'') (arriving demo_page_events)" by (simp add: demo_arriving demo_frames page_frame_def is_trace_def)
  from page_sees_every_frame [OF demo_fresh demo_arriving this, of demo_page "[]"]
  show ?thesis by (simp add: demo_arriving demo_frames)
qed
end
