(* ===== verification/Trace_Client.thy ===== *)
theory Trace_Client
  imports Web_Source
begin

text \<open>
  The trace source of \<open>actor-web-source.ts\<close>: traces of one actor over sockets that are opened again after they close, with a delay that
  doubles. Each handler belongs to one socket, a number here, and does nothing for an old one.
\<close>

section \<open>State and handlers\<close>

datatype trace_action =
    Trace_sent json
  | Told_trace nat json
  | Told_trace_status nat json
  | Socket_created nat
  | Socket_closed_by_us nat
  | Reconnect_in int
  | Greeted nat

record trace_client =
  tc_socket :: nat
  tc_status :: json
  tc_latest :: "json option"
  tc_last :: nat
  tc_resyncing :: bool
  tc_connection :: "string option"
  tc_timer :: bool
  tc_delay :: int
  tc_closed :: bool
  tc_trace_listeners :: "nat list"
  tc_status_listeners :: "nat list"
  tc_throws :: "bool list"
  tc_log :: "trace_action list"                   \<comment> \<open>newest first\<close>

record trace_env =
  te_web :: web_env
  te_delay :: "int option"                       \<comment> \<open>\<open>reconnectDelayMs\<close>\<close>

definition base_delay :: "trace_env \<Rightarrow> int" where
  "base_delay ev = max 1 (case te_delay ev of None \<Rightarrow> 250 | Some d \<Rightarrow> d)"

definition max_delay :: "trace_env \<Rightarrow> int" where
  "max_delay ev = max (base_delay ev) 5000"

definition trace_log :: "trace_action \<Rightarrow> trace_client \<Rightarrow> trace_client" where
  "trace_log a s = s\<lparr>tc_log := a # tc_log s\<rparr>"

definition show_status :: "json \<Rightarrow> trace_client \<Rightarrow> trace_client" where
  "show_status v s = fold (\<lambda>l. trace_log (Told_trace_status l v)) (tc_status_listeners s) (s\<lparr>tc_status := v\<rparr>)"

definition tell_trace :: "json \<Rightarrow> trace_client \<Rightarrow> trace_client" where
  "tell_trace v s = fold (\<lambda>l. trace_log (Told_trace l v)) (tc_trace_listeners s) s"

definition trace_send :: "json \<Rightarrow> trace_client \<Rightarrow> trace_client" where
  "trace_send f s = (let s1 = s\<lparr>tc_throws := tl (tc_throws s)\<rparr>
     in if tc_throws s \<noteq> [] \<and> hd (tc_throws s) then s1 else trace_log (Trace_sent f) s1)"

definition trace_in_step :: "trace_client \<Rightarrow> trace_client" where
  "trace_in_step s = show_status (own_status ''connected'' None) (s\<lparr>tc_resyncing := False\<rparr>)"

definition accept_trace :: "trace_env \<Rightarrow> nat \<Rightarrow> trace_client \<Rightarrow> bool \<times> trace_client" where
  "accept_trace ev n s0 =
     (let s = (if tc_resyncing s0 \<and> n = 1 \<and> 0 < tc_last s0 then s0\<lparr>tc_last := 0\<rparr> else s0);
          expected = tc_last s + 1
      in if n = expected then (True, if tc_resyncing s then trace_in_step (s\<lparr>tc_last := n\<rparr>) else s\<lparr>tc_last := n\<rparr>)
         else if n \<le> tc_last s then (False, s)
         else if tc_resyncing s then (True, trace_in_step (s\<lparr>tc_last := n\<rparr>))
         else (False, trace_send (resync_frame (we_stream_id (te_web ev)) expected)
           (show_status (own_status ''degraded'' (Some (''Gateway stream sequence gap: expected '' @ nat_digits expected @ '', received '' @ nat_digits n @ ''.'')))
             (s\<lparr>tc_resyncing := True\<rparr>))))"

definition trace_greeting :: "trace_env \<Rightarrow> json option \<Rightarrow> trace_client \<Rightarrow> trace_client" where
  "trace_greeting ev auth s = trace_send (page_hello (we_version (te_web ev)) (tc_connection s) auth) s"

definition trace_ready :: "trace_env \<Rightarrow> string \<Rightarrow> trace_client \<Rightarrow> trace_client" where
  "trace_ready ev cid s =
     (let s1 = show_status (own_status ''replaying'' (Some ''Subscribing to Actor-Web gateway''))
            (trace_log (Greeted (tc_socket s)) (s\<lparr>tc_connection := Some cid, tc_delay := base_delay ev\<rparr>));
          s2 = (if 0 < tc_last s1 then s1\<lparr>tc_resyncing := True\<rparr> else s1)
      in trace_send (subscribe_frame (we_stream_id (te_web ev)) (we_source_scope (te_web ev)) (Some ''trace-only'')
           (if 0 < tc_last s2 then Some (tc_last s2 + 1) else None)) s2)"

definition trace_frame_arrives :: "trace_env \<Rightarrow> server_frame \<Rightarrow> trace_client \<Rightarrow> trace_client" where
  "trace_frame_arrives ev f s = (case f of
       Ready cid beat \<Rightarrow> trace_ready ev cid s
     | Stream_frame sid nf \<Rightarrow> (case snd nf of
           Trace_of a h v \<Rightarrow> (case accept_trace ev (fst nf) s of
               (False, s1) \<Rightarrow> s1 | (True, s1) \<Rightarrow> tell_trace v (s1\<lparr>tc_latest := Some v\<rparr>))
         | _ \<Rightarrow> s)
     | Status_frame sid st \<Rightarrow> show_status (page_status st) s
     | Error_frame sid rid code message recoverable rej \<Rightarrow> show_status (own_status ''degraded'' (Some message)) s
     | _ \<Rightarrow> s)"

datatype trace_event =
    Trace_socket_opens nat
  | Trace_token nat "json option"
  | Trace_token_fails nat "string option"
  | Trace_frame nat server_frame
  | Trace_garbage nat
  | Trace_socket_closes nat
  | Trace_socket_fails nat
  | Reconnect_timer
  | Trace_listener nat
  | Trace_listener_leaves nat
  | Trace_status_listener nat
  | Trace_status_listener_leaves nat
  | Trace_will_throw "bool list"
  | Trace_close

definition connect_trace :: "trace_client \<Rightarrow> trace_client" where
  "connect_trace s = trace_log (Socket_created (tc_socket s + 1)) (s\<lparr>tc_socket := tc_socket s + 1\<rparr>)"

text \<open>A handler of the current socket of a source that is not closed.\<close>

definition on_socket :: "nat \<Rightarrow> (trace_client \<Rightarrow> trace_client) \<Rightarrow> trace_client \<Rightarrow> trace_client" where
  "on_socket k f s = (if tc_closed s \<or> tc_socket s \<noteq> k then s else f s)"

definition trace_socket_closed :: "trace_env \<Rightarrow> trace_client \<Rightarrow> trace_client" where
  "trace_socket_closed ev s =
     (let s1 = show_status (own_status ''disconnected'' (Some ''Actor-Web gateway disconnected.'')) s
      in trace_log (Reconnect_in (tc_delay s)) (s1\<lparr>tc_delay := min (max_delay ev) (tc_delay s * 2), tc_timer := True\<rparr>))"

definition trace_step :: "trace_env \<Rightarrow> trace_event \<Rightarrow> trace_client \<Rightarrow> trace_client" where
  "trace_step ev e s = (case e of
       Trace_socket_opens k \<Rightarrow> on_socket k (\<lambda>s. if we_auth (te_web ev) then s else trace_greeting ev None s) s
     | Trace_token k token \<Rightarrow> on_socket k (\<lambda>s. if we_auth (te_web ev) then trace_greeting ev (auth_payload token) s else s) s
     | Trace_token_fails k why \<Rightarrow> on_socket k (\<lambda>s. if we_auth (te_web ev)
         then trace_log (Socket_closed_by_us k) (show_status (own_status ''degraded''
           (Some (case why of None \<Rightarrow> ''Actor-Web gateway authentication failed.'' | Some t \<Rightarrow> t))) s) else s) s
     | Trace_frame k f \<Rightarrow> on_socket k (trace_frame_arrives ev f) s
     | Trace_garbage k \<Rightarrow> on_socket k (show_status (own_status ''degraded'' (Some ''Actor-Web gateway sent an invalid JSON frame.''))) s
     | Trace_socket_closes k \<Rightarrow> on_socket k (trace_socket_closed ev) s
     | Trace_socket_fails k \<Rightarrow> on_socket k (show_status (own_status ''degraded'' (Some ''Actor-Web gateway connection failed.''))) s
     | Reconnect_timer \<Rightarrow> if tc_timer s then connect_trace (s\<lparr>tc_timer := False\<rparr>) else s
     | Trace_listener l \<Rightarrow>
         (let s1 = s\<lparr>tc_trace_listeners := insert_once l (tc_trace_listeners s)\<rparr>
          in case tc_latest s of None \<Rightarrow> s1 | Some v \<Rightarrow> trace_log (Told_trace l v) s1)
     | Trace_listener_leaves l \<Rightarrow> s\<lparr>tc_trace_listeners := removeAll l (tc_trace_listeners s)\<rparr>
     | Trace_status_listener l \<Rightarrow> trace_log (Told_trace_status l (tc_status s)) (s\<lparr>tc_status_listeners := insert_once l (tc_status_listeners s)\<rparr>)
     | Trace_status_listener_leaves l \<Rightarrow> s\<lparr>tc_status_listeners := removeAll l (tc_status_listeners s)\<rparr>
     | Trace_will_throw bs \<Rightarrow> s\<lparr>tc_throws := bs\<rparr>
     | Trace_close \<Rightarrow> (trace_log (Socket_closed_by_us (tc_socket s)) (s\<lparr>tc_closed := True, tc_timer := False\<rparr>))
         \<lparr>tc_trace_listeners := [], tc_status_listeners := []\<rparr>)"

definition new_trace_client :: "trace_env \<Rightarrow> trace_client" where
  "new_trace_client ev = connect_trace \<lparr>tc_socket = 0, tc_status = own_status ''replaying'' (Some ''Connecting to Actor-Web gateway''),
     tc_latest = None, tc_last = 0, tc_resyncing = False, tc_connection = None, tc_timer = False, tc_delay = base_delay ev, tc_closed = False,
     tc_trace_listeners = [], tc_status_listeners = [], tc_throws = [], tc_log = []\<rparr>"

definition trace_run :: "trace_env \<Rightarrow> trace_event list \<Rightarrow> trace_client" where
  "trace_run ev es = fold (trace_step ev) es (new_trace_client ev)"

section \<open>Reconnecting\<close>

text \<open>How often the socket closed since the gateway last greeted, and the delays that may follow.\<close>

fun closed_since :: "trace_action list \<Rightarrow> nat" where
  "closed_since [] = 0"
| "closed_since (Reconnect_in d # older) = closed_since older + 1"
| "closed_since (Greeted k # older) = 0"
| "closed_since (a # older) = closed_since older"

definition delay_after :: "trace_env \<Rightarrow> nat \<Rightarrow> int" where
  "delay_after ev n = min (max_delay ev) (base_delay ev * 2 ^ n)"

fun delays_doubled :: "trace_env \<Rightarrow> trace_action list \<Rightarrow> bool" where
  "delays_doubled ev [] \<longleftrightarrow> True"
| "delays_doubled ev (Reconnect_in d # older) \<longleftrightarrow> d = delay_after ev (closed_since older) \<and> delays_doubled ev older"
| "delays_doubled ev (a # older) \<longleftrightarrow> delays_doubled ev older"

fun dialled :: "trace_action list \<Rightarrow> nat" where
  "dialled [] = 0"
| "dialled (Socket_created k # older) = dialled older + 1"
| "dialled (a # older) = dialled older"

fun waits_set :: "trace_action list \<Rightarrow> nat" where
  "waits_set [] = 0"
| "waits_set (Reconnect_in d # older) = waits_set older + 1"
| "waits_set (a # older) = waits_set older"

fun trace_sent :: "trace_action list \<Rightarrow> json list" where
  "trace_sent [] = []"
| "trace_sent (Trace_sent f # older) = trace_sent older @ [f]"
| "trace_sent (a # older) = trace_sent older"

definition dial_view :: "trace_client \<Rightarrow> nat \<times> bool \<times> int \<times> bool \<times> trace_action list" where
  "dial_view s = (tc_socket s, tc_timer s, tc_delay s, tc_closed s,
     filter (\<lambda>a. case a of Reconnect_in d \<Rightarrow> True | Greeted k \<Rightarrow> True | Socket_created k \<Rightarrow> True | _ \<Rightarrow> False) (tc_log s))"

fun dials :: "trace_action \<Rightarrow> bool" where
  "dials (Reconnect_in d) \<longleftrightarrow> True"
| "dials (Greeted k) \<longleftrightarrow> True"
| "dials (Socket_created k) \<longleftrightarrow> True"
| "dials a \<longleftrightarrow> False"

definition dialling_ok :: "trace_env \<Rightarrow> trace_client \<Rightarrow> bool" where
  "dialling_ok ev s \<longleftrightarrow> delays_doubled ev (tc_log s) \<and> tc_delay s = delay_after ev (closed_since (tc_log s)) \<and> tc_socket s = dialled (tc_log s)
     \<and> dialled (tc_log s) \<le> waits_set (tc_log s) + (if tc_timer s then 0 else 1) \<and> (if tc_closed s then \<not> tc_timer s else True)"

lemma filtered_dials [simp]:
  "closed_since (filter (\<lambda>a. case a of Reconnect_in d \<Rightarrow> True | Greeted k \<Rightarrow> True | Socket_created k \<Rightarrow> True | _ \<Rightarrow> False) l) = closed_since l"
  "delays_doubled ev (filter (\<lambda>a. case a of Reconnect_in d \<Rightarrow> True | Greeted k \<Rightarrow> True | Socket_created k \<Rightarrow> True | _ \<Rightarrow> False) l) = delays_doubled ev l"
  "dialled (filter (\<lambda>a. case a of Reconnect_in d \<Rightarrow> True | Greeted k \<Rightarrow> True | Socket_created k \<Rightarrow> True | _ \<Rightarrow> False) l) = dialled l"
  "waits_set (filter (\<lambda>a. case a of Reconnect_in d \<Rightarrow> True | Greeted k \<Rightarrow> True | Socket_created k \<Rightarrow> True | _ \<Rightarrow> False) l) = waits_set l"
proof -
  let ?f = "filter (\<lambda>a. case a of Reconnect_in d \<Rightarrow> True | Greeted k \<Rightarrow> True | Socket_created k \<Rightarrow> True | _ \<Rightarrow> False)"
  show c: "closed_since (?f l) = closed_since l" for l by (induction l rule: closed_since.induct) simp_all
  show "delays_doubled ev (?f l) = delays_doubled ev l" by (induction ev l rule: delays_doubled.induct) (simp_all add: c)
  show "dialled (?f l) = dialled l" by (induction l rule: dialled.induct) simp_all
  show "waits_set (?f l) = waits_set l" by (induction l rule: waits_set.induct) simp_all
qed

lemma dialling_same: "dial_view s1 = dial_view s \<Longrightarrow> dialling_ok ev s \<Longrightarrow> dialling_ok ev s1"
  unfolding dialling_ok_def dial_view_def by (metis (no_types, lifting) filtered_dials prod.inject)

lemma dial_log [simp]: "\<not> dials a \<Longrightarrow> dial_view (trace_log a s) = dial_view s"
  by (cases a) (simp_all add: dial_view_def trace_log_def)

lemma dial_updates [simp]:
  "dial_view (s\<lparr>tc_status := v\<rparr>) = dial_view s" "dial_view (s\<lparr>tc_latest := t\<rparr>) = dial_view s" "dial_view (s\<lparr>tc_last := n\<rparr>) = dial_view s"
  "dial_view (s\<lparr>tc_resyncing := b\<rparr>) = dial_view s" "dial_view (s\<lparr>tc_connection := c\<rparr>) = dial_view s" "dial_view (s\<lparr>tc_throws := bs\<rparr>) = dial_view s"
  "dial_view (s\<lparr>tc_trace_listeners := ls\<rparr>) = dial_view s" "dial_view (s\<lparr>tc_status_listeners := ls\<rparr>) = dial_view s"
  by (simp_all add: dial_view_def)

lemma dial_fold: "(\<And>x s. dial_view (f x s) = dial_view s) \<Longrightarrow> dial_view (fold f xs s) = dial_view s"
  by (induction xs arbitrary: s) simp_all

lemma dial_shown [simp]: "dial_view (show_status v s) = dial_view s" "dial_view (tell_trace t s) = dial_view s" "dial_view (trace_send f s) = dial_view s"
  "dial_view (trace_greeting ev a s) = dial_view s"
  by (simp_all add: show_status_def tell_trace_def trace_send_def trace_greeting_def Let_def dial_fold)

lemma dial_accepted: "dial_view (snd (accept_trace ev n s)) = dial_view s"
  by (simp add: accept_trace_def Let_def trace_in_step_def)

lemma dialling_ready: "dialling_ok ev s \<Longrightarrow> dialling_ok ev (trace_ready ev cid s)"
proof -
  assume d: "dialling_ok ev s"
  let ?s = "trace_log (Greeted (tc_socket s)) (s\<lparr>tc_connection := Some cid, tc_delay := base_delay ev\<rparr>)"
  have "dialling_ok ev ?s" using d by (simp add: dialling_ok_def trace_log_def delay_after_def max_delay_def)
  moreover have "dial_view (trace_ready ev cid s) = dial_view ?s" by (simp add: trace_ready_def Let_def)
  ultimately show ?thesis by (rule dialling_same [rotated])
qed

lemma dialling_frame: "dialling_ok ev s \<Longrightarrow> dialling_ok ev (trace_frame_arrives ev f s)"
proof -
  assume d: "dialling_ok ev s"
  have a: "dial_view s1 = dial_view s" if "accept_trace ev n s = (b, s1)" for n b s1 using dial_accepted [of ev n s] that by simp
  show ?thesis using d dialling_ready [OF d]
    by (auto simp: trace_frame_arrives_def split: server_frame.split payload.split prod.split bool.split dest!: a intro: dialling_same)
qed

lemma delay_next: "min (max_delay ev) (delay_after ev n * 2) = delay_after ev (Suc n)"
proof -
  have "0 \<le> max_delay ev" by (simp add: max_delay_def)
  moreover have "min m (min m x * 2) = min m (x * 2)" if "0 \<le> m" for m x :: int using that by (simp add: min_def)
  moreover have "base_delay ev * 2 ^ Suc n = base_delay ev * 2 ^ n * 2" by simp
  ultimately show ?thesis by (simp only: delay_after_def)
qed

lemma dialling_closed: "dialling_ok ev s \<Longrightarrow> \<not> tc_closed s \<Longrightarrow> dialling_ok ev (trace_socket_closed ev s)"
proof -
  assume d: "dialling_ok ev s" and c: "\<not> tc_closed s"
  define s1 where "s1 = show_status (own_status ''disconnected'' (Some ''Actor-Web gateway disconnected.'')) s"
  have v: "dial_view s1 = dial_view s" by (simp add: s1_def)
  have "dialling_ok ev s1" by (rule dialling_same [OF v d])
  moreover have "tc_delay s = tc_delay s1" "tc_closed s1 = tc_closed s" using v by (simp_all add: dial_view_def)
  ultimately show ?thesis using c
    by (auto simp: trace_socket_closed_def s1_def [symmetric] Let_def dialling_ok_def trace_log_def delay_next split: if_splits)
qed

lemma dialling_step: "dialling_ok ev s \<Longrightarrow> dialling_ok ev (trace_step ev e s)"
proof -
  assume d: "dialling_ok ev s"
  have v: "dialling_ok ev s1" if "dial_view s1 = dial_view s" for s1 by (rule dialling_same [OF that d])
  have r: "dialling_ok ev (connect_trace (s\<lparr>tc_timer := False\<rparr>))" if "tc_timer s"
    using d that by (auto simp: connect_trace_def dialling_ok_def trace_log_def split: if_splits)
  have c: "dialling_ok ev ((trace_log (Socket_closed_by_us k) (s\<lparr>tc_closed := True, tc_timer := False\<rparr>))\<lparr>tc_trace_listeners := [], tc_status_listeners := []\<rparr>)" for k
    using d by (auto simp: dialling_ok_def trace_log_def split: if_splits)
  show ?thesis
    using d r c by (cases e) (simp_all add: trace_step_def on_socket_def dialling_frame dialling_closed v Let_def split: option.split)
qed

lemma dialling_reached: "dialling_ok ev (trace_run ev es)"
proof -
  have "dialling_ok ev (fold (trace_step ev) es (new_trace_client ev))"
    using fold_invariant [of es "\<lambda>_. True" "dialling_ok ev" "new_trace_client ev" "trace_step ev"] dialling_step
    by (simp add: dialling_ok_def new_trace_client_def connect_trace_def trace_log_def delay_after_def max_delay_def)
  then show ?thesis by (simp add: trace_run_def)
qed

text \<open>A closed source sends nothing and opens no socket.\<close>

lemma closed_quiet:
  assumes "tc_closed s" "\<not> tc_timer s"
  shows "tc_closed (trace_step ev e s) \<and> \<not> tc_timer (trace_step ev e s) \<and> tc_socket (trace_step ev e s) = tc_socket s
    \<and> trace_sent (tc_log (trace_step ev e s)) = trace_sent (tc_log s)"
  using assms by (cases e) (simp_all add: trace_step_def on_socket_def trace_log_def Let_def split: option.split)

end
