(* ===== verification/Spec2Isabelle.thy ===== *)
theory Spec2Isabelle
  imports Processing_Loop Supervision Transport_Core Transport_Stream Mesh_Routing Provider_Actor Agent_Admission Checkpoint_Store
    Ask_Pattern Message_Routing Directory_Readiness Message_Processing Lattice Remote_Projection Topology_Edges Agent_Loop
    Gateway_Commands Gateway_Replay Gateway_Sources Web_Calls Web_Delivery Trace_Client
begin

text \<open>
  A verification development for the Actor-Web runtime: the TypeScript package
  \<open>packages/actor-core-runtime\<close>, the mesh package \<open>packages/actor-labs-mesh\<close>,
  the lattice package \<open>packages/actor-lattice\<close> and the agent package \<open>packages/actor-agent\<close>. File names below are
  under \<open>packages/actor-core-runtime/src\<close> unless they say otherwise.

  \<^bold>\<open>The program.\<close> An actor system delivers messages to actors through bounded mailboxes. One loop per
  actor takes messages from its mailbox; a failed delivery goes to supervision, which restarts, stops,
  resumes or escalates, for one actor or a group. Systems on different nodes talk through a transport: frames
  validated against a wire contract, deduplicated, acknowledged and retried, on top of which streams
  with credits run. The mesh keeps who is alive and who owns which actor, and routes through other
  nodes. Agents act on this runtime by commands that are admitted under a policy; their effects and sessions
  leave receipts, journal entries and checkpoints that make them safe to repeat or resume.

  \<^bold>\<open>Theories and sources.\<close>

  \<^item> \<open>Actor_Prelude\<close>: decimal rendering, white space, insertion-ordered maps (\<open>Map\<close>), the locale
    \<open>invariant_machine\<close> (a machine whose operations keep an invariant). \<open>Json_Values\<close>: JSON values and
    the field checks of the validators. \<open>Text_Order\<close>: \<open>localeCompare\<close> as any consistent comparison
    (type \<open>collator\<close>).
  \<^item> \<open>Message_Buffer\<close>: the locale \<open>fifo_buffer\<close>, what the message loop relies on. \<open>Mailbox\<close>
    (\<open>messaging/mailbox.ts\<close>): every operation, parked senders as tickets with a settlement log; refines
    an unbounded queue, is bounded, accounts for every message, settles every promise once.
  \<^item> \<open>Processing_Loop\<close> (\<open>actor-system-impl.ts\<close>: \<open>enqueueMessageInternal\<close>,
    \<open>startMessageProcessingLoop\<close>, \<open>processActorMessages\<close>, parts of \<open>spawn\<close> and \<open>stopActor\<close>): each stretch
    between two awaits is a step. One loop per address unless an actor is restarted from inside a
    failed delivery, where two handlers really run; a loop that is left alone empties its mailbox.
  \<^item> \<open>Actor_Address\<close> (\<open>utils/factories.ts\<close>, parts of \<open>actor-system.ts\<close>): minting and parsing of addresses, which
    round-trip up to two exceptions. \<open>Actor_Directory\<close> (\<open>distributed-actor-directory.ts\<close>): registry, cache and
    expiry; how stale a lookup can be. \<open>Directory_Readiness\<close> (\<open>actor-system-impl.ts\<close>:
    \<open>ensureRemoteDirectoryReady\<close>, connecting and disconnecting): the readiness of a node follows its
    newest synchronisation, and a late answer is ignored.
  \<^item> \<open>Dead_Letters\<close> and \<open>Interceptor_Chain\<close> (\<open>messaging/dead-letter-queue.ts\<close>,
    \<open>messaging/interceptor-chain.ts\<close>): what a retry removes; the cached pipelines are the interceptors in the
    order of their priorities. \<open>Message_Routing\<close> (\<open>actor-system-impl.ts\<close>: \<open>enqueueMessageInternal\<close>,
    \<open>deliverMessageRemote\<close>): a send through interceptors, directory, router and transport to exactly one fate.
  \<^item> \<open>Message_Processing\<close> (\<open>actor-system-impl.ts\<close>: \<open>processMessageWithContext\<close>): what happens to a message in its actor, with
    interceptors, statistics, snapshots and observers. The statistics are the counts of the outcomes; interceptors
    of single actors never run.
  \<^item> \<open>Request_Correlation\<close> (\<open>pure-xstate-utilities.ts\<close>, \<open>correlation-manager.ts\<close>): two managers behind the
    locale \<open>correlation\<close>; every promise is settled once. \<open>Ask_Pattern\<close> (\<open>actor-system-impl.ts\<close>:
    \<open>askLocalActor\<close>, \<open>sendRuntimeRequest\<close>): replies, deadlines, and what a failed send leaves behind.
  \<^item> \<open>Supervision\<close> (\<open>actor-system-impl.ts\<close>: the two deciders, \<open>applySupervisionStrategy\<close>,
    \<open>restartActorWithLimits\<close>, \<open>restartSupervisorGroup\<close>, \<open>stopSupervisorGroup\<close>): a bound on the restarts in a window,
    the exact effect of restarting a group and of giving up, the well-formedness of the
    tables under arbitrary failures, and a restart that resurrects an actor stopped during the backoff.
  \<^item> \<open>Transport_Idempotency\<close> (\<open>runtime-transport-idempotency.ts\<close>): front cache, claims in two steps
    around the await, the in-memory provider; other providers are the locale \<open>idempotency_provider\<close>.
    At most one acceptance per frame; the exact window of the cache.
  \<^item> \<open>Transport_Contract\<close> (\<open>runtime-transport-contract.ts\<close>): frames, constructors, validators; an
    accepted frame is well-formed and a built one is accepted.
  \<^item> \<open>Transport_Peer\<close> and \<open>Transport_Core\<close> (\<open>transport/transport-reliability.ts\<close>,
    \<open>transport/transport-core.ts\<close>): the state of one peer (bounded outbound queue, pending
    acknowledgements, heartbeat), then the table of peers, where a closure keeps the peer object it
    captured, so peers live in a heap. Order of the outbound queue, bound on retries, the
    invariant of the whole transport, and two behaviours of reconnecting.
  \<^item> \<open>Transport_Stream\<close> (\<open>runtime-transport-stream.ts\<close>): both ends of a stream and its host, one step per
    handler. Writers respect credits, readers accept gaplessly, and between two hosts with a faulty network
    what is delivered is a prefix of what was written.
  \<^item> \<open>Mesh\<close> and \<open>Mesh_Routing\<close> (\<open>actor-labs-mesh/src\<close>: \<open>membership.ts\<close>, \<open>directory.ts\<close>,
    \<open>routing.ts\<close>, \<open>mesh.ts\<close>): membership and directory are instances of the locale \<open>newest_wins\<close>, so replicas
    converge; the next hop is a shortest safe route, and a delivery ends within its hop limit.
  \<^item> \<open>Agent_Receipts\<close> and \<open>Agent_Admission\<close> (\<open>agent-execution-contract.ts\<close>): receipts and traces
    as JSON objects, their validators, redaction, sanitizing and parsing; the admission of a command.
    Redaction removes exactly the sensitive entries, parsing is stable, sanitizing keeps a trace valid,
    a command is admitted exactly when each check passes, and its receipts open a valid trace.
  \<^item> \<open>Text_Encoding\<close> (\<open>encodeURIComponent\<close>), \<open>Effect_Journal\<close> and \<open>Provider_Actor\<close> (\<open>node-provider-lifecycle-effect-journal.ts\<close>,
    \<open>node-provider-actor.ts\<close>): keys, the in-memory journal as an instance of the locale \<open>effect_journal\<close>, interleaved
    effects, and the actor's commands over arbitrary ports. A key names one operation, an effect happens
    at most once, a process is spawned at most once per operation, the projection is consistent.
  \<^item> \<open>Event_Store\<close> (\<open>event-sourcing.ts\<close>), \<open>Lattice_Artifacts\<close> and \<open>Lattice\<close> (\<open>actor-lattice/src\<close>: \<open>artifact.ts\<close>,
    \<open>dependency.ts\<close>, \<open>lattice-actor.ts\<close>): artifacts, dependencies on them, their activations, and the journal behind
    the locale \<open>lattice_journal\<close>. An actor restarted at any time is the replay of its journal, activates each satisfied
    dependency as its mode says, and delivers again what is not acknowledged.
  \<^item> \<open>Checkpoint_Store\<close> (\<open>agent-session-checkpoint-store.ts\<close>): envelopes, validators, the in-memory store,
    rehydration. A session resumes exactly from the checkpoint accepted last and only if nothing is open.
  \<^item> \<open>Agent_Loop\<close> (\<open>packages/actor-agent/src/index.ts\<close>): the turns of a language-model agent over that store, with failing
    writes, lost answers, crashes and reconciliation. The model is called once per recorded outcome, and an answer that was given
    survives a restart.
  \<^item> \<open>Runtime_Projection\<close> and \<open>Remote_Projection\<close> (\<open>runtime-projection.ts\<close>, \<open>projection-transport.ts\<close>, \<open>actor-system-impl.ts\<close>: the
    projection subscriptions and watchers): snapshots and events as data, one publishing node and the nodes that watch it. A change
    reaches every known watcher; what a replay keeps back and what a restart ends.
  \<^item> \<open>Topology_Edges\<close> (\<open>actor-system-impl.ts\<close>: the topology subscriptions): intents of subscribers, edges of the publisher, replay
    after a reconnection. Events go to exactly the wired subscribers whose filter lets them through.

  \<^item> \<open>Gateway_Hub\<close>, \<open>Gateway_Commands\<close>, \<open>Gateway_Streams\<close> and \<open>Gateway_Replay\<close> (\<open>runtime-gateway.ts\<close>, \<open>runtime-auth.ts\<close>): one
    connection of the gateway as a machine over frames, answers of sources and adapters, failing sends and its end. Commands fail
    closed; no listener at a source outlives its stream; a client that resynchronizes gets exactly what it missed or a fresh frame.
    \<open>Gateway_Sources\<close>: the read model of an actor and the bounded buffer of its traces.
  \<^item> \<open>Web_Source\<close>, \<open>Web_Calls\<close> and \<open>Trace_Client\<close> (\<open>actor-web-source.ts\<close>): a page's side of the gateway, its promises, and the trace
    source that reconnects. \<open>Gateway_Link\<close> and \<open>Web_Delivery\<close> put gateway and page together: over an ordered link the page takes
    every frame of its stream once and in order.

  \<^bold>\<open>How the components meet.\<close> \<open>Processing_Loop\<close> runs over \<open>Mailbox\<close>, whose contract is \<open>fifo_buffer\<close>.
  \<open>Transport_Core\<close> composes the contract, the claims and the peers in its inbound pipeline. \<open>Provider_Actor\<close>
  runs every effect through \<open>Effect_Journal\<close>. \<open>Message_Routing\<close> composes the interceptors, the directory, the
  mailboxes of \<open>Processing_Loop\<close> and the dead letters; \<open>Ask_Pattern\<close> calls the manager of \<open>Request_Correlation\<close>. \<open>Agent_Admission\<close> builds the receipts that \<open>Agent_Receipts\<close> validates,
  and \<open>Gateway_Hub\<close> puts it before every command of a client.

  \<^bold>\<open>Conventions.\<close> JavaScript runs one job at a time, so code between two awaits is one step and
  interleavings are sequences of steps. Clocks, random ids, byte sizes, date parsing, links, providers and
  ports are arguments. Integers of the source are below \<open>2\<close> to the \<open>53\<close> and are \<open>int\<close> or \<open>nat\<close>. Texts are lists of
  characters below 256. Errors are constructors of a sum; the wording of messages is left out
  where only the code decides. No definition needs fuel: loops are structural recursions or terminate by a
  measure, the breadth-first search of \<open>Mesh_Routing\<close> by the nodes it has not yet seen.

  \<^bold>\<open>Not modelled.\<close> Bindings of host sockets (\<open>node-websocket-message-transport.ts\<close>,
  \<open>webrtc-message-transport.ts\<close> and the others), servers and clients (\<open>actor-web-client.ts\<close>,
  \<open>serve-actor-web-node.ts\<close>) and the file-backed stores are I/O around the
  modelled parts. Actor behaviours (\<open>create-actor.ts\<close>, \<open>component-actor.ts\<close>) are the user's
  functions, arguments here. JSON-unsafe values, freezing and typing code have no counterpart.

  \<^bold>\<open>Plan.\<close> Message plans; the system events; node sessions; capabilities; the gateway protocol.
\<close>

end
